(* ===== verification/Reins_Prelude.thy ===== *)
theory Reins_Prelude
  imports Complex_Main "HOL-Library.AList" "HOL-Library.Sorting_Algorithms"
begin

text \<open>
  Shared vocabulary of the development: JavaScript values that the code treats as opaque
  (\<open>json\<close>), truthiness, \<open>Map\<close> objects (association lists in insertion order, updated with
  \<open>AList.update\<close>, which keeps the position of an existing key exactly as \<open>Map.set\<close> does),
  array access by index, \<open>findIndex\<close>, and the string functions the parsers use. A string is
  the list of the bytes of its UTF-8 form: the code modelled over \<open>string\<close> only concatenates,
  compares and cuts at ASCII characters, which commutes with the encoding. White space is the
  ASCII white space. Where the code counts code units or bytes, its theory has its own text type.
\<close>

named_theorems ordmap_simps \<open>facts about JavaScript maps\<close>
named_theorems index_simps \<open>facts about first-match searches in arrays\<close>

subsection \<open>JSON values and truthiness\<close>

datatype json =
    JNull
  | JBool bool
  | JNum rat
  | JStr string
  | JArr "json list"
  | JObj "(string \<times> json) list"

text \<open>An optional string is truthy when it is present and not empty.\<close>

definition truthyStr :: "string option \<Rightarrow> bool" where
  "truthyStr s = (case s of None \<Rightarrow> False | Some t \<Rightarrow> t \<noteq> [])"

lemma truthyStr_simps [simp]:
  "truthyStr None = False"
  "truthyStr (Some t) = (t \<noteq> [])"
  by (simp_all add: truthyStr_def)

lemma truthyStr_iff: "truthyStr s \<longleftrightarrow> (\<exists>t. s = Some t \<and> t \<noteq> [])"
  by (cases s) auto

text \<open>\<open>a ?? b\<close> on an optional left operand.\<close>

definition orElse :: "'a option \<Rightarrow> 'a \<Rightarrow> 'a" where
  "orElse a b = (case a of None \<Rightarrow> b | Some x \<Rightarrow> x)"

lemma orElse_simps [simp]: "orElse None b = b" "orElse (Some x) b = x"
  by (simp_all add: orElse_def)

lemma orElse_twice [simp]: "orElse a (orElse a b) = orElse a b"
  by (cases a) simp_all

subsection \<open>Maps in insertion order\<close>

type_synonym ('k, 'v) jsmap = "('k \<times> 'v) list"

abbreviation jmGet :: "('k, 'v) jsmap \<Rightarrow> 'k \<Rightarrow> 'v option" where
  "jmGet \<equiv> map_of"

abbreviation jmSet :: "'k \<Rightarrow> 'v \<Rightarrow> ('k, 'v) jsmap \<Rightarrow> ('k, 'v) jsmap" where
  "jmSet \<equiv> AList.update"

abbreviation jmDelete :: "'k \<Rightarrow> ('k, 'v) jsmap \<Rightarrow> ('k, 'v) jsmap" where
  "jmDelete \<equiv> AList.delete"

definition jmHas :: "('k, 'v) jsmap \<Rightarrow> 'k \<Rightarrow> bool" where
  "jmHas m k = (map_of m k \<noteq> None)"

abbreviation jmWf :: "('k, 'v) jsmap \<Rightarrow> bool" where
  "jmWf m \<equiv> distinct (map fst m)"

lemma jmHas_iff [ordmap_simps]: "jmHas m k \<longleftrightarrow> k \<in> fst ` set m"
  by (simp add: jmHas_def map_of_eq_None_iff)

lemma jmGet_set [simp, ordmap_simps]: "jmGet (jmSet k v m) = (jmGet m)(k \<mapsto> v)"
  by (rule update_conv')

lemma jmGet_delete [simp, ordmap_simps]: "jmGet (jmDelete k m) = (jmGet m)(k := None)"
  by (rule delete_conv')

lemma jmHas_set [simp]: "jmHas (jmSet k v m) j \<longleftrightarrow> j = k \<or> jmHas m j"
  by (simp add: jmHas_def)

lemma jmHas_delete [simp]: "jmHas (jmDelete k m) j \<longleftrightarrow> j \<noteq> k \<and> jmHas m j"
  by (simp add: jmHas_def)

lemma jmHas_Nil [simp]: "\<not> jmHas [] k"
  by (simp add: jmHas_def)

lemma jmWf_set [intro, simp]: "jmWf m \<Longrightarrow> jmWf (jmSet k v m)"
  by (rule distinct_update)

lemma jmWf_delete [intro, simp]: "jmWf m \<Longrightarrow> jmWf (jmDelete k m)"
  by (rule distinct_delete)

text \<open>A key that is absent is appended, a present one keeps its place.\<close>

lemma jmSet_absent [ordmap_simps]: "k \<notin> fst ` set m \<Longrightarrow> jmSet k v m = m @ [(k, v)]"
  by (induction m) auto

lemma jmSet_keys [ordmap_simps]:
  "map fst (jmSet k v m) = (if k \<in> fst ` set m then map fst m else map fst m @ [k])"
  by (induction m) auto

lemma jmSet_same: "jmGet m k = Some v \<Longrightarrow> jmSet k v m = m"
  by (induction m) (auto split: if_splits)

text \<open>A property of every entry, kept by the operations.\<close>

definition jmAll :: "('k \<Rightarrow> 'v \<Rightarrow> bool) \<Rightarrow> ('k, 'v) jsmap \<Rightarrow> bool" where
  "jmAll P m = (\<forall>(k, v)\<in>set m. P k v)"

lemma jmAll_Nil [simp]: "jmAll P []"
  by (simp add: jmAll_def)

lemma jmAll_set [simp]: "jmAll P m \<Longrightarrow> P k v \<Longrightarrow> jmAll P (jmSet k v m)"
  unfolding jmAll_def by (induction m) auto

lemma jmAll_delete [simp]: "jmAll P m \<Longrightarrow> jmAll P (jmDelete k m)"
  by (auto simp: jmAll_def AList.delete_eq)

lemma jmAll_get: "jmAll P m \<Longrightarrow> jmGet m k = Some v \<Longrightarrow> P k v"
  by (auto simp: jmAll_def dest: map_of_SomeD)

lemma jmAll_mono: "jmAll P m \<Longrightarrow> (\<And>k v. P k v \<Longrightarrow> Q k v) \<Longrightarrow> jmAll Q m"
  by (auto simp: jmAll_def)

subsection \<open>Arrays\<close>

text \<open>\<open>xs[i]\<close> for a number \<open>i\<close>: \<open>undefined\<close> out of range, negative indices included.\<close>

definition jsNth :: "'a list \<Rightarrow> int \<Rightarrow> 'a option" where
  "jsNth xs i = (if 0 \<le> i \<and> i < int (length xs) then Some (xs ! nat i) else None)"

lemma jsNth_Some: "jsNth xs i = Some x \<longleftrightarrow> 0 \<le> i \<and> nat i < length xs \<and> xs ! nat i = x"
  by (auto simp: jsNth_def)

text \<open>\<open>findIndex\<close>, with \<open>None\<close> for \<open>-1\<close>.\<close>

fun findIndex :: "('a \<Rightarrow> bool) \<Rightarrow> 'a list \<Rightarrow> nat option" where
  "findIndex P [] = None"
| "findIndex P (x # xs) = (if P x then Some 0 else map_option Suc (findIndex P xs))"

lemma findIndex_None [index_simps]: "findIndex P xs = None \<longleftrightarrow> (\<forall>x\<in>set xs. \<not> P x)"
  by (induction xs) auto

lemma findIndex_Some:
  "findIndex P xs = Some i \<longleftrightarrow> i < length xs \<and> P (xs ! i) \<and> (\<forall>j<i. \<not> P (xs ! j))"
proof (induction xs arbitrary: i)
  case (Cons x xs)
  show ?case
    by (cases i) (auto simp: Cons.IH less_Suc_eq_0_disj nth_Cons')
qed simp

lemma findIndex_SomeD [dest]:
  assumes "findIndex P xs = Some i"
  shows "i < length xs" "P (xs ! i)"
  using assms by (auto simp: findIndex_Some)

lemma findIndex_update [index_simps]:
  assumes "findIndex P xs = Some i" "P y"
  shows "findIndex P (xs[i := y]) = Some i"
  using assms by (auto simp: findIndex_Some nth_list_update)

lemma findIndex_update_other [index_simps]:
  "\<not> P y \<Longrightarrow> i < length xs \<Longrightarrow> \<not> P (xs ! i) \<Longrightarrow> findIndex P (xs[i := y]) = findIndex P xs"
proof (induction xs arbitrary: i)
  case (Cons x xs)
  then show ?case by (cases i) auto
qed simp

lemma findIndex_append [index_simps]:
  "findIndex P (xs @ ys) =
     (case findIndex P xs of None \<Rightarrow> map_option (\<lambda>i. i + length xs) (findIndex P ys) | Some i \<Rightarrow> Some i)"
  by (induction xs) (auto simp: option.map_comp comp_def option.map_ident split: option.splits)

lemma findIndex_map: "findIndex P (map f xs) = findIndex (\<lambda>x. P (f x)) xs"
  by (induction xs) auto

text \<open>Replacing the first match leaves every projection that the replacement keeps.\<close>

lemma map_list_update_same: "i < length xs \<Longrightarrow> f y = f (xs ! i) \<Longrightarrow> map f (xs[i := y]) = map f xs"
  by (simp add: map_update list_update_same_conv)

lemma find_SomeD:
  assumes "find P xs = Some x"
  shows "x \<in> set xs" "P x"
  using assms by (induction xs) (auto split: if_splits)

lemma find_unique: "distinct (map f xs) \<Longrightarrow> x \<in> set xs \<Longrightarrow> find (\<lambda>y. f y = f x) xs = Some x"
  by (induction xs) auto

subsection \<open>Strings\<close>

definition startsWith :: "string \<Rightarrow> string \<Rightarrow> bool" where
  "startsWith s p = (take (length p) s = p)"

definition endsWith :: "string \<Rightarrow> string \<Rightarrow> bool" where
  "endsWith s p = (length p \<le> length s \<and> drop (length s - length p) s = p)"

lemma startsWith_Nil [simp]: "startsWith s []"
  by (simp add: startsWith_def)

lemma startsWith_Cons [simp]:
  "startsWith [] (p # ps) = False"
  "startsWith (c # s) (p # ps) = (c = p \<and> startsWith s ps)"
  by (auto simp: startsWith_def)

lemma startsWith_append [simp]: "startsWith (p @ s) p"
  by (simp add: startsWith_def)

definition newlineC :: char where "newlineC = CHR 10"
definition returnC :: char where "returnC = CHR 13"
definition tabC :: char where "tabC = CHR 9"

text \<open>\<open>\s\<close> of a regular expression and the characters that \<open>trim\<close> removes, in ASCII.\<close>

definition isSpace :: "char \<Rightarrow> bool" where
  "isSpace c = (c \<in> {CHR 9, CHR 10, CHR 11, CHR 12, CHR 13, CHR 32})"

definition isDigitC :: "char \<Rightarrow> bool" where
  "isDigitC c = (48 \<le> (of_char c :: nat) \<and> (of_char c :: nat) \<le> 57)"

definition trimStart :: "string \<Rightarrow> string" where
  "trimStart = dropWhile isSpace"

definition trimEnd :: "string \<Rightarrow> string" where
  "trimEnd s = rev (dropWhile isSpace (rev s))"

definition trimStr :: "string \<Rightarrow> string" where
  "trimStr s = trimEnd (trimStart s)"

lemma trimStr_empty_iff: "trimStr s = [] \<longleftrightarrow> (\<forall>c\<in>set s. isSpace c)"
proof -
  have "trimEnd (trimStart s) = [] \<longleftrightarrow> (\<forall>c\<in>set (trimStart s). isSpace c)"
    by (simp add: trimEnd_def dropWhile_eq_Nil_conv)
  also have "\<dots> \<longleftrightarrow> (\<forall>c\<in>set s. isSpace c)"
    unfolding trimStart_def
    by (metis dropWhile_eq_Nil_conv hd_dropWhile hd_in_set set_dropWhileD)
  finally show ?thesis by (simp add: trimStr_def)
qed

text \<open>\<open>split(sep)\<close> on one character: always at least one piece.\<close>

fun splitOn :: "char \<Rightarrow> string \<Rightarrow> string list" where
  "splitOn c [] = [[]]"
| "splitOn c (x # xs) =
     (if x = c then [] # splitOn c xs
      else (case splitOn c xs of [] \<Rightarrow> [[x]] | p # ps \<Rightarrow> (x # p) # ps))"

lemma splitOn_not_Nil [simp]: "splitOn c s \<noteq> []"
  by (induction s) (auto split: list.splits)

fun joinWith :: "string \<Rightarrow> string list \<Rightarrow> string" where
  "joinWith sep [] = []"
| "joinWith sep [x] = x"
| "joinWith sep (x # y # ys) = x @ sep @ joinWith sep (y # ys)"

lemma joinWith_Cons: "ps \<noteq> [] \<Longrightarrow> joinWith sep (p # ps) = p @ sep @ joinWith sep ps"
  by (cases ps) auto

lemma join_splitOn: "joinWith [c] (splitOn c s) = s"
proof (induction s)
  case (Cons x xs)
  obtain p ps where eq: "splitOn c xs = p # ps" by (meson neq_Nil_conv splitOn_not_Nil)
  with Cons show ?case by (cases ps) auto
qed simp

lemma splitOn_free: "p \<in> set (splitOn c s) \<Longrightarrow> c \<notin> set p"
proof (induction s arbitrary: p)
  case (Cons x xs)
  obtain q qs where eq: "splitOn c xs = q # qs" by (meson neq_Nil_conv splitOn_not_Nil)
  from Cons show ?case by (auto simp: eq split: if_splits)
qed simp

lemma splitOn_no_sep: "c \<notin> set s \<Longrightarrow> splitOn c s = [s]"
  by (induction s) auto

lemma splitOn_append: "c \<notin> set p \<Longrightarrow> splitOn c (p @ c # s) = p # splitOn c s"
  by (induction p) auto

text \<open>A natural number in decimal.\<close>

definition digitChar :: "nat \<Rightarrow> char" where
  "digitChar n = char_of (48 + n)"

fun showNat :: "nat \<Rightarrow> string" where
  "showNat n = (if n < 10 then [digitChar n] else showNat (n div 10) @ [digitChar (n mod 10)])"

declare showNat.simps [simp del]

definition digitsToNat :: "string \<Rightarrow> nat" where
  "digitsToNat s = foldl (\<lambda>n c. 10 * n + (of_char c - 48)) 0 s"

lemma digitChar_digit: "n < 10 \<Longrightarrow> isDigitC (digitChar n) \<and> (of_char (digitChar n) :: nat) = 48 + n"
  by (simp add: digitChar_def isDigitC_def of_char_of)

lemma digitsToNat_snoc: "digitsToNat (s @ [c]) = 10 * digitsToNat s + (of_char c - 48)"
  by (simp add: digitsToNat_def)

lemma showNat_digits: "list_all isDigitC (showNat n) \<and> showNat n \<noteq> [] \<and> digitsToNat (showNat n) = n"
proof (induction n rule: showNat.induct)
  case (1 n)
  show ?case
  proof (cases "n < 10")
    case True
    then show ?thesis
      by (simp add: showNat.simps [of n] digitChar_digit digitsToNat_def)
  next
    case False
    then have "showNat n = showNat (n div 10) @ [digitChar (n mod 10)]" by (simp add: showNat.simps [of n])
    with 1 False show ?thesis by (simp add: digitsToNat_snoc digitChar_digit)
  qed
qed

lemma showNat_inject [simp]: "showNat m = showNat n \<longleftrightarrow> m = n"
  using showNat_digits [of m] showNat_digits [of n] by metis

definition showInt :: "int \<Rightarrow> string" where
  "showInt n = (if n < 0 then CHR ''-'' # showNat (nat (- n)) else showNat (nat n))"

lemma splitOn_join:
  assumes "ls \<noteq> []" "\<And>l. l \<in> set ls \<Longrightarrow> c \<notin> set l"
  shows "splitOn c (joinWith [c] ls) = ls"
  using assms
proof (induction ls rule: induct_list012)
  case (2 x)
  then show ?case by (simp add: splitOn_no_sep)
next
  case (3 x y zs)
  then show ?case by (simp add: splitOn_append)
qed simp

end
