(* ===== verification/Chat_State.thy ===== *)
theory Chat_State
  imports Reins_Prelude
begin

text \<open>
  The chat state reducer of \<^verbatim>\<open>packages/frontend/src/models/chat-state.ts\<close> over the messages of
  \<^verbatim>\<open>agent-message.ts\<close> and \<^verbatim>\<open>chat-content.ts\<close>: live assistant overlays addressed by stream,
  grown by deltas and replaced by keyframes, the live state of tool calls by call ID, and the
  presentation flags. A record with optional fields has an \<open>option\<close> for each; a field that is only
  ever \<open>true\<close> or absent is a \<open>bool\<close>. Times are integers.

  The reducer also promises to keep the identity of what it does not change. A value of HOL has no
  identity, so \<open>streamsRebuilt\<close> and \<open>toolsRebuilt\<close> say, branch by branch, when the code
  allocates a new array or object; the store that compares identities uses them.
\<close>

subsection \<open>Messages\<close>

datatype chatImageBlock =
    InlineImageBlock (iibData: string) (iibMime: string) (iibFilename: "string option")
      (iibWidth: "rat option") (iibHeight: "rat option")
  | ImageAttachmentBlock (iabId: string) (iabMime: string) (iabFilename: "string option")
      (iabByteSize: nat) (iabSha256: "string option") (iabWidth: "rat option") (iabHeight: "rat option")

datatype contentBlock = TextContentBlock string | ImageContentBlock chatImageBlock

record toolCall =
  tcId :: string
  tcName :: string
  tcArguments :: json
  tcPartialJson :: "string option"

datatype assistantBlock =
    TextContent string
  | ThinkingContent string
  | ToolCallContent toolCall

record assistantMessage =
  amContent :: "assistantBlock list"
  amTimestamp :: int
  amStopReason :: "string option"
  amErrorMessage :: "string option"

datatype userMessageContent = UserText string | UserBlocks "contentBlock list"

record userMessage =
  umContent :: userMessageContent
  umMetadata :: "(string \<times> json) list option"
  umTimestamp :: int

record toolResultMessage =
  trmCallId :: string
  trmToolName :: string
  trmContent :: "contentBlock list"
  trmDetails :: "json option"
  trmIsError :: bool
  trmTimestamp :: int

record compactionSummaryMessage =
  cmContent :: "string option"
  cmSummary :: "string option"
  cmTimestamp :: int

datatype agentMessage =
    UserMsg userMessage
  | AssistantMsg assistantMessage
  | ToolResultMsg toolResultMessage
  | CompactionMsg compactionSummaryMessage

subsection \<open>The state\<close>

datatype executionStatus = Running | Done

record toolResult =
  resContent :: "contentBlock list"
  resDetails :: "json option"

record toolExecution =
  teStatus :: executionStatus
  teResult :: "toolResult option"
  teIsError :: "bool option"

record streamingAssistant =
  saStreamId :: string
  saDurableId :: "string option"
  saMessage :: assistantMessage
  saStale :: bool

datatype assistantStreamEvent =
    TextStart int
  | ThinkingStart int
  | ToolcallStart int
  | TextDelta int string
  | ThinkingDelta int string
  | ToolcallDelta int string
  | TextEnd int string
  | ThinkingEnd int string
  | ToolcallEnd int toolCall

fun contentIndex :: "assistantStreamEvent \<Rightarrow> int" where
  "contentIndex (TextStart i) = i"
| "contentIndex (ThinkingStart i) = i"
| "contentIndex (ToolcallStart i) = i"
| "contentIndex (TextDelta i d) = i"
| "contentIndex (ThinkingDelta i d) = i"
| "contentIndex (ToolcallDelta i d) = i"
| "contentIndex (TextEnd i c) = i"
| "contentIndex (ThinkingEnd i c) = i"
| "contentIndex (ToolcallEnd i t) = i"

record runError =
  reCode :: "string option"
  reMessage :: string

record conversationEntry =
  ceId :: string
  ceParentId :: "string option"
  ceSeq :: int
  ceClientId :: "string option"
  ceMessage :: agentMessage

datatype chatEvent =
    AgentStart
  | MessageStart agentMessage string
  | MessageUpdate "agentMessage option" string assistantStreamEvent
  | ToolExecutionStart string string json
  | ToolExecutionUpdate string string json "toolResult option"
  | ToolExecutionEnd string string "toolResult option" "bool option"
  | AgentEnd "agentMessage list option" "runError option"
  | MessageEnd agentMessage string "string option"
  | EntryAdded conversationEntry
  | CompactionStart "string option"
  | CompactionEnd "string option"
  | AutoRetryStart nat nat nat string
  | AutoRetryEnd bool nat "string option"

record chatState =
  streamingAssistants :: "streamingAssistant list"
  toolExecutions :: "(string, toolExecution) jsmap"
  isCompacting :: bool
  errorMessage :: string

definition initialChatState :: chatState where
  "initialChatState =
     \<lparr>streamingAssistants = [], toolExecutions = [], isCompacting = False, errorMessage = []\<rparr>"

subsection \<open>The reducer\<close>

definition streamIndex :: "streamingAssistant list \<Rightarrow> string \<Rightarrow> nat option" where
  "streamIndex sas sid = findIndex (\<lambda>sa. saStreamId sa = sid) sas"

definition upsertAssistantSnapshot ::
  "chatState \<Rightarrow> string \<Rightarrow> agentMessage \<Rightarrow> string option \<Rightarrow> chatState" where
  "upsertAssistantSnapshot st sid msg entryId =
     (case msg of
        AssistantMsg m \<Rightarrow>
          (case streamIndex (streamingAssistants st) sid of
             None \<Rightarrow> st\<lparr>streamingAssistants := streamingAssistants st @
                      [\<lparr>saStreamId = sid,
                        saDurableId = (if truthyStr entryId then entryId else None),
                        saMessage = m, saStale = False\<rparr>]\<rparr>
           | Some i \<Rightarrow>
               (let current = streamingAssistants st ! i
                in st\<lparr>streamingAssistants := (streamingAssistants st)[i :=
                     current\<lparr>saDurableId := (if truthyStr entryId then entryId else saDurableId current),
                             saMessage := m, saStale := False\<rparr>]\<rparr>))
      | _ \<Rightarrow> st)"

fun applyStreamStep :: "assistantBlock option \<Rightarrow> assistantStreamEvent \<Rightarrow> assistantBlock option" where
  "applyStreamStep (Some (TextContent t)) (TextDelta i d) = Some (TextContent (t @ d))"
| "applyStreamStep (Some (TextContent t)) (TextEnd i c) = Some (TextContent c)"
| "applyStreamStep (Some (ThinkingContent t)) (ThinkingDelta i d) = Some (ThinkingContent (t @ d))"
| "applyStreamStep (Some (ThinkingContent t)) (ThinkingEnd i c) = Some (ThinkingContent c)"
| "applyStreamStep (Some (ToolCallContent tc)) (ToolcallDelta i d) =
     Some (ToolCallContent (tc\<lparr>tcPartialJson := Some (orElse (tcPartialJson tc) [] @ d)\<rparr>))"
| "applyStreamStep (Some (ToolCallContent tc)) (ToolcallEnd i t) =
     (if tcId tc = tcId t then Some (ToolCallContent t) else None)"
| "applyStreamStep _ _ = None"

definition applyAssistantDelta :: "chatState \<Rightarrow> string \<Rightarrow> assistantStreamEvent \<Rightarrow> chatState" where
  "applyAssistantDelta st sid step =
     (case streamIndex (streamingAssistants st) sid of
        None \<Rightarrow> st
      | Some i \<Rightarrow>
          (let current = streamingAssistants st ! i; content = amContent (saMessage current)
           in if saStale current then st
              else (case applyStreamStep (jsNth content (contentIndex step)) step of
                      None \<Rightarrow> st\<lparr>streamingAssistants := (streamingAssistants st)[i := current\<lparr>saStale := True\<rparr>]\<rparr>
                    | Some block \<Rightarrow>
                        st\<lparr>streamingAssistants := (streamingAssistants st)[i :=
                          current\<lparr>saMessage := (saMessage current)
                            \<lparr>amContent := content[nat (contentIndex step) := block]\<rparr>\<rparr>]\<rparr>)))"

definition markStreamsStale :: "streamingAssistant list \<Rightarrow> streamingAssistant list" where
  "markStreamsStale sas =
     (if list_all saStale sas then sas
      else map (\<lambda>sa. if saStale sa then sa else sa\<lparr>saStale := True\<rparr>) sas)"

definition setToolExecution :: "chatState \<Rightarrow> string \<Rightarrow> toolExecution \<Rightarrow> chatState" where
  "setToolExecution st callId ex = st\<lparr>toolExecutions := jmSet callId ex (toolExecutions st)\<rparr>"

definition removePersistedStreamingAssistants ::
  "streamingAssistant list \<Rightarrow> string list \<Rightarrow> streamingAssistant list" where
  "removePersistedStreamingAssistants sas durableIds =
     filter (\<lambda>sa. \<not> truthyStr (saDurableId sa) \<or> the (saDurableId sa) \<notin> set durableIds) sas"

text \<open>The backwards loop of \<open>agent_end\<close>: the last failed assistant's error, if any.\<close>

fun failedAssistantError :: "agentMessage \<Rightarrow> string option" where
  "failedAssistantError (AssistantMsg m) =
     (if amStopReason m = Some ''error'' \<and> truthyStr (amErrorMessage m) then amErrorMessage m else None)"
| "failedAssistantError _ = None"

fun lastFailure :: "agentMessage list \<Rightarrow> string option" where
  "lastFailure [] = None"
| "lastFailure (m # ms) =
     (case lastFailure ms of None \<Rightarrow> failedAssistantError m | Some e \<Rightarrow> Some e)"

definition agentEndError :: "chatState \<Rightarrow> agentMessage list option \<Rightarrow> runError option \<Rightarrow> string" where
  "agentEndError st msgs err =
     (case err of
        Some e \<Rightarrow> reMessage e
      | None \<Rightarrow> (case msgs of None \<Rightarrow> errorMessage st
                 | Some ms \<Rightarrow> orElse (lastFailure ms) (errorMessage st)))"

fun applyChatEvent :: "chatState \<Rightarrow> chatEvent \<Rightarrow> chatState" where
  "applyChatEvent st AgentStart = st"
| "applyChatEvent st (MessageStart m sid) = upsertAssistantSnapshot st sid m None"
| "applyChatEvent st (MessageEnd m sid entryId) = upsertAssistantSnapshot st sid m entryId"
| "applyChatEvent st (MessageUpdate msg sid step) =
     (case msg of Some m \<Rightarrow> upsertAssistantSnapshot st sid m None
      | None \<Rightarrow> applyAssistantDelta st sid step)"
| "applyChatEvent st (ToolExecutionStart cid name args) =
     (if jmHas (toolExecutions st) cid then st
      else setToolExecution st cid \<lparr>teStatus = Running, teResult = None, teIsError = None\<rparr>)"
| "applyChatEvent st (ToolExecutionUpdate cid name args partial) =
     (if map_option teStatus (jmGet (toolExecutions st) cid) = Some Done then st
      else setToolExecution st cid \<lparr>teStatus = Running, teResult = partial, teIsError = None\<rparr>)"
| "applyChatEvent st (ToolExecutionEnd cid name res isErr) =
     setToolExecution st cid \<lparr>teStatus = Done, teResult = res, teIsError = isErr\<rparr>"
| "applyChatEvent st (AgentEnd msgs err) =
     st\<lparr>streamingAssistants := [], toolExecutions := [], errorMessage := agentEndError st msgs err\<rparr>"
| "applyChatEvent st (CompactionStart reason) = st\<lparr>isCompacting := True\<rparr>"
| "applyChatEvent st (CompactionEnd err) =
     (if truthyStr err then st\<lparr>isCompacting := False, errorMessage := the err\<rparr>
      else if isCompacting st then st\<lparr>isCompacting := False\<rparr> else st)"
| "applyChatEvent st (EntryAdded e) = st"
| "applyChatEvent st (AutoRetryStart attempt maxAttempts delay err) =
     st\<lparr>errorMessage := ''Retrying ('' @ showNat attempt @ ''/'' @ showNat maxAttempts @ '')'' @ [CHR 226, CHR 128, CHR 166] @ '' '' @ err\<rparr>"
| "applyChatEvent st (AutoRetryEnd success attempt finalError) =
     (if success then st\<lparr>errorMessage := []\<rparr>
      else st\<lparr>errorMessage := (if truthyStr finalError then the finalError else ''All retry attempts failed'')\<rparr>)"

subsection \<open>What is allocated anew\<close>

definition snapshotRebuilds :: "agentMessage \<Rightarrow> bool" where
  "snapshotRebuilds msg = (case msg of AssistantMsg m \<Rightarrow> True | _ \<Rightarrow> False)"

definition deltaRebuilds :: "chatState \<Rightarrow> string \<Rightarrow> bool" where
  "deltaRebuilds st sid =
     (case streamIndex (streamingAssistants st) sid of
        None \<Rightarrow> False
      | Some i \<Rightarrow> \<not> saStale (streamingAssistants st ! i))"

fun streamsRebuilt :: "chatState \<Rightarrow> chatEvent \<Rightarrow> bool" where
  "streamsRebuilt st (MessageStart m sid) = snapshotRebuilds m"
| "streamsRebuilt st (MessageEnd m sid entryId) = snapshotRebuilds m"
| "streamsRebuilt st (MessageUpdate msg sid step) =
     (case msg of Some m \<Rightarrow> snapshotRebuilds m | None \<Rightarrow> deltaRebuilds st sid)"
| "streamsRebuilt st (AgentEnd msgs err) = True"
| "streamsRebuilt st _ = False"

fun toolsRebuilt :: "chatState \<Rightarrow> chatEvent \<Rightarrow> bool" where
  "toolsRebuilt st (ToolExecutionStart cid name args) = (\<not> jmHas (toolExecutions st) cid)"
| "toolsRebuilt st (ToolExecutionUpdate cid name args partial) =
     (map_option teStatus (jmGet (toolExecutions st) cid) \<noteq> Some Done)"
| "toolsRebuilt st (ToolExecutionEnd cid name res isErr) = True"
| "toolsRebuilt st (AgentEnd msgs err) = True"
| "toolsRebuilt st _ = False"

subsection \<open>Lookups and frames\<close>

definition overlayOf :: "chatState \<Rightarrow> string \<Rightarrow> streamingAssistant option" where
  "overlayOf st sid = map_option (\<lambda>i. streamingAssistants st ! i) (streamIndex (streamingAssistants st) sid)"

lemma streamIndex_SomeD [dest]:
  assumes "streamIndex sas sid = Some i"
  shows "i < length sas" "saStreamId (sas ! i) = sid"
  using assms by (auto simp: streamIndex_def dest: findIndex_SomeD)

lemma streamIndex_None_iff: "streamIndex sas sid = None \<longleftrightarrow> sid \<notin> saStreamId ` set sas"
  by (auto simp: streamIndex_def findIndex_None)

lemma streamIndex_update [simp]:
  assumes "i < length sas" "saStreamId sa = saStreamId (sas ! i)"
  shows "streamIndex (sas[i := sa]) sid = streamIndex sas sid"
proof (cases "saStreamId (sas ! i) = sid")
  case True
  then show ?thesis
    using assms by (auto simp: streamIndex_def findIndex_map [symmetric, of "\<lambda>x. x = sid" saStreamId]
        map_list_update_same)
next
  case False
  then show ?thesis using assms by (simp add: streamIndex_def findIndex_update_other)
qed

lemma overlayOf_update:
  assumes "streamIndex (streamingAssistants st) sid = Some i" "saStreamId sa = sid"
  shows "overlayOf (st\<lparr>streamingAssistants := (streamingAssistants st)[i := sa]\<rparr>) sid' =
           (if sid' = sid then Some sa else overlayOf st sid')"
  using assms streamIndex_SomeD [OF assms(1)]
  by (auto simp: overlayOf_def nth_list_update map_option_case split: option.splits)

lemma overlayOf_SomeE:
  assumes "overlayOf st sid = Some sa"
  obtains i where "streamIndex (streamingAssistants st) sid = Some i" "i < length (streamingAssistants st)"
    "sa = streamingAssistants st ! i" "saStreamId sa = sid"
  using assms by (auto simp: overlayOf_def)

lemma overlayOf_append_new:
  assumes "streamIndex (streamingAssistants st) sid = None" "saStreamId sa = sid"
  shows "overlayOf (st\<lparr>streamingAssistants := streamingAssistants st @ [sa]\<rparr>) sid' =
           (if sid' = sid then Some sa else overlayOf st sid')"
  using assms
  by (auto simp: overlayOf_def streamIndex_def findIndex_append nth_append split: option.splits
      dest: findIndex_SomeD)

text \<open>A snapshot installs exactly its message, unmarked, and touches no other overlay.\<close>

lemma overlayOf_snapshot:
  "overlayOf (upsertAssistantSnapshot st sid (AssistantMsg m) entryId) sid' =
     (if sid' = sid
      then Some \<lparr>saStreamId = sid,
                 saDurableId = (if truthyStr entryId then entryId
                                else Option.bind (overlayOf st sid) saDurableId),
                 saMessage = m, saStale = False\<rparr>
      else overlayOf st sid')"
proof (cases "streamIndex (streamingAssistants st) sid")
  case None
  then have "overlayOf st sid = None" by (simp add: overlayOf_def)
  with None show ?thesis
    by (simp add: upsertAssistantSnapshot_def overlayOf_append_new)
next
  case (Some i)
  then have "overlayOf st sid = Some (streamingAssistants st ! i)" by (simp add: overlayOf_def)
  with Some streamIndex_SomeD [OF Some] show ?thesis
    by (simp add: upsertAssistantSnapshot_def overlayOf_update [OF Some] Let_def)
qed

lemma snapshot_not_assistant:
  "\<not> snapshotRebuilds m \<Longrightarrow> upsertAssistantSnapshot st sid m entryId = st"
  by (auto simp: snapshotRebuilds_def upsertAssistantSnapshot_def split: agentMessage.splits)

subsection \<open>Stream steps on a message's content\<close>

text \<open>The reference: what one step makes of a message's content, where it fits.\<close>

definition stepContent :: "assistantBlock list \<Rightarrow> assistantStreamEvent \<Rightarrow> assistantBlock list option" where
  "stepContent content step =
     map_option (\<lambda>b. content[nat (contentIndex step) := b])
       (applyStreamStep (jsNth content (contentIndex step)) step)"

fun stepsContent :: "assistantBlock list \<Rightarrow> assistantStreamEvent list \<Rightarrow> assistantBlock list option" where
  "stepsContent content [] = Some content"
| "stepsContent content (s # ss) = Option.bind (stepContent content s) (\<lambda>c. stepsContent c ss)"

lemma applyAssistantDelta_overlay:
  "overlayOf (applyAssistantDelta st sid step) sid' =
     (if sid' \<noteq> sid then overlayOf st sid'
      else map_option (\<lambda>sa. if saStale sa then sa
             else (case stepContent (amContent (saMessage sa)) step of
                     None \<Rightarrow> sa\<lparr>saStale := True\<rparr>
                   | Some c \<Rightarrow> sa\<lparr>saMessage := (saMessage sa)\<lparr>amContent := c\<rparr>\<rparr>)) (overlayOf st sid))"
proof (cases "streamIndex (streamingAssistants st) sid")
  case None
  then show ?thesis by (simp add: applyAssistantDelta_def overlayOf_def)
next
  case (Some i)
  then have "overlayOf st sid = Some (streamingAssistants st ! i)" by (simp add: overlayOf_def)
  with Some streamIndex_SomeD [OF Some] show ?thesis
    by (simp add: applyAssistantDelta_def overlayOf_update [OF Some] Let_def stepContent_def
        split: option.split)
qed

lemma applyAssistantDelta_frame:
  "toolExecutions (applyAssistantDelta st sid step) = toolExecutions st"
  "isCompacting (applyAssistantDelta st sid step) = isCompacting st"
  "errorMessage (applyAssistantDelta st sid step) = errorMessage st"
  by (auto simp: applyAssistantDelta_def Let_def split: option.splits)

lemma upsertAssistantSnapshot_frame:
  "toolExecutions (upsertAssistantSnapshot st sid m e) = toolExecutions st"
  "isCompacting (upsertAssistantSnapshot st sid m e) = isCompacting st"
  "errorMessage (upsertAssistantSnapshot st sid m e) = errorMessage st"
  by (auto simp: upsertAssistantSnapshot_def Let_def split: option.splits agentMessage.splits)

lemmas chat_frames = applyAssistantDelta_frame upsertAssistantSnapshot_frame

subsection \<open>Runs of events\<close>

definition runChat :: "chatState \<Rightarrow> chatEvent list \<Rightarrow> chatState" where
  "runChat st evs = foldl applyChatEvent st evs"

lemma runChat_simps [simp]:
  "runChat st [] = st"
  "runChat st (e # evs) = runChat (applyChatEvent st e) evs"
  by (simp_all add: runChat_def)

lemma runChat_append: "runChat st (es @ fs) = runChat (runChat st es) fs"
  by (simp add: runChat_def)

lemma runChat_invariant:
  assumes "\<And>st e. P e \<Longrightarrow> I st \<Longrightarrow> I (applyChatEvent st e)" "list_all P evs" "I st"
  shows "I (runChat st evs)"
  using assms(2,3) by (induction evs arbitrary: st) (auto simp: assms(1))

text \<open>Stream identities stay distinct and every tool call has one execution.\<close>

definition chatWf :: "chatState \<Rightarrow> bool" where
  "chatWf st = (distinct (map saStreamId (streamingAssistants st)) \<and> jmWf (toolExecutions st))"

lemma chatWf_initial: "chatWf initialChatState"
  by (simp add: chatWf_def initialChatState_def)

lemma chatWf_snapshot: "chatWf st \<Longrightarrow> chatWf (upsertAssistantSnapshot st sid m e)"
  by (auto simp: chatWf_def upsertAssistantSnapshot_def Let_def map_list_update_same streamIndex_None_iff
      split: agentMessage.splits option.splits dest: streamIndex_SomeD)

lemma chatWf_delta: "chatWf st \<Longrightarrow> chatWf (applyAssistantDelta st sid step)"
  by (auto simp: chatWf_def applyAssistantDelta_def Let_def map_list_update_same
      split: option.splits dest: streamIndex_SomeD)

lemma chatWf_setTool: "chatWf st \<Longrightarrow> chatWf (setToolExecution st cid ex)"
  by (simp add: chatWf_def setToolExecution_def)

lemma chatWf_fields:
  "chatWf st \<Longrightarrow> chatWf (st\<lparr>isCompacting := b\<rparr>)"
  "chatWf st \<Longrightarrow> chatWf (st\<lparr>errorMessage := m\<rparr>)"
  "chatWf st \<Longrightarrow> chatWf (st\<lparr>isCompacting := b, errorMessage := m\<rparr>)"
  "chatWf (st\<lparr>streamingAssistants := [], toolExecutions := [], errorMessage := m\<rparr>)"
  by (simp_all add: chatWf_def)

lemma chatWf_event: "chatWf st \<Longrightarrow> chatWf (applyChatEvent st e)"
  by (cases e) (auto simp: chatWf_snapshot chatWf_delta chatWf_setTool chatWf_fields split: option.split)

text \<open>Whatever events arrive, in whatever order, no stream has two overlays and no tool call
  two live executions.\<close>

theorem chat_identities_unique: "chatWf (runChat initialChatState evs)"
  by (rule runChat_invariant [where P = "\<lambda>_. True"]) (auto simp: chatWf_event chatWf_initial list_all_iff)

subsection \<open>Streams\<close>

text \<open>Events that carry no snapshot of stream \<open>sid\<close> and do not end the run.\<close>

fun quietFor :: "string \<Rightarrow> chatEvent \<Rightarrow> bool" where
  "quietFor sid (MessageStart m sid') = (sid' \<noteq> sid)"
| "quietFor sid (MessageEnd m sid' entryId) = (sid' \<noteq> sid)"
| "quietFor sid (MessageUpdate msg sid' step) = (sid' \<noteq> sid \<or> msg = None)"
| "quietFor sid (AgentEnd msgs err) = False"
| "quietFor sid _ = True"

fun stepsOf :: "string \<Rightarrow> chatEvent list \<Rightarrow> assistantStreamEvent list" where
  "stepsOf sid [] = []"
| "stepsOf sid (MessageUpdate None sid' step # es) =
     (if sid' = sid then step # stepsOf sid es else stepsOf sid es)"
| "stepsOf sid (e # es) = stepsOf sid es"

lemma overlayOf_tools [simp]: "overlayOf (setToolExecution st cid ex) sid = overlayOf st sid"
  by (simp add: overlayOf_def setToolExecution_def)

lemma overlayOf_flags [simp]:
  "overlayOf (st\<lparr>isCompacting := b\<rparr>) sid = overlayOf st sid"
  "overlayOf (st\<lparr>errorMessage := m\<rparr>) sid = overlayOf st sid"
  by (simp_all add: overlayOf_def)

lemma overlayOf_snapshot_other:
  "sid' \<noteq> sid \<Longrightarrow> overlayOf (upsertAssistantSnapshot st sid m e) sid' = overlayOf st sid'"
proof (cases m)
  case (AssistantMsg a)
  assume "sid' \<noteq> sid"
  then show ?thesis by (simp add: AssistantMsg overlayOf_snapshot)
qed (simp_all add: upsertAssistantSnapshot_def)

lemma quiet_event_overlay:
  assumes "quietFor sid e"
  shows "overlayOf (applyChatEvent st e) sid =
           (case e of MessageUpdate None sid' step \<Rightarrow> overlayOf (applyAssistantDelta st sid' step) sid
            | _ \<Rightarrow> overlayOf st sid)"
  using assms by (cases e) (auto simp: overlayOf_snapshot_other split: option.split)

lemma stepsOf_Cons_other:
  "\<forall>step. e \<noteq> MessageUpdate None sid step \<Longrightarrow> stepsOf sid (e # es) = stepsOf sid es"
  by (cases "(sid, e # es)" rule: stepsOf.cases) auto

lemma quiet_event_other:
  assumes "quietFor sid e" "\<forall>step. e \<noteq> MessageUpdate None sid step"
  shows "overlayOf (applyChatEvent st e) sid = overlayOf st sid"
  using assms
  by (auto simp: quiet_event_overlay applyAssistantDelta_overlay split: chatEvent.split option.split)

lemma deltas_follow:
  assumes "overlayOf st sid = Some sa" "\<not> saStale sa" "list_all (quietFor sid) evs"
    and "stepsContent (amContent (saMessage sa)) (stepsOf sid evs) = Some c"
  shows "overlayOf (runChat st evs) sid = Some (sa\<lparr>saMessage := (saMessage sa)\<lparr>amContent := c\<rparr>\<rparr>)"
  using assms
proof (induction evs arbitrary: st sa)
  case Nil
  then show ?case by simp
next
  case (Cons e evs)
  show ?case
  proof (cases "\<exists>step. e = MessageUpdate None sid step")
    case True
    then obtain step where e: "e = MessageUpdate None sid step" ..
    with Cons.prems(4) obtain c1 where c1: "stepContent (amContent (saMessage sa)) step = Some c1"
      and rest: "stepsContent c1 (stepsOf sid evs) = Some c"
      by (auto simp: bind_eq_Some_conv)
    let ?sa = "sa\<lparr>saMessage := (saMessage sa)\<lparr>amContent := c1\<rparr>\<rparr>"
    have "overlayOf (applyChatEvent st e) sid = Some ?sa"
      using Cons.prems(1,2) c1 by (simp add: e applyAssistantDelta_overlay)
    from Cons.IH [OF this] Cons.prems(2,3) rest show ?thesis by simp
  next
    case False
    with Cons.prems show ?thesis
      by (simp add: Cons.IH quiet_event_other stepsOf_Cons_other)
  qed
qed



text \<open>A stale overlay keeps its message until the next snapshot of its stream.\<close>

lemma stale_event:
  assumes "overlayOf st sid = Some sa" "saStale sa" "quietFor sid e"
  shows "overlayOf (applyChatEvent st e) sid = Some sa"
  using assms
  by (auto simp: quiet_event_overlay applyAssistantDelta_overlay split: chatEvent.split option.split)

lemma stale_frozen:
  assumes "overlayOf st sid = Some sa" "saStale sa" "list_all (quietFor sid) evs"
  shows "overlayOf (runChat st evs) sid = Some sa"
  using assms by (induction evs arbitrary: st) (auto simp: stale_event)

text \<open>A delta that does not fit the content (no such block, a block of another type, another
  tool call) changes no message: it marks its own overlay stale, which then keeps its content
  through every event until the next snapshot of that stream or the end of the run.\<close>

theorem misfit_freezes_overlay:
  assumes "overlayOf st sid = Some sa" "\<not> saStale sa"
    and "stepContent (amContent (saMessage sa)) step = None" "list_all (quietFor sid) evs"
  shows "overlayOf (runChat st (MessageUpdate None sid step # evs)) sid = Some (sa\<lparr>saStale := True\<rparr>)"
  by (simp, rule stale_frozen) (use assms in \<open>auto simp: applyAssistantDelta_overlay\<close>)

lemma misfit_freezes_overlay_witness:
  "\<exists>st sa. overlayOf (runChat st
       [MessageUpdate None ''s'' (ThinkingDelta 0 ''x''), MessageUpdate None ''s'' (TextDelta 0 ''y'')]) ''s''
     = Some (sa\<lparr>saStale := True\<rparr>) \<and> amContent (saMessage sa) = [TextContent ''a'']"
proof -
  let ?m = "\<lparr>amContent = [TextContent ''a''], amTimestamp = 0, amStopReason = None, amErrorMessage = None\<rparr>"
  let ?sa = "\<lparr>saStreamId = ''s'', saDurableId = None, saMessage = ?m, saStale = False\<rparr>"
  let ?st = "initialChatState\<lparr>streamingAssistants := [?sa]\<rparr>"
  have "overlayOf ?st ''s'' = Some ?sa" by (simp add: overlayOf_def streamIndex_def)
  from misfit_freezes_overlay [OF this, of "ThinkingDelta 0 ''x''" "[MessageUpdate None ''s'' (TextDelta 0 ''y'')]"]
  show ?thesis by (intro exI [of _ ?st] exI [of _ ?sa]) (simp add: stepContent_def jsNth_def)
qed

subsection \<open>Tool executions and the end of a run\<close>

definition toolDone :: "chatState \<Rightarrow> string \<Rightarrow> bool" where
  "toolDone st cid = (map_option teStatus (jmGet (toolExecutions st) cid) = Some Done)"

fun endsRun :: "chatEvent \<Rightarrow> bool" where
  "endsRun (AgentEnd msgs err) = True"
| "endsRun _ = False"

lemma toolExecutions_event:
  "toolExecutions (applyChatEvent st e) =
     (case e of
        ToolExecutionStart cid n a \<Rightarrow>
          (if jmHas (toolExecutions st) cid then toolExecutions st
           else jmSet cid \<lparr>teStatus = Running, teResult = None, teIsError = None\<rparr> (toolExecutions st))
      | ToolExecutionUpdate cid n a p \<Rightarrow>
          (if toolDone st cid then toolExecutions st
           else jmSet cid \<lparr>teStatus = Running, teResult = p, teIsError = None\<rparr> (toolExecutions st))
      | ToolExecutionEnd cid n r err \<Rightarrow>
          jmSet cid \<lparr>teStatus = Done, teResult = r, teIsError = err\<rparr> (toolExecutions st)
      | AgentEnd msgs err \<Rightarrow> []
      | _ \<Rightarrow> toolExecutions st)"
  by (cases e) (auto simp: chat_frames setToolExecution_def toolDone_def split: option.split)

lemma toolDone_event: "\<not> endsRun e \<Longrightarrow> toolDone st cid \<Longrightarrow> toolDone (applyChatEvent st e) cid"
  by (cases e) (auto simp: toolDone_def toolExecutions_event jmHas_def simp del: applyChatEvent.simps)

text \<open>Once a tool call has ended it stays ended for the rest of its run: late start and update
  events never show it running again.\<close>

theorem tool_stays_done:
  assumes "list_all (\<lambda>e. \<not> endsRun e) evs"
  shows "toolDone (runChat st (ToolExecutionEnd cid name res isErr # evs)) cid"
  using runChat_invariant [where I = "\<lambda>st. toolDone st cid", OF toolDone_event assms]
  by (simp add: toolDone_def setToolExecution_def)

lemma tool_stays_done_witness:
  "toolDone (runChat initialChatState
     [ToolExecutionEnd ''t'' ''bash'' None None, ToolExecutionUpdate ''t'' ''bash'' JNull None,
      ToolExecutionStart ''t'' ''bash'' JNull]) ''t''"
  using tool_stays_done [where evs = "[ToolExecutionUpdate ''t'' ''bash'' JNull None, ToolExecutionStart ''t'' ''bash'' JNull]"]
  by simp

lemma lastFailure_Some_iff:
  "lastFailure ms = Some e \<longleftrightarrow>
     (\<exists>pre m post. ms = pre @ m # post \<and> failedAssistantError m = Some e
        \<and> (\<forall>x\<in>set post. failedAssistantError x = None))"
proof (induction ms)
  case Nil
  then show ?case by simp
next
  case (Cons m ms)
  have none: "lastFailure ms = None \<longleftrightarrow> (\<forall>x\<in>set ms. failedAssistantError x = None)"
    by (induction ms) (auto split: option.splits)
  show ?case
  proof (cases "lastFailure ms")
    case None
    with none show ?thesis
      by (auto simp: Cons_eq_append_conv)
  next
    case (Some e')
    then have "\<not> (\<forall>x\<in>set ms. failedAssistantError x = None)" using none by auto
    with Some Cons.IH show ?thesis
      by (auto simp: Cons_eq_append_conv)
  qed
qed

text \<open>The end of a run drops every overlay and all live tool state, and shows its own error,
  or else that of the last assistant message that failed with one, or else the error already shown.\<close>

theorem agent_end_finalizes:
  "streamingAssistants (applyChatEvent st (AgentEnd msgs err)) = []
   \<and> toolExecutions (applyChatEvent st (AgentEnd msgs err)) = []
   \<and> isCompacting (applyChatEvent st (AgentEnd msgs err)) = isCompacting st
   \<and> errorMessage (applyChatEvent st (AgentEnd msgs err)) =
       (case (err, msgs) of (Some e, _) \<Rightarrow> reMessage e
        | (None, Some ms) \<Rightarrow> orElse (lastFailure ms) (errorMessage st)
        | (None, None) \<Rightarrow> errorMessage st)"
  by (simp add: agentEndError_def split: option.split)

text \<open>Where nothing is allocated anew, the field is unchanged: comparing identities never hides a
  change.\<close>

lemma streams_kept: "\<not> streamsRebuilt st e \<Longrightarrow> streamingAssistants (applyChatEvent st e) = streamingAssistants st"
  by (cases e) (auto simp: snapshot_not_assistant applyAssistantDelta_def deltaRebuilds_def setToolExecution_def Let_def
      split: option.splits)

lemma tools_kept: "\<not> toolsRebuilt st e \<Longrightarrow> toolExecutions (applyChatEvent st e) = toolExecutions st"
  by (cases e) (auto simp: toolExecutions_event toolDone_def simp del: applyChatEvent.simps)

lemma markStreamsStale_alt: "markStreamsStale sas = map (\<lambda>sa. sa\<lparr>saStale := True\<rparr>) sas"
proof -
  have "sa\<lparr>saStale := True\<rparr> = sa" if "saStale sa" for sa :: streamingAssistant
    using that by (cases sa) auto
  then show ?thesis
    by (auto simp: markStreamsStale_def list_all_iff intro!: map_idI [symmetric])
qed

lemma markStreamsStale_ids [simp]: "map saStreamId (markStreamsStale sas) = map saStreamId sas"
  by (simp add: markStreamsStale_alt)

lemma overlayOf_markStreamsStale:
  "overlayOf (st\<lparr>streamingAssistants := markStreamsStale (streamingAssistants st)\<rparr>) sid =
     map_option (\<lambda>sa. sa\<lparr>saStale := True\<rparr>) (overlayOf st sid)"
  by (auto simp: overlayOf_def markStreamsStale_alt streamIndex_def findIndex_map map_option_case
      split: option.split dest: findIndex_SomeD)

end
