(* ===== verification/Message_View.thy ===== *)
theory Message_View
  imports Chat_State
begin

text \<open>
  The projection of saved and live messages into what the chat shows, from
  \<^verbatim>\<open>packages/frontend/src/models/message.ts\<close> (with \<open>textFromClientContent\<close> of
  \<^verbatim>\<open>chat-content.ts\<close>). A class with a \<open>role\<close> is a constructor of \<open>message\<close>, its getters are
  functions. The parser of incomplete JSON is the package \<^verbatim>\<open>partial-json\<close>: the argument \<open>pj\<close> of
  the functions that use it, \<open>None\<close> where it throws.
\<close>

subsection \<open>Data\<close>

record messageIdentity =
  miEntryId :: "string option"
  miParentEntryId :: "string option"
  miRenderKey :: string

record messageSource =
  msIdentity :: messageIdentity
  msMessage :: agentMessage

record assistantToolCallBlock =
  tbCall :: toolCall
  tbResult :: "toolResultMessage option"
  tbExecution :: "toolExecution option"
  tbStreaming :: bool

datatype conversationBlock =
    TextBlock string
  | ThinkingBlock string
  | ToolCallBlock assistantToolCallBlock

datatype message =
    UserMessage userMessage messageIdentity
  | SessionUpdateMessage userMessage messageIdentity
  | AssistantMessage assistantMessage messageIdentity bool "conversationBlock list"
  | CompactionMessage compactionSummaryMessage messageIdentity

record toolBlockData =
  tdId :: string
  tdName :: string
  tdArgs :: json
  tdStatus :: executionStatus
  tdResult :: "toolResult option"
  tdIsError :: "bool option"
  tdPartialArgs :: bool

subsection \<open>User messages\<close>

fun textOfBlock :: "contentBlock \<Rightarrow> string option" where
  "textOfBlock (TextContentBlock t) = Some t"
| "textOfBlock (ImageContentBlock i) = None"

definition textFromClientContent :: "contentBlock list \<Rightarrow> string" where
  "textFromClientContent content = joinWith [newlineC] (List.map_filter textOfBlock content)"

fun contentText :: "userMessageContent \<Rightarrow> string" where
  "contentText (UserText t) = t"
| "contentText (UserBlocks bs) = textFromClientContent bs"

definition userMessageMarkdown :: "userMessage \<Rightarrow> string option" where
  "userMessageMarkdown m = (let text = contentText (umContent m) in if text \<noteq> [] then Some text else None)"

definition metadataField :: "userMessage \<Rightarrow> string \<Rightarrow> json option" where
  "metadataField m k = (case umMetadata m of None \<Rightarrow> None | Some md \<Rightarrow> jmGet md k)"

fun nonEmptyString :: "json option \<Rightarrow> string option" where
  "nonEmptyString (Some (JStr s)) = (if s \<noteq> [] then Some s else None)"
| "nonEmptyString _ = None"

definition sourceExtension :: "userMessage \<Rightarrow> string option" where
  "sourceExtension m = nonEmptyString (metadataField m ''sourceExtension'')"

text \<open>\<open>metadata.details\<close>: its start, an integer inside the blocks and not at their beginning, and
  its label.\<close>

definition markedDetails :: "userMessage \<Rightarrow> (nat \<times> string option) option" where
  "markedDetails m =
     (case metadataField m ''details'' of
        Some (JObj d) \<Rightarrow>
          (let len = (case umContent m of UserText t \<Rightarrow> 0 | UserBlocks bs \<Rightarrow> length bs)
           in (case jmGet d ''start'' of
                 Some (JNum q) \<Rightarrow>
                   (if of_int \<lfloor>q\<rfloor> = q \<and> 1 \<le> q \<and> q < of_nat len
                    then Some (nat \<lfloor>q\<rfloor>, nonEmptyString (jmGet d ''label'')) else None)
               | _ \<Rightarrow> None))
      | _ \<Rightarrow> None)"

definition visibleContent :: "userMessage \<Rightarrow> userMessageContent" where
  "visibleContent m =
     (case (markedDetails m, umContent m) of
        (Some (start, label), UserBlocks bs) \<Rightarrow> UserBlocks (take start bs)
      | _ \<Rightarrow> umContent m)"

definition messageDetails :: "userMessage \<Rightarrow> (string option \<times> string) option" where
  "messageDetails m =
     (case (markedDetails m, umContent m) of
        (Some (start, label), UserBlocks bs) \<Rightarrow> Some (label, textFromClientContent (drop start bs))
      | _ \<Rightarrow> None)"

text \<open>The source session of a session update; \<open>None\<close> is the error it throws.\<close>

definition sourceSessionId :: "userMessage \<Rightarrow> string option" where
  "sourceSessionId m = (case metadataField m ''sourceSessionId'' of Some (JStr s) \<Rightarrow> Some s | _ \<Rightarrow> None)"

subsection \<open>Tool calls\<close>

definition parsePartialArguments :: "(string \<Rightarrow> json option) \<Rightarrow> string \<Rightarrow> json" where
  "parsePartialArguments pj text =
     (if trimStr text = [] then JObj []
      else (case pj text of Some (JObj kvs) \<Rightarrow> JObj kvs | _ \<Rightarrow> JObj []))"

definition renderData :: "(string \<Rightarrow> json option) \<Rightarrow> assistantToolCallBlock \<Rightarrow> toolBlockData option" where
  "renderData pj b =
     (let call = tbCall b;
          base = \<lparr>tdId = tcId call, tdName = tcName call, tdArgs = tcArguments call, tdStatus = Done,
                  tdResult = None, tdIsError = None, tdPartialArgs = False\<rparr>
      in case tbResult b of
           Some r \<Rightarrow> Some (base\<lparr>tdStatus := Done,
               tdResult := Some \<lparr>resContent = trmContent r, resDetails = trmDetails r\<rparr>,
               tdIsError := Some (trmIsError r)\<rparr>)
         | None \<Rightarrow>
             (case tbExecution b of
                Some ex \<Rightarrow> Some (base\<lparr>tdStatus := teStatus ex, tdResult := teResult ex, tdIsError := teIsError ex\<rparr>)
              | None \<Rightarrow>
                  if tbStreaming b then
                    (if tcName call = [] then None
                     else (case tcPartialJson call of
                             None \<Rightarrow> Some (base\<lparr>tdStatus := Running\<rparr>)
                           | Some text \<Rightarrow> Some (base\<lparr>tdArgs := parsePartialArguments pj text,
                                                   tdStatus := Running, tdPartialArgs := True\<rparr>)))
                  else Some (base\<lparr>tdStatus := Done\<rparr>)))"

definition runningExecution :: toolExecution where
  "runningExecution = \<lparr>teStatus = Running, teResult = None, teIsError = None\<rparr>"

subsection \<open>Assistant messages\<close>

fun conversationBlockOf ::
  "(string \<Rightarrow> toolResultMessage option) \<Rightarrow> (string \<Rightarrow> toolExecution option) \<Rightarrow> bool
   \<Rightarrow> assistantBlock \<Rightarrow> conversationBlock" where
  "conversationBlockOf results ex streaming (TextContent t) = TextBlock t"
| "conversationBlockOf results ex streaming (ThinkingContent t) = ThinkingBlock t"
| "conversationBlockOf results ex streaming (ToolCallContent tc) =
     ToolCallBlock \<lparr>tbCall = tc, tbResult = results (tcId tc), tbExecution = ex (tcId tc), tbStreaming = streaming\<rparr>"

definition newAssistant ::
  "assistantMessage \<Rightarrow> messageIdentity \<Rightarrow> bool \<Rightarrow> (string \<Rightarrow> toolResultMessage option)
   \<Rightarrow> (string \<Rightarrow> toolExecution option) \<Rightarrow> message" where
  "newAssistant raw ident streaming results ex =
     AssistantMessage raw ident streaming (map (conversationBlockOf results ex streaming) (amContent raw))"

fun toolCallBlocks :: "conversationBlock list \<Rightarrow> assistantToolCallBlock list" where
  "toolCallBlocks [] = []"
| "toolCallBlocks (ToolCallBlock b # bs) = b # toolCallBlocks bs"
| "toolCallBlocks (_ # bs) = toolCallBlocks bs"

definition savedResults :: "assistantToolCallBlock list \<Rightarrow> (string, toolResultMessage) jsmap" where
  "savedResults bs =
     fold (\<lambda>b m. case tbResult b of None \<Rightarrow> m | Some r \<Rightarrow> jmSet (tcId (tbCall b)) r m) bs []"

definition executionsUnchanged ::
  "(string \<Rightarrow> toolExecution option) \<Rightarrow> conversationBlock list \<Rightarrow> bool" where
  "executionsUnchanged ex bs =
     list_all (\<lambda>b. tbResult b \<noteq> None \<or> tbExecution b = ex (tcId (tbCall b))) (toolCallBlocks bs)"

fun withExecutions :: "(string \<Rightarrow> toolExecution option) \<Rightarrow> message \<Rightarrow> message" where
  "withExecutions ex (AssistantMessage raw ident streaming bs) =
     (if executionsUnchanged ex bs then AssistantMessage raw ident streaming bs
      else newAssistant raw ident streaming (jmGet (savedResults (toolCallBlocks bs))) ex)"
| "withExecutions ex m = m"

fun nonEmptyText :: "assistantBlock \<Rightarrow> string option" where
  "nonEmptyText (TextContent t) = (if t \<noteq> [] then Some t else None)"
| "nonEmptyText _ = None"

definition assistantMarkdown :: "assistantMessage \<Rightarrow> string option" where
  "assistantMarkdown raw =
     (let text = joinWith [newlineC, newlineC] (List.map_filter nonEmptyText (amContent raw))
      in if text \<noteq> [] then Some text else None)"

fun toMarkdown :: "message \<Rightarrow> string option" where
  "toMarkdown (UserMessage m ident) = userMessageMarkdown (m\<lparr>umContent := visibleContent m\<rparr>)"
| "toMarkdown (SessionUpdateMessage m ident) = userMessageMarkdown m"
| "toMarkdown (AssistantMessage raw ident streaming bs) = assistantMarkdown raw"
| "toMarkdown (CompactionMessage m ident) = None"

fun blockVisible :: "(string \<Rightarrow> json option) \<Rightarrow> conversationBlock \<Rightarrow> bool" where
  "blockVisible pj (TextBlock t) = (t \<noteq> [])"
| "blockVisible pj (ThinkingBlock t) = False"
| "blockVisible pj (ToolCallBlock b) = (renderData pj b \<noteq> None)"

definition hasVisibleContent :: "(string \<Rightarrow> json option) \<Rightarrow> conversationBlock list \<Rightarrow> bool" where
  "hasVisibleContent pj bs = list_ex (blockVisible pj) bs"

subsection \<open>Projections\<close>

fun isToolResult :: "agentMessage \<Rightarrow> toolResultMessage option" where
  "isToolResult (ToolResultMsg r) = Some r"
| "isToolResult _ = None"

definition toolResultsOf :: "messageSource list \<Rightarrow> (string, toolResultMessage) jsmap" where
  "toolResultsOf sources =
     fold (\<lambda>s m. case isToolResult (msMessage s) of None \<Rightarrow> m | Some r \<Rightarrow> jmSet (trmCallId r) r m) sources []"

fun buildMessage :: "(string \<Rightarrow> toolResultMessage option) \<Rightarrow> messageIdentity \<Rightarrow> agentMessage \<Rightarrow> message list" where
  "buildMessage results ident (UserMsg m) =
     (if nonEmptyString (metadataField m ''sourceSessionId'') \<noteq> None
      then [SessionUpdateMessage m ident] else [UserMessage m ident])"
| "buildMessage results ident (AssistantMsg m) = [newAssistant m ident False results (\<lambda>_. None)]"
| "buildMessage results ident (CompactionMsg m) = [CompactionMessage m ident]"
| "buildMessage results ident (ToolResultMsg r) = []"

definition buildMessages :: "messageSource list \<Rightarrow> message list" where
  "buildMessages sources =
     (let results = jmGet (toolResultsOf sources)
      in concat (map (\<lambda>s. buildMessage results (msIdentity s) (msMessage s)) sources))"

fun isAssistant :: "message \<Rightarrow> bool" where
  "isAssistant (AssistantMessage raw ident streaming bs) = True"
| "isAssistant _ = False"

definition latestAssistant :: "message list \<Rightarrow> nat option" where
  "latestAssistant ms = map_option (\<lambda>i. length ms - Suc i) (findIndex isAssistant (rev ms))"

definition liveExecution ::
  "(string, toolExecution) jsmap \<Rightarrow> bool \<Rightarrow> string \<Rightarrow> toolExecution option" where
  "liveExecution executions latest callId =
     (case jmGet executions callId of
        Some ex \<Rightarrow> Some ex
      | None \<Rightarrow> if latest then Some runningExecution else None)"

definition applyToolExecutions ::
  "message list \<Rightarrow> (string, toolExecution) jsmap \<Rightarrow> bool \<Rightarrow> message list" where
  "applyToolExecutions ms executions running =
     (let latest = (if running then latestAssistant ms else None)
      in map (\<lambda>(i, m). withExecutions (liveExecution executions (latest = Some i)) m) (enumerate 0 ms))"

definition buildStreamingMessages ::
  "streamingAssistant list \<Rightarrow> (string, toolExecution) jsmap \<Rightarrow> message list" where
  "buildStreamingMessages sas executions =
     map (\<lambda>sa. newAssistant (saMessage sa)
        \<lparr>miEntryId = None, miParentEntryId = None, miRenderKey = ''streaming-assistant-'' @ saStreamId sa\<rparr>
        True (\<lambda>_. None) (jmGet executions)) sas"

subsection \<open>What is shown\<close>

datatype shownBlock =
    ShownText string
  | ShownThinking string
  | ShownToolCall "toolBlockData option"

fun shownBlockOf :: "(string \<Rightarrow> json option) \<Rightarrow> conversationBlock \<Rightarrow> shownBlock" where
  "shownBlockOf pj (TextBlock t) = ShownText t"
| "shownBlockOf pj (ThinkingBlock t) = ShownThinking t"
| "shownBlockOf pj (ToolCallBlock b) = ShownToolCall (renderData pj b)"

definition shownMessage ::
  "(string \<Rightarrow> json option) \<Rightarrow> message \<Rightarrow> message + assistantMessage \<times> messageIdentity \<times> bool \<times> shownBlock list" where
  "shownMessage pj m =
     (case m of AssistantMessage raw ident streaming bs \<Rightarrow> Inr (raw, ident, streaming, map (shownBlockOf pj) bs)
      | _ \<Rightarrow> Inl m)"

text \<open>The reference projection: every assistant built anew from its raw message, the saved results
  and the live state.\<close>

fun rebuildWith ::
  "(string \<Rightarrow> toolResultMessage option) \<Rightarrow> (string \<Rightarrow> toolExecution option) \<Rightarrow> message \<Rightarrow> message" where
  "rebuildWith results ex (AssistantMessage raw ident streaming bs) = newAssistant raw ident streaming results ex"
| "rebuildWith results ex m = m"

definition rebuildAll ::
  "(string \<Rightarrow> toolResultMessage option) \<Rightarrow> message list \<Rightarrow> (string, toolExecution) jsmap \<Rightarrow> bool \<Rightarrow> message list" where
  "rebuildAll results ms executions running =
     (let latest = (if running then latestAssistant ms else None)
      in map (\<lambda>(i, m). rebuildWith results (liveExecution executions (latest = Some i)) m) (enumerate 0 ms))"

text \<open>A message whose blocks carry exactly the saved results of their calls.\<close>

fun builtWith :: "(string \<Rightarrow> toolResultMessage option) \<Rightarrow> message \<Rightarrow> bool" where
  "builtWith results (AssistantMessage raw ident streaming bs) =
     (\<exists>ex. bs = map (conversationBlockOf results ex streaming) (amContent raw))"
| "builtWith results m = True"

lemma renderData_saved:
  "tbResult b = Some r \<Longrightarrow> renderData pj (b\<lparr>tbExecution := e\<rparr>) = renderData pj b"
  by (simp add: renderData_def Let_def)

lemma toolCallBlocks_member:
  "b \<in> set (toolCallBlocks (map (conversationBlockOf results ex s) content)) \<longleftrightarrow>
     (\<exists>tc. ToolCallContent tc \<in> set content \<and>
        b = \<lparr>tbCall = tc, tbResult = results (tcId tc), tbExecution = ex (tcId tc), tbStreaming = s\<rparr>)"
proof (induction content)
  case (Cons a content)
  then show ?case by (cases a) auto
qed simp

lemma savedResults_fold:
  assumes "\<forall>b\<in>set bs. tbResult b = results (tcId (tbCall b))"
    and "jmGet m k = None \<or> jmGet m k = results k"
  shows "jmGet (fold (\<lambda>b m. case tbResult b of None \<Rightarrow> m | Some r \<Rightarrow> jmSet (tcId (tbCall b)) r m) bs m) k =
           (if k \<in> (\<lambda>b. tcId (tbCall b)) ` set bs then results k else jmGet m k)"
  using assms
proof (induction bs arbitrary: m)
  case (Cons b bs)
  show ?case
  proof (cases "tbResult b")
    case None
    with Cons.prems have "results (tcId (tbCall b)) = None" by simp
    with None Cons show ?thesis by auto
  next
    case (Some r)
    with Cons.prems have "results (tcId (tbCall b)) = Some r" by simp
    with Some Cons show ?thesis by auto
  qed
qed simp

lemma savedResults_built:
  assumes "ToolCallContent tc \<in> set content"
  shows "jmGet (savedResults (toolCallBlocks (map (conversationBlockOf results ex s) content))) (tcId tc) =
           results (tcId tc)"
proof -
  let ?bs = "toolCallBlocks (map (conversationBlockOf results ex s) content)"
  have "\<forall>b\<in>set ?bs. tbResult b = results (tcId (tbCall b))"
    by (auto simp: toolCallBlocks_member)
  moreover from assms have "tcId tc \<in> (\<lambda>b. tcId (tbCall b)) ` set ?bs"
    by (force simp: toolCallBlocks_member)
  ultimately show ?thesis
    using savedResults_fold [of ?bs results "[]" "tcId tc"] by (simp add: savedResults_def)
qed

lemma conversationBlockOf_cong:
  assumes "\<And>tc. b = ToolCallContent tc \<Longrightarrow> results (tcId tc) = results' (tcId tc)"
  shows "conversationBlockOf results ex s b = conversationBlockOf results' ex s b"
  using assms by (cases b) auto

lemma withExecutions_built:
  assumes "builtWith results m"
  shows "builtWith results (withExecutions ex m)"
    and "shownMessage pj (withExecutions ex m) = shownMessage pj (rebuildWith results ex m)"
proof -
  have "builtWith results (withExecutions ex m) \<and>
        shownMessage pj (withExecutions ex m) = shownMessage pj (rebuildWith results ex m)"
  proof (cases m)
    case (AssistantMessage raw ident s bs)
    with assms obtain ex0 where bs: "bs = map (conversationBlockOf results ex0 s) (amContent raw)" by auto
    show ?thesis
    proof (cases "executionsUnchanged ex bs")
      case True
      have "shownBlockOf pj (conversationBlockOf results ex0 s b) = shownBlockOf pj (conversationBlockOf results ex s b)"
        if b: "b \<in> set (amContent raw)" for b
      proof (cases b)
        case (ToolCallContent tc)
        have "results (tcId tc) \<noteq> None \<or> ex0 (tcId tc) = ex (tcId tc)"
          using True b by (force simp: executionsUnchanged_def list_all_iff bs toolCallBlocks_member ToolCallContent)
        then show ?thesis
        proof
          assume "results (tcId tc) \<noteq> None"
          then obtain r where "results (tcId tc) = Some r" by blast
          then show ?thesis by (simp add: ToolCallContent renderData_def Let_def)
        qed (simp add: ToolCallContent)
      qed simp_all
      then show ?thesis
        using True by (auto simp: AssistantMessage bs shownMessage_def newAssistant_def)
    next
      case False
      have "map (conversationBlockOf (jmGet (savedResults (toolCallBlocks bs))) ex s) (amContent raw) =
            map (conversationBlockOf results ex s) (amContent raw)"
        by (auto intro!: conversationBlockOf_cong simp: bs savedResults_built)
      then have "withExecutions ex m = rebuildWith results ex m"
        using False by (simp add: AssistantMessage newAssistant_def)
      then show ?thesis by (auto simp: AssistantMessage newAssistant_def)
    qed
  qed auto
  then show "builtWith results (withExecutions ex m)"
    and "shownMessage pj (withExecutions ex m) = shownMessage pj (rebuildWith results ex m)" by auto
qed

lemma isAssistant_with [simp]:
  "isAssistant (withExecutions ex m) = isAssistant m"
  by (cases m) (auto simp: newAssistant_def)

lemma rebuildWith_twice [simp]:
  "rebuildWith results ex (withExecutions ex' m) = rebuildWith results ex m"
  by (cases m) (auto simp: newAssistant_def)

lemma findIndex_cong: "map P xs = map Q ys \<Longrightarrow> findIndex P xs = findIndex Q ys"
  using findIndex_map [of "\<lambda>x. x" P xs] findIndex_map [of "\<lambda>x. x" Q ys] by simp

lemma latestAssistant_cong:
  "map isAssistant ms = map isAssistant ns \<Longrightarrow> latestAssistant ms = latestAssistant ns"
proof -
  assume eq: "map isAssistant ms = map isAssistant ns"
  then have "map isAssistant (rev ms) = map isAssistant (rev ns)" by (simp add: rev_map [symmetric])
  from findIndex_cong [OF this] map_eq_imp_length_eq [OF eq] show ?thesis
    by (simp add: latestAssistant_def)
qed

lemma nth_enumerate_pair: "i < length xs \<Longrightarrow> enumerate 0 xs ! i = (i, xs ! i)"
  by (simp add: nth_enumerate_eq)

lemma applyToolExecutions_nth:
  "i < length ms \<Longrightarrow> applyToolExecutions ms executions running ! i =
     withExecutions (liveExecution executions ((if running then latestAssistant ms else None) = Some i)) (ms ! i)"
  by (simp add: applyToolExecutions_def Let_def nth_enumerate_pair)

lemma length_applyToolExecutions [simp]: "length (applyToolExecutions ms executions running) = length ms"
  by (simp add: applyToolExecutions_def Let_def)

lemma applyToolExecutions_latest [simp]:
  "latestAssistant (applyToolExecutions ms executions running) = latestAssistant ms"
  by (rule latestAssistant_cong) (auto intro!: nth_equalityI simp: applyToolExecutions_nth)

lemma applyToolExecutions_shown:
  assumes "list_all (builtWith results) ms"
  shows "map (shownMessage pj) (applyToolExecutions ms executions running) =
           map (shownMessage pj) (rebuildAll results ms executions running)"
    and "list_all (builtWith results) (applyToolExecutions ms executions running)"
  using assms
  by (auto intro!: nth_equalityI simp: applyToolExecutions_nth rebuildAll_def Let_def nth_enumerate_pair
      withExecutions_built list_all_length)

lemma rebuildAll_applied [simp]:
  "rebuildAll results (applyToolExecutions ms executions' running') executions running =
     rebuildAll results ms executions running"
  by (auto intro!: nth_equalityI simp: rebuildAll_def Let_def nth_enumerate_pair applyToolExecutions_nth)

lemma buildMessages_built: "list_all (builtWith (jmGet (toolResultsOf sources))) (buildMessages sources)"
proof -
  have "builtWith results m" if "m \<in> set (buildMessage results ident am)" for results m ident am
    using that by (cases am) (auto simp: newAssistant_def split: if_splits)
  then show ?thesis by (force simp: buildMessages_def Let_def list_all_iff)
qed

text \<open>Showing the live tool state over the transcript by replacing only the assistants it changes
  shows the same as building every assistant anew from the saved results and the live state: a saved
  result wins over live state, live state over none, and while the session runs the latest
  assistant's remaining calls run.\<close>

theorem tool_state_shown_as_rebuilt:
  "map (shownMessage pj) (applyToolExecutions (buildMessages sources) executions running) =
     map (shownMessage pj) (rebuildAll (jmGet (toolResultsOf sources)) (buildMessages sources) executions running)"
  by (rule applyToolExecutions_shown [OF buildMessages_built])

text \<open>What is shown depends on the current tool state only: applying it over messages that already
  show an earlier state (as the store does with the messages of its previous view) shows the same as
  applying it to the transcript as first built.\<close>

theorem tool_state_history_free:
  "map (shownMessage pj) (applyToolExecutions
       (applyToolExecutions (buildMessages sources) executions' running') executions running) =
     map (shownMessage pj) (applyToolExecutions (buildMessages sources) executions running)"
  by (simp add: applyToolExecutions_shown [OF buildMessages_built]
      applyToolExecutions_shown(1) [OF applyToolExecutions_shown(2) [OF buildMessages_built]])

fun messageIdent :: "message \<Rightarrow> messageIdentity" where
  "messageIdent (UserMessage m ident) = ident"
| "messageIdent (SessionUpdateMessage m ident) = ident"
| "messageIdent (AssistantMessage raw ident s bs) = ident"
| "messageIdent (CompactionMessage m ident) = ident"

lemma buildMessage_ident:
  "map messageIdent (buildMessage results ident m) = (if isToolResult m = None then [ident] else [])"
  by (cases m) (auto simp: newAssistant_def)

text \<open>Every saved message but a tool result has exactly one row, in transcript order and with its
  own identity.\<close>

theorem transcript_rows:
  "map messageIdent (buildMessages sources) =
     map msIdentity (filter (\<lambda>s. isToolResult (msMessage s) = None) sources)"
proof -
  have "map messageIdent (concat (map (\<lambda>s. buildMessage results (msIdentity s) (msMessage s)) sources)) =
          map msIdentity (filter (\<lambda>s. isToolResult (msMessage s) = None) sources)" for results
    by (induction sources) (auto simp: buildMessage_ident)
  then show ?thesis by (simp add: buildMessages_def Let_def)
qed

end
