(* ===== verification/Session_Cache.thy ===== *)
theory Session_Cache
  imports Reins_Prelude
begin

text \<open>
  The browser's cache of session metadata, \<^verbatim>\<open>packages/frontend/src/models/stores/session-cache.ts\<close>:
  entries in the order they were first set, listeners per session and for all sessions, and the
  detail requests in flight. A listener is a number; an operation returns the listener calls it
  makes, in order (what a listener does then is its own). A nullable field is an \<open>option\<close>, a field
  of a patch an option of that, \<open>None\<close> where it is undefined. The session's \<open>state\<close> is an object the
  code compares by identity: \<open>ssRef\<close> says which object it is. The server's answers are inputs.
\<close>

datatype activityState = ActRunning | ActFinished

record placement =
  plAvailable :: bool
  plRemoved :: bool
  plNodeId :: string
  plNodeName :: string
  plPath :: "string option"

record sessionState =
  ssRef :: nat
  ssModel :: "(string \<times> string) option"
  ssThinkingLevel :: string

record cachedSession =
  csId :: string
  csProjectId :: "int option"
  csTaskId :: "int option"
  csParentSessionId :: "string option"
  csName :: "string option"
  csCreatedAt :: "string option"
  csUpdatedAt :: "string option"
  csFirstMessage :: "string option"
  csMessageCount :: "int option"
  csActivityState :: "activityState option"
  csPlacement :: "placement option"
  csPinnedAt :: "string option"
  csArchivedAt :: "string option"
  csSourceExtension :: "string option"
  csBackground :: bool
  csPendingOperation :: "string option"
  csRuntimeType :: "string option"
  csState :: "sessionState option"

record sessionPatch =
  spProjectId :: "int option option"
  spTaskId :: "int option option"
  spParentSessionId :: "string option option"
  spName :: "string option option"
  spCreatedAt :: "string option option"
  spUpdatedAt :: "string option option"
  spFirstMessage :: "string option option"
  spMessageCount :: "int option option"
  spActivityState :: "activityState option option"
  spPlacement :: "placement option option"
  spPinnedAt :: "string option option"
  spArchivedAt :: "string option option"
  spSourceExtension :: "string option option"
  spBackground :: "bool option"
  spPendingOperation :: "string option option"
  spRuntimeType :: "string option option"
  spState :: "sessionState option option"

text \<open>What a detail view holds (the arguments of \<open>getDetail\<close>'s result that can be missing in the cache).\<close>

record sessionDetail =
  sdSession :: cachedSession
  sdCreatedAt :: string
  sdUpdatedAt :: string
  sdMessageCount :: int
  sdState :: sessionState
  sdPlacement :: placement
  sdRuntimeType :: "string option"

definition emptyCachedSession :: "string \<Rightarrow> cachedSession" where
  "emptyCachedSession sid =
     \<lparr>csId = sid, csProjectId = None, csTaskId = None, csParentSessionId = None, csName = None,
      csCreatedAt = None, csUpdatedAt = None, csFirstMessage = None, csMessageCount = None,
      csActivityState = None, csPlacement = None, csPinnedAt = None, csArchivedAt = None,
      csSourceExtension = None, csBackground = False, csPendingOperation = None,
      csRuntimeType = None, csState = None\<rparr>"

definition emptyPatch :: sessionPatch where
  "emptyPatch =
     \<lparr>spProjectId = None, spTaskId = None, spParentSessionId = None, spName = None,
      spCreatedAt = None, spUpdatedAt = None, spFirstMessage = None, spMessageCount = None,
      spActivityState = None, spPlacement = None, spPinnedAt = None, spArchivedAt = None,
      spSourceExtension = None, spBackground = None, spPendingOperation = None,
      spRuntimeType = None, spState = None\<rparr>"

text \<open>\<open>{...previous, ...withoutUndefined(data), id}\<close>: a field of the patch that is not undefined
  replaces the entry's.\<close>

definition mergePatch :: "cachedSession \<Rightarrow> sessionPatch \<Rightarrow> string \<Rightarrow> cachedSession" where
  "mergePatch previous data sid =
     \<lparr>csId = sid,
      csProjectId = orElse (spProjectId data) (csProjectId previous),
      csTaskId = orElse (spTaskId data) (csTaskId previous),
      csParentSessionId = orElse (spParentSessionId data) (csParentSessionId previous),
      csName = orElse (spName data) (csName previous),
      csCreatedAt = orElse (spCreatedAt data) (csCreatedAt previous),
      csUpdatedAt = orElse (spUpdatedAt data) (csUpdatedAt previous),
      csFirstMessage = orElse (spFirstMessage data) (csFirstMessage previous),
      csMessageCount = orElse (spMessageCount data) (csMessageCount previous),
      csActivityState = orElse (spActivityState data) (csActivityState previous),
      csPlacement = orElse (spPlacement data) (csPlacement previous),
      csPinnedAt = orElse (spPinnedAt data) (csPinnedAt previous),
      csArchivedAt = orElse (spArchivedAt data) (csArchivedAt previous),
      csSourceExtension = orElse (spSourceExtension data) (csSourceExtension previous),
      csBackground = orElse (spBackground data) (csBackground previous),
      csPendingOperation = orElse (spPendingOperation data) (csPendingOperation previous),
      csRuntimeType = orElse (spRuntimeType data) (csRuntimeType previous),
      csState = orElse (spState data) (csState previous)\<rparr>"

definition placementEquals :: "placement option \<Rightarrow> placement option \<Rightarrow> bool" where
  "placementEquals a b =
     (case (a, b) of
        (Some p, Some q) \<Rightarrow>
          plAvailable p = plAvailable q \<and> plRemoved p = plRemoved q \<and> plNodeId p = plNodeId q
          \<and> plNodeName p = plNodeName q \<and> plPath p = plPath q
      | (None, None) \<Rightarrow> True
      | _ \<Rightarrow> False)"

definition sessionEquals :: "cachedSession \<Rightarrow> cachedSession \<Rightarrow> bool" where
  "sessionEquals a b =
     (csProjectId a = csProjectId b \<and>
      csTaskId a = csTaskId b \<and>
      csParentSessionId a = csParentSessionId b \<and>
      csName a = csName b \<and>
      csCreatedAt a = csCreatedAt b \<and>
      csUpdatedAt a = csUpdatedAt b \<and>
      csFirstMessage a = csFirstMessage b \<and>
      csMessageCount a = csMessageCount b \<and>
      csActivityState a = csActivityState b \<and>
      placementEquals (csPlacement a) (csPlacement b) \<and>
      csPinnedAt a = csPinnedAt b \<and>
      csArchivedAt a = csArchivedAt b \<and>
      csSourceExtension a = csSourceExtension b \<and>
      csBackground a = csBackground b \<and>
      csPendingOperation a = csPendingOperation b \<and>
      csRuntimeType a = csRuntimeType b \<and>
      map_option ssRef (csState a) = map_option ssRef (csState b))"

subsection \<open>The cache\<close>

record sessionCache =
  scEntries :: "(string, cachedSession) jsmap"
  scDetailFetches :: "(string, nat) jsmap"
  scListeners :: "(string, nat list) jsmap"
  scAnyListeners :: "nat list"
  scNextRequest :: nat

datatype listenerCall = AnyCall nat string | SessionCall nat string

definition emptyCache :: sessionCache where
  "emptyCache = \<lparr>scEntries = [], scDetailFetches = [], scListeners = [], scAnyListeners = [], scNextRequest = 0\<rparr>"

definition setAdd :: "'a \<Rightarrow> 'a list \<Rightarrow> 'a list" where
  "setAdd x xs = (if x \<in> set xs then xs else xs @ [x])"

definition cacheSubscribe :: "sessionCache \<Rightarrow> string \<Rightarrow> nat \<Rightarrow> sessionCache" where
  "cacheSubscribe c sid l =
     c\<lparr>scListeners := jmSet sid (setAdd l (orElse (jmGet (scListeners c) sid) [])) (scListeners c)\<rparr>"

definition cacheUnsubscribe :: "sessionCache \<Rightarrow> string \<Rightarrow> nat \<Rightarrow> sessionCache" where
  "cacheUnsubscribe c sid l =
     (case jmGet (scListeners c) sid of
        None \<Rightarrow> c
      | Some current \<Rightarrow>
          (let left = removeAll l current
           in if left = [] then c\<lparr>scListeners := jmDelete sid (scListeners c)\<rparr>
              else c\<lparr>scListeners := jmSet sid left (scListeners c)\<rparr>))"

definition cacheSubscribeAll :: "sessionCache \<Rightarrow> nat \<Rightarrow> sessionCache" where
  "cacheSubscribeAll c l = c\<lparr>scAnyListeners := setAdd l (scAnyListeners c)\<rparr>"

definition cacheUnsubscribeAll :: "sessionCache \<Rightarrow> nat \<Rightarrow> sessionCache" where
  "cacheUnsubscribeAll c l = c\<lparr>scAnyListeners := removeAll l (scAnyListeners c)\<rparr>"

definition cacheNotify :: "sessionCache \<Rightarrow> string \<Rightarrow> listenerCall list" where
  "cacheNotify c sid =
     map (\<lambda>l. AnyCall l sid) (scAnyListeners c) @
     (case jmGet (scListeners c) sid of None \<Rightarrow> [] | Some ls \<Rightarrow> map (\<lambda>l. SessionCall l sid) ls)"

definition cacheGet :: "sessionCache \<Rightarrow> string \<Rightarrow> cachedSession option" where
  "cacheGet c sid = jmGet (scEntries c) sid"

definition cacheEntries :: "sessionCache \<Rightarrow> cachedSession list" where
  "cacheEntries c = filter (\<lambda>s. \<not> csBackground s) (map snd (scEntries c))"

definition cacheGetDetail :: "sessionCache \<Rightarrow> string \<Rightarrow> sessionDetail option" where
  "cacheGetDetail c sid =
     (case cacheGet c sid of
        None \<Rightarrow> None
      | Some entry \<Rightarrow>
          (case (csCreatedAt entry, csUpdatedAt entry, csMessageCount entry, csState entry, csPlacement entry) of
             (Some createdAt, Some updatedAt, Some cnt, Some st, Some pl) \<Rightarrow>
               Some \<lparr>sdSession = entry, sdCreatedAt = createdAt, sdUpdatedAt = updatedAt,
                     sdMessageCount = cnt, sdState = st, sdPlacement = pl,
                     sdRuntimeType = csRuntimeType entry\<rparr>
           | _ \<Rightarrow> None))"

definition cacheSet :: "sessionCache \<Rightarrow> string \<Rightarrow> sessionPatch \<Rightarrow> sessionCache \<times> listenerCall list" where
  "cacheSet c sid data =
     (let previous = orElse (jmGet (scEntries c) sid) (emptyCachedSession sid);
          next' = mergePatch previous data sid;
          c' = c\<lparr>scEntries := jmSet sid next' (scEntries c)\<rparr>
      in (c', if sessionEquals previous next' then [] else cacheNotify c' sid))"

fun cacheSetMany :: "sessionCache \<Rightarrow> (string \<times> sessionPatch) list \<Rightarrow> sessionCache \<times> listenerCall list" where
  "cacheSetMany c [] = (c, [])"
| "cacheSetMany c ((sid, data) # rest) =
     (let (c1, calls) = cacheSet c sid data; (c2, more) = cacheSetMany c1 rest in (c2, calls @ more))"

fun cacheRemoveMany :: "sessionCache \<Rightarrow> string list \<Rightarrow> sessionCache \<times> string list \<times> listenerCall list" where
  "cacheRemoveMany c [] = (c, [], [])"
| "cacheRemoveMany c (sid # rest) =
     (if jmHas (scEntries c) sid
      then let c1 = c\<lparr>scEntries := jmDelete sid (scEntries c), scDetailFetches := jmDelete sid (scDetailFetches c)\<rparr>;
               (c2, removed, calls) = cacheRemoveMany c1 rest
           in (c2, sid # removed, cacheNotify c1 sid @ calls)
      else cacheRemoveMany c rest)"

text \<open>A detail request: the one in flight, or a new one (its number).\<close>

definition cacheLoadDetail :: "sessionCache \<Rightarrow> string \<Rightarrow> sessionCache \<times> nat \<times> bool" where
  "cacheLoadDetail c sid =
     (case jmGet (scDetailFetches c) sid of
        Some req \<Rightarrow> (c, req, False)
      | None \<Rightarrow> (c\<lparr>scDetailFetches := jmSet sid (scNextRequest c) (scDetailFetches c),
                   scNextRequest := Suc (scNextRequest c)\<rparr>, scNextRequest c, True))"

text \<open>The server's answer to a request for \<open>sid\<close>: details are cached under their own ID, then (in
  either case) the request is forgotten.\<close>

definition cacheDetailSettled ::
  "sessionCache \<Rightarrow> string \<Rightarrow> (string \<times> sessionPatch) option \<Rightarrow> sessionCache \<times> listenerCall list" where
  "cacheDetailSettled c sid answer =
     (let (c1, calls) = (case answer of None \<Rightarrow> (c, []) | Some (id', data) \<Rightarrow> cacheSet c id' data)
      in (c1\<lparr>scDetailFetches := jmDelete sid (scDetailFetches c1)\<rparr>, calls))"

subsection \<open>Lemmas\<close>

lemma sessionEquals_refl [simp]: "sessionEquals s s"
  by (simp add: sessionEquals_def placementEquals_def split: option.split)

lemma mergePatch_twice [simp]: "mergePatch (mergePatch s p sid) p sid = mergePatch s p sid"
  by (simp add: mergePatch_def)

lemma mergePatch_empty: "csId s = sid \<Longrightarrow> mergePatch s emptyPatch sid = s"
  by (simp add: mergePatch_def emptyPatch_def)

lemma placementEquals_eq: "placementEquals a b \<longleftrightarrow> a = b"
  by (auto simp: placementEquals_def split: option.splits)

lemma cacheSet_simps:
  "scEntries (fst (cacheSet c sid p)) =
     jmSet sid (mergePatch (orElse (jmGet (scEntries c) sid) (emptyCachedSession sid)) p sid) (scEntries c)"
  "scListeners (fst (cacheSet c sid p)) = scListeners c"
  "scAnyListeners (fst (cacheSet c sid p)) = scAnyListeners c"
  "scDetailFetches (fst (cacheSet c sid p)) = scDetailFetches c"
  "scNextRequest (fst (cacheSet c sid p)) = scNextRequest c"
  by (simp_all add: cacheSet_def Let_def)

lemma cacheGet_set:
  "cacheGet (fst (cacheSet c sid p)) sid' =
     (if sid' = sid then Some (mergePatch (orElse (cacheGet c sid) (emptyCachedSession sid)) p sid)
      else cacheGet c sid')"
  by (simp add: cacheGet_def cacheSet_simps)

definition cacheWf :: "sessionCache \<Rightarrow> bool" where
  "cacheWf c =
     (jmWf (scEntries c) \<and> jmAll (\<lambda>k s. csId s = k) (scEntries c)
      \<and> jmWf (scDetailFetches c) \<and> jmAll (\<lambda>k r. r < scNextRequest c) (scDetailFetches c)
      \<and> jmWf (scListeners c) \<and> jmAll (\<lambda>k ls. ls \<noteq> [] \<and> distinct ls) (scListeners c)
      \<and> distinct (scAnyListeners c))"

lemma csId_mergePatch [simp]: "csId (mergePatch s p sid) = sid"
  by (simp add: mergePatch_def)

lemma distinct_setAdd [simp]: "distinct (setAdd x xs) \<longleftrightarrow> distinct xs"
  by (auto simp: setAdd_def)

lemma setAdd_not_Nil [simp]: "setAdd x xs \<noteq> []"
  by (auto simp: setAdd_def)

lemma cacheWf_empty: "cacheWf emptyCache"
  by (simp add: cacheWf_def emptyCache_def)

lemma cacheWf_set: "cacheWf c \<Longrightarrow> cacheWf (fst (cacheSet c sid p))"
  by (simp add: cacheWf_def cacheSet_simps)

lemma cacheWf_setMany: "cacheWf c \<Longrightarrow> cacheWf (fst (cacheSetMany c sps))"
proof (induction sps arbitrary: c)
  case (Cons sp sps)
  then show ?case by (cases sp) (simp add: Let_def case_prod_beta cacheWf_set)
qed simp

lemma cacheWf_subscribe:
  assumes "cacheWf c"
  shows "cacheWf (cacheSubscribe c sid l)"
proof -
  have "distinct (orElse (jmGet (scListeners c) sid) [])"
    using assms by (cases "jmGet (scListeners c) sid") (auto simp: cacheWf_def dest: jmAll_get)
  then show ?thesis using assms by (simp add: cacheWf_def cacheSubscribe_def)
qed

lemma cacheWf_unsubscribe:
  assumes "cacheWf c"
  shows "cacheWf (cacheUnsubscribe c sid l)"
proof (cases "jmGet (scListeners c) sid")
  case (Some ls)
  with assms have "distinct ls"
    using jmAll_get [of "\<lambda>k ls. ls \<noteq> [] \<and> distinct ls"] by (force simp: cacheWf_def)
  with Some assms show ?thesis
    by (simp add: cacheWf_def cacheUnsubscribe_def Let_def distinct_removeAll)
qed (use assms in \<open>simp add: cacheUnsubscribe_def\<close>)

lemma cacheWf_any:
  "cacheWf c \<Longrightarrow> cacheWf (cacheSubscribeAll c l)"
  "cacheWf c \<Longrightarrow> cacheWf (cacheUnsubscribeAll c l)"
  by (simp_all add: cacheWf_def cacheSubscribeAll_def cacheUnsubscribeAll_def distinct_removeAll)

lemma cacheWf_removeMany: "cacheWf c \<Longrightarrow> cacheWf (fst (cacheRemoveMany c sids))"
proof (induction sids arbitrary: c)
  case (Cons sid sids)
  let ?c = "c\<lparr>scEntries := jmDelete sid (scEntries c), scDetailFetches := jmDelete sid (scDetailFetches c)\<rparr>"
  have "cacheWf ?c" using Cons.prems by (simp add: cacheWf_def)
  with Cons.IH [of ?c] Cons.IH [of c] Cons.prems show ?case by (auto simp: Let_def split: prod.split)
qed simp

lemma cacheWf_loadDetail:
  assumes "cacheWf c"
  shows "cacheWf (fst (cacheLoadDetail c sid))"
proof (cases "jmGet (scDetailFetches c) sid")
  case None
  have "jmAll (\<lambda>k r. r < Suc (scNextRequest c)) (scDetailFetches c)"
    using assms by (auto simp: cacheWf_def elim: jmAll_mono)
  with None assms show ?thesis by (simp add: cacheWf_def cacheLoadDetail_def)
qed (use assms in \<open>simp add: cacheLoadDetail_def\<close>)

lemma cacheWf_settled:
  assumes "cacheWf c"
  shows "cacheWf (fst (cacheDetailSettled c sid answer))"
proof -
  have del: "cacheWf (c1\<lparr>scDetailFetches := jmDelete sid (scDetailFetches c1)\<rparr>)" if "cacheWf c1" for c1
    using that by (simp add: cacheWf_def)
  show ?thesis
  proof (cases answer)
    case None
    then show ?thesis using assms del by (simp add: cacheDetailSettled_def)
  next
    case (Some a)
    then show ?thesis
      using del [OF cacheWf_set [OF assms]] by (cases a) (simp add: cacheDetailSettled_def case_prod_beta Let_def)
  qed
qed

subsection \<open>Runs of operations\<close>

datatype cacheOp =
    OpSet string sessionPatch
  | OpSetMany "(string \<times> sessionPatch) list"
  | OpRemoveMany "string list"
  | OpSubscribe string nat
  | OpUnsubscribe string nat
  | OpSubscribeAll nat
  | OpUnsubscribeAll nat
  | OpLoadDetail string
  | OpDetailSettled string "(string \<times> sessionPatch) option"

fun cacheStep :: "sessionCache \<Rightarrow> cacheOp \<Rightarrow> sessionCache" where
  "cacheStep c (OpSet sid p) = fst (cacheSet c sid p)"
| "cacheStep c (OpSetMany sps) = fst (cacheSetMany c sps)"
| "cacheStep c (OpRemoveMany sids) = fst (cacheRemoveMany c sids)"
| "cacheStep c (OpSubscribe sid l) = cacheSubscribe c sid l"
| "cacheStep c (OpUnsubscribe sid l) = cacheUnsubscribe c sid l"
| "cacheStep c (OpSubscribeAll l) = cacheSubscribeAll c l"
| "cacheStep c (OpUnsubscribeAll l) = cacheUnsubscribeAll c l"
| "cacheStep c (OpLoadDetail sid) = fst (cacheLoadDetail c sid)"
| "cacheStep c (OpDetailSettled sid answer) = fst (cacheDetailSettled c sid answer)"

lemma cacheWf_run: "cacheWf (foldl cacheStep emptyCache ops)"
proof -
  have "cacheWf (cacheStep c op)" if "cacheWf c" for c op
    using that by (cases op) (auto simp: cacheWf_set cacheWf_setMany cacheWf_removeMany cacheWf_subscribe
        cacheWf_unsubscribe cacheWf_any cacheWf_loadDetail cacheWf_settled)
  then have "cacheWf c \<Longrightarrow> cacheWf (foldl cacheStep c ops)" for c
    by (induction ops arbitrary: c) auto
  from this [OF cacheWf_empty] show ?thesis .
qed

text \<open>After any sequence of operations every entry is kept once, under its own ID, no session is
  left with an empty set of listeners, and each session has at most one detail request in flight.\<close>

theorem cache_invariant: "cacheWf (foldl cacheStep emptyCache ops)"
  by (rule cacheWf_run)

lemma sessionEquals_set_iff:
  "snd (cacheSet c sid p) =
     (if sessionEquals (orElse (cacheGet c sid) (emptyCachedSession sid))
           (mergePatch (orElse (cacheGet c sid) (emptyCachedSession sid)) p sid)
      then [] else cacheNotify c sid)"
  by (simp add: cacheSet_def cacheGet_def Let_def cacheNotify_def)

text \<open>Writing session data replaces exactly the fields the patch defines, of that session only;
  writing the same data again changes nothing and calls no listener.\<close>

theorem cache_set_idempotent:
  "cacheGet (fst (cacheSet c sid p)) sid' =
     (if sid' = sid then Some (mergePatch (orElse (cacheGet c sid) (emptyCachedSession sid)) p sid)
      else cacheGet c sid')
   \<and> cacheSet (fst (cacheSet c sid p)) sid p = (fst (cacheSet c sid p), [])"
proof
  let ?c = "fst (cacheSet c sid p)"
  let ?s = "mergePatch (orElse (cacheGet c sid) (emptyCachedSession sid)) p sid"
  have get: "jmGet (scEntries ?c) sid = Some ?s"
    by (simp add: cacheSet_simps cacheGet_def)
  then have "jmSet sid ?s (scEntries ?c) = scEntries ?c" by (rule jmSet_same)
  with get show "cacheSet ?c sid p = (?c, [])"
    by (simp add: cacheSet_def [of ?c] Let_def)
qed (rule cacheGet_set)

lemma removeMany_gets:
  "cacheGet (fst (cacheRemoveMany c sids)) sid = (if sid \<in> set sids then None else cacheGet c sid)"
  by (induction sids arbitrary: c) (auto simp: Let_def cacheGet_def jmHas_def case_prod_beta)

text \<open>Removing sessions forgets exactly those, reports each of them that was cached once, and
  leaves every other session as it was.\<close>

theorem cache_remove_many:
  "set (fst (snd (cacheRemoveMany c sids))) = {sid \<in> set sids. cacheGet c sid \<noteq> None}
   \<and> distinct (fst (snd (cacheRemoveMany c sids)))
   \<and> cacheGet (fst (cacheRemoveMany c sids)) sid = (if sid \<in> set sids then None else cacheGet c sid)"
proof -
  have "set (fst (snd (cacheRemoveMany c sids))) = {sid \<in> set sids. cacheGet c sid \<noteq> None}
        \<and> distinct (fst (snd (cacheRemoveMany c sids)))"
    by (induction sids arbitrary: c) (auto simp: Let_def cacheGet_def jmHas_def case_prod_beta)
  then show ?thesis by (simp add: removeMany_gets)
qed

lemma cacheEntries_iff:
  assumes wf: "cacheWf c"
  shows "s \<in> set (cacheEntries c) \<longleftrightarrow> cacheGet c (csId s) = Some s \<and> \<not> csBackground s"
proof -
  have "s \<in> snd ` set (scEntries c) \<longleftrightarrow> (csId s, s) \<in> set (scEntries c)"
    using wf by (force simp: cacheWf_def jmAll_def)
  also have "\<dots> \<longleftrightarrow> cacheGet c (csId s) = Some s"
    using wf by (simp add: cacheGet_def cacheWf_def map_of_eq_Some_iff)
  finally show ?thesis by (auto simp: cacheEntries_def)
qed

text \<open>Session lists and badges iterate the sessions that are not background sessions:
  each of them once, and none of the others.\<close>

theorem cache_entries_foreground:
  "distinct (map csId (cacheEntries (foldl cacheStep emptyCache ops)))
   \<and> (s \<in> set (cacheEntries (foldl cacheStep emptyCache ops)) \<longleftrightarrow>
       cacheGet (foldl cacheStep emptyCache ops) (csId s) = Some s \<and> \<not> csBackground s)"
proof -
  let ?c = "foldl cacheStep emptyCache ops"
  have wf: "cacheWf ?c" by (rule cacheWf_run)
  then have "map csId (map snd (scEntries ?c)) = map fst (scEntries ?c)"
    by (auto simp: cacheWf_def jmAll_def)
  moreover have "jmWf (scEntries ?c)" using wf by (simp add: cacheWf_def)
  ultimately have "distinct (map csId (map snd (scEntries ?c)))" by (simp only:)
  then have "distinct (map csId (cacheEntries ?c))"
    by (simp add: cacheEntries_def distinct_map_filter)
  with cacheEntries_iff [OF wf] show ?thesis by simp
qed

end
