(* ===== verification/Conversations.thy ===== *)
theory Conversations
  imports Message_View Session_Cache
begin

text \<open>
  The conversations store, \<^verbatim>\<open>packages/frontend/src/models/stores/conversations-store.ts\<close>: per session
  the saved entries in transcript order, optimistic submissions, the chat state's overlays and
  flags (\<open>Chat_State\<close>), the cursors of the loaded pages, the last event sequence seen, listeners
  and notifications waiting for a frame. Listeners are numbers; an operation returns the calls it
  makes, session and listener, in order. \<open>lc\<close> is \<open>localeCompare\<close> as a comparator, the locale's collation of IDs.
  Telemetry and timers are left out: a frame is the operation \<open>frameFires\<close>.
\<close>

subsection \<open>State\<close>

record liveConversationEntry =
  lceClientId :: string
  lceLocalId :: string
  lceMessage :: agentMessage

record conversationState = chatState +
  entries :: "conversationEntry list"
  pendingSubmissions :: "(string, liveConversationEntry) jsmap"
  previousCursor :: "string option"
  latestCursor :: "string option"

record messagePage =
  mpItems :: "conversationEntry list"
  mpPreviousCursor :: "string option"
  mpHasNextPage :: bool
  mpEndCursor :: "string option"
  mpLatestRunError :: "string option option"

record conversationUpdate =
  cuEntries :: "conversationEntry list option"
  cuPendingSubmissions :: "(string, liveConversationEntry) jsmap option"
  cuPreviousCursor :: "string option option"
  cuLatestCursor :: "string option option"
  cuStreamingAssistants :: "streamingAssistant list option"
  cuToolExecutions :: "(string, toolExecution) jsmap option"
  cuIsCompacting :: "bool option"
  cuErrorMessage :: "string option"

definition noUpdate :: conversationUpdate where
  "noUpdate = \<lparr>cuEntries = None, cuPendingSubmissions = None, cuPreviousCursor = None, cuLatestCursor = None,
     cuStreamingAssistants = None, cuToolExecutions = None, cuIsCompacting = None, cuErrorMessage = None\<rparr>"

record pendingNotification =
  pnEvents :: nat
  pnStreamIds :: "string list"

record syncState =
  syAfter :: "string option"
  syEventVersion :: "nat option"
  syErrorAtStart :: string

record conversationView =
  vwMessages :: "message list"
  vwStreamingMessages :: "message list"
  vwHasEarlierMessages :: bool
  vwIsCompacting :: bool
  vwErrorMessage :: string

record viewCache =
  vcState :: conversationState
  vcRunning :: bool
  vcView :: conversationView

record conversationsStore =
  cvStates :: "(string, conversationState) jsmap"
  cvListeners :: "(string, nat list) jsmap"
  cvSyncs :: "string list"
  cvEventSeqs :: "(string, int) jsmap"
  cvEventVersions :: "(string, nat) jsmap"
  cvViews :: "(string, viewCache) jsmap"
  cvPendingNotifications :: "(string, pendingNotification) jsmap"
  cvFrames :: bool

definition emptyStore :: "bool \<Rightarrow> conversationsStore" where
  "emptyStore frames = \<lparr>cvStates = [], cvListeners = [], cvSyncs = [], cvEventSeqs = [], cvEventVersions = [],
     cvViews = [], cvPendingNotifications = [], cvFrames = frames\<rparr>"

definition blankConversationState :: conversationState where
  "blankConversationState = chatState.extend initialChatState
     \<lparr>entries = [], pendingSubmissions = [], previousCursor = None, latestCursor = None\<rparr>"

definition stateFor :: "conversationsStore \<Rightarrow> string \<Rightarrow> conversationState" where
  "stateFor s sid = orElse (jmGet (cvStates s) sid) blankConversationState"

definition isRunning :: "sessionCache option \<Rightarrow> string \<Rightarrow> bool" where
  "isRunning cache sid =
     (case cache of None \<Rightarrow> False
      | Some c \<Rightarrow> Option.bind (cacheGet c sid) csActivityState = Some ActRunning)"

fun isStreamingPartial :: "chatEvent \<Rightarrow> bool" where
  "isStreamingPartial (MessageUpdate m sid step) = True"
| "isStreamingPartial (ToolExecutionUpdate cid n a p) = True"
| "isStreamingPartial _ = False"

fun eventStreamId :: "chatEvent \<Rightarrow> string option" where
  "eventStreamId (MessageUpdate m sid step) = Some sid"
| "eventStreamId (MessageStart m sid) = Some sid"
| "eventStreamId (MessageEnd m sid e) = Some sid"
| "eventStreamId _ = None"

subsection \<open>Entries\<close>

definition entryComparator :: "string comparator \<Rightarrow> conversationEntry comparator" where
  "entryComparator lc = key (\<lambda>e. (ceSeq e, ceId e)) (prod_lex default lc)"

definition byId :: "conversationEntry list \<Rightarrow> (string, conversationEntry) jsmap" where
  "byId es = foldl (\<lambda>m e. jmSet (ceId e) e m) [] es"

definition upsertEntries ::
  "string comparator \<Rightarrow> conversationEntry list \<Rightarrow> conversationEntry list \<Rightarrow> conversationEntry list" where
  "upsertEntries lc current incoming =
     Sorting_Algorithms.sort (entryComparator lc)
       (map snd (foldl (\<lambda>m e. jmSet (ceId e) e m) (byId current) incoming))"

subsection \<open>Notifications\<close>

definition storeNotify :: "conversationsStore \<Rightarrow> string \<Rightarrow> conversationsStore \<times> (string \<times> nat) list" where
  "storeNotify s sid =
     (s\<lparr>cvPendingNotifications := jmDelete sid (cvPendingNotifications s)\<rparr>,
      map (Pair sid) (orElse (jmGet (cvListeners s) sid) []))"

definition notifyNextFrame :: "conversationsStore \<Rightarrow> string \<Rightarrow> chatEvent \<Rightarrow> conversationsStore \<times> (string \<times> nat) list" where
  "notifyNextFrame s sid event =
     (if \<not> jmHas (cvListeners s) sid then (s, [])
      else if jmGet (cvPendingNotifications s) sid = None \<and> \<not> cvFrames s then storeNotify s sid
      else let pending = orElse (jmGet (cvPendingNotifications s) sid) \<lparr>pnEvents = 0, pnStreamIds = []\<rparr>;
               counted = pending\<lparr>pnEvents := Suc (pnEvents pending),
                 pnStreamIds := (case eventStreamId event of None \<Rightarrow> pnStreamIds pending
                                 | Some k \<Rightarrow> setAdd k (pnStreamIds pending))\<rparr>
           in (s\<lparr>cvPendingNotifications := jmSet sid counted (cvPendingNotifications s)\<rparr>, []))"

text \<open>The scheduled frame of a session: it notifies unless a notification cancelled it.\<close>

definition frameFires :: "conversationsStore \<Rightarrow> string \<Rightarrow> conversationsStore \<times> (string \<times> nat) list" where
  "frameFires s sid =
     (if jmHas (cvPendingNotifications s) sid then storeNotify s sid else (s, []))"

fun flushAll :: "conversationsStore \<Rightarrow> string list \<Rightarrow> conversationsStore \<times> (string \<times> nat) list" where
  "flushAll s [] = (s, [])"
| "flushAll s (sid # sids) =
     (let (s1, calls) = frameFires s sid; (s2, more) = flushAll s1 sids in (s2, calls @ more))"

definition flushNotifications :: "conversationsStore \<Rightarrow> string option \<Rightarrow> conversationsStore \<times> (string \<times> nat) list" where
  "flushNotifications s sid =
     flushAll s (case sid of None \<Rightarrow> map fst (cvPendingNotifications s) | Some k \<Rightarrow> [k])"

subsection \<open>Updating a session\<close>

definition reconciledClientIds ::
  "(string, liveConversationEntry) jsmap \<Rightarrow> conversationEntry list option \<Rightarrow> string list" where
  "reconciledClientIds pending incoming =
     (case incoming of None \<Rightarrow> []
      | Some es \<Rightarrow> List.map_filter (\<lambda>e. if truthyStr (ceClientId e) \<and> jmHas pending (the (ceClientId e))
                                   then ceClientId e else None) es)"

definition applyUpdate :: "string comparator \<Rightarrow> conversationState \<Rightarrow> conversationUpdate \<Rightarrow> conversationState" where
  "applyUpdate lc current patch =
     (let newEntries = (case cuEntries patch of None \<Rightarrow> entries current
                        | Some es \<Rightarrow> upsertEntries lc (entries current) es);
          pending = orElse (cuPendingSubmissions patch) (pendingSubmissions current);
          pending' = fold jmDelete (reconciledClientIds pending (cuEntries patch)) pending;
          streams = orElse (cuStreamingAssistants patch) (streamingAssistants current);
          streams' = (if (cuEntries patch \<noteq> None \<or> cuStreamingAssistants patch \<noteq> None)
                         \<and> list_ex (\<lambda>sa. truthyStr (saDurableId sa)) streams
                      then removePersistedStreamingAssistants streams (map ceId newEntries)
                      else streams)
      in \<lparr>streamingAssistants = streams',
          toolExecutions = orElse (cuToolExecutions patch) (toolExecutions current),
          isCompacting = orElse (cuIsCompacting patch) (isCompacting current),
          errorMessage = orElse (cuErrorMessage patch) (errorMessage current),
          entries = newEntries,
          pendingSubmissions = pending',
          previousCursor = orElse (cuPreviousCursor patch) (previousCursor current),
          latestCursor = orElse (cuLatestCursor patch) (latestCursor current)\<rparr>)"

definition storeUpdate ::
  "string comparator \<Rightarrow> conversationsStore \<Rightarrow> string \<Rightarrow> (conversationState \<Rightarrow> conversationUpdate option)
   \<Rightarrow> chatEvent option \<Rightarrow> conversationsStore \<times> (string \<times> nat) list" where
  "storeUpdate lc s sid build partial =
     (case build (stateFor s sid) of
        None \<Rightarrow> (s, [])
      | Some patch \<Rightarrow>
          (let s' = s\<lparr>cvStates := jmSet sid (applyUpdate lc (stateFor s sid) patch) (cvStates s)\<rparr>
           in case partial of Some event \<Rightarrow> notifyNextFrame s' sid event | None \<Rightarrow> storeNotify s' sid))"

subsection \<open>Operations\<close>

definition storeSubscribe :: "conversationsStore \<Rightarrow> string \<Rightarrow> nat \<Rightarrow> conversationsStore" where
  "storeSubscribe s sid l =
     (if sid = [] then s
      else s\<lparr>cvListeners := jmSet sid (setAdd l (orElse (jmGet (cvListeners s) sid) [])) (cvListeners s)\<rparr>)"

definition pruneSessionIfInactive ::
  "sessionCache option \<Rightarrow> conversationsStore \<Rightarrow> string \<Rightarrow> conversationsStore \<times> (string \<times> nat) list" where
  "pruneSessionIfInactive cache s sid =
     (if \<not> jmHas (cvStates s) sid \<or> jmHas (cvListeners s) sid \<or> isRunning cache sid then (s, [])
      else storeNotify (s\<lparr>cvEventSeqs := jmDelete sid (cvEventSeqs s),
                         cvEventVersions := jmDelete sid (cvEventVersions s),
                         cvViews := jmDelete sid (cvViews s),
                         cvStates := jmDelete sid (cvStates s)\<rparr>) sid)"

fun pruneAll :: "sessionCache option \<Rightarrow> conversationsStore \<Rightarrow> string list \<Rightarrow> conversationsStore \<times> (string \<times> nat) list" where
  "pruneAll cache s [] = (s, [])"
| "pruneAll cache s (sid # sids) =
     (let (s1, calls) = pruneSessionIfInactive cache s sid; (s2, more) = pruneAll cache s1 sids
      in (s2, calls @ more))"

definition pruneInactive :: "sessionCache option \<Rightarrow> conversationsStore \<Rightarrow> conversationsStore \<times> (string \<times> nat) list" where
  "pruneInactive cache s = pruneAll cache s (map fst (cvStates s))"

definition storeUnsubscribe ::
  "sessionCache option \<Rightarrow> conversationsStore \<Rightarrow> string \<Rightarrow> nat \<Rightarrow> conversationsStore \<times> (string \<times> nat) list" where
  "storeUnsubscribe cache s sid l =
     (case jmGet (cvListeners s) sid of
        None \<Rightarrow> (s, [])
      | Some current \<Rightarrow>
          (let left = removeAll l current
           in if left = []
              then pruneSessionIfInactive cache (s\<lparr>cvListeners := jmDelete sid (cvListeners s)\<rparr>) sid
              else (s\<lparr>cvListeners := jmSet sid left (cvListeners s)\<rparr>, [])))"

definition addPendingSubmission ::
  "string comparator \<Rightarrow> conversationsStore \<Rightarrow> string \<Rightarrow> contentBlock list \<Rightarrow> string \<Rightarrow> int
   \<Rightarrow> (string \<times> json) list option \<Rightarrow> (conversationsStore \<times> (string \<times> nat) list) \<times> liveConversationEntry option" where
  "addPendingSubmission lc s sid content clientId timestamp metadata =
     (let st = stateFor s sid
      in if sid = [] \<or> jmHas (pendingSubmissions st) clientId
            \<or> list_ex (\<lambda>e. ceClientId e = Some clientId) (entries st)
         then ((s, []), None)
         else let entry = \<lparr>lceClientId = clientId, lceLocalId = ''submission-'' @ clientId,
                     lceMessage = UserMsg \<lparr>umContent = UserBlocks content, umMetadata = metadata,
                                          umTimestamp = timestamp\<rparr>\<rparr>
              in (storeUpdate lc s sid (\<lambda>_. Some (noUpdate\<lparr>cuPendingSubmissions :=
                     Some (jmSet clientId entry (pendingSubmissions st))\<rparr>)) None, Some entry))"

definition addOptimisticUserMessage ::
  "string comparator \<Rightarrow> conversationsStore \<Rightarrow> string \<Rightarrow> contentBlock list \<Rightarrow> string \<Rightarrow> int
   \<Rightarrow> (conversationsStore \<times> (string \<times> nat) list) \<times> liveConversationEntry option" where
  "addOptimisticUserMessage lc s sid content clientId timestamp =
     addPendingSubmission lc s sid content clientId timestamp None"

definition pageUpdate :: "messagePage \<Rightarrow> bool \<Rightarrow> bool \<Rightarrow> conversationState \<Rightarrow> conversationUpdate" where
  "pageUpdate page earlier restoreError st =
     noUpdate\<lparr>cuEntries := Some (mpItems page),
       cuPreviousCursor := Some (if earlier \<or> entries st = [] then mpPreviousCursor page else previousCursor st),
       cuLatestCursor := Some (if earlier then latestCursor st else mpEndCursor page),
       cuErrorMessage := (if \<not> earlier \<and> restoreError
                          then map_option (\<lambda>e. orElse e []) (mpLatestRunError page) else None)\<rparr>"

definition mergeMessages ::
  "string comparator \<Rightarrow> conversationsStore \<Rightarrow> string \<Rightarrow> messagePage \<Rightarrow> bool \<Rightarrow> bool
   \<Rightarrow> conversationsStore \<times> (string \<times> nat) list" where
  "mergeMessages lc s sid page earlier restoreError =
     (if sid = [] then (s, [])
      else storeUpdate lc s sid (\<lambda>st. Some (pageUpdate page earlier restoreError st)) None)"

text \<open>Marking the overlays stale after missed events, and the reducer's changes as a patch.\<close>

definition stalePatch :: "conversationState \<Rightarrow> conversationUpdate option" where
  "stalePatch st =
     (if list_all saStale (streamingAssistants st) then None
      else Some (noUpdate\<lparr>cuStreamingAssistants := Some (markStreamsStale (streamingAssistants st))\<rparr>))"

definition chatPatch :: "chatEvent \<Rightarrow> conversationState \<Rightarrow> conversationUpdate option" where
  "chatPatch event st =
     (let cs = chatState.truncate st; next' = applyChatEvent cs event
      in if \<not> streamsRebuilt cs event \<and> \<not> toolsRebuilt cs event
            \<and> isCompacting next' = isCompacting cs \<and> errorMessage next' = errorMessage cs
         then None
         else Some (noUpdate\<lparr>cuStreamingAssistants := Some (streamingAssistants next'),
                 cuToolExecutions := Some (toolExecutions next'),
                 cuIsCompacting := Some (isCompacting next'),
                 cuErrorMessage := Some (errorMessage next')\<rparr>))"

definition seqJumped :: "conversationsStore \<Rightarrow> string \<Rightarrow> int option \<Rightarrow> bool" where
  "seqJumped s sid seq =
     (case (seq, jmGet (cvEventSeqs s) sid) of (Some n, Some prev) \<Rightarrow> n \<noteq> prev + 1 | _ \<Rightarrow> False)"

definition noteEvent :: "conversationsStore \<Rightarrow> string \<Rightarrow> int option \<Rightarrow> conversationsStore" where
  "noteEvent s sid seq =
     s\<lparr>cvEventVersions := jmSet sid (Suc (orElse (jmGet (cvEventVersions s) sid) 0)) (cvEventVersions s),
       cvEventSeqs := (case seq of None \<Rightarrow> cvEventSeqs s | Some n \<Rightarrow> jmSet sid n (cvEventSeqs s))\<rparr>"

definition applyEvent ::
  "string comparator \<Rightarrow> conversationsStore \<Rightarrow> string \<Rightarrow> chatEvent \<Rightarrow> int option
   \<Rightarrow> conversationsStore \<times> (string \<times> nat) list" where
  "applyEvent lc s sid event seq =
     (if sid = [] then (s, [])
      else let s1 = noteEvent s sid seq;
               (s2, calls) = (if seqJumped s sid seq then storeUpdate lc s1 sid stalePatch None else (s1, []));
               (s3, more) =
                 (case event of
                    EntryAdded e \<Rightarrow> storeUpdate lc s2 sid (\<lambda>_. Some (noUpdate\<lparr>cuEntries := Some [e]\<rparr>)) None
                  | _ \<Rightarrow> storeUpdate lc s2 sid (chatPatch event)
                          (if isStreamingPartial event then Some event else None))
           in (s3, calls @ more))"

definition setError :: "string comparator \<Rightarrow> conversationsStore \<Rightarrow> string \<Rightarrow> string \<Rightarrow> conversationsStore \<times> (string \<times> nat) list" where
  "setError lc s sid msg =
     (if sid = [] then (s, [])
      else storeUpdate lc s sid (\<lambda>_. Some (noUpdate\<lparr>cuErrorMessage := Some msg\<rparr>)) None)"

definition clearError :: "string comparator \<Rightarrow> conversationsStore \<Rightarrow> string \<Rightarrow> conversationsStore \<times> (string \<times> nat) list" where
  "clearError lc s sid = setError lc s sid []"

definition rejectSubmission ::
  "string comparator \<Rightarrow> conversationsStore \<Rightarrow> string \<Rightarrow> string \<Rightarrow> string \<Rightarrow> conversationsStore \<times> (string \<times> nat) list" where
  "rejectSubmission lc s sid clientId msg =
     (if sid = [] then (s, [])
      else if \<not> jmHas (pendingSubmissions (stateFor s sid)) clientId then setError lc s sid msg
      else storeUpdate lc s sid (\<lambda>_. Some (noUpdate\<lparr>
             cuPendingSubmissions := Some (jmDelete clientId (pendingSubmissions (stateFor s sid))),
             cuErrorMessage := Some msg\<rparr>)) None)"

definition endRun :: "string comparator \<Rightarrow> conversationsStore \<Rightarrow> string \<Rightarrow> conversationsStore \<times> (string \<times> nat) list" where
  "endRun lc s sid =
     (if sid = [] then (s, [])
      else storeUpdate lc s sid (\<lambda>st. if streamingAssistants st \<noteq> [] \<or> toolExecutions st \<noteq> []
             then Some (noUpdate\<lparr>cuStreamingAssistants := Some [], cuToolExecutions := Some []\<rparr>)
             else None) None)"

definition clearCompactingState ::
  "string comparator \<Rightarrow> conversationsStore \<Rightarrow> string \<Rightarrow> conversationsStore \<times> (string \<times> nat) list" where
  "clearCompactingState lc s sid =
     (if sid = [] then (s, [])
      else storeUpdate lc s sid (\<lambda>st. if isCompacting st
             then Some (noUpdate\<lparr>cuIsCompacting := Some False\<rparr>) else None) None)"

subsection \<open>Loading pages\<close>

text \<open>One load of the transcript's tail: it starts at the latest cursor (unless a load is in progress,
  whose promise the caller gets), then takes one page at a time until the server has no more. Between
  two pages the load keeps a \<open>syncState\<close> of its own; \<open>cvSyncs\<close> holds the sessions being loaded.\<close>

definition syncMessages :: "conversationsStore \<Rightarrow> string \<Rightarrow> conversationsStore \<times> syncState option" where
  "syncMessages s sid =
     (if sid = [] \<or> sid \<in> set (cvSyncs s) then (s, None)
      else (s\<lparr>cvSyncs := cvSyncs s @ [sid]\<rparr>,
            Some \<lparr>syAfter = latestCursor (stateFor s sid),
               syEventVersion = jmGet (cvEventVersions s) sid,
               syErrorAtStart = errorMessage (stateFor s sid)\<rparr>))"

datatype syncOutcome = SyncContinues syncState | SyncDone bool

definition syncPage ::
  "string comparator \<Rightarrow> conversationsStore \<Rightarrow> string \<Rightarrow> syncState \<Rightarrow> messagePage option
   \<Rightarrow> (conversationsStore \<times> (string \<times> nat) list) \<times> syncOutcome" where
  "syncPage lc s sid sy answer =
     (case answer of
        None \<Rightarrow> ((s\<lparr>cvSyncs := removeAll sid (cvSyncs s)\<rparr>, []), SyncDone False)
      | Some page \<Rightarrow>
          (let restore = (\<not> mpHasNextPage page \<and> jmGet (cvEventVersions s) sid = syEventVersion sy
                          \<and> errorMessage (stateFor s sid) = syErrorAtStart sy);
               (s1, calls) = mergeMessages lc s sid page False restore;
               stopped = s1\<lparr>cvSyncs := removeAll sid (cvSyncs s1)\<rparr>
           in if \<not> mpHasNextPage page then ((stopped, calls), SyncDone True)
              else if \<not> truthyStr (mpEndCursor page) \<or> mpEndCursor page = syAfter sy
              then ((stopped, calls), SyncDone False)
              else ((s1, calls), SyncContinues (sy\<lparr>syAfter := mpEndCursor page\<rparr>))))"

text \<open>The page before the first one loaded: the cursor to ask for, and its answer.\<close>

definition earlierCursor :: "conversationsStore \<Rightarrow> string \<Rightarrow> string option" where
  "earlierCursor s sid =
     (if sid = [] then None
      else if truthyStr (previousCursor (stateFor s sid)) then previousCursor (stateFor s sid) else None)"

definition loadEarlierAnswer ::
  "string comparator \<Rightarrow> conversationsStore \<Rightarrow> string \<Rightarrow> messagePage option
   \<Rightarrow> (conversationsStore \<times> (string \<times> nat) list) \<times> bool" where
  "loadEarlierAnswer lc s sid answer =
     (case answer of None \<Rightarrow> ((s, []), False)
      | Some page \<Rightarrow> (mergeMessages lc s sid page True True, True))"

subsection \<open>Views\<close>

definition entrySource :: "conversationEntry \<Rightarrow> messageSource" where
  "entrySource e = \<lparr>msIdentity = \<lparr>miEntryId = Some (ceId e), miParentEntryId = ceParentId e,
      miRenderKey = (if truthyStr (ceClientId e) then ''submission-'' @ the (ceClientId e) else ceId e)\<rparr>,
    msMessage = ceMessage e\<rparr>"

definition submissionSource :: "liveConversationEntry \<Rightarrow> messageSource" where
  "submissionSource e = \<lparr>msIdentity = \<lparr>miEntryId = None, miParentEntryId = None,
      miRenderKey = (if lceClientId e \<noteq> [] then ''submission-'' @ lceClientId e else [])\<rparr>,
    msMessage = lceMessage e\<rparr>"

definition buildTranscript :: "conversationState \<Rightarrow> message list" where
  "buildTranscript st =
     buildMessages (map entrySource (entries st) @ map (\<lambda>p. submissionSource (snd p)) (pendingSubmissions st))"

definition viewWith :: "message list \<Rightarrow> message list \<Rightarrow> conversationState \<Rightarrow> bool \<Rightarrow> conversationView" where
  "viewWith transcript streaming st running =
     \<lparr>vwMessages = applyToolExecutions transcript (toolExecutions st) running,
      vwStreamingMessages = streaming,
      vwHasEarlierMessages = (previousCursor st \<noteq> None),
      vwIsCompacting = isCompacting st,
      vwErrorMessage = errorMessage st\<rparr>"

text \<open>\<open>get\<close> over the view it cached before. Identical objects are equal values, so where the code compares
  identities the model compares values.\<close>

definition storeView :: "viewCache option \<Rightarrow> conversationState \<Rightarrow> bool \<Rightarrow> conversationView" where
  "storeView cached st running =
     (case cached of
        None \<Rightarrow> viewWith (buildTranscript st) (buildStreamingMessages (streamingAssistants st) (toolExecutions st)) st running
      | Some vc \<Rightarrow>
          if vcState vc = st \<and> vcRunning vc = running then vcView vc
          else viewWith
            (if entries (vcState vc) = entries st \<and> pendingSubmissions (vcState vc) = pendingSubmissions st
             then vwMessages (vcView vc) else buildTranscript st)
            (if streamingAssistants (vcState vc) = streamingAssistants st
                \<and> toolExecutions (vcState vc) = toolExecutions st
             then vwStreamingMessages (vcView vc)
             else buildStreamingMessages (streamingAssistants st) (toolExecutions st)) st running)"

definition storeGet :: "sessionCache option \<Rightarrow> conversationsStore \<Rightarrow> string \<Rightarrow> conversationsStore \<times> conversationView" where
  "storeGet cache s sid =
     (let st = (if sid = [] then blankConversationState else stateFor s sid);
          running = isRunning cache sid;
          view = storeView (jmGet (cvViews s) sid) st running
      in (if jmGet (cvStates s) sid = Some st
          then s\<lparr>cvViews := jmSet sid \<lparr>vcState = st, vcRunning = running, vcView = view\<rparr> (cvViews s)\<rparr>
          else s, view))"

definition disposeStore :: "conversationsStore \<Rightarrow> conversationsStore" where
  "disposeStore s = emptyStore (cvFrames s)"

subsection \<open>Every operation\<close>

text \<open>What can happen to the store: the calls of its users, an answer of the server, an event of a
  session, a frame, and a change of the session cache (which prunes a session nobody watches).\<close>

datatype storeOp =
    OpSubscribe string nat
  | OpUnsubscribe string nat
  | OpGet string
  | OpSync string
  | OpSyncPage string syncState "messagePage option"
  | OpEarlier string "messagePage option"
  | OpMerge string messagePage bool bool
  | OpSubmit string "contentBlock list" string int
  | OpReject string string string
  | OpEvent string chatEvent "int option"
  | OpEndRun string
  | OpClearCompacting string
  | OpSetError string string
  | OpFrame string
  | OpFlush "string option"
  | OpSessionChanged string
  | OpPruneInactive
  | OpDispose

fun storeStep ::
  "string comparator \<Rightarrow> sessionCache option \<Rightarrow> conversationsStore \<Rightarrow> storeOp
   \<Rightarrow> conversationsStore \<times> (string \<times> nat) list" where
  "storeStep lc cache s (OpSubscribe sid l) = (storeSubscribe s sid l, [])"
| "storeStep lc cache s (OpUnsubscribe sid l) = storeUnsubscribe cache s sid l"
| "storeStep lc cache s (OpGet sid) = (fst (storeGet cache s sid), [])"
| "storeStep lc cache s (OpSync sid) = (fst (syncMessages s sid), [])"
| "storeStep lc cache s (OpSyncPage sid sy answer) = fst (syncPage lc s sid sy answer)"
| "storeStep lc cache s (OpEarlier sid answer) = fst (loadEarlierAnswer lc s sid answer)"
| "storeStep lc cache s (OpMerge sid page earlier restore) = mergeMessages lc s sid page earlier restore"
| "storeStep lc cache s (OpSubmit sid content clientId timestamp) =
     fst (addOptimisticUserMessage lc s sid content clientId timestamp)"
| "storeStep lc cache s (OpReject sid clientId msg) = rejectSubmission lc s sid clientId msg"
| "storeStep lc cache s (OpEvent sid event seq) = applyEvent lc s sid event seq"
| "storeStep lc cache s (OpEndRun sid) = endRun lc s sid"
| "storeStep lc cache s (OpClearCompacting sid) = clearCompactingState lc s sid"
| "storeStep lc cache s (OpSetError sid msg) = setError lc s sid msg"
| "storeStep lc cache s (OpFrame sid) = frameFires s sid"
| "storeStep lc cache s (OpFlush sid) = flushNotifications s sid"
| "storeStep lc cache s (OpSessionChanged sid) = pruneSessionIfInactive cache s sid"
| "storeStep lc cache s OpPruneInactive = pruneInactive cache s"
| "storeStep lc cache s OpDispose = (disposeStore s, [])"

text \<open>A run of operations, each under the session cache of its moment.\<close>

definition storeRun ::
  "string comparator \<Rightarrow> conversationsStore \<Rightarrow> (sessionCache option \<times> storeOp) list \<Rightarrow> conversationsStore" where
  "storeRun lc s ops = foldl (\<lambda>s (cache, op). fst (storeStep lc cache s op)) s ops"

end
