(* ===== verification/Store_Laws.thy ===== *)
theory Store_Laws
  imports Conversation_Laws
begin

text \<open>
  Properties of the conversations store over every operation: the invariant of a session's state,
  the fidelity of its overlays when events are missed, its notifications, its cached views and
  its page loads. Each operation is first reduced to what it does to one session's state
  (\<open>quietStep\<close> for everything but an event of that session).
\<close>

subsection \<open>One operation, one session\<close>

inductive quietStep :: "string comparator \<Rightarrow> conversationState \<Rightarrow> conversationState \<Rightarrow> bool" for lc where
  quiet_entries: "cuPendingSubmissions p = None \<Longrightarrow> cuStreamingAssistants p = None \<Longrightarrow> cuToolExecutions p = None
    \<Longrightarrow> quietStep lc st (applyUpdate lc st p)"
| quiet_submit: "\<not> jmHas (pendingSubmissions st) (lceClientId e) \<Longrightarrow>
    \<not> list_ex (\<lambda>en. ceClientId en = Some (lceClientId e)) (entries st)
    \<Longrightarrow> quietStep lc st (applyUpdate lc st (noUpdate\<lparr>cuPendingSubmissions :=
          Some (jmSet (lceClientId e) e (pendingSubmissions st))\<rparr>))"
| quiet_reject: "quietStep lc st (applyUpdate lc st (noUpdate\<lparr>cuPendingSubmissions :=
          Some (jmDelete clientId (pendingSubmissions st)), cuErrorMessage := Some msg\<rparr>))"
| quiet_end: "quietStep lc st (applyUpdate lc st (noUpdate\<lparr>cuStreamingAssistants := Some [], cuToolExecutions := Some []\<rparr>))"

definition updatedState ::
  "string comparator \<Rightarrow> conversationState \<Rightarrow> (conversationState \<Rightarrow> conversationUpdate option) \<Rightarrow> conversationState" where
  "updatedState lc st build = (case build st of None \<Rightarrow> st | Some p \<Rightarrow> applyUpdate lc st p)"

lemma updatedState_const: "updatedState lc st (\<lambda>_. Some p) = applyUpdate lc st p"
  by (simp add: updatedState_def)

lemma storeNotify_frame [simp]:
  "cvStates (fst (storeNotify s sid)) = cvStates s"
  "cvListeners (fst (storeNotify s sid)) = cvListeners s"
  "cvEventSeqs (fst (storeNotify s sid)) = cvEventSeqs s"
  "cvViews (fst (storeNotify s sid)) = cvViews s"
  by (simp_all add: storeNotify_def)

lemma notifyNextFrame_frame [simp]:
  "cvStates (fst (notifyNextFrame s sid e)) = cvStates s"
  "cvListeners (fst (notifyNextFrame s sid e)) = cvListeners s"
  "cvEventSeqs (fst (notifyNextFrame s sid e)) = cvEventSeqs s"
  "cvViews (fst (notifyNextFrame s sid e)) = cvViews s"
  by (simp_all add: notifyNextFrame_def Let_def)

lemma frameFires_frame [simp]:
  "cvStates (fst (frameFires s sid)) = cvStates s"
  "cvListeners (fst (frameFires s sid)) = cvListeners s"
  "cvEventSeqs (fst (frameFires s sid)) = cvEventSeqs s"
  "cvViews (fst (frameFires s sid)) = cvViews s"
  by (simp_all add: frameFires_def)

lemma flushAll_frame [simp]:
  "cvStates (fst (flushAll s sids)) = cvStates s"
  "cvListeners (fst (flushAll s sids)) = cvListeners s"
  "cvEventSeqs (fst (flushAll s sids)) = cvEventSeqs s"
  "cvViews (fst (flushAll s sids)) = cvViews s"
  by (induction sids arbitrary: s) (simp_all add: case_prod_beta Let_def)

lemma stateFor_cong [intro]: "cvStates s = cvStates t \<Longrightarrow> stateFor s sid = stateFor t sid"
  by (simp add: stateFor_def)

lemma storeUpdate_frame [simp]:
  "cvListeners (fst (storeUpdate lc s sid build partial)) = cvListeners s"
  "cvEventSeqs (fst (storeUpdate lc s sid build partial)) = cvEventSeqs s"
  "cvViews (fst (storeUpdate lc s sid build partial)) = cvViews s"
  by (simp_all add: storeUpdate_def Let_def split: option.split)

lemma stateFor_storeUpdate [simp]:
  "stateFor (fst (storeUpdate lc s sid build partial)) k =
     (if k = sid then updatedState lc (stateFor s sid) build else stateFor s k)"
proof (cases "build (stateFor s sid)")
  case None
  then show ?thesis by (simp add: storeUpdate_def updatedState_def)
next
  case (Some p)
  then show ?thesis
    by (cases partial) (simp_all add: storeUpdate_def updatedState_def Let_def stateFor_def)
qed

lemma pruneSession_state:
  "stateFor (fst (pruneSessionIfInactive cache s sid)) k = stateFor s k
     \<and> jmGet (cvEventSeqs (fst (pruneSessionIfInactive cache s sid))) k = jmGet (cvEventSeqs s) k
   \<or> stateFor (fst (pruneSessionIfInactive cache s sid)) k = blankConversationState
     \<and> jmGet (cvEventSeqs (fst (pruneSessionIfInactive cache s sid))) k = None"
  by (auto simp: pruneSessionIfInactive_def stateFor_def storeNotify_def)

lemma pruneAll_state:
  "stateFor (fst (pruneAll cache s sids)) k = stateFor s k
     \<and> jmGet (cvEventSeqs (fst (pruneAll cache s sids))) k = jmGet (cvEventSeqs s) k
   \<or> stateFor (fst (pruneAll cache s sids)) k = blankConversationState
     \<and> jmGet (cvEventSeqs (fst (pruneAll cache s sids))) k = None"
proof (induction sids arbitrary: s)
  case (Cons sid sids)
  let ?r = "pruneSessionIfInactive cache s sid"
  have ih: "stateFor (fst (pruneAll cache (fst ?r) sids)) k = stateFor (fst ?r) k
     \<and> jmGet (cvEventSeqs (fst (pruneAll cache (fst ?r) sids))) k = jmGet (cvEventSeqs (fst ?r)) k
   \<or> stateFor (fst (pruneAll cache (fst ?r) sids)) k = blankConversationState
     \<and> jmGet (cvEventSeqs (fst (pruneAll cache (fst ?r) sids))) k = None"
    by (rule Cons.IH)
  have step: "fst (pruneAll cache s (sid # sids)) = fst (pruneAll cache (fst ?r) sids)"
    by (simp add: case_prod_beta Let_def)
  show ?case unfolding step using ih pruneSession_state [of cache s sid k] by metis
qed simp

fun eventOf :: "storeOp \<Rightarrow> string option" where
  "eventOf (OpEvent sid e seq) = Some sid"
| "eventOf _ = None"

lemma updatedState_quiet:
  assumes "\<And>p. build st = Some p \<Longrightarrow> cuPendingSubmissions p = None \<and> cuStreamingAssistants p = None \<and> cuToolExecutions p = None"
  shows "updatedState lc st build = st \<or> quietStep lc st (updatedState lc st build)"
  using assms by (auto simp: updatedState_def intro: quiet_entries split: option.split)

lemma mergeMessages_state:
  "stateFor (fst (mergeMessages lc s sid page earlier restore)) k = stateFor s k
   \<or> quietStep lc (stateFor s k) (stateFor (fst (mergeMessages lc s sid page earlier restore)) k)"
  using updatedState_quiet [of "\<lambda>st. Some (pageUpdate page earlier restore st)" "stateFor s k" lc]
  by (auto simp: mergeMessages_def pageUpdate_def noUpdate_def)

lemma mergeMessages_seqs [simp]:
  "cvEventSeqs (fst (mergeMessages lc s sid page earlier restore)) = cvEventSeqs s"
  "cvListeners (fst (mergeMessages lc s sid page earlier restore)) = cvListeners s"
  "cvViews (fst (mergeMessages lc s sid page earlier restore)) = cvViews s"
  by (simp_all add: mergeMessages_def)

lemma storeUnsubscribe_state:
  "stateFor (fst (storeUnsubscribe cache s sid l)) k = stateFor s k
     \<and> jmGet (cvEventSeqs (fst (storeUnsubscribe cache s sid l))) k = jmGet (cvEventSeqs s) k
   \<or> stateFor (fst (storeUnsubscribe cache s sid l)) k = blankConversationState
     \<and> jmGet (cvEventSeqs (fst (storeUnsubscribe cache s sid l))) k = None"
proof (cases "jmGet (cvListeners s) sid")
  case (Some current)
  have "stateFor (s\<lparr>cvListeners := x\<rparr>) k = stateFor s k" for x by (simp add: stateFor_def)
  with pruneSession_state [of cache "s\<lparr>cvListeners := jmDelete sid (cvListeners s)\<rparr>" sid k] Some
  show ?thesis by (auto simp: storeUnsubscribe_def Let_def)
qed (simp add: storeUnsubscribe_def)

lemma syncPage_state:
  "cvEventSeqs (fst (fst (syncPage lc s sid sy answer))) = cvEventSeqs s"
  "stateFor (fst (fst (syncPage lc s sid sy answer))) k = stateFor s k
   \<or> quietStep lc (stateFor s k) (stateFor (fst (fst (syncPage lc s sid sy answer))) k)"
proof -
  have st: "stateFor (t\<lparr>cvSyncs := x\<rparr>) k = stateFor t k" for t :: conversationsStore and x
    by (simp add: stateFor_def)
  show "cvEventSeqs (fst (fst (syncPage lc s sid sy answer))) = cvEventSeqs s"
    by (simp add: syncPage_def Let_def case_prod_beta split: option.split)
  show "stateFor (fst (fst (syncPage lc s sid sy answer))) k = stateFor s k
   \<or> quietStep lc (stateFor s k) (stateFor (fst (fst (syncPage lc s sid sy answer))) k)"
    using mergeMessages_state [of lc s sid _ False _ k]
    by (auto simp: syncPage_def Let_def case_prod_beta st split: option.split)
qed

lemma loadEarlier_state:
  "cvEventSeqs (fst (fst (loadEarlierAnswer lc s sid answer))) = cvEventSeqs s"
  "stateFor (fst (fst (loadEarlierAnswer lc s sid answer))) k = stateFor s k
   \<or> quietStep lc (stateFor s k) (stateFor (fst (fst (loadEarlierAnswer lc s sid answer))) k)"
  using mergeMessages_state [of lc s sid _ True True k]
  by (auto simp: loadEarlierAnswer_def split: option.split)

lemma submit_state:
  "cvEventSeqs (fst (fst (addPendingSubmission lc s sid content clientId timestamp metadata))) = cvEventSeqs s"
  "stateFor (fst (fst (addPendingSubmission lc s sid content clientId timestamp metadata))) k = stateFor s k
   \<or> quietStep lc (stateFor s k)
       (stateFor (fst (fst (addPendingSubmission lc s sid content clientId timestamp metadata))) k)"
  using quiet_submit [of "stateFor s sid" "\<lparr>lceClientId = clientId, lceLocalId = ''submission-'' @ clientId,
                     lceMessage = UserMsg \<lparr>umContent = UserBlocks content, umMetadata = metadata,
                                          umTimestamp = timestamp\<rparr>\<rparr>" lc]
  by (simp_all add: addPendingSubmission_def Let_def updatedState_def)

lemma setError_state:
  "cvEventSeqs (fst (setError lc s sid msg)) = cvEventSeqs s"
  "stateFor (fst (setError lc s sid msg)) k = stateFor s k
   \<or> quietStep lc (stateFor s k) (stateFor (fst (setError lc s sid msg)) k)"
  using quiet_entries [of "noUpdate\<lparr>cuErrorMessage := Some msg\<rparr>" lc "stateFor s sid"]
  by (simp_all add: setError_def updatedState_def noUpdate_def)

lemma reject_state:
  "cvEventSeqs (fst (rejectSubmission lc s sid clientId msg)) = cvEventSeqs s"
  "stateFor (fst (rejectSubmission lc s sid clientId msg)) k = stateFor s k
   \<or> quietStep lc (stateFor s k) (stateFor (fst (rejectSubmission lc s sid clientId msg)) k)"
  using setError_state [of lc s sid msg] quiet_reject [where lc = lc and st = "stateFor s sid" and clientId = clientId and msg = msg]
  by (simp_all add: rejectSubmission_def updatedState_def)

lemma endRun_state:
  "cvEventSeqs (fst (endRun lc s sid)) = cvEventSeqs s"
  "stateFor (fst (endRun lc s sid)) k = stateFor s k
   \<or> quietStep lc (stateFor s k) (stateFor (fst (endRun lc s sid)) k)"
  using quiet_end [of lc "stateFor s sid"]
  by (simp_all add: endRun_def updatedState_def)

lemma clearCompacting_state:
  "cvEventSeqs (fst (clearCompactingState lc s sid)) = cvEventSeqs s"
  "stateFor (fst (clearCompactingState lc s sid)) k = stateFor s k
   \<or> quietStep lc (stateFor s k) (stateFor (fst (clearCompactingState lc s sid)) k)"
  using quiet_entries [of "noUpdate\<lparr>cuIsCompacting := Some False\<rparr>" lc "stateFor s sid"]
  by (simp_all add: clearCompactingState_def updatedState_def noUpdate_def)

definition eventState ::
  "string comparator \<Rightarrow> conversationState \<Rightarrow> bool \<Rightarrow> chatEvent \<Rightarrow> conversationState" where
  "eventState lc st jumped event =
     (let st1 = (if jumped then updatedState lc st stalePatch else st)
      in (case event of EntryAdded e \<Rightarrow> applyUpdate lc st1 (noUpdate\<lparr>cuEntries := Some [e]\<rparr>)
          | _ \<Rightarrow> updatedState lc st1 (chatPatch event)))"

lemma applyEvent_state:
  assumes "sid \<noteq> []"
  shows "cvEventSeqs (fst (applyEvent lc s sid event seq)) = cvEventSeqs (noteEvent s sid seq)"
    and "stateFor (fst (applyEvent lc s sid event seq)) k =
           (if k = sid then eventState lc (stateFor s sid) (seqJumped s sid seq) event else stateFor s k)"
proof -
  have st: "stateFor (noteEvent s sid seq) k = stateFor s k" for k by (simp add: noteEvent_def stateFor_def)
  show "cvEventSeqs (fst (applyEvent lc s sid event seq)) = cvEventSeqs (noteEvent s sid seq)"
    using assms by (simp add: applyEvent_def Let_def case_prod_beta split: chatEvent.split)
  show "stateFor (fst (applyEvent lc s sid event seq)) k =
           (if k = sid then eventState lc (stateFor s sid) (seqJumped s sid seq) event else stateFor s k)"
    using assms by (cases event)
      (simp_all add: applyEvent_def Let_def case_prod_beta eventState_def updatedState_const st)
qed

lemma applyEvent_empty: "applyEvent lc s [] event seq = (s, [])"
  by (simp add: applyEvent_def)

text \<open>Everything but an event of the session leaves its state, takes a quiet step, or forgets the
  session with its sequence number.\<close>

lemma storeStep_quiet:
  assumes "eventOf op \<noteq> Some sid"
  shows "(stateFor (fst (storeStep lc cache s op)) sid = stateFor s sid
            \<or> quietStep lc (stateFor s sid) (stateFor (fst (storeStep lc cache s op)) sid))
         \<and> jmGet (cvEventSeqs (fst (storeStep lc cache s op))) sid = jmGet (cvEventSeqs s) sid
       \<or> stateFor (fst (storeStep lc cache s op)) sid = blankConversationState
         \<and> jmGet (cvEventSeqs (fst (storeStep lc cache s op))) sid = None"
proof (cases op)
  case (OpEvent k e seq)
  with assms have "k \<noteq> sid" by simp
  then show ?thesis
    by (cases "k = []") (simp_all add: OpEvent applyEvent_empty applyEvent_state noteEvent_def split: option.split)
next
  case (OpUnsubscribe k l)
  then show ?thesis using storeUnsubscribe_state [of cache s k l sid] by auto
next
  case (OpSessionChanged k)
  then show ?thesis using pruneSession_state [of cache s k sid] by auto
next
  case OpPruneInactive
  then show ?thesis using pruneAll_state [of cache s "map fst (cvStates s)" sid] by (auto simp: pruneInactive_def)
qed (auto simp: storeSubscribe_def stateFor_def storeGet_def Let_def syncMessages_def flushNotifications_def
    disposeStore_def emptyStore_def clearError_def addOptimisticUserMessage_def
    syncPage_state [unfolded stateFor_def] loadEarlier_state [unfolded stateFor_def]
    mergeMessages_state [unfolded stateFor_def] submit_state [unfolded stateFor_def]
    reject_state [unfolded stateFor_def] endRun_state [unfolded stateFor_def]
    clearCompacting_state [unfolded stateFor_def] setError_state [unfolded stateFor_def])

subsection \<open>The invariant of a session's state\<close>

definition convWf :: "string comparator \<Rightarrow> conversationState \<Rightarrow> bool" where
  "convWf lc st =
     (Sorting_Algorithms.sorted (entryComparator lc) (entries st) \<and> distinct (map ceId (entries st))
      \<and> jmWf (pendingSubmissions st) \<and> jmAll (\<lambda>k e. lceClientId e = k) (pendingSubmissions st)
      \<and> list_all (\<lambda>e. \<not> (truthyStr (ceClientId e) \<and> jmHas (pendingSubmissions st) (the (ceClientId e)))) (entries st)
      \<and> list_all (\<lambda>sa. \<not> (truthyStr (saDurableId sa) \<and> the (saDurableId sa) \<in> set (map ceId (entries st))))
          (streamingAssistants st)
      \<and> chatWf (chatState.truncate st))"

lemma upsertEntries_wf:
  "Sorting_Algorithms.sorted (entryComparator lc) (upsertEntries lc es fs)"
  "distinct (map ceId (upsertEntries lc es fs))"
proof -
  have k: "keyedById (entryMap (entryMap [] es) fs)" by (intro keyedById_entryMap keyedById_Nil)
  show "Sorting_Algorithms.sorted (entryComparator lc) (upsertEntries lc es fs)"
    by (simp add: upsertEntries_alt)
  have "mset (map ceId (upsertEntries lc es fs)) = mset (map ceId (map snd (entryMap (entryMap [] es) fs)))"
    by (simp only: upsertEntries_alt mset_map mset_sort)
  with keyed_values(1) [OF k] show "distinct (map ceId (upsertEntries lc es fs))"
    by (metis mset_eq_imp_distinct_iff)
qed

lemma upsertEntries_get:
  "e \<in> set (upsertEntries lc es fs) \<longleftrightarrow> (case lastById fs (ceId e) of None \<Rightarrow> lastById es (ceId e) | Some x \<Rightarrow> Some x) = Some e"
proof -
  have k: "keyedById (entryMap (entryMap [] es) fs)" by (intro keyedById_entryMap keyedById_Nil)
  have "set (upsertEntries lc es fs) = set (map snd (entryMap (entryMap [] es) fs))"
    by (simp only: upsertEntries_alt set_sort)
  then show ?thesis
    using keyed_values(2) [OF k, of e] by (simp add: jmGet_entryMap split: option.split)
qed

lemma upsertEntries_member: "e \<in> set (upsertEntries lc es fs) \<Longrightarrow> e \<in> set es \<or> e \<in> set fs"
  by (auto simp: upsertEntries_get split: option.splits dest: lastById_SomeD)

lemma fold_delete:
  "jmGet (fold jmDelete ks m) k = (if k \<in> set ks then None else jmGet m k)"
  by (induction ks arbitrary: m) auto

lemma jmHas_fold_delete [simp]: "jmHas (fold jmDelete ks m) k \<longleftrightarrow> k \<notin> set ks \<and> jmHas m k"
  by (simp add: jmHas_def fold_delete)

lemma fold_delete_wf: "jmWf m \<Longrightarrow> jmWf (fold jmDelete ks m)"
  by (induction ks arbitrary: m) auto

lemma fold_delete_all: "jmAll P m \<Longrightarrow> jmAll P (fold jmDelete ks m)"
  by (induction ks arbitrary: m) auto

lemma reconciled_iff:
  "k \<in> set (reconciledClientIds pending es) \<longleftrightarrow>
     (\<exists>xs e. es = Some xs \<and> e \<in> set xs \<and> ceClientId e = Some k \<and> k \<noteq> [] \<and> jmHas pending k)"
  by (cases es) (auto simp: reconciledClientIds_def map_filter_def truthyStr_iff image_iff)

definition unreconciled :: "(string, liveConversationEntry) jsmap \<Rightarrow> conversationEntry \<Rightarrow> bool" where
  "unreconciled m e = (truthyStr (ceClientId e) \<and> jmHas m (the (ceClientId e)))"

definition pendingWf :: "(string, liveConversationEntry) jsmap \<Rightarrow> conversationEntry list \<Rightarrow> bool" where
  "pendingWf m es = (jmWf m \<and> jmAll (\<lambda>k e. lceClientId e = k) m \<and> list_all (\<lambda>e. \<not> unreconciled m e) es)"

definition savedOverlay :: "conversationEntry list \<Rightarrow> streamingAssistant \<Rightarrow> bool" where
  "savedOverlay es sa = (truthyStr (saDurableId sa) \<and> the (saDurableId sa) \<in> set (map ceId es))"

lemma convWf_alt:
  "convWf lc st \<longleftrightarrow>
     Sorting_Algorithms.sorted (entryComparator lc) (entries st) \<and> distinct (map ceId (entries st))
     \<and> pendingWf (pendingSubmissions st) (entries st)
     \<and> list_all (\<lambda>sa. \<not> savedOverlay (entries st) sa) (streamingAssistants st)
     \<and> distinct (map saStreamId (streamingAssistants st)) \<and> jmWf (toolExecutions st)"
  by (auto simp: convWf_def pendingWf_def unreconciled_def savedOverlay_def chatWf_def chatState.defs)

lemma pendingWf_update:
  assumes "pendingWf m es"
  shows "pendingWf (fold jmDelete (reconciledClientIds m inc) m)
           (case inc of None \<Rightarrow> es | Some xs \<Rightarrow> upsertEntries lc es xs)"
proof -
  have "\<not> unreconciled (fold jmDelete (reconciledClientIds m inc) m) e"
    if "e \<in> set (case inc of None \<Rightarrow> es | Some xs \<Rightarrow> upsertEntries lc es xs)" for e
    using that assms
    by (auto simp: unreconciled_def reconciled_iff truthyStr_iff pendingWf_def list_all_iff
        split: option.splits dest!: upsertEntries_member)
  then show ?thesis
    using assms by (simp add: pendingWf_def fold_delete_wf fold_delete_all list_all_iff)
qed

lemma distinct_removePersisted:
  "distinct (map saStreamId sas) \<Longrightarrow> distinct (map saStreamId (removePersistedStreamingAssistants sas ids))"
  by (simp add: removePersistedStreamingAssistants_def distinct_map_filter)

lemma applyUpdate_wf:
  assumes "convWf lc st"
    and "pendingWf (orElse (cuPendingSubmissions p) (pendingSubmissions st)) (entries st)"
    and "distinct (map saStreamId (orElse (cuStreamingAssistants p) (streamingAssistants st)))"
    and "jmWf (orElse (cuToolExecutions p) (toolExecutions st))"
  shows "convWf lc (applyUpdate lc st p)"
proof -
  let ?sas = "orElse (cuStreamingAssistants p) (streamingAssistants st)"
  let ?es = "case cuEntries p of None \<Rightarrow> entries st | Some xs \<Rightarrow> upsertEntries lc (entries st) xs"
  have es: "Sorting_Algorithms.sorted (entryComparator lc) ?es" "distinct (map ceId ?es)"
    using assms(1) by (simp_all add: convWf_alt upsertEntries_wf split: option.split)
  have "list_all (\<lambda>sa. \<not> savedOverlay ?es sa)
      (if (cuEntries p \<noteq> None \<or> cuStreamingAssistants p \<noteq> None) \<and> list_ex (\<lambda>sa. truthyStr (saDurableId sa)) ?sas
       then removePersistedStreamingAssistants ?sas (map ceId ?es) else ?sas)"
    using assms(1)
    by (auto simp: list_all_iff list_ex_iff savedOverlay_def removePersistedStreamingAssistants_def convWf_alt)
  with es assms(3,4) pendingWf_update [OF assms(2), of "cuEntries p" lc] show ?thesis
    by (simp add: convWf_alt applyUpdate_def Let_def distinct_removePersisted)
qed

lemma convWf_blank: "convWf lc blankConversationState"
  by (simp add: convWf_alt blankConversationState_def chatState.defs initialChatState_def pendingWf_def)

lemma convWf_parts:
  assumes "convWf lc st"
  shows "pendingWf (pendingSubmissions st) (entries st)"
    "distinct (map saStreamId (streamingAssistants st))" "jmWf (toolExecutions st)"
  using assms by (simp_all add: convWf_alt)

lemma noUpdate_sel [simp]:
  "cuEntries noUpdate = None" "cuPendingSubmissions noUpdate = None" "cuStreamingAssistants noUpdate = None"
  "cuToolExecutions noUpdate = None"
  by (simp_all add: noUpdate_def)

lemma pendingWf_submit:
  assumes "pendingWf m es" "\<not> list_ex (\<lambda>en. ceClientId en = Some (lceClientId e)) es"
  shows "pendingWf (jmSet (lceClientId e) e m) es"
proof -
  have "\<not> unreconciled (jmSet (lceClientId e) e m) x" if "x \<in> set es" for x
    using that assms by (cases "ceClientId x") (auto simp: unreconciled_def pendingWf_def list_ex_iff list_all_iff)
  with assms show ?thesis by (simp add: pendingWf_def list_all_iff)
qed

lemma pendingWf_delete: "pendingWf m es \<Longrightarrow> pendingWf (jmDelete k m) es"
  by (simp add: pendingWf_def list_all_iff unreconciled_def)

lemma quietStep_wf:
  assumes "quietStep lc st st'" "convWf lc st"
  shows "convWf lc st'"
  using assms(1)
proof cases
  case (quiet_entries p)
  with assms(2) convWf_parts [OF assms(2)] show ?thesis by (auto intro!: applyUpdate_wf)
next
  case (quiet_submit e)
  with assms(2) convWf_parts [OF assms(2)] show ?thesis
    by (auto intro!: applyUpdate_wf pendingWf_submit)
next
  case (quiet_reject clientId msg)
  with assms(2) convWf_parts [OF assms(2)] show ?thesis
    by (auto intro!: applyUpdate_wf pendingWf_delete)
next
  case quiet_end
  with assms(2) convWf_parts [OF assms(2)] show ?thesis by (auto intro!: applyUpdate_wf)
qed

lemma updatedState_wf:
  assumes "convWf lc st"
    and "\<And>p. build st = Some p \<Longrightarrow> cuPendingSubmissions p = None
      \<and> distinct (map saStreamId (orElse (cuStreamingAssistants p) (streamingAssistants st)))
      \<and> jmWf (orElse (cuToolExecutions p) (toolExecutions st))"
  shows "convWf lc (updatedState lc st build)"
proof (cases "build st")
  case (Some p)
  with assms(2) [OF this] convWf_parts [OF assms(1)] assms(1) show ?thesis
    by (auto simp: updatedState_def intro!: applyUpdate_wf)
qed (simp add: updatedState_def assms(1))

lemma stale_wf: "convWf lc st \<Longrightarrow> convWf lc (updatedState lc st stalePatch)"
  by (rule updatedState_wf) (auto simp: stalePatch_def noUpdate_def dest: convWf_parts split: if_splits)

lemma chatPatch_wf: "convWf lc st \<Longrightarrow> convWf lc (updatedState lc st (chatPatch e))"
proof -
  assume wf: "convWf lc st"
  then have "chatWf (applyChatEvent (chatState.truncate st) e)"
    by (intro chatWf_event) (simp add: convWf_def)
  with wf show ?thesis
    by (intro updatedState_wf)
      (auto simp: chatPatch_def Let_def noUpdate_def chatWf_def simp del: applyChatEvent.simps split: if_splits)
qed

lemma eventState_wf: "convWf lc st \<Longrightarrow> convWf lc (eventState lc st jumped e)"
proof -
  assume wf: "convWf lc st"
  have "convWf lc (applyUpdate lc st1 (noUpdate\<lparr>cuEntries := Some [en]\<rparr>))" if "convWf lc st1" for st1 en
    using that convWf_parts [OF that] by (auto intro!: applyUpdate_wf)
  then show ?thesis
    using wf stale_wf [OF wf]
    by (cases e) (auto simp: eventState_def chatPatch_wf)
qed

lemma storeStep_wf:
  assumes "\<And>sid. convWf lc (stateFor s sid)"
  shows "convWf lc (stateFor (fst (storeStep lc cache s op)) sid)"
proof (cases "eventOf op = Some sid")
  case True
  then obtain e seq where "op = OpEvent sid e seq" by (cases op) auto
  then show ?thesis
    using assms by (cases "sid = []") (auto simp: applyEvent_empty applyEvent_state eventState_wf)
next
  case False
  from storeStep_quiet [OF this, of lc cache s] assms show ?thesis
    by (auto simp: convWf_blank intro: quietStep_wf)
qed

lemma storeRun_invariant:
  assumes "\<And>s cache op. I s \<Longrightarrow> I (fst (storeStep lc cache s op))" "I s"
  shows "I (storeRun lc s ops)"
  using assms(2) unfolding storeRun_def
  by (induction ops arbitrary: s) (auto simp: assms(1))

lemma stateFor_empty [simp]: "stateFor (emptyStore frames) sid = blankConversationState"
  by (simp add: stateFor_def emptyStore_def)

text \<open>C4: Whatever the users, the server and the event stream do, every session's state keeps its
  invariant: the transcript is sorted and has no entry twice, no submission is pending whose entry
  is in the transcript, no overlay shows a message whose entry is, no stream has two overlays.\<close>

theorem store_invariant: "convWf lc (stateFor (storeRun lc (emptyStore frames) ops) sid)"
  using storeRun_invariant [where I = "\<lambda>s. \<forall>sid. convWf lc (stateFor s sid)"] storeStep_wf convWf_blank
  by simp

subsection \<open>Missed events\<close>

text \<open>The server numbers a session's events from 1; the browser receives some of them, in order, while
  its users, the server's answers, frames and other sessions do anything else.\<close>

datatype feedStep = Emitted chatEvent bool | Meanwhile "sessionCache option" storeOp

fun emittedOf :: "feedStep \<Rightarrow> (chatEvent \<times> bool) list" where
  "emittedOf (Emitted e received) = [(e, received)]"
| "emittedOf (Meanwhile cache op) = []"

definition emitted :: "feedStep list \<Rightarrow> (chatEvent \<times> bool) list" where
  "emitted fs = concat (map emittedOf fs)"

text \<open>The events up to the last one received: what a browser that missed nothing has applied by then.\<close>

definition untilReceived :: "feedStep list \<Rightarrow> chatEvent list" where
  "untilReceived fs = map fst (rev (dropWhile (\<lambda>p. \<not> snd p) (rev (emitted fs))))"

fun feedStore :: "string comparator \<Rightarrow> string \<Rightarrow> conversationsStore \<Rightarrow> nat \<Rightarrow> feedStep \<Rightarrow> conversationsStore" where
  "feedStore lc sid s n (Emitted e received) = (if received then fst (applyEvent lc s sid e (Some (int n))) else s)"
| "feedStore lc sid s n (Meanwhile cache op) = fst (storeStep lc cache s op)"

fun feedRun :: "string comparator \<Rightarrow> string \<Rightarrow> conversationsStore \<Rightarrow> nat \<Rightarrow> feedStep list \<Rightarrow> conversationsStore" where
  "feedRun lc sid s n [] = s"
| "feedRun lc sid s n (f # fs) =
     feedRun lc sid (feedStore lc sid s (Suc n) f) (n + length (emittedOf f)) fs"

definition sessionFeed :: "string \<Rightarrow> feedStep \<Rightarrow> bool" where
  "sessionFeed sid f = (case f of Emitted e r \<Rightarrow> True | Meanwhile cache op \<Rightarrow> eventOf op \<noteq> Some sid)"

definition inSync :: "chatState \<Rightarrow> chatState \<Rightarrow> bool" where
  "inSync cs rs = (\<forall>k sa. overlayOf cs k = Some sa \<longrightarrow> \<not> saStale sa \<longrightarrow>
     (\<exists>ra. overlayOf rs k = Some ra \<and> \<not> saStale ra \<and> saMessage ra = saMessage sa))"

lemma feedRun_snoc:
  "feedRun lc sid s n (fs @ [f]) = feedStore lc sid (feedRun lc sid s n fs) (Suc (n + length (emitted fs))) f"
  by (induction fs arbitrary: s n) (simp_all add: emitted_def add.assoc)

lemma emitted_snoc: "emitted (fs @ [f]) = emitted fs @ emittedOf f"
  by (simp add: emitted_def)

lemma untilReceived_snoc:
  "untilReceived (fs @ [f]) =
     (case f of Emitted e True \<Rightarrow> map fst (emitted fs) @ [e] | _ \<Rightarrow> untilReceived fs)"
  by (cases f) (auto simp: untilReceived_def emitted_snoc split: bool.split)

lemma untilReceived_full:
  "length (untilReceived fs) = length (emitted fs) \<Longrightarrow> untilReceived fs = map fst (emitted fs)"
proof -
  assume len: "length (untilReceived fs) = length (emitted fs)"
  have "takeWhile (\<lambda>p. \<not> snd p) (rev (emitted fs)) @ dropWhile (\<lambda>p. \<not> snd p) (rev (emitted fs)) = rev (emitted fs)"
    by (rule takeWhile_dropWhile_id)
  moreover from this len have "takeWhile (\<lambda>p. \<not> snd p) (rev (emitted fs)) = []"
    by (metis (no_types, lifting) append_eq_append_conv length_append length_map length_rev self_append_conv2 untilReceived_def)
  ultimately show ?thesis by (simp add: untilReceived_def)
qed

lemma overlayOf_distinct:
  assumes "distinct (map saStreamId (streamingAssistants st))"
  shows "overlayOf st k = Some sa \<longleftrightarrow> sa \<in> set (streamingAssistants st) \<and> saStreamId sa = k"
proof
  assume "overlayOf st k = Some sa"
  then show "sa \<in> set (streamingAssistants st) \<and> saStreamId sa = k"
    by (elim overlayOf_SomeE) simp
next
  assume sa: "sa \<in> set (streamingAssistants st) \<and> saStreamId sa = k"
  then have "streamIndex (streamingAssistants st) k \<noteq> None" by (auto simp: streamIndex_None_iff)
  then obtain i where i: "streamIndex (streamingAssistants st) k = Some i" by blast
  from streamIndex_SomeD [OF i] sa assms have "streamingAssistants st ! i = sa"
    by (auto simp: distinct_map inj_on_def)
  with i show "overlayOf st k = Some sa" by (simp add: overlayOf_def)
qed

lemma overlayOf_mem: "overlayOf st k = Some sa \<Longrightarrow> sa \<in> set (streamingAssistants st)"
  by (elim overlayOf_SomeE) simp

lemma inSync_subset:
  assumes "inSync cs rs" "distinct (map saStreamId (streamingAssistants cs))"
    "set (streamingAssistants cs') \<subseteq> set (streamingAssistants cs)"
  shows "inSync cs' rs"
  unfolding inSync_def
proof (intro allI impI)
  fix k sa
  assume sa: "overlayOf cs' k = Some sa" "\<not> saStale sa"
  then have "sa \<in> set (streamingAssistants cs)" "saStreamId sa = k"
    using assms(3) by (auto elim: overlayOf_SomeE dest: overlayOf_mem)
  with assms(1,2) sa(2) show "\<exists>ra. overlayOf rs k = Some ra \<and> \<not> saStale ra \<and> saMessage ra = saMessage sa"
    by (auto simp: inSync_def overlayOf_distinct)
qed

lemma inSync_stale: "list_all saStale (streamingAssistants cs) \<Longrightarrow> inSync cs rs"
  by (auto simp: inSync_def list_all_iff dest: overlayOf_mem)

lemma inSync_snapshot:
  "inSync cs rs \<Longrightarrow> inSync (upsertAssistantSnapshot cs k m e) (upsertAssistantSnapshot rs k m e)"
proof (cases m)
  case (AssistantMsg a)
  then show "inSync cs rs \<Longrightarrow> ?thesis" by (simp add: inSync_def overlayOf_snapshot)
qed (simp_all add: upsertAssistantSnapshot_def)

lemma inSync_delta: "inSync cs rs \<Longrightarrow> inSync (applyAssistantDelta cs k step) (applyAssistantDelta rs k step)"
  unfolding inSync_def
proof (intro allI impI)
  fix j sa
  assume sync: "\<forall>k sa. overlayOf cs k = Some sa \<longrightarrow> \<not> saStale sa \<longrightarrow>
       (\<exists>ra. overlayOf rs k = Some ra \<and> \<not> saStale ra \<and> saMessage ra = saMessage sa)"
    and sa: "overlayOf (applyAssistantDelta cs k step) j = Some sa" "\<not> saStale sa"
  show "\<exists>ra. overlayOf (applyAssistantDelta rs k step) j = Some ra \<and> \<not> saStale ra \<and> saMessage ra = saMessage sa"
  proof (cases "j = k")
    case False
    with sync sa show ?thesis by (simp add: applyAssistantDelta_overlay)
  next
    case True
    with sa obtain sa0 where sa0: "overlayOf cs k = Some sa0" "\<not> saStale sa0"
      by (cases "overlayOf cs k") (auto simp: applyAssistantDelta_overlay split: if_splits)
    with sync obtain ra where "overlayOf rs k = Some ra" "\<not> saStale ra" "saMessage ra = saMessage sa0" by blast
    with sa sa0 True show ?thesis
      by (cases "stepContent (amContent (saMessage sa0)) step") (auto simp: applyAssistantDelta_overlay)
  qed
qed

lemma inSync_event: "inSync cs rs \<Longrightarrow> inSync (applyChatEvent cs e) (applyChatEvent rs e)"
proof (cases e)
  case (MessageUpdate m k step)
  then show "inSync cs rs \<Longrightarrow> ?thesis" by (cases m) (simp_all add: inSync_snapshot inSync_delta)
next
  case (AgentEnd msgs err)
  then show "inSync cs rs \<Longrightarrow> ?thesis" by (simp add: inSync_stale)
qed (simp_all add: inSync_snapshot, simp_all add: inSync_def)

lemma truncate_streams [simp]: "streamingAssistants (chatState.truncate st) = streamingAssistants st"
  by (simp add: chatState.defs)

lemma applyUpdate_streams:
  "set (streamingAssistants (applyUpdate lc st p)) \<subseteq> set (orElse (cuStreamingAssistants p) (streamingAssistants st))"
  by (auto simp: applyUpdate_def Let_def removePersistedStreamingAssistants_def)

lemma quietStep_streams: "quietStep lc st st' \<Longrightarrow> set (streamingAssistants st') \<subseteq> set (streamingAssistants st)"
proof (induction rule: quietStep.induct)
  case (quiet_end st)
  show ?case
    using applyUpdate_streams [of lc st "noUpdate\<lparr>cuStreamingAssistants := Some [], cuToolExecutions := Some []\<rparr>"]
    by simp
qed (rule order_trans [OF applyUpdate_streams], simp)+

lemma stale_streams: "list_all saStale (streamingAssistants (updatedState lc st stalePatch))"
proof (cases "list_all saStale (streamingAssistants st)")
  case True
  then show ?thesis by (simp add: updatedState_def stalePatch_def)
next
  case False
  show ?thesis
    using applyUpdate_streams [of lc st "noUpdate\<lparr>cuStreamingAssistants := Some (markStreamsStale (streamingAssistants st))\<rparr>"] False
    by (auto simp: updatedState_def stalePatch_def list_all_iff markStreamsStale_alt)
qed

lemma chatPatch_streams:
  "set (streamingAssistants (updatedState lc st (chatPatch e)))
     \<subseteq> set (streamingAssistants (applyChatEvent (chatState.truncate st) e))"
proof (cases "chatPatch e st")
  case None
  then show ?thesis
    using streams_kept [of "chatState.truncate st" e]
    by (simp add: updatedState_def chatPatch_def Let_def del: applyChatEvent.simps split: if_splits)
next
  case (Some p)
  then have "cuStreamingAssistants p = Some (streamingAssistants (applyChatEvent (chatState.truncate st) e))"
    by (auto simp: chatPatch_def Let_def simp del: applyChatEvent.simps split: if_splits)
  with Some applyUpdate_streams [of lc st p] show ?thesis by (simp add: updatedState_def)
qed

lemma eventState_inSync:
  assumes "convWf lc st" "jumped \<or> inSync (chatState.truncate st) rs"
  shows "inSync (chatState.truncate (eventState lc st jumped e)) (applyChatEvent rs e)"
proof -
  define st1 where "st1 = (if jumped then updatedState lc st stalePatch else st)"
  have sync: "inSync (chatState.truncate st1) rs"
    using assms(2) by (cases jumped) (simp_all add: st1_def inSync_stale stale_streams)
  have wf: "convWf lc st1" using assms(1) by (simp add: st1_def stale_wf)
  show ?thesis
  proof (cases "\<exists>en. e = EntryAdded en")
    case True
    then obtain en where e: "e = EntryAdded en" ..
    have "set (streamingAssistants (applyUpdate lc st1 (noUpdate\<lparr>cuEntries := Some [en]\<rparr>))) \<subseteq> set (streamingAssistants st1)"
      using applyUpdate_streams [of lc st1 "noUpdate\<lparr>cuEntries := Some [en]\<rparr>"] by simp
    with inSync_subset [OF sync] convWf_parts(2) [OF wf] show ?thesis
      by (simp add: e eventState_def st1_def [symmetric])
  next
    case False
    then have e: "eventState lc st jumped e = updatedState lc st1 (chatPatch e)"
      by (cases e) (simp_all add: eventState_def st1_def Let_def)
    have "chatWf (applyChatEvent (chatState.truncate st1) e)"
      using wf by (intro chatWf_event) (simp add: convWf_def)
    with inSync_subset [OF inSync_event [OF sync]] chatPatch_streams [of lc st1 e] show ?thesis
      by (simp add: e chatWf_def del: applyChatEvent.simps)
  qed
qed

definition feedOk :: "string comparator \<Rightarrow> string \<Rightarrow> feedStep list \<Rightarrow> conversationsStore \<Rightarrow> bool" where
  "feedOk lc sid fs s =
     ((\<forall>k. convWf lc (stateFor s k))
      \<and> inSync (chatState.truncate (stateFor s sid)) (runChat initialChatState (untilReceived fs))
      \<and> (case jmGet (cvEventSeqs s) sid of None \<Rightarrow> streamingAssistants (stateFor s sid) = []
          | Some q \<Rightarrow> q = int (length (untilReceived fs))))"

lemma blank_streams [simp]: "streamingAssistants blankConversationState = []"
  by (simp add: blankConversationState_def chatState.defs initialChatState_def)

lemma feedOk_event:
  assumes "feedOk lc sid fs s" "sid \<noteq> []"
  shows "feedOk lc sid (fs @ [Emitted e True])
           (fst (applyEvent lc s sid e (Some (int (Suc (length (emitted fs)))))))"
proof -
  let ?n = "int (Suc (length (emitted fs)))"
  let ?rs = "runChat initialChatState (map fst (emitted fs))"
  have "seqJumped s sid (Some ?n) \<or> inSync (chatState.truncate (stateFor s sid)) ?rs"
  proof (cases "jmGet (cvEventSeqs s) sid")
    case None
    with assms(1) have "streamingAssistants (stateFor s sid) = []" by (simp add: feedOk_def)
    then show ?thesis by (simp add: inSync_stale)
  next
    case (Some q)
    with assms(1) have q: "q = int (length (untilReceived fs))" by (simp add: feedOk_def)
    show ?thesis
    proof (cases "?n = q + 1")
      case True
      with q have "untilReceived fs = map fst (emitted fs)" by (intro untilReceived_full) simp
      with assms(1) show ?thesis by (simp add: feedOk_def)
    next
      case False
      with Some show ?thesis by (simp add: seqJumped_def)
    qed
  qed
  with assms(1) have "inSync (chatState.truncate (eventState lc (stateFor s sid) (seqJumped s sid (Some ?n)) e)) (applyChatEvent ?rs e)"
    by (intro eventState_inSync) (auto simp: feedOk_def)
  moreover have "convWf lc (stateFor (fst (applyEvent lc s sid e (Some ?n))) k)" for k
    using storeStep_wf [of lc s "None" "OpEvent sid e (Some ?n)" k] assms(1) by (simp add: feedOk_def)
  ultimately show ?thesis
    using assms(2)
    by (simp add: feedOk_def applyEvent_state untilReceived_snoc runChat_append noteEvent_def del: applyChatEvent.simps)
qed

lemma feedOk_quiet:
  assumes "feedOk lc sid fs s" "eventOf op \<noteq> Some sid"
  shows "feedOk lc sid (fs @ [Meanwhile cache op]) (fst (storeStep lc cache s op))"
proof -
  let ?s = "fst (storeStep lc cache s op)"
  have wf: "convWf lc (stateFor ?s k)" for k
    using storeStep_wf [of lc s cache op k] assms(1) by (simp add: feedOk_def)
  from storeStep_quiet [OF assms(2), of lc cache s]
  have "set (streamingAssistants (stateFor ?s sid)) \<subseteq> set (streamingAssistants (stateFor s sid))
        \<and> (jmGet (cvEventSeqs ?s) sid = jmGet (cvEventSeqs s) sid
           \<or> streamingAssistants (stateFor ?s sid) = [] \<and> jmGet (cvEventSeqs ?s) sid = None)"
    by (auto dest: quietStep_streams)
  with assms(1) wf inSync_subset [of "chatState.truncate (stateFor s sid)" "runChat initialChatState (untilReceived fs)"]
    convWf_parts(2) [of lc "stateFor s sid"]
  show ?thesis
    by (auto simp: feedOk_def untilReceived_snoc split: option.splits)
qed

lemma feedRun_ok:
  assumes "sid \<noteq> []" "list_all (sessionFeed sid) fs"
  shows "feedOk lc sid fs (feedRun lc sid (emptyStore frames) 0 fs)"
  using assms(2)
proof (induction fs rule: rev_induct)
  case Nil
  show ?case
    by (simp add: feedOk_def convWf_blank inSync_stale emptyStore_def [of frames] stateFor_def untilReceived_def emitted_def)
next
  case (snoc f fs)
  then have ok: "feedOk lc sid fs (feedRun lc sid (emptyStore frames) 0 fs)" by simp
  show ?case
  proof (cases f)
    case (Emitted e received)
    show ?thesis
    proof (cases received)
      case True
      with feedOk_event [OF ok assms(1), of e] show ?thesis by (simp add: Emitted feedRun_snoc)
    next
      case False
      then have "untilReceived (fs @ [f]) = untilReceived fs" by (simp add: Emitted untilReceived_snoc)
      then have "feedOk lc sid (fs @ [f]) s = feedOk lc sid fs s" for s by (simp only: feedOk_def)
      with ok False show ?thesis by (simp add: Emitted feedRun_snoc)
    qed
  next
    case (Meanwhile cache op)
    with feedOk_quiet [OF ok] snoc.prems show ?thesis by (simp add: feedRun_snoc sessionFeed_def)
  qed
qed


lemma emptyStore_seqs: "cvEventSeqs (emptyStore frames) = []"
  by (simp add: emptyStore_def)

definition sampleKeyframe :: assistantMessage where
  "sampleKeyframe = \<lparr>amContent = [TextContent ''ab''], amTimestamp = 0, amStopReason = None, amErrorMessage = None\<rparr>"


subsection \<open>Notifications\<close>

definition listenersOf :: "conversationsStore \<Rightarrow> string \<Rightarrow> nat list" where
  "listenersOf s sid = orElse (jmGet (cvListeners s) sid) []"

text \<open>A session whose state changed, or whose change was waiting, waits for a frame now or has had all
  its listeners called.\<close>

definition accounted :: "conversationsStore \<Rightarrow> conversationsStore \<times> (string \<times> nat) list \<Rightarrow> string \<Rightarrow> bool" where
  "accounted s r sid =
     (stateFor (fst r) sid = stateFor s sid \<and> \<not> jmHas (cvPendingNotifications s) sid
      \<or> jmHas (cvPendingNotifications (fst r)) sid
      \<or> Pair sid ` set (listenersOf (fst r) sid) \<subseteq> set (snd r))"

definition steady :: "conversationsStore \<Rightarrow> conversationsStore \<times> (string \<times> nat) list \<Rightarrow> bool" where
  "steady s r = (cvListeners (fst r) = cvListeners s \<and> (\<forall>sid. accounted s r sid))"

lemma steady_same: "cvStates t = cvStates s \<Longrightarrow> cvListeners t = cvListeners s
    \<Longrightarrow> cvPendingNotifications t = cvPendingNotifications s \<Longrightarrow> steady s (t, [])"
  by (auto simp: steady_def accounted_def stateFor_def)

lemma steady_trans:
  assumes "steady s (t, c)" "steady t (u, d)"
  shows "steady s (u, c @ d)"
proof -
  have l: "cvListeners t = cvListeners s" "cvListeners u = cvListeners t"
    using assms by (simp_all add: steady_def)
  have "accounted s (u, c @ d) sid" for sid
  proof -
    from assms have "accounted s (t, c) sid" "accounted t (u, d) sid" by (simp_all add: steady_def)
    then show ?thesis by (auto simp: accounted_def listenersOf_def l)
  qed
  with l show ?thesis by (simp add: steady_def)
qed

lemma storeNotify_accounted:
  "accounted s (storeNotify t sid) sid"
  "k \<noteq> sid \<Longrightarrow> jmHas (cvPendingNotifications (fst (storeNotify t sid))) k = jmHas (cvPendingNotifications t) k"
  by (auto simp: accounted_def listenersOf_def storeNotify_def)

lemma notifyNextFrame_accounted:
  "accounted s (notifyNextFrame t sid e) sid"
  "k \<noteq> sid \<Longrightarrow> jmHas (cvPendingNotifications (fst (notifyNextFrame t sid e))) k = jmHas (cvPendingNotifications t) k"
  by (auto simp: accounted_def listenersOf_def storeNotify_def notifyNextFrame_def Let_def jmHas_def)

lemma steady_frame: "steady s (frameFires s sid)"
  by (auto simp: steady_def accounted_def frameFires_def storeNotify_def listenersOf_def stateFor_def)

lemma steady_flush: "steady s (flushAll s sids)"
proof (induction sids arbitrary: s)
  case (Cons sid sids)
  from steady_trans [of s "fst (frameFires s sid)" "snd (frameFires s sid)"] Cons [of "fst (frameFires s sid)"] steady_frame [of s sid]
  show ?case by (simp add: case_prod_beta Let_def)
qed (simp add: steady_same)

lemma steady_update: "steady s (storeUpdate lc s sid build partial)"
proof (cases "build (stateFor s sid)")
  case None
  then show ?thesis by (simp add: storeUpdate_def steady_same)
next
  case (Some p)
  define t where "t = s\<lparr>cvStates := jmSet sid (applyUpdate lc (stateFor s sid) p) (cvStates s)\<rparr>"
  have r: "storeUpdate lc s sid build partial = (case partial of Some e \<Rightarrow> notifyNextFrame t sid e | None \<Rightarrow> storeNotify t sid)"
    by (simp add: storeUpdate_def Some t_def Let_def split: option.split)
  have "accounted s (storeUpdate lc s sid build partial) k" for k
  proof (cases "k = sid")
    case True
    then show ?thesis
      by (simp add: r storeNotify_accounted notifyNextFrame_accounted split: option.split)
  next
    case False
    have "jmHas (cvPendingNotifications (fst (storeUpdate lc s sid build partial))) k = jmHas (cvPendingNotifications s) k"
      using False by (simp add: r storeNotify_accounted notifyNextFrame_accounted split: option.split) (simp add: t_def)
    with False show ?thesis by (simp add: accounted_def)
  qed
  then show ?thesis by (simp add: steady_def)
qed

lemma steady_prune: "steady s (pruneSessionIfInactive cache s sid)"
  by (auto simp: steady_def accounted_def pruneSessionIfInactive_def storeNotify_def listenersOf_def stateFor_def)

lemma steady_pruneAll: "steady s (pruneAll cache s sids)"
proof (induction sids arbitrary: s)
  case (Cons sid sids)
  let ?r = "pruneSessionIfInactive cache s sid"
  from steady_trans [of s "fst ?r" "snd ?r"] Cons [of "fst ?r"] steady_prune [of s cache sid]
  show ?case by (simp add: case_prod_beta Let_def)
qed (simp add: steady_same)

lemma steady_merge: "steady s (mergeMessages lc s sid page earlier restore)"
  by (simp add: mergeMessages_def steady_same steady_update)

lemma steady_setError: "steady s (setError lc s sid msg)"
  by (simp add: setError_def steady_same steady_update)

lemma steady_event: "steady s (applyEvent lc s sid event seq)"
proof (cases "sid = []")
  case False
  let ?n = "noteEvent s sid seq"
  let ?r = "if seqJumped s sid seq then storeUpdate lc ?n sid stalePatch None else (?n, [])"
  have n: "steady s (?n, [])" by (rule steady_same) (simp_all add: noteEvent_def)
  moreover have "steady ?n (fst ?r, snd ?r)" by (simp add: steady_update steady_same)
  ultimately have r: "steady s (fst ?r, snd ?r)" using steady_trans [of s ?n "[]" "fst ?r" "snd ?r"] by simp
  have "steady s (fst (storeUpdate lc (fst ?r) sid b e), snd ?r @ snd (storeUpdate lc (fst ?r) sid b e))" for b e
    by (rule steady_trans [OF r]) (simp add: steady_update)
  with False show ?thesis by (cases event) (simp_all add: applyEvent_def Let_def case_prod_beta)
qed (simp add: applyEvent_empty steady_same)

lemma steady_syncPage: "steady s (fst (syncPage lc s sid sy answer))"
proof (cases answer)
  case None
  then show ?thesis by (simp add: syncPage_def steady_same)
next
  case (Some page)
  have "steady s (t\<lparr>cvSyncs := x\<rparr>, c)" if "steady s (t, c)" for t c x
  proof -
    have "accounted s (t\<lparr>cvSyncs := x\<rparr>, c) k = accounted s (t, c) k" for k
      by (simp add: accounted_def listenersOf_def stateFor_def)
    with that show ?thesis by (simp add: steady_def)
  qed
  moreover have "steady s (fst (mergeMessages lc s sid page False b), snd (mergeMessages lc s sid page False b))" for b
    by (simp add: steady_merge)
  ultimately show ?thesis by (simp add: syncPage_def Some Let_def case_prod_beta steady_merge)
qed

lemma storeStep_accounted: "accounted s (storeStep lc cache s op) sid"
proof (cases op)
  case (OpUnsubscribe k l)
  show ?thesis
  proof (cases "jmGet (cvListeners s) k")
    case None
    then show ?thesis by (simp add: OpUnsubscribe storeUnsubscribe_def accounted_def)
  next
    case (Some current)
    let ?t = "s\<lparr>cvListeners := jmDelete k (cvListeners s)\<rparr>"
    have "accounted s (pruneSessionIfInactive cache ?t k) sid"
      using steady_prune [of ?t cache k] by (simp add: steady_def accounted_def stateFor_def)
    moreover have "accounted s (s\<lparr>cvListeners := x\<rparr>, []) sid" for x
      by (simp add: accounted_def stateFor_def)
    ultimately show ?thesis by (simp add: OpUnsubscribe storeUnsubscribe_def Some Let_def)
  qed
next
  case (OpSubscribe k l)
  then show ?thesis by (simp add: storeSubscribe_def accounted_def stateFor_def)
next
  case OpDispose
  then show ?thesis by (simp add: disposeStore_def accounted_def listenersOf_def emptyStore_def)
next
  case (OpGet k)
  then show ?thesis by (simp add: storeGet_def Let_def accounted_def stateFor_def)
next
  case (OpSync k)
  then show ?thesis by (simp add: syncMessages_def accounted_def stateFor_def)
next
  case (OpSubmit k content clientId timestamp)
  have "steady s (fst (addOptimisticUserMessage lc s k content clientId timestamp))"
    by (simp add: addOptimisticUserMessage_def addPendingSubmission_def Let_def steady_update steady_same)
  then show ?thesis by (simp add: OpSubmit steady_def)
next
  case (OpReject k clientId msg)
  have "steady s (rejectSubmission lc s k clientId msg)"
    by (simp add: rejectSubmission_def steady_update steady_same steady_setError)
  then show ?thesis by (simp add: OpReject steady_def)
next
  case (OpEndRun k)
  have "steady s (endRun lc s k)" by (simp add: endRun_def steady_update steady_same)
  then show ?thesis by (simp add: OpEndRun steady_def)
next
  case (OpClearCompacting k)
  have "steady s (clearCompactingState lc s k)" by (simp add: clearCompactingState_def steady_update steady_same)
  then show ?thesis by (simp add: OpClearCompacting steady_def)
next
  case (OpEarlier k answer)
  have "steady s (fst (loadEarlierAnswer lc s k answer))"
    by (simp add: loadEarlierAnswer_def steady_merge steady_same split: option.split)
  then show ?thesis by (simp add: OpEarlier steady_def)
next
  case (OpSyncPage k sy answer)
  then show ?thesis using steady_syncPage [of s lc k sy answer] by (simp add: steady_def)
next
  case (OpMerge k page earlier restore)
  then show ?thesis using steady_merge [of s lc k page earlier restore] by (simp add: steady_def)
next
  case (OpEvent k event seq)
  then show ?thesis using steady_event [of s lc k event seq] by (simp add: steady_def)
next
  case (OpSetError k msg)
  then show ?thesis using steady_setError [of s lc k msg] by (simp add: steady_def)
next
  case (OpFrame k)
  then show ?thesis using steady_frame [of s k] by (simp add: steady_def)
next
  case (OpFlush k)
  then show ?thesis using steady_flush [of s] by (simp add: steady_def flushNotifications_def)
next
  case (OpSessionChanged k)
  then show ?thesis using steady_prune [of s cache k] by (simp add: steady_def)
next
  case OpPruneInactive
  then show ?thesis using steady_pruneAll [of s cache] by (simp add: steady_def pruneInactive_def)
qed

text \<open>No change goes unannounced: after any operation, a session whose state it changed, or whose
  earlier change was waiting for a frame, is waiting for a frame or has had every listener called;
  and the frame, when it comes, calls them all.\<close>

theorem no_lost_notification:
  "accounted s (storeStep lc cache s op) sid
   \<and> (if jmHas (cvPendingNotifications s) sid
      then frameFires s sid = (s\<lparr>cvPendingNotifications := jmDelete sid (cvPendingNotifications s)\<rparr>,
                               map (Pair sid) (listenersOf s sid))
      else frameFires s sid = (s, []))"
  by (simp add: storeStep_accounted frameFires_def storeNotify_def listenersOf_def)

subsection \<open>Views\<close>

definition transcriptSources :: "conversationState \<Rightarrow> messageSource list" where
  "transcriptSources st = map entrySource (entries st) @ map (\<lambda>p. submissionSource (snd p)) (pendingSubmissions st)"

abbreviation savedFor :: "conversationState \<Rightarrow> string \<Rightarrow> toolResultMessage option" where
  "savedFor st \<equiv> jmGet (toolResultsOf (transcriptSources st))"

text \<open>Messages that stand for the transcript of a state, whatever live tool state they already show.\<close>

definition standsFor :: "message list \<Rightarrow> conversationState \<Rightarrow> bool" where
  "standsFor ms st = (list_all (builtWith (savedFor st)) ms
     \<and> (\<forall>ex running. rebuildAll (savedFor st) ms ex running = rebuildAll (savedFor st) (buildTranscript st) ex running))"

lemma buildTranscript_alt: "buildTranscript st = buildMessages (transcriptSources st)"
  by (simp add: buildTranscript_def transcriptSources_def)

lemma standsFor_fresh: "standsFor (buildTranscript st) st"
  by (simp add: standsFor_def buildTranscript_alt buildMessages_built)

lemma standsFor_apply: "standsFor ms st \<Longrightarrow> standsFor (applyToolExecutions ms ex running) st"
  by (simp add: standsFor_def applyToolExecutions_shown(2))

lemma standsFor_shown:
  "standsFor ms st \<Longrightarrow> map (shownMessage pj) (applyToolExecutions ms ex running) =
     map (shownMessage pj) (applyToolExecutions (buildTranscript st) ex running)"
proof -
  assume ms: "standsFor ms st"
  have "map (shownMessage pj) (applyToolExecutions ms ex running) =
          map (shownMessage pj) (rebuildAll (savedFor st) ms ex running)"
    using ms by (intro applyToolExecutions_shown(1)) (simp add: standsFor_def)
  also have "rebuildAll (savedFor st) ms ex running = rebuildAll (savedFor st) (buildTranscript st) ex running"
    using ms by (simp add: standsFor_def)
  also have "map (shownMessage pj) \<dots> = map (shownMessage pj) (applyToolExecutions (buildTranscript st) ex running)"
    by (rule applyToolExecutions_shown(1) [symmetric]) (simp add: buildTranscript_alt buildMessages_built)
  finally show ?thesis .
qed

lemma standsFor_cong:
  "entries st = entries st' \<Longrightarrow> pendingSubmissions st = pendingSubmissions st' \<Longrightarrow> standsFor ms st = standsFor ms st'"
  by (simp add: standsFor_def transcriptSources_def buildTranscript_def)

text \<open>Two views that show the same.\<close>

definition sameShown :: "(string \<Rightarrow> json option) \<Rightarrow> conversationView \<Rightarrow> conversationView \<Rightarrow> bool" where
  "sameShown pj v w =
     (map (shownMessage pj) (vwMessages v) = map (shownMessage pj) (vwMessages w)
      \<and> vwStreamingMessages v = vwStreamingMessages w
      \<and> vwHasEarlierMessages v = vwHasEarlierMessages w \<and> vwIsCompacting v = vwIsCompacting w
      \<and> vwErrorMessage v = vwErrorMessage w)"

definition cacheOk :: "viewCache \<Rightarrow> bool" where
  "cacheOk vc = (standsFor (vwMessages (vcView vc)) (vcState vc)
     \<and> (\<forall>pj. sameShown pj (vcView vc) (storeView None (vcState vc) (vcRunning vc))))"

lemma storeView_ok:
  assumes "case cached of None \<Rightarrow> True | Some vc \<Rightarrow> cacheOk vc"
  shows "cacheOk \<lparr>vcState = st, vcRunning = running, vcView = storeView cached st running\<rparr>"
proof (cases cached)
  case None
  then show ?thesis
    by (simp add: cacheOk_def storeView_def viewWith_def sameShown_def standsFor_apply standsFor_fresh)
next
  case (Some vc)
  with assms have ok: "cacheOk vc" by simp
  show ?thesis
  proof (cases "vcState vc = st \<and> vcRunning vc = running")
    case True
    with ok Some show ?thesis by (simp add: cacheOk_def storeView_def [of "Some vc"])
  next
    case False
    let ?ms = "if entries (vcState vc) = entries st \<and> pendingSubmissions (vcState vc) = pendingSubmissions st
               then vwMessages (vcView vc) else buildTranscript st"
    have ms: "standsFor ?ms st"
      using ok standsFor_cong [of "vcState vc" st] by (auto simp: cacheOk_def standsFor_fresh)
    have "vwStreamingMessages (vcView vc) = buildStreamingMessages (streamingAssistants (vcState vc)) (toolExecutions (vcState vc))"
      using ok by (simp add: cacheOk_def sameShown_def storeView_def viewWith_def)
    with False have view: "storeView cached st running =
        viewWith ?ms (buildStreamingMessages (streamingAssistants st) (toolExecutions st)) st running"
      by (subst storeView_def) (auto simp: Some)
    show ?thesis
      unfolding cacheOk_def view using standsFor_apply [OF ms] standsFor_shown [OF ms]
      by (simp add: storeView_def viewWith_def sameShown_def)
  qed
qed

definition viewsOk :: "conversationsStore \<Rightarrow> bool" where
  "viewsOk s = jmAll (\<lambda>k vc. cacheOk vc) (cvViews s)"

lemma pruneSession_views: "viewsOk s \<Longrightarrow> viewsOk (fst (pruneSessionIfInactive cache s sid))"
  by (simp add: viewsOk_def pruneSessionIfInactive_def)

lemma pruneAll_views: "viewsOk s \<Longrightarrow> viewsOk (fst (pruneAll cache s sids))"
  by (induction sids arbitrary: s) (simp_all add: case_prod_beta Let_def pruneSession_views)

lemma storeGet_views: "viewsOk s \<Longrightarrow> viewsOk (fst (storeGet cache s sid))"
proof -
  assume ok: "viewsOk s"
  then have "case jmGet (cvViews s) sid of None \<Rightarrow> True | Some vc \<Rightarrow> cacheOk vc"
    by (auto simp: viewsOk_def dest: jmAll_get split: option.split)
  from storeView_ok [OF this] ok show ?thesis by (simp add: viewsOk_def storeGet_def Let_def)
qed

lemma viewsOk_cong: "cvViews t = cvViews s \<Longrightarrow> viewsOk s \<Longrightarrow> viewsOk t"
  by (simp add: viewsOk_def)

lemma storeStep_views: "viewsOk s \<Longrightarrow> viewsOk (fst (storeStep lc cache s op))"
proof (cases op)
  case (OpGet sid)
  then show "viewsOk s \<Longrightarrow> ?thesis" by (simp add: storeGet_views)
next
  case (OpUnsubscribe sid l)
  have "viewsOk s \<Longrightarrow> viewsOk (s\<lparr>cvListeners := x\<rparr>)" for x by (simp add: viewsOk_def)
  then show "viewsOk s \<Longrightarrow> ?thesis"
    by (simp add: OpUnsubscribe storeUnsubscribe_def Let_def pruneSession_views split: option.split)
next
  case (OpSessionChanged sid)
  then show "viewsOk s \<Longrightarrow> ?thesis" by (simp add: pruneSession_views)
next
  case OpPruneInactive
  then show "viewsOk s \<Longrightarrow> ?thesis" by (simp add: pruneInactive_def pruneAll_views)
next
  case OpDispose
  then show "viewsOk s \<Longrightarrow> ?thesis" by (simp add: viewsOk_def disposeStore_def emptyStore_def)
next
  case (OpEvent sid event seq)
  have "cvViews (fst (applyEvent lc s sid event seq)) = cvViews s"
    by (cases event) (simp_all add: applyEvent_def Let_def case_prod_beta noteEvent_def)
  then show "viewsOk s \<Longrightarrow> ?thesis" by (simp add: OpEvent viewsOk_cong)
qed (auto intro!: viewsOk_cong [of _ s] simp: storeSubscribe_def syncMessages_def syncPage_def Let_def case_prod_beta
    loadEarlierAnswer_def addOptimisticUserMessage_def addPendingSubmission_def rejectSubmission_def setError_def
    clearError_def endRun_def clearCompactingState_def flushNotifications_def split: option.split)

text \<open>The view a session's viewers get, memoized per state and reusing whatever part of the previous
  view its inputs did not change, shows exactly what a view built from scratch shows, after any
  operations.\<close>

theorem cached_view_fresh:
  "sameShown pj (snd (storeGet cache (storeRun lc (emptyStore frames) ops) sid))
     (storeView None (if sid = [] then blankConversationState else stateFor (storeRun lc (emptyStore frames) ops) sid)
        (isRunning cache sid))"
proof -
  let ?s = "storeRun lc (emptyStore frames) ops"
  have "viewsOk (emptyStore frames)" by (simp add: viewsOk_def emptyStore_def)
  from storeRun_invariant [where I = viewsOk, OF storeStep_views this]
  have "case jmGet (cvViews ?s) sid of None \<Rightarrow> True | Some vc \<Rightarrow> cacheOk vc"
    by (auto simp: viewsOk_def dest: jmAll_get split: option.split)
  from storeView_ok [OF this, of "if sid = [] then blankConversationState else stateFor ?s sid" "isRunning cache sid"]
  show ?thesis by (simp add: storeGet_def cacheOk_def Let_def)
qed

subsection \<open>Page loads and errors\<close>

text \<open>A page of the transcript puts the server's error in place of the one shown only when it is the
  last page, no event of the session arrived since the load began and the error did not change;
  in every case the page's entries are merged, and a cursor that does not advance ends the load.\<close>

theorem sync_page_effect:
  assumes "sid \<noteq> []"
  shows "let r = syncPage lc s sid sy (Some page); st' = stateFor (fst (fst r)) sid in
     entries st' = upsertEntries lc (entries (stateFor s sid)) (mpItems page)
     \<and> latestCursor st' = mpEndCursor page
     \<and> errorMessage st' =
         (if mpHasNextPage page \<or> jmGet (cvEventVersions s) sid \<noteq> syEventVersion sy
             \<or> errorMessage (stateFor s sid) \<noteq> syErrorAtStart sy
          then errorMessage (stateFor s sid)
          else (case mpLatestRunError page of None \<Rightarrow> errorMessage (stateFor s sid) | Some err \<Rightarrow> orElse err []))
     \<and> (case snd r of
           SyncDone ok \<Rightarrow> ok = (\<not> mpHasNextPage page)
         | SyncContinues sy' \<Rightarrow> sy' = sy\<lparr>syAfter := mpEndCursor page\<rparr> \<and> mpEndCursor page \<noteq> syAfter sy)"
proof -
  have cut: "stateFor (t\<lparr>cvSyncs := x\<rparr>) k = stateFor t k" for t :: conversationsStore and x k
    by (simp add: stateFor_def)
  let ?restore = "\<not> mpHasNextPage page \<and> jmGet (cvEventVersions s) sid = syEventVersion sy
                  \<and> errorMessage (stateFor s sid) = syErrorAtStart sy"
  let ?p = "pageUpdate page False ?restore (stateFor s sid)"
  have st: "stateFor (fst (fst (syncPage lc s sid sy (Some page)))) sid = applyUpdate lc (stateFor s sid) ?p"
    using assms by (simp add: syncPage_def Let_def case_prod_beta cut mergeMessages_def updatedState_def)
  have "entries (applyUpdate lc (stateFor s sid) ?p) = upsertEntries lc (entries (stateFor s sid)) (mpItems page)"
    "latestCursor (applyUpdate lc (stateFor s sid) ?p) = mpEndCursor page"
    by (simp_all add: applyUpdate_def Let_def pageUpdate_def noUpdate_def)
  moreover have "errorMessage (applyUpdate lc (stateFor s sid) ?p) =
         (if \<not> ?restore then errorMessage (stateFor s sid)
          else (case mpLatestRunError page of None \<Rightarrow> errorMessage (stateFor s sid) | Some err \<Rightarrow> orElse err []))"
    by (simp add: applyUpdate_def Let_def pageUpdate_def noUpdate_def split: option.split)
  moreover have "case snd (syncPage lc s sid sy (Some page)) of SyncDone ok \<Rightarrow> ok = (\<not> mpHasNextPage page)
         | SyncContinues sy' \<Rightarrow> sy' = sy\<lparr>syAfter := mpEndCursor page\<rparr> \<and> mpEndCursor page \<noteq> syAfter sy"
    by (simp add: syncPage_def Let_def case_prod_beta)
  ultimately show ?thesis by (simp add: st Let_def)
qed

definition samplePage :: messagePage where
  "samplePage = \<lparr>mpItems = [], mpPreviousCursor = None, mpHasNextPage = False, mpEndCursor = Some ''c'',
     mpLatestRunError = Some (Some ''failed'')\<rparr>"

lemma sync_page_effect_witness:
  "errorMessage (stateFor (fst (fst (syncPage sampleCollation (emptyStore True) ''s''
      \<lparr>syAfter = None, syEventVersion = None, syErrorAtStart = []\<rparr> (Some samplePage)))) ''s'') = ''failed''"
  using sync_page_effect [of "''s''" sampleCollation "emptyStore True"
      "\<lparr>syAfter = None, syEventVersion = None, syErrorAtStart = []\<rparr>" samplePage]
  by (simp add: samplePage_def emptyStore_def stateFor_def blankConversationState_def chatState.defs
      initialChatState_def Let_def)

end
