(* ===== verification/Diff_Parser.thy ===== *)
theory Diff_Parser
  imports Reins_Prelude
begin

text \<open>
  Git diffs, \<^verbatim>\<open>packages/backend/src/models/diff-parser.ts\<close> and \<^verbatim>\<open>review-diff-anchor.ts\<close>: the unified
  diff parser (\<open>parseUnifiedDiff\<close>, one step per line), the line numbers of \<open>parsePatch\<close>, the
  summaries of \<open>parseNumstat\<close>, and the evidence a review comment is anchored to. A regular
  expression is a function that tries its match at each position from the left. The SHA-256 of a
  patch is a parameter.
\<close>

subsection \<open>Searching in strings\<close>

text \<open>\<open>indexOf\<close>, with \<open>None\<close> for \<open>-1\<close>.\<close>

fun indexOf :: "string \<Rightarrow> string \<Rightarrow> nat option" where
  "indexOf p [] = (if p = [] then Some 0 else None)"
| "indexOf p (c # s) = (if startsWith (c # s) p then Some 0 else map_option Suc (indexOf p s))"

lemma indexOf_Some: "indexOf p s = Some i \<Longrightarrow> i + length p \<le> length s \<and> startsWith (drop i s) p"
proof (induction s arbitrary: i)
  case (Cons c s)
  show ?case
  proof (cases "startsWith (c # s) p")
    case True
    then have "length p \<le> length (c # s)" by (metis startsWith_def length_take min.cobounded1)
    with True Cons.prems show ?thesis by simp
  next
    case False
    with Cons show ?thesis by auto
  qed
qed (simp split: if_splits)

text \<open>\<open>parseInt(value, 10) || 0\<close>: white space, a sign, the digits that follow; 0 where there is none.\<close>

definition parseIntOrZero :: "string \<Rightarrow> int" where
  "parseIntOrZero s =
     (case trimStart s of
        [] \<Rightarrow> 0
      | c # cs \<Rightarrow>
          if c = CHR ''-'' then - int (digitsToNat (takeWhile isDigitC cs))
          else if c = CHR ''+'' then int (digitsToNat (takeWhile isDigitC cs))
          else int (digitsToNat (takeWhile isDigitC (c # cs))))"

subsection \<open>Unified diffs\<close>

datatype linePrefix = Added | Removed | Unchanged

record parsedHunk =
  phHeader :: string
  phOldStart :: nat
  phNewStart :: nat
  phLines :: "(linePrefix \<times> string) list"

record parsedFile =
  pfPath :: string
  pfHunks :: "parsedHunk list"

text \<open>\<open>/diff --git a\/(.*?) b\/(.*)/\<close>: the second group. A dot matches anything but a line end.\<close>

fun gitHeaderPath :: "string \<Rightarrow> string option" where
  "gitHeaderPath [] = None"
| "gitHeaderPath (c # s) =
     (let rest = takeWhile (\<lambda>x. x \<noteq> newlineC \<and> x \<noteq> returnC) (drop (length ''diff --git a/'') (c # s))
      in if startsWith (c # s) ''diff --git a/'' \<and> indexOf '' b/'' rest \<noteq> None
         then Some (drop (the (indexOf '' b/'' rest) + length '' b/'') rest)
         else gitHeaderPath s)"

text \<open>\<open>(\d+)(?:,\d+)?\<close>: the first number and what follows.\<close>

definition rangeStart :: "string \<Rightarrow> (nat \<times> string) option" where
  "rangeStart s =
     (let ds = takeWhile isDigitC s; rest = dropWhile isDigitC s
      in if ds = [] then None
         else case rest of
           [] \<Rightarrow> Some (digitsToNat ds, rest)
         | c # cs \<Rightarrow> if c = CHR '','' \<and> takeWhile isDigitC cs \<noteq> []
                   then Some (digitsToNat ds, dropWhile isDigitC cs) else Some (digitsToNat ds, rest))"

definition hunkStartsAt :: "string \<Rightarrow> (nat \<times> nat) option" where
  "hunkStartsAt s =
     (if \<not> startsWith s ''@@ -'' then None
      else Option.bind (rangeStart (drop 4 s)) (\<lambda>(old, s1).
        if \<not> startsWith s1 '' +'' then None
        else Option.bind (rangeStart (drop 2 s1)) (\<lambda>(new, s2).
          if startsWith s2 '' @@'' then Some (old, new) else None)))"

fun hunkStarts :: "string \<Rightarrow> (nat \<times> nat) option" where
  "hunkStarts [] = None"
| "hunkStarts (c # s) = (case hunkStartsAt (c # s) of None \<Rightarrow> hunkStarts s | Some r \<Rightarrow> Some r)"

definition skippedMarkers :: "string list" where
  "skippedMarkers = [''index '', ''---'', ''+++'', ''new file mode'', ''deleted file mode'', ''old mode'', ''new mode'',
     ''rename from'', ''rename to'', ''similarity index'', ''Binary files'']"

definition skippedLine :: "string \<Rightarrow> bool" where
  "skippedLine line = list_ex (startsWith line) skippedMarkers"

text \<open>The parser's state: the files so far, the last one current, and whether a hunk of it is.\<close>

record parserState =
  psFiles :: "parsedFile list"
  psInHunk :: bool

definition lastFile :: "(parsedFile \<Rightarrow> parsedFile) \<Rightarrow> parsedFile list \<Rightarrow> parsedFile list" where
  "lastFile f fs = (if fs = [] then [] else butlast fs @ [f (List.last fs)])"

definition addHunk :: "parsedHunk \<Rightarrow> parsedFile \<Rightarrow> parsedFile" where
  "addHunk h f = f\<lparr>pfHunks := pfHunks f @ [h]\<rparr>"

definition addLine :: "linePrefix \<Rightarrow> string \<Rightarrow> parsedFile \<Rightarrow> parsedFile" where
  "addLine p t f =
     f\<lparr>pfHunks := butlast (pfHunks f) @
        [(List.last (pfHunks f))\<lparr>phLines := phLines (List.last (pfHunks f)) @ [(p, t)]\<rparr>]\<rparr>"

definition parseLine :: "parserState \<Rightarrow> string \<Rightarrow> parserState" where
  "parseLine st line =
     (if startsWith line ''diff --git''
      then \<lparr>psFiles = psFiles st @ [\<lparr>pfPath = orElse (gitHeaderPath line) line, pfHunks = []\<rparr>], psInHunk = False\<rparr>
      else if skippedLine line then st
      else if startsWith line ''@@''
      then (if psFiles st = [] then st
            else let (old, new) = orElse (hunkStarts line) (0, 0)
                 in \<lparr>psFiles = lastFile (addHunk \<lparr>phHeader = line, phOldStart = old, phNewStart = new, phLines = []\<rparr>)
                               (psFiles st), psInHunk = True\<rparr>)
      else if psInHunk st
      then (case line of
              [] \<Rightarrow> st
            | c # t \<Rightarrow>
                if c = CHR ''+'' then st\<lparr>psFiles := lastFile (addLine Added t) (psFiles st)\<rparr>
                else if c = CHR ''-'' then st\<lparr>psFiles := lastFile (addLine Removed t) (psFiles st)\<rparr>
                else if c = CHR '' '' then st\<lparr>psFiles := lastFile (addLine Unchanged t) (psFiles st)\<rparr>
                else st)
      else st)"

definition parseUnifiedDiff :: "string \<Rightarrow> parsedFile list" where
  "parseUnifiedDiff raw =
     (if trimStr raw = [] then []
      else psFiles (foldl parseLine \<lparr>psFiles = [], psInHunk = False\<rparr> (splitOn newlineC raw)))"

subsection \<open>Numbered lines\<close>

record diffLine =
  dlType :: linePrefix
  dlText :: string
  dlOldLine :: "nat option"
  dlNewLine :: "nat option"

record diffHunk =
  dhHeader :: string
  dhLines :: "diffLine list"

record diffFile =
  dfPath :: string
  dfAdditions :: nat
  dfRemovals :: nat
  dfHunks :: "diffHunk list"

fun numberLines :: "nat \<Rightarrow> nat \<Rightarrow> (linePrefix \<times> string) list \<Rightarrow> diffLine list" where
  "numberLines old new [] = []"
| "numberLines old new ((Added, t) # ls) =
     \<lparr>dlType = Added, dlText = t, dlOldLine = None, dlNewLine = Some new\<rparr> # numberLines old (Suc new) ls"
| "numberLines old new ((Removed, t) # ls) =
     \<lparr>dlType = Removed, dlText = t, dlOldLine = Some old, dlNewLine = None\<rparr> # numberLines (Suc old) new ls"
| "numberLines old new ((Unchanged, t) # ls) =
     \<lparr>dlType = Unchanged, dlText = t, dlOldLine = Some old, dlNewLine = Some new\<rparr> # numberLines (Suc old) (Suc new) ls"

definition countPrefix :: "linePrefix \<Rightarrow> parsedFile \<Rightarrow> nat" where
  "countPrefix p f = sum_list (map (\<lambda>h. length (filter (\<lambda>l. fst l = p) (phLines h))) (pfHunks f))"

definition parsePatch :: "string \<Rightarrow> diffFile list" where
  "parsePatch raw =
     map (\<lambda>f. \<lparr>dfPath = pfPath f, dfAdditions = countPrefix Added f, dfRemovals = countPrefix Removed f,
        dfHunks = map (\<lambda>h. \<lparr>dhHeader = phHeader h,
          dhLines = numberLines (phOldStart h) (phNewStart h) (phLines h)\<rparr>) (pfHunks f)\<rparr>)
       (parseUnifiedDiff raw)"

subsection \<open>Summaries\<close>

record diffFileSummary =
  dsPath :: "string option"
  dsOldPath :: "string option"
  dsAdditions :: int
  dsRemovals :: int

text \<open>\<open>slice(a, b)\<close>, a negative index counting from the end.\<close>

definition jsSlice :: "string \<Rightarrow> int \<Rightarrow> int \<Rightarrow> string" where
  "jsSlice s a b =
     (let n = int (length s); clamp = (\<lambda>i. if i < 0 then max 0 (n + i) else min i n)
      in take (nat (clamp b - clamp a)) (drop (nat (clamp a)) s))"

definition indexFrom :: "char \<Rightarrow> string \<Rightarrow> nat \<Rightarrow> int" where
  "indexFrom c s from =
     (case indexOf [c] (drop from s) of None \<Rightarrow> - 1 | Some i \<Rightarrow> int (from + i))"

definition countOf :: "string \<Rightarrow> int" where
  "countOf v = (if v = ''-'' then 0 else parseIntOrZero v)"

definition numstatField :: "string \<Rightarrow> int \<times> int \<times> string" where
  "numstatField field =
     (let firstTab = indexFrom tabC field 0;
          secondTab = indexFrom tabC field (nat (firstTab + 1))
      in (countOf (jsSlice field 0 firstTab), countOf (jsSlice field (firstTab + 1) secondTab),
          jsSlice field (secondTab + 1) (int (length field))))"

fun numstatFields :: "string list \<Rightarrow> diffFileSummary list" where
  "numstatFields [] = []"
| "numstatFields (field # rest) =
     (if field = [] then numstatFields rest
      else let (added, removed, path) = numstatField field
           in if path \<noteq> []
              then \<lparr>dsPath = Some path, dsOldPath = None, dsAdditions = added, dsRemovals = removed\<rparr> # numstatFields rest
              else \<lparr>dsPath = jsNth rest 1, dsOldPath = jsNth rest 0, dsAdditions = added, dsRemovals = removed\<rparr>
                   # numstatFields (drop 2 rest))"

definition parseNumstat :: "string \<Rightarrow> diffFileSummary list" where
  "parseNumstat raw = numstatFields (splitOn (CHR 0x00) raw)"

subsection \<open>Review anchors\<close>

datatype reviewSide = OldSide | NewSide

record reviewDiffLine =
  rlKind :: linePrefix
  rlText :: string

record reviewAnchor =
  raPath :: string
  raOldPath :: "string option"
  raSide :: reviewSide
  raStartLine :: int
  raLines :: "reviewDiffLine list"
  raFileFingerprint :: "string option"
  raFilePatch :: string
  raBaseRevision :: "string option"
  raHeadRevision :: "string option"

record diffSelection =
  selPath :: string
  selSide :: reviewSide
  selStartLine :: int
  selEndLine :: int

definition sideName :: "reviewSide \<Rightarrow> string" where
  "sideName side = (case side of OldSide \<Rightarrow> ''old'' | NewSide \<Rightarrow> ''new'')"

definition isLineEnd :: "char \<Rightarrow> bool" where
  "isLineEnd c = (c = newlineC \<or> c = returnC)"

text \<open>Where \<open>/^diff --git /gm\<close> matches; \<open>^\<close> follows any line end.\<close>

definition patchStarts :: "string \<Rightarrow> nat list" where
  "patchStarts s =
     filter (\<lambda>i. (i = 0 \<or> isLineEnd (s ! (i - 1))) \<and> startsWith (drop i s) ''diff --git '') [0..<length s]"

fun patchSlices :: "string \<Rightarrow> nat list \<Rightarrow> string list" where
  "patchSlices s [] = []"
| "patchSlices s [a] = [drop a s]"
| "patchSlices s (a # b # is) = take (b - a) (drop a s) # patchSlices s (b # is)"

definition findFilePatch :: "string \<Rightarrow> string \<Rightarrow> (string \<times> diffFile) option" where
  "findFilePatch patch path =
     find (\<lambda>r. dfPath (snd r) = path)
       (List.map_filter (\<lambda>fp. case parsePatch fp of [] \<Rightarrow> None | d # ds \<Rightarrow> Some (fp, d))
         (patchSlices patch (patchStarts patch)))"

fun sideLine :: "reviewSide \<Rightarrow> diffLine \<Rightarrow> (nat \<times> reviewDiffLine) option" where
  "sideLine side l =
     (case dlType l of
        Added \<Rightarrow> (case (side, dlNewLine l) of
            (NewSide, Some n) \<Rightarrow> Some (n, \<lparr>rlKind = Added, rlText = dlText l\<rparr>) | _ \<Rightarrow> None)
      | Removed \<Rightarrow> (case (side, dlOldLine l) of
            (OldSide, Some n) \<Rightarrow> Some (n, \<lparr>rlKind = Removed, rlText = dlText l\<rparr>) | _ \<Rightarrow> None)
      | Unchanged \<Rightarrow> map_option (\<lambda>n. (n, \<lparr>rlKind = Unchanged, rlText = dlText l\<rparr>))
                      (case side of OldSide \<Rightarrow> dlOldLine l | NewSide \<Rightarrow> dlNewLine l))"

definition diffLines :: "diffFile \<Rightarrow> reviewSide \<Rightarrow> (nat \<times> reviewDiffLine) list" where
  "diffLines f side = List.map_filter (sideLine side) (concat (map dhLines (dfHunks f)))"

text \<open>\<open>/^marker(.+)$/m\<close>: the rest of the first line that has one.\<close>

definition markedRest :: "string \<Rightarrow> string \<Rightarrow> string option" where
  "markedRest marker s =
     map_option (drop (length marker))
       (find (\<lambda>l. startsWith l marker \<and> length marker < length l)
         (splitOn newlineC (map (\<lambda>c. if c = returnC then newlineC else c) s)))"

definition anchorOldPath :: "string \<Rightarrow> string \<Rightarrow> string option" where
  "anchorOldPath filePatch currentPath =
     (case markedRest ''rename from '' filePatch of
        Some renamed \<Rightarrow> Some renamed
      | None \<Rightarrow>
          (case markedRest ''--- '' filePatch of
             None \<Rightarrow> None
           | Some marker \<Rightarrow>
               if marker = ''/dev/null'' then None
               else let normalized = (if startsWith marker ''a/'' then drop 2 marker else marker)
                    in if normalized = currentPath then None else Some normalized))"

fun selectLines :: "string \<Rightarrow> reviewSide \<Rightarrow> (nat \<times> reviewDiffLine) list \<Rightarrow> nat \<Rightarrow> nat \<Rightarrow> string + reviewDiffLine list" where
  "selectLines path side available line 0 = Inr []"
| "selectLines path side available line (Suc n) =
     (case find (\<lambda>c. fst c = line) available of
        None \<Rightarrow> Inl (''Line '' @ showNat line @ '' is not available on the '' @ sideName side @ '' side of '' @ path)
      | Some found \<Rightarrow>
          (case selectLines path side available (Suc line) n of
             Inl e \<Rightarrow> Inl e
           | Inr ls \<Rightarrow> Inr (snd found # ls)))"

definition reviewAnchorFromPatch :: "(string \<Rightarrow> string) \<Rightarrow> string \<Rightarrow> diffSelection \<Rightarrow> string + reviewAnchor" where
  "reviewAnchorFromPatch sha256Hex patch sel =
     (if selStartLine sel < 1 \<or> selEndLine sel < selStartLine sel
      then Inl ''Review comment line range is invalid''
      else case findFilePatch patch (selPath sel) of
        None \<Rightarrow> Inl (''Changed file not found in current diff: '' @ selPath sel)
      | Some (filePatch, diff) \<Rightarrow>
          (case selectLines (selPath sel) (selSide sel) (diffLines diff (selSide sel))
                  (nat (selStartLine sel)) (nat (selEndLine sel - selStartLine sel + 1)) of
             Inl e \<Rightarrow> Inl e
           | Inr ls \<Rightarrow> Inr \<lparr>raPath = dfPath diff, raOldPath = anchorOldPath filePatch (dfPath diff),
                 raSide = selSide sel, raStartLine = selStartLine sel, raLines = ls,
                 raFileFingerprint = Some (''sha256:'' @ sha256Hex filePatch), raFilePatch = filePatch,
                 raBaseRevision = None, raHeadRevision = None\<rparr>))"

end
