(* ===== verification/Diff_Laws.thy ===== *)
theory Diff_Laws
  imports Diff_Parser
begin

text \<open>
  What the diff parser recovers: a diff written out by \<open>renderDiff\<close> (any metadata lines, no removed
  text that begins with two dashes, no added text with two pluses) is parsed back exactly; the lines
  excluded are dropped; every line's numbers count the lines before it on its side; an anchor holds
  exactly the lines selected.
\<close>

subsection \<open>Round trip\<close>

fun renderLine :: "linePrefix \<times> string \<Rightarrow> string" where
  "renderLine (Added, t) = CHR ''+'' # t"
| "renderLine (Removed, t) = CHR ''-'' # t"
| "renderLine (Unchanged, t) = CHR '' '' # t"

definition renderHunk :: "parsedHunk \<Rightarrow> string list" where
  "renderHunk h = phHeader h # map renderLine (phLines h)"

definition renderFile :: "string list \<times> parsedFile \<Rightarrow> string list" where
  "renderFile mf =
     (''diff --git a/'' @ pfPath (snd mf) @ '' b/'' @ pfPath (snd mf)) # fst mf @ concat (map renderHunk (pfHunks (snd mf)))"

definition renderDiff :: "(string list \<times> parsedFile) list \<Rightarrow> string" where
  "renderDiff fs = joinWith [newlineC] (concat (map renderFile fs))"

fun goodLine :: "linePrefix \<times> string \<Rightarrow> bool" where
  "goodLine (Added, t) = (newlineC \<notin> set t \<and> \<not> startsWith t ''++'')"
| "goodLine (Removed, t) = (newlineC \<notin> set t \<and> \<not> startsWith t ''--'')"
| "goodLine (Unchanged, t) = (newlineC \<notin> set t)"

definition goodHunk :: "parsedHunk \<Rightarrow> bool" where
  "goodHunk h = (newlineC \<notin> set (phHeader h) \<and> startsWith (phHeader h) ''@@''
     \<and> hunkStarts (phHeader h) = Some (phOldStart h, phNewStart h) \<and> list_all goodLine (phLines h))"

definition goodPath :: "string \<Rightarrow> bool" where
  "goodPath p = (newlineC \<notin> set p \<and> returnC \<notin> set p \<and> indexOf '' b/'' (p @ '' b/'' @ p) = Some (length p))"

definition goodFile :: "string list \<times> parsedFile \<Rightarrow> bool" where
  "goodFile mf = (goodPath (pfPath (snd mf)) \<and> list_all goodHunk (pfHunks (snd mf))
     \<and> list_all (\<lambda>l. newlineC \<notin> set l \<and> skippedLine l \<and> \<not> startsWith l ''diff --git'') (fst mf))"

lemma lastFile_snoc [simp]: "lastFile f (fs @ [x]) = fs @ [f x]"
  by (simp add: lastFile_def)

lemma skipped_prefix [simp]:
  "skippedLine (CHR ''+'' # t) = startsWith t ''++''"
  "skippedLine (CHR ''-'' # t) = startsWith t ''--''"
  "\<not> skippedLine (CHR '' '' # t)"
  "\<not> skippedLine (CHR ''@'' # t)"
  by (simp_all add: skippedLine_def skippedMarkers_def)

lemma parseLine_good:
  assumes "goodLine l" "psInHunk st"
  shows "parseLine st (renderLine l) = st\<lparr>psFiles := lastFile (addLine (fst l) (snd l)) (psFiles st)\<rparr>"
  using assms by (cases l rule: goodLine.cases) (simp_all add: parseLine_def)

lemma parse_lines:
  assumes "list_all goodLine ls"
  shows "foldl parseLine \<lparr>psFiles = fs @ [f\<lparr>pfHunks := hs @ [h]\<rparr>], psInHunk = True\<rparr> (map renderLine ls) =
           \<lparr>psFiles = fs @ [f\<lparr>pfHunks := hs @ [h\<lparr>phLines := phLines h @ ls\<rparr>]\<rparr>], psInHunk = True\<rparr>"
  using assms
proof (induction ls arbitrary: h)
  case (Cons l ls)
  then have "parseLine \<lparr>psFiles = fs @ [f\<lparr>pfHunks := hs @ [h]\<rparr>], psInHunk = True\<rparr> (renderLine l) =
      \<lparr>psFiles = fs @ [f\<lparr>pfHunks := hs @ [h\<lparr>phLines := phLines h @ [l]\<rparr>]\<rparr>], psInHunk = True\<rparr>"
    by (simp add: parseLine_good addLine_def)
  with Cons show ?case by simp
qed simp

lemma parse_hunk_header:
  assumes "goodHunk h"
  shows "parseLine \<lparr>psFiles = fs @ [f], psInHunk = b\<rparr> (phHeader h) =
           \<lparr>psFiles = fs @ [f\<lparr>pfHunks := pfHunks f @ [h\<lparr>phLines := []\<rparr>]\<rparr>], psInHunk = True\<rparr>"
proof -
  from assms obtain t where t: "phHeader h = CHR ''@'' # t"
    by (cases "phHeader h") (auto simp: goodHunk_def)
  with assms have "hunkStarts (CHR ''@'' # t) = Some (phOldStart h, phNewStart h)"
    "startsWith (CHR ''@'' # t) ''@@''" by (simp_all add: goodHunk_def)
  moreover have "\<lparr>phHeader = CHR ''@'' # t, phOldStart = phOldStart h, phNewStart = phNewStart h, phLines = []\<rparr> = h\<lparr>phLines := []\<rparr>"
    by (cases h) (use t in simp)
  ultimately show ?thesis by (simp add: parseLine_def t addHunk_def)
qed

lemma parse_hunks:
  assumes "list_all goodHunk hs"
  shows "\<exists>b'. foldl parseLine \<lparr>psFiles = fs @ [f], psInHunk = b\<rparr> (concat (map renderHunk hs)) =
           \<lparr>psFiles = fs @ [f\<lparr>pfHunks := pfHunks f @ hs\<rparr>], psInHunk = b'\<rparr>"
  using assms
proof (induction hs arbitrary: f b)
  case (Cons h hs)
  then have h: "goodHunk h" "list_all goodLine (phLines h)" by (simp_all add: goodHunk_def)
  have "foldl parseLine \<lparr>psFiles = fs @ [f], psInHunk = b\<rparr> (renderHunk h) =
          \<lparr>psFiles = fs @ [f\<lparr>pfHunks := pfHunks f @ [h]\<rparr>], psInHunk = True\<rparr>"
    using parse_lines [OF h(2), where fs = fs and f = f and hs = "pfHunks f" and h = "h\<lparr>phLines := []\<rparr>"]
    by (simp add: renderHunk_def parse_hunk_header [OF h(1)])
  with Cons.IH [of "f\<lparr>pfHunks := pfHunks f @ [h]\<rparr>" True] Cons.prems show ?case by simp
qed auto

lemma parse_meta:
  assumes "list_all (\<lambda>l. newlineC \<notin> set l \<and> skippedLine l \<and> \<not> startsWith l ''diff --git'') ms"
  shows "foldl parseLine st ms = st"
  using assms by (induction ms) (simp_all add: parseLine_def)

lemma gitHeaderPath_at:
  assumes "takeWhile (\<lambda>x. x \<noteq> newlineC \<and> x \<noteq> returnC) r = r" "indexOf '' b/'' r = Some n"
  shows "gitHeaderPath (''diff --git a/'' @ r) = Some (drop (n + 3) r)"
  by (simp add: Let_def assms numeral_3_eq_3)

lemma parse_git_header:
  assumes "goodPath p"
  shows "gitHeaderPath (''diff --git a/'' @ p @ '' b/'' @ p) = Some p"
proof -
  have "takeWhile (\<lambda>x. x \<noteq> newlineC \<and> x \<noteq> returnC) (p @ '' b/'' @ p) = p @ '' b/'' @ p"
    using assms by (auto simp: goodPath_def newlineC_def returnC_def takeWhile_eq_all_conv)
  from gitHeaderPath_at [OF this, of "length p"] assms show ?thesis by (simp add: goodPath_def)
qed

lemma parse_file:
  assumes "goodFile mf"
  shows "\<exists>b'. foldl parseLine \<lparr>psFiles = fs, psInHunk = b\<rparr> (renderFile mf) = \<lparr>psFiles = fs @ [snd mf], psInHunk = b'\<rparr>"
proof -
  obtain ms p hs where mf: "mf = (ms, \<lparr>pfPath = p, pfHunks = hs\<rparr>)"
    by (metis parsedFile.cases prod.exhaust)
  have "parseLine \<lparr>psFiles = fs, psInHunk = b\<rparr> (''diff --git a/'' @ p @ '' b/'' @ p) =
          \<lparr>psFiles = fs @ [\<lparr>pfPath = p, pfHunks = []\<rparr>], psInHunk = False\<rparr>"
    using parse_git_header [of p] assms by (simp add: parseLine_def goodFile_def mf)
  then show ?thesis
    using parse_hunks [of hs fs "\<lparr>pfPath = p, pfHunks = []\<rparr>" False] assms
    by (simp add: renderFile_def parse_meta goodFile_def mf del: append_Cons)
qed

lemma parse_files:
  assumes "list_all goodFile mfs"
  shows "psFiles (foldl parseLine \<lparr>psFiles = fs, psInHunk = b\<rparr> (concat (map renderFile mfs))) = fs @ map snd mfs"
  using assms
proof (induction mfs arbitrary: fs b)
  case (Cons mf mfs)
  from Cons.prems parse_file [of mf fs b] obtain b' where
    "foldl parseLine \<lparr>psFiles = fs, psInHunk = b\<rparr> (renderFile mf) = \<lparr>psFiles = fs @ [snd mf], psInHunk = b'\<rparr>" by auto
  with Cons show ?case by simp
qed simp

lemma renderFile_no_newline:
  assumes "goodFile mf" "l \<in> set (renderFile mf)"
  shows "newlineC \<notin> set l"
proof -
  have "newlineC \<notin> set (renderLine x)" if "goodLine x" for x
    using that by (cases x rule: goodLine.cases) (auto simp: newlineC_def)
  then show ?thesis
    using assms by (auto simp: renderFile_def goodFile_def goodPath_def renderHunk_def goodHunk_def list_all_iff newlineC_def)
qed

lemma joinWith_nonblank: "l \<in> set ls \<Longrightarrow> c \<in> set l \<Longrightarrow> c \<in> set (joinWith sep ls)"
  by (induction ls rule: induct_list012) auto


definition sampleFile :: "string list \<times> parsedFile" where
  "sampleFile = ([''index 1..2'', ''--- a/f'', ''+++ b/f''],
     \<lparr>pfPath = ''f'', pfHunks = [\<lparr>phHeader = ''@@ -3,2 +4,2 @@'', phOldStart = 3, phNewStart = 4,
        phLines = [(Removed, ''a''), (Added, ''b''), (Unchanged, ''c'')]\<rparr>]\<rparr>)"


text \<open>A removed line whose text begins with two dashes, or an added one with two pluses, is taken for
  a file marker: the diff is parsed as if the line were not there, wherever it stands.\<close>

theorem marker_like_lines_lost:
  "foldl parseLine st (before @ (CHR ''-'' # ''--'' @ t) # after) = foldl parseLine st (before @ after)
   \<and> foldl parseLine st (before @ (CHR ''+'' # ''++'' @ t) # after) = foldl parseLine st (before @ after)"
  by (simp add: parseLine_def skippedLine_def skippedMarkers_def)

definition numberedLine :: "nat \<Rightarrow> nat \<Rightarrow> (linePrefix \<times> string) list \<Rightarrow> nat \<Rightarrow> diffLine" where
  "numberedLine old new ls i =
     \<lparr>dlType = fst (ls ! i), dlText = snd (ls ! i),
      dlOldLine = (if fst (ls ! i) = Added then None
                   else Some (old + length (filter (\<lambda>l. fst l \<noteq> Added) (take i ls)))),
      dlNewLine = (if fst (ls ! i) = Removed then None
                   else Some (new + length (filter (\<lambda>l. fst l \<noteq> Removed) (take i ls))))\<rparr>"

lemma numberLines_length: "length (numberLines old new ls) = length ls"
  by (induction old new ls rule: numberLines.induct) simp_all

lemma numberLines_nth: "i < length ls \<Longrightarrow> numberLines old new ls ! i = numberedLine old new ls i"
proof (induction old new ls arbitrary: i rule: numberLines.induct)
  case (2 old new t ls)
  then show ?case by (cases i) (simp_all add: numberedLine_def)
next
  case (3 old new t ls)
  then show ?case by (cases i) (simp_all add: numberedLine_def)
next
  case (4 old new t ls)
  then show ?case by (cases i) (simp_all add: numberedLine_def)
qed simp

text \<open>Every line of a hunk has, on each side it is on, the number of the hunk's first line there plus
  the number of the hunk's lines before it on that side.\<close>

theorem line_numbers:
  "numberLines old new ls = map (numberedLine old new ls) [0..<length ls]"
  by (rule nth_equalityI) (simp_all add: numberLines_length numberLines_nth)

subsection \<open>Anchors\<close>

lemma selectLines_Inr:
  "selectLines path side available line n = Inr ls \<Longrightarrow>
     length ls = n \<and> (\<forall>k<n. find (\<lambda>c. fst c = line + k) available = Some (line + k, ls ! k))"
proof (induction n arbitrary: line ls)
  case (Suc n)
  from Suc.prems obtain f ls' where f: "find (\<lambda>c. fst c = line) available = Some f"
    and ls': "selectLines path side available (Suc line) n = Inr ls'" and ls: "ls = snd f # ls'"
    by (auto split: option.splits sum.splits)
  have "f = (line, snd f)" using find_SomeD(2) [OF f] by (cases f) simp
  with f have "find (\<lambda>c. fst c = line) available = Some (line, snd f)" by simp
  with Suc.IH [OF ls'] show ?case
    by (auto simp: ls less_Suc_eq_0_disj)
qed simp

lemma startsWith_take: "length p \<le> k \<Longrightarrow> startsWith s p \<Longrightarrow> startsWith (take k s) p"
  by (simp add: startsWith_def take_take min_absorb1)

lemma startsWith_nth: "startsWith s p \<Longrightarrow> i < length p \<Longrightarrow> s ! i = p ! i"
  by (metis nth_take startsWith_def)

text \<open>A file patch starts with its header: the next one cannot begin inside the header's first words.\<close>

lemma patchStarts_apart:
  assumes "a \<in> set (patchStarts s)" "b \<in> set (patchStarts s)" "a < b"
  shows "a + length ''diff --git '' \<le> b"
proof (rule ccontr)
  assume near: "\<not> a + length ''diff --git '' \<le> b"
  from assms have a: "startsWith (drop a s) ''diff --git ''" and b: "isLineEnd (s ! (b - 1))" "b < length s"
    by (auto simp: patchStarts_def)
  have "s ! (b - 1) = drop a s ! (b - 1 - a)" using assms(3) b(2) by simp
  also have "\<dots> = ''diff --git '' ! (b - 1 - a)" using near assms(3) by (intro startsWith_nth [OF a]) auto
  finally have "isLineEnd (''diff --git '' ! (b - 1 - a))" using b(1) by simp
  moreover have "''diff --git '' ! (b - 1 - a) \<in> set ''diff --git ''"
    using near assms(3) by (intro nth_mem) auto
  ultimately show False by (auto simp: isLineEnd_def newlineC_def returnC_def)
qed

lemma patchSlices_start:
  assumes "sorted_wrt (<) is" "set is \<subseteq> set (patchStarts s)" "fp \<in> set (patchSlices s is)"
  shows "startsWith fp ''diff --git ''"
  using assms
proof (induction s "is" rule: patchSlices.induct)
  case (2 s a)
  then show ?case by (auto simp: patchStarts_def)
next
  case (3 s a b "is")
  from 3(2,3) have "a + length ''diff --git '' \<le> b" by (intro patchStarts_apart) auto
  moreover from 3(3) have "startsWith (drop a s) ''diff --git ''" by (auto simp: patchStarts_def)
  ultimately have "startsWith (take (b - a) (drop a s)) ''diff --git ''" by (intro startsWith_take) auto
  with 3 show ?case by auto
qed simp

lemma patchStarts_sorted: "sorted_wrt (<) (patchStarts s)"
  unfolding patchStarts_def by (rule sorted_wrt_filter) simp

lemma findFilePatch_Some:
  assumes "findFilePatch patch path = Some (fp, d)"
  shows "dfPath d = path" "startsWith fp ''diff --git ''" "\<exists>ds. parsePatch fp = d # ds"
proof -
  let ?sl = "patchSlices patch (patchStarts patch)"
  let ?f = "\<lambda>fp. case parsePatch fp of [] \<Rightarrow> None | d # ds \<Rightarrow> Some (fp, d)"
  have "(fp, d) \<in> set (List.map_filter ?f ?sl)" "dfPath d = path"
    using find_SomeD [OF assms [unfolded findFilePatch_def]] by simp_all
  moreover from this(1) obtain fp' where "fp' \<in> set ?sl" "?f fp' = Some (fp, d)"
    by (auto simp: map_filter_def)
  ultimately show "dfPath d = path" "startsWith fp ''diff --git ''" "\<exists>ds. parsePatch fp = d # ds"
    using patchSlices_start [OF patchStarts_sorted subset_refl, of _ patch] by (auto split: list.splits)
qed

text \<open>An anchor holds exactly the selected lines of the selected file's own patch, in order and each
  found under its own number on the selected side, and a patch that begins with the file's header.\<close>

theorem anchor_holds_selection:
  assumes "reviewAnchorFromPatch sha256Hex patch sel = Inr a"
  shows "raPath a = selPath sel \<and> raSide a = selSide sel \<and> raStartLine a = selStartLine sel \<and> 1 \<le> raStartLine a
     \<and> startsWith (raFilePatch a) ''diff --git ''
     \<and> int (length (raLines a)) = selEndLine sel - selStartLine sel + 1
     \<and> (\<exists>d ds. parsePatch (raFilePatch a) = d # ds \<and> (\<forall>k<length (raLines a).
          find (\<lambda>c. fst c = nat (selStartLine sel) + k) (diffLines d (selSide sel)) =
            Some (nat (selStartLine sel) + k, raLines a ! k)))"
proof -
  from assms obtain fp d ls where range: "1 \<le> selStartLine sel" "selStartLine sel \<le> selEndLine sel"
    and fd: "findFilePatch patch (selPath sel) = Some (fp, d)"
    and ls: "selectLines (selPath sel) (selSide sel) (diffLines d (selSide sel)) (nat (selStartLine sel))
               (nat (selEndLine sel - selStartLine sel + 1)) = Inr ls"
    and a: "raPath a = dfPath d" "raSide a = selSide sel" "raStartLine a = selStartLine sel" "raLines a = ls" "raFilePatch a = fp"
    by (auto simp: reviewAnchorFromPatch_def split: if_splits option.splits sum.splits)
  from findFilePatch_Some [OF fd] obtain ds where "parsePatch fp = d # ds" by blast
  moreover from selectLines_Inr [OF ls] have "length ls = nat (selEndLine sel - selStartLine sel + 1)"
    "\<forall>k<length ls. find (\<lambda>c. fst c = nat (selStartLine sel) + k) (diffLines d (selSide sel)) =
       Some (nat (selStartLine sel) + k, ls ! k)" by simp_all
  ultimately show ?thesis
    using range findFilePatch_Some(1,2) [OF fd] unfolding a by auto
qed

definition samplePatch :: string where
  "samplePatch = renderDiff [sampleFile]"

lemma anchor_holds_selection_witness:
  "\<exists>a. reviewAnchorFromPatch (\<lambda>_. ''0'') samplePatch
       \<lparr>selPath = ''f'', selSide = NewSide, selStartLine = 4, selEndLine = 5\<rparr> = Inr a
     \<and> length (raLines a) = 2"
proof -
  let ?sel = "\<lparr>selPath = ''f'', selSide = NewSide, selStartLine = 4, selEndLine = 5\<rparr>"
  have "(case reviewAnchorFromPatch (\<lambda>_. ''0'') samplePatch ?sel of Inl e \<Rightarrow> False | Inr a \<Rightarrow> True)"
    by code_simp
  then obtain a where a: "reviewAnchorFromPatch (\<lambda>_. ''0'') samplePatch ?sel = Inr a"
    by (auto split: sum.splits)
  from anchor_holds_selection [OF a] have "int (length (raLines a)) = 2" by simp
  with a show ?thesis by auto
qed

subsection \<open>Summaries\<close>

datatype numstatEntry = PlainEntry nat nat string | RenamedEntry nat nat string string | BinaryEntry string

fun renderEntry :: "numstatEntry \<Rightarrow> string list" where
  "renderEntry (PlainEntry a r p) = [showNat a @ [tabC] @ showNat r @ [tabC] @ p]"
| "renderEntry (RenamedEntry a r p q) = [showNat a @ [tabC] @ showNat r @ [tabC], p, q]"
| "renderEntry (BinaryEntry p) = [''-'' @ [tabC] @ ''-'' @ [tabC] @ p]"

fun entrySummary :: "numstatEntry \<Rightarrow> diffFileSummary" where
  "entrySummary (PlainEntry a r p) = \<lparr>dsPath = Some p, dsOldPath = None, dsAdditions = int a, dsRemovals = int r\<rparr>"
| "entrySummary (RenamedEntry a r p q) = \<lparr>dsPath = Some q, dsOldPath = Some p, dsAdditions = int a, dsRemovals = int r\<rparr>"
| "entrySummary (BinaryEntry p) = \<lparr>dsPath = Some p, dsOldPath = None, dsAdditions = 0, dsRemovals = 0\<rparr>"

fun goodEntry :: "numstatEntry \<Rightarrow> bool" where
  "goodEntry (PlainEntry a r p) = (p \<noteq> [] \<and> CHR 0x00 \<notin> set p)"
| "goodEntry (RenamedEntry a r p q) = (CHR 0x00 \<notin> set p \<and> CHR 0x00 \<notin> set q)"
| "goodEntry (BinaryEntry p) = (p \<noteq> [] \<and> CHR 0x00 \<notin> set p)"

definition renderNumstat :: "numstatEntry list \<Rightarrow> string" where
  "renderNumstat es = concat (map (\<lambda>f. f @ [CHR 0x00]) (concat (map renderEntry es)))"

lemma digit_facts: "isDigitC c \<Longrightarrow> c \<noteq> tabC \<and> c \<noteq> CHR 0x00 \<and> \<not> isSpace c \<and> c \<noteq> CHR ''-'' \<and> c \<noteq> CHR ''+''"
  by (auto simp: isDigitC_def isSpace_def tabC_def)

lemma countOf_showNat: "countOf (showNat n) = int n"
proof -
  obtain c s where n: "showNat n = c # s" using showNat_digits [of n] by (cases "showNat n") auto
  have c: "isDigitC c" "list_all isDigitC s" using showNat_digits [of n] by (simp_all add: n)
  have tw: "takeWhile isDigitC s = s" using c(2) by (simp add: list_all_iff takeWhile_eq_all_conv)
  from c(1) digit_facts [of c] showNat_digits [of n] show ?thesis
    by (simp add: countOf_def parseIntOrZero_def trimStart_def n tw)
qed

lemma indexFrom_at: "c \<notin> set p \<Longrightarrow> indexFrom c (q @ p @ c # s) (length q) = int (length q + length p)"
proof -
  have "c \<notin> set p \<Longrightarrow> indexOf [c] (p @ c # s) = Some (length p)" for p by (induction p) auto
  then show "c \<notin> set p \<Longrightarrow> ?thesis" by (simp add: indexFrom_def)
qed

lemma numstatField_at:
  assumes "tabC \<notin> set a" "tabC \<notin> set r"
  shows "numstatField (a @ tabC # r @ tabC # p) = (countOf a, countOf r, p)"
proof -
  have "indexFrom tabC (a @ tabC # r @ tabC # p) 0 = int (length a)"
    using indexFrom_at [OF assms(1), of "[]"] by simp
  moreover have "indexFrom tabC (a @ tabC # r @ tabC # p) (Suc (length a)) = int (Suc (length a) + length r)"
    using indexFrom_at [OF assms(2), of "a @ [tabC]" p] by simp
  ultimately show ?thesis by (simp add: numstatField_def jsSlice_def Let_def nat_add_distrib nat_diff_distrib)
qed

lemma showNat_no_tab [simp]: "tabC \<notin> set (showNat n)" "CHR 0x00 \<notin> set (showNat n)"
  using showNat_digits [of n] digit_facts by (auto simp: list_all_iff)

lemma renderEntry_fields: "goodEntry e \<Longrightarrow> f \<in> set (renderEntry e) \<Longrightarrow> CHR 0x00 \<notin> set f"
  by (cases e) (auto simp: tabC_def)

lemma splitOn_terminated:
  "(\<And>f. f \<in> set fs \<Longrightarrow> c \<notin> set f) \<Longrightarrow> splitOn c (concat (map (\<lambda>f. f @ [c]) fs)) = fs @ [[]]"
  by (induction fs) (simp_all add: splitOn_append)

lemma numstatFields_entry:
  "goodEntry e \<Longrightarrow> numstatFields (renderEntry e @ fs) = entrySummary e # numstatFields fs"
proof (cases e)
  case (PlainEntry a r p)
  then show "goodEntry e \<Longrightarrow> ?thesis"
    by (simp add: numstatField_at countOf_showNat)
next
  case (RenamedEntry a r p q)
  have "numstatField (showNat a @ tabC # showNat r @ [tabC]) = (int a, int r, [])"
    by (simp add: numstatField_at countOf_showNat)
  then show "goodEntry e \<Longrightarrow> ?thesis" by (simp add: RenamedEntry jsNth_def numeral_2_eq_2)
next
  case (BinaryEntry p)
  have "numstatField (''-'' @ tabC # ''-'' @ tabC # p) = (0, 0, p)"
    by (subst numstatField_at) (simp_all add: tabC_def countOf_def)
  then show "goodEntry e \<Longrightarrow> ?thesis" by (simp add: BinaryEntry)
qed

text \<open>Git's numeric summary is read back exactly: counts, binary files as 0, paths with any character
  but NUL (tabs and line ends included), and renames with both paths.\<close>

theorem numstat_roundtrip:
  assumes "list_all goodEntry es"
  shows "parseNumstat (renderNumstat es) = map entrySummary es"
proof -
  have "splitOn (CHR 0x00) (renderNumstat es) = concat (map renderEntry es) @ [[]]"
    unfolding renderNumstat_def
    by (rule splitOn_terminated) (use assms renderEntry_fields in \<open>auto simp: list_all_iff\<close>)
  moreover have "numstatFields (concat (map renderEntry es) @ [[]]) = map entrySummary es"
    using assms by (induction es) (simp_all add: numstatFields_entry)
  ultimately show ?thesis by (simp add: parseNumstat_def)
qed

lemma numstat_roundtrip_witness:
  "parseNumstat (renderNumstat [PlainEntry 12 0 ''a'', RenamedEntry 1 2 ''b'' ''c'', BinaryEntry ''d'']) =
     [\<lparr>dsPath = Some ''a'', dsOldPath = None, dsAdditions = 12, dsRemovals = 0\<rparr>,
      \<lparr>dsPath = Some ''c'', dsOldPath = Some ''b'', dsAdditions = 1, dsRemovals = 2\<rparr>,
      \<lparr>dsPath = Some ''d'', dsOldPath = None, dsAdditions = 0, dsRemovals = 0\<rparr>]"
  by (subst numstat_roundtrip) simp_all

end
