(* ===== verification/Code_Review.thy ===== *)
theory Code_Review
  imports Diff_Parser
begin

text \<open>
  Code reviews: the model of \<^verbatim>\<open>packages/backend/src/models/code-review.ts\<close>, the table of
  \<^verbatim>\<open>code-review-store.ts\<close> with its optimistic revision, the project-scoped operations of
  \<^verbatim>\<open>code-reviews.ts\<close> and the submission of \<^verbatim>\<open>code-review-submission.ts\<close>. The database is the list
  of the rows; its keys and unique indexes (migration 025) are the conditions of an insert, a
  transaction gives back the rows it began with when it throws. Generated IDs and the time are
  arguments. \<open>JSON\<close> columns hold the value they encode.
\<close>

subsection \<open>A review\<close>

datatype reviewErrorKind = InvalidReview | ReviewNotFound | ReviewConflict

datatype reviewError =
    CodeReviewError string reviewErrorKind
  | RevisionConflictError string nat nat
  | ConstraintError
  | OtherError string

record reviewEntry =
  enId :: string
  enAuthor :: string
  enBody :: string
  enCreatedAt :: string
  enSourceKey :: "string option"
  enSourceUrl :: "string option"

record reviewAnnotation =
  anId :: string
  anAnchor :: reviewAnchor
  anEntries :: "reviewEntry list"

record newReviewAnnotation =
  naId :: string
  naAnchor :: reviewAnchor
  naEntry :: reviewEntry

record codeReview =
  crId :: string
  crProjectId :: int
  crTaskId :: "int option"
  crRevision :: nat
  crAnnotations :: "reviewAnnotation list"
  crCreatedAt :: string
  crUpdatedAt :: string

definition ensureValidAnchor :: "reviewAnchor \<Rightarrow> reviewError option" where
  "ensureValidAnchor a =
     (if raStartLine a < 1 \<or> raLines a = []
      then Some (CodeReviewError ''Review annotation diff selection is invalid'' InvalidReview)
      else if list_ex (\<lambda>l. newlineC \<in> set (rlText l) \<or> returnC \<in> set (rlText l)) (raLines a)
      then Some (CodeReviewError ''Review annotation diff line text is invalid'' InvalidReview)
      else if \<not> startsWith (raFilePatch a) ''diff --git ''
      then Some (CodeReviewError ''Review annotation file patch is invalid'' InvalidReview)
      else None)"

definition entryCollides :: "reviewEntry \<Rightarrow> reviewEntry \<Rightarrow> bool" where
  "entryCollides entry existing =
     (enId existing = enId entry \<or> (enSourceKey entry \<noteq> None \<and> enSourceKey existing = enSourceKey entry))"

definition findIdentityCollision :: "reviewAnnotation list \<Rightarrow> string option \<Rightarrow> reviewEntry \<Rightarrow> reviewAnnotation option" where
  "findIdentityCollision anns annotationId entry =
     find (\<lambda>a. (annotationId \<noteq> None \<and> annotationId = Some (anId a)) \<or> list_ex (entryCollides entry) (anEntries a)) anns"

definition addAnnotation :: "newReviewAnnotation \<Rightarrow> reviewAnnotation list \<Rightarrow> reviewError + reviewAnnotation list" where
  "addAnnotation input anns =
     (case ensureValidAnchor (naAnchor input) of
        Some e \<Rightarrow> Inl e
      | None \<Rightarrow>
          if findIdentityCollision anns (Some (naId input)) (naEntry input) \<noteq> None
          then Inl (CodeReviewError ''Review annotation or entry identity is already in use'' ReviewConflict)
          else Inr (anns @ [\<lparr>anId = naId input, anAnchor = naAnchor input, anEntries = [naEntry input]\<rparr>]))"

text \<open>\<open>findEntryBySourceKey\<close> returns the entry itself, which the upsert then changes in place.\<close>

fun updateFirst :: "('a \<Rightarrow> bool) \<Rightarrow> ('a \<Rightarrow> 'a) \<Rightarrow> 'a list \<Rightarrow> 'a list" where
  "updateFirst P f [] = []"
| "updateFirst P f (x # xs) = (if P x then f x # xs else x # updateFirst P f xs)"

definition hasSourceKey :: "string \<Rightarrow> reviewEntry \<Rightarrow> bool" where
  "hasSourceKey sk e = (enSourceKey e = Some sk)"

definition refreshEntry :: "reviewEntry \<Rightarrow> reviewEntry \<Rightarrow> reviewEntry" where
  "refreshEntry new e = e\<lparr>enAuthor := enAuthor new, enBody := enBody new, enSourceUrl := enSourceUrl new\<rparr>"

definition upsertAnnotation :: "newReviewAnnotation \<Rightarrow> reviewAnnotation list \<Rightarrow> reviewError + reviewAnnotation list" where
  "upsertAnnotation input anns =
     (case enSourceKey (naEntry input) of
        None \<Rightarrow> Inl (CodeReviewError ''Review annotation upsert requires sourceKey'' InvalidReview)
      | Some sk \<Rightarrow>
          if list_ex (\<lambda>a. list_ex (hasSourceKey sk) (anEntries a)) anns
          then Inr (updateFirst (\<lambda>a. list_ex (hasSourceKey sk) (anEntries a))
                      (\<lambda>a. a\<lparr>anEntries := updateFirst (hasSourceKey sk) (refreshEntry (naEntry input)) (anEntries a)\<rparr>) anns)
          else addAnnotation input anns)"

definition addReply :: "string \<Rightarrow> reviewEntry \<Rightarrow> reviewAnnotation list \<Rightarrow> reviewError + reviewAnnotation list" where
  "addReply annotationId entry anns =
     (if findIdentityCollision anns None entry \<noteq> None
      then Inl (CodeReviewError ''Review entry identity is already in use'' ReviewConflict)
      else if list_all (\<lambda>a. anId a \<noteq> annotationId) anns
      then Inl (CodeReviewError (''Review annotation not found: '' @ annotationId) ReviewNotFound)
      else Inr (updateFirst (\<lambda>a. anId a = annotationId) (\<lambda>a. a\<lparr>anEntries := anEntries a @ [entry]\<rparr>) anns))"

fun deleteFrom :: "string \<Rightarrow> reviewAnnotation list \<Rightarrow> reviewAnnotation list option" where
  "deleteFrom entryId [] = None"
| "deleteFrom entryId (a # as) =
     (if list_ex (\<lambda>e. enId e = entryId) (anEntries a)
      then (let left = filter (\<lambda>e. enId e \<noteq> entryId) (anEntries a)
            in Some (if left = [] then as else a\<lparr>anEntries := left\<rparr> # as))
      else map_option ((#) a) (deleteFrom entryId as))"

definition deleteReviewComment :: "string \<Rightarrow> reviewAnnotation list \<Rightarrow> reviewError + reviewAnnotation list" where
  "deleteReviewComment entryId anns =
     (case deleteFrom entryId anns of
        None \<Rightarrow> Inl (CodeReviewError (''Review comment not found: '' @ entryId) ReviewNotFound)
      | Some left \<Rightarrow> Inr left)"

subsection \<open>The table\<close>

record reviewDb =
  dbReviews :: "codeReview list"
  dbTasks :: "(int \<times> int) list"
  dbProjects :: "int list"

definition getCodeReview :: "reviewDb \<Rightarrow> string \<Rightarrow> codeReview option" where
  "getCodeReview db k = find (\<lambda>r. crId r = k) (dbReviews db)"

definition getOpenCodeReview :: "reviewDb \<Rightarrow> int \<Rightarrow> int option \<Rightarrow> codeReview option" where
  "getOpenCodeReview db project task = find (\<lambda>r. crProjectId r = project \<and> crTaskId r = task) (dbReviews db)"

definition createCodeReview ::
  "string \<Rightarrow> string \<Rightarrow> int \<Rightarrow> int option \<Rightarrow> reviewDb \<Rightarrow> (reviewError + codeReview) \<times> reviewDb" where
  "createCodeReview now newId project task db =
     (if getCodeReview db newId \<noteq> None \<or> getOpenCodeReview db project task \<noteq> None
         \<or> project \<notin> set (dbProjects db) \<or> (task \<noteq> None \<and> the task \<notin> fst ` set (dbTasks db))
      then (Inl ConstraintError, db)
      else let row = \<lparr>crId = newId, crProjectId = project, crTaskId = task, crRevision = 0, crAnnotations = [],
                      crCreatedAt = now, crUpdatedAt = now\<rparr>
           in (Inr row, db\<lparr>dbReviews := dbReviews db @ [row]\<rparr>))"

definition saveCodeReview :: "string \<Rightarrow> codeReview \<Rightarrow> reviewDb \<Rightarrow> (reviewError + codeReview option) \<times> reviewDb" where
  "saveCodeReview now review db =
     (case getCodeReview db (crId review) of
        None \<Rightarrow> (Inr None, db)
      | Some row \<Rightarrow>
          if crRevision row = crRevision review
          then (let row' = row\<lparr>crAnnotations := crAnnotations review, crRevision := Suc (crRevision row), crUpdatedAt := now\<rparr>
                in (Inr (Some row'), db\<lparr>dbReviews := updateFirst (\<lambda>r. crId r = crId review) (\<lambda>_. row') (dbReviews db)\<rparr>))
          else (Inl (RevisionConflictError (crId review) (crRevision review) (crRevision row)), db))"

definition acceptCodeReviewSubmission :: "codeReview \<Rightarrow> reviewDb \<Rightarrow> reviewError option \<times> reviewDb" where
  "acceptCodeReviewSubmission review db =
     (case getCodeReview db (crId review) of
        None \<Rightarrow> (Some (OtherError (''Code review '' @ crId review @ '' no longer exists'')), db)
      | Some row \<Rightarrow>
          if crRevision row = crRevision review
          then (None, db\<lparr>dbReviews := filter (\<lambda>r. crId r \<noteq> crId review) (dbReviews db)\<rparr>)
          else (Some (RevisionConflictError (crId review) (crRevision review) (crRevision row)), db))"

definition deleteCodeReview :: "string \<Rightarrow> reviewDb \<Rightarrow> bool \<times> reviewDb" where
  "deleteCodeReview k db =
     (getCodeReview db k \<noteq> None, db\<lparr>dbReviews := filter (\<lambda>r. crId r \<noteq> k) (dbReviews db)\<rparr>)"

subsection \<open>Project operations\<close>

record reviewBroadcast =
  rbProjectId :: int
  rbTaskId :: "int option"
  rbReviewId :: string
  rbRevision :: nat

record reviewsState =
  rvDb :: reviewDb
  rvBroadcasts :: "reviewBroadcast list"

type_synonym expectedReview = "string \<times> nat"

definition ensureScope :: "reviewDb \<Rightarrow> int \<Rightarrow> int option \<Rightarrow> reviewError option" where
  "ensureScope db project task =
     (case task of
        None \<Rightarrow> None
      | Some t \<Rightarrow> if map_of (dbTasks db) t = Some project then None
                  else Some (CodeReviewError ''Code review task scope not found'' ReviewNotFound))"

definition getOpenReview :: "reviewDb \<Rightarrow> int \<Rightarrow> int option \<Rightarrow> reviewError + codeReview option" where
  "getOpenReview db project task =
     (case ensureScope db project task of Some e \<Rightarrow> Inl e | None \<Rightarrow> Inr (getOpenCodeReview db project task))"

definition getReview :: "reviewDb \<Rightarrow> int \<Rightarrow> int option \<Rightarrow> string \<Rightarrow> reviewError + codeReview" where
  "getReview db project task reviewId =
     (case ensureScope db project task of
        Some e \<Rightarrow> Inl e
      | None \<Rightarrow>
          (case getCodeReview db reviewId of
             None \<Rightarrow> Inl (CodeReviewError ''Code review does not belong to the requested scope'' ReviewConflict)
           | Some r \<Rightarrow> if crProjectId r = project \<and> crTaskId r = task then Inr r
                      else Inl (CodeReviewError ''Code review does not belong to the requested scope'' ReviewConflict)))"

definition expectRevision :: "codeReview \<Rightarrow> nat \<Rightarrow> reviewError option" where
  "expectRevision r n =
     (if crRevision r = n then None
      else Some (CodeReviewError (''Code review revision conflict: expected '' @ showNat n @ '', found '' @ showNat (crRevision r))
                   ReviewConflict))"

definition getExpected :: "reviewDb \<Rightarrow> int \<Rightarrow> int option \<Rightarrow> expectedReview \<Rightarrow> reviewError + codeReview" where
  "getExpected db project task expected =
     (case getReview db project task (fst expected) of
        Inl e \<Rightarrow> Inl e
      | Inr r \<Rightarrow> (case expectRevision r (snd expected) of None \<Rightarrow> Inr r | Some e \<Rightarrow> Inl e))"

definition resolveReview ::
  "string \<Rightarrow> string \<Rightarrow> int \<Rightarrow> int option \<Rightarrow> expectedReview option \<Rightarrow> reviewDb
   \<Rightarrow> (reviewError + codeReview \<times> bool) \<times> reviewDb" where
  "resolveReview now newId project task expected db =
     (case expected of
        Some ex \<Rightarrow> ((case getExpected db project task ex of Inl e \<Rightarrow> Inl e | Inr r \<Rightarrow> Inr (r, False)), db)
      | None \<Rightarrow>
          (case getOpenCodeReview db project task of
             Some r \<Rightarrow> (Inr (r, False), db)
           | None \<Rightarrow> (case createCodeReview now newId project task db of
                 (Inl e, db') \<Rightarrow> (Inl e, db') | (Inr r, db') \<Rightarrow> (Inr (r, True), db'))))"

text \<open>A revision conflict of the table becomes a conflict of the review.\<close>

definition asReviewError :: "reviewError \<Rightarrow> reviewError" where
  "asReviewError e =
     (case e of RevisionConflictError k n m \<Rightarrow>
        CodeReviewError (''Code review '' @ k @ '' revision conflict: expected '' @ showNat n @ '', found '' @ showNat m) ReviewConflict
      | _ \<Rightarrow> e)"

text \<open>The saving half of both transactions: the annotations replaced, the row saved or the reason not.\<close>

definition saveAnnotations ::
  "string \<Rightarrow> codeReview \<Rightarrow> reviewAnnotation list \<Rightarrow> reviewDb \<Rightarrow> (reviewError + codeReview) \<times> reviewDb" where
  "saveAnnotations now review anns db =
     (case saveCodeReview now (review\<lparr>crAnnotations := anns\<rparr>) db of
        (Inl e, db') \<Rightarrow> (Inl e, db')
      | (Inr None, db') \<Rightarrow> (Inl (CodeReviewError (''Code review '' @ crId review @ '' no longer exists'') ReviewConflict), db')
      | (Inr (Some saved), db') \<Rightarrow> (Inr saved, db'))"

definition addInTransaction ::
  "string \<Rightarrow> string \<Rightarrow> int \<Rightarrow> int option \<Rightarrow> expectedReview option \<Rightarrow> newReviewAnnotation \<Rightarrow> reviewDb
   \<Rightarrow> (reviewError + codeReview \<times> bool) \<times> reviewDb" where
  "addInTransaction now newId project task expected ann db =
     (case resolveReview now newId project task expected db of
        (Inl e, db1) \<Rightarrow> (Inl e, db1)
      | (Inr (review, created), db1) \<Rightarrow>
          (case addAnnotation ann (crAnnotations review) of
             Inl e \<Rightarrow> (Inl e, db1)
           | Inr anns \<Rightarrow>
               (case saveAnnotations now review anns db1 of
                  (Inl e, db2) \<Rightarrow> (Inl e, db2)
                | (Inr saved, db2) \<Rightarrow> (Inr (saved, created), db2))))"

definition deleteInTransaction ::
  "string \<Rightarrow> int \<Rightarrow> int option \<Rightarrow> expectedReview \<Rightarrow> string \<Rightarrow> reviewDb \<Rightarrow> (reviewError + codeReview \<times> bool) \<times> reviewDb" where
  "deleteInTransaction now project task expected commentId db =
     (case getExpected db project task expected of
        Inl e \<Rightarrow> (Inl e, db)
      | Inr review \<Rightarrow>
          (case deleteReviewComment commentId (crAnnotations review) of
             Inl e \<Rightarrow> (Inl e, db)
           | Inr anns \<Rightarrow>
               (case saveAnnotations now review anns db of
                  (Inl e, db') \<Rightarrow> (Inl e, db') | (Inr saved, db') \<Rightarrow> (Inr (saved, False), db'))))"

text \<open>A transaction commits, and its review is broadcast, or it throws and changes nothing.\<close>

definition transact ::
  "(reviewDb \<Rightarrow> (reviewError + codeReview \<times> bool) \<times> reviewDb) \<Rightarrow> reviewsState
   \<Rightarrow> (reviewError + codeReview \<times> bool) \<times> reviewsState" where
  "transact body st =
     (case body (rvDb st) of
        (Inl e, db') \<Rightarrow> (Inl (asReviewError e), st)
      | (Inr (r, created), db') \<Rightarrow>
          (Inr (r, created), st\<lparr>rvDb := db', rvBroadcasts := rvBroadcasts st @
             [\<lparr>rbProjectId = crProjectId r, rbTaskId = crTaskId r, rbReviewId = crId r, rbRevision = crRevision r\<rparr>]\<rparr>))"

definition addReviewAnnotation ::
  "string \<Rightarrow> string \<Rightarrow> int \<Rightarrow> int option \<Rightarrow> expectedReview option \<Rightarrow> newReviewAnnotation \<Rightarrow> reviewsState
   \<Rightarrow> (reviewError + codeReview \<times> bool) \<times> reviewsState" where
  "addReviewAnnotation now newId project task expected ann st =
     (case ensureScope (rvDb st) project task of
        Some e \<Rightarrow> (Inl e, st)
      | None \<Rightarrow> transact (addInTransaction now newId project task expected ann) st)"

record newReviewComment =
  ncSelection :: diffSelection
  ncFilePatch :: string
  ncBody :: string

definition addReviewComment ::
  "(string \<Rightarrow> string) \<Rightarrow> string \<Rightarrow> string \<times> string \<times> string \<Rightarrow> string \<Rightarrow> int \<Rightarrow> int option \<Rightarrow> expectedReview option
   \<Rightarrow> newReviewComment \<Rightarrow> reviewsState \<Rightarrow> (reviewError + codeReview \<times> bool) \<times> reviewsState" where
  "addReviewComment sha256Hex now ids author project task expected comment st =
     (let (annId, entryId, newId) = ids; body = trimStr (ncBody comment)
      in if body = [] then (Inl (CodeReviewError ''Review comment body cannot be empty'' InvalidReview), st)
         else case reviewAnchorFromPatch sha256Hex (ncFilePatch comment) (ncSelection comment) of
           Inl msg \<Rightarrow> (Inl (CodeReviewError msg InvalidReview), st)
         | Inr anchor \<Rightarrow> addReviewAnnotation now newId project task expected
             \<lparr>naId = annId, naAnchor = anchor,
              naEntry = \<lparr>enId = entryId, enAuthor = author, enBody = body, enCreatedAt = now,
                         enSourceKey = None, enSourceUrl = None\<rparr>\<rparr> st)"

definition deleteComment ::
  "string \<Rightarrow> int \<Rightarrow> int option \<Rightarrow> expectedReview \<Rightarrow> string \<Rightarrow> reviewsState
   \<Rightarrow> (reviewError + codeReview \<times> bool) \<times> reviewsState" where
  "deleteComment now project task expected commentId st =
     transact (deleteInTransaction now project task expected commentId) st"

subsection \<open>Submission\<close>

type_synonym locationKey = "string \<times> reviewSide \<times> int \<times> reviewDiffLine list"

definition locationKey :: "reviewAnchor \<Rightarrow> locationKey" where
  "locationKey a = (raPath a, raSide a, raStartLine a, raLines a)"

definition addLocation ::
  "(locationKey, reviewAnchor \<times> reviewEntry list) jsmap \<Rightarrow> reviewAnnotation \<Rightarrow> (locationKey, reviewAnchor \<times> reviewEntry list) jsmap" where
  "addLocation m a =
     (case jmGet m (locationKey (anAnchor a)) of
        Some (anchor, es) \<Rightarrow> jmSet (locationKey (anAnchor a)) (anchor, es @ anEntries a) m
      | None \<Rightarrow> jmSet (locationKey (anAnchor a)) (anAnchor a, anEntries a) m)"

definition reviewLocations :: "reviewAnnotation list \<Rightarrow> (locationKey, reviewAnchor \<times> reviewEntry list) jsmap" where
  "reviewLocations anns = foldl addLocation [] anns"

definition replyMark :: string where
  "replyMark = [CHR 0xE2, CHR 0x86, CHR 0xB3, CHR '' '']"

definition dropFinalNewline :: "string \<Rightarrow> string" where
  "dropFinalNewline s = (if s \<noteq> [] \<and> List.last s = newlineC then butlast s else s)"

definition renderLocation :: "reviewAnchor \<times> reviewEntry list \<Rightarrow> string" where
  "renderLocation loc =
     (let diff = joinWith [newlineC] (map ((@) ''    '') (splitOn newlineC (dropFinalNewline (raFilePatch (fst loc)))));
          comments = joinWith [newlineC] (map (\<lambda>(i, e). (if i = 0 then [] else replyMark) @ enAuthor e @ '': '' @ enBody e)
                       (enumerate 0 (snd loc)))
      in raPath (fst loc) @ [newlineC, newlineC] @ ''Diff:'' @ [newlineC] @ diff @ [newlineC, newlineC] @ comments)"

definition compileFeedback :: "reviewAnnotation list \<Rightarrow> string" where
  "compileFeedback anns =
     joinWith ([newlineC, newlineC] @ ''---'' @ [newlineC, newlineC]) (map (\<lambda>p. renderLocation (snd p)) (reviewLocations anns))"

text \<open>Submission's first half, up to the prompt given to the session (whose runtime then admits it or
  fails, while anything may happen to the table), and its second half, once the prompt is admitted.
  \<open>sessionScope\<close> is the project and task of a session.\<close>

definition submitPrepare ::
  "(string \<Rightarrow> (int \<times> int option) option) \<Rightarrow> reviewDb \<Rightarrow> int \<Rightarrow> int option \<Rightarrow> string \<Rightarrow> nat \<Rightarrow> string
   \<Rightarrow> reviewError + codeReview \<times> string \<times> string" where
  "submitPrepare sessionScope db project task reviewId revision sessionId =
     (case getExpected db project task (reviewId, revision) of
        Inl e \<Rightarrow> Inl e
      | Inr review \<Rightarrow>
          if crAnnotations review = [] then Inl (CodeReviewError ''Code review has no saved comments'' InvalidReview)
          else if sessionScope sessionId \<noteq> Some (project, task)
          then Inl (CodeReviewError ''Submission session does not belong to the review scope'' ReviewNotFound)
          else Inr (review, compileFeedback (crAnnotations review),
                    ''code-review:'' @ crId review @ '':'' @ showNat (crRevision review)))"

definition submitAccept :: "codeReview \<Rightarrow> reviewsState \<Rightarrow> reviewError option \<times> reviewsState" where
  "submitAccept review st =
     (case acceptCodeReviewSubmission review (rvDb st) of
        (Some e, db') \<Rightarrow> (Some e, st)
      | (None, db') \<Rightarrow> (None, st\<lparr>rvDb := db', rvBroadcasts := rvBroadcasts st @
           [\<lparr>rbProjectId = crProjectId review, rbTaskId = crTaskId review, rbReviewId = crId review,
             rbRevision = Suc (crRevision review)\<rparr>]\<rparr>))"

end
