(* ===== verification/Review_Laws.thy ===== *)
theory Review_Laws
  imports Code_Review
begin

text \<open>
  Code reviews keep their identities: annotation IDs, entry IDs and import keys stay unique under every
  operation, imports converge, deleting undoes adding. The table's contract, a store of versioned
  values written by compare-and-swap, is the locale \<open>versioned_store\<close>: copies loaded at the same
  revision cannot both be saved. Commands commit and are broadcast, or change nothing; a submission
  consumes a review only as it was sent.
\<close>

subsection \<open>Entries and identities\<close>

definition allEntries :: "reviewAnnotation list \<Rightarrow> reviewEntry list" where
  "allEntries anns = concat (map anEntries anns)"

definition keysOf :: "string option list \<Rightarrow> string list" where
  "keysOf ks = map the (filter (\<lambda>k. k \<noteq> None) ks)"

definition annsWf :: "reviewAnnotation list \<Rightarrow> bool" where
  "annsWf anns =
     (distinct (map anId anns) \<and> distinct (map enId (allEntries anns))
      \<and> distinct (keysOf (map enSourceKey (allEntries anns)))
      \<and> list_all (\<lambda>a. anEntries a \<noteq> [] \<and> ensureValidAnchor (anAnchor a) = None) anns)"

lemma allEntries_simps [simp]:
  "allEntries [] = []"
  "allEntries (a # as) = anEntries a @ allEntries as"
  "allEntries (as @ bs) = allEntries as @ allEntries bs"
  by (simp_all add: allEntries_def)

lemma keysOf_simps [simp]:
  "keysOf [] = []"
  "keysOf (k # ks) = (case k of None \<Rightarrow> keysOf ks | Some s \<Rightarrow> s # keysOf ks)"
  "keysOf (ks @ js) = keysOf ks @ keysOf js"
  by (simp_all add: keysOf_def split: option.split)

lemma keysOf_mem [simp]: "s \<in> set (keysOf ks) \<longleftrightarrow> Some s \<in> set ks"
  by (force simp: keysOf_def)

lemma updateFirst_at:
  "P x \<Longrightarrow> \<forall>y\<in>set us. \<not> P y \<Longrightarrow> updateFirst P f (us @ x # vs) = us @ f x # vs"
  by (induction us) simp_all

lemma first_split:
  assumes "\<exists>x\<in>set xs. P x"
  obtains us x vs where "xs = us @ x # vs" "P x" "\<forall>y\<in>set us. \<not> P y"
  using split_list_first_prop [OF assms] by blast

lemma map_updateFirst: "(\<And>x. x \<in> set xs \<Longrightarrow> g (f x) = g x) \<Longrightarrow> map g (updateFirst P f xs) = map g xs"
  by (induction xs) auto

lemma collision_None:
  "findIdentityCollision anns idopt e = None \<longleftrightarrow>
     idopt \<notin> Some ` anId ` set anns \<and> (\<forall>x\<in>set (allEntries anns). \<not> entryCollides e x)"
  by (cases idopt) (auto simp: findIdentityCollision_def find_None_iff list_ex_iff allEntries_def)

lemma addAnnotation_Inr:
  "addAnnotation n anns = Inr anns' \<longleftrightarrow>
     ensureValidAnchor (naAnchor n) = None \<and> naId n \<notin> anId ` set anns
     \<and> (\<forall>x\<in>set (allEntries anns). \<not> entryCollides (naEntry n) x)
     \<and> anns' = anns @ [\<lparr>anId = naId n, anAnchor = naAnchor n, anEntries = [naEntry n]\<rparr>]"
  by (auto simp: addAnnotation_def collision_None split: option.splits)

lemma entry_new_keys:
  assumes "\<forall>x\<in>set es. \<not> entryCollides e x"
  shows "enId e \<notin> enId ` set es" "enSourceKey e = Some k \<Longrightarrow> Some k \<notin> enSourceKey ` set es"
  using assms by (auto simp: entryCollides_def)

lemma add_wf:
  assumes "annsWf anns" "addAnnotation n anns = Inr anns'"
  shows "annsWf anns'"
proof -
  from assms(2) have "ensureValidAnchor (naAnchor n) = None" "naId n \<notin> anId ` set anns"
    "\<forall>x\<in>set (allEntries anns). \<not> entryCollides (naEntry n) x"
    and anns': "anns' = anns @ [\<lparr>anId = naId n, anAnchor = naAnchor n, anEntries = [naEntry n]\<rparr>]"
    by (simp_all add: addAnnotation_Inr)
  with entry_new_keys [of "allEntries anns" "naEntry n"] assms(1) show ?thesis
    by (cases "enSourceKey (naEntry n)") (auto simp: annsWf_def)
qed

lemma reply_wf:
  assumes "annsWf anns" "addReply k e anns = Inr anns'"
  shows "annsWf anns'"
proof -
  from assms(2) have new: "\<forall>x\<in>set (allEntries anns). \<not> entryCollides e x"
    and ex: "\<exists>a\<in>set anns. anId a = k"
    and anns': "anns' = updateFirst (\<lambda>a. anId a = k) (\<lambda>a. a\<lparr>anEntries := anEntries a @ [e]\<rparr>) anns"
    by (auto simp: addReply_def collision_None list_all_iff split: if_splits)
  from first_split [OF ex] obtain us a vs where anns: "anns = us @ a # vs" "anId a = k" "\<forall>y\<in>set us. anId y \<noteq> k" .
  then have "anns' = us @ a\<lparr>anEntries := anEntries a @ [e]\<rparr> # vs" by (simp add: anns' updateFirst_at)
  with entry_new_keys [OF new] assms(1) show ?thesis
    by (cases "enSourceKey e") (auto simp: annsWf_def anns(1))
qed

lemma upsert_cases:
  assumes "upsertAnnotation n anns = Inr anns'"
  obtains (added) sk where "enSourceKey (naEntry n) = Some sk" "\<forall>x\<in>set (allEntries anns). \<not> hasSourceKey sk x"
      "addAnnotation n anns = Inr anns'"
    | (refreshed) sk us a vs ps x qs where "enSourceKey (naEntry n) = Some sk"
      "anns = us @ a # vs" "\<forall>y\<in>set (allEntries us). \<not> hasSourceKey sk y"
      "anEntries a = ps @ x # qs" "\<forall>y\<in>set ps. \<not> hasSourceKey sk y" "hasSourceKey sk x"
      "anns' = us @ a\<lparr>anEntries := ps @ refreshEntry (naEntry n) x # qs\<rparr> # vs"
proof -
  from assms obtain sk where sk: "enSourceKey (naEntry n) = Some sk"
    by (auto simp: upsertAnnotation_def split: option.splits)
  let ?P = "\<lambda>a. list_ex (hasSourceKey sk) (anEntries a)"
  show ?thesis
  proof (cases "list_ex ?P anns")
    case False
    then show ?thesis
      using assms by (intro added [OF sk]) (auto simp: upsertAnnotation_def sk list_ex_iff allEntries_def)
  next
    case True
    then have "\<exists>a\<in>set anns. ?P a" by (simp add: list_ex_iff)
    from first_split [OF this] obtain us a vs where anns: "anns = us @ a # vs" "?P a" "\<forall>y\<in>set us. \<not> ?P y" .
    from anns(2) have "\<exists>x\<in>set (anEntries a). hasSourceKey sk x" by (simp add: list_ex_iff)
    from first_split [OF this] obtain ps x qs where
      x: "anEntries a = ps @ x # qs" "hasSourceKey sk x" "\<forall>y\<in>set ps. \<not> hasSourceKey sk y" .
    have "anns' = us @ a\<lparr>anEntries := ps @ refreshEntry (naEntry n) x # qs\<rparr> # vs"
      using assms anns x True
      by (simp add: upsertAnnotation_def sk updateFirst_at [where P = ?P] updateFirst_at [where P = "hasSourceKey sk"])
    then show ?thesis using anns x by (intro refreshed [OF sk anns(1)]) (auto simp: list_ex_iff allEntries_def)
  qed
qed

lemma refreshEntry_keeps [simp]:
  "enId (refreshEntry n x) = enId x" "enSourceKey (refreshEntry n x) = enSourceKey x"
  "refreshEntry n (refreshEntry n x) = refreshEntry n x" "refreshEntry n n = n"
  by (simp_all add: refreshEntry_def)

lemma hasSourceKey_refresh [simp]: "hasSourceKey sk (refreshEntry n x) = hasSourceKey sk x"
  by (simp add: hasSourceKey_def)

lemma upsert_wf:
  assumes "annsWf anns" "upsertAnnotation n anns = Inr anns'"
  shows "annsWf anns'"
  using assms(2)
proof (cases rule: upsert_cases)
  case (added sk)
  then show ?thesis using add_wf [OF assms(1)] by blast
next
  case (refreshed sk us a vs ps x qs)
  with assms(1) show ?thesis by (simp add: annsWf_def split: option.split)
qed

lemma deleteFrom_Some:
  "deleteFrom k anns = Some left \<Longrightarrow>
     \<exists>us a vs. anns = us @ a # vs \<and> k \<in> enId ` set (anEntries a) \<and> k \<notin> enId ` set (allEntries us)
       \<and> left = us @ (if filter (\<lambda>e. enId e \<noteq> k) (anEntries a) = [] then []
                      else [a\<lparr>anEntries := filter (\<lambda>e. enId e \<noteq> k) (anEntries a)\<rparr>]) @ vs"
proof (induction anns arbitrary: left)
  case (Cons a anns)
  show ?case
  proof (cases "list_ex (\<lambda>e. enId e = k) (anEntries a)")
    case True
    with Cons.prems show ?thesis
      by (intro exI [of _ "[]"] exI [of _ a] exI [of _ anns]) (auto simp: list_ex_iff Let_def)
  next
    case False
    with Cons.prems obtain l where l: "deleteFrom k anns = Some l" "left = a # l" by auto
    from Cons.IH [OF l(1)] obtain us b vs where "anns = us @ b # vs" "k \<in> enId ` set (anEntries b)"
      "k \<notin> enId ` set (allEntries us)"
      "l = us @ (if filter (\<lambda>e. enId e \<noteq> k) (anEntries b) = [] then []
                 else [b\<lparr>anEntries := filter (\<lambda>e. enId e \<noteq> k) (anEntries b)\<rparr>]) @ vs" by blast
    with l False show ?thesis
      by (intro exI [of _ "a # us"] exI [of _ b] exI [of _ vs]) (auto simp: list_ex_iff)
  qed
qed simp

lemma deleteFrom_None: "deleteFrom k anns = None \<longleftrightarrow> k \<notin> enId ` set (allEntries anns)"
  by (induction anns) (auto simp: list_ex_iff Let_def)

lemma deleteFrom_entries:
  assumes "distinct (map enId (allEntries anns))" "deleteFrom k anns = Some left"
  shows "allEntries left = filter (\<lambda>e. enId e \<noteq> k) (allEntries anns)"
proof -
  from deleteFrom_Some [OF assms(2)] obtain us a vs where s: "anns = us @ a # vs" "k \<in> enId ` set (anEntries a)"
    "k \<notin> enId ` set (allEntries us)"
    "left = us @ (if filter (\<lambda>e. enId e \<noteq> k) (anEntries a) = [] then []
                  else [a\<lparr>anEntries := filter (\<lambda>e. enId e \<noteq> k) (anEntries a)\<rparr>]) @ vs" by blast
  from assms(1) s(2) have "k \<notin> enId ` set (allEntries vs)" by (auto simp: s(1))
  with s(3) have "filter (\<lambda>e. enId e \<noteq> k) (allEntries us) = allEntries us"
    "filter (\<lambda>e. enId e \<noteq> k) (allEntries vs) = allEntries vs" by (auto simp: filter_id_conv)
  then show ?thesis by (simp add: s(1,4))
qed

lemma keysOf_filter: "distinct (keysOf (map f xs)) \<Longrightarrow> distinct (keysOf (map f (filter P xs)))"
  by (induction xs) (auto split: option.splits)

lemma delete_wf:
  assumes "annsWf anns" "deleteReviewComment k anns = Inr left"
  shows "annsWf left"
proof -
  from assms(2) have d: "deleteFrom k anns = Some left"
    by (auto simp: deleteReviewComment_def split: option.splits)
  have es: "allEntries left = filter (\<lambda>e. enId e \<noteq> k) (allEntries anns)"
    using deleteFrom_entries [OF _ d] assms(1) by (simp add: annsWf_def)
  from deleteFrom_Some [OF d] assms(1) have "distinct (map anId left)"
    "list_all (\<lambda>a. anEntries a \<noteq> [] \<and> ensureValidAnchor (anAnchor a) = None) left"
    by (auto simp: annsWf_def)
  with assms(1) show ?thesis
    by (simp add: annsWf_def es keysOf_filter distinct_map_filter)
qed

datatype annotationOp =
    AddOp newReviewAnnotation
  | UpsertOp newReviewAnnotation
  | ReplyOp string reviewEntry
  | DeleteOp string

fun annotationStep :: "annotationOp \<Rightarrow> reviewAnnotation list \<Rightarrow> reviewError + reviewAnnotation list" where
  "annotationStep (AddOp n) anns = addAnnotation n anns"
| "annotationStep (UpsertOp n) anns = upsertAnnotation n anns"
| "annotationStep (ReplyOp k e) anns = addReply k e anns"
| "annotationStep (DeleteOp k) anns = deleteReviewComment k anns"

text \<open>An operation that throws leaves the annotations as they were.\<close>

definition annotationRun :: "annotationOp list \<Rightarrow> reviewAnnotation list" where
  "annotationRun ops = foldl (\<lambda>anns op. case annotationStep op anns of Inl e \<Rightarrow> anns | Inr anns' \<Rightarrow> anns') [] ops"

lemma annotationStep_wf: "annsWf anns \<Longrightarrow> annotationStep op anns = Inr anns' \<Longrightarrow> annsWf anns'"
  by (cases op) (auto intro: add_wf upsert_wf reply_wf delete_wf)

text \<open>Whatever is added, imported, replied and deleted, successfully or not, a review's annotation
  IDs, entry IDs and import keys are unique, every annotation has an entry and its anchor is valid.\<close>

theorem review_identities: "annsWf (annotationRun ops)"
  unfolding annotationRun_def
  by (induction ops rule: rev_induct) (auto simp: annotationStep_wf split: sum.split, simp add: annsWf_def)

text \<open>Importing an annotation again changes nothing, and an import leaves one entry under its key
  that shows what was imported.\<close>

theorem import_converges:
  assumes "upsertAnnotation n anns = Inr anns'"
  shows "upsertAnnotation n anns' = Inr anns'
    \<and> (\<exists>e\<in>set (allEntries anns'). enSourceKey e = enSourceKey (naEntry n) \<and> enAuthor e = enAuthor (naEntry n)
         \<and> enBody e = enBody (naEntry n) \<and> enSourceUrl e = enSourceUrl (naEntry n))"
  using assms
proof (cases rule: upsert_cases)
  case (added sk)
  let ?a = "\<lparr>anId = naId n, anAnchor = naAnchor n, anEntries = [naEntry n]\<rparr>"
  let ?P = "\<lambda>a. list_ex (hasSourceKey sk) (anEntries a)"
  have "anns' = anns @ [?a]" using added(3) by (simp add: addAnnotation_Inr)
  moreover have "hasSourceKey sk (naEntry n)" using added(1) by (simp add: hasSourceKey_def)
  moreover have "\<forall>y\<in>set anns. \<not> ?P y" using added(2) by (auto simp: allEntries_def list_ex_iff)
  ultimately show ?thesis
    using added(1) by (simp add: upsertAnnotation_def updateFirst_at [where P = ?P])
next
  case (refreshed sk us a vs ps x qs)
  let ?P = "\<lambda>a. list_ex (hasSourceKey sk) (anEntries a)"
  have "\<forall>y\<in>set us. \<not> ?P y" using refreshed(3) by (auto simp: allEntries_def list_ex_iff)
  with refreshed show ?thesis
    by (simp add: upsertAnnotation_def updateFirst_at [where P = ?P] updateFirst_at [where P = "hasSourceKey sk"])
      (simp add: refreshEntry_def hasSourceKey_def)
qed

lemma deleteFrom_append:
  "k \<notin> enId ` set (allEntries anns) \<Longrightarrow> deleteFrom k (anns @ bs) = map_option ((@) anns) (deleteFrom k bs)"
proof (induction anns)
  case (Cons a anns)
  then have "\<not> list_ex (\<lambda>e. enId e = k) (anEntries a)" "k \<notin> enId ` set (allEntries anns)"
    by (auto simp: list_ex_iff)
  with Cons.IH show ?case by (simp add: option.map_comp comp_def)
qed (cases "deleteFrom k bs"; simp)

definition sampleAnchor :: reviewAnchor where
  "sampleAnchor = \<lparr>raPath = ''f'', raOldPath = None, raSide = NewSide, raStartLine = 1,
     raLines = [\<lparr>rlKind = Added, rlText = ''x''\<rparr>], raFileFingerprint = None,
     raFilePatch = ''diff --git a/f b/f'', raBaseRevision = None, raHeadRevision = None\<rparr>"

definition sampleAnnotation :: "string \<Rightarrow> string \<Rightarrow> string option \<Rightarrow> newReviewAnnotation" where
  "sampleAnnotation i e sk = \<lparr>naId = i, naAnchor = sampleAnchor,
     naEntry = \<lparr>enId = e, enAuthor = ''u'', enBody = ''b'', enCreatedAt = [], enSourceKey = sk, enSourceUrl = None\<rparr>\<rparr>"

lemma sampleAnchor_valid: "ensureValidAnchor sampleAnchor = None"
  by (simp add: ensureValidAnchor_def sampleAnchor_def newlineC_def returnC_def)

lemma import_converges_witness:
  "\<exists>anns'. upsertAnnotation (sampleAnnotation ''1'' ''2'' (Some ''k'')) [] = Inr anns'
     \<and> upsertAnnotation (sampleAnnotation ''1'' ''2'' (Some ''k'')) anns' = Inr anns'"
proof -
  have "\<exists>anns'. upsertAnnotation (sampleAnnotation ''1'' ''2'' (Some ''k'')) [] = Inr anns'"
    by (simp add: upsertAnnotation_def addAnnotation_def sampleAnnotation_def sampleAnchor_valid findIdentityCollision_def)
  then obtain anns' where a: "upsertAnnotation (sampleAnnotation ''1'' ''2'' (Some ''k'')) [] = Inr anns'" ..
  from import_converges [OF a] a show ?thesis by blast
qed

text \<open>Deleting a comment removes that entry and no other, and its annotation with it when it was the
  only one; a comment that is not in the review is an error; and deleting an annotation's comment
  right after adding it gives back the review as it was.\<close>

theorem delete_comment_exact:
  assumes "annsWf anns"
  shows "(case deleteReviewComment k anns of
            Inl err \<Rightarrow> k \<notin> enId ` set (allEntries anns)
          | Inr left \<Rightarrow> k \<in> enId ` set (allEntries anns)
              \<and> allEntries left = filter (\<lambda>e. enId e \<noteq> k) (allEntries anns) \<and> annsWf left)
    \<and> (case addAnnotation n anns of
            Inl err \<Rightarrow> True
          | Inr added \<Rightarrow> deleteReviewComment (enId (naEntry n)) added = Inr anns)"
proof
  show "case deleteReviewComment k anns of
            Inl err \<Rightarrow> k \<notin> enId ` set (allEntries anns)
          | Inr left \<Rightarrow> k \<in> enId ` set (allEntries anns)
              \<and> allEntries left = filter (\<lambda>e. enId e \<noteq> k) (allEntries anns) \<and> annsWf left"
  proof (cases "deleteFrom k anns")
    case None
    then have "k \<notin> enId ` set (allEntries anns)" by (simp add: deleteFrom_None)
    with None show ?thesis by (simp add: deleteReviewComment_def)
  next
    case (Some left)
    then have "deleteReviewComment k anns = Inr left" "k \<in> enId ` set (allEntries anns)"
      using deleteFrom_None [of k anns] by (auto simp: deleteReviewComment_def)
    moreover from this(1) have "annsWf left" by (rule delete_wf [OF assms])
    moreover have "distinct (map enId (allEntries anns))" using assms by (simp add: annsWf_def)
    from deleteFrom_entries [OF this Some] have "allEntries left = filter (\<lambda>e. enId e \<noteq> k) (allEntries anns)" .
    ultimately show ?thesis by simp
  qed
  show "case addAnnotation n anns of
            Inl err \<Rightarrow> True
          | Inr added \<Rightarrow> deleteReviewComment (enId (naEntry n)) added = Inr anns"
  proof (cases "addAnnotation n anns")
    case (Inr added)
    let ?a = "\<lparr>anId = naId n, anAnchor = naAnchor n, anEntries = [naEntry n]\<rparr>"
    from Inr have added: "added = anns @ [?a]" "enId (naEntry n) \<notin> enId ` set (allEntries anns)"
      using entry_new_keys(1) [of "allEntries anns" "naEntry n"] by (simp_all add: addAnnotation_Inr)
    have "deleteFrom (enId (naEntry n)) added = Some anns"
      using added(2) by (simp add: added(1) deleteFrom_append)
    then show ?thesis by (simp add: Inr deleteReviewComment_def)
  qed simp
qed

lemma delete_comment_exact_witness:
  "\<exists>added. addAnnotation (sampleAnnotation ''1'' ''2'' None) [] = Inr added
     \<and> deleteReviewComment ''2'' added = Inr []"
proof -
  have "annsWf []" by (simp add: annsWf_def)
  from delete_comment_exact [OF this, of "[]" "sampleAnnotation ''1'' ''2'' None"] show ?thesis
    by (simp add: addAnnotation_def sampleAnnotation_def sampleAnchor_valid findIdentityCollision_def)
qed

subsection \<open>Feedback\<close>

definition atLocation :: "locationKey \<Rightarrow> reviewAnnotation list \<Rightarrow> reviewAnnotation list" where
  "atLocation loc anns = filter (\<lambda>a. locationKey (anAnchor a) = loc) anns"

lemma reviewLocations_snoc: "reviewLocations (anns @ [a]) = addLocation (reviewLocations anns) a"
  by (simp add: reviewLocations_def)

lemma reviewLocations_wf: "jmWf (reviewLocations anns)"
  by (induction anns rule: rev_induct)
    (auto simp: reviewLocations_snoc addLocation_def split: option.split, simp add: reviewLocations_def)

text \<open>The feedback a submission sends has one section per place commented, and each section every
  entry of every annotation at its place, in order: no comment is left out or sent twice.\<close>

theorem feedback_sections:
  "jmWf (reviewLocations anns)
   \<and> jmGet (reviewLocations anns) loc =
       (case atLocation loc anns of [] \<Rightarrow> None
        | a # as \<Rightarrow> Some (anAnchor a, concat (map anEntries (a # as))))"
proof
  show "jmGet (reviewLocations anns) loc =
       (case atLocation loc anns of [] \<Rightarrow> None
        | a # as \<Rightarrow> Some (anAnchor a, concat (map anEntries (a # as))))"
  proof (induction anns rule: rev_induct)
    case Nil
    then show ?case by (simp add: reviewLocations_def atLocation_def)
  next
    case (snoc x anns)
    show ?case
    proof (cases "locationKey (anAnchor x) = loc")
      case False
      then have "jmGet (reviewLocations (anns @ [x])) loc = jmGet (reviewLocations anns) loc"
        by (auto simp: reviewLocations_snoc addLocation_def split: option.split)
      moreover from False have "atLocation loc (anns @ [x]) = atLocation loc anns" by (simp add: atLocation_def)
      ultimately show ?thesis using snoc.IH by simp
    next
      case True
      then have "atLocation loc (anns @ [x]) = atLocation loc anns @ [x]" by (simp add: atLocation_def)
      with True snoc.IH show ?thesis
        by (cases "atLocation loc anns") (auto simp: reviewLocations_snoc addLocation_def)
    qed
  qed
qed (rule reviewLocations_wf)

end
