(* ===== verification/Review_Store_Laws.thy ===== *)
theory Review_Store_Laws
  imports Review_Laws
begin

text \<open>
  The table of reviews as a versioned store, and what follows for the project operations and the
  submission: of copies loaded at one revision one can be saved; a command commits and is broadcast or
  changes nothing; there is one pending review per scope; a submission consumes a review only as sent.
\<close>

subsection \<open>Versioned stores\<close>

fun saveEach :: "('v \<Rightarrow> 's \<Rightarrow> ('e + 'v option) \<times> 's) \<Rightarrow> 'v list \<Rightarrow> 's \<Rightarrow> ('v \<times> ('e + 'v option)) list" where
  "saveEach save [] s = []"
| "saveEach save (v # vs) s = (v, fst (save v s)) # saveEach save vs (snd (save v s))"

fun wasSaved :: "'e + 'v option \<Rightarrow> bool" where
  "wasSaved (Inr (Some v)) = True"
| "wasSaved _ = False"

locale versioned_store =
  fixes load :: "'s \<Rightarrow> 'k \<Rightarrow> 'v option"
    and save :: "'v \<Rightarrow> 's \<Rightarrow> ('e + 'v option) \<times> 's"
    and identity :: "'v \<Rightarrow> 'k"
    and version :: "'v \<Rightarrow> nat"
  assumes save_missing: "load s (identity v) = None \<Longrightarrow> save v s = (Inr None, s)"
    and save_stale: "load s (identity v) = Some w \<Longrightarrow> version w \<noteq> version v \<Longrightarrow> \<exists>e. save v s = (Inl e, s)"
    and save_current: "load s (identity v) = Some w \<Longrightarrow> version w = version v \<Longrightarrow>
      \<exists>v' s'. save v s = (Inr (Some v'), s') \<and> load s' (identity v) = Some v' \<and> version v' = Suc (version v)
        \<and> (\<forall>k. k \<noteq> identity v \<longrightarrow> load s' k = load s k)"
begin

lemma saved_iff:
  "wasSaved (fst (save v s)) \<longleftrightarrow> (\<exists>w. load s (identity v) = Some w \<and> version w = version v)"
proof (cases "load s (identity v)")
  case None
  then show ?thesis by (simp add: save_missing)
next
  case (Some w)
  show ?thesis
  proof (cases "version w = version v")
    case True
    with save_current [OF Some] Some show ?thesis by auto
  next
    case False
    with save_stale [OF Some] Some show ?thesis by auto
  qed
qed

lemma version_grows:
  assumes "load s k = Some w"
  shows "\<exists>w'. load (snd (save v s)) k = Some w' \<and> version w \<le> version w'"
proof (cases "k = identity v")
  case False
  show ?thesis
  proof (cases "load s (identity v)")
    case None
    with assms show ?thesis by (simp add: save_missing)
  next
    case (Some u)
    with save_current [OF Some] save_stale [OF Some] assms False show ?thesis
      by (cases "version u = version v") auto
  qed
next
  case True
  with save_current [of s v w] save_stale [of s v w] assms show ?thesis
    by (cases "version w = version v") auto
qed

lemma version_used:
  assumes "wasSaved (fst (save v s))"
  shows "\<exists>w. load (snd (save v s)) (identity v) = Some w \<and> version v < version w"
proof -
  from assms obtain w where "load s (identity v) = Some w" "version w = version v" by (auto simp: saved_iff)
  from save_current [OF this] show ?thesis by auto
qed

lemma passed_version:
  assumes "load s k = Some w" "n < version w"
  shows "filter (\<lambda>r. identity (fst r) = k \<and> version (fst r) = n \<and> wasSaved (snd r)) (saveEach save vs s) = []"
  using assms
proof (induction vs arbitrary: s w)
  case (Cons v vs)
  from version_grows [OF Cons.prems(1), of v] Cons.prems(2)
  obtain w' where "load (snd (save v s)) k = Some w'" "n < version w'" by (auto dest: le_trans)
  from Cons.IH [OF this] Cons.prems show ?case by (auto simp: saved_iff)
qed simp

lemma saved_once:
  "length (filter (\<lambda>r. identity (fst r) = k \<and> version (fst r) = n \<and> wasSaved (snd r)) (saveEach save vs s)) \<le> 1"
proof (induction vs arbitrary: s)
  case (Cons v vs)
  show ?case
  proof (cases "identity v = k \<and> version v = n \<and> wasSaved (fst (save v s))")
    case True
    with version_used [of v s] obtain w where "load (snd (save v s)) k = Some w" "n < version w" by auto
    from passed_version [OF this] show ?thesis by simp
  next
    case False
    have "filter (\<lambda>r. identity (fst r) = k \<and> version (fst r) = n \<and> wasSaved (snd r)) (saveEach save (v # vs) s) =
          filter (\<lambda>r. identity (fst r) = k \<and> version (fst r) = n \<and> wasSaved (snd r)) (saveEach save vs (snd (save v s)))"
      using False by auto
    with Cons.IH [of "snd (save v s)"] show ?thesis by (simp del: saveEach.simps)
  qed
qed simp

end

subsection \<open>The table of reviews\<close>

lemma find_split:
  assumes "find P xs = Some x"
  obtains us vs where "xs = us @ x # vs" "P x" "\<forall>y\<in>set us. \<not> P y"
proof -
  from assms have "\<exists>x\<in>set xs. P x" using find_SomeD by metis
  from first_split [OF this] obtain us y vs where y: "xs = us @ y # vs" "P y" "\<forall>z\<in>set us. \<not> P z" .
  then have "find P xs = Some y" by (induction us arbitrary: xs) auto
  with assms y that show ?thesis by simp
qed

lemma find_append: "find P (xs @ ys) = (case find P xs of None \<Rightarrow> find P ys | Some x \<Rightarrow> Some x)"
  by (induction xs) auto

lemma getCodeReview_split:
  assumes "getCodeReview db k = Some r"
  obtains us vs where "dbReviews db = us @ r # vs" "crId r = k" "\<forall>y\<in>set us. crId y \<noteq> k"
  using find_split [OF assms [unfolded getCodeReview_def]] by blast

lemma getCodeReview_id: "getCodeReview db k = Some r \<Longrightarrow> crId r = k"
  by (elim getCodeReview_split)

definition savedRow :: "string \<Rightarrow> reviewAnnotation list \<Rightarrow> codeReview \<Rightarrow> codeReview" where
  "savedRow now anns row = row\<lparr>crAnnotations := anns, crRevision := Suc (crRevision row), crUpdatedAt := now\<rparr>"

lemma savedRow_simps [simp]:
  "crId (savedRow now anns r) = crId r" "crRevision (savedRow now anns r) = Suc (crRevision r)"
  "crProjectId (savedRow now anns r) = crProjectId r" "crTaskId (savedRow now anns r) = crTaskId r"
  "crAnnotations (savedRow now anns r) = anns"
  by (simp_all add: savedRow_def)

lemma saveCodeReview_current:
  assumes "getCodeReview db (crId v) = Some row" "crRevision row = crRevision v"
  shows "\<exists>us vs. dbReviews db = us @ row # vs
    \<and> saveCodeReview now v db = (Inr (Some (savedRow now (crAnnotations v) row)),
         db\<lparr>dbReviews := us @ savedRow now (crAnnotations v) row # vs\<rparr>)
    \<and> (\<forall>y\<in>set us. crId y \<noteq> crId row)"
proof -
  from assms(1) obtain us vs where s: "dbReviews db = us @ row # vs" "crId row = crId v" "\<forall>y\<in>set us. crId y \<noteq> crId v"
    by (rule getCodeReview_split)
  with assms show ?thesis
    by (auto simp: saveCodeReview_def savedRow_def Let_def updateFirst_at [where P = "\<lambda>r. crId r = crId v"])
qed

lemma getCodeReview_replaced:
  assumes "dbReviews db = us @ row # vs" "\<forall>y\<in>set us. crId y \<noteq> crId row" "crId row' = crId row"
  shows "getCodeReview (db\<lparr>dbReviews := us @ row' # vs\<rparr>) k = (if k = crId row then Some row' else getCodeReview db k)"
proof -
  have "find (\<lambda>r. crId r = crId row) us = None" using assms(2) by (simp add: find_None_iff)
  with assms show ?thesis by (auto simp: getCodeReview_def find_append split: option.split)
qed

interpretation review_table: versioned_store getCodeReview "saveCodeReview now" crId crRevision for now
proof
  show "saveCodeReview now v s = (Inr None, s)" if "getCodeReview s (crId v) = None" for s v
    using that by (simp add: saveCodeReview_def)
  show "\<exists>e. saveCodeReview now v s = (Inl e, s)"
    if "getCodeReview s (crId v) = Some w" "crRevision w \<noteq> crRevision v" for s v w
    using that by (simp add: saveCodeReview_def)
  show "\<exists>v' s'. saveCodeReview now v s = (Inr (Some v'), s') \<and> getCodeReview s' (crId v) = Some v'
      \<and> crRevision v' = Suc (crRevision v) \<and> (\<forall>k. k \<noteq> crId v \<longrightarrow> getCodeReview s' k = getCodeReview s k)"
    if "getCodeReview s (crId v) = Some w" "crRevision w = crRevision v" for s v w
    using saveCodeReview_current [OF that, of now] that getCodeReview_id [OF that(1)]
    by (auto simp: getCodeReview_replaced)
qed

text \<open>Of any number of copies of a review edited from the same revision, saved in any order among
  saves of other reviews and revisions, at most one is stored: an edit is never overwritten unseen.\<close>

theorem edits_not_overwritten:
  "length (filter (\<lambda>r. crId (fst r) = k \<and> crRevision (fst r) = n \<and> wasSaved (snd r))
      (saveEach (saveCodeReview now) reviews db)) \<le> 1"
  by (rule review_table.saved_once)

subsection \<open>Commands\<close>

definition reviewScope :: "codeReview \<Rightarrow> int \<times> int option" where
  "reviewScope r = (crProjectId r, crTaskId r)"

definition dbWf :: "reviewDb \<Rightarrow> bool" where
  "dbWf db = (distinct (map crId (dbReviews db)) \<and> distinct (map reviewScope (dbReviews db))
     \<and> list_all (\<lambda>r. annsWf (crAnnotations r)) (dbReviews db))"

lemma dbWf_get: "dbWf db \<Longrightarrow> r \<in> set (dbReviews db) \<Longrightarrow> getCodeReview db (crId r) = Some r"
proof -
  assume wf: "dbWf db" and r: "r \<in> set (dbReviews db)"
  then have "getCodeReview db (crId r) \<noteq> None" by (auto simp: getCodeReview_def find_None_iff)
  then obtain r' where r': "getCodeReview db (crId r) = Some r'" by blast
  then have "r' \<in> set (dbReviews db)" "crId r' = crId r" by (auto elim!: getCodeReview_split)
  with wf r have "r' = r" by (auto simp: dbWf_def distinct_map inj_on_def)
  with r' show ?thesis by simp
qed

text \<open>What a transaction's body does when it returns a review.\<close>

definition bodyEffect :: "int \<Rightarrow> int option \<Rightarrow> reviewDb \<Rightarrow> (reviewError + codeReview \<times> bool) \<times> reviewDb \<Rightarrow> bool" where
  "bodyEffect project task db r =
     (case fst r of
        Inl e \<Rightarrow> True
      | Inr (rv, created) \<Rightarrow>
          dbWf (snd r) \<and> reviewScope rv = (project, task) \<and> getCodeReview (snd r) (crId rv) = Some rv
          \<and> (\<forall>k. k \<noteq> crId rv \<longrightarrow> getCodeReview (snd r) k = getCodeReview db k)
          \<and> (case getCodeReview db (crId rv) of
                None \<Rightarrow> created \<and> crRevision rv = 1
              | Some r0 \<Rightarrow> \<not> created \<and> crRevision rv = Suc (crRevision r0)))"

lemma saveAnnotations_loaded:
  assumes "dbWf db" "getCodeReview db (crId r) = Some r" "annsWf anns"
  shows "fst (saveAnnotations now r anns db) = Inr (savedRow now anns r)"
    and "getCodeReview (snd (saveAnnotations now r anns db)) k =
           (if k = crId r then Some (savedRow now anns r) else getCodeReview db k)"
    and "dbWf (snd (saveAnnotations now r anns db))"
proof -
  from assms(2) have "getCodeReview db (crId (r\<lparr>crAnnotations := anns\<rparr>)) = Some r"
    "crRevision r = crRevision (r\<lparr>crAnnotations := anns\<rparr>)" by simp_all
  from saveCodeReview_current [OF this, of now] obtain us vs where s: "dbReviews db = us @ r # vs"
    "saveCodeReview now (r\<lparr>crAnnotations := anns\<rparr>) db =
       (Inr (Some (savedRow now anns r)), db\<lparr>dbReviews := us @ savedRow now anns r # vs\<rparr>)"
    "\<forall>y\<in>set us. crId y \<noteq> crId r" by auto
  then have eq: "saveAnnotations now r anns db = (Inr (savedRow now anns r), db\<lparr>dbReviews := us @ savedRow now anns r # vs\<rparr>)"
    by (simp add: saveAnnotations_def)
  then show "fst (saveAnnotations now r anns db) = Inr (savedRow now anns r)" by simp
  show "getCodeReview (snd (saveAnnotations now r anns db)) k =
           (if k = crId r then Some (savedRow now anns r) else getCodeReview db k)"
    by (simp add: eq getCodeReview_replaced [OF s(1,3)])
  show "dbWf (snd (saveAnnotations now r anns db))"
    using assms(1,3) by (simp add: eq dbWf_def s(1) reviewScope_def)
qed

lemma saveAnnotations_effect:
  assumes "dbWf db" "getCodeReview db (crId r) = Some r" "annsWf anns" "reviewScope r = (project, task)"
  shows "bodyEffect project task db
     (case saveAnnotations now r anns db of (Inl e, db') \<Rightarrow> (Inl e, db') | (Inr saved, db') \<Rightarrow> (Inr (saved, False), db'))"
  using saveAnnotations_loaded [OF assms(1-3), of now] assms(2,4)
  by (cases "saveAnnotations now r anns db") (simp add: bodyEffect_def reviewScope_def)

lemma getExpected_loaded:
  assumes "getExpected db project task ex = Inr r"
  shows "getCodeReview db (crId r) = Some r" "crId r = fst ex" "crRevision r = snd ex" "reviewScope r = (project, task)"
proof -
  from assms have get: "getCodeReview db (fst ex) = Some r" and r: "crRevision r = snd ex" "reviewScope r = (project, task)"
    by (auto simp: getExpected_def getReview_def expectRevision_def reviewScope_def
        split: sum.splits option.splits if_splits)
  from getCodeReview_id [OF get] get r show "getCodeReview db (crId r) = Some r" "crId r = fst ex"
    "crRevision r = snd ex" "reviewScope r = (project, task)" by simp_all
qed

lemma delete_effect:
  assumes "dbWf db"
  shows "bodyEffect project task db (deleteInTransaction now project task expected k db)"
proof (cases "getExpected db project task expected")
  case (Inl e)
  then show ?thesis by (simp add: deleteInTransaction_def bodyEffect_def)
next
  case (Inr r)
  note r = getExpected_loaded [OF Inr]
  show ?thesis
  proof (cases "deleteReviewComment k (crAnnotations r)")
    case (Inl e)
    then show ?thesis by (simp add: deleteInTransaction_def Inr bodyEffect_def)
  next
    case del: (Inr anns)
    have "annsWf (crAnnotations r)" using assms r(1) by (auto simp: dbWf_def elim!: getCodeReview_split)
    from saveAnnotations_effect [OF assms r(1) delete_wf [OF this del] r(4), of now] show ?thesis
      by (simp add: deleteInTransaction_def Inr del)
  qed
qed

lemma create_effect:
  assumes "dbWf db" "createCodeReview now newId project task db = (Inr r, db1)"
  shows "dbWf db1" "getCodeReview db1 (crId r) = Some r" "reviewScope r = (project, task)" "crRevision r = 0"
    "crAnnotations r = []" "getCodeReview db (crId r) = None" "k \<noteq> crId r \<Longrightarrow> getCodeReview db1 k = getCodeReview db k"
proof -
  let ?row = "\<lparr>crId = newId, crProjectId = project, crTaskId = task, crRevision = 0, crAnnotations = [],
                crCreatedAt = now, crUpdatedAt = now\<rparr>"
  from assms(2) have none: "getCodeReview db newId = None" "getOpenCodeReview db project task = None"
    and r: "r = ?row" "db1 = db\<lparr>dbReviews := dbReviews db @ [?row]\<rparr>"
    by (auto simp: createCodeReview_def Let_def split: if_splits)
  from none have "newId \<notin> crId ` set (dbReviews db)" "(project, task) \<notin> reviewScope ` set (dbReviews db)"
    by (auto simp: getCodeReview_def getOpenCodeReview_def find_None_iff reviewScope_def)
  with assms(1) show "dbWf db1" by (simp add: dbWf_def r reviewScope_def annsWf_def)
  show "getCodeReview db1 (crId r) = Some r" "reviewScope r = (project, task)" "crRevision r = 0"
    "crAnnotations r = []" "getCodeReview db (crId r) = None"
    using none by (simp_all add: r getCodeReview_def find_append reviewScope_def)
  show "k \<noteq> crId r \<Longrightarrow> getCodeReview db1 k = getCodeReview db k"
    by (auto simp: r getCodeReview_def find_append split: option.split)
qed

lemma resolve_effect:
  assumes "dbWf db" "resolveReview now newId project task expected db = (Inr (r, created), db1)"
  shows "dbWf db1" "getCodeReview db1 (crId r) = Some r" "reviewScope r = (project, task)"
    "k \<noteq> crId r \<Longrightarrow> getCodeReview db1 k = getCodeReview db k"
    "case getCodeReview db (crId r) of None \<Rightarrow> created \<and> crRevision r = 0 | Some r0 \<Rightarrow> \<not> created \<and> r0 = r"
proof -
  consider (old) "\<not> created" "db1 = db" "getCodeReview db (crId r) = Some r" "reviewScope r = (project, task)"
    | (new) "created" "createCodeReview now newId project task db = (Inr r, db1)"
  proof (cases expected)
    case (Some ex)
    with assms(2) have "getExpected db project task ex = Inr r" "\<not> created" "db1 = db"
      by (auto simp: resolveReview_def split: sum.splits)
    with getExpected_loaded [OF this(1)] old show thesis by blast
  next
    case None
    show thesis
    proof (cases "getOpenCodeReview db project task")
      case (Some r')
      with None assms(2) have "r' = r" "\<not> created" "db1 = db" by (auto simp: resolveReview_def)
      moreover from Some have "r' \<in> set (dbReviews db)" "reviewScope r' = (project, task)"
        unfolding getOpenCodeReview_def reviewScope_def using find_SomeD by fastforce+
      ultimately show thesis using old dbWf_get [OF assms(1)] by blast
    next
      case none: None
      with None assms(2) new show thesis
        by (auto simp: resolveReview_def split: prod.splits sum.splits)
    qed
  qed
  then have "dbWf db1 \<and> getCodeReview db1 (crId r) = Some r \<and> reviewScope r = (project, task)
      \<and> (\<forall>k. k \<noteq> crId r \<longrightarrow> getCodeReview db1 k = getCodeReview db k)
      \<and> (case getCodeReview db (crId r) of None \<Rightarrow> created \<and> crRevision r = 0 | Some r0 \<Rightarrow> \<not> created \<and> r0 = r)"
  proof cases
    case old
    with assms(1) show ?thesis by simp
  next
    case new
    with create_effect [OF assms(1) new(2)] show ?thesis by simp
  qed
  then show "dbWf db1" "getCodeReview db1 (crId r) = Some r" "reviewScope r = (project, task)"
    "k \<noteq> crId r \<Longrightarrow> getCodeReview db1 k = getCodeReview db k"
    "case getCodeReview db (crId r) of None \<Rightarrow> created \<and> crRevision r = 0 | Some r0 \<Rightarrow> \<not> created \<and> r0 = r" by simp_all
qed

lemma add_effect:
  assumes "dbWf db"
  shows "bodyEffect project task db (addInTransaction now newId project task expected ann db)"
proof (cases "resolveReview now newId project task expected db")
  case (Pair res db1)
  show ?thesis
  proof (cases res)
    case (Inl e)
    then show ?thesis by (simp add: addInTransaction_def Pair bodyEffect_def)
  next
    case (Inr rc)
    obtain r created where rc: "rc = (r, created)" by (cases rc)
    note r = resolve_effect [OF assms Pair [unfolded Inr rc]]
    show ?thesis
    proof (cases "addAnnotation ann (crAnnotations r)")
      case (Inl e)
      then show ?thesis by (simp add: addInTransaction_def Pair Inr rc bodyEffect_def)
    next
      case add: (Inr anns)
      have "annsWf (crAnnotations r)" using r(1,2) by (auto simp: dbWf_def elim!: getCodeReview_split)
      note save = saveAnnotations_loaded [OF r(1,2) add_wf [OF this add], of now]
      obtain db2 where sv: "saveAnnotations now r anns db1 = (Inr (savedRow now anns r), db2)"
        using save(1) by (cases "saveAnnotations now r anns db1") auto
      have "addInTransaction now newId project task expected ann db = (Inr (savedRow now anns r, created), db2)"
        by (simp add: addInTransaction_def Pair Inr rc add sv)
      with save(2,3) r(3-5) show ?thesis
        by (cases "getCodeReview db (crId r)") (simp_all add: bodyEffect_def reviewScope_def sv)
    qed
  qed
qed

text \<open>What a command does: it throws and changes nothing, or its review is stored and broadcast.\<close>

definition broadcastOf :: "codeReview \<Rightarrow> reviewBroadcast" where
  "broadcastOf r = \<lparr>rbProjectId = crProjectId r, rbTaskId = crTaskId r, rbReviewId = crId r, rbRevision = crRevision r\<rparr>"

definition commandEffect ::
  "int \<Rightarrow> int option \<Rightarrow> reviewsState \<Rightarrow> (reviewError + codeReview \<times> bool) \<times> reviewsState \<Rightarrow> bool" where
  "commandEffect project task st r =
     (case fst r of
        Inl e \<Rightarrow> snd r = st
      | Inr (rv, created) \<Rightarrow>
          rvBroadcasts (snd r) = rvBroadcasts st @ [broadcastOf rv]
          \<and> bodyEffect project task (rvDb st) (fst r, rvDb (snd r)))"

lemma transact_effect:
  assumes "bodyEffect project task (rvDb st) (body (rvDb st))"
  shows "commandEffect project task st (transact body st)"
proof (cases "body (rvDb st)")
  case (Pair res db')
  show ?thesis
  proof (cases res)
    case (Inl e)
    then show ?thesis by (simp add: transact_def Pair commandEffect_def)
  next
    case (Inr rc)
    with assms show ?thesis by (cases rc) (simp add: transact_def Pair commandEffect_def broadcastOf_def)
  qed
qed

lemma addReviewAnnotation_effect:
  "dbWf (rvDb st) \<Longrightarrow> commandEffect project task st (addReviewAnnotation now newId project task expected ann st)"
  by (cases "ensureScope (rvDb st) project task")
    (simp_all add: addReviewAnnotation_def transact_effect add_effect, simp add: commandEffect_def)

lemma addReviewComment_effect:
  "dbWf (rvDb st) \<Longrightarrow> commandEffect project task st (addReviewComment sha now ids author project task expected comment st)"
  by (auto simp: addReviewComment_def Let_def case_prod_beta addReviewAnnotation_effect split: sum.split)
    (simp_all add: commandEffect_def)

lemma deleteComment_effect:
  "dbWf (rvDb st) \<Longrightarrow> commandEffect project task st (deleteComment now project task expected k st)"
  by (simp add: deleteComment_def transact_effect delete_effect)

datatype reviewOp =
    AnnotateOp string string int "int option" "expectedReview option" newReviewAnnotation
  | CommentOp string "string \<times> string \<times> string" string int "int option" "expectedReview option" newReviewComment
  | RemoveOp string int "int option" expectedReview string
  | SubmittedOp codeReview
  | DiscardOp string

fun reviewStep :: "(string \<Rightarrow> string) \<Rightarrow> reviewsState \<Rightarrow> reviewOp \<Rightarrow> reviewsState" where
  "reviewStep sha st (AnnotateOp now newId project task expected ann) =
     snd (addReviewAnnotation now newId project task expected ann st)"
| "reviewStep sha st (CommentOp now ids author project task expected comment) =
     snd (addReviewComment sha now ids author project task expected comment st)"
| "reviewStep sha st (RemoveOp now project task expected k) = snd (deleteComment now project task expected k st)"
| "reviewStep sha st (SubmittedOp review) = snd (submitAccept review st)"
| "reviewStep sha st (DiscardOp k) = st\<lparr>rvDb := snd (deleteCodeReview k (rvDb st))\<rparr>"

definition reviewRun :: "(string \<Rightarrow> string) \<Rightarrow> reviewsState \<Rightarrow> reviewOp list \<Rightarrow> reviewsState" where
  "reviewRun sha st ops = foldl (reviewStep sha) st ops"

definition emptyReviews :: "(int \<times> int) list \<Rightarrow> int list \<Rightarrow> reviewsState" where
  "emptyReviews tasks projects = \<lparr>rvDb = \<lparr>dbReviews = [], dbTasks = tasks, dbProjects = projects\<rparr>, rvBroadcasts = []\<rparr>"

lemma commandEffect_wf: "dbWf (rvDb st) \<Longrightarrow> commandEffect project task st r \<Longrightarrow> dbWf (rvDb (snd r))"
  by (auto simp: commandEffect_def bodyEffect_def split: sum.splits)

lemma removed_wf: "dbWf db \<Longrightarrow> dbWf (db\<lparr>dbReviews := filter P (dbReviews db)\<rparr>)"
  by (simp add: dbWf_def distinct_map_filter list_all_iff)

lemma submitAccept_wf: "dbWf (rvDb st) \<Longrightarrow> dbWf (rvDb (snd (submitAccept review st)))"
  by (simp add: submitAccept_def acceptCodeReviewSubmission_def removed_wf split: option.split)

lemma reviewStep_wf: "dbWf (rvDb st) \<Longrightarrow> dbWf (rvDb (reviewStep sha st op))"
  by (cases op)
    (auto simp: submitAccept_wf deleteCodeReview_def removed_wf
      intro: commandEffect_wf addReviewAnnotation_effect addReviewComment_effect deleteComment_effect)

lemma reviewRun_wf: "dbWf (rvDb st) \<Longrightarrow> dbWf (rvDb (reviewRun sha st ops))"
  unfolding reviewRun_def by (induction ops arbitrary: st) (simp_all add: reviewStep_wf)

lemma emptyReviews_wf: "dbWf (rvDb (emptyReviews tasks projects))"
  by (simp add: emptyReviews_def dbWf_def)

text \<open>Whatever commands run, a project or task never has two pending reviews, no two reviews share an
  ID and every stored review keeps its identities unique.\<close>

theorem one_pending_review: "dbWf (rvDb (reviewRun sha (emptyReviews tasks projects) ops))"
  by (rule reviewRun_wf [OF emptyReviews_wf])

text \<open>A command throws and leaves the table and the broadcasts as they were, or its review, in the
  scope asked for and one revision on, is the one stored, no other review changes and exactly it is
  broadcast.\<close>

theorem command_commits_or_nothing:
  "let st = reviewRun sha (emptyReviews tasks projects) ops in
     commandEffect project task st (addReviewAnnotation now newId project task expected ann st)
     \<and> commandEffect project task st (addReviewComment sha now ids author project task expected comment st)
     \<and> commandEffect project task st (deleteComment now project task ex k st)"
  by (simp add: Let_def addReviewAnnotation_effect addReviewComment_effect
      deleteComment_effect reviewRun_wf [OF emptyReviews_wf])

subsection \<open>Submission\<close>

fun createsId :: "string \<Rightarrow> reviewOp \<Rightarrow> bool" where
  "createsId k (AnnotateOp now newId project task expected ann) = (newId = k)"
| "createsId k (CommentOp now ids author project task expected comment) = (snd (snd ids) = k)"
| "createsId k _ = False"

lemma created_id:
  assumes "addInTransaction now newId project task expected ann db = (Inr (rv, True), db')"
  shows "crId rv = newId"
proof -
  from assms obtain r db1 where r: "resolveReview now newId project task expected db = (Inr (r, True), db1)"
    and save: "\<exists>anns. saveAnnotations now r anns db1 = (Inr rv, db')"
    by (auto simp: addInTransaction_def split: prod.splits sum.splits)
  from save obtain anns where anns: "saveAnnotations now r anns db1 = (Inr rv, db')" ..
  then have "fst (saveCodeReview now (r\<lparr>crAnnotations := anns\<rparr>) db1) = Inr (Some rv)"
    by (cases "saveCodeReview now (r\<lparr>crAnnotations := anns\<rparr>) db1")
      (auto simp: saveAnnotations_def split: sum.splits option.splits)
  then have same: "crId rv = crId r"
    by (auto simp: saveCodeReview_def Let_def split: option.splits if_splits dest: getCodeReview_id)
  from r have "crId r = newId"
    by (auto simp: resolveReview_def createCodeReview_def Let_def split: option.splits sum.splits prod.splits if_splits)
  with same show ?thesis by simp
qed

text \<open>A review with the ID \<open>k\<close>: gone, the same, or at a later revision.\<close>

definition movedOn :: "codeReview option \<Rightarrow> codeReview option \<Rightarrow> bool" where
  "movedOn a b =
     (case (a, b) of (_, None) \<Rightarrow> True | (None, Some r') \<Rightarrow> False
      | (Some r, Some r') \<Rightarrow> r' = r \<or> crRevision r < crRevision r')"

lemma movedOn_refl [simp]: "movedOn a a"
  by (simp add: movedOn_def split: option.split)

lemma movedOn_trans: "movedOn a b \<Longrightarrow> movedOn b c \<Longrightarrow> movedOn a c"
  by (auto simp: movedOn_def split: option.splits)

lemma command_moves_on:
  assumes "commandEffect project task st r"
    and "\<And>rv. fst r = Inr (rv, True) \<Longrightarrow> crId rv \<noteq> k"
  shows "movedOn (getCodeReview (rvDb st) k) (getCodeReview (rvDb (snd r)) k)"
proof (cases "fst r")
  case (Inl e)
  with assms(1) show ?thesis by (simp add: commandEffect_def)
next
  case (Inr rc)
  obtain rv created where rc: "rc = (rv, created)" by (cases rc)
  from assms(1) have e: "getCodeReview (rvDb (snd r)) (crId rv) = Some rv"
    "k \<noteq> crId rv \<Longrightarrow> getCodeReview (rvDb (snd r)) k = getCodeReview (rvDb st) k"
    "case getCodeReview (rvDb st) (crId rv) of None \<Rightarrow> created \<and> crRevision rv = 1
     | Some r0 \<Rightarrow> \<not> created \<and> crRevision rv = Suc (crRevision r0)"
    by (auto simp: commandEffect_def bodyEffect_def Inr rc)
  show ?thesis
  proof (cases "k = crId rv")
    case False
    then show ?thesis by (simp add: e(2))
  next
    case True
    with assms(2) [of rv] e(1,3) show ?thesis
      by (cases "getCodeReview (rvDb st) (crId rv)") (auto simp: Inr rc movedOn_def)
  qed
qed

lemma addReviewAnnotation_created:
  "fst (addReviewAnnotation now newId project task expected ann st) = Inr (rv, True) \<Longrightarrow> crId rv = newId"
  by (auto simp: addReviewAnnotation_def transact_def split: option.splits prod.splits sum.splits dest: created_id)

lemma getCodeReview_removed:
  "getCodeReview (db\<lparr>dbReviews := filter (\<lambda>r. crId r \<noteq> j) (dbReviews db)\<rparr>) k =
     (if k = j then None else getCodeReview db k)"
proof -
  have "find (\<lambda>r. crId r = k) (filter (\<lambda>r. crId r \<noteq> j) rs) = (if k = j then None else find (\<lambda>r. crId r = k) rs)" for rs
    by (induction rs) auto
  from this [of "dbReviews db"] show ?thesis by (simp add: getCodeReview_def)
qed

lemma reviewStep_moves_on:
  assumes "dbWf (rvDb st)" "\<not> createsId k op"
  shows "movedOn (getCodeReview (rvDb st) k) (getCodeReview (rvDb (reviewStep sha st op)) k)"
proof (cases op)
  case (AnnotateOp now newId project task expected ann)
  have "movedOn (getCodeReview (rvDb st) k)
      (getCodeReview (rvDb (snd (addReviewAnnotation now newId project task expected ann st))) k)"
    by (rule command_moves_on [OF addReviewAnnotation_effect [OF assms(1)]])
      (use assms(2) AnnotateOp in \<open>auto dest: addReviewAnnotation_created\<close>)
  then show ?thesis by (simp add: AnnotateOp)
next
  case (CommentOp now ids author project task expected comment)
  have new: "crId rv = snd (snd ids)"
    if "fst (addReviewComment sha now ids author project task expected comment st) = Inr (rv, True)" for rv
    using that by (auto simp: addReviewComment_def Let_def case_prod_beta split: if_splits sum.splits
        dest: addReviewAnnotation_created)
  have "movedOn (getCodeReview (rvDb st) k)
      (getCodeReview (rvDb (snd (addReviewComment sha now ids author project task expected comment st))) k)"
    by (rule command_moves_on [OF addReviewComment_effect [OF assms(1)]])
      (use assms(2) CommentOp new in auto)
  then show ?thesis by (simp add: CommentOp)
next
  case (RemoveOp now project task expected j)
  have "fst (deleteComment now project task expected j st) \<noteq> Inr (rv, True)" for rv
    by (auto simp: deleteComment_def transact_def deleteInTransaction_def split: prod.splits sum.splits)
  with command_moves_on [OF deleteComment_effect [OF assms(1)], of now project task expected j k]
  show ?thesis by (simp add: RemoveOp)
next
  case (SubmittedOp review)
  then show ?thesis
    by (auto simp: submitAccept_def acceptCodeReviewSubmission_def getCodeReview_removed movedOn_def
        split: option.split)
next
  case (DiscardOp j)
  then show ?thesis by (simp add: deleteCodeReview_def getCodeReview_removed movedOn_def split: option.split)
qed

lemma reviewRun_moves_on:
  "dbWf (rvDb st) \<Longrightarrow> list_all (\<lambda>op. \<not> createsId k op) ops \<Longrightarrow>
     movedOn (getCodeReview (rvDb st) k) (getCodeReview (rvDb (reviewRun sha st ops)) k)"
  unfolding reviewRun_def
proof (induction ops arbitrary: st)
  case (Cons op ops)
  from Cons.prems have "movedOn (getCodeReview (rvDb st) k) (getCodeReview (rvDb (reviewStep sha st op)) k)"
    by (simp add: reviewStep_moves_on)
  moreover from Cons.IH [OF reviewStep_wf [OF Cons.prems(1)]] Cons.prems(2)
  have "movedOn (getCodeReview (rvDb (reviewStep sha st op)) k)
          (getCodeReview (rvDb (foldl (reviewStep sha) (reviewStep sha st op) ops)) k)" by simp
  ultimately show ?case by (auto intro: movedOn_trans)
qed simp

text \<open>C7: A submission consumes only what it sent: whatever is commented, deleted or submitted while the
  session admits the prompt, if the review is then consumed it still is exactly the review whose
  feedback was sent, and it alone leaves the table.\<close>

theorem submission_consumes_what_it_sent:
  assumes "submitPrepare sessionScope (rvDb (reviewRun sha (emptyReviews tasks projects) before)) project task rid revision sid
             = Inr (review, text, key')"
    and "list_all (\<lambda>op. \<not> createsId (crId review) op) during"
    and "submitAccept review (reviewRun sha (reviewRun sha (emptyReviews tasks projects) before) during) = (None, st')"
  shows "text = compileFeedback (crAnnotations review) \<and> sessionScope sid = Some (reviewScope review)
    \<and> getCodeReview (rvDb (reviewRun sha (reviewRun sha (emptyReviews tasks projects) before) during)) (crId review) = Some review
    \<and> getCodeReview (rvDb st') k =
        (if k = crId review then None
         else getCodeReview (rvDb (reviewRun sha (reviewRun sha (emptyReviews tasks projects) before) during)) k)"
proof -
  let ?start = "reviewRun sha (emptyReviews tasks projects) before"
  let ?later = "reviewRun sha ?start during"
  from assms(1) have ex: "getExpected (rvDb ?start) project task (rid, revision) = Inr review"
    and sent: "text = compileFeedback (crAnnotations review)" "sessionScope sid = Some (project, task)"
    by (auto simp: submitPrepare_def split: sum.splits if_splits)
  note loaded = getExpected_loaded [OF ex]
  from assms(3) obtain row where row: "getCodeReview (rvDb ?later) (crId review) = Some row" "crRevision row = crRevision review"
    and st': "rvDb st' = (rvDb ?later)\<lparr>dbReviews := filter (\<lambda>r. crId r \<noteq> crId review) (dbReviews (rvDb ?later))\<rparr>"
    by (auto simp: submitAccept_def acceptCodeReviewSubmission_def split: option.splits if_splits)
  have "movedOn (Some review) (Some row)"
    using reviewRun_moves_on [OF reviewRun_wf [OF emptyReviews_wf] assms(2)] loaded(1) row(1) by metis
  with row(2) have "row = review" by (simp add: movedOn_def)
  with sent loaded(4) row(1) show ?thesis by (simp add: st' getCodeReview_removed)
qed

definition sampleOp :: "string \<Rightarrow> string \<Rightarrow> reviewOp" where
  "sampleOp newId e = AnnotateOp ''now'' newId 1 None None (sampleAnnotation e e None)"

definition sampleRow :: codeReview where
  "sampleRow = \<lparr>crId = ''r'', crProjectId = 1, crTaskId = None, crRevision = 1,
     crAnnotations = [\<lparr>anId = ''e'', anAnchor = sampleAnchor, anEntries = [naEntry (sampleAnnotation ''e'' ''e'' None)]\<rparr>],
     crCreatedAt = ''now'', crUpdatedAt = ''now''\<rparr>"

lemma sample_run: "rvDb (reviewRun sha (emptyReviews [] [1]) [sampleOp ''r'' ''e'']) = \<lparr>dbReviews = [sampleRow], dbTasks = [], dbProjects = [1]\<rparr>"
  by (simp add: reviewRun_def sampleOp_def emptyReviews_def addReviewAnnotation_def ensureScope_def transact_def
      addInTransaction_def resolveReview_def getOpenCodeReview_def createCodeReview_def getCodeReview_def Let_def
      addAnnotation_def sampleAnchor_valid findIdentityCollision_def saveAnnotations_def saveCodeReview_def
      sampleAnnotation_def sampleRow_def)

lemma submission_consumes_what_it_sent_witness:
  "\<exists>st'. submitAccept sampleRow (reviewRun id (reviewRun id (emptyReviews [] [1]) [sampleOp ''r'' ''e'']) []) = (None, st')
     \<and> getCodeReview (rvDb st') ''r'' = None"
proof -
  let ?st = "reviewRun id (emptyReviews [] [1]) [sampleOp ''r'' ''e'']"
  have run: "reviewRun id ?st [] = ?st" by (simp add: reviewRun_def)
  have get: "getCodeReview (rvDb ?st) ''r'' = Some sampleRow"
    by (simp add: sample_run getCodeReview_def sampleRow_def)
  have "\<exists>feedback mid. submitPrepare (\<lambda>_. Some (1, None)) (rvDb ?st) 1 None ''r'' 1 ''s'' = Inr (sampleRow, feedback, mid)"
    using get by (simp add: submitPrepare_def getExpected_def getReview_def ensureScope_def expectRevision_def sampleRow_def)
  then obtain feedback mid where p: "submitPrepare (\<lambda>_. Some (1, None)) (rvDb ?st) 1 None ''r'' 1 ''s'' = Inr (sampleRow, feedback, mid)"
    by blast
  have "\<exists>st'. submitAccept sampleRow (reviewRun id ?st []) = (None, st')"
    using get by (simp add: run submitAccept_def acceptCodeReviewSubmission_def sampleRow_def)
  then obtain st' where a: "submitAccept sampleRow (reviewRun id ?st []) = (None, st')" ..
  from submission_consumes_what_it_sent [OF p _ a, of "''r''"] have "getCodeReview (rvDb st') ''r'' = None"
    by (simp add: sampleRow_def)
  with a show ?thesis by blast
qed

end
