(* ===== verification/Ndjson_Socket.thy ===== *)
theory Ndjson_Socket
  imports Reins_Prelude "HOL-Library.Word" "HOL-Library.Sublist"
begin

text \<open>
  The NDJSON socket of \<^verbatim>\<open>packages/node-protocol/src/local-socket.ts\<close>: UTF-8 frames ended by a newline over a
  byte stream that may accept part of what it is given. A text is the list of its code points (\<open>JSON\<close>
  text has no lone surrogate), a byte a \<open>8 word\<close>. The codec is an argument of the socket's operations,
  \<open>utf8Encode\<close> and \<open>utf8Decode\<close> are the one the code uses (\<open>TextEncoder\<close>, and \<open>TextDecoder\<close> with
  \<open>fatal\<close>). The stream's answers to the writes of an operation are a list; a write it does not answer
  accepts nothing. The owner's \<open>onmessage\<close> is a function of the owner's state that may close the socket.
\<close>

type_synonym byte = "8 word"

subsection \<open>UTF-8\<close>

definition scalar :: "nat \<Rightarrow> bool" where
  "scalar n = (n < 0xD800 \<or> (0xE000 \<le> n \<and> n < 0x110000))"

definition encodeCp :: "nat \<Rightarrow> nat list" where
  "encodeCp n =
     (if n < 0x80 then [n]
      else if n < 0x800 then [0xC0 + n div 64, 0x80 + n mod 64]
      else if n < 0x10000 then [0xE0 + n div 4096, 0x80 + n div 64 mod 64, 0x80 + n mod 64]
      else [0xF0 + n div 262144, 0x80 + n div 4096 mod 64, 0x80 + n div 64 mod 64, 0x80 + n mod 64])"

definition contByte :: "nat \<Rightarrow> bool" where
  "contByte b = (0x80 \<le> b \<and> b < 0xC0)"

fun decodeCps :: "nat list \<Rightarrow> nat list option" where
  "decodeCps [] = Some []"
| "decodeCps (b # bs) =
     (if b < 0x80 then map_option ((#) b) (decodeCps bs)
      else if 0xC2 \<le> b \<and> b < 0xE0 then
        (case bs of c # r \<Rightarrow>
           if contByte c then map_option ((#) ((b - 0xC0) * 64 + (c - 0x80))) (decodeCps r) else None
         | _ \<Rightarrow> None)
      else if 0xE0 \<le> b \<and> b < 0xF0 then
        (case bs of c # d # r \<Rightarrow>
           (let n = (b - 0xE0) * 4096 + (c - 0x80) * 64 + (d - 0x80)
            in if contByte c \<and> contByte d \<and> 0x800 \<le> n \<and> scalar n then map_option ((#) n) (decodeCps r) else None)
         | _ \<Rightarrow> None)
      else if 0xF0 \<le> b \<and> b < 0xF5 then
        (case bs of c # d # e # r \<Rightarrow>
           (let n = (b - 0xF0) * 262144 + (c - 0x80) * 4096 + (d - 0x80) * 64 + (e - 0x80)
            in if contByte c \<and> contByte d \<and> contByte e \<and> 0x10000 \<le> n \<and> scalar n
               then map_option ((#) n) (decodeCps r) else None)
         | _ \<Rightarrow> None)
      else None)"

definition utf8Encode :: "nat list \<Rightarrow> byte list" where
  "utf8Encode cps = map of_nat (concat (map encodeCp cps))"

definition utf8Decode :: "byte list \<Rightarrow> nat list option" where
  "utf8Decode bs = decodeCps (map unat bs)"

subsection \<open>The socket\<close>

definition newlineByte :: byte where
  "newlineByte = 0x0a"

datatype writeAnswer = Accepts nat | StreamGone

record ndSocket =
  ndClosed :: bool
  ndParts :: "byte list"
  ndQueue :: "byte list list"
  ndQueuedBytes :: nat
  ndWaiters :: nat
  ndEnds :: nat
  ndOncloses :: nat

definition openSocket :: ndSocket where
  "openSocket = \<lparr>ndClosed = False, ndParts = [], ndQueue = [], ndQueuedBytes = 0, ndWaiters = 0, ndEnds = 0, ndOncloses = 0\<rparr>"

text \<open>\<open>shut\<close>: it ends the stream and has \<open>onclose\<close> called, once.\<close>

definition ndShut :: "ndSocket \<Rightarrow> ndSocket" where
  "ndShut s =
     (if ndClosed s then s
      else \<lparr>ndClosed = True, ndParts = [], ndQueue = [], ndQueuedBytes = 0, ndWaiters = 0,
            ndEnds = Suc (ndEnds s), ndOncloses = Suc (ndOncloses s)\<rparr>)"

text \<open>Writes the queue: the bytes the stream accepted, and the socket after.\<close>

fun ndFlush :: "ndSocket \<Rightarrow> writeAnswer list \<Rightarrow> byte list \<times> ndSocket" where
  "ndFlush s answers =
     (case ndQueue s of
        [] \<Rightarrow> ([], s\<lparr>ndWaiters := 0\<rparr>)
      | head # rest \<Rightarrow>
          (if ndClosed s then ([], s)
           else case answers of
             [] \<Rightarrow> ([], s)
           | StreamGone # _ \<Rightarrow> ([], ndShut s)
           | Accepts n # later \<Rightarrow>
               (let written = min n (length head); s' = s\<lparr>ndQueuedBytes := ndQueuedBytes s - written\<rparr>
                in if written < length head
                   then (take written head, s'\<lparr>ndQueue := drop written head # rest\<rparr>)
                   else (let (bs, s'') = ndFlush (s'\<lparr>ndQueue := rest\<rparr>) later in (head @ bs, s'')))))"

declare ndFlush.simps [simp del]

datatype sendError = SendClosed | SendNewline | SendTooLarge

definition frameBytes :: "('t \<Rightarrow> byte list) \<Rightarrow> 't \<Rightarrow> byte list" where
  "frameBytes encode t = encode t @ [newlineByte]"

definition ndSend ::
  "('t \<Rightarrow> byte list) \<Rightarrow> ('t \<Rightarrow> bool) \<Rightarrow> nat \<Rightarrow> ndSocket \<Rightarrow> 't \<Rightarrow> writeAnswer list \<Rightarrow> sendError + byte list \<times> ndSocket" where
  "ndSend encode hasNewline maxFrameBytes s t answers =
     (if ndClosed s then Inl SendClosed
      else if hasNewline t then Inl SendNewline
      else let bytes = frameBytes encode t
           in if length bytes - 1 > maxFrameBytes then Inl SendTooLarge
              else let s' = s\<lparr>ndQueue := ndQueue s @ [bytes], ndQueuedBytes := ndQueuedBytes s + length bytes\<rparr>
                   in Inr (if length (ndQueue s') = 1 then ndFlush s' answers else ([], s')))"

text \<open>\<open>drained\<close>: whether its promise is resolved at once, else one more waits.\<close>

definition ndDrained :: "ndSocket \<Rightarrow> bool \<times> ndSocket" where
  "ndDrained s = (if ndClosed s \<or> ndQueue s = [] then (True, s) else (False, s\<lparr>ndWaiters := Suc (ndWaiters s)\<rparr>))"

lemma tl_dropWhile_shorter: "xs \<noteq> [] \<Longrightarrow> length (tl (dropWhile P xs)) < length xs"
  using length_dropWhile_le [of P xs] by (cases xs) auto

function ndReceive ::
  "(byte list \<Rightarrow> 't option) \<Rightarrow> nat \<Rightarrow> ('o \<Rightarrow> 't \<Rightarrow> 'o \<times> bool) \<Rightarrow> ndSocket \<Rightarrow> 'o \<Rightarrow> byte list \<Rightarrow> ndSocket \<times> 'o" where
  "ndReceive decode maxFrameBytes onmessage s owner chunk =
     (if ndClosed s \<or> chunk = [] then (s, owner)
      else let piece = takeWhile (\<lambda>b. b \<noteq> newlineByte) chunk; rest = dropWhile (\<lambda>b. b \<noteq> newlineByte) chunk
           in if length (ndParts s) + length piece > maxFrameBytes then (ndShut s, owner)
              else if rest = [] then (s\<lparr>ndParts := ndParts s @ piece\<rparr>, owner)
              else (case decode (ndParts s @ piece) of
                      None \<Rightarrow> (ndShut s, owner)
                    | Some t \<Rightarrow>
                        (let (owner', closes) = onmessage owner t; s1 = s\<lparr>ndParts := []\<rparr>
                         in ndReceive decode maxFrameBytes onmessage (if closes then ndShut s1 else s1) owner' (tl rest))))"
  by pat_completeness auto
termination
  by (relation "measure (\<lambda>(decode, m, f, s, owner, chunk). length chunk)") (simp_all add: tl_dropWhile_shorter del: length_tl)

declare ndReceive.simps [simp del]

end
