(* ===== verification/Ndjson_Laws.thy ===== *)
theory Ndjson_Laws
  imports Ndjson_Socket
begin

text \<open>
  The link is faithful: UTF-8 round-trips, a receiver sees the same frames however the byte stream is cut,
  and what arrives at the other end is what was sent, in order. The codec's laws are the locale
  \<open>frame_codec\<close>; UTF-8 is its interpretation.
\<close>

subsection \<open>UTF-8\<close>

lemma cont_mod [simp]: "contByte (0x80 + n mod 64)"
proof -
  have "n mod 64 < 64" by simp
  then have "128 + n mod 64 < 192" by linarith
  then show ?thesis by (simp add: contByte_def)
qed

lemma join2: "(n div 64) * 64 + n mod 64 = (n::nat)"
  by simp

lemma join3: "(n div 4096) * 4096 + (n div 64 mod 64) * 64 + n mod 64 = (n::nat)"
proof -
  have "n div 64 = (n div 64 div 64) * 64 + n div 64 mod 64" by simp
  moreover have "n div 64 div 64 = n div 4096" by (simp add: div_mult2_eq [symmetric])
  moreover have "n = (n div 64) * 64 + n mod 64" by simp
  ultimately show ?thesis by linarith
qed

lemma join4: "(n div 262144) * 262144 + (n div 4096 mod 64) * 4096 + (n div 64 mod 64) * 64 + n mod 64 = (n::nat)"
proof -
  have "n div 4096 = (n div 4096 div 64) * 64 + n div 4096 mod 64" by simp
  moreover have "n div 4096 div 64 = n div 262144" by (simp add: div_mult2_eq [symmetric])
  ultimately show ?thesis using join3 [of n] by linarith
qed

lemma decode_encodeCp:
  assumes "scalar n"
  shows "decodeCps (encodeCp n @ bs) = map_option ((#) n) (decodeCps bs)"
proof -
  consider "n < 0x80" | "0x80 \<le> n" "n < 0x800" | "0x800 \<le> n" "n < 0x10000" | "0x10000 \<le> n" "n < 0x110000"
    using assms unfolding scalar_def by linarith
  then show ?thesis
  proof cases
    case 1
    then show ?thesis by (simp add: encodeCp_def)
  next
    case 2
    define q where "q = n div 64"
    from 2 have "2 \<le> q" "q < 32" "n = q * 64 + n mod 64" by (auto simp: q_def)
    moreover have "encodeCp n = [0xC0 + q, 0x80 + n mod 64]" using 2 by (simp add: encodeCp_def q_def)
    ultimately show ?thesis by simp
  next
    case 3
    then have "n div 4096 < 16" by auto
    with 3 assms show ?thesis using join3 [of n] by (simp add: encodeCp_def Let_def)
  next
    case 4
    then have "n div 262144 < 5" by auto
    with 4 assms show ?thesis using join4 [of n] by (simp add: encodeCp_def Let_def)
  qed
qed

lemma decodeCps_round: "list_all scalar cps \<Longrightarrow> decodeCps (concat (map encodeCp cps)) = Some cps"
  by (induction cps) (simp_all add: decode_encodeCp del: decodeCps.simps, simp)

lemma encodeCp_byte:
  assumes "scalar n" "b \<in> set (encodeCp n)"
  shows "b < 256" "b = 10 \<Longrightarrow> n = 10"
proof -
  have "n mod 64 < 64" "n div 64 mod 64 < 64" "n div 4096 mod 64 < 64" by simp_all
  moreover have "n < 0x800 \<Longrightarrow> n div 64 < 32" "n < 0x10000 \<Longrightarrow> n div 4096 < 16" "n div 262144 < 5"
    using assms(1) by (auto simp: scalar_def)
  ultimately show "b < 256" "b = 10 \<Longrightarrow> n = 10"
    using assms(2) by (auto simp: encodeCp_def split: if_splits)
qed

lemma utf8_unat:
  assumes "list_all scalar cps"
  shows "map unat (utf8Encode cps) = concat (map encodeCp cps)"
proof -
  have "b < 256" if "b \<in> set (concat (map encodeCp cps))" for b
    using that assms encodeCp_byte by (fastforce simp: list_all_iff)
  then show ?thesis unfolding utf8Encode_def map_map by (intro map_idI) (simp add: unat_of_nat)
qed

lemma utf8_decodes: "list_all scalar cps \<Longrightarrow> utf8Decode (utf8Encode cps) = Some cps"
  by (simp add: utf8Decode_def utf8_unat decodeCps_round)

lemma utf8_no_newline:
  assumes "list_all scalar cps" "10 \<notin> set cps"
  shows "newlineByte \<notin> set (utf8Encode cps)"
proof
  assume "newlineByte \<in> set (utf8Encode cps)"
  then have "unat newlineByte \<in> set (map unat (utf8Encode cps))" by simp
  then have "10 \<in> set (concat (map encodeCp cps))" by (simp only: utf8_unat [OF assms(1)]) (simp add: newlineByte_def)
  then obtain n where "n \<in> set cps" "10 \<in> set (encodeCp n)" by auto
  with assms encodeCp_byte(2) show False by (auto simp: list_all_iff)
qed

text \<open>What \<open>TextEncoder\<close> writes, the fatal \<open>TextDecoder\<close> reads back, for every text; and the bytes of a
  text without a newline hold no newline byte, not in any character.\<close>

theorem utf8_roundtrip:
  assumes "list_all scalar cps"
  shows "utf8Decode (utf8Encode cps) = Some cps \<and> (newlineByte \<in> set (utf8Encode cps) \<longrightarrow> 10 \<in> set cps)"
  using utf8_decodes [OF assms] utf8_no_newline [OF assms] by blast

lemma utf8_roundtrip_witness: "utf8Decode (utf8Encode [0x41, 0xE9, 0x20AC, 0x1F600]) = Some [0x41, 0xE9, 0x20AC, 0x1F600]"
  using utf8_roundtrip [of "[0x41, 0xE9, 0x20AC, 0x1F600]"] by (simp add: scalar_def)

subsection \<open>Frame codecs\<close>

text \<open>Frames delivered to an owner that keeps them and never closes.\<close>

definition keepFrame :: "'t list \<Rightarrow> 't \<Rightarrow> 't list \<times> bool" where
  "keepFrame ts t = (ts @ [t], False)"

lemma takeWhile_line: "newlineByte \<notin> set p \<Longrightarrow> takeWhile (\<lambda>b. b \<noteq> newlineByte) (p @ newlineByte # r) = p"
  by (induction p) auto

lemma dropWhile_line: "newlineByte \<notin> set p \<Longrightarrow> dropWhile (\<lambda>b. b \<noteq> newlineByte) (p @ newlineByte # r) = newlineByte # r"
  by (induction p) auto

lemma ndReceive_closed [simp]: "ndClosed s \<Longrightarrow> ndReceive decode m f s owner chunk = (s, owner)"
  by (simp add: ndReceive.simps)

lemma ndReceive_Nil [simp]: "ndReceive decode m f s owner [] = (s, owner)"
  by (simp add: ndReceive.simps)

lemma ndShut_closed [simp]: "ndClosed (ndShut s)"
  by (simp add: ndShut_def)

lemma ndShut_parts [simp]: "ndShut (s\<lparr>ndParts := p\<rparr>) = (if ndClosed s then s\<lparr>ndParts := p\<rparr> else ndShut s)"
  by (simp add: ndShut_def)

lemma ndReceive_partial:
  assumes "\<not> ndClosed s" "newlineByte \<notin> set p"
  shows "ndReceive decode m f s owner p =
           (if length (ndParts s) + length p > m \<and> p \<noteq> [] then (ndShut s, owner) else (s\<lparr>ndParts := ndParts s @ p\<rparr>, owner))"
proof -
  have tw: "takeWhile (\<lambda>b. b \<noteq> newlineByte) p = p" "dropWhile (\<lambda>b. b \<noteq> newlineByte) p = []"
    using assms(2) by (auto simp: takeWhile_eq_all_conv)
  show ?thesis
    by (simp only: ndReceive.simps [of decode m f s owner p] Let_def tw) (use assms(1) in simp)
qed

lemma ndReceive_line:
  assumes "\<not> ndClosed s" "newlineByte \<notin> set p"
  shows "ndReceive decode m f s owner (p @ newlineByte # r) =
     (if length (ndParts s) + length p > m then (ndShut s, owner)
      else case decode (ndParts s @ p) of
        None \<Rightarrow> (ndShut s, owner)
      | Some t \<Rightarrow> ndReceive decode m f (if snd (f owner t) then ndShut s else s\<lparr>ndParts := []\<rparr>) (fst (f owner t)) r)"
  using assms
  by (subst ndReceive.simps) (simp add: takeWhile_line dropWhile_line Let_def case_prod_beta split: option.split)

lemma split_line:
  obtains (partial) "newlineByte \<notin> set chunk"
    | (line) p r where "chunk = p @ newlineByte # r" "newlineByte \<notin> set p"
  by (cases "newlineByte \<in> set chunk") (auto dest: split_list_first)

text \<open>Two chunks, or one: the receiver ends the same.\<close>

lemma ndReceive_append:
  "ndReceive decode m f s owner (a @ b) =
     (let (s', owner') = ndReceive decode m f s owner a in ndReceive decode m f s' owner' b)"
proof (induction "length a" arbitrary: a s owner rule: less_induct)
  case less
  show ?case
  proof (cases "ndClosed s")
    case open': False
    show ?thesis
    proof (cases a rule: split_line)
      case (line p r)
      have "length r < length a" by (simp add: line)
      from less [OF this] show ?thesis
        by (simp add: line ndReceive_line [OF open' line(2)] Let_def split: option.split)
    next
      case partial
      show ?thesis
      proof (cases b rule: split_line)
        case whole: partial
        with partial show ?thesis
          by (cases "b = []") (auto simp: ndReceive_partial open' Let_def)
      next
        case (line p r)
        from partial line(2) have "newlineByte \<notin> set (a @ p)" by simp
        from ndReceive_line [OF open' this, of decode m f owner r] partial line(2) show ?thesis
          by (cases "a = []")
            (auto simp: line(1) ndReceive_partial [OF open'] ndReceive_line open' Let_def split: option.split)
      qed
    qed
  qed simp
qed

definition receiveChunks ::
  "(byte list \<Rightarrow> 't option) \<Rightarrow> nat \<Rightarrow> ('o \<Rightarrow> 't \<Rightarrow> 'o \<times> bool) \<Rightarrow> ndSocket \<Rightarrow> 'o \<Rightarrow> byte list list \<Rightarrow> ndSocket \<times> 'o" where
  "receiveChunks decode m f s owner chunks =
     foldl (\<lambda>(s, owner) chunk. ndReceive decode m f s owner chunk) (s, owner) chunks"

lemma chunking_invisible_eq:
  "receiveChunks decode maxFrameBytes onmessage s owner chunks =
     ndReceive decode maxFrameBytes onmessage s owner (concat chunks)"
  unfolding receiveChunks_def
proof (induction chunks arbitrary: s owner)
  case (Cons a chunks)
  obtain s' owner' where "ndReceive decode maxFrameBytes onmessage s owner a = (s', owner')" by fastforce
  with Cons.IH [of s' owner'] show ?case by (simp add: ndReceive_append)
qed simp

text \<open>However the stream cuts the same bytes into chunks, inside a character, a frame or many frames
  at once, the receiver delivers the same frames, closes in the same cases and ends in the same state.\<close>

theorem chunking_invisible:
  assumes "concat chunks = concat chunks'"
  shows "receiveChunks decode maxFrameBytes onmessage s owner chunks =
     receiveChunks decode maxFrameBytes onmessage s owner chunks'"
  by (simp add: chunking_invisible_eq assms)

lemma chunking_invisible_witness:
  "receiveChunks utf8Decode 8 keepFrame openSocket [] [[0x41], [0xC3], [0xA9, 0x0a]] =
   receiveChunks utf8Decode 8 keepFrame openSocket [] [[0x41, 0xC3], [0xA9], [0x0a]]"
  by (rule chunking_invisible) simp

subsection \<open>Sending\<close>

datatype 't ndOp = SendOp 't "writeAnswer list" | DrainOp "writeAnswer list" | DrainedOp | CloseOp

text \<open>One operation: the bytes it wrote, the frame it accepted, the socket after.\<close>

fun ndStep ::
  "('t \<Rightarrow> byte list) \<Rightarrow> ('t \<Rightarrow> bool) \<Rightarrow> nat \<Rightarrow> ndSocket \<Rightarrow> 't ndOp \<Rightarrow> byte list \<times> 't list \<times> ndSocket" where
  "ndStep encode hasNewline m s (SendOp t answers) =
     (case ndSend encode hasNewline m s t answers of Inl e \<Rightarrow> ([], [], s) | Inr (bs, s') \<Rightarrow> (bs, [t], s'))"
| "ndStep encode hasNewline m s (DrainOp answers) = (let (bs, s') = ndFlush s answers in (bs, [], s'))"
| "ndStep encode hasNewline m s DrainedOp = ([], [], snd (ndDrained s))"
| "ndStep encode hasNewline m s CloseOp = ([], [], ndShut s)"

fun ndRun ::
  "('t \<Rightarrow> byte list) \<Rightarrow> ('t \<Rightarrow> bool) \<Rightarrow> nat \<Rightarrow> ndSocket \<Rightarrow> 't ndOp list \<Rightarrow> byte list \<times> 't list \<times> ndSocket" where
  "ndRun encode hasNewline m s [] = ([], [], s)"
| "ndRun encode hasNewline m s (op # ops) =
     (let (bs, ts, s1) = ndStep encode hasNewline m s op; (cs, us, s2) = ndRun encode hasNewline m s1 ops
      in (bs @ cs, ts @ us, s2))"

definition senderWf :: "ndSocket \<Rightarrow> bool" where
  "senderWf s = (ndQueuedBytes s = length (concat (ndQueue s)) \<and> [] \<notin> set (ndQueue s)
     \<and> (ndClosed s \<or> ndQueue s = [] \<longrightarrow> ndWaiters s = 0) \<and> (ndClosed s \<longrightarrow> ndQueue s = [])
     \<and> ndEnds s = (if ndClosed s then 1 else 0) \<and> ndOncloses s = (if ndClosed s then 1 else 0))"

text \<open>What is written and what waits, against what was given: nothing is lost while the socket is open.\<close>

definition conserved :: "byte list \<Rightarrow> byte list \<Rightarrow> ndSocket \<Rightarrow> bool" where
  "conserved given written s =
     (if ndClosed s then prefix written given else written @ concat (ndQueue s) = given)"

lemma shut_wf: "senderWf s \<Longrightarrow> senderWf (ndShut s)"
  by (simp add: senderWf_def ndShut_def)

lemma flush_conserves:
  assumes "ndQueuedBytes s = length (concat (ndQueue s))" "[] \<notin> set (ndQueue s)" "ndClosed s \<longrightarrow> ndQueue s = []"
    and "ndEnds s = (if ndClosed s then 1 else 0)" "ndOncloses s = (if ndClosed s then 1 else 0)"
    and "ndClosed s \<longrightarrow> ndWaiters s = 0"
  shows "conserved (concat (ndQueue s)) (fst (ndFlush s answers)) (snd (ndFlush s answers))
     \<and> senderWf (snd (ndFlush s answers))"
  using assms
proof (induction answers arbitrary: s)
  case Nil
  then show ?case
    by (cases "ndQueue s") (auto simp: ndFlush.simps conserved_def senderWf_def)
next
  case (Cons a answers)
  show ?case
  proof (cases "ndQueue s")
    case Nil
    with Cons.prems show ?thesis by (auto simp: ndFlush.simps conserved_def senderWf_def)
  next
    case (Cons head rest)
    with Cons.prems have open': "\<not> ndClosed s" by auto
    show ?thesis
    proof (cases a)
      case StreamGone
      with Cons.prems Cons open' show ?thesis
        by (simp add: ndFlush.simps conserved_def senderWf_def ndShut_def)
    next
      case (Accepts n)
      show ?thesis
      proof (cases "n < length head")
        case True
        with Cons.prems Cons open' Accepts show ?thesis
          by (simp add: ndFlush.simps conserved_def senderWf_def Let_def min_absorb1 append_assoc [symmetric] del: append_assoc)
      next
        case False
        let ?s = "s\<lparr>ndQueuedBytes := ndQueuedBytes s - length head, ndQueue := rest\<rparr>"
        have "ndFlush s (a # answers) = (head @ fst (ndFlush ?s answers), snd (ndFlush ?s answers))"
          using False Cons open' Accepts
          by (simp add: ndFlush.simps [of s] Let_def min_absorb2 case_prod_beta)
        moreover have "conserved (concat (ndQueue ?s)) (fst (ndFlush ?s answers)) (snd (ndFlush ?s answers))
           \<and> senderWf (snd (ndFlush ?s answers))"
          by (rule Cons.IH) (use Cons.prems Cons open' in auto)
        ultimately show ?thesis
          using Cons by (auto simp: conserved_def split: if_splits)
      qed
    qed
  qed
qed

lemma flush_step:
  assumes "senderWf s"
  shows "conserved (concat (ndQueue s)) (fst (ndFlush s answers)) (snd (ndFlush s answers))
     \<and> senderWf (snd (ndFlush s answers))"
  by (rule flush_conserves) (use assms in \<open>auto simp: senderWf_def split: if_splits\<close>)

lemma send_step:
  assumes "senderWf s" "ndSend encode hasNewline m s t answers = Inr (bs, s')"
  shows "conserved (concat (ndQueue s) @ frameBytes encode t) bs s' \<and> senderWf s'
     \<and> \<not> hasNewline t \<and> length (encode t) \<le> m \<and> \<not> ndClosed s"
proof -
  let ?s = "s\<lparr>ndQueue := ndQueue s @ [frameBytes encode t], ndQueuedBytes := ndQueuedBytes s + length (frameBytes encode t)\<rparr>"
  from assms(2) have ok: "\<not> ndClosed s" "\<not> hasNewline t" "length (encode t) \<le> m"
    and r: "(bs, s') = (if length (ndQueue ?s) = 1 then ndFlush ?s answers else ([], ?s))"
    by (auto simp: ndSend_def frameBytes_def Let_def split: if_splits)
  have "conserved (concat (ndQueue ?s)) (fst (ndFlush ?s answers)) (snd (ndFlush ?s answers))
     \<and> senderWf (snd (ndFlush ?s answers))"
    by (rule flush_conserves) (use assms(1) ok in \<open>auto simp: senderWf_def frameBytes_def split: if_splits\<close>)
  moreover have "senderWf ?s" if "ndQueue s \<noteq> []"
    using assms(1) ok that by (auto simp: senderWf_def frameBytes_def split: if_splits)
  ultimately show ?thesis
    using r ok by (cases "ndQueue s = []") (auto simp: conserved_def split: if_splits dest: sym [of "(bs, s')"])
qed

definition framesBytes :: "('t \<Rightarrow> byte list) \<Rightarrow> 't list \<Rightarrow> byte list" where
  "framesBytes encode ts = concat (map (frameBytes encode) ts)"

lemma framesBytes_simps [simp]:
  "framesBytes encode [] = []" "framesBytes encode (t # ts) = frameBytes encode t @ framesBytes encode ts"
  "framesBytes encode (ts @ us) = framesBytes encode ts @ framesBytes encode us"
  by (simp_all add: framesBytes_def)

lemma step_conserves:
  assumes "senderWf s" "ndStep encode hasNewline m s op = (bs, ts, s')"
  shows "conserved (concat (ndQueue s) @ framesBytes encode ts) bs s'" "senderWf s'"
    "list_all (\<lambda>t. \<not> hasNewline t \<and> length (encode t) \<le> m) ts"
    "set ts \<subseteq> {t. \<exists>answers. op = SendOp t answers}"
    "ndClosed s \<Longrightarrow> bs = [] \<and> ts = [] \<and> ndClosed s'"
proof -
  have "conserved (concat (ndQueue s) @ framesBytes encode ts) bs s' \<and> senderWf s'
    \<and> list_all (\<lambda>t. \<not> hasNewline t \<and> length (encode t) \<le> m) ts \<and> set ts \<subseteq> {t. \<exists>answers. op = SendOp t answers}
    \<and> (ndClosed s \<longrightarrow> bs = [] \<and> ts = [] \<and> ndClosed s')"
  proof (cases op)
    case (SendOp t answers)
    show ?thesis
    proof (cases "ndSend encode hasNewline m s t answers")
      case (Inl e)
      with assms show ?thesis by (auto simp: SendOp conserved_def senderWf_def)
    next
      case (Inr r)
      obtain bs1 s1 where r: "r = (bs1, s1)" by fastforce
      from send_step [OF assms(1) Inr [unfolded r]] assms(2) show ?thesis
        by (auto simp: SendOp Inr r)
    qed
  next
    case (DrainOp answers)
    have "ndClosed s \<Longrightarrow> ndFlush s answers = ([], s\<lparr>ndWaiters := 0\<rparr>)"
      using assms(1) by (simp add: senderWf_def ndFlush.simps)
    with flush_step [OF assms(1), of answers] assms(2) show ?thesis
      by (auto simp: DrainOp case_prod_beta Let_def)
  next
    case DrainedOp
    with assms show ?thesis
      by (cases "ndClosed s \<or> ndQueue s = []") (auto simp: ndDrained_def conserved_def senderWf_def)
  next
    case CloseOp
    with assms shut_wf [OF assms(1)] show ?thesis by (auto simp: conserved_def)
  qed
  then show "conserved (concat (ndQueue s) @ framesBytes encode ts) bs s'" "senderWf s'"
    "list_all (\<lambda>t. \<not> hasNewline t \<and> length (encode t) \<le> m) ts"
    "set ts \<subseteq> {t. \<exists>answers. op = SendOp t answers}"
    "ndClosed s \<Longrightarrow> bs = [] \<and> ts = [] \<and> ndClosed s'" by blast+
qed

lemma closed_run:
  "senderWf s \<Longrightarrow> ndClosed s \<Longrightarrow> ndRun encode hasNewline m s ops = (bs, ts, s') \<Longrightarrow> bs = [] \<and> ts = [] \<and> ndClosed s'"
proof (induction ops arbitrary: s bs ts s')
  case (Cons op ops)
  obtain bs1 ts1 s1 where step: "ndStep encode hasNewline m s op = (bs1, ts1, s1)" by (metis prod.exhaust)
  obtain bs2 ts2 s2 where run: "ndRun encode hasNewline m s1 ops = (bs2, ts2, s2)" by (metis prod.exhaust)
  from step_conserves [OF Cons.prems(1) step] Cons.prems(2) Cons.IH [OF _ _ run] Cons.prems(3) show ?case
    by (simp add: step run)
qed simp

lemma run_conserves:
  assumes "senderWf s" "ndRun encode hasNewline m s ops = (bs, ts, s')"
  shows "conserved (concat (ndQueue s) @ framesBytes encode ts) bs s' \<and> senderWf s'
    \<and> list_all (\<lambda>t. \<not> hasNewline t \<and> length (encode t) \<le> m) ts
    \<and> set ts \<subseteq> {t. \<exists>answers. SendOp t answers \<in> set ops}"
  using assms
proof (induction ops arbitrary: s bs ts s')
  case Nil
  then show ?case by (auto simp: conserved_def senderWf_def)
next
  case (Cons op ops)
  obtain bs1 ts1 s1 where step: "ndStep encode hasNewline m s op = (bs1, ts1, s1)" by (metis prod.exhaust)
  obtain bs2 ts2 s2 where run: "ndRun encode hasNewline m s1 ops = (bs2, ts2, s2)" by (metis prod.exhaust)
  from Cons.prems(2) have r: "bs = bs1 @ bs2" "ts = ts1 @ ts2" "s' = s2" by (simp_all add: step run)
  note st = step_conserves [OF Cons.prems(1) step]
  note ih = Cons.IH [OF st(2) run]
  have "conserved (concat (ndQueue s) @ framesBytes encode ts) bs s'"
  proof (cases "ndClosed s1")
    case True
    with closed_run [OF st(2) True run] st(1) show ?thesis by (simp add: r conserved_def)
  next
    case False
    with st(1) have "bs1 @ concat (ndQueue s1) = concat (ndQueue s) @ framesBytes encode ts1" by (simp add: conserved_def)
    then have given: "concat (ndQueue s) @ framesBytes encode ts = bs1 @ (concat (ndQueue s1) @ framesBytes encode ts2)"
      by (simp add: r)
    from ih show ?thesis unfolding given by (simp add: r conserved_def)
  qed
  with ih st show ?case by (auto simp: r)
qed

lemma openSocket_wf: "senderWf openSocket"
  by (simp add: senderWf_def openSocket_def)

text \<open>A prefix of some frames' bytes: whole frames, and part of the next one.\<close>

lemma prefix_frames:
  "prefix w (framesBytes encode ts) \<Longrightarrow>
     \<exists>us vs part. ts = us @ vs \<and> w = framesBytes encode us @ part
       \<and> (case vs of [] \<Rightarrow> part = [] | v # _ \<Rightarrow> prefix part (encode v))"
proof (induction ts arbitrary: w)
  case (Cons t ts)
  from Cons.prems have "prefix w (frameBytes encode t @ framesBytes encode ts)" by simp
  then consider "prefix w (encode t)" | w' where "w = frameBytes encode t @ w'" "prefix w' (framesBytes encode ts)"
    by (auto simp: prefix_append frameBytes_def prefix_Cons)
  then show ?case
  proof cases
    case 1
    then show ?thesis by (intro exI [of _ "[]"] exI [of _ "t # ts"] exI [of _ w]) simp
  next
    case 2
    from Cons.IH [OF 2(2)] obtain us vs part where "ts = us @ vs" "w' = framesBytes encode us @ part"
      "case vs of [] \<Rightarrow> part = [] | v # _ \<Rightarrow> prefix part (encode v)" by blast
    with 2(1) show ?thesis by (intro exI [of _ "t # us"] exI [of _ vs] exI [of _ part]) simp
  qed
qed simp

locale frame_codec =
  fixes encode :: "'t \<Rightarrow> byte list"
    and decode :: "byte list \<Rightarrow> 't option"
    and hasNewline :: "'t \<Rightarrow> bool"
    and valid :: "'t \<Rightarrow> bool"
  assumes decode_encode: "valid t \<Longrightarrow> decode (encode t) = Some t"
    and no_newline: "valid t \<Longrightarrow> \<not> hasNewline t \<Longrightarrow> newlineByte \<notin> set (encode t)"
begin

lemma receive_frames:
  assumes "\<not> ndClosed s" "ndParts s = []"
    and "list_all (\<lambda>t. valid t \<and> \<not> hasNewline t \<and> length (encode t) \<le> m) ts"
    and "newlineByte \<notin> set part" "length part \<le> m"
  shows "ndReceive decode m keepFrame s owner (framesBytes encode ts @ part) =
           (s\<lparr>ndParts := part\<rparr>, owner @ ts)"
  using assms(3)
proof (induction ts arbitrary: owner)
  case Nil
  have "s\<lparr>ndParts := part\<rparr> = s\<lparr>ndParts := ndParts s @ part\<rparr>" using assms(2) by simp
  then show ?case using assms by (simp add: ndReceive_partial)
next
  case (Cons t ts)
  then have t: "decode (encode t) = Some t" "newlineByte \<notin> set (encode t)" "length (encode t) \<le> m"
    by (simp_all add: decode_encode no_newline)
  have fresh: "s\<lparr>ndParts := []\<rparr> = s" using assms(2) by (cases s) simp
  from t have "ndReceive decode m keepFrame s owner (encode t @ newlineByte # r) = ndReceive decode m keepFrame s (owner @ [t]) r" for r
    by (simp add: ndReceive_line [OF assms(1) t(2)] assms(2) keepFrame_def fresh)
  with Cons show ?case by (simp add: frameBytes_def)
qed

lemma frames_arrive:
  assumes "ndRun encode hasNewline m openSocket ops = (written, accepted, s)"
    and "\<And>t answers. SendOp t answers \<in> set ops \<Longrightarrow> valid t"
    and "prefix arrived written"
  shows "\<exists>delivered part. ndReceive decode m keepFrame openSocket [] arrived = (openSocket\<lparr>ndParts := part\<rparr>, delivered)
    \<and> prefix delivered accepted
    \<and> (arrived = written \<and> \<not> ndClosed s \<and> ndQueue s = [] \<longrightarrow> delivered = accepted)"
proof -
  note run = run_conserves [OF openSocket_wf assms(1)]
  have ok: "list_all (\<lambda>t. valid t \<and> \<not> hasNewline t \<and> length (encode t) \<le> m) accepted"
    using run assms(2) by (auto simp: list_all_iff)
  from run have "prefix written (framesBytes encode accepted)"
    by (auto simp: conserved_def openSocket_def split: if_splits intro: prefixI [OF sym])
  with assms(3) have "prefix arrived (framesBytes encode accepted)" by (metis prefix_order.trans)
  from prefix_frames [OF this] obtain us vs part where s: "accepted = us @ vs" "arrived = framesBytes encode us @ part"
    and part: "case vs of [] \<Rightarrow> part = [] | v # _ \<Rightarrow> prefix part (encode v)" by blast
  have "newlineByte \<notin> set part" "length part \<le> m"
    using part ok no_newline by (auto simp: s(1) split: list.splits dest: set_mono_prefix prefix_length_le)
  with receive_frames [of openSocket m us part "[]"] ok
  have "ndReceive decode m keepFrame openSocket [] arrived = (openSocket\<lparr>ndParts := part\<rparr>, us)"
    by (simp add: s openSocket_def)
  moreover have "us = accepted" if "arrived = written" "\<not> ndClosed s" "ndQueue s = []"
  proof -
    from run that have "arrived = framesBytes encode accepted" by (simp add: conserved_def openSocket_def)
    with s have "part = framesBytes encode vs" by simp
    with part show ?thesis by (cases vs) (auto simp: s(1) frameBytes_def dest: prefix_length_le)
  qed
  ultimately show ?thesis using s(1) by auto
qed

end

interpretation utf8: frame_codec utf8Encode utf8Decode "\<lambda>t. 10 \<in> set t" "list_all scalar"
proof
  show "utf8Decode (utf8Encode t) = Some t" if "list_all scalar t" for t
    using that by (rule utf8_decodes)
  show "newlineByte \<notin> set (utf8Encode t)" if "list_all scalar t" "\<not> 10 \<in> set t" for t
    using that by (rule utf8_no_newline)
qed

text \<open>C3: What is sent arrives: whatever the stream accepts of each write and however it cuts the bytes on the
  way, the receiver stays open and delivers the frames that \<open>send\<close> accepted, unchanged, in order and
  without a gap, and all of them once the sender's queue is empty and its bytes are through.\<close>

theorem link_delivers:
  assumes "ndRun utf8Encode (\<lambda>t. 10 \<in> set t) m openSocket ops = (written, accepted, s)"
    and "\<And>t answers. SendOp t answers \<in> set ops \<Longrightarrow> list_all scalar t"
    and "prefix (concat chunks) written"
  shows "\<exists>delivered part. receiveChunks utf8Decode m keepFrame openSocket [] chunks = (openSocket\<lparr>ndParts := part\<rparr>, delivered)
    \<and> prefix delivered accepted
    \<and> (concat chunks = written \<and> \<not> ndClosed s \<and> ndQueue s = [] \<longrightarrow> delivered = accepted)"
  unfolding chunking_invisible_eq by (rule utf8.frames_arrive [OF assms])

lemma link_delivers_witness:
  "\<exists>written s. ndRun utf8Encode (\<lambda>t. 10 \<in> set t) 8 openSocket [SendOp [0x41, 0xE9] [Accepts 2], DrainOp [Accepts 9]] = (written, [[0x41, 0xE9]], s)
     \<and> (\<exists>part. receiveChunks utf8Decode 8 keepFrame openSocket [] [take 2 written, drop 2 written]
          = (openSocket\<lparr>ndParts := part\<rparr>, [[0x41, 0xE9]]))"
proof -
  let ?ops = "[SendOp [0x41, 0xE9] [Accepts 2], DrainOp [Accepts 9]] :: nat list ndOp list"
  have run: "ndRun utf8Encode (\<lambda>t. 10 \<in> set t) 8 openSocket ?ops =
      ([0x41, 0xC3, 0xA9, 0x0a], [[0x41, 0xE9]], openSocket)"
    by (simp add: ndSend_def openSocket_def frameBytes_def utf8Encode_def encodeCp_def ndFlush.simps newlineByte_def Let_def)
  have "list_all scalar t" if "SendOp t answers \<in> set ?ops" for t answers
    using that by (auto simp: scalar_def)
  from link_delivers [OF run this, where chunks = "[take 2 [0x41, 0xC3, 0xA9, 0x0a], drop 2 [0x41, 0xC3, 0xA9, 0x0a]]"] run
  show ?thesis by (auto simp: openSocket_def)
qed

end
