(* ===== verification/Rpc_Peer.thy ===== *)
theory Rpc_Peer
  imports Reins_Prelude
begin

text \<open>
  The JSON-RPC peer of \<^verbatim>\<open>packages/node-protocol/src/rpc.ts\<close>, \<open>createRpcPeer\<close>: calls and their replies,
  requests and their handlers, notifications, heartbeats and the bounds on each. An operation returns
  what it did as a list of events, promises settled and exceptions that leave the peer included.
  \<open>JSON.parse\<close> with the schemas of a frame (\<open>zod\<close>), the size of a frame as text and the schemas of
  the registered methods are given by the environment; the socket's \<open>send\<close> throws when the operation
  says so. \<open>handlers[method]\<close> finds what every JavaScript object inherits, too.
\<close>

subsection \<open>Messages and failures\<close>

datatype rpcId = StrId string | NumId int

fun idKey :: "rpcId \<Rightarrow> string" where
  "idKey (StrId s) = s"
| "idKey (NumId n) = showInt n"

datatype wireMessage =
    RequestMsg rpcId string json
  | NoteMsg string json
  | ResultMsg rpcId json
  | ErrorMsg rpcId int string "json option"

datatype failureCode = CodeNum int | Unavailable

record rpcFailure =
  rfCode :: failureCode
  rfMessage :: string
  rfUnknown :: bool
  rfData :: "json option"

definition methodNotFound :: int where "methodNotFound = - 32601"
definition invalidParams :: int where "invalidParams = - 32602"
definition internalError :: int where "internalError = - 32603"
definition busyCode :: int where "busyCode = - 32002"
definition frameTooLarge :: int where "frameTooLarge = - 32004"

definition plainFailure :: "failureCode \<Rightarrow> string \<Rightarrow> rpcFailure" where
  "plainFailure code msg = \<lparr>rfCode = code, rfMessage = msg, rfUnknown = False, rfData = None\<rparr>"

definition unknownOutcome :: "string \<Rightarrow> rpcFailure" where
  "unknownOutcome msg = \<lparr>rfCode = Unavailable, rfMessage = msg, rfUnknown = True, rfData = None\<rparr>"

definition heartbeatMethod :: string where "heartbeatMethod = ''node.ping''"
definition maxInFlight :: nat where "maxInFlight = 64"
definition maxErrorMessage :: nat where "maxErrorMessage = 2048"
definition maxErrorDataBytes :: nat where "maxErrorDataBytes = 8192"
definition maxExpired :: nat where "maxExpired = 1024"

type_synonym schema = "json \<Rightarrow> json option"

datatype rpcHandler = RequestHandler schema schema | NoteHandler schema

text \<open>The environment of a peer: \<open>frameSize\<close> is the bytes of a text frame (\<open>None\<close> for a binary one), \<open>parseFrame\<close>
  what its JSON matches (\<open>None\<close> for nothing).\<close>

record 'f rpcEnv =
  frameSize :: "'f \<Rightarrow> nat option"
  parseFrame :: "'f \<Rightarrow> wireMessage option"
  messageSize :: "wireMessage \<Rightarrow> nat"
  jsonBytes :: "json \<Rightarrow> nat"
  maxFrameBytes :: nat
  missedIntervals :: nat
  rpcHandlers :: "(string \<times> rpcHandler) list"

definition objectPrototype :: "string list" where
  "objectPrototype = [''constructor'', ''toString'', ''valueOf'', ''hasOwnProperty'', ''isPrototypeOf'',
     ''propertyIsEnumerable'', ''toLocaleString'', ''__proto__'', ''__defineGetter__'', ''__defineSetter__'',
     ''__lookupGetter__'', ''__lookupSetter__'']"

datatype handlerLookup = OwnHandler rpcHandler | InheritedMember | NoHandler

definition findHandler :: "'f rpcEnv \<Rightarrow> string \<Rightarrow> handlerLookup" where
  "findHandler env m =
     (case map_of (rpcHandlers env) m of
        Some h \<Rightarrow> OwnHandler h
      | None \<Rightarrow> if m \<in> set objectPrototype then InheritedMember else NoHandler)"

subsection \<open>The peer\<close>

record rpcCall =
  callSchema :: schema
  callErrorData :: "schema option"

text \<open>\<open>rpRunning\<close> is what the continuations of the running handlers captured.\<close>

record rpcPeer =
  rpClosed :: bool
  rpHeard :: bool
  rpMissed :: nat
  rpNextId :: nat
  rpInbound :: nat
  rpPending :: "(string, rpcCall) jsmap"
  rpExpired :: "string list"
  rpRunning :: "(rpcId \<times> schema) list"

definition newPeer :: rpcPeer where
  "newPeer = \<lparr>rpClosed = False, rpHeard = True, rpMissed = 0, rpNextId = 0, rpInbound = 0, rpPending = [],
     rpExpired = [], rpRunning = []\<rparr>"

datatype rpcEvent =
    Sent wireMessage
  | Issued string
  | Resolved string json
  | Rejected string rpcFailure
  | SocketClosed
  | HandlerStarted string json
  | Notified string json
  | DroppedNote string string
  | Uncaught

definition peerFail :: "rpcPeer \<Rightarrow> rpcPeer \<times> rpcEvent list" where
  "peerFail st =
     (if rpClosed st then (st, [])
      else (st\<lparr>rpClosed := True, rpPending := []\<rparr>,
            map (\<lambda>(k, c). Rejected k (unknownOutcome ''Connection closed; outcome unknown'')) (rpPending st) @ [SocketClosed]))"

datatype sendOutcome = SendOk | SendTooLarge | SendThrew

definition trySend :: "'f rpcEnv \<Rightarrow> bool \<Rightarrow> wireMessage \<Rightarrow> sendOutcome" where
  "trySend env socketOk msg =
     (if messageSize env msg > maxFrameBytes env then SendTooLarge else if socketOk then SendOk else SendThrew)"

definition tooLargeFailure :: "'f rpcEnv \<Rightarrow> rpcFailure" where
  "tooLargeFailure env =
     plainFailure (CodeNum frameTooLarge) (''Frame exceeds '' @ showNat (maxFrameBytes env) @ '' bytes'')"

text \<open>A frame sent where nothing catches what \<open>send\<close> throws.\<close>

definition sendUncaught :: "'f rpcEnv \<Rightarrow> bool \<Rightarrow> wireMessage \<Rightarrow> rpcEvent list" where
  "sendUncaught env socketOk msg = (if trySend env socketOk msg = SendOk then [Sent msg] else [Uncaught])"

definition peerTick :: "'f rpcEnv \<Rightarrow> bool \<Rightarrow> rpcPeer \<Rightarrow> rpcPeer \<times> rpcEvent list" where
  "peerTick env socketOk st =
     (if rpClosed st then (st, [])
      else let missed = (if rpHeard st then 0 else Suc (rpMissed st)); st1 = st\<lparr>rpMissed := missed\<rparr>
           in if \<not> rpHeard st \<and> missed \<ge> missedIntervals env then peerFail st1
              else let st2 = st1\<lparr>rpHeard := False\<rparr>; ping = NoteMsg heartbeatMethod (JObj [])
                   in if trySend env socketOk ping = SendOk then (st2, [Sent ping]) else peerFail st2)"

datatype callResult = CallThrew rpcFailure | CallIssued string

definition peerCall ::
  "'f rpcEnv \<Rightarrow> bool \<Rightarrow> bool \<Rightarrow> string \<Rightarrow> json \<Rightarrow> schema \<Rightarrow> schema option \<Rightarrow> rpcPeer
   \<Rightarrow> callResult \<times> rpcPeer \<times> rpcEvent list" where
  "peerCall env socketOk aborted meth params sch errorData st =
     (if rpClosed st then (CallThrew (plainFailure Unavailable ''Connection closed''), st, [])
      else if length (rpPending st) \<ge> maxInFlight
      then (CallThrew (plainFailure Unavailable ''Too many in-flight calls''), st, [])
      else if aborted then (CallThrew (plainFailure Unavailable ''Call aborted before sending''), st, [])
      else let callId = ''rpc-'' @ showNat (Suc (rpNextId st));
               st1 = st\<lparr>rpNextId := Suc (rpNextId st)\<rparr>;
               msg = RequestMsg (StrId callId) meth params
           in (case trySend env socketOk msg of
                 SendOk \<Rightarrow> (CallIssued callId,
                   st1\<lparr>rpPending := jmSet callId \<lparr>callSchema = sch, callErrorData = errorData\<rparr> (rpPending st)\<rparr>,
                   [Issued callId, Sent msg])
               | SendTooLarge \<Rightarrow> (CallIssued callId, st1, [Issued callId, Rejected callId (tooLargeFailure env)])
               | SendThrew \<Rightarrow> (let (st2, evs) = peerFail st1
                   in (CallIssued callId, st2,
                       Issued callId # Rejected callId (unknownOutcome ''Send failed; outcome unknown'') # evs))))"

text \<open>A call abandoned by its timer or its signal.\<close>

definition addExpired :: "string \<Rightarrow> string list \<Rightarrow> string list" where
  "addExpired k ks =
     (let ks' = (if k \<in> set ks then ks else ks @ [k]) in if length ks' > maxExpired then tl ks' else ks')"

definition peerAbandon :: "string \<Rightarrow> string \<Rightarrow> rpcPeer \<Rightarrow> rpcPeer \<times> rpcEvent list" where
  "peerAbandon callId msg st =
     (if \<not> jmHas (rpPending st) callId then (st, [])
      else (st\<lparr>rpPending := jmDelete callId (rpPending st), rpExpired := addExpired callId (rpExpired st)\<rparr>,
            [Rejected callId (unknownOutcome (msg @ ''; outcome unknown''))]))"

definition peerNotify :: "'f rpcEnv \<Rightarrow> bool \<Rightarrow> string \<Rightarrow> json \<Rightarrow> rpcPeer \<Rightarrow> bool \<times> rpcPeer \<times> rpcEvent list" where
  "peerNotify env socketOk meth params st =
     (if rpClosed st then (False, st, [])
      else (case trySend env socketOk (NoteMsg meth params) of
              SendOk \<Rightarrow> (True, st, [Sent (NoteMsg meth params)])
            | SendTooLarge \<Rightarrow> (False, st, [])
            | SendThrew \<Rightarrow> (False, peerFail st)))"

definition receiveRequest ::
  "'f rpcEnv \<Rightarrow> bool \<Rightarrow> rpcId \<Rightarrow> string \<Rightarrow> json \<Rightarrow> rpcPeer \<Rightarrow> rpcPeer \<times> rpcEvent list" where
  "receiveRequest env socketOk rid meth params st =
     (case findHandler env meth of
        InheritedMember \<Rightarrow> (st, [Uncaught])
      | OwnHandler (RequestHandler paramsSchema resultSchema) \<Rightarrow>
          (case paramsSchema params of
             None \<Rightarrow> (st, sendUncaught env socketOk (ErrorMsg rid invalidParams ''Invalid params'' None))
           | Some parsed \<Rightarrow>
               if rpInbound st \<ge> maxInFlight then (st, sendUncaught env socketOk (ErrorMsg rid busyCode ''Busy'' None))
               else (st\<lparr>rpInbound := Suc (rpInbound st), rpRunning := rpRunning st @ [(rid, resultSchema)]\<rparr>,
                     [HandlerStarted meth parsed]))
      | _ \<Rightarrow> (st, sendUncaught env socketOk (ErrorMsg rid methodNotFound ''Method not found'' None)))"

definition receiveNote :: "'f rpcEnv \<Rightarrow> string \<Rightarrow> json \<Rightarrow> rpcEvent list" where
  "receiveNote env meth params =
     (if meth = heartbeatMethod then []
      else case findHandler env meth of
        OwnHandler (NoteHandler paramsSchema) \<Rightarrow>
          (case paramsSchema params of None \<Rightarrow> [DroppedNote meth ''invalid params''] | Some parsed \<Rightarrow> [Notified meth parsed])
      | _ \<Rightarrow> [DroppedNote meth ''unknown method''])"

definition rejectAndFail :: "string \<Rightarrow> string \<Rightarrow> rpcPeer \<Rightarrow> rpcPeer \<times> rpcEvent list" where
  "rejectAndFail callId msg st =
     (let (st', evs) = peerFail st in (st', Rejected callId (plainFailure (CodeNum internalError) msg) # evs))"

text \<open>What a reply's error data may be: nothing, what the caller's schema reads of it, or invalid.\<close>

definition checkedData :: "'f rpcEnv \<Rightarrow> schema option \<Rightarrow> json option \<Rightarrow> json option option" where
  "checkedData env errorData detail =
     (case (detail, errorData) of
        (Some d, Some sch) \<Rightarrow> if jsonBytes env d > maxErrorDataBytes then None else map_option Some (sch d)
      | _ \<Rightarrow> Some None)"

definition receiveReply :: "'f rpcEnv \<Rightarrow> string \<Rightarrow> json + int \<times> string \<times> json option \<Rightarrow> rpcPeer \<Rightarrow> rpcPeer \<times> rpcEvent list" where
  "receiveReply env callId answer st =
     (case jmGet (rpPending st) callId of
        None \<Rightarrow> if callId \<in> set (rpExpired st) then (st\<lparr>rpExpired := removeAll callId (rpExpired st)\<rparr>, []) else peerFail st
      | Some call \<Rightarrow>
          (let st1 = st\<lparr>rpPending := jmDelete callId (rpPending st)\<rparr>
           in case answer of
                Inr (code, msg, detail) \<Rightarrow>
                  (if length msg > maxErrorMessage \<or> checkedData env (callErrorData call) detail = None
                   then rejectAndFail callId ''Invalid error response'' st1
                   else (st1, [Rejected callId \<lparr>rfCode = CodeNum code, rfMessage = msg, rfUnknown = False,
                                rfData = the (checkedData env (callErrorData call) detail)\<rparr>]))
              | Inl result \<Rightarrow>
                  (case callSchema call result of
                     None \<Rightarrow> rejectAndFail callId ''Invalid response'' st1
                   | Some v \<Rightarrow> (case callSchema call v of
                        None \<Rightarrow> (st1, [Uncaught])
                      | Some w \<Rightarrow> (st1, [Resolved callId w])))))"

definition peerReceive :: "'f rpcEnv \<Rightarrow> bool \<Rightarrow> 'f \<Rightarrow> rpcPeer \<Rightarrow> rpcPeer \<times> rpcEvent list" where
  "peerReceive env socketOk frame st =
     (if rpClosed st then (st, [])
      else let st1 = st\<lparr>rpHeard := True\<rparr>
           in case frameSize env frame of
                None \<Rightarrow> peerFail st1
              | Some n \<Rightarrow>
                  if n > maxFrameBytes env then peerFail st1
                  else (case parseFrame env frame of
                          None \<Rightarrow> peerFail st1
                        | Some (RequestMsg rid meth params) \<Rightarrow> receiveRequest env socketOk rid meth params st1
                        | Some (NoteMsg meth params) \<Rightarrow> (st1, receiveNote env meth params)
                        | Some (ResultMsg rid result) \<Rightarrow> receiveReply env (idKey rid) (Inl result) st1
                        | Some (ErrorMsg rid code msg detail) \<Rightarrow> receiveReply env (idKey rid) (Inr (code, msg, detail)) st1))"

text \<open>A running handler settles: its result or failure is answered, unless the peer has closed.\<close>

datatype handlerOutcome = HandlerReturned json | HandlerFailed rpcFailure | HandlerThrew

definition failureReply :: "'f rpcEnv \<Rightarrow> rpcId \<Rightarrow> rpcFailure \<Rightarrow> wireMessage" where
  "failureReply env rid f =
     (let code = (case rfCode f of CodeNum n \<Rightarrow> n | Unavailable \<Rightarrow> internalError); msg = take maxErrorMessage (rfMessage f)
      in case rfData f of
           None \<Rightarrow> ErrorMsg rid code msg None
         | Some d \<Rightarrow> if jsonBytes env d > maxErrorDataBytes then ErrorMsg rid internalError ''Internal error'' None
                    else ErrorMsg rid code msg (Some d))"

definition settleReply :: "'f rpcEnv \<Rightarrow> bool \<Rightarrow> rpcId \<Rightarrow> schema \<Rightarrow> handlerOutcome \<Rightarrow> rpcEvent list" where
  "settleReply env socketOk rid resultSchema outcome =
     (let internal = plainFailure (CodeNum internalError) ''Internal error'';
          failed = (\<lambda>f. sendUncaught env socketOk (failureReply env rid f))
      in case outcome of
           HandlerThrew \<Rightarrow> failed internal
         | HandlerFailed f \<Rightarrow> failed f
         | HandlerReturned v \<Rightarrow>
             (case resultSchema v of
                None \<Rightarrow> failed (plainFailure (CodeNum internalError) ''Invalid handler result'')
              | Some checked \<Rightarrow>
                  (case trySend env socketOk (ResultMsg rid checked) of
                     SendOk \<Rightarrow> [Sent (ResultMsg rid checked)]
                   | SendTooLarge \<Rightarrow> failed (tooLargeFailure env)
                   | SendThrew \<Rightarrow> failed internal)))"

definition handlerSettles :: "'f rpcEnv \<Rightarrow> bool \<Rightarrow> nat \<Rightarrow> handlerOutcome \<Rightarrow> rpcPeer \<Rightarrow> rpcPeer \<times> rpcEvent list" where
  "handlerSettles env socketOk i outcome st =
     (if i \<ge> length (rpRunning st) then (st, [])
      else let (rid, resultSchema) = rpRunning st ! i
           in (st\<lparr>rpInbound := rpInbound st - 1, rpRunning := take i (rpRunning st) @ drop (Suc i) (rpRunning st)\<rparr>,
               if rpClosed st then [] else settleReply env socketOk rid resultSchema outcome))"

end
