(* ===== verification/Rpc_Laws.thy ===== *)
theory Rpc_Laws
  imports Rpc_Peer
begin

text \<open>
  The peer over every operation, in any order: its bounds hold, a promise settles exactly once, a closed
  peer sends nothing, a silent one is closed after the configured intervals and not before, and a
  request for a name every object inherits makes \<open>receive\<close> throw.
\<close>

datatype 'f rpcOp =
    CallOp bool bool string json schema "schema option"
  | AbandonOp string string
  | NotifyOp bool string json
  | FrameOp bool 'f
  | SettleOp bool nat handlerOutcome
  | TickOp bool
  | CloseOp

fun peerStep :: "'f rpcEnv \<Rightarrow> rpcPeer \<Rightarrow> 'f rpcOp \<Rightarrow> rpcPeer \<times> rpcEvent list" where
  "peerStep env st (CallOp ok aborted meth params sch ed) = snd (peerCall env ok aborted meth params sch ed st)"
| "peerStep env st (AbandonOp k msg) = peerAbandon k msg st"
| "peerStep env st (NotifyOp ok meth params) = snd (peerNotify env ok meth params st)"
| "peerStep env st (FrameOp ok frame) = peerReceive env ok frame st"
| "peerStep env st (SettleOp ok i outcome) = handlerSettles env ok i outcome st"
| "peerStep env st (TickOp ok) = peerTick env ok st"
| "peerStep env st CloseOp = peerFail st"

fun peerRun :: "'f rpcEnv \<Rightarrow> rpcPeer \<Rightarrow> 'f rpcOp list \<Rightarrow> rpcPeer \<times> rpcEvent list" where
  "peerRun env st [] = (st, [])"
| "peerRun env st (op # ops) =
     (let (st1, evs) = peerStep env st op; (st2, more) = peerRun env st1 ops in (st2, evs @ more))"

text \<open>Schemas that read back what they return: the peer parses a result twice.\<close>

definition stableSchema :: "schema \<Rightarrow> bool" where
  "stableSchema sch = (\<forall>v w. sch v = Some w \<longrightarrow> sch w \<noteq> None)"

fun stableOp :: "'f rpcOp \<Rightarrow> bool" where
  "stableOp (CallOp ok aborted meth params sch ed) = stableSchema sch"
| "stableOp _ = True"

definition peerWf :: "rpcPeer \<Rightarrow> bool" where
  "peerWf st =
     (jmWf (rpPending st) \<and> length (rpPending st) \<le> maxInFlight \<and> length (rpExpired st) \<le> maxExpired
      \<and> rpInbound st = length (rpRunning st) \<and> rpInbound st \<le> maxInFlight
      \<and> (rpClosed st \<longrightarrow> rpPending st = [])
      \<and> (\<forall>k\<in>fst ` set (rpPending st). \<exists>n\<le>rpNextId st. k = ''rpc-'' @ showNat n))"

definition callsStable :: "rpcPeer \<Rightarrow> bool" where
  "callsStable st = jmAll (\<lambda>k c. stableSchema (callSchema c)) (rpPending st)"

definition issues :: "string \<Rightarrow> rpcEvent list \<Rightarrow> nat" where
  "issues k evs = length (filter (\<lambda>e. e = Issued k) evs)"

fun settlesCall :: "string \<Rightarrow> rpcEvent \<Rightarrow> bool" where
  "settlesCall k (Resolved j v) = (j = k)"
| "settlesCall k (Rejected j f) = (j = k)"
| "settlesCall k _ = False"

definition settles :: "string \<Rightarrow> rpcEvent list \<Rightarrow> nat" where
  "settles k evs = length (filter (settlesCall k) evs)"

definition waiting :: "string \<Rightarrow> rpcPeer \<Rightarrow> nat" where
  "waiting k st = (if jmHas (rpPending st) k then 1 else 0)"

lemma issues_simps [simp]:
  "issues k [] = 0" "issues k (es @ fs) = issues k es + issues k fs"
  "issues k (e # es) = (if e = Issued k then Suc (issues k es) else issues k es)"
  by (simp_all add: issues_def)

lemma settles_simps [simp]:
  "settles k [] = 0" "settles k (es @ fs) = settles k es + settles k fs"
  "settles k (e # es) = (if settlesCall k e then Suc (settles k es) else settles k es)"
  by (simp_all add: settles_def)

lemma waiting_fields [simp]:
  "waiting k (st\<lparr>rpHeard := b\<rparr>) = waiting k st" "waiting k (st\<lparr>rpMissed := m\<rparr>) = waiting k st"
  "waiting k (st\<lparr>rpNextId := m\<rparr>) = waiting k st" "waiting k (st\<lparr>rpExpired := ks\<rparr>) = waiting k st"
  "waiting k (st\<lparr>rpInbound := m, rpRunning := rs\<rparr>) = waiting k st"
  by (simp_all add: waiting_def)

lemma settles_rejectAll: "jmWf m \<Longrightarrow> settles k (map (\<lambda>(j, c). Rejected j f) m) = (if jmHas m k then 1 else 0)"
proof (induction m)
  case (Cons a m)
  obtain j c where a: "a = (j, c)" by (cases a)
  with Cons have "\<not> jmHas m j" "settles k (map (\<lambda>(j, c). Rejected j f) m) = (if jmHas m k then 1 else 0)"
    by (auto simp: jmHas_def map_of_eq_None_iff)
  with a show ?case by (auto simp: jmHas_def)
qed simp

lemma issues_rejectAll [simp]: "issues k (map (\<lambda>(j, c). Rejected j f) m) = 0"
  by (induction m) auto

text \<open>Each step conserves: a call issued or waiting before is settled or waiting after.\<close>

definition conserves :: "rpcPeer \<Rightarrow> rpcPeer \<times> rpcEvent list \<Rightarrow> bool" where
  "conserves st r = (\<forall>k. settles k (snd r) + waiting k (fst r) = issues k (snd r) + waiting k st)"

lemma fail_conserves: "jmWf (rpPending st) \<Longrightarrow> conserves st (peerFail st)"
  by (auto simp: conserves_def peerFail_def settles_rejectAll waiting_def)

lemma quiet_conserves:
  assumes "rpPending (fst r) = rpPending st" "\<And>k. settles k (snd r) = 0" "\<And>k. issues k (snd r) = 0"
  shows "conserves st r"
  using assms by (simp add: conserves_def waiting_def)

lemma conserves_via:
  assumes "conserves st1 r" "rpPending st1 = rpPending st"
  shows "conserves st r"
  using assms by (simp add: conserves_def waiting_def)

lemma sendUncaught_quiet [simp]:
  "settles k (sendUncaught env ok msg) = 0" "issues k (sendUncaught env ok msg) = 0"
  by (simp_all add: sendUncaught_def)

lemma settleReply_quiet [simp]:
  "settles k (settleReply env ok rid sch out) = 0" "issues k (settleReply env ok rid sch out) = 0"
  by (simp_all add: settleReply_def Let_def split: handlerOutcome.split option.split sendOutcome.split)

lemma receiveNote_quiet [simp]:
  "settles k (receiveNote env meth params) = 0" "issues k (receiveNote env meth params) = 0"
  by (simp_all add: receiveNote_def split: handlerLookup.split rpcHandler.split option.split)

lemma receiveRequest_quiet:
  "rpPending (fst (receiveRequest env ok rid meth params st)) = rpPending st"
  "settles k (snd (receiveRequest env ok rid meth params st)) = 0"
  "issues k (snd (receiveRequest env ok rid meth params st)) = 0"
  by (simp_all add: receiveRequest_def split: handlerLookup.split rpcHandler.split option.split)

lemma fail_deleted:
  assumes "jmWf (rpPending st)" "jmHas (rpPending st) j"
  shows "conserves st (rejectAndFail j msg (st\<lparr>rpPending := jmDelete j (rpPending st)\<rparr>))"
proof -
  let ?st1 = "st\<lparr>rpPending := jmDelete j (rpPending st)\<rparr>"
  have "conserves ?st1 (peerFail ?st1)" using assms by (intro fail_conserves) simp
  then have at: "settles k (snd (peerFail ?st1)) + waiting k (fst (peerFail ?st1))
      = issues k (snd (peerFail ?st1)) + waiting k ?st1" for k
    by (simp add: conserves_def)
  have "waiting k st = waiting k ?st1 + (if k = j then 1 else 0)" for k
    using assms(2) by (simp add: waiting_def)
  with at show ?thesis by (simp add: conserves_def rejectAndFail_def case_prod_beta)
qed

lemma reply_conserves:
  assumes "jmWf (rpPending st)" "callsStable st"
  shows "conserves st (receiveReply env j answer st)"
proof (cases "jmGet (rpPending st) j")
  case None
  then show ?thesis
    using fail_conserves [OF assms(1)]
    by (auto simp: receiveReply_def intro!: quiet_conserves)
next
  case (Some call)
  then have has: "jmHas (rpPending st) j" by (simp add: jmHas_def)
  have "stableSchema (callSchema call)"
    using assms(2) Some by (auto simp: callsStable_def dest: jmAll_get)
  then have stable: "callSchema call v = Some w \<Longrightarrow> \<exists>u. callSchema call w = Some u" for v w
    by (auto simp: stableSchema_def)
  let ?st1 = "st\<lparr>rpPending := jmDelete j (rpPending st)\<rparr>"
  have one: "conserves st (?st1, [Resolved j v])" "conserves st (?st1, [Rejected j f])" for v f
    using has by (auto simp: conserves_def waiting_def)
  note fails = fail_deleted [OF assms(1) has]
  show ?thesis
  proof (cases answer)
    case (Inr r)
    obtain code msg detail where "r = (code, msg, detail)" by (cases r)
    with Inr show ?thesis by (simp add: receiveReply_def Some fails one Let_def)
  next
    case (Inl v)
    show ?thesis
    proof (cases "callSchema call v")
      case None
      then show ?thesis by (simp add: receiveReply_def Some Inl fails)
    next
      case w: (Some w)
      from stable [OF w] obtain u where "callSchema call w = Some u" ..
      with w show ?thesis by (simp add: receiveReply_def Some Inl one)
    qed
  qed
qed

text \<open>What a frame can lead to: every property of a step is shown of these five outcomes.\<close>

lemma peerReceive_cases:
  assumes closed: "rpClosed st \<Longrightarrow> P (st, [])"
    and failed: "\<not> rpClosed st \<Longrightarrow> P (peerFail (st\<lparr>rpHeard := True\<rparr>))"
    and req: "\<And>rid meth params. \<not> rpClosed st \<Longrightarrow> P (receiveRequest env ok rid meth params (st\<lparr>rpHeard := True\<rparr>))"
    and noted: "\<And>meth params. \<not> rpClosed st \<Longrightarrow> P (st\<lparr>rpHeard := True\<rparr>, receiveNote env meth params)"
    and reply: "\<And>k answer. \<not> rpClosed st \<Longrightarrow> P (receiveReply env k answer (st\<lparr>rpHeard := True\<rparr>))"
  shows "P (peerReceive env ok frame st)"
  unfolding peerReceive_def Let_def
  by (auto simp: closed failed req noted reply split: option.split wireMessage.split)

lemma receive_conserves:
  assumes "jmWf (rpPending st)" "callsStable st"
  shows "conserves st (peerReceive env ok frame st)"
proof -
  let ?st1 = "st\<lparr>rpHeard := True\<rparr>"
  have wf: "jmWf (rpPending ?st1)" "callsStable ?st1" using assms by (simp_all add: callsStable_def)
  have eq: "rpPending ?st1 = rpPending st" by simp
  show ?thesis
  proof (rule peerReceive_cases)
    show "conserves st (st, [])" by (simp add: conserves_def)
    show "conserves st (peerFail ?st1)" by (rule conserves_via [OF fail_conserves [OF wf(1)] eq])
    show "conserves st (receiveRequest env ok rid meth params ?st1)" for rid meth params
      by (rule quiet_conserves) (simp_all add: receiveRequest_quiet)
    show "conserves st (?st1, receiveNote env meth params)" for meth params
      by (rule quiet_conserves) simp_all
    show "conserves st (receiveReply env k answer ?st1)" for k answer
      by (rule conserves_via [OF reply_conserves [OF wf] eq])
  qed
qed

lemma peerCall_cases:
  assumes "P (st, [])"
    and "\<And>k c. \<lbrakk>k = ''rpc-'' @ showNat (Suc (rpNextId st)); \<not> rpClosed st; length (rpPending st) < maxInFlight;
           c = \<lparr>callSchema = sch, callErrorData = ed\<rparr>\<rbrakk>
         \<Longrightarrow> P (st\<lparr>rpNextId := Suc (rpNextId st), rpPending := jmSet k c (rpPending st)\<rparr>,
                [Issued k, Sent (RequestMsg (StrId k) meth params)])"
    and "\<And>k f. \<lbrakk>k = ''rpc-'' @ showNat (Suc (rpNextId st)); \<not> rpClosed st\<rbrakk>
         \<Longrightarrow> P (st\<lparr>rpNextId := Suc (rpNextId st)\<rparr>, [Issued k, Rejected k f])"
    and "\<And>k f. \<lbrakk>k = ''rpc-'' @ showNat (Suc (rpNextId st)); \<not> rpClosed st\<rbrakk>
         \<Longrightarrow> P (fst (peerFail (st\<lparr>rpNextId := Suc (rpNextId st)\<rparr>)),
                Issued k # Rejected k f # snd (peerFail (st\<lparr>rpNextId := Suc (rpNextId st)\<rparr>)))"
  shows "P (snd (peerCall env ok aborted meth params sch ed st))"
proof -
  obtain k where k: "k = ''rpc-'' @ showNat (Suc (rpNextId st))" by blast
  show ?thesis
    unfolding peerCall_def Let_def k [symmetric]
    using assms(1) assms(2) [OF k] assms(3) [OF k] assms(4) [OF k]
    by (auto split: sendOutcome.split simp: case_prod_beta)
qed

lemma call_conserves:
  assumes "peerWf st"
  shows "conserves st (snd (peerCall env ok aborted meth params sch ed st))"
proof (rule peerCall_cases)
  let ?st1 = "st\<lparr>rpNextId := Suc (rpNextId st)\<rparr>"
  show "conserves st (st, [])" by (simp add: conserves_def)
  have "\<not> jmHas (rpPending st) k" if "k = ''rpc-'' @ showNat (Suc (rpNextId st))" for k
    using assms that showNat_inject by (fastforce simp: peerWf_def jmHas_iff)
  then show "conserves st (?st1\<lparr>rpPending := jmSet k c (rpPending st)\<rparr>, [Issued k, Sent (RequestMsg (StrId k) meth params)])"
    if "k = ''rpc-'' @ showNat (Suc (rpNextId st))" for k c
    using that by (auto simp: conserves_def waiting_def)
  show "conserves st (?st1, [Issued k, Rejected k f])" for k f by (simp add: conserves_def)
  have "conserves ?st1 (peerFail ?st1)" using assms by (intro fail_conserves) (simp add: peerWf_def)
  then show "conserves st (fst (peerFail ?st1), Issued k # Rejected k f # snd (peerFail ?st1))" for k f
    by (simp add: conserves_def)
qed

lemma abandon_conserves: "conserves st (peerAbandon k msg st)"
  by (auto simp: peerAbandon_def conserves_def waiting_def)

lemma notify_conserves:
  assumes "jmWf (rpPending st)"
  shows "conserves st (snd (peerNotify env ok meth params st))"
  using fail_conserves [OF assms]
  by (auto simp: peerNotify_def conserves_def split: sendOutcome.split)

lemma settle_conserves: "conserves st (handlerSettles env ok i out st)"
  by (rule quiet_conserves) (simp_all add: handlerSettles_def Let_def case_prod_beta)

lemma tick_conserves:
  assumes "jmWf (rpPending st)"
  shows "conserves st (peerTick env ok st)"
proof -
  have fails: "conserves st (peerFail (st\<lparr>rpMissed := m\<rparr>))" "conserves st (peerFail (st\<lparr>rpMissed := m, rpHeard := False\<rparr>))" for m
    using assms by (intro conserves_via [OF fail_conserves]; simp)+
  have ping: "conserves st (st\<lparr>rpMissed := m, rpHeard := False\<rparr>, [Sent msg])" for m msg
    by (rule quiet_conserves) simp_all
  show ?thesis by (simp add: peerTick_def Let_def fails ping) (simp add: conserves_def)
qed

lemma peer_step_conserves:
  assumes "peerWf st" "callsStable st"
  shows "conserves st (peerStep env st op)"
proof -
  have wf: "jmWf (rpPending st)" using assms(1) by (simp add: peerWf_def)
  show ?thesis
    by (cases op) (simp_all add: call_conserves [OF assms(1)] abandon_conserves notify_conserves [OF wf] settle_conserves
      receive_conserves [OF wf assms(2)] tick_conserves [OF wf] fail_conserves [OF wf])
qed

subsection \<open>The bounds\<close>

lemma peerWf_new [simp]: "peerWf newPeer"
  by (simp add: peerWf_def newPeer_def)

lemma peerWf_fields [simp]:
  "peerWf (st\<lparr>rpHeard := b\<rparr>) = peerWf st" "peerWf (st\<lparr>rpMissed := m\<rparr>) = peerWf st"
  "peerWf (st\<lparr>rpMissed := m, rpHeard := b\<rparr>) = peerWf st"
  by (simp_all add: peerWf_def)

lemma peerWf_count: "peerWf st \<Longrightarrow> peerWf (st\<lparr>rpNextId := Suc (rpNextId st)\<rparr>)"
  by (fastforce simp: peerWf_def intro: le_SucI)

lemma peerWf_fail: "peerWf st \<Longrightarrow> peerWf (fst (peerFail st))"
  by (simp add: peerWf_def peerFail_def)

lemma length_jmDelete_le: "length (jmDelete k m) \<le> length m"
  by (simp add: AList.delete_eq)

lemma set_jmDelete: "x \<in> set (jmDelete k m) \<Longrightarrow> x \<in> set m"
  by (simp add: AList.delete_eq)

lemma peerWf_delete: "peerWf st \<Longrightarrow> peerWf (st\<lparr>rpPending := jmDelete k (rpPending st)\<rparr>)"
  using order_trans [OF length_jmDelete_le, of "rpPending st" maxInFlight k]
  by (auto simp: peerWf_def dest: set_jmDelete)

lemma addExpired_bound: "length ks \<le> maxExpired \<Longrightarrow> length (addExpired k ks) \<le> maxExpired"
  by (auto simp: addExpired_def Let_def)

lemma peerWf_issue:
  assumes "peerWf st" "\<not> rpClosed st" "length (rpPending st) < maxInFlight"
  shows "peerWf (st\<lparr>rpNextId := Suc (rpNextId st), rpPending := jmSet (''rpc-'' @ showNat (Suc (rpNextId st))) c (rpPending st)\<rparr>)"
proof -
  let ?k = "''rpc-'' @ showNat (Suc (rpNextId st))"
  have fresh: "?k \<notin> fst ` set (rpPending st)"
    using assms(1) showNat_inject by (fastforce simp: peerWf_def)
  have "\<exists>n\<le>Suc (rpNextId st). k = ''rpc-'' @ showNat n" if "k = ?k \<or> k \<in> fst ` set (rpPending st)" for k
    using assms(1) that unfolding peerWf_def by (metis le_SucI order_refl)
  then show ?thesis
    using assms fresh by (simp add: peerWf_def jmSet_absent)
qed

lemma peerWf_reply:
  assumes "peerWf st"
  shows "peerWf (fst (receiveReply env k answer st))"
proof (cases "jmGet (rpPending st) k")
  case None
  have "peerWf (st\<lparr>rpExpired := removeAll k (rpExpired st)\<rparr>)"
    using assms order_trans [OF length_removeAll_less_eq, of "rpExpired st" maxExpired k] by (simp add: peerWf_def)
  with None show ?thesis by (simp add: receiveReply_def peerWf_fail assms)
next
  case (Some call)
  let ?st1 = "st\<lparr>rpPending := jmDelete k (rpPending st)\<rparr>"
  have wf: "peerWf ?st1" using assms by (rule peerWf_delete)
  then have "peerWf (fst (rejectAndFail k msg ?st1))" for msg
    by (simp add: rejectAndFail_def case_prod_beta peerWf_fail)
  with Some wf show ?thesis
    by (auto simp: receiveReply_def Let_def split: sum.split option.split)
qed

lemma peerWf_receive:
  assumes "peerWf st"
  shows "peerWf (fst (peerReceive env ok frame st))"
proof (rule peerReceive_cases [where P = "\<lambda>r. peerWf (fst r)"])
  have wf: "peerWf (st\<lparr>rpHeard := True\<rparr>)" using assms by simp
  show "peerWf (fst (peerFail (st\<lparr>rpHeard := True\<rparr>)))" using wf by (rule peerWf_fail)
  show "peerWf (fst (receiveReply env k answer (st\<lparr>rpHeard := True\<rparr>)))" for k answer
    using wf by (rule peerWf_reply)
  show "peerWf (fst (receiveRequest env ok rid meth params (st\<lparr>rpHeard := True\<rparr>)))" for rid meth params
    using assms by (auto simp: receiveRequest_def peerWf_def split: handlerLookup.split rpcHandler.split option.split)
qed (use assms in simp_all)

lemma peerWf_step:
  assumes "peerWf st"
  shows "peerWf (fst (peerStep env st op))"
proof (cases op)
  case (CallOp ok aborted meth params sch ed)
  have "peerWf (fst (snd (peerCall env ok aborted meth params sch ed st)))"
    by (rule peerCall_cases [where P = "\<lambda>r. peerWf (fst r)"])
      (simp_all add: assms peerWf_issue peerWf_count peerWf_fail del: append.simps)
  with CallOp show ?thesis by simp
next
  case (AbandonOp k msg)
  have "peerWf (st\<lparr>rpPending := jmDelete k (rpPending st), rpExpired := addExpired k (rpExpired st)\<rparr>)"
    using peerWf_delete [OF assms, of k] addExpired_bound by (auto simp: peerWf_def)
  with AbandonOp assms show ?thesis by (simp add: peerAbandon_def)
next
  case (NotifyOp ok meth params)
  then show ?thesis using assms by (simp add: peerNotify_def peerWf_fail split: sendOutcome.split)
next
  case (FrameOp ok frame)
  then show ?thesis using assms by (simp add: peerWf_receive)
next
  case (SettleOp ok i outcome)
  then show ?thesis using assms by (auto simp: handlerSettles_def Let_def case_prod_beta peerWf_def)
next
  case (TickOp ok)
  then show ?thesis using assms by (simp add: peerTick_def Let_def peerWf_fail)
next
  case CloseOp
  then show ?thesis using assms by (simp add: peerWf_fail)
qed

lemma peerWf_run: "peerWf st \<Longrightarrow> peerWf (fst (peerRun env st ops))"
proof (induction ops arbitrary: st)
  case (Cons op ops)
  then show ?case using peerWf_step [OF Cons.prems, of env op] by (simp add: case_prod_beta)
qed simp

text \<open>Whatever the callers do and whatever the other end sends, in any order, a peer never has more than
  64 calls waiting nor more than 64 requests being handled, remembers at most 1024 calls it gave up on, counts exactly the handlers
  that are running, keeps its calls under different ids, and once closed has no call waiting.\<close>

theorem peer_bounds:
  "case peerRun env newPeer ops of (st, evs) \<Rightarrow>
     length (rpPending st) \<le> 64 \<and> rpInbound st = length (rpRunning st) \<and> rpInbound st \<le> 64
     \<and> length (rpExpired st) \<le> 1024 \<and> distinct (map fst (rpPending st)) \<and> (if rpClosed st then rpPending st = [] else True)"
  using peerWf_run [OF peerWf_new, of env ops]
  by (simp add: case_prod_beta peerWf_def maxInFlight_def maxExpired_def)

subsection \<open>Every call settles once\<close>

lemma callsStable_fail: "callsStable st \<Longrightarrow> callsStable (fst (peerFail st))"
  by (simp add: callsStable_def peerFail_def)

lemma callsStable_same: "callsStable st \<Longrightarrow> rpPending st' = rpPending st \<Longrightarrow> callsStable st'"
  by (simp add: callsStable_def)

lemma callsStable_reply:
  assumes "callsStable st"
  shows "callsStable (fst (receiveReply env k answer st))"
proof (cases "jmGet (rpPending st) k")
  case None
  with callsStable_fail [OF assms] assms show ?thesis by (simp add: receiveReply_def callsStable_def)
next
  case (Some call)
  let ?st1 = "st\<lparr>rpPending := jmDelete k (rpPending st)\<rparr>"
  have st: "callsStable ?st1" using assms by (simp add: callsStable_def)
  then have "callsStable (fst (rejectAndFail k msg ?st1))" for msg
    by (simp add: rejectAndFail_def case_prod_beta callsStable_fail)
  with Some st show ?thesis
    by (auto simp: receiveReply_def Let_def split: sum.split option.split)
qed

lemma callsStable_step:
  assumes "callsStable st" "stableOp op"
  shows "callsStable (fst (peerStep env st op))"
proof (cases op)
  case (CallOp ok aborted meth params sch ed)
  have "callsStable (fst (snd (peerCall env ok aborted meth params sch ed st)))"
    by (rule peerCall_cases [where P = "\<lambda>r. callsStable (fst r)"])
      (use assms CallOp in \<open>auto simp: callsStable_def peerFail_def\<close>)
  with CallOp show ?thesis by simp
next
  case (FrameOp ok frame)
  have heard: "callsStable (st\<lparr>rpHeard := True\<rparr>)" using assms(1) by (simp add: callsStable_def)
  have "callsStable (fst (peerReceive env ok frame st))"
  proof (rule peerReceive_cases [where P = "\<lambda>r. callsStable (fst r)"])
    show "callsStable (fst (receiveReply env k answer (st\<lparr>rpHeard := True\<rparr>)))" for k answer
      using heard by (rule callsStable_reply)
    show "callsStable (fst (receiveRequest env ok rid meth params (st\<lparr>rpHeard := True\<rparr>)))" for rid meth params
      using heard by (rule callsStable_same) (simp add: receiveRequest_quiet)
  qed (use assms heard in \<open>simp_all add: callsStable_fail\<close>)
  with FrameOp show ?thesis by simp
qed (use assms(1) in \<open>auto simp: callsStable_def peerAbandon_def peerNotify_def peerFail_def handlerSettles_def
       peerTick_def Let_def case_prod_beta split: sendOutcome.split\<close>)

lemma conserves_trans:
  assumes "conserves st r" "conserves (fst r) r'"
  shows "conserves st (fst r', snd r @ snd r')"
  unfolding conserves_def
proof
  fix k
  from assms [unfolded conserves_def, THEN spec, of k]
  show "settles k (snd (fst r', snd r @ snd r')) + waiting k (fst (fst r', snd r @ snd r'))
      = issues k (snd (fst r', snd r @ snd r')) + waiting k st"
    by simp
qed

lemma peer_run_conserves:
  assumes "peerWf st" "callsStable st" "list_all stableOp ops"
  shows "conserves st (peerRun env st ops)"
  using assms
proof (induction ops arbitrary: st)
  case (Cons op ops)
  let ?st1 = "fst (peerStep env st op)"
  have "conserves ?st1 (peerRun env ?st1 ops)"
    using Cons.IH [of ?st1] Cons.prems peerWf_step [of st env op] callsStable_step [of st op env] by simp
  moreover have "conserves st (peerStep env st op)" using Cons.prems peer_step_conserves by blast
  ultimately show ?case by (auto simp: case_prod_beta intro: conserves_trans)
qed (simp add: conserves_def)

text \<open>Ids are never reused: a call is issued at most once.\<close>

definition issuesFresh :: "rpcPeer \<Rightarrow> rpcPeer \<times> rpcEvent list \<Rightarrow> bool" where
  "issuesFresh st r =
     ((rpNextId (fst r) = rpNextId st \<and> (\<forall>k. issues k (snd r) = 0))
      \<or> (rpNextId (fst r) = Suc (rpNextId st)
         \<and> (\<forall>k. issues k (snd r) = (if k = ''rpc-'' @ showNat (Suc (rpNextId st)) then 1 else 0))))"

lemma fail_issues [simp]: "issues k (snd (peerFail st)) = 0" "rpNextId (fst (peerFail st)) = rpNextId st"
  by (auto simp: peerFail_def)

lemma call_fresh: "issuesFresh st (snd (peerCall env ok aborted meth params sch ed st))"
  by (rule peerCall_cases) (simp_all add: issuesFresh_def)

lemma reply_issues [simp]:
  "issues k (snd (receiveReply env j answer st)) = 0" "rpNextId (fst (receiveReply env j answer st)) = rpNextId st"
  by (simp_all add: receiveReply_def rejectAndFail_def case_prod_beta Let_def split: option.split sum.split)

lemma receive_issues [simp]:
  "issues k (snd (peerReceive env ok frame st)) = 0 \<and> rpNextId (fst (peerReceive env ok frame st)) = rpNextId st"
  by (rule peerReceive_cases [where P = "\<lambda>r. issues k (snd r) = 0 \<and> rpNextId (fst r) = rpNextId st"])
    (simp_all add: receiveRequest_quiet, simp add: receiveRequest_def split: handlerLookup.split rpcHandler.split option.split)

lemma step_fresh: "issuesFresh st (peerStep env st op)"
proof (cases op)
  case (CallOp ok aborted meth params sch ed)
  then show ?thesis by (simp add: call_fresh)
next
  case (FrameOp ok frame)
  then show ?thesis by (simp add: issuesFresh_def)
qed (auto simp: issuesFresh_def peerAbandon_def peerNotify_def handlerSettles_def
       peerTick_def Let_def case_prod_beta split: sendOutcome.split)

lemma run_issues:
  "issues k (snd (peerRun env st ops)) \<le> 1
   \<and> (issues k (snd (peerRun env st ops)) = 1 \<longrightarrow> (\<exists>m\<ge>rpNextId st. k = ''rpc-'' @ showNat (Suc m)))"
proof (induction ops arbitrary: st)
  case (Cons op ops)
  have ih: "issues k (snd (peerRun env (fst (peerStep env st op)) ops)) \<le> 1"
    "issues k (snd (peerRun env (fst (peerStep env st op)) ops)) = 1
     \<Longrightarrow> \<exists>m\<ge>rpNextId (fst (peerStep env st op)). k = ''rpc-'' @ showNat (Suc m)"
    using Cons.IH by blast+
  show ?case
  proof (cases "issues k (snd (peerStep env st op)) = 0")
    case True
    have up: "rpNextId st \<le> rpNextId (fst (peerStep env st op))"
      using step_fresh [of st env op] by (auto simp: issuesFresh_def)
    have "\<exists>m\<ge>rpNextId st. k = ''rpc-'' @ showNat (Suc m)"
      if "issues k (snd (peerRun env (fst (peerStep env st op)) ops)) = 1"
      using ih(2) [OF that] up by (blast intro: le_trans)
    with True ih(1) show ?thesis by (simp add: case_prod_beta)
  next
    case False
    then have id: "rpNextId (fst (peerStep env st op)) = Suc (rpNextId st)"
      and one: "issues k (snd (peerStep env st op)) = (if k = ''rpc-'' @ showNat (Suc (rpNextId st)) then 1 else 0)"
      using step_fresh [of st env op] unfolding issuesFresh_def by metis+
    from one False have k: "k = ''rpc-'' @ showNat (Suc (rpNextId st))" by metis
    from one k have now: "issues k (snd (peerStep env st op)) = 1" by metis
    have "issues k (snd (peerRun env (fst (peerStep env st op)) ops)) \<noteq> 1"
    proof
      assume "issues k (snd (peerRun env (fst (peerStep env st op)) ops)) = 1"
      from ih(2) [OF this] obtain m where "Suc (rpNextId st) \<le> m" "k = ''rpc-'' @ showNat (Suc m)"
        unfolding id by blast
      with k show False by simp
    qed
    with ih(1) have "issues k (snd (peerRun env (fst (peerStep env st op)) ops)) = 0" by linarith
    with now have "issues k (snd (peerRun env st (op # ops))) = 1" by (simp add: case_prod_beta)
    then show ?thesis using k by (metis le_refl)
  qed
qed simp

text \<open>C2: A call is issued under an id of its own and its promise settles exactly once: whatever the other end
  answers, late, twice, under a foreign id or not at all, whatever times out, is aborted or fails to send, every id is issued at most
  once, and a call that was issued is either settled, once, or still waiting; when the connection has closed, it is settled. The
  callers' schemas read back what they return, since a result is parsed twice.\<close>

theorem calls_settle_once:
  assumes "list_all stableOp ops"
  shows "case peerRun env newPeer ops of (st, evs) \<Rightarrow>
     issues k evs \<le> 1 \<and> settles k evs + waiting k st = issues k evs
     \<and> (if rpClosed st then settles k evs = issues k evs else True)"
proof -
  have "conserves newPeer (peerRun env newPeer ops)"
    using assms by (intro peer_run_conserves peerWf_new) (simp_all add: callsStable_def newPeer_def)
  then have sum: "settles k (snd (peerRun env newPeer ops)) + waiting k (fst (peerRun env newPeer ops))
      = issues k (snd (peerRun env newPeer ops)) + waiting k newPeer"
    by (simp add: conserves_def)
  have "waiting k newPeer = 0" by (simp add: waiting_def newPeer_def)
  moreover have "rpClosed (fst (peerRun env newPeer ops)) \<Longrightarrow> waiting k (fst (peerRun env newPeer ops)) = 0"
    using peerWf_run [OF peerWf_new, of env ops] by (simp add: waiting_def peerWf_def)
  moreover have "issues k (snd (peerRun env newPeer ops)) \<le> 1" using run_issues by blast
  ultimately show ?thesis
    using sum by (cases "rpClosed (fst (peerRun env newPeer ops))") (simp_all add: case_prod_beta)
qed

definition echoEnv :: "wireMessage rpcEnv" where
  "echoEnv = \<lparr>frameSize = \<lambda>f. Some 1, parseFrame = \<lambda>f. Some f, messageSize = \<lambda>m. 1, jsonBytes = \<lambda>j. 1,
     maxFrameBytes = 10, missedIntervals = 3, rpcHandlers = []\<rparr>"

lemma calls_settle_once_witness:
  "case peerRun echoEnv newPeer
      [CallOp True False ''m'' JNull Some None, CallOp True False ''m'' JNull Some None,
       FrameOp True (ResultMsg (StrId ''rpc-1'') JNull), AbandonOp ''rpc-1'' ''Call timed out'',
       FrameOp True (ResultMsg (StrId ''rpc-1'') JNull)] of
    (st, evs) \<Rightarrow> issues ''rpc-2'' evs \<le> 1 \<and> settles ''rpc-2'' evs + waiting ''rpc-2'' st = issues ''rpc-2'' evs
      \<and> (if rpClosed st then settles ''rpc-2'' evs = issues ''rpc-2'' evs else True)"
  by (rule calls_settle_once) (simp add: stableSchema_def)

subsection \<open>A closed peer, a silent peer\<close>

definition closings :: "rpcEvent list \<Rightarrow> nat" where
  "closings evs = length (filter (\<lambda>e. e = SocketClosed) evs)"

lemma closed_step:
  "rpClosed st \<Longrightarrow> rpPending st = [] \<Longrightarrow>
     rpClosed (fst (peerStep env st op)) \<and> rpPending (fst (peerStep env st op)) = [] \<and> snd (peerStep env st op) = []"
  by (cases op) (simp_all add: peerCall_def peerAbandon_def peerNotify_def peerReceive_def handlerSettles_def
      peerTick_def peerFail_def Let_def case_prod_beta)

lemma peer_closed_run: "rpClosed st \<Longrightarrow> rpPending st = [] \<Longrightarrow> snd (peerRun env st ops) = []"
proof (induction ops arbitrary: st)
  case (Cons op ops)
  with closed_step [OF Cons.prems, of env op] show ?case by (simp add: case_prod_beta)
qed simp

definition endsOnce :: "rpcPeer \<Rightarrow> rpcPeer \<times> rpcEvent list \<Rightarrow> bool" where
  "endsOnce st r = (closings (snd r) + (if rpClosed st then 1 else 0) = (if rpClosed (fst r) then 1 else 0))"

lemma closings_simps [simp]:
  "closings [] = 0" "closings (es @ fs) = closings es + closings fs"
  "closings (e # es) = (if e = SocketClosed then Suc (closings es) else closings es)"
  "closings (map (\<lambda>(j, c). Rejected j f) m) = 0"
  "closings (sendUncaught env ok msg) = 0" "closings (settleReply env ok rid sch out) = 0"
  by (auto simp: closings_def sendUncaught_def settleReply_def Let_def filter_empty_conv
      split: handlerOutcome.split option.split sendOutcome.split)

lemma fail_endsOnce [simp]: "endsOnce st (peerFail st)"
  by (simp add: endsOnce_def peerFail_def)

lemma fail_closings: "closings (snd (peerFail st)) = (if rpClosed st then 0 else 1)" "rpClosed (fst (peerFail st))"
  by (simp_all add: peerFail_def)

lemma request_closings:
  "closings (snd (receiveRequest env ok rid meth params st)) = 0"
  "rpClosed (fst (receiveRequest env ok rid meth params st)) = rpClosed st"
  "closings (receiveNote env meth params) = 0"
  by (simp_all add: receiveRequest_def receiveNote_def split: handlerLookup.split rpcHandler.split option.split)

lemma receive_endsOnce: "endsOnce st (peerReceive env ok frame st)"
proof (rule peerReceive_cases)
  show "endsOnce st (receiveReply env k answer (st\<lparr>rpHeard := True\<rparr>))" if "\<not> rpClosed st" for k answer
    using that by (simp add: endsOnce_def receiveReply_def rejectAndFail_def fail_closings case_prod_beta Let_def
        split: option.split sum.split)
qed (simp_all add: endsOnce_def request_closings fail_closings)

lemma step_endsOnce: "endsOnce st (peerStep env st op)"
proof (cases op)
  case (CallOp ok aborted meth params sch ed)
  have "endsOnce st (snd (peerCall env ok aborted meth params sch ed st))"
    by (rule peerCall_cases) (simp_all add: endsOnce_def fail_closings)
  with CallOp show ?thesis by simp
next
  case (FrameOp ok frame)
  then show ?thesis by (simp add: receive_endsOnce)
qed (auto simp: endsOnce_def peerAbandon_def peerNotify_def handlerSettles_def fail_closings
       peerTick_def Let_def case_prod_beta split: sendOutcome.split)

lemma run_endsOnce: "endsOnce st (peerRun env st ops)"
proof (induction ops arbitrary: st)
  case (Cons op ops)
  show ?case
    using step_endsOnce [of st env op] Cons.IH [of "fst (peerStep env st op)"]
    by (simp add: endsOnce_def case_prod_beta split: if_splits)
qed (simp add: endsOnce_def)

lemma peerRun_append:
  "peerRun env st (xs @ ys) =
     (let (st1, evs) = peerRun env st xs; (st2, evs') = peerRun env st1 ys in (st2, evs @ evs'))"
  by (induction xs arbitrary: st) (simp_all add: case_prod_beta Let_def)

text \<open>Closing is final: once a peer has closed, by its owner, a silent link, a protocol violation or a failed
  send, nothing that happens afterwards sends a frame, starts a handler, settles a promise or closes the socket a second time.\<close>

theorem closed_is_final:
  "let (st1, evs1) = peerRun env newPeer before; (st2, evs2) = peerRun env newPeer (before @ after)
   in closings evs1 = (if rpClosed st1 then 1 else 0) \<and> (if rpClosed st1 then evs2 = evs1 else True)"
proof -
  have "rpClosed (fst (peerRun env newPeer before)) \<Longrightarrow> rpPending (fst (peerRun env newPeer before)) = []"
    using peerWf_run [OF peerWf_new, of env before] by (simp add: peerWf_def)
  then show ?thesis
    using peer_closed_run [of "fst (peerRun env newPeer before)" env after] run_endsOnce [of newPeer env before]
    by (simp add: peerRun_append case_prod_beta Let_def endsOnce_def newPeer_def)
qed

definition pingMsg :: wireMessage where
  "pingMsg = NoteMsg heartbeatMethod (JObj [])"

lemma tick_first:
  assumes "\<not> rpClosed st" "rpHeard st" "messageSize env pingMsg \<le> maxFrameBytes env"
  shows "peerTick env True st = (st\<lparr>rpMissed := 0, rpHeard := False\<rparr>, [Sent pingMsg])"
  using assms by (simp add: peerTick_def Let_def trySend_def pingMsg_def)

lemma tick_silent:
  assumes "\<not> rpClosed st" "\<not> rpHeard st" "Suc (rpMissed st) < missedIntervals env"
    "messageSize env pingMsg \<le> maxFrameBytes env"
  shows "peerTick env True st = (st\<lparr>rpMissed := Suc (rpMissed st), rpHeard := False\<rparr>, [Sent pingMsg])"
  using assms by (simp add: peerTick_def Let_def trySend_def pingMsg_def)

lemma tick_last:
  assumes "\<not> rpClosed st" "\<not> rpHeard st" "Suc (rpMissed st) \<ge> missedIntervals env"
  shows "rpClosed (fst (peerTick env True st))"
  using assms by (simp add: peerTick_def Let_def fail_closings)

lemma closed_ticks: "rpClosed st \<Longrightarrow> rpClosed (fst (peerRun env st (replicate m (TickOp True))))"
  by (induction m arbitrary: st) (simp_all add: case_prod_beta peerTick_def)

lemma silent_ticks:
  assumes "\<not> rpClosed st" "\<not> rpHeard st" "rpMissed st < missedIntervals env" "messageSize env pingMsg \<le> maxFrameBytes env"
  shows "rpClosed (fst (peerRun env st (replicate m (TickOp True)))) \<longleftrightarrow> rpMissed st + m \<ge> missedIntervals env"
  using assms
proof (induction m arbitrary: st)
  case (Suc m)
  show ?case
  proof (cases "Suc (rpMissed st) < missedIntervals env")
    case True
    show ?thesis
      using Suc.prems True Suc.IH [of "st\<lparr>rpMissed := Suc (rpMissed st), rpHeard := False\<rparr>"]
      by (simp add: case_prod_beta tick_silent)
  next
    case False
    then show ?thesis
      using Suc.prems closed_ticks [OF tick_last, of st env env m] by (simp add: case_prod_beta)
  qed
qed simp

text \<open>The heartbeat allows exactly the silence it is configured for: after a peer has heard the other end, it
  survives as many further intervals without a frame as it may miss, pinging each time, and the next one closes it.\<close>

theorem heartbeat_exact:
  assumes "\<not> rpClosed st" "rpHeard st" "0 < missedIntervals env" "messageSize env pingMsg \<le> maxFrameBytes env"
  shows "rpClosed (fst (peerRun env st (replicate m (TickOp True)))) \<longleftrightarrow> m > missedIntervals env"
proof (cases m)
  case (Suc l)
  then show ?thesis
    using assms silent_ticks [of "st\<lparr>rpMissed := 0, rpHeard := False\<rparr>" env l]
    by (simp add: case_prod_beta tick_first less_Suc_eq_le)
qed (use assms in simp)

lemma heartbeat_exact_witness:
  "\<not> rpClosed (fst (peerRun echoEnv newPeer (replicate 3 (TickOp True))))
   \<and> rpClosed (fst (peerRun echoEnv newPeer (replicate 4 (TickOp True))))"
proof -
  have "rpClosed (fst (peerRun echoEnv newPeer (replicate m (TickOp True)))) \<longleftrightarrow> m > missedIntervals echoEnv" for m
    by (rule heartbeat_exact) (simp_all add: newPeer_def echoEnv_def)
  moreover have "missedIntervals echoEnv = 3" by (simp add: echoEnv_def)
  ultimately show ?thesis by simp
qed

text \<open>Names every object inherits are taken for registered methods: whatever methods are registered, as long as
  none of them has such a name, a well-formed request for \<open>constructor\<close>, \<open>toString\<close> or another member of the object prototype
  makes \<open>receive\<close> throw: it is neither answered with an error nor closes the peer, and every other unregistered name
  is answered with the method-not-found error.\<close>

theorem inherited_names_throw:
  assumes "\<not> rpClosed st" "frameSize env frame = Some n" "n \<le> maxFrameBytes env"
    "parseFrame env frame = Some (RequestMsg rid meth params)" "map_of (rpcHandlers env) meth = None"
    "messageSize env (ErrorMsg rid methodNotFound ''Method not found'' None) \<le> maxFrameBytes env"
  shows "peerReceive env True frame st =
     (st\<lparr>rpHeard := True\<rparr>,
      if meth \<in> set objectPrototype then [Uncaught] else [Sent (ErrorMsg rid methodNotFound ''Method not found'' None)])"
  using assms by (simp add: peerReceive_def receiveRequest_def findHandler_def sendUncaught_def trySend_def Let_def)

lemma inherited_names_throw_witness:
  "peerReceive echoEnv True (RequestMsg (NumId 1) ''constructor'' JNull) newPeer = (newPeer, [Uncaught])"
  using inherited_names_throw [of newPeer echoEnv "RequestMsg (NumId 1) ''constructor'' JNull" 1 "NumId 1" "''constructor''" JNull]
  by (simp add: newPeer_def echoEnv_def objectPrototype_def)

end
