(* ===== verification/Node_Streams.thy ===== *)
theory Node_Streams
  imports Ndjson_Socket
begin

text \<open>
  Streams from a node to the server: the sender of \<^verbatim>\<open>packages/node/src/node-connection/streams.ts\<close> and the
  registry of \<^verbatim>\<open>packages/backend/src/nodes/node-streams.ts\<close>. A source is the list of items its iterator
  yields and how it ends. A stop of the stream (a cancel, a closed connection) is the number of frames
  offered to the link before it; \<open>linkOk n\<close> says whether the link takes the frame offered as number \<open>n\<close>.
  The decoder of a text stream is the platform's UTF-8 decoder, byte by byte: what is not UTF-8 becomes
  U+FFFD and a leading byte order mark is dropped, the default of \<open>TextDecoder\<close>.
\<close>

subsection \<open>The streaming decoder\<close>

record u8State =
  u8Need :: nat
  u8Point :: nat
  u8Lower :: nat
  u8Upper :: nat
  u8BomSeen :: bool

definition u8Start :: u8State where
  "u8Start = \<lparr>u8Need = 0, u8Point = 0, u8Lower = 0x80, u8Upper = 0xBF, u8BomSeen = False\<rparr>"

definition replacementCp :: nat where "replacementCp = 0xFFFD"
definition bomCp :: nat where "bomCp = 0xFEFF"

definition u8Lead :: "u8State \<Rightarrow> nat \<Rightarrow> u8State \<times> nat list" where
  "u8Lead st b =
     (if b < 0x80 then (st, [b])
      else if 0xC2 \<le> b \<and> b < 0xE0 then (st\<lparr>u8Need := 1, u8Point := b mod 32\<rparr>, [])
      else if 0xE0 \<le> b \<and> b < 0xF0
      then (st\<lparr>u8Need := 2, u8Point := b mod 16, u8Lower := if b = 0xE0 then 0xA0 else 0x80,
               u8Upper := if b = 0xED then 0x9F else 0xBF\<rparr>, [])
      else if 0xF0 \<le> b \<and> b < 0xF5
      then (st\<lparr>u8Need := 3, u8Point := b mod 8, u8Lower := if b = 0xF0 then 0x90 else 0x80,
               u8Upper := if b = 0xF4 then 0x8F else 0xBF\<rparr>, [])
      else (st, [replacementCp]))"

definition u8Reset :: "u8State \<Rightarrow> u8State" where
  "u8Reset st = st\<lparr>u8Need := 0, u8Point := 0, u8Lower := 0x80, u8Upper := 0xBF\<rparr>"

definition u8Byte :: "u8State \<Rightarrow> nat \<Rightarrow> u8State \<times> nat list" where
  "u8Byte st b =
     (if u8Need st = 0 then u8Lead st b
      else if b < u8Lower st \<or> b > u8Upper st
      then (let (st', cps) = u8Lead (u8Reset st) b in (st', replacementCp # cps))
      else let cp = u8Point st * 64 + b mod 64
           in if u8Need st = 1 then (u8Reset st, [cp])
              else (st\<lparr>u8Need := u8Need st - 1, u8Point := cp, u8Lower := 0x80, u8Upper := 0xBF\<rparr>, []))"

text \<open>The byte order mark is looked for in the first code point decoded, once.\<close>

definition u8Emit :: "u8State \<Rightarrow> nat list \<Rightarrow> u8State \<times> nat list" where
  "u8Emit st cps =
     (if cps = [] \<or> u8BomSeen st then (st, cps)
      else (st\<lparr>u8BomSeen := True\<rparr>, if hd cps = bomCp then tl cps else cps))"

fun u8Feed :: "u8State \<Rightarrow> nat list \<Rightarrow> u8State \<times> nat list" where
  "u8Feed st [] = (st, [])"
| "u8Feed st (b # bs) =
     (let (st1, cps) = u8Byte st b; (st2, out) = u8Emit st1 cps; (st3, more) = u8Feed st2 bs in (st3, out @ more))"

definition u8Flush :: "u8State \<Rightarrow> nat list" where
  "u8Flush st = (if u8Need st = 0 then [] else snd (u8Emit st [replacementCp]))"

text \<open>\<open>TextEncoder\<close>: a lone surrogate becomes U+FFFD.\<close>

definition encodeText :: "nat list \<Rightarrow> byte list" where
  "encodeText cps = utf8Encode (map (\<lambda>c. if scalar c then c else replacementCp) cps)"

subsection \<open>Base64\<close>

definition base64Alphabet :: string where
  "base64Alphabet = ''ABCDEFGHIJKLMNOPQRSTUVWXYZabcdefghijklmnopqrstuvwxyz0123456789+/''"

definition b64Char :: "nat \<Rightarrow> char" where
  "b64Char n = base64Alphabet ! n"

fun base64Encode :: "nat list \<Rightarrow> string" where
  "base64Encode [] = []"
| "base64Encode [a] = [b64Char (a div 4), b64Char (a mod 4 * 16), CHR ''='', CHR ''='']"
| "base64Encode [a, b] = [b64Char (a div 4), b64Char (a mod 4 * 16 + b div 16), b64Char (b mod 16 * 4), CHR ''='']"
| "base64Encode (a # b # c # r) =
     b64Char (a div 4) # b64Char (a mod 4 * 16 + b div 16) # b64Char (b mod 16 * 4 + c div 64) # b64Char (c mod 64)
     # base64Encode r"

text \<open>\<open>Buffer.from\<close> reads the URL alphabet too, skips what is neither and stops at the padding.\<close>

definition b64Value :: "char \<Rightarrow> nat option" where
  "b64Value c =
     (if c = CHR ''-'' then Some 62 else if c = CHR ''_'' then Some 63 else findIndex (\<lambda>d. d = c) base64Alphabet)"

fun b64Groups :: "nat list \<Rightarrow> nat list" where
  "b64Groups (w # x # y # z # r) = (w * 4 + x div 16) # (x mod 16 * 16 + y div 4) # (y mod 4 * 64 + z) # b64Groups r"
| "b64Groups [w, x, y] = [w * 4 + x div 16, x mod 16 * 16 + y div 4]"
| "b64Groups [w, x] = [w * 4 + x div 16]"
| "b64Groups _ = []"

definition base64Decode :: "string \<Rightarrow> nat list" where
  "base64Decode s = b64Groups (List.map_filter b64Value (takeWhile (\<lambda>c. c \<noteq> CHR ''='') s))"

subsection \<open>Frames\<close>

record processExit =
  peCode :: "int option"
  peSignal :: "string option"
  peStderr :: string

datatype streamPayload = TextPayload "nat list" | Base64Payload string

record streamData =
  sdStream :: string
  sdOffset :: nat
  sdPayload :: streamPayload

record streamEnd =
  seStream :: string
  seError :: "string option"
  seExit :: "processExit option"

datatype streamFrame = DataFrame streamData | EndFrame streamEnd

subsection \<open>The sender\<close>

definition streamChunkBytes :: nat where "streamChunkBytes = 65536"
definition maxErrorMessageChars :: nat where "maxErrorMessageChars = 2048"

datatype sourceItem = TextItem "nat list" | BytesItem "byte list"
datatype sourceEnd = SourceReturns "processExit option" | SourceThrows string | SourceWaits

definition itemBytes :: "sourceItem \<Rightarrow> byte list" where
  "itemBytes i = (case i of TextItem cps \<Rightarrow> encodeText cps | BytesItem bs \<Rightarrow> bs)"

function chunkPieces :: "nat \<Rightarrow> 'a list \<Rightarrow> 'a list list" where
  "chunkPieces k bs = (if bs = [] \<or> k = 0 then [] else take k bs # chunkPieces k (drop k bs))"
  by pat_completeness auto
termination by (relation "measure (\<lambda>(k, bs). length bs)") auto

declare chunkPieces.simps [simp del]

text \<open>A pump: what it has offered and sent, its offset and its decoder. It runs until it stops or fails.\<close>

record pumpState =
  puOffered :: nat
  puSent :: "streamFrame list"
  puOffset :: nat
  puDecoder :: u8State

datatype pumpStatus = PumpRuns | PumpStopped | PumpFailed string

definition pumpAborted :: "nat option \<Rightarrow> pumpState \<Rightarrow> bool" where
  "pumpAborted stopAt p = (case stopAt of None \<Rightarrow> False | Some n \<Rightarrow> puOffered p \<ge> n)"

definition pumpOffer :: "(nat \<Rightarrow> bool) \<Rightarrow> streamFrame \<Rightarrow> pumpState \<Rightarrow> bool \<times> pumpState" where
  "pumpOffer linkOk frame p =
     (let ok = linkOk (puOffered p)
      in (ok, p\<lparr>puOffered := Suc (puOffered p), puSent := if ok then puSent p @ [frame] else puSent p\<rparr>))"

definition pumpSend ::
  "(nat \<Rightarrow> bool) \<Rightarrow> nat option \<Rightarrow> string \<Rightarrow> streamPayload \<Rightarrow> nat \<Rightarrow> pumpState \<Rightarrow> pumpStatus \<times> pumpState" where
  "pumpSend linkOk stopAt streamId payload len p =
     (if len = 0 \<or> pumpAborted stopAt p then (PumpRuns, p)
      else let (ok, p') = pumpOffer linkOk (DataFrame \<lparr>sdStream = streamId, sdOffset = puOffset p, sdPayload = payload\<rparr>) p
           in if ok then (PumpRuns, p'\<lparr>puOffset := puOffset p + len\<rparr>)
              else (PumpFailed ''Stream chunk could not be sent'', p'))"

definition pumpSendText ::
  "(nat \<Rightarrow> bool) \<Rightarrow> nat option \<Rightarrow> string \<Rightarrow> nat list \<Rightarrow> pumpState \<Rightarrow> pumpStatus \<times> pumpState" where
  "pumpSendText linkOk stopAt streamId cps p =
     pumpSend linkOk stopAt streamId (TextPayload cps) (length (encodeText cps)) p"

definition pumpPiece ::
  "(nat \<Rightarrow> bool) \<Rightarrow> nat option \<Rightarrow> string \<Rightarrow> bool \<Rightarrow> byte list \<Rightarrow> pumpState \<Rightarrow> pumpStatus \<times> pumpState" where
  "pumpPiece linkOk stopAt streamId binary piece p =
     (if binary
      then pumpSend linkOk stopAt streamId (Base64Payload (base64Encode (map unat piece))) (length piece) p
      else let (decoder, cps) = u8Feed (puDecoder p) (map unat piece)
           in pumpSendText linkOk stopAt streamId cps (p\<lparr>puDecoder := decoder\<rparr>))"

fun pumpPieces ::
  "(nat \<Rightarrow> bool) \<Rightarrow> nat option \<Rightarrow> string \<Rightarrow> bool \<Rightarrow> byte list list \<Rightarrow> pumpState \<Rightarrow> pumpStatus \<times> pumpState" where
  "pumpPieces linkOk stopAt streamId binary [] p = (PumpRuns, p)"
| "pumpPieces linkOk stopAt streamId binary (piece # pieces) p =
     (case pumpPiece linkOk stopAt streamId binary piece p of
        (PumpRuns, p') \<Rightarrow> if pumpAborted stopAt p' then (PumpStopped, p') else pumpPieces linkOk stopAt streamId binary pieces p'
      | r \<Rightarrow> r)"

definition pumpEnd ::
  "(nat \<Rightarrow> bool) \<Rightarrow> nat option \<Rightarrow> string \<Rightarrow> string option \<Rightarrow> processExit option \<Rightarrow> pumpState \<Rightarrow> pumpState" where
  "pumpEnd linkOk stopAt streamId err exit p =
     (if pumpAborted stopAt p then p
      else snd (pumpOffer linkOk (EndFrame \<lparr>seStream = streamId, seError = err, seExit = exit\<rparr>) p))"

definition pumpFailure :: "(nat \<Rightarrow> bool) \<Rightarrow> nat option \<Rightarrow> string \<Rightarrow> string \<Rightarrow> pumpState \<Rightarrow> pumpState" where
  "pumpFailure linkOk stopAt streamId msg p = pumpEnd linkOk stopAt streamId (Some (take maxErrorMessageChars msg)) None p"

fun pumpItems ::
  "(nat \<Rightarrow> bool) \<Rightarrow> nat option \<Rightarrow> string \<Rightarrow> bool \<Rightarrow> sourceItem list \<Rightarrow> sourceEnd \<Rightarrow> pumpState \<Rightarrow> pumpState" where
  "pumpItems linkOk stopAt streamId binary [] ending p =
     (if pumpAborted stopAt p then p
      else case ending of
        SourceWaits \<Rightarrow> p
      | SourceThrows msg \<Rightarrow> pumpFailure linkOk stopAt streamId msg p
      | SourceReturns exit \<Rightarrow>
          (case (if binary then (PumpRuns, p) else pumpSendText linkOk stopAt streamId (u8Flush (puDecoder p)) p) of
             (PumpFailed msg, p') \<Rightarrow> pumpFailure linkOk stopAt streamId msg p'
           | (_, p') \<Rightarrow> pumpEnd linkOk stopAt streamId None exit p'))"
| "pumpItems linkOk stopAt streamId binary (item # items) ending p =
     (if pumpAborted stopAt p then p
      else case pumpPieces linkOk stopAt streamId binary (chunkPieces streamChunkBytes (itemBytes item)) p of
        (PumpRuns, p') \<Rightarrow> pumpItems linkOk stopAt streamId binary items ending p'
      | (PumpStopped, p') \<Rightarrow> p'
      | (PumpFailed msg, p') \<Rightarrow> pumpFailure linkOk stopAt streamId msg p')"

definition newPump :: pumpState where
  "newPump = \<lparr>puOffered = 0, puSent = [], puOffset = 0, puDecoder = u8Start\<rparr>"

text \<open>The frames one stream sends.\<close>

definition pumpFrames ::
  "(nat \<Rightarrow> bool) \<Rightarrow> nat option \<Rightarrow> string \<Rightarrow> bool \<Rightarrow> sourceItem list \<Rightarrow> sourceEnd \<Rightarrow> streamFrame list" where
  "pumpFrames linkOk stopAt streamId binary items ending = puSent (pumpItems linkOk stopAt streamId binary items ending newPump)"

subsection \<open>The registry\<close>

datatype streamError =
    OffsetGap nat nat
  | BufferExceeded nat
  | ConnectionClosed
  | StreamCancelled
  | NodeError string
  | OpeningRefused string

text \<open>A body is its consumer's readable stream: the chunks enqueued and not read yet, whether the stream
  was closed, cancelled or errored, what \<open>ended\<close> settled to, the bytes its consumer has read and the reads
  it waits in. Erroring and cancelling drop what is not read; a chunk goes to a waiting read at once.\<close>

datatype bodyState = BodyOpen | BodyClosing | BodyCancelled | BodyErrored streamError

record streamBody =
  sbQueue :: "byte list list"
  sbState :: bodyState
  sbEnded :: "(streamError + processExit option) option"
  sbRead :: "byte list"
  sbWaiting :: nat

definition freshBody :: streamBody where
  "freshBody = \<lparr>sbQueue = [], sbState = BodyOpen, sbEnded = None, sbRead = [], sbWaiting = 0\<rparr>"

definition bodyQueued :: "streamBody \<Rightarrow> nat" where
  "bodyQueued b = length (concat (sbQueue b))"

definition errorBody :: "streamError \<Rightarrow> streamBody \<Rightarrow> streamBody" where
  "errorBody e b = b\<lparr>sbQueue := [], sbState := BodyErrored e, sbEnded := Some (Inl e), sbWaiting := 0\<rparr>"

definition closeBody :: "processExit option \<Rightarrow> streamBody \<Rightarrow> streamBody" where
  "closeBody exit b = b\<lparr>sbState := BodyClosing, sbEnded := Some (Inr exit), sbWaiting := 0\<rparr>"

definition enqueueChunk :: "byte list \<Rightarrow> streamBody \<Rightarrow> streamBody" where
  "enqueueChunk bytes b =
     (if sbWaiting b > 0 then b\<lparr>sbWaiting := sbWaiting b - 1, sbRead := sbRead b @ bytes\<rparr>
      else b\<lparr>sbQueue := sbQueue b @ [bytes]\<rparr>)"

text \<open>\<open>rgStreams\<close>: the bytes received on each open stream. A stream keeps its body once it is no longer open.\<close>

record streamRegistry =
  rgStreams :: "(string, nat) jsmap"
  rgBodies :: "(string, streamBody) jsmap"
  rgClosed :: bool

definition emptyRegistry :: streamRegistry where
  "emptyRegistry = \<lparr>rgStreams = [], rgBodies = [], rgClosed = False\<rparr>"

definition bodyOf :: "streamRegistry \<Rightarrow> string \<Rightarrow> streamBody" where
  "bodyOf r i = orElse (jmGet (rgBodies r) i) freshBody"

definition updateBody :: "string \<Rightarrow> (streamBody \<Rightarrow> streamBody) \<Rightarrow> streamRegistry \<Rightarrow> streamRegistry" where
  "updateBody i f r = r\<lparr>rgBodies := jmSet i (f (bodyOf r i)) (rgBodies r)\<rparr>"

text \<open>An operation returns the streams the node is told to cancel.\<close>

definition failStream :: "string \<Rightarrow> streamError \<Rightarrow> streamRegistry \<Rightarrow> streamRegistry \<times> string list" where
  "failStream i e r = (updateBody i (errorBody e) (r\<lparr>rgStreams := jmDelete i (rgStreams r)\<rparr>), [i])"

text \<open>\<open>open\<close> up to sending the opening request: the ID is a fresh UUID. \<open>None\<close> when the connection has closed.\<close>

definition openStream :: "string \<Rightarrow> streamRegistry \<Rightarrow> streamRegistry option" where
  "openStream i r =
     (if rgClosed r then None
      else Some (r\<lparr>rgStreams := jmSet i 0 (rgStreams r), rgBodies := jmSet i freshBody (rgBodies r)\<rparr>))"

definition openingRefused :: "string \<Rightarrow> string \<Rightarrow> streamRegistry \<Rightarrow> streamRegistry \<times> string list" where
  "openingRefused i msg r = (if jmHas (rgStreams r) i then failStream i (OpeningRefused msg) r else (r, []))"

text \<open>The consumer cancels the body: what it has not read is dropped, and an open stream ends.\<close>

definition cancelBody :: "string \<Rightarrow> streamRegistry \<Rightarrow> streamRegistry \<times> string list" where
  "cancelBody i r =
     (case sbState (bodyOf r i) of
        BodyErrored e \<Rightarrow> (r, [])
      | BodyCancelled \<Rightarrow> (r, [])
      | _ \<Rightarrow>
          (let r' = updateBody i (\<lambda>b. b\<lparr>sbQueue := [], sbState := BodyCancelled, sbWaiting := 0\<rparr>) r
           in if jmHas (rgStreams r) i
              then (updateBody i (\<lambda>b. b\<lparr>sbEnded := Some (Inl StreamCancelled)\<rparr>) (r'\<lparr>rgStreams := jmDelete i (rgStreams r)\<rparr>), [i])
              else (r', [])))"

definition payloadBytes :: "streamPayload \<Rightarrow> byte list" where
  "payloadBytes p = (case p of TextPayload cps \<Rightarrow> encodeText cps | Base64Payload s \<Rightarrow> map of_nat (base64Decode s))"

definition streamDataArrives :: "nat \<Rightarrow> streamData \<Rightarrow> streamRegistry \<Rightarrow> streamRegistry \<times> string list" where
  "streamDataArrives maxBuffered d r =
     (case jmGet (rgStreams r) (sdStream d) of
        None \<Rightarrow> (r, [sdStream d])
      | Some received \<Rightarrow>
          if sdOffset d \<noteq> received then failStream (sdStream d) (OffsetGap received (sdOffset d)) r
          else let bytes = payloadBytes (sdPayload d);
                   r' = updateBody (sdStream d) (enqueueChunk bytes)
                          (r\<lparr>rgStreams := jmSet (sdStream d) (received + length bytes) (rgStreams r)\<rparr>)
               in if bodyQueued (bodyOf r' (sdStream d)) > maxBuffered
                  then failStream (sdStream d) (BufferExceeded maxBuffered) r' else (r', []))"

definition streamEndArrives :: "streamEnd \<Rightarrow> streamRegistry \<Rightarrow> streamRegistry \<times> string list" where
  "streamEndArrives e r =
     (if \<not> jmHas (rgStreams r) (seStream e) then (r, [])
      else let r' = r\<lparr>rgStreams := jmDelete (seStream e) (rgStreams r)\<rparr>
           in (updateBody (seStream e)
                 (case seError e of None \<Rightarrow> closeBody (seExit e) | Some msg \<Rightarrow> errorBody (NodeError msg)) r', []))"

fun failBodies :: "string list \<Rightarrow> streamRegistry \<Rightarrow> streamRegistry" where
  "failBodies [] r = r"
| "failBodies (i # is) r = failBodies is (updateBody i (errorBody ConnectionClosed) r)"

definition closeRegistry :: "streamRegistry \<Rightarrow> streamRegistry" where
  "closeRegistry r = (failBodies (map fst (rgStreams r)) r)\<lparr>rgStreams := [], rgClosed := True\<rparr>"

text \<open>The consumer reads the next chunk, or waits for one.\<close>

definition readBody :: "string \<Rightarrow> streamRegistry \<Rightarrow> streamRegistry" where
  "readBody i r =
     (case sbQueue (bodyOf r i) of
        [] \<Rightarrow> if sbState (bodyOf r i) = BodyOpen \<and> jmHas (rgStreams r) i
               then updateBody i (\<lambda>b. b\<lparr>sbWaiting := Suc (sbWaiting b)\<rparr>) r else r
      | chunk # rest \<Rightarrow> updateBody i (\<lambda>b. b\<lparr>sbQueue := rest, sbRead := sbRead b @ chunk\<rparr>) r)"

datatype registryOp =
    OpenOp string
  | RefusedOp string string
  | FrameArrives streamFrame
  | ReadOp string
  | CancelOp string
  | CloseRegistryOp

fun registryStep :: "nat \<Rightarrow> streamRegistry \<Rightarrow> registryOp \<Rightarrow> streamRegistry \<times> string list" where
  "registryStep m r (OpenOp i) = (case openStream i r of None \<Rightarrow> (r, []) | Some r' \<Rightarrow> (r', []))"
| "registryStep m r (RefusedOp i msg) = openingRefused i msg r"
| "registryStep m r (FrameArrives (DataFrame d)) = streamDataArrives m d r"
| "registryStep m r (FrameArrives (EndFrame e)) = streamEndArrives e r"
| "registryStep m r (ReadOp i) = (readBody i r, [])"
| "registryStep m r (CancelOp i) = cancelBody i r"
| "registryStep m r CloseRegistryOp = (closeRegistry r, [])"

fun registryRun :: "nat \<Rightarrow> streamRegistry \<Rightarrow> registryOp list \<Rightarrow> streamRegistry \<times> string list" where
  "registryRun m r [] = (r, [])"
| "registryRun m r (op # ops) =
     (let (r1, cs) = registryStep m r op; (r2, more) = registryRun m r1 ops in (r2, cs @ more))"

end
