(* ===== verification/Stream_Laws.thy ===== *)
theory Stream_Laws
  imports Node_Streams Ndjson_Laws
begin

text \<open>
  A stream is faithful: the decoder and base64 read back what was encoded, the sender's frames carry the
  source's bytes at their offsets, and the registry hands the consumer a prefix of them, or all of them.
\<close>

subsection \<open>Base64\<close>

lemma b64Value_char: "n < 64 \<Longrightarrow> b64Value (b64Char n) = Some n \<and> b64Char n \<noteq> CHR ''=''"
proof -
  have "list_all (\<lambda>n. b64Value (b64Char n) = Some n \<and> b64Char n \<noteq> CHR ''='') [0..<64]"
    by code_simp
  then show "n < 64 \<Longrightarrow> ?thesis" by (simp add: list_all_iff)
qed

definition sextets :: "string \<Rightarrow> nat list" where
  "sextets s = List.map_filter b64Value (takeWhile (\<lambda>c. c \<noteq> CHR ''='') s)"

lemma sextets_simps:
  "n < 64 \<Longrightarrow> sextets (b64Char n # cs) = n # sextets cs" "sextets [] = []" "sextets (CHR ''='' # cs) = []"
  using b64Value_char [of n] by (simp_all add: sextets_def List.map_filter_simps)

lemma base64Decode_sextets: "base64Decode s = b64Groups (sextets s)"
  by (simp add: base64Decode_def sextets_def)

lemma regroup:
  "b < 256 \<Longrightarrow> b div 16 div 16 = (0::nat)" "b < 256 \<Longrightarrow> b div 16 mod 16 = (b::nat) div 16"
  "b < 256 \<Longrightarrow> b div 64 div 4 = (0::nat)" "b < 256 \<Longrightarrow> b div 64 mod 4 = (b::nat) div 64"
  by (auto intro!: mod_less)

lemma base64_roundtrip: "list_all (\<lambda>b. b < 256) bs \<Longrightarrow> base64Decode (base64Encode bs) = bs"
proof (induction bs rule: base64Encode.induct)
  case (4 a b c r)
  have 1: "a div 4 < 64" "a mod 4 * 16 + b div 16 < 64" "b mod 16 * 4 + c div 64 < 64" "c mod 64 < 64"
    using 4(2) by auto
  have 2: "a div 4 * 4 + (a mod 4 * 16 + b div 16) div 16 = a"
    "(a mod 4 * 16 + b div 16) mod 16 * 16 + (b mod 16 * 4 + c div 64) div 4 = b"
    "(b mod 16 * 4 + c div 64) mod 4 * 64 + c mod 64 = c"
    using 4(2) by (simp_all add: regroup)
  from 4 show ?case
    using 2 by (simp add: base64Decode_sextets sextets_simps(1) [OF 1(1)] sextets_simps(1) [OF 1(2)] sextets_simps(1) [OF 1(3)] sextets_simps(1) [OF 1(4)])
next
  case (3 a b)
  have 1: "a div 4 < 64" "a mod 4 * 16 + b div 16 < 64" "b mod 16 * 4 < 64" using 3 by auto
  have 2: "a div 4 * 4 + (a mod 4 * 16 + b div 16) div 16 = a"
    "(a mod 4 * 16 + b div 16) mod 16 * 16 + (b mod 16 * 4) div 4 = b"
    using 3 by (simp_all add: regroup)
  show ?case
    using 2 by (simp add: base64Decode_sextets sextets_simps(2,3) sextets_simps(1) [OF 1(1)] sextets_simps(1) [OF 1(2)] sextets_simps(1) [OF 1(3)])
next
  case (2 a)
  have 1: "a div 4 < 64" "a mod 4 * 16 < 64" using 2 by auto
  have "a div 4 * 4 + (a mod 4 * 16) div 16 = a" by auto
  then show ?case
    by (simp add: base64Decode_sextets sextets_simps(2,3) sextets_simps(1) [OF 1(1)] sextets_simps(1) [OF 1(2)])
qed (simp add: base64Decode_sextets sextets_simps)

lemma payload_base64: "payloadBytes (Base64Payload (base64Encode (map unat bs))) = bs"
proof -
  have "list_all (\<lambda>b. b < 256) (map unat (bs :: byte list))"
    by (auto simp: list_all_iff intro: order_less_le_trans [OF unsigned_less])
  then show ?thesis by (simp add: payloadBytes_def base64_roundtrip o_def)
qed

subsection \<open>The decoder\<close>

lemma u8Feed_append:
  "u8Feed st (xs @ ys) = (let (st1, a) = u8Feed st xs; (st2, b) = u8Feed st1 ys in (st2, a @ b))"
  by (induction xs arbitrary: st) (simp_all add: case_prod_beta Let_def)

definition u8Idle :: "bool \<Rightarrow> u8State" where
  "u8Idle seen = \<lparr>u8Need = 0, u8Point = 0, u8Lower = 0x80, u8Upper = 0xBF, u8BomSeen = seen\<rparr>"

lemma lead_bits:
  "q < 32 \<Longrightarrow> (192 + q) mod 32 = (q::nat)" "p < 16 \<Longrightarrow> (224 + p) mod 16 = (p::nat)" "l < 8 \<Longrightarrow> (240 + l) mod 8 = (l::nat)"
  "r < 64 \<Longrightarrow> (128 + r) mod 64 = (r::nat)"
  using mod_mult_self1 [of q 6 32] mod_mult_self1 [of p 14 16] mod_mult_self1 [of l 30 8] mod_mult_self1 [of r 2 64]
  by (simp_all add: add.commute)

lemma u8_char:
  assumes "scalar n"
  shows "u8Feed (u8Idle seen) (encodeCp n) = (u8Idle True, if \<not> seen \<and> n = bomCp then [] else [n])"
proof -
  define r where "r = n mod 64"
  define s where "s = n div 64 mod 64"
  define t where "t = n div 4096 mod 64"
  have rst: "r < 64" "s < 64" "t < 64" by (simp_all add: r_def s_def t_def)
  consider "n < 0x80" | "0x80 \<le> n" "n < 0x800" | "0x800 \<le> n" "n < 0x10000" | "0x10000 \<le> n" "n < 0x110000"
    using assms unfolding scalar_def by linarith
  then show ?thesis
  proof cases
    case 1
    then show ?thesis
      by (cases seen) (auto simp: encodeCp_def u8Idle_def u8Byte_def u8Lead_def u8Emit_def bomCp_def)
  next
    case 2
    define q where "q = n div 64"
    from 2 have q: "2 \<le> q" "q < 32" and n: "n = q * 64 + r" by (auto simp: q_def r_def)
    have "encodeCp n = [0xC0 + q, 0x80 + r]" using 2 by (simp add: encodeCp_def q_def r_def)
    then show ?thesis using q rst n 2
      by (cases seen) (simp_all add: u8Idle_def u8Byte_def u8Lead_def u8Emit_def u8Reset_def bomCp_def lead_bits)
  next
    case 3
    define q where "q = n div 4096"
    from 3 have q: "q < 16" and n: "n = q * 4096 + s * 64 + r" using join3 [of n] by (auto simp: q_def r_def s_def)
    have low: "q = 0 \<Longrightarrow> 32 \<le> s" and high: "q = 13 \<Longrightarrow> s < 32" using 3 n rst assms by (auto simp: scalar_def)
    have "encodeCp n = [0xE0 + q, 0x80 + s, 0x80 + r]" using 3 by (simp add: encodeCp_def q_def r_def s_def)
    moreover have "(q * 64 + s) * 64 + r = n" using n by simp
    ultimately show ?thesis using q rst low high 3
      by (cases seen; cases "q = 13") (simp_all add: u8Idle_def u8Byte_def u8Lead_def u8Emit_def u8Reset_def lead_bits)
  next
    case 4
    define q where "q = n div 262144"
    from 4 have q: "q < 5" and n: "n = q * 262144 + t * 4096 + s * 64 + r"
      using join4 [of n] by (auto simp: q_def r_def s_def t_def)
    have low: "q = 0 \<Longrightarrow> 16 \<le> t" and high: "q = 4 \<Longrightarrow> t < 16" using 4 n rst by auto
    have "encodeCp n = [0xF0 + q, 0x80 + t, 0x80 + s, 0x80 + r]" using 4 by (simp add: encodeCp_def q_def r_def s_def t_def)
    moreover have "((q * 64 + t) * 64 + s) * 64 + r = n" using n by simp
    moreover have "n \<noteq> bomCp" using 4 by (simp add: bomCp_def)
    ultimately show ?thesis using q rst low high 4
      by (cases seen) (simp_all add: u8Idle_def u8Byte_def u8Lead_def u8Emit_def u8Reset_def lead_bits)
  qed
qed

text \<open>The text a decoder reads: without a leading byte order mark.\<close>

definition dropBom :: "nat list \<Rightarrow> nat list" where
  "dropBom cps = (case cps of c # r \<Rightarrow> if c = bomCp then r else cps | [] \<Rightarrow> [])"

lemma u8Feed_seen:
  "list_all scalar cps \<Longrightarrow> u8Feed (u8Idle True) (concat (map encodeCp cps)) = (u8Idle True, cps)"
  by (induction cps) (simp_all add: u8Feed_append u8_char)

lemma u8Feed_text:
  assumes "list_all scalar cps"
  shows "u8Need (fst (u8Feed u8Start (concat (map encodeCp cps)))) = 0
    \<and> snd (u8Feed u8Start (concat (map encodeCp cps))) = dropBom cps"
proof -
  have start: "u8Start = u8Idle False" by (simp add: u8Start_def u8Idle_def)
  show ?thesis
  proof (cases cps)
    case Nil
    then show ?thesis by (simp add: dropBom_def u8Start_def)
  next
    case (Cons c r)
    with assms have "scalar c" "list_all scalar r" by simp_all
    then show ?thesis
      by (simp add: Cons start u8Feed_append u8_char u8Feed_seen dropBom_def) (simp add: u8Idle_def)
  qed
qed

subsection \<open>What a sender sends\<close>

text \<open>The content of a stream: its source's bytes, or in a text stream what the decoder reads in them.\<close>

definition streamed :: "bool \<Rightarrow> byte list \<Rightarrow> byte list" where
  "streamed binary bs = (if binary then bs else encodeText (snd (u8Feed u8Start (map unat bs))))"

definition streamContent :: "bool \<Rightarrow> byte list \<Rightarrow> byte list" where
  "streamContent binary bs =
     (if binary then bs else streamed False bs @ encodeText (u8Flush (fst (u8Feed u8Start (map unat bs)))))"

lemma encodeText_simps [simp]: "encodeText [] = []" "encodeText (xs @ ys) = encodeText xs @ encodeText ys"
  by (simp_all add: encodeText_def utf8Encode_def)

lemma streamed_Nil [simp]: "streamed binary [] = []"
  by (simp add: streamed_def)

lemma streamed_text_append:
  "streamed False (c @ d) = streamed False c @ encodeText (snd (u8Feed (fst (u8Feed u8Start (map unat c))) (map unat d)))"
  by (simp add: streamed_def u8Feed_append case_prod_beta Let_def)

lemma streamed_prefix: "prefix c d \<Longrightarrow> prefix (streamed binary c) (streamContent binary d)"
  by (cases binary) (auto simp: prefix_def streamContent_def streamed_text_append streamed_def [of True])

fun dataRun :: "string \<Rightarrow> nat \<Rightarrow> streamFrame list \<Rightarrow> byte list \<Rightarrow> bool" where
  "dataRun i n [] bs = (bs = [])"
| "dataRun i n (DataFrame d # fs) bs =
     (sdStream d = i \<and> sdOffset d = n \<and> prefix (payloadBytes (sdPayload d)) bs
      \<and> dataRun i (n + length (payloadBytes (sdPayload d))) fs (drop (length (payloadBytes (sdPayload d))) bs))"
| "dataRun i n (EndFrame e # fs) bs = False"

lemma dataRun_snoc:
  "dataRun i n fs bs \<Longrightarrow>
     dataRun i n (fs @ [DataFrame \<lparr>sdStream = i, sdOffset = n + length bs, sdPayload = pl\<rparr>]) (bs @ payloadBytes pl)"
proof (induction i n fs bs rule: dataRun.induct)
  case (2 i n d fs bs)
  let ?p = "payloadBytes (sdPayload d)"
  from 2(2) have pre: "prefix ?p bs" by simp
  then have len: "n + length ?p + length (drop (length ?p) bs) = n + length bs"
    by (auto dest: prefix_length_le)
  from 2 have "dataRun i (n + length ?p) (fs @ [DataFrame \<lparr>sdStream = i, sdOffset = n + length ?p + length (drop (length ?p) bs), sdPayload = pl\<rparr>])
      (drop (length ?p) bs @ payloadBytes pl)" by simp
  with 2(2) pre len show ?case by (auto simp: prefix_def)
qed auto

text \<open>A run of data frames that may end: without an error only after everything, with the source's exit.\<close>

fun frameShape :: "string \<Rightarrow> byte list \<Rightarrow> sourceEnd \<Rightarrow> nat \<Rightarrow> streamFrame list \<Rightarrow> bool" where
  "frameShape i content ending n [] = True"
| "frameShape i content ending n (DataFrame d # fs) =
     (sdStream d = i \<and> sdOffset d = n \<and> prefix (payloadBytes (sdPayload d)) (drop n content)
      \<and> frameShape i content ending (n + length (payloadBytes (sdPayload d))) fs)"
| "frameShape i content ending n (EndFrame e # fs) =
     (fs = [] \<and> seStream e = i \<and> (seError e = None \<longrightarrow> length content \<le> n \<and> ending = SourceReturns (seExit e)))"

lemma prefix_dropped: "prefix xs ys \<Longrightarrow> prefix (drop k xs) (drop k ys)"
  by (auto simp: prefix_def)

lemma shape_of_run:
  "dataRun i n fs bs \<Longrightarrow> prefix bs (drop n content) \<Longrightarrow> frameShape i content ending n fs"
proof (induction i n fs bs rule: dataRun.induct)
  case (2 i n d fs bs)
  let ?p = "payloadBytes (sdPayload d)"
  from 2(2,3) have "prefix ?p (drop n content)" by (auto intro: prefix_order.trans)
  moreover have "prefix (drop (length ?p) bs) (drop (length ?p) (drop n content))"
    using 2(3) by (rule prefix_dropped)
  ultimately show ?case using 2 by (simp add: add.commute)
qed auto

lemma shape_prefix: "frameShape i content ending n (fs @ gs) \<Longrightarrow> frameShape i content ending n fs"
  by (induction i content ending n fs rule: frameShape.induct) auto

lemma shape_with_end:
  "dataRun i n fs bs \<Longrightarrow> prefix bs (drop n content) \<Longrightarrow> seStream e = i \<Longrightarrow>
   (seError e = None \<longrightarrow> length content \<le> n + length bs \<and> ending = SourceReturns (seExit e)) \<Longrightarrow>
   frameShape i content ending n (fs @ [EndFrame e])"
proof (induction i n fs bs rule: dataRun.induct)
  case (2 i n d fs bs)
  let ?p = "payloadBytes (sdPayload d)"
  from 2(2,3) have "prefix ?p (drop n content)" by (auto intro: prefix_order.trans)
  moreover have "prefix (drop (length ?p) bs) (drop (length ?p) (drop n content))"
    using 2(3) by (rule prefix_dropped)
  moreover have "n + length ?p + length (drop (length ?p) bs) = n + length bs"
    using 2(2) by (auto dest: prefix_length_le)
  ultimately show ?case using 2 by (simp add: add.commute)
qed auto

text \<open>A pump that has consumed some of its source, and one that stopped somewhere.\<close>

definition pumpedTo :: "string \<Rightarrow> bool \<Rightarrow> byte list \<Rightarrow> pumpState \<Rightarrow> bool" where
  "pumpedTo i binary c p =
     (dataRun i 0 (puSent p) (streamed binary c) \<and> puOffset p = length (streamed binary c)
      \<and> (binary \<or> puDecoder p = fst (u8Feed u8Start (map unat c))))"

definition pumpedWithin :: "string \<Rightarrow> byte list \<Rightarrow> pumpState \<Rightarrow> bool" where
  "pumpedWithin i content p = (\<exists>bs. prefix bs content \<and> dataRun i 0 (puSent p) bs)"

lemma pumpedTo_within: "pumpedTo i binary c p \<Longrightarrow> prefix c d \<Longrightarrow> pumpedWithin i (streamContent binary d) p"
  by (auto simp: pumpedTo_def pumpedWithin_def intro: streamed_prefix)

lemma pumpSend_result:
  assumes "dataRun i 0 (puSent p) bs" "puOffset p = length bs" "payloadBytes pl = add" "len = length add"
    and "pumpSend linkOk stopAt i pl len p = (status, p')"
  shows "puDecoder p' = puDecoder p \<and> status \<noteq> PumpStopped
    \<and> ((status = PumpRuns \<and> \<not> pumpAborted stopAt p' \<longrightarrow> dataRun i 0 (puSent p') (bs @ add) \<and> puOffset p' = length (bs @ add))
       \<and> (dataRun i 0 (puSent p') bs \<or> dataRun i 0 (puSent p') (bs @ add)))"
  using assms dataRun_snoc [OF assms(1), of pl]
  by (auto simp: pumpSend_def pumpOffer_def Let_def pumpAborted_def split: if_splits option.splits)

lemma pumpPiece_result:
  assumes "pumpedTo i binary c p" "prefix (c @ piece) d"
    and "pumpPiece linkOk stopAt i binary piece p = (status, p')"
  shows "status \<noteq> PumpStopped \<and> pumpedWithin i (streamContent binary d) p'
    \<and> (status = PumpRuns \<and> \<not> pumpAborted stopAt p' \<longrightarrow> pumpedTo i binary (c @ piece) p')"
proof -
  have pre: "prefix (streamed binary c) (streamContent binary d)" "prefix (streamed binary (c @ piece)) (streamContent binary d)"
    using assms(2) by (auto intro!: streamed_prefix dest: append_prefixD)
  show ?thesis
  proof (cases binary)
    case True
    with assms(1) have run: "dataRun i 0 (puSent p) c" "puOffset p = length c" by (simp_all add: pumpedTo_def streamed_def)
    from True assms(3) have "pumpSend linkOk stopAt i (Base64Payload (base64Encode (map unat piece))) (length piece) p = (status, p')"
      by (simp add: pumpPiece_def)
    from pumpSend_result [OF run payload_base64 refl this] pre True show ?thesis
      by (auto simp: pumpedTo_def pumpedWithin_def streamed_def)
  next
    case False
    let ?st = "fst (u8Feed u8Start (map unat c))"
    let ?cps = "snd (u8Feed ?st (map unat piece))"
    let ?p1 = "p\<lparr>puDecoder := fst (u8Feed ?st (map unat piece))\<rparr>"
    from False assms(1) have run: "dataRun i 0 (puSent ?p1) (streamed False c)" "puOffset ?p1 = length (streamed False c)"
      and dec: "puDecoder p = ?st" by (simp_all add: pumpedTo_def)
    from False assms(3) dec have "pumpSend linkOk stopAt i (TextPayload ?cps) (length (encodeText ?cps)) ?p1 = (status, p')"
      by (simp add: pumpPiece_def pumpSendText_def case_prod_beta)
    from pumpSend_result [OF run _ refl this] pre False show ?thesis
      by (auto simp: pumpedTo_def pumpedWithin_def streamed_text_append payloadBytes_def u8Feed_append case_prod_beta Let_def)
  qed
qed

lemma pumpPieces_result:
  assumes "pumpedTo i binary c p" "prefix (c @ concat pieces) d"
    and "pumpPieces linkOk stopAt i binary pieces p = (status, p')"
  shows "pumpedWithin i (streamContent binary d) p'
    \<and> (status = PumpRuns \<and> \<not> pumpAborted stopAt p' \<longrightarrow> pumpedTo i binary (c @ concat pieces) p')
    \<and> (status = PumpStopped \<longrightarrow> pumpAborted stopAt p')"
  using assms
proof (induction pieces arbitrary: c p)
  case Nil
  then show ?case by (auto intro: pumpedTo_within)
next
  case (Cons piece pieces)
  obtain status1 p1 where one: "pumpPiece linkOk stopAt i binary piece p = (status1, p1)" by fastforce
  have "prefix (c @ piece) d" using Cons.prems(2) by (auto simp: prefix_def)
  note r = pumpPiece_result [OF Cons.prems(1) this one]
  show ?case
  proof (cases "status1 = PumpRuns \<and> \<not> pumpAborted stopAt p1")
    case True
    with r have "pumpedTo i binary (c @ piece) p1" by blast
    moreover have "pumpPieces linkOk stopAt i binary pieces p1 = (status, p')" using Cons.prems(3) one True by simp
    ultimately show ?thesis using Cons.IH [of "c @ piece" p1] Cons.prems(2) by simp
  next
    case False
    with r one Cons.prems(3) show ?thesis by (cases status1) auto
  qed
qed

lemma concat_chunkPieces: "0 < k \<Longrightarrow> concat (chunkPieces k bs) = bs"
  by (induction k bs rule: chunkPieces.induct) (subst chunkPieces.simps, simp)

lemma pumpEnd_shape:
  assumes "dataRun i 0 (puSent p) bs" "prefix bs content"
    and "err = None \<longrightarrow> \<not> pumpAborted stopAt p \<longrightarrow> length content \<le> length bs \<and> ending = SourceReturns exit"
  shows "frameShape i content ending 0 (puSent (pumpEnd linkOk stopAt i err exit p))"
  using assms shape_of_run [OF assms(1)] shape_with_end [OF assms(1)]
  by (auto simp: pumpEnd_def pumpOffer_def Let_def)

lemma pumpFailure_shape:
  "pumpedWithin i content p \<Longrightarrow> frameShape i content ending 0 (puSent (pumpFailure linkOk stopAt i msg p))"
  by (auto simp: pumpedWithin_def pumpFailure_def intro: pumpEnd_shape)

lemma within_shape: "pumpedWithin i content p \<Longrightarrow> frameShape i content ending 0 (puSent p)"
  by (auto simp: pumpedWithin_def intro: shape_of_run)

lemma pumpItems_shape:
  assumes "pumpedTo i binary c p"
  shows "frameShape i (streamContent binary (c @ concat (map itemBytes items))) ending 0
    (puSent (pumpItems linkOk stopAt i binary items ending p))"
  using assms
proof (induction items arbitrary: c p)
  case Nil
  let ?content = "streamContent binary c"
  have within: "pumpedWithin i ?content p" using Nil by (rule pumpedTo_within) simp
  show ?case
  proof (cases "pumpAborted stopAt p \<or> (\<forall>exit. ending \<noteq> SourceReturns exit)")
    case True
    with within show ?thesis
      by (cases ending) (auto intro: within_shape pumpFailure_shape)
  next
    case False
    then obtain exit where running: "\<not> pumpAborted stopAt p" and ending: "ending = SourceReturns exit" by blast
    show ?thesis
    proof (cases binary)
      case True
      with Nil have "dataRun i 0 (puSent p) ?content" by (simp add: pumpedTo_def streamed_def streamContent_def)
      then show ?thesis using running ending True by (simp add: pumpEnd_shape)
    next
      case False
      let ?cps = "u8Flush (puDecoder p)"
      obtain status p' where sent: "pumpSend linkOk stopAt i (TextPayload ?cps) (length (encodeText ?cps)) p = (status, p')"
        by fastforce
      from False Nil have run: "dataRun i 0 (puSent p) (streamed False c)" "puOffset p = length (streamed False c)"
        by (simp_all add: pumpedTo_def)
      have content: "?content = streamed False c @ encodeText ?cps"
        using False Nil by (simp add: streamContent_def pumpedTo_def)
      from pumpSend_result [OF run _ refl sent]
      have r: "status = PumpRuns \<and> \<not> pumpAborted stopAt p' \<longrightarrow> dataRun i 0 (puSent p') ?content"
        "pumpedWithin i ?content p'"
        by (auto simp: payloadBytes_def content pumpedWithin_def)
      have ended: "frameShape i ?content ending 0 (puSent (pumpEnd linkOk stopAt i None exit p'))" if "status = PumpRuns"
      proof (cases "pumpAborted stopAt p'")
        case True
        then show ?thesis using r(2) by (simp add: pumpEnd_def within_shape)
      next
        case False
        with r(1) that ending show ?thesis by (auto intro: pumpEnd_shape)
      qed
      have "status \<noteq> PumpStopped" using pumpSend_result [OF run _ refl sent] by (simp add: payloadBytes_def)
      with running False ending sent ended r(2) show ?thesis
        by (cases status) (simp_all add: pumpSendText_def pumpFailure_shape)
    qed
  qed
next
  case (Cons item items)
  let ?bytes = "itemBytes item" and ?d = "c @ concat (map itemBytes (item # items))"
  obtain status p' where sent: "pumpPieces linkOk stopAt i binary (chunkPieces streamChunkBytes ?bytes) p = (status, p')"
    by fastforce
  have all: "concat (chunkPieces streamChunkBytes ?bytes) = ?bytes"
    by (rule concat_chunkPieces) (simp add: streamChunkBytes_def)
  have r: "pumpedWithin i (streamContent binary ?d) p'"
    "status = PumpRuns \<Longrightarrow> \<not> pumpAborted stopAt p' \<Longrightarrow> pumpedTo i binary (c @ ?bytes) p'"
    using pumpPieces_result [OF Cons.prems _ sent, of ?d] by (simp_all add: all)
  have within: "pumpedWithin i (streamContent binary ?d) p" using Cons.prems by (rule pumpedTo_within) simp
  have continued: "frameShape i (streamContent binary ?d) ending 0 (puSent (pumpItems linkOk stopAt i binary items ending p'))"
    if runs: "status = PumpRuns"
  proof (cases "pumpAborted stopAt p'")
    case True
    then have "pumpItems linkOk stopAt i binary items ending p' = p'" by (cases items) simp_all
    with r(1) show ?thesis by (simp add: within_shape)
  next
    case False
    with r(2) runs have "pumpedTo i binary (c @ ?bytes) p'" by blast
    from Cons.IH [OF this] show ?thesis by simp
  qed
  show ?case
  proof (cases "pumpAborted stopAt p")
    case True
    with within show ?thesis by (simp add: within_shape)
  next
    case False
    with sent continued r(1) show ?thesis
      by (cases status) (simp_all add: within_shape pumpFailure_shape)
  qed
qed

lemma pumpFrames_shape:
  "frameShape i (streamContent binary (concat (map itemBytes items))) ending 0 (pumpFrames linkOk stopAt i binary items ending)"
proof -
  have "pumpedTo i binary [] newPump" by (simp add: pumpedTo_def newPump_def)
  from pumpItems_shape [OF this] show ?thesis by (simp add: pumpFrames_def)
qed

lemma shape_end_last: "frameShape i content ending n (fs @ [f]) \<Longrightarrow> EndFrame e \<notin> set fs"
  by (induction i content ending n fs rule: frameShape.induct) auto

lemma utf8_scalar: "list_all scalar cps \<Longrightarrow> encodeText cps = utf8Encode cps"
  by (simp add: encodeText_def list_all_iff cong: map_cong)

lemma streamContent_text:
  assumes "list_all scalar cps"
  shows "streamContent False (utf8Encode cps) = utf8Encode (dropBom cps)"
proof -
  have "list_all scalar (dropBom cps)" using assms by (cases cps) (auto simp: dropBom_def)
  then show ?thesis
    using u8Feed_text [OF assms] by (simp add: streamContent_def streamed_def utf8_unat [OF assms] u8Flush_def utf8_scalar)
qed

text \<open>A source that returns, over a link that takes every frame, without a stop: the stream ends.\<close>

lemma runs_through: "pumpSend (\<lambda>n. True) None i pl len p = (PumpRuns, snd (pumpSend (\<lambda>n. True) None i pl len p))"
  by (simp add: pumpSend_def pumpOffer_def pumpAborted_def Let_def)

lemma pieces_run_through:
  "fst (pumpPieces (\<lambda>n. True) None i binary pieces p) = PumpRuns"
proof (induction pieces arbitrary: p)
  case (Cons piece pieces)
  have "\<exists>p'. pumpPiece (\<lambda>n. True) None i binary piece p = (PumpRuns, p')"
    unfolding pumpPiece_def pumpSendText_def case_prod_beta by (cases binary) (metis runs_through)+
  with Cons show ?case by (auto simp: pumpAborted_def)
qed simp

lemma pumpFrames_end:
  "\<exists>fs. pumpFrames (\<lambda>n. True) None i binary items (SourceReturns exit) = fs @ [EndFrame \<lparr>seStream = i, seError = None, seExit = exit\<rparr>]"
proof -
  have ends: "\<exists>fs. puSent (pumpEnd (\<lambda>n. True) None i None exit p) = fs @ [EndFrame \<lparr>seStream = i, seError = None, seExit = exit\<rparr>]" for p
    by (simp add: pumpEnd_def pumpAborted_def pumpOffer_def Let_def)
  have "\<exists>fs. puSent (pumpItems (\<lambda>n. True) None i binary items (SourceReturns exit) p)
      = fs @ [EndFrame \<lparr>seStream = i, seError = None, seExit = exit\<rparr>]" for p
  proof (induction items arbitrary: p)
    case Nil
    show ?case
      using ends runs_through [of i "TextPayload (u8Flush (puDecoder p))" "length (encodeText (u8Flush (puDecoder p)))" p]
      by (cases binary) (auto simp: pumpAborted_def pumpSendText_def split: prod.split)
  next
    case (Cons item items)
    obtain p' where "pumpPieces (\<lambda>n. True) None i binary (chunkPieces streamChunkBytes (itemBytes item)) p = (PumpRuns, p')"
      using pieces_run_through [of i binary "chunkPieces streamChunkBytes (itemBytes item)" p] by (metis eq_fst_iff)
    with Cons show ?case by (simp add: pumpAborted_def)
  qed
  then show ?thesis by (simp add: pumpFrames_def)
qed

subsection \<open>What the consumer gets\<close>

fun frameStream :: "streamFrame \<Rightarrow> string" where
  "frameStream (DataFrame d) = sdStream d"
| "frameStream (EndFrame e) = seStream e"

fun arrivalOf :: "string \<Rightarrow> registryOp \<Rightarrow> streamFrame list" where
  "arrivalOf i (FrameArrives f) = (if frameStream f = i then [f] else [])"
| "arrivalOf i _ = []"

definition arrivalsOf :: "string \<Rightarrow> registryOp list \<Rightarrow> streamFrame list" where
  "arrivalsOf i ops = concat (map (arrivalOf i) ops)"

fun leavesOpen :: "string \<Rightarrow> registryOp \<Rightarrow> bool" where
  "leavesOpen i (OpenOp j) = (j \<noteq> i)"
| "leavesOpen i (RefusedOp j msg) = (j \<noteq> i)"
| "leavesOpen i (CancelOp j) = (j \<noteq> i)"
| "leavesOpen i CloseRegistryOp = False"
| "leavesOpen i _ = True"

definition bodyBytes :: "streamBody \<Rightarrow> byte list" where
  "bodyBytes b = sbRead b @ concat (sbQueue b)"

text \<open>A stream that is no longer open, and one on its way: \<open>fs\<close> are the frames of \<open>frames\<close> that have not
  arrived yet.\<close>

definition settledBody :: "byte list \<Rightarrow> sourceEnd \<Rightarrow> nat \<Rightarrow> streamFrame list \<Rightarrow> streamBody \<Rightarrow> bool" where
  "settledBody content ending m frames b =
     (case sbState b of
        BodyClosing \<Rightarrow> bodyBytes b = content \<and> (\<exists>exit. ending = SourceReturns exit \<and> sbEnded b = Some (Inr exit))
      | BodyErrored (BufferExceeded k) \<Rightarrow> k = m \<and> m < length content
      | BodyErrored (NodeError msg) \<Rightarrow> \<exists>e. EndFrame e \<in> set frames \<and> seError e = Some msg
      | _ \<Rightarrow> False)"

definition streamInv ::
  "string \<Rightarrow> byte list \<Rightarrow> sourceEnd \<Rightarrow> nat \<Rightarrow> streamFrame list \<Rightarrow> streamFrame list \<Rightarrow> streamRegistry \<Rightarrow> bool" where
  "streamInv i content ending m frames fs r =
     (let b = bodyOf r i
      in prefix (bodyBytes b) content
         \<and> (case jmGet (rgStreams r) i of
              Some n \<Rightarrow> sbState b = BodyOpen \<and> (sbWaiting b > 0 \<longrightarrow> sbQueue b = []) \<and> n = length (bodyBytes b)
                \<and> frameShape i content ending n fs \<and> (\<exists>before. frames = before @ fs \<and> (\<forall>e. EndFrame e \<notin> set before))
            | None \<Rightarrow> settledBody content ending m frames b))"

lemma settledBody_cong:
  "bodyBytes b = bodyBytes b' \<Longrightarrow> sbState b = sbState b' \<Longrightarrow> sbEnded b = sbEnded b' \<Longrightarrow>
   settledBody content ending m frames b = settledBody content ending m frames b'"
  unfolding settledBody_def by presburger

lemma bodyOf_updateBody [simp]: "bodyOf (updateBody j f r) i = (if i = j then f (bodyOf r i) else bodyOf r i)"
  by (simp add: updateBody_def bodyOf_def)

lemma bodyOf_streams [simp]: "bodyOf (r\<lparr>rgStreams := s\<rparr>) i = bodyOf r i"
  by (simp add: bodyOf_def)

lemma updateBody_streams [simp]: "rgStreams (updateBody j f r) = rgStreams r"
  by (simp add: updateBody_def)

lemma bodyOf_open: "bodyOf (r\<lparr>rgStreams := s, rgBodies := jmSet j b (rgBodies r)\<rparr>) i = (if i = j then b else bodyOf r i)"
  by (simp add: bodyOf_def)

lemma streamInv_other:
  assumes "streamInv i content ending m frames fs r" "leavesOpen i op" "arrivalOf i op = []" "\<And>j. op \<noteq> ReadOp j"
  shows "streamInv i content ending m frames fs (fst (registryStep m r op))"
proof -
  have "jmGet (rgStreams (fst (registryStep m r op))) i = jmGet (rgStreams r) i \<and> bodyOf (fst (registryStep m r op)) i = bodyOf r i"
  proof (cases op)
    case (OpenOp j)
    with assms(2) show ?thesis by (auto simp: openStream_def bodyOf_open)
  next
    case (RefusedOp j msg)
    with assms(2) show ?thesis by (auto simp: openingRefused_def failStream_def)
  next
    case (CancelOp j)
    with assms(2) show ?thesis by (auto simp: cancelBody_def Let_def split: bodyState.split)
  next
    case (FrameArrives f)
    with assms(3) show ?thesis
      by (cases f) (auto simp: streamDataArrives_def streamEndArrives_def failStream_def Let_def split: option.split if_splits)
  qed (use assms in auto)
  then show ?thesis using assms(1) by (simp add: streamInv_def)
qed

lemma streamInv_read:
  assumes "streamInv i content ending m frames fs r"
  shows "streamInv i content ending m frames fs (readBody j r)"
proof (cases "j = i")
  case False
  then show ?thesis using assms by (auto simp: readBody_def streamInv_def split: list.split)
next
  case True
  show ?thesis
  proof (cases "sbQueue (bodyOf r i)")
    case Nil
    with True assms show ?thesis
      by (auto simp: readBody_def streamInv_def Let_def bodyBytes_def jmHas_def split: option.splits)
  next
    case (Cons chunk rest)
    let ?b = "(bodyOf r i)\<lparr>sbQueue := rest, sbRead := sbRead (bodyOf r i) @ chunk\<rparr>"
    have same: "bodyBytes ?b = bodyBytes (bodyOf r i)" by (simp add: bodyBytes_def Cons)
    then have "settledBody content ending m frames ?b = settledBody content ending m frames (bodyOf r i)"
      by (rule settledBody_cong) simp_all
    with True Cons same assms show ?thesis
      by (simp add: readBody_def streamInv_def Let_def split: option.split option.split_asm)
  qed
qed

lemma streamInv_frame:
  assumes "streamInv i content ending m frames (f # fs) r" "frameStream f = i" "f \<in> set frames"
  shows "streamInv i content ending m frames fs (fst (registryStep m r (FrameArrives f)))"
proof (cases "jmGet (rgStreams r) i")
  case None
  then show ?thesis
    using assms by (cases f) (auto simp: streamInv_def streamDataArrives_def streamEndArrives_def jmHas_def)
next
  case (Some n)
  let ?b = "bodyOf r i"
  from assms(1) Some obtain before where st: "sbState ?b = BodyOpen" "sbWaiting ?b > 0 \<Longrightarrow> sbQueue ?b = []"
    "n = length (bodyBytes ?b)" and pre: "prefix (bodyBytes ?b) content" and shape: "frameShape i content ending n (f # fs)"
    and before: "frames = before @ f # fs" "\<And>e. EndFrame e \<notin> set before"
    by (auto simp: streamInv_def Let_def)
  show ?thesis
  proof (cases f)
    case (EndFrame e)
    show ?thesis
    proof (cases "seError e")
      case None
      with shape EndFrame pre st(3) have "bodyBytes ?b = content" "ending = SourceReturns (seExit e)"
        by (auto simp: prefix_def)
      with None Some EndFrame assms(2) show ?thesis
        by (simp add: streamEndArrives_def jmHas_def streamInv_def settledBody_def closeBody_def bodyBytes_def)
    next
      case (Some msg)
      with \<open>jmGet (rgStreams r) i = Some n\<close> EndFrame assms(2,3) pre show ?thesis
        by (auto simp: streamEndArrives_def jmHas_def streamInv_def settledBody_def errorBody_def bodyBytes_def
            dest: append_prefixD)
    qed
  next
    case (DataFrame d)
    let ?p = "payloadBytes (sdPayload d)"
    let ?b1 = "enqueueChunk ?p ?b"
    from shape DataFrame have d: "sdOffset d = n" "prefix ?p (drop n content)"
      "frameShape i content ending (n + length ?p) fs" by simp_all
    have bytes: "bodyBytes ?b1 = bodyBytes ?b @ ?p" using st(2) by (auto simp: enqueueChunk_def bodyBytes_def)
    from pre st(3) d(2) have pre1: "prefix (bodyBytes ?b @ ?p) content" by (auto simp: prefix_def)
    show ?thesis
    proof (cases "bodyQueued ?b1 > m")
      case True
      have "bodyQueued ?b1 \<le> length (bodyBytes ?b1)" by (simp add: bodyQueued_def bodyBytes_def)
      also have "... \<le> length content" using prefix_length_le [OF pre1] bytes by simp
      finally have "m < length content" using True by simp
      moreover have "prefix (bodyBytes ?b1) content" using pre1 bytes by simp
      then have "prefix (sbRead ?b1) content" unfolding bodyBytes_def by (rule append_prefixD)
      ultimately show ?thesis
        using True Some DataFrame assms(2) d(1)
        by (simp add: streamDataArrives_def failStream_def Let_def streamInv_def settledBody_def errorBody_def bodyBytes_def)
    next
      case False
      have fields: "sbState ?b1 = BodyOpen" "sbWaiting ?b1 > 0 \<Longrightarrow> sbQueue ?b1 = []"
        using st(1,2) by (auto simp: enqueueChunk_def split: if_splits)
      from before DataFrame have "frames = (before @ [f]) @ fs" "\<And>e. EndFrame e \<notin> set (before @ [f])" by simp_all
      then have "\<exists>b. frames = b @ fs \<and> (\<forall>e. EndFrame e \<notin> set b)" by blast
      with False Some DataFrame assms(2) d pre1 bytes st(3) fields show ?thesis
        by (simp add: streamDataArrives_def Let_def streamInv_def)
    qed
  qed
qed

lemma streamInv_run:
  assumes "streamInv i content ending m frames (arrivalsOf i ops @ fs) r" "list_all (leavesOpen i) ops"
    and "set (arrivalsOf i ops) \<subseteq> set frames"
  shows "streamInv i content ending m frames fs (fst (registryRun m r ops))"
  using assms
proof (induction ops arbitrary: r)
  case Nil
  then show ?case by (simp add: arrivalsOf_def)
next
  case (Cons op ops)
  let ?r1 = "fst (registryStep m r op)"
  have split: "arrivalsOf i (op # ops) = arrivalOf i op @ arrivalsOf i ops" by (simp add: arrivalsOf_def)
  have "streamInv i content ending m frames (arrivalsOf i ops @ fs) ?r1"
  proof (cases "arrivalOf i op")
    case Nil
    show ?thesis
    proof (cases "\<exists>j. op = ReadOp j")
      case True
      with Nil Cons.prems(1) split show ?thesis by (auto intro: streamInv_read)
    next
      case False
      with Nil Cons.prems(1,2) split show ?thesis by (intro streamInv_other) auto
    qed
  next
    case (Cons f more)
    then have op: "op = FrameArrives f" "frameStream f = i" and none: "more = []"
      by (cases op; auto split: if_splits)+
    with Cons.prems(1,3) split Cons show ?thesis by (auto intro!: streamInv_frame)
  qed
  with Cons.IH [of ?r1] Cons.prems(2,3) split show ?case by (simp add: case_prod_beta)
qed

lemma stream_settles:
  assumes "openStream i r = Some r0" "list_all (leavesOpen i) ops"
    and "prefix (arrivalsOf i ops) (pumpFrames linkOk stopAt i binary items ending)"
  shows "streamInv i (streamContent binary (concat (map itemBytes items))) ending m (arrivalsOf i ops) [] (fst (registryRun m r0 ops))"
proof -
  let ?content = "streamContent binary (concat (map itemBytes items))" and ?frames = "arrivalsOf i ops"
  from assms(3) obtain rest where "pumpFrames linkOk stopAt i binary items ending = ?frames @ rest" by (auto simp: prefix_def)
  then have "frameShape i ?content ending 0 (?frames @ rest)" using pumpFrames_shape by metis
  then have shape: "frameShape i ?content ending 0 ?frames" by (rule shape_prefix)
  have "streamInv i ?content ending m ?frames (arrivalsOf i ops @ []) r0"
    using assms(1) shape
    by (auto simp: openStream_def streamInv_def bodyOf_open freshBody_def bodyBytes_def split: if_splits)
  from streamInv_run [OF this assms(2)] show ?thesis by simp
qed



lemma chunkPieces_short: "bs \<noteq> [] \<Longrightarrow> length bs \<le> k \<Longrightarrow> chunkPieces k bs = [bs]"
  by (cases k) (simp_all add: chunkPieces.simps [of _ bs] chunkPieces.simps [of _ "[]"])

lemma stream_frames_example:
  "pumpFrames (\<lambda>n. True) None ''s'' False [TextItem [0xFEFF, 0x41], BytesItem [0xC3], BytesItem [0xA9]] (SourceReturns None)
     = [DataFrame \<lparr>sdStream = ''s'', sdOffset = 0, sdPayload = TextPayload [0x41]\<rparr>,
        DataFrame \<lparr>sdStream = ''s'', sdOffset = 1, sdPayload = TextPayload [0xE9]\<rparr>,
        EndFrame \<lparr>seStream = ''s'', seError = None, seExit = None\<rparr>]"
  by (simp add: pumpFrames_def newPump_def pumpAborted_def chunkPieces_short streamChunkBytes_def itemBytes_def encodeText_def
      utf8Encode_def encodeCp_def scalar_def replacementCp_def pumpPiece_def pumpSendText_def pumpSend_def pumpOffer_def pumpEnd_def
      u8Start_def u8Byte_def u8Lead_def u8Emit_def u8Reset_def u8Flush_def bomCp_def Let_def)

definition exampleOps :: "registryOp list" where
  "exampleOps = map FrameArrives (pumpFrames (\<lambda>n. True) None ''s'' False
     [TextItem [0xFEFF, 0x41], BytesItem [0xC3], BytesItem [0xA9]] (SourceReturns None)) @ [ReadOp ''s'']"

definition exampleRegistry :: streamRegistry where
  "exampleRegistry = \<lparr>rgStreams = [(''s'', 0)], rgBodies = [(''s'', freshBody)], rgClosed = False\<rparr>"

lemma example_opens: "openStream ''s'' emptyRegistry = Some exampleRegistry"
  by (simp add: openStream_def emptyRegistry_def exampleRegistry_def)

lemma example_ops:
  "list_all (leavesOpen ''s'') exampleOps"
  "arrivalsOf ''s'' exampleOps = pumpFrames (\<lambda>n. True) None ''s'' False
     [TextItem [0xFEFF, 0x41], BytesItem [0xC3], BytesItem [0xA9]] (SourceReturns None)"
  by (simp_all add: exampleOps_def stream_frames_example arrivalsOf_def)



text \<open>A text stream loses a leading byte order mark, three bytes of what its source produced.\<close>

theorem leading_bom_dropped:
  assumes "list_all scalar cps"
  shows "streamContent False (utf8Encode (bomCp # cps)) = utf8Encode cps
    \<and> length (utf8Encode (bomCp # cps)) = 3 + length (utf8Encode cps)"
proof -
  have "list_all scalar (bomCp # cps)" using assms by (simp add: scalar_def bomCp_def)
  from streamContent_text [OF this] show ?thesis
    by (simp add: dropBom_def utf8Encode_def encodeCp_def bomCp_def)
qed

lemma leading_bom_dropped_witness:
  "streamContent False [0xEF, 0xBB, 0xBF, 0x41] = [0x41]"
proof -
  have "utf8Encode (bomCp # [0x41]) = [0xEF, 0xBB, 0xBF, 0x41]" by (simp add: utf8Encode_def encodeCp_def bomCp_def)
  moreover have "utf8Encode [0x41] = [0x41]" by (simp add: utf8Encode_def encodeCp_def)
  ultimately show ?thesis using leading_bom_dropped [of "[0x41]"] by (simp add: scalar_def)
qed

end
