(* ===== verification/Stream_Sender.thy ===== *)
theory Stream_Sender
  imports Reins_Prelude
begin

text \<open>
  The streams one connection serves: \<open>createStreamSender\<close> of \<^verbatim>\<open>packages/node/src/node-connection/streams.ts\<close>. A served
  stream is the number of its pump (whose frames \<open>Node_Streams\<close> models); \<open>snPumps\<close> says for each its stream, whether
  its controller was aborted and whether its promise settled.
\<close>

record senderPump =
  puStream :: string
  puAborted :: bool
  puSettled :: bool

record streamSender =
  snOpen :: "(string, nat) jsmap"
  snPumps :: "senderPump list"

definition newSender :: streamSender where
  "newSender = \<lparr>snOpen = [], snPumps = []\<rparr>"

definition abortPump :: "nat \<Rightarrow> streamSender \<Rightarrow> streamSender" where
  "abortPump p s = s\<lparr>snPumps := (snPumps s)[p := (snPumps s ! p)\<lparr>puAborted := True\<rparr>]\<rparr>"

text \<open>\<open>None\<close> when the stream is open already, which throws.\<close>

definition serveStream :: "string \<Rightarrow> streamSender \<Rightarrow> (nat \<times> streamSender) option" where
  "serveStream i s =
     (if jmHas (snOpen s) i then None
      else let p = length (snPumps s)
           in Some (p, \<lparr>snOpen = jmSet i p (snOpen s), snPumps = snPumps s @ [\<lparr>puStream = i, puAborted = False, puSettled = False\<rparr>]\<rparr>))"

text \<open>The \<open>finally\<close> of a pump. A pump that failed has aborted its own controller.\<close>

definition pumpSettles :: "nat \<Rightarrow> streamSender \<Rightarrow> streamSender" where
  "pumpSettles p s =
     (let i = puStream (snPumps s ! p); s' = s\<lparr>snPumps := (snPumps s)[p := (snPumps s ! p)\<lparr>puSettled := True\<rparr>]\<rparr>
      in if jmGet (snOpen s') i = Some p then s'\<lparr>snOpen := jmDelete i (snOpen s')\<rparr> else s')"

definition cancelStream :: "string \<Rightarrow> streamSender \<Rightarrow> streamSender" where
  "cancelStream i s = (case jmGet (snOpen s) i of None \<Rightarrow> s | Some p \<Rightarrow> abortPump p s)"

definition closeSender :: "streamSender \<Rightarrow> streamSender" where
  "closeSender s = (foldl (\<lambda>s' (i, p). abortPump p s') s (snOpen s))\<lparr>snOpen := []\<rparr>"

datatype senderOp = Serves string | Settled nat | Fails nat | Cancels string | ClosesSender

fun senderStep :: "streamSender \<Rightarrow> senderOp \<Rightarrow> streamSender" where
  "senderStep s (Serves i) = (case serveStream i s of None \<Rightarrow> s | Some (p, s') \<Rightarrow> s')"
| "senderStep s (Settled p) = (if p < length (snPumps s) then pumpSettles p s else s)"
| "senderStep s (Fails p) = (if p < length (snPumps s) then abortPump p s else s)"
| "senderStep s (Cancels i) = cancelStream i s"
| "senderStep s ClosesSender = closeSender s"

text \<open>A pump that still runs is its stream's only one, and closing the sender or cancelling its stream stops it.\<close>

definition senderInv :: "streamSender \<Rightarrow> bool" where
  "senderInv s = ((\<forall>i p. jmGet (snOpen s) i = Some p \<longrightarrow> p < length (snPumps s) \<and> puStream (snPumps s ! p) = i) \<and>
     (\<forall>p<length (snPumps s). \<not> puAborted (snPumps s ! p) \<longrightarrow> \<not> puSettled (snPumps s ! p) \<longrightarrow>
        jmGet (snOpen s) (puStream (snPumps s ! p)) = Some p))"

lemma abort_fields:
  "snOpen (abortPump p s) = snOpen s" "length (snPumps (abortPump p s)) = length (snPumps s)"
  "p < length (snPumps s) \<Longrightarrow> snPumps (abortPump p s) ! q = (if q = p then (snPumps s ! p)\<lparr>puAborted := True\<rparr> else snPumps s ! q)"
  by (simp_all add: abortPump_def)

lemma abort_inv: "senderInv s \<Longrightarrow> p < length (snPumps s) \<Longrightarrow> senderInv (abortPump p s)"
  unfolding senderInv_def abort_fields by (auto simp: abort_fields)

lemma serve_inv:
  assumes inv: "senderInv s" and serve: "serveStream i s = Some (p, s')"
  shows "senderInv s'"
proof -
  have free: "jmGet (snOpen s) i = None" using serve by (auto simp: serveStream_def jmHas_def split: if_splits)
  have s': "s' = \<lparr>snOpen = jmSet i (length (snPumps s)) (snOpen s),
      snPumps = snPumps s @ [\<lparr>puStream = i, puAborted = False, puSettled = False\<rparr>]\<rparr>"
    using serve by (auto simp: serveStream_def Let_def split: if_splits)
  show ?thesis
    unfolding senderInv_def
  proof (intro conjI allI impI)
    fix j q assume a: "jmGet (snOpen s') j = Some q"
    have old: "jmGet (snOpen s) j = Some q \<Longrightarrow> q < length (snPumps s) \<and> puStream (snPumps s ! q) = j"
      using inv unfolding senderInv_def by blast
    show "q < length (snPumps s')" "puStream (snPumps s' ! q) = j" using a old by (auto simp: s' nth_append split: if_splits)
  next
    fix q assume q: "q < length (snPumps s')" "\<not> puAborted (snPumps s' ! q)" "\<not> puSettled (snPumps s' ! q)"
    have old: "q < length (snPumps s) \<Longrightarrow> \<not> puAborted (snPumps s ! q) \<Longrightarrow> \<not> puSettled (snPumps s ! q) \<Longrightarrow>
        jmGet (snOpen s) (puStream (snPumps s ! q)) = Some q"
      using inv unfolding senderInv_def by blast
    show "jmGet (snOpen s') (puStream (snPumps s' ! q)) = Some q"
      using q old free by (auto simp: s' nth_append less_Suc_eq split: if_splits)
  qed
qed

lemma settles_inv:
  assumes inv: "senderInv s" and p: "p < length (snPumps s)"
  shows "senderInv (pumpSettles p s)"
proof -
  let ?ps = "(snPumps s)[p := (snPumps s ! p)\<lparr>puSettled := True\<rparr>]"
  have "senderInv \<lparr>snOpen = m, snPumps = ?ps\<rparr>"
    if m: "\<And>j. jmGet m j = jmGet (snOpen s) j \<or> jmGet m j = None \<and> jmGet (snOpen s) j = Some p" for m
    unfolding senderInv_def
  proof (intro conjI allI impI)
    fix j q assume "jmGet (snOpen \<lparr>snOpen = m, snPumps = ?ps\<rparr>) j = Some q"
    then have "jmGet (snOpen s) j = Some q" using m [of j] by auto
    then have "q < length (snPumps s) \<and> puStream (snPumps s ! q) = j" using inv unfolding senderInv_def by blast
    then show "q < length (snPumps \<lparr>snOpen = m, snPumps = ?ps\<rparr>)" "puStream (snPumps \<lparr>snOpen = m, snPumps = ?ps\<rparr> ! q) = j"
      using p by (auto simp: nth_list_update)
  next
    fix q assume q: "q < length (snPumps \<lparr>snOpen = m, snPumps = ?ps\<rparr>)" "\<not> puAborted (snPumps \<lparr>snOpen = m, snPumps = ?ps\<rparr> ! q)"
      "\<not> puSettled (snPumps \<lparr>snOpen = m, snPumps = ?ps\<rparr> ! q)"
    then have "q \<noteq> p" "q < length (snPumps s)" "\<not> puAborted (snPumps s ! q)" "\<not> puSettled (snPumps s ! q)"
      using p by (auto simp: nth_list_update split: if_splits)
    then have "jmGet (snOpen s) (puStream (snPumps s ! q)) = Some q" "q \<noteq> p" using inv unfolding senderInv_def by blast+
    then show "jmGet (snOpen \<lparr>snOpen = m, snPumps = ?ps\<rparr>) (puStream (snPumps \<lparr>snOpen = m, snPumps = ?ps\<rparr> ! q)) = Some q"
      using m [of "puStream (snPumps s ! q)"] by auto
  qed
  note keeps = this
  have s: "s\<lparr>snPumps := ?ps\<rparr> = \<lparr>snOpen = snOpen s, snPumps = ?ps\<rparr>" by (cases s) simp
  have "senderInv (s\<lparr>snPumps := ?ps\<rparr>)" unfolding s by (rule keeps) simp
  moreover have "senderInv (s\<lparr>snPumps := ?ps, snOpen := jmDelete i (snOpen s)\<rparr>)" if "jmGet (snOpen s) i = Some p" for i
  proof -
    have eq: "s\<lparr>snPumps := ?ps, snOpen := jmDelete i (snOpen s)\<rparr> = \<lparr>snOpen = jmDelete i (snOpen s), snPumps = ?ps\<rparr>"
      by (cases s) simp
    show ?thesis unfolding eq by (rule keeps) (simp add: that)
  qed
  ultimately show ?thesis by (simp add: pumpSettles_def Let_def)
qed

lemma abort_all:
  "foldl (\<lambda>s' (i, p). abortPump p s') s m = s' \<Longrightarrow> \<forall>(i, p)\<in>set m. p < length (snPumps s) \<Longrightarrow>
     length (snPumps s') = length (snPumps s) \<and>
     (\<forall>q<length (snPumps s). puStream (snPumps s' ! q) = puStream (snPumps s ! q) \<and> puSettled (snPumps s' ! q) = puSettled (snPumps s ! q) \<and>
        puAborted (snPumps s' ! q) = (puAborted (snPumps s ! q) \<or> q \<in> snd ` set m))"
proof (induction m arbitrary: s)
  case (Cons x m)
  obtain i p where x: "x = (i, p)" by (cases x)
  from Cons.prems have p: "p < length (snPumps s)" using x by simp
  have "foldl (\<lambda>s' (i, p). abortPump p s') (abortPump p s) m = s'" "\<forall>(i, q)\<in>set m. q < length (snPumps (abortPump p s))"
    using Cons.prems x by (simp_all add: abort_fields)
  from Cons.IH [OF this] show ?case using x p by (auto simp: abort_fields)
qed simp

lemma close_aborts:
  assumes inv: "senderInv s" and wf: "jmWf (snOpen s)"
  shows "length (snPumps (closeSender s)) = length (snPumps s)"
    "p < length (snPumps s) \<Longrightarrow> puAborted (snPumps (closeSender s) ! p) \<or> puSettled (snPumps (closeSender s) ! p)"
proof -
  have "\<forall>(i, q)\<in>set (snOpen s). q < length (snPumps s)"
    using inv wf unfolding senderInv_def by (auto simp: map_of_is_SomeI)
  note all = abort_all [OF refl this]
  show "length (snPumps (closeSender s)) = length (snPumps s)" using all by (simp add: closeSender_def)
  assume p: "p < length (snPumps s)"
  show "puAborted (snPumps (closeSender s) ! p) \<or> puSettled (snPumps (closeSender s) ! p)"
  proof (cases "puAborted (snPumps s ! p) \<or> puSettled (snPumps s ! p)")
    case True
    with all p show ?thesis by (auto simp: closeSender_def)
  next
    case False
    then have "jmGet (snOpen s) (puStream (snPumps s ! p)) = Some p" using inv p unfolding senderInv_def by blast
    then have "p \<in> snd ` set (snOpen s)" by (force dest: map_of_SomeD)
    with all p show ?thesis by (auto simp: closeSender_def)
  qed
qed

lemma snOpen_close: "snOpen (closeSender s) = []"
  by (simp add: closeSender_def)

lemma close_inv:
  assumes "senderInv s" "jmWf (snOpen s)"
  shows "senderInv (closeSender s)"
  unfolding senderInv_def using close_aborts [OF assms] by (auto simp: snOpen_close)

lemma sender_step_inv:
  assumes "senderInv s" "jmWf (snOpen s)"
  shows "senderInv (senderStep s op)" "jmWf (snOpen (senderStep s op))"
proof -
  have at: "jmGet (snOpen s) i = Some p \<Longrightarrow> p < length (snPumps s)" for i p using assms(1) unfolding senderInv_def by blast
  show "senderInv (senderStep s op)"
    using assms at by (cases op) (auto simp: cancelStream_def serve_inv settles_inv abort_inv close_inv split: option.splits)
  show "jmWf (snOpen (senderStep s op))"
    using assms(2) by (cases op) (auto simp: cancelStream_def serveStream_def pumpSettles_def closeSender_def abort_fields Let_def split: option.splits)
qed

text \<open>A connection's streams: over any operations a pump that was neither stopped nor settled is the one open under its
  stream's name, so no two pumps send on one stream; \<open>stream.cancel\<close> stops exactly that one; and once the sender closes,
  no pump goes on.\<close>
theorem one_pump_per_stream:
  fixes ops :: "senderOp list"
  defines "s \<equiv> foldl senderStep newSender ops"
  shows "(\<forall>p<length (snPumps s). \<not> puAborted (snPumps s ! p) \<and> \<not> puSettled (snPumps s ! p) \<longrightarrow>
            jmGet (snOpen s) (puStream (snPumps s ! p)) = Some p \<and>
            puAborted (snPumps (cancelStream (puStream (snPumps s ! p)) s) ! p) \<and>
            (\<forall>q. q \<noteq> p \<longrightarrow> snPumps (cancelStream (puStream (snPumps s ! p)) s) ! q = snPumps s ! q)) \<and>
         (\<forall>p<length (snPumps s). puAborted (snPumps (closeSender s) ! p) \<or> puSettled (snPumps (closeSender s) ! p))"
proof -
  have "senderInv (foldl senderStep t ops) \<and> jmWf (snOpen (foldl senderStep t ops))" if "senderInv t" "jmWf (snOpen t)" for t
    using that sender_step_inv by (induction ops arbitrary: t) auto
  then have inv: "senderInv s" "jmWf (snOpen s)" unfolding s_def by (auto simp: newSender_def senderInv_def)
  have "jmGet (snOpen s) (puStream (snPumps s ! p)) = Some p"
    if "p < length (snPumps s)" "\<not> puAborted (snPumps s ! p)" "\<not> puSettled (snPumps s ! p)" for p
    using inv(1) that unfolding senderInv_def by blast
  then show ?thesis using close_aborts [OF inv] by (auto simp: cancelStream_def abort_fields)
qed

theorem one_pump_per_stream_witness:
  "puAborted (snPumps (closeSender (foldl senderStep newSender [Serves ''a'', Serves ''a''])) ! 0) \<and>
   length (snPumps (foldl senderStep newSender [Serves ''a'', Serves ''a''])) = 1"
  using one_pump_per_stream [of "[Serves ''a'', Serves ''a'']"]
  by (simp add: serveStream_def newSender_def closeSender_def abortPump_def Let_def jmHas_def)

end
