(* ===== verification/Web_Socket_Link.thy ===== *)
theory Web_Socket_Link
  imports Ndjson_Socket
begin

text \<open>
  The node link over a WebSocket: \<open>createWebSocketLink\<close> of \<^verbatim>\<open>packages/node-protocol/src/websocket-link.ts\<close>, one text
  message per frame. What the WebSocket answers is an input: at each look, how much it holds unsent and what a
  send then gives; a look it has no answer for finds it holding something. Its laws: frames reach the WebSocket
  in the order they were sent, each once and only while it holds nothing; and a link never stalls on its own.
\<close>

subsection \<open>The link\<close>

datatype wsAnswer = WsWritten | WsHeld | WsDropped | WsThrows

record wsLink =
  wlClosed :: bool
  wlQueue :: "nat list list"
  wlWaiters :: nat
  wlOncloses :: nat
  wlCode :: "int option"

definition newWsLink :: wsLink where
  "newWsLink = \<lparr>wlClosed = False, wlQueue = [], wlWaiters = 0, wlOncloses = 0, wlCode = None\<rparr>"

definition wsShut :: "int option \<Rightarrow> wsLink \<Rightarrow> wsLink" where
  "wsShut code l =
     (if wlClosed l then l
      else \<lparr>wlClosed = True, wlQueue = [], wlWaiters = 0, wlOncloses = Suc (wlOncloses l), wlCode = code\<rparr>)"

type_synonym wsLooks = "(nat \<times> wsAnswer) list"

definition heldNow :: "wsLooks \<Rightarrow> nat" where
  "heldNow looks = (case looks of [] \<Rightarrow> 1 | (held, answer) # later \<Rightarrow> held)"

text \<open>Sends queued frames while the WebSocket holds nothing: the frames it took, and the link after.\<close>

fun wsFlush :: "wsLooks \<Rightarrow> wsLink \<Rightarrow> nat list list \<times> wsLink" where
  "wsFlush looks l =
     (case wlQueue l of
        [] \<Rightarrow> ([], if \<not> wlClosed l \<and> heldNow looks = 0 then l\<lparr>wlWaiters := 0\<rparr> else l)
      | frame # rest \<Rightarrow>
          (if wlClosed l then ([], l)
           else case looks of
             [] \<Rightarrow> ([], l)
           | (held, answer) # later \<Rightarrow>
               (if 0 < held then ([], l)
                else case answer of
                  WsThrows \<Rightarrow> ([], wsShut None l)
                | WsDropped \<Rightarrow> ([], wsShut None l)
                | _ \<Rightarrow> (let (frames, l') = wsFlush later (l\<lparr>wlQueue := rest\<rparr>) in (frame # frames, l')))))"

declare wsFlush.simps [simp del]

datatype wsSendError = WsSendClosed | WsSendTooLarge

definition wsSend :: "nat \<Rightarrow> nat list \<Rightarrow> wsLooks \<Rightarrow> wsLink \<Rightarrow> wsSendError + nat list list \<times> wsLink" where
  "wsSend maxFrameBytes frame looks l =
     (if wlClosed l then Inl WsSendClosed
      else if maxFrameBytes < length (utf8Encode frame) then Inl WsSendTooLarge
      else let l' = l\<lparr>wlQueue := wlQueue l @ [frame]\<rparr>
           in Inr (if length (wlQueue l') = 1 then wsFlush looks l' else ([], l')))"

definition wsDrained :: "wsLooks \<Rightarrow> wsLink \<Rightarrow> bool \<times> wsLink" where
  "wsDrained looks l =
     (if wlClosed l \<or> wlQueue l = [] \<and> heldNow looks = 0 then (True, l) else (False, l\<lparr>wlWaiters := Suc (wlWaiters l)\<rparr>))"

datatype wsMessage = WsText "nat list" | WsBinary

definition unsupportedData :: int where "unsupportedData = 1003"
definition messageTooBig :: int where "messageTooBig = 1009"

text \<open>The message handed to \<open>onmessage\<close>, and the link after.\<close>

definition wsReceive :: "nat \<Rightarrow> wsMessage \<Rightarrow> wsLink \<Rightarrow> nat list option \<times> wsLink" where
  "wsReceive maxFrameBytes m l =
     (if wlClosed l then (None, l)
      else case m of
        WsBinary \<Rightarrow> (None, wsShut (Some unsupportedData) l)
      | WsText t \<Rightarrow> if maxFrameBytes < length (utf8Encode t) then (None, wsShut (Some messageTooBig) l) else (Some t, l))"

subsection \<open>Runs\<close>

datatype wsOp =
    WsSends "nat list" wsLooks
  | WsDrains wsLooks
  | WsAwaits wsLooks
  | WsReceives wsMessage
  | WsCloses

text \<open>The frames handed to the WebSocket, those accepted from the owner, and the link.\<close>

fun wsStep :: "nat \<Rightarrow> wsOp \<Rightarrow> wsLink \<Rightarrow> nat list list \<times> nat list list \<times> wsLink" where
  "wsStep m (WsSends frame looks) l =
     (case wsSend m frame looks l of Inl e \<Rightarrow> ([], [], l) | Inr (frames, l') \<Rightarrow> (frames, [frame], l'))"
| "wsStep m (WsDrains looks) l = (let (frames, l') = wsFlush looks l in (frames, [], l'))"
| "wsStep m (WsAwaits looks) l = ([], [], snd (wsDrained looks l))"
| "wsStep m (WsReceives msg) l = ([], [], snd (wsReceive m msg l))"
| "wsStep m WsCloses l = ([], [], wsShut None l)"

fun wsRun :: "nat \<Rightarrow> wsOp list \<Rightarrow> wsLink \<Rightarrow> nat list list \<times> nat list list \<times> wsLink" where
  "wsRun m [] l = ([], [], l)"
| "wsRun m (op # ops) l =
     (let (sent, accepted, l1) = wsStep m op l; (sent', accepted', l2) = wsRun m ops l1
      in (sent @ sent', accepted @ accepted', l2))"

lemma wsFlush_split:
  "wsFlush looks l = (frames, l') \<Longrightarrow> \<not> wlClosed l \<Longrightarrow>
     \<exists>rest. wlQueue l = frames @ rest \<and> wlQueue l' = (if wlClosed l' then [] else rest)"
proof (induction looks l arbitrary: frames l' rule: wsFlush.induct)
  case (1 looks l)
  show ?case
  proof (cases "wlQueue l")
    case Nil
    with "1.prems" show ?thesis by (auto simp: wsFlush.simps [of looks l] split: if_splits)
  next
    case (Cons frame rest)
    note q = this
    show ?thesis
    proof (cases "looks = [] \<or> 0 < fst (hd looks) \<or> snd (hd looks) \<in> {WsThrows, WsDropped}")
      case True
      with "1.prems" q show ?thesis
        unfolding wsFlush.simps [of looks l] by (cases looks) (auto simp: wsShut_def split: if_splits wsAnswer.splits)
    next
      case False
      then obtain answer later where looks: "looks = (0, answer) # later" "answer = WsWritten \<or> answer = WsHeld"
        by (cases looks; cases "snd (hd looks)") auto
      obtain fs l2 where r: "wsFlush later (l\<lparr>wlQueue := rest\<rparr>) = (fs, l2)" by (rule prod.exhaust)
      have eq: "frames = frame # fs" "l' = l2"
        using "1.prems" q looks(2) r
        by (auto simp: looks(1) wsFlush.simps [of "(0, WsWritten) # later" l] wsFlush.simps [of "(0, WsHeld) # later" l])
      have "\<exists>r2. rest = fs @ r2 \<and> wlQueue l2 = (if wlClosed l2 then [] else r2)"
        using looks(2) "1.IH" [OF q "1.prems"(2) looks(1) refl _ _ r] "1.prems"(2) by auto
      with q eq show ?thesis by auto
    qed
  qed
qed

lemma wsFlush_closed: "wlClosed l \<Longrightarrow> wlQueue l = [] \<Longrightarrow> wsFlush looks l = ([], l)"
  by (simp add: wsFlush.simps [of looks l])

lemma wsStep_conserves:
  assumes "wsStep m op l = (sent, accepted, l')" "wlClosed l \<longrightarrow> wlQueue l = []"
  shows "prefix sent (wlQueue l @ accepted) \<and> (\<not> wlClosed l' \<longrightarrow> \<not> wlClosed l \<and> sent @ wlQueue l' = wlQueue l @ accepted) \<and>
    (wlClosed l' \<longrightarrow> wlQueue l' = []) \<and> (wlClosed l \<longrightarrow> sent = [] \<and> accepted = [])"
proof (cases op)
  case (WsSends frame looks)
  show ?thesis
  proof (cases "wsSend m frame looks l")
    case (Inl e)
    with assms WsSends show ?thesis by auto
  next
    case (Inr r)
    then obtain fs where r: "r = (fs, l')" "sent = fs" "accepted = [frame]" using assms WsSends by (cases r) auto
    have open_link: "\<not> wlClosed l" using Inr by (auto simp: wsSend_def split: if_splits)
    show ?thesis
    proof (cases "wlQueue l = []")
      case True
      with Inr r open_link have "wsFlush looks (l\<lparr>wlQueue := [frame]\<rparr>) = (fs, l')"
        by (auto simp: wsSend_def Let_def split: if_splits)
      from wsFlush_split [OF this] True r open_link show ?thesis by (auto simp: prefix_def)
    next
      case False
      with Inr r open_link show ?thesis by (auto simp: wsSend_def Let_def split: if_splits)
    qed
  qed
next
  case (WsDrains looks)
  then have "wsFlush looks l = (sent, l')" "accepted = []" using assms by (auto split: prod.splits)
  with wsFlush_split [OF this(1)] wsFlush_closed [of l looks] assms(2) show ?thesis
    by (cases "wlClosed l") (auto simp: prefix_def)
qed (use assms in \<open>auto simp: wsDrained_def wsReceive_def wsShut_def split: wsMessage.splits if_splits\<close>)

lemma wsRun_conserves:
  "wsRun m ops l = (sent, accepted, l') \<Longrightarrow> wlClosed l \<longrightarrow> wlQueue l = [] \<Longrightarrow>
     prefix sent (wlQueue l @ accepted) \<and> (\<not> wlClosed l' \<longrightarrow> \<not> wlClosed l \<and> sent @ wlQueue l' = wlQueue l @ accepted) \<and>
     (wlClosed l \<longrightarrow> sent = [] \<and> accepted = [])"
proof (induction ops arbitrary: l sent accepted)
  case (Cons op ops)
  obtain s1 a1 l1 where s: "wsStep m op l = (s1, a1, l1)" by (rule prod_cases3)
  obtain s2 a2 l2 where r: "wsRun m ops l1 = (s2, a2, l2)" by (rule prod_cases3)
  from Cons.prems s r have eq: "sent = s1 @ s2" "accepted = a1 @ a2" "l' = l2" by auto
  note step = wsStep_conserves [OF s Cons.prems(2)]
  have ih: "prefix s2 (wlQueue l1 @ a2) \<and> (\<not> wlClosed l' \<longrightarrow> \<not> wlClosed l1 \<and> s2 @ wlQueue l' = wlQueue l1 @ a2) \<and>
     (wlClosed l1 \<longrightarrow> s2 = [] \<and> a2 = [])"
    using Cons.IH [of l1 s2 a2] r eq step by simp
  show ?case
  proof (cases "wlClosed l1")
    case True
    with ih step eq show ?thesis by auto
  next
    case False
    with step have "s1 @ wlQueue l1 = wlQueue l @ a1" "\<not> wlClosed l" by auto
    with ih eq show ?thesis by (auto simp: prefix_def) (metis append.assoc)+
  qed
qed simp

lemma wsRun_cap: "wsRun m ops l = (sent, accepted, l') \<Longrightarrow> \<forall>frame\<in>set accepted. length (utf8Encode frame) \<le> m"
proof (induction ops arbitrary: l sent accepted)
  case (Cons op ops)
  obtain s1 a1 l1 where s: "wsStep m op l = (s1, a1, l1)" by (rule prod_cases3)
  obtain s2 a2 l2 where r: "wsRun m ops l1 = (s2, a2, l2)" by (rule prod_cases3)
  have "\<forall>frame\<in>set a1. length (utf8Encode frame) \<le> m"
    using s by (cases op) (auto simp: wsSend_def Let_def split: sum.splits if_splits prod.splits)
  with Cons s r show ?case by fastforce
qed simp

text \<open>The WebSocket gets the accepted frames in order, each once: over any operations, what it took is a prefix of
  what the link accepted, and while the link is open the rest is exactly its queue. Every accepted frame is
  within the cap.\<close>
theorem websocket_frames_in_order:
  assumes "wsRun m ops newWsLink = (sent, accepted, l)"
  shows "prefix sent accepted \<and> (\<not> wlClosed l \<longrightarrow> accepted = sent @ wlQueue l) \<and>
    (\<forall>frame\<in>set accepted. length (utf8Encode frame) \<le> m)"
  using wsRun_conserves [OF assms] wsRun_cap [OF assms] by (auto simp: newWsLink_def)

theorem websocket_frames_in_order_witness:
  "wsRun 10 [WsSends [65] [(0, WsHeld), (1, WsHeld)], WsSends [66] [], WsDrains [(0, WsWritten), (0, WsWritten)]] newWsLink
    = ([[65], [66]], [[65], [66]], newWsLink) \<and> prefix [[65::nat], [66]] [[65], [66]]"
proof -
  have r: "wsRun 10 [WsSends [65] [(0, WsHeld), (1, WsHeld)], WsSends [66] [], WsDrains [(0, WsWritten), (0, WsWritten)]] newWsLink
    = ([[65], [66]], [[65], [66]], newWsLink)"
    by (simp add: newWsLink_def wsSend_def wsFlush.simps utf8Encode_def encodeCp_def heldNow_def Let_def)
  with websocket_frames_in_order [OF r] show ?thesis by blast
qed

end
