(* ===== verification/Node_Connection.thy ===== *)
theory Node_Connection
  imports Reins_Prelude
begin

text \<open>
  The node end of the link to the server: \<^verbatim>\<open>packages/node/src/node-connection.ts\<close>. \<open>nodeLink\<close> is the closure of
  \<open>connectNode\<close> together with what it has started: the dials in progress, the connections it opened and
  the update it installs. Each callback is a definition on that state, and \<open>linkStep\<close> says when the
  event loop runs which. A wire's \<open>onclose\<close> and the rejection of its hello are microtasks of its closing
  (\<^verbatim>\<open>local-socket.ts\<close>, \<^verbatim>\<open>websocket-link.ts\<close>), so no timer fires before them. A dial calls \<open>opened\<close> once or rejects
  (the contract of \<open>Transport.open\<close>). Random numbers are inputs; times are in milliseconds.
\<close>

subsection \<open>The hello's reply\<close>

datatype helloFailure =
    UpdateTo string
  | Refusal string
  | NegotiationFailure string

record helloReplyData =
  hrKind :: string
  hrReady :: "int option"
  hrUpdate :: "string option"
  hrError :: "(string \<times> string) option"

definition unreadable :: "string \<Rightarrow> helloFailure" where
  "unreadable kind = Refusal (''The server answered the hello with a reply this node does not understand ('' @ kind @ ''); reinstall the node'')"

text \<open>The parts of the reply that its kind's schema accepts are options; the result is the negotiated version.\<close>

definition helloReply :: "helloReplyData \<Rightarrow> helloFailure + int" where
  "helloReply r =
     (if hrKind r = ''ready'' then
        (case hrReady r of None \<Rightarrow> Inl (NegotiationFailure ''Invalid response'') | Some v \<Rightarrow> Inr v)
      else if hrKind r = ''update'' then
        (case hrUpdate r of None \<Rightarrow> Inl (unreadable (hrKind r)) | Some build \<Rightarrow> Inl (UpdateTo build))
      else if hrKind r = ''error'' then
        (case hrError r of None \<Rightarrow> Inl (unreadable (hrKind r))
         | Some (code, msg) \<Rightarrow> Inl (Refusal (''The server cannot serve this node ('' @ code @ ''): '' @ msg)))
      else Inl (unreadable (hrKind r)))"

text \<open>What \<open>ready\<close> of a connection settles with.\<close>

definition helloOutcome :: "int \<Rightarrow> int \<Rightarrow> helloReplyData \<Rightarrow> helloFailure + int" where
  "helloOutcome minVersion maxVersion r =
     (case helloReply r of
        Inl e \<Rightarrow> Inl e
      | Inr v \<Rightarrow> if v < minVersion \<or> maxVersion < v then Inl (NegotiationFailure ''Invalid negotiation'') else Inr v)"

text \<open>The hello's call rejected with the server's error (\<^verbatim>\<open>rpc.ts\<close> has the codes).\<close>

definition nodeRefused :: int where "nodeRefused = -32005"
definition negotiationFailedCode :: int where "negotiationFailedCode = -32001"
definition unauthorized :: int where "unauthorized = -32003"

definition helloRejected :: "int \<Rightarrow> string \<Rightarrow> helloFailure" where
  "helloRejected code msg = (if code = nodeRefused then Refusal msg else NegotiationFailure msg)"

subsection \<open>The state of the link\<close>

datatype linkReport = ReportConnecting "string option" | ReportConnected | ReportRefused string

record backoff =
  boInitial :: rat
  boMax :: rat

record linkOptions =
  loBackoff :: backoff
  loUpdateBackoff :: backoff
  loCanUpdate :: bool

definition reconnectBackoff :: backoff where "reconnectBackoff = \<lparr>boInitial = 100, boMax = 5000\<rparr>"
definition updateBackoff :: backoff where "updateBackoff = \<lparr>boInitial = 5000, boMax = 300000\<rparr>"

text \<open>A connection: its wire is closed, its \<open>onclose\<close> ran, its hello settled (and its handler ran), it negotiated.\<close>

record linkConn =
  lcClosed :: bool
  lcDone :: bool
  lcSettled :: bool
  lcNegotiated :: bool

record nodeLink =
  nlStopped :: bool
  nlUpdating :: bool
  nlAttempt :: nat
  nlUpdateFailures :: nat
  nlLastFailure :: "string option"
  nlTimer :: "rat option"
  nlCurrent :: "nat option"
  nlDials :: nat
  nlConns :: "linkConn list"
  nlUpdates :: "string list"
  nlReports :: "linkReport list"

definition delayMs :: "backoff \<Rightarrow> nat \<Rightarrow> rat \<Rightarrow> rat" where
  "delayMs b failures rnd = (let ceil = min (boMax b) (boInitial b * 2 ^ failures) in ceil / 2 + rnd * ceil / 2)"

definition report :: "linkReport \<Rightarrow> nodeLink \<Rightarrow> nodeLink" where
  "report r l = l\<lparr>nlReports := nlReports l @ [r]\<rparr>"

definition schedule :: "linkOptions \<Rightarrow> rat option \<Rightarrow> rat \<Rightarrow> nodeLink \<Rightarrow> nodeLink" where
  "schedule opts ms rnd l =
     (if nlStopped l \<or> nlUpdating l \<or> nlTimer l \<noteq> None then l
      else case ms of
        Some m \<Rightarrow> l\<lparr>nlTimer := Some m\<rparr>
      | None \<Rightarrow> l\<lparr>nlTimer := Some (delayMs (loBackoff opts) (nlAttempt l) rnd), nlAttempt := Suc (nlAttempt l)\<rparr>)"

definition linkFailed :: "string \<Rightarrow> nodeLink \<Rightarrow> nodeLink" where
  "linkFailed failure l =
     (if nlStopped l \<or> nlLastFailure l = Some failure then l
      else report (ReportConnecting (Some failure)) (l\<lparr>nlLastFailure := Some failure\<rparr>))"

definition updateConn :: "nat \<Rightarrow> (linkConn \<Rightarrow> linkConn) \<Rightarrow> nodeLink \<Rightarrow> nodeLink" where
  "updateConn c f l = (if c < length (nlConns l) then l\<lparr>nlConns := (nlConns l)[c := f (nlConns l ! c)]\<rparr> else l)"

definition closeConn :: "nat \<Rightarrow> nodeLink \<Rightarrow> nodeLink" where
  "closeConn c = updateConn c (\<lambda>k. k\<lparr>lcClosed := True\<rparr>)"

definition stopLink :: "nodeLink \<Rightarrow> nodeLink" where
  "stopLink l =
     (let l1 = l\<lparr>nlStopped := True, nlTimer := None\<rparr>
      in (case nlCurrent l1 of None \<Rightarrow> l1 | Some c \<Rightarrow> closeConn c l1)\<lparr>nlCurrent := None\<rparr>)"

definition refuseLink :: "string \<Rightarrow> nodeLink \<Rightarrow> nodeLink" where
  "refuseLink msg l = report (ReportRefused msg) (stopLink l)"

definition updateLink :: "linkOptions \<Rightarrow> string \<Rightarrow> nodeLink \<Rightarrow> nodeLink" where
  "updateLink opts build l =
     (if \<not> loCanUpdate opts
      then refuseLink (''The server runs build '' @ take 12 build @ '', and this node cannot update itself'') l
      else l\<lparr>nlUpdating := True, nlTimer := None, nlUpdates := build # nlUpdates l\<rparr>)"

text \<open>\<open>onUpdate\<close> resolved, and rejected.\<close>

definition updateResolved :: "string \<Rightarrow> nodeLink \<Rightarrow> nodeLink" where
  "updateResolved build l = stopLink (l\<lparr>nlUpdates := remove1 build (nlUpdates l)\<rparr>)"

definition updateRejected :: "linkOptions \<Rightarrow> string \<Rightarrow> string \<Rightarrow> rat \<Rightarrow> nodeLink \<Rightarrow> nodeLink" where
  "updateRejected opts build msg rnd l =
     (let l1 = l\<lparr>nlUpdates := remove1 build (nlUpdates l), nlUpdating := False\<rparr>
      in if nlStopped l1 then l1
         else schedule opts (Some (delayMs (loUpdateBackoff opts) (nlUpdateFailures l1) rnd)) 0
                (linkFailed (''updating to build '' @ take 12 build @ '' failed: '' @ msg)
                  (l1\<lparr>nlUpdateFailures := Suc (nlUpdateFailures l1)\<rparr>)))"

definition newConn :: linkConn where
  "newConn = \<lparr>lcClosed = False, lcDone = False, lcSettled = False, lcNegotiated = False\<rparr>"

text \<open>A socket of a link that was stopped meanwhile is closed at once, with nothing attached to it.\<close>

definition linkOpened :: "nodeLink \<Rightarrow> nodeLink" where
  "linkOpened l =
     (let l1 = l\<lparr>nlDials := nlDials l - 1\<rparr>
      in if nlStopped l1 then l1
         else l1\<lparr>nlConns := nlConns l1 @ [newConn], nlCurrent := Some (length (nlConns l1))\<rparr>)"

definition wireOnclose :: "linkOptions \<Rightarrow> nat \<Rightarrow> rat \<Rightarrow> nodeLink \<Rightarrow> nodeLink" where
  "wireOnclose opts c rnd l =
     (let l1 = updateConn c (\<lambda>k. k\<lparr>lcClosed := True, lcDone := True\<rparr>) l;
          l2 = (if nlCurrent l1 = Some c then l1\<lparr>nlCurrent := None\<rparr> else l1);
          l3 = (if lcNegotiated (nlConns l2 ! c) \<and> \<not> nlStopped l2 then report (ReportConnecting None) l2 else l2)
      in schedule opts None rnd l3)"

definition readyResolved :: "nat \<Rightarrow> nodeLink \<Rightarrow> nodeLink" where
  "readyResolved c l =
     (let l1 = updateConn c (\<lambda>k. k\<lparr>lcSettled := True\<rparr>) (l\<lparr>nlAttempt := 0, nlUpdateFailures := 0, nlLastFailure := None\<rparr>)
      in if lcClosed (nlConns l1 ! c) then l1
         else report ReportConnected (updateConn c (\<lambda>k. k\<lparr>lcNegotiated := True\<rparr>) l1))"

definition readyRejected :: "linkOptions \<Rightarrow> nat \<Rightarrow> helloFailure \<Rightarrow> nodeLink \<Rightarrow> nodeLink" where
  "readyRejected opts c e l =
     (let l1 = updateConn c (\<lambda>k. k\<lparr>lcSettled := True\<rparr>) l
      in if nlStopped l1 then l1
         else case e of
           UpdateTo build \<Rightarrow> updateLink opts build l1
         | Refusal msg \<Rightarrow> refuseLink msg l1
         | NegotiationFailure msg \<Rightarrow> linkFailed (''negotiation failed: '' @ msg) l1)"

definition connectLink :: "nodeLink \<Rightarrow> nodeLink" where
  "connectLink l = (if nlStopped l then l else l\<lparr>nlDials := Suc (nlDials l)\<rparr>)"

definition dialFailed :: "linkOptions \<Rightarrow> string \<Rightarrow> rat \<Rightarrow> nodeLink \<Rightarrow> nodeLink" where
  "dialFailed opts msg rnd l =
     schedule opts None rnd (linkFailed (''cannot reach the server: '' @ msg) (l\<lparr>nlDials := nlDials l - 1\<rparr>))"

definition timerFires :: "nodeLink \<Rightarrow> nodeLink" where
  "timerFires l = connectLink (l\<lparr>nlTimer := None\<rparr>)"

definition startLink :: nodeLink where
  "startLink = connectLink
     \<lparr>nlStopped = False, nlUpdating = False, nlAttempt = 0, nlUpdateFailures = 0, nlLastFailure = None, nlTimer = None,
      nlCurrent = None, nlDials = 0, nlConns = [], nlUpdates = [], nlReports = []\<rparr>"

subsection \<open>What the event loop runs when\<close>

datatype linkEvent =
    DialOpens
  | DialFails string rat
  | WireCloses nat
  | WireOnclose nat rat
  | ReadyResolves nat
  | ReadyRejects nat helloFailure
  | TimerFires
  | UpdateResolves string
  | UpdateRejects string string rat
  | StopCalled

definition connAt :: "nodeLink \<Rightarrow> nat \<Rightarrow> (linkConn \<Rightarrow> bool) \<Rightarrow> bool" where
  "connAt l c P = (c < length (nlConns l) \<and> P (nlConns l ! c))"

definition microtasksRan :: "nodeLink \<Rightarrow> bool" where
  "microtasksRan l = list_all (\<lambda>k. lcClosed k \<longrightarrow> lcDone k \<and> lcSettled k) (nlConns l)"

inductive linkStep :: "linkOptions \<Rightarrow> nodeLink \<Rightarrow> linkEvent \<Rightarrow> nodeLink \<Rightarrow> bool" for opts where
  dial_opens: "0 < nlDials l \<Longrightarrow> linkStep opts l DialOpens (linkOpened l)"
| dial_fails: "0 < nlDials l \<Longrightarrow> linkStep opts l (DialFails msg rnd) (dialFailed opts msg rnd l)"
| wire_closes: "linkStep opts l (WireCloses c) (closeConn c l)"
| wire_onclose: "connAt l c (\<lambda>k. lcClosed k \<and> \<not> lcDone k) \<Longrightarrow> linkStep opts l (WireOnclose c rnd) (wireOnclose opts c rnd l)"
| ready_resolves: "connAt l c (\<lambda>k. \<not> lcSettled k) \<Longrightarrow> linkStep opts l (ReadyResolves c) (readyResolved c l)"
| ready_rejects: "connAt l c (\<lambda>k. lcClosed k \<and> \<not> lcSettled k) \<Longrightarrow>
    linkStep opts l (ReadyRejects c e) (readyRejected opts c e l)"
| timer_fires: "nlTimer l \<noteq> None \<Longrightarrow> microtasksRan l \<Longrightarrow> linkStep opts l TimerFires (timerFires l)"
| update_resolves: "build \<in> set (nlUpdates l) \<Longrightarrow> linkStep opts l (UpdateResolves build) (updateResolved build l)"
| update_rejects: "build \<in> set (nlUpdates l) \<Longrightarrow>
    linkStep opts l (UpdateRejects build msg rnd) (updateRejected opts build msg rnd l)"
| stop_called: "linkStep opts l StopCalled (stopLink l)"

inductive linkReachable :: "linkOptions \<Rightarrow> nodeLink \<Rightarrow> bool" for opts where
  started: "linkReachable opts startLink"
| stepped: "linkReachable opts l \<Longrightarrow> linkStep opts l ev l' \<Longrightarrow> linkReachable opts l'"

inductive_cases linkStepE: "linkStep opts l ev l'"
inductive_simps linkStep_simps:
  "linkStep opts l DialOpens l'" "linkStep opts l (DialFails msg rnd) l'" "linkStep opts l (WireCloses c) l'"
  "linkStep opts l (WireOnclose c rnd) l'" "linkStep opts l (ReadyResolves c) l'" "linkStep opts l (ReadyRejects c e) l'"
  "linkStep opts l TimerFires l'" "linkStep opts l (UpdateResolves build) l'"
  "linkStep opts l (UpdateRejects build msg rnd) l'" "linkStep opts l StopCalled l'"

end
