(* ===== verification/Link_Laws.thy ===== *)
theory Link_Laws
  imports Node_Connection
begin

text \<open>
  What the node's end of the link keeps, by rule induction over \<open>linkReachable\<close>: one attempt at a time, never idle
  before it is stopped, silent afterwards; and the bounds of the redial delays.
\<close>

subsection \<open>The invariant\<close>

text \<open>A connection is over once its \<open>onclose\<close> and its hello's handler ran.\<close>

definition connOver :: "linkConn \<Rightarrow> bool" where
  "connOver k = (lcClosed k \<and> lcDone k \<and> lcSettled k)"

text \<open>All but the newest connection are over; a dial in progress waits for none, and a set timer or a running
  update has no open wire beside it.\<close>

definition connsInOrder :: "nodeLink \<Rightarrow> bool" where
  "connsInOrder l = ((\<forall>c. Suc c < length (nlConns l) \<longrightarrow> connOver (nlConns l ! c)) \<and>
     (\<forall>k\<in>set (nlConns l). lcDone k \<longrightarrow> lcClosed k))"

definition dialAlone :: "nodeLink \<Rightarrow> bool" where
  "dialAlone l = (nlDials l \<le> 1 \<and> (0 < nlDials l \<longrightarrow> nlTimer l = None \<and> nlUpdates l = [] \<and> (\<forall>k\<in>set (nlConns l). connOver k)))"

definition timerAlone :: "nodeLink \<Rightarrow> bool" where
  "timerAlone l = (nlTimer l \<noteq> None \<longrightarrow> (\<forall>k\<in>set (nlConns l). lcClosed k))"

definition updateAlone :: "nodeLink \<Rightarrow> bool" where
  "updateAlone l = (nlUpdates l \<noteq> [] \<longrightarrow> nlUpdating l \<and> length (nlUpdates l) = 1 \<and> nlTimer l = None \<and>
     (\<forall>k\<in>set (nlConns l). lcClosed k \<and> lcSettled k))"

definition currentOpen :: "nodeLink \<Rightarrow> bool" where
  "currentOpen l = ((\<forall>c. nlCurrent l = Some c \<longrightarrow> Suc c = length (nlConns l) \<and> \<not> lcDone (nlConns l ! c)) \<and>
     (nlCurrent l = None \<longrightarrow> nlStopped l \<or> (\<forall>k\<in>set (nlConns l). lcDone k)))"

definition stoppedQuiet :: "nodeLink \<Rightarrow> bool" where
  "stoppedQuiet l = (nlStopped l \<longrightarrow> nlTimer l = None \<and> nlCurrent l = None \<and> (\<forall>k\<in>set (nlConns l). lcClosed k))"

definition goesOn :: "nodeLink \<Rightarrow> bool" where
  "goesOn l = (\<not> nlStopped l \<longrightarrow> (nlUpdating l \<longrightarrow> nlUpdates l \<noteq> []) \<and>
     (nlTimer l \<noteq> None \<or> 0 < nlDials l \<or> nlUpdates l \<noteq> [] \<or> (\<exists>k\<in>set (nlConns l). \<not> lcDone k)))"

lemmas linkInv_defs = connsInOrder_def dialAlone_def timerAlone_def updateAlone_def currentOpen_def stoppedQuiet_def goesOn_def

definition linkInv :: "nodeLink \<Rightarrow> bool" where
  "linkInv l = (connsInOrder l \<and> dialAlone l \<and> timerAlone l \<and> updateAlone l \<and> currentOpen l \<and> stoppedQuiet l \<and> goesOn l)"

lemma linkInv_start: "linkInv startLink"
  by (simp add: linkInv_def linkInv_defs startLink_def connectLink_def)

text \<open>Reports touch nothing the invariant reads.\<close>

lemma linkInv_report [simp]: "linkInv (report r l) = linkInv l"
  by (simp add: linkInv_def linkInv_defs report_def)

lemma linkInv_failed [simp]: "linkInv (linkFailed f l) = linkInv l"
  by (simp add: linkInv_def linkInv_defs report_def linkFailed_def)

lemma linkInv_counters:
  "linkInv (l\<lparr>nlAttempt := a, nlUpdateFailures := u, nlLastFailure := f\<rparr>) = linkInv l"
  by (simp add: linkInv_def linkInv_defs)

lemma report_keeps:
  "nlStopped (report r l) = nlStopped l" "nlUpdating (report r l) = nlUpdating l" "nlTimer (report r l) = nlTimer l"
  "(report r l)\<lparr>nlTimer := t\<rparr> = report r (l\<lparr>nlTimer := t\<rparr>)"
  by (simp_all add: report_def)

lemma failed_keeps:
  "nlStopped (linkFailed f l) = nlStopped l" "nlUpdating (linkFailed f l) = nlUpdating l" "nlTimer (linkFailed f l) = nlTimer l"
  "(linkFailed f l)\<lparr>nlTimer := t\<rparr> = linkFailed f (l\<lparr>nlTimer := t\<rparr>)"
  by (simp_all add: linkFailed_def report_def)

text \<open>The newest connection, by the split of the list.\<close>

lemma newest_split:
  assumes "connsInOrder l" "c < length (nlConns l)" "\<not> connOver (nlConns l ! c)"
  obtains ks k where "nlConns l = ks @ [k]" "c = length ks" "k = nlConns l ! c" "\<forall>x\<in>set ks. connOver x"
proof
  have c: "Suc c = length (nlConns l)"
    using assms by (metis Suc_lessI connsInOrder_def)
  show "nlConns l = butlast (nlConns l) @ [nlConns l ! c]"
    using c by (metis append_butlast_last_id diff_Suc_1 last_conv_nth length_0_conv nat.simps(3))
  show "c = length (butlast (nlConns l))" using c by simp
  show "\<forall>x\<in>set (butlast (nlConns l)). connOver x"
  proof
    fix x assume "x \<in> set (butlast (nlConns l))"
    then obtain i where i: "i < length (butlast (nlConns l))" "x = butlast (nlConns l) ! i" by (metis in_set_conv_nth)
    then have "Suc i < length (nlConns l)" "x = nlConns l ! i" by (simp_all add: nth_butlast)
    with assms(1) show "connOver x" by (simp add: connsInOrder_def)
  qed
qed simp

lemma connsInOrder_snoc:
  assumes "nlConns l = ks @ [k]"
  shows "connsInOrder l \<longleftrightarrow> (\<forall>x\<in>set ks. connOver x) \<and> (lcDone k \<longrightarrow> lcClosed k)"
proof -
  have "(\<forall>c. Suc c < length (ks @ [k]) \<longrightarrow> connOver ((ks @ [k]) ! c)) = (\<forall>x\<in>set ks. connOver x)"
    by (simp add: nth_append all_set_conv_all_nth)
  then show ?thesis by (auto simp: connsInOrder_def assms connOver_def)
qed

lemma currentOpen_snoc:
  assumes "nlConns l = ks @ [k]" "\<forall>x\<in>set ks. connOver x"
  shows "currentOpen l \<longleftrightarrow>
     (case nlCurrent l of Some c \<Rightarrow> c = length ks \<and> \<not> lcDone k | None \<Rightarrow> nlStopped l \<or> lcDone k)"
  using assms by (cases "nlCurrent l") (auto simp: currentOpen_def connOver_def)

text \<open>Without a connection in progress the order is plain.\<close>

lemma linkInv_over:
  assumes "\<forall>k\<in>set (nlConns l). connOver k"
  shows "connsInOrder l" "timerAlone l" "currentOpen l \<longleftrightarrow> nlCurrent l = None"
proof -
  show "connsInOrder l" "timerAlone l" using assms by (auto simp: connsInOrder_def timerAlone_def connOver_def)
  show "currentOpen l \<longleftrightarrow> nlCurrent l = None"
  proof (cases "nlCurrent l")
    case (Some c)
    have "lcDone (nlConns l ! c)" if "Suc c = length (nlConns l)"
      using that assms by (metis connOver_def lessI nth_mem)
    with Some show ?thesis by (auto simp: currentOpen_def)
  qed (use assms in \<open>simp add: currentOpen_def connOver_def\<close>)
qed

subsection \<open>Each callback keeps it\<close>

lemma stop_inv:
  assumes inv: "linkInv l"
  shows "linkInv (stopLink l)"
proof (cases "nlCurrent l")
  case None
  have "\<forall>k\<in>set (nlConns l). lcClosed k"
  proof
    fix k assume "k \<in> set (nlConns l)"
    with inv None show "lcClosed k"
      by (cases "nlStopped l") (auto simp: linkInv_def currentOpen_def connsInOrder_def stoppedQuiet_def)
  qed
  with inv None show ?thesis by (auto simp: linkInv_def linkInv_defs stopLink_def)
next
  case (Some c)
  with inv have c: "Suc c = length (nlConns l)" "\<not> lcDone (nlConns l ! c)" by (auto simp: linkInv_def currentOpen_def)
  have "connsInOrder l" "c < length (nlConns l)" "\<not> connOver (nlConns l ! c)"
    using inv c by (simp_all add: linkInv_def connOver_def)
  then obtain ks k where split: "nlConns l = ks @ [k]" "c = length ks" "\<forall>x\<in>set ks. connOver x"
    by (rule newest_split)
  let ?l = "l\<lparr>nlStopped := True, nlTimer := None, nlConns := ks @ [k\<lparr>lcClosed := True\<rparr>], nlCurrent := None\<rparr>"
  have l': "stopLink l = ?l"
    using Some split by (simp add: stopLink_def closeConn_def updateConn_def Let_def)
  have order: "connsInOrder ?l" "currentOpen ?l"
    using split c by (simp_all add: connsInOrder_snoc currentOpen_snoc [of _ ks])
  have "\<forall>k\<in>set (nlConns ?l). lcClosed k" using split by (auto simp: connOver_def)
  with inv order split show ?thesis
    unfolding l' linkInv_def
    by (auto simp: dialAlone_def timerAlone_def updateAlone_def stoppedQuiet_def goesOn_def connOver_def)
qed

lemma stopLink_stopped: "nlStopped (stopLink l)"
  by (simp add: stopLink_def closeConn_def updateConn_def Let_def split: option.splits)

lemma refuse_inv: "linkInv l \<Longrightarrow> linkInv (refuseLink msg l)"
  by (simp add: refuseLink_def stop_inv)

lemma opened_inv:
  assumes "linkInv l" "0 < nlDials l"
  shows "linkInv (linkOpened l)"
proof (cases "nlStopped l")
  case True
  with assms show ?thesis by (auto simp: linkInv_def linkInv_defs linkOpened_def Let_def)
next
  case False
  let ?l = "linkOpened l"
  have over: "\<forall>k\<in>set (nlConns l). connOver k" "nlTimer l = None" "nlUpdates l = []" "nlDials l = 1"
    using assms by (auto simp: linkInv_def dialAlone_def)
  have conns: "nlConns ?l = nlConns l @ [newConn]" using False by (simp add: linkOpened_def Let_def)
  have "connsInOrder ?l" using over by (simp add: connsInOrder_snoc [OF conns] newConn_def)
  moreover have "currentOpen ?l" using False by (simp add: currentOpen_snoc [OF conns over(1)]) (simp add: linkOpened_def Let_def newConn_def)
  ultimately show ?thesis
    using assms(1) False over
    by (simp add: linkInv_def dialAlone_def timerAlone_def updateAlone_def stoppedQuiet_def goesOn_def conns newConn_def)
      (simp add: linkOpened_def Let_def)
qed

lemma schedule_inv:
  assumes "\<not> nlStopped l \<Longrightarrow> \<not> nlUpdating l \<Longrightarrow> nlTimer l = None \<Longrightarrow> linkInv (l\<lparr>nlTimer := Some 0\<rparr>)"
    "nlStopped l \<or> nlUpdating l \<or> nlTimer l \<noteq> None \<Longrightarrow> linkInv l"
  shows "linkInv (schedule opts ms rnd l)"
proof (cases "nlStopped l \<or> nlUpdating l \<or> nlTimer l \<noteq> None")
  case True
  with assms show ?thesis by (auto simp: schedule_def)
next
  case False
  then have "linkInv (schedule opts ms rnd l) = linkInv (l\<lparr>nlTimer := Some 0\<rparr>)"
    by (simp add: schedule_def linkInv_def linkInv_defs split: option.splits)
  with assms False show ?thesis by simp
qed

text \<open>The connection a callback is about is the newest one.\<close>

lemma newest_inv:
  assumes "linkInv l" "connAt l c (\<lambda>k. \<not> connOver k)"
  obtains ks k where "nlConns l = ks @ [k]" "c = length ks" "\<forall>x\<in>set ks. connOver x" "\<not> connOver k"
    "nlDials l = 0" "lcDone k \<longrightarrow> lcClosed k"
proof -
  have order: "connsInOrder l" and c: "c < length (nlConns l)" "\<not> connOver (nlConns l ! c)"
    using assms by (simp_all add: linkInv_def connAt_def)
  obtain ks k where split: "nlConns l = ks @ [k]" "c = length ks" "\<forall>x\<in>set ks. connOver x"
    using order c by (rule newest_split)
  moreover have "nlDials l = 0" using assms c by (force simp: linkInv_def dialAlone_def)
  moreover have "\<not> connOver k" "lcDone k \<longrightarrow> lcClosed k" using c order split by (auto simp: connsInOrder_def)
  ultimately show thesis using that by blast
qed

text \<open>It may close, settle and negotiate.\<close>

lemma newest_changes:
  assumes inv: "linkInv l" and split: "nlConns l = ks @ [k]" "\<forall>x\<in>set ks. connOver x" "nlDials l = 0"
    and k': "lcClosed k \<longrightarrow> lcClosed k'" "lcSettled k \<longrightarrow> lcSettled k'" "lcDone k' = lcDone k"
  shows "linkInv (l\<lparr>nlConns := ks @ [k']\<rparr>)"
  unfolding linkInv_def
proof (intro conjI)
  let ?l = "l\<lparr>nlConns := ks @ [k']\<rparr>"
  have parts: "connsInOrder l" "currentOpen l" "timerAlone l" "updateAlone l" "stoppedQuiet l" "goesOn l"
    using inv by (simp_all add: linkInv_def)
  show "connsInOrder ?l" using parts(1) k' by (auto simp: connsInOrder_snoc [OF split(1)] connsInOrder_snoc)
  show "currentOpen ?l" using parts(2) k' split(2) unfolding currentOpen_snoc [OF split(1,2)]
    by (cases "nlCurrent l") (simp_all add: currentOpen_snoc [of _ ks k'])
  show "dialAlone ?l" using split(3) by (simp add: dialAlone_def)
  show "timerAlone ?l" using parts(3) k' by (auto simp: timerAlone_def split(1))
  show "updateAlone ?l" using parts(4) k' by (auto simp: updateAlone_def split(1))
  show "stoppedQuiet ?l" using parts(5) k' by (auto simp: stoppedQuiet_def split(1))
  show "goesOn ?l" using parts(6) k' by (auto simp: goesOn_def split(1))
qed

lemma wire_closes_inv:
  assumes inv: "linkInv l"
  shows "linkInv (closeConn c l)"
proof (cases "connAt l c (\<lambda>k. \<not> connOver k)")
  case False
  have "(nlConns l)[c := (nlConns l ! c)\<lparr>lcClosed := True\<rparr>] = nlConns l" if "c < length (nlConns l)"
  proof -
    have "lcClosed (nlConns l ! c)" using False that by (simp add: connAt_def connOver_def)
    then have "(nlConns l ! c)\<lparr>lcClosed := True\<rparr> = nlConns l ! c" by (cases "nlConns l ! c") simp
    then show ?thesis by (simp add: list_update_id)
  qed
  then have "closeConn c l = l" by (cases l) (simp add: closeConn_def updateConn_def)
  with inv show ?thesis by simp
next
  case True
  from inv True obtain ks k where split: "nlConns l = ks @ [k]" "c = length ks" "\<forall>x\<in>set ks. connOver x" "nlDials l = 0"
    by (rule newest_inv)
  have "closeConn c l = l\<lparr>nlConns := ks @ [k\<lparr>lcClosed := True\<rparr>]\<rparr>" using split by (simp add: closeConn_def updateConn_def)
  with newest_changes [OF inv split(1,3,4)] show ?thesis by simp
qed

lemma onclose_inv:
  assumes inv: "linkInv l" and at: "connAt l c (\<lambda>k. lcClosed k \<and> \<not> lcDone k)"
  shows "linkInv (wireOnclose opts c rnd l)"
proof -
  have "connAt l c (\<lambda>k. \<not> connOver k)" using at by (simp add: connAt_def connOver_def)
  with inv obtain ks k where split: "nlConns l = ks @ [k]" "c = length ks" "\<forall>x\<in>set ks. connOver x" "nlDials l = 0"
    by (rule newest_inv)
  then have k: "lcClosed k" "\<not> lcDone k" using at by (simp_all add: connAt_def)
  let ?l = "l\<lparr>nlConns := ks @ [k\<lparr>lcClosed := True, lcDone := True\<rparr>], nlCurrent := None\<rparr>"
  have cur: "nlCurrent l = None \<or> nlCurrent l = Some c"
    using inv split by (auto simp: linkInv_def currentOpen_snoc [OF split(1,3)] split: option.splits)
  define r where "r = (if lcNegotiated k \<and> \<not> nlStopped l then report (ReportConnecting None) ?l else ?l)"
  have same: "l\<lparr>nlConns := xs, nlCurrent := None\<rparr> = l\<lparr>nlConns := xs\<rparr>" if "nlCurrent l = None" for xs
    using that by (cases l) simp
  have "nlConns (updateConn c (\<lambda>k. k\<lparr>lcClosed := True, lcDone := True\<rparr>) l) ! c = k\<lparr>lcClosed := True, lcDone := True\<rparr>"
    using split by (simp add: updateConn_def)
  moreover have "updateConn c (\<lambda>k. k\<lparr>lcClosed := True, lcDone := True\<rparr>) l = l\<lparr>nlConns := ks @ [k\<lparr>lcClosed := True, lcDone := True\<rparr>]\<rparr>"
    using split by (simp add: updateConn_def)
  ultimately have l': "wireOnclose opts c rnd l = schedule opts None rnd r"
    using cur split(2) by (auto simp: same wireOnclose_def Let_def r_def)
  have r: "linkInv r = linkInv ?l" "linkInv (r\<lparr>nlTimer := Some 0\<rparr>) = linkInv (?l\<lparr>nlTimer := Some 0\<rparr>)"
      "nlStopped r = nlStopped l" "nlUpdating r = nlUpdating l" "nlTimer r = nlTimer l"
    by (simp_all add: r_def report_keeps)
  have parts: "timerAlone l" "updateAlone l" "stoppedQuiet l" "goesOn l"
    using inv by (simp_all add: linkInv_def)
  have closed: "\<forall>x\<in>set ks. lcClosed x" using split(3) by (simp add: connOver_def)
  have base: "linkInv (?l\<lparr>nlTimer := t\<rparr>)" if t: "t = nlTimer l \<or> \<not> nlStopped l \<and> nlUpdates l = []"
    and goes: "\<not> nlStopped l \<longrightarrow> t \<noteq> None \<or> nlUpdates l \<noteq> []" for t
    unfolding linkInv_def
  proof (intro conjI)
    let ?t = "?l\<lparr>nlTimer := t\<rparr>"
    show "connsInOrder ?t" "currentOpen ?t" using split k by (simp_all add: connsInOrder_snoc currentOpen_snoc [of _ ks])
    show "dialAlone ?t" using split by (simp add: dialAlone_def)
    show "timerAlone ?t" using closed by (simp add: timerAlone_def)
    show "updateAlone ?t" using parts(2) t k by (auto simp: updateAlone_def split(1))
    show "stoppedQuiet ?t" using parts(3) t k by (auto simp: stoppedQuiet_def split(1))
    show "goesOn ?t" using parts(4) goes by (auto simp: goesOn_def)
  qed
  show ?thesis
    unfolding l'
  proof (rule schedule_inv)
    assume "\<not> nlStopped r" "\<not> nlUpdating r" "nlTimer r = None"
    then show "linkInv (r\<lparr>nlTimer := Some 0\<rparr>)"
      using base [of "Some 0"] parts(2) unfolding r(2-) by (auto simp: updateAlone_def)
  next
    assume "nlStopped r \<or> nlUpdating r \<or> nlTimer r \<noteq> None"
    then have "\<not> nlStopped l \<longrightarrow> nlTimer l \<noteq> None \<or> nlUpdates l \<noteq> []"
      using parts(4) unfolding r(3-) by (auto simp: goesOn_def)
    moreover have "?l\<lparr>nlTimer := nlTimer l\<rparr> = ?l" by simp
    ultimately show "linkInv r" using base [of "nlTimer l"] r(1) by simp
  qed
qed

lemma resolved_inv:
  assumes inv: "linkInv l" and at: "connAt l c (\<lambda>k. \<not> lcSettled k)"
  shows "linkInv (readyResolved c l)"
proof -
  have "connAt l c (\<lambda>k. \<not> connOver k)" using at by (simp add: connAt_def connOver_def)
  with inv obtain ks k where split: "nlConns l = ks @ [k]" "c = length ks" "\<forall>x\<in>set ks. connOver x" "nlDials l = 0"
    "lcDone k \<longrightarrow> lcClosed k"
    by (rule newest_inv)
  let ?l = "l\<lparr>nlAttempt := 0, nlUpdateFailures := 0, nlLastFailure := None\<rparr>"
  have "linkInv ?l" using inv by (simp add: linkInv_counters)
  then have settled: "linkInv (?l\<lparr>nlConns := ks @ [k\<lparr>lcSettled := True, lcNegotiated := n\<rparr>]\<rparr>)" for n
    using newest_changes [of ?l ks k "k\<lparr>lcSettled := True, lcNegotiated := n\<rparr>"] split by simp
  have "k\<lparr>lcSettled := True, lcNegotiated := lcNegotiated k\<rparr> = k\<lparr>lcSettled := True\<rparr>" by (cases k) simp
  then show ?thesis
    using settled [of True] settled [of "lcNegotiated k"] split by (simp add: readyResolved_def updateConn_def Let_def)
qed

lemma rejected_inv:
  assumes inv: "linkInv l" and at: "connAt l c (\<lambda>k. lcClosed k \<and> \<not> lcSettled k)"
  shows "linkInv (readyRejected opts c e l)"
proof -
  have "connAt l c (\<lambda>k. \<not> connOver k)" using at by (simp add: connAt_def connOver_def)
  with inv obtain ks k where split: "nlConns l = ks @ [k]" "c = length ks" "\<forall>x\<in>set ks. connOver x" "nlDials l = 0"
    by (rule newest_inv)
  then have k: "lcClosed k" "\<not> lcSettled k" using at by (simp_all add: connAt_def)
  have noUpdate: "nlUpdates l = []" using inv split k by (auto simp: linkInv_def updateAlone_def)
  let ?l = "l\<lparr>nlConns := ks @ [k\<lparr>lcSettled := True\<rparr>]\<rparr>"
  have l1: "updateConn c (\<lambda>k. k\<lparr>lcSettled := True\<rparr>) l = ?l" using split by (simp add: updateConn_def)
  have settled: "linkInv ?l" using newest_changes [OF inv split(1,3,4)] by simp
  have updating: "linkInv (?l\<lparr>nlUpdating := True, nlTimer := None, nlUpdates := [b]\<rparr>)" for b
    unfolding linkInv_def
  proof (intro conjI)
    let ?u = "?l\<lparr>nlUpdating := True, nlTimer := None, nlUpdates := [b]\<rparr>"
    show "connsInOrder ?u" "currentOpen ?u"
      using settled by (simp_all add: linkInv_def connsInOrder_def currentOpen_def)
    show "dialAlone ?u" "timerAlone ?u" "goesOn ?u" using split by (simp_all add: dialAlone_def timerAlone_def goesOn_def)
    show "updateAlone ?u" using split k by (auto simp: updateAlone_def connOver_def)
    show "stoppedQuiet ?u" using settled by (simp add: linkInv_def stoppedQuiet_def)
  qed
  show ?thesis
    using settled updating noUpdate
    by (cases e) (simp_all add: readyRejected_def l1 Let_def updateLink_def refuse_inv)
qed

lemma linkInv_step:
  assumes "linkInv l" "linkStep opts l ev l'"
  shows "linkInv l'"
  using assms(2)
proof (cases rule: linkStep.cases)
  case dial_opens
  with assms(1) show ?thesis by (simp add: opened_inv)
next
  case (dial_fails msg rnd)
  let ?l = "l\<lparr>nlDials := nlDials l - 1\<rparr>"
  have over: "\<forall>k\<in>set (nlConns l). connOver k" "nlTimer l = None" "nlUpdates l = []" "nlDials l = 1"
    using assms(1) dial_fails(3) by (auto simp: linkInv_def dialAlone_def)
  have cur: "currentOpen l" using assms(1) by (simp add: linkInv_def)
  have "nlCurrent l = None" using linkInv_over(3) over(1) cur by blast
  then have order: "connsInOrder ?l" "timerAlone ?l" "currentOpen ?l"
      "connsInOrder (?l\<lparr>nlTimer := Some 0\<rparr>)" "timerAlone (?l\<lparr>nlTimer := Some 0\<rparr>)" "currentOpen (?l\<lparr>nlTimer := Some 0\<rparr>)"
    using linkInv_over [of ?l] linkInv_over [of "?l\<lparr>nlTimer := Some 0\<rparr>"] over(1) by simp_all
  show ?thesis
    unfolding dial_fails dialFailed_def
  proof (rule schedule_inv)
    show "linkInv ((linkFailed (''cannot reach the server: '' @ msg) ?l)\<lparr>nlTimer := Some 0\<rparr>)"
      if "\<not> nlStopped (linkFailed (''cannot reach the server: '' @ msg) ?l)"
        "\<not> nlUpdating (linkFailed (''cannot reach the server: '' @ msg) ?l)"
      using assms(1) over order that
      by (simp add: failed_keeps) (simp add: linkInv_def dialAlone_def updateAlone_def stoppedQuiet_def goesOn_def)
    show "linkInv (linkFailed (''cannot reach the server: '' @ msg) ?l)"
      if "nlStopped (linkFailed (''cannot reach the server: '' @ msg) ?l) \<or>
        nlUpdating (linkFailed (''cannot reach the server: '' @ msg) ?l) \<or>
        nlTimer (linkFailed (''cannot reach the server: '' @ msg) ?l) \<noteq> None"
      using assms(1) over order that
      by (auto simp: failed_keeps) (auto simp: linkInv_def dialAlone_def updateAlone_def stoppedQuiet_def goesOn_def)
  qed
next
  case (wire_closes c)
  with assms(1) show ?thesis by (simp add: wire_closes_inv)
next
  case (wire_onclose c rnd)
  with assms(1) show ?thesis by (simp add: onclose_inv)
next
  case (ready_resolves c)
  with assms(1) show ?thesis by (simp add: resolved_inv)
next
  case (ready_rejects c e)
  with assms(1) show ?thesis by (simp add: rejected_inv)
next
  case timer_fires
  have over: "\<forall>k\<in>set (nlConns l). connOver k"
    using assms(1) timer_fires by (auto simp: linkInv_def timerAlone_def microtasksRan_def list_all_iff connOver_def)
  have live: "\<not> nlStopped l" "nlUpdates l = []" "nlDials l = 0"
    using assms(1) timer_fires by (auto simp: linkInv_def stoppedQuiet_def updateAlone_def dialAlone_def)
  have cur: "currentOpen l" using assms(1) by (simp add: linkInv_def)
  have "nlCurrent l = None" using linkInv_over(3) over(1) cur by blast
  then have "connsInOrder l'" "timerAlone l'" "currentOpen l'"
    using linkInv_over [of l'] over live timer_fires by (simp_all add: timerFires_def connectLink_def)
  with assms(1) over live show ?thesis unfolding linkInv_def
    by (simp add: timer_fires timerFires_def connectLink_def dialAlone_def updateAlone_def stoppedQuiet_def goesOn_def)
next
  case (update_resolves build)
  have one: "nlUpdates l = [build]"
    using assms(1) update_resolves(3) by (cases "nlUpdates l") (auto simp: linkInv_def updateAlone_def)
  have "stopLink (l\<lparr>nlUpdates := []\<rparr>) = (stopLink l)\<lparr>nlUpdates := []\<rparr>"
    by (simp add: stopLink_def closeConn_def updateConn_def Let_def split: option.splits)
  moreover have "linkInv ((stopLink l)\<lparr>nlUpdates := []\<rparr>)"
    using stop_inv [OF assms(1)] stopLink_stopped [of l] by (simp add: linkInv_def linkInv_defs)
  ultimately show ?thesis by (simp add: update_resolves updateResolved_def one)
next
  case (update_rejects build msg rnd)
  have one: "nlUpdates l = [build]"
    using assms(1) update_rejects(3) by (cases "nlUpdates l") (auto simp: linkInv_def updateAlone_def)
  let ?l = "l\<lparr>nlUpdates := [], nlUpdating := False\<rparr>"
  have stopped: "linkInv ?l" if "nlStopped l"
    using assms(1) that by (simp add: linkInv_def linkInv_defs)
  have retry: "linkInv (schedule opts ms 0 (linkFailed f (?l\<lparr>nlUpdateFailures := n\<rparr>)))" if "\<not> nlStopped l" for ms f n
  proof (rule schedule_inv)
    show "linkInv ((linkFailed f (?l\<lparr>nlUpdateFailures := n\<rparr>))\<lparr>nlTimer := Some 0\<rparr>)"
      using assms(1) that one by (simp add: failed_keeps) (simp add: linkInv_def linkInv_defs)
    show "linkInv (linkFailed f (?l\<lparr>nlUpdateFailures := n\<rparr>))"
      if "nlStopped (linkFailed f (?l\<lparr>nlUpdateFailures := n\<rparr>)) \<or> nlUpdating (linkFailed f (?l\<lparr>nlUpdateFailures := n\<rparr>)) \<or>
        nlTimer (linkFailed f (?l\<lparr>nlUpdateFailures := n\<rparr>)) \<noteq> None"
      using assms(1) that one \<open>\<not> nlStopped l\<close> by (simp add: failed_keeps) (simp add: linkInv_def linkInv_defs)
  qed
  show ?thesis
    using stopped retry by (simp add: update_rejects updateRejected_def Let_def one)
next
  case stop_called
  with assms(1) show ?thesis by (simp add: stop_inv)
qed


subsection \<open>The properties\<close>

theorem linkInv_reachable: "linkReachable opts l \<Longrightarrow> linkInv l"
  by (induction rule: linkReachable.induct) (auto intro: linkInv_start linkInv_step)

text \<open>C9: One attempt at a time: in every reachable state at most one dial or connection is in progress (a
  connection until its \<open>onclose\<close> ran), none is dialed while a redial is due or an update is installed, and no
  wire is open while either is.\<close>
theorem link_single_flight:
  assumes "linkReachable opts l"
  shows "nlDials l + length (filter (\<lambda>k. \<not> lcDone k) (nlConns l)) \<le> 1 \<and>
    (nlTimer l \<noteq> None \<or> nlUpdates l \<noteq> [] \<longrightarrow> nlDials l = 0 \<and> (\<forall>k\<in>set (nlConns l). lcClosed k)) \<and>
    (nlTimer l = None \<or> nlUpdates l = []) \<and> length (nlUpdates l) \<le> 1"
proof -
  have inv: "linkInv l" using assms by (rule linkInv_reachable)
  have "length (filter (\<lambda>k. \<not> lcDone k) (nlConns l)) \<le> 1 \<and>
    (0 < nlDials l \<longrightarrow> filter (\<lambda>k. \<not> lcDone k) (nlConns l) = [])"
  proof (cases "\<exists>c. connAt l c (\<lambda>k. \<not> connOver k)")
    case True
    then obtain c where "connAt l c (\<lambda>k. \<not> connOver k)" by blast
    with inv obtain ks k where "nlConns l = ks @ [k]" "\<forall>x\<in>set ks. connOver x" "nlDials l = 0"
      by (rule newest_inv)
    moreover from this have "filter (\<lambda>k. \<not> lcDone k) ks = []" by (auto simp: connOver_def filter_empty_conv)
    ultimately show ?thesis by simp
  next
    case False
    then have "\<forall>k\<in>set (nlConns l). connOver k" by (auto simp: connAt_def all_set_conv_all_nth)
    then have "filter (\<lambda>k. \<not> lcDone k) (nlConns l) = []" by (simp add: filter_empty_conv connOver_def)
    then show ?thesis by simp
  qed
  with inv show ?thesis by (auto simp: linkInv_def dialAlone_def timerAlone_def updateAlone_def)
qed

text \<open>A run of the link: a first dial opens, its wire closes, and the redial is due.\<close>

definition demoOptions :: linkOptions where
  "demoOptions = \<lparr>loBackoff = reconnectBackoff, loUpdateBackoff = updateBackoff, loCanUpdate = True\<rparr>"

definition demoRedial :: nodeLink where
  "demoRedial = wireOnclose demoOptions 0 0 (closeConn 0 (linkOpened startLink))"

lemmas demo_link_simps = demoRedial_def wireOnclose_def closeConn_def linkOpened_def startLink_def connectLink_def
  updateConn_def schedule_def newConn_def Let_def stopLink_def refuseLink_def report_def readyRejected_def connAt_def

lemma demoRedial_reachable: "linkReachable demoOptions demoRedial"
  unfolding demoRedial_def
proof (rule linkReachable.stepped)
  show "linkReachable demoOptions (closeConn 0 (linkOpened startLink))"
    by (rule linkReachable.stepped [OF linkReachable.stepped [OF linkReachable.started linkStep.dial_opens] linkStep.wire_closes])
      (simp add: startLink_def connectLink_def)
  show "linkStep demoOptions (closeConn 0 (linkOpened startLink)) (WireOnclose 0 0)
    (wireOnclose demoOptions 0 0 (closeConn 0 (linkOpened startLink)))"
    by (rule linkStep.wire_onclose) (simp add: demo_link_simps)
qed

theorem link_single_flight_witness:
  "nlTimer demoRedial \<noteq> None \<and> nlDials demoRedial = 0"
  using link_single_flight [OF demoRedial_reachable] by (simp add: demo_link_simps)

text \<open>C10: The link is never stuck: until it is stopped, a redial is due, a dial or a connection is in progress, or an
  update is being installed; and a due redial, once the microtasks ran, dials.\<close>
theorem link_never_stuck:
  assumes "linkReachable opts l" "\<not> nlStopped l"
  shows "(nlTimer l \<noteq> None \<or> 0 < nlDials l \<or> nlUpdates l \<noteq> [] \<or> (\<exists>k\<in>set (nlConns l). \<not> lcDone k)) \<and>
    (nlTimer l \<noteq> None \<and> microtasksRan l \<longrightarrow> (\<exists>l'. linkStep opts l TimerFires l' \<and> nlDials l' = 1 \<and> nlTimer l' = None))"
proof -
  have inv: "linkInv l" using assms(1) by (rule linkInv_reachable)
  have "linkStep opts l TimerFires (timerFires l) \<and> nlDials (timerFires l) = 1 \<and> nlTimer (timerFires l) = None"
    if "nlTimer l \<noteq> None" "microtasksRan l"
    using that inv assms(2) link_single_flight [OF assms(1)]
    by (auto simp: linkStep_simps timerFires_def connectLink_def)
  with inv assms(2) show ?thesis by (auto simp: linkInv_def goesOn_def)
qed

theorem link_never_stuck_witness: "nlTimer demoRedial \<noteq> None \<and> \<not> nlStopped demoRedial \<and> nlDials (timerFires demoRedial) = 1"
proof -
  have "\<not> nlStopped demoRedial" by (simp add: demo_link_simps)
  from link_never_stuck [OF demoRedial_reachable this] this show ?thesis
    by (simp add: demo_link_simps timerFires_def)
qed

text \<open>once stopped (by its owner, a refusal or an installed update) the link stays stopped and silent: no
  later event dials, opens or keeps a connection, sets a redial, or reports anything.\<close>
theorem link_stop_final:
  assumes "linkReachable opts l" "nlStopped l" "linkStep opts l ev l'"
  shows "nlStopped l' \<and> nlReports l' = nlReports l \<and> nlTimer l' = None \<and> nlDials l' \<le> nlDials l \<and>
    length (nlConns l') = length (nlConns l) \<and> (\<forall>k\<in>set (nlConns l'). lcClosed k)"
proof -
  have inv: "linkInv l" using assms(1) by (rule linkInv_reachable)
  then have inv': "linkInv l'" using assms(3) by (rule linkInv_step)
  have quiet: "nlTimer l = None" "nlCurrent l = None" "\<forall>k\<in>set (nlConns l). lcClosed k"
    using inv assms(2) by (simp_all add: linkInv_def stoppedQuiet_def)
  have "nlStopped l' \<and> nlReports l' = nlReports l \<and> nlDials l' \<le> nlDials l \<and> length (nlConns l') = length (nlConns l)"
    using assms(3)
  proof (cases rule: linkStep.cases)
    case (ready_resolves c)
    then have "lcClosed (nlConns l ! c)" "c < length (nlConns l)" using quiet by (simp_all add: connAt_def)
    then show ?thesis using assms(2) ready_resolves by (simp add: readyResolved_def updateConn_def Let_def)
  qed (use assms(2) quiet in \<open>auto simp: linkOpened_def dialFailed_def schedule_def linkFailed_def closeConn_def updateConn_def
      wireOnclose_def readyRejected_def Let_def updateResolved_def updateRejected_def stopLink_def\<close>)
  with inv' show ?thesis by (auto simp: linkInv_def stoppedQuiet_def)
qed

theorem link_stop_final_witness:
  "nlReports (timerFires (stopLink demoRedial)) = [] \<and> nlStopped (stopLink (stopLink demoRedial))"
proof -
  have r: "linkReachable demoOptions (stopLink demoRedial)"
    by (rule linkReachable.stepped [OF demoRedial_reachable linkStep.stop_called])
  have "nlStopped (stopLink (stopLink demoRedial))"
    using link_stop_final [OF r stopLink_stopped linkStep.stop_called] by blast
  then show ?thesis by (simp add: demo_link_simps timerFires_def)
qed

text \<open>the redial delay after \<open>n\<close> failures lies between half the ceiling and the ceiling, which is the initial
  delay doubled \<open>n\<close> times, at most the cap; with the reconnect backoff it is never under 50 ms nor over 5 s.\<close>
theorem backoff_bounds:
  assumes "0 \<le> rnd" "rnd < 1" "0 < boInitial b" "boInitial b \<le> boMax b"
  shows "min (boMax b) (boInitial b * 2 ^ n) / 2 \<le> delayMs b n rnd \<and> delayMs b n rnd \<le> min (boMax b) (boInitial b * 2 ^ n) \<and>
    boInitial b / 2 \<le> delayMs b n rnd \<and> delayMs b n rnd \<le> boMax b"
proof -
  define ceil where "ceil = min (boMax b) (boInitial b * 2 ^ n)"
  have "boInitial b * 1 \<le> boInitial b * 2 ^ n" using assms(3) by (intro mult_left_mono) simp_all
  then have ceil: "boInitial b \<le> ceil" "ceil \<le> boMax b" using assms by (simp_all add: ceil_def)
  have "0 \<le> rnd * ceil" "rnd * ceil \<le> 1 * ceil"
    using assms ceil by (simp, intro mult_right_mono) simp_all
  moreover have "delayMs b n rnd = ceil / 2 + rnd * ceil / 2" by (simp add: delayMs_def ceil_def Let_def)
  ultimately show ?thesis using ceil unfolding ceil_def [symmetric] by simp
qed

theorem backoff_bounds_witness:
  "50 \<le> delayMs reconnectBackoff 9 (1/3) \<and> delayMs reconnectBackoff 9 (1/3) \<le> 5000"
  using backoff_bounds [of "1/3" reconnectBackoff 9] by (simp add: reconnectBackoff_def)

end
