(* ===== verification/Node_Hub.thy ===== *)
theory Node_Hub
  imports Node_Connection
begin

text \<open>
  The server end of the nodes' links: the hub (\<^verbatim>\<open>packages/backend/src/nodes/node-hub.ts\<close>) with, for each socket it
  accepted, the hello of its transport (\<^verbatim>\<open>nodes/server-peer.ts\<close>). A handler ends at each \<open>await\<close>: a hello waits for
  the authentication, then for the node build, and \<open>negotiated\<close> is handled after the reply. \<open>hubStep\<close> gives the
  events in any order. Whether a node may connect (its row), whom the challenge authenticated and what the build
  answers are inputs of the events. Socket numbers are positions in \<open>nhSockets\<close>.
\<close>

subsection \<open>Data\<close>

record helloData =
  heNode :: string
  heMin :: int
  heMax :: int
  heBuild :: "string option"
  heDocs :: "string option"

datatype buildStatus = Updating | Current | Outdated

record nodeBuild =
  nbId :: string
  nbStatus :: buildStatus

datatype helloAnswer =
    AnswerReady int
  | AnswerUpdate string
  | AnswerError int string

datatype authentication = NotRequired | AuthFailed | AuthAs string

text \<open>The node build as it stands when a hello waited for it.\<close>

datatype buildState = StillBuilding | NoBuild | Built string

record agreement =
  agNode :: string
  agBuild :: "string option"
  agDocs :: string

record hubSocket =
  hsClosed :: bool
  hsGone :: bool
  hsReady :: bool
  hsOffers :: "helloData list"
  hsAgreed :: "agreement option"
  hsLinked :: "string option"

record nodeHub =
  nhLinks :: "(string, nat \<times> string) jsmap"
  nhClosed :: bool
  nhBuilds :: "(string, nodeBuild) jsmap"
  nhFailures :: "(string, string) jsmap"
  nhServerBuild :: "string option option"
  nhSockets :: "hubSocket list"
  nhPublished :: "string list"
  nhAnswers :: "(nat \<times> helloAnswer) list"

definition newHub :: nodeHub where
  "newHub = \<lparr>nhLinks = [], nhClosed = False, nhBuilds = [], nhFailures = [], nhServerBuild = None, nhSockets = [],
     nhPublished = [], nhAnswers = []\<rparr>"

definition protocolVersion :: int where "protocolVersion = 16"

subsection \<open>The hello\<close>

definition publish :: "string \<Rightarrow> nodeHub \<Rightarrow> nodeHub" where
  "publish n h = h\<lparr>nhPublished := nhPublished h @ [n]\<rparr>"

definition negotiationFailed :: "string \<Rightarrow> string \<Rightarrow> nodeHub \<Rightarrow> nodeHub" where
  "negotiationFailed n msg h =
     (if jmGet (nhFailures h) n = Some msg then h else publish n (h\<lparr>nhFailures := jmSet n msg (nhFailures h)\<rparr>))"

definition updateSocket :: "nat \<Rightarrow> (hubSocket \<Rightarrow> hubSocket) \<Rightarrow> nodeHub \<Rightarrow> nodeHub" where
  "updateSocket s f h = (if s < length (nhSockets h) then h\<lparr>nhSockets := (nhSockets h)[s := f (nhSockets h ! s)]\<rparr> else h)"

definition answerHello :: "nat \<Rightarrow> helloAnswer \<Rightarrow> nodeHub \<Rightarrow> nodeHub" where
  "answerHello s a h = h\<lparr>nhAnswers := nhAnswers h @ [(s, a)]\<rparr>"

text \<open>The node's row: why it may not connect, the key it must prove, and what a challenge then proves. An empty key is
  none. \<open>verify\<close> says whether the answer to the challenge is signed with a key.\<close>

record nodeRow =
  nwRemoved :: bool
  nwRevoked :: bool
  nwPublicKey :: "string option"

definition serveNode :: "(string, nodeRow) jsmap \<Rightarrow> string \<Rightarrow> string option" where
  "serveNode rows n =
     (case jmGet rows n of
        None \<Rightarrow> Some (''Node not found: '' @ n)
      | Some row \<Rightarrow>
          if nwRemoved row then Some (''Node removed: '' @ n)
          else if nwRevoked row then Some (''Node revoked: '' @ n)
          else None)"

definition nodePublicKey :: "(string, nodeRow) jsmap \<Rightarrow> string \<Rightarrow> string option" where
  "nodePublicKey rows n = Option.bind (jmGet rows n) nwPublicKey"

definition authenticateNode :: "(string, nodeRow) jsmap \<Rightarrow> (string \<Rightarrow> bool) \<Rightarrow> string option \<Rightarrow> authentication" where
  "authenticateNode rows verify answered =
     (case answered of
        None \<Rightarrow> AuthFailed
      | Some n \<Rightarrow>
          (case nodePublicKey rows n of
             None \<Rightarrow> AuthFailed
           | Some k \<Rightarrow> if k = [] \<or> \<not> verify k then AuthFailed else AuthAs n))"

text \<open>The hello's checks before its build: \<open>None\<close> lets it go on. \<open>refusal\<close> is why the node may not connect.\<close>

definition checkHello :: "authentication \<Rightarrow> string option \<Rightarrow> bool \<Rightarrow> helloData \<Rightarrow> helloAnswer option" where
  "checkHello auth refusal ready hello =
     (case auth of
        AuthFailed \<Rightarrow> Some (AnswerError nodeRefused ''Not authenticated'')
      | _ \<Rightarrow>
        if (case auth of AuthAs n \<Rightarrow> heNode hello \<noteq> n | _ \<Rightarrow> False)
        then Some (AnswerError nodeRefused (''Connection authenticated as node '' @
               (case auth of AuthAs n \<Rightarrow> n | _ \<Rightarrow> []) @ '', not '' @ heNode hello))
        else if ready then Some (AnswerError unauthorized ''Already negotiated'')
        else map_option (AnswerError nodeRefused) refusal)"

text \<open>After it: the versions and the docs, then the negotiation settles.\<close>

definition offeredVersions :: "helloData \<Rightarrow> string" where
  "offeredVersions hello =
     (if heMin hello = heMax hello then showInt (heMin hello) else showInt (heMin hello) @ '' to '' @ showInt (heMax hello))"

definition noCommonVersion :: "helloData \<Rightarrow> string" where
  "noCommonVersion hello = ''No common protocol version: this server speaks '' @ showInt protocolVersion @ '', the node '' @
     offeredVersions hello"

definition finishHello :: "nat \<Rightarrow> helloData \<Rightarrow> nodeHub \<Rightarrow> nodeHub" where
  "finishHello s hello h =
     (if protocolVersion < heMin hello \<or> heMax hello < protocolVersion
      then answerHello s (AnswerError negotiationFailedCode (noCommonVersion hello))
             (negotiationFailed (heNode hello) (noCommonVersion hello) h)
      else case heDocs hello of
        None \<Rightarrow> answerHello s (AnswerError negotiationFailedCode
                  ''Invalid negotiation: the hello did not say where the node's docs are'') h
      | Some docs \<Rightarrow>
          answerHello s (AnswerReady protocolVersion)
            (updateSocket s (\<lambda>k. k\<lparr>hsReady := True,
               hsAgreed := if hsClosed k then None else Some \<lparr>agNode = heNode hello, agBuild = heBuild hello, agDocs = docs\<rparr>\<rparr>) h))"

definition helloArrives :: "authentication \<Rightarrow> string option \<Rightarrow> nat \<Rightarrow> helloData \<Rightarrow> nodeHub \<Rightarrow> nodeHub" where
  "helloArrives auth refusal s hello h =
     (case checkHello auth refusal (hsReady (nhSockets h ! s)) hello of
        Some a \<Rightarrow> answerHello s a h
      | None \<Rightarrow>
          if heBuild hello = None then finishHello s hello h
          else updateSocket s (\<lambda>k. k\<lparr>hsOffers := hsOffers k @ [hello]\<rparr>) h)"

text \<open>\<open>offerUpdate\<close>: the error, the build to update to, or \<open>None\<close> to negotiate.\<close>

definition offerUpdate :: "string \<Rightarrow> string \<Rightarrow> buildState \<Rightarrow> nodeHub \<Rightarrow> (string + string option) \<times> nodeHub" where
  "offerUpdate n build state h =
     (case state of
        StillBuilding \<Rightarrow> (Inl ''The server's node build is not ready yet'', h)
      | NoBuild \<Rightarrow> (Inr None, h\<lparr>nhServerBuild := Some None\<rparr>)
      | Built b \<Rightarrow>
          (let h1 = h\<lparr>nhServerBuild := Some (Some b)\<rparr>
           in if b = build then (Inr None, h1)
              else (Inr (Some b), publish n (h1\<lparr>nhBuilds := jmSet n \<lparr>nbId = build, nbStatus = Updating\<rparr> (nhBuilds h1)\<rparr>))))"

definition buildAnswers :: "nat \<Rightarrow> helloData \<Rightarrow> buildState \<Rightarrow> nodeHub \<Rightarrow> nodeHub" where
  "buildAnswers s hello state h =
     (let h1 = updateSocket s (\<lambda>k. k\<lparr>hsOffers := remove1 hello (hsOffers k)\<rparr>) h;
          (offer, h2) = offerUpdate (heNode hello) (orElse (heBuild hello) []) state h1
      in case offer of
           Inl msg \<Rightarrow> answerHello s (AnswerError negotiationFailedCode msg) h2
         | Inr (Some b) \<Rightarrow> answerHello s (AnswerUpdate b) h2
         | Inr None \<Rightarrow>
             if hsReady (nhSockets h2 ! s) then answerHello s (AnswerError unauthorized ''Already negotiated'') h2
             else finishHello s hello h2)"

subsection \<open>The links\<close>

definition newSocket :: hubSocket where
  "newSocket = \<lparr>hsClosed = False, hsGone = False, hsReady = False, hsOffers = [], hsAgreed = None, hsLinked = None\<rparr>"

text \<open>A socket accepted by a closed hub is closed, with nothing attached.\<close>

definition acceptSocket :: "nodeHub \<Rightarrow> nodeHub" where
  "acceptSocket h = (if nhClosed h then h else h\<lparr>nhSockets := nhSockets h @ [newSocket]\<rparr>)"

definition closeSocket :: "nat \<Rightarrow> nodeHub \<Rightarrow> nodeHub" where
  "closeSocket s = updateSocket s (\<lambda>k. k\<lparr>hsClosed := True\<rparr>)"

definition openLink :: "nodeHub \<Rightarrow> string \<Rightarrow> (nat \<times> string) option" where
  "openLink h n =
     (case jmGet (nhLinks h) n of
        None \<Rightarrow> None
      | Some (s, docs) \<Rightarrow> if hsClosed (nhSockets h ! s) then None else Some (s, docs))"

text \<open>A call to a node: the socket its link has open, or \<open>unavailable\<close>.\<close>

definition linked :: "nodeHub \<Rightarrow> string \<Rightarrow> string + nat" where
  "linked h n = (case openLink h n of None \<Rightarrow> Inl ''Node not connected'' | Some (s, docs) \<Rightarrow> Inr s)"

definition nodeConnected :: "nodeHub \<Rightarrow> string \<Rightarrow> bool" where
  "nodeConnected h n = (openLink h n \<noteq> None)"

text \<open>The socket's \<open>onclose\<close>.\<close>

definition socketGone :: "nat \<Rightarrow> nodeHub \<Rightarrow> nodeHub" where
  "socketGone s h =
     (let h1 = updateSocket s (\<lambda>k. k\<lparr>hsClosed := True, hsGone := True\<rparr>) h
      in case hsLinked (nhSockets h1 ! s) of
           None \<Rightarrow> h1
         | Some n \<Rightarrow>
             if map_option fst (jmGet (nhLinks h1) n) = Some s
             then publish n (h1\<lparr>nhLinks := jmDelete n (nhLinks h1), nhBuilds := jmDelete n (nhBuilds h1)\<rparr>)
             else h1)"

definition buildOf :: "nodeHub \<Rightarrow> agreement \<Rightarrow> (string, nodeBuild) jsmap" where
  "buildOf h ag =
     (case agBuild ag of
        None \<Rightarrow> jmDelete (agNode ag) (nhBuilds h)
      | Some b \<Rightarrow> jmSet (agNode ag)
          \<lparr>nbId = b, nbStatus = (if nhServerBuild h = Some (Some b) then Current else Outdated)\<rparr> (nhBuilds h))"

definition negotiated :: "nat \<Rightarrow> agreement \<Rightarrow> nodeHub \<Rightarrow> nodeHub" where
  "negotiated s ag h =
     (let h0 = updateSocket s (\<lambda>k. k\<lparr>hsAgreed := None\<rparr>) h
      in if hsClosed (nhSockets h0 ! s) then h0
         else if nhClosed h0 then closeSocket s h0
         else
           (let n = agNode ag;
                h1 = updateSocket s (\<lambda>k. k\<lparr>hsLinked := Some n\<rparr>) h0;
                previous = jmGet (nhLinks h1) n;
                h2 = h1\<lparr>nhLinks := jmSet n (s, agDocs ag) (nhLinks h1)\<rparr>;
                h3 = (case previous of None \<Rightarrow> h2 | Some (p, docs) \<Rightarrow> closeSocket p h2);
                updated = (map_option nbStatus (jmGet (nhBuilds h3) n) = Some Updating);
                h4 = h3\<lparr>nhFailures := jmDelete n (nhFailures h3), nhBuilds := buildOf h3 ag\<rparr>
            in if previous = None \<or> updated then publish n h4 else h4))"

definition disconnectNode :: "string \<Rightarrow> nodeHub \<Rightarrow> nodeHub" where
  "disconnectNode n h = (case jmGet (nhLinks h) n of None \<Rightarrow> h | Some (s, docs) \<Rightarrow> closeSocket s h)"

definition closeHub :: "nodeHub \<Rightarrow> nodeHub" where
  "closeHub h = (foldr (\<lambda>(n, s, docs). closeSocket s) (nhLinks h) (h\<lparr>nhClosed := True\<rparr>))\<lparr>nhLinks := []\<rparr>"

subsection \<open>The events\<close>

datatype hubEvent =
    Accepts
  | HelloArrives authentication "string option" nat helloData
  | BuildAnswers nat helloData buildState
  | NegotiatedRuns nat agreement
  | SocketCloses nat
  | OncloseRuns nat
  | Disconnects string
  | HubCloses

definition socketAt :: "nodeHub \<Rightarrow> nat \<Rightarrow> (hubSocket \<Rightarrow> bool) \<Rightarrow> bool" where
  "socketAt h s P = (s < length (nhSockets h) \<and> P (nhSockets h ! s))"

inductive hubStep :: "nodeHub \<Rightarrow> hubEvent \<Rightarrow> nodeHub \<Rightarrow> bool" where
  accepts: "hubStep h Accepts (acceptSocket h)"
| hello_arrives: "socketAt h s (\<lambda>k. \<not> hsGone k) \<Longrightarrow>
    hubStep h (HelloArrives auth refusal s hello) (helloArrives auth refusal s hello h)"
| build_answers: "socketAt h s (\<lambda>k. hello \<in> set (hsOffers k)) \<Longrightarrow>
    hubStep h (BuildAnswers s hello state) (buildAnswers s hello state h)"
| negotiated_runs: "socketAt h s (\<lambda>k. hsAgreed k = Some ag) \<Longrightarrow> hubStep h (NegotiatedRuns s ag) (negotiated s ag h)"
| socket_closes: "hubStep h (SocketCloses s) (closeSocket s h)"
| onclose_runs: "socketAt h s (\<lambda>k. hsClosed k \<and> \<not> hsGone k) \<Longrightarrow> hubStep h (OncloseRuns s) (socketGone s h)"
| disconnects: "hubStep h (Disconnects n) (disconnectNode n h)"
| hub_closes: "hubStep h HubCloses (closeHub h)"

inductive hubReachable :: "nodeHub \<Rightarrow> bool" where
  hub_started: "hubReachable newHub"
| hub_stepped: "hubReachable h \<Longrightarrow> hubStep h ev h' \<Longrightarrow> hubReachable h'"

inductive_cases hubStepE: "hubStep h ev h'"

end
