(* ===== verification/Hub_Laws.thy ===== *)
theory Hub_Laws
  imports Node_Hub
begin

text \<open>
  What the hub keeps: a node has at most one open link, the one the hub holds; a hello is answered \<open>ready\<close> only
  after every check, and once per connection; browsers hear when a node gets or loses its link; and a hub's
  refusal stops the node's end of the link (\<open>Node_Connection\<close>) while any other failed hello leaves it redialing.
\<close>

named_theorems socket_simps \<open>what a handler keeps of the sockets and links\<close>

subsection \<open>Sockets\<close>

lemma updateSocket_fields [socket_simps]:
  "nhLinks (updateSocket s f h) = nhLinks h" "nhClosed (updateSocket s f h) = nhClosed h"
  "nhBuilds (updateSocket s f h) = nhBuilds h" "nhFailures (updateSocket s f h) = nhFailures h"
  "nhPublished (updateSocket s f h) = nhPublished h" "nhAnswers (updateSocket s f h) = nhAnswers h"
  "length (nhSockets (updateSocket s f h)) = length (nhSockets h)"
  by (simp_all add: updateSocket_def)

lemma updateSocket_at [socket_simps]:
  "nhSockets (updateSocket s f h) ! t = (if t = s \<and> s < length (nhSockets h) then f (nhSockets h ! s) else nhSockets h ! t)"
  by (simp add: updateSocket_def nth_list_update)

lemma answerHello_fields [socket_simps]:
  "nhLinks (answerHello s a h) = nhLinks h" "nhClosed (answerHello s a h) = nhClosed h"
  "nhSockets (answerHello s a h) = nhSockets h" "nhPublished (answerHello s a h) = nhPublished h"
  by (simp_all add: answerHello_def)

lemma publish_fields [socket_simps]:
  "nhLinks (publish n h) = nhLinks h" "nhClosed (publish n h) = nhClosed h" "nhSockets (publish n h) = nhSockets h"
  "nhPublished (publish n h) = nhPublished h @ [n]" "nhAnswers (publish n h) = nhAnswers h"
  by (simp_all add: publish_def)

lemma negotiationFailed_fields [socket_simps]:
  "nhLinks (negotiationFailed n m h) = nhLinks h" "nhClosed (negotiationFailed n m h) = nhClosed h"
  "nhSockets (negotiationFailed n m h) = nhSockets h" "nhAnswers (negotiationFailed n m h) = nhAnswers h"
  by (simp_all add: negotiationFailed_def publish_def)

lemma closeSocket_fields [socket_simps]:
  "nhLinks (closeSocket s h) = nhLinks h" "nhClosed (closeSocket s h) = nhClosed h"
  "nhPublished (closeSocket s h) = nhPublished h" "length (nhSockets (closeSocket s h)) = length (nhSockets h)"
  "nhBuilds (closeSocket s h) = nhBuilds h" "nhFailures (closeSocket s h) = nhFailures h"
  by (simp_all add: closeSocket_def socket_simps)

lemma closeSocket_at [socket_simps]:
  "nhSockets (closeSocket s h) ! t =
     (if t = s \<and> s < length (nhSockets h) then (nhSockets h ! s)\<lparr>hsClosed := True\<rparr> else nhSockets h ! t)"
  by (simp add: closeSocket_def socket_simps)

lemma offerUpdate_fields:
  assumes "offerUpdate n b st h = (offer, h')"
  shows "nhLinks h' = nhLinks h" "nhClosed h' = nhClosed h" "nhSockets h' = nhSockets h" "nhAnswers h' = nhAnswers h"
  using assms by (auto simp: offerUpdate_def Let_def publish_def split: buildState.splits if_splits)

subsection \<open>The invariant\<close>

definition linksHeld :: "nodeHub \<Rightarrow> bool" where
  "linksHeld h = (\<forall>n s d. jmGet (nhLinks h) n = Some (s, d) \<longrightarrow>
     s < length (nhSockets h) \<and> hsLinked (nhSockets h ! s) = Some n \<and> \<not> hsGone (nhSockets h ! s))"

definition openHeld :: "nodeHub \<Rightarrow> bool" where
  "openHeld h = (\<forall>s n. s < length (nhSockets h) \<longrightarrow> hsLinked (nhSockets h ! s) = Some n \<longrightarrow> \<not> hsClosed (nhSockets h ! s) \<longrightarrow>
     \<not> nhClosed h \<and> (\<exists>d. jmGet (nhLinks h) n = Some (s, d)))"

definition onceEach :: "nodeHub \<Rightarrow> bool" where
  "onceEach h = ((\<forall>s<length (nhSockets h).
     (hsAgreed (nhSockets h ! s) \<noteq> None \<longrightarrow> hsReady (nhSockets h ! s) \<and> hsLinked (nhSockets h ! s) = None) \<and>
     (hsLinked (nhSockets h ! s) \<noteq> None \<longrightarrow> hsReady (nhSockets h ! s)) \<and>
     (hsGone (nhSockets h ! s) \<longrightarrow> hsClosed (nhSockets h ! s))) \<and>
     (nhClosed h \<longrightarrow> nhLinks h = []))"

lemmas hubInv_defs = linksHeld_def openHeld_def onceEach_def

definition hubInv :: "nodeHub \<Rightarrow> bool" where
  "hubInv h = (linksHeld h \<and> openHeld h \<and> onceEach h)"

lemma hubInv_new: "hubInv newHub"
  by (simp add: hubInv_def hubInv_defs newHub_def)

text \<open>It reads the links, whether the hub is closed, and the sockets.\<close>

lemma hubInv_same:
  "nhLinks h' = nhLinks h \<Longrightarrow> nhClosed h' = nhClosed h \<Longrightarrow> nhSockets h' = nhSockets h \<Longrightarrow> hubInv h' = hubInv h"
  by (simp add: hubInv_def hubInv_defs)

lemma hubInv_effects [simp]:
  "hubInv (answerHello s a h) = hubInv h" "hubInv (publish n h) = hubInv h" "hubInv (negotiationFailed n m h) = hubInv h"
  by (rule hubInv_same; simp add: socket_simps)+

lemma hubInv_socket:
  assumes "hubInv h"
    and "\<And>k. s < length (nhSockets h) \<Longrightarrow> k = nhSockets h ! s \<Longrightarrow> hsLinked (f k) = hsLinked k \<and> hsGone (f k) = hsGone k \<and>
      (hsClosed k \<longrightarrow> hsClosed (f k)) \<and> (hsReady k \<longrightarrow> hsReady (f k)) \<and>
      (hsAgreed (f k) \<noteq> None \<longrightarrow> hsReady (f k) \<and> hsLinked k = None)"
  shows "hubInv (updateSocket s f h)"
proof (cases "s < length (nhSockets h)")
  case False
  then have "updateSocket s f h = h" by (simp add: updateSocket_def)
  with assms(1) show ?thesis by simp
next
  case True
  let ?k = "nhSockets h ! s" and ?h = "updateSocket s f h"
  have at: "nhSockets ?h ! t = (if t = s then f ?k else nhSockets h ! t)" for t using True by (simp add: updateSocket_at)
  note fields = updateSocket_fields(1,2,7)
  have f: "hsLinked (f ?k) = hsLinked ?k" "hsGone (f ?k) = hsGone ?k" "hsClosed ?k \<longrightarrow> hsClosed (f ?k)"
    "hsReady ?k \<longrightarrow> hsReady (f ?k)" "hsAgreed (f ?k) \<noteq> None \<longrightarrow> hsReady (f ?k) \<and> hsLinked ?k = None"
    using assms(2) [OF True refl] by blast+
  have "linksHeld ?h"
    unfolding linksHeld_def fields at
  proof (intro allI impI)
    fix n t d assume "jmGet (nhLinks h) n = Some (t, d)"
    with assms(1) have "t < length (nhSockets h) \<and> hsLinked (nhSockets h ! t) = Some n \<and> \<not> hsGone (nhSockets h ! t)"
      unfolding hubInv_def linksHeld_def by blast
    with f show "t < length (nhSockets h) \<and> hsLinked (if t = s then f ?k else nhSockets h ! t) = Some n \<and>
        \<not> hsGone (if t = s then f ?k else nhSockets h ! t)" by auto
  qed
  moreover have "openHeld ?h"
    unfolding openHeld_def fields at
  proof (intro allI impI)
    fix t n assume t: "t < length (nhSockets h)" "hsLinked (if t = s then f ?k else nhSockets h ! t) = Some n"
      "\<not> hsClosed (if t = s then f ?k else nhSockets h ! t)"
    with f have "hsLinked (nhSockets h ! t) = Some n" "\<not> hsClosed (nhSockets h ! t)" by (auto split: if_splits)
    with assms(1) t(1) show "\<not> nhClosed h \<and> (\<exists>d. jmGet (nhLinks h) n = Some (t, d))"
      unfolding hubInv_def openHeld_def by blast
  qed
  moreover have "onceEach ?h"
  proof -
    have "onceEach h" using assms(1) by (simp add: hubInv_def)
    with f True show ?thesis unfolding onceEach_def fields at by auto
  qed
  ultimately show ?thesis by (simp add: hubInv_def)
qed

lemma closeSocket_inv: "hubInv h \<Longrightarrow> hubInv (closeSocket s h)"
  unfolding closeSocket_def by (rule hubInv_socket) (auto simp: hubInv_def onceEach_def)

lemma offer_same: "offerUpdate n b st h = (offer, h') \<Longrightarrow> hubInv h' = hubInv h"
  by (rule hubInv_same) (auto dest: offerUpdate_fields)

lemma finish_inv:
  assumes "hubInv h" "\<not> hsReady (nhSockets h ! s)"
  shows "hubInv (finishHello s hello h)"
proof -
  have "hubInv (updateSocket s (\<lambda>k. k\<lparr>hsReady := True, hsAgreed := if hsClosed k then None else a\<rparr>) h)" for a
    using assms by (intro hubInv_socket) (auto simp: hubInv_def onceEach_def)
  with assms(1) show ?thesis by (simp add: finishHello_def split: option.splits)
qed

lemma checkHello_ready: "checkHello auth refusal True hello \<noteq> None"
  by (simp add: checkHello_def split: authentication.splits)

lemma arrives_inv:
  assumes "hubInv h"
  shows "hubInv (helloArrives auth refusal s hello h)"
proof -
  have offers: "hubInv (updateSocket s (\<lambda>k. k\<lparr>hsOffers := hsOffers k @ [hello]\<rparr>) h)"
    using assms by (intro hubInv_socket) (auto simp: hubInv_def onceEach_def)
  show ?thesis
  proof (cases "checkHello auth refusal (hsReady (nhSockets h ! s)) hello")
    case None
    then have "\<not> hsReady (nhSockets h ! s)" using checkHello_ready by (metis (full_types))
    with assms None offers show ?thesis by (simp add: helloArrives_def finish_inv)
  qed (simp add: helloArrives_def assms)
qed

lemma answers_inv:
  assumes "hubInv h"
  shows "hubInv (buildAnswers s hello state h)"
proof -
  let ?h1 = "updateSocket s (\<lambda>k. k\<lparr>hsOffers := remove1 hello (hsOffers k)\<rparr>) h"
  have h1: "hubInv ?h1" using assms by (intro hubInv_socket) (auto simp: hubInv_def onceEach_def)
  obtain offer h2 where o: "offerUpdate (heNode hello) (orElse (heBuild hello) []) state ?h1 = (offer, h2)"
    by (rule prod.exhaust)
  then have "hubInv h2" using h1 offer_same by blast
  then show ?thesis by (auto simp: buildAnswers_def Let_def o intro: finish_inv split: sum.splits option.splits)
qed

lemma accept_inv:
  assumes "hubInv h"
  shows "hubInv (acceptSocket h)"
proof -
  let ?h = "h\<lparr>nhSockets := nhSockets h @ [newSocket]\<rparr>"
  have new: "hsLinked newSocket = None" "hsAgreed newSocket = None" "\<not> hsGone newSocket" by (simp_all add: newSocket_def)
  have "linksHeld ?h"
    unfolding linksHeld_def
  proof (intro allI impI)
    fix n s d assume "jmGet (nhLinks ?h) n = Some (s, d)"
    then have "jmGet (nhLinks h) n = Some (s, d)" by simp
    with assms have "s < length (nhSockets h) \<and> hsLinked (nhSockets h ! s) = Some n \<and> \<not> hsGone (nhSockets h ! s)"
      unfolding hubInv_def linksHeld_def by blast
    then show "s < length (nhSockets ?h) \<and> hsLinked (nhSockets ?h ! s) = Some n \<and> \<not> hsGone (nhSockets ?h ! s)"
      by (simp add: nth_append)
  qed
  moreover have "openHeld ?h"
    using assms new unfolding hubInv_def openHeld_def by (auto simp: nth_append less_Suc_eq split: if_splits)
  moreover have "onceEach ?h"
    using assms new unfolding hubInv_def onceEach_def by (auto simp: nth_append less_Suc_eq split: if_splits)
  ultimately show ?thesis using assms by (simp add: acceptSocket_def hubInv_def)
qed

lemma gone_inv:
  assumes inv: "hubInv h" and s: "s < length (nhSockets h)"
  shows "hubInv (socketGone s h)"
proof -
  let ?k = "(nhSockets h ! s)\<lparr>hsClosed := True, hsGone := True\<rparr>"
  let ?h1 = "updateSocket s (\<lambda>k. k\<lparr>hsClosed := True, hsGone := True\<rparr>) h"
  have at: "nhSockets ?h1 ! t = (if t = s then ?k else nhSockets h ! t)" for t using s by (simp add: updateSocket_at)
  have link_at: "map_option fst (jmGet (nhLinks h) n) = Some s \<longrightarrow> hsLinked (nhSockets h ! s) = Some n" for n
    using inv by (auto simp: hubInv_def linksHeld_def)
  have openH: "openHeld ?h1"
    using inv unfolding hubInv_def openHeld_def updateSocket_fields at by auto
  have once: "onceEach ?h1" using inv unfolding hubInv_def onceEach_def updateSocket_fields at by auto
  have others: "t < length (nhSockets h) \<and> hsLinked (nhSockets ?h1 ! t) = Some n \<and> \<not> hsGone (nhSockets ?h1 ! t)"
    if "jmGet (nhLinks h) n = Some (t, d)" "t \<noteq> s" for n t d
    using inv that unfolding hubInv_def linksHeld_def at by auto
  show ?thesis
  proof (cases "\<exists>n. hsLinked (nhSockets h ! s) = Some n \<and> map_option fst (jmGet (nhLinks h) n) = Some s")
    case True
    then obtain n where n: "hsLinked (nhSockets h ! s) = Some n" "map_option fst (jmGet (nhLinks h) n) = Some s" by blast
    let ?h2 = "?h1\<lparr>nhLinks := jmDelete n (nhLinks ?h1), nhBuilds := jmDelete n (nhBuilds ?h1)\<rparr>"
    have g: "socketGone s h = publish n ?h2"
      using n by (simp add: socketGone_def Let_def at updateSocket_fields)
    have "linksHeld ?h2"
      unfolding linksHeld_def
    proof (intro allI impI)
      fix m t d assume "jmGet (nhLinks ?h2) m = Some (t, d)"
      then have m: "m \<noteq> n" "jmGet (nhLinks h) m = Some (t, d)" by (simp_all add: updateSocket_fields split: if_splits)
      then have "t \<noteq> s" using link_at [of m] n by auto
      with others m show "t < length (nhSockets ?h2) \<and> hsLinked (nhSockets ?h2 ! t) = Some m \<and> \<not> hsGone (nhSockets ?h2 ! t)"
        by (simp add: updateSocket_fields)
    qed
    moreover have "openHeld ?h2"
      using openH n unfolding openHeld_def by (auto simp: updateSocket_fields at)
    moreover have "onceEach ?h2" using once by (auto simp: onceEach_def updateSocket_fields)
    ultimately show ?thesis by (simp add: g hubInv_def [of ?h2])
  next
    case False
    then have g: "socketGone s h = ?h1"
      by (auto simp: socketGone_def Let_def at updateSocket_fields split: option.splits)
    have "linksHeld ?h1"
      unfolding linksHeld_def
    proof (intro allI impI)
      fix m t d assume m: "jmGet (nhLinks ?h1) m = Some (t, d)"
      then have "t \<noteq> s" using False link_at [of m] by (auto simp: updateSocket_fields)
      with others m show "t < length (nhSockets ?h1) \<and> hsLinked (nhSockets ?h1 ! t) = Some m \<and> \<not> hsGone (nhSockets ?h1 ! t)"
        by (simp add: updateSocket_fields)
    qed
    with openH once show ?thesis by (simp add: g hubInv_def)
  qed
qed

text \<open>A negotiated socket takes the node's link over.\<close>

definition takeLink :: "nat \<Rightarrow> string \<Rightarrow> string \<Rightarrow> nodeHub \<Rightarrow> nodeHub" where
  "takeLink s n docs h0 =
     (let h1 = updateSocket s (\<lambda>k. k\<lparr>hsLinked := Some n\<rparr>) h0;
          h2 = h1\<lparr>nhLinks := jmSet n (s, docs) (nhLinks h1)\<rparr>
      in case jmGet (nhLinks h0) n of None \<Rightarrow> h2 | Some (p, d) \<Rightarrow> closeSocket p h2)"

lemma takeLink_fields:
  "nhLinks (takeLink s n docs h) = jmSet n (s, docs) (nhLinks h)" "nhClosed (takeLink s n docs h) = nhClosed h"
  "length (nhSockets (takeLink s n docs h)) = length (nhSockets h)"
  by (simp_all add: takeLink_def Let_def socket_simps split: option.splits)

lemma takeLink_at:
  assumes "s < length (nhSockets h)" "map_option fst (jmGet (nhLinks h) n) \<noteq> Some s"
  shows "nhSockets (takeLink s n docs h) ! t =
    (if t = s then (nhSockets h ! s)\<lparr>hsLinked := Some n\<rparr>
     else if t < length (nhSockets h) \<and> map_option fst (jmGet (nhLinks h) n) = Some t then (nhSockets h ! t)\<lparr>hsClosed := True\<rparr>
     else nhSockets h ! t)"
  using assms by (auto simp: takeLink_def Let_def socket_simps split: option.splits)

lemma takeLink_inv:
  assumes inv: "hubInv h" and s: "s < length (nhSockets h)" "hsLinked (nhSockets h ! s) = None" "hsReady (nhSockets h ! s)"
    "hsAgreed (nhSockets h ! s) = None" "\<not> hsClosed (nhSockets h ! s)" "\<not> nhClosed h"
  shows "hubInv (takeLink s n docs h)"
proof -
  let ?h = "takeLink s n docs h"
  have held: "t < length (nhSockets h) \<and> hsLinked (nhSockets h ! t) = Some m \<and> \<not> hsGone (nhSockets h ! t)"
    if "jmGet (nhLinks h) m = Some (t, d)" for m t d
    using inv that unfolding hubInv_def linksHeld_def by blast
  have notOld: "map_option fst (jmGet (nhLinks h) n) \<noteq> Some s" using held [of n s] s(2) by auto
  note at = takeLink_at [OF s(1) notOld]
  have "\<not> hsGone (nhSockets h ! s)" using inv s unfolding hubInv_def onceEach_def by blast
  then have "linksHeld ?h"
    unfolding linksHeld_def takeLink_fields at using held s by (auto split: if_splits)
  moreover have "openHeld ?h"
    unfolding openHeld_def takeLink_fields at
  proof (intro allI impI)
    fix t m
    let ?k = "if t = s then (nhSockets h ! s)\<lparr>hsLinked := Some n\<rparr>
      else if t < length (nhSockets h) \<and> map_option fst (jmGet (nhLinks h) n) = Some t then (nhSockets h ! t)\<lparr>hsClosed := True\<rparr>
      else nhSockets h ! t"
    assume t: "t < length (nhSockets h)" "hsLinked ?k = Some m" "\<not> hsClosed ?k"
    show "\<not> nhClosed h \<and> (\<exists>d. jmGet (jmSet n (s, docs) (nhLinks h)) m = Some (t, d))"
    proof (cases "t = s")
      case True
      with t s(6) show ?thesis by simp
    next
      case False
      with t have k: "map_option fst (jmGet (nhLinks h) n) \<noteq> Some t" "hsLinked (nhSockets h ! t) = Some m"
        "\<not> hsClosed (nhSockets h ! t)" by (auto split: if_splits)
      then obtain d where "jmGet (nhLinks h) m = Some (t, d)" using inv t(1) unfolding hubInv_def openHeld_def by blast
      with k s(6) show ?thesis by auto
    qed
  qed
  moreover have "onceEach ?h"
  proof -
    have "onceEach h" using inv by (simp add: hubInv_def)
    with s show ?thesis unfolding onceEach_def takeLink_fields at by auto
  qed
  ultimately show ?thesis by (simp add: hubInv_def)
qed

lemma negotiated_cases:
  assumes "s < length (nhSockets h)" "hsAgreed (nhSockets h ! s) = Some ag"
  obtains (ignored) "hsClosed (nhSockets h ! s)" "negotiated s ag h = updateSocket s (\<lambda>k. k\<lparr>hsAgreed := None\<rparr>) h"
  | (hubClosed) "nhClosed h" "negotiated s ag h = closeSocket s (updateSocket s (\<lambda>k. k\<lparr>hsAgreed := None\<rparr>) h)"
  | (linked) h3 where "\<not> hsClosed (nhSockets h ! s)" "\<not> nhClosed h"
      "h3 = takeLink s (agNode ag) (agDocs ag) (updateSocket s (\<lambda>k. k\<lparr>hsAgreed := None\<rparr>) h)"
      "nhLinks (negotiated s ag h) = nhLinks h3" "nhClosed (negotiated s ag h) = nhClosed h3"
      "nhSockets (negotiated s ag h) = nhSockets h3"
      "jmGet (nhLinks h) (agNode ag) = None \<longrightarrow> nhPublished (negotiated s ag h) = nhPublished h @ [agNode ag]"
proof (cases "hsClosed (nhSockets h ! s)")
  case True
  with assms ignored show thesis by (simp add: negotiated_def Let_def socket_simps)
next
  case open_socket: False
  show thesis
  proof (cases "nhClosed h")
    case True
    with assms open_socket hubClosed show thesis by (simp add: negotiated_def Let_def socket_simps)
  next
    case False
    show thesis
      by (rule linked [OF open_socket False refl])
        (use assms False open_socket in \<open>simp_all add: negotiated_def takeLink_def Let_def socket_simps split: option.splits\<close>)
  qed
qed

lemma negotiated_inv:
  assumes inv: "hubInv h" and s: "s < length (nhSockets h)" "hsAgreed (nhSockets h ! s) = Some ag"
  shows "hubInv (negotiated s ag h)"
proof -
  let ?h0 = "updateSocket s (\<lambda>k. k\<lparr>hsAgreed := None\<rparr>) h"
  have h0: "hubInv ?h0" using inv by (intro hubInv_socket) (auto simp: hubInv_def onceEach_def)
  have ready: "hsReady (nhSockets h ! s)" "hsLinked (nhSockets h ! s) = None"
    using inv s unfolding hubInv_def onceEach_def by auto
  from s show ?thesis
  proof (cases rule: negotiated_cases)
    case (linked h3)
    have "hubInv h3"
      unfolding linked(3) by (rule takeLink_inv [OF h0]) (use s ready linked in \<open>simp_all add: socket_simps\<close>)
    with linked(4-6) show ?thesis using hubInv_same by blast
  qed (simp_all add: h0 closeSocket_inv)
qed

lemma closeHub_sockets:
  "nhLinks (foldr (\<lambda>(n, s, docs). closeSocket s) ls h) = nhLinks h \<and> nhClosed (foldr (\<lambda>(n, s, docs). closeSocket s) ls h) = nhClosed h \<and>
   length (nhSockets (foldr (\<lambda>(n, s, docs). closeSocket s) ls h)) = length (nhSockets h) \<and>
   nhPublished (foldr (\<lambda>(n, s, docs). closeSocket s) ls h) = nhPublished h \<and>
   (\<forall>t<length (nhSockets h). nhSockets (foldr (\<lambda>(n, s, docs). closeSocket s) ls h) ! t =
     (if t \<in> (fst \<circ> snd) ` set ls then (nhSockets h ! t)\<lparr>hsClosed := True\<rparr> else nhSockets h ! t))"
proof (induction ls)
  case (Cons l ls)
  have "(k\<lparr>hsClosed := True\<rparr>)\<lparr>hsClosed := True\<rparr> = k\<lparr>hsClosed := True\<rparr>" for k :: hubSocket by simp
  with Cons show ?case by (cases l) (auto simp: socket_simps)
qed simp

lemma closeHub_inv:
  assumes inv: "hubInv h"
  shows "hubInv (closeHub h)"
proof -
  let ?h = "closeHub h"
  let ?old = "h\<lparr>nhClosed := True\<rparr>"
  note f = closeHub_sockets [of "nhLinks h" ?old]
  have fields: "nhLinks ?h = []" "nhClosed ?h" "length (nhSockets ?h) = length (nhSockets h)"
    using f by (simp_all add: closeHub_def)
  have at: "nhSockets ?h ! t =
     (if t \<in> (fst \<circ> snd) ` set (nhLinks h) then (nhSockets h ! t)\<lparr>hsClosed := True\<rparr> else nhSockets h ! t)"
    if "t < length (nhSockets h)" for t
    using f that by (simp add: closeHub_def)
  have "hsClosed (nhSockets ?h ! t)" if t: "t < length (nhSockets h)" "hsLinked (nhSockets ?h ! t) = Some n" for t n
  proof (rule ccontr)
    assume "\<not> hsClosed (nhSockets ?h ! t)"
    with t have old: "t \<notin> (fst \<circ> snd) ` set (nhLinks h)" "hsLinked (nhSockets h ! t) = Some n" "\<not> hsClosed (nhSockets h ! t)"
      by (auto simp: at split: if_splits)
    then obtain d where "jmGet (nhLinks h) n = Some (t, d)"
      using inv t(1) unfolding hubInv_def openHeld_def by blast
    with old(1) show False by (force dest: map_of_SomeD)
  qed
  then have "openHeld ?h" using fields(3) unfolding openHeld_def by simp
  moreover have "onceEach ?h" using inv fields by (auto simp: hubInv_def onceEach_def at)
  ultimately show ?thesis by (simp add: hubInv_def linksHeld_def fields)
qed

lemma hubInv_step:
  assumes inv: "hubInv h" and step: "hubStep h ev h'"
  shows "hubInv h'"
  using step
  by cases (auto simp: inv accept_inv arrives_inv answers_inv closeSocket_inv closeHub_inv socketAt_def disconnectNode_def
      intro: negotiated_inv [OF inv] gone_inv [OF inv] split: option.splits)

lemma hubInv_reachable: "hubReachable h \<Longrightarrow> hubInv h"
  by (induction rule: hubReachable.induct) (auto intro: hubInv_new hubInv_step)


subsection \<open>One link per node\<close>

text \<open>C11: A node has at most one open link: of the connections that negotiated as a node, at most one is open, and
  exactly then the hub holds it and calls the node connected. A closed hub keeps none.\<close>
theorem one_link_per_node:
  assumes "hubReachable h"
  shows "(\<exists>s<length (nhSockets h). hsLinked (nhSockets h ! s) = Some n \<and> \<not> hsClosed (nhSockets h ! s)) = nodeConnected h n \<and>
    (\<forall>s t. s < length (nhSockets h) \<and> hsLinked (nhSockets h ! s) = Some n \<and> \<not> hsClosed (nhSockets h ! s) \<and>
           t < length (nhSockets h) \<and> hsLinked (nhSockets h ! t) = Some n \<and> \<not> hsClosed (nhSockets h ! t) \<longrightarrow>
           s = t \<and> map_option fst (openLink h n) = Some s) \<and>
    (nhClosed h \<longrightarrow> \<not> nodeConnected h n)"
proof -
  have inv: "hubInv h" using assms by (rule hubInv_reachable)
  have held: "jmGet (nhLinks h) n = Some (s, d) \<Longrightarrow> s < length (nhSockets h) \<and> hsLinked (nhSockets h ! s) = Some n" for s d
    using inv unfolding hubInv_def linksHeld_def by blast
  have live: "s < length (nhSockets h) \<Longrightarrow> hsLinked (nhSockets h ! s) = Some n \<Longrightarrow> \<not> hsClosed (nhSockets h ! s) \<Longrightarrow>
      \<not> nhClosed h \<and> (\<exists>d. jmGet (nhLinks h) n = Some (s, d))" for s
    using inv unfolding hubInv_def openHeld_def by blast
  have conn: "nodeConnected h n \<longleftrightarrow> (\<exists>s d. jmGet (nhLinks h) n = Some (s, d) \<and> \<not> hsClosed (nhSockets h ! s))"
    by (auto simp: nodeConnected_def openLink_def split: option.splits)
  have "(\<exists>s<length (nhSockets h). hsLinked (nhSockets h ! s) = Some n \<and> \<not> hsClosed (nhSockets h ! s)) = nodeConnected h n"
    unfolding conn using held live by blast
  moreover have "s = t \<and> map_option fst (openLink h n) = Some s"
    if st: "s < length (nhSockets h)" "hsLinked (nhSockets h ! s) = Some n" "\<not> hsClosed (nhSockets h ! s)"
      "t < length (nhSockets h)" "hsLinked (nhSockets h ! t) = Some n" "\<not> hsClosed (nhSockets h ! t)" for s t
  proof -
    obtain d e where "jmGet (nhLinks h) n = Some (s, d)" "jmGet (nhLinks h) n = Some (t, e)"
      using live [OF st(1-3)] live [OF st(4-6)] by blast
    with st show ?thesis by (simp add: openLink_def)
  qed
  moreover have "\<not> nodeConnected h n" if "nhClosed h"
    using inv that by (simp add: hubInv_def onceEach_def nodeConnected_def openLink_def)
  ultimately show ?thesis by blast
qed

text \<open>A hub with one node linked.\<close>

definition demoHello :: helloData where
  "demoHello = \<lparr>heNode = ''n'', heMin = 16, heMax = 16, heBuild = None, heDocs = Some ''/docs''\<rparr>"

definition demoAgreement :: agreement where
  "demoAgreement = \<lparr>agNode = ''n'', agBuild = None, agDocs = ''/docs''\<rparr>"

definition demoHub :: nodeHub where
  "demoHub = negotiated 0 demoAgreement (helloArrives NotRequired None 0 demoHello (acceptSocket newHub))"

lemmas demo_hub_simps = demoHub_def negotiated_def helloArrives_def checkHello_def finishHello_def acceptSocket_def newHub_def
  newSocket_def socketAt_def demoHello_def demoAgreement_def protocolVersion_def answerHello_def updateSocket_def publish_def
  buildOf_def Let_def nodeConnected_def openLink_def

lemma demoHub_reachable: "hubReachable demoHub"
proof -
  have "hubReachable (acceptSocket newHub)" by (rule hub_stepped [OF hub_started accepts])
  moreover have "hubStep (acceptSocket newHub) (HelloArrives NotRequired None 0 demoHello)
      (helloArrives NotRequired None 0 demoHello (acceptSocket newHub))"
    by (rule hello_arrives) (simp add: demo_hub_simps)
  moreover have "hubStep (helloArrives NotRequired None 0 demoHello (acceptSocket newHub)) (NegotiatedRuns 0 demoAgreement) demoHub"
    unfolding demoHub_def by (rule negotiated_runs) (simp add: demo_hub_simps)
  ultimately show ?thesis by (meson hub_stepped)
qed

theorem one_link_per_node_witness: "nodeConnected demoHub ''n'' \<and> length (nhSockets demoHub) = 1"
proof -
  have "nodeConnected demoHub ''n''"
    unfolding one_link_per_node [OF demoHub_reachable, THEN conjunct1, symmetric]
    by (rule exI [of _ 0]) (simp add: demo_hub_simps)
  then show ?thesis by (simp add: demo_hub_simps)
qed

subsection \<open>The hello\<close>

text \<open>a hello is answered \<open>ready\<close> exactly when the connection is not authenticated as another node (nor failed to),
  has not negotiated before, the node may connect, it announces no build or the server's (or the server has none),
  and its versions include the server's and it says where its docs are; the answers say which check failed.\<close>
theorem hello_answered_ready:
  "(checkHello auth refusal ready hello = None \<longleftrightarrow>
      auth \<noteq> AuthFailed \<and> (\<forall>n. auth = AuthAs n \<longrightarrow> heNode hello = n) \<and> \<not> ready \<and> refusal = None) \<and>
   (fst (offerUpdate n build st h) = Inr None \<longleftrightarrow> st = NoBuild \<or> st = Built build) \<and>
   (last (nhAnswers (finishHello s hello h)) = (s, AnswerReady protocolVersion) \<longleftrightarrow>
      heMin hello \<le> protocolVersion \<and> protocolVersion \<le> heMax hello \<and> heDocs hello \<noteq> None) \<and>
   (\<exists>a. nhAnswers (finishHello s hello h) = nhAnswers h @ [(s, a)]) \<and>
   (auth = AuthFailed \<longrightarrow> checkHello auth refusal ready hello = Some (AnswerError nodeRefused ''Not authenticated''))"
proof -
  have "\<exists>a. nhAnswers (finishHello s hello h) = nhAnswers h @ [(s, a)] \<and> (a = AnswerReady protocolVersion \<longleftrightarrow>
      heMin hello \<le> protocolVersion \<and> protocolVersion \<le> heMax hello \<and> heDocs hello \<noteq> None)"
    by (auto simp: finishHello_def answerHello_def updateSocket_fields negotiationFailed_fields split: option.splits)
  then show ?thesis
    by (auto simp: checkHello_def offerUpdate_def Let_def split: authentication.splits buildState.splits if_splits option.splits)
qed

text \<open>Over a transport that authenticates, a hello that passes its checks comes from a node that proved the key of
  its own row, and whose row is neither removed nor revoked; over any transport from a node with such a row.\<close>
theorem only_known_nodes_served:
  assumes "checkHello auth (serveNode rows (heNode hello)) ready hello = None"
  shows "(\<exists>row. jmGet rows (heNode hello) = Some row \<and> \<not> nwRemoved row \<and> \<not> nwRevoked row) \<and>
    (\<forall>verify answered. auth = authenticateNode rows verify answered \<longrightarrow>
       answered = Some (heNode hello) \<and> (\<exists>row k. jmGet rows (heNode hello) = Some row \<and> nwPublicKey row = Some k \<and> k \<noteq> [] \<and> verify k))"
proof -
  have checks: "serveNode rows (heNode hello) = None" "auth \<noteq> AuthFailed" "\<And>n. auth = AuthAs n \<Longrightarrow> n = heNode hello"
    using assms by (auto simp: checkHello_def split: authentication.splits if_splits)
  have "\<exists>row. jmGet rows (heNode hello) = Some row \<and> \<not> nwRemoved row \<and> \<not> nwRevoked row"
    using checks(1) by (auto simp: serveNode_def split: option.splits if_splits)
  moreover have "answered = Some (heNode hello) \<and>
      (\<exists>row k. jmGet rows (heNode hello) = Some row \<and> nwPublicKey row = Some k \<and> k \<noteq> [] \<and> verify k)"
    if "auth = authenticateNode rows verify answered" for verify answered
    using that checks(2,3) by (auto simp: authenticateNode_def nodePublicKey_def Option.bind_eq_Some_conv split: option.splits if_splits)
  ultimately show ?thesis by blast
qed

definition demoRows :: "bool \<Rightarrow> (string, nodeRow) jsmap" where
  "demoRows revoked = [(''n'', \<lparr>nwRemoved = False, nwRevoked = revoked, nwPublicKey = Some ''key''\<rparr>)]"

theorem only_known_nodes_served_witness:
  "checkHello (authenticateNode (demoRows False) (\<lambda>k. k = ''key'') (Some ''n'')) (serveNode (demoRows False) ''n'') False demoHello = None \<and>
   jmGet (demoRows False) ''n'' \<noteq> None"
proof -
  have c: "checkHello (authenticateNode (demoRows False) (\<lambda>k. k = ''key'') (Some ''n'')) (serveNode (demoRows False) (heNode demoHello)) False demoHello = None"
    by (simp add: checkHello_def authenticateNode_def nodePublicKey_def serveNode_def demoRows_def demoHello_def)
  from only_known_nodes_served [OF c] c show ?thesis by (auto simp: demoHello_def)
qed

text \<open>A node's row is checked before its hello waits for the build, and not again: a node revoked (or removed)
  meanwhile, whose link is then closed by \<open>disconnect\<close>, is answered \<open>ready\<close> on the waiting connection and linked.\<close>
theorem revocation_misses_waiting_hello:
  assumes "hubReachable h" "\<not> nhClosed h"
    "socketAt h s (\<lambda>k. hello \<in> set (hsOffers k) \<and> \<not> hsReady k \<and> \<not> hsClosed k)"
    "heBuild hello = Some b" "heMin hello \<le> protocolVersion" "protocolVersion \<le> heMax hello" "heDocs hello = Some docs"
  shows "\<exists>h1 h2 h3. hubStep h (Disconnects (heNode hello)) h1 \<and> hubStep h1 (BuildAnswers s hello (Built b)) h2 \<and>
    hubStep h2 (NegotiatedRuns s \<lparr>agNode = heNode hello, agBuild = Some b, agDocs = docs\<rparr>) h3 \<and> nodeConnected h3 (heNode hello)"
proof -
  let ?h1 = "disconnectNode (heNode hello) h"
  have inv: "hubInv h" using assms(1) by (rule hubInv_reachable)
  have s: "s < length (nhSockets h)" "hello \<in> set (hsOffers (nhSockets h ! s))" "\<not> hsReady (nhSockets h ! s)" "\<not> hsClosed (nhSockets h ! s)"
    using assms(3) by (simp_all add: socketAt_def)
  have notLinked: "jmGet (nhLinks h) n \<noteq> Some (s, d)" for n d
    using inv s unfolding hubInv_def linksHeld_def onceEach_def by fastforce
  have h1: "nhSockets ?h1 ! s = nhSockets h ! s" "length (nhSockets ?h1) = length (nhSockets h)" "nhLinks ?h1 = nhLinks h"
      "nhClosed ?h1 = nhClosed h"
    using notLinked by (auto simp: disconnectNode_def socket_simps split: option.splits)
  let ?h2 = "buildAnswers s hello (Built b) ?h1"
  let ?ag = "\<lparr>agNode = heNode hello, agBuild = Some b, agDocs = docs\<rparr>"
  have h2: "hsAgreed (nhSockets ?h2 ! s) = Some ?ag" "\<not> hsClosed (nhSockets ?h2 ! s)" "length (nhSockets ?h2) = length (nhSockets h)"
      "nhLinks ?h2 = nhLinks h" "nhClosed ?h2 = nhClosed h"
    using s assms(4-) h1
    by (simp_all add: buildAnswers_def offerUpdate_def Let_def finishHello_def socket_simps not_less)
  let ?h3 = "negotiated s ?ag ?h2"
  have "nodeConnected ?h3 (heNode hello)"
  proof -
    have at: "s < length (nhSockets ?h2)" "hsAgreed (nhSockets ?h2 ! s) = Some ?ag" using s h2 by simp_all
    then show ?thesis
    proof (cases rule: negotiated_cases)
      case (linked h3)
      let ?h0 = "updateSocket s (\<lambda>k. k\<lparr>hsAgreed := None\<rparr>) ?h2"
      have "map_option fst (jmGet (nhLinks ?h0) (heNode hello)) \<noteq> Some s"
        using notLinked h2 by (auto simp: updateSocket_fields)
      then have "\<not> hsClosed (nhSockets h3 ! s)"
        using linked(3) takeLink_at [of s ?h0 "heNode hello" docs s] at h2 by (simp add: socket_simps)
      moreover have "jmGet (nhLinks h3) (heNode hello) = Some (s, docs)" using linked(3) by (simp add: takeLink_fields)
      ultimately show ?thesis using linked(4,6) by (simp add: nodeConnected_def openLink_def)
    qed (use h2 assms(2) in simp_all)
  qed
  moreover have "hubStep h (Disconnects (heNode hello)) ?h1" by (rule disconnects)
  moreover have "hubStep ?h1 (BuildAnswers s hello (Built b)) ?h2" by (rule build_answers) (use s h1 in \<open>simp add: socketAt_def\<close>)
  moreover have "hubStep ?h2 (NegotiatedRuns s ?ag) ?h3" by (rule negotiated_runs) (use s h2 in \<open>simp add: socketAt_def\<close>)
  ultimately show ?thesis by blast
qed

theorem revocation_misses_waiting_hello_witness:
  "\<exists>h3. hubReachable h3 \<and> nodeConnected h3 ''n'' \<and> serveNode (demoRows True) ''n'' = Some ''Node revoked: n''"
proof -
  let ?hello = "demoHello\<lparr>heBuild := Some ''b''\<rparr>"
  let ?h = "helloArrives (AuthAs ''n'') (serveNode (demoRows False) ''n'') 0 ?hello (acceptSocket newHub)"
  have new: "hubReachable (acceptSocket newHub)" by (rule hub_stepped [OF hub_started accepts])
  have "socketAt (acceptSocket newHub) 0 (\<lambda>k. \<not> hsGone k)" by (simp add: demo_hub_simps)
  then have r: "hubReachable ?h" by (rule hub_stepped [OF new hello_arrives])
  have at: "\<not> nhClosed ?h" "socketAt ?h 0 (\<lambda>k. ?hello \<in> set (hsOffers k) \<and> \<not> hsReady k \<and> \<not> hsClosed k)"
    by (simp_all add: demo_hub_simps serveNode_def demoRows_def)
  obtain h1 h2 h3 where "hubStep ?h (Disconnects ''n'') h1" "hubStep h1 (BuildAnswers 0 ?hello (Built ''b'')) h2"
    "hubStep h2 (NegotiatedRuns 0 \<lparr>agNode = ''n'', agBuild = Some ''b'', agDocs = ''/docs''\<rparr>) h3" "nodeConnected h3 ''n''"
    using revocation_misses_waiting_hello [OF r at, of "''b''" "''/docs''"] by (auto simp: demoHello_def protocolVersion_def)
  moreover from this have "hubReachable h3" using r by (blast intro: hub_stepped)
  moreover have "serveNode (demoRows True) ''n'' = Some ''Node revoked: n''" by (simp add: serveNode_def demoRows_def)
  ultimately show ?thesis by blast
qed

lemma socketGone_links:
  "nhLinks (socketGone s h) = nhLinks h \<or>
   (\<exists>m. nhLinks (socketGone s h) = jmDelete m (nhLinks h) \<and> nhPublished (socketGone s h) = nhPublished h @ [m])"
proof (cases "hsLinked (nhSockets (updateSocket s (\<lambda>k. k\<lparr>hsClosed := True, hsGone := True\<rparr>) h) ! s)")
  case None
  then show ?thesis by (simp add: socketGone_def Let_def updateSocket_fields)
next
  case (Some m)
  then show ?thesis by (simp add: socketGone_def Let_def updateSocket_fields publish_fields)
qed

text \<open>browsers are told whenever a node gets its link or loses it: a step after which the hub holds a link for a node it
  held none for, or none for one it did, publishes that node. Only closing the whole hub is silent.\<close>
theorem link_changes_published:
  assumes "hubReachable h" "hubStep h ev h'" "ev \<noteq> HubCloses" "(jmGet (nhLinks h) n = None) \<noteq> (jmGet (nhLinks h') n = None)"
  shows "\<exists>before after. nhPublished h' = before @ n # after \<and> length (nhPublished h) \<le> length before"
proof -
  have inv: "hubInv h" using assms(1) by (rule hubInv_reachable)
  from assms(2) show ?thesis
  proof cases
    case (negotiated_runs s ag)
    then have at: "s < length (nhSockets h)" "hsAgreed (nhSockets h ! s) = Some ag" by (simp_all add: socketAt_def)
    then show ?thesis
    proof (cases rule: negotiated_cases)
      case (linked h3)
      have "nhLinks h' = jmSet (agNode ag) (s, agDocs ag) (nhLinks h)"
        using linked negotiated_runs by (simp add: takeLink_fields updateSocket_fields)
      then have "n = agNode ag" "jmGet (nhLinks h) (agNode ag) = None" using assms(4) by (auto split: if_splits)
      with linked(7) negotiated_runs show ?thesis by auto
    qed (use assms(4) negotiated_runs in \<open>simp_all add: socket_simps\<close>)
  next
    case (onclose_runs s)
    from socketGone_links [of s h] show ?thesis
    proof
      assume "nhLinks (socketGone s h) = nhLinks h"
      with assms(4) onclose_runs show ?thesis by simp
    next
      assume "\<exists>m. nhLinks (socketGone s h) = jmDelete m (nhLinks h) \<and> nhPublished (socketGone s h) = nhPublished h @ [m]"
      then obtain m where m: "nhLinks h' = jmDelete m (nhLinks h)" "nhPublished h' = nhPublished h @ [m]"
        using onclose_runs by blast
      then have "n = m" using assms(4) by (cases "n = m") auto
      with m show ?thesis by blast
    qed
  next
    case (build_answers s hello st)
    obtain offer h2 where o: "offerUpdate (heNode hello) (orElse (heBuild hello) []) st
        (updateSocket s (\<lambda>k. k\<lparr>hsOffers := remove1 hello (hsOffers k)\<rparr>) h) = (offer, h2)"
      by (rule prod.exhaust)
    have "nhLinks h' = nhLinks h"
      using build_answers offerUpdate_fields(1) [OF o]
      by (auto simp: buildAnswers_def Let_def o finishHello_def socket_simps split: sum.splits option.splits)
    with assms(4) show ?thesis by simp
  qed (use assms(3,4) in \<open>auto simp: acceptSocket_def helloArrives_def finishHello_def disconnectNode_def socket_simps
      split: option.splits if_splits\<close>)
qed

theorem link_changes_published_witness:
  "nhPublished (socketGone 0 (closeSocket 0 demoHub)) = [''n'', ''n'']"
proof -
  have r: "hubReachable (closeSocket 0 demoHub)" by (rule hub_stepped [OF demoHub_reachable socket_closes])
  have step: "hubStep (closeSocket 0 demoHub) (OncloseRuns 0) (socketGone 0 (closeSocket 0 demoHub))"
    by (rule onclose_runs) (simp add: demo_hub_simps closeSocket_def)
  have "\<exists>before after. nhPublished (socketGone 0 (closeSocket 0 demoHub)) = before @ ''n'' # after \<and>
      length (nhPublished (closeSocket 0 demoHub)) \<le> length before"
    by (rule link_changes_published [OF r step]) (simp_all add: demo_hub_simps closeSocket_def socketGone_def)
  then show ?thesis by (simp add: demo_hub_simps closeSocket_def socketGone_def)
qed

subsection \<open>Both ends\<close>

text \<open>What the node's link makes of the hub's answer.\<close>

definition nodeReads :: "helloAnswer \<Rightarrow> helloFailure + int" where
  "nodeReads a =
     (case a of
        AnswerReady v \<Rightarrow> helloOutcome protocolVersion protocolVersion
          \<lparr>hrKind = ''ready'', hrReady = Some v, hrUpdate = None, hrError = None\<rparr>
      | AnswerUpdate b \<Rightarrow> helloOutcome protocolVersion protocolVersion
          \<lparr>hrKind = ''update'', hrReady = None, hrUpdate = Some b, hrError = None\<rparr>
      | AnswerError code msg \<Rightarrow> Inl (helloRejected code msg))"

text \<open>The two ends agree: a node that may not connect, or whose authentication failed or proves another node,
  stops its link for good, with the hub's reason; a \<open>ready\<close> negotiates; and every other failed hello (no common
  version, no docs, a build not ready, negotiated already) leaves the link redialing.\<close>
theorem refusal_stops_the_node:
  assumes "connAt l c (\<lambda>k. lcClosed k \<and> \<not> lcSettled k)" "\<not> nlStopped l"
  shows "(checkHello auth (Some why) False hello = Some a \<longrightarrow>
            (\<exists>msg. nodeReads a = Inl (Refusal msg) \<and> nlStopped (readyRejected opts c (Refusal msg) l) \<and>
              last (nlReports (readyRejected opts c (Refusal msg) l)) = ReportRefused msg)) \<and>
         (\<forall>code msg. code \<noteq> nodeRefused \<longrightarrow> nodeReads (AnswerError code msg) = Inl (NegotiationFailure msg) \<and>
            \<not> nlStopped (readyRejected opts c (NegotiationFailure msg) l) \<and>
            nlTimer (readyRejected opts c (NegotiationFailure msg) l) = nlTimer l) \<and>
         nodeReads (AnswerReady protocolVersion) = Inr protocolVersion"
proof -
  have stop: "nlStopped (readyRejected opts c (Refusal msg) l) \<and>
      last (nlReports (readyRejected opts c (Refusal msg) l)) = ReportRefused msg" for msg
    using assms by (simp add: readyRejected_def Let_def updateConn_def refuseLink_def report_def stopLink_def closeConn_def
        split: option.splits)
  have "\<exists>msg. a = AnswerError nodeRefused msg" if "checkHello auth (Some why) False hello = Some a"
    using that by (auto simp: checkHello_def split: authentication.splits if_splits)
  moreover have "\<not> nlStopped (readyRejected opts c (NegotiationFailure msg) l) \<and>
      nlTimer (readyRejected opts c (NegotiationFailure msg) l) = nlTimer l" for msg
    using assms(2) by (simp add: readyRejected_def Let_def updateConn_def linkFailed_def report_def)
  ultimately show ?thesis
    using stop by (auto simp: nodeReads_def helloRejected_def helloOutcome_def helloReply_def)
qed

theorem refusal_stops_the_node_witness:
  "nlStopped (readyRejected \<lparr>loBackoff = reconnectBackoff, loUpdateBackoff = updateBackoff, loCanUpdate = True\<rparr> 0 (Refusal ''removed'') (closeConn 0 (linkOpened startLink)))"
proof -
  let ?l = "closeConn 0 (linkOpened startLink)"
  have "connAt ?l 0 (\<lambda>k. lcClosed k \<and> \<not> lcSettled k)" "\<not> nlStopped ?l"
    by (simp_all add: connAt_def closeConn_def linkOpened_def startLink_def connectLink_def updateConn_def newConn_def Let_def)
  note both = refusal_stops_the_node [OF this, of NotRequired "''removed''" demoHello "AnswerError nodeRefused ''removed''"
    "\<lparr>loBackoff = reconnectBackoff, loUpdateBackoff = updateBackoff, loCanUpdate = True\<rparr>"]
  then show ?thesis by (auto simp: checkHello_def nodeReads_def helloRejected_def)
qed

end
