(* ===== verification/Session_Runs.thy ===== *)
theory Session_Runs
  imports Reins_Prelude
begin

text \<open>
  A session's run as the server records it: \<^verbatim>\<open>packages/backend/src/sessions/session-runs.ts\<close>, with the reads of
  Pi's storage it makes (\<^verbatim>\<open>pi/run-state.ts\<close>), the final reply (\<^verbatim>\<open>session-runtime/events.ts\<close>) and the two
  updates of a session's row (\<^verbatim>\<open>session-store.ts\<close>). The tables are maps; a time is a number of milliseconds. Whether a
  parent's runtime admits a report, whether a branch can be read, what resuming a session's runtime
  answers and which sessions the process has busy are inputs. Each \<open>await\<close> ends a definition: what comes
  after it is one of its own, on the state it then finds.
\<close>

subsection \<open>Messages and the final reply\<close>

datatype replyBlock = ReplyText string | ReplyOther

record replyMessage =
  rmRole :: string
  rmContent :: "replyBlock list option"
  rmStopReason :: "string option"
  rmErrorMessage :: "string option"

record finalReplyData =
  frText :: "string option"
  frStopReason :: "string option"
  frErrorMessage :: "string option"

fun replyTextOf :: "replyBlock \<Rightarrow> string option" where
  "replyTextOf (ReplyText t) = Some t"
| "replyTextOf ReplyOther = None"

definition finalReply :: "replyMessage list \<Rightarrow> finalReplyData option" where
  "finalReply messages =
     map_option (\<lambda>m. \<lparr>frText = map_option (\<lambda>bs. joinWith [newlineC] (List.map_filter replyTextOf bs)) (rmContent m),
                      frStopReason = rmStopReason m, frErrorMessage = rmErrorMessage m\<rparr>)
       (find (\<lambda>m. rmRole m = ''assistant'') (rev messages))"

subsection \<open>Settlements\<close>

datatype runStatus = RunCompleted | RunFailed | RunAborted
datatype runSource = ByPi | ByReins

record settlementError =
  seCode :: "string option"
  seMessage :: string

record runSettlement =
  rsStatus :: runStatus
  rsError :: "settlementError option"

text \<open>A record older than operation IDs has neither.\<close>

record latestSettlementData =
  lsOutcome :: runSettlement
  lsOperation :: "string option"
  lsSource :: "runSource option"

record runModel =
  rnProvider :: string
  rnModelId :: string

record sessionSettled =
  ssSession :: string
  ssRunId :: string
  ssSource :: runSource
  ssStatus :: runStatus
  ssError :: "settlementError option"
  ssModel :: "runModel option"
  ssThinking :: "string option"
  ssTip :: "string option"

subsection \<open>The tables\<close>

record sessionRunRow =
  srProject :: int
  srParent :: "string option"
  srExtension :: "string option"
  srTask :: "nat option"
  srSource :: "nat option"
  srFinished :: bool
  srSettlement :: "latestSettlementData option"
  srResumes :: "int list"
  srModel :: "string option \<times> string option \<times> string option"

datatype piStatus = PiEnded runStatus | PiDeclined

record piResult =
  prOperation :: string
  prIsRun :: bool
  prStatus :: piStatus
  prError :: "settlementError option"
  prStartedAt :: int

text \<open>A session's main lane in Pi's storage: the operation in progress, the metas of operations and the
  results in the order they were written.\<close>

record piLane =
  plCurrent :: "string option"
  plMetas :: "(string, int) jsmap"
  plResults :: "piResult list"

record runTables =
  rtSessions :: "(string, sessionRunRow) jsmap"
  rtTasksClosed :: "(nat, int option) jsmap"
  rtSourceNodes :: "(nat, string) jsmap"
  rtLanes :: "(string, piLane) jsmap"

datatype runEffect =
    Steered string string string string
  | SessionUpdated string int
  | ToldExtension string string runStatus "string option" "string option"

definition getSessionRow :: "runTables \<Rightarrow> string \<Rightarrow> sessionRunRow option" where
  "getSessionRow t i = jmGet (rtSessions t) i"

definition updateSessionRow :: "string \<Rightarrow> (sessionRunRow \<Rightarrow> sessionRunRow) \<Rightarrow> runTables \<Rightarrow> runTables" where
  "updateSessionRow i f t =
     (case getSessionRow t i of None \<Rightarrow> t | Some row \<Rightarrow> t\<lparr>rtSessions := jmSet i (f row) (rtSessions t)\<rparr>)"

subsection \<open>Pi's storage\<close>

definition laneOf :: "runTables \<Rightarrow> string \<Rightarrow> piLane" where
  "laneOf t i = orElse (jmGet (rtLanes t) i) \<lparr>plCurrent = None, plMetas = [], plResults = []\<rparr>"

definition pendingPiOperations :: "runTables \<Rightarrow> (string \<times> string) list" where
  "pendingPiOperations t = List.map_filter (\<lambda>(i, l). map_option (\<lambda>op. (i, op)) (plCurrent l)) (rtLanes t)"

definition readPendingPiOperation :: "runTables \<Rightarrow> string \<Rightarrow> (string \<times> int) option" where
  "readPendingPiOperation t i =
     (case plCurrent (laneOf t i) of
        None \<Rightarrow> None
      | Some op \<Rightarrow> if op = [] then None else map_option (\<lambda>started. (op, started)) (jmGet (plMetas (laneOf t i)) op))"

definition readOperationResult :: "runTables \<Rightarrow> string \<Rightarrow> string \<Rightarrow> piResult option" where
  "readOperationResult t i op = find (\<lambda>r. prOperation r = op) (plResults (laneOf t i))"

definition readNewestRunResult :: "runTables \<Rightarrow> string \<Rightarrow> piResult option" where
  "readNewestRunResult t i = find prIsRun (rev (plResults (laneOf t i)))"

subsection \<open>Records of a run's end\<close>

definition latestSettlement :: "runTables \<Rightarrow> string \<Rightarrow> latestSettlementData option" where
  "latestSettlement t i = Option.bind (getSessionRow t i) srSettlement"

definition recordRunSettled :: "string \<Rightarrow> string \<Rightarrow> runSource \<Rightarrow> runSettlement \<Rightarrow> runTables \<Rightarrow> runTables" where
  "recordRunSettled i op source outcome =
     updateSessionRow i (\<lambda>row. row\<lparr>srSettlement := Some \<lparr>lsOutcome = outcome, lsOperation = Some op, lsSource = Some source\<rparr>\<rparr>)"

definition runStartedBeforeTaskClosed :: "runTables \<Rightarrow> string \<Rightarrow> string \<Rightarrow> bool" where
  "runStartedBeforeTaskClosed t i op =
     (case Option.bind (Option.bind (getSessionRow t i) srTask) (\<lambda>task. Option.bind (jmGet (rtTasksClosed t) task) id) of
        None \<Rightarrow> False
      | Some closedAt \<Rightarrow>
          (case (case readOperationResult t i op of
                   Some r \<Rightarrow> Some (prStartedAt r)
                 | None \<Rightarrow> (case readPendingPiOperation t i of
                     Some (cur, started) \<Rightarrow> if cur = op then Some started else None
                   | None \<Rightarrow> None)) of
             None \<Rightarrow> False
           | Some started \<Rightarrow> started \<le> closedAt))"

text \<open>\<open>updateSessionMeta\<close> with the run's model, and \<open>updateActivityState\<close>.\<close>

definition updateRunModel :: "string \<Rightarrow> runModel option \<Rightarrow> string option \<Rightarrow> runTables \<Rightarrow> runTables" where
  "updateRunModel i model thinking t =
     (case model of
        Some m \<Rightarrow>
          if rnProvider m = [] \<or> rnModelId m = [] then t
          else updateSessionRow i (\<lambda>row. row\<lparr>srModel := (Some (rnProvider m), Some (rnModelId m),
                 if thinking = None then snd (snd (srModel row)) else thinking)\<rparr>) t
      | None \<Rightarrow> t)"

definition updateActivityState :: "string \<Rightarrow> bool \<Rightarrow> runTables \<Rightarrow> runTables" where
  "updateActivityState i finished = updateSessionRow i (\<lambda>row. row\<lparr>srFinished := finished\<rparr>)"

definition childReportKey :: "string \<Rightarrow> string \<Rightarrow> runSource \<Rightarrow> string" where
  "childReportKey child op source =
     ''child-report:'' @ child @ '':'' @ op @ (if source = ByReins then '':interrupted'' else [])"

datatype waitStatus = WaitIdle | WaitCompleted | WaitFailed | WaitCancelled | WaitTimeout

record waitResult =
  wrStatus :: waitStatus
  wrResult :: "string option"
  wrError :: "string option"

definition responseFailed :: string where
  "responseFailed = ''Runtime response failed''"

definition replyResult :: "finalReplyData option \<Rightarrow> runSettlement option \<Rightarrow> waitResult" where
  "replyResult reply terminal =
     (let result = Option.bind reply frText;
          stop = Option.bind reply frStopReason;
          msg = Option.bind reply frErrorMessage
      in case terminal of
           None \<Rightarrow>
             \<lparr>wrStatus = (if stop = Some ''aborted'' then WaitCancelled else if stop = Some ''error'' then WaitFailed
                           else if reply \<noteq> None then WaitCompleted else WaitIdle),
              wrResult = result,
              wrError = (if stop = Some ''error'' then Some (orElse msg responseFailed) else None)\<rparr>
         | Some ended \<Rightarrow>
             (case rsStatus ended of
                RunFailed \<Rightarrow> \<lparr>wrStatus = WaitFailed, wrResult = None, wrError = Some (orElse (map_option seMessage (rsError ended)) responseFailed)\<rparr>
              | RunAborted \<Rightarrow> \<lparr>wrStatus = WaitCancelled, wrResult = None, wrError = map_option seMessage (rsError ended)\<rparr>
              | RunCompleted \<Rightarrow> \<lparr>wrStatus = WaitCompleted, wrResult = result, wrError = None\<rparr>))"

definition statusWord :: "waitStatus \<Rightarrow> string" where
  "statusWord w = (case w of WaitIdle \<Rightarrow> ''idle'' | WaitCompleted \<Rightarrow> ''completed'' | WaitFailed \<Rightarrow> ''failed''
     | WaitCancelled \<Rightarrow> ''cancelled'' | WaitTimeout \<Rightarrow> ''timeout'')"

definition reportContent :: "finalReplyData option \<Rightarrow> runSettlement \<Rightarrow> string" where
  "reportContent reply outcome =
     (let r = replyResult reply (Some outcome)
      in if wrStatus r = WaitCompleted then orElse (wrResult r) ''Session completed.''
         else case wrError r of
           Some e \<Rightarrow> if e = [] then ''Session '' @ statusWord (wrStatus r) @ ''.''
                     else ''Session '' @ statusWord (wrStatus r) @ '': '' @ e
         | None \<Rightarrow> ''Session '' @ statusWord (wrStatus r) @ ''.'')"

subsection \<open>A run settles\<close>

text \<open>What a settlement reads and asks of the process: a branch's messages (\<open>None\<close> when reading throws), whether a
  session's runtime admits a steer, and whether an app is there to tell.\<close>

record runWorld =
  wBranch :: "string \<Rightarrow> string option \<Rightarrow> replyMessage list option"
  wAdmits :: "string \<Rightarrow> bool"
  wHasApp :: bool

definition settlementOutcome :: "sessionSettled \<Rightarrow> runSettlement" where
  "settlementOutcome e = \<lparr>rsStatus = ssStatus e, rsError = ssError e\<rparr>"

text \<open>\<open>reportToParent\<close>: the steer its parent is sent; \<open>None\<close> when it throws.\<close>

definition reportToParent ::
  "runWorld \<Rightarrow> runTables \<Rightarrow> string \<Rightarrow> string \<Rightarrow> string \<Rightarrow> finalReplyData option \<Rightarrow> runSettlement \<Rightarrow> runEffect option" where
  "reportToParent w t child parent reportKey reply outcome =
     (if getSessionRow t parent = None \<or> \<not> wAdmits w parent then None
      else Some (Steered parent reportKey (reportContent reply outcome) child))"

text \<open>\<open>runSettled\<close> up to its \<open>await\<close>: \<open>None\<close> when the session is unknown, else its row and what was reported.\<close>

definition settleReport :: "runWorld \<Rightarrow> runTables \<Rightarrow> sessionSettled \<Rightarrow> (sessionRunRow \<times> runEffect option) option" where
  "settleReport w t e =
     map_option (\<lambda>row.
       (row, case srParent row of
               None \<Rightarrow> None
             | Some parent \<Rightarrow>
                 if parent = [] then None
                 else (case wBranch w (ssSession e) (ssTip e) of
                         None \<Rightarrow> None
                       | Some messages \<Rightarrow>
                           reportToParent w t (ssSession e) parent (childReportKey (ssSession e) (ssRunId e) (ssSource e))
                             (finalReply messages) (settlementOutcome e))))
       (getSessionRow t (ssSession e))"

text \<open>The transaction, and the announcements after it.\<close>

definition settleTransaction :: "sessionSettled \<Rightarrow> bool \<Rightarrow> runTables \<Rightarrow> runTables" where
  "settleTransaction e reported t =
     (let t1 = recordRunSettled (ssSession e) (ssRunId e) (ssSource e) (settlementOutcome e) t;
          t2 = updateRunModel (ssSession e) (ssModel e) (ssThinking e) t1;
          quiet = reported \<or> runStartedBeforeTaskClosed t2 (ssSession e) (ssRunId e)
      in updateActivityState (ssSession e) (\<not> quiet) t2)"

definition tellExtension :: "runWorld \<Rightarrow> string \<Rightarrow> string \<Rightarrow> string option \<Rightarrow> runSettlement \<Rightarrow> runEffect list" where
  "tellExtension w extension session tip outcome =
     (if \<not> wHasApp w then []
      else case rsStatus outcome of
        RunCompleted \<Rightarrow>
          (case wBranch w session tip of
             None \<Rightarrow> []
           | Some messages \<Rightarrow> [ToldExtension extension session RunCompleted (Option.bind (finalReply messages) frText) None])
      | RunFailed \<Rightarrow>
          [ToldExtension extension session RunFailed None (Some (orElse (map_option seMessage (rsError outcome)) responseFailed))]
      | RunAborted \<Rightarrow> [ToldExtension extension session RunAborted None (map_option seMessage (rsError outcome))])"

definition notifyUpdated :: "runTables \<Rightarrow> string \<Rightarrow> runEffect list" where
  "notifyUpdated t session = (case getSessionRow t session of None \<Rightarrow> [] | Some row \<Rightarrow> [SessionUpdated session (srProject row)])"

definition settleCommit ::
  "runWorld \<Rightarrow> sessionSettled \<Rightarrow> sessionRunRow \<Rightarrow> bool \<Rightarrow> runTables \<Rightarrow> runTables \<times> runEffect list" where
  "settleCommit w e row reported t =
     (let t' = settleTransaction e reported t
      in (t', notifyUpdated t' (ssSession e)
              @ (case srExtension row of
                   None \<Rightarrow> []
                 | Some x \<Rightarrow> if x = [] then [] else tellExtension w x (ssSession e) (ssTip e) (settlementOutcome e))))"

text \<open>\<open>runSettled\<close> with nothing in between; \<open>None\<close> when it throws.\<close>

definition runSettled :: "runWorld \<Rightarrow> sessionSettled \<Rightarrow> runTables \<Rightarrow> (runTables \<times> runEffect list) option" where
  "runSettled w e t =
     (case settleReport w t e of
        None \<Rightarrow> None
      | Some (row, report) \<Rightarrow>
          (let (t', effects) = settleCommit w e row (report \<noteq> None) t
           in Some (t', (case report of None \<Rightarrow> [] | Some s \<Rightarrow> [s]) @ effects)))"

subsection \<open>Interrupted runs\<close>

definition interruptedMessage :: string where
  "interruptedMessage = ''The run was interrupted: the server restarted''"

definition interruption :: "string \<Rightarrow> string \<Rightarrow> string \<Rightarrow> sessionSettled" where
  "interruption session op msg =
     \<lparr>ssSession = session, ssRunId = op, ssSource = ByReins, ssStatus = RunFailed,
      ssError = Some \<lparr>seCode = None, seMessage = msg\<rparr>, ssModel = None, ssThinking = None, ssTip = None\<rparr>"

definition settleAsInterrupted ::
  "runWorld \<Rightarrow> string \<Rightarrow> string \<Rightarrow> string \<Rightarrow> runTables \<Rightarrow> (runTables \<times> runEffect list) option" where
  "settleAsInterrupted w session op msg = runSettled w (interruption session op msg)"

definition givenUp :: "runTables \<Rightarrow> string \<times> string \<Rightarrow> bool" where
  "givenUp t run =
     (case latestSettlement t (fst run) of
        None \<Rightarrow> False
      | Some s \<Rightarrow> lsSource s = Some ByReins \<and> lsOperation s = Some (snd run))"

definition pendingRuns :: "runTables \<Rightarrow> (string \<times> string) list" where
  "pendingRuns t = filter (\<lambda>run. \<not> givenUp t run) (pendingPiOperations t)"

definition onNode :: "runTables \<Rightarrow> string \<Rightarrow> string \<Rightarrow> bool" where
  "onNode t session node =
     (Option.bind (Option.bind (getSessionRow t session) srSource) (jmGet (rtSourceNodes t)) = Some node)"

text \<open>The loop over the runs pending when it started; it stops where a settlement throws.\<close>

fun interruptRuns ::
  "runWorld \<Rightarrow> string \<Rightarrow> string \<Rightarrow> string list \<Rightarrow> (string \<times> string) list \<Rightarrow> runTables \<Rightarrow> runTables \<times> runEffect list \<times> bool" where
  "interruptRuns w node msg except [] t = (t, [], True)"
| "interruptRuns w node msg except ((session, op) # runs) t =
     (if session \<in> set except \<or> \<not> onNode t session node then interruptRuns w node msg except runs t
      else case settleAsInterrupted w session op msg t of
        None \<Rightarrow> (t, [], False)
      | Some (t1, effects) \<Rightarrow>
          (let (t2, later, done) = interruptRuns w node msg except runs t1 in (t2, effects @ later, done)))"

definition interruptRunsOn ::
  "runWorld \<Rightarrow> string \<Rightarrow> string \<Rightarrow> string list \<Rightarrow> runTables \<Rightarrow> runTables \<times> runEffect list \<times> bool" where
  "interruptRunsOn w node msg except t = interruptRuns w node msg except (pendingRuns t) t"

subsection \<open>Recovery at process start\<close>

definition autoResumeLimit :: nat where "autoResumeLimit = 3"
definition autoResumeWindowMs :: int where "autoResumeWindowMs = 600000"

definition takeAutoResume :: "string \<Rightarrow> int \<Rightarrow> runTables \<Rightarrow> bool \<times> runTables" where
  "takeAutoResume session now t =
     (let times = (case getSessionRow t session of None \<Rightarrow> [] | Some row \<Rightarrow> srResumes row);
          recent = filter (\<lambda>time. now - time < autoResumeWindowMs) times;
          allowed = length recent < autoResumeLimit
      in (allowed, updateSessionRow session (\<lambda>row. row\<lparr>srResumes := if allowed then recent @ [now] else recent\<rparr>) t))"

datatype resumeAnswer = ResumeStarted | NothingToResume | ResumeThrew string

definition giveUpRun ::
  "runWorld \<Rightarrow> bool \<Rightarrow> string \<Rightarrow> string \<Rightarrow> runTables \<Rightarrow> (runTables \<times> runEffect list) option" where
  "giveUpRun w busy session op t =
     (if map_option fst (readPendingPiOperation t session) \<noteq> Some op \<or> busy then Some (t, [])
      else settleAsInterrupted w session op interruptedMessage t)"

text \<open>One pending run: its budget, then, on the tables \<open>t1\<close> its resumption left, giving it up unless it started.\<close>

definition recoverRunBegin :: "int \<Rightarrow> string \<Rightarrow> runTables \<Rightarrow> bool \<times> runTables" where
  "recoverRunBegin now session t = takeAutoResume session now t"

definition recoverRunEnd ::
  "runWorld \<Rightarrow> bool \<Rightarrow> bool \<Rightarrow> resumeAnswer \<Rightarrow> string \<Rightarrow> string \<Rightarrow> runTables \<Rightarrow> (runTables \<times> runEffect list) option" where
  "recoverRunEnd w allowed busy answer session op t1 =
     (if allowed \<and> answer = ResumeStarted then Some (t1, []) else giveUpRun w busy session op t1)"

subsection \<open>Waiting until a session is at rest\<close>

definition lastRunOutcome :: "runTables \<Rightarrow> string \<Rightarrow> runSettlement option" where
  "lastRunOutcome t session =
     (let applied = latestSettlement t session
      in case readNewestRunResult t session of
           None \<Rightarrow> map_option lsOutcome applied
         | Some newest \<Rightarrow>
             (case applied of
                Some s \<Rightarrow>
                  if lsOperation s \<noteq> None
                     \<and> (lsOperation s = Some (prOperation newest)
                         \<or> lsOperation s = map_option fst (readPendingPiOperation t session))
                  then Some (lsOutcome s)
                  else Some \<lparr>rsStatus = (case prStatus newest of PiDeclined \<Rightarrow> RunAborted | PiEnded s \<Rightarrow> s), rsError = prError newest\<rparr>
              | None \<Rightarrow> Some \<lparr>rsStatus = (case prStatus newest of PiDeclined \<Rightarrow> RunAborted | PiEnded s \<Rightarrow> s), rsError = prError newest\<rparr>))"

text \<open>What a wait finds each time it looks: the time, the tables, the session's messages, whether the process has
  it busy, the caller's inputs still queued, and whether the wait was aborted before the next look.\<close>

record waitLook =
  wkNow :: int
  wkTables :: runTables
  wkMessages :: "replyMessage list"
  wkBusy :: bool
  wkQueued :: "string list"
  wkAborts :: bool

datatype waitAnswer = WaitAnswered waitResult | WaitAbortError | WaitNotFound | StillWaiting

definition timeoutResult :: waitResult where
  "timeoutResult = \<lparr>wrStatus = WaitTimeout, wrResult = None, wrError = None\<rparr>"

fun waitForSettlement :: "string \<Rightarrow> int \<Rightarrow> string list \<Rightarrow> waitLook list \<Rightarrow> waitAnswer" where
  "waitForSettlement session deadline inputs [] = StillWaiting"
| "waitForSettlement session deadline inputs (k # looks) =
     (if getSessionRow (wkTables k) session = None then WaitNotFound
      else if \<not> wkBusy k \<and> list_all (\<lambda>i. i \<notin> set (wkQueued k)) inputs
      then WaitAnswered (replyResult (finalReply (wkMessages k)) (lastRunOutcome (wkTables k) session))
      else if wkNow k \<ge> deadline then WaitAnswered timeoutResult
      else if wkAborts k then WaitAbortError
      else waitForSettlement session deadline inputs looks)"

end
