(* ===== verification/Session_Run_Laws.thy ===== *)
theory Session_Run_Laws
  imports Session_Runs
begin

text \<open>
  What the recorded runs promise: the automatic resumes of a session are bounded in every window, a run that
  was given up (and nothing else) leaves the pending runs, removing a node leaves nothing pending on it, the
  settlement of a run is what waits then answer, and a wait answers at the first look that finds the session
  at rest or the deadline past.
\<close>

named_theorems settle_simps \<open>what an update of the tables keeps\<close>

subsection \<open>Updates of the session rows\<close>

lemma getSessionRow_update [settle_simps]:
  "getSessionRow (updateSessionRow i f t) j = (if j = i then map_option f (getSessionRow t i) else getSessionRow t j)"
  by (simp add: updateSessionRow_def getSessionRow_def split: option.splits)

lemma updateSessionRow_tables [settle_simps]:
  "rtTasksClosed (updateSessionRow i f t) = rtTasksClosed t"
  "rtSourceNodes (updateSessionRow i f t) = rtSourceNodes t"
  "rtLanes (updateSessionRow i f t) = rtLanes t"
  by (simp_all add: updateSessionRow_def split: option.splits)

text \<open>Reads of Pi's storage see only its lanes.\<close>

lemma piReads_lanes:
  assumes "rtLanes t' = rtLanes t"
  shows "laneOf t' = laneOf t" "pendingPiOperations t' = pendingPiOperations t"
    "readPendingPiOperation t' = readPendingPiOperation t" "readOperationResult t' = readOperationResult t"
    "readNewestRunResult t' = readNewestRunResult t"
proof -
  show l: "laneOf t' = laneOf t" by (simp add: fun_eq_iff laneOf_def assms)
  show "pendingPiOperations t' = pendingPiOperations t" by (simp add: pendingPiOperations_def assms)
  show "readPendingPiOperation t' = readPendingPiOperation t" unfolding fun_eq_iff readPendingPiOperation_def l by simp
  show "readOperationResult t' = readOperationResult t" by (simp add: fun_eq_iff readOperationResult_def l)
  show "readNewestRunResult t' = readNewestRunResult t" by (simp add: fun_eq_iff readNewestRunResult_def l)
qed

lemma updateRunModel_keeps [settle_simps]:
  "rtLanes (updateRunModel i m th t) = rtLanes t"
  "rtSourceNodes (updateRunModel i m th t) = rtSourceNodes t"
  "rtTasksClosed (updateRunModel i m th t) = rtTasksClosed t"
  "map_option srSettlement (getSessionRow (updateRunModel i m th t) j) = map_option srSettlement (getSessionRow t j)"
  "map_option srSource (getSessionRow (updateRunModel i m th t) j) = map_option srSource (getSessionRow t j)"
  "(getSessionRow (updateRunModel i m th t) j = None) = (getSessionRow t j = None)"
  by (auto simp: updateRunModel_def settle_simps option.map_comp comp_def split: option.splits)

lemma updateActivityState_keeps [settle_simps]:
  "rtLanes (updateActivityState i b t) = rtLanes t"
  "rtSourceNodes (updateActivityState i b t) = rtSourceNodes t"
  "rtTasksClosed (updateActivityState i b t) = rtTasksClosed t"
  "map_option srSettlement (getSessionRow (updateActivityState i b t) j) = map_option srSettlement (getSessionRow t j)"
  "map_option srSource (getSessionRow (updateActivityState i b t) j) = map_option srSource (getSessionRow t j)"
  "(getSessionRow (updateActivityState i b t) j = None) = (getSessionRow t j = None)"
  by (auto simp: updateActivityState_def settle_simps option.map_comp comp_def)

lemma recordRunSettled_keeps [settle_simps]:
  "rtLanes (recordRunSettled i op src oc t) = rtLanes t"
  "rtSourceNodes (recordRunSettled i op src oc t) = rtSourceNodes t"
  "rtTasksClosed (recordRunSettled i op src oc t) = rtTasksClosed t"
  "map_option srSource (getSessionRow (recordRunSettled i op src oc t) j) = map_option srSource (getSessionRow t j)"
  "(getSessionRow (recordRunSettled i op src oc t) j = None) = (getSessionRow t j = None)"
  by (auto simp: recordRunSettled_def settle_simps option.map_comp comp_def)

lemma bind_map_option: "Option.bind (map_option f x) g = Option.bind x (g \<circ> f)"
  by (cases x) simp_all

lemma latestSettlement_via: "latestSettlement t i = Option.bind (map_option srSettlement (getSessionRow t i)) id"
  by (simp add: latestSettlement_def bind_map_option)

lemma onNode_via:
  "onNode t i n = (Option.bind (Option.bind (map_option srSource (getSessionRow t i)) id) (jmGet (rtSourceNodes t)) = Some n)"
  by (simp add: onNode_def bind_map_option)

subsection \<open>A settlement on the tables\<close>

lemma settleTransaction_keeps [settle_simps]:
  "rtLanes (settleTransaction e r t) = rtLanes t"
  "rtSourceNodes (settleTransaction e r t) = rtSourceNodes t"
  "(getSessionRow (settleTransaction e r t) j = None) = (getSessionRow t j = None)"
  "map_option srSource (getSessionRow (settleTransaction e r t) j) = map_option srSource (getSessionRow t j)"
  by (simp_all add: settleTransaction_def Let_def settle_simps)

lemma latestSettlement_settle:
  assumes "getSessionRow t (ssSession e) \<noteq> None"
  shows "latestSettlement (settleTransaction e r t) j =
    (if j = ssSession e
     then Some \<lparr>lsOutcome = settlementOutcome e, lsOperation = Some (ssRunId e), lsSource = Some (ssSource e)\<rparr>
     else latestSettlement t j)"
  using assms
  by (auto simp: latestSettlement_via settleTransaction_def Let_def settle_simps recordRunSettled_def)

lemma onNode_settle: "onNode (settleTransaction e r t) i n = onNode t i n"
  by (simp add: onNode_via settle_simps)

lemma runSettled_cases:
  assumes "runSettled w e t = Some (t', effects)"
  obtains r where "getSessionRow t (ssSession e) \<noteq> None" "t' = settleTransaction e r t"
  using assms
  by (auto simp: runSettled_def settleReport_def settleCommit_def Let_def split: option.splits)

lemma runSettled_runs: "runSettled w e t = None \<longleftrightarrow> getSessionRow t (ssSession e) = None"
  by (auto simp: runSettled_def settleReport_def settleCommit_def Let_def split: option.splits)

lemma runSettled_keeps:
  assumes "runSettled w e t = Some (t', effects)"
  shows "rtLanes t' = rtLanes t" "onNode t' i n = onNode t i n"
    "(getSessionRow t' j = None) = (getSessionRow t j = None)"
  using assms by (auto elim!: runSettled_cases simp: settle_simps onNode_settle)

subsection \<open>Pending runs\<close>

lemma givenUp_settle:
  assumes "runSettled w (interruption s op msg) t = Some (t', effects)"
  shows "givenUp t' run = (if fst run = s then snd run = op else givenUp t run)"
  using assms
  by (auto elim!: runSettled_cases simp: givenUp_def latestSettlement_settle interruption_def)

lemma pending_from_lane: "run \<in> set (pendingPiOperations t) \<Longrightarrow> \<exists>l. (fst run, l) \<in> set (rtLanes t) \<and> plCurrent l = Some (snd run)"
  by (force simp: pendingPiOperations_def List.map_filter_def split: prod.splits)

lemma pending_unique:
  assumes "jmWf (rtLanes t)" "(s, a) \<in> set (pendingPiOperations t)" "(s, b) \<in> set (pendingPiOperations t)"
  shows "a = b"
  using pending_from_lane [OF assms(2)] pending_from_lane [OF assms(3)] assms(1)
  by (metis eq_key_imp_eq_value fst_conv option.inject snd_conv)

lemma pendingRuns_settle:
  assumes wf: "jmWf (rtLanes t)" and settled: "settleAsInterrupted w s op msg t = Some (t', effects)"
    and pending: "(s, op) \<in> set (pendingPiOperations t)"
  shows "pendingRuns t' = filter (\<lambda>run. run \<noteq> (s, op)) (pendingRuns t)"
proof -
  have run: "runSettled w (interruption s op msg) t = Some (t', effects)" using settled by (simp add: settleAsInterrupted_def)
  have ops: "pendingPiOperations t' = pendingPiOperations t" using piReads_lanes runSettled_keeps(1) [OF run] by blast
  have "(\<not> givenUp t' run) = (run \<noteq> (s, op) \<and> \<not> givenUp t run)" if "run \<in> set (pendingPiOperations t)" for run
    using that pending_unique [OF wf _ pending, of "snd run"] givenUp_settle [OF run, of run]
    by (cases run) auto
  then show ?thesis
    by (simp add: pendingRuns_def ops filter_filter conj_commute cong: filter_cong)
qed

lemma interruptRuns_keeps:
  "interruptRuns w node msg except runs t = (t', effects, ok) \<Longrightarrow>
     rtLanes t' = rtLanes t \<and> (\<forall>i n. onNode t' i n = onNode t i n) \<and>
     (\<forall>j. (getSessionRow t' j = None) = (getSessionRow t j = None)) \<and>
     (\<forall>j. (\<forall>op. (j, op) \<notin> set runs) \<longrightarrow> latestSettlement t' j = latestSettlement t j)"
proof (induction w node msg except runs t arbitrary: t' effects rule: interruptRuns.induct)
  case (2 w node msg except s op runs t)
  show ?case
  proof (cases "s \<in> set except \<or> \<not> onNode t s node")
    case True
    with 2 show ?thesis by auto
  next
    case False
    show ?thesis
    proof (cases "settleAsInterrupted w s op msg t")
      case None
      with False 2(3) show ?thesis by simp
    next
      case (Some a)
      then obtain t1 e1 where s1: "settleAsInterrupted w s op msg t = Some (t1, e1)" by (cases a) simp
      with False 2(3) obtain e2 where rest: "interruptRuns w node msg except runs t1 = (t', e2, ok)"
        by (auto split: prod.splits simp: Let_def)
      have run1: "runSettled w (interruption s op msg) t = Some (t1, e1)" using s1 by (simp add: settleAsInterrupted_def)
      have "latestSettlement t1 j = latestSettlement t j" if "j \<noteq> s" for j
        using run1 that by (auto elim!: runSettled_cases simp: latestSettlement_settle interruption_def)
      with 2(2) [OF False s1 refl rest] runSettled_keeps [OF run1] show ?thesis by auto
    qed
  qed
qed auto

lemma interruptRuns_pending:
  assumes "jmWf (rtLanes t)" "set runs \<subseteq> set (pendingPiOperations t)"
    "interruptRuns w node msg except runs t = (t', effects, True)"
  shows "pendingRuns t' =
    filter (\<lambda>run. run \<notin> set runs \<or> fst run \<in> set except \<or> \<not> onNode t (fst run) node) (pendingRuns t)"
  using assms
proof (induction runs arbitrary: t effects)
  case (Cons run runs)
  obtain s op where r: "run = (s, op)" by (cases run)
  let ?stay = "\<lambda>t runs r. r \<notin> set runs \<or> fst r \<in> set except \<or> \<not> onNode t (fst r) node"
  show ?case
  proof (cases "s \<in> set except \<or> \<not> onNode t s node")
    case True
    with Cons.prems r have "interruptRuns w node msg except runs t = (t', effects, True)" by simp
    then have "pendingRuns t' = filter (?stay t runs) (pendingRuns t)" using Cons.IH Cons.prems by auto
    with True r show ?thesis by (auto intro!: filter_cong)
  next
    case False
    with Cons.prems r obtain t1 e1 e2 where s1: "settleAsInterrupted w s op msg t = Some (t1, e1)"
      and rest: "interruptRuns w node msg except runs t1 = (t', e2, True)"
      by (auto split: option.splits prod.splits simp: Let_def)
    have run1: "runSettled w (interruption s op msg) t = Some (t1, e1)" using s1 by (simp add: settleAsInterrupted_def)
    have l1: "rtLanes t1 = rtLanes t" by (rule runSettled_keeps(1) [OF run1])
    have "pendingRuns t1 = filter (\<lambda>run. run \<noteq> (s, op)) (pendingRuns t)"
      using pendingRuns_settle [OF _ s1] Cons.prems r by simp
    moreover have "pendingRuns t' = filter (?stay t1 runs) (pendingRuns t1)"
      using Cons.IH [OF _ _ rest] Cons.prems l1 piReads_lanes(2) [OF l1] by simp
    ultimately show ?thesis using False r runSettled_keeps(2) [OF run1]
      by (auto intro!: filter_cong)
  qed
qed simp

lemma interruptRuns_done:
  assumes "\<forall>(s, op)\<in>set runs. getSessionRow t s \<noteq> None"
  shows "snd (snd (interruptRuns w node msg except runs t))"
  using assms
proof (induction w node msg except runs t rule: interruptRuns.induct)
  case (2 w node msg except s op runs t)
  show ?case
  proof (cases "s \<in> set except \<or> \<not> onNode t s node")
    case True
    with 2(1) [OF True] 2(3) show ?thesis by auto
  next
    case False
    have "settleAsInterrupted w s op msg t \<noteq> None"
      using 2(3) by (auto simp: settleAsInterrupted_def runSettled_runs interruption_def)
    then obtain t1 e1 where s1: "settleAsInterrupted w s op msg t = Some (t1, e1)" by auto
    then have run1: "runSettled w (interruption s op msg) t = Some (t1, e1)" by (simp add: settleAsInterrupted_def)
    have "snd (snd (interruptRuns w node msg except runs t1))"
      using 2(2) [OF False s1 refl] 2(3) runSettled_keeps(3) [OF run1] by auto
    with False s1 show ?thesis by (auto simp: Let_def split: prod.splits)
  qed
qed simp

lemma pendingRuns_subset: "set (pendingRuns t) \<subseteq> set (pendingPiOperations t)"
  by (auto simp: pendingRuns_def)


text \<open>After a node is removed, with every pending session's row present, the loop ends without a throw and the
  pending runs are exactly the earlier ones that are not on that node or are excepted, in their order; every
  session without a pending run keeps its last recorded end.\<close>
theorem removed_node_leaves_no_run:
  assumes "jmWf (rtLanes t)" "\<forall>(s, op)\<in>set (pendingRuns t). getSessionRow t s \<noteq> None"
    "interruptRunsOn w node msg except t = (t', effects, ok)"
  shows "ok \<and> pendingRuns t' = filter (\<lambda>(s, op). s \<in> set except \<or> \<not> onNode t s node) (pendingRuns t)
    \<and> (\<forall>s. (\<forall>op. (s, op) \<notin> set (pendingRuns t)) \<longrightarrow> latestSettlement t' s = latestSettlement t s)"
proof -
  have run: "interruptRuns w node msg except (pendingRuns t) t = (t', effects, ok)"
    using assms(3) by (simp add: interruptRunsOn_def)
  have ok using interruptRuns_done [OF assms(2), of w node msg except] run by simp
  with interruptRuns_pending [OF assms(1) pendingRuns_subset] run interruptRuns_keeps [OF run]
  show ?thesis by (auto simp: case_prod_beta intro!: filter_cong)
qed

text \<open>Tables with one session whose Pi operation is in progress.\<close>

definition demoRow :: sessionRunRow where
  "demoRow = \<lparr>srProject = 1, srParent = None, srExtension = None, srTask = None, srSource = Some 1, srFinished = False,
     srSettlement = None, srResumes = [], srModel = (None, None, None)\<rparr>"

definition demoTables :: runTables where
  "demoTables = \<lparr>rtSessions = [(''s'', demoRow)], rtTasksClosed = [], rtSourceNodes = [(1, ''n'')],
     rtLanes = [(''s'', \<lparr>plCurrent = Some ''op'', plMetas = [(''op'', 5)], plResults = []\<rparr>)]\<rparr>"

definition demoWorld :: runWorld where
  "demoWorld = \<lparr>wBranch = (\<lambda>i tip. Some []), wAdmits = (\<lambda>i. True), wHasApp = False\<rparr>"

lemma demo_pending: "pendingRuns demoTables = [(''s'', ''op'')]" "jmWf (rtLanes demoTables)"
  "getSessionRow demoTables ''s'' = Some demoRow"
  by (simp_all add: pendingRuns_def pendingPiOperations_def demoTables_def givenUp_def latestSettlement_def getSessionRow_def
      List.map_filter_def demoRow_def)

theorem removed_node_leaves_no_run_witness:
  "pendingRuns (fst (interruptRunsOn demoWorld ''n'' ''gone'' [] demoTables)) = []"
proof -
  obtain t' effects ok where run: "interruptRunsOn demoWorld ''n'' ''gone'' [] demoTables = (t', effects, ok)"
    by (rule prod_cases3)
  have "onNode demoTables ''s'' ''n''"
    by (simp add: onNode_def getSessionRow_def demoTables_def demoRow_def)
  then show ?thesis
    using removed_node_leaves_no_run [OF demo_pending(2) _ run] by (simp add: demo_pending run)
qed

text \<open>giving a run up records its end: it leaves the pending runs, and no other run does or joins them.\<close>
theorem given_up_leaves_pending:
  assumes "jmWf (rtLanes t)" "map_option fst (readPendingPiOperation t s) = Some op" "getSessionRow t s \<noteq> None"
    "giveUpRun w False s op t = Some (t', effects)"
  shows "pendingRuns t' = filter (\<lambda>run. run \<noteq> (s, op)) (pendingRuns t)"
proof (rule pendingRuns_settle [OF assms(1)])
  show "settleAsInterrupted w s op interruptedMessage t = Some (t', effects)"
    using assms(2,4) by (simp add: giveUpRun_def)
  have current: "plCurrent (laneOf t s) = Some op"
    using assms(2) by (auto simp: readPendingPiOperation_def split: option.splits if_splits)
  then obtain l where "jmGet (rtLanes t) s = Some l" "plCurrent l = Some op"
    by (cases "jmGet (rtLanes t) s") (auto simp: laneOf_def)
  then show "(s, op) \<in> set (pendingPiOperations t)"
    by (force simp: pendingPiOperations_def List.map_filter_def dest: map_of_SomeD)
qed

theorem given_up_leaves_pending_witness:
  "pendingRuns (fst (the (giveUpRun demoWorld False ''s'' ''op'' demoTables))) = []"
proof -
  have cur: "map_option fst (readPendingPiOperation demoTables ''s'') = Some ''op''"
    by (simp add: readPendingPiOperation_def laneOf_def demoTables_def)
  then have "giveUpRun demoWorld False ''s'' ''op'' demoTables \<noteq> None"
    by (simp add: giveUpRun_def settleAsInterrupted_def runSettled_runs interruption_def demo_pending)
  then obtain t' effects where g: "giveUpRun demoWorld False ''s'' ''op'' demoTables = Some (t', effects)" by auto
  show ?thesis using given_up_leaves_pending [OF demo_pending(2) cur _ g] by (simp add: g demo_pending)
qed

subsection \<open>What a settlement leaves\<close>

text \<open>Once a run end is applied, a wait answers with it: the outcome of the settlement is the last run's outcome
  when it names Pi's newest run result, or the operation Pi has in progress, or Pi has no run result.\<close>
theorem settled_run_is_the_outcome:
  assumes "runSettled w e t = Some (t', effects)"
    "readNewestRunResult t (ssSession e) = None
     \<or> map_option prOperation (readNewestRunResult t (ssSession e)) = Some (ssRunId e)
     \<or> map_option fst (readPendingPiOperation t (ssSession e)) = Some (ssRunId e)"
  shows "lastRunOutcome t' (ssSession e) = Some \<lparr>rsStatus = ssStatus e, rsError = ssError e\<rparr>"
proof -
  obtain r where row: "getSessionRow t (ssSession e) \<noteq> None" and t': "t' = settleTransaction e r t"
    using assms(1) by (rule runSettled_cases)
  note reads = piReads_lanes [OF runSettled_keeps(1) [OF assms(1)]]
  have "latestSettlement t' (ssSession e) =
    Some \<lparr>lsOutcome = settlementOutcome e, lsOperation = Some (ssRunId e), lsSource = Some (ssSource e)\<rparr>"
    by (simp add: t' latestSettlement_settle [OF row])
  then show ?thesis
    using assms(2) by (auto simp: lastRunOutcome_def Let_def reads settlementOutcome_def split: option.splits)
qed

theorem settled_run_is_the_outcome_witness:
  "map_option rsStatus (lastRunOutcome (fst (the (runSettled demoWorld (interruption ''s'' ''op'' ''gone'') demoTables))) ''s'')
     = Some RunFailed"
proof -
  let ?e = "interruption ''s'' ''op'' ''gone''"
  have "runSettled demoWorld ?e demoTables \<noteq> None" by (simp add: runSettled_runs interruption_def demo_pending)
  then obtain t' effects where g: "runSettled demoWorld ?e demoTables = Some (t', effects)" by auto
  have "readNewestRunResult demoTables (ssSession ?e) = None"
    by (simp add: readNewestRunResult_def laneOf_def demoTables_def interruption_def)
  then have "lastRunOutcome t' (ssSession ?e) = Some \<lparr>rsStatus = ssStatus ?e, rsError = ssError ?e\<rparr>"
    using settled_run_is_the_outcome [OF g] by blast
  then show ?thesis unfolding g by (simp add: interruption_def)
qed

lemma startedBefore_keeps:
  assumes "rtLanes t' = rtLanes t" "rtTasksClosed t' = rtTasksClosed t"
    "map_option srTask (getSessionRow t' i) = map_option srTask (getSessionRow t i)"
  shows "runStartedBeforeTaskClosed t' i op = runStartedBeforeTaskClosed t i op"
proof -
  have "Option.bind (getSessionRow t' i) srTask = Option.bind (getSessionRow t i) srTask"
    using bind_map_option [of srTask "getSessionRow t' i" id] bind_map_option [of srTask "getSessionRow t i" id] assms(3)
    by simp
  then show ?thesis
    unfolding runStartedBeforeTaskClosed_def piReads_lanes(3,4) [OF assms(1)] assms(2) by simp
qed

lemma settled_row:
  "getSessionRow (settleTransaction e r t) j =
    (if j = ssSession e
     then map_option (\<lambda>row. row\<lparr>srSettlement := Some \<lparr>lsOutcome = settlementOutcome e,
              lsOperation = Some (ssRunId e), lsSource = Some (ssSource e)\<rparr>,
            srModel := (case ssModel e of
                None \<Rightarrow> srModel row
              | Some m \<Rightarrow> if rnProvider m = [] \<or> rnModelId m = [] then srModel row
                  else (Some (rnProvider m), Some (rnModelId m),
                    if ssThinking e = None then snd (snd (srModel row)) else ssThinking e)),
            srFinished := \<not> (r \<or> runStartedBeforeTaskClosed t (ssSession e) (ssRunId e))\<rparr>)
           (getSessionRow t j)
     else getSessionRow t j)"
proof -
  let ?t2 = "updateRunModel (ssSession e) (ssModel e) (ssThinking e)
    (recordRunSettled (ssSession e) (ssRunId e) (ssSource e) (settlementOutcome e) t)"
  have "map_option srTask (getSessionRow ?t2 (ssSession e)) = map_option srTask (getSessionRow t (ssSession e))"
    by (simp add: updateRunModel_def recordRunSettled_def settle_simps option.map_comp comp_def split: option.splits)
  then have "runStartedBeforeTaskClosed ?t2 (ssSession e) (ssRunId e) = runStartedBeforeTaskClosed t (ssSession e) (ssRunId e)"
    by (intro startedBefore_keeps) (simp_all add: settle_simps)
  then show ?thesis
    by (auto simp: settleTransaction_def Let_def updateActivityState_def updateRunModel_def recordRunSettled_def settle_simps
        option.map_comp comp_def split: option.splits intro!: option.map_cong)
qed

text \<open>How a settlement leaves the session's row: unread exactly when its parent was not told and its run did
  not start before its task closed, with the run's model where it has one, nothing else of the row changed but the
  recorded end; other sessions' rows and Pi's storage are untouched. It fails only for an unknown session.\<close>
theorem settlement_row:
  "(case runSettled w e t of
      None \<Rightarrow> getSessionRow t (ssSession e) = None
    | Some (t', effects) \<Rightarrow>
        (let told = (\<exists>parent k content. Steered parent k content (ssSession e) \<in> set effects)
         in (\<forall>j. getSessionRow t' j =
              (if j = ssSession e
               then map_option (\<lambda>row. row\<lparr>srSettlement := Some \<lparr>lsOutcome = settlementOutcome e,
                        lsOperation = Some (ssRunId e), lsSource = Some (ssSource e)\<rparr>,
                      srModel := (case ssModel e of
                          None \<Rightarrow> srModel row
                        | Some m \<Rightarrow> if rnProvider m = [] \<or> rnModelId m = [] then srModel row
                            else (Some (rnProvider m), Some (rnModelId m),
                              if ssThinking e = None then snd (snd (srModel row)) else ssThinking e)),
                      srFinished := \<not> (told \<or> runStartedBeforeTaskClosed t (ssSession e) (ssRunId e))\<rparr>)
                     (getSessionRow t j)
               else getSessionRow t j)) \<and> rtLanes t' = rtLanes t))"
proof (cases "runSettled w e t")
  case None
  then have "getSessionRow t (ssSession e) = None" by (simp add: runSettled_runs)
  with None show ?thesis by simp
next
  case (Some a)
  then obtain t' effects where run: "runSettled w e t = Some (t', effects)" by (cases a) simp
  obtain row where row: "getSessionRow t (ssSession e) = Some row"
    using run runSettled_runs [of w e t] by auto
  let ?told = "\<exists>parent k content. Steered parent k content (ssSession e) \<in> set effects"
  from run row obtain report where report: "settleReport w t e = Some (row, report)"
    and t': "t' = settleTransaction e (report \<noteq> None) t"
    and effects: "effects = (case report of None \<Rightarrow> [] | Some s \<Rightarrow> [s]) @ snd (settleCommit w e row (report \<noteq> None) t)"
    by (auto simp: runSettled_def settleReport_def settleCommit_def Let_def split: option.splits)
  have told: "?told = (report \<noteq> None)"
  proof -
    have "\<exists>parent k content. s = Steered parent k content (ssSession e)" if "report = Some s" for s
      using report that by (auto simp: settleReport_def reportToParent_def split: option.splits if_splits)
    moreover have "Steered parent k content i \<notin> set (snd (settleCommit w e row b t))" for parent k content i b
      by (auto simp: settleCommit_def Let_def notifyUpdated_def tellExtension_def split: option.splits if_splits runStatus.splits)
    ultimately show ?thesis by (cases report) (auto simp: effects)
  qed
  show ?thesis
    by (simp add: run Let_def told) (simp add: t' settled_row settle_simps)
qed

subsection \<open>The automatic resumes of a session\<close>

text \<open>The times at which a sequence of attempts was granted.\<close>

fun grantedResumes :: "string \<Rightarrow> int list \<Rightarrow> runTables \<Rightarrow> int list" where
  "grantedResumes session [] t = []"
| "grantedResumes session (now # nows) t =
     (case takeAutoResume session now t of
        (True, t') \<Rightarrow> now # grantedResumes session nows t'
      | (False, t') \<Rightarrow> grantedResumes session nows t')"

definition recentOf :: "int \<Rightarrow> int list \<Rightarrow> int list" where
  "recentOf now ts = filter (\<lambda>time. now - time < autoResumeWindowMs) ts"

lemma recentOf_later: "now \<le> later \<Longrightarrow> recentOf later (recentOf now xs) = recentOf later xs"
  by (auto simp: recentOf_def intro!: filter_cong)

lemma recentOf_suffix:
  assumes "List.sorted xs" "i < length xs" "now - xs ! i < autoResumeWindowMs"
  shows "length xs - i \<le> length (recentOf now xs)"
proof -
  have "recentOf now (drop i xs) = drop i xs"
    unfolding recentOf_def
  proof (rule filter_True, rule ballI)
    fix x assume "x \<in> set (drop i xs)"
    then obtain j where "j < length xs - i" "x = xs ! (i + j)" by (auto simp: in_set_conv_nth)
    then have "xs ! i \<le> x" using assms(1) by (auto intro: sorted_nth_mono)
    with assms(3) show "now - x < autoResumeWindowMs" by simp
  qed
  moreover have "recentOf now xs = recentOf now (take i xs) @ recentOf now (drop i xs)"
    unfolding recentOf_def by (metis append_take_drop_id filter_append)
  ultimately show ?thesis by simp
qed

text \<open>\<open>past\<close> is every grant so far: the row's list has the recent ones of it.\<close>

lemma grantedResumes_spaced:
  assumes "getSessionRow t s = Some row" "List.sorted past" "List.sorted (start # nows)" "\<forall>x\<in>set past. x \<le> start"
    "recentOf start (srResumes row) = recentOf start past"
    "\<forall>i j. i + autoResumeLimit \<le> j \<longrightarrow> j < length past \<longrightarrow> past ! i + autoResumeWindowMs \<le> past ! j"
  shows "\<forall>i j. i + autoResumeLimit \<le> j \<longrightarrow> j < length (past @ grantedResumes s nows t) \<longrightarrow>
    (past @ grantedResumes s nows t) ! i + autoResumeWindowMs \<le> (past @ grantedResumes s nows t) ! j"
  using assms
proof (induction nows arbitrary: t row past start)
  case (Cons now nows)
  let ?recent = "recentOf now (srResumes row)"
  let ?ok = "length ?recent < autoResumeLimit"
  let ?row = "row\<lparr>srResumes := if ?ok then ?recent @ [now] else ?recent\<rparr>"
  obtain t' where take: "takeAutoResume s now t = (?ok, t')" and row': "getSessionRow t' s = Some ?row"
    using Cons.prems(1) by (simp add: takeAutoResume_def Let_def recentOf_def settle_simps)
  have le: "start \<le> now" using Cons.prems(3) by simp
  have recent: "?recent = recentOf now past" by (metis recentOf_later [OF le] Cons.prems(5))
  have past_le: "\<forall>x\<in>set past. x \<le> now" using Cons.prems(4) le by auto
  show ?case
  proof (cases ?ok)
    case False
    then have "recentOf now (srResumes ?row) = recentOf now past"
      using recentOf_later [of now now] by (simp add: recent)
    with Cons.IH [OF row' Cons.prems(2) _ past_le _ Cons.prems(6)] Cons.prems(3) take False
    show ?thesis by simp
  next
    case True
    have spaced: "past ! i + autoResumeWindowMs \<le> now" if "i + autoResumeLimit \<le> length past" for i
    proof (rule ccontr)
      assume "\<not> ?thesis"
      moreover have "i < length past" using that by (simp add: autoResumeLimit_def)
      ultimately have "length past - i \<le> length (recentOf now past)" by (intro recentOf_suffix Cons.prems(2)) simp_all
      with True that show False by (simp add: recent)
    qed
    have "recentOf now (srResumes ?row) = recentOf now (past @ [now])"
      using True recent [unfolded recentOf_def] by (simp add: recentOf_def)
    moreover have "List.sorted (past @ [now])" using Cons.prems(2) past_le by (simp add: sorted_append)
    moreover have "\<forall>i j. i + autoResumeLimit \<le> j \<longrightarrow> j < length (past @ [now]) \<longrightarrow>
        (past @ [now]) ! i + autoResumeWindowMs \<le> (past @ [now]) ! j"
      using Cons.prems(6) spaced by (auto simp: nth_append less_Suc_eq autoResumeLimit_def)
    moreover have "List.sorted (now # nows)" using Cons.prems(3) by simp
    ultimately show ?thesis
      using Cons.IH [OF row', of "past @ [now]" now] past_le take True by auto
  qed
qed simp

text \<open>C13: A session's run is resumed automatically at most three times in any ten minutes, whenever the attempts
  come (in the order of the clock): a grant and the third one after it are ten minutes apart. An attempt with
  fewer than three recorded in the last ten minutes is granted.\<close>
theorem auto_resume_budget:
  assumes "getSessionRow t s = Some row" "srResumes row = []" "List.sorted nows" "i + 3 \<le> j" "j < length (grantedResumes s nows t)"
  shows "grantedResumes s nows t ! i + 600000 \<le> grantedResumes s nows t ! j"
proof -
  obtain start where "List.sorted (start # nows)" using assms(3) by (cases nows) auto
  then show ?thesis
    using grantedResumes_spaced [OF assms(1), of "[]" start nows] assms(2,4,5)
    by (simp add: autoResumeLimit_def autoResumeWindowMs_def)
qed

theorem auto_resume_budget_witness:
  "grantedResumes ''s'' [0, 10, 20, 30, 600000] demoTables = [0, 10, 20, 600000] \<and>
   grantedResumes ''s'' [0, 10, 20, 30, 600000] demoTables ! 0 + 600000
     \<le> grantedResumes ''s'' [0, 10, 20, 30, 600000] demoTables ! 3"
proof -
  have g: "grantedResumes ''s'' [0, 10, 20, 30, 600000] demoTables = [0, 10, 20, 600000]"
    by (simp add: takeAutoResume_def getSessionRow_def updateSessionRow_def demoTables_def demoRow_def Let_def
        autoResumeLimit_def autoResumeWindowMs_def)
  show ?thesis
    using auto_resume_budget [OF demo_pending(3), of "[0, 10, 20, 30, 600000]" 0 3] g by (simp add: demoRow_def)
qed

subsection \<open>Waiting\<close>

definition lookAtRest :: "string list \<Rightarrow> waitLook \<Rightarrow> bool" where
  "lookAtRest inputs k = (\<not> wkBusy k \<and> (\<forall>i\<in>set inputs. i \<notin> set (wkQueued k)))"

definition lookReply :: "string \<Rightarrow> waitLook \<Rightarrow> waitResult" where
  "lookReply session k = replyResult (finalReply (wkMessages k)) (lastRunOutcome (wkTables k) session)"

text \<open>A wait for a session that stays known and is not aborted answers at its first look that finds the session at
  rest, with that look's reply and last outcome, or the deadline past, then \<open>timeout\<close>; and goes on otherwise.\<close>
theorem wait_answers_first_rest:
  assumes "\<forall>k\<in>set looks. getSessionRow (wkTables k) session \<noteq> None \<and> \<not> wkAborts k"
  shows "waitForSettlement session deadline inputs looks =
    (case find (\<lambda>k. lookAtRest inputs k \<or> deadline \<le> wkNow k) looks of
       None \<Rightarrow> StillWaiting
     | Some k \<Rightarrow> WaitAnswered (if lookAtRest inputs k then lookReply session k else timeoutResult))"
  using assms
  by (induction looks) (auto simp: lookAtRest_def lookReply_def list_all_iff)

theorem wait_answers_first_rest_witness:
  "waitForSettlement ''s'' 100 [''i'']
     [\<lparr>wkNow = 0, wkTables = demoTables, wkMessages = [], wkBusy = True, wkQueued = [], wkAborts = False\<rparr>,
      \<lparr>wkNow = 50, wkTables = demoTables, wkMessages = [], wkBusy = False, wkQueued = [''i''], wkAborts = False\<rparr>,
      \<lparr>wkNow = 100, wkTables = demoTables, wkMessages = [], wkBusy = True, wkQueued = [], wkAborts = False\<rparr>]
   = WaitAnswered timeoutResult"
  by (subst wait_answers_first_rest) (simp_all add: demo_pending lookAtRest_def)

subsection \<open>A report's name\<close>

lemma append_colon_inject:
  assumes "CHR '':'' \<notin> set a" "CHR '':'' \<notin> set b" "a @ CHR '':'' # x = b @ CHR '':'' # y"
  shows "a = b \<and> x = y"
  using assms
proof (induction a arbitrary: b)
  case Nil
  then show ?case by (cases b) auto
next
  case (Cons c a)
  then show ?case by (cases b) auto
qed

text \<open>the name a child's report is steered under determines the child, Pi's operation and who ended it, for
  identifiers without a colon: Reins' end of an operation and Pi's later one are two reports.\<close>
theorem child_report_key_inject:
  assumes "CHR '':'' \<notin> set c \<union> set op \<union> set c' \<union> set op'"
  shows "childReportKey c op source = childReportKey c' op' source' \<longleftrightarrow> c = c' \<and> op = op' \<and> source = source'"
proof
  assume "childReportKey c op source = childReportKey c' op' source'"
  then have eq: "c @ CHR '':'' # op @ (if source = ByReins then '':interrupted'' else []) =
    c' @ CHR '':'' # op' @ (if source' = ByReins then '':interrupted'' else [])"
    by (simp add: childReportKey_def)
  have "c = c' \<and> op @ (if source = ByReins then '':interrupted'' else []) = op' @ (if source' = ByReins then '':interrupted'' else [])"
    by (rule append_colon_inject [OF _ _ eq]) (use assms in simp_all)
  then have "c = c'" and rest: "op @ (if source = ByReins then '':interrupted'' else []) =
      op' @ (if source' = ByReins then '':interrupted'' else [])"
    by blast+
  have "source = source'"
  proof (rule ccontr)
    assume "source \<noteq> source'"
    then have "CHR '':'' \<in> set op \<or> CHR '':'' \<in> set op'"
      using rest by (cases source; cases source') (auto dest: arg_cong [where f = set])
    with assms show False by auto
  qed
  with \<open>c = c'\<close> rest show "c = c' \<and> op = op' \<and> source = source'" by (auto split: if_splits)
qed simp

theorem child_report_key_inject_witness:
  "childReportKey ''a'' ''b'' ByPi \<noteq> childReportKey ''a'' ''b'' ByReins"
  using child_report_key_inject [of "''a''" "''b''" "''a''" "''b''" ByPi ByReins] by simp

end
