(* ===== verification/Live_Runtimes.thy ===== *)
theory Live_Runtimes
  imports Reins_Prelude
begin

text \<open>
  The live runtimes of sessions: \<^verbatim>\<open>packages/backend/src/session-runtime/live.ts\<close> with the process's maps
  \<open>OpenSessions\<close>. An opening is synchronous up to its first \<open>await\<close> (it has registered itself by then); then
  it waits for the old runtime's close, then builds. What building answers, whether a runtime streams, which
  binding the session's rows give and whether another app's code is current are inputs. Runtimes and openings
  are numbered by their positions in \<open>osRuntimes\<close> and \<open>osOpenings\<close>.
\<close>

subsection \<open>State\<close>

record liveRuntime =
  lrSession :: string
  lrClosing :: bool

record openSession =
  oeRuntime :: nat
  oeBinding :: string
  oeLastActivity :: int
  oeRetired :: bool
  oeFaulted :: bool

datatype openingStage =
    ClosingOld
  | Building
  | Opened nat
  | OpeningFailed string

record openingTask =
  otSession :: string
  otBinding :: string
  otStage :: openingStage

record openSessions =
  osLive :: "(string, openSession) jsmap"
  osOpening :: "(string, nat) jsmap"
  osOpenings :: "openingTask list"
  osRuntimes :: "liveRuntime list"

datatype openAnswer =
    UseRuntime nat
  | AwaitOpening nat
  | OpenThrows string

definition emptySessions :: openSessions where
  "emptySessions = \<lparr>osLive = [], osOpening = [], osOpenings = [], osRuntimes = []\<rparr>"

definition runtimeBusy :: "string \<Rightarrow> string" where
  "runtimeBusy s = ''Session '' @ s @ '' is running under another binding''"

definition closeRuntime :: "nat \<Rightarrow> openSessions \<Rightarrow> openSessions" where
  "closeRuntime r os = (if r < length (osRuntimes os)
     then os\<lparr>osRuntimes := (osRuntimes os)[r := (osRuntimes os ! r)\<lparr>lrClosing := True\<rparr>]\<rparr> else os)"

definition setStage :: "nat \<Rightarrow> openingStage \<Rightarrow> openSessions \<Rightarrow> openSessions" where
  "setStage i st os = (if i < length (osOpenings os)
     then os\<lparr>osOpenings := (osOpenings os)[i := (osOpenings os ! i)\<lparr>otStage := st\<rparr>]\<rparr> else os)"

subsection \<open>Opening\<close>

text \<open>The opening up to its first \<open>await\<close>: the stage it is in, and the maps it leaves.\<close>

definition beginOpening :: "string \<Rightarrow> string \<Rightarrow> (nat \<Rightarrow> bool) \<Rightarrow> int \<Rightarrow> openSessions \<Rightarrow> openingStage \<times> openSessions" where
  "beginOpening s binding streaming now os =
     (case jmGet (osLive os) s of
        Some existing \<Rightarrow>
          if \<not> oeFaulted existing \<and> streaming (oeRuntime existing)
          then (if oeBinding existing \<noteq> binding then (OpeningFailed (runtimeBusy s), os)
                else (Opened (oeRuntime existing), os\<lparr>osLive := jmSet s (existing\<lparr>oeLastActivity := now\<rparr>) (osLive os)\<rparr>))
          else (ClosingOld, closeRuntime (oeRuntime existing) (os\<lparr>osLive := jmDelete s (osLive os)\<rparr>))
      | None \<Rightarrow> (Building, os))"

text \<open>The binding is the one the session's rows give, or the error of reading or checking them.\<close>

definition openSessionRuntime ::
  "string \<Rightarrow> string + string \<Rightarrow> (nat \<Rightarrow> bool) \<Rightarrow> int \<Rightarrow> openSessions \<Rightarrow> openAnswer \<times> openSessions" where
  "openSessionRuntime s row streaming now os =
     (case row of
        Inl e \<Rightarrow> (OpenThrows e, os)
      | Inr binding \<Rightarrow>
          (let start = (case jmGet (osOpening os) s of
                  Some i \<Rightarrow> (AwaitOpening i, os)
                | None \<Rightarrow>
                    (let (st, os1) = beginOpening s binding streaming now os;
                         i = length (osOpenings os1)
                     in (AwaitOpening i,
                         os1\<lparr>osOpenings := osOpenings os1 @ [\<lparr>otSession = s, otBinding = binding, otStage = st\<rparr>],
                            osOpening := jmSet s i (osOpening os1)\<rparr>)))
           in case jmGet (osLive os) s of
                Some current \<Rightarrow>
                  if oeBinding current = binding \<and> \<not> oeRetired current \<and> \<not> oeFaulted current
                  then (UseRuntime (oeRuntime current),
                        os\<lparr>osLive := jmSet s (current\<lparr>oeLastActivity := now\<rparr>) (osLive os)\<rparr>)
                  else start
              | None \<Rightarrow> start))"

text \<open>Its continuations: the old runtime closed (or failed to), the new one was built, building failed, and the
  \<open>finally\<close> of the settled opening.\<close>

definition oldClosed :: "nat \<Rightarrow> openSessions \<Rightarrow> openSessions" where
  "oldClosed i os = setStage i Building os"

definition runtimeBuilt :: "nat \<Rightarrow> int \<Rightarrow> bool \<Rightarrow> openSessions \<Rightarrow> openSessions" where
  "runtimeBuilt i now retired os =
     (let t = osOpenings os ! i; r = length (osRuntimes os);
          os1 = os\<lparr>osRuntimes := osRuntimes os @ [\<lparr>lrSession = otSession t, lrClosing = False\<rparr>],
                 osLive := jmSet (otSession t) \<lparr>oeRuntime = r, oeBinding = otBinding t, oeLastActivity = now,
                   oeRetired = retired, oeFaulted = False\<rparr> (osLive os)\<rparr>
      in setStage i (Opened r) os1)"

definition buildFailed :: "nat \<Rightarrow> string \<Rightarrow> openSessions \<Rightarrow> openSessions" where
  "buildFailed i e os = setStage i (OpeningFailed e) os"

definition openingSettled :: "nat \<Rightarrow> openSessions \<Rightarrow> openSessions" where
  "openingSettled i os =
     (let s = otSession (osOpenings os ! i)
      in if jmGet (osOpening os) s = Some i then os\<lparr>osOpening := jmDelete s (osOpening os)\<rparr> else os)"

subsection \<open>Closing, faults, reloads\<close>

text \<open>\<open>closeSessionRuntime\<close> once the opening it found has settled; a storage fault of a runtime; a reload retires
  every runtime.\<close>

definition closeSessionRuntime :: "string \<Rightarrow> openSessions \<Rightarrow> openSessions" where
  "closeSessionRuntime s os =
     (case jmGet (osLive os) s of
        None \<Rightarrow> os
      | Some entry \<Rightarrow> closeRuntime (oeRuntime entry) (os\<lparr>osLive := jmDelete s (osLive os)\<rparr>))"

definition liveSessionRuntime :: "string \<Rightarrow> openSessions \<Rightarrow> nat option" where
  "liveSessionRuntime s os = map_option oeRuntime (jmGet (osLive os) s)"

definition runtimeFaulted :: "string \<Rightarrow> openSessions \<Rightarrow> openSessions" where
  "runtimeFaulted s os =
     (case jmGet (osLive os) s of None \<Rightarrow> os | Some entry \<Rightarrow> os\<lparr>osLive := jmSet s (entry\<lparr>oeFaulted := True\<rparr>) (osLive os)\<rparr>)"

definition retireRuntimes :: "openSessions \<Rightarrow> openSessions" where
  "retireRuntimes os = os\<lparr>osLive := map (\<lambda>(s, entry). (s, entry\<lparr>oeRetired := True\<rparr>)) (osLive os)\<rparr>"

text \<open>\<open>withSessionRuntime\<close>: what its first open and use gave, whether the runtime was faulted then, and what a second
  would give.\<close>

definition withSessionRuntime :: "string + 'a \<Rightarrow> bool \<Rightarrow> string + 'a \<Rightarrow> string + 'a" where
  "withSessionRuntime attempt faulted again =
     (case attempt of Inr x \<Rightarrow> Inr x | Inl e \<Rightarrow> if \<not> faulted then Inl e else again)"

subsection \<open>Steps\<close>

datatype liveEvent =
    Opens string "string + string" "nat \<Rightarrow> bool" int
  | OldCloses nat
  | Builds nat int bool
  | BuildFails nat string
  | Settles nat
  | Closes string
  | Faults string
  | Retires

definition stageAt :: "openSessions \<Rightarrow> nat \<Rightarrow> (openingStage \<Rightarrow> bool) \<Rightarrow> bool" where
  "stageAt os i P = (i < length (osOpenings os) \<and> P (otStage (osOpenings os ! i)))"

definition unsettled :: "openingStage \<Rightarrow> bool" where
  "unsettled st = (st = ClosingOld \<or> st = Building)"

inductive liveStep :: "openSessions \<Rightarrow> liveEvent \<Rightarrow> openSessions \<Rightarrow> bool" where
  opens: "liveStep os (Opens s row streaming now) (snd (openSessionRuntime s row streaming now os))"
| old_closes: "stageAt os i (\<lambda>st. st = ClosingOld) \<Longrightarrow> liveStep os (OldCloses i) (oldClosed i os)"
| builds: "stageAt os i (\<lambda>st. st = Building) \<Longrightarrow> liveStep os (Builds i now retired) (runtimeBuilt i now retired os)"
| build_fails: "stageAt os i (\<lambda>st. st = Building) \<Longrightarrow> liveStep os (BuildFails i e) (buildFailed i e os)"
| settles: "stageAt os i (\<lambda>st. \<not> unsettled st) \<Longrightarrow> liveStep os (Settles i) (openingSettled i os)"
| closes: "liveStep os (Closes s) (closeSessionRuntime s os)"
| faults: "liveStep os (Faults s) (runtimeFaulted s os)"
| retires: "liveStep os Retires (retireRuntimes os)"

inductive liveReachable :: "openSessions \<Rightarrow> bool" where
  live_started: "liveReachable emptySessions"
| live_stepped: "liveReachable os \<Longrightarrow> liveStep os ev os' \<Longrightarrow> liveReachable os'"

inductive_cases liveStepE: "liveStep os ev os'"

end
