(* ===== verification/Live_Laws.thy ===== *)
theory Live_Laws
  imports Live_Runtimes
begin

text \<open>
  A session has one runtime: concurrent opens share one opening, an opening never replaces a live runtime, and
  every runtime built is the live one of its session or told to close.
\<close>

subsection \<open>The invariant\<close>

definition liveHeld :: "openSessions \<Rightarrow> bool" where
  "liveHeld os = (\<forall>s e. jmGet (osLive os) s = Some e \<longrightarrow> oeRuntime e < length (osRuntimes os) \<and>
     lrSession (osRuntimes os ! oeRuntime e) = s \<and> \<not> lrClosing (osRuntimes os ! oeRuntime e))"

definition noneLeaked :: "openSessions \<Rightarrow> bool" where
  "noneLeaked os = (\<forall>r<length (osRuntimes os). \<not> lrClosing (osRuntimes os ! r) \<longrightarrow>
     liveSessionRuntime (lrSession (osRuntimes os ! r)) os = Some r)"

definition openingsHeld :: "openSessions \<Rightarrow> bool" where
  "openingsHeld os = ((\<forall>s i. jmGet (osOpening os) s = Some i \<longrightarrow> i < length (osOpenings os) \<and> otSession (osOpenings os ! i) = s) \<and>
     (\<forall>i<length (osOpenings os). unsettled (otStage (osOpenings os ! i)) \<longrightarrow>
        jmGet (osOpening os) (otSession (osOpenings os ! i)) = Some i \<and> jmGet (osLive os) (otSession (osOpenings os ! i)) = None))"

definition liveInv :: "openSessions \<Rightarrow> bool" where
  "liveInv os = (liveHeld os \<and> noneLeaked os \<and> openingsHeld os)"

lemmas liveInv_defs = liveInv_def liveHeld_def noneLeaked_def openingsHeld_def liveSessionRuntime_def

lemma liveInv_empty: "liveInv emptySessions"
  by (simp add: liveInv_defs emptySessions_def)

text \<open>Writing an entry that keeps its runtime.\<close>

lemma entry_inv:
  assumes "liveInv os" "jmGet (osLive os) s = Some e" "oeRuntime e' = oeRuntime e"
  shows "liveInv (os\<lparr>osLive := jmSet s e' (osLive os)\<rparr>)"
proof -
  have l: "jmGet (jmSet s e' (osLive os)) t = (if t = s then Some e' else jmGet (osLive os) t)" for t by simp
  have "liveSessionRuntime t (os\<lparr>osLive := jmSet s e' (osLive os)\<rparr>) = liveSessionRuntime t os" for t
    using assms by (simp add: liveSessionRuntime_def)
  then have "noneLeaked (os\<lparr>osLive := jmSet s e' (osLive os)\<rparr>)" using assms(1) by (simp add: liveInv_def noneLeaked_def)
  moreover have "liveHeld (os\<lparr>osLive := jmSet s e' (osLive os)\<rparr>)"
    using assms unfolding liveInv_def liveHeld_def by (auto split: if_splits)
  moreover have "openingsHeld (os\<lparr>osLive := jmSet s e' (osLive os)\<rparr>)"
    using assms unfolding liveInv_def openingsHeld_def by auto
  ultimately show ?thesis by (simp add: liveInv_def)
qed

text \<open>Removing the entry of a session closes its runtime.\<close>

lemma drop_inv:
  assumes inv: "liveInv os" and e: "jmGet (osLive os) s = Some e"
  shows "liveInv (closeRuntime (oeRuntime e) (os\<lparr>osLive := jmDelete s (osLive os)\<rparr>))" (is "liveInv ?os")
proof -
  let ?r = "oeRuntime e"
  have held: "oeRuntime x < length (osRuntimes os) \<and> lrSession (osRuntimes os ! oeRuntime x) = t \<and> \<not> lrClosing (osRuntimes os ! oeRuntime x)"
    if "jmGet (osLive os) t = Some x" for t x
    using inv that unfolding liveInv_def liveHeld_def by blast
  then have r: "?r < length (osRuntimes os)" "lrSession (osRuntimes os ! ?r) = s" using e by blast+
  let ?n = "os\<lparr>osLive := jmDelete s (osLive os), osRuntimes := (osRuntimes os)[?r := (osRuntimes os ! ?r)\<lparr>lrClosing := True\<rparr>]\<rparr>"
  have os': "?os = ?n"
    using r by (simp add: closeRuntime_def)
  have "liveHeld ?os"
    unfolding liveHeld_def os'
  proof (intro allI impI)
    fix t x assume "jmGet (osLive ?n) t = Some x"
    then have t: "t \<noteq> s" "jmGet (osLive os) t = Some x" by (simp_all split: if_splits)
    with held [OF t(2)] r have "oeRuntime x \<noteq> ?r" by auto
    with held [OF t(2)] show "oeRuntime x < length (osRuntimes ?n) \<and>
        lrSession (osRuntimes ?n ! oeRuntime x) = t \<and>
        \<not> lrClosing (osRuntimes ?n ! oeRuntime x)"
      by simp
  qed
  moreover have "noneLeaked ?os"
    unfolding noneLeaked_def os'
  proof (intro allI impI)
    fix q assume "q < length (osRuntimes ?n)"
      "\<not> lrClosing (osRuntimes ?n ! q)"
    then have q: "q < length (osRuntimes os)" "q \<noteq> ?r" "\<not> lrClosing (osRuntimes os ! q)"
      using r by (auto simp: nth_list_update split: if_splits)
    then have "liveSessionRuntime (lrSession (osRuntimes os ! q)) os = Some q"
      using inv unfolding liveInv_def noneLeaked_def by blast
    with q e show "liveSessionRuntime (lrSession (osRuntimes ?n ! q))
        ?n = Some q"
      by (auto simp: liveSessionRuntime_def)
  qed
  moreover have "openingsHeld ?os" using inv unfolding os' liveInv_def openingsHeld_def by auto
  ultimately show ?thesis by (simp add: liveInv_def)
qed


subsection \<open>Each step keeps it\<close>

text \<open>A new opening of a session that has none in progress; it is settled already, or the session has no live entry.\<close>

lemma task_inv:
  assumes inv: "liveInv os" and none: "jmGet (osOpening os) s = None" and st: "unsettled st \<longrightarrow> jmGet (osLive os) s = None"
  shows "liveInv (os\<lparr>osOpenings := osOpenings os @ [\<lparr>otSession = s, otBinding = b, otStage = st\<rparr>],
    osOpening := jmSet s (length (osOpenings os)) (osOpening os)\<rparr>)" (is "liveInv ?n")
proof -
  have o1: "jmGet (osOpening os) t = Some i \<Longrightarrow> i < length (osOpenings os) \<and> otSession (osOpenings os ! i) = t" for t i
    using inv unfolding liveInv_def openingsHeld_def by blast
  have o2: "i < length (osOpenings os) \<Longrightarrow> unsettled (otStage (osOpenings os ! i)) \<Longrightarrow>
      jmGet (osOpening os) (otSession (osOpenings os ! i)) = Some i \<and> jmGet (osLive os) (otSession (osOpenings os ! i)) = None" for i
    using inv unfolding liveInv_def openingsHeld_def by blast
  have "openingsHeld ?n"
    unfolding openingsHeld_def
  proof (intro conjI allI impI)
    fix t i assume a: "jmGet (osOpening ?n) t = Some i"
    show "i < length (osOpenings ?n)" "otSession (osOpenings ?n ! i) = t"
      using a o1 [of t i] by (auto simp: nth_append split: if_splits)
  next
    fix i assume i: "i < length (osOpenings ?n)" "unsettled (otStage (osOpenings ?n ! i))"
    show "jmGet (osOpening ?n) (otSession (osOpenings ?n ! i)) = Some i" "jmGet (osLive ?n) (otSession (osOpenings ?n ! i)) = None"
      using i o2 [of i] none st by (auto simp: nth_append less_Suc_eq split: if_splits)
  qed
  moreover have "liveHeld ?n" "noneLeaked ?n" using inv by (simp_all add: liveInv_defs)
  ultimately show ?thesis by (simp add: liveInv_def)
qed

lemma closeRuntime_fields:
  "osLive (closeRuntime r os) = osLive os" "osOpening (closeRuntime r os) = osOpening os"
  "osOpenings (closeRuntime r os) = osOpenings os"
  by (simp_all add: closeRuntime_def)

lemma begin_inv:
  assumes inv: "liveInv os" and b: "beginOpening s binding streaming now os = (st, os')"
  shows "liveInv os'" "unsettled st \<longrightarrow> jmGet (osLive os') s = None" "osOpening os' = osOpening os" "osOpenings os' = osOpenings os"
  using b entry_inv [OF inv] drop_inv [OF inv] inv
  by (auto simp: beginOpening_def unsettled_def closeRuntime_fields split: option.splits if_splits)

lemma opens_inv:
  assumes inv: "liveInv os"
  shows "liveInv (snd (openSessionRuntime s row streaming now os))"
proof (cases row)
  case (Inl e)
  with inv show ?thesis by (simp add: openSessionRuntime_def)
next
  case (Inr binding)
  obtain st os1 where b: "beginOpening s binding streaming now os = (st, os1)" by (rule prod.exhaust)
  have "liveInv (os1\<lparr>osOpenings := osOpenings os1 @ [\<lparr>otSession = s, otBinding = binding, otStage = st\<rparr>],
      osOpening := jmSet s (length (osOpenings os1)) (osOpening os1)\<rparr>)" if "jmGet (osOpening os) s = None"
    using begin_inv [OF inv b] that by (intro task_inv) simp_all
  with inv entry_inv [OF inv] show ?thesis
    by (auto simp: openSessionRuntime_def Inr Let_def b split: option.splits)
qed

lemma setStage_inv:
  assumes inv: "liveInv os" and st: "unsettled st \<longrightarrow> stageAt os i unsettled"
  shows "liveInv (setStage i st os)"
proof -
  have "openingsHeld (setStage i st os)"
    using inv st unfolding liveInv_def openingsHeld_def setStage_def stageAt_def by (auto simp: nth_list_update)
  with inv show ?thesis by (simp add: liveInv_defs setStage_def)
qed

lemma built_inv:
  assumes inv: "liveInv os" and at: "stageAt os i (\<lambda>st. st = Building)"
  shows "liveInv (runtimeBuilt i now retired os)"
proof -
  define s where "s = otSession (osOpenings os ! i)"
  define e where "e = \<lparr>oeRuntime = length (osRuntimes os), oeBinding = otBinding (osOpenings os ! i), oeLastActivity = now,
    oeRetired = retired, oeFaulted = False\<rparr>"
  let ?n = "os\<lparr>osRuntimes := osRuntimes os @ [\<lparr>lrSession = s, lrClosing = False\<rparr>], osLive := jmSet s e (osLive os),
    osOpenings := (osOpenings os)[i := (osOpenings os ! i)\<lparr>otStage := Opened (length (osRuntimes os))\<rparr>]\<rparr>"
  have i: "i < length (osOpenings os)" "unsettled (otStage (osOpenings os ! i))" using at by (auto simp: stageAt_def unsettled_def)
  have n: "runtimeBuilt i now retired os = ?n" using i by (simp add: runtimeBuilt_def setStage_def Let_def s_def e_def)
  have o2: "j < length (osOpenings os) \<Longrightarrow> unsettled (otStage (osOpenings os ! j)) \<Longrightarrow>
      jmGet (osOpening os) (otSession (osOpenings os ! j)) = Some j \<and> jmGet (osLive os) (otSession (osOpenings os ! j)) = None" for j
    using inv unfolding liveInv_def openingsHeld_def by blast
  have free: "jmGet (osLive os) s = None" "jmGet (osOpening os) s = Some i" using o2 [OF i] by (simp_all add: s_def)
  have "openingsHeld ?n"
    unfolding openingsHeld_def
  proof (intro conjI allI impI)
    fix t j assume a: "jmGet (osOpening ?n) t = Some j"
    then have "j < length (osOpenings os) \<and> otSession (osOpenings os ! j) = t"
      using inv unfolding liveInv_def openingsHeld_def by simp
    then show "j < length (osOpenings ?n)" "otSession (osOpenings ?n ! j) = t" using i(1) by (auto simp: nth_list_update)
  next
    fix j assume j: "j < length (osOpenings ?n)" "unsettled (otStage (osOpenings ?n ! j))"
    then have "j \<noteq> i" using i by (auto simp: unsettled_def)
    with j have "j < length (osOpenings os)" "unsettled (otStage (osOpenings os ! j))" by simp_all
    with o2 [of j] free \<open>j \<noteq> i\<close> show "jmGet (osOpening ?n) (otSession (osOpenings ?n ! j)) = Some j"
      "jmGet (osLive ?n) (otSession (osOpenings ?n ! j)) = None" by auto
  qed
  moreover have "liveHeld ?n"
    using inv unfolding liveInv_def liveHeld_def by (auto simp: nth_append e_def dest: less_SucI split: if_splits)
  moreover have "noneLeaked ?n"
    unfolding noneLeaked_def
  proof (intro allI impI)
    fix r assume r: "r < length (osRuntimes ?n)" "\<not> lrClosing (osRuntimes ?n ! r)"
    show "liveSessionRuntime (lrSession (osRuntimes ?n ! r)) ?n = Some r"
    proof (cases "r = length (osRuntimes os)")
      case True
      then show ?thesis by (simp add: liveSessionRuntime_def e_def)
    next
      case False
      with r have "r < length (osRuntimes os)" "\<not> lrClosing (osRuntimes os ! r)" by (auto simp: nth_append split: if_splits)
      then have "liveSessionRuntime (lrSession (osRuntimes os ! r)) os = Some r"
        using inv unfolding liveInv_def noneLeaked_def by blast
      with free \<open>r < length (osRuntimes os)\<close> show ?thesis by (auto simp: liveSessionRuntime_def nth_append)
    qed
  qed
  ultimately show ?thesis unfolding n by (simp add: liveInv_def)
qed

lemma settled_inv:
  assumes inv: "liveInv os" and at: "stageAt os i (\<lambda>st. \<not> unsettled st)"
  shows "liveInv (openingSettled i os)"
proof -
  have "openingsHeld (os\<lparr>osOpening := jmDelete s (osOpening os)\<rparr>)" if "jmGet (osOpening os) s = Some i" for s
    using inv at that unfolding liveInv_def openingsHeld_def stageAt_def by auto
  with inv show ?thesis by (auto simp: openingSettled_def Let_def liveInv_def liveHeld_def noneLeaked_def liveSessionRuntime_def)
qed

lemma retire_get:
  "jmGet (map (\<lambda>(s, entry). (s, entry\<lparr>oeRetired := True\<rparr>)) m) t = map_option (\<lambda>e. e\<lparr>oeRetired := True\<rparr>) (jmGet m t)"
  by (induction m) auto

lemma retire_inv: "liveInv os \<Longrightarrow> liveInv (retireRuntimes os)"
  unfolding liveInv_defs retireRuntimes_def by (auto simp: retire_get option.map_comp comp_def)

lemma liveInv_step:
  assumes inv: "liveInv os" and step: "liveStep os ev os'"
  shows "liveInv os'"
  using step
proof cases
  case (old_closes i)
  with inv show ?thesis by (auto simp: oldClosed_def stageAt_def unsettled_def intro!: setStage_inv)
next
  case (build_fails i e)
  with inv show ?thesis by (auto simp: buildFailed_def unsettled_def intro!: setStage_inv)
next
  case (closes s)
  with inv drop_inv [OF inv] show ?thesis by (auto simp: closeSessionRuntime_def split: option.splits)
next
  case (faults s)
  with inv entry_inv [OF inv] show ?thesis by (auto simp: runtimeFaulted_def split: option.splits)
qed (simp_all add: inv opens_inv built_inv settled_inv retire_inv)

lemma liveInv_reachable: "liveReachable os \<Longrightarrow> liveInv os"
  by (induction rule: liveReachable.induct) (auto intro: liveInv_empty liveInv_step)

subsection \<open>The properties\<close>


definition demoLive :: openSessions where
  "demoLive = runtimeBuilt 0 5 False (snd (openSessionRuntime ''s'' (Inr ''b'') (\<lambda>r. False) 0 emptySessions))"

lemmas demo_live_simps = demoLive_def runtimeBuilt_def openSessionRuntime_def beginOpening_def emptySessions_def setStage_def
  Let_def stageAt_def liveSessionRuntime_def

lemma demoLive_reachable: "liveReachable demoLive"
  unfolding demoLive_def
  by (rule live_stepped [OF live_stepped [OF live_started opens] builds]) (simp add: demo_live_simps)


text \<open>What an open answers: a runtime it hands out at once is the session's live one, runs under the binding the rows
  give, and is neither retired nor faulted; otherwise, while an opening of the session is in progress, every open
  waits for that same one and changes nothing.\<close>
theorem opens_share_one_opening:
  assumes "liveReachable os"
  shows "(\<forall>r os'. openSessionRuntime s (Inr b) streaming now os = (UseRuntime r, os') \<longrightarrow>
            (\<exists>e. jmGet (osLive os) s = Some e \<and> oeRuntime e = r \<and> oeBinding e = b \<and> \<not> oeRetired e \<and> \<not> oeFaulted e)) \<and>
         (\<forall>i. stageAt os i unsettled \<and> otSession (osOpenings os ! i) = s \<longrightarrow>
            openSessionRuntime s (Inr b) streaming now os = (AwaitOpening i, os))"
proof -
  have inv: "liveInv os" using assms by (rule liveInv_reachable)
  have "jmGet (osOpening os) s = Some i \<and> jmGet (osLive os) s = None"
    if "stageAt os i unsettled" "otSession (osOpenings os ! i) = s" for i
    using inv that unfolding liveInv_def openingsHeld_def stageAt_def by auto
  moreover have "\<exists>e. jmGet (osLive os) s = Some e \<and> oeRuntime e = r \<and> oeBinding e = b \<and> \<not> oeRetired e \<and> \<not> oeFaulted e"
    if "openSessionRuntime s (Inr b) streaming now os = (UseRuntime r, os')" for r os'
    using that by (auto simp: openSessionRuntime_def Let_def split: option.splits if_splits prod.splits)
  ultimately show ?thesis by (auto simp: openSessionRuntime_def Let_def)
qed

theorem opens_share_one_opening_witness:
  "fst (openSessionRuntime ''s'' (Inr ''c'') (\<lambda>r. False) 1 (snd (openSessionRuntime ''s'' (Inr ''b'') (\<lambda>r. False) 0 emptySessions)))
     = AwaitOpening 0"
proof -
  let ?os = "snd (openSessionRuntime ''s'' (Inr ''b'') (\<lambda>r. False) 0 emptySessions)"
  have "liveReachable ?os" by (rule live_stepped [OF live_started opens])
  moreover have "stageAt ?os 0 unsettled \<and> otSession (osOpenings ?os ! 0) = ''s''"
    by (simp add: demo_live_simps unsettled_def)
  ultimately show ?thesis using opens_share_one_opening [of ?os "''s''" "''c''"] by (metis fst_conv)
qed

end
