(* ===== verification/Sendable_Events.thy ===== *)
theory Sendable_Events
  imports Reins_Prelude
begin

text \<open>
  Live events as browsers get them: the image blocks of an event and the placeholder put in their place
  (\<^verbatim>\<open>packages/backend/src/session-runtime/events.ts\<close>). An event is a JSON value. The schema of an image reference
  (\<open>imageReference\<close>) is a parameter; serialisation is left out: what is proved is about the value serialised.
  Its law: the value sent holds exactly the image blocks that are references.
\<close>

subsection \<open>Image blocks\<close>

definition isImage :: "json \<Rightarrow> bool" where
  "isImage v = (case v of JObj fields \<Rightarrow> map_of fields ''type'' = Some (JStr ''image'') | _ \<Rightarrow> False)"

text \<open>\<open>visit\<close> of \<open>contentImages\<close>: the flag says that the value is an array under the name \<open>content\<close>.\<close>

fun visitImages :: "bool \<Rightarrow> json \<Rightarrow> json list" where
  "visitImages inContent (JArr items) =
     concat (map (\<lambda>item. if inContent \<and> isImage item then [item] else visitImages False item) items)"
| "visitImages inContent (JObj fields) =
     concat (map (\<lambda>(k, child). visitImages (k = ''content'' \<and> (case child of JArr xs \<Rightarrow> True | _ \<Rightarrow> False)) child) fields)"
| "visitImages inContent v = []"

definition contentImages :: "json \<Rightarrow> json list" where
  "contentImages v = visitImages False v"

fun visitMap :: "(json \<Rightarrow> json) \<Rightarrow> bool \<Rightarrow> json \<Rightarrow> json" where
  "visitMap f inContent (JArr items) =
     JArr (map (\<lambda>item. if inContent \<and> isImage item then f item else visitMap f False item) items)"
| "visitMap f inContent (JObj fields) =
     JObj (map (\<lambda>(k, child). (k, visitMap f (k = ''content'' \<and> (case child of JArr xs \<Rightarrow> True | _ \<Rightarrow> False)) child)) fields)"
| "visitMap f inContent v = v"

definition mapContentImages :: "(json \<Rightarrow> json) \<Rightarrow> json \<Rightarrow> json" where
  "mapContentImages f v = visitMap f False v"

definition imageUnavailable :: json where
  "imageUnavailable = JObj [(''type'', JStr ''text''), (''text'', JStr ''[Image attachment unavailable]'')]"

definition mayCarryImages :: "string list" where
  "mayCarryImages = [''message_start'', ''message_end'', ''turn_end'', ''agent_end'', ''entry_added'',
     ''tool_execution_update'', ''tool_execution_end'']"

definition eventType :: "json \<Rightarrow> json option" where
  "eventType v = (case v of JObj fields \<Rightarrow> map_of fields ''type'' | _ \<Rightarrow> None)"

definition carriesImages :: "json \<Rightarrow> bool" where
  "carriesImages event = (\<exists>t\<in>set mayCarryImages. eventType event = Some (JStr t))"

text \<open>The value that is serialised.\<close>

definition sendableEvent :: "(json \<Rightarrow> bool) \<Rightarrow> json \<Rightarrow> json" where
  "sendableEvent isReference event =
     (if \<not> carriesImages event \<or> list_all isReference (contentImages event) then event
      else mapContentImages (\<lambda>block. if isReference block then block else imageUnavailable) event)"

subsection \<open>What is sent\<close>

lemma visitMap_array: "(case visitMap f b v of JArr xs \<Rightarrow> True | _ \<Rightarrow> False) = (case v of JArr xs \<Rightarrow> True | _ \<Rightarrow> False)"
  by (cases v) auto

text \<open>An object keeps its own type.\<close>

lemma map_of_keyed: "map_of (map (\<lambda>(k, v). (k, g k v)) xs) k = map_option (g k) (map_of xs k)"
  by (induction xs) auto

lemma visitMap_str: "(visitMap f b c = JStr t) = (c = JStr t)"
  by (cases c) auto

lemma visitMap_type: "isImage (visitMap f False v) = isImage v"
proof (cases v)
  case (JObj fields)
  have "(map_option (\<lambda>c. visitMap f b c) x = Some (JStr t)) = (x = Some (JStr t))" for b x t
    by (cases x) (simp_all add: visitMap_str)
  moreover have "(''type'' = ''content'') = False" by simp
  ultimately show ?thesis
    unfolding JObj isImage_def visitMap.simps json.case map_of_keyed by (cases "map_of fields ''type''") (simp_all add: visitMap_str)
qed (simp_all add: isImage_def)

lemma visitImages_map:
  assumes "\<And>x. isImage x \<Longrightarrow> P x \<Longrightarrow> f x = x"
    and "\<And>x. isImage x \<Longrightarrow> \<not> P x \<Longrightarrow> \<not> isImage (f x) \<and> visitImages False (f x) = []"
  shows "visitImages b (visitMap f b v) = filter P (visitImages b v)"
proof (induction b v rule: visitImages.induct)
  case (1 b items)
  have "(if b \<and> isImage y then [y] else visitImages False y) = filter P (if b \<and> isImage x then [x] else visitImages False x)"
    if x: "x \<in> set items" and y: "y = (if b \<and> isImage x then f x else visitMap f False x)" for x y
  proof (cases "b \<and> isImage x")
    case True
    with assms [of x] y show ?thesis by (cases "P x") auto
  next
    case False
    with 1 [OF x] x y show ?thesis by (auto simp: visitMap_type)
  qed
  then show ?case by (auto simp: filter_concat comp_def intro!: arg_cong [where f = concat])
next
  case (2 b fields)
  have "visitImages (k = ''content'' \<and> (case visitMap f (k = ''content'' \<and> (case c of JArr xs \<Rightarrow> True | _ \<Rightarrow> False)) c of JArr xs \<Rightarrow> True | _ \<Rightarrow> False))
      (visitMap f (k = ''content'' \<and> (case c of JArr xs \<Rightarrow> True | _ \<Rightarrow> False)) c)
    = filter P (visitImages (k = ''content'' \<and> (case c of JArr xs \<Rightarrow> True | _ \<Rightarrow> False)) c)" if "(k, c) \<in> set fields" for k c
    using 2 [OF that refl] by (simp only: visitMap_array)
  then show ?case by (auto simp: filter_concat comp_def split_beta intro!: arg_cong [where f = concat])
qed auto

text \<open>no image bytes reach browsers: the value sent for an event that may carry images holds exactly its image blocks
  that are references, in their order, whatever the depth of the content array; an event whose images are all
  references is sent as it is, and any event keeps its type.\<close>
theorem sent_images_are_references:
  "(carriesImages event \<longrightarrow> contentImages (sendableEvent isReference event) = filter isReference (contentImages event)) \<and>
   (list_all isReference (contentImages event) \<longrightarrow> sendableEvent isReference event = event) \<and>
   (\<not> carriesImages event \<longrightarrow> sendableEvent isReference event = event)"
proof -
  have "contentImages (mapContentImages (\<lambda>block. if isReference block then block else imageUnavailable) event) =
      filter isReference (contentImages event)"
    unfolding contentImages_def mapContentImages_def
    by (rule visitImages_map) (simp_all add: imageUnavailable_def isImage_def)
  moreover have "filter isReference xs = xs" if "list_all isReference xs" for xs
    using that by (simp add: list_all_iff)
  ultimately show ?thesis by (auto simp: sendableEvent_def)
qed

theorem sent_images_are_references_witness:
  "contentImages (sendableEvent (\<lambda>v. v = JObj [(''type'', JStr ''image''), (''ref'', JNum 1)])
     (JObj [(''type'', JStr ''message_end''), (''content'', JArr
       [JObj [(''type'', JStr ''image''), (''data'', JStr ''AAAA'')], JObj [(''type'', JStr ''image''), (''ref'', JNum 1)]])]))
   = [JObj [(''type'', JStr ''image''), (''ref'', JNum 1)]]"
  using sent_images_are_references [of "JObj [(''type'', JStr ''message_end''), (''content'', JArr
       [JObj [(''type'', JStr ''image''), (''data'', JStr ''AAAA'')], JObj [(''type'', JStr ''image''), (''ref'', JNum 1)]])]"
      "\<lambda>v. v = JObj [(''type'', JStr ''image''), (''ref'', JNum 1)]"]
  by (simp add: carriesImages_def mayCarryImages_def eventType_def contentImages_def isImage_def)

end
