(* ===== verification/Command_Segments.thy ===== *)
theory Command_Segments
  imports Reins_Prelude
begin

text \<open>
  Highlighted shell commands: \<^verbatim>\<open>packages/frontend/src/models/tools/bash-command-parser.ts\<close>, which cuts a command into
  command words, arguments and operators. Its law: nothing of the command is lost, added or moved.
\<close>

datatype commandSegment =
    CommandSeg string
  | ArgsSeg string
  | OperatorSeg string

fun segmentText :: "commandSegment \<Rightarrow> string" where
  "segmentText (CommandSeg t) = t"
| "segmentText (ArgsSeg t) = t"
| "segmentText (OperatorSeg t) = t"

record splitPart =
  spText :: string
  spIsOperator :: bool

definition backslashC :: char where "backslashC = CHR 0x5C"
definition singleQuoteC :: char where "singleQuoteC = CHR 0x27"
definition doubleQuoteC :: char where "doubleQuoteC = CHR 0x22"

subsection \<open>Splitting on operators\<close>

definition flushPart :: "string \<Rightarrow> splitPart list" where
  "flushPart current = (if current = [] then [] else [\<lparr>spText = current, spIsOperator = False\<rparr>])"

definition operatorPart :: "string \<Rightarrow> splitPart" where
  "operatorPart t = \<lparr>spText = t, spIsOperator = True\<rparr>"

text \<open>The loop: the quote flags, the fragment so far and the rest of the input.\<close>

function splitLoop :: "bool \<Rightarrow> bool \<Rightarrow> string \<Rightarrow> string \<Rightarrow> splitPart list" where
  "splitLoop inSingle inDouble current [] = flushPart current"
| "splitLoop inSingle inDouble current (ch # rest) =
     (if ch = backslashC \<and> rest \<noteq> [] then splitLoop inSingle inDouble (current @ [ch, hd rest]) (tl rest)
      else if ch = singleQuoteC \<and> \<not> inDouble then splitLoop (\<not> inSingle) inDouble (current @ [ch]) rest
      else if ch = doubleQuoteC \<and> \<not> inSingle then splitLoop inSingle (\<not> inDouble) (current @ [ch]) rest
      else if inSingle \<or> inDouble then splitLoop inSingle inDouble (current @ [ch]) rest
      else if ch = CHR ''&'' \<and> rest \<noteq> [] \<and> hd rest = CHR ''&''
      then flushPart current @ operatorPart ''&&'' # splitLoop inSingle inDouble [] (tl rest)
      else if ch = CHR ''|'' \<and> rest \<noteq> [] \<and> hd rest = CHR ''|''
      then flushPart current @ operatorPart ''||'' # splitLoop inSingle inDouble [] (tl rest)
      else if ch = CHR ''|'' then flushPart current @ operatorPart ''|'' # splitLoop inSingle inDouble [] rest
      else if ch = CHR '';'' then flushPart current @ operatorPart '';'' # splitLoop inSingle inDouble [] rest
      else splitLoop inSingle inDouble (current @ [ch]) rest)"
  by pat_completeness auto
termination
  by (relation "measure (\<lambda>(s, d, current, input). length input)") auto

definition splitOnOperators :: "string \<Rightarrow> splitPart list" where
  "splitOnOperators input = splitLoop False False [] input"

subsection \<open>The command word of a fragment\<close>

definition prefixWords :: "string list" where
  "prefixWords = [''sudo'', ''env'', ''nohup'', ''time'', ''nice'', ''exec'']"

definition nameStart :: "char \<Rightarrow> bool" where
  "nameStart c = (let n = (of_char c :: nat) in 65 \<le> n \<and> n \<le> 90 \<or> 97 \<le> n \<and> n \<le> 122 \<or> c = CHR ''_'')"

definition namePart :: "char \<Rightarrow> bool" where
  "namePart c = (nameStart c \<or> isDigitC c)"

text \<open>The assignment and the white space after it, when the text begins with one.\<close>

definition envAssignment :: "string \<Rightarrow> string option" where
  "envAssignment t =
     (let name = takeWhile namePart t; r1 = dropWhile namePart t;
          v = takeWhile (\<lambda>c. \<not> isSpace c) r1; spaces = takeWhile isSpace (dropWhile (\<lambda>c. \<not> isSpace c) r1)
      in if t \<noteq> [] \<and> nameStart (hd t) \<and> r1 \<noteq> [] \<and> hd r1 = CHR ''='' \<and> spaces \<noteq> []
         then Some (name @ v @ spaces) else None)"

definition wordOf :: "string \<Rightarrow> string" where "wordOf = takeWhile (\<lambda>c. \<not> isSpace c)"
definition afterWord :: "string \<Rightarrow> string" where "afterWord = dropWhile (\<lambda>c. \<not> isSpace c)"

text \<open>A word that only prefixes a command, with the white space after it.\<close>

definition prefixWord :: "string \<Rightarrow> string option" where
  "prefixWord t =
     (let spaces = takeWhile isSpace (afterWord t)
      in if wordOf t \<noteq> [] \<and> spaces \<noteq> [] \<and> wordOf t \<in> set prefixWords then Some (wordOf t @ spaces) else None)"

text \<open>Each loop moves what it matched from the rest to the prefix.\<close>

lemma envAssignment_split:
  assumes "envAssignment t = Some p"
  shows "t = p @ drop (length p) t" "p \<noteq> []"
proof -
  let ?r1 = "dropWhile namePart t" and ?sp = "\<lambda>c. \<not> isSpace c"
  from assms have p: "p = takeWhile namePart t @ takeWhile ?sp ?r1 @ takeWhile isSpace (dropWhile ?sp ?r1)" "p \<noteq> []"
    by (auto simp: envAssignment_def Let_def split: if_splits)
  have "t = p @ dropWhile isSpace (dropWhile ?sp ?r1)"
    unfolding p(1) by (metis append.assoc takeWhile_dropWhile_id)
  then show "t = p @ drop (length p) t" by (metis append_eq_conv_conj)
  show "p \<noteq> []" by (rule p(2))
qed

lemma prefixWord_split:
  assumes "prefixWord t = Some p"
  shows "t = p @ drop (length p) t" "p \<noteq> []"
proof -
  from assms have p: "p = wordOf t @ takeWhile isSpace (afterWord t)" "p \<noteq> []"
    by (auto simp: prefixWord_def Let_def split: if_splits)
  have "t = p @ dropWhile isSpace (afterWord t)"
    unfolding p(1) wordOf_def afterWord_def by (metis append.assoc takeWhile_dropWhile_id)
  then show "t = p @ drop (length p) t" by (metis append_eq_conv_conj)
  show "p \<noteq> []" by (rule p(2))
qed

lemma split_shorter:
  "envAssignment t = Some p \<Longrightarrow> length (drop (length p) t) < length t"
  "prefixWord t = Some p \<Longrightarrow> length (drop (length p) t) < length t"
  by (metis append_Nil drop_eq_Nil2 envAssignment_split length_drop length_greater_0_conv diff_less linorder_not_le self_append_conv2 append_is_Nil_conv le_numeral_extra(3) list.size(3),
      metis append_Nil drop_eq_Nil2 prefixWord_split length_drop length_greater_0_conv diff_less linorder_not_le self_append_conv2 append_is_Nil_conv le_numeral_extra(3) list.size(3))

function skipAssignments :: "string \<Rightarrow> string \<Rightarrow> string \<times> string" where
  "skipAssignments prefixed remaining =
     (case envAssignment remaining of
        None \<Rightarrow> (prefixed, remaining)
      | Some p \<Rightarrow> skipAssignments (prefixed @ p) (drop (length p) remaining))"
  by pat_completeness auto
termination
  by (relation "measure (\<lambda>(p, r). length r)") (simp_all add: split_shorter del: length_drop)

function skipPrefixWords :: "string \<Rightarrow> string \<Rightarrow> string \<times> string" where
  "skipPrefixWords prefixed remaining =
     (case prefixWord remaining of
        None \<Rightarrow> (prefixed, remaining)
      | Some p \<Rightarrow> skipPrefixWords (prefixed @ p) (drop (length p) remaining))"
  by pat_completeness auto
termination
  by (relation "measure (\<lambda>(p, r). length r)") (simp_all add: split_shorter del: length_drop)

declare splitLoop.simps [simp del] skipAssignments.simps [simp del] skipPrefixWords.simps [simp del]

definition extractCommand :: "string \<Rightarrow> string \<times> string \<times> string" where
  "extractCommand t =
     (let (p1, r1) = skipAssignments [] t; (p2, r2) = skipPrefixWords p1 r1
      in if wordOf r2 = [] then (p2, [], r2) else (p2, wordOf r2, afterWord r2))"

subsection \<open>The segments\<close>

definition segmentIf :: "(string \<Rightarrow> commandSegment) \<Rightarrow> string \<Rightarrow> commandSegment list" where
  "segmentIf mk t = (if t = [] then [] else [mk t])"

definition partSegments :: "splitPart \<Rightarrow> commandSegment list" where
  "partSegments part =
     (if spIsOperator part then [OperatorSeg (spText part)]
      else let trimmed = trimStart (spText part);
               leadingWs = take (length (spText part) - length trimmed) (spText part);
               (pre, cmd, rest) = extractCommand trimmed
           in segmentIf ArgsSeg leadingWs @ segmentIf ArgsSeg pre @ segmentIf CommandSeg cmd @ segmentIf ArgsSeg rest)"

text \<open>\<open>blank\<close> is what is shown for an empty command: an ellipsis.\<close>

definition parseCommandSegments :: "string \<Rightarrow> string \<Rightarrow> commandSegment list" where
  "parseCommandSegments blank command =
     (if trimStr command = [] then [ArgsSeg (if command = [] then blank else command)]
      else concat (map partSegments (splitOnOperators command)))"

subsection \<open>Nothing is lost\<close>

lemma splitLoop_lossless: "concat (map spText (splitLoop s d current input)) = current @ input"
proof (induction s d current input rule: splitLoop.induct)
  case (2 s d current ch rest)
  then show ?case
    unfolding splitLoop.simps(2) [of s d current ch rest] by (cases rest) (auto simp: flushPart_def operatorPart_def)
qed (simp add: splitLoop.simps flushPart_def)

lemma splitLoop_operators:
  "part \<in> set (splitLoop s d current input) \<Longrightarrow> if spIsOperator part then spText part \<in> {''&&'', ''||'', ''|'', '';''} else spText part \<noteq> []"
proof (induction s d current input rule: splitLoop.induct)
  case (2 s d current ch rest)
  have flush: "part \<in> set (flushPart current) \<Longrightarrow> \<not> spIsOperator part \<and> spText part \<noteq> []"
    by (auto simp: flushPart_def split: if_splits)
  from 2 flush show ?case
    unfolding splitLoop.simps(2) [of s d current ch rest] by (auto simp: operatorPart_def split: if_splits)
qed (auto simp: splitLoop.simps flushPart_def split: if_splits)

lemma skipAssignments_lossless: "skipAssignments p r = (p', r') \<Longrightarrow> p' @ r' = p @ r"
proof (induction p r rule: skipAssignments.induct)
  case (1 p r)
  then show ?case
    using envAssignment_split [of r] by (auto simp: skipAssignments.simps [of p r] split: option.splits)
qed

lemma skipPrefixWords_lossless: "skipPrefixWords p r = (p', r') \<Longrightarrow> p' @ r' = p @ r"
proof (induction p r rule: skipPrefixWords.induct)
  case (1 p r)
  then show ?case
    using prefixWord_split [of r] by (auto simp: skipPrefixWords.simps [of p r] split: option.splits)
qed

lemma extractCommand_lossless:
  assumes "extractCommand t = (p, c, r)"
  shows "p @ c @ r = t" "\<forall>x\<in>set c. \<not> isSpace x"
proof -
  obtain p1 r1 p2 r2 where s: "skipAssignments [] t = (p1, r1)" "skipPrefixWords p1 r1 = (p2, r2)"
    by (metis surj_pair)
  have e: "p2 @ r2 = t" using skipAssignments_lossless [OF s(1)] skipPrefixWords_lossless [OF s(2)] by simp
  have parts: "p = p2" "c = wordOf r2" "r = (if wordOf r2 = [] then r2 else afterWord r2)"
    using assms s by (auto simp: extractCommand_def split: if_splits)
  have "wordOf r2 @ afterWord r2 = r2" by (simp add: wordOf_def afterWord_def)
  then show "p @ c @ r = t" using e parts by (cases "wordOf r2 = []") auto
  show "\<forall>x\<in>set c. \<not> isSpace x" unfolding parts(2) wordOf_def by (auto dest: set_takeWhileD)
qed

lemma segmentIf_text: "(\<And>t. segmentText (mk t) = t) \<Longrightarrow> concat (map segmentText (segmentIf mk t)) = t"
  by (simp add: segmentIf_def)

lemma partSegments_lossless: "concat (map segmentText (partSegments part)) = spText part"
proof (cases "spIsOperator part")
  case False
  let ?t = "spText part"
  obtain p c r where e: "extractCommand (trimStart ?t) = (p, c, r)" by (metis surj_pair)
  have "take (length ?t - length (trimStart ?t)) ?t @ trimStart ?t = ?t"
    unfolding trimStart_def by (metis append_eq_conv_conj length_append add_diff_cancel_right' takeWhile_dropWhile_id)
  with False e extractCommand_lossless(1) [OF e] show ?thesis
    by (simp add: partSegments_def Let_def segmentIf_text)
qed (simp add: partSegments_def)

text \<open>The highlighted segments of a command put together are the command itself, character for character; command
  words have no white space, operators are one of the four, and no segment is empty.\<close>
theorem command_segments_lossless:
  assumes "trimStr command \<noteq> []"
  shows "concat (map segmentText (parseCommandSegments blank command)) = command \<and>
    (\<forall>seg\<in>set (parseCommandSegments blank command).
       segmentText seg \<noteq> [] \<and>
       (case seg of
          CommandSeg t \<Rightarrow> \<forall>c\<in>set t. \<not> isSpace c
        | OperatorSeg t \<Rightarrow> t \<in> {''&&'', ''||'', ''|'', '';''}
        | ArgsSeg t \<Rightarrow> True))"
proof -
  have segs: "parseCommandSegments blank command = concat (map partSegments (splitOnOperators command))"
    using assms by (simp add: parseCommandSegments_def)
  have "concat (map segmentText (concat (map partSegments parts))) = concat (map spText parts)" for parts
    by (induction parts) (simp_all add: partSegments_lossless)
  then have "concat (map segmentText (parseCommandSegments blank command)) = command"
    unfolding segs by (simp add: splitOnOperators_def splitLoop_lossless)
  moreover have "segmentText seg \<noteq> [] \<and> (case seg of CommandSeg t \<Rightarrow> \<forall>c\<in>set t. \<not> isSpace c
      | OperatorSeg t \<Rightarrow> t \<in> {''&&'', ''||'', ''|'', '';''} | ArgsSeg t \<Rightarrow> True)"
    if seg: "seg \<in> set (parseCommandSegments blank command)" for seg
  proof -
    from seg obtain part where part: "part \<in> set (splitOnOperators command)" "seg \<in> set (partSegments part)"
      unfolding segs by auto
    show ?thesis
    proof (cases "spIsOperator part")
      case True
      with part splitLoop_operators [of part False False "[]" command] show ?thesis
        by (auto simp: partSegments_def splitOnOperators_def)
    next
      case False
      obtain p c r where e: "extractCommand (trimStart (spText part)) = (p, c, r)" by (metis surj_pair)
      from part(2) False e extractCommand_lossless(2) [OF e] show ?thesis
        by (auto simp: partSegments_def Let_def segmentIf_def split: if_splits)
    qed
  qed
  ultimately show ?thesis by blast
qed

theorem command_segments_lossless_witness:
  "concat (map segmentText (parseCommandSegments [] ''A=1 sudo ls -l | wc'')) = ''A=1 sudo ls -l | wc''"
proof -
  have "trimStr ''A=1 sudo ls -l | wc'' \<noteq> []" by (simp add: trimStr_empty_iff isSpace_def)
  then show ?thesis using command_segments_lossless [of "''A=1 sudo ls -l | wc''" "[]"] by blast
qed

end
