(* ===== verification/Message_Store.thy ===== *)
theory Message_Store
  imports Conversations
begin

text \<open>
  The transcript a server keeps, \<^verbatim>\<open>packages/backend/src/messages-store.ts\<close>: display pages, the active branch and timeline
  entries, with the skill blocks \<^verbatim>\<open>models/sessions.ts\<close> strips from a page and the checks of its route. A session's rows
  of \<open>session_messages\<close> are a list in any order, queries filter and sort it. A message is the \<open>agentMessage\<close> the browser
  gets, a page the \<open>messagePage\<close> its store merges. The text of a cursor (\<open>JSON.stringify\<close>, base64url) and of a
  message that is searched are parameters.
\<close>

subsection \<open>Rows\<close>

record reinsInput =
  riContent :: "contentBlock list"
  riTimestamp :: "int option"
  riReinsId :: string
  riMetadata :: "(string \<times> json) list"

datatype storedOther = BranchSummaryEntry | CustomEntry string

datatype storedEnvelope =
    StoredMessage agentMessage int
  | StoredInput reinsInput int
  | StoredCompaction string int
  | StoredOther storedOther int

record messageRow =
  smId :: nat
  smParent :: "nat option"
  smSeq :: int
  smHarnessId :: string
  smRole :: string
  smEnvelope :: storedEnvelope
  smCreatedAt :: string

fun parsePersistedMessage :: "storedEnvelope \<Rightarrow> agentMessage option" where
  "parsePersistedMessage (StoredMessage m ts) = Some m"
| "parsePersistedMessage (StoredInput i ts) =
     Some (UserMsg \<lparr>umContent = UserBlocks (riContent i),
       umMetadata = (if riMetadata i = [] then None else Some (riMetadata i)), umTimestamp = orElse (riTimestamp i) ts\<rparr>)"
| "parsePersistedMessage (StoredCompaction summary ts) =
     Some (CompactionMsg \<lparr>cmContent = None, cmSummary = Some summary, cmTimestamp = ts\<rparr>)"
| "parsePersistedMessage (StoredOther k ts) = None"

fun persistedClientId :: "storedEnvelope \<Rightarrow> string option" where
  "persistedClientId (StoredInput i ts) = Some (riReinsId i)"
| "persistedClientId _ = None"

definition rowParsed :: "messageRow \<Rightarrow> agentMessage option" where
  "rowParsed r = parsePersistedMessage (smEnvelope r)"

text \<open>\<open>ORDER BY seq\<close>; \<open>(session_id, seq)\<close> is unique.\<close>

definition bySeq :: "messageRow list \<Rightarrow> messageRow list" where
  "bySeq rows = sort_key smSeq rows"

definition countMessages :: "messageRow list \<Rightarrow> nat" where
  "countMessages rows = length (filter (\<lambda>r. smRole r \<notin> {''branch_summary'', ''custom''}) rows)"

definition loadMessages :: "messageRow list \<Rightarrow> agentMessage list" where
  "loadMessages rows = List.map_filter rowParsed (bySeq rows)"

subsection \<open>The active branch\<close>

text \<open>The recursive query: a row and its ancestors, none visited twice.\<close>

definition parentRow :: "messageRow list \<Rightarrow> messageRow \<Rightarrow> messageRow option" where
  "parentRow rows r = Option.bind (smParent r) (\<lambda>p. find (\<lambda>q. smId q = p) rows)"

lemma parentRow_mem: "parentRow rows r = Some p \<Longrightarrow> p \<in> set rows"
  by (auto simp: parentRow_def bind_eq_Some_conv dest: find_SomeD)

function ancestry :: "messageRow list \<Rightarrow> nat list \<Rightarrow> messageRow \<Rightarrow> messageRow list" where
  "ancestry rows visited r =
     r # (case parentRow rows r of
            None \<Rightarrow> []
          | Some p \<Rightarrow> if smId p \<in> set visited then [] else ancestry rows (smId p # visited) p)"
  by pat_completeness auto
termination
proof (relation "measure (\<lambda>(rows, visited, r). card (smId ` set rows - set visited))")
  fix rows visited r p
  assume p: "parentRow rows r = Some p" "smId p \<notin> set visited"
  have "smId ` set rows - set (smId p # visited) \<subset> smId ` set rows - set visited"
    using parentRow_mem [OF p(1)] p(2) by auto
  then show "((rows, smId p # visited, p), rows, visited, r) \<in> measure (\<lambda>(rows, visited, r). card (smId ` set rows - set visited))"
    by (simp add: psubset_card_mono)
qed simp

declare ancestry.simps [simp del]

datatype branchError = UnknownTip | MissingBranch | InvalidTip

definition loadBranchMessages :: "messageRow list \<Rightarrow> string option \<Rightarrow> branchError + agentMessage list" where
  "loadBranchMessages rows tip =
     (case tip of
        None \<Rightarrow> Inr []
      | Some t \<Rightarrow>
          (case find (\<lambda>r. smHarnessId r = t) rows of
             None \<Rightarrow> Inl UnknownTip
           | Some r \<Rightarrow> Inr (List.map_filter rowParsed (rev (ancestry rows [smId r] r)))))"

text \<open>\<open>tip\<close> is the stored value of the main branch, absent when it has no row.\<close>

definition loadActiveMessages :: "messageRow list \<Rightarrow> json option \<Rightarrow> branchError + agentMessage list" where
  "loadActiveMessages rows tip =
     (case tip of
        None \<Rightarrow> Inl MissingBranch
      | Some JNull \<Rightarrow> loadBranchMessages rows None
      | Some (JStr t) \<Rightarrow> if t = [] then Inl InvalidTip else loadBranchMessages rows (Some t)
      | Some _ \<Rightarrow> Inl InvalidTip)"

subsection \<open>Cursors\<close>

datatype cursorDirection = Before | After

definition directionName :: "cursorDirection \<Rightarrow> string" where
  "directionName d = (case d of Before \<Rightarrow> ''before'' | After \<Rightarrow> ''after'')"

definition cursorValue :: "string \<Rightarrow> int \<Rightarrow> cursorDirection \<Rightarrow> json" where
  "cursorValue sid n d = JObj [(''sessionId'', JStr sid), (''seq'', JNum (of_int n)), (''direction'', JStr (directionName d))]"

definition displayCursor :: "(json \<Rightarrow> string) \<Rightarrow> string \<Rightarrow> int \<Rightarrow> cursorDirection \<Rightarrow> string" where
  "displayCursor stringify sid n d = stringify (cursorValue sid n d)"

definition maxSafeInteger :: int where "maxSafeInteger = 9007199254740991"

text \<open>\<open>parse\<close> is \<open>None\<close> where decoding or \<open>JSON.parse\<close> throws.\<close>

definition parseDisplayCursor :: "(string \<Rightarrow> json option) \<Rightarrow> string \<Rightarrow> string \<Rightarrow> cursorDirection \<Rightarrow> int option" where
  "parseDisplayCursor parse sid cursor d =
     (case parse cursor of
        Some (JObj members) \<Rightarrow>
          (case jmGet members ''seq'' of
             Some (JNum n) \<Rightarrow>
               if jmGet members ''sessionId'' = Some (JStr sid) \<and> jmGet members ''direction'' = Some (JStr (directionName d))
                  \<and> n = of_int \<lfloor>n\<rfloor> \<and> 0 \<le> n \<and> \<lfloor>n\<rfloor> \<le> maxSafeInteger
               then Some \<lfloor>n\<rfloor> else None
           | _ \<Rightarrow> None)
      | _ \<Rightarrow> None)"

subsection \<open>Pages\<close>

datatype pagePosition = Newest | BeforeSeq int | AfterSeq int

record sessionMessagePage = messagePage +
  spHasPreviousPage :: bool

definition displayRow :: "messageRow \<Rightarrow> bool" where
  "displayRow r = (case smEnvelope r of StoredOther k ts \<Rightarrow> False | _ \<Rightarrow> True)"

definition queryDisplayRows :: "messageRow list \<Rightarrow> (int \<Rightarrow> bool) \<Rightarrow> bool \<Rightarrow> nat option \<Rightarrow> messageRow list" where
  "queryDisplayRows rows P descending limit =
     (let found = bySeq (filter (\<lambda>r. displayRow r \<and> P (smSeq r)) rows);
          ordered = (if descending then rev found else found)
      in case limit of None \<Rightarrow> ordered | Some n \<Rightarrow> take n ordered)"

definition parseDisplayRows :: "messageRow list \<Rightarrow> (messageRow \<times> agentMessage) list" where
  "parseDisplayRows rows = List.map_filter (\<lambda>r. map_option (Pair r) (rowParsed r)) rows"

definition anyDisplayRow :: "messageRow list \<Rightarrow> (int \<Rightarrow> bool) \<Rightarrow> bool" where
  "anyDisplayRow rows P = list_ex (\<lambda>r. displayRow r \<and> P (smSeq r)) rows"

text \<open>The tool calls in a stored assistant message; the column \<open>role\<close> is what queries compare.\<close>

definition messageCallIds :: "agentMessage \<Rightarrow> string list" where
  "messageCallIds m =
     (case m of
        AssistantMsg a \<Rightarrow> List.map_filter (\<lambda>b. case b of ToolCallContent c \<Rightarrow> Some (tcId c) | _ \<Rightarrow> None) (amContent a)
      | _ \<Rightarrow> [])"

definition storedCallIds :: "messageRow \<Rightarrow> string list" where
  "storedCallIds r = (case smEnvelope r of StoredMessage m ts \<Rightarrow> messageCallIds m | _ \<Rightarrow> [])"

definition storedResultOf :: "messageRow \<Rightarrow> string option" where
  "storedResultOf r = (case smEnvelope r of StoredMessage (ToolResultMsg m) ts \<Rightarrow> Some (trmCallId m) | _ \<Rightarrow> None)"

text \<open>The assistant row that issued a call, the latest before \<open>n\<close>; the last result after \<open>n\<close> of any of the calls.\<close>

definition issuingRow :: "messageRow list \<Rightarrow> int \<Rightarrow> string \<Rightarrow> messageRow option" where
  "issuingRow rows n call =
     find (\<lambda>r. smRole r = ''assistant'' \<and> call \<in> set (storedCallIds r)) (rev (bySeq (filter (\<lambda>r. smSeq r < n) rows)))"

definition lastResultRow :: "messageRow list \<Rightarrow> int \<Rightarrow> string list \<Rightarrow> messageRow option" where
  "lastResultRow rows n calls =
     find (\<lambda>r. smRole r = ''toolResult'' \<and> (case storedResultOf r of None \<Rightarrow> False | Some c \<Rightarrow> c \<in> set calls))
       (rev (bySeq (filter (\<lambda>r. n < smSeq r) rows)))"

definition expandBackward :: "messageRow list \<Rightarrow> (messageRow \<times> agentMessage) list \<Rightarrow> (messageRow \<times> agentMessage) list" where
  "expandBackward rows parsed =
     (case hd parsed of
        (first, ToolResultMsg m) \<Rightarrow>
          (case issuingRow rows (smSeq first) (trmCallId m) of
             None \<Rightarrow> parsed
           | Some a \<Rightarrow> parseDisplayRows (queryDisplayRows rows (\<lambda>n. smSeq a \<le> n \<and> n < smSeq first) False None) @ parsed)
      | _ \<Rightarrow> parsed)"

definition expandForward :: "messageRow list \<Rightarrow> (messageRow \<times> agentMessage) list \<Rightarrow> (messageRow \<times> agentMessage) list" where
  "expandForward rows parsed =
     (case List.last parsed of
        (final, AssistantMsg m) \<Rightarrow>
          (let calls = messageCallIds (AssistantMsg m)
           in case (if calls = [] then None else lastResultRow rows (smSeq final) calls) of
                None \<Rightarrow> parsed
              | Some r \<Rightarrow> parsed @ parseDisplayRows (queryDisplayRows rows (\<lambda>n. smSeq final < n \<and> n \<le> smSeq r) False None))
      | _ \<Rightarrow> parsed)"

definition pageItem :: "messageRow list \<Rightarrow> messageRow \<times> agentMessage \<Rightarrow> conversationEntry" where
  "pageItem rows rm =
     (let (r, m) = rm; client = persistedClientId (smEnvelope r)
      in \<lparr>ceId = smHarnessId r, ceParentId = map_option smHarnessId (parentRow rows r), ceSeq = smSeq r,
          ceClientId = (if truthyStr client then client else None), ceMessage = m\<rparr>)"

definition positionBound :: "pagePosition \<Rightarrow> int" where
  "positionBound p = (case p of Newest \<Rightarrow> maxSafeInteger | BeforeSeq n \<Rightarrow> n | AfterSeq n \<Rightarrow> n)"

definition isForward :: "pagePosition \<Rightarrow> bool" where
  "isForward p = (case p of AfterSeq n \<Rightarrow> True | _ \<Rightarrow> False)"

definition emptyPage :: "(json \<Rightarrow> string) \<Rightarrow> string \<Rightarrow> messageRow list \<Rightarrow> pagePosition \<Rightarrow> sessionMessagePage" where
  "emptyPage stringify sid rows p =
     (let b = positionBound p;
          hasPrevious = anyDisplayRow rows (\<lambda>n. if isForward p then n \<le> b else n < b);
          hasNext = anyDisplayRow rows (\<lambda>n. if isForward p then b < n else b \<le> n)
      in \<lparr>mpItems = [], mpPreviousCursor = (if hasPrevious then Some (displayCursor stringify sid b Before) else None),
          mpHasNextPage = hasNext, mpEndCursor = (if isForward p then Some (displayCursor stringify sid b After) else None),
          mpLatestRunError = None, spHasPreviousPage = hasPrevious\<rparr>)"

definition loadMessagePage ::
  "(json \<Rightarrow> string) \<Rightarrow> string \<Rightarrow> messageRow list \<Rightarrow> nat \<Rightarrow> pagePosition \<Rightarrow> sessionMessagePage" where
  "loadMessagePage stringify sid rows limit p =
     (let b = positionBound p;
          found = queryDisplayRows rows (\<lambda>n. if isForward p then b < n else n < b) (\<not> isForward p) (Some limit)
      in if found = [] then emptyPage stringify sid rows p
         else
           (let parsed = (if isForward p then expandForward rows (parseDisplayRows found)
                          else expandBackward rows (parseDisplayRows (rev found)));
                firstSeq = smSeq (fst (hd parsed)); lastSeq = smSeq (fst (List.last parsed));
                hasPrevious = anyDisplayRow rows (\<lambda>n. n < firstSeq)
            in \<lparr>mpItems = map (pageItem rows) parsed,
                mpPreviousCursor = (if hasPrevious then Some (displayCursor stringify sid firstSeq Before) else None),
                mpHasNextPage = anyDisplayRow rows (\<lambda>n. lastSeq < n),
                mpEndCursor = Some (displayCursor stringify sid lastSeq After), mpLatestRunError = None,
                spHasPreviousPage = hasPrevious\<rparr>))"

end
