(* ===== verification/Session_Entries.thy ===== *)
theory Session_Entries
  imports Message_Store
begin

text \<open>
  Timeline entries for scripts: \<open>listSessionEntries\<close> of \<^verbatim>\<open>packages/backend/src/messages-store.ts\<close>, which joins tool
  results onto their calls, filters, orders and limits. What a message holds as text in lower case
  (\<open>JSON.stringify\<close> and \<open>toLowerCase\<close>) is the parameter \<open>rawText\<close>, with the search text in lower case already;
  times are compared as strings, which the parameter \<open>strLe\<close> does. A limit may be any integer, as a script's may.
\<close>

datatype entryOrder = Ascending | Descending
datatype sessionEntryType = UserType | AssistantType | CompactionType | ToolCallType

record sessionEntryOptions =
  eoSince :: "string option"
  eoAfterSeq :: "int option"
  eoBeforeSeq :: "int option"
  eoLimit :: "int option"
  eoSearch :: "string option"
  eoOrder :: "entryOrder option"
  eoTypes :: "sessionEntryType list option"
  eoToolName :: "string option"
  eoIsError :: "bool option"
  eoIncludeContent :: bool

record sessionToolCallResult =
  trSeq :: int
  trCreatedAt :: string
  trError :: bool
  trPreview :: string
  trContent :: "contentBlock list option"

datatype sessionEntry =
    MessageEntry (meType: sessionEntryType) (meSeq: int) (meCreatedAt: string) (meMessage: agentMessage)
  | ToolCallEntry (teSeq: int) (teCreatedAt: string) (teCall: toolCall) (teCallResult: "sessionToolCallResult option")

fun entrySeq :: "sessionEntry \<Rightarrow> int" where
  "entrySeq (MessageEntry ty n c m) = n"
| "entrySeq (ToolCallEntry n c call res) = n"

subsection \<open>Previews\<close>

definition toolResultPreviewChars :: nat where "toolResultPreviewChars = 500"

definition contentToText :: "contentBlock list \<Rightarrow> string" where
  "contentToText content =
     joinWith [newlineC] (map (\<lambda>b. case b of TextContentBlock t \<Rightarrow> t | ImageContentBlock i \<Rightarrow> ''[image]'') content)"

text \<open>\<open>ellipsis\<close> is the character appended. The length is that of an ASCII text.\<close>

definition contentPreview :: "string \<Rightarrow> contentBlock list \<Rightarrow> string" where
  "contentPreview ellipsis content =
     (let t = contentToText content
      in if length t \<le> toolResultPreviewChars then t else take toolResultPreviewChars t @ ellipsis)"

subsection \<open>Order and limit\<close>

definition usesLatestWindow :: "sessionEntryOptions \<Rightarrow> bool" where
  "usesLatestWindow o1 = (eoLimit o1 \<noteq> None \<and> eoOrder o1 = None \<and> eoAfterSeq o1 = None \<and> \<not> truthyStr (eoSince o1))"

text \<open>\<open>slice(0, n)\<close> and \<open>slice(-n)\<close>: a negative bound counts from the end, and \<open>-0\<close> is \<open>0\<close>.\<close>

definition sliceTo :: "int \<Rightarrow> 'a list \<Rightarrow> 'a list" where
  "sliceTo n xs = (if n < 0 then take (length xs - nat (- n)) xs else take (nat n) xs)"

definition sliceFrom :: "int \<Rightarrow> 'a list \<Rightarrow> 'a list" where
  "sliceFrom n xs = (if n < 0 then drop (length xs - nat (- n)) xs else drop (nat n) xs)"

definition orderAndLimit :: "sessionEntryOptions \<Rightarrow> 'a list \<Rightarrow> 'a list" where
  "orderAndLimit o1 items =
     (let ordered = (if eoOrder o1 = Some Descending then rev items else items)
      in case eoLimit o1 of
           None \<Rightarrow> ordered
         | Some n \<Rightarrow>
             if eoOrder o1 = Some Descending then sliceTo n ordered
             else if usesLatestWindow o1 then sliceFrom (- n) ordered else sliceTo n ordered)"

definition entryMatchesToolFilters :: "sessionEntryOptions \<Rightarrow> sessionEntry \<Rightarrow> bool" where
  "entryMatchesToolFilters o1 e =
     ((truthyStr (eoToolName o1) \<longrightarrow>
        (case e of ToolCallEntry n c call res \<Rightarrow> Some (tcName call) = eoToolName o1 | _ \<Rightarrow> False)) \<and>
      (eoIsError o1 \<noteq> None \<longrightarrow>
        (case e of ToolCallEntry n c call res \<Rightarrow> map_option trError res = eoIsError o1 | _ \<Rightarrow> False)))"

subsection \<open>Rows\<close>

record timelineRow =
  tlSeq :: int
  tlCreatedAt :: string
  tlParsed :: agentMessage
  tlInWindow :: bool
  tlMatches :: bool

fun containsText :: "string \<Rightarrow> string \<Rightarrow> bool" where
  "containsText p [] = (p = [])"
| "containsText p (c # s) = (startsWith (c # s) p \<or> containsText p s)"

definition rawMessageMatchesSearch :: "(agentMessage \<Rightarrow> string) \<Rightarrow> string option \<Rightarrow> agentMessage \<Rightarrow> bool" where
  "rawMessageMatchesSearch rawText search m = (truthyStr search \<longrightarrow> containsText (the search) (rawText m))"

definition inWindow :: "(string \<Rightarrow> string \<Rightarrow> bool) \<Rightarrow> sessionEntryOptions \<Rightarrow> messageRow \<Rightarrow> bool" where
  "inWindow strLe o1 r =
     ((truthyStr (eoSince o1) \<longrightarrow> strLe (the (eoSince o1)) (smCreatedAt r)) \<and>
      (case eoAfterSeq o1 of None \<Rightarrow> True | Some n \<Rightarrow> n < smSeq r) \<and>
      (case eoBeforeSeq o1 of None \<Rightarrow> True | Some n \<Rightarrow> smSeq r < n))"

definition timelineRows ::
  "(string \<Rightarrow> string \<Rightarrow> bool) \<Rightarrow> (agentMessage \<Rightarrow> string) \<Rightarrow> sessionEntryOptions \<Rightarrow> messageRow list \<Rightarrow> timelineRow list" where
  "timelineRows strLe rawText o1 rows =
     List.map_filter (\<lambda>r. map_option (\<lambda>m. \<lparr>tlSeq = smSeq r, tlCreatedAt = smCreatedAt r, tlParsed = m,
         tlInWindow = inWindow strLe o1 r,
         tlMatches = rawMessageMatchesSearch rawText (map_option trimStr (eoSearch o1)) m\<rparr>) (rowParsed r)) (bySeq rows)"

record resultCandidate =
  rcResult :: sessionToolCallResult
  rcMatches :: bool
  rcInWindow :: bool

definition resultCandidateOf :: "string \<Rightarrow> sessionEntryOptions \<Rightarrow> timelineRow \<Rightarrow> (string \<times> resultCandidate) option" where
  "resultCandidateOf ellipsis o1 r =
     (case tlParsed r of
        ToolResultMsg m \<Rightarrow>
          Some (trmCallId m, \<lparr>rcResult = \<lparr>trSeq = tlSeq r, trCreatedAt = tlCreatedAt r, trError = trmIsError m,
              trPreview = contentPreview ellipsis (trmContent m),
              trContent = (if eoIncludeContent o1 then Some (trmContent m) else None)\<rparr>,
            rcMatches = tlMatches r, rcInWindow = tlInWindow r\<rparr>)
      | _ \<Rightarrow> None)"

text \<open>\<open>toolResultsById\<close>: the candidates of each call, in order.\<close>

definition toolResultsById :: "string \<Rightarrow> sessionEntryOptions \<Rightarrow> timelineRow list \<Rightarrow> (string, resultCandidate list) jsmap" where
  "toolResultsById ellipsis o1 rows =
     foldl (\<lambda>m r. case resultCandidateOf ellipsis o1 r of
              None \<Rightarrow> m
            | Some (i, c) \<Rightarrow> jmSet i (orElse (jmGet m i) [] @ [c]) m) [] rows"

definition requestedTypes :: "sessionEntryOptions \<Rightarrow> sessionEntryType list" where
  "requestedTypes o1 = orElse (eoTypes o1) [UserType, AssistantType, CompactionType, ToolCallType]"

definition messageType :: "agentMessage \<Rightarrow> sessionEntryType option" where
  "messageType m =
     (case m of UserMsg u \<Rightarrow> Some UserType | AssistantMsg a \<Rightarrow> Some AssistantType | CompactionMsg c \<Rightarrow> Some CompactionType
      | ToolResultMsg t \<Rightarrow> None)"

definition extractToolCallBlocks :: "agentMessage \<Rightarrow> toolCall list" where
  "extractToolCallBlocks m =
     (case m of
        AssistantMsg a \<Rightarrow> List.map_filter (\<lambda>b. case b of ToolCallContent c \<Rightarrow> Some c | _ \<Rightarrow> None) (amContent a)
      | _ \<Rightarrow> [])"

definition rowEntries ::
  "sessionEntryOptions \<Rightarrow> (string, resultCandidate list) jsmap \<Rightarrow> timelineRow \<Rightarrow> sessionEntry list" where
  "rowEntries o1 results r =
     (let shown = tlInWindow r \<and> tlMatches r;
          own = (case messageType (tlParsed r) of
                   Some ty \<Rightarrow> if shown \<and> ty \<in> set (requestedTypes o1)
                              then [MessageEntry ty (tlSeq r) (tlCreatedAt r) (tlParsed r)] else []
                 | None \<Rightarrow> []);
          calls = List.map_filter (\<lambda>call.
            let found = find (\<lambda>c. tlSeq r < trSeq (rcResult c)) (orElse (jmGet results (tcId call)) []);
                resultShown = (case found of None \<Rightarrow> False | Some c \<Rightarrow> rcInWindow c \<and> rcMatches c)
            in if ToolCallType \<in> set (requestedTypes o1) \<and> (shown \<or> resultShown)
               then Some (ToolCallEntry (tlSeq r) (tlCreatedAt r) call (map_option rcResult found)) else None)
            (extractToolCallBlocks (tlParsed r))
      in own @ calls)"

definition listSessionEntries ::
  "(string \<Rightarrow> string \<Rightarrow> bool) \<Rightarrow> (agentMessage \<Rightarrow> string) \<Rightarrow> string \<Rightarrow> messageRow list \<Rightarrow> sessionEntryOptions \<Rightarrow> sessionEntry list" where
  "listSessionEntries strLe rawText ellipsis rows o1 =
     (if requestedTypes o1 = [] then []
      else (let trs = timelineRows strLe rawText o1 rows; results = toolResultsById ellipsis o1 trs
            in orderAndLimit o1 (filter (entryMatchesToolFilters o1) (concat (map (rowEntries o1 results) trs)))))"

end
