(* ===== verification/Entry_Laws.thy ===== *)
theory Entry_Laws
  imports Session_Entries
begin

text \<open>
  Laws of \<open>Session_Entries\<close>: the table of results by call is the first later result of each call, entries come in the
  order of their rows, and what a limit keeps of them.
\<close>

subsection \<open>Results by call\<close>

definition candidatesFor :: "string \<Rightarrow> sessionEntryOptions \<Rightarrow> timelineRow list \<Rightarrow> string \<Rightarrow> resultCandidate list" where
  "candidatesFor ellipsis o1 trs i =
     List.map_filter (\<lambda>r. case resultCandidateOf ellipsis o1 r of Some (j, c) \<Rightarrow> if j = i then Some c else None | None \<Rightarrow> None) trs"

lemma map_filter_append: "List.map_filter f (xs @ ys) = List.map_filter f xs @ List.map_filter f ys"
  by (simp add: List.map_filter_def)

lemma toolResultsById_get: "orElse (jmGet (toolResultsById ellipsis o1 trs) i) [] = candidatesFor ellipsis o1 trs i"
proof (induction trs rule: rev_induct)
  case (snoc r trs)
  then show ?case
    by (cases "resultCandidateOf ellipsis o1 r")
      (auto simp: toolResultsById_def candidatesFor_def map_filter_append map_filter_simps)
qed (simp add: toolResultsById_def candidatesFor_def map_filter_simps)

text \<open>The reference: the result of a call of a row is the first row after it that is a result of the call.\<close>

definition laterResult :: "timelineRow list \<Rightarrow> int \<Rightarrow> string \<Rightarrow> timelineRow option" where
  "laterResult trs n i = find (\<lambda>r. n < tlSeq r \<and> (case tlParsed r of ToolResultMsg m \<Rightarrow> trmCallId m = i | _ \<Rightarrow> False)) trs"

definition rowResult :: "string \<Rightarrow> sessionEntryOptions \<Rightarrow> timelineRow \<Rightarrow> sessionToolCallResult option" where
  "rowResult ellipsis o1 r = map_option (\<lambda>(i, c). rcResult c) (resultCandidateOf ellipsis o1 r)"

definition joinedCalls :: "string \<Rightarrow> sessionEntryOptions \<Rightarrow> timelineRow list \<Rightarrow> timelineRow \<Rightarrow> sessionEntry list" where
  "joinedCalls ellipsis o1 trs r =
     List.map_filter (\<lambda>call.
       let found = laterResult trs (tlSeq r) (tcId call);
           resultShown = (case found of None \<Rightarrow> False | Some q \<Rightarrow> tlInWindow q \<and> tlMatches q)
       in if ToolCallType \<in> set (requestedTypes o1) \<and> (tlInWindow r \<and> tlMatches r \<or> resultShown)
          then Some (ToolCallEntry (tlSeq r) (tlCreatedAt r) call (Option.bind found (rowResult ellipsis o1))) else None)
       (extractToolCallBlocks (tlParsed r))"

definition ownEntry :: "sessionEntryOptions \<Rightarrow> timelineRow \<Rightarrow> sessionEntry list" where
  "ownEntry o1 r =
     (case messageType (tlParsed r) of
        Some ty \<Rightarrow> if (tlInWindow r \<and> tlMatches r) \<and> ty \<in> set (requestedTypes o1)
                   then [MessageEntry ty (tlSeq r) (tlCreatedAt r) (tlParsed r)] else []
      | None \<Rightarrow> [])"

lemma candidate_find:
  "find (\<lambda>c. n < trSeq (rcResult c)) (candidatesFor ellipsis o1 trs i) =
   map_option (\<lambda>r. snd (the (resultCandidateOf ellipsis o1 r))) (laterResult trs n i)"
proof (induction trs)
  case (Cons r trs)
  then show ?case
    by (cases "tlParsed r") (auto simp: candidatesFor_def laterResult_def resultCandidateOf_def map_filter_simps)
qed (simp add: candidatesFor_def laterResult_def map_filter_simps)

lemma laterResult_candidate:
  assumes "laterResult trs n i = Some q"
  obtains c where "resultCandidateOf ellipsis o1 q = Some (i, c)" "rcInWindow c = tlInWindow q" "rcMatches c = tlMatches q"
  using find_SomeD(2) [OF assms [unfolded laterResult_def]] that
  by (auto simp: resultCandidateOf_def split: agentMessage.splits)

lemma rowEntries_joined: "rowEntries o1 (toolResultsById ellipsis o1 trs) r = ownEntry o1 r @ joinedCalls ellipsis o1 trs r"
proof -
  have call: "(let found = find (\<lambda>c. tlSeq r < trSeq (rcResult c)) (orElse (jmGet (toolResultsById ellipsis o1 trs) (tcId call)) []);
        resultShown = (case found of None \<Rightarrow> False | Some c \<Rightarrow> rcInWindow c \<and> rcMatches c)
      in if ToolCallType \<in> set (requestedTypes o1) \<and> (tlInWindow r \<and> tlMatches r \<or> resultShown)
         then Some (ToolCallEntry (tlSeq r) (tlCreatedAt r) call (map_option rcResult found)) else None) =
    (let found = laterResult trs (tlSeq r) (tcId call);
         resultShown = (case found of None \<Rightarrow> False | Some q \<Rightarrow> tlInWindow q \<and> tlMatches q)
       in if ToolCallType \<in> set (requestedTypes o1) \<and> (tlInWindow r \<and> tlMatches r \<or> resultShown)
          then Some (ToolCallEntry (tlSeq r) (tlCreatedAt r) call (Option.bind found (rowResult ellipsis o1))) else None)" for call
  proof (cases "laterResult trs (tlSeq r) (tcId call)")
    case None
    then show ?thesis by (simp add: toolResultsById_get candidate_find)
  next
    case (Some q)
    obtain c where "resultCandidateOf ellipsis o1 q = Some (tcId call, c)" "rcInWindow c = tlInWindow q" "rcMatches c = tlMatches q"
      by (rule laterResult_candidate [OF Some])
    with Some show ?thesis by (simp add: toolResultsById_get candidate_find rowResult_def)
  qed
  show ?thesis
    unfolding rowEntries_def Let_def [of "tlInWindow r \<and> tlMatches r"] joinedCalls_def call [symmetric]
    by (simp add: ownEntry_def Let_def)
qed

lemma rowEntries_fun: "rowEntries o1 (toolResultsById ellipsis o1 trs) = (\<lambda>r. ownEntry o1 r @ joinedCalls ellipsis o1 trs r)"
  by (rule ext) (rule rowEntries_joined)

text \<open>A timeline is what joining every tool call to the first result of it in a later row gives, each row's own entry
  before its calls, whatever the window, search, types and filters: the table of results built in one pass
  finds the same result.\<close>
theorem timeline_joins_results:
  "listSessionEntries strLe rawText ellipsis rows o1 =
    (if requestedTypes o1 = [] then []
     else (let trs = timelineRows strLe rawText o1 rows
           in orderAndLimit o1 (filter (entryMatchesToolFilters o1) (concat (map (\<lambda>r. ownEntry o1 r @ joinedCalls ellipsis o1 trs r) trs)))))"
  by (simp add: listSessionEntries_def Let_def rowEntries_fun)

subsection \<open>Order and limits\<close>

definition unlimited :: "sessionEntryOptions \<Rightarrow> sessionEntryOptions" where
  "unlimited o1 = o1\<lparr>eoLimit := None, eoOrder := None\<rparr>"

lemma unlimited_sel:
  "eoSince (unlimited o1) = eoSince o1" "eoAfterSeq (unlimited o1) = eoAfterSeq o1" "eoBeforeSeq (unlimited o1) = eoBeforeSeq o1"
  "eoSearch (unlimited o1) = eoSearch o1" "eoTypes (unlimited o1) = eoTypes o1" "eoToolName (unlimited o1) = eoToolName o1"
  "eoIsError (unlimited o1) = eoIsError o1" "eoIncludeContent (unlimited o1) = eoIncludeContent o1"
  by (simp_all add: unlimited_def)

lemma rows_unlimited:
  "inWindow strLe (unlimited o1) = inWindow strLe o1" "requestedTypes (unlimited o1) = requestedTypes o1"
  "entryMatchesToolFilters (unlimited o1) = entryMatchesToolFilters o1"
  "timelineRows strLe rawText (unlimited o1) = timelineRows strLe rawText o1"
  "resultCandidateOf ellipsis (unlimited o1) = resultCandidateOf ellipsis o1"
proof -
  show w: "inWindow strLe (unlimited o1) = inWindow strLe o1"
    by (rule ext) (simp only: inWindow_def unlimited_sel)
  show "requestedTypes (unlimited o1) = requestedTypes o1" by (simp only: requestedTypes_def unlimited_sel)
  show "entryMatchesToolFilters (unlimited o1) = entryMatchesToolFilters o1"
    by (rule ext) (simp only: entryMatchesToolFilters_def unlimited_sel)
  show "timelineRows strLe rawText (unlimited o1) = timelineRows strLe rawText o1"
    by (rule ext) (simp only: timelineRows_def unlimited_sel w)
  show "resultCandidateOf ellipsis (unlimited o1) = resultCandidateOf ellipsis o1"
    by (rule ext) (simp only: resultCandidateOf_def unlimited_sel)
qed

lemma entries_unlimited:
  "ownEntry (unlimited o1) = ownEntry o1" "joinedCalls ellipsis (unlimited o1) = joinedCalls ellipsis o1"
proof -
  have r: "rowResult ellipsis (unlimited o1) = rowResult ellipsis o1"
    by (rule ext) (simp only: rowResult_def rows_unlimited)
  show "ownEntry (unlimited o1) = ownEntry o1" by (rule ext) (simp only: ownEntry_def rows_unlimited)
  show "joinedCalls ellipsis (unlimited o1) = joinedCalls ellipsis o1"
    by (rule ext, rule ext) (simp only: joinedCalls_def rows_unlimited r)
qed

lemma timeline_from_unlimited:
  "listSessionEntries strLe rawText ellipsis rows o1 = orderAndLimit o1 (listSessionEntries strLe rawText ellipsis rows (unlimited o1))"
proof -
  have "orderAndLimit (unlimited o1) xs = xs" for xs :: "sessionEntry list"
    by (simp add: orderAndLimit_def unlimited_def)
  moreover have "orderAndLimit o1 [] = ([] :: sessionEntry list)"
    by (simp add: orderAndLimit_def sliceTo_def sliceFrom_def Let_def split: option.splits)
  ultimately show ?thesis
    by (simp add: listSessionEntries_def Let_def rowEntries_fun rows_unlimited entries_unlimited)
qed

lemma rowEntries_seq: "e \<in> set (ownEntry o1 r @ joinedCalls ellipsis o1 trs r) \<Longrightarrow> entrySeq e = tlSeq r"
  by (auto simp: ownEntry_def joinedCalls_def List.map_filter_def Let_def split: option.splits if_splits)

lemma timelineRows_sorted: "List.sorted (map tlSeq (timelineRows strLe rawText o1 rows))"
proof -
  have "List.sorted (map tlSeq (List.map_filter (\<lambda>r. map_option (f r) (rowParsed r)) rs))"
    if "List.sorted (map smSeq rs)" "\<And>r m. tlSeq (f r m) = smSeq r" for f :: "messageRow \<Rightarrow> agentMessage \<Rightarrow> timelineRow" and rs
    using that(1)
  proof (induction rs)
    case (Cons r rs)
    then show ?case
      using that(2) by (cases "rowParsed r") (auto simp: map_filter_simps List.map_filter_def)
  qed (simp add: map_filter_simps)
  then show ?thesis by (simp add: timelineRows_def bySeq_def)
qed

lemma concat_sorted:
  assumes "List.sorted (map tlSeq trs)" "\<And>r e. e \<in> set (f r) \<Longrightarrow> entrySeq e = tlSeq r"
  shows "List.sorted (map entrySeq (concat (map f trs)))"
  using assms(1)
proof (induction trs)
  case (Cons r trs)
  have "List.sorted (map entrySeq (f r))" using assms(2) [of _ r] by (auto simp: sorted_iff_nth_mono)
  with Cons assms(2) show ?case by (fastforce simp: sorted_append)
qed simp

lemma unlimited_sorted: "List.sorted (map entrySeq (listSessionEntries strLe rawText ellipsis rows (unlimited o1)))"
proof -
  let ?trs = "timelineRows strLe rawText o1 rows"
  have "List.sorted (map entrySeq (concat (map (\<lambda>r. ownEntry o1 r @ joinedCalls ellipsis o1 ?trs r) ?trs)))"
    by (rule concat_sorted [OF timelineRows_sorted]) (rule rowEntries_seq)
  then have "List.sorted (map entrySeq (filter P (concat (map (\<lambda>r. ownEntry o1 r @ joinedCalls ellipsis o1 ?trs r) ?trs))))" for P
    by (rule sorted_filter)
  moreover have "orderAndLimit (unlimited o1) xs = xs" for xs :: "sessionEntry list"
    by (simp add: orderAndLimit_def unlimited_def)
  ultimately show ?thesis
    by (simp add: listSessionEntries_def Let_def rowEntries_fun rows_unlimited entries_unlimited)
qed

text \<open>What a limit of at least one keeps, of all entries in the order of their rows: the first entries from a cursor, a
  time or in ascending order, the last ones when none of these is asked for, and the last ones in reverse in
  descending order; never more than the limit.\<close>
theorem timeline_limit:
  assumes "eoLimit o1 = Some n" "1 \<le> n"
  shows "let alls = listSessionEntries strLe rawText ellipsis rows (unlimited o1); got = listSessionEntries strLe rawText ellipsis rows o1
    in List.sorted (map entrySeq alls) \<and> int (length got) \<le> n \<and>
       got = (if eoOrder o1 = Some Descending then take (nat n) (rev alls)
              else if usesLatestWindow o1 then drop (length alls - nat n) alls else take (nat n) alls)"
proof -
  let ?all = "listSessionEntries strLe rawText ellipsis rows (unlimited o1)"
  have got: "listSessionEntries strLe rawText ellipsis rows o1 =
      (if eoOrder o1 = Some Descending then take (nat n) (rev ?all)
       else if usesLatestWindow o1 then drop (length ?all - nat n) ?all else take (nat n) ?all)"
    using assms by (simp add: timeline_from_unlimited [of strLe rawText ellipsis rows o1] orderAndLimit_def sliceTo_def sliceFrom_def Let_def)
  have "length (listSessionEntries strLe rawText ellipsis rows o1) \<le> nat n" unfolding got by (simp, linarith)
  then have "int (length (listSessionEntries strLe rawText ellipsis rows o1)) \<le> n" using assms(2) by linarith
  with got unlimited_sorted [of strLe rawText ellipsis rows o1] show ?thesis unfolding Let_def by blast
qed

text \<open>A limit of zero, where the last entries are asked for, lists every entry.\<close>
theorem zero_limit_lists_all:
  assumes "eoLimit o1 = Some 0" "usesLatestWindow o1"
  shows "listSessionEntries strLe rawText ellipsis rows o1 = listSessionEntries strLe rawText ellipsis rows (unlimited o1)"
  using assms
  by (simp add: timeline_from_unlimited [of strLe rawText ellipsis rows o1] orderAndLimit_def sliceFrom_def usesLatestWindow_def Let_def)

definition latestOptions :: "int \<Rightarrow> sessionEntryOptions" where
  "latestOptions n = \<lparr>eoSince = None, eoAfterSeq = None, eoBeforeSeq = None, eoLimit = Some n, eoSearch = None, eoOrder = None,
     eoTypes = None, eoToolName = None, eoIsError = None, eoIncludeContent = False\<rparr>"

definition demoSummary :: messageRow where
  "demoSummary = \<lparr>smId = 1, smParent = None, smSeq = 1, smHarnessId = ''e'', smRole = ''compactionSummary'',
     smEnvelope = StoredCompaction ''s'' 0, smCreatedAt = []\<rparr>"

lemma demo_entries:
  "listSessionEntries strLe rawText [] [demoSummary] (unlimited (latestOptions n)) =
     [MessageEntry CompactionType 1 [] (CompactionMsg \<lparr>cmContent = None, cmSummary = Some ''s'', cmTimestamp = 0\<rparr>)]"
  by (simp add: listSessionEntries_def Let_def requestedTypes_def unlimited_def latestOptions_def timelineRows_def bySeq_def
      demoSummary_def rowParsed_def map_filter_simps inWindow_def rawMessageMatchesSearch_def rowEntries_def messageType_def
      extractToolCallBlocks_def orderAndLimit_def entryMatchesToolFilters_def)

theorem timeline_limit_witness:
  "length (listSessionEntries (\<lambda>a b. True) (\<lambda>m. []) [] [demoSummary] (latestOptions 1)) = 1"
  using timeline_limit [of "latestOptions 1" 1 "\<lambda>a b. True" "\<lambda>m. []" "[]" "[demoSummary]"] demo_entries [of _ _ 1]
  by (simp add: Let_def latestOptions_def usesLatestWindow_def)

theorem zero_limit_lists_all_witness:
  "length (listSessionEntries (\<lambda>a b. True) (\<lambda>m. []) [] [demoSummary] (latestOptions 0)) = 1"
  using zero_limit_lists_all [of "latestOptions 0" "\<lambda>a b. True" "\<lambda>m. []" "[]" "[demoSummary]"] demo_entries [of _ _ 0]
  by (simp add: latestOptions_def usesLatestWindow_def)

end
