(* ===== verification/Skill_Text.thy ===== *)
theory Skill_Text
  imports Reins_Prelude
begin

text \<open>
  The skill blocks that begin a user's message, which pages and session lists leave out:
  \<^verbatim>\<open>packages/backend/src/models/skill.ts\<close>.
\<close>

subsection \<open>Skill blocks\<close>

definition isWordC :: "char \<Rightarrow> bool" where
  "isWordC c = (let n = (of_char c :: nat) in 65 \<le> n \<and> n \<le> 90 \<or> 97 \<le> n \<and> n \<le> 122 \<or> isDigitC c \<or> c = CHR ''_'')"

fun afterFirst :: "string \<Rightarrow> string \<Rightarrow> string option" where
  "afterFirst p [] = (if p = [] then Some [] else None)"
| "afterFirst p (c # s) = (if startsWith (c # s) p then Some (drop (length p) (c # s)) else afterFirst p s)"

text \<open>What follows a skill block and the white space after it, where the text begins with one.\<close>

definition afterSkillBlock :: "string \<Rightarrow> string option" where
  "afterSkillBlock s =
     (let r = drop 6 s; attrs = dropWhile (\<lambda>c. c \<noteq> CHR ''>'') r
      in if startsWith s ''<skill'' \<and> r \<noteq> [] \<and> \<not> isWordC (hd r) \<and> attrs \<noteq> []
         then map_option trimStart (afterFirst ''</skill>'' (tl attrs)) else None)"

lemma afterFirst_length: "afterFirst p s = Some r \<Longrightarrow> length r \<le> length s"
  by (induction s) (auto split: if_splits)

lemma afterSkillBlock_shorter: "afterSkillBlock s = Some r \<Longrightarrow> length r < length s"
proof -
  assume a: "afterSkillBlock s = Some r"
  define attrs where "attrs = dropWhile (\<lambda>c. c \<noteq> CHR ''>'') (drop 6 s)"
  from a obtain t where t: "afterFirst ''</skill>'' (tl attrs) = Some t" "r = trimStart t" "drop 6 s \<noteq> []" "attrs \<noteq> []"
    by (auto simp: afterSkillBlock_def Let_def attrs_def split: if_splits)
  have "length r \<le> length t" unfolding t(2) trimStart_def by (rule length_dropWhile_le)
  moreover have "length t \<le> length (tl attrs)" by (rule afterFirst_length [OF t(1)])
  moreover have "length attrs \<le> length (drop 6 s)" unfolding attrs_def by (rule length_dropWhile_le)
  ultimately show "length r < length s" using t(3,4) by (cases attrs) auto
qed

function stripLeadingSkillBlocks :: "string \<Rightarrow> string" where
  "stripLeadingSkillBlocks s =
     (case afterSkillBlock s of None \<Rightarrow> s | Some r \<Rightarrow> stripLeadingSkillBlocks r)"
  by pat_completeness auto
termination by (relation "measure length") (auto dest: afterSkillBlock_shorter)

declare stripLeadingSkillBlocks.simps [simp del]

end
