(* ===== verification/Session_Pages.thy ===== *)
theory Session_Pages
  imports Message_Store Session_Runs Skill_Text
begin

text \<open>
  The pages a browser asks for: \<open>Sessions.getMessagePage\<close> of \<^verbatim>\<open>packages/backend/src/models/sessions.ts\<close> with the skill
  blocks it strips (theory \<open>Skill_Text\<close>), and the route of \<^verbatim>\<open>routes/sessions.ts\<close> that checks the request. Stored user
  messages have content blocks; one with a plain string is left as it is. Reading a number from a request
  (\<open>Number\<close>, \<open>None\<close> for \<open>NaN\<close>) and a cursor are parameters.
\<close>

subsection \<open>Stored user messages\<close>

definition textBlockText :: "contentBlock \<Rightarrow> string option" where
  "textBlockText b = (case b of TextContentBlock t \<Rightarrow> Some t | _ \<Rightarrow> None)"

text \<open>The first text block with its stripped text, when that differs.\<close>

definition strippedTextBlock :: "contentBlock list \<Rightarrow> (nat \<times> string) option" where
  "strippedTextBlock content =
     (case findIndex (\<lambda>b. textBlockText b \<noteq> None) content of
        None \<Rightarrow> None
      | Some i \<Rightarrow>
          (let t = the (textBlockText (content ! i)); stripped = stripLeadingSkillBlocks t
           in if stripped = t then None else Some (i, stripped)))"

definition stripPersistedUserSkillBlocks :: "agentMessage \<Rightarrow> agentMessage" where
  "stripPersistedUserSkillBlocks m =
     (case m of
        UserMsg u \<Rightarrow>
          (case umContent u of
             UserBlocks content \<Rightarrow>
               (case strippedTextBlock content of
                  None \<Rightarrow> m
                | Some (i, t) \<Rightarrow> UserMsg (u\<lparr>umContent := UserBlocks (content[i := TextContentBlock t])\<rparr>))
           | _ \<Rightarrow> m)
      | _ \<Rightarrow> m)"

subsection \<open>The page of a session\<close>

definition latestRunError :: "runTables \<Rightarrow> string \<Rightarrow> string option" where
  "latestRunError t sid =
     (case latestSettlement t sid of
        Some s \<Rightarrow>
          if rsStatus (lsOutcome s) = RunFailed
          then Some (case rsError (lsOutcome s) of Some e \<Rightarrow> seMessage e | None \<Rightarrow> ''Runtime response failed'') else None
      | None \<Rightarrow> None)"

definition getMessagePage ::
  "(json \<Rightarrow> string) \<Rightarrow> runTables \<Rightarrow> (string \<Rightarrow> messageRow list) \<Rightarrow> string \<Rightarrow> nat \<Rightarrow> pagePosition \<Rightarrow> sessionMessagePage option" where
  "getMessagePage stringify t store sid limit p =
     (case getSessionRow t sid of
        None \<Rightarrow> None
      | Some row \<Rightarrow>
          (let page = loadMessagePage stringify sid (store sid) limit p
           in Some (page\<lparr>mpLatestRunError := Some (latestRunError t sid),
                mpItems := map (\<lambda>e. e\<lparr>ceMessage := stripPersistedUserSkillBlocks (ceMessage e)\<rparr>) (mpItems page)\<rparr>)))"

subsection \<open>The route\<close>

definition defaultPageLimit :: nat where "defaultPageLimit = 50"
definition maxPageLimit :: nat where "maxPageLimit = 200"

datatype pageRequestError = BadLimit | ExclusiveCursors | InvalidBefore | InvalidAfter | UnknownSession

definition requestedLimit :: "(string \<Rightarrow> rat option) \<Rightarrow> string option \<Rightarrow> nat option" where
  "requestedLimit toNumber param =
     (case param of
        None \<Rightarrow> Some defaultPageLimit
      | Some s \<Rightarrow>
          (case toNumber s of
             None \<Rightarrow> None
           | Some n \<Rightarrow> if n = of_int \<lfloor>n\<rfloor> \<and> 1 \<le> n \<and> n \<le> of_nat maxPageLimit then Some (nat \<lfloor>n\<rfloor>) else None))"

definition messagesRoute ::
  "(string \<Rightarrow> rat option) \<Rightarrow> (json \<Rightarrow> string) \<Rightarrow> (string \<Rightarrow> json option) \<Rightarrow> runTables \<Rightarrow> (string \<Rightarrow> messageRow list) \<Rightarrow>
   string \<Rightarrow> string option \<Rightarrow> string option \<Rightarrow> string option \<Rightarrow> pageRequestError + sessionMessagePage" where
  "messagesRoute toNumber stringify parse t store sid limitParam before after =
     (case requestedLimit toNumber limitParam of
        None \<Rightarrow> Inl BadLimit
      | Some limit \<Rightarrow>
          if before \<noteq> None \<and> after \<noteq> None then Inl ExclusiveCursors
          else (let b = Option.bind before (\<lambda>c. parseDisplayCursor parse sid c Before);
                    a = Option.bind after (\<lambda>c. parseDisplayCursor parse sid c After)
                in if before \<noteq> None \<and> b = None then Inl InvalidBefore
                   else if after \<noteq> None \<and> a = None then Inl InvalidAfter
                   else (case getMessagePage stringify t store sid limit
                            (case a of Some n \<Rightarrow> AfterSeq n | None \<Rightarrow> (case b of Some n \<Rightarrow> BeforeSeq n | None \<Rightarrow> Newest)) of
                           None \<Rightarrow> Inl UnknownSession
                         | Some page \<Rightarrow> Inr page)))"

end
