(* ===== verification/Page_Laws.thy ===== *)
theory Page_Laws
  imports Message_Store Session_Pages Conversation_Laws Store_Laws "HOL-Library.Countable"
begin

text \<open>
  Laws of the transcript pages: a browser that follows the cursors gets every row of the transcript once and in
  order, backward pages never part a tool call from its results (forward ones may), and cursors read back.
\<close>

subsection \<open>The display rows\<close>

definition displayRows :: "messageRow list \<Rightarrow> messageRow list" where
  "displayRows rows = bySeq (filter displayRow rows)"

abbreviation uniqueSeqs :: "messageRow list \<Rightarrow> bool" where
  "uniqueSeqs rows \<equiv> distinct (map smSeq rows)"

definition parsedRow :: "messageRow \<Rightarrow> messageRow \<times> agentMessage" where
  "parsedRow r = (r, the (rowParsed r))"

definition rowEntry :: "messageRow list \<Rightarrow> messageRow \<Rightarrow> conversationEntry" where
  "rowEntry rows r = pageItem rows (parsedRow r)"

definition inRange :: "int \<Rightarrow> int \<Rightarrow> messageRow list \<Rightarrow> messageRow list" where
  "inRange lo hi rs = filter (\<lambda>r. lo \<le> smSeq r \<and> smSeq r < hi) rs"

lemma displayRow_parsed: "displayRow r \<longleftrightarrow> rowParsed r \<noteq> None"
  by (cases "smEnvelope r") (simp_all add: displayRow_def rowParsed_def)

lemma set_bySeq [simp]: "set (bySeq rows) = set rows"
  by (simp add: bySeq_def)

lemma displayRows_set: "set (displayRows rows) = {r \<in> set rows. displayRow r}"
  by (simp add: displayRows_def)

lemma bySeq_filter: "bySeq (filter P rows) = filter P (bySeq rows)"
  by (simp add: bySeq_def List.filter_sort)

lemma strictly_sorted:
  assumes "uniqueSeqs rows"
  shows "sorted_wrt (<) (map smSeq (bySeq rows))"
proof -
  have "List.sorted (map smSeq (bySeq rows))" by (simp add: bySeq_def)
  moreover have "mset (map smSeq (bySeq rows)) = mset (map smSeq rows)" by (simp add: bySeq_def)
  then have "distinct (map smSeq (bySeq rows))" using assms by (metis mset_eq_imp_distinct_iff)
  ultimately show ?thesis by (simp add: strict_sorted_iff)
qed

lemma displayRows_sorted: "uniqueSeqs rows \<Longrightarrow> sorted_wrt (<) (map smSeq (displayRows rows))"
  unfolding displayRows_def bySeq_filter
  using strictly_sorted [of rows] by (simp add: sorted_wrt_map sorted_wrt_filter)

lemma query_displayRows: "queryDisplayRows rows P False None = filter (\<lambda>r. P (smSeq r)) (displayRows rows)"
  by (simp add: queryDisplayRows_def Let_def displayRows_def bySeq_filter conj_commute)

lemma query_limited:
  "queryDisplayRows rows P desc (Some n) =
     take n ((if desc then rev else id) (filter (\<lambda>r. P (smSeq r)) (displayRows rows)))"
  by (simp add: queryDisplayRows_def Let_def displayRows_def bySeq_filter conj_commute)

lemma anyDisplayRow_iff: "anyDisplayRow rows P \<longleftrightarrow> (\<exists>r\<in>set (displayRows rows). P (smSeq r))"
  by (auto simp: anyDisplayRow_def list_ex_iff displayRows_set)

lemma parseDisplayRows_all: "list_all displayRow rs \<Longrightarrow> parseDisplayRows rs = map parsedRow rs"
  by (induction rs) (auto simp: parseDisplayRows_def map_filter_simps parsedRow_def displayRow_parsed)

subsection \<open>Ranges of a sorted list\<close>

lemma drop_as_range:
  assumes "sorted_wrt (<) (map smSeq rs)" "j < length rs"
  shows "drop j rs = filter (\<lambda>r. smSeq (rs ! j) \<le> smSeq r) rs"
proof -
  have s: "smSeq (rs ! a) < smSeq (rs ! b)" if "a < b" "b < length rs" for a b
    using assms(1) that by (simp add: sorted_wrt_iff_nth_less)
  have "filter (\<lambda>r. smSeq (rs ! j) \<le> smSeq r) (take j rs) = []"
    using s assms(2) by (fastforce simp: filter_empty_conv in_set_conv_nth)
  moreover have "filter (\<lambda>r. smSeq (rs ! j) \<le> smSeq r) (drop j rs) = drop j rs"
  proof (rule filter_True, rule ballI)
    fix r assume "r \<in> set (drop j rs)"
    then obtain i where i: "i < length rs - j" "r = rs ! (j + i)" by (auto simp: in_set_conv_nth)
    then have "j + i < length rs" by simp
    with s [of j "j + i"] i show "smSeq (rs ! j) \<le> smSeq r" by (cases i) auto
  qed
  ultimately show ?thesis by (metis append_Nil append_take_drop_id filter_append)
qed

lemma take_as_range:
  assumes "sorted_wrt (<) (map smSeq rs)" "j < length rs"
  shows "take (Suc j) rs = filter (\<lambda>r. smSeq r \<le> smSeq (rs ! j)) rs"
proof -
  have s: "smSeq (rs ! a) < smSeq (rs ! b)" if "a < b" "b < length rs" for a b
    using assms(1) that by (simp add: sorted_wrt_iff_nth_less)
  have "filter (\<lambda>r. smSeq r \<le> smSeq (rs ! j)) (drop (Suc j) rs) = []"
  proof (rule filter_False, rule ballI)
    fix r assume "r \<in> set (drop (Suc j) rs)"
    then obtain i where i: "i < length rs - Suc j" "r = rs ! (Suc j + i)" by (auto simp: in_set_conv_nth)
    then have "Suc j + i < length rs" by simp
    with s [of j "Suc j + i"] i show "\<not> smSeq r \<le> smSeq (rs ! j)" by simp
  qed
  moreover have "filter (\<lambda>r. smSeq r \<le> smSeq (rs ! j)) (take (Suc j) rs) = take (Suc j) rs"
  proof (rule filter_True, rule ballI)
    fix r assume "r \<in> set (take (Suc j) rs)"
    then obtain i where "i \<le> j" "r = rs ! i" using assms(2) by (auto simp: in_set_conv_nth less_Suc_eq_le)
    then show "smSeq r \<le> smSeq (rs ! j)" using s [of i j] assms(2) by (cases "i = j") auto
  qed
  ultimately show ?thesis by (metis append_Nil2 append_take_drop_id filter_append)
qed

lemma range_split:
  assumes "sorted_wrt (<) (map smSeq rs)" "lo \<le> (b :: int)"
  shows "filter (\<lambda>r. smSeq r < lo) rs @ inRange lo b rs = filter (\<lambda>r. smSeq r < b) rs"
  using assms
proof (induction rs)
  case (Cons r rs)
  have later: "smSeq r < smSeq q" if "q \<in> set rs" for q using Cons.prems that by simp
  show ?case
  proof (cases "smSeq r < lo")
    case True
    with Cons show ?thesis by (simp add: inRange_def)
  next
    case False
    with later have "filter (\<lambda>r. smSeq r < lo) rs = []" by (fastforce simp: filter_empty_conv)
    with Cons False show ?thesis by (auto simp: inRange_def)
  qed
qed (simp add: inRange_def)

lemma range_join:
  assumes "sorted_wrt (<) (map smSeq rs)" "lo \<le> mid" "mid \<le> (b :: int)"
  shows "inRange lo mid rs @ inRange mid b rs = inRange lo b rs"
proof -
  have "filter (\<lambda>r. smSeq r < lo) rs @ inRange lo mid rs @ inRange mid b rs = filter (\<lambda>r. smSeq r < lo) rs @ inRange lo b rs"
    using range_split [OF assms(1,2)] range_split [OF assms(1), of mid b] range_split [OF assms(1), of lo b] assms
    by (metis append.assoc order_trans)
  then show ?thesis by simp
qed

lemma range_hd:
  assumes "sorted_wrt (<) (map smSeq rs)" "q \<in> set rs" "smSeq q = lo" "lo < b"
  shows "inRange lo b rs \<noteq> [] \<and> hd (inRange lo b rs) = q"
  using assms(1,2)
proof (induction rs)
  case (Cons r rs)
  show ?case
  proof (cases "r = q")
    case True
    with assms show ?thesis by (simp add: inRange_def)
  next
    case False
    with Cons.prems assms(3) have "smSeq r < lo" by auto
    with Cons False show ?thesis by (auto simp: inRange_def)
  qed
qed simp

lemma range_last:
  assumes "sorted_wrt (<) (map smSeq rs)" "q \<in> set rs" "smSeq q = hi" "a < hi"
  shows "filter (\<lambda>r. a < smSeq r \<and> smSeq r \<le> hi) rs \<noteq> [] \<and> List.last (filter (\<lambda>r. a < smSeq r \<and> smSeq r \<le> hi) rs) = q"
  using assms(1,2)
proof (induction rs rule: rev_induct)
  case (snoc r rs)
  have before: "smSeq p < smSeq r" if "p \<in> set rs" for p using snoc.prems(1) that by (simp add: sorted_wrt_append)
  show ?case
  proof (cases "r = q")
    case True
    with assms show ?thesis by simp
  next
    case False
    with snoc.prems(2) before assms(3) have "hi < smSeq r" by auto
    with snoc False show ?thesis by (auto simp: sorted_wrt_append)
  qed
qed simp

subsection \<open>One page\<close>

lemma issuingRow_found:
  assumes "issuingRow rows n call = Some a"
  shows "a \<in> set (displayRows rows)" "smSeq a < n" "\<exists>m. rowParsed a = Some (AssistantMsg m)"
proof -
  from find_SomeD [OF assms [unfolded issuingRow_def]]
  have a: "a \<in> set rows" "smSeq a < n" "call \<in> set (storedCallIds a)" by auto
  then obtain m ts where "smEnvelope a = StoredMessage (AssistantMsg m) ts"
    by (auto simp: storedCallIds_def messageCallIds_def split: storedEnvelope.splits agentMessage.splits dest: sym)
  with a show "a \<in> set (displayRows rows)" "smSeq a < n" "\<exists>m. rowParsed a = Some (AssistantMsg m)"
    by (auto simp: displayRows_set displayRow_def rowParsed_def)
qed

lemma displayRows_sub: "list_all displayRow (filter P (displayRows rows))"
  by (auto simp: list_all_iff displayRows_set)

text \<open>A page before \<open>b\<close> is a range of the transcript that ends at \<open>b\<close>; its cursor names where it starts; and if it starts
  with a tool result, nothing before it issued the call.\<close>

lemma page_backward:
  assumes u: "uniqueSeqs rows" and l: "0 < limit" and p: "\<not> isForward p" "positionBound p = b"
    and some: "\<exists>r\<in>set (displayRows rows). smSeq r < b"
  shows "\<exists>q\<in>set (displayRows rows). smSeq q < b \<and>
    mpItems (loadMessagePage stringify sid rows limit p) = map (rowEntry rows) (inRange (smSeq q) b (displayRows rows)) \<and>
    mpPreviousCursor (loadMessagePage stringify sid rows limit p) =
      (if \<exists>r\<in>set (displayRows rows). smSeq r < smSeq q then Some (displayCursor stringify sid (smSeq q) Before) else None) \<and>
    (\<forall>m. rowParsed q = Some (ToolResultMsg m) \<longrightarrow> issuingRow rows (smSeq q) (trmCallId m) = None)"
proof -
  let ?D = "displayRows rows"
  let ?pre = "filter (\<lambda>r. smSeq r < b) ?D"
  let ?j = "length ?pre - limit"
  have sorted: "sorted_wrt (<) (map smSeq ?D)" by (rule displayRows_sorted [OF u])
  then have spre: "sorted_wrt (<) (map smSeq ?pre)" by (simp add: sorted_wrt_map sorted_wrt_filter)
  have pre: "?pre \<noteq> []" using some by (auto simp: filter_empty_conv)
  with l have j: "?j < length ?pre" by (simp add: diff_less)
  let ?f = "?pre ! ?j"
  have f: "?f \<in> set ?D" "smSeq ?f < b" using nth_mem [OF j] by simp_all
  have found: "queryDisplayRows rows (\<lambda>n. n < b) True (Some limit) = rev (drop ?j ?pre)"
    by (simp add: query_limited take_rev)
  have rng: "drop ?j ?pre = inRange (smSeq ?f) b ?D"
    unfolding drop_as_range [OF spre j] by (simp add: inRange_def conj_commute)
  have first: "inRange (smSeq ?f) b ?D \<noteq> [] \<and> hd (inRange (smSeq ?f) b ?D) = ?f"
    by (rule range_hd [OF sorted f(1) refl f(2)])
  have parsed0: "parseDisplayRows (inRange lo hi ?D) = map parsedRow (inRange lo hi ?D)" for lo hi
    unfolding inRange_def by (rule parseDisplayRows_all [OF displayRows_sub])
  have hd0: "hd (map parsedRow (inRange (smSeq ?f) b ?D)) = (?f, the (rowParsed ?f))"
    using first by (simp add: hd_map parsedRow_def)
  have some_parsed: "rowParsed ?f \<noteq> None" using f(1) by (simp add: displayRows_set displayRow_parsed)
  have "\<exists>q\<in>set ?D. smSeq q < b \<and> expandBackward rows (parseDisplayRows (drop ?j ?pre)) = map parsedRow (inRange (smSeq q) b ?D) \<and>
      (\<forall>m. rowParsed q = Some (ToolResultMsg m) \<longrightarrow> issuingRow rows (smSeq q) (trmCallId m) = None)"
  proof (cases "\<exists>m a. the (rowParsed ?f) = ToolResultMsg m \<and> issuingRow rows (smSeq ?f) (trmCallId m) = Some a")
    case True
    then obtain m a where ma: "the (rowParsed ?f) = ToolResultMsg m" "issuingRow rows (smSeq ?f) (trmCallId m) = Some a" by blast
    note a = issuingRow_found [OF ma(2)]
    have "queryDisplayRows rows (\<lambda>n. smSeq a \<le> n \<and> n < smSeq ?f) False None = inRange (smSeq a) (smSeq ?f) ?D"
      by (simp add: query_displayRows inRange_def)
    then have "expandBackward rows (parseDisplayRows (drop ?j ?pre)) = map parsedRow (inRange (smSeq a) b ?D)"
      unfolding expandBackward_def rng parsed0 hd0 prod.case ma
      using range_join [OF sorted, of "smSeq a" "smSeq ?f" b] a(2) f(2)
      by (simp add: ma parsed0 flip: map_append)
    with a f(2) show ?thesis by (intro bexI [of _ a]) auto
  next
    case False
    then have "expandBackward rows (parseDisplayRows (drop ?j ?pre)) = map parsedRow (inRange (smSeq ?f) b ?D)"
      unfolding expandBackward_def rng parsed0 hd0 prod.case by (auto split: agentMessage.splits option.splits)
    moreover have "issuingRow rows (smSeq ?f) (trmCallId m) = None" if "rowParsed ?f = Some (ToolResultMsg m)" for m
      using False that by (cases "issuingRow rows (smSeq ?f) (trmCallId m)") auto
    ultimately show ?thesis using f by blast
  qed
  then obtain q where q: "q \<in> set ?D" "smSeq q < b"
    "expandBackward rows (parseDisplayRows (drop ?j ?pre)) = map parsedRow (inRange (smSeq q) b ?D)"
    "\<forall>m. rowParsed q = Some (ToolResultMsg m) \<longrightarrow> issuingRow rows (smSeq q) (trmCallId m) = None" by blast
  have hdq: "inRange (smSeq q) b ?D \<noteq> [] \<and> hd (inRange (smSeq q) b ?D) = q"
    by (rule range_hd [OF sorted q(1) refl q(2)])
  then have seq: "smSeq (fst (hd (map parsedRow (inRange (smSeq q) b ?D)))) = smSeq q"
    by (simp add: hd_map parsedRow_def)
  have ne: "rev (drop ?j ?pre) \<noteq> []" using j by simp
  show ?thesis
    by (rule bexI [OF _ q(1)])
      (use p found ne q(2,3,4) seq in \<open>simp add: loadMessagePage_def Let_def rowEntry_def anyDisplayRow_iff comp_def del: rev_is_Nil_conv\<close>)
qed

lemma lastResultRow_found:
  assumes "lastResultRow rows n calls = Some a"
  shows "a \<in> set (displayRows rows)" "n < smSeq a"
proof -
  from find_SomeD [OF assms [unfolded lastResultRow_def]]
  have a: "a \<in> set rows" "n < smSeq a" "storedResultOf a \<noteq> None" by (auto split: option.splits)
  then have "displayRow a" by (auto simp: storedResultOf_def displayRow_def split: storedEnvelope.splits)
  with a show "a \<in> set (displayRows rows)" "n < smSeq a" by (auto simp: displayRows_set)
qed

definition afterUpTo :: "int \<Rightarrow> int \<Rightarrow> messageRow list \<Rightarrow> messageRow list" where
  "afterUpTo a hi rs = filter (\<lambda>r. a < smSeq r \<and> smSeq r \<le> hi) rs"

lemma afterUpTo_join:
  assumes "sorted_wrt (<) (map smSeq rs)" "a \<le> mid" "mid \<le> hi"
  shows "afterUpTo a mid rs @ afterUpTo mid hi rs = afterUpTo a hi rs"
  using range_join [OF assms(1), of "a + 1" "mid + 1" "hi + 1"] assms
  by (simp add: inRange_def afterUpTo_def add1_zle_eq)

text \<open>A page after \<open>a\<close> is a range of the transcript that starts there, and says whether more follows.\<close>

lemma page_forward:
  assumes u: "uniqueSeqs rows" and l: "0 < limit" and some: "\<exists>r\<in>set (displayRows rows). a < smSeq r"
  shows "\<exists>q\<in>set (displayRows rows). a < smSeq q \<and>
    mpItems (loadMessagePage stringify sid rows limit (AfterSeq a)) = map (rowEntry rows) (afterUpTo a (smSeq q) (displayRows rows)) \<and>
    mpEndCursor (loadMessagePage stringify sid rows limit (AfterSeq a)) = Some (displayCursor stringify sid (smSeq q) After) \<and>
    mpHasNextPage (loadMessagePage stringify sid rows limit (AfterSeq a)) = (\<exists>r\<in>set (displayRows rows). smSeq q < smSeq r)"
proof -
  let ?D = "displayRows rows"
  let ?post = "filter (\<lambda>r. a < smSeq r) ?D"
  define j where "j = min limit (length ?post) - 1"
  have sorted: "sorted_wrt (<) (map smSeq ?D)" by (rule displayRows_sorted [OF u])
  then have spost: "sorted_wrt (<) (map smSeq ?post)" by (simp add: sorted_wrt_map sorted_wrt_filter)
  have post: "?post \<noteq> []" using some by (auto simp: filter_empty_conv)
  with l have j: "j < length ?post" "take limit ?post = take (Suc j) ?post"
    by (auto simp: j_def min_def)
  let ?f = "?post ! j"
  have f: "?f \<in> set ?D" "a < smSeq ?f" using nth_mem [OF j(1)] by simp_all
  have found: "queryDisplayRows rows (\<lambda>n. a < n) False (Some limit) = afterUpTo a (smSeq ?f) ?D"
    by (simp add: query_limited j(2) take_as_range [OF spost j(1)] afterUpTo_def conj_commute)
  have ends: "afterUpTo a (smSeq q) ?D \<noteq> [] \<and> List.last (afterUpTo a (smSeq q) ?D) = q" if "q \<in> set ?D" "a < smSeq q" for q
    unfolding afterUpTo_def by (rule range_last [OF sorted that(1) refl that(2)])
  have parsed0: "parseDisplayRows (afterUpTo lo hi ?D) = map parsedRow (afterUpTo lo hi ?D)" for lo hi
    unfolding afterUpTo_def by (rule parseDisplayRows_all [OF displayRows_sub])
  have last0: "List.last (map parsedRow (afterUpTo a (smSeq ?f) ?D)) = (?f, the (rowParsed ?f))"
    using ends [OF f] by (simp add: last_map parsedRow_def)
  have "\<exists>q\<in>set ?D. a < smSeq q \<and>
      expandForward rows (parseDisplayRows (afterUpTo a (smSeq ?f) ?D)) = map parsedRow (afterUpTo a (smSeq q) ?D)"
  proof (cases "\<exists>m r. the (rowParsed ?f) = AssistantMsg m \<and> messageCallIds (AssistantMsg m) \<noteq> [] \<and>
      lastResultRow rows (smSeq ?f) (messageCallIds (AssistantMsg m)) = Some r")
    case True
    then obtain m r where mr: "the (rowParsed ?f) = AssistantMsg m" "messageCallIds (AssistantMsg m) \<noteq> []"
      "lastResultRow rows (smSeq ?f) (messageCallIds (AssistantMsg m)) = Some r" by blast
    note r = lastResultRow_found [OF mr(3)]
    have "queryDisplayRows rows (\<lambda>n. smSeq ?f < n \<and> n \<le> smSeq r) False None = afterUpTo (smSeq ?f) (smSeq r) ?D"
      by (simp add: query_displayRows afterUpTo_def)
    then have "expandForward rows (parseDisplayRows (afterUpTo a (smSeq ?f) ?D)) = map parsedRow (afterUpTo a (smSeq r) ?D)"
      unfolding expandForward_def parsed0 last0 prod.case mr
      using afterUpTo_join [OF sorted, of a "smSeq ?f" "smSeq r"] f(2) r(2)
      by (simp add: mr parsed0 Let_def flip: map_append)
    with r f(2) show ?thesis by (intro bexI [of _ r]) auto
  next
    case False
    then have "expandForward rows (parseDisplayRows (afterUpTo a (smSeq ?f) ?D)) = map parsedRow (afterUpTo a (smSeq ?f) ?D)"
      unfolding expandForward_def parsed0 last0 prod.case by (auto simp: Let_def split: agentMessage.splits option.splits)
    with f show ?thesis by blast
  qed
  then obtain q where q: "q \<in> set ?D" "a < smSeq q"
    "expandForward rows (parseDisplayRows (afterUpTo a (smSeq ?f) ?D)) = map parsedRow (afterUpTo a (smSeq q) ?D)" by blast
  have seq: "smSeq (fst (List.last (map parsedRow (afterUpTo a (smSeq q) ?D)))) = smSeq q"
    using ends [OF q(1,2)] by (simp add: last_map parsedRow_def)
  have ne: "afterUpTo a (smSeq ?f) ?D \<noteq> []" using ends [OF f] by simp
  show ?thesis
    by (rule bexI [OF _ q(1)])
      (use found ne q(2,3) seq in \<open>simp add: loadMessagePage_def Let_def rowEntry_def anyDisplayRow_iff comp_def isForward_def positionBound_def\<close>)
qed

lemma page_empty:
  assumes "\<not> (\<exists>r\<in>set (displayRows rows). if isForward p then positionBound p < smSeq r else smSeq r < positionBound p)"
  shows "loadMessagePage stringify sid rows limit p = emptyPage stringify sid rows p"
  using assms by (auto simp: loadMessagePage_def Let_def query_limited filter_empty_conv split: if_splits)

subsection \<open>Cursors\<close>

definition cursorsReadBack :: "(json \<Rightarrow> string) \<Rightarrow> (string \<Rightarrow> json option) \<Rightarrow> bool" where
  "cursorsReadBack stringify parse \<longleftrightarrow> parse [] = None \<and> (\<forall>v. parse (stringify v) = Some v)"

lemma displayCursor_value:
  assumes "cursorsReadBack stringify parse"
  shows "parse (displayCursor stringify sid n d) = Some (cursorValue sid n d)" "displayCursor stringify sid n d \<noteq> []"
  using assms unfolding cursorsReadBack_def displayCursor_def by (simp, metis option.distinct(1))

text \<open>A cursor reads back where it was made: for its own session and direction it gives its position, for any other
  session or direction, or a position out of range, nothing.\<close>
lemma cursor_roundtrip:
  assumes "cursorsReadBack stringify parse"
  shows "parseDisplayCursor parse sid' (displayCursor stringify sid n d) d' =
    (if sid' = sid \<and> d' = d \<and> 0 \<le> n \<and> n \<le> maxSafeInteger then Some n else None)"
  using displayCursor_value(1) [OF assms, of sid n d]
  by (cases d; cases d') (auto simp: parseDisplayCursor_def cursorValue_def directionName_def)

subsection \<open>Following the cursors\<close>

definition shownEntry :: "messageRow list \<Rightarrow> messageRow \<Rightarrow> conversationEntry" where
  "shownEntry rows r = (rowEntry rows r)\<lparr>ceMessage := stripPersistedUserSkillBlocks (ceMessage (rowEntry rows r))\<rparr>"

fun followBack :: "(string option \<Rightarrow> sessionMessagePage option) \<Rightarrow> nat \<Rightarrow> string option \<Rightarrow> sessionMessagePage list" where
  "followBack load 0 cursor = []"
| "followBack load (Suc n) cursor =
     (case load cursor of
        None \<Rightarrow> []
      | Some page \<Rightarrow> page # (case mpPreviousCursor page of None \<Rightarrow> [] | Some c \<Rightarrow> followBack load n (Some c)))"

text \<open>A server whose session \<open>sid\<close> has the rows \<open>rows\<close>, as the route answers.\<close>

record pageServer =
  psNumber :: "string \<Rightarrow> rat option"
  psStringify :: "json \<Rightarrow> string"
  psParse :: "string \<Rightarrow> json option"
  psTables :: runTables
  psStore :: "string \<Rightarrow> messageRow list"
  psLimit :: "string option"

definition serverOk :: "pageServer \<Rightarrow> string \<Rightarrow> bool" where
  "serverOk sv sid \<longleftrightarrow> cursorsReadBack (psStringify sv) (psParse sv) \<and> uniqueSeqs (psStore sv sid) \<and>
     (\<forall>r\<in>set (psStore sv sid). 0 \<le> smSeq r \<and> smSeq r < maxSafeInteger) \<and>
     getSessionRow (psTables sv) sid \<noteq> None \<and> requestedLimit (psNumber sv) (psLimit sv) \<noteq> None"

definition servePage :: "pageServer \<Rightarrow> string \<Rightarrow> string option \<Rightarrow> string option \<Rightarrow> sessionMessagePage option" where
  "servePage sv sid before after =
     (case messagesRoute (psNumber sv) (psStringify sv) (psParse sv) (psTables sv) (psStore sv) sid (psLimit sv) before after of
        Inl e \<Rightarrow> None
      | Inr page \<Rightarrow> Some page)"

definition servedPage :: "pageServer \<Rightarrow> string \<Rightarrow> pagePosition \<Rightarrow> sessionMessagePage" where
  "servedPage sv sid p =
     (let page = loadMessagePage (psStringify sv) sid (psStore sv sid) (the (requestedLimit (psNumber sv) (psLimit sv))) p
      in page\<lparr>mpLatestRunError := Some (latestRunError (psTables sv) sid),
           mpItems := map (\<lambda>e. e\<lparr>ceMessage := stripPersistedUserSkillBlocks (ceMessage e)\<rparr>) (mpItems page)\<rparr>)"

lemma requestedLimit_pos: "requestedLimit toNumber param = Some l \<Longrightarrow> 0 < l"
  by (auto simp: requestedLimit_def defaultPageLimit_def zero_less_nat_eq le_floor_iff split: option.splits if_splits)

lemma servePage_at:
  assumes "serverOk sv sid" "0 \<le> n" "n \<le> maxSafeInteger"
  shows "servePage sv sid (Some (displayCursor (psStringify sv) sid n Before)) None = Some (servedPage sv sid (BeforeSeq n))"
    "servePage sv sid None (Some (displayCursor (psStringify sv) sid n After)) = Some (servedPage sv sid (AfterSeq n))"
    "servePage sv sid None None = Some (servedPage sv sid Newest)"
  using assms
  by (auto simp: serverOk_def servePage_def messagesRoute_def getMessagePage_def servedPage_def cursor_roundtrip Let_def)

lemma servedPage_fields:
  "mpItems (servedPage sv sid p) = map (\<lambda>e. e\<lparr>ceMessage := stripPersistedUserSkillBlocks (ceMessage e)\<rparr>)
     (mpItems (loadMessagePage (psStringify sv) sid (psStore sv sid) (the (requestedLimit (psNumber sv) (psLimit sv))) p))"
  "mpPreviousCursor (servedPage sv sid p) =
     mpPreviousCursor (loadMessagePage (psStringify sv) sid (psStore sv sid) (the (requestedLimit (psNumber sv) (psLimit sv))) p)"
  "mpEndCursor (servedPage sv sid p) =
     mpEndCursor (loadMessagePage (psStringify sv) sid (psStore sv sid) (the (requestedLimit (psNumber sv) (psLimit sv))) p)"
  "mpHasNextPage (servedPage sv sid p) =
     mpHasNextPage (loadMessagePage (psStringify sv) sid (psStore sv sid) (the (requestedLimit (psNumber sv) (psLimit sv))) p)"
  by (simp_all add: servedPage_def Let_def)

lemma served_items: "mpItems (loadMessagePage (psStringify sv) sid (psStore sv sid) (the (requestedLimit (psNumber sv) (psLimit sv))) p)
    = map (rowEntry (psStore sv sid)) rs \<Longrightarrow> mpItems (servedPage sv sid p) = map (shownEntry (psStore sv sid)) rs"
  by (simp add: servedPage_fields shownEntry_def comp_def)

lemma followBack_before:
  assumes ok: "serverOk sv sid" and p: "\<not> isForward p" "positionBound p \<le> maxSafeInteger"
    and load: "servePage sv sid cursor None = Some (servedPage sv sid p)"
    and n: "length (filter (\<lambda>r. smSeq r < positionBound p) (displayRows (psStore sv sid))) \<le> n"
  shows "followBack (\<lambda>c. servePage sv sid c None) (Suc n) cursor \<noteq> [] \<and>
    concat (rev (map mpItems (followBack (\<lambda>c. servePage sv sid c None) (Suc n) cursor))) =
      map (shownEntry (psStore sv sid)) (filter (\<lambda>r. smSeq r < positionBound p) (displayRows (psStore sv sid))) \<and>
    mpPreviousCursor (List.last (followBack (\<lambda>c. servePage sv sid c None) (Suc n) cursor)) = None"
  using p load n
proof (induction n arbitrary: p cursor)
  case (0 p cursor)
  let ?D = "displayRows (psStore sv sid)"
  from 0 have none: "\<not> (\<exists>r\<in>set ?D. smSeq r < positionBound p)" by (simp add: filter_empty_conv)
  then have page: "loadMessagePage (psStringify sv) sid (psStore sv sid) l p = emptyPage (psStringify sv) sid (psStore sv sid) p" for l
    using 0 by (intro page_empty) simp
  with none 0 show ?case
    by (simp add: servedPage_fields emptyPage_def Let_def anyDisplayRow_iff)
next
  case (Suc n p cursor)
  let ?rows = "psStore sv sid"
  let ?D = "displayRows ?rows"
  let ?b = "positionBound p"
  show ?case
  proof (cases "\<exists>r\<in>set ?D. smSeq r < ?b")
    case False
    then have page: "loadMessagePage (psStringify sv) sid ?rows l p = emptyPage (psStringify sv) sid ?rows p" for l
      using Suc.prems by (intro page_empty) simp
    with False Suc.prems show ?thesis
      by (simp add: servedPage_fields emptyPage_def Let_def anyDisplayRow_iff)
  next
    case True
    have u: "uniqueSeqs ?rows" and lim: "0 < the (requestedLimit (psNumber sv) (psLimit sv))"
      using ok requestedLimit_pos by (auto simp: serverOk_def)
    from page_backward [OF u lim Suc.prems(1) refl True, of "psStringify sv" sid] obtain q where q: "q \<in> set ?D" "smSeq q < ?b"
      "mpItems (loadMessagePage (psStringify sv) sid ?rows (the (requestedLimit (psNumber sv) (psLimit sv))) p) = map (rowEntry ?rows) (inRange (smSeq q) ?b ?D)"
      "mpPreviousCursor (servedPage sv sid p) = (if \<exists>r\<in>set ?D. smSeq r < smSeq q then Some (displayCursor (psStringify sv) sid (smSeq q) Before) else None)"
      unfolding servedPage_fields by blast
    note items = served_items [OF q(3)]
    have sorted: "sorted_wrt (<) (map smSeq ?D)" by (rule displayRows_sorted [OF u])
    have split: "filter (\<lambda>r. smSeq r < smSeq q) ?D @ inRange (smSeq q) ?b ?D = filter (\<lambda>r. smSeq r < ?b) ?D"
      using range_split [OF sorted, of "smSeq q" ?b] q(2) by simp
    show ?thesis
    proof (cases "\<exists>r\<in>set ?D. smSeq r < smSeq q")
      case False
      then have "filter (\<lambda>r. smSeq r < smSeq q) ?D = []" by (simp add: filter_empty_conv)
      with False q(4) items split Suc.prems(3) show ?thesis by simp
    next
      case more: True
      have "0 \<le> smSeq q" "smSeq q \<le> maxSafeInteger"
        using ok q(1) by (auto simp: serverOk_def displayRows_set)
      note next_load = servePage_at(1) [OF ok this]
      have "0 < length (inRange (smSeq q) ?b ?D)" using range_hd [OF sorted q(1) refl q(2)] by simp
      then have "length (filter (\<lambda>r. smSeq r < smSeq q) ?D) \<le> n"
        using Suc.prems(4) split by (metis (no_types, lifting) length_append add_Suc_right le_less_Suc_eq less_add_same_cancel1 not_less_eq_eq order_less_le_trans nle_le)
      with Suc.IH [of "BeforeSeq (smSeq q)", OF _ _ next_load] \<open>smSeq q \<le> maxSafeInteger\<close>
      have ih: "followBack (\<lambda>c. servePage sv sid c None) (Suc n) (Some (displayCursor (psStringify sv) sid (smSeq q) Before)) \<noteq> []"
        "concat (rev (map mpItems (followBack (\<lambda>c. servePage sv sid c None) (Suc n) (Some (displayCursor (psStringify sv) sid (smSeq q) Before))))) =
           map (shownEntry ?rows) (filter (\<lambda>r. smSeq r < smSeq q) ?D)"
        "mpPreviousCursor (List.last (followBack (\<lambda>c. servePage sv sid c None) (Suc n) (Some (displayCursor (psStringify sv) sid (smSeq q) Before)))) = None"
        by (simp_all add: isForward_def positionBound_def del: followBack.simps)
      have unfold: "followBack (\<lambda>c. servePage sv sid c None) (Suc (Suc n)) cursor =
          servedPage sv sid p # followBack (\<lambda>c. servePage sv sid c None) (Suc n) (Some (displayCursor (psStringify sv) sid (smSeq q) Before))"
        using Suc.prems(3) q(4) more by (subst followBack.simps(2)) simp
      show ?thesis unfolding unfold using ih items split [symmetric] by (simp del: followBack.simps)
    qed
  qed
qed

text \<open>C14: A browser that loads the newest page of a session and then follows its cursors back, with any limit the route
  takes, gets the whole transcript: every row that is shown, once and in order, and the last page says there is no
  earlier one.\<close>
theorem history_complete:
  assumes "serverOk sv sid"
  shows "let pages = followBack (\<lambda>c. servePage sv sid c None) (Suc (length (psStore sv sid))) None in
    pages \<noteq> [] \<and> concat (rev (map mpItems pages)) = map (shownEntry (psStore sv sid)) (displayRows (psStore sv sid)) \<and>
    mpPreviousCursor (List.last pages) = None"
proof -
  let ?D = "displayRows (psStore sv sid)"
  have all: "filter (\<lambda>r. smSeq r < positionBound Newest) ?D = ?D"
    using assms by (intro filter_True) (auto simp: serverOk_def displayRows_set positionBound_def)
  have len: "length ?D \<le> length (psStore sv sid)"
    by (simp add: displayRows_def bySeq_def)
  have load: "servePage sv sid None None = Some (servedPage sv sid Newest)"
    by (rule servePage_at(3) [OF assms, of 0]) (simp_all add: maxSafeInteger_def)
  show ?thesis
    using followBack_before [OF assms _ _ load, of "length (psStore sv sid)"] len
    by (simp add: all isForward_def Let_def positionBound_def [of Newest] all [unfolded positionBound_def, simplified] del: followBack.simps)
qed

subsection \<open>Catching up\<close>

fun syncLoop ::
  "string comparator \<Rightarrow> (string option \<Rightarrow> messagePage option) \<Rightarrow> nat \<Rightarrow> conversationsStore \<Rightarrow> string \<Rightarrow> syncState \<Rightarrow> conversationsStore \<times> bool" where
  "syncLoop lc load 0 s sid sy = (s, False)"
| "syncLoop lc load (Suc n) s sid sy =
     (case syncPage lc s sid sy (load (syAfter sy)) of
        ((s', calls), SyncDone done) \<Rightarrow> (s', done)
      | ((s', calls), SyncContinues sy') \<Rightarrow> syncLoop lc load n s' sid sy')"

definition loadAfter :: "pageServer \<Rightarrow> string \<Rightarrow> string option \<Rightarrow> messagePage option" where
  "loadAfter sv sid after = map_option messagePage.truncate (servePage sv sid None after)"

lemma syncPage_result:
  assumes "sid \<noteq> []" "load (syAfter sy) = Some page"
  obtains s' calls where "entries (stateFor s' sid) = upsertEntries lc (entries (stateFor s sid)) (mpItems page)"
    "syncPage lc s sid sy (load (syAfter sy)) = ((s', calls),
       if \<not> mpHasNextPage page then SyncDone True
       else if \<not> truthyStr (mpEndCursor page) \<or> mpEndCursor page = syAfter sy then SyncDone False
       else SyncContinues (sy\<lparr>syAfter := mpEndCursor page\<rparr>))"
proof -
  obtain s' calls out where r: "syncPage lc s sid sy (load (syAfter sy)) = ((s', calls), out)" by (metis surj_pair)
  have "entries (stateFor s' sid) = upsertEntries lc (entries (stateFor s sid)) (mpItems page)"
    using sync_page_effect [OF assms(1), of lc s sy page] r assms(2) by (simp add: Let_def)
  moreover have "out = (if \<not> mpHasNextPage page then SyncDone True
       else if \<not> truthyStr (mpEndCursor page) \<or> mpEndCursor page = syAfter sy then SyncDone False
       else SyncContinues (sy\<lparr>syAfter := mpEndCursor page\<rparr>))"
    using r assms(2) by (auto simp: syncPage_def Let_def case_prod_beta split: if_splits)
  ultimately show thesis using that r by blast
qed

lemma syncLoop_from:
  assumes ok: "serverOk sv sid" and sid: "sid \<noteq> []"
    and a: "0 \<le> a" "a \<le> maxSafeInteger" "syAfter sy = Some (displayCursor (psStringify sv) sid a After)"
    and n: "length (filter (\<lambda>r. a < smSeq r) (displayRows (psStore sv sid))) \<le> n"
  shows "\<exists>s' bs. syncLoop lc (loadAfter sv sid) (Suc n) s sid sy = (s', True) \<and>
    entries (stateFor s' sid) = foldl (upsertEntries lc) (entries (stateFor s sid)) bs \<and>
    concat bs = map (shownEntry (psStore sv sid)) (filter (\<lambda>r. a < smSeq r) (displayRows (psStore sv sid)))"
  using a n
proof (induction n arbitrary: a s sy)
  case (0 a s sy)
  let ?rows = "psStore sv sid"
  from 0 have none: "\<not> (\<exists>r\<in>set (displayRows ?rows). a < smSeq r)" by (simp add: filter_empty_conv)
  then have page: "loadMessagePage (psStringify sv) sid ?rows l (AfterSeq a) = emptyPage (psStringify sv) sid ?rows (AfterSeq a)" for l
    by (intro page_empty) (simp add: isForward_def positionBound_def)
  have load: "loadAfter sv sid (syAfter sy) = Some (messagePage.truncate (servedPage sv sid (AfterSeq a)))"
    using 0 servePage_at(2) [OF ok 0(1,2)] by (simp add: loadAfter_def)
  have no_next: "\<not> mpHasNextPage (messagePage.truncate (servedPage sv sid (AfterSeq a)))"
    "mpItems (messagePage.truncate (servedPage sv sid (AfterSeq a))) = []"
    using none by (simp_all add: messagePage.truncate_def servedPage_fields page emptyPage_def Let_def anyDisplayRow_iff isForward_def positionBound_def)
  obtain s' calls where s': "entries (stateFor s' sid) = upsertEntries lc (entries (stateFor s sid)) []"
    "syncPage lc s sid sy (loadAfter sv sid (syAfter sy)) = ((s', calls), SyncDone True)"
    by (rule syncPage_result [OF sid, of "loadAfter sv sid" sy, OF load, of lc s]) (use no_next in simp)
  show ?case
    by (intro exI [of _ s'] exI [of _ "[[]]"]) (use s' 0 in simp)
next
  case (Suc n a s sy)
  let ?rows = "psStore sv sid"
  let ?D = "displayRows ?rows"
  let ?page = "messagePage.truncate (servedPage sv sid (AfterSeq a))"
  have load: "loadAfter sv sid (syAfter sy) = Some ?page"
    using Suc.prems servePage_at(2) [OF ok Suc.prems(1,2)] by (simp add: loadAfter_def)
  show ?case
  proof (cases "\<exists>r\<in>set ?D. a < smSeq r")
    case False
    then have page: "loadMessagePage (psStringify sv) sid ?rows l (AfterSeq a) = emptyPage (psStringify sv) sid ?rows (AfterSeq a)" for l
      by (intro page_empty) (simp add: isForward_def positionBound_def)
    have no_next: "\<not> mpHasNextPage ?page" "mpItems ?page = []"
      using False by (simp_all add: messagePage.truncate_def servedPage_fields page emptyPage_def Let_def anyDisplayRow_iff isForward_def positionBound_def)
    obtain s' calls where s': "entries (stateFor s' sid) = upsertEntries lc (entries (stateFor s sid)) []"
      "syncPage lc s sid sy (loadAfter sv sid (syAfter sy)) = ((s', calls), SyncDone True)"
      by (rule syncPage_result [OF sid, of "loadAfter sv sid" sy, OF load, of lc s]) (use no_next in simp)
    show ?thesis
      by (intro exI [of _ s'] exI [of _ "[[]]"]) (use s' False in simp)
  next
    case True
    have u: "uniqueSeqs ?rows" and lim: "0 < the (requestedLimit (psNumber sv) (psLimit sv))"
      using ok requestedLimit_pos by (auto simp: serverOk_def)
    from page_forward [OF u lim True, of "psStringify sv" sid] obtain q where q: "q \<in> set ?D" "a < smSeq q"
      "mpItems (loadMessagePage (psStringify sv) sid ?rows (the (requestedLimit (psNumber sv) (psLimit sv))) (AfterSeq a)) = map (rowEntry ?rows) (afterUpTo a (smSeq q) ?D)"
      "mpEndCursor (servedPage sv sid (AfterSeq a)) = Some (displayCursor (psStringify sv) sid (smSeq q) After)"
      "mpHasNextPage (servedPage sv sid (AfterSeq a)) = (\<exists>r\<in>set ?D. smSeq q < smSeq r)"
      unfolding servedPage_fields by blast
    have page: "mpItems ?page = map (shownEntry ?rows) (afterUpTo a (smSeq q) ?D)"
      "mpEndCursor ?page = Some (displayCursor (psStringify sv) sid (smSeq q) After)"
      "mpHasNextPage ?page = (\<exists>r\<in>set ?D. smSeq q < smSeq r)"
      using served_items [OF q(3)] q(4,5) by (simp_all add: messagePage.truncate_def)
    have sorted: "sorted_wrt (<) (map smSeq ?D)" by (rule displayRows_sorted [OF u])
    have split: "afterUpTo a (smSeq q) ?D @ filter (\<lambda>r. smSeq q < smSeq r) ?D = filter (\<lambda>r. a < smSeq r) ?D"
    proof -
      have m: "filter (\<lambda>r. x < smSeq r) ?D = afterUpTo x maxSafeInteger ?D" for x
        unfolding afterUpTo_def by (rule filter_cong) (use ok in \<open>auto simp: serverOk_def displayRows_set\<close>)
      have "smSeq q \<le> maxSafeInteger" using ok q(1) by (auto simp: serverOk_def displayRows_set)
      then show ?thesis using afterUpTo_join [OF sorted, of a "smSeq q" maxSafeInteger] q(2) by (simp add: m)
    qed
    show ?thesis
    proof (cases "\<exists>r\<in>set ?D. smSeq q < smSeq r")
      case False
      obtain s' calls where s': "entries (stateFor s' sid) = upsertEntries lc (entries (stateFor s sid)) (mpItems ?page)"
        "syncPage lc s sid sy (loadAfter sv sid (syAfter sy)) = ((s', calls), SyncDone True)"
        by (rule syncPage_result [OF sid, of "loadAfter sv sid" sy, OF load, of lc s]) (use page(3) False in simp)
      have "filter (\<lambda>r. smSeq q < smSeq r) ?D = []" using False by (simp add: filter_empty_conv)
      then have "mpItems ?page = map (shownEntry ?rows) (filter (\<lambda>r. a < smSeq r) ?D)" using split page(1) by simp
      then show ?thesis
        by (intro exI [of _ s'] exI [of _ "[mpItems ?page]"]) (use s' in simp)
    next
      case more: True
      have range: "0 \<le> smSeq q" "smSeq q \<le> maxSafeInteger" using ok q(1) by (auto simp: serverOk_def displayRows_set)
      have reads: "cursorsReadBack (psStringify sv) (psParse sv)" using ok by (simp add: serverOk_def)
      have "displayCursor (psStringify sv) sid (smSeq q) After \<noteq> displayCursor (psStringify sv) sid a After"
        using cursor_roundtrip [OF reads, of sid sid "smSeq q" After After] cursor_roundtrip [OF reads, of sid sid a After After]
          q(2) range Suc.prems(1,2) by auto
      then have cont: "truthyStr (mpEndCursor ?page)" "mpEndCursor ?page \<noteq> syAfter sy"
        using page(2) Suc.prems(3) displayCursor_value(2) [OF reads] by simp_all
      obtain s1 calls where s1: "entries (stateFor s1 sid) = upsertEntries lc (entries (stateFor s sid)) (mpItems ?page)"
        "syncPage lc s sid sy (loadAfter sv sid (syAfter sy)) = ((s1, calls), SyncContinues (sy\<lparr>syAfter := mpEndCursor ?page\<rparr>))"
        by (rule syncPage_result [OF sid, of "loadAfter sv sid" sy, OF load, of lc s]) (use page(3) more cont in simp)
      have "afterUpTo a (smSeq q) ?D \<noteq> []"
        using range_last [OF sorted q(1) refl q(2)] by (simp add: afterUpTo_def)
      then have "length (filter (\<lambda>r. smSeq q < smSeq r) ?D) < length (filter (\<lambda>r. a < smSeq r) ?D)"
        unfolding split [symmetric] by simp
      with Suc.prems(4) have n: "length (filter (\<lambda>r. smSeq q < smSeq r) ?D) \<le> n" by simp
      from Suc.IH [OF range, of "sy\<lparr>syAfter := mpEndCursor ?page\<rparr>", OF _ n, of s1] page(2) obtain s' bs where
        s': "syncLoop lc (loadAfter sv sid) (Suc n) s1 sid (sy\<lparr>syAfter := mpEndCursor ?page\<rparr>) = (s', True)"
        "entries (stateFor s' sid) = foldl (upsertEntries lc) (entries (stateFor s1 sid)) bs"
        "concat bs = map (shownEntry ?rows) (filter (\<lambda>r. smSeq q < smSeq r) ?D)" by (auto simp del: syncLoop.simps)
      have "syncLoop lc (loadAfter sv sid) (Suc (Suc n)) s sid sy = (s', True)"
        by (subst syncLoop.simps(2)) (simp add: s1(2) s'(1) del: syncLoop.simps)
      then show ?thesis
        by (intro exI [of _ s'] exI [of _ "mpItems ?page # bs"])
          (use s'(2,3) s1(1) page(1) in \<open>simp add: split [symmetric] del: syncLoop.simps\<close>)
    qed
  qed
qed

text \<open>C15: A browser that syncs from its last cursor ends, successfully, with the entries it had and everything the server
  has after that cursor, whatever the page limit: as if they had come in one page.\<close>
theorem sync_catches_up:
  assumes "serverOk sv sid" "sid \<noteq> []" "collatesDistinct lc" "0 \<le> a" "a \<le> maxSafeInteger"
    "syAfter sy = Some (displayCursor (psStringify sv) sid a After)" "entries (stateFor s sid) = foldl (upsertEntries lc) [] arrived"
  shows "let (s', done) = syncLoop lc (loadAfter sv sid) (Suc (length (psStore sv sid))) s sid sy in
    done \<and> entries (stateFor s' sid) = foldl (upsertEntries lc) []
      (arrived @ [map (shownEntry (psStore sv sid)) (filter (\<lambda>r. a < smSeq r) (displayRows (psStore sv sid)))])"
proof -
  let ?D = "displayRows (psStore sv sid)"
  have "length (filter (\<lambda>r. a < smSeq r) ?D) \<le> length ?D" by (rule length_filter_le)
  also have "\<dots> \<le> length (psStore sv sid)" by (simp add: displayRows_def bySeq_def)
  finally obtain s' bs where s': "syncLoop lc (loadAfter sv sid) (Suc (length (psStore sv sid))) s sid sy = (s', True)"
    "entries (stateFor s' sid) = foldl (upsertEntries lc) (entries (stateFor s sid)) bs"
    "concat bs = map (shownEntry (psStore sv sid)) (filter (\<lambda>r. a < smSeq r) ?D)"
    using syncLoop_from [OF assms(1,2,4,5,6)] by blast
  have "foldl (upsertEntries lc) [] (arrived @ bs) = foldl (upsertEntries lc) [] (arrived @ [concat bs])"
    unfolding upsertEntries_fold [OF assms(3)] by simp
  with s' assms(7) show ?thesis by (simp del: syncLoop.simps)
qed

subsection \<open>Tool calls and their results\<close>

text \<open>Results follow the message that made their calls, with nothing but its other results between.\<close>

definition resultsGrouped :: "messageRow list \<Rightarrow> bool" where
  "resultsGrouped rows \<longleftrightarrow>
     (\<forall>a\<in>set (displayRows rows). storedCallIds a \<noteq> [] \<longrightarrow> smRole a = ''assistant'') \<and>
     (\<forall>a\<in>set (displayRows rows). \<forall>r\<in>set (displayRows rows). \<forall>m\<in>set (displayRows rows). \<forall>c\<in>set (storedCallIds a).
        storedResultOf r = Some c \<and> smSeq a < smSeq m \<and> smSeq m < smSeq r \<longrightarrow>
        (\<exists>c'\<in>set (storedCallIds a). storedResultOf m = Some c'))"

lemma storedResultOf_parsed:
  assumes "storedResultOf r = Some c"
  obtains m where "rowParsed r = Some (ToolResultMsg m)" "trmCallId m = c"
proof (cases "smEnvelope r")
  case (StoredMessage m ts)
  with assms that show thesis by (cases m) (simp_all add: storedResultOf_def rowParsed_def)
qed (use assms in \<open>simp_all add: storedResultOf_def\<close>)

lemma issuingRow_some:
  assumes "a \<in> set rows" "smRole a = ''assistant''" "c \<in> set (storedCallIds a)" "smSeq a < n"
  shows "issuingRow rows n c \<noteq> None"
  unfolding issuingRow_def using assms by (auto simp: find_None_iff)

text \<open>A page of history never parts a tool call from a result of it: what comes before the page's first row has no
  call whose result is in the page or after it, where results follow their calls.\<close>
theorem backward_pages_keep_results:
  assumes "uniqueSeqs rows" "0 < limit" "\<not> isForward p" "\<exists>r\<in>set (displayRows rows). smSeq r < positionBound p" "resultsGrouped rows"
  shows "\<exists>q\<in>set (displayRows rows).
    mpItems (loadMessagePage stringify sid rows limit p) = map (rowEntry rows) (inRange (smSeq q) (positionBound p) (displayRows rows)) \<and>
    (\<forall>a\<in>set (displayRows rows). \<forall>r\<in>set (displayRows rows). \<forall>c\<in>set (storedCallIds a).
       storedResultOf r = Some c \<and> smSeq a < smSeq q \<longrightarrow> smSeq r < smSeq q)"
proof -
  from page_backward [OF assms(1-3) refl assms(4)] obtain q where q: "q \<in> set (displayRows rows)"
    "mpItems (loadMessagePage stringify sid rows limit p) = map (rowEntry rows) (inRange (smSeq q) (positionBound p) (displayRows rows))"
    "\<forall>m. rowParsed q = Some (ToolResultMsg m) \<longrightarrow> issuingRow rows (smSeq q) (trmCallId m) = None" by blast
  have no_result: "storedResultOf q \<noteq> Some c'"
    if a: "a \<in> set (displayRows rows)" "c' \<in> set (storedCallIds a)" "smSeq a < smSeq q" for a c'
  proof
    assume "storedResultOf q = Some c'"
    then obtain m where m: "rowParsed q = Some (ToolResultMsg m)" "trmCallId m = c'" by (rule storedResultOf_parsed)
    have "smRole a = ''assistant''"
      using bspec [OF conjunct1 [OF assms(5) [unfolded resultsGrouped_def]] a(1)] a(2) by (cases "storedCallIds a") simp_all
    then have "issuingRow rows (smSeq q) c' \<noteq> None" using a by (intro issuingRow_some [of a]) (auto simp: displayRows_set)
    with q(3) [rule_format, OF m(1)] m(2) show False by simp
  qed
  have "smSeq r < smSeq q"
    if t: "a \<in> set (displayRows rows)" "r \<in> set (displayRows rows)" "c \<in> set (storedCallIds a)" "storedResultOf r = Some c" "smSeq a < smSeq q"
    for a r c
  proof (rule ccontr)
    assume "\<not> smSeq r < smSeq q"
    then consider "smSeq r = smSeq q" | "smSeq q < smSeq r" by linarith
    then show False
    proof cases
      case 1
      have "sorted_wrt (<) (map smSeq (displayRows rows))" by (rule displayRows_sorted [OF assms(1)])
      then have "distinct (map smSeq (displayRows rows))" by (simp add: strict_sorted_iff)
      with 1 t(2) q(1) have "r = q" by (auto simp: distinct_map inj_on_def)
      with no_result [OF t(1,3,5)] t(4) show False by simp
    next
      case 2
      with assms(5) t q(1) obtain c' where "c' \<in> set (storedCallIds a)" "storedResultOf q = Some c'"
        unfolding resultsGrouped_def by blast
      with no_result [OF t(1) _ t(5)] show False by blast
    qed
  qed
  with q show ?thesis by blast
qed

text \<open>A page of newer rows does part a call from its results: where its limit falls on a result that is not the last of
  its message, the page ends there and the other results are left to the next page.\<close>
theorem forward_page_parts_results:
  assumes "filter (\<lambda>x. a < smSeq x) (displayRows rows) = before @ [call, r1] @ r2 # later" "length before + 2 = limit"
    "c1 \<in> set (storedCallIds call)" "c2 \<in> set (storedCallIds call)" "storedResultOf r1 = Some c1" "storedResultOf r2 = Some c2"
  shows "mpItems (loadMessagePage stringify sid rows limit (AfterSeq a)) = map (rowEntry rows) (before @ [call, r1])"
proof -
  have found: "queryDisplayRows rows (\<lambda>n. a < n) False (Some limit) = before @ [call, r1]"
    using assms(1) by (simp add: query_limited flip: assms(2))
  have "list_all displayRow (before @ [call, r1])"
    using displayRows_sub [of "\<lambda>x. a < smSeq x" rows] assms(1) by simp
  note parsed = parseDisplayRows_all [OF this]
  obtain m where "rowParsed r1 = Some (ToolResultMsg m)" "trmCallId m = c1" by (rule storedResultOf_parsed [OF assms(5)])
  then have "expandForward rows (map parsedRow (before @ [call, r1])) = map parsedRow (before @ [call, r1])"
    by (simp add: expandForward_def parsedRow_def)
  with found parsed show ?thesis
    by (simp add: loadMessagePage_def Let_def isForward_def positionBound_def rowEntry_def)
qed

subsection \<open>The active branch\<close>

definition parentsEarlier :: "messageRow list \<Rightarrow> bool" where
  "parentsEarlier rows \<longleftrightarrow> (\<forall>r\<in>set rows. \<forall>p. parentRow rows r = Some p \<longrightarrow> smId p < smId r)"

text \<open>Each row of a path is the parent of the next.\<close>

fun parentPath :: "messageRow list \<Rightarrow> messageRow list \<Rightarrow> bool" where
  "parentPath rows (r # q # path) = (parentRow rows r = Some q \<and> parentPath rows (q # path))"
| "parentPath rows [r] = (parentRow rows r = None)"
| "parentPath rows [] = False"

lemma ancestry_path:
  assumes "parentsEarlier rows" "r \<in> set rows" "\<forall>v\<in>set visited. smId r \<le> v"
  shows "hd (ancestry rows visited r) = r \<and> parentPath rows (ancestry rows visited r)"
  using assms(2,3)
proof (induction "card (smId ` set rows - set visited)" arbitrary: visited r rule: less_induct)
  case less
  show ?case
  proof (cases "parentRow rows r")
    case None
    then show ?thesis by (simp add: ancestry.simps [of rows visited r])
  next
    case (Some p)
    have lt: "smId p < smId r" using assms(1) Some less.prems(1) by (simp add: parentsEarlier_def)
    with less.prems have new: "smId p \<notin> set visited" "\<forall>v\<in>set (smId p # visited). smId p \<le> v" by force+
    have "smId ` set rows - set (smId p # visited) \<subset> smId ` set rows - set visited"
      using parentRow_mem [OF Some] new(1) by auto
    then have "card (smId ` set rows - set (smId p # visited)) < card (smId ` set rows - set visited)"
      by (rule psubset_card_mono [rotated]) simp
    from less.hyps [OF this parentRow_mem [OF Some] new(2)] have ih: "hd (ancestry rows (smId p # visited) p) = p" "parentPath rows (ancestry rows (smId p # visited) p)"
      by simp_all
    have "ancestry rows visited r = r # ancestry rows (smId p # visited) p"
      using Some new(1) by (simp add: ancestry.simps [of rows visited r])
    with ih Some show ?thesis by (cases "ancestry rows (smId p # visited) p") simp_all
  qed
qed

text \<open>The messages of a branch are those of the path from its first row, which has no parent, to its tip, in that order,
  where rows are stored after their parents; an unknown tip fails and no tip is an empty branch.\<close>
theorem branch_is_path_to_tip:
  assumes "parentsEarlier rows" "find (\<lambda>r. smHarnessId r = t) rows = Some r"
  shows "\<exists>path. loadBranchMessages rows (Some t) = Inr (List.map_filter rowParsed path) \<and>
    parentPath rows (rev path) \<and> List.last path = r"
proof -
  let ?up = "ancestry rows [smId r] r"
  have p: "hd ?up = r \<and> parentPath rows ?up" by (rule ancestry_path [OF assms(1)]) (use find_SomeD(1) [OF assms(2)] in simp_all)
  then have "?up \<noteq> []" by (cases ?up) simp_all
  with p assms(2) show ?thesis
    by (intro exI [of _ "rev ?up"]) (simp add: loadBranchMessages_def last_rev)
qed

subsection \<open>A server\<close>

text \<open>Four rows: an input, a message with two tool calls and their results; cursors are numbers of JSON values.\<close>

instance json :: countable by countable_datatype

definition demoStringify :: "json \<Rightarrow> string" where "demoStringify v = CHR ''c'' # showNat (to_nat v)"

definition demoParse :: "string \<Rightarrow> json option" where
  "demoParse s = (if s = [] then None else Some (from_nat (digitsToNat (tl s))))"

lemma demo_reads_back: "cursorsReadBack demoStringify demoParse"
  using showNat_digits by (simp add: cursorsReadBack_def demoStringify_def demoParse_def)

definition demoStored :: "int \<Rightarrow> string \<Rightarrow> agentMessage \<Rightarrow> messageRow" where
  "demoStored n role m = \<lparr>smId = nat n, smParent = (if n = 1 then None else Some (nat (n - 1))), smSeq = n, smHarnessId = showInt n, smRole = role,
     smEnvelope = StoredMessage m n, smCreatedAt = []\<rparr>"

definition demoResult :: "string \<Rightarrow> agentMessage" where
  "demoResult call = ToolResultMsg \<lparr>trmCallId = call, trmToolName = [], trmContent = [], trmDetails = None, trmIsError = False, trmTimestamp = 0\<rparr>"

definition demoCalls :: agentMessage where
  "demoCalls = AssistantMsg \<lparr>amContent = map (\<lambda>c. ToolCallContent \<lparr>tcId = c, tcName = [], tcArguments = JNull, tcPartialJson = None\<rparr>) [''a'', ''b''],
     amTimestamp = 0, amStopReason = None, amErrorMessage = None\<rparr>"

definition demoRows :: "messageRow list" where
  "demoRows = [demoStored 1 ''compactionSummary'' (CompactionMsg \<lparr>cmContent = None, cmSummary = None, cmTimestamp = 0\<rparr>),
     demoStored 2 ''assistant'' demoCalls, demoStored 3 ''toolResult'' (demoResult ''a''), demoStored 4 ''toolResult'' (demoResult ''b'')]"

lemma demo_displayRows: "displayRows demoRows = demoRows"
  by (simp add: displayRows_def demoRows_def demoStored_def displayRow_def bySeq_def)

definition demoServer :: pageServer where
  "demoServer = \<lparr>psNumber = (\<lambda>s. None), psStringify = demoStringify, psParse = demoParse,
     psTables = \<lparr>rtSessions = [(''s'', \<lparr>srProject = 1, srParent = None, srExtension = None, srTask = None, srSource = None,
       srFinished = False, srSettlement = None, srResumes = [], srModel = (None, None, None)\<rparr>)],
       rtTasksClosed = [], rtSourceNodes = [], rtLanes = []\<rparr>,
     psStore = (\<lambda>sid. demoRows), psLimit = None\<rparr>"

lemma demo_server_ok: "serverOk demoServer ''s''"
  using demo_reads_back
  by (simp add: serverOk_def demoServer_def demoRows_def demoStored_def getSessionRow_def requestedLimit_def maxSafeInteger_def)

theorem history_complete_witness:
  "\<exists>pages :: sessionMessagePage list. map ceSeq (concat (rev (map mpItems pages))) = [1, 2, 3, 4] \<and> mpPreviousCursor (List.last pages) = None"
proof -
  have seqs: "map ceSeq (map (shownEntry (psStore demoServer ''s'')) (displayRows (psStore demoServer ''s''))) = [1, 2, 3, 4]"
    by (simp add: demoServer_def demo_displayRows) (simp add: demoRows_def demoStored_def shownEntry_def rowEntry_def pageItem_def parsedRow_def Let_def)
  let ?pages = "followBack (\<lambda>c. servePage demoServer ''s'' c None) (Suc (length (psStore demoServer ''s''))) None"
  have "concat (rev (map mpItems ?pages)) = map (shownEntry (psStore demoServer ''s'')) (displayRows (psStore demoServer ''s''))"
    "mpPreviousCursor (List.last ?pages) = None"
    using history_complete [OF demo_server_ok, unfolded Let_def] by blast+
  then show ?thesis by (intro exI [of _ ?pages]) (simp only: seqs)
qed

theorem sync_catches_up_witness:
  "\<exists>s'. map ceSeq (entries (stateFor s' ''s'')) = [4]"
proof -
  let ?sy = "\<lparr>syAfter = Some (displayCursor (psStringify demoServer) ''s'' 3 After), syEventVersion = None, syErrorAtStart = []\<rparr>"
  have start: "entries (stateFor (emptyStore True) ''s'') = foldl (upsertEntries sampleCollation) [] []"
    by (simp add: stateFor_def emptyStore_def blankConversationState_def chatState.defs)
  have new: "map (shownEntry (psStore demoServer ''s'')) (filter (\<lambda>r. 3 < smSeq r) (displayRows (psStore demoServer ''s''))) =
      [shownEntry demoRows (demoStored 4 ''toolResult'' (demoResult ''b''))]"
    by (simp add: demoServer_def demo_displayRows) (simp add: demoRows_def demoStored_def)
  have shown: "map ceSeq (upsertEntries sampleCollation [] [shownEntry demoRows (demoStored 4 ''toolResult'' (demoResult ''b''))]) = [4]"
    by (simp add: upsertEntries_def byId_def) (simp add: shownEntry_def rowEntry_def pageItem_def parsedRow_def demoStored_def Let_def)
  have "case syncLoop sampleCollation (loadAfter demoServer ''s'') (Suc (length (psStore demoServer ''s''))) (emptyStore True) ''s'' ?sy of
      (s', ended) \<Rightarrow> ended \<and> entries (stateFor s' ''s'') = foldl (upsertEntries sampleCollation) []
        ([] @ [map (shownEntry (psStore demoServer ''s'')) (filter (\<lambda>r. 3 < smSeq r) (displayRows (psStore demoServer ''s'')))])"
    by (rule sync_catches_up [OF demo_server_ok _ sampleCollation_distinct _ _ _ start, of 3 ?sy, unfolded Let_def]) (simp_all add: maxSafeInteger_def)
  then obtain s' where "entries (stateFor s' ''s'') = upsertEntries sampleCollation [] [shownEntry demoRows (demoStored 4 ''toolResult'' (demoResult ''b''))]"
    unfolding new by (auto split: prod.splits)
  with shown show ?thesis by metis
qed

lemma demo_seq: "smSeq (demoStored n role m) = n" "smRole (demoStored n role m) = role"
  "storedResultOf (demoStored n role (demoResult c)) = Some c" "storedCallIds (demoStored n role (demoResult c)) = []"
  "storedCallIds (demoStored n role demoCalls) = [''a'', ''b'']" "storedResultOf (demoStored n role demoCalls) = None"
  "storedCallIds (demoStored n role (CompactionMsg cm)) = []" "storedResultOf (demoStored n role (CompactionMsg cm)) = None"
  by (simp_all add: demoStored_def storedResultOf_def storedCallIds_def demoResult_def messageCallIds_def demoCalls_def map_filter_simps)

theorem backward_pages_keep_results_witness:
  "2 \<in> set (map ceSeq (mpItems (loadMessagePage demoStringify ''s'' demoRows 1 Newest)))"
proof -
  let ?page = "loadMessagePage demoStringify ''s'' demoRows 1 Newest"
  let ?a = "demoStored 2 ''assistant'' demoCalls" and ?r = "demoStored 4 ''toolResult'' (demoResult ''b'')"
  have rows: "set (displayRows demoRows) = set demoRows" "?a \<in> set demoRows" "?r \<in> set demoRows" "uniqueSeqs demoRows"
    unfolding demo_displayRows by (simp_all add: demoRows_def demo_seq)
  have grouped: "resultsGrouped demoRows"
    unfolding resultsGrouped_def rows(1) by (simp add: demoRows_def demo_seq)
  have some: "\<exists>r\<in>set (displayRows demoRows). smSeq r < positionBound Newest"
    unfolding rows(1) by (rule bexI [OF _ rows(2)]) (simp add: demo_seq positionBound_def maxSafeInteger_def)
  obtain q where q: "q \<in> set demoRows" "mpItems ?page = map (rowEntry demoRows) (inRange (smSeq q) (positionBound Newest) (displayRows demoRows))"
    "smSeq ?a < smSeq q \<longrightarrow> smSeq ?r < smSeq q"
    using backward_pages_keep_results [OF rows(4) _ _ some grouped, of 1 demoStringify "''s''"] rows demo_seq(3,5)
    by (auto simp: isForward_def)
  have "smSeq q \<le> 4" using q(1) by (auto simp: demoRows_def demo_seq)
  with q(3) have "smSeq q \<le> 2" by (simp add: demo_seq)
  then have "?a \<in> set (inRange (smSeq q) (positionBound Newest) (displayRows demoRows))"
    using rows by (simp add: inRange_def demo_seq positionBound_def maxSafeInteger_def)
  moreover have "ceSeq (rowEntry demoRows ?a) = 2" by (simp add: rowEntry_def pageItem_def parsedRow_def Let_def demo_seq)
  ultimately show ?thesis unfolding q(2) by force
qed

theorem forward_page_parts_results_witness:
  "map ceSeq (mpItems (loadMessagePage demoStringify ''s'' demoRows 2 (AfterSeq 1))) = [2, 3]"
proof -
  have rows: "filter (\<lambda>x. 1 < smSeq x) (displayRows demoRows) = [] @ [demoStored 2 ''assistant'' demoCalls, demoStored 3 ''toolResult'' (demoResult ''a'')]
      @ demoStored 4 ''toolResult'' (demoResult ''b'') # []"
    by (simp add: demo_displayRows) (simp add: demoRows_def demo_seq)
  show ?thesis
    using forward_page_parts_results [OF rows, of 2 "''a''" "''b''" demoStringify "''s''"]
    by (simp add: demo_seq rowEntry_def pageItem_def parsedRow_def Let_def)
qed

theorem branch_is_path_to_tip_witness:
  "\<exists>path. loadBranchMessages demoRows (Some (showInt 4)) = Inr (List.map_filter rowParsed path) \<and> List.last path = demoStored 4 ''toolResult'' (demoResult ''b'')"
proof -
  have early: "parentsEarlier demoRows"
    by (simp add: parentsEarlier_def parentRow_def demoRows_def demoStored_def)
  have "showInt n = showInt 4 \<longleftrightarrow> n = 4" if "0 \<le> n" for n using that by (auto simp: showInt_def)
  then have "find (\<lambda>r. smHarnessId r = showInt 4) demoRows = Some (demoStored 4 ''toolResult'' (demoResult ''b''))"
    by (simp add: demoRows_def demoStored_def)
  from branch_is_path_to_tip [OF early this] show ?thesis by blast
qed

end
