(* ===== verification/Reverse_Patch.thy ===== *)
theory Reverse_Patch
  imports Reins_Prelude
begin

text \<open>
  Undoing a file's patch to show the lines around a change: \<^verbatim>\<open>packages/frontend/src/models/changes/patch.ts\<close>. A text is the
  list of its UTF-16 code units, since the expression that cuts a patch into lines treats code units other than a
  newline specially. Numbers are exact (a hunk header beyond \<open>2 ^ 53\<close> is not). Thrown errors are \<open>patchError\<close>.
\<close>

type_synonym codeUnits = "nat list"

definition codeUnitsOf :: "string \<Rightarrow> codeUnits" where
  "codeUnitsOf s = map of_char s"

datatype patchSide = OldSide | NewSide
datatype patchLineKind = ContextLine | AdditionLine | DeletionLine

record patchLine =
  plKind :: patchLineKind
  plText :: codeUnits
  plOldNewline :: bool
  plNewNewline :: bool

record patchHunk =
  phOldStart :: int
  phOldCount :: int
  phNewStart :: int
  phNewCount :: int
  phLines :: "patchLine list"

record textLine =
  tlText :: codeUnits
  tlNewline :: bool

datatype patchError =
    RangeMismatch
  | ContentMismatch
  | NotComplete patchSide
  | InvalidMarker
  | NoHunks
  | InvalidCounts

subsection \<open>Lines of a patch\<close>

text \<open>The code units that \<open>.\<close> does not match.\<close>

definition lineTerminators :: "nat list" where "lineTerminators = [10, 13, 0x2028, 0x2029]"

text \<open>The matches of \<open>.*(?:\n|$)\<close>: where neither a newline nor the end follows, the search starts over after the
  terminator that is in the way, so that what came before it is in no match.\<close>

fun physicalLines :: "codeUnits \<Rightarrow> codeUnits \<Rightarrow> codeUnits list" where
  "physicalLines current [] = (if current = [] then [[]] else [current, []])"
| "physicalLines current (c # rest) =
     (if c = 10 then (current @ [c]) # physicalLines [] rest
      else if c \<in> set lineTerminators then physicalLines [] rest
      else physicalLines (current @ [c]) rest)"

definition isDigitU :: "nat \<Rightarrow> bool" where "isDigitU c = (48 \<le> c \<and> c \<le> 57)"

definition numberOf :: "codeUnits \<Rightarrow> int" where
  "numberOf s = foldl (\<lambda>n c. 10 * n + (int c - 48)) 0 s"

definition dropPrefix :: "string \<Rightarrow> codeUnits \<Rightarrow> codeUnits option" where
  "dropPrefix p s = (if take (length p) s = codeUnitsOf p then Some (drop (length p) s) else None)"

text \<open>\<open>(\d+)(?:,(\d+))?\<close>: a start and a count, which is 1 when it is left out.\<close>

definition rangeField :: "codeUnits \<Rightarrow> (int \<times> int \<times> codeUnits) option" where
  "rangeField s =
     (let ds = takeWhile isDigitU s; r = dropWhile isDigitU s
      in if ds = [] then None
         else case r of
             [] \<Rightarrow> Some (numberOf ds, 1, r)
           | c # r' \<Rightarrow>
               if c = 44 \<and> takeWhile isDigitU r' \<noteq> []
               then Some (numberOf ds, numberOf (takeWhile isDigitU r'), dropWhile isDigitU r')
               else Some (numberOf ds, 1, r))"

definition hunkHeader :: "codeUnits \<Rightarrow> patchHunk option" where
  "hunkHeader line =
     Option.bind (dropPrefix ''@@ -'' line) (\<lambda>s.
     Option.bind (rangeField s) (\<lambda>(oldStart, oldCount, s).
     Option.bind (dropPrefix '' +'' s) (\<lambda>s.
     Option.bind (rangeField s) (\<lambda>(newStart, newCount, s).
     Option.bind (dropPrefix '' @@'' s) (\<lambda>s.
       Some \<lparr>phOldStart = oldStart, phOldCount = oldCount, phNewStart = newStart, phNewCount = newCount, phLines = []\<rparr>)))))"

definition noNewlineMarker :: codeUnits where
  "noNewlineMarker = codeUnitsOf (CHR 0x5C # '' No newline at end of file'')"

definition lineKind :: "codeUnits \<Rightarrow> patchLineKind option" where
  "lineKind line =
     (case line of
        [] \<Rightarrow> None
      | c # r \<Rightarrow> if c = 32 then Some ContextLine else if c = 43 then Some AdditionLine
          else if c = 45 then Some DeletionLine else None)"

definition markNoNewline :: "patchLine \<Rightarrow> patchLine" where
  "markNoNewline l =
     l\<lparr>plOldNewline := plOldNewline l \<and> plKind l = AdditionLine,
       plNewNewline := plNewNewline l \<and> plKind l = DeletionLine\<rparr>"

text \<open>One line. The hunks so far end with the current one, whose last line is \<open>previous\<close>.\<close>

definition parsePatchLine :: "codeUnits \<Rightarrow> patchHunk list \<Rightarrow> patchError + patchHunk list" where
  "parsePatchLine physicalLine hunks =
     (if physicalLine = [] then Inr hunks
      else
        (let line = (if List.last physicalLine = 10 then butlast physicalLine else physicalLine)
         in case hunkHeader line of
              Some h \<Rightarrow> Inr (hunks @ [h])
            | None \<Rightarrow>
                if hunks = [] then Inr hunks
                else
                  (let h = List.last hunks; ls = phLines h
                   in if line = noNewlineMarker
                      then if ls = [] then Inl InvalidMarker
                           else Inr (butlast hunks @ [h\<lparr>phLines := butlast ls @ [markNoNewline (List.last ls)]\<rparr>])
                      else
                        (case lineKind line of
                           None \<Rightarrow> Inr hunks
                         | Some k \<Rightarrow> Inr (butlast hunks @ [h\<lparr>phLines := ls @
                             [\<lparr>plKind = k, plText = tl line, plOldNewline = True, plNewNewline = True\<rparr>]\<rparr>])))))"

fun parsePatchLines :: "codeUnits list \<Rightarrow> patchHunk list \<Rightarrow> patchError + patchHunk list" where
  "parsePatchLines [] hunks = Inr hunks"
| "parsePatchLines (p # ps) hunks =
     (case parsePatchLine p hunks of Inl e \<Rightarrow> Inl e | Inr hunks' \<Rightarrow> parsePatchLines ps hunks')"

definition sideLines :: "patchSide \<Rightarrow> patchLine list \<Rightarrow> patchLine list" where
  "sideLines side ls =
     filter (\<lambda>l. plKind l \<noteq> (case side of OldSide \<Rightarrow> AdditionLine | NewSide \<Rightarrow> DeletionLine)) ls"

definition countsValid :: "patchHunk \<Rightarrow> bool" where
  "countsValid h =
     (int (length (sideLines OldSide (phLines h))) = phOldCount h \<and> int (length (sideLines NewSide (phLines h))) = phNewCount h)"

definition parseHunks :: "codeUnits \<Rightarrow> bool \<Rightarrow> patchError + patchHunk list" where
  "parseHunks patch allowEmpty =
     (case parsePatchLines (physicalLines [] patch) [] of
        Inl e \<Rightarrow> Inl e
      | Inr hunks \<Rightarrow>
          if hunks = [] \<and> \<not> allowEmpty then Inl NoHunks
          else if list_all countsValid hunks then Inr hunks else Inl InvalidCounts)"

subsection \<open>Texts and their lines\<close>

definition rangeIndex :: "int \<Rightarrow> int \<Rightarrow> int" where
  "rangeIndex start len = (if len = 0 then start else start - 1)"

fun splitTextFrom :: "codeUnits \<Rightarrow> codeUnits \<Rightarrow> textLine list" where
  "splitTextFrom current [] = (if current = [] then [] else [\<lparr>tlText = current, tlNewline = False\<rparr>])"
| "splitTextFrom current (c # rest) =
     (if c = 10 then \<lparr>tlText = current, tlNewline = True\<rparr> # splitTextFrom [] rest
      else splitTextFrom (current @ [c]) rest)"

definition splitText :: "codeUnits \<Rightarrow> textLine list" where
  "splitText = splitTextFrom []"

definition joinText :: "textLine list \<Rightarrow> codeUnits" where
  "joinText ls = concat (map (\<lambda>l. tlText l @ (if tlNewline l then [10] else [])) ls)"

definition lineOnSide :: "patchSide \<Rightarrow> patchLine \<Rightarrow> textLine" where
  "lineOnSide side l =
     \<lparr>tlText = plText l, tlNewline = (case side of OldSide \<Rightarrow> plOldNewline l | NewSide \<Rightarrow> plNewNewline l)\<rparr>"

subsection \<open>Undoing a patch\<close>

text \<open>The lines of one hunk against the rest of the resulting file: the old lines it gives and what of the file is
  left.\<close>

fun reverseHunkLines :: "patchLine list \<Rightarrow> textLine list \<Rightarrow> patchError + textLine list \<times> textLine list" where
  "reverseHunkLines [] file = Inr ([], file)"
| "reverseHunkLines (l # ls) file =
     (let old = (if plKind l \<noteq> AdditionLine then [lineOnSide OldSide l] else [])
      in if plKind l \<noteq> DeletionLine
         then (case file of
                 [] \<Rightarrow> Inl ContentMismatch
               | actual # file' \<Rightarrow>
                   if tlText actual \<noteq> plText l \<or> tlNewline actual \<noteq> plNewNewline l then Inl ContentMismatch
                   else map_sum id (apfst (\<lambda>olds. old @ olds)) (reverseHunkLines ls file'))
         else map_sum id (apfst (\<lambda>olds. old @ olds)) (reverseHunkLines ls file))"

text \<open>The hunks: \<open>cursor\<close> counts the lines of the file already used, \<open>file\<close> are the others.\<close>

fun reverseHunks :: "patchHunk list \<Rightarrow> int \<Rightarrow> textLine list \<Rightarrow> patchError + textLine list" where
  "reverseHunks [] cursor file = Inr file"
| "reverseHunks (h # hs) cursor file =
     (let start = rangeIndex (phNewStart h) (phNewCount h)
      in if start < cursor \<or> start > cursor + int (length file) then Inl RangeMismatch
         else (let gap = take (nat (start - cursor)) file; rest = drop (nat (start - cursor)) file
               in case reverseHunkLines (phLines h) rest of
                    Inl e \<Rightarrow> Inl e
                  | Inr (olds, rest') \<Rightarrow>
                      map_sum id (\<lambda>more. gap @ olds @ more)
                        (reverseHunks hs (start + int (length rest) - int (length rest')) rest')))"

definition reversePatch :: "codeUnits \<Rightarrow> codeUnits \<Rightarrow> patchError + codeUnits" where
  "reversePatch patch newText =
     (case parseHunks patch False of
        Inl e \<Rightarrow> Inl e
      | Inr hunks \<Rightarrow> map_sum id joinText (reverseHunks hunks 0 (splitText newText)))"

subsection \<open>A side of a one-sided patch\<close>

text \<open>With the \<open>m\<close> flag a line begins and ends at any terminator.\<close>

fun flaggedLines :: "codeUnits \<Rightarrow> codeUnits \<Rightarrow> codeUnits list" where
  "flaggedLines current [] = [current]"
| "flaggedLines current (c # rest) =
     (if c \<in> set lineTerminators then current # flaggedLines [] rest else flaggedLines (current @ [c]) rest)"

definition lineStarts :: "string \<Rightarrow> codeUnits \<Rightarrow> bool" where
  "lineStarts p l = (take (length p) l = codeUnitsOf p)"

definition hasLineStarting :: "string \<Rightarrow> codeUnits \<Rightarrow> bool" where
  "hasLineStarting p text = list_ex (lineStarts p) (flaggedLines [] text)"

definition hasLine :: "string \<Rightarrow> codeUnits \<Rightarrow> bool" where
  "hasLine p text = list_ex (\<lambda>l. l = codeUnitsOf p) (flaggedLines [] text)"

definition nullSide :: "codeUnits \<Rightarrow> patchSide \<Rightarrow> bool" where
  "nullSide patch side =
     (case side of
        OldSide \<Rightarrow> hasLine ''--- /dev/null'' patch \<or> hasLineStarting ''new file mode '' patch
      | NewSide \<Rightarrow> hasLine ''+++ /dev/null'' patch \<or> hasLineStarting ''deleted file mode '' patch)"

fun extractHunks :: "patchSide \<Rightarrow> patchHunk list \<Rightarrow> int \<Rightarrow> patchError + textLine list" where
  "extractHunks side [] cursor = Inr []"
| "extractHunks side (h # hs) cursor =
     (let start = (case side of OldSide \<Rightarrow> phOldStart h | NewSide \<Rightarrow> phNewStart h);
          len = (case side of OldSide \<Rightarrow> phOldCount h | NewSide \<Rightarrow> phNewCount h)
      in if rangeIndex start len \<noteq> cursor then Inl (NotComplete side)
         else map_sum id (\<lambda>more. map (lineOnSide side) (sideLines side (phLines h)) @ more)
                (extractHunks side hs (cursor + len)))"

definition extractFile :: "codeUnits \<Rightarrow> patchSide \<Rightarrow> patchError + codeUnits" where
  "extractFile patch side =
     (if nullSide patch side then Inr []
      else case parseHunks patch (hasLineStarting ''new file mode '' patch \<or> hasLineStarting ''deleted file mode '' patch) of
             Inl e \<Rightarrow> Inl e
           | Inr hunks \<Rightarrow> map_sum id joinText (extractHunks side hunks 0))"

end
