(* ===== verification/Patch_Laws.thy ===== *)
theory Patch_Laws
  imports Reverse_Patch
begin

text \<open>
  Laws of \<open>Reverse_Patch\<close>. A patch is written the way Git writes one, from its edits: the unchanged lines before a hunk,
  the hunk's heading and its lines. Undoing it on the new text gives the old one; whatever is undone was checked
  against the file; and a patch with a line that ends in a carriage return is always refused.
\<close>

subsection \<open>Edits and the patch Git writes for them\<close>

record patchEdit =
  peGap :: "textLine list"
  peHeading :: codeUnits
  peLines :: "patchLine list"

definition editSide :: "patchSide \<Rightarrow> patchEdit \<Rightarrow> textLine list" where
  "editSide side e = peGap e @ map (lineOnSide side) (sideLines side (peLines e))"

definition fileSide :: "patchSide \<Rightarrow> patchEdit list \<Rightarrow> textLine list \<Rightarrow> textLine list" where
  "fileSide side es tail = concat (map (editSide side) es) @ tail"

definition hunkAt :: "nat \<Rightarrow> nat \<Rightarrow> patchLine list \<Rightarrow> patchHunk" where
  "hunkAt oldPos newPos ls =
     (let oldN = length (sideLines OldSide ls); newN = length (sideLines NewSide ls)
      in \<lparr>phOldStart = int (if oldN = 0 then oldPos else Suc oldPos), phOldCount = int oldN,
          phNewStart = int (if newN = 0 then newPos else Suc newPos), phNewCount = int newN, phLines = ls\<rparr>)"

fun editHunks :: "nat \<Rightarrow> nat \<Rightarrow> patchEdit list \<Rightarrow> patchHunk list" where
  "editHunks oldPos newPos [] = []"
| "editHunks oldPos newPos (e # es) =
     hunkAt (oldPos + length (peGap e)) (newPos + length (peGap e)) (peLines e) #
     editHunks (oldPos + length (editSide OldSide e)) (newPos + length (editSide NewSide e)) es"

definition renderRange :: "int \<Rightarrow> int \<Rightarrow> codeUnits" where
  "renderRange start len =
     codeUnitsOf (showNat (nat start)) @ (if len = 1 then [] else 44 # codeUnitsOf (showNat (nat len)))"

definition renderHeader :: "patchHunk \<Rightarrow> codeUnits \<Rightarrow> codeUnits" where
  "renderHeader h heading =
     codeUnitsOf ''@@ -'' @ renderRange (phOldStart h) (phOldCount h) @ codeUnitsOf '' +'' @
     renderRange (phNewStart h) (phNewCount h) @ codeUnitsOf '' @@'' @ heading"

definition kindUnit :: "patchLineKind \<Rightarrow> nat" where
  "kindUnit k = (case k of ContextLine \<Rightarrow> 32 | AdditionLine \<Rightarrow> 43 | DeletionLine \<Rightarrow> 45)"

definition renderPatchLine :: "patchLine \<Rightarrow> codeUnits list" where
  "renderPatchLine l =
     (kindUnit (plKind l) # plText l) # (if plOldNewline l \<and> plNewNewline l then [] else [noNewlineMarker])"

definition renderHunk :: "patchHunk \<Rightarrow> codeUnits \<Rightarrow> codeUnits list" where
  "renderHunk h heading = renderHeader h heading # concat (map renderPatchLine (phLines h))"

definition renderEdits :: "patchEdit list \<Rightarrow> codeUnits list" where
  "renderEdits es = concat (map2 renderHunk (editHunks 0 0 es) (map peHeading es))"

definition unlinesU :: "codeUnits list \<Rightarrow> codeUnits" where
  "unlinesU ls = concat (map (\<lambda>l. l @ [10]) ls)"

definition renderPatch :: "codeUnits list \<Rightarrow> patchEdit list \<Rightarrow> codeUnits" where
  "renderPatch preamble es = unlinesU (preamble @ renderEdits es)"

definition cleanU :: "codeUnits \<Rightarrow> bool" where
  "cleanU l = (set l \<inter> set lineTerminators = {})"

text \<open>A line without terminators, its flags as Git's markers can say them; one that ends in a carriage return.\<close>

definition lineOk :: "patchLine \<Rightarrow> bool" where
  "lineOk l = (cleanU (plText l) \<and>
     (case plKind l of ContextLine \<Rightarrow> plOldNewline l = plNewNewline l | AdditionLine \<Rightarrow> plOldNewline l | DeletionLine \<Rightarrow> plNewNewline l))"

definition crLine :: "patchLine \<Rightarrow> bool" where
  "crLine l = (\<exists>t. plText l = t @ [13] \<and> cleanU t \<and> plOldNewline l \<and> plNewNewline l)"

definition preambleOk :: "codeUnits list \<Rightarrow> bool" where
  "preambleOk pre = list_all (\<lambda>l. cleanU l \<and> hunkHeader l = None) pre"

fun properLines :: "textLine list \<Rightarrow> bool" where
  "properLines [] = True"
| "properLines (l # ls) = (10 \<notin> set (tlText l) \<and> (tlNewline l \<or> ls = [] \<and> tlText l \<noteq> []) \<and> properLines ls)"

lemma lineOk_not_cr: "lineOk l \<Longrightarrow> \<not> crLine l"
  by (auto simp: lineOk_def crLine_def cleanU_def lineTerminators_def)

subsection \<open>Physical lines\<close>

lemma cleanU_simps [simp]:
  "cleanU []" "cleanU (c # l) = (c \<notin> {10, 13, 0x2028, 0x2029} \<and> cleanU l)" "cleanU (l @ m) = (cleanU l \<and> cleanU m)"
  by (auto simp: cleanU_def lineTerminators_def)

lemma physicalLines_clean:
  "cleanU l \<Longrightarrow> physicalLines current (l @ 10 # rest) = (current @ l @ [10]) # physicalLines [] rest"
  by (induction l arbitrary: current) (auto simp: lineTerminators_def)

lemma physicalLines_cr:
  "cleanU l \<Longrightarrow> physicalLines current (l @ 13 # 10 # rest) = [10] # physicalLines [] rest"
  by (induction l arbitrary: current) (auto simp: lineTerminators_def)

declare physicalLines.simps(2) [simp del]

lemma unlinesU_simps [simp]:
  "unlinesU [] = []" "unlinesU (l # ls) = l @ 10 # unlinesU ls" "unlinesU (ls @ ms) = unlinesU ls @ unlinesU ms"
  by (simp_all add: unlinesU_def)

subsection \<open>Headers\<close>

lemma codeUnitsOf_simps [simp]:
  "codeUnitsOf [] = []" "codeUnitsOf (c # s) = of_char c # codeUnitsOf s" "length (codeUnitsOf s) = length s"
  "codeUnitsOf (s @ t) = codeUnitsOf s @ codeUnitsOf t"
  by (simp_all add: codeUnitsOf_def)

lemma dropPrefix_append [simp]: "dropPrefix p (codeUnitsOf p @ s) = Some s"
  by (simp add: dropPrefix_def)

lemma numberOf_digits:
  assumes "list_all isDigitC s"
  shows "numberOf (codeUnitsOf s) = int (digitsToNat s)" "list_all isDigitU (codeUnitsOf s)"
proof -
  have "foldl (\<lambda>n c. 10 * n + (int c - 48)) (int m) (codeUnitsOf s) = int (foldl (\<lambda>n c. 10 * n + (of_char c - 48)) m s)" for m
    using assms
  proof (induction s arbitrary: m)
    case (Cons c s)
    then have "48 \<le> (of_char c :: nat)" by (simp add: isDigitC_def)
    then have e: "10 * int m + (int (of_char c) - 48) = int (10 * m + (of_char c - 48))" by simp
    show ?case using Cons(1) [of "10 * m + (of_char c - 48)"] Cons(2) by (simp add: e del: of_nat_add of_nat_mult)
  qed simp
  from this [of 0] show "numberOf (codeUnitsOf s) = int (digitsToNat s)" by (simp add: numberOf_def digitsToNat_def)
  show "list_all isDigitU (codeUnitsOf s)"
    using assms by (induction s) (auto simp: isDigitC_def isDigitU_def)
qed

definition shownNat :: "nat \<Rightarrow> codeUnits" where "shownNat n = codeUnitsOf (showNat n)"

lemma shownNat: "numberOf (shownNat n) = int n" "shownNat n \<noteq> []" "list_all isDigitU (shownNat n)"
  using showNat_digits [of n] numberOf_digits [of "showNat n"]
  by (auto simp: shownNat_def dest: arg_cong [where f = length])

lemma digits_span:
  assumes "list_all isDigitU ds" "r = [] \<or> \<not> isDigitU (hd r)"
  shows "takeWhile isDigitU (ds @ r) = ds" "dropWhile isDigitU (ds @ r) = r"
  using assms by (induction ds) (cases r; auto)+

lemma rangeField_render:
  assumes "r \<noteq> []" "hd r = 32" "0 \<le> start" "0 \<le> len"
  shows "rangeField (renderRange start len @ r) = Some (start, len, r)"
proof -
  have e: "takeWhile isDigitU (shownNat n @ s) = shownNat n" "dropWhile isDigitU (shownNat n @ s) = s"
    if "s \<noteq> []" "\<not> isDigitU (hd s)" for n s
    using that by (simp_all add: digits_span shownNat)
  have r: "\<not> isDigitU (hd r)" and c: "\<not> isDigitU 44" using assms(2) by (simp_all add: isDigitU_def)
  have neg: "hd r \<noteq> 44" using assms(2) by simp
  show ?thesis
    unfolding rangeField_def renderRange_def Let_def shownNat_def [symmetric]
    using assms neg e [OF assms(1) r] e [of "44 # t" for t] c
    by (cases r) (simp_all add: shownNat)
qed

lemma rangeField_before:
  "0 \<le> start \<Longrightarrow> 0 \<le> len \<Longrightarrow>
   rangeField (renderRange start len @ codeUnitsOf (CHR 0x20 # p) @ s) = Some (start, len, codeUnitsOf (CHR 0x20 # p) @ s)"
  by (rule rangeField_render) simp_all

lemma hunkHeader_render:
  assumes "0 \<le> phOldStart h" "0 \<le> phOldCount h" "0 \<le> phNewStart h" "0 \<le> phNewCount h"
  shows "hunkHeader (renderHeader h heading) = Some (h\<lparr>phLines := []\<rparr>)"
  unfolding hunkHeader_def renderHeader_def dropPrefix_append Option.bind.bind_lunit
    rangeField_before [OF assms(1,2)] rangeField_before [OF assms(3,4)] prod.case
  by simp

subsection \<open>Parsing what was rendered\<close>

lemma renderHunk_at_nonneg:
  "hunkHeader (renderHeader (hunkAt oldPos newPos ls) heading) = Some ((hunkAt oldPos newPos ls)\<lparr>phLines := []\<rparr>)"
  by (rule hunkHeader_render) (simp_all add: hunkAt_def Let_def)

definition keptLines :: "patchLine list \<Rightarrow> patchLine list" where
  "keptLines ls = filter (\<lambda>l. \<not> crLine l) ls"

lemma parsePatchLines_append:
  "parsePatchLines (ps @ qs) hunks = (case parsePatchLines ps hunks of Inl e \<Rightarrow> Inl e | Inr h \<Rightarrow> parsePatchLines qs h)"
  by (induction ps arbitrary: hunks) (simp_all split: sum.splits)

lemma hunkHeader_first: "c \<noteq> 64 \<Longrightarrow> hunkHeader (c # l) = None"
  by (simp add: hunkHeader_def dropPrefix_def)

lemma parse_line:
  assumes "lineOk l"
  shows "parsePatchLine (kindUnit (plKind l) # plText l @ [10]) (hs @ [h]) =
    Inr (hs @ [h\<lparr>phLines := phLines h @ [l\<lparr>plOldNewline := True, plNewNewline := True\<rparr>]\<rparr>])"
  by (cases l; cases "plKind l")
    (simp_all add: parsePatchLine_def Let_def hunkHeader_first kindUnit_def lineKind_def noNewlineMarker_def butlast_append)

lemma parse_marker:
  assumes "lineOk l" "\<not> (plOldNewline l \<and> plNewNewline l)"
  shows "parsePatchLine (noNewlineMarker @ [10]) (hs @ [h\<lparr>phLines := ls @ [l\<lparr>plOldNewline := True, plNewNewline := True\<rparr>]\<rparr>]) =
    Inr (hs @ [h\<lparr>phLines := ls @ [l]\<rparr>])"
proof -
  have "markNoNewline (l\<lparr>plOldNewline := True, plNewNewline := True\<rparr>) = l"
    using assms by (cases l; cases "plKind l") (auto simp: markNoNewline_def lineOk_def)
  moreover have "hunkHeader noNewlineMarker = None" by (simp add: noNewlineMarker_def hunkHeader_first)
  moreover have "noNewlineMarker \<noteq> []" by (simp add: noNewlineMarker_def)
  ultimately show ?thesis by (simp add: parsePatchLine_def Let_def)
qed

text \<open>What the parser makes of the lines of a hunk: those ending in a carriage return are gone.\<close>

lemma parse_hunk_lines:
  assumes "\<forall>l\<in>set ls. lineOk l \<or> crLine l"
  shows "parsePatchLines (physicalLines [] (unlinesU (concat (map renderPatchLine ls)) @ rest)) (hs @ [h]) =
    parsePatchLines (physicalLines [] rest) (hs @ [h\<lparr>phLines := phLines h @ keptLines ls\<rparr>])"
  using assms
proof (induction ls arbitrary: h)
  case (Cons l ls)
  let ?rest = "unlinesU (concat (map renderPatchLine ls)) @ rest"
  have k: "cleanU [kindUnit (plKind l)]" by (simp add: kindUnit_def split: patchLineKind.splits)
  show ?case
  proof (cases "crLine l")
    case True
    then obtain t where t: "plText l = t @ [13]" "cleanU t" "plOldNewline l" "plNewNewline l" by (auto simp: crLine_def)
    have "physicalLines [] ((kindUnit (plKind l) # t) @ 13 # 10 # ?rest) = [10] # physicalLines [] ?rest"
      by (rule physicalLines_cr) (use t k in simp)
    moreover have "parsePatchLine [10] (hs @ [h]) = Inr (hs @ [h])"
      by (simp add: parsePatchLine_def hunkHeader_def dropPrefix_def noNewlineMarker_def lineKind_def Let_def)
    moreover have "renderPatchLine l = [kindUnit (plKind l) # t @ [13]]" using t by (simp add: renderPatchLine_def)
    ultimately show ?thesis
      using Cons True by (simp add: keptLines_def)
  next
    case False
    with Cons have ok: "lineOk l" by auto
    have p: "physicalLines [] ((kindUnit (plKind l) # plText l) @ 10 # s) = (kindUnit (plKind l) # plText l @ [10]) # physicalLines [] s" for s
      using physicalLines_clean [of "kindUnit (plKind l) # plText l" "[]" s] ok k by (simp add: lineOk_def)
    have m: "physicalLines [] (noNewlineMarker @ 10 # s) = (noNewlineMarker @ [10]) # physicalLines [] s" for s
      using physicalLines_clean [of noNewlineMarker "[]" s] by (simp add: noNewlineMarker_def)
    show ?thesis
    proof (cases "plOldNewline l \<and> plNewNewline l")
      case True
      then have "l\<lparr>plOldNewline := True, plNewNewline := True\<rparr> = l" by simp
      moreover have "renderPatchLine l = [kindUnit (plKind l) # plText l]" using True by (simp add: renderPatchLine_def)
      ultimately show ?thesis
        using Cons ok False p [of ?rest] by (simp add: keptLines_def parse_line)
    next
      case nonl: False
      then have "renderPatchLine l = [kindUnit (plKind l) # plText l, noNewlineMarker]" by (auto simp: renderPatchLine_def)
      with Cons nonl ok False p [of "noNewlineMarker @ 10 # ?rest"] m [of ?rest] show ?thesis
        by (simp add: keptLines_def parse_line parse_marker)
    qed
  qed
qed (simp add: keptLines_def)

lemma cleanU_digits: "list_all isDigitU ds \<Longrightarrow> cleanU ds"
  by (induction ds) (auto simp: isDigitU_def)

lemma cleanU_header: "cleanU heading \<Longrightarrow> cleanU (renderHeader h heading)"
  using shownNat(3) [THEN cleanU_digits] by (simp add: renderHeader_def renderRange_def flip: shownNat_def)

lemma parse_physical:
  "cleanU l \<Longrightarrow> parsePatchLines (physicalLines [] (l @ 10 # rest)) hs =
     (case parsePatchLine (l @ [10]) hs of Inl e \<Rightarrow> Inl e | Inr hs' \<Rightarrow> parsePatchLines (physicalLines [] rest) hs')"
  by (simp add: physicalLines_clean)

lemma parse_header:
  "hunkHeader l = Some h \<Longrightarrow> parsePatchLine (l @ [10]) hs = Inr (hs @ [h])"
  by (simp add: parsePatchLine_def Let_def)

definition withKept :: "patchHunk \<Rightarrow> patchHunk" where
  "withKept h = h\<lparr>phLines := keptLines (phLines h)\<rparr>"

definition editOk :: "patchEdit \<Rightarrow> bool" where
  "editOk e = (cleanU (peHeading e) \<and> list_all lineOk (peLines e))"

definition editReadable :: "patchEdit \<Rightarrow> bool" where
  "editReadable e = (cleanU (peHeading e) \<and> list_all (\<lambda>l. lineOk l \<or> crLine l) (peLines e))"

lemma editOk_readable: "editOk e \<Longrightarrow> editReadable e"
  by (auto simp: editOk_def editReadable_def list_all_iff)

lemma parse_edits:
  assumes "list_all editReadable es"
  shows "parsePatchLines (physicalLines [] (unlinesU (concat (map2 renderHunk (editHunks oldPos newPos es) (map peHeading es))) @ rest)) hs =
    parsePatchLines (physicalLines [] rest) (hs @ map withKept (editHunks oldPos newPos es))"
  using assms
proof (induction es arbitrary: oldPos newPos hs)
  case (Cons e es)
  let ?h = "hunkAt (oldPos + length (peGap e)) (newPos + length (peGap e)) (peLines e)"
  have e: "cleanU (peHeading e)" "\<forall>l\<in>set (peLines e). lineOk l \<or> crLine l"
    using Cons.prems by (auto simp: editReadable_def list_all_iff)
  have lines: "phLines ?h = peLines e" by (simp add: hunkAt_def Let_def)
  have kept: "hs @ withKept ?h # map withKept more = (hs @ [?h\<lparr>phLines := [] @ keptLines (peLines e)\<rparr>]) @ map withKept more" for more
    by (simp add: withKept_def lines)
  have head: "renderHunk ?h (peHeading e) = renderHeader ?h (peHeading e) # concat (map renderPatchLine (peLines e))"
    by (simp add: renderHunk_def lines)
  show ?case
    unfolding editHunks.simps list.map zip_Cons_Cons prod.case concat.simps head kept
    using Cons.prems
    by (simp add: parse_physical cleanU_header e parse_header [OF renderHunk_at_nonneg] parse_hunk_lines Cons.IH)
qed simp

lemma parse_preamble:
  "preambleOk pre \<Longrightarrow> parsePatchLines (physicalLines [] (unlinesU pre @ rest)) [] = parsePatchLines (physicalLines [] rest) []"
  by (induction pre) (auto simp: preambleOk_def parse_physical parsePatchLine_def)

lemma parseHunks_render:
  assumes "preambleOk pre" "list_all editReadable es"
  shows "parseHunks (renderPatch pre es) allowEmpty =
    (if es = [] \<and> \<not> allowEmpty then Inl NoHunks
     else if list_all countsValid (map withKept (editHunks 0 0 es)) then Inr (map withKept (editHunks 0 0 es)) else Inl InvalidCounts)"
proof -
  have "parsePatchLines (physicalLines [] (renderPatch pre es)) [] = Inr (map withKept (editHunks 0 0 es))"
    using parse_edits [OF assms(2), of 0 0 "[]" "[]"] parse_preamble [OF assms(1)]
    by (simp add: renderPatch_def renderEdits_def parsePatchLine_def)
  moreover have "map withKept (editHunks 0 0 es) = [] \<longleftrightarrow> es = []" by (cases es) simp_all
  ultimately show ?thesis by (simp add: parseHunks_def)
qed

lemma kept_all: "list_all lineOk ls \<Longrightarrow> keptLines ls = ls"
  by (induction ls) (simp_all add: keptLines_def lineOk_not_cr)

lemma hunkAt_counts: "countsValid (hunkAt oldPos newPos ls)"
  by (simp add: countsValid_def hunkAt_def Let_def)

lemma hunkAt_lines [simp]: "phLines (hunkAt oldPos newPos ls) = ls"
  by (simp add: hunkAt_def Let_def)

lemma editHunks_ok:
  "list_all editOk es \<Longrightarrow> map withKept (editHunks oldPos newPos es) = editHunks oldPos newPos es \<and> list_all countsValid (editHunks oldPos newPos es)"
proof (induction es arbitrary: oldPos newPos)
  case (Cons e es)
  then have "withKept (hunkAt a b (peLines e)) = hunkAt a b (peLines e)" for a b
    by (simp add: withKept_def editOk_def kept_all)
  with Cons show ?case by (simp add: hunkAt_counts)
qed simp

lemma parseHunks_ok:
  assumes "preambleOk pre" "list_all editOk es" "es \<noteq> [] \<or> allowEmpty"
  shows "parseHunks (renderPatch pre es) allowEmpty = Inr (editHunks 0 0 es)"
proof -
  have "list_all editReadable es" using assms(2) by (auto simp: list_all_iff intro: editOk_readable)
  with assms editHunks_ok [OF assms(2), of 0 0] show ?thesis by (simp add: parseHunks_render)
qed

subsection \<open>Texts\<close>

lemma splitTextFrom_line: "10 \<notin> set t \<Longrightarrow> splitTextFrom current (t @ 10 # rest) = \<lparr>tlText = current @ t, tlNewline = True\<rparr> # splitTextFrom [] rest"
  by (induction t arbitrary: current) auto

lemma splitTextFrom_end: "10 \<notin> set t \<Longrightarrow> splitTextFrom current t = (if current @ t = [] then [] else [\<lparr>tlText = current @ t, tlNewline = False\<rparr>])"
  by (induction t arbitrary: current) auto

lemma split_joinText: "properLines ls \<Longrightarrow> splitText (joinText ls) = ls"
proof (induction ls)
  case (Cons l ls)
  show ?case
  proof (cases "tlNewline l")
    case True
    with Cons show ?thesis
      by (cases l) (simp add: joinText_def splitText_def splitTextFrom_line)
  next
    case False
    with Cons show ?thesis
      by (cases l) (auto simp: joinText_def splitText_def splitTextFrom_end)
  qed
qed (simp add: splitText_def joinText_def)

lemma joinText_simps [simp]:
  "joinText [] = []" "joinText (l # ls) = tlText l @ (if tlNewline l then [10] else []) @ joinText ls"
  by (simp_all add: joinText_def)

lemma join_splitTextFrom: "joinText (splitTextFrom current t) = current @ t"
  by (induction t arbitrary: current) simp_all

subsection \<open>Undoing what Git wrote\<close>

lemma reverseHunkLines_render:
  "reverseHunkLines ls (map (lineOnSide NewSide) (sideLines NewSide ls) @ rest) = Inr (map (lineOnSide OldSide) (sideLines OldSide ls), rest)"
  by (induction ls) (auto simp: sideLines_def lineOnSide_def Let_def)

lemma fileSide_Cons: "fileSide side (e # es) tail = editSide side e @ fileSide side es tail"
  by (simp add: fileSide_def)

lemma hunkAt_start: "rangeIndex (phNewStart (hunkAt oldPos newPos ls)) (phNewCount (hunkAt oldPos newPos ls)) = int newPos"
  "rangeIndex (phOldStart (hunkAt oldPos newPos ls)) (phOldCount (hunkAt oldPos newPos ls)) = int oldPos"
  by (simp_all add: hunkAt_def Let_def rangeIndex_def)

lemma reverseHunks_render:
  "reverseHunks (editHunks oldPos newPos es) (int newPos) (fileSide NewSide es tail) = Inr (fileSide OldSide es tail)"
proof (induction es arbitrary: oldPos newPos)
  case (Cons e es)
  have start: "nat (int (newPos + length (peGap e)) - int newPos) = length (peGap e)" by simp
  have fl: "fileSide NewSide (e # es) tail = peGap e @ map (lineOnSide NewSide) (sideLines NewSide (peLines e)) @ fileSide NewSide es tail"
    by (simp add: fileSide_Cons editSide_def)
  have pos: "int (newPos + length (peGap e)) + int (length (map (lineOnSide NewSide) (sideLines NewSide (peLines e)) @ fileSide NewSide es tail))
      - int (length (fileSide NewSide es tail)) = int (newPos + length (editSide NewSide e))"
    by (simp add: editSide_def)
  show ?case
    unfolding editHunks.simps reverseHunks.simps hunkAt_start Let_def start fl append_eq_conv_conj [THEN iffD1, OF refl] hunkAt_lines
    using Cons.IH [of "oldPos + length (editSide OldSide e)" "newPos + length (editSide NewSide e)"] pos
    by (simp add: reverseHunkLines_render fileSide_Cons editSide_def)
qed (simp add: fileSide_def)

lemma reversePatch_render:
  assumes "preambleOk pre" "list_all editOk es" "es \<noteq> []"
  shows "reversePatch (renderPatch pre es) newText = map_sum id joinText (reverseHunks (editHunks 0 0 es) 0 (splitText newText))"
  using parseHunks_ok [OF assms(1,2)] assms(3) by (simp add: reversePatch_def)


definition demoEdit :: patchEdit where
  "demoEdit = \<lparr>peGap = [\<lparr>tlText = [97], tlNewline = True\<rparr>], peHeading = [],
     peLines = [\<lparr>plKind = DeletionLine, plText = [98], plOldNewline = False, plNewNewline = True\<rparr>,
                \<lparr>plKind = AdditionLine, plText = [99], plOldNewline = True, plNewNewline = True\<rparr>]\<rparr>"

lemmas demo_edit_simps = demoEdit_def editOk_def fileSide_def editSide_def sideLines_def lineOnSide_def lineOk_def
  preambleOk_def editReadable_def


subsection \<open>Nothing unchecked is shown\<close>

lemma reverseHunkLines_sound:
  "reverseHunkLines ls fl = Inr (olds, rest) \<Longrightarrow>
   fl = map (lineOnSide NewSide) (sideLines NewSide ls) @ rest \<and> olds = map (lineOnSide OldSide) (sideLines OldSide ls)"
proof (induction ls arbitrary: fl olds)
  case (Cons l ls)
  show ?case
  proof (cases "plKind l = DeletionLine")
    case True
    with Cons.prems obtain more where "reverseHunkLines ls fl = Inr (more, rest)" "olds = lineOnSide OldSide l # more"
      by (cases "reverseHunkLines ls fl") (auto simp: Let_def)
    with Cons.IH [of fl more] True show ?thesis by (simp add: sideLines_def)
  next
    case False
    with Cons.prems obtain a fl' where f: "fl = a # fl'" by (cases fl) (auto simp: Let_def)
    with Cons.prems False obtain more where m: "reverseHunkLines ls fl' = Inr (more, rest)" "tlText a = plText l" "tlNewline a = plNewNewline l"
      "olds = (if plKind l \<noteq> AdditionLine then [lineOnSide OldSide l] else []) @ more"
      by (cases "reverseHunkLines ls fl'") (auto simp: Let_def split: if_splits)
    have "a = lineOnSide NewSide l" using m by (cases a) (simp add: lineOnSide_def)
    with Cons.IH [OF m(1)] f m False show ?thesis by (simp add: sideLines_def)
  qed
qed (simp add: sideLines_def)

definition newRange :: "patchHunk \<Rightarrow> int \<times> int" where
  "newRange h = (rangeIndex (phNewStart h) (phNewCount h), phNewCount h)"

lemma reverseHunks_sound:
  assumes "reverseHunks hs (int pos) fl = Inr olds" "list_all countsValid hs"
  shows "\<exists>es tail. map peLines es = map phLines hs \<and> fl = fileSide NewSide es tail \<and> olds = fileSide OldSide es tail \<and>
    map newRange hs = map newRange (editHunks oldPos pos es)"
  using assms
proof (induction hs arbitrary: pos fl olds oldPos)
  case Nil
  then show ?case by (intro exI [of _ "[]"] exI [of _ olds]) (simp add: fileSide_def)
next
  case (Cons h hs)
  let ?start = "rangeIndex (phNewStart h) (phNewCount h)"
  let ?k = "nat (?start - int pos)"
  have range: "int pos \<le> ?start" "?start \<le> int pos + int (length fl)"
    using Cons.prems(1) by (auto simp: Let_def split: if_splits)
  obtain o1 rest where l: "reverseHunkLines (phLines h) (drop ?k fl) = Inr (o1, rest)"
    using Cons.prems(1) by (auto simp: Let_def split: if_splits sum.splits)
  have sound: "drop ?k fl = map (lineOnSide NewSide) (sideLines NewSide (phLines h)) @ rest"
    "o1 = map (lineOnSide OldSide) (sideLines OldSide (phLines h))"
    using reverseHunkLines_sound [OF l] by simp_all
  let ?e = "\<lparr>peGap = take ?k fl, peHeading = [], peLines = phLines h\<rparr>"
  have gap: "length (take ?k fl) = ?k" using range by simp
  have pos': "?start + int (length (drop ?k fl)) - int (length rest) = int (pos + length (editSide NewSide ?e))"
    using range gap by (simp add: sound editSide_def)
  obtain o2 where r: "reverseHunks hs (int (pos + length (editSide NewSide ?e))) rest = Inr o2" "olds = take ?k fl @ o1 @ o2"
    using Cons.prems(1) range l unfolding reverseHunks.simps Let_def pos' [symmetric]
    by (cases "reverseHunks hs (?start + int (length (drop ?k fl)) - int (length rest)) rest") auto
  obtain es tail where es: "map peLines es = map phLines hs" "rest = fileSide NewSide es tail" "o2 = fileSide OldSide es tail"
    "map newRange hs = map newRange (editHunks (oldPos + length (editSide OldSide ?e)) (pos + length (editSide NewSide ?e)) es)"
    using Cons.IH [OF r(1)] Cons.prems(2) by fastforce
  have start: "newRange h = newRange (hunkAt (oldPos + length (peGap ?e)) (pos + length (peGap ?e)) (peLines ?e))"
    using Cons.prems(2) range gap hunkAt_start(1) by (simp add: newRange_def hunkAt_start) (simp add: hunkAt_def Let_def countsValid_def)
  have new: "fl = fileSide NewSide (?e # es) tail"
    using sound(1) es(2) by (simp add: fileSide_Cons editSide_def) (metis append_take_drop_id)
  show ?case
    by (intro exI [of _ "?e # es"] exI [of _ tail] conjI)
      (use es r new start sound in \<open>simp_all add: fileSide_Cons editSide_def\<close>)
qed

text \<open>Whatever text undoing a patch shows was checked against the resulting file: the file is the patch's new side
  at the lines its headers name, between unchanged lines, and the text is its old side between the same lines.\<close>
theorem reverse_patch_checks_file:
  assumes "reversePatch patch newText = Inr oldText"
  shows "\<exists>hunks es tail. parseHunks patch False = Inr hunks \<and> map peLines es = map phLines hunks \<and>
    map newRange hunks = map newRange (editHunks 0 0 es) \<and>
    newText = joinText (fileSide NewSide es tail) \<and> oldText = joinText (fileSide OldSide es tail)"
proof -
  obtain hunks where h: "parseHunks patch False = Inr hunks"
    using assms by (auto simp: reversePatch_def split: sum.splits)
  then obtain olds where o: "reverseHunks hunks (int 0) (splitText newText) = Inr olds" "oldText = joinText olds"
    using assms by (cases "reverseHunks hunks 0 (splitText newText)") (auto simp: reversePatch_def)
  have "list_all countsValid hunks"
    using h by (auto simp: parseHunks_def split: sum.splits if_splits)
  from reverseHunks_sound [OF o(1) this, of 0] obtain es tail where es: "map peLines es = map phLines hunks"
    "splitText newText = fileSide NewSide es tail" "olds = fileSide OldSide es tail" "map newRange hunks = map newRange (editHunks 0 0 es)"
    by auto
  have "newText = joinText (fileSide NewSide es tail)"
    using join_splitTextFrom [of "[]" newText] es(2) by (simp add: splitText_def)
  with h es o show ?thesis by auto
qed

theorem reverse_patch_checks_file_witness:
  "\<exists>es tail. [97, 10, 99, 10] = joinText (fileSide NewSide es tail) \<and> [97, 10, 98] = joinText (fileSide OldSide es tail)"
proof -
  have "reversePatch (renderPatch [] [demoEdit]) [97, 10, 99, 10] = Inr [97, 10, 98]"
    using reversePatch_render [of "[]" "[demoEdit]"] by (simp add: demo_edit_simps splitText_def Let_def hunkAt_def rangeIndex_def)
  from reverse_patch_checks_file [OF this] show ?thesis by blast
qed

subsection \<open>Carriage returns\<close>

lemma filter_loses: "x \<in> set xs \<Longrightarrow> P x \<Longrightarrow> \<not> Q x \<Longrightarrow> length (filter P (filter Q xs)) < length (filter P xs)"
proof (induction xs)
  case (Cons y xs)
  have "length (filter P (filter Q xs)) \<le> length (filter P xs)" by (induction xs) simp_all
  with Cons show ?case by auto
qed simp

lemma kept_invalid:
  assumes "l \<in> set ls" "crLine l"
  shows "\<not> countsValid (withKept (hunkAt oldPos newPos ls))"
proof -
  obtain side where "plKind l \<noteq> (case side of OldSide \<Rightarrow> AdditionLine | NewSide \<Rightarrow> DeletionLine)"
    by (metis patchLineKind.distinct(5) patchSide.case(1,2))
  then have "length (sideLines side (keptLines ls)) < length (sideLines side ls)"
    unfolding sideLines_def keptLines_def using assms by (intro filter_loses [of l]) simp_all
  then show ?thesis
    by (cases side) (simp_all add: countsValid_def withKept_def hunkAt_def Let_def)
qed

lemma editHunks_mem: "e \<in> set es \<Longrightarrow> \<exists>a b. hunkAt a b (peLines e) \<in> set (editHunks oldPos newPos es)"
  by (induction es arbitrary: oldPos newPos) fastforce+

text \<open>The patch of a file with a line that ends in a carriage return is never undone and never gives a side, whatever
  else it holds: the line is lost when the patch is cut, and the counts of its hunk no longer fit.\<close>
theorem crlf_patches_refused:
  assumes "preambleOk pre" "list_all editReadable es" "e \<in> set es" "l \<in> set (peLines e)" "crLine l"
  shows "reversePatch (renderPatch pre es) newText = Inl InvalidCounts \<and>
    (nullSide (renderPatch pre es) side \<or> extractFile (renderPatch pre es) side = Inl InvalidCounts)"
proof -
  obtain a b where "hunkAt a b (peLines e) \<in> set (editHunks 0 0 es)" using editHunks_mem [OF assms(3)] by blast
  with kept_invalid [OF assms(4,5)] have "\<not> list_all countsValid (map withKept (editHunks 0 0 es))"
    by (auto simp: list_all_iff)
  with parseHunks_render [OF assms(1,2)] assms(3) have "parseHunks (renderPatch pre es) allow = Inl InvalidCounts" for allow
    by auto
  then show ?thesis by (simp add: reversePatch_def extractFile_def)
qed

definition demoCrEdit :: patchEdit where
  "demoCrEdit = \<lparr>peGap = [], peHeading = [],
     peLines = [\<lparr>plKind = ContextLine, plText = [97, 13], plOldNewline = True, plNewNewline = True\<rparr>]\<rparr>"

theorem crlf_patches_refused_witness:
  "reversePatch (renderPatch [] [demoCrEdit]) [97, 13, 10] = Inl InvalidCounts"
proof -
  have "crLine \<lparr>plKind = ContextLine, plText = [97, 13], plOldNewline = True, plNewNewline = True\<rparr>"
    by (simp add: crLine_def exI [of _ "[97]"])
  then show ?thesis
    using crlf_patches_refused [of "[]" "[demoCrEdit]" demoCrEdit "\<lparr>plKind = ContextLine, plText = [97, 13], plOldNewline = True, plNewNewline = True\<rparr>" "[97, 13, 10]"]
    by (simp add: demo_edit_simps demoCrEdit_def)
qed

subsection \<open>One-sided patches\<close>

lemma flaggedLines_clean: "cleanU l \<Longrightarrow> flaggedLines current (l @ 10 # rest) = (current @ l) # flaggedLines [] rest"
  by (induction l arbitrary: current) (auto simp: lineTerminators_def)

lemma flaggedLines_unlines: "list_all cleanU ls \<Longrightarrow> flaggedLines [] (unlinesU ls) = ls @ [[]]"
  by (induction ls) (simp_all add: flaggedLines_clean)

definition nullLine :: "patchSide \<Rightarrow> codeUnits \<Rightarrow> bool" where
  "nullLine side l =
     (case side of
        OldSide \<Rightarrow> l = codeUnitsOf ''--- /dev/null'' \<or> lineStarts ''new file mode '' l
      | NewSide \<Rightarrow> l = codeUnitsOf ''+++ /dev/null'' \<or> lineStarts ''deleted file mode '' l)"

lemma nullLine_Nil: "\<not> nullLine side []"
  by (cases side) (simp_all add: nullLine_def lineStarts_def)

lemma nullSide_flagged: "nullSide patch side = list_ex (nullLine side) (flaggedLines [] patch)"
  by (cases side) (auto simp: nullSide_def hasLine_def hasLineStarting_def nullLine_def list_ex_iff simp del: codeUnitsOf_simps)

lemma nullSide_unlines:
  assumes "list_all cleanU ls"
  shows "nullSide (unlinesU ls) side = list_ex (nullLine side) ls"
  by (simp add: nullSide_flagged flaggedLines_unlines [OF assms] nullLine_Nil)

lemma cleanU_renderLine: "lineOk l \<Longrightarrow> list_all cleanU (renderPatchLine l)"
  by (auto simp: renderPatchLine_def lineOk_def kindUnit_def noNewlineMarker_def split: patchLineKind.splits)

lemma cleanU_renderEdits:
  "list_all editOk es \<Longrightarrow> list_all cleanU (concat (map2 renderHunk (editHunks oldPos newPos es) (map peHeading es)))"
proof (induction es arbitrary: oldPos newPos)
  case (Cons e es)
  then have "list_all cleanU (concat (map renderPatchLine (peLines e)))"
    using cleanU_renderLine by (fastforce simp: editOk_def list_all_iff)
  with Cons show ?case by (simp add: renderHunk_def editOk_def cleanU_header)
qed simp

lemma nullSide_render:
  assumes "preambleOk pre" "list_all editOk es"
  shows "nullSide (renderPatch pre es) side = list_ex (nullLine side) (pre @ renderEdits es)"
  unfolding renderPatch_def
  by (rule nullSide_unlines) (use assms cleanU_renderEdits [OF assms(2)] in \<open>auto simp: preambleOk_def renderEdits_def list_all_iff\<close>)

lemma extractHunks_render:
  "list_all (\<lambda>e. peGap e = []) es \<Longrightarrow>
   extractHunks side (editHunks oldPos newPos es) (int (case side of OldSide \<Rightarrow> oldPos | NewSide \<Rightarrow> newPos)) = Inr (fileSide side es [])"
proof (induction es arbitrary: oldPos newPos)
  case (Cons e es)
  have len: "(case side of OldSide \<Rightarrow> phOldCount (hunkAt oldPos newPos (peLines e)) | NewSide \<Rightarrow> phNewCount (hunkAt oldPos newPos (peLines e)))
      = int (length (editSide side e))"
    using Cons.prems by (cases side) (simp_all add: hunkAt_def Let_def editSide_def)
  have starts: "rangeIndex (phOldStart (hunkAt oldPos newPos (peLines e))) (phOldCount (hunkAt oldPos newPos (peLines e))) = int oldPos"
    "rangeIndex (phNewStart (hunkAt oldPos newPos (peLines e))) (phNewCount (hunkAt oldPos newPos (peLines e))) = int newPos"
    by (rule hunkAt_start)+
  show ?case
    using Cons.IH [of "oldPos + length (editSide OldSide e)" "newPos + length (editSide NewSide e)"] Cons.prems len starts
    by (cases side) (simp_all add: Let_def fileSide_Cons editSide_def)
qed (simp add: fileSide_def)

text \<open>A patch that holds a whole file gives it back, and no text for the side the file does not exist on.\<close>
theorem extract_gives_side:
  assumes "preambleOk pre" "list_all editOk es" "list_all (\<lambda>e. peGap e = []) es" "es \<noteq> []"
  shows "extractFile (renderPatch pre es) side =
    Inr (if list_ex (nullLine side) (pre @ renderEdits es) then [] else joinText (fileSide side es []))"
  using parseHunks_ok [OF assms(1,2)] assms(4) extractHunks_render [OF assms(3), of side 0 0]
  by (cases side) (simp_all add: extractFile_def nullSide_render [OF assms(1,2)])

lemma renderEdits_line:
  assumes "e \<in> set es" "l \<in> set (peLines e)"
  shows "kindUnit (plKind l) # plText l \<in> set (concat (map2 renderHunk (editHunks oldPos newPos es) (map peHeading es)))"
  using assms
proof (induction es arbitrary: oldPos newPos)
  case (Cons x es)
  show ?case
  proof (cases "e = x")
    case True
    with Cons.prems show ?thesis by (auto simp: renderHunk_def renderPatchLine_def intro!: bexI [of _ l])
  qed (use Cons in auto)
qed simp

text \<open>A deleted file with a line \<open>-- /dev/null\<close> (a comment in SQL, Lua or Haskell) is shown as an empty one: the
  deleted line is taken for the header of a missing side.\<close>
theorem null_like_line_empties:
  assumes "preambleOk pre" "list_all editOk es" "list_all (\<lambda>e. peGap e = []) es" "e \<in> set es" "l \<in> set (peLines e)"
    "plKind l = DeletionLine" "plText l = codeUnitsOf ''-- /dev/null''"
  shows "extractFile (renderPatch pre es) OldSide = Inr [] \<and> lineOnSide OldSide l \<in> set (fileSide OldSide es [])"
proof -
  have "kindUnit (plKind l) # plText l = codeUnitsOf ''--- /dev/null''" by (simp add: assms kindUnit_def)
  then have "list_ex (nullLine OldSide) (renderEdits es)"
    using renderEdits_line [OF assms(4,5), of 0 0] by (auto simp: renderEdits_def nullLine_def list_ex_iff intro!: bexI)
  moreover have "lineOnSide OldSide l \<in> set (fileSide OldSide es [])"
    using assms(4-6) by (auto simp: fileSide_def editSide_def sideLines_def intro!: bexI [of _ e])
  ultimately show ?thesis using extract_gives_side [OF assms(1-3)] assms(4) by force
qed

end
