(* ===== verification/Pi_Storage.thy ===== *)
theory Pi_Storage
  imports Message_Store
begin

text \<open>
  Pi's storage on the server's tables: \<^verbatim>\<open>packages/backend/src/pi-storage.ts\<close>, the only writer of the rows \<open>Message_Store\<close>
  reads. The tables of one session are a record; ids of rows are handed out by \<open>AUTOINCREMENT\<close> to all sessions,
  so the next one may grow between commits. A commit is a function of the tables that may throw, which rolls it
  back. Pi's \<open>prepareStorageCommit\<close> and \<open>validateCommittedWrites\<close> are parameters, as is the text of a time.
\<close>

subsection \<open>Tables\<close>

record usageCost =
  ucInput :: rat
  ucOutput :: rat
  ucCacheRead :: rat
  ucCacheWrite :: rat
  ucTotal :: rat

record piUsage =
  puInput :: int
  puOutput :: int
  puCacheRead :: int
  puCacheWrite :: int
  puCacheWrite1h :: "int option"
  puReasoning :: "int option"
  puTotalTokens :: int
  puCost :: usageCost

record usageRow =
  urId :: string
  urSeq :: int
  urEntryId :: "string option"
  urAdjustment :: bool
  urUsage :: piUsage
  urDetails :: "json option"

record piTables =
  ptMessages :: "messageRow list"
  ptNextId :: nat
  ptValues :: "(string \<times> string, int \<times> json) jsmap"
  ptLists :: "((string \<times> string \<times> int) \<times> json) list"
  ptUsage :: "usageRow list"
  ptNextSeq :: "int option"

text \<open>Writes as a prepared commit has them, each with its sequence number.\<close>

datatype committedWrite =
    EntryWrite string "string option" int storedEnvelope int
  | UsageWrite usageRow
  | ValueSet string string int json
  | ValueDelete string string int
  | ListAppend string string int json
  | ListDelete string string int

datatype storageError =
    UnknownSessionRow
  | InvalidWrites
  | MissingParent string
  | ConstraintFailed
  | AdapterClosed
  | UnknownBranchEntry string

definition zeroUsage :: piUsage where
  "zeroUsage = \<lparr>puInput = 0, puOutput = 0, puCacheRead = 0, puCacheWrite = 0, puCacheWrite1h = None, puReasoning = None,
     puTotalTokens = 0, puCost = \<lparr>ucInput = 0, ucOutput = 0, ucCacheRead = 0, ucCacheWrite = 0, ucTotal = 0\<rparr>\<rparr>"

definition addOptional :: "int option \<Rightarrow> int option \<Rightarrow> int option" where
  "addOptional a b = (if a = None \<and> b = None then None else Some (orElse a 0 + orElse b 0))"

definition addUsage :: "piUsage \<Rightarrow> piUsage \<Rightarrow> piUsage" where
  "addUsage a b = \<lparr>puInput = puInput a + puInput b, puOutput = puOutput a + puOutput b,
     puCacheRead = puCacheRead a + puCacheRead b, puCacheWrite = puCacheWrite a + puCacheWrite b,
     puCacheWrite1h = addOptional (puCacheWrite1h a) (puCacheWrite1h b), puReasoning = addOptional (puReasoning a) (puReasoning b),
     puTotalTokens = puTotalTokens a + puTotalTokens b,
     puCost = \<lparr>ucInput = ucInput (puCost a) + ucInput (puCost b), ucOutput = ucOutput (puCost a) + ucOutput (puCost b),
       ucCacheRead = ucCacheRead (puCost a) + ucCacheRead (puCost b), ucCacheWrite = ucCacheWrite (puCost a) + ucCacheWrite (puCost b),
       ucTotal = ucTotal (puCost a) + ucTotal (puCost b)\<rparr>\<rparr>"

subsection \<open>Entries\<close>

record storedEntry =
  seId :: string
  seParentId :: "string option"
  seSeqNo :: int
  seEnvelope :: storedEnvelope

fun envelopeType :: "storedEnvelope \<Rightarrow> string" where
  "envelopeType (StoredMessage m ts) = ''message''"
| "envelopeType (StoredInput i ts) = ''message''"
| "envelopeType (StoredCompaction summary ts) = ''compaction''"
| "envelopeType (StoredOther BranchSummaryEntry ts) = ''branch_summary''"
| "envelopeType (StoredOther (CustomEntry c) ts) = ''custom''"

fun envelopeCustomType :: "storedEnvelope \<Rightarrow> string option" where
  "envelopeCustomType (StoredOther (CustomEntry c) ts) = Some c"
| "envelopeCustomType _ = None"

definition messageRole :: "agentMessage \<Rightarrow> string" where
  "messageRole m = (case m of UserMsg u \<Rightarrow> ''user'' | AssistantMsg a \<Rightarrow> ''assistant'' | ToolResultMsg t \<Rightarrow> ''toolResult''
     | CompactionMsg c \<Rightarrow> ''compactionSummary'')"

text \<open>The column \<open>role\<close>: a message's role, of anything else its type.\<close>

definition envelopeRole :: "storedEnvelope \<Rightarrow> string" where
  "envelopeRole env = (case env of StoredMessage m ts \<Rightarrow> messageRole m | StoredInput i ts \<Rightarrow> ''reinsInput'' | _ \<Rightarrow> envelopeType env)"

definition decodeEntry :: "messageRow list \<Rightarrow> messageRow \<Rightarrow> storedEntry" where
  "decodeEntry rows r = \<lparr>seId = smHarnessId r, seParentId = map_option smHarnessId (parentRow rows r), seSeqNo = smSeq r,
     seEnvelope = smEnvelope r\<rparr>"

record entryStructure =
  esId :: string
  esParentId :: "string option"
  esSeq :: int
  esType :: string
  esCustomType :: "string option"

definition structureOf :: "storedEntry \<Rightarrow> entryStructure" where
  "structureOf e = \<lparr>esId = seId e, esParentId = seParentId e, esSeq = seSeqNo e, esType = envelopeType (seEnvelope e),
     esCustomType = envelopeCustomType (seEnvelope e)\<rparr>"

definition entryRow :: "piTables \<Rightarrow> string \<Rightarrow> messageRow option" where
  "entryRow t i = find (\<lambda>r. smHarnessId r = i) (ptMessages t)"

definition hasEntry :: "piTables \<Rightarrow> string \<Rightarrow> bool" where
  "hasEntry t i = (entryRow t i \<noteq> None)"

definition hasUsage :: "piTables \<Rightarrow> string \<Rightarrow> bool" where
  "hasUsage t i = list_ex (\<lambda>u. urId u = i) (ptUsage t)"

definition rowIdForEntry :: "piTables \<Rightarrow> string \<Rightarrow> storageError + nat" where
  "rowIdForEntry t i = (case entryRow t i of None \<Rightarrow> Inl (MissingParent i) | Some r \<Rightarrow> Inr (smId r))"

subsection \<open>Writing\<close>

text \<open>An insert fails where a \<open>UNIQUE\<close> constraint does.\<close>

definition insertMessage :: "messageRow \<Rightarrow> piTables \<Rightarrow> storageError + piTables" where
  "insertMessage r t =
     (if list_ex (\<lambda>q. smSeq q = smSeq r \<or> smHarnessId q = smHarnessId r) (ptMessages t) then Inl ConstraintFailed
      else Inr (t\<lparr>ptMessages := ptMessages t @ [r], ptNextId := Suc (ptNextId t)\<rparr>))"

fun applyWrite :: "(int \<Rightarrow> string) \<Rightarrow> committedWrite \<Rightarrow> piTables \<Rightarrow> storageError + piTables" where
  "applyWrite isoTime (EntryWrite i parent n env ts) t =
     (case (case parent of None \<Rightarrow> Inr None | Some p \<Rightarrow> map_sum id Some (rowIdForEntry t p)) of
        Inl e \<Rightarrow> Inl e
      | Inr parentId \<Rightarrow> insertMessage \<lparr>smId = ptNextId t, smParent = parentId, smSeq = n, smHarnessId = i,
          smRole = envelopeRole env, smEnvelope = env, smCreatedAt = isoTime ts\<rparr> t)"
| "applyWrite isoTime (UsageWrite u) t =
     (if list_ex (\<lambda>q. urId q = urId u \<or> urSeq q = urSeq u) (ptUsage t) then Inl ConstraintFailed
      else Inr (t\<lparr>ptUsage := ptUsage t @ [u]\<rparr>))"
| "applyWrite isoTime (ValueSet ns k n v) t = Inr (t\<lparr>ptValues := jmSet (ns, k) (n, v) (ptValues t)\<rparr>)"
| "applyWrite isoTime (ValueDelete ns k n) t = Inr (t\<lparr>ptValues := jmDelete (ns, k) (ptValues t)\<rparr>)"
| "applyWrite isoTime (ListAppend ns k n v) t =
     (if list_ex (\<lambda>(a, x). a = (ns, k, n)) (ptLists t) then Inl ConstraintFailed
      else Inr (t\<lparr>ptLists := ptLists t @ [((ns, k, n), v)]\<rparr>))"
| "applyWrite isoTime (ListDelete ns k n) t = Inr (t\<lparr>ptLists := filter (\<lambda>((a, b, m), x). (a, b) \<noteq> (ns, k)) (ptLists t)\<rparr>)"

fun applyWrites :: "(int \<Rightarrow> string) \<Rightarrow> committedWrite list \<Rightarrow> piTables \<Rightarrow> storageError + piTables" where
  "applyWrites isoTime [] t = Inr t"
| "applyWrites isoTime (w # ws) t = (case applyWrite isoTime w t of Inl e \<Rightarrow> Inl e | Inr t' \<Rightarrow> applyWrites isoTime ws t')"

record sessionStats =
  ssMessageCount :: nat
  ssUsage :: piUsage

definition readStats :: "piTables \<Rightarrow> sessionStats" where
  "readStats t = \<lparr>ssMessageCount = length (filter (\<lambda>r. envelopeType (smEnvelope r) = ''message'') (ptMessages t)),
     ssUsage = foldl (\<lambda>acc u. addUsage acc (urUsage u)) zeroUsage (sort_key urSeq (ptUsage t))\<rparr>"

text \<open>Pi's part of a commit: what it makes of the writes asked for, and whether they are valid.\<close>

record 'w piCommit =
  pcPrepare :: "'w list \<Rightarrow> int \<Rightarrow> int \<Rightarrow> committedWrite list"
  pcValid :: "committedWrite list \<Rightarrow> int \<Rightarrow> (string \<Rightarrow> bool) \<Rightarrow> (string \<Rightarrow> bool) \<Rightarrow> bool"

definition applyCommit ::
  "'w piCommit \<Rightarrow> (int \<Rightarrow> string) \<Rightarrow> int \<Rightarrow> 'w list \<Rightarrow> piTables \<Rightarrow> storageError + piTables \<times> sessionStats" where
  "applyCommit pc isoTime now writes t =
     (case ptNextSeq t of
        None \<Rightarrow> Inl UnknownSessionRow
      | Some n \<Rightarrow>
          (let prepared = pcPrepare pc writes n now
           in if \<not> pcValid pc prepared n (\<lambda>i. hasEntry t i \<or> hasUsage t i) (hasEntry t) then Inl InvalidWrites
              else (case applyWrites isoTime prepared t of
                      Inl e \<Rightarrow> Inl e
                    | Inr t' \<Rightarrow> Inr (t'\<lparr>ptNextSeq := Some (n + int (length prepared))\<rparr>, readStats t'))))"

subsection \<open>Reading\<close>

definition getEntries :: "piTables \<Rightarrow> string list \<Rightarrow> (string, storedEntry) jsmap" where
  "getEntries t ids =
     foldl (\<lambda>m i. case entryRow t i of None \<Rightarrow> m | Some r \<Rightarrow> jmSet i (decodeEntry (ptMessages t) r) m) [] ids"

definition getValue :: "piTables \<Rightarrow> string \<Rightarrow> string \<Rightarrow> (int \<times> json) option" where
  "getValue t ns k = jmGet (ptValues t) (ns, k)"

text \<open>\<open>keyLe\<close> orders keys by their bytes.\<close>

fun insertByKey ::
  "(string \<Rightarrow> string \<Rightarrow> bool) \<Rightarrow> (string \<times> string) \<times> int \<times> json \<Rightarrow> ((string \<times> string) \<times> int \<times> json) list \<Rightarrow> ((string \<times> string) \<times> int \<times> json) list" where
  "insertByKey keyLe x [] = [x]"
| "insertByKey keyLe x (y # ys) =
     (if keyLe (snd (fst x)) (snd (fst y)) then x # y # ys else y # insertByKey keyLe x ys)"

definition scanValues :: "(string \<Rightarrow> string \<Rightarrow> bool) \<Rightarrow> piTables \<Rightarrow> string \<Rightarrow> string \<Rightarrow> ((string \<times> string) \<times> int \<times> json) list" where
  "scanValues keyLe t ns prefix =
     foldr (insertByKey keyLe) (filter (\<lambda>((a, k), v). a = ns \<and> startsWith k prefix) (ptValues t)) []"

record listRead =
  lrCursor :: "int option"
  lrDescending :: bool
  lrLimit :: nat

definition readList :: "piTables \<Rightarrow> string \<Rightarrow> string \<Rightarrow> listRead \<Rightarrow> (int \<times> json) list" where
  "readList t ns k opts =
     (let mine = map (\<lambda>((a, b, n), v). (n, v)) (filter (\<lambda>((a, b, n), v). a = ns \<and> b = k) (ptLists t));
          past = filter (\<lambda>(n, v). case lrCursor opts of None \<Rightarrow> True | Some c \<Rightarrow> if lrDescending opts then n < c else c < n) mine;
          sorted = sort_key fst past
      in take (lrLimit opts) (if lrDescending opts then rev sorted else sorted))"

record entryScan =
  esFromSeq :: "int option"
  esToSeq :: "int option"
  esScanType :: "string option"
  esScanCustom :: "string option"
  esDescending :: bool
  esLimit :: "nat option"

definition takeLimit :: "nat option \<Rightarrow> 'a list \<Rightarrow> 'a list" where
  "takeLimit limit xs = (case limit of None \<Rightarrow> xs | Some n \<Rightarrow> take n xs)"

definition typeFilter :: "string option \<Rightarrow> string option \<Rightarrow> storedEntry list \<Rightarrow> storedEntry list" where
  "typeFilter ty custom es =
     (let typed = (if truthyStr ty then filter (\<lambda>e. Some (envelopeType (seEnvelope e)) = ty) es else es)
      in if truthyStr custom then filter (\<lambda>e. envelopeCustomType (seEnvelope e) = custom) typed else typed)"

definition seqFrom :: "int option \<Rightarrow> int \<Rightarrow> bool" where
  "seqFrom lo n = (case lo of None \<Rightarrow> True | Some m \<Rightarrow> m \<le> n)"

definition seqTo :: "int option \<Rightarrow> int \<Rightarrow> bool" where
  "seqTo hi n = (case hi of None \<Rightarrow> True | Some m \<Rightarrow> n \<le> m)"

definition readEntries :: "piTables \<Rightarrow> entryScan \<Rightarrow> storedEntry list" where
  "readEntries t q =
     (let found = bySeq (filter (\<lambda>r. seqFrom (esFromSeq q) (smSeq r) \<and> seqTo (esToSeq q) (smSeq r)) (ptMessages t));
          ordered = (if esDescending q then rev found else found)
      in takeLimit (esLimit q) (typeFilter (esScanType q) (esScanCustom q) (map (decodeEntry (ptMessages t)) ordered)))"

record usageScan =
  usFromSeq :: "int option"
  usToSeq :: "int option"
  usDescending :: bool
  usLimit :: "nat option"

definition scanUsage :: "piTables \<Rightarrow> usageScan \<Rightarrow> usageRow list" where
  "scanUsage t q =
     (let found = sort_key urSeq (filter (\<lambda>u. seqFrom (usFromSeq q) (urSeq u) \<and> seqTo (usToSeq q) (urSeq u)) (ptUsage t))
      in takeLimit (usLimit q) (if usDescending q then rev found else found))"

subsection \<open>Branches\<close>

record branchScan =
  bsStart :: string
  bsOldestFirst :: bool
  bsStopAtId :: "string option"
  bsStopAtType :: "string option"
  bsCursor :: "int option"
  bsType :: "string option"
  bsCustom :: "string option"
  bsLimit :: "nat option"

text \<open>The recursive query: the rows from \<open>r\<close> back, at most \<open>n\<close> more, none past one that stops the scan.\<close>

fun branchWalk :: "messageRow list \<Rightarrow> (messageRow \<Rightarrow> bool) \<Rightarrow> nat \<Rightarrow> messageRow \<Rightarrow> messageRow list" where
  "branchWalk rows stop 0 r = [r]"
| "branchWalk rows stop (Suc n) r =
     r # (if stop r then [] else case parentRow rows r of None \<Rightarrow> [] | Some p \<Rightarrow> branchWalk rows stop n p)"

definition sqlStop :: "string option \<Rightarrow> string option \<Rightarrow> messageRow \<Rightarrow> bool" where
  "sqlStop i ty r =
     (i = Some (smHarnessId r) \<or> ty = Some (smRole r) \<and> ty = Some (envelopeType (smEnvelope r)))"

text \<open>The rows before the first one read again.\<close>

fun untilRepeated :: "nat list \<Rightarrow> messageRow list \<Rightarrow> messageRow list" where
  "untilRepeated seen [] = []"
| "untilRepeated seen (r # rs) = (if smId r \<in> set seen then [] else r # untilRepeated (smId r # seen) rs)"

definition entryStops :: "branchScan \<Rightarrow> storedEntry \<Rightarrow> bool" where
  "entryStops q e = (bsStopAtId q = Some (seId e) \<or> bsStopAtType q = Some (envelopeType (seEnvelope e)))"

text \<open>What is done with the entries read, newest first.\<close>

definition branchResult :: "branchScan \<Rightarrow> storedEntry list \<Rightarrow> storedEntry list" where
  "branchResult q es =
     (let stopped = (case findIndex (entryStops q) es of
             None \<Rightarrow> es
           | Some i \<Rightarrow> if bsOldestFirst q then drop i es else take (Suc i) es);
          ordered = (if bsOldestFirst q then rev stopped else stopped);
          past = (case bsCursor q of
             None \<Rightarrow> ordered
           | Some c \<Rightarrow> filter (\<lambda>e. if bsOldestFirst q then c < seSeqNo e else seSeqNo e < c) ordered)
      in takeLimit (bsLimit q) (typeFilter (bsType q) (bsCustom q) past))"

definition branchUnfiltered :: "branchScan \<Rightarrow> bool" where
  "branchUnfiltered q = (\<not> bsOldestFirst q \<and> bsCursor q = None \<and> \<not> truthyStr (bsType q) \<and> \<not> truthyStr (bsCustom q))"

definition branchMax :: "nat \<Rightarrow> branchScan \<Rightarrow> nat" where
  "branchMax entryCount q = (if branchUnfiltered q then (case bsLimit q of None \<Rightarrow> entryCount | Some n \<Rightarrow> min n entryCount) else entryCount)"

definition readBranch :: "piTables \<Rightarrow> branchScan \<Rightarrow> storageError + storedEntry list" where
  "readBranch t q =
     (case entryRow t (bsStart q) of
        None \<Rightarrow> Inl (UnknownBranchEntry (bsStart q))
      | Some r \<Rightarrow>
          (let rows = ptMessages t;
               stop = (if bsOldestFirst q then (\<lambda>r. False) else sqlStop (bsStopAtId q) (bsStopAtType q));
               walked = branchWalk rows stop (branchMax (length rows) q - 1) r
           in Inr (branchResult q (map (decodeEntry rows) (untilRepeated [] walked)))))"

subsection \<open>The adapter\<close>

text \<open>Commits apply one after another, each in a step of its own after it was asked for; closing refuses whatever is asked
  for next and ends once those before it are applied. \<open>saDone\<close> is how each settled, in order.\<close>

datatype adapterState = AdapterOpen | AdapterClosing | AdapterShut

record 'w storageAdapter =
  saState :: adapterState
  saQueue :: "'w list list"
  saTables :: piTables
  saDone :: "('w list \<times> storageError option) list"

datatype 'w adapterOp =
    AskCommit "'w list"
  | RunCommit int
  | AskClose
  | CloseEnds
  | OtherRowIds nat

definition assertOpen :: "'w storageAdapter \<Rightarrow> bool" where
  "assertOpen sa = (saState sa = AdapterOpen)"

definition commitEntries :: "'w list \<Rightarrow> 'w storageAdapter \<Rightarrow> storageError + 'w storageAdapter" where
  "commitEntries ws sa = (if \<not> assertOpen sa then Inl AdapterClosed else Inr (sa\<lparr>saQueue := saQueue sa @ [ws]\<rparr>))"

text \<open>What reads the tables does so only while the adapter is open.\<close>

definition adapterRead :: "(piTables \<Rightarrow> 'b) \<Rightarrow> 'w storageAdapter \<Rightarrow> storageError + 'b" where
  "adapterRead f sa = (if \<not> assertOpen sa then Inl AdapterClosed else Inr (f (saTables sa)))"

definition scanBranch :: "branchScan \<Rightarrow> 'w storageAdapter \<Rightarrow> storageError + storedEntry list" where
  "scanBranch q sa = (case adapterRead (\<lambda>t. readBranch t q) sa of Inl e \<Rightarrow> Inl e | Inr res \<Rightarrow> res)"

definition scanBranchStructure :: "branchScan \<Rightarrow> 'w storageAdapter \<Rightarrow> storageError + entryStructure list" where
  "scanBranchStructure q sa = map_sum id (map structureOf) (scanBranch q sa)"

definition runCommit :: "'w piCommit \<Rightarrow> (int \<Rightarrow> string) \<Rightarrow> int \<Rightarrow> 'w storageAdapter \<Rightarrow> 'w storageAdapter" where
  "runCommit pc isoTime now sa =
     (case saQueue sa of
        [] \<Rightarrow> sa
      | ws # rest \<Rightarrow>
          (case applyCommit pc isoTime now ws (saTables sa) of
             Inl e \<Rightarrow> sa\<lparr>saQueue := rest, saDone := saDone sa @ [(ws, Some e)]\<rparr>
           | Inr (t, stats) \<Rightarrow> sa\<lparr>saQueue := rest, saTables := t, saDone := saDone sa @ [(ws, None)]\<rparr>))"

definition closeAdapter :: "'w storageAdapter \<Rightarrow> 'w storageAdapter" where
  "closeAdapter sa = (if saState sa \<noteq> AdapterOpen then sa else sa\<lparr>saState := AdapterClosing\<rparr>)"

definition closeEnds :: "'w storageAdapter \<Rightarrow> 'w storageAdapter" where
  "closeEnds sa = (if saState sa = AdapterClosing \<and> saQueue sa = [] then sa\<lparr>saState := AdapterShut\<rparr> else sa)"

text \<open>Rows of other sessions take ids too.\<close>

definition adapterStep :: "'w piCommit \<Rightarrow> (int \<Rightarrow> string) \<Rightarrow> 'w storageAdapter \<Rightarrow> 'w adapterOp \<Rightarrow> 'w storageAdapter" where
  "adapterStep pc isoTime sa op1 =
     (case op1 of
        AskCommit ws \<Rightarrow> (case commitEntries ws sa of Inl e \<Rightarrow> sa | Inr sa' \<Rightarrow> sa')
      | RunCommit now \<Rightarrow> runCommit pc isoTime now sa
      | AskClose \<Rightarrow> closeAdapter sa
      | CloseEnds \<Rightarrow> closeEnds sa
      | OtherRowIds n \<Rightarrow> sa\<lparr>saTables := (saTables sa)\<lparr>ptNextId := ptNextId (saTables sa) + n\<rparr>\<rparr>)"

definition newTables :: piTables where
  "newTables = \<lparr>ptMessages = [], ptNextId = 1, ptValues = [], ptLists = [], ptUsage = [], ptNextSeq = Some 1\<rparr>"

definition newAdapter :: "piTables \<Rightarrow> 'w storageAdapter" where
  "newAdapter t = \<lparr>saState = AdapterOpen, saQueue = [], saTables = t, saDone = []\<rparr>"

end
