(* ===== verification/Storage_Laws.thy ===== *)
theory Storage_Laws
  imports Pi_Storage Page_Laws
begin

text \<open>
  Laws of \<open>Pi_Storage\<close>: what every history of commits leaves in the tables, which is what the pages and branches of
  \<open>Page_Laws\<close> rely on; that a commit is all or nothing and reads back; that reading a branch no further back than
  needed reads the same as reading all of it; and that closing settles what was accepted.
\<close>

subsection \<open>The invariant\<close>

definition rowsUnique :: "piTables \<Rightarrow> bool" where
  "rowsUnique t \<longleftrightarrow> distinct (map smSeq (ptMessages t)) \<and> distinct (map smHarnessId (ptMessages t))"

definition rowIdsOk :: "piTables \<Rightarrow> bool" where
  "rowIdsOk t \<longleftrightarrow> distinct (map smId (ptMessages t)) \<and> (\<forall>r\<in>set (ptMessages t). smId r < ptNextId t)"

definition parentsStored :: "piTables \<Rightarrow> bool" where
  "parentsStored t \<longleftrightarrow> (\<forall>r\<in>set (ptMessages t). \<forall>p. smParent r = Some p \<longrightarrow> p < smId r \<and> p \<in> smId ` set (ptMessages t))"

definition rolesOk :: "piTables \<Rightarrow> bool" where
  "rolesOk t \<longleftrightarrow> (\<forall>r\<in>set (ptMessages t). smRole r = envelopeRole (smEnvelope r))"

definition keyedTablesOk :: "piTables \<Rightarrow> bool" where
  "keyedTablesOk t \<longleftrightarrow> jmWf (ptValues t) \<and> distinct (map fst (ptLists t)) \<and>
     distinct (map urId (ptUsage t)) \<and> distinct (map urSeq (ptUsage t))"

definition tablesOk :: "piTables \<Rightarrow> bool" where
  "tablesOk t \<longleftrightarrow> rowsUnique t \<and> rowIdsOk t \<and> parentsStored t \<and> rolesOk t \<and> keyedTablesOk t"

lemma entryRow_SomeD: "entryRow t i = Some r \<Longrightarrow> r \<in> set (ptMessages t) \<and> smHarnessId r = i"
  unfolding entryRow_def by (blast dest: find_SomeD)

text \<open>The row a write of an entry inserts.\<close>

lemma applyWrite_entry:
  assumes "applyWrite isoTime (EntryWrite i parent n env ts) t = Inr t'"
  obtains r where "t' = t\<lparr>ptMessages := ptMessages t @ [r], ptNextId := Suc (ptNextId t)\<rparr>"
    "smId r = ptNextId t" "smSeq r = n" "smHarnessId r = i" "smEnvelope r = env" "smRole r = envelopeRole env"
    "\<forall>q\<in>set (ptMessages t). smSeq q \<noteq> n \<and> smHarnessId q \<noteq> i"
    "case parent of None \<Rightarrow> smParent r = None | Some p \<Rightarrow> \<exists>q. entryRow t p = Some q \<and> smParent r = Some (smId q)"
proof (cases parent)
  case None
  then show thesis
    using assms that by (auto simp: insertMessage_def list_ex_iff split: if_splits)
next
  case (Some p)
  show thesis
  proof (cases "entryRow t p")
    case None
    then show thesis using assms Some by (simp add: rowIdForEntry_def)
  next
    case row: (Some q)
    then show thesis
      using assms Some that by (auto simp: rowIdForEntry_def insertMessage_def list_ex_iff split: if_splits)
  qed
qed

lemma applyWrite_other:
  assumes "applyWrite isoTime w t = Inr t'" "\<And>i parent n env ts. w \<noteq> EntryWrite i parent n env ts"
  shows "ptMessages t' = ptMessages t \<and> ptNextId t' = ptNextId t"
proof (cases w)
  case (EntryWrite i parent n env ts)
  with assms(2) [of i parent n env ts] show ?thesis by simp
next
  case (ListAppend ns k n v)
  with assms(1) have "t' = t\<lparr>ptLists := ptLists t @ [((ns, k, n), v)]\<rparr>" by (simp split: if_split_asm)
  then show ?thesis by simp
next
  case (UsageWrite u)
  with assms(1) have "t' = t\<lparr>ptUsage := ptUsage t @ [u]\<rparr>" by (simp split: if_split_asm)
  then show ?thesis by simp
qed (use assms(1) in auto)

lemma applyWrite_seq: "applyWrite isoTime w t = Inr t' \<Longrightarrow> ptNextSeq t' = ptNextSeq t"
  by (cases "(isoTime, w, t)" rule: applyWrite.cases) (auto simp: insertMessage_def split: if_splits sum.splits option.splits)

lemma applyWrite_messages_ok:
  assumes "applyWrite isoTime w t = Inr t'" "rowsUnique t" "rowIdsOk t" "parentsStored t" "rolesOk t"
  shows "rowsUnique t' \<and> rowIdsOk t' \<and> parentsStored t' \<and> rolesOk t'"
proof (cases "\<exists>i parent n env ts. w = EntryWrite i parent n env ts")
  case True
  then obtain i parent n env ts where w: "w = EntryWrite i parent n env ts" by blast
  obtain r where
    r: "t' = t\<lparr>ptMessages := ptMessages t @ [r], ptNextId := Suc (ptNextId t)\<rparr>"
      "smId r = ptNextId t" "smSeq r = n" "smHarnessId r = i" "smEnvelope r = env" "smRole r = envelopeRole env"
      "\<forall>q\<in>set (ptMessages t). smSeq q \<noteq> n \<and> smHarnessId q \<noteq> i"
      "case parent of None \<Rightarrow> smParent r = None | Some p \<Rightarrow> \<exists>q. entryRow t p = Some q \<and> smParent r = Some (smId q)"
    by (rule applyWrite_entry [OF assms(1) [unfolded w]])
  have unique: "rowsUnique t'" using assms(2) r(3,4,7) by (auto simp: rowsUnique_def r(1))
  have ids: "rowIdsOk t'" using assms(3) r(2) by (auto simp: rowIdsOk_def r(1) less_Suc_eq)
  have p: "q < smId r \<and> q \<in> smId ` set (ptMessages t)" if "smParent r = Some q" for q
    using that r(2,8) assms(3) by (auto simp: rowIdsOk_def dest!: entryRow_SomeD split: option.splits)
  have parents: "parentsStored t'" using assms(4) p by (auto simp: parentsStored_def r(1))
  have "rolesOk t'" using assms(5) r(5,6) by (auto simp: rolesOk_def r(1))
  with unique ids parents show ?thesis by simp
next
  case False
  then have "ptMessages t' = ptMessages t \<and> ptNextId t' = ptNextId t" by (intro applyWrite_other [OF assms(1)]) blast
  with assms show ?thesis by (simp add: rowsUnique_def rowIdsOk_def parentsStored_def rolesOk_def)
qed

lemma applyWrite_keyed_ok:
  assumes "applyWrite isoTime w t = Inr t'" "keyedTablesOk t"
  shows "keyedTablesOk t'"
proof (cases w)
  case (EntryWrite i parent n env ts)
  show ?thesis
    by (rule applyWrite_entry [OF assms(1) [unfolded EntryWrite]]) (use assms(2) in \<open>simp add: keyedTablesOk_def\<close>)
next
  case (UsageWrite u)
  have new: "\<not> list_ex (\<lambda>q. urId q = urId u \<or> urSeq q = urSeq u) (ptUsage t)" and t': "t' = t\<lparr>ptUsage := ptUsage t @ [u]\<rparr>"
    using assms(1) UsageWrite by (simp_all split: if_split_asm)
  have "urId u \<notin> urId ` set (ptUsage t)" "urSeq u \<notin> urSeq ` set (ptUsage t)"
    using new unfolding list_ex_iff by (metis imageE)+
  with assms(2) show ?thesis unfolding t' keyedTablesOk_def by simp
next
  case (ListAppend ns k n v)
  have new: "\<not> list_ex (\<lambda>(a, x). a = (ns, k, n)) (ptLists t)" and t': "t' = t\<lparr>ptLists := ptLists t @ [((ns, k, n), v)]\<rparr>"
    using assms(1) ListAppend by (simp_all split: if_split_asm)
  have "(ns, k, n) \<notin> fst ` set (ptLists t)"
    using new unfolding list_ex_iff by (metis (mono_tags, lifting) imageE case_prod_unfold)
  with assms(2) show ?thesis unfolding t' keyedTablesOk_def by simp
next
  case (ListDelete ns k n)
  with assms(1) have "t' = t\<lparr>ptLists := filter (\<lambda>((a, b, m), x). (a, b) \<noteq> (ns, k)) (ptLists t)\<rparr>" by simp
  with assms(2) show ?thesis by (simp add: keyedTablesOk_def distinct_map_filter)
next
  case (ValueSet ns k n v)
  with assms(1) have "t' = t\<lparr>ptValues := jmSet (ns, k) (n, v) (ptValues t)\<rparr>" by simp
  with assms(2) show ?thesis by (simp add: keyedTablesOk_def)
next
  case (ValueDelete ns k n)
  with assms(1) have "t' = t\<lparr>ptValues := jmDelete (ns, k) (ptValues t)\<rparr>" by simp
  with assms(2) show ?thesis by (simp add: keyedTablesOk_def)
qed

lemma applyWrite_ok: "applyWrite isoTime w t = Inr t' \<Longrightarrow> tablesOk t \<Longrightarrow> tablesOk t'"
  using applyWrite_messages_ok applyWrite_keyed_ok unfolding tablesOk_def by metis

lemma applyWrites_ok: "applyWrites isoTime ws t = Inr t' \<Longrightarrow> tablesOk t \<Longrightarrow> tablesOk t'"
proof (induction ws arbitrary: t)
  case (Cons w ws)
  then show ?case by (auto split: sum.splits intro: applyWrite_ok)
qed simp

lemma tablesOk_seq [simp]: "tablesOk (t\<lparr>ptNextSeq := n\<rparr>) = tablesOk t"
  by (simp add: tablesOk_def rowsUnique_def rowIdsOk_def parentsStored_def rolesOk_def keyedTablesOk_def)

lemma applyCommit_Inr:
  assumes "applyCommit pc isoTime now ws t = Inr (t', stats)"
  obtains n t1 where "ptNextSeq t = Some n" "applyWrites isoTime (pcPrepare pc ws n now) t = Inr t1"
    "t' = t1\<lparr>ptNextSeq := Some (n + int (length (pcPrepare pc ws n now)))\<rparr>" "stats = readStats t1"
  using assms by (auto simp: applyCommit_def Let_def split: option.splits if_splits sum.splits)

lemma applyCommit_ok: "applyCommit pc isoTime now ws t = Inr (t', stats) \<Longrightarrow> tablesOk t \<Longrightarrow> tablesOk t'"
  by (erule applyCommit_Inr) (simp add: applyWrites_ok)

lemma tablesOk_ids: "tablesOk t \<Longrightarrow> tablesOk (t\<lparr>ptNextId := ptNextId t + n\<rparr>)"
  by (auto simp: tablesOk_def rowsUnique_def rowIdsOk_def parentsStored_def rolesOk_def keyedTablesOk_def)

lemma runCommit_tables:
  "saTables (runCommit pc isoTime now sa) = saTables sa \<or>
   (\<exists>ws rest stats. saQueue sa = ws # rest \<and> applyCommit pc isoTime now ws (saTables sa) = Inr (saTables (runCommit pc isoTime now sa), stats))"
  by (auto simp: runCommit_def split: list.splits sum.splits prod.splits)

lemma adapterStep_tables_ok: "tablesOk (saTables sa) \<Longrightarrow> tablesOk (saTables (adapterStep pc isoTime sa op1))"
proof (cases op1)
  case (RunCommit now)
  assume "tablesOk (saTables sa)"
  with RunCommit runCommit_tables [of pc isoTime now sa] show ?thesis
    by (auto simp: adapterStep_def dest: applyCommit_ok)
qed (auto simp: adapterStep_def commitEntries_def closeAdapter_def closeEnds_def tablesOk_ids)

lemma adapter_tables_ok: "tablesOk (saTables sa) \<Longrightarrow> tablesOk (saTables (foldl (adapterStep pc isoTime) sa ops))"
  by (induction ops arbitrary: sa) (simp_all add: adapterStep_tables_ok)

lemma newTables_ok: "tablesOk newTables"
  by (simp add: tablesOk_def rowsUnique_def rowIdsOk_def parentsStored_def rolesOk_def keyedTablesOk_def newTables_def)

lemma parentRow_id: "parentRow rows r = Some p \<Longrightarrow> smParent r = Some (smId p)"
  by (auto simp: parentRow_def bind_eq_Some_conv dest: find_SomeD)

lemma tablesOk_parents: "tablesOk t \<Longrightarrow> parentsEarlier (ptMessages t)"
  by (auto simp: tablesOk_def parentsStored_def parentsEarlier_def dest: parentRow_id)

text \<open>C16: Whatever commits are asked for, valid or not, and however many rows other sessions add, the tables keep what
  pages and branches need: sequence numbers and entry ids unique, every parent stored, and stored before its
  children, roles that say what a row holds, and no two values, list elements or usages under one key.\<close>
theorem storage_invariant:
  "let t = saTables (foldl (adapterStep pc isoTime) (newAdapter newTables) ops)
   in uniqueSeqs (ptMessages t) \<and> distinct (map smHarnessId (ptMessages t)) \<and> parentsEarlier (ptMessages t) \<and>
    (\<forall>r\<in>set (ptMessages t). \<forall>p. smParent r = Some p \<longrightarrow> (\<exists>q\<in>set (ptMessages t). smId q = p)) \<and>
    (\<forall>r\<in>set (ptMessages t). smRole r = envelopeRole (smEnvelope r)) \<and> keyedTablesOk t"
proof -
  let ?t = "saTables (foldl (adapterStep pc isoTime) (newAdapter newTables) ops)"
  have ok: "tablesOk ?t" by (rule adapter_tables_ok) (simp add: newAdapter_def newTables_ok)
  then have "rowsUnique ?t" "rowIdsOk ?t" "parentsStored ?t" "rolesOk ?t" "keyedTablesOk ?t" by (simp_all add: tablesOk_def)
  with tablesOk_parents [OF ok] show ?thesis
    unfolding Let_def by (auto simp: rowsUnique_def parentsStored_def rolesOk_def)
qed

theorem storage_invariant_witness:
  "uniqueSeqs (ptMessages (saTables (foldl (adapterStep \<lparr>pcPrepare = (\<lambda>ws n now. ws), pcValid = (\<lambda>ws n f g. True)\<rparr> (\<lambda>n. []))
     (newAdapter newTables) [AskCommit [EntryWrite ''e'' None 1 (StoredCompaction [] 0) 0], RunCommit 0])))"
  using storage_invariant [of "\<lparr>pcPrepare = (\<lambda>ws n now. ws), pcValid = (\<lambda>ws n f g. True)\<rparr>" "\<lambda>n. []"
    "[AskCommit [EntryWrite ''e'' None 1 (StoredCompaction [] 0) 0], RunCommit 0]"]
  unfolding Let_def by blast

subsection \<open>A commit\<close>

lemma applyWrites_append:
  "applyWrites isoTime (vs @ ws) t = (case applyWrites isoTime vs t of Inl e \<Rightarrow> Inl e | Inr t' \<Rightarrow> applyWrites isoTime ws t')"
  by (induction vs arbitrary: t) (simp_all split: sum.splits)

text \<open>What the last write of a value leaves.\<close>

fun writtenValue :: "string \<Rightarrow> string \<Rightarrow> committedWrite list \<Rightarrow> (int \<times> json) option \<Rightarrow> (int \<times> json) option" where
  "writtenValue ns k [] v = v"
| "writtenValue ns k (ValueSet ns' k' n x # ws) v = writtenValue ns k ws (if ns' = ns \<and> k' = k then Some (n, x) else v)"
| "writtenValue ns k (ValueDelete ns' k' n # ws) v = writtenValue ns k ws (if ns' = ns \<and> k' = k then None else v)"
| "writtenValue ns k (w # ws) v = writtenValue ns k ws v"

lemma applyWrite_value:
  "applyWrite isoTime w t = Inr t' \<Longrightarrow> getValue t' ns k = writtenValue ns k [w] (getValue t ns k)"
  by (cases w) (auto simp: getValue_def insertMessage_def split: if_splits sum.splits option.splits)

lemma writtenValue_Cons: "writtenValue ns k (w # ws) v = writtenValue ns k ws (writtenValue ns k [w] v)"
  by (cases w) simp_all

lemma applyWrites_value:
  "applyWrites isoTime ws t = Inr t' \<Longrightarrow> getValue t' ns k = writtenValue ns k ws (getValue t ns k)"
proof (induction ws arbitrary: t)
  case (Cons w ws)
  from Cons.prems obtain t1 where t1: "applyWrite isoTime w t = Inr t1" "applyWrites isoTime ws t1 = Inr t'"
    by (auto split: sum.splits)
  show ?case
    by (subst writtenValue_Cons, subst applyWrite_value [OF t1(1), symmetric], rule Cons.IH [OF t1(2)])
qed simp

text \<open>An entry a commit wrote, read back: its parent is the row that had the parent's id.\<close>

definition storedAs :: "piTables \<Rightarrow> string \<Rightarrow> string option \<Rightarrow> int \<Rightarrow> storedEnvelope \<Rightarrow> bool" where
  "storedAs t i parent n env \<longleftrightarrow>
     (\<exists>r\<in>set (ptMessages t). smHarnessId r = i \<and> smSeq r = n \<and> smEnvelope r = env \<and>
        (case parent of None \<Rightarrow> smParent r = None
         | Some p \<Rightarrow> \<exists>q\<in>set (ptMessages t). smHarnessId q = p \<and> smParent r = Some (smId q)))"

lemma applyWrite_grows: "applyWrite isoTime w t = Inr t' \<Longrightarrow> set (ptMessages t) \<subseteq> set (ptMessages t')"
  by (cases w) (auto simp: insertMessage_def split: if_splits sum.splits option.splits)

lemma applyWrites_grows: "applyWrites isoTime ws t = Inr t' \<Longrightarrow> set (ptMessages t) \<subseteq> set (ptMessages t')"
proof (induction ws arbitrary: t)
  case (Cons w ws)
  then show ?case by (auto split: sum.splits dest!: applyWrite_grows)
qed simp

lemma storedAs_grows: "storedAs t i parent n env \<Longrightarrow> set (ptMessages t) \<subseteq> set (ptMessages t') \<Longrightarrow> storedAs t' i parent n env"
  unfolding storedAs_def by (fastforce split: option.splits)

lemma applyWrites_stored:
  assumes "applyWrites isoTime ws t = Inr t'" "EntryWrite i parent n env ts \<in> set ws"
  shows "storedAs t' i parent n env"
proof -
  from assms(2) obtain before later where ws: "ws = before @ EntryWrite i parent n env ts # later" by (auto dest: split_list)
  from assms(1) obtain t1 t2 where t: "applyWrite isoTime (EntryWrite i parent n env ts) t1 = Inr t2" "applyWrites isoTime later t2 = Inr t'"
    unfolding ws applyWrites_append by (auto split: sum.splits)
  obtain r where
    r: "t2 = t1\<lparr>ptMessages := ptMessages t1 @ [r], ptNextId := Suc (ptNextId t1)\<rparr>"
      "smId r = ptNextId t1" "smSeq r = n" "smHarnessId r = i" "smEnvelope r = env" "smRole r = envelopeRole env"
      "\<forall>q\<in>set (ptMessages t1). smSeq q \<noteq> n \<and> smHarnessId q \<noteq> i"
      "case parent of None \<Rightarrow> smParent r = None | Some p \<Rightarrow> \<exists>q. entryRow t1 p = Some q \<and> smParent r = Some (smId q)"
    by (rule applyWrite_entry [OF t(1)])
  have "storedAs t2 i parent n env"
    unfolding storedAs_def
    by (rule bexI [of _ r]) (use r in \<open>auto split: option.splits dest!: entryRow_SomeD\<close>)
  then show ?thesis by (rule storedAs_grows [OF _ applyWrites_grows [OF t(2)]])
qed

lemma storedAs_read:
  assumes "storedAs t i parent n env" "tablesOk t"
  shows "entryRow t i \<noteq> None \<and> decodeEntry (ptMessages t) (the (entryRow t i)) = \<lparr>seId = i, seParentId = parent, seSeqNo = n, seEnvelope = env\<rparr>"
proof -
  from assms(1) obtain r where r: "r \<in> set (ptMessages t)" "smHarnessId r = i" "smSeq r = n" "smEnvelope r = env"
    "case parent of None \<Rightarrow> smParent r = None | Some p \<Rightarrow> \<exists>q\<in>set (ptMessages t). smHarnessId q = p \<and> smParent r = Some (smId q)"
    unfolding storedAs_def by blast
  have u: "distinct (map smHarnessId (ptMessages t))" "distinct (map smId (ptMessages t))"
    using assms(2) by (simp_all add: tablesOk_def rowsUnique_def rowIdsOk_def)
  have row: "entryRow t i = Some r" using find_unique [OF u(1) r(1)] r(2) by (simp add: entryRow_def)
  have "map_option smHarnessId (parentRow (ptMessages t) r) = parent"
  proof (cases parent)
    case (Some p)
    with r(5) obtain q where q: "q \<in> set (ptMessages t)" "smHarnessId q = p" "smParent r = Some (smId q)" by auto
    with find_unique [OF u(2) q(1)] Some show ?thesis by (simp add: parentRow_def)
  qed (use r(5) in \<open>simp add: parentRow_def\<close>)
  with row r show ?thesis by (simp add: decodeEntry_def)
qed

text \<open>A commit is all or nothing: where it throws nothing changes, and where it does not, every entry it wrote reads
  back as written (its id, its parent, its number and its content), every value reads as its last write left it,
  and the next number is past them.\<close>
theorem commit_reads_back:
  assumes "tablesOk (saTables sa)" "saQueue sa = ws # rest" "ptNextSeq (saTables sa) = Some n"
  shows "case applyCommit pc isoTime now ws (saTables sa) of
      Inl e \<Rightarrow> saTables (runCommit pc isoTime now sa) = saTables sa \<and> saDone (runCommit pc isoTime now sa) = saDone sa @ [(ws, Some e)]
    | Inr (t', stats) \<Rightarrow>
        saTables (runCommit pc isoTime now sa) = t' \<and>
        (\<forall>i parent m env ts. EntryWrite i parent m env ts \<in> set (pcPrepare pc ws n now) \<longrightarrow>
           jmGet (getEntries t' [i]) i = Some \<lparr>seId = i, seParentId = parent, seSeqNo = m, seEnvelope = env\<rparr>) \<and>
        (\<forall>ns k. getValue t' ns k = writtenValue ns k (pcPrepare pc ws n now) (getValue (saTables sa) ns k)) \<and>
        ptNextSeq t' = Some (n + int (length (pcPrepare pc ws n now)))"
proof (cases "applyCommit pc isoTime now ws (saTables sa)")
  case (Inl e)
  with assms(2) show ?thesis by (simp add: runCommit_def)
next
  case (Inr res)
  obtain t' stats where res: "res = (t', stats)" by (cases res)
  from applyCommit_Inr [OF Inr [unfolded res]] assms(3) obtain t1 where
    t1: "applyWrites isoTime (pcPrepare pc ws n now) (saTables sa) = Inr t1" "t' = t1\<lparr>ptNextSeq := Some (n + int (length (pcPrepare pc ws n now)))\<rparr>"
    by (metis option.inject)
  have ok: "tablesOk t1" by (rule applyWrites_ok [OF t1(1) assms(1)])
  have entry: "jmGet (getEntries t' [i]) i = Some \<lparr>seId = i, seParentId = parent, seSeqNo = m, seEnvelope = env\<rparr>"
    if "EntryWrite i parent m env ts \<in> set (pcPrepare pc ws n now)" for i parent m env ts
    using storedAs_read [OF applyWrites_stored [OF t1(1) that] ok] t1(2)
    by (auto simp: getEntries_def entryRow_def)
  have vals: "getValue t' ns k = writtenValue ns k (pcPrepare pc ws n now) (getValue (saTables sa) ns k)" for ns k
    using applyWrites_value [OF t1(1), of ns k] t1(2) by (simp add: getValue_def)
  show ?thesis
    unfolding Inr res sum.case prod.case
    using assms(2) Inr res entry vals t1(2) by (simp add: runCommit_def)
qed


definition demoCommit :: "committedWrite piCommit" where
  "demoCommit = \<lparr>pcPrepare = (\<lambda>ws n now. ws), pcValid = (\<lambda>ws n f g. True)\<rparr>"

definition demoWrites :: "committedWrite list" where
  "demoWrites = [EntryWrite ''e'' None 1 (StoredCompaction ''s'' 0) 0, ValueSet ''n'' ''k'' 2 JNull]"

theorem commit_reads_back_witness:
  "saTables (runCommit demoCommit (\<lambda>n. []) 0 ((newAdapter newTables)\<lparr>saQueue := [demoWrites]\<rparr>)) \<noteq> newTables \<and>
   jmGet (getEntries (saTables (runCommit demoCommit (\<lambda>n. []) 0 ((newAdapter newTables)\<lparr>saQueue := [demoWrites]\<rparr>))) [''e'']) ''e'' =
     Some \<lparr>seId = ''e'', seParentId = None, seSeqNo = 1, seEnvelope = StoredCompaction ''s'' 0\<rparr>"
proof -
  let ?sa = "(newAdapter newTables)\<lparr>saQueue := [demoWrites]\<rparr>"
  have a: "tablesOk (saTables ?sa)" by (simp add: newAdapter_def newTables_ok)
  have b: "saQueue ?sa = demoWrites # []" by simp
  have c: "ptNextSeq (saTables ?sa) = Some 1" by (simp add: newAdapter_def newTables_def)
  obtain t' stats where t': "applyCommit demoCommit (\<lambda>n. []) 0 demoWrites (saTables ?sa) = Inr (t', stats)" "ptNextSeq t' \<noteq> Some 1"
    by (simp add: applyCommit_def demoCommit_def demoWrites_def newAdapter_def newTables_def insertMessage_def)
  have prepared: "pcPrepare demoCommit demoWrites 1 0 = demoWrites" by (simp add: demoCommit_def)
  have mem: "EntryWrite ''e'' None 1 (StoredCompaction ''s'' 0) 0 \<in> set (pcPrepare demoCommit demoWrites 1 0)"
    unfolding prepared by (simp add: demoWrites_def)
  note r = commit_reads_back [OF a b c, of demoCommit "\<lambda>n. []" 0, unfolded t' sum.case prod.case]
  have tables: "saTables (runCommit demoCommit (\<lambda>n. []) 0 ?sa) = t'" by (rule conjunct1 [OF r])
  from conjunct1 [OF conjunct2 [OF r], rule_format, OF mem] t'(2) show ?thesis
    unfolding tables by (auto simp: newTables_def)
qed

subsection \<open>Branches\<close>

definition upTo :: "('a \<Rightarrow> bool) \<Rightarrow> 'a list \<Rightarrow> 'a list" where
  "upTo P xs = (case findIndex P xs of None \<Rightarrow> xs | Some i \<Rightarrow> take (Suc i) xs)"

lemma upTo_simps [simp]: "upTo P [] = []" "upTo P (x # xs) = x # (if P x then [] else upTo P xs)"
  by (auto simp: upTo_def split: option.split)

lemma upTo_False [simp]: "upTo (\<lambda>x. False) xs = xs"
  by (induction xs) simp_all

lemma upTo_upTo: "(\<And>x. P x \<Longrightarrow> Q x) \<Longrightarrow> upTo Q (upTo P xs) = upTo Q xs"
  by (induction xs) auto

lemma upTo_map: "upTo P (map f xs) = map f (upTo (\<lambda>x. P (f x)) xs)"
  by (induction xs) auto

lemma take_upTo: "n \<le> m \<or> length xs \<le> m \<Longrightarrow> take n (upTo P (take m xs)) = take n (upTo P xs)"
proof (induction xs arbitrary: n m)
  case (Cons x xs)
  then show ?case by (cases n; cases m) auto
qed simp

lemma branchWalk_upTo: "branchWalk rows stop n r = upTo stop (branchWalk rows (\<lambda>x. False) n r)"
  by (induction n arbitrary: r) (auto split: option.splits)

text \<open>Going back, ids fall.\<close>

lemma walk_is_ancestry:
  assumes "parentsStored t" "r \<in> set (ptMessages t)" "\<forall>v\<in>set visited. smId r \<le> v"
  shows "branchWalk (ptMessages t) (\<lambda>x. False) n r = take (Suc n) (ancestry (ptMessages t) visited r)"
  using assms(2,3)
proof (induction n arbitrary: r visited)
  case 0
  then show ?case by (simp add: ancestry.simps [of "ptMessages t" visited r])
next
  case (Suc n)
  show ?case
  proof (cases "parentRow (ptMessages t) r")
    case (Some p)
    then have p: "p \<in> set (ptMessages t)" "smId p < smId r"
      using assms(1) Suc.prems(1) by (auto simp: parentsStored_def parentRow_mem dest: parentRow_id)
    with Suc.prems(2) have "smId p \<notin> set visited" "\<forall>v\<in>set (smId p # visited). smId p \<le> v" by auto
    with Suc.IH [OF p(1), of "smId p # visited"] Some show ?thesis
      by (simp add: ancestry.simps [of "ptMessages t" visited r])
  qed (simp add: ancestry.simps [of "ptMessages t" visited r])
qed

lemma ancestry_falls:
  assumes "parentsStored t" "r \<in> set (ptMessages t)" "\<forall>v\<in>set visited. smId r \<le> v"
  shows "sorted_wrt (>) (map smId (ancestry (ptMessages t) visited r)) \<and> set (ancestry (ptMessages t) visited r) \<subseteq> set (ptMessages t)
    \<and> (\<forall>q\<in>set (ancestry (ptMessages t) visited r). smId q \<le> smId r)"
  using assms(2,3)
proof (induction "smId r" arbitrary: r visited rule: less_induct)
  case less
  show ?case
  proof (cases "parentRow (ptMessages t) r")
    case (Some p)
    then have p: "p \<in> set (ptMessages t)" "smId p < smId r"
      using assms(1) less.prems(1) by (auto simp: parentsStored_def parentRow_mem dest: parentRow_id)
    with less.prems(2) have v: "smId p \<notin> set visited" "\<forall>v\<in>set (smId p # visited). smId p \<le> v" by auto
    have a: "ancestry (ptMessages t) visited r = r # ancestry (ptMessages t) (smId p # visited) p"
      using Some v(1) by (simp add: ancestry.simps [of "ptMessages t" visited r])
    from less.hyps [OF p(2) p(1) v(2)] p(2) less.prems(1) show ?thesis unfolding a by fastforce
  qed (use less.prems in \<open>simp add: ancestry.simps [of "ptMessages t" visited r]\<close>)
qed

lemma untilRepeated_falls:
  "sorted_wrt (>) (map smId rs) \<Longrightarrow> \<forall>r\<in>set rs. \<forall>s\<in>set seen. smId r < s \<Longrightarrow> untilRepeated seen rs = rs"
  by (induction rs arbitrary: seen) auto

lemma falling_distinct: "sorted_wrt (>) ns \<Longrightarrow> distinct (ns :: nat list)"
  by (induction ns) auto

lemma ancestry_length:
  assumes "tablesOk t" "r \<in> set (ptMessages t)"
  shows "length (ancestry (ptMessages t) [smId r] r) \<le> length (ptMessages t)"
proof -
  have f: "sorted_wrt (>) (map smId (ancestry (ptMessages t) [smId r] r)) \<and> set (ancestry (ptMessages t) [smId r] r) \<subseteq> set (ptMessages t)
    \<and> (\<forall>q\<in>set (ancestry (ptMessages t) [smId r] r). smId q \<le> smId r)"
    by (rule ancestry_falls) (use assms in \<open>simp_all add: tablesOk_def\<close>)
  then have "distinct (map smId (ancestry (ptMessages t) [smId r] r))" by (simp add: falling_distinct)
  then have "distinct (ancestry (ptMessages t) [smId r] r)" by (simp add: distinct_map)
  then have "length (ancestry (ptMessages t) [smId r] r) = card (set (ancestry (ptMessages t) [smId r] r))" by (simp add: distinct_card)
  also have "\<dots> \<le> card (set (ptMessages t))" using f by (intro card_mono) simp_all
  also have "\<dots> \<le> length (ptMessages t)" by (rule card_length)
  finally show ?thesis .
qed


lemma set_upTo: "set (upTo P xs) \<subseteq> set xs"
  by (induction xs) auto

lemma upTo_sorted: "sorted_wrt R (map f xs) \<Longrightarrow> sorted_wrt R (map f (upTo P xs))"
proof (induction xs)
  case (Cons x xs)
  then show ?case using set_upTo [of P xs] by (auto simp: sorted_wrt_map)
qed simp

lemma sorted_take: "sorted_wrt R (map f xs) \<Longrightarrow> sorted_wrt R (map f (take n xs))"
  by (simp add: take_map [symmetric] sorted_wrt_take)

text \<open>Reading stops early only where the rest makes no difference.\<close>

lemma branchResult_short:
  assumes "\<And>r. \<not> bsOldestFirst q \<Longrightarrow> S r \<Longrightarrow> entryStops q (dec r)"
    and "bsOldestFirst q \<Longrightarrow> S = (\<lambda>r. False)"
    and "branchUnfiltered q \<and> (\<exists>n. bsLimit q = Some n \<and> n \<le> m) \<or> length rs \<le> m"
  shows "branchResult q (map dec (upTo S (take m rs))) = branchResult q (map dec rs)"
proof (cases "bsOldestFirst q")
  case True
  with assms(3) have "length rs \<le> m" by (auto simp: branchUnfiltered_def)
  with assms(2) [OF True] show ?thesis by simp
next
  case newest: False
  let ?E = "entryStops q"
  have result: "branchResult q xs = takeLimit (bsLimit q) (typeFilter (bsType q) (bsCustom q)
     (case bsCursor q of None \<Rightarrow> upTo ?E xs | Some c \<Rightarrow> filter (\<lambda>e. seSeqNo e < c) (upTo ?E xs)))" for xs
    using newest by (cases "bsCursor q"; cases "findIndex ?E xs") (simp_all add: branchResult_def upTo_def)
  have short: "upTo ?E (map dec (upTo S xs)) = upTo ?E (map dec xs)" for xs
    unfolding upTo_map using assms(1) [OF newest] by (subst upTo_upTo) auto
  show ?thesis
  proof (cases "length rs \<le> m")
    case True
    then have all: "take m rs = rs" by simp
    show ?thesis unfolding all result short ..
  next
    case False
    with assms(3) obtain n where n: "branchUnfiltered q" "bsLimit q = Some n" "n \<le> m" by auto
    have all: "branchResult q xs = take n (upTo ?E xs)" for xs
      using n by (simp add: result branchUnfiltered_def takeLimit_def typeFilter_def)
    show ?thesis
      using take_upTo [of n m "map dec rs" ?E] n(3) by (simp add: all short take_map)
  qed
qed

lemma sqlStop_stops: "sqlStop (bsStopAtId q) (bsStopAtType q) r \<Longrightarrow> entryStops q (decodeEntry rows r)"
  by (auto simp: sqlStop_def entryStops_def decodeEntry_def)

lemma readBranch_full:
  assumes "tablesOk t" "entryRow t (bsStart q) = Some r"
  shows "readBranch t q = Inr (branchResult q (map (decodeEntry (ptMessages t)) (ancestry (ptMessages t) [smId r] r)))"
proof -
  let ?rows = "ptMessages t"
  let ?all = "ancestry ?rows [smId r] r"
  let ?stop = "if bsOldestFirst q then (\<lambda>r. False) else sqlStop (bsStopAtId q) (bsStopAtType q)"
  let ?m = "branchMax (length ?rows) q - 1"
  have r: "r \<in> set ?rows" using entryRow_SomeD [OF assms(2)] by blast
  have parents: "parentsStored t" using assms(1) by (simp add: tablesOk_def)
  have walk: "branchWalk ?rows ?stop ?m r = upTo ?stop (take (Suc ?m) ?all)"
    by (subst branchWalk_upTo, subst walk_is_ancestry [OF parents r, of "[smId r]"]) simp_all
  have "sorted_wrt (>) (map smId ?all)" using ancestry_falls [OF parents r, of "[smId r]"] by simp
  then have "sorted_wrt (>) (map smId (upTo ?stop (take (Suc ?m) ?all)))" by (intro upTo_sorted sorted_take)
  then have once: "untilRepeated [] (upTo ?stop (take (Suc ?m) ?all)) = upTo ?stop (take (Suc ?m) ?all)"
    by (rule untilRepeated_falls) simp
  have enough: "branchUnfiltered q \<and> (\<exists>n. bsLimit q = Some n \<and> n \<le> Suc ?m) \<or> length ?all \<le> Suc ?m"
    using ancestry_length [OF assms(1) r] by (auto simp: branchMax_def split: option.split)
  have "branchResult q (map (decodeEntry ?rows) (upTo ?stop (take (Suc ?m) ?all))) = branchResult q (map (decodeEntry ?rows) ?all)"
    by (rule branchResult_short [OF _ _ enough]) (simp_all add: sqlStop_stops)
  then show ?thesis
    using assms(2) by (simp add: readBranch_def Let_def walk [simplified] once [simplified])
qed

text \<open>C17: Reading a branch no further back than a scan needs gives what reading all of it would: whatever was committed
  and whatever the scan stops at, filters by and is limited to, the answer is that of the whole way back to the root.\<close>
theorem branch_read_is_branch:
  "let t = saTables (foldl (adapterStep pc isoTime) (newAdapter newTables) ops)
   in readBranch t q =
     (case entryRow t (bsStart q) of
        None \<Rightarrow> Inl (UnknownBranchEntry (bsStart q))
      | Some r \<Rightarrow> Inr (branchResult q (map (decodeEntry (ptMessages t)) (ancestry (ptMessages t) [smId r] r))))"
proof -
  let ?t = "saTables (foldl (adapterStep pc isoTime) (newAdapter newTables) ops)"
  have ok: "tablesOk ?t" by (rule adapter_tables_ok) (simp add: newAdapter_def newTables_ok)
  show ?thesis
  proof (cases "entryRow ?t (bsStart q)")
    case None
    then show ?thesis by (simp add: readBranch_def Let_def)
  next
    case (Some r)
    with readBranch_full [OF ok Some] show ?thesis by (simp add: Let_def)
  qed
qed

definition wholeBranch :: "string \<Rightarrow> branchScan" where
  "wholeBranch start = \<lparr>bsStart = start, bsOldestFirst = True, bsStopAtId = None, bsStopAtType = None, bsCursor = None,
     bsType = None, bsCustom = None, bsLimit = None\<rparr>"

text \<open>The two readers of a branch agree: the messages the server loads for a session's tip are those of the entries
  pi reads from it, oldest first, and either refuses a tip it has no row for.\<close>
theorem branch_readers_agree:
  "let t = saTables (foldl (adapterStep pc isoTime) (newAdapter newTables) ops)
   in loadBranchMessages (ptMessages t) (Some tip) =
     (case readBranch t (wholeBranch tip) of
        Inl e \<Rightarrow> Inl UnknownTip
      | Inr es \<Rightarrow> Inr (List.map_filter (\<lambda>e. parsePersistedMessage (seEnvelope e)) es))"
proof -
  let ?t = "saTables (foldl (adapterStep pc isoTime) (newAdapter newTables) ops)"
  have ok: "tablesOk ?t" by (rule adapter_tables_ok) (simp add: newAdapter_def newTables_ok)
  show ?thesis
  proof (cases "entryRow ?t tip")
    case None
    then show ?thesis by (simp add: readBranch_def wholeBranch_def loadBranchMessages_def entryRow_def [symmetric] Let_def)
  next
    case (Some r)
    have whole: "branchResult (wholeBranch tip) es = rev es" for es
    proof -
      have "entryStops (wholeBranch tip) = (\<lambda>e. False)" by (simp add: entryStops_def wholeBranch_def fun_eq_iff)
      moreover have "findIndex (\<lambda>e. False) es = None" by (simp add: findIndex_None)
      ultimately show ?thesis by (simp add: branchResult_def wholeBranch_def takeLimit_def typeFilter_def)
    qed
    have decoded: "List.map_filter (\<lambda>e. parsePersistedMessage (seEnvelope e)) (map (decodeEntry rows) rs) = List.map_filter rowParsed rs" for rows rs
    proof -
      have "parsePersistedMessage (seEnvelope (decodeEntry rows r)) = rowParsed r" for r by (simp add: rowParsed_def decodeEntry_def)
      then show ?thesis by (induction rs) (simp_all add: map_filter_simps split: option.split)
    qed
    have start: "entryRow ?t (bsStart (wholeBranch tip)) = Some r" using Some by (simp add: wholeBranch_def)
    show ?thesis
      using readBranch_full [OF ok start] Some
      by (simp add: whole Let_def loadBranchMessages_def entryRow_def [symmetric] rev_map decoded)
  qed
qed

subsection \<open>Settling\<close>

fun acceptedCommits :: "'w piCommit \<Rightarrow> (int \<Rightarrow> string) \<Rightarrow> 'w storageAdapter \<Rightarrow> 'w adapterOp list \<Rightarrow> 'w list list" where
  "acceptedCommits pc isoTime sa [] = []"
| "acceptedCommits pc isoTime sa (op1 # ops) =
     (case op1 of AskCommit ws \<Rightarrow> (case commitEntries ws sa of Inl e \<Rightarrow> [] | Inr sa' \<Rightarrow> [ws]) | _ \<Rightarrow> []) @
     acceptedCommits pc isoTime (adapterStep pc isoTime sa op1) ops"

lemma step_accounts:
  "map fst (saDone (adapterStep pc isoTime sa op1)) @ saQueue (adapterStep pc isoTime sa op1) =
   map fst (saDone sa) @ saQueue sa @
     (case op1 of AskCommit ws \<Rightarrow> (case commitEntries ws sa of Inl e \<Rightarrow> [] | Inr sa' \<Rightarrow> [ws]) | _ \<Rightarrow> [])"
  by (cases op1) (auto simp: adapterStep_def commitEntries_def closeAdapter_def closeEnds_def runCommit_def
      split: list.splits sum.splits prod.splits)

lemma accounts:
  "map fst (saDone (foldl (adapterStep pc isoTime) sa ops)) @ saQueue (foldl (adapterStep pc isoTime) sa ops) =
   map fst (saDone sa) @ saQueue sa @ acceptedCommits pc isoTime sa ops"
proof (induction ops arbitrary: sa)
  case (Cons op1 ops)
  show ?case using Cons.IH [of "adapterStep pc isoTime sa op1"] step_accounts [of pc isoTime sa op1] by simp
qed simp

lemma runs_drain:
  "saQueue (foldl (adapterStep pc isoTime) sa (map RunCommit nows)) = drop (length nows) (saQueue sa) \<and>
   saState (foldl (adapterStep pc isoTime) sa (map RunCommit nows)) = saState sa"
proof (induction nows arbitrary: sa)
  case (Cons n nows)
  have "saQueue (adapterStep pc isoTime sa (RunCommit n)) = drop 1 (saQueue sa) \<and> saState (adapterStep pc isoTime sa (RunCommit n)) = saState sa"
    by (auto simp: adapterStep_def runCommit_def split: list.splits sum.splits prod.splits)
  with Cons.IH [of "adapterStep pc isoTime sa (RunCommit n)"] show ?case by simp
qed simp

lemma acceptedCommits_append:
  "acceptedCommits pc isoTime sa (xs @ ys) = acceptedCommits pc isoTime sa xs @ acceptedCommits pc isoTime (foldl (adapterStep pc isoTime) sa xs) ys"
  by (induction xs arbitrary: sa) simp_all

lemma acceptedCommits_runs: "acceptedCommits pc isoTime sa (map RunCommit nows) = []"
  by (induction nows arbitrary: sa) simp_all

text \<open>Shut only once nothing is queued, and for good.\<close>

definition shutOk :: "'w storageAdapter \<Rightarrow> bool" where
  "shutOk sa \<longleftrightarrow> (saState sa = AdapterShut \<longrightarrow> saQueue sa = [])"

lemma shut_step: "shutOk sa \<Longrightarrow> shutOk (adapterStep pc isoTime sa op1)"
  by (cases op1) (auto simp: shutOk_def adapterStep_def commitEntries_def assertOpen_def closeAdapter_def closeEnds_def runCommit_def
      split: list.splits sum.splits prod.splits)

lemma shut_always: "shutOk sa \<Longrightarrow> shutOk (foldl (adapterStep pc isoTime) sa ops)"
  by (induction ops arbitrary: sa) (simp_all add: shut_step)

text \<open>Closing the storage loses nothing: every commit accepted before it is applied or refused in the order asked,
  exactly once, and as soon as the last of them has run the adapter is shut and nothing is read or written through it.\<close>
theorem close_settles_accepted:
  assumes "length (saQueue (foldl (adapterStep pc isoTime) (newAdapter t) ops)) \<le> length nows"
  shows "let sa = foldl (adapterStep pc isoTime) (newAdapter t) (ops @ AskClose # map RunCommit nows @ [CloseEnds])
    in saState sa = AdapterShut \<and> map fst (saDone sa) = acceptedCommits pc isoTime (newAdapter t) ops \<and> saQueue sa = [] \<and>
      commitEntries ws sa = Inl AdapterClosed \<and> adapterRead f sa = Inl AdapterClosed"
proof -
  let ?step = "foldl (adapterStep pc isoTime)"
  let ?sa1 = "?step (newAdapter t) ops"
  let ?sa2 = "adapterStep pc isoTime ?sa1 AskClose"
  let ?sa3 = "?step ?sa2 (map RunCommit nows)"
  let ?sa = "?step (newAdapter t) (ops @ AskClose # map RunCommit nows @ [CloseEnds])"
  have sa: "?sa = closeEnds ?sa3" by (simp add: adapterStep_def)
  have q2: "saQueue ?sa2 = saQueue ?sa1" by (simp add: adapterStep_def closeAdapter_def)
  have s2: "saState ?sa2 \<noteq> AdapterOpen" by (simp add: adapterStep_def closeAdapter_def)
  have q3: "saQueue ?sa3 = []" "saState ?sa3 = saState ?sa2" using runs_drain [of pc isoTime ?sa2 nows] assms q2 by simp_all
  have shut: "saState ?sa = AdapterShut" "saQueue ?sa = []"
    unfolding sa using q3 s2 by (auto simp: closeEnds_def intro: adapterState.exhaust)
  have "map fst (saDone ?sa) = acceptedCommits pc isoTime (newAdapter t) (ops @ AskClose # map RunCommit nows @ [CloseEnds])"
    using accounts [of pc isoTime "newAdapter t" "ops @ AskClose # map RunCommit nows @ [CloseEnds]"] shut(2)
    by (simp add: newAdapter_def)
  also have "\<dots> = acceptedCommits pc isoTime (newAdapter t) ops"
    by (simp add: acceptedCommits_append acceptedCommits_runs)
  finally show ?thesis using shut by (simp add: Let_def commitEntries_def adapterRead_def assertOpen_def)
qed

theorem close_settles_accepted_witness:
  "let sa = foldl (adapterStep demoCommit (\<lambda>n. [])) (newAdapter newTables) ([AskCommit demoWrites] @ AskClose # map RunCommit [0] @ [CloseEnds])
   in saState sa = AdapterShut \<and> map fst (saDone sa) = [demoWrites]"
proof -
  have q: "length (saQueue (foldl (adapterStep demoCommit (\<lambda>n. [])) (newAdapter newTables) [AskCommit demoWrites])) \<le> length [0 :: int]"
    by (simp add: adapterStep_def commitEntries_def newAdapter_def assertOpen_def)
  have a: "acceptedCommits demoCommit (\<lambda>n. []) (newAdapter newTables) [AskCommit demoWrites] = [demoWrites]"
    by (simp add: commitEntries_def newAdapter_def assertOpen_def)
  from close_settles_accepted [OF q, of demoWrites "\<lambda>t. t"] show ?thesis
    unfolding a Let_def by blast
qed

end
