(* ===== verification/Automation_Store.thy ===== *)
theory Automation_Store
  imports Reins_Prelude
begin

text \<open>
  The tables of the automations extension, \<^verbatim>\<open>packages/backend/src/extensions/automations/store.ts\<close>. Rows are in the order of
  their ids, which \<open>AUTOINCREMENT\<close> hands out upwards. A time is its milliseconds; a date that \<open>toISOString\<close> refuses makes
  the query it is for throw, so those queries return an option.
\<close>

subsection \<open>Rows\<close>

datatype runOutcome = RoSent | RoSkipped | RoRunning | RoCompleted | RoFailed | RoCancelled | RoLost

datatype compaction = CompactPending | CompactStarted | CompactFailed

datatype automationTarget = TargetSession | TargetOwn | TargetNew

datatype automationTrigger = TriggerSchedule | TriggerCommand

record newAutomation =
  naName :: "string option"
  naMessage :: "string option"
  naTarget :: automationTarget
  naSessionId :: "string option"
  naCreatedBy :: "string option"
  naTrigger :: automationTrigger
  naSchedule :: string
  naTimezone :: string
  naCommand :: "string option"
  naNode :: "string option"
  naCwd :: "string option"
  naTimeoutMs :: "int option"
  naOnce :: bool
  naSource :: "json option"
  naProjectId :: "int option"
  naModel :: "json option"
  naCompactAbove :: "int option"
  naBackground :: bool
  naNextRunAt :: int
  naCreatedAt :: int

record automationRow = newAutomation +
  arId :: nat
  arLastSendSession :: "string option"
  arLastSendRun :: "string option"
  arLastSendAt :: "int option"
  arChecks :: nat
  arLastCheckAt :: "int option"
  arCancelledAt :: "int option"
  arCancelReason :: "string option"

record automationRun =
  auId :: nat
  auAutomation :: nat
  auSession :: "string option"
  auOutcome :: runOutcome
  auStartedAt :: int
  auEndedAt :: "int option"
  auOutput :: "string option"
  auError :: "string option"
  auExitCode :: "int option"
  auCheckOutput :: "string option"
  auCompaction :: "compaction option"
  auCompactionError :: "string option"

record automationDb =
  adRows :: "automationRow list"
  adRuns :: "automationRun list"
  adNextRow :: nat
  adNextRun :: nat

record commandCheck =
  ccExitCode :: int
  ccOutput :: string

definition keptRuns :: nat where "keptRuns = 200"
definition failureWindow :: nat where "failureWindow = 50"

text \<open>A \<open>Date\<close> holds at most this many milliseconds either way.\<close>

definition maxDateMs :: int where "maxDateMs = 8640000000000000"

definition validDate :: "int \<Rightarrow> bool" where
  "validDate ms = (\<bar>ms\<bar> \<le> maxDateMs)"

subsection \<open>Automations\<close>

definition rowOf :: "nat \<Rightarrow> newAutomation \<Rightarrow> automationRow" where
  "rowOf i a = newAutomation.extend a
     \<lparr>arId = i, arLastSendSession = None, arLastSendRun = None, arLastSendAt = None, arChecks = 0, arLastCheckAt = None,
      arCancelledAt = None, arCancelReason = None\<rparr>"

definition insertAutomation :: "newAutomation \<Rightarrow> automationDb \<Rightarrow> (automationRow \<times> automationDb) option" where
  "insertAutomation a db =
     (if \<not> validDate (naNextRunAt a) \<or> \<not> validDate (naCreatedAt a) then None
      else (let row = rowOf (adNextRow db) a
            in Some (row, db\<lparr>adRows := adRows db @ [row], adNextRow := Suc (adNextRow db)\<rparr>)))"

definition getAutomation :: "nat \<Rightarrow> automationDb \<Rightarrow> automationRow option" where
  "getAutomation i db = find (\<lambda>a. arId a = i) (adRows db)"

definition activeAutomations :: "automationDb \<Rightarrow> automationRow list" where
  "activeAutomations db = List.sort_key naNextRunAt (filter (\<lambda>a. arCancelledAt a = None) (adRows db))"

definition listAutomations :: "string option \<Rightarrow> bool \<Rightarrow> automationDb \<Rightarrow> automationRow list" where
  "listAutomations sid includeCancelled db =
     rev (filter (\<lambda>a. (includeCancelled \<or> arCancelledAt a = None) \<and> (sid = None \<or> naSessionId a = sid \<or> naCreatedBy a = sid)) (adRows db))"

definition updateAutomation :: "nat \<Rightarrow> (automationRow \<Rightarrow> automationRow) \<Rightarrow> automationDb \<Rightarrow> automationDb" where
  "updateAutomation i f db = db\<lparr>adRows := map (\<lambda>a. if arId a = i then f a else a) (adRows db)\<rparr>"

definition setNextRun :: "nat \<Rightarrow> int \<Rightarrow> automationDb \<Rightarrow> automationDb option" where
  "setNextRun i at1 db = (if validDate at1 then Some (updateAutomation i (\<lambda>a. a\<lparr>naNextRunAt := at1\<rparr>) db) else None)"

definition setAutomationSession :: "nat \<Rightarrow> string option \<Rightarrow> automationDb \<Rightarrow> automationDb" where
  "setAutomationSession i sid db =
     updateAutomation i (\<lambda>a. a\<lparr>naSessionId := sid, arLastSendSession := None, arLastSendRun := None, arLastSendAt := None\<rparr>) db"

definition recordSend :: "nat \<Rightarrow> string \<Rightarrow> string option \<Rightarrow> int \<Rightarrow> automationDb \<Rightarrow> automationDb" where
  "recordSend i sid lastRun at1 db =
     updateAutomation i (\<lambda>a. a\<lparr>arLastSendSession := Some sid, arLastSendRun := lastRun, arLastSendAt := Some at1\<rparr>) db"

definition recordCheck :: "nat \<Rightarrow> bool \<Rightarrow> int \<Rightarrow> automationDb \<Rightarrow> automationDb" where
  "recordCheck i fired at1 db =
     updateAutomation i (\<lambda>a. a\<lparr>arChecks := arChecks a + (if fired then 0 else 1), arLastCheckAt := Some at1\<rparr>) db"

definition cancelAutomation :: "nat \<Rightarrow> string \<Rightarrow> int \<Rightarrow> automationDb \<Rightarrow> automationDb" where
  "cancelAutomation i reason at1 db =
     updateAutomation i (\<lambda>a. if arCancelledAt a = None then a\<lparr>arCancelledAt := Some at1, arCancelReason := Some reason\<rparr> else a) db"

subsection \<open>Runs\<close>

text \<open>Of an automation's runs only the latest are kept.\<close>

definition pruneRuns :: "nat \<Rightarrow> automationRun list \<Rightarrow> automationRun list" where
  "pruneRuns i runs =
     (let mine = map auId (filter (\<lambda>r. auAutomation r = i) runs); kept = take keptRuns (rev mine)
      in filter (\<lambda>r. auAutomation r \<noteq> i \<or> auId r \<in> set kept) runs)"

definition addRun ::
  "nat \<Rightarrow> string option \<Rightarrow> runOutcome \<Rightarrow> int \<Rightarrow> bool \<Rightarrow> string option \<Rightarrow> commandCheck option \<Rightarrow> automationDb \<Rightarrow> nat \<times> automationDb" where
  "addRun i sid outcome startedAt ended err check db =
     (let run = \<lparr>auId = adNextRun db, auAutomation = i, auSession = sid, auOutcome = outcome, auStartedAt = startedAt,
            auEndedAt = (if ended then Some startedAt else None), auOutput = None, auError = err,
            auExitCode = map_option ccExitCode check, auCheckOutput = map_option ccOutput check, auCompaction = None, auCompactionError = None\<rparr>
      in (adNextRun db, db\<lparr>adRuns := pruneRuns i (adRuns db @ [run]), adNextRun := Suc (adNextRun db)\<rparr>))"

definition updateRun :: "nat \<Rightarrow> (automationRun \<Rightarrow> automationRun) \<Rightarrow> automationDb \<Rightarrow> automationDb" where
  "updateRun r f db = db\<lparr>adRuns := map (\<lambda>u. if auId u = r then f u else u) (adRuns db)\<rparr>"

definition setRunSession :: "nat \<Rightarrow> string \<Rightarrow> automationDb \<Rightarrow> automationDb" where
  "setRunSession r sid db = updateRun r (\<lambda>u. u\<lparr>auSession := Some sid\<rparr>) db"

definition endAutomationRun :: "nat \<Rightarrow> runOutcome \<Rightarrow> int \<Rightarrow> string option \<Rightarrow> string option \<Rightarrow> automationDb \<Rightarrow> automationDb" where
  "endAutomationRun r outcome at1 output err db =
     updateRun r (\<lambda>u. u\<lparr>auOutcome := outcome, auEndedAt := Some at1, auOutput := output, auError := err\<rparr>) db"

definition setCompaction :: "nat \<Rightarrow> compaction \<Rightarrow> string option \<Rightarrow> automationDb \<Rightarrow> automationDb" where
  "setCompaction r c err db = updateRun r (\<lambda>u. u\<lparr>auCompaction := Some c, auCompactionError := err\<rparr>) db"

definition pendingCompaction :: "nat \<Rightarrow> automationDb \<Rightarrow> automationRun option" where
  "pendingCompaction i db = find (\<lambda>u. auAutomation u = i \<and> auCompaction u = Some CompactPending) (rev (adRuns db))"

definition runningRuns :: "nat \<Rightarrow> automationDb \<Rightarrow> automationRun list" where
  "runningRuns i db = rev (filter (\<lambda>u. auAutomation u = i \<and> auOutcome u = RoRunning) (adRuns db))"

definition runningOn :: "string \<Rightarrow> automationDb \<Rightarrow> automationRun list" where
  "runningOn sid db = rev (filter (\<lambda>u. auSession u = Some sid \<and> auOutcome u = RoRunning) (adRuns db))"

definition automationRuns :: "nat \<Rightarrow> nat \<Rightarrow> automationDb \<Rightarrow> automationRun list" where
  "automationRuns i limit db = take limit (rev (filter (\<lambda>u. auAutomation u = i) (adRuns db)))"

subsection \<open>Views\<close>

datatype triggerView = ScheduleView string string | CommandView "string option" string "string option" "string option" "int option"

record automationView =
  avId :: nat
  avName :: "string option"
  avMessage :: "string option"
  avTarget :: automationTarget
  avSessionId :: "string option"
  avCreatedBy :: "string option"
  avTrigger :: triggerView
  avOnce :: bool
  avSource :: "json option"
  avProjectId :: "int option"
  avModel :: "json option"
  avCompactAbove :: "int option"
  avBackground :: bool
  avNextRunAt :: "int option"
  avChecks :: nat
  avLastCheckAt :: "int option"
  avCreatedAt :: int
  avCancelledAt :: "int option"
  avCancelReason :: "string option"
  avLastRun :: "automationRun option"
  avConsecutiveFailures :: nat

definition consecutiveFailures :: "nat \<Rightarrow> automationDb \<Rightarrow> nat" where
  "consecutiveFailures i db =
     (let recent = take failureWindow (rev (filter (\<lambda>u. auAutomation u = i \<and> auOutcome u \<noteq> RoSkipped \<and> auOutcome u \<noteq> RoRunning) (adRuns db)))
      in case findIndex (\<lambda>u. auOutcome u \<noteq> RoFailed) recent of None \<Rightarrow> length recent | Some n \<Rightarrow> n)"

definition triggerViewOf :: "automationRow \<Rightarrow> triggerView" where
  "triggerViewOf a = (case naTrigger a of
     TriggerSchedule \<Rightarrow> ScheduleView (naSchedule a) (naTimezone a)
   | TriggerCommand \<Rightarrow> CommandView (naCommand a) (naSchedule a) (naNode a) (naCwd a) (naTimeoutMs a))"

definition automationViewOf :: "automationDb \<Rightarrow> automationRow \<Rightarrow> automationView" where
  "automationViewOf db a =
     \<lparr>avId = arId a, avName = naName a, avMessage = naMessage a, avTarget = naTarget a, avSessionId = naSessionId a,
      avCreatedBy = naCreatedBy a, avTrigger = triggerViewOf a, avOnce = naOnce a, avSource = naSource a, avProjectId = naProjectId a,
      avModel = naModel a, avCompactAbove = naCompactAbove a, avBackground = naBackground a,
      avNextRunAt = (if arCancelledAt a = None then Some (naNextRunAt a) else None), avChecks = arChecks a, avLastCheckAt = arLastCheckAt a,
      avCreatedAt = naCreatedAt a, avCancelledAt = arCancelledAt a, avCancelReason = arCancelReason a,
      avLastRun = find (\<lambda>u. auAutomation u = arId a) (rev (adRuns db)), avConsecutiveFailures = consecutiveFailures (arId a) db\<rparr>"

definition emptyAutomations :: automationDb where
  "emptyAutomations = \<lparr>adRows = [], adRuns = [], adNextRow = 1, adNextRun = 1\<rparr>"

end
