(* ===== verification/Automation_Laws.thy ===== *)
theory Automation_Laws
  imports Automations
begin

text \<open>
  Laws of the automations. What every action keeps is shown once, in the locale \<open>automation_property\<close>, from what the
  store's operations keep; the properties of the tables are its interpretations.
\<close>

subsection \<open>What an action keeps\<close>

definition keeps :: "(automationWorld \<Rightarrow> bool) \<Rightarrow> 'a automationAction \<Rightarrow> bool" where
  "keeps P m \<longleftrightarrow> (\<forall>w. P w \<longrightarrow> P (snd (m w)))"

named_theorems keeps_rules

lemma keepsD: "keeps P m \<Longrightarrow> P w \<Longrightarrow> P (snd (m w))"
  by (simp add: keeps_def)

lemma keeps_yields [keeps_rules]: "keeps P (yields x)"
  by (simp add: keeps_def yields_def)

lemma keeps_throws [keeps_rules]: "keeps P (throws e)"
  by (simp add: keeps_def throws_def)

lemma keeps_reads [keeps_rules]: "keeps P (reads f)"
  by (simp add: keeps_def reads_def)

lemma keeps_andThen [keeps_rules]:
  assumes "keeps P m" "\<And>x. keeps P (f x)"
  shows "keeps P (andThen m f)"
  unfolding keeps_def
proof (intro allI impI)
  fix w assume "P w"
  with assms(1) have "P (snd (m w))" by (simp add: keeps_def)
  with assms(2) show "P (snd (andThen m f w))"
    by (auto simp: andThen_def keeps_def split: prod.split outcome.split)
qed

lemma keeps_catching [keeps_rules]:
  assumes "keeps P m" "\<And>e. keeps P (f e)"
  shows "keeps P (catching m f)"
  unfolding keeps_def
proof (intro allI impI)
  fix w assume "P w"
  with assms(1) have "P (snd (m w))" by (simp add: keeps_def)
  with assms(2) show "P (snd (catching m f w))"
    by (auto simp: catching_def keeps_def split: prod.split outcome.split)
qed

lemma keeps_eachOf:
  assumes "\<And>x. x \<in> set xs \<Longrightarrow> keeps P (f x)"
  shows "keeps P (eachOf xs f)"
  using assms by (induction xs) (auto simp: eachOf_def intro!: keeps_rules)

lemma keeps_option [keeps_rules]: "keeps P m \<Longrightarrow> (\<And>y. keeps P (f y)) \<Longrightarrow> keeps P (case x of None \<Rightarrow> m | Some y \<Rightarrow> f y)"
  by (cases x) simp_all

lemma keeps_sum [keeps_rules]: "(\<And>y. keeps P (f y)) \<Longrightarrow> (\<And>y. keeps P (g y)) \<Longrightarrow> keeps P (case x of Inl y \<Rightarrow> f y | Inr y \<Rightarrow> g y)"
  by (cases x) simp_all

lemma keeps_if [keeps_rules]: "keeps P m \<Longrightarrow> keeps P m' \<Longrightarrow> keeps P (if b then m else m')"
  by simp

subsection \<open>A property of the tables\<close>

locale automation_property =
  fixes Q :: "automationDb \<Rightarrow> bool"
  assumes insert_keeps: "Q db \<Longrightarrow> insertAutomation a db = Some (row, db') \<Longrightarrow> Q db'"
    and nextRun_keeps: "Q db \<Longrightarrow> setNextRun i t db = Some db' \<Longrightarrow> Q db'"
    and session_keeps: "Q db \<Longrightarrow> Q (setAutomationSession i sid db)"
    and send_keeps: "Q db \<Longrightarrow> Q (recordSend i s lastRun t db)"
    and check_keeps: "Q db \<Longrightarrow> Q (recordCheck i f t db)"
    and cancel_keeps: "Q db \<Longrightarrow> Q (cancelAutomation i reason t db)"
    and run_keeps: "Q db \<Longrightarrow> Q (snd (addRun i sid outcome t (outcome \<noteq> RoRunning) err check db))"
    and runSession_keeps: "Q db \<Longrightarrow> Q (setRunSession run1 s db)"
    and end_keeps: "Q db \<Longrightarrow> outcome \<noteq> RoRunning \<Longrightarrow> Q (endAutomationRun run1 outcome t out err db)"
    and compaction_keeps: "Q db \<Longrightarrow> Q (setCompaction run1 c err db)"
begin

definition tablesKeep :: "'a automationAction \<Rightarrow> bool" where
  "tablesKeep m \<longleftrightarrow> keeps (\<lambda>w. Q (awDb w)) m"

lemma call_keeps: "Q db \<Longrightarrow> Q (applyCall db c)"
  by (cases c) (auto simp: applyCall_def session_keeps cancel_keeps split: option.split dest: insert_keeps)

lemma calls_keep: "Q db \<Longrightarrow> Q (foldl applyCall db cs)"
  by (induction cs arbitrary: db) (simp_all add: call_keeps)

lemma awaits_keep [keeps_rules]: "keeps (\<lambda>w. Q (awDb w)) (awaits f)"
  by (auto simp: keeps_def awaits_def calls_keep split: list.split outcome.split)

lemma changes_keep: "(\<And>db. Q db \<Longrightarrow> Q (f db)) \<Longrightarrow> keeps (\<lambda>w. Q (awDb w)) (changes f)"
  by (simp add: keeps_def changes_def)

lemma effect_keep [keeps_rules]: "keeps (\<lambda>w. Q (awDb w)) (effect e)"
  by (simp add: keeps_def effect_def)

lemma addsRun_keep: "(\<And>db. Q db \<Longrightarrow> Q (snd (f db))) \<Longrightarrow> keeps (\<lambda>w. Q (awDb w)) (addsRun f)"
  by (simp add: keeps_def addsRun_def Let_def case_prod_unfold)

lemma added_keep [keeps_rules]:
  "ended = (outcome \<noteq> RoRunning) \<Longrightarrow> keeps (\<lambda>w. Q (awDb w)) (addsRun (addRun i sid outcome t ended err check))"
  by (rule addsRun_keep) (simp add: run_keeps)

lemmas change_rules [keeps_rules] =
  changes_keep [of "setAutomationSession i sid" for i sid, OF session_keeps]
  changes_keep [of "recordSend i s r t" for i s r t, OF send_keeps]
  changes_keep [of "recordCheck i f t" for i f t, OF check_keeps]
  changes_keep [of "cancelAutomation i reason t" for i reason t, OF cancel_keeps]
  changes_keep [of "setRunSession r s" for r s, OF runSession_keeps]
  changes_keep [of "setCompaction r c e" for r c e, OF compaction_keeps]

lemma end_rule [keeps_rules]: "outcome \<noteq> RoRunning \<Longrightarrow> keeps (\<lambda>w. Q (awDb w)) (changes (endAutomationRun r outcome t out err))"
  by (rule changes_keep) (simp add: end_keeps)

lemma setsNextRun_keep [keeps_rules]: "keeps (\<lambda>w. Q (awDb w)) (setsNextRun i t)"
  by (auto simp: keeps_def setsNextRun_def split: option.split dest: nextRun_keeps)

lemma insertsAutomation_keep [keeps_rules]: "keeps (\<lambda>w. Q (awDb w)) (insertsAutomation a)"
  by (auto simp: keeps_def insertsAutomation_def split: option.split dest: insert_keeps)

lemma startCommand_keep [keeps_rules]: "keeps (\<lambda>w. Q (awDb w)) (startCommand a)"
  by (simp add: keeps_def startCommand_def)

lemma endLost_keep [keeps_rules]: "keeps (\<lambda>w. Q (awDb w)) (endLost now r)"
  unfolding endLost_def by (intro keeps_rules) simp

lemma session_calls_keep [keeps_rules]:
  "keeps (\<lambda>w. Q (awDb w)) sessionGet" "keeps (\<lambda>w. Q (awDb w)) sessionDone" "keeps (\<lambda>w. Q (awDb w)) sessionStart"
  "keeps (\<lambda>w. Q (awDb w)) contextUsage"
  unfolding sessionGet_def sessionDone_def sessionStart_def contextUsage_def by (rule awaits_keep)+

lemma targetOf_keep [keeps_rules]: "keeps (\<lambda>w. Q (awDb w)) (targetOf a now)"
  unfolding targetOf_def sessionOrNone_def by (intro keeps_rules)

lemma deliver_keep [keeps_rules]: "keeps (\<lambda>w. Q (awDb w)) (deliver env a session check)"
  unfolding deliver_def deliverBody_def deliverFailed_def sendTo_def startOwnSession_def
  by (intro keeps_rules keeps_eachOf) simp_all

lemma previousEnded_keep [keeps_rules]: "keeps (\<lambda>w. Q (awDb w)) (previousEnded a now rs)"
  by (induction rs) (auto simp: sessionOrNone_def intro!: keeps_rules)

lemma compact_keep [keeps_rules]: "keeps (\<lambda>w. Q (awDb w)) (compactIfPending a sid)"
  unfolding compactIfPending_def by (intro keeps_rules)

lemma check_keep [keeps_rules]: "keeps (\<lambda>w. Q (awDb w)) (checkAutomation env a)"
  unfolding checkAutomation_def movesOn_def fireSchedule_def
  by (intro keeps_rules) simp_all

lemma tick_keep: "keeps (\<lambda>w. Q (awDb w)) (tick env)"
  unfolding tick_def by (intro keeps_rules keeps_eachOf)

lemma commandChecked_keep: "keeps (\<lambda>w. Q (awDb w)) (commandChecked env i t result)"
  unfolding commandChecked_def by (cases result) (auto intro!: keeps_rules)

lemma commandDone_keep: "keeps (\<lambda>w. Q (awDb w)) (commandDone env i aborted result)"
proof -
  have "Q (awDb (snd (catching (commandChecked env i t result) (\<lambda>e. effect (Warned i e)) w)))" if "Q (awDb w)" for t w
    by (rule keepsD [of "\<lambda>w. Q (awDb w)", OF keeps_catching [OF commandChecked_keep effect_keep] that])
  then show ?thesis
    unfolding keeps_def commandDone_def
    by (auto simp: case_prod_unfold Let_def split: option.split)
qed

lemma settled_keep: "keeps (\<lambda>w. Q (awDb w)) (settled s)"
proof -
  have "settledOutcome st \<noteq> RoRunning" for st by (cases st) (simp_all add: settledOutcome_def)
  then show ?thesis
    unfolding settled_def by (auto intro!: keeps_rules keeps_eachOf split: list.split)
qed

lemma create_keep: "keeps (\<lambda>w. Q (awDb w)) (createAutomation env rq)"
  unfolding createAutomation_def by (cases "rqTarget rq") (auto intro!: keeps_rules)

lemma op_keep: "keeps (\<lambda>w. Q (awDb w)) (automationOpOf env op1)"
  by (cases op1) (auto simp: automationOpOf_def tick_keep settled_keep commandDone_keep create_keep call_keeps changes_keep intro!: keeps_rules)

lemma step_keeps: "Q (awDb w) \<Longrightarrow> Q (awDb (automationStep env w opA))"
  unfolding automationStep_def case_prod_unfold
  by (rule keepsD [of "\<lambda>w. Q (awDb w)", OF op_keep]) simp

lemma run_of_steps: "Q (awDb w) \<Longrightarrow> Q (awDb (foldl (automationStep env) w ops))"
  by (induction ops arbitrary: w) (simp_all add: step_keeps)

end


subsection \<open>The tables\<close>

definition rowsOrdered :: "automationDb \<Rightarrow> bool" where
  "rowsOrdered db \<longleftrightarrow> sorted_wrt (<) (map arId (adRows db)) \<and> (\<forall>a\<in>set (adRows db). arId a < adNextRow db)"

definition runsOrdered :: "automationDb \<Rightarrow> bool" where
  "runsOrdered db \<longleftrightarrow> sorted_wrt (<) (map auId (adRuns db)) \<and> (\<forall>u\<in>set (adRuns db). auId u < adNextRun db)"

definition endsRecorded :: "automationDb \<Rightarrow> bool" where
  "endsRecorded db \<longleftrightarrow> (\<forall>u\<in>set (adRuns db). auOutcome u = RoRunning \<longleftrightarrow> auEndedAt u = None)"

definition runsBounded :: "automationDb \<Rightarrow> bool" where
  "runsBounded db \<longleftrightarrow> (\<forall>i. length (filter (\<lambda>u. auAutomation u = i) (adRuns db)) \<le> keptRuns)"

definition cancelsExplained :: "automationDb \<Rightarrow> bool" where
  "cancelsExplained db \<longleftrightarrow> (\<forall>a\<in>set (adRows db). arCancelledAt a = None \<longleftrightarrow> arCancelReason a = None)"

definition automationsOk :: "automationDb \<Rightarrow> bool" where
  "automationsOk db \<longleftrightarrow> rowsOrdered db \<and> runsOrdered db \<and> endsRecorded db \<and> runsBounded db \<and> cancelsExplained db"

lemmas automationsOk_defs = automationsOk_def rowsOrdered_def runsOrdered_def endsRecorded_def runsBounded_def cancelsExplained_def

lemma updateAutomation_ok:
  assumes "automationsOk db" "\<And>a. arId (f a) = arId a" "\<And>a. (arCancelledAt a = None \<longleftrightarrow> arCancelReason a = None) \<Longrightarrow> arCancelledAt (f a) = None \<longleftrightarrow> arCancelReason (f a) = None"
  shows "automationsOk (updateAutomation i f db)"
proof -
  have "arId \<circ> (\<lambda>a. if arId a = i then f a else a) = arId"
    using assms(2) by (simp add: fun_eq_iff)
  with assms(1) have rows: "rowsOrdered (updateAutomation i f db)"
    using assms(2) by (auto simp: automationsOk_def rowsOrdered_def updateAutomation_def)
  have "cancelsExplained (updateAutomation i f db)"
    using assms(1,3) by (auto simp: automationsOk_def cancelsExplained_def updateAutomation_def)
  with rows assms(1) show ?thesis
    by (simp add: automationsOk_def runsOrdered_def endsRecorded_def runsBounded_def updateAutomation_def)
qed

lemma updateRun_ok:
  assumes "automationsOk db" "\<And>u. auId (f u) = auId u" "\<And>u. auAutomation (f u) = auAutomation u"
    "\<And>u. (auOutcome u = RoRunning \<longleftrightarrow> auEndedAt u = None) \<Longrightarrow> auOutcome (f u) = RoRunning \<longleftrightarrow> auEndedAt (f u) = None"
  shows "automationsOk (updateRun r f db)"
proof -
  have ids: "auId \<circ> (\<lambda>u. if auId u = r then f u else u) = auId"
    using assms(2) by (simp add: fun_eq_iff)
  have mine: "length (filter (\<lambda>u. auAutomation u = i) (map (\<lambda>u. if auId u = r then f u else u) us)) = length (filter (\<lambda>u. auAutomation u = i) us)" for i us
    using assms(3) by (induction us) simp_all
  have "endsRecorded (updateRun r f db)"
    using assms(1,4) by (auto simp: automationsOk_def endsRecorded_def updateRun_def)
  moreover have "runsOrdered (updateRun r f db)"
    using assms(1,2) ids by (auto simp: automationsOk_def runsOrdered_def updateRun_def)
  moreover have "runsBounded (updateRun r f db)"
    using assms(1) mine by (simp add: automationsOk_def runsBounded_def updateRun_def)
  ultimately show ?thesis
    using assms(1) by (simp add: automationsOk_def rowsOrdered_def cancelsExplained_def updateRun_def)
qed

lemma insert_ok: "automationsOk db \<Longrightarrow> insertAutomation a db = Some (row, db') \<Longrightarrow> automationsOk db'"
  by (auto simp: automationsOk_defs insertAutomation_def Let_def rowOf_def newAutomation.defs automationRow.defs sorted_wrt_append less_Suc_eq
      split: if_splits)

lemma prune_bounded:
  assumes "distinct (map auId us)"
  shows "length (filter (\<lambda>u. auAutomation u = i) (pruneRuns i us)) \<le> keptRuns"
proof -
  let ?kept = "take keptRuns (rev (map auId (filter (\<lambda>u. auAutomation u = i) us)))"
  have "filter (\<lambda>u. auAutomation u = i) (pruneRuns i us) = filter (\<lambda>u. auAutomation u = i \<and> auId u \<in> set ?kept) us"
    by (auto simp: pruneRuns_def Let_def intro: filter_cong)
  moreover have "distinct (map auId (filter (\<lambda>u. auAutomation u = i \<and> auId u \<in> set ?kept) us))"
    using assms by (rule distinct_map_filter)
  ultimately have "length (filter (\<lambda>u. auAutomation u = i) (pruneRuns i us)) = card (set (map auId (filter (\<lambda>u. auAutomation u = i \<and> auId u \<in> set ?kept) us)))"
    by (metis distinct_card length_map)
  also have "\<dots> \<le> card (set ?kept)" by (intro card_mono) auto
  also have "\<dots> \<le> keptRuns" using card_length [of ?kept] by simp
  finally show ?thesis .
qed

lemma prune_others: "j \<noteq> i \<Longrightarrow> filter (\<lambda>u. auAutomation u = j) (pruneRuns i us) = filter (\<lambda>u. auAutomation u = j) us"
  by (auto simp: pruneRuns_def Let_def intro: filter_cong)

lemma prune_sorted: "sorted_wrt (<) (map auId us) \<Longrightarrow> sorted_wrt (<) (map auId (pruneRuns i us))"
  by (simp add: pruneRuns_def Let_def sorted_wrt_map sorted_wrt_filter)

lemma addRun_ok: "automationsOk db \<Longrightarrow> automationsOk (snd (addRun i sid outcome t (outcome \<noteq> RoRunning) err check db))"
proof -
  assume ok: "automationsOk db"
  let ?u = "\<lparr>auId = adNextRun db, auAutomation = i, auSession = sid, auOutcome = outcome, auStartedAt = t,
      auEndedAt = (if outcome \<noteq> RoRunning then Some t else None), auOutput = None, auError = err,
      auExitCode = map_option ccExitCode check, auCheckOutput = map_option ccOutput check, auCompaction = None, auCompactionError = None\<rparr>"
  let ?us = "adRuns db @ [?u]"
  let ?db = "db\<lparr>adRuns := pruneRuns i ?us, adNextRun := Suc (adNextRun db)\<rparr>"
  have db: "snd (addRun i sid outcome t (outcome \<noteq> RoRunning) err check db) = ?db" by (simp add: addRun_def Let_def)
  have sorted: "sorted_wrt (<) (map auId ?us)" using ok by (auto simp: automationsOk_def runsOrdered_def sorted_wrt_append)
  have sub: "set (pruneRuns i ?us) \<subseteq> set ?us" by (auto simp: pruneRuns_def Let_def)
  have "sorted_wrt (<) (map auId (pruneRuns i ?us))"
    by (rule prune_sorted [OF sorted])
  moreover have "\<forall>u\<in>set (pruneRuns i ?us). auId u < Suc (adNextRun db)"
    using sub ok by (fastforce simp: automationsOk_def runsOrdered_def)
  ultimately have ordered: "runsOrdered ?db" by (simp add: runsOrdered_def)
  have ends: "endsRecorded ?db"
  proof -
    have "\<forall>u\<in>set ?us. auOutcome u = RoRunning \<longleftrightarrow> auEndedAt u = None" using ok by (auto simp: automationsOk_def endsRecorded_def)
    with sub show ?thesis by (auto simp: endsRecorded_def)
  qed
  have bounded: "runsBounded ?db"
    unfolding runsBounded_def
  proof
    fix j
    have "distinct (map auId ?us)" using sorted strict_sorted_iff by blast
    then show "length (filter (\<lambda>u. auAutomation u = j) (adRuns ?db)) \<le> keptRuns"
      using prune_bounded [of ?us i] prune_others [of j i ?us] ok
      by (cases "j = i") (simp_all add: automationsOk_def runsBounded_def)
  qed
  show ?thesis
    unfolding db using ok ordered ends bounded by (simp add: automationsOk_def rowsOrdered_def cancelsExplained_def)
qed

interpretation tables: automation_property automationsOk
proof
  show "automationsOk db'" if "automationsOk db" "insertAutomation a db = Some (row, db')" for db a row db' using insert_ok that by blast
  show "automationsOk db'" if "automationsOk db" "setNextRun i t db = Some db'" for db i t db'
    using that updateAutomation_ok [OF that(1), of "\<lambda>a. a\<lparr>naNextRunAt := t\<rparr>" i] by (auto simp: setNextRun_def split: if_splits)
  show "automationsOk (setAutomationSession i sid db)" if "automationsOk db" for i sid db
    unfolding setAutomationSession_def by (rule updateAutomation_ok [OF that]) simp_all
  show "automationsOk (recordSend i s lr t db)" if "automationsOk db" for i s lr t db
    unfolding recordSend_def by (rule updateAutomation_ok [OF that]) simp_all
  show "automationsOk (recordCheck i f t db)" if "automationsOk db" for i f t db
    unfolding recordCheck_def by (rule updateAutomation_ok [OF that]) simp_all
  show "automationsOk (cancelAutomation i reason t db)" if "automationsOk db" for i reason t db
    unfolding cancelAutomation_def by (rule updateAutomation_ok [OF that]) (auto split: if_splits)
  show "automationsOk (snd (addRun i sid outcome t (outcome \<noteq> RoRunning) err check db))" if "automationsOk db" for i sid outcome t err check db
    by (rule addRun_ok [OF that])
  show "automationsOk (setRunSession r s db)" if "automationsOk db" for r s db
    unfolding setRunSession_def by (rule updateRun_ok [OF that]) simp_all
  show "automationsOk (endAutomationRun r outcome t out err db)" if "automationsOk db" "outcome \<noteq> RoRunning" for r outcome t out err db
    unfolding endAutomationRun_def by (rule updateRun_ok [OF that(1)]) (simp_all add: that)
  show "automationsOk (setCompaction r c err db)" if "automationsOk db" for r c err db
    unfolding setCompaction_def by (rule updateRun_ok [OF that]) simp_all
qed

text \<open>C20: Whatever ticks, checks, settlements and calls come, in any order, at any await and with any answers, the tables keep
  ids unique and in order, at most 200 runs of an automation, an end time for exactly the runs that ended, and a
  reason for exactly the automations that were cancelled.\<close>
theorem automation_tables_invariant:
  "let db = awDb (foldl (automationStep env) newAutomations ops)
   in sorted_wrt (<) (map arId (adRows db)) \<and> sorted_wrt (<) (map auId (adRuns db)) \<and>
      length (filter (\<lambda>u. auAutomation u = i) (adRuns db)) \<le> 200 \<and>
      list_all (\<lambda>u. (auOutcome u = RoRunning) = (auEndedAt u = None)) (adRuns db) \<and>
      list_all (\<lambda>a. (arCancelledAt a = None) = (arCancelReason a = None)) (adRows db)"
proof -
  have "automationsOk (awDb newAutomations)" by (simp add: automationsOk_defs newAutomations_def emptyAutomations_def)
  then have "automationsOk (awDb (foldl (automationStep env) newAutomations ops))" by (rule tables.run_of_steps)
  then show ?thesis
    unfolding Let_def list_all_iff automationsOk_defs keptRuns_def by blast
qed

subsection \<open>Cancelled\<close>

definition isCancelled :: "nat \<Rightarrow> automationDb \<Rightarrow> bool" where
  "isCancelled i db \<longleftrightarrow> (\<exists>a. getAutomation i db = Some a \<and> arCancelledAt a \<noteq> None)"

lemma getAutomation_update: "(\<And>a. arId (f a) = arId a) \<Longrightarrow>
  getAutomation i (updateAutomation j f db) = map_option (\<lambda>a. if arId a = j then f a else a) (getAutomation i db)"
proof -
  assume f: "\<And>a. arId (f a) = arId a"
  have "find (\<lambda>a. arId a = i) (map (\<lambda>a. if arId a = j then f a else a) rows) =
      map_option (\<lambda>a. if arId a = j then f a else a) (find (\<lambda>a. arId a = i) rows)" for rows
    by (induction rows) (simp_all add: f)
  then show ?thesis by (simp add: getAutomation_def updateAutomation_def)
qed

lemma cancelled_update:
  assumes "isCancelled i db" "\<And>a. arId (f a) = arId a" "\<And>a. arCancelledAt a \<noteq> None \<Longrightarrow> arCancelledAt (f a) \<noteq> None"
  shows "isCancelled i (updateAutomation j f db)"
proof -
  from assms(1) obtain a where a: "getAutomation i db = Some a" "arCancelledAt a \<noteq> None" by (auto simp: isCancelled_def)
  with assms(3) [of a] show ?thesis
    unfolding isCancelled_def getAutomation_update [of f, OF assms(2)] by (cases "arId a = j") simp_all
qed

lemma cancelled_runs: "isCancelled i db \<Longrightarrow> adRows db' = adRows db \<Longrightarrow> isCancelled i db'"
  by (simp add: isCancelled_def getAutomation_def)

lemma find_append_Some: "find P xs = Some x \<Longrightarrow> find P (xs @ ys) = Some x"
  by (induction xs) (auto split: if_splits)

interpretation cancelled: automation_property "isCancelled i" for i
proof
  show "isCancelled i db'" if "isCancelled i db" "insertAutomation a db = Some (row, db')" for db a row db'
    using that by (auto simp: isCancelled_def insertAutomation_def getAutomation_def Let_def find_append_Some split: if_splits)
  show "isCancelled i db'" if "isCancelled i db" "setNextRun j t db = Some db'" for db j t db'
    using that cancelled_update [OF that(1), of "\<lambda>a. a\<lparr>naNextRunAt := t\<rparr>" j] by (auto simp: setNextRun_def split: if_splits)
  show "isCancelled i (setAutomationSession j sid db)" if "isCancelled i db" for j sid db
    unfolding setAutomationSession_def by (rule cancelled_update [OF that]) simp_all
  show "isCancelled i (recordSend j s lr t db)" if "isCancelled i db" for j s lr t db
    unfolding recordSend_def by (rule cancelled_update [OF that]) simp_all
  show "isCancelled i (recordCheck j f t db)" if "isCancelled i db" for j f t db
    unfolding recordCheck_def by (rule cancelled_update [OF that]) simp_all
  show "isCancelled i (cancelAutomation j reason t db)" if "isCancelled i db" for j reason t db
    unfolding cancelAutomation_def by (rule cancelled_update [OF that]) simp_all
  show "isCancelled i (snd (addRun j sid outcome t (outcome \<noteq> RoRunning) err check db))" if "isCancelled i db" for j sid outcome t err check db
    by (rule cancelled_runs [OF that]) (simp add: addRun_def Let_def)
  show "isCancelled i (setRunSession r s db)" if "isCancelled i db" for r s db
    by (rule cancelled_runs [OF that]) (simp add: setRunSession_def updateRun_def)
  show "isCancelled i (endAutomationRun r outcome t out err db)" if "isCancelled i db" "outcome \<noteq> RoRunning" for r outcome t out err db
    by (rule cancelled_runs [OF that(1)]) (simp add: endAutomationRun_def updateRun_def)
  show "isCancelled i (setCompaction r c err db)" if "isCancelled i db" for r c err db
    by (rule cancelled_runs [OF that]) (simp add: setCompaction_def updateRun_def)
qed


definition firesOf :: "nat \<Rightarrow> automationEffect list \<Rightarrow> automationEffect list" where
  "firesOf i es = filter (\<lambda>e. case e of Sending j s m d \<Rightarrow> j = i | Starting j m d \<Rightarrow> j = i | RunningCommand j \<Rightarrow> j = i | _ \<Rightarrow> False) es"

lemma firesOf_append [simp]: "firesOf i (xs @ ys) = firesOf i xs @ firesOf i ys"
  by (simp add: firesOf_def)

lemma quiet_actions [keeps_rules]:
  "keeps (\<lambda>w. firesOf i (awEffects w) = xs) (awaits f)"
  "keeps (\<lambda>w. firesOf i (awEffects w) = xs) (changes g)"
  "keeps (\<lambda>w. firesOf i (awEffects w) = xs) (addsRun h)"
  "keeps (\<lambda>w. firesOf i (awEffects w) = xs) (setsNextRun j t)"
  "keeps (\<lambda>w. firesOf i (awEffects w) = xs) (insertsAutomation a)"
  "keeps (\<lambda>w. firesOf i (awEffects w) = xs) (endLost now r)"
  by (auto simp: keeps_def awaits_def changes_def addsRun_def setsNextRun_def insertsAutomation_def endLost_def Let_def case_prod_unfold
      split: list.split outcome.split option.split)

lemma quiet_effect: "firesOf i [e] = [] \<Longrightarrow> keeps (\<lambda>w. firesOf i (awEffects w) = xs) (effect e)"
  by (simp add: keeps_def effect_def)

lemma quiet_effects [keeps_rules]:
  "j \<noteq> i \<Longrightarrow> keeps (\<lambda>w. firesOf i (awEffects w) = xs) (effect (Sending j s m d))"
  "j \<noteq> i \<Longrightarrow> keeps (\<lambda>w. firesOf i (awEffects w) = xs) (effect (Starting j m d))"
  "keeps (\<lambda>w. firesOf i (awEffects w) = xs) (effect (Delivered j s))"
  "keeps (\<lambda>w. firesOf i (awEffects w) = xs) (effect (Compacting s))"
  "keeps (\<lambda>w. firesOf i (awEffects w) = xs) (effect (Warned j e))"
  by (rule quiet_effect; simp add: firesOf_def)+

lemma quiet_sessions [keeps_rules]:
  "keeps (\<lambda>w. firesOf i (awEffects w) = xs) sessionGet" "keeps (\<lambda>w. firesOf i (awEffects w) = xs) sessionDone"
  "keeps (\<lambda>w. firesOf i (awEffects w) = xs) sessionStart" "keeps (\<lambda>w. firesOf i (awEffects w) = xs) contextUsage"
  unfolding sessionGet_def sessionDone_def sessionStart_def contextUsage_def by (rule quiet_actions)+

lemma quiet_start [keeps_rules]: "arId a \<noteq> i \<Longrightarrow> keeps (\<lambda>w. firesOf i (awEffects w) = xs) (startCommand a)"
  by (simp add: keeps_def startCommand_def firesOf_def)

lemma quiet_target [keeps_rules]: "keeps (\<lambda>w. firesOf i (awEffects w) = xs) (targetOf a now)"
  unfolding targetOf_def sessionOrNone_def by (intro keeps_rules)

lemma quiet_previous [keeps_rules]: "keeps (\<lambda>w. firesOf i (awEffects w) = xs) (previousEnded a now rs)"
  by (induction rs) (auto simp: sessionOrNone_def intro!: keeps_rules)

lemma quiet_deliver [keeps_rules]: "arId a \<noteq> i \<Longrightarrow> keeps (\<lambda>w. firesOf i (awEffects w) = xs) (deliver env a session check)"
  unfolding deliver_def deliverBody_def deliverFailed_def sendTo_def startOwnSession_def
  by (intro keeps_rules keeps_eachOf) simp_all

lemma quiet_check: "arId a \<noteq> i \<Longrightarrow> keeps (\<lambda>w. firesOf i (awEffects w) = xs) (checkAutomation env a)"
  unfolding checkAutomation_def movesOn_def fireSchedule_def compactIfPending_def
  by (intro keeps_rules) simp_all

lemma getAutomation_id: "getAutomation i db = Some a \<Longrightarrow> arId a = i"
  unfolding getAutomation_def by (rule find_SomeD(2))

text \<open>What depends on a row of the tables is quiet for what it is not about.\<close>

lemma quiet_row:
  assumes "\<And>a. arId a = j \<Longrightarrow> keeps P (f (Some a))" "keeps P (f None)"
  shows "keeps P (andThen (reads (\<lambda>w. getAutomation j (awDb w))) f)"
  unfolding keeps_def
proof (intro allI impI)
  fix w assume "P w"
  then show "P (snd (andThen (reads (\<lambda>w. getAutomation j (awDb w))) f w))"
    using assms getAutomation_id [of j "awDb w"]
    by (cases "getAutomation j (awDb w)") (simp_all add: andThen_def reads_def keeps_def)
qed

lemma quiet_tick_row:
  assumes "j \<noteq> i"
  shows "keeps (\<lambda>w. firesOf i (awEffects w) = xs)
    (catching (andThen (reads (\<lambda>w. getAutomation j (awDb w))) (\<lambda>row.
       case row of Some a \<Rightarrow> if arCancelledAt a = None then checkAutomation env a else yields () | None \<Rightarrow> yields ()))
     (\<lambda>e. effect (Warned j e)))"
  by (rule keeps_catching; (rule quiet_row)?) (use assms in \<open>auto intro!: keeps_rules quiet_check\<close>)

lemma getAutomation_unique:
  assumes "rowsOrdered db" "a \<in> set (adRows db)"
  shows "getAutomation (arId a) db = Some a"
proof -
  have "distinct (map arId (adRows db))" using assms(1) unfolding rowsOrdered_def by (metis strict_sorted_iff)
  from find_unique [OF this assms(2)] show ?thesis by (simp add: getAutomation_def)
qed

lemma quiet_tick:
  assumes "isCancelled i (awDb w)" "rowsOrdered (awDb w)"
  shows "firesOf i (awEffects (snd (tick env w))) = firesOf i (awEffects w)"
proof -
  have others: "j \<noteq> i" if "j \<in> set (map arId (activeAutomations (awDb w)))" for j
    using that assms getAutomation_unique [OF assms(2)] by (fastforce simp: activeAutomations_def isCancelled_def)
  have "keeps (\<lambda>w'. firesOf i (awEffects w') = firesOf i (awEffects w))
    (eachOf (map arId (activeAutomations (awDb w))) (\<lambda>j. catching (andThen (reads (\<lambda>w. getAutomation j (awDb w))) (\<lambda>row.
       case row of Some a \<Rightarrow> if arCancelledAt a = None then checkAutomation env a else yields () | None \<Rightarrow> yields ()))
     (\<lambda>e. effect (Warned j e))))"
    by (rule keeps_eachOf) (rule quiet_tick_row, rule others)
  then show ?thesis by (simp add: tick_def andThen_def reads_def keeps_def)
qed

lemma quiet_checked:
  assumes "isCancelled i (awDb w)"
  shows "firesOf i (awEffects (snd (commandDone env j aborted result w))) = firesOf i (awEffects w)"
proof -
  let ?m = "\<lambda>t. catching (commandChecked env j t result) (\<lambda>e. effect (Warned j e))"
  have "firesOf i (awEffects (snd (?m t w))) = firesOf i (awEffects w)" for t
  proof (cases "j = i")
    case True
    with assms show ?thesis
      by (auto simp: isCancelled_def commandChecked_def catching_def andThen_def reads_def yields_def)
  next
    case False
    have "keeps (\<lambda>w'. firesOf i (awEffects w') = firesOf i (awEffects w)) (?m t)"
      unfolding commandChecked_def
      by (rule keeps_catching; (rule quiet_row)?) (use False in \<open>cases result; auto intro!: keeps_rules\<close>)+
    then show ?thesis by (simp add: keeps_def)
  qed
  then show ?thesis
    by (auto simp: commandDone_def Let_def case_prod_unfold split: option.split)
qed

lemma quiet_settled: "keeps (\<lambda>w. firesOf i (awEffects w) = xs) (settled s)"
  unfolding settled_def by (auto intro!: keeps_rules keeps_eachOf split: list.split)

lemma quiet_create: "keeps (\<lambda>w. firesOf i (awEffects w) = xs) (createAutomation env rq)"
  unfolding createAutomation_def by (cases "rqTarget rq") (auto intro!: keeps_rules)

lemma cancelled_quiet_step:
  assumes "isCancelled i (awDb w)" "rowsOrdered (awDb w)"
  shows "firesOf i (awEffects (automationStep env w opA)) = firesOf i (awEffects w)"
proof -
  obtain op1 answers now where opA: "opA = (op1, answers, now)" by (cases opA) auto
  let ?w = "w\<lparr>awAnswers := answers, awNow := now\<rparr>"
  have w: "isCancelled i (awDb ?w)" "rowsOrdered (awDb ?w)" using assms by simp_all
  have "firesOf i (awEffects (snd (automationOpOf env op1 ?w))) = firesOf i (awEffects ?w)"
  proof (cases op1)
    case (CreateOp rq)
    have "keeps (\<lambda>w'. firesOf i (awEffects w') = firesOf i (awEffects ?w)) (automationOpOf env op1)"
      unfolding automationOpOf_def CreateOp by (auto intro!: keeps_rules quiet_create)
    then show ?thesis by (simp add: keeps_def)
  qed (use quiet_tick [OF w] quiet_checked [OF w(1)] quiet_settled [of i "firesOf i (awEffects ?w)"] in
       \<open>simp_all add: automationOpOf_def keeps_def changes_def\<close>)
  then show ?thesis by (simp add: opA automationStep_def)
qed

text \<open>C19: An automation that was cancelled never fires again: whatever ticks, ends of checks and calls come once the task that
  was under way when it was cancelled is over, nothing is sent or started for it, its command is not run and it stays
  cancelled.\<close>
theorem cancelled_never_fires:
  assumes "isCancelled i (awDb (foldl (automationStep env) newAutomations ops))"
  shows "let w = foldl (automationStep env) newAutomations ops; w' = foldl (automationStep env) w later
    in firesOf i (awEffects w') = firesOf i (awEffects w) \<and> isCancelled i (awDb w')"
proof -
  let ?w = "foldl (automationStep env) newAutomations ops"
  have "automationsOk (awDb newAutomations)" by (simp add: automationsOk_defs newAutomations_def emptyAutomations_def)
  then have ok: "automationsOk (awDb ?w)" by (rule tables.run_of_steps)
  have "firesOf i (awEffects (foldl (automationStep env) w later)) = firesOf i (awEffects w) \<and>
      isCancelled i (awDb (foldl (automationStep env) w later))" if "automationsOk (awDb w)" "isCancelled i (awDb w)" for w
    using that
  proof (induction later arbitrary: w)
    case (Cons x later)
    have "firesOf i (awEffects (automationStep env w x)) = firesOf i (awEffects w)"
      by (rule cancelled_quiet_step) (use Cons.prems in \<open>simp_all add: automationsOk_def\<close>)
    with Cons.IH [OF tables.step_keeps [OF Cons.prems(1)] cancelled.step_keeps [OF Cons.prems(2)]] show ?case by simp
  qed simp
  from this [OF ok assms] show ?thesis by (simp add: Let_def)
qed

subsection \<open>Untrusted output\<close>

lemma longestTicks_replicate: "n + r \<le> longestTicks r (replicate n (CHR 96) @ s)"
proof (induction n arbitrary: r)
  case 0
  have "r \<le> longestTicks r s"
  proof (induction s arbitrary: r)
    case (Cons c s)
    from Cons [of "Suc r"] show ?case by auto
  qed simp
  then show ?case by simp
next
  case (Suc n)
  from Suc [of "Suc r"] show ?case by simp
qed

lemma longestTicks_start: "longestTicks 0 s \<le> longestTicks r s"
proof (induction s arbitrary: r)
  case (Cons c s)
  have mono: "longestTicks r s \<le> longestTicks (Suc r) s" for r s
  proof (induction s arbitrary: r)
    case (Cons d s)
    then show ?case by auto
  qed simp
  have "longestTicks 1 s \<le> longestTicks (Suc r) s"
    by (rule lift_Suc_mono_le [of "\<lambda>n. longestTicks n s"]) (simp_all add: mono)
  then show ?case by auto
qed simp

lemma longestTicks_inside: "n \<le> longestTicks r (pre @ replicate n (CHR 96) @ post)"
proof (induction pre arbitrary: r)
  case Nil
  show ?case using longestTicks_replicate [of n r post] by simp
next
  case (Cons c pre)
  then show ?case
    by (cases "c = CHR 96") (auto simp: le_max_iff_disj)
qed

text \<open>A command's output cannot leave the block it is quoted in: the text given to the model is the warning, a fence of at
  least three backticks, the output (at most 16000 characters and a note), and the fence again, and no run of
  backticks in the output is as long as the fence.\<close>
theorem untrusted_output_fenced:
  "\<exists>quoted n. untrustedOutput out = untrustedIntro @ [newlineC] @ replicate n (CHR 96) @ [newlineC] @ quoted @ [newlineC] @ replicate n (CHR 96) \<and>
     3 \<le> n \<and> \<not> (\<exists>pre post. quoted = pre @ replicate n (CHR 96) @ post) \<and>
     length quoted \<le> 16000 + length (newlineC # ''... (truncated)'') \<and> take 15999 quoted = take 15999 (withoutFinalNewline out)"
proof -
  let ?q = "withoutFinalNewline (clipped out)"
  let ?n = "max 3 (Suc (longestTicks 0 ?q))"
  have inside: "\<not> (\<exists>pre post. ?q = pre @ replicate ?n (CHR 96) @ post)"
    using longestTicks_inside [of ?n 0] by (metis Suc_n_not_le_n max.coboundedI2 order_refl order_trans)
  have short: "length ?q \<le> 16000 + length (newlineC # ''... (truncated)'')"
    by (auto simp: withoutFinalNewline_def clipped_def maxCheckOutputChars_def)
  have kept: "take 15999 ?q = take 15999 (withoutFinalNewline out)"
    by (auto simp: withoutFinalNewline_def clipped_def maxCheckOutputChars_def butlast_conv_take min_def newlineC_def)
  have shape: "untrustedOutput out = untrustedIntro @ [newlineC] @ replicate ?n (CHR 96) @ [newlineC] @ ?q @ [newlineC] @ replicate ?n (CHR 96)"
    by (simp only: untrustedOutput_def outputFence_def Let_def)
  show ?thesis
    by (rule exI [of _ ?q], rule exI [of _ ?n], intro conjI) (rule shape, rule max.cobounded1, rule inside, rule short, rule kept)
qed

subsection \<open>When it is next due\<close>

text \<open>An interval is counted from the tick that finds the automation due, not from when it was due: it is next due at
  least a minute after the tick, unless that date does not exist; then the tick fails before anything is sent and
  leaves the automation due as it was, at every tick.\<close>
theorem interval_counts_from_tick:
  assumes "aeTimezoneOk env (naTimezone a)" "intervalMs (trimStr (naSchedule a)) = Some ms" "minIntervalMs \<le> ms"
  shows "movesOn env a now w =
     (if validDate (now + int ms)
      then (Yielded (), w\<lparr>awDb := updateAutomation (arId a) (\<lambda>r. r\<lparr>naNextRunAt := now + int ms\<rparr>) (awDb w)\<rparr>)
      else (Thrown InvalidDateFault, w)) \<and> now + 60000 \<le> now + int ms"
  using assms by (simp add: movesOn_def parseSchedule_def Let_def setsNextRun_def setNextRun_def minIntervalMs_def not_less)

subsection \<open>Deliveries\<close>

lemmas action_defs = andThen_def reads_def yields_def throws_def catching_def changes_def effect_def addsRun_def awaits_def sessionGet_def sessionDone_def

text \<open>A cancellation misses the delivery under way: cancelled while the tick waits for the session of an automation that is
  due, its message is sent all the same, after the cancellation is in the table.\<close>
theorem cancel_misses_delivery_under_way:
  assumes "getAutomation (arId a) (awDb w) = Some a" "arCancelledAt a = None" "naTarget a = TargetSession" "naTrigger a = TriggerSchedule"
    "naSessionId a = Some sid" "aeTimezoneOk env (naTimezone a)" "intervalMs (trimStr (naSchedule a)) = Some ms" "minIntervalMs \<le> ms"
    "validDate (awNow w + int ms)" "naNextRunAt a \<le> awNow w" "tgId s = sid" "\<not> tgArchived s" "tgRunning s" "\<not> previousRunGoesOn a s"
    "awAnswers w = \<lparr>aaAnswer = SessionIs s, aaCalls = [CancelCall (arId a) reason t], aaNow = awNow w\<rparr> # rest"
  shows "let w' = snd (checkAutomation env a w)
    in (\<exists>m d es. awEffects w' = awEffects w @ Sending (arId a) sid m d # es) \<and> isCancelled (arId a) (awDb w')"
proof -
  let ?db = "updateAutomation (arId a) (\<lambda>r. r\<lparr>naNextRunAt := awNow w + int ms\<rparr>) (cancelAutomation (arId a) reason t (awDb w))"
  let ?w = "w\<lparr>awAnswers := rest, awDb := ?db, awNow := awNow w\<rparr>"
  have target: "targetOf a (awNow w) w = (Yielded (Some (Some s)), w\<lparr>awAnswers := rest, awDb := cancelAutomation (arId a) reason t (awDb w), awNow := awNow w\<rparr>)"
    using assms(5,12,15) by (simp add: targetOf_def sessionOrNone_def action_defs applyCall_def)
  note moves = interval_counts_from_tick [OF assms(6,7,8), of "awNow w"]
  have "checkAutomation env a w = deliver env a (Some s) None ?w"
    using assms(4,9,10,13,14) moves [of "w\<lparr>awAnswers := rest, awDb := cancelAutomation (arId a) reason t (awDb w), awNow := awNow w\<rparr>"]
    by (simp add: checkAutomation_def andThen_def [of "reads awNow"] reads_def andThen_def [of "targetOf a (awNow w)"] target
        andThen_def [of "yields ()"] andThen_def [of "movesOn env a (awNow w)"] yields_def fireSchedule_def assms(3))
  moreover have "\<exists>m d es. awEffects (snd (deliver env a (Some s) None ?w)) = awEffects ?w @ Sending (arId a) sid m d # es"
    using assms(3,11) by (cases rest; cases "aaAnswer (hd rest)")
      (auto simp: deliver_def deliverBody_def deliverFailed_def sendTo_def action_defs Let_def addRun_def split: list.split automationAnswer.split outcome.split)
  moreover have "isCancelled (arId a) (awDb (snd (deliver env a (Some s) None ?w)))"
  proof (rule keepsD [of "\<lambda>w. isCancelled (arId a) (awDb w)", OF cancelled.deliver_keep])
    have "isCancelled (arId a) (cancelAutomation (arId a) reason t (awDb w))"
      using assms(1,2) by (simp add: isCancelled_def cancelAutomation_def getAutomation_update)
    then show "isCancelled (arId a) (awDb ?w)" by (simp add: cancelled_update)
  qed
  ultimately show ?thesis by (simp add: Let_def)
qed

text \<open>An automation that fires once can fire again: where its message is delivered and looking up the session afterwards
  fails, the delivery is recorded both as sent and as failed and the automation is left active.\<close>
theorem once_left_active:
  assumes "naTarget a = TargetSession" "naOnce a"
    "awAnswers w = \<lparr>aaAnswer = SessionDone, aaCalls = [], aaNow = n1\<rparr> # \<lparr>aaAnswer = Failed m, aaCalls = [], aaNow = n2\<rparr> # rest"
  shows "let w' = snd (deliver env a (Some s) check w);
      sent = snd (addRun (arId a) (Some (tgId s)) RoSent (awNow w) True None check (awDb w))
    in Delivered (arId a) (tgId s) \<in> set (awEffects w') \<and>
       awDb w' = snd (addRun (arId a) (Some (tgId s)) RoFailed (awNow w) True (Some m) check sent) \<and> adRows (awDb w') = adRows (awDb w)"
  using assms
  by (simp add: deliver_def deliverBody_def deliverFailed_def sendTo_def action_defs Let_def addRun_def automationErrorText_def)

subsection \<open>Settlements\<close>

lemma eachOf_changes:
  "eachOf rs (\<lambda>r. andThen (reads awNow) (\<lambda>now. changes (g r now))) w = (Yielded (), w\<lparr>awDb := foldl (\<lambda>db r. g r (awNow w) db) (awDb w) rs\<rparr>)"
  by (induction rs arbitrary: w) (simp_all add: eachOf_def action_defs)

lemma foldl_ended:
  "foldl (\<lambda>db r. endAutomationRun (auId r) oc n out err db) db rs =
   db\<lparr>adRuns := map (\<lambda>u. if auId u \<in> auId ` set rs then u\<lparr>auOutcome := oc, auEndedAt := Some n, auOutput := out, auError := err\<rparr> else u) (adRuns db)\<rparr>"
proof (induction rs arbitrary: db)
  case (Cons r rs)
  show ?case
    unfolding foldl_Cons Cons.IH by (auto simp: endAutomationRun_def updateRun_def)
qed simp

lemma calls_runs: "adRuns (foldl applyCall db cs) = adRuns db"
proof (induction cs arbitrary: db)
  case (Cons c cs)
  have "adRuns (applyCall db c) = adRuns db"
    by (cases c) (auto simp: applyCall_def insertAutomation_def cancelAutomation_def setAutomationSession_def updateAutomation_def Let_def
        split: option.split)
  with Cons show ?case by simp
qed simp

definition withoutCompaction :: "automationRun \<Rightarrow> automationRun" where
  "withoutCompaction u = u\<lparr>auCompaction := None, auCompactionError := None\<rparr>"

lemma compaction_runs: "map withoutCompaction (adRuns (setCompaction r c e db)) = map withoutCompaction (adRuns db)"
  by (simp add: setCompaction_def updateRun_def withoutCompaction_def)

text \<open>A settlement ends exactly the runs in progress on its session, with its outcome, reply and error, and no other run
  changes but for its compaction, whatever is asked meanwhile.\<close>
theorem settlement_ends_runs:
  assumes "runsOrdered (awDb w)"
  shows "map withoutCompaction (adRuns (awDb (snd (settled s w)))) =
     map (\<lambda>u. withoutCompaction (if auSession u = Some (stSession s) \<and> auOutcome u = RoRunning
        then u\<lparr>auOutcome := settledOutcome (stStatus s), auEndedAt := Some (awNow w), auOutput := stResult s, auError := stError s\<rparr> else u))
       (adRuns (awDb w))"
proof -
  let ?rs = "runningOn (stSession s) (awDb w)"
  let ?ended = "\<lambda>u. u\<lparr>auOutcome := settledOutcome (stStatus s), auEndedAt := Some (awNow w), auOutput := stResult s, auError := stError s\<rparr>"
  have distinct: "distinct (map auId (adRuns (awDb w)))" using assms unfolding runsOrdered_def by (metis strict_sorted_iff)
  have mine: "auId u \<in> auId ` set ?rs \<longleftrightarrow> auSession u = Some (stSession s) \<and> auOutcome u = RoRunning" if "u \<in> set (adRuns (awDb w))" for u
    using distinct that by (auto simp: runningOn_def distinct_map inj_on_def)
  let ?w1 = "w\<lparr>awDb := foldl (\<lambda>db r. endAutomationRun (auId r) (settledOutcome (stStatus s)) (awNow w) (stResult s) (stError s) db) (awDb w) ?rs\<rparr>"
  have ended: "adRuns (awDb ?w1) = map (\<lambda>u. if auSession u = Some (stSession s) \<and> auOutcome u = RoRunning then ?ended u else u) (adRuns (awDb w))"
    using mine by (simp add: foldl_ended)
  have rest: "map withoutCompaction (adRuns (awDb (snd (settled s w)))) = map withoutCompaction (adRuns (awDb ?w1))"
  proof (cases ?rs)
    case Nil
    then show ?thesis by (simp add: settled_def action_defs)
  next
    case (Cons latest others)
    have "settled s w = andThen (reads (\<lambda>w. Option.bind (getAutomation (auAutomation latest) (awDb w)) naCompactAbove)) (\<lambda>threshold.
        case threshold of None \<Rightarrow> yields ()
        | Some t \<Rightarrow> if stStatus s \<noteq> SettledCompleted then yields ()
            else andThen contextUsage (\<lambda>usage. case usage of None \<Rightarrow> yields ()
              | Some used \<Rightarrow> if t < used then changes (setCompaction (auId latest) CompactPending None) else yields ())) ?w1"
      using Cons by (simp add: settled_def andThen_def [of "reads (\<lambda>w. runningOn (stSession s) (awDb w))"] reads_def
          andThen_def [of "eachOf rs f" for rs f] eachOf_changes)
    moreover have "map withoutCompaction (adRuns (awDb (snd (andThen contextUsage (\<lambda>usage. case usage of None \<Rightarrow> yields ()
        | Some used \<Rightarrow> if t < used then changes (setCompaction (auId latest) CompactPending None) else yields ()) w')))) =
        map withoutCompaction (adRuns (awDb w'))" for t w'
      by (auto simp: contextUsage_def action_defs calls_runs compaction_runs split: list.split automationAnswer.split option.split)
    ultimately show ?thesis by (auto simp: action_defs split: option.split)
  qed
  show ?thesis unfolding rest ended by simp
qed


subsection \<open>Examples\<close>

definition demoEnv :: automationEnv where
  "demoEnv = \<lparr>aeTimezoneOk = (\<lambda>t. True), aeServerTimezone = ''UTC'', aeCron = (\<lambda>p tz. None), aeWhen = (\<lambda>n. [])\<rparr>"

definition demoNew :: newAutomation where
  "demoNew = \<lparr>naName = None, naMessage = Some ''hi'', naTarget = TargetSession, naSessionId = Some ''s'', naCreatedBy = None,
     naTrigger = TriggerSchedule, naSchedule = ''5m'', naTimezone = ''UTC'', naCommand = None, naNode = None, naCwd = None, naTimeoutMs = None,
     naOnce = True, naSource = None, naProjectId = None, naModel = None, naCompactAbove = None, naBackground = True,
     naNextRunAt = 0, naCreatedAt = 0\<rparr>"

definition demoRow :: automationRow where "demoRow = rowOf 1 demoNew"

definition demoDb :: automationDb where "demoDb = emptyAutomations\<lparr>adRows := [demoRow], adNextRow := 2\<rparr>"

definition demoTarget :: targetInfo where "demoTarget = \<lparr>tgId = ''s'', tgArchived = False, tgRunning = True, tgLastRun = None\<rparr>"

lemma demo_row: "arId demoRow = 1" "naTarget demoRow = TargetSession" "naOnce demoRow" "naTrigger demoRow = TriggerSchedule"
  "naSessionId demoRow = Some ''s''" "naSchedule demoRow = ''5m''" "naNextRunAt demoRow = 0" "arCancelledAt demoRow = None" "arLastSendAt demoRow = None"
  by (simp_all add: demoRow_def rowOf_def demoNew_def newAutomation.defs)

lemma demo_interval: "intervalMs (trimStr (naSchedule demoRow)) = Some 300000"
proof -
  have "isDigitC (CHR ''5'')" "\<not> isDigitC (CHR ''m'')" "\<not> isSpace (CHR ''5'')" "\<not> isSpace (CHR ''m'')"
    by (simp_all add: isDigitC_def isSpace_def)
  then show ?thesis
    by (simp add: demo_row intervalMs_def afterKeyword_def trimStr_def trimStart_def trimEnd_def intervalSum.simps [of "''5m''"]
        unitMs_def lowerC_def digitsToNat_def Let_def)
qed

theorem interval_counts_from_tick_witness:
  "movesOn demoEnv demoRow 7 newAutomations =
     (Yielded (), newAutomations\<lparr>awDb := updateAutomation 1 (\<lambda>r. r\<lparr>naNextRunAt := 300007\<rparr>) (awDb newAutomations)\<rparr>)"
  using interval_counts_from_tick [of demoEnv demoRow 300000 7 newAutomations, OF _ demo_interval]
  by (simp add: demoEnv_def minIntervalMs_def validDate_def maxDateMs_def demo_row)

definition cancelledWorld :: "(automationOp \<times> automationAwait list \<times> int) list" where
  "cancelledWorld = [(CallOp (InsertCall demoNew), [], 0), (CallOp (CancelCall 1 ''r'' 0), [], 0)]"

theorem cancelled_never_fires_witness:
  "firesOf 1 (awEffects (foldl (automationStep demoEnv) (foldl (automationStep demoEnv) newAutomations cancelledWorld) [(TickOp, [], 9)])) =
   firesOf 1 (awEffects (foldl (automationStep demoEnv) newAutomations cancelledWorld))"
proof -
  have "isCancelled 1 (awDb (foldl (automationStep demoEnv) newAutomations cancelledWorld))"
    by (simp add: cancelledWorld_def automationStep_def automationOpOf_def changes_def applyCall_def insertAutomation_def validDate_def
        maxDateMs_def demoNew_def Let_def newAutomations_def emptyAutomations_def cancelAutomation_def updateAutomation_def isCancelled_def
        getAutomation_def rowOf_def newAutomation.defs)
  from cancelled_never_fires [OF this, of "[(TickOp, [], 9)]"] show ?thesis unfolding Let_def by blast
qed

definition cancelWorld :: automationWorld where
  "cancelWorld = \<lparr>awDb = demoDb, awNow = 5, awAnswers = [\<lparr>aaAnswer = SessionIs demoTarget, aaCalls = [CancelCall 1 ''r'' 5], aaNow = 5\<rparr>],
     awEffects = [], awChecking = []\<rparr>"

theorem cancel_misses_delivery_under_way_witness:
  "isCancelled 1 (awDb (snd (checkAutomation demoEnv demoRow cancelWorld))) \<and>
   (\<exists>m d es. awEffects (snd (checkAutomation demoEnv demoRow cancelWorld)) = Sending 1 ''s'' m d # es)"
proof -
  have g: "getAutomation (arId demoRow) (awDb cancelWorld) = Some demoRow" by (simp add: cancelWorld_def demoDb_def getAutomation_def)
  have e: "aeTimezoneOk demoEnv (naTimezone demoRow)" by (simp add: demoEnv_def)
  have n: "minIntervalMs \<le> 300000" "validDate (awNow cancelWorld + int 300000)" "naNextRunAt demoRow \<le> awNow cancelWorld"
    by (simp_all add: minIntervalMs_def validDate_def maxDateMs_def cancelWorld_def demo_row)
  have t: "tgId demoTarget = ''s''" "\<not> tgArchived demoTarget" "tgRunning demoTarget" "\<not> previousRunGoesOn demoRow demoTarget"
    by (simp_all add: demoTarget_def previousRunGoesOn_def demo_row)
  have a: "awAnswers cancelWorld = \<lparr>aaAnswer = SessionIs demoTarget, aaCalls = [CancelCall (arId demoRow) ''r'' 5], aaNow = awNow cancelWorld\<rparr> # []"
    by (simp add: cancelWorld_def demo_row)
  from cancel_misses_delivery_under_way [OF g demo_row(8,2,4,5) e demo_interval n t a] show ?thesis
    by (auto simp: Let_def demo_row cancelWorld_def)
qed

definition onceWorld :: automationWorld where
  "onceWorld = \<lparr>awDb = demoDb, awNow = 5, awAnswers = [\<lparr>aaAnswer = SessionDone, aaCalls = [], aaNow = 6\<rparr>,
     \<lparr>aaAnswer = Failed ''gone'', aaCalls = [], aaNow = 7\<rparr>], awEffects = [], awChecking = []\<rparr>"

theorem once_left_active_witness:
  "adRows (awDb (snd (deliver demoEnv demoRow (Some demoTarget) None onceWorld))) = [demoRow]"
proof -
  have "awAnswers onceWorld = \<lparr>aaAnswer = SessionDone, aaCalls = [], aaNow = 6\<rparr> # \<lparr>aaAnswer = Failed ''gone'', aaCalls = [], aaNow = 7\<rparr> # []"
    by (simp add: onceWorld_def)
  from conjunct2 [OF conjunct2 [OF once_left_active [OF demo_row(2,3) this, of demoEnv demoTarget None, unfolded Let_def]]] show ?thesis
    by (simp add: onceWorld_def demoDb_def)
qed

theorem settlement_ends_runs_witness:
  "map withoutCompaction (adRuns (awDb (snd (settled \<lparr>stSession = ''s'', stStatus = SettledFailed, stResult = None, stError = Some ''e''\<rparr>
     (newAutomations\<lparr>awDb := snd (addRun 1 (Some ''s'') RoRunning 3 False None None emptyAutomations)\<rparr>))))) \<noteq>
   adRuns (snd (addRun 1 (Some ''s'') RoRunning 3 False None None emptyAutomations))"
proof -
  let ?w = "newAutomations\<lparr>awDb := snd (addRun 1 (Some ''s'') RoRunning 3 False None None emptyAutomations)\<rparr>"
  have "runsOrdered (awDb ?w)"
    by (simp add: runsOrdered_def addRun_def pruneRuns_def emptyAutomations_def Let_def keptRuns_def)
  from settlement_ends_runs [OF this, of "\<lparr>stSession = ''s'', stStatus = SettledFailed, stResult = None, stError = Some ''e''\<rparr>"] show ?thesis
    by (simp add: addRun_def pruneRuns_def emptyAutomations_def Let_def keptRuns_def withoutCompaction_def settledOutcome_def)
qed

end
