(* ===== verification/Process_Supervisor.thy ===== *)
theory Process_Supervisor
  imports Reins_Prelude
begin

text \<open>
  The process supervisor, \<^verbatim>\<open>packages/backend/src/supervisor.ts\<close>: which services there are and how \<open>runSupervisor\<close> starts,
  restarts and stops them. Spawning answers at once; an exit, a restart timer, a signal and the two ends of a
  shutdown are operations of their own. What is logged and sent to children are events, kept in order.
\<close>

subsection \<open>Services\<close>

record restartBackoff =
  rbInitialMs :: nat
  rbMaxMs :: nat
  rbResetAfterMs :: int

definition watcherRestart :: restartBackoff where
  "watcherRestart = \<lparr>rbInitialMs = 1000, rbMaxMs = 1000, rbResetAfterMs = 0\<rparr>"

definition nodeRestart :: restartBackoff where
  "nodeRestart = \<lparr>rbInitialMs = 1000, rbMaxMs = 30000, rbResetAfterMs = 30000\<rparr>"

definition serverRestartExitCode :: int where "serverRestartExitCode = 75"
definition nodeReloadExitCode :: int where "nodeReloadExitCode = 75"
definition nodeRefusedExitCode :: int where "nodeRefusedExitCode = 77"

datatype serviceExit = StopAll | RestartAfter restartBackoff "(int \<times> string) option"

record service =
  svName :: string
  svCommand :: "string list"
  svCwd :: string
  svEnv :: "(string \<times> string) list"
  svAtOnceOn :: "(int \<times> string) option"
  svOnExit :: serviceExit

text \<open>\<open>join\<close> joins paths.\<close>

definition coreServices :: "bool \<Rightarrow> string \<Rightarrow> string \<Rightarrow> service list" where
  "coreServices dev bun repoRoot =
     [\<lparr>svName = ''server'', svCommand = [bun, if dev then ''packages/backend/dev.ts'' else ''packages/backend/src/index.ts''],
        svCwd = repoRoot, svEnv = [(''REINS_SERVER_RESTART_EXIT_CODE'', showInt serverRestartExitCode)],
        svAtOnceOn = Some (serverRestartExitCode, ''restarting''), svOnExit = StopAll\<rparr>,
      \<lparr>svName = ''node'', svCommand = [bun, ''packages/node/src/main.ts''], svCwd = repoRoot,
        svEnv = [(''REINS_NODE_RELOAD_EXIT_CODE'', showInt nodeReloadExitCode), (''REINS_NODE_REFUSED_EXIT_CODE'', showInt nodeRefusedExitCode)],
        svAtOnceOn = Some (nodeReloadExitCode, ''reloading''),
        svOnExit = RestartAfter nodeRestart (Some (nodeRefusedExitCode, ''refused by the server''))\<rparr>]"

definition createServices :: "(string \<Rightarrow> string \<Rightarrow> string) \<Rightarrow> bool \<Rightarrow> string \<Rightarrow> string \<Rightarrow> service list" where
  "createServices join dev bun repoRoot =
     (let frontendRoot = join repoRoot ''packages/frontend''
      in (if dev then
            [\<lparr>svName = ''frontend:bundle'',
               svCommand = [bun, ''build'', ''src/index.ts'', ''src/models/changes/highlight-worker.ts'', ''--outdir'', ''dist'', ''--splitting'',
                 ''--define'', ''REINS_DEV=true'', ''--watch''],
               svCwd = frontendRoot, svEnv = [(''REINS_DEV'', ''1'')], svAtOnceOn = None, svOnExit = RestartAfter watcherRestart None\<rparr>,
             \<lparr>svName = ''frontend:css'',
               svCommand = [bun, ''node_modules/.bin/tailwindcss'', ''-i'', ''src/components/app.css'', ''-o'', ''dist/app.css'', ''--watch=always''],
               svCwd = frontendRoot, svEnv = [], svAtOnceOn = None, svOnExit = RestartAfter watcherRestart None\<rparr>]
          else []) @ coreServices dev bun repoRoot)"

subsection \<open>The state\<close>

datatype superEvent =
    SpStarted string nat
  | SpFailedToStart string
  | SpExited string int
  | SpAtOnce string string
  | SpNotRestarting string string
  | SpRestartsIn string nat
  | SpStoppingAll
  | SpReceived string
  | SpTerm nat
  | SpKill nat

text \<open>
  \<open>spAlive\<close> are the processes that have not exited, each with what its exit handler closes over: its service and when it
  started. \<open>spStopping\<close> is set by \<open>shutdown\<close>; \<open>spWaiting\<close> are the children told to stop and the code to finish with.
\<close>

record supervisor =
  spRunning :: "(string, nat) jsmap"
  spTimers :: "(string, service \<times> nat) jsmap"
  spFailures :: "(string, nat) jsmap"
  spStopping :: bool
  spWaiting :: "(nat list \<times> int) option"
  spFinished :: "int option"
  spAlive :: "(nat, service \<times> int) jsmap"
  spNextChild :: nat
  spEvents :: "superEvent list"

definition newSupervisor :: supervisor where
  "newSupervisor = \<lparr>spRunning = [], spTimers = [], spFailures = [], spStopping = False, spWaiting = None, spFinished = None,
     spAlive = [], spNextChild = 0, spEvents = []\<rparr>"

definition superLog :: "superEvent list \<Rightarrow> supervisor \<Rightarrow> supervisor" where
  "superLog es sp = sp\<lparr>spEvents := spEvents sp @ es\<rparr>"

subsection \<open>Stopping and restarting\<close>

definition stopChildren :: "int \<Rightarrow> supervisor \<Rightarrow> supervisor" where
  "stopChildren code sp =
     (let children = map snd (spRunning sp)
      in superLog (map SpTerm children) (sp\<lparr>spRunning := [], spWaiting := Some (children, code)\<rparr>))"

definition shutdownSupervisor :: "int \<Rightarrow> supervisor \<Rightarrow> supervisor" where
  "shutdownSupervisor code sp =
     (if spStopping sp then sp else stopChildren code (sp\<lparr>spStopping := True, spTimers := []\<rparr>))"

definition restartDelay :: "restartBackoff \<Rightarrow> nat \<Rightarrow> nat" where
  "restartDelay b previous = min (rbMaxMs b) (rbInitialMs b * 2 ^ previous)"

definition previousFailures :: "service \<Rightarrow> restartBackoff \<Rightarrow> int \<Rightarrow> supervisor \<Rightarrow> nat" where
  "previousFailures s b uptime sp = (if rbResetAfterMs b \<le> uptime then 0 else orElse (jmGet (spFailures sp) (svName s)) 0)"

definition scheduleRestart :: "service \<Rightarrow> restartBackoff \<Rightarrow> int \<Rightarrow> supervisor \<Rightarrow> supervisor" where
  "scheduleRestart s b uptime sp =
     (let previous = previousFailures s b uptime sp; delay = restartDelay b previous
      in superLog [SpRestartsIn (svName s) delay]
           (sp\<lparr>spFailures := jmSet (svName s) (Suc previous) (spFailures sp),
               spTimers := jmSet (svName s) (s, delay) (spTimers sp)\<rparr>))"

text \<open>\<open>ok\<close> is whether spawning succeeds, \<open>now\<close> the time.\<close>

definition startService :: "service \<Rightarrow> bool \<Rightarrow> int \<Rightarrow> supervisor \<Rightarrow> supervisor" where
  "startService s ok now sp =
     (if \<not> ok then
        (let failed = superLog [SpFailedToStart (svName s)] sp
         in case svOnExit s of StopAll \<Rightarrow> shutdownSupervisor 1 failed | RestartAfter b never \<Rightarrow> scheduleRestart s b 0 failed)
      else
        superLog [SpStarted (svName s) (spNextChild sp)]
          (sp\<lparr>spRunning := jmSet (svName s) (spNextChild sp) (spRunning sp),
              spAlive := jmSet (spNextChild sp) (s, now) (spAlive sp), spNextChild := Suc (spNextChild sp)\<rparr>))"

definition serviceExited :: "service \<Rightarrow> int \<Rightarrow> int \<Rightarrow> bool \<Rightarrow> int \<Rightarrow> supervisor \<Rightarrow> supervisor" where
  "serviceExited s startedAt code ok now sp =
     (let logged = superLog [SpExited (svName s) code] sp
      in if Some code = map_option fst (svAtOnceOn s)
         then startService s ok now
           (superLog [SpAtOnce (svName s) (snd (the (svAtOnceOn s)))] (logged\<lparr>spFailures := jmDelete (svName s) (spFailures logged)\<rparr>))
         else (case svOnExit s of
                 StopAll \<Rightarrow> shutdownSupervisor (if code = 0 then 1 else code) (superLog [SpStoppingAll] logged)
               | RestartAfter b never \<Rightarrow>
                   if Some code = map_option fst never then superLog [SpNotRestarting (svName s) (snd (the never))] logged
                   else scheduleRestart s b (now - startedAt) logged))"

definition childExited :: "nat \<Rightarrow> int \<Rightarrow> bool \<Rightarrow> int \<Rightarrow> supervisor \<Rightarrow> supervisor" where
  "childExited c code ok now sp =
     (case jmGet (spAlive sp) c of
        None \<Rightarrow> sp
      | Some (s, startedAt) \<Rightarrow>
          (let gone = sp\<lparr>spAlive := jmDelete c (spAlive sp)\<rparr>
           in if jmGet (spRunning gone) (svName s) \<noteq> Some c then gone
              else (let left = gone\<lparr>spRunning := jmDelete (svName s) (spRunning gone)\<rparr>
                    in if spStopping left then left else serviceExited s startedAt code ok now left)))"

definition restartDue :: "string \<Rightarrow> bool \<Rightarrow> int \<Rightarrow> supervisor \<Rightarrow> supervisor" where
  "restartDue n ok now sp =
     (case jmGet (spTimers sp) n of
        None \<Rightarrow> sp
      | Some (s, delay) \<Rightarrow>
          (let sp' = sp\<lparr>spTimers := jmDelete n (spTimers sp)\<rparr>
           in if spStopping sp' then sp' else startService s ok now sp'))"

definition onSignal :: "string \<Rightarrow> supervisor \<Rightarrow> supervisor" where
  "onSignal sig sp = (if spStopping sp then sp else shutdownSupervisor 0 (superLog [SpReceived sig] sp))"

text \<open>A shutdown ends with the exit of every child it waits for, or its timeout, which kills them.\<close>

definition allExited :: "supervisor \<Rightarrow> supervisor" where
  "allExited sp =
     (case spWaiting sp of
        None \<Rightarrow> sp
      | Some (children, code) \<Rightarrow>
          if \<exists>c\<in>set children. jmHas (spAlive sp) c then sp else sp\<lparr>spWaiting := None, spFinished := Some code\<rparr>)"

definition stopTimesOut :: "supervisor \<Rightarrow> supervisor" where
  "stopTimesOut sp =
     (case spWaiting sp of
        None \<Rightarrow> sp
      | Some (children, code) \<Rightarrow> superLog (map SpKill children) (sp\<lparr>spWaiting := None, spFinished := Some code\<rparr>))"

fun bootServices :: "(service \<times> bool \<times> int) list \<Rightarrow> supervisor \<Rightarrow> supervisor" where
  "bootServices [] sp = sp"
| "bootServices ((s, ok, now) # rest) sp = (if spStopping sp then sp else bootServices rest (startService s ok now sp))"

datatype superOp =
    ChildExits nat int bool int
  | RestartFires string bool int
  | SignalArrives string
  | ChildrenGone
  | StopTimeout

definition superStep :: "supervisor \<Rightarrow> superOp \<Rightarrow> supervisor" where
  "superStep sp op1 =
     (case op1 of
        ChildExits c code ok now \<Rightarrow> childExited c code ok now sp
      | RestartFires n ok now \<Rightarrow> restartDue n ok now sp
      | SignalArrives sig \<Rightarrow> onSignal sig sp
      | ChildrenGone \<Rightarrow> allExited sp
      | StopTimeout \<Rightarrow> stopTimesOut sp)"

definition runSupervisor :: "(service \<times> bool \<times> int) list \<Rightarrow> superOp list \<Rightarrow> supervisor" where
  "runSupervisor boot ops = foldl superStep (bootServices boot newSupervisor) ops"

end
