(* ===== verification/Supervisor_Laws.thy ===== *)
theory Supervisor_Laws
  imports Process_Supervisor
begin

text \<open>
  Laws of the supervisor: a service has one process, none is forgotten, restarts back off, and a shutdown is final.
\<close>

subsection \<open>The invariant\<close>

definition superWf :: "supervisor \<Rightarrow> bool" where
  "superWf sp \<longleftrightarrow> jmWf (spRunning sp) \<and> jmWf (spTimers sp) \<and> jmWf (spAlive sp) \<and> (\<forall>c. jmHas (spAlive sp) c \<longrightarrow> c < spNextChild sp)"

definition runningKnown :: "service list \<Rightarrow> supervisor \<Rightarrow> bool" where
  "runningKnown svcs sp \<longleftrightarrow> (\<forall>n c. jmGet (spRunning sp) n = Some c \<longrightarrow>
     (\<exists>s t. jmGet (spAlive sp) c = Some (s, t) \<and> svName s = n) \<and> jmGet (spTimers sp) n = None)"

definition aliveKnown :: "service list \<Rightarrow> supervisor \<Rightarrow> bool" where
  "aliveKnown svcs sp \<longleftrightarrow> (\<forall>c s t. jmGet (spAlive sp) c = Some (s, t) \<longrightarrow>
     s \<in> set svcs \<and> (jmGet (spRunning sp) (svName s) = Some c \<or> SpTerm c \<in> set (spEvents sp)))"

definition timersKnown :: "service list \<Rightarrow> supervisor \<Rightarrow> bool" where
  "timersKnown svcs sp \<longleftrightarrow> (\<forall>n s d. jmGet (spTimers sp) n = Some (s, d) \<longrightarrow> s \<in> set svcs \<and> svName s = n)"

definition stoppedQuiet :: "supervisor \<Rightarrow> bool" where
  "stoppedQuiet sp \<longleftrightarrow> (spStopping sp \<longrightarrow> spRunning sp = [] \<and> spTimers sp = [])"

definition superInv :: "service list \<Rightarrow> supervisor \<Rightarrow> bool" where
  "superInv svcs sp \<longleftrightarrow> superWf sp \<and> runningKnown svcs sp \<and> aliveKnown svcs sp \<and> timersKnown svcs sp \<and> stoppedQuiet sp"

lemmas superInv_defs = superInv_def superWf_def runningKnown_def aliveKnown_def timersKnown_def stoppedQuiet_def

lemma superInv_new: "superInv svcs newSupervisor"
  by (simp add: superInv_defs newSupervisor_def)

lemma superLog_fields [simp]:
  "spRunning (superLog es sp) = spRunning sp" "spTimers (superLog es sp) = spTimers sp" "spFailures (superLog es sp) = spFailures sp"
  "spStopping (superLog es sp) = spStopping sp" "spWaiting (superLog es sp) = spWaiting sp" "spFinished (superLog es sp) = spFinished sp"
  "spAlive (superLog es sp) = spAlive sp" "spNextChild (superLog es sp) = spNextChild sp" "spEvents (superLog es sp) = spEvents sp @ es"
  by (simp_all add: superLog_def)

lemma aliveKnown_mono:
  assumes "aliveKnown svcs sp"
    and "\<And>c s t. jmGet (spAlive sp') c = Some (s, t) \<Longrightarrow> jmGet (spAlive sp) c = Some (s, t)"
    and "\<And>c s t. jmGet (spAlive sp') c = Some (s, t) \<Longrightarrow> jmGet (spRunning sp) (svName s) = Some c \<Longrightarrow>
      jmGet (spRunning sp') (svName s) = Some c \<or> SpTerm c \<in> set (spEvents sp')"
    and "set (spEvents sp) \<subseteq> set (spEvents sp')"
  shows "aliveKnown svcs sp'"
  using assms unfolding aliveKnown_def by blast

lemma superInv_log [simp]: "superInv svcs sp \<Longrightarrow> superInv svcs (superLog es sp)"
proof -
  assume inv: "superInv svcs sp"
  have "aliveKnown svcs (superLog es sp)"
    by (rule aliveKnown_mono [of svcs sp]) (use inv in \<open>simp_all add: superInv_def\<close>)
  with inv show ?thesis
    by (simp add: superInv_def superWf_def runningKnown_def timersKnown_def stoppedQuiet_def del: map_of_eq_Some_iff)
qed

lemma runningKnownD:
  "superInv svcs sp \<Longrightarrow> jmGet (spRunning sp) n = Some c \<Longrightarrow> \<exists>s t. jmGet (spAlive sp) c = Some (s, t) \<and> svName s = n"
  "superInv svcs sp \<Longrightarrow> jmGet (spRunning sp) n = Some c \<Longrightarrow> jmGet (spTimers sp) n = None"
  unfolding superInv_def runningKnown_def by blast+

lemma aliveKnownD:
  "superInv svcs sp \<Longrightarrow> jmGet (spAlive sp) c = Some (s, t) \<Longrightarrow> s \<in> set svcs"
  "superInv svcs sp \<Longrightarrow> jmGet (spAlive sp) c = Some (s, t) \<Longrightarrow> jmGet (spRunning sp) (svName s) = Some c \<or> SpTerm c \<in> set (spEvents sp)"
  unfolding superInv_def aliveKnown_def by blast+

lemma timersKnownD:
  "superInv svcs sp \<Longrightarrow> jmGet (spTimers sp) n = Some (s, d) \<Longrightarrow> s \<in> set svcs \<and> svName s = n"
  unfolding superInv_def timersKnown_def by blast

lemma superInv_ends [simp]:
  "superInv svcs (sp\<lparr>spWaiting := w, spFinished := f\<rparr>) = superInv svcs sp" "superInv svcs (sp\<lparr>spFailures := m\<rparr>) = superInv svcs sp"
  by (simp_all add: superInv_defs)

lemma shutdown_inv: "superInv svcs sp \<Longrightarrow> superInv svcs (shutdownSupervisor code sp)"
proof -
  assume inv: "superInv svcs sp"
  have told: "SpTerm c \<in> SpTerm ` snd ` set (spRunning sp)" if "jmGet (spRunning sp) n = Some c" for n c
    using map_of_SomeD [OF that] by force
  show ?thesis
  proof (cases "spStopping sp")
    case False
    have alive: "aliveKnown svcs (stopChildren code (sp\<lparr>spStopping := True, spTimers := []\<rparr>))"
      using inv told by (fastforce simp: superInv_def aliveKnown_def stopChildren_def Let_def)
    show ?thesis
      using inv alive False
      by (simp add: shutdownSupervisor_def superInv_def superWf_def runningKnown_def timersKnown_def stoppedQuiet_def stopChildren_def Let_def)
  qed (simp add: shutdownSupervisor_def inv)
qed

lemma svc_schedule_inv:
  assumes "superInv svcs sp" "s \<in> set svcs" "jmGet (spRunning sp) (svName s) = None" "\<not> spStopping sp"
  shows "superInv svcs (scheduleRestart s b up sp)"
proof -
  let ?sp = "scheduleRestart s b up sp"
  have "runningKnown svcs ?sp"
    using runningKnownD [OF assms(1)] assms(3) unfolding runningKnown_def scheduleRestart_def Let_def by (auto simp del: map_of_eq_Some_iff)
  moreover have "aliveKnown svcs ?sp"
    using aliveKnownD [OF assms(1)] unfolding aliveKnown_def scheduleRestart_def Let_def by (auto simp del: map_of_eq_Some_iff)
  moreover have "timersKnown svcs ?sp"
    using timersKnownD [OF assms(1)] assms(2) unfolding timersKnown_def scheduleRestart_def Let_def by (auto simp del: map_of_eq_Some_iff)
  ultimately show ?thesis
    using assms(1,4) by (simp add: superInv_def superWf_def stoppedQuiet_def scheduleRestart_def Let_def)
qed

lemma start_inv:
  assumes "superInv svcs sp" "s \<in> set svcs" "jmGet (spRunning sp) (svName s) = None" "jmGet (spTimers sp) (svName s) = None"
    "\<not> spStopping sp" "distinct (map svName svcs)"
  shows "superInv svcs (startService s ok now sp)"
proof (cases ok)
  case False
  with assms show ?thesis
    by (simp add: startService_def Let_def shutdown_inv svc_schedule_inv split: serviceExit.split)
next
  case True
  have new: "jmGet (spAlive sp) (spNextChild sp) = None"
  proof (rule ccontr)
    assume "jmGet (spAlive sp) (spNextChild sp) \<noteq> None"
    then have "jmHas (spAlive sp) (spNextChild sp)" by (simp add: jmHas_def)
    with assms(1) show False unfolding superInv_def superWf_def by blast
  qed
  have wf: "superWf (startService s ok now sp)"
    using assms(1) True by (auto simp: superInv_def superWf_def startService_def less_Suc_eq)
  have running: "runningKnown svcs (startService s ok now sp)"
  proof -
    have "jmGet (spRunning sp) n \<noteq> Some (spNextChild sp)" for n using runningKnownD(1) [OF assms(1), of n "spNextChild sp"] new by auto
    then show ?thesis
      using runningKnownD [OF assms(1)] assms(4) True unfolding runningKnown_def startService_def by (auto simp del: map_of_eq_Some_iff)
  qed
  have alive: "aliveKnown svcs (startService s ok now sp)"
    unfolding aliveKnown_def
  proof (intro allI impI)
    fix c s' t assume c: "jmGet (spAlive (startService s ok now sp)) c = Some (s', t)"
    show "s' \<in> set svcs \<and> (jmGet (spRunning (startService s ok now sp)) (svName s') = Some c \<or> SpTerm c \<in> set (spEvents (startService s ok now sp)))"
    proof (cases "c = spNextChild sp")
      case True
      with c \<open>ok\<close> assms(2) show ?thesis by (simp add: startService_def)
    next
      case False
      with c \<open>ok\<close> have old: "jmGet (spAlive sp) c = Some (s', t)" by (simp add: startService_def)
      from aliveKnownD [OF assms(1) old] assms(3) \<open>ok\<close> show ?thesis by (auto simp: startService_def)
    qed
  qed
  show ?thesis
    using wf running alive assms(1,5) True by (simp add: superInv_def timersKnown_def stoppedQuiet_def startService_def)
qed

lemma exited_inv:
  assumes "superInv svcs sp" "s \<in> set svcs" "jmGet (spRunning sp) (svName s) = None" "jmGet (spTimers sp) (svName s) = None"
    "\<not> spStopping sp" "distinct (map svName svcs)"
  shows "superInv svcs (serviceExited s t code ok now sp)"
  using assms by (auto simp: serviceExited_def Let_def intro!: start_inv shutdown_inv svc_schedule_inv split: serviceExit.split)

lemma svc_gone_inv:
  assumes "superInv svcs sp" "jmGet (spAlive sp) c = Some (s, t)"
  shows "superInv svcs (let gone = sp\<lparr>spAlive := jmDelete c (spAlive sp)\<rparr>
    in if jmGet (spRunning gone) (svName s) \<noteq> Some c then gone else gone\<lparr>spRunning := jmDelete (svName s) (spRunning gone)\<rparr>)"
proof -
  have other: "c' \<noteq> c" if "jmGet (spRunning sp) n = Some c'" "n \<noteq> svName s \<or> jmGet (spRunning sp) (svName s) \<noteq> Some c" for n c'
  proof
    assume "c' = c"
    with runningKnownD(1) [OF assms(1) that(1)] assms(2) have "svName s = n" by auto
    with that \<open>c' = c\<close> show False by auto
  qed
  have wf: "superWf (sp\<lparr>spAlive := jmDelete c (spAlive sp), spRunning := m\<rparr>)" if "jmWf m" for m
    using assms(1) that by (simp add: superInv_def superWf_def)
  show ?thesis
  proof (cases "jmGet (spRunning sp) (svName s) = Some c")
    case True
    have "runningKnown svcs (sp\<lparr>spAlive := jmDelete c (spAlive sp), spRunning := jmDelete (svName s) (spRunning sp)\<rparr>)"
      using runningKnownD [OF assms(1)] other unfolding runningKnown_def by (auto simp del: map_of_eq_Some_iff)
    moreover have "aliveKnown svcs (sp\<lparr>spAlive := jmDelete c (spAlive sp), spRunning := jmDelete (svName s) (spRunning sp)\<rparr>)"
      by (rule aliveKnown_mono [of svcs sp]) (use assms True in \<open>auto simp: superInv_def simp del: map_of_eq_Some_iff split: if_splits\<close>)
    ultimately show ?thesis
      using True assms(1) wf by (auto simp: Let_def superInv_def superWf_def timersKnown_def stoppedQuiet_def simp del: map_of_eq_Some_iff)
  next
    case False
    have "runningKnown svcs (sp\<lparr>spAlive := jmDelete c (spAlive sp)\<rparr>)"
      using runningKnownD [OF assms(1)] other False unfolding runningKnown_def by (auto simp del: map_of_eq_Some_iff)
    moreover have "aliveKnown svcs (sp\<lparr>spAlive := jmDelete c (spAlive sp)\<rparr>)"
      by (rule aliveKnown_mono [of svcs sp]) (use assms in \<open>auto simp: superInv_def simp del: map_of_eq_Some_iff split: if_splits\<close>)
    ultimately show ?thesis
      using False assms(1) by (auto simp: Let_def superInv_def superWf_def timersKnown_def stoppedQuiet_def simp del: map_of_eq_Some_iff)
  qed
qed

lemma childExited_inv:
  assumes "superInv svcs sp" "distinct (map svName svcs)"
  shows "superInv svcs (childExited c code ok now sp)"
proof (cases "jmGet (spAlive sp) c")
  case (Some st)
  then obtain s t where st: "jmGet (spAlive sp) c = Some (s, t)" by (cases st) auto
  show ?thesis
  proof (cases "jmGet (spRunning sp) (svName s) = Some c")
    case False
    with svc_gone_inv [OF assms(1) st] st show ?thesis by (simp add: childExited_def Let_def)
  next
    case True
    let ?left = "sp\<lparr>spAlive := jmDelete c (spAlive sp), spRunning := jmDelete (svName s) (spRunning sp)\<rparr>"
    have left: "superInv svcs ?left" using svc_gone_inv [OF assms(1) st] True by (simp add: Let_def)
    have known: "s \<in> set svcs" "jmGet (spTimers sp) (svName s) = None"
      using aliveKnownD(1) [OF assms(1) st] runningKnownD(2) [OF assms(1) True] by simp_all
    have "superInv svcs (serviceExited s t code ok now ?left)" if "\<not> spStopping ?left"
      by (rule exited_inv [OF left known(1) _ _ that assms(2)]) (simp_all add: known)
    with left st True show ?thesis by (simp add: childExited_def Let_def)
  qed
qed (simp add: childExited_def assms)

lemma restartDue_inv:
  assumes "superInv svcs sp" "distinct (map svName svcs)"
  shows "superInv svcs (restartDue n ok now sp)"
proof (cases "jmGet (spTimers sp) n")
  case (Some sd)
  then obtain s d where sd: "jmGet (spTimers sp) n = Some (s, d)" by (cases sd) auto
  let ?sp = "sp\<lparr>spTimers := jmDelete n (spTimers sp)\<rparr>"
  have left: "superInv svcs ?sp"
    using assms(1) by (auto simp: superInv_def superWf_def runningKnown_def aliveKnown_def timersKnown_def stoppedQuiet_def simp del: map_of_eq_Some_iff)
  have known: "s \<in> set svcs" "svName s = n" using timersKnownD [OF assms(1) sd] by simp_all
  have idle: "jmGet (spRunning sp) n = None" using runningKnownD(2) [OF assms(1), of n] sd by (cases "jmGet (spRunning sp) n") auto
  have "superInv svcs (startService s ok now ?sp)" if "\<not> spStopping ?sp"
    by (rule start_inv [OF left known(1) _ _ that assms(2)]) (simp_all add: known idle)
  with left sd show ?thesis by (simp add: restartDue_def Let_def)
qed (simp add: restartDue_def assms)

lemma step_inv:
  assumes "superInv svcs sp" "distinct (map svName svcs)"
  shows "superInv svcs (superStep sp op1)"
  using assms
  by (cases op1) (auto simp: superStep_def childExited_inv restartDue_inv onSignal_def shutdown_inv allExited_def stopTimesOut_def
      split: option.split)


lemma bootServices_inv:
  assumes "superInv svcs sp" "distinct (map svName svcs)" "distinct (map (svName \<circ> fst) boot)" "fst ` set boot \<subseteq> set svcs"
    "\<forall>b\<in>set boot. jmGet (spRunning sp) (svName (fst b)) = None \<and> jmGet (spTimers sp) (svName (fst b)) = None"
  shows "superInv svcs (bootServices boot sp)"
  using assms
proof (induction boot sp rule: bootServices.induct)
  case (2 s ok now rest sp)
  show ?case
  proof (cases "spStopping sp")
    case False
    have started: "superInv svcs (startService s ok now sp)"
      by (rule start_inv) (use 2 False in auto)
    have other: "jmGet (spRunning (startService s ok now sp)) n = None \<and> jmGet (spTimers (startService s ok now sp)) n = None"
      if "n \<noteq> svName s" "jmGet (spRunning sp) n = None" "jmGet (spTimers sp) n = None" for n
      using that by (simp add: startService_def Let_def shutdownSupervisor_def stopChildren_def scheduleRestart_def split: serviceExit.split)
    have "superInv svcs (bootServices rest (startService s ok now sp))"
    proof (rule 2(1) [OF False started 2(3)])
      show "distinct (map (svName \<circ> fst) rest)" "fst ` set rest \<subseteq> set svcs" using 2(4,5) by (simp_all add: o_def)
      have "svName (fst b) \<noteq> svName s" if "b \<in> set rest" for b using 2(4) that by (simp add: o_def) (metis (no_types, lifting) imageI)
      with other 2(6) show "\<forall>b\<in>set rest. jmGet (spRunning (startService s ok now sp)) (svName (fst b)) = None \<and>
          jmGet (spTimers (startService s ok now sp)) (svName (fst b)) = None" by simp
    qed
    with False show ?thesis by simp
  qed (use 2 in simp)
qed simp

lemma run_inv:
  assumes "distinct (map (svName \<circ> fst) boot)"
  shows "superInv (map fst boot) (runSupervisor boot ops)"
proof -
  have d: "distinct (map svName (map fst boot))" using assms by simp
  have "superInv (map fst boot) (bootServices boot newSupervisor)"
    by (rule bootServices_inv [OF superInv_new d assms]) (simp_all add: newSupervisor_def)
  then have "superInv (map fst boot) (foldl superStep sp ops)" if "superInv (map fst boot) sp" for sp
    using that d by (induction ops arbitrary: sp) (simp_all add: step_inv)
  then show ?thesis
    using \<open>superInv (map fst boot) (bootServices boot newSupervisor)\<close> by (simp add: runSupervisor_def)
qed

definition untoldChild :: "supervisor \<Rightarrow> nat \<Rightarrow> service \<Rightarrow> bool" where
  "untoldChild sp c s \<longleftrightarrow> (\<exists>t. jmGet (spAlive sp) c = Some (s, t)) \<and> SpTerm c \<notin> set (spEvents sp)"

lemma untold_running: "superInv svcs sp \<Longrightarrow> untoldChild sp c s \<Longrightarrow> jmGet (spRunning sp) (svName s) = Some c"
  unfolding untoldChild_def using aliveKnownD(2) by blast

text \<open>A service never has two processes: of the processes alive, two of one service have both been told to stop but at
  most one, whatever exits, restarts, failures to start and signals come; and once the supervisor stops every process
  alive has been told to and no restart is left due.\<close>
theorem one_process_per_service:
  assumes "distinct (map (svName \<circ> fst) boot)"
  shows "let sp = runSupervisor boot ops
    in (untoldChild sp c s \<and> untoldChild sp c' s' \<and> svName s = svName s' \<longrightarrow> c = c') \<and>
       (spStopping sp \<longrightarrow> spTimers sp = [] \<and> \<not> untoldChild sp c s)"
proof -
  let ?sp = "runSupervisor boot ops"
  have inv: "superInv (map fst boot) ?sp" by (rule run_inv [OF assms])
  have stopped: "spRunning ?sp = [] \<and> spTimers ?sp = []" if "spStopping ?sp"
    using inv that by (simp add: superInv_def stoppedQuiet_def)
  have "c = c'" if "untoldChild ?sp c s" "untoldChild ?sp c' s'" "svName s = svName s'"
    using untold_running [OF inv that(1)] untold_running [OF inv that(2)] that(3) by simp
  moreover have "\<not> untoldChild ?sp c s" if "spStopping ?sp"
    using untold_running [OF inv, of c s] stopped [OF that] by auto
  ultimately show ?thesis unfolding Let_def using stopped by blast
qed

definition demoServices :: "service list" where
  "demoServices = createServices (\<lambda>a b. a @ b) False ''bun'' ''/r''"

definition demoBoot :: "(service \<times> bool \<times> int) list" where
  "demoBoot = map (\<lambda>s. (s, True, 0)) demoServices"

lemma demoBoot_names: "distinct (map (svName \<circ> fst) demoBoot)"
  by (simp add: demoBoot_def demoServices_def createServices_def coreServices_def)

theorem one_process_per_service_witness:
  "let sp = runSupervisor demoBoot [ChildExits 1 1 True 10]; s = demoServices ! 1 in \<not> (untoldChild sp 0 s \<and> untoldChild sp 1 s)"
  using one_process_per_service [OF demoBoot_names, of "[ChildExits 1 1 True 10]" 0 "demoServices ! 1" 1 "demoServices ! 1"]
  unfolding Let_def by (metis zero_neq_one)

subsection \<open>None is forgotten\<close>

definition accounted :: "service \<Rightarrow> supervisor \<Rightarrow> bool" where
  "accounted s sp \<longleftrightarrow> jmHas (spRunning sp) (svName s) \<or> jmHas (spTimers sp) (svName s) \<or>
     (\<exists>b code reason. svOnExit s = RestartAfter b (Some (code, reason)) \<and>
        SpExited (svName s) code \<in> set (spEvents sp) \<and> SpNotRestarting (svName s) reason \<in> set (spEvents sp))"

definition keepsOthers :: "string \<Rightarrow> supervisor \<Rightarrow> supervisor \<Rightarrow> bool" where
  "keepsOthers n sp sp' \<longleftrightarrow> set (spEvents sp) \<subseteq> set (spEvents sp') \<and>
     (\<forall>m. m \<noteq> n \<longrightarrow> (jmHas (spRunning sp) m \<longrightarrow> jmHas (spRunning sp') m) \<and> (jmHas (spTimers sp) m \<longrightarrow> jmHas (spTimers sp') m))"

lemma accounted_other: "accounted s sp \<Longrightarrow> keepsOthers n sp sp' \<Longrightarrow> svName s \<noteq> n \<Longrightarrow> accounted s sp'"
  unfolding accounted_def keepsOthers_def by blast

lemma start_accounts:
  "spStopping (startService s ok now sp) \<or> accounted s (startService s ok now sp) \<and> keepsOthers (svName s) sp (startService s ok now sp)"
  by (auto simp: startService_def Let_def shutdownSupervisor_def stopChildren_def scheduleRestart_def accounted_def keepsOthers_def
      split: serviceExit.split)

lemma exited_accounts:
  "spStopping (serviceExited s t code ok now sp) \<or>
   accounted s (serviceExited s t code ok now sp) \<and> keepsOthers (svName s) sp (serviceExited s t code ok now sp)"
proof (cases "Some code = map_option fst (svAtOnceOn s)")
  case True
  let ?sp = "superLog [SpAtOnce (svName s) (snd (the (svAtOnceOn s)))]
    ((superLog [SpExited (svName s) code] sp)\<lparr>spFailures := jmDelete (svName s) (spFailures sp)\<rparr>)"
  have "keepsOthers (svName s) ?sp sp' \<Longrightarrow> keepsOthers (svName s) sp sp'" for sp' by (simp add: keepsOthers_def)
  with start_accounts [of s ok now ?sp] True show ?thesis by (auto simp: serviceExited_def Let_def)
next
  case False
  show ?thesis
  proof (cases "svOnExit s")
    case StopAll
    with False show ?thesis by (auto simp: serviceExited_def shutdownSupervisor_def stopChildren_def Let_def)
  next
    case (RestartAfter b never)
    with False show ?thesis
      by (cases never) (auto simp: serviceExited_def scheduleRestart_def Let_def accounted_def keepsOthers_def)
  qed
qed

definition allAccounted :: "service list \<Rightarrow> supervisor \<Rightarrow> bool" where
  "allAccounted svcs sp \<longleftrightarrow> spStopping sp \<or> (\<forall>s\<in>set svcs. accounted s sp)"

lemma allAccounted_after:
  assumes "allAccounted svcs sp" "\<not> spStopping sp" "s \<in> set svcs" "distinct (map svName svcs)"
    "spStopping sp' \<or> accounted s sp' \<and> keepsOthers (svName s) sp sp'"
  shows "allAccounted svcs sp'"
proof -
  have "s' = s" if "s' \<in> set svcs" "svName s' = svName s" for s'
    using assms(3,4) that by (meson distinct_map inj_on_def)
  with assms show ?thesis unfolding allAccounted_def by (metis accounted_other)
qed

lemma svc_step_accounts:
  assumes "superInv svcs sp" "distinct (map svName svcs)" "allAccounted svcs sp"
  shows "allAccounted svcs (superStep sp op1)"
proof (cases "spStopping sp")
  case True
  have "spStopping (superStep sp op1)"
    using True by (cases op1) (auto simp: superStep_def childExited_def restartDue_def onSignal_def allExited_def stopTimesOut_def Let_def
        split: option.split)
  then show ?thesis by (simp add: allAccounted_def)
next
  case running: False
  show ?thesis
  proof (cases op1)
    case (ChildExits c code ok now)
    show ?thesis
    proof (cases "jmGet (spAlive sp) c")
      case None
      with ChildExits assms(3) show ?thesis by (simp add: superStep_def childExited_def)
    next
      case (Some st)
      obtain s t where st: "st = (s, t)" by (cases st)
      let ?gone = "sp\<lparr>spAlive := jmDelete c (spAlive sp)\<rparr>"
      let ?left = "?gone\<lparr>spRunning := jmDelete (svName s) (spRunning sp)\<rparr>"
      have "allAccounted svcs ?gone" using assms(3) by (simp add: allAccounted_def accounted_def)
      moreover have "keepsOthers (svName s) ?left sp' \<Longrightarrow> keepsOthers (svName s) sp sp'" for sp' by (simp add: keepsOthers_def)
      then have "allAccounted svcs (serviceExited s t code ok now ?left)"
        using exited_accounts [of s t code ok now ?left] aliveKnownD(1) [OF assms(1), of c s t] Some st
        by (intro allAccounted_after [OF assms(3) running _ assms(2)]) auto
      ultimately show ?thesis using ChildExits Some st running by (simp add: superStep_def childExited_def Let_def)
    qed
  next
    case (RestartFires n ok now)
    show ?thesis
    proof (cases "jmGet (spTimers sp) n")
      case None
      with RestartFires assms(3) show ?thesis by (simp add: superStep_def restartDue_def)
    next
      case (Some sd)
      obtain s d where sd: "sd = (s, d)" by (cases sd)
      with timersKnownD [OF assms(1), of n s d] Some have s: "s \<in> set svcs" "svName s = n" by simp_all
      let ?left = "sp\<lparr>spTimers := jmDelete n (spTimers sp)\<rparr>"
      have "keepsOthers (svName s) ?left sp' \<Longrightarrow> keepsOthers (svName s) sp sp'" for sp' by (simp add: keepsOthers_def s)
      then have "allAccounted svcs (startService s ok now ?left)"
        using start_accounts [of s ok now ?left] by (intro allAccounted_after [OF assms(3) running s(1) assms(2)]) blast
      then show ?thesis using RestartFires Some sd running by (simp add: superStep_def restartDue_def Let_def)
    qed
  next
    case (SignalArrives sig)
    with running show ?thesis by (simp add: superStep_def onSignal_def shutdownSupervisor_def stopChildren_def Let_def allAccounted_def)
  next
    case ChildrenGone
    with assms(3) show ?thesis by (auto simp: superStep_def allExited_def allAccounted_def accounted_def split: option.split)
  next
    case StopTimeout
    with assms(3) show ?thesis by (fastforce simp: superStep_def stopTimesOut_def allAccounted_def accounted_def split: option.split)
  qed
qed

lemma boot_accounts:
  "spStopping (bootServices boot sp) \<or>
   (\<forall>s. s \<in> fst ` set boot \<or> accounted s sp \<and> svName s \<notin> svName ` fst ` set boot \<longrightarrow> accounted s (bootServices boot sp))"
  if "distinct (map (svName \<circ> fst) boot)"
  using that
proof (induction boot sp rule: bootServices.induct)
  case (2 s ok now rest sp)
  show ?case
  proof (cases "spStopping sp")
    case False
    let ?sp = "startService s ok now sp"
    have d: "distinct (map (svName \<circ> fst) rest)" "svName s \<notin> svName ` fst ` set rest" using 2(2) by (simp_all add: image_image o_def)
    from 2(1) [OF False d(1)] start_accounts [of s ok now sp] d(2) False show ?thesis
      by (cases "spStopping ?sp"; cases rest) (auto intro: accounted_other)
  qed simp
qed simp

text \<open>No service is forgotten: until the supervisor stops, each one runs, or its restart is due, or it exited with the code
  it is not to be restarted on; and a restart that is due starts it or is due again.\<close>
theorem service_never_lost:
  assumes "distinct (map (svName \<circ> fst) boot)" "\<not> spStopping (runSupervisor boot ops)" "s \<in> fst ` set boot"
  shows "accounted s (runSupervisor boot ops)"
proof -
  have d: "distinct (map svName (map fst boot))" using assms(1) by simp
  have "allAccounted (map fst boot) (bootServices boot newSupervisor)"
    using boot_accounts [OF assms(1), of newSupervisor] by (auto simp: allAccounted_def)
  moreover have "superInv (map fst boot) (bootServices boot newSupervisor)" using run_inv [OF assms(1), of "[]"] by (simp add: runSupervisor_def)
  ultimately have "allAccounted (map fst boot) (foldl superStep sp ops)"
    if "superInv (map fst boot) sp" "allAccounted (map fst boot) sp" for sp
    using that by (induction ops arbitrary: sp) (simp_all add: step_inv [OF _ d] svc_step_accounts [OF _ d])
  then have "allAccounted (map fst boot) (runSupervisor boot ops)"
    unfolding runSupervisor_def
    using \<open>superInv (map fst boot) (bootServices boot newSupervisor)\<close> \<open>allAccounted (map fst boot) (bootServices boot newSupervisor)\<close> by blast
  with assms(2,3) show ?thesis by (auto simp: allAccounted_def)
qed


definition demoRun :: supervisor where
  "demoRun = runSupervisor demoBoot [ChildExits 1 1 True 10]"

theorem service_never_lost_witness:
  "accounted (demoServices ! 1) (runSupervisor demoBoot [ChildExits 1 1 True 10])"
proof -
  have "\<not> spStopping (runSupervisor demoBoot [ChildExits 1 1 True 10])"
    by (simp add: demoBoot_def demoServices_def createServices_def coreServices_def runSupervisor_def newSupervisor_def startService_def
        superStep_def childExited_def serviceExited_def scheduleRestart_def Let_def nodeReloadExitCode_def nodeRefusedExitCode_def superLog_def)
  moreover have "demoServices ! 1 \<in> fst ` set demoBoot" by (simp add: demoBoot_def demoServices_def createServices_def coreServices_def)
  ultimately show ?thesis by (rule service_never_lost [OF demoBoot_names])
qed

subsection \<open>Backing off\<close>

text \<open>A service that exits early again and again, each time after its restart.\<close>

fun crashLoop :: "service \<Rightarrow> (int \<times> int) list \<Rightarrow> int \<Rightarrow> supervisor \<Rightarrow> supervisor" where
  "crashLoop s [] code sp = sp"
| "crashLoop s ((exitAt, restartAt) # rest) code sp =
     crashLoop s rest code
       (superStep (superStep sp (ChildExits (the (jmGet (spRunning sp) (svName s))) code True exitAt)) (RestartFires (svName s) True restartAt))"

definition delaysOf :: "string \<Rightarrow> superEvent list \<Rightarrow> nat list" where
  "delaysOf n es = List.map_filter (\<lambda>e. case e of SpRestartsIn m d \<Rightarrow> if m = n then Some d else None | _ \<Rightarrow> None) es"

lemma delaysOf_append [simp]: "delaysOf n (xs @ ys) = delaysOf n xs @ delaysOf n ys"
  by (induction xs) (simp_all add: delaysOf_def map_filter_simps split: option.split)

lemma delaysOf_simps [simp]:
  "delaysOf n [] = []" "delaysOf n (SpRestartsIn m d # es) = (if m = n then [d] else []) @ delaysOf n es"
  "delaysOf n (SpStarted m c # es) = delaysOf n es" "delaysOf n (SpExited m i # es) = delaysOf n es"
  by (simp_all add: delaysOf_def map_filter_simps)

text \<open>Each exit comes before the uptime that resets the delay.\<close>

fun earlyExits :: "int \<Rightarrow> int \<Rightarrow> (int \<times> int) list \<Rightarrow> bool" where
  "earlyExits reset startedAt [] = True"
| "earlyExits reset startedAt ((exitAt, restartAt) # rest) = (exitAt - startedAt < reset \<and> earlyExits reset restartAt rest)"

lemma crash_round:
  assumes "svOnExit s = RestartAfter b never" "Some code \<noteq> map_option fst (svAtOnceOn s)" "Some code \<noteq> map_option fst never"
    "jmGet (spRunning sp) (svName s) = Some c" "jmGet (spAlive sp) c = Some (s, t)" "\<not> spStopping sp" "exitAt - t < rbResetAfterMs b"
    "orElse (jmGet (spFailures sp) (svName s)) 0 = k"
  shows "let sp' = superStep (superStep sp (ChildExits c code True exitAt)) (RestartFires (svName s) True restartAt)
    in jmGet (spRunning sp') (svName s) = Some (spNextChild sp) \<and> jmGet (spAlive sp') (spNextChild sp) = Some (s, restartAt) \<and>
       \<not> spStopping sp' \<and> jmGet (spFailures sp') (svName s) = Some (Suc k) \<and>
       delaysOf (svName s) (spEvents sp') = delaysOf (svName s) (spEvents sp) @ [restartDelay b k]"
  using assms
  by (simp add: superStep_def childExited_def serviceExited_def restartDue_def startService_def scheduleRestart_def previousFailures_def Let_def
      del: map_of_eq_Some_iff)

text \<open>A service that keeps exiting early is restarted after delays that double from the first up to the longest one, and a
  crash after it stayed up long enough starts over.\<close>
theorem crash_loop_backs_off:
  assumes "svOnExit s = RestartAfter b never" "Some code \<noteq> map_option fst (svAtOnceOn s)" "Some code \<noteq> map_option fst never"
    "jmGet (spRunning sp) (svName s) = Some c" "jmGet (spAlive sp) c = Some (s, t)" "\<not> spStopping sp" "earlyExits (rbResetAfterMs b) t rounds"
  shows "delaysOf (svName s) (spEvents (crashLoop s rounds code sp)) = delaysOf (svName s) (spEvents sp) @
      map (\<lambda>i. min (rbMaxMs b) (rbInitialMs b * 2 ^ (orElse (jmGet (spFailures sp) (svName s)) 0 + i))) [0..<length rounds] \<and>
    (rbResetAfterMs b \<le> up \<longrightarrow> previousFailures s b up sp = 0)"
proof
  show "delaysOf (svName s) (spEvents (crashLoop s rounds code sp)) = delaysOf (svName s) (spEvents sp) @
      map (\<lambda>i. min (rbMaxMs b) (rbInitialMs b * 2 ^ (orElse (jmGet (spFailures sp) (svName s)) 0 + i))) [0..<length rounds]"
    using assms(4-7)
  proof (induction rounds arbitrary: sp c t)
    case (Cons e rounds)
    obtain exitAt restartAt where e: "e = (exitAt, restartAt)" by (cases e)
    let ?k = "orElse (jmGet (spFailures sp) (svName s)) 0"
    let ?sp = "superStep (superStep sp (ChildExits c code True exitAt)) (RestartFires (svName s) True restartAt)"
    have early: "exitAt - t < rbResetAfterMs b" "earlyExits (rbResetAfterMs b) restartAt rounds" using Cons.prems(4) e by simp_all
    note r = crash_round [OF assms(1-3) Cons.prems(1-3) early(1) refl, of restartAt, unfolded Let_def]
    have ih: "delaysOf (svName s) (spEvents (crashLoop s rounds code ?sp)) = delaysOf (svName s) (spEvents ?sp) @
      map (\<lambda>i. min (rbMaxMs b) (rbInitialMs b * 2 ^ (orElse (jmGet (spFailures ?sp) (svName s)) 0 + i))) [0..<length rounds]"
      by (rule Cons.IH) (use r early in blast)+
    have shift: "map (\<lambda>i. min (rbMaxMs b) (rbInitialMs b * 2 ^ (?k + i))) [0..<Suc (length rounds)] =
      restartDelay b ?k # map (\<lambda>i. min (rbMaxMs b) (rbInitialMs b * 2 ^ (Suc ?k + i))) [0..<length rounds]"
      by (simp add: upt_conv_Cons map_Suc_upt [symmetric] restartDelay_def del: upt_Suc)
    show ?case using ih r shift Cons.prems(1) e by (simp del: upt_Suc)
  qed simp
qed (simp add: previousFailures_def)

subsection \<open>Shutdown\<close>

definition startsIn :: "supervisor \<Rightarrow> nat" where
  "startsIn sp = length (filter (\<lambda>e. case e of SpStarted n c \<Rightarrow> True | _ \<Rightarrow> False) (spEvents sp))"

lemma filter_starts_map [simp]:
  "filter (\<lambda>e. case e of SpStarted n c \<Rightarrow> True | _ \<Rightarrow> False) (map SpKill cs) = []"
  by (induction cs) simp_all

definition finishesWith :: "int \<Rightarrow> supervisor \<Rightarrow> bool" where
  "finishesWith code sp \<longleftrightarrow> map_option snd (spWaiting sp) = Some code \<and> spFinished sp = None \<or> spWaiting sp = None \<and> spFinished sp = Some code"

lemma stopping_step:
  assumes "spStopping sp" "spRunning sp = []" "spTimers sp = []" "finishesWith code sp"
  shows "spStopping (superStep sp op1) \<and> spRunning (superStep sp op1) = [] \<and> spTimers (superStep sp op1) = [] \<and>
    startsIn (superStep sp op1) = startsIn sp \<and> finishesWith code (superStep sp op1)"
  using assms
  by (cases op1) (auto simp: superStep_def childExited_def restartDue_def onSignal_def allExited_def stopTimesOut_def Let_def startsIn_def
      finishesWith_def split: option.split)

text \<open>A shutdown is final: nothing is started any more and the supervisor finishes with the code it was shut down with,
  whatever comes, at the latest when the time it gives its children is over; a signal shuts it down with 0.\<close>
theorem shutdown_is_final:
  assumes "superInv svcs sp" "\<not> spStopping sp" "spWaiting sp = None" "spFinished sp = None"
  shows "let sp' = foldl superStep (shutdownSupervisor code sp) ops
    in spStopping sp' \<and> startsIn sp' = startsIn (shutdownSupervisor code sp) \<and> (\<forall>c. spFinished sp' = Some c \<longrightarrow> c = code) \<and>
       spFinished (superStep sp' StopTimeout) = Some code"
proof -
  let ?sp = "shutdownSupervisor code sp"
  let ?ok = "\<lambda>sp'. spStopping sp' \<and> spRunning sp' = [] \<and> spTimers sp' = [] \<and> startsIn sp' = startsIn ?sp \<and> finishesWith code sp'"
  have "?ok ?sp" using assms by (simp add: shutdownSupervisor_def stopChildren_def Let_def finishesWith_def)
  then have "?ok (foldl superStep ?sp ops)" for ops
  proof (induction ops rule: rev_induct)
    case (snoc op1 ops)
    then show ?case using stopping_step [of "foldl superStep ?sp ops" code op1] by simp
  qed simp
  then have ok: "?ok (foldl superStep ?sp ops)" .
  then show ?thesis
    by (auto simp: Let_def finishesWith_def superStep_def stopTimesOut_def split: option.split)
qed

text \<open>The exit of a service whose exit stops them all ends the supervisor with its code, except that a clean exit ends it
  with 1.\<close>
theorem clean_exit_reported_as_failure:
  assumes "svOnExit s = StopAll" "Some code \<noteq> map_option fst (svAtOnceOn s)" "\<not> spStopping sp"
    "jmGet (spRunning sp) (svName s) = Some c" "jmGet (spAlive sp) c = Some (s, t)"
  shows "map_option snd (spWaiting (superStep sp (ChildExits c code ok now))) = Some (if code = 0 then 1 else code)"
  using assms by (simp add: superStep_def childExited_def serviceExited_def shutdownSupervisor_def stopChildren_def Let_def del: map_of_eq_Some_iff)

lemmas demo_defs = demoBoot_def demoServices_def createServices_def coreServices_def newSupervisor_def startService_def superLog_def

definition demoStarted :: supervisor where
  "demoStarted = bootServices demoBoot newSupervisor"

lemma demo_started:
  "jmGet (spRunning demoStarted) ''server'' = Some 0" "jmGet (spAlive demoStarted) 0 = Some (demoServices ! 0, 0)"
  "jmGet (spRunning demoStarted) ''node'' = Some 1" "jmGet (spAlive demoStarted) 1 = Some (demoServices ! 1, 0)"
  "\<not> spStopping demoStarted" "spFailures demoStarted = []" "spWaiting demoStarted = None" "spFinished demoStarted = None"
  "delaysOf ''node'' (spEvents demoStarted) = []"
  by (simp_all add: demoStarted_def demo_defs)

theorem crash_loop_backs_off_witness:
  "delaysOf ''node'' (spEvents (crashLoop (demoServices ! 1) [(5, 1005), (1010, 3010), (3015, 7015)] 1 demoStarted)) = [1000, 2000, 4000]"
proof -
  let ?s = "demoServices ! 1"
  have s: "svOnExit ?s = RestartAfter nodeRestart (Some (nodeRefusedExitCode, ''refused by the server''))" "svName ?s = ''node''"
    "svAtOnceOn ?s = Some (nodeReloadExitCode, ''reloading'')"
    by (simp_all add: demoServices_def createServices_def coreServices_def)
  have codes: "Some 1 \<noteq> map_option fst (svAtOnceOn ?s)" "Some 1 \<noteq> map_option fst (Some (nodeRefusedExitCode, ''refused by the server''))"
    unfolding s(3) by (simp_all add: nodeReloadExitCode_def nodeRefusedExitCode_def)
  have "earlyExits (rbResetAfterMs nodeRestart) 0 [(5, 1005), (1010, 3010), (3015, 7015)]" by (simp add: nodeRestart_def)
  from crash_loop_backs_off [OF s(1) codes _ demo_started(4) demo_started(5) this] demo_started(3,6,9) s(2) show ?thesis
    by (simp add: nodeRestart_def upt_rec)
qed

theorem shutdown_is_final_witness:
  "spFinished (superStep (foldl superStep (shutdownSupervisor 0 demoStarted) [ChildExits 1 1 True 5]) StopTimeout) = Some 0"
proof -
  have "superInv (map fst demoBoot) demoStarted"
    using run_inv [OF demoBoot_names, of "[]"] by (simp add: runSupervisor_def demoStarted_def)
  from shutdown_is_final [OF this demo_started(5,7,8), of 0 "[ChildExits 1 1 True 5]"] show ?thesis unfolding Let_def by blast
qed

theorem clean_exit_reported_as_failure_witness:
  "map_option snd (spWaiting (superStep demoStarted (ChildExits 0 0 True 5))) = Some 1"
proof -
  have s: "svOnExit (demoServices ! 0) = StopAll" "svName (demoServices ! 0) = ''server''" "Some 0 \<noteq> map_option fst (svAtOnceOn (demoServices ! 0))"
    by (simp_all add: demoServices_def createServices_def coreServices_def serverRestartExitCode_def)
  from clean_exit_reported_as_failure [OF s(1,3) demo_started(5) _ demo_started(2), of True 5] demo_started(1) s(2) show ?thesis by simp
qed

end
