(* ===== verification/Catalog_Tables.thy ===== *)
theory Catalog_Tables
  imports Reins_Prelude "HOL-Library.Product_Lexorder" "HOL-Library.List_Lexorder"
begin

text \<open>
  The server's tables of nodes, sources, projects, tasks, sessions and pairing grants, and the statements on them:
  \<^verbatim>\<open>packages/backend/src/node-store.ts\<close>, \<open>project-store.ts\<close>, \<open>task-store.ts\<close> and the writes of \<open>session-store.ts\<close>,
  with the constraints that \<open>migrations.ts\<close> declares (foreign keys are on). A table is the list of its rows in the
  order of their rowids; a time is in milliseconds; \<open>now\<close> is the clock when the statement runs.
\<close>

subsection \<open>Rows\<close>

record nodeRecord =
  ndId :: string
  ndName :: string
  ndPublicKey :: "string option"
  ndHostname :: "string option"
  ndPairedAt :: "int option"
  ndRevokedAt :: "int option"
  ndRemovedAt :: "int option"

record sourceRecord =
  soId :: nat
  soNode :: string
  soPath :: string

record projectRecord =
  pjId :: nat
  pjName :: string
  pjBaseBranch :: string
  pjDefaultSource :: "nat option"
  pjCreatedAt :: int
  pjOpenedAt :: int

record taskRecord =
  tkId :: nat
  tkProject :: nat
  tkTitle :: string
  tkDescription :: "string option"
  tkBranch :: string
  tkBaseCommit :: "string option"
  tkCreatedAt :: int
  tkUpdatedAt :: int
  tkClosedAt :: "int option"

datatype activityValue = ActivityRunning | ActivityFinished

record sessionRecord =
  ssId :: string
  ssProject :: "nat option"
  ssSource :: nat
  ssName :: "string option"
  ssCreatedAt :: int
  ssUpdatedAt :: int
  ssProvider :: "string option"
  ssModel :: "string option"
  ssThinking :: string
  ssRuntime :: string
  ssTask :: "nat option"
  ssParent :: "string option"
  ssActivity :: "activityValue option"
  ssPinnedAt :: "int option"
  ssArchivedAt :: "int option"
  ssBackground :: bool
  ssKind :: string
  ssExtension :: "string option"

record grantRecord =
  gtId :: nat
  gtCode :: string
  gtName :: "string option"
  gtCreatedAt :: int
  gtExpiresAt :: int
  gtConsumedAt :: "int option"
  gtNode :: "string option"

text \<open>\<open>ctLastProject\<close> and \<open>ctLastTask\<close> are the \<open>AUTOINCREMENT\<close> counters.\<close>

record catalog =
  ctNodes :: "nodeRecord list"
  ctSources :: "sourceRecord list"
  ctProjects :: "projectRecord list"
  ctTasks :: "taskRecord list"
  ctSessions :: "sessionRecord list"
  ctGrants :: "grantRecord list"
  ctLastProject :: nat
  ctLastTask :: nat

datatype dbError =
    UniqueFails string
  | ForeignKeyFails
  | CheckFails

text \<open>The row with a key, and every row with a key changed.\<close>

definition rowWith :: "('r \<Rightarrow> 'k) \<Rightarrow> 'k \<Rightarrow> 'r list \<Rightarrow> 'r option" where
  "rowWith f k rows = find (\<lambda>r. f r = k) rows"

definition updateRows :: "('r \<Rightarrow> bool) \<Rightarrow> ('r \<Rightarrow> 'r) \<Rightarrow> 'r list \<Rightarrow> 'r list" where
  "updateRows P g rows = map (\<lambda>r. if P r then g r else r) rows"

definition nextRowid :: "('r \<Rightarrow> nat) \<Rightarrow> 'r list \<Rightarrow> nat" where
  "nextRowid f rows = Suc (foldr max (map f rows) 0)"

text \<open>\<open>LIMIT ? OFFSET ?\<close>.\<close>

definition limited :: "nat option \<Rightarrow> nat \<Rightarrow> 'a list \<Rightarrow> 'a list" where
  "limited n offset xs = (case n of None \<Rightarrow> xs | Some k \<Rightarrow> take k (drop offset xs))"

subsection \<open>Sources and nodes\<close>

definition getSource :: "catalog \<Rightarrow> nat \<Rightarrow> sourceRecord option" where
  "getSource ct i = rowWith soId i (ctSources ct)"

definition findSource :: "catalog \<Rightarrow> string \<Rightarrow> string \<Rightarrow> sourceRecord option" where
  "findSource ct node path = find (\<lambda>s. soNode s = node \<and> soPath s = path) (ctSources ct)"

definition getNode :: "catalog \<Rightarrow> string \<Rightarrow> nodeRecord option" where
  "getNode ct i = rowWith ndId i (ctNodes ct)"

definition upsertSource :: "string \<Rightarrow> string \<Rightarrow> catalog \<Rightarrow> dbError + sourceRecord \<times> catalog" where
  "upsertSource node path ct =
     (case findSource ct node path of
        Some s \<Rightarrow> Inr (s, ct)
      | None \<Rightarrow>
          if getNode ct node = None then Inl ForeignKeyFails
          else (let s = \<lparr>soId = nextRowid soId (ctSources ct), soNode = node, soPath = path\<rparr>
                in Inr (s, ct\<lparr>ctSources := ctSources ct @ [s]\<rparr>)))"

definition getProject :: "catalog \<Rightarrow> nat \<Rightarrow> projectRecord option" where
  "getProject ct i = rowWith pjId i (ctProjects ct)"

definition defaultSource :: "catalog \<Rightarrow> nat \<Rightarrow> sourceRecord option" where
  "defaultSource ct p = Option.bind (Option.bind (getProject ct p) pjDefaultSource) (getSource ct)"

definition listNodes :: "catalog \<Rightarrow> nodeRecord list" where
  "listNodes ct = sort_key (\<lambda>n. (map (of_char :: char \<Rightarrow> nat) (ndName n), map (of_char :: char \<Rightarrow> nat) (ndId n)))
     (filter (\<lambda>n. ndRemovedAt n = None) (ctNodes ct))"

definition insertPairedNode :: "string \<Rightarrow> string \<Rightarrow> string \<Rightarrow> string \<Rightarrow> int \<Rightarrow> catalog \<Rightarrow> dbError + catalog" where
  "insertPairedNode i name publicKey hostname now ct =
     (if getNode ct i \<noteq> None then Inl (UniqueFails ''nodes.id'')
      else if list_ex (\<lambda>n. ndPublicKey n = Some publicKey) (ctNodes ct) then Inl (UniqueFails ''nodes.public_key'')
      else Inr (ct\<lparr>ctNodes := ctNodes ct @ [\<lparr>ndId = i, ndName = name, ndPublicKey = Some publicKey, ndHostname = Some hostname,
             ndPairedAt = Some now, ndRevokedAt = None, ndRemovedAt = None\<rparr>]\<rparr>))"

definition updateNode :: "string \<Rightarrow> (nodeRecord \<Rightarrow> nodeRecord) \<Rightarrow> catalog \<Rightarrow> catalog" where
  "updateNode i g ct = ct\<lparr>ctNodes := updateRows (\<lambda>n. ndId n = i) g (ctNodes ct)\<rparr>"

definition setNodeName :: "string \<Rightarrow> string \<Rightarrow> catalog \<Rightarrow> catalog" where
  "setNodeName i name = updateNode i (\<lambda>n. n\<lparr>ndName := name\<rparr>)"

definition setNodeRevoked :: "string \<Rightarrow> int \<Rightarrow> catalog \<Rightarrow> catalog" where
  "setNodeRevoked i now = updateNode i (\<lambda>n. n\<lparr>ndRevokedAt := Some (orElse (ndRevokedAt n) now)\<rparr>)"

definition setNodeRemoved :: "string \<Rightarrow> int \<Rightarrow> catalog \<Rightarrow> catalog" where
  "setNodeRemoved i now = updateNode i (\<lambda>n. n\<lparr>ndRemovedAt := Some (orElse (ndRemovedAt n) now)\<rparr>)"

definition insertPairingGrant :: "string \<Rightarrow> string option \<Rightarrow> int \<Rightarrow> int \<Rightarrow> catalog \<Rightarrow> dbError + nat \<times> catalog" where
  "insertPairingGrant code name created expires ct =
     (if list_ex (\<lambda>g. gtCode g = code) (ctGrants ct) then Inl (UniqueFails ''node_pairing_grants.code_sha256'')
      else (let i = nextRowid gtId (ctGrants ct)
            in Inr (i, ct\<lparr>ctGrants := ctGrants ct @ [\<lparr>gtId = i, gtCode = code, gtName = name, gtCreatedAt = created,
                 gtExpiresAt = expires, gtConsumedAt = None, gtNode = None\<rparr>]\<rparr>)))"

definition redeemable :: "string \<Rightarrow> int \<Rightarrow> grantRecord \<Rightarrow> bool" where
  "redeemable code now g = (gtCode g = code \<and> gtConsumedAt g = None \<and> now < gtExpiresAt g)"

definition consumePairingGrant :: "string \<Rightarrow> int \<Rightarrow> catalog \<Rightarrow> (nat \<times> string option) option \<times> catalog" where
  "consumePairingGrant code now ct =
     (map_option (\<lambda>g. (gtId g, gtName g)) (find (redeemable code now) (ctGrants ct)),
      ct\<lparr>ctGrants := updateRows (redeemable code now) (\<lambda>g. g\<lparr>gtConsumedAt := Some now\<rparr>) (ctGrants ct)\<rparr>)"

definition setPairingGrantNode :: "nat \<Rightarrow> string \<Rightarrow> catalog \<Rightarrow> catalog" where
  "setPairingGrantNode i node ct = ct\<lparr>ctGrants := updateRows (\<lambda>g. gtId g = i) (\<lambda>g. g\<lparr>gtNode := Some node\<rparr>) (ctGrants ct)\<rparr>"

subsection \<open>Projects\<close>

definition listProjects :: "catalog \<Rightarrow> projectRecord list" where
  "listProjects ct = sort_key (\<lambda>p. - pjOpenedAt p) (ctProjects ct)"

definition insertProject :: "string \<Rightarrow> string \<Rightarrow> nat \<Rightarrow> int \<Rightarrow> catalog \<Rightarrow> dbError + projectRecord \<times> catalog" where
  "insertProject name base source now ct =
     (if getSource ct source = None then Inl ForeignKeyFails
      else (let p = \<lparr>pjId = Suc (ctLastProject ct), pjName = name, pjBaseBranch = base, pjDefaultSource = Some source,
              pjCreatedAt = now, pjOpenedAt = now\<rparr>
            in Inr (p, ct\<lparr>ctProjects := ctProjects ct @ [p], ctLastProject := Suc (ctLastProject ct)\<rparr>)))"

definition updateProject :: "nat \<Rightarrow> string option \<Rightarrow> string option \<Rightarrow> nat option \<Rightarrow> catalog \<Rightarrow> dbError + projectRecord option \<times> catalog" where
  "updateProject i name base source ct =
     (case getProject ct i of
        None \<Rightarrow> Inr (None, ct)
      | Some existing \<Rightarrow>
          (let src = (case source of None \<Rightarrow> pjDefaultSource existing | Some s \<Rightarrow> Some s);
               ct' = ct\<lparr>ctProjects := updateRows (\<lambda>p. pjId p = i)
                 (\<lambda>p. p\<lparr>pjName := orElse name (pjName existing), pjBaseBranch := orElse base (pjBaseBranch existing), pjDefaultSource := src\<rparr>)
                 (ctProjects ct)\<rparr>
           in if src \<noteq> None \<and> getSource ct (the src) = None then Inl ForeignKeyFails else Inr (getProject ct' i, ct')))"

definition touchProject :: "nat \<Rightarrow> int \<Rightarrow> catalog \<Rightarrow> catalog" where
  "touchProject i now ct = ct\<lparr>ctProjects := updateRows (\<lambda>p. pjId p = i) (\<lambda>p. p\<lparr>pjOpenedAt := now\<rparr>) (ctProjects ct)\<rparr>"

text \<open>Deleting sessions leaves their children, without a parent; deleting tasks or a project takes their sessions along.\<close>

definition removeSessions :: "(sessionRecord \<Rightarrow> bool) \<Rightarrow> catalog \<Rightarrow> catalog" where
  "removeSessions P ct =
     (let gone = map ssId (filter P (ctSessions ct))
      in ct\<lparr>ctSessions := updateRows (\<lambda>s. \<exists>p\<in>set gone. ssParent s = Some p) (\<lambda>s. s\<lparr>ssParent := None\<rparr>)
               (filter (\<lambda>s. \<not> P s) (ctSessions ct))\<rparr>)"

definition deleteProject :: "nat \<Rightarrow> catalog \<Rightarrow> bool \<times> catalog" where
  "deleteProject i ct =
     (let tasks = map tkId (filter (\<lambda>t. tkProject t = i) (ctTasks ct));
          ct1 = removeSessions (\<lambda>s. ssProject s = Some i \<or> (\<exists>t\<in>set tasks. ssTask s = Some t)) ct
      in (getProject ct i \<noteq> None,
          ct1\<lparr>ctTasks := filter (\<lambda>t. tkProject t \<noteq> i) (ctTasks ct), ctProjects := filter (\<lambda>p. pjId p \<noteq> i) (ctProjects ct)\<rparr>))"

subsection \<open>Tasks\<close>

datatype taskStatus = TaskOpen | TaskClosed

definition statusOf :: "taskRecord \<Rightarrow> taskStatus" where
  "statusOf t = (if tkClosedAt t = None then TaskOpen else TaskClosed)"

definition getTask :: "catalog \<Rightarrow> nat \<Rightarrow> taskRecord option" where
  "getTask ct i = rowWith tkId i (ctTasks ct)"

definition insertTask :: "nat \<Rightarrow> string \<Rightarrow> string option \<Rightarrow> string \<Rightarrow> string option \<Rightarrow> int \<Rightarrow> catalog \<Rightarrow> dbError + taskRecord \<times> catalog" where
  "insertTask project title description branch base now ct =
     (if getProject ct project = None then Inl ForeignKeyFails
      else (let t = \<lparr>tkId = Suc (ctLastTask ct), tkProject = project, tkTitle = title, tkDescription = description, tkBranch = branch,
              tkBaseCommit = base, tkCreatedAt = now, tkUpdatedAt = now, tkClosedAt = None\<rparr>
            in Inr (t, ct\<lparr>ctTasks := ctTasks ct @ [t], ctLastTask := Suc (ctLastTask ct)\<rparr>)))"

definition projectHasTaskBranch :: "catalog \<Rightarrow> nat \<Rightarrow> string \<Rightarrow> bool" where
  "projectHasTaskBranch ct project branch = list_ex (\<lambda>t. tkProject t = project \<and> tkBranch t = branch) (ctTasks ct)"

definition updateTaskRow :: "nat \<Rightarrow> (taskRecord \<Rightarrow> taskRecord) \<Rightarrow> catalog \<Rightarrow> catalog" where
  "updateTaskRow i g ct = ct\<lparr>ctTasks := updateRows (\<lambda>t. tkId t = i) g (ctTasks ct)\<rparr>"

definition updateTask :: "nat \<Rightarrow> string option \<Rightarrow> string option option \<Rightarrow> string option option \<Rightarrow> int \<Rightarrow> catalog \<Rightarrow> taskRecord option \<times> catalog" where
  "updateTask i title description base now ct =
     (case getTask ct i of
        None \<Rightarrow> (None, ct)
      | Some existing \<Rightarrow>
          (let ct' = updateTaskRow i (\<lambda>t. t\<lparr>tkTitle := orElse title (tkTitle existing),
                 tkDescription := orElse description (tkDescription existing),
                 tkBaseCommit := orElse base (tkBaseCommit existing), tkUpdatedAt := now\<rparr>) ct
           in (getTask ct' i, ct')))"

definition touchTask :: "nat \<Rightarrow> int \<Rightarrow> catalog \<Rightarrow> catalog" where
  "touchTask i now = updateTaskRow i (\<lambda>t. t\<lparr>tkUpdatedAt := now\<rparr>)"

definition setTaskStatus :: "nat \<Rightarrow> taskStatus \<Rightarrow> int \<Rightarrow> catalog \<Rightarrow> taskRecord option \<times> catalog" where
  "setTaskStatus i status now ct =
     (if getTask ct i = None then (None, ct)
      else (let ct' = updateTaskRow i (\<lambda>t. t\<lparr>tkUpdatedAt := now,
              tkClosedAt := (if status = TaskClosed then Some (orElse (tkClosedAt t) now) else None)\<rparr>) ct
            in (getTask ct' i, ct')))"

definition deleteTaskRow :: "nat \<Rightarrow> catalog \<Rightarrow> bool \<times> catalog" where
  "deleteTaskRow i ct =
     (if getTask ct i = None then (False, ct)
      else (let ct1 = removeSessions (\<lambda>s. ssTask s = Some i) ct
            in (True, ct1\<lparr>ctTasks := filter (\<lambda>t. tkId t \<noteq> i) (ctTasks ct1)\<rparr>)))"

definition getTaskSessionIds :: "catalog \<Rightarrow> nat \<Rightarrow> string list" where
  "getTaskSessionIds ct i = map ssId (filter (\<lambda>s. ssTask s = Some i) (ctSessions ct))"

text \<open>A listed task with its sessions (background ones left out). \<open>LIKE\<close> is the database's.\<close>

record taskListItem =
  tliTask :: taskRecord
  tliStatus :: taskStatus
  tliSessions :: "string list"

definition listTasks :: "(string \<Rightarrow> string \<Rightarrow> bool) \<Rightarrow> catalog \<Rightarrow> nat \<Rightarrow> taskStatus option \<Rightarrow> string option \<Rightarrow> nat option \<Rightarrow> nat \<Rightarrow> taskListItem list" where
  "listTasks like ct project status search n offset =
     (let term = trimStr (orElse search []); pattern = ''%'' @ term @ ''%'';
          rows = filter (\<lambda>t. tkProject t = project \<and> (case status of None \<Rightarrow> True | Some st \<Rightarrow> statusOf t = st) \<and>
              (term = [] \<or> like pattern (tkTitle t) \<or> (case tkDescription t of None \<Rightarrow> False | Some d \<Rightarrow> like pattern d))) (ctTasks ct)
      in map (\<lambda>t. \<lparr>tliTask = t, tliStatus = statusOf t,
             tliSessions = map ssId (filter (\<lambda>s. ssTask s = Some (tkId t) \<and> \<not> ssBackground s) (ctSessions ct))\<rparr>)
           (limited n offset (sort_key (\<lambda>t. (tkClosedAt t \<noteq> None, - tkUpdatedAt t)) rows)))"

subsection \<open>Sessions\<close>

definition sessionRow :: "catalog \<Rightarrow> string \<Rightarrow> sessionRecord option" where
  "sessionRow ct i = rowWith ssId i (ctSessions ct)"

text \<open>The row of \<open>createSession\<close>'s \<open>INSERT\<close>; what its statement leaves out is the column's default.\<close>

record sessionInsert =
  siProvider :: "string option"
  siModel :: "string option"
  siThinking :: "string option"
  siRuntime :: string
  siTask :: "nat option"
  siParent :: "string option"
  siSource :: nat
  siBackground :: bool
  siKind :: "string option"
  siExtension :: "string option"

definition insertedRow :: "string \<Rightarrow> nat option \<Rightarrow> sessionInsert \<Rightarrow> int \<Rightarrow> sessionRecord" where
  "insertedRow i project opts now =
     \<lparr>ssId = i, ssProject = project, ssSource = siSource opts, ssName = None, ssCreatedAt = now, ssUpdatedAt = now,
      ssProvider = siProvider opts, ssModel = siModel opts, ssThinking = orElse (siThinking opts) ''off'', ssRuntime = siRuntime opts,
      ssTask = siTask opts, ssParent = siParent opts, ssActivity = None, ssPinnedAt = None, ssArchivedAt = None,
      ssBackground = siBackground opts, ssKind = orElse (siKind opts) ''agent'', ssExtension = siExtension opts\<rparr>"

definition insertSession :: "string \<Rightarrow> nat option \<Rightarrow> sessionInsert \<Rightarrow> int \<Rightarrow> catalog \<Rightarrow> dbError + catalog" where
  "insertSession i project opts now ct =
     (if sessionRow ct i \<noteq> None then Inl (UniqueFails ''sessions.id'')
      else if siTask opts \<noteq> None \<and> project = None then Inl CheckFails
      else if (project \<noteq> None \<and> getProject ct (the project) = None) \<or> (siTask opts \<noteq> None \<and> getTask ct (the (siTask opts)) = None) \<or>
              (siParent opts \<noteq> None \<and> sessionRow ct (the (siParent opts)) = None) \<or> getSource ct (siSource opts) = None
           then Inl ForeignKeyFails
      else Inr (ct\<lparr>ctSessions := ctSessions ct @ [insertedRow i project opts now]\<rparr>))"

definition changeSession :: "string \<Rightarrow> (sessionRecord \<Rightarrow> sessionRecord) \<Rightarrow> catalog \<Rightarrow> catalog" where
  "changeSession i g ct = ct\<lparr>ctSessions := updateRows (\<lambda>s. ssId s = i) g (ctSessions ct)\<rparr>"

definition deleteSession :: "string \<Rightarrow> catalog \<Rightarrow> catalog" where
  "deleteSession i = removeSessions (\<lambda>s. ssId s = i)"

text \<open>Of the rows with the latest \<open>updated_at\<close>, the last inserted one.\<close>

definition latestTaskSession :: "catalog \<Rightarrow> nat \<Rightarrow> sessionRecord option" where
  "latestTaskSession ct task =
     (case sort_key ssUpdatedAt (filter (\<lambda>s. ssTask s = Some task) (ctSessions ct)) of [] \<Rightarrow> None | rows \<Rightarrow> Some (List.last rows))"

record metadataUpdates =
  muName :: "string option option"
  muPinned :: "bool option"
  muArchived :: "bool option"

definition stampOrClear :: "bool option \<Rightarrow> int \<Rightarrow> int option \<Rightarrow> int option" where
  "stampOrClear change now stored = (case change of None \<Rightarrow> stored | Some True \<Rightarrow> Some (orElse stored now) | Some False \<Rightarrow> None)"

definition nameOrNull :: "string option \<Rightarrow> string option" where
  "nameOrNull name = (case name of None \<Rightarrow> None | Some n \<Rightarrow> if trimStr n = [] then None else Some (trimStr n))"

definition updateSessionMetadata :: "string \<Rightarrow> metadataUpdates \<Rightarrow> int \<Rightarrow> catalog \<Rightarrow> bool \<times> catalog" where
  "updateSessionMetadata i u now ct =
     (if sessionRow ct i = None then (False, ct)
      else (True, changeSession i (\<lambda>s. s\<lparr>ssName := (case muName u of None \<Rightarrow> ssName s | Some n \<Rightarrow> nameOrNull n),
              ssPinnedAt := stampOrClear (muPinned u) now (ssPinnedAt s),
              ssArchivedAt := stampOrClear (muArchived u) now (ssArchivedAt s)\<rparr>) ct))"

record metaUpdates =
  meName :: "string option"
  meProvider :: "string option"
  meModel :: "string option"
  meThinking :: "string option"
  meRuntime :: "string option"

definition updateSessionMeta :: "string \<Rightarrow> metaUpdates \<Rightarrow> int \<Rightarrow> catalog \<Rightarrow> catalog" where
  "updateSessionMeta i u now ct =
     (case sessionRow ct i of
        None \<Rightarrow> ct
      | Some row \<Rightarrow> changeSession i (\<lambda>s. s\<lparr>ssName := (case meName u of None \<Rightarrow> ssName row | n \<Rightarrow> n),
             ssProvider := (case meProvider u of None \<Rightarrow> ssProvider row | p \<Rightarrow> p), ssModel := (case meModel u of None \<Rightarrow> ssModel row | m \<Rightarrow> m),
             ssThinking := orElse (meThinking u) (ssThinking row), ssRuntime := orElse (meRuntime u) (ssRuntime row), ssUpdatedAt := now\<rparr>) ct)"

text \<open>Only the unread flag is stored: \<open>True\<close> for \<open>finished\<close>.\<close>

definition storeActivity :: "string \<Rightarrow> bool \<Rightarrow> catalog \<Rightarrow> bool \<times> catalog" where
  "storeActivity i unread ct =
     (if sessionRow ct i = None then (False, ct)
      else (True, changeSession i (\<lambda>s. s\<lparr>ssActivity := (if unread then Some ActivityFinished else None)\<rparr>) ct))"

definition clearFinishedActivityForTasks :: "nat list \<Rightarrow> catalog \<Rightarrow> string list \<times> catalog" where
  "clearFinishedActivityForTasks tasks ct =
     (let hit = (\<lambda>s. (\<exists>t\<in>set tasks. ssTask s = Some t) \<and> ssActivity s = Some ActivityFinished);
          ids = map ssId (filter hit (ctSessions ct))
      in (sort_key (map (of_char :: char \<Rightarrow> nat)) ids,
          ct\<lparr>ctSessions := updateRows (\<lambda>s. ssId s \<in> set ids) (\<lambda>s. s\<lparr>ssActivity := None\<rparr>) (ctSessions ct)\<rparr>))"

definition sessionIdsInProject :: "catalog \<Rightarrow> nat \<Rightarrow> string list" where
  "sessionIdsInProject ct p = map ssId (filter (\<lambda>s. ssProject s = Some p) (ctSessions ct))"

end
