(* ===== verification/Checkout_Paths.thy ===== *)
theory Checkout_Paths
  imports Reins_Prelude "HOL-Library.Product_Lexorder" "HOL-Library.Sublist"
begin

text \<open>
  Paths of a checkout: \<^verbatim>\<open>packages/backend/src/models/sources.ts\<close>, over the POSIX functions of Node's \<open>path\<close> module
  (\<open>normalize\<close>, \<open>resolve\<close>, \<open>relative\<close>, \<open>join\<close>, \<open>basename\<close>), which are written out on the segments between
  slashes. The process's own directory (which \<open>resolve\<close> falls back on), the node's answers and the collation of
  names are inputs.
\<close>

subsection \<open>POSIX paths\<close>

definition slashC :: char where "slashC = CHR ''/''"

definition isAbsolutePath :: "string \<Rightarrow> bool" where
  "isAbsolutePath s = startsWith s [slashC]"

text \<open>\<open>normalizeString\<close>: empty segments and \<open>.\<close> go, \<open>..\<close> takes the segment before it, and at the root it stays only
  where a relative path may go up it. The segments so far are in reverse.\<close>

fun normSegs :: "bool \<Rightarrow> string list \<Rightarrow> string list \<Rightarrow> string list" where
  "normSegs up acc [] = rev acc"
| "normSegs up acc (s # ss) =
     (if s = [] \<or> s = ''.'' then normSegs up acc ss
      else if s = ''..'' then
        (case acc of
           a # rest \<Rightarrow> if a \<noteq> ''..'' then normSegs up rest ss
                       else if up then normSegs up (s # acc) ss else normSegs up acc ss
         | [] \<Rightarrow> if up then normSegs up [s] ss else normSegs up [] ss)
      else normSegs up (s # acc) ss)"

definition pathNames :: "string \<Rightarrow> string list" where
  "pathNames s = normSegs False [] (splitOn slashC s)"

definition absolutePath :: "string list \<Rightarrow> string" where
  "absolutePath ns = slashC # joinWith [slashC] ns"

definition normalizePath :: "string \<Rightarrow> string" where
  "normalizePath s =
     (let absolute = isAbsolutePath s;
          trailing = endsWith s [slashC];
          body = joinWith [slashC] (normSegs (\<not> absolute) [] (splitOn slashC s))
      in if s = [] then ''.''
         else if body = [] then (if absolute then [slashC] else if trailing then ''./'' else ''.'')
         else (if absolute then [slashC] else []) @ body @ (if trailing then [slashC] else []))"

definition resolvePath :: "string \<Rightarrow> string \<Rightarrow> string \<Rightarrow> string" where
  "resolvePath process cwd p =
     absolutePath (pathNames
       (if isAbsolutePath p then p
        else if isAbsolutePath cwd then cwd @ slashC # p
        else process @ slashC # cwd @ slashC # p))"

fun commonNames :: "string list \<Rightarrow> string list \<Rightarrow> nat" where
  "commonNames (a # as) (b # bs) = (if a = b then Suc (commonNames as bs) else 0)"
| "commonNames _ _ = 0"

definition relativePath :: "string \<Rightarrow> string \<Rightarrow> string \<Rightarrow> string" where
  "relativePath process from to =
     (let f = pathNames (resolvePath process process from); t = pathNames (resolvePath process process to); n = commonNames f t
      in joinWith [slashC] (replicate (length f - n) ''..'' @ drop n t))"

definition basenamePath :: "string \<Rightarrow> string" where
  "basenamePath s = List.last (splitOn slashC (rev (dropWhile (\<lambda>c. c = slashC) (rev s))))"

definition joinPath :: "string \<Rightarrow> string \<Rightarrow> string" where
  "joinPath a b =
     (let parts = filter (\<lambda>p. p \<noteq> []) [a, b] in if parts = [] then ''.'' else normalizePath (joinWith [slashC] parts))"

subsection \<open>A source's path, and what is in its checkout\<close>

datatype pathError =
    CheckoutNotFound string
  | PathTraversal
  | FileNotFound string
  | NoFiles
  | InvalidFilename string
  | FileWriteRefused string
  | NodeFails string

definition sourcePath :: "string \<Rightarrow> pathError + string" where
  "sourcePath p =
     (let trimmed = trimStr p
      in if \<not> isAbsolutePath trimmed then Inl (CheckoutNotFound (''A source's path must be absolute: '' @ trimmed))
         else (let normalized = normalizePath trimmed
               in Inr (if 1 < length normalized \<and> endsWith normalized [slashC] then butlast normalized else normalized)))"

definition withinCheckout :: "string \<Rightarrow> string \<Rightarrow> string \<Rightarrow> string option" where
  "withinCheckout process cwd p =
     (let resolved = resolvePath process cwd p; fromRoot = relativePath process cwd resolved
      in if fromRoot = ''..'' \<or> startsWith fromRoot ''../'' \<or> isAbsolutePath fromRoot then None else Some resolved)"

subsection \<open>Listing a directory\<close>

datatype entryKind = EntryFile | EntryDirectory | EntrySymlink

record directoryEntry =
  deName :: string
  deKind :: entryKind

datatype nodeListing =
    Listed "directoryEntry list"
  | ListingRefused string string
  | ListingFails string

definition listDirectory :: "(string \<Rightarrow> 'k::linorder) \<Rightarrow> (string \<Rightarrow> nodeListing) \<Rightarrow> string \<Rightarrow> string \<Rightarrow> string \<Rightarrow>
    pathError + directoryEntry list" where
  "listDirectory collate node process cwd sub =
     (case withinCheckout process cwd sub of
        None \<Rightarrow> Inl PathTraversal
      | Some path \<Rightarrow>
          (case node path of
             Listed entries \<Rightarrow>
               Inr (sort_key (\<lambda>e. (deKind e \<noteq> EntryDirectory, collate (deName e))) (filter (\<lambda>e. deKind e \<noteq> EntrySymlink) entries))
           | ListingRefused code msg \<Rightarrow>
               if code = ''not_found'' \<or> code = ''not_directory'' then Inl (FileNotFound ''Directory not found'') else Inl (NodeFails msg)
           | ListingFails msg \<Rightarrow> Inl (NodeFails msg)))"

definition assertCheckoutExists :: "(string \<Rightarrow> 'k::linorder) \<Rightarrow> (string \<Rightarrow> nodeListing) \<Rightarrow> string \<Rightarrow> string \<Rightarrow> pathError option" where
  "assertCheckoutExists collate node process cwd =
     (case listDirectory collate node process cwd ''.'' of
        Inr _ \<Rightarrow> None
      | Inl (FileNotFound _) \<Rightarrow> Some (CheckoutNotFound (''Directory does not exist: '' @ cwd))
      | Inl e \<Rightarrow> Some e)"

subsection \<open>Uploading files\<close>

text \<open>What the node answers to a file written at a path: nothing, its refusal, or another failure. The paths that were
  sent to the node come back with the result.\<close>

datatype uploadAnswer = Written | WriteRefused string | WriteFails string

definition writeFile :: "(string \<Rightarrow> uploadAnswer) \<Rightarrow> string \<Rightarrow> string \<Rightarrow> string \<Rightarrow> pathError + string" where
  "writeFile node process cwd path =
     (case withinCheckout process cwd path of
        None \<Rightarrow> Inl (FileWriteRefused (''Path traversal not allowed: '' @ path))
      | Some f \<Rightarrow>
          if f = resolvePath process cwd [] then Inl (FileWriteRefused (''Not a file path: '' @ path))
          else (case node f of
                  Written \<Rightarrow> Inr f
                | WriteRefused m \<Rightarrow> Inl (FileWriteRefused (''Cannot write '' @ path @ '': '' @ m))
                | WriteFails m \<Rightarrow> Inl (NodeFails m)))"

definition uploadPath :: "string \<Rightarrow> string \<Rightarrow> pathError + string" where
  "uploadPath sub name =
     (let safe = basenamePath name
      in if safe = [] \<or> safe = ''.'' \<or> safe = ''..'' then Inl (InvalidFilename (''Invalid filename: '' @ name))
         else Inr (if sub \<noteq> [] then joinPath sub safe else safe))"

fun writeEach :: "(string \<Rightarrow> uploadAnswer) \<Rightarrow> string \<Rightarrow> string \<Rightarrow> string \<Rightarrow> string list \<Rightarrow> string list \<times> (pathError + string list)" where
  "writeEach node process cwd sub [] = ([], Inr [])"
| "writeEach node process cwd sub (name # rest) =
     (case uploadPath sub name of
        Inl e \<Rightarrow> ([], Inl e)
      | Inr path \<Rightarrow>
          (case writeFile node process cwd path of
             Inl e \<Rightarrow> ([], Inl e)
           | Inr f \<Rightarrow>
               (case writeEach node process cwd sub rest of
                  (fs, Inl e) \<Rightarrow> (f # fs, Inl e)
                | (fs, Inr uploaded) \<Rightarrow> (f # fs, Inr (path # uploaded)))))"

definition writeFiles :: "(string \<Rightarrow> uploadAnswer) \<Rightarrow> string \<Rightarrow> string \<Rightarrow> string list \<Rightarrow> string \<Rightarrow> string list \<times> (pathError + string list)" where
  "writeFiles node process cwd names sub =
     (if names = [] then ([], Inl NoFiles) else writeEach node process cwd sub names)"

end
