(* ===== verification/Session_Catalog.thy ===== *)
theory Session_Catalog
  imports Catalog_Tables Checkout_Paths Live_Runtimes Skill_Text
begin

text \<open>
  What the server does with its catalog: \<^verbatim>\<open>packages/backend/src/sessions/create-session.ts\<close>, \<open>session-ownership.ts\<close>,
  the activity and listings of \<open>session-store.ts\<close>, and the models \<open>sessions.ts\<close>, \<open>tasks.ts\<close>, \<open>projects.ts\<close>,
  \<open>nodes.ts\<close>, \<open>node.ts\<close>, \<open>node-pairing.ts\<close> and \<open>sources.ts\<close> (\<open>ensureSource\<close>). The server's state is its catalog, the
  process's open sessions and the broadcasts sent. An operation that awaits takes what happens meanwhile as a
  function \<open>later\<close> of that state, so that anything may come between a check and what follows it. The models' catalog,
  the node's answers, new IDs and the clock are inputs.
\<close>

subsection \<open>The process's sessions and a session's activity\<close>

record processSessions =
  psOpen :: openSessions
  psSubmissions :: "(string, nat) jsmap"
  psBusy :: "nat \<Rightarrow> bool"
  psPending :: "string \<Rightarrow> bool"

definition sessionBusy :: "processSessions \<Rightarrow> string \<Rightarrow> bool" where
  "sessionBusy ps i =
     (jmHas (psSubmissions ps) i \<or>
      (case jmGet (osLive (psOpen ps)) i of None \<Rightarrow> False | Some e \<Rightarrow> psBusy ps (oeRuntime e)) \<or>
      (jmHas (osOpening (psOpen ps)) i \<and> psPending ps i))"

definition liveActivityState :: "processSessions option \<Rightarrow> string \<Rightarrow> activityValue option \<Rightarrow> activityValue option" where
  "liveActivityState ps i stored = (case ps of None \<Rightarrow> stored | Some p \<Rightarrow> if sessionBusy p i then Some ActivityRunning else stored)"

definition withLiveActivity :: "processSessions option \<Rightarrow> sessionRecord \<Rightarrow> sessionRecord" where
  "withLiveActivity ps row = row\<lparr>ssActivity := liveActivityState ps (ssId row) (ssActivity row)\<rparr>"

fun withoutRepeats :: "'a list \<Rightarrow> 'a list \<Rightarrow> 'a list" where
  "withoutRepeats acc [] = acc"
| "withoutRepeats acc (x # xs) = withoutRepeats (if x \<in> set acc then acc else acc @ [x]) xs"

definition runningSessionIds :: "processSessions \<Rightarrow> string list" where
  "runningSessionIds ps =
     filter (sessionBusy ps) (withoutRepeats [] (map fst (psSubmissions ps) @ map fst (osOpening (psOpen ps)) @ map fst (osLive (psOpen ps))))"

definition getSession :: "processSessions option \<Rightarrow> catalog \<Rightarrow> string \<Rightarrow> sessionRecord option" where
  "getSession ps ct i = map_option (withLiveActivity ps) (sessionRow ct i)"

definition sessionRunning :: "processSessions \<Rightarrow> sessionRecord \<Rightarrow> bool" where
  "sessionRunning ps row = (ssActivity row = Some ActivityRunning \<or> sessionBusy ps (ssId row))"

definition listSessionsWithActivity :: "processSessions option \<Rightarrow> catalog \<Rightarrow> (string \<times> activityValue \<times> nat option \<times> nat option) list" where
  "listSessionsWithActivity ps ct =
     (let running = (case ps of None \<Rightarrow> [] | Some p \<Rightarrow> runningSessionIds p);
          rows = filter (\<lambda>s. \<not> ssBackground s \<and> (ssActivity s \<noteq> None \<or> ssId s \<in> set running)) (ctSessions ct)
      in concat (map (\<lambda>s. case liveActivityState ps (ssId s) (ssActivity s) of
                            None \<Rightarrow> [] | Some a \<Rightarrow> [(ssId s, a, ssProject s, ssTask s)]) rows))"

subsection \<open>Listing sessions\<close>

datatype projectScope = ScopeUnset | ScopeNone | ScopeAny | ScopeProject nat
datatype rowChoice = RowsExcluded | RowsOnly | RowsIncluded
datatype listOrder = OrderUpdated | OrderLatest | OrderArchived

record listOptions =
  loProject :: projectScope
  loSource :: "nat option"
  loTask :: "nat option option"
  loIncludeTasks :: bool
  loSince :: "int option"
  loLimit :: "nat option"
  loOffset :: nat
  loSearch :: "string option"
  loOrder :: listOrder
  loMinMessages :: "nat option"
  loArchived :: rowChoice
  loBackground :: rowChoice

text \<open>What the joined queries give: a session's counted messages, the text of its first input, and whether a message of
  it matches a pattern.\<close>

record messageFacts =
  mfCount :: "string \<Rightarrow> nat"
  mfFirst :: "string \<Rightarrow> string option"
  mfMatches :: "string \<Rightarrow> string \<Rightarrow> bool"

record listedSession =
  lsRow :: sessionRecord
  lsCount :: nat
  lsFirst :: "string option"

definition chosenRows :: "rowChoice \<Rightarrow> bool \<Rightarrow> bool" where
  "chosenRows c marked = (case c of RowsOnly \<Rightarrow> marked | RowsIncluded \<Rightarrow> True | RowsExcluded \<Rightarrow> \<not> marked)"

definition listedRow :: "(string \<Rightarrow> string \<Rightarrow> bool) \<Rightarrow> messageFacts \<Rightarrow> catalog \<Rightarrow> listOptions \<Rightarrow> sessionRecord \<Rightarrow> bool" where
  "listedRow like mf ct opts s =
     ((case loProject opts of ScopeNone \<Rightarrow> ssProject s = None | ScopeProject p \<Rightarrow> ssProject s = Some p | _ \<Rightarrow> True) \<and>
      (case loSource opts of None \<Rightarrow> True | Some src \<Rightarrow> ssSource s = src) \<and>
      (case loTask opts of
         Some None \<Rightarrow> ssTask s = None
       | Some (Some t) \<Rightarrow> ssTask s = Some t
       | None \<Rightarrow> loIncludeTasks opts \<or> ssTask s = None) \<and>
      chosenRows (loArchived opts) (ssArchivedAt s \<noteq> None) \<and>
      chosenRows (loBackground opts) (ssBackground s) \<and>
      (case loSince opts of None \<Rightarrow> True | Some t \<Rightarrow> t \<le> ssUpdatedAt s) \<and>
      (let term = trimStr (orElse (loSearch opts) []); pattern = ''%'' @ term @ ''%''
       in term = [] \<or> like pattern (ssId s) \<or> (case ssName s of None \<Rightarrow> False | Some n \<Rightarrow> like pattern n) \<or>
          (case Option.bind (ssTask s) (getTask ct) of None \<Rightarrow> False | Some t \<Rightarrow> like pattern (tkTitle t)) \<or> mfMatches mf (ssId s) pattern) \<and>
      (case loMinMessages opts of None \<Rightarrow> True | Some n \<Rightarrow> n \<le> mfCount mf (ssId s)))"

definition orderSessions :: "listOrder \<Rightarrow> sessionRecord list \<Rightarrow> sessionRecord list" where
  "orderSessions order rows =
     (case order of
        OrderArchived \<Rightarrow> sort_key (\<lambda>s. (ssArchivedAt s = None, - orElse (ssArchivedAt s) 0, - ssUpdatedAt s)) rows
      | OrderLatest \<Rightarrow> rev (sort_key (\<lambda>s. (ssUpdatedAt s, ssCreatedAt s, map (of_char :: char \<Rightarrow> nat) (ssId s))) rows)
      | OrderUpdated \<Rightarrow> sort_key (\<lambda>s. (ssPinnedAt s = None, - ssUpdatedAt s)) rows)"

definition listSessions :: "(string \<Rightarrow> string \<Rightarrow> bool) \<Rightarrow> messageFacts \<Rightarrow> processSessions option \<Rightarrow> listOptions \<Rightarrow> catalog \<Rightarrow>
    string + listedSession list" where
  "listSessions like mf ps opts ct =
     (if loProject opts = ScopeUnset \<and> loSource opts = None \<and> (loTask opts = None \<or> loTask opts = Some None)
      then Inl ''projectId, sourceId or numeric taskId must be provided''
      else Inr (map (\<lambda>s. \<lparr>lsRow = withLiveActivity ps s, lsCount = mfCount mf (ssId s),
                  lsFirst = map_option stripLeadingSkillBlocks (mfFirst mf (ssId s))\<rparr>)
             (limited (loLimit opts) (loOffset opts)
               (orderSessions (loOrder opts) (filter (listedRow like mf ct opts) (ctSessions ct))))))"

subsection \<open>The server's state\<close>

datatype catalogError =
    SessionCreationRefused string
  | SourceNotFound string
  | NodeNotFound string
  | PathFails pathError
  | ProjectNotFound nat
  | TaskNotFound
  | TaskHasActiveSessions nat
  | SessionNotFound string
  | SessionMoveConflict
  | NodeNotPaired string string
  | NodeRemoved string
  | NodeRevoked string
  | InvalidNodeName
  | InvalidPairingCode
  | InvalidPublicKey
  | PublicKeyInUse
  | RuntimeFails string
  | DbFails dbError
  | PlainFails string

datatype catalogEvent =
    SessionCreated string "nat option" "nat option" "string option"
  | SessionUpdated string "nat option"
  | TaskUpdated nat
  | NodeUpdated string "nat option"
  | NodeGone string

record serverState =
  stCatalog :: catalog
  stSessions :: processSessions
  stEvents :: "catalogEvent list"

type_synonym 'a catalogResult = "(catalogError + 'a) \<times> serverState"

definition broadcast :: "catalogEvent list \<Rightarrow> serverState \<Rightarrow> serverState" where
  "broadcast es st = st\<lparr>stEvents := stEvents st @ es\<rparr>"

definition liveSession :: "serverState \<Rightarrow> string \<Rightarrow> sessionRecord option" where
  "liveSession st = getSession (Some (stSessions st)) (stCatalog st)"

definition closeRuntimes :: "string list \<Rightarrow> serverState \<Rightarrow> serverState" where
  "closeRuntimes ids st = st\<lparr>stSessions := (stSessions st)\<lparr>psOpen := fold closeSessionRuntime ids (psOpen (stSessions st))\<rparr>\<rparr>"

subsection \<open>The nodes' sources in use\<close>

definition sourceInUse :: "catalog \<Rightarrow> nat \<Rightarrow> bool" where
  "sourceInUse ct src = (list_ex (\<lambda>s. ssSource s = src) (ctSessions ct) \<or> list_ex (\<lambda>p. pjDefaultSource p = Some src) (ctProjects ct))"

definition projectsUsing :: "catalog \<Rightarrow> nat \<Rightarrow> (nat \<times> string) list" where
  "projectsUsing ct src =
     map (\<lambda>p. (pjId p, pjName p))
       (sort_key (\<lambda>p. (map (of_char :: char \<Rightarrow> nat) (pjName p), pjId p))
         (filter (\<lambda>p. pjDefaultSource p = Some src \<or> list_ex (\<lambda>s. ssSource s = src \<and> ssProject s = Some (pjId p)) (ctSessions ct)) (ctProjects ct)))"

definition listSourcesOnNode :: "catalog \<Rightarrow> string \<Rightarrow> (nat \<times> string \<times> (nat \<times> string) list) list" where
  "listSourcesOnNode ct node =
     map (\<lambda>s. (soId s, soPath s, projectsUsing ct (soId s)))
       (sort_key (\<lambda>s. (map (of_char :: char \<Rightarrow> nat) (soPath s), soId s))
         (filter (\<lambda>s. soNode s = node \<and> sourceInUse ct (soId s)) (ctSources ct)))"

definition publishNode :: "string \<Rightarrow> nat option \<Rightarrow> serverState \<Rightarrow> serverState" where
  "publishNode i code st =
     (case getNode (stCatalog st) i of
        None \<Rightarrow> broadcast [NodeGone i] st
      | Some row \<Rightarrow> broadcast [if ndRemovedAt row \<noteq> None then NodeGone i else NodeUpdated i code] st)"

text \<open>\<open>watchSources\<close> before a change and \<open>publishChanged\<close> after it.\<close>

definition publishChanged :: "catalog \<Rightarrow> serverState \<Rightarrow> serverState" where
  "publishChanged before st =
     (let ct = stCatalog st;
          listed = (\<lambda>c i. if list_ex (\<lambda>n. ndId n = i) (listNodes c) then Some (listSourcesOnNode c i) else None)
      in fold (\<lambda>i. publishNode i None) (filter (\<lambda>i. listed before i \<noteq> listed ct i) (map ndId (listNodes ct))) st)"

subsection \<open>Sources\<close>

definition resolveSource :: "catalog \<Rightarrow> nat \<Rightarrow> catalogError + sourceRecord" where
  "resolveSource ct i = (case getSource ct i of None \<Rightarrow> Inl (SourceNotFound ''Source not found'') | Some s \<Rightarrow> Inr s)"

definition defaultSourceOf :: "catalog \<Rightarrow> nat \<Rightarrow> catalogError + sourceRecord" where
  "defaultSourceOf ct p =
     (case defaultSource ct p of None \<Rightarrow> Inl (SourceNotFound ''Project has no default source'') | Some s \<Rightarrow> Inr s)"

text \<open>\<open>check\<close> is what \<open>assertCheckoutExists\<close> says of the path on the node.\<close>

definition ensureSource :: "(string \<Rightarrow> string \<Rightarrow> pathError option) \<Rightarrow> (serverState \<Rightarrow> serverState) \<Rightarrow> string \<Rightarrow> string \<Rightarrow>
    serverState \<Rightarrow> sourceRecord catalogResult" where
  "ensureSource check later node path st =
     (case sourcePath path of
        Inl e \<Rightarrow> (Inl (PathFails e), st)
      | Inr normalized \<Rightarrow>
          (case findSource (stCatalog st) node normalized of
             Some known \<Rightarrow> (Inr known, st)
           | None \<Rightarrow>
               (case getNode (stCatalog st) node of
                  None \<Rightarrow> (Inl (NodeNotFound node), st)
                | Some row \<Rightarrow>
                    if ndRemovedAt row \<noteq> None then (Inl (NodeNotFound node), st)
                    else (let st1 = later st
                          in case check node normalized of
                               Some e \<Rightarrow> (Inl (PathFails e), st1)
                             | None \<Rightarrow>
                                 (case upsertSource node normalized (stCatalog st1) of
                                    Inl e \<Rightarrow> (Inl (DbFails e), st1)
                                  | Inr (s, ct) \<Rightarrow> (Inr s, st1\<lparr>stCatalog := ct\<rparr>))))))"

subsection \<open>Creating a session\<close>

record sessionCreation =
  scProject :: "nat option"
  scTask :: "nat option"
  scParent :: "string option"
  scTitle :: "string option"
  scModel :: "(string \<times> string) option"
  scThinking :: "string option"
  scSource :: "nat option"
  scBackground :: bool
  scKind :: "string option"
  scExtension :: "string option"

record modelSetting =
  msRuntime :: string
  msProvider :: string
  msModelId :: string
  msThinking :: "string option"

text \<open>The registered session kinds, the \<open>default_model\<close> setting, and the model catalog's answer.\<close>

record sessionEnv =
  evKinds :: "string list"
  evDefaultModel :: "modelSetting option"
  evModelKnown :: "string \<Rightarrow> string \<Rightarrow> bool"

definition thinkingLevels :: "string list" where
  "thinkingLevels = [''minimal'', ''low'', ''medium'', ''high'', ''xhigh'', ''max'']"

definition assertPlace :: "catalog \<Rightarrow> nat option \<Rightarrow> nat option \<Rightarrow> bool \<Rightarrow> catalogError option" where
  "assertPlace ct project task placed =
     (if project \<noteq> None \<and> getProject ct (the project) = None
        then Some (SessionCreationRefused (''Project not found: '' @ showNat (the project)))
      else if project = None \<and> \<not> placed then Some (SessionCreationRefused ''A session of no project needs a source'')
      else (case task of
              None \<Rightarrow> None
            | Some t \<Rightarrow>
                if project = None then Some (SessionCreationRefused ''A session of no project has no task'')
                else (case getTask ct t of
                        None \<Rightarrow> Some (SessionCreationRefused (''Task not found: '' @ showNat t))
                      | Some row \<Rightarrow>
                          if tkProject row \<noteq> the project
                          then Some (SessionCreationRefused (''Task '' @ showNat t @ '' is not a task of project '' @ showNat (the project)))
                          else None)))"

definition inheritedSource :: "catalog \<Rightarrow> nat \<Rightarrow> nat option \<Rightarrow> catalogError + sourceRecord" where
  "inheritedSource ct project task =
     (case Option.bind task (latestTaskSession ct) of
        Some recent \<Rightarrow> resolveSource ct (ssSource recent)
      | None \<Rightarrow> defaultSourceOf ct project)"

definition sessionPlacement :: "catalog \<Rightarrow> sessionCreation \<Rightarrow> catalogError + sourceRecord" where
  "sessionPlacement ct opts =
     (case scSource opts of
        Some i \<Rightarrow> (case getSource ct i of None \<Rightarrow> Inl (SessionCreationRefused (''Source not found: '' @ showNat i)) | Some s \<Rightarrow> Inr s)
      | None \<Rightarrow>
          (case Option.bind (scParent opts) (sessionRow ct) of
             Some parent \<Rightarrow> resolveSource ct (ssSource parent)
           | None \<Rightarrow>
               (case scProject opts of
                  None \<Rightarrow> Inl (SessionCreationRefused ''A session of no project needs a source'')
                | Some p \<Rightarrow> inheritedSource ct p (scTask opts))))"

definition quoted :: "string \<Rightarrow> string" where
  "quoted s = [CHR 39] @ s @ [CHR 39]"

definition piModelSetting :: "modelSetting option \<Rightarrow> catalogError + modelSetting option" where
  "piModelSetting m =
     (case m of
        None \<Rightarrow> Inr None
      | Some c \<Rightarrow>
          if msRuntime c \<noteq> ''pi''
          then Inl (PlainFails (''Configured default_model uses unavailable runtime '' @ quoted (msRuntime c) @ ''. Update it in Settings.''))
          else Inr (Some c))"

definition parseThinkingLevel :: "string \<Rightarrow> catalogError + string" where
  "parseThinkingLevel v = (if v \<in> set thinkingLevels then Inr v else Inl (PlainFails (''Invalid thinking level '' @ quoted v @ ''. Valid levels: '' @ joinWith '', '' thinkingLevels)))"

definition seedOf :: "sessionEnv \<Rightarrow> sessionCreation \<Rightarrow> catalogError + (string \<times> string) option \<times> string" where
  "seedOf env opts =
     (case (if scModel opts \<noteq> None \<and> truthyStr (scThinking opts) then Inr None else piModelSetting (evDefaultModel env)) of
        Inl e \<Rightarrow> Inl e
      | Inr d \<Rightarrow>
          (let model = (case scModel opts of None \<Rightarrow> map_option (\<lambda>m. (msProvider m, msModelId m)) d | Some m \<Rightarrow> Some m)
           in if truthyStr (scThinking opts)
              then (case parseThinkingLevel (the (scThinking opts)) of Inl e \<Rightarrow> Inl e | Inr v \<Rightarrow> Inr (model, v))
              else Inr (model, orElse (Option.bind d msThinking) ''off'')))"

definition insertOf :: "sessionCreation \<Rightarrow> (string \<times> string) option \<Rightarrow> string \<Rightarrow> string \<Rightarrow> nat \<Rightarrow> sessionInsert" where
  "insertOf opts model thinking kind source =
     \<lparr>siProvider = map_option fst model, siModel = map_option snd model, siThinking = Some thinking, siRuntime = ''pi'',
      siTask = scTask opts, siParent = scParent opts, siSource = source, siBackground = scBackground opts, siKind = Some kind,
      siExtension = scExtension opts\<rparr>"

definition keepSession :: "string \<Rightarrow> int \<Rightarrow> sessionCreation \<Rightarrow> (string \<times> string) option \<Rightarrow> string \<Rightarrow> string \<Rightarrow> nat \<Rightarrow> catalog \<Rightarrow> dbError + catalog" where
  "keepSession i now opts model thinking kind source ct =
     (case insertSession i (scProject opts) (insertOf opts model thinking kind source) now ct of
        Inl e \<Rightarrow> Inl e
      | Inr ct1 \<Rightarrow>
          Inr (case scTitle opts of
                 None \<Rightarrow> ct1
               | Some t \<Rightarrow> updateSessionMeta i \<lparr>meName = Some t, meProvider = None, meModel = None, meThinking = None, meRuntime = None\<rparr> now ct1))"

definition touchLists :: "int \<Rightarrow> sessionCreation \<Rightarrow> catalog \<Rightarrow> catalog" where
  "touchLists now opts ct =
     (let ct1 = (case scTask opts of None \<Rightarrow> ct | Some t \<Rightarrow> if t = 0 then ct else touchTask t now ct)
      in case scProject opts of None \<Rightarrow> ct1 | Some p \<Rightarrow> touchProject p now ct1)"

definition createSession :: "sessionEnv \<Rightarrow> string \<Rightarrow> int \<Rightarrow> sessionCreation \<Rightarrow> serverState \<Rightarrow> string catalogResult" where
  "createSession env i now opts st =
     (let ct = stCatalog st; kind = orElse (scKind opts) ''agent''
      in case assertPlace ct (scProject opts) (scTask opts) (scSource opts \<noteq> None \<or> scParent opts \<noteq> None) of
           Some e \<Rightarrow> (Inl e, st)
         | None \<Rightarrow>
             if kind \<notin> set (evKinds env) then (Inl (PlainFails (''Unknown session kind: '' @ kind)), st)
             else (case sessionPlacement ct opts of
                     Inl e \<Rightarrow> (Inl e, st)
                   | Inr source \<Rightarrow>
                       (case seedOf env opts of
                          Inl e \<Rightarrow> (Inl e, st)
                        | Inr (model, thinking) \<Rightarrow>
                            (case keepSession i now opts model thinking kind (soId source) ct of
                               Inl e \<Rightarrow> (Inl (DbFails e), st)
                             | Inr ct1 \<Rightarrow>
                                 (let st1 = publishChanged ct (st\<lparr>stCatalog := ct1\<rparr>)
                                  in if scBackground opts then (Inr i, st1)
                                     else (Inr i, broadcast [SessionCreated i (scProject opts) (scTask opts) (scParent opts)]
                                             (st1\<lparr>stCatalog := touchLists now opts (stCatalog st1)\<rparr>)))))))"

definition modelMissing :: "string \<Rightarrow> string \<Rightarrow> string" where
  "modelMissing provider model = ''Model '' @ quoted model @ '' not found for provider '' @ quoted provider"

text \<open>A client's request: where it works is a source's ID or a location, and its model is checked first.\<close>

datatype requestedPlace = PlaceInherited | PlaceSource nat | PlaceLocation string string

record sessionRequest =
  rqPlace :: requestedPlace
  rqModel :: "(string \<times> string \<times> string option) option"
  rqOptions :: sessionCreation

definition requestedSource :: "(string \<Rightarrow> string \<Rightarrow> pathError option) \<Rightarrow> (serverState \<Rightarrow> serverState) \<Rightarrow> requestedPlace \<Rightarrow>
    serverState \<Rightarrow> nat option catalogResult" where
  "requestedSource check later place st =
     (case place of
        PlaceInherited \<Rightarrow> (Inr None, st)
      | PlaceSource i \<Rightarrow>
          (case getSource (stCatalog st) i of
             None \<Rightarrow> (Inl (SessionCreationRefused (''Source not found: '' @ showNat i)), st)
           | Some _ \<Rightarrow> (Inr (Some i), st))
      | PlaceLocation node path \<Rightarrow>
          (case ensureSource check later node path st of
             (Inr s, st1) \<Rightarrow> (Inr (Some (soId s)), st1)
           | (Inl (NodeNotFound n), st1) \<Rightarrow> (Inl (SessionCreationRefused (''Node not found: '' @ n)), st1)
           | (Inl (PathFails (CheckoutNotFound m)), st1) \<Rightarrow> (Inl (SessionCreationRefused m), st1)
           | (Inl e, st1) \<Rightarrow> (Inl e, st1)))"

definition requestSession :: "sessionEnv \<Rightarrow> (string \<Rightarrow> string \<Rightarrow> pathError option) \<Rightarrow> (serverState \<Rightarrow> serverState) \<Rightarrow>
    (serverState \<Rightarrow> serverState) \<Rightarrow> string \<Rightarrow> int \<Rightarrow> sessionRequest \<Rightarrow> serverState \<Rightarrow> string catalogResult" where
  "requestSession env check modelLater later i now rq st =
     (let opts = rqOptions rq
      in if scTitle opts \<noteq> None \<and> trimStr (the (scTitle opts)) = []
         then (Inl (SessionCreationRefused ''A session's title must not be blank''), st)
         else (case assertPlace (stCatalog st) (scProject opts) (scTask opts) (rqPlace rq \<noteq> PlaceInherited \<or> scParent opts \<noteq> None) of
                 Some e \<Rightarrow> (Inl e, st)
               | None \<Rightarrow>
                   (let st1 = (if rqModel rq \<noteq> None then modelLater st else st)
                    in if rqModel rq \<noteq> None \<and> \<not> evModelKnown env (fst (the (rqModel rq))) (fst (snd (the (rqModel rq))))
                       then (Inl (SessionCreationRefused (modelMissing (fst (the (rqModel rq))) (fst (snd (the (rqModel rq)))))), st1)
                       else (case requestedSource check later (rqPlace rq) st1 of
                               (Inl e, st2) \<Rightarrow> (Inl e, st2)
                             | (Inr source, st2) \<Rightarrow>
                                 createSession env i now
                                   (opts\<lparr>scTitle := map_option trimStr (scTitle opts),
                                      scModel := map_option (\<lambda>(p, m, _). (p, m)) (rqModel rq),
                                      scThinking := Option.bind (rqModel rq) (\<lambda>(_, _, t). t),
                                      scSource := source\<rparr>) st2))))"

subsection \<open>Activity and metadata\<close>

definition sessionsUpdateActivity :: "string \<Rightarrow> bool \<Rightarrow> serverState \<Rightarrow> unit catalogResult" where
  "sessionsUpdateActivity i unread st =
     (case liveSession st i of
        None \<Rightarrow> (Inl (SessionNotFound i), st)
      | Some row \<Rightarrow>
          (case storeActivity i unread (stCatalog st) of
             (False, _) \<Rightarrow> (Inr (), st)
           | (True, ct) \<Rightarrow> (Inr (), broadcast [SessionUpdated i (ssProject row)] (st\<lparr>stCatalog := ct\<rparr>))))"

definition setUnread :: "string \<Rightarrow> bool \<Rightarrow> serverState \<Rightarrow> unit catalogResult" where
  "setUnread i unread st =
     (case liveSession st i of
        None \<Rightarrow> (Inl (SessionNotFound i), st)
      | Some row \<Rightarrow>
          if unread \<and> ssActivity row = Some ActivityRunning then (Inl (PlainFails ''Running sessions cannot be marked unread''), st)
          else if ssActivity row = (if unread then Some ActivityFinished else None) \<or> (\<not> unread \<and> ssActivity row = Some ActivityRunning)
               then (Inr (), st)
          else sessionsUpdateActivity i unread st)"

definition updateMetadata :: "string \<Rightarrow> metadataUpdates \<Rightarrow> int \<Rightarrow> serverState \<Rightarrow> unit catalogResult" where
  "updateMetadata i u now st =
     (case liveSession st i of
        None \<Rightarrow> (Inl (SessionNotFound i), st)
      | Some row \<Rightarrow>
          (case updateSessionMetadata i u now (stCatalog st) of
             (False, _) \<Rightarrow> (Inl (SessionNotFound i), st)
           | (True, ct) \<Rightarrow> (Inr (), broadcast [SessionUpdated i (ssProject row)] (st\<lparr>stCatalog := ct\<rparr>))))"

subsection \<open>Moving a session\<close>

definition assertIdleForMove :: "processSessions \<Rightarrow> sessionRecord \<Rightarrow> catalogError option" where
  "assertIdleForMove ps row = (if sessionRunning ps row then Some SessionMoveConflict else None)"

definition requestSessionMove :: "string \<Rightarrow> nat \<Rightarrow> serverState \<Rightarrow> bool option catalogResult" where
  "requestSessionMove i source st =
     (case liveSession st i of
        None \<Rightarrow> (Inr None, st)
      | Some row \<Rightarrow>
          if ssSource row = source then (Inr (Some False), st)
          else (case assertIdleForMove (stSessions st) row of
                  Some e \<Rightarrow> (Inl e, st)
                | None \<Rightarrow>
                    if getSource (stCatalog st) source = None then (Inl (DbFails ForeignKeyFails), st)
                    else (Inr (Some True), st\<lparr>stCatalog := changeSession i (\<lambda>s. s\<lparr>ssSource := source\<rparr>) (stCatalog st)\<rparr>)))"

definition moveSession :: "(string \<Rightarrow> string \<Rightarrow> pathError option) \<Rightarrow> (serverState \<Rightarrow> serverState) \<Rightarrow> (serverState \<Rightarrow> serverState) \<Rightarrow>
    string \<Rightarrow> string \<Rightarrow> string \<Rightarrow> serverState \<Rightarrow> nat catalogResult" where
  "moveSession check later closing i node path st =
     (if liveSession st i = None then (Inl (SessionNotFound i), st)
      else if Option.bind (getNode (stCatalog st) node) ndRemovedAt \<noteq> None then (Inl (NodeNotFound node), st)
      else (case ensureSource check later node path st of
              (Inl e, st1) \<Rightarrow> (Inl e, st1)
            | (Inr source, st1) \<Rightarrow>
                (case requestSessionMove i (soId source) st1 of
                   (Inl e, st2) \<Rightarrow> (Inl e, st2)
                 | (Inr None, st2) \<Rightarrow> (Inl (SessionNotFound i), st2)
                 | (Inr (Some moved), st2) \<Rightarrow>
                     (let st3 = publishChanged (stCatalog st1) st2;
                          st4 = (if moved then closing (closeRuntimes [i] st3) else st3)
                      in case liveSession st4 i of
                           None \<Rightarrow> (Inl (SessionNotFound i), st4)
                         | Some row \<Rightarrow> (Inr (ssSource row), broadcast [SessionUpdated i (ssProject row)] st4)))))"

subsection \<open>The model of a session\<close>

record modelChange =
  mcRuntime :: "string option"
  mcProvider :: string
  mcModel :: string
  mcThinking :: "string option"
  mcProject :: "nat option"

text \<open>Its turn in the session's chain has come. \<open>setting\<close> is what setting the model through the runtime gives, and what
  happens until then; \<open>messages\<close> counts the session's messages.\<close>

definition setModel :: "sessionEnv \<Rightarrow> (string \<Rightarrow> nat) \<Rightarrow> (serverState \<Rightarrow> serverState) \<Rightarrow> (serverState \<Rightarrow> string option \<times> serverState) \<Rightarrow>
    string \<Rightarrow> modelChange \<Rightarrow> int \<Rightarrow> serverState \<Rightarrow> sessionRecord catalogResult" where
  "setModel env messages later setting i ch now st =
     (case liveSession st i of
        None \<Rightarrow> (Inl (SessionNotFound i), st)
      | Some row \<Rightarrow>
          (let runtime = orElse (mcRuntime ch) (ssRuntime row)
           in if mcProject ch \<noteq> None \<and> ssProject row \<noteq> mcProject ch then (Inl (SessionNotFound i), st)
              else if runtime \<noteq> ''pi'' then (Inl (PlainFails ''Canonical sessions use the pi runtime''), st)
              else if runtime \<noteq> ssRuntime row \<and> 0 < messages i
                   then (Inl (PlainFails ''Session runtime can only be changed before any messages are sent''), st)
              else (let st1 = later st
                    in if \<not> evModelKnown env (mcProvider ch) (mcModel ch) then (Inl (PlainFails (modelMissing (mcProvider ch) (mcModel ch))), st1)
                       else (case (if truthyStr (mcThinking ch) then map_sum id Some (parseThinkingLevel (the (mcThinking ch))) else Inr None) of
                               Inl e \<Rightarrow> (Inl e, st1)
                             | Inr thinking \<Rightarrow>
                                 (case setting st1 of
                                    (Some m, st2) \<Rightarrow> (Inl (RuntimeFails m), st2)
                                  | (None, st2) \<Rightarrow>
                                      (let ct = updateSessionMeta i \<lparr>meName = None, meProvider = Some (mcProvider ch), meModel = Some (mcModel ch),
                                             meThinking = Some (orElse thinking (ssThinking row)), meRuntime = Some runtime\<rparr> now (stCatalog st2);
                                           st3 = broadcast [SessionUpdated i (ssProject row)] (st2\<lparr>stCatalog := ct\<rparr>)
                                       in case liveSession st3 i of
                                            None \<Rightarrow> (Inl (PlainFails (''Session '' @ i @ '' not found after update'')), st3)
                                          | Some updated \<Rightarrow> (Inr updated, st3)))))))"

end
