(* ===== verification/Catalog_Admin.thy ===== *)
theory Catalog_Admin
  imports Session_Catalog
begin

text \<open>
  Tasks, projects, nodes and pairing: \<^verbatim>\<open>packages/backend/src/models/tasks.ts\<close>, \<open>projects.ts\<close>, \<open>nodes.ts\<close>,
  \<open>node.ts\<close>, \<open>node-pairing.ts\<close> and \<^verbatim>\<open>branch-name.ts\<close>, over the state and conventions of \<open>Session_Catalog\<close>. Running git
  on a checkout, closing a link and hashing a code are outside; a code is named by its hash.
\<close>

subsection \<open>Branch names\<close>

definition asciiLower :: "char \<Rightarrow> char" where
  "asciiLower c = (let n = (of_char c :: nat) in if 65 \<le> n \<and> n \<le> 90 then char_of (n + 32) else c)"

definition slugC :: "char \<Rightarrow> bool" where
  "slugC c = (let n = (of_char c :: nat) in (97 \<le> n \<and> n \<le> 122) \<or> isDigitC c)"

definition dashC :: char where "dashC = CHR ''-''"

text \<open>Runs of a kind of characters become one dash.\<close>

fun squeeze :: "(char \<Rightarrow> bool) \<Rightarrow> string \<Rightarrow> string" where
  "squeeze P [] = []"
| "squeeze P (c # cs) = (if P c then (case cs of d # _ \<Rightarrow> if P d then squeeze P cs else dashC # squeeze P cs | [] \<Rightarrow> [dashC]) else c # squeeze P cs)"

definition dropFirstDash :: "string \<Rightarrow> string" where
  "dropFirstDash s = (case s of c # cs \<Rightarrow> if c = dashC then cs else s | [] \<Rightarrow> [])"

definition dropLastDash :: "string \<Rightarrow> string" where
  "dropLastDash s = (if s \<noteq> [] \<and> List.last s = dashC then butlast s else s)"

definition slugOf :: "string \<Rightarrow> string" where
  "slugOf title =
     (let kept = filter (\<lambda>c. slugC c \<or> isSpace c \<or> c = dashC) (map asciiLower title);
          dashed = squeeze (\<lambda>c. c = dashC) (squeeze isSpace kept)
      in dropLastDash (take 50 (dropLastDash (dropFirstDash dashed))))"

definition slugifyBranchName :: "string \<Rightarrow> string" where
  "slugifyBranchName title = ''task/'' @ (if slugOf title = [] then ''untitled'' else slugOf title)"

subsection \<open>Tasks\<close>

text \<open>\<open>ending\<close> is the end of the clock in base 36. A project's tasks are those of its own.\<close>

definition createTask :: "nat \<Rightarrow> string \<Rightarrow> string option \<Rightarrow> string option \<Rightarrow> string \<Rightarrow> int \<Rightarrow> serverState \<Rightarrow> taskRecord catalogResult" where
  "createTask project title description branch ending now st =
     (let given = trimStr (orElse branch []);
          base = (if given = [] then slugifyBranchName title else given);
          name = (if given = [] \<and> projectHasTaskBranch (stCatalog st) project base then base @ dashC # ending else base);
          desc = trimStr (orElse description [])
      in case insertTask project (trimStr title) (if desc = [] then None else Some desc) name None now (stCatalog st) of
           Inl e \<Rightarrow> (Inl (DbFails e), st)
         | Inr (t, ct) \<Rightarrow> (Inr t, broadcast [TaskUpdated project] (st\<lparr>stCatalog := ct\<rparr>)))"

definition projectTask :: "catalog \<Rightarrow> nat \<Rightarrow> nat \<Rightarrow> taskRecord option" where
  "projectTask ct project i =
     (case getTask ct i of None \<Rightarrow> None | Some t \<Rightarrow> if tkProject t \<noteq> project then None else Some t)"

definition changeTask :: "nat \<Rightarrow> nat \<Rightarrow> string option \<Rightarrow> string option option \<Rightarrow> string option option \<Rightarrow> int \<Rightarrow> serverState \<Rightarrow>
    taskRecord option catalogResult" where
  "changeTask project i title description base now st =
     (if projectTask (stCatalog st) project i = None then (Inr None, st)
      else (case updateTask i title description base now (stCatalog st) of
              (None, ct) \<Rightarrow> (Inr None, st\<lparr>stCatalog := ct\<rparr>)
            | (Some t, ct) \<Rightarrow> (Inr (Some t), broadcast [TaskUpdated project] (st\<lparr>stCatalog := ct\<rparr>))))"

definition closeTask :: "nat \<Rightarrow> nat \<Rightarrow> int \<Rightarrow> serverState \<Rightarrow> taskRecord catalogResult" where
  "closeTask project i now st =
     (if projectTask (stCatalog st) project i = None then (Inl TaskNotFound, st)
      else (case setTaskStatus i TaskClosed now (stCatalog st) of
              (None, ct) \<Rightarrow> (Inl TaskNotFound, st\<lparr>stCatalog := ct\<rparr>)
            | (Some t, ct) \<Rightarrow>
                (case clearFinishedActivityForTasks [i] ct of
                   (cleared, ct1) \<Rightarrow>
                     (Inr t, broadcast (TaskUpdated project # map (\<lambda>s. SessionUpdated s (Some project)) cleared) (st\<lparr>stCatalog := ct1\<rparr>)))))"

definition reopenTask :: "nat \<Rightarrow> nat \<Rightarrow> int \<Rightarrow> serverState \<Rightarrow> taskRecord catalogResult" where
  "reopenTask project i now st =
     (if projectTask (stCatalog st) project i = None then (Inl TaskNotFound, st)
      else (case setTaskStatus i TaskOpen now (stCatalog st) of
              (None, ct) \<Rightarrow> (Inl TaskNotFound, st\<lparr>stCatalog := ct\<rparr>)
            | (Some t, ct) \<Rightarrow> (Inr t, broadcast [TaskUpdated project] (st\<lparr>stCatalog := ct\<rparr>))))"

text \<open>\<open>closing\<close> is what happens while the sessions' runtimes close. The branch is deleted afterwards, best effort.\<close>

definition activeTaskSessions :: "serverState \<Rightarrow> nat \<Rightarrow> string list" where
  "activeTaskSessions st i =
     filter (\<lambda>s. case liveSession st s of None \<Rightarrow> False | Some row \<Rightarrow> sessionRunning (stSessions st) row) (getTaskSessionIds (stCatalog st) i)"

definition deleteTask :: "(serverState \<Rightarrow> serverState) \<Rightarrow> nat \<Rightarrow> nat \<Rightarrow> serverState \<Rightarrow> string catalogResult" where
  "deleteTask closing project i st =
     (case projectTask (stCatalog st) project i of
        None \<Rightarrow> (Inl TaskNotFound, st)
      | Some task \<Rightarrow>
          (let active = activeTaskSessions st i
           in if active \<noteq> [] then (Inl (TaskHasActiveSessions (length active)), st)
              else (let st1 = closing (closeRuntimes (getTaskSessionIds (stCatalog st) i) st);
                        st2 = publishChanged (stCatalog st1) (st1\<lparr>stCatalog := snd (deleteTaskRow i (stCatalog st1))\<rparr>)
                    in (Inr (tkBranch task), broadcast [TaskUpdated project] st2))))"

subsection \<open>Projects\<close>

text \<open>\<open>detected\<close> is the base branch found in the checkout, \<open>None\<close> where it has none or is not a repository, or an error
  where its node is not available; \<open>detecting\<close> is what happens meanwhile.\<close>

definition newProject :: "(string \<Rightarrow> string \<Rightarrow> pathError option) \<Rightarrow> (serverState \<Rightarrow> serverState) \<Rightarrow> (serverState \<Rightarrow> serverState) \<Rightarrow>
    string + string option \<Rightarrow> string \<Rightarrow> string \<Rightarrow> string \<Rightarrow> string option \<Rightarrow> int \<Rightarrow> serverState \<Rightarrow> projectRecord catalogResult" where
  "newProject check later detecting detected name node path base now st =
     (case ensureSource check later node path st of
        (Inl e, st1) \<Rightarrow> (Inl e, st1)
      | (Inr source, st1) \<Rightarrow>
          (let st2 = (if truthyStr base then st1 else detecting st1)
           in case (if truthyStr base then Inr (the base) else map_sum id (\<lambda>b. orElse b ''main'') detected) of
                Inl m \<Rightarrow> (Inl (RuntimeFails m), st2)
              | Inr branch \<Rightarrow>
                  (case insertProject name branch (soId source) now (stCatalog st2) of
                     Inl e \<Rightarrow> (Inl (DbFails e), st2)
                   | Inr (p, ct) \<Rightarrow> (Inr p, publishChanged (stCatalog st2) (st2\<lparr>stCatalog := ct\<rparr>)))))"

record projectChanges =
  pcName :: "string option"
  pcBaseBranch :: "string option"
  pcSource :: "(string \<times> string) option"

definition orMain :: "string \<Rightarrow> string" where
  "orMain b = (if trimStr b = [] then ''main'' else trimStr b)"

definition changeProject :: "(string \<Rightarrow> string \<Rightarrow> pathError option) \<Rightarrow> (serverState \<Rightarrow> serverState) \<Rightarrow> nat \<Rightarrow> projectChanges \<Rightarrow> serverState \<Rightarrow>
    projectRecord catalogResult" where
  "changeProject check later i ch st =
     (if getProject (stCatalog st) i = None then (Inl (ProjectNotFound i), st)
      else if pcName ch \<noteq> None \<and> trimStr (the (pcName ch)) = [] then (Inl (PlainFails ''name cannot be empty''), st)
      else (case (case pcSource ch of None \<Rightarrow> (Inr None, st)
                  | Some (node, path) \<Rightarrow> apfst (map_sum id Some) (ensureSource check later node path st)) of
              (Inl e, st1) \<Rightarrow> (Inl e, st1)
            | (Inr source, st1) \<Rightarrow>
                (case updateProject i (map_option trimStr (pcName ch)) (map_option orMain (pcBaseBranch ch)) (map_option soId source) (stCatalog st1) of
                   Inl e \<Rightarrow> (Inl (DbFails e), st1)
                 | Inr (None, _) \<Rightarrow> (Inl (ProjectNotFound i), st1)
                 | Inr (Some p, ct) \<Rightarrow> (Inr p, publishChanged (stCatalog st1) (st1\<lparr>stCatalog := ct\<rparr>)))))"

definition removeProject :: "(serverState \<Rightarrow> serverState) \<Rightarrow> nat \<Rightarrow> serverState \<Rightarrow> unit catalogResult" where
  "removeProject closing i st =
     (if getProject (stCatalog st) i = None then (Inl (ProjectNotFound i), st)
      else (let st1 = closing (closeRuntimes (sessionIdsInProject (stCatalog st) i) st)
            in case deleteProject i (stCatalog st1) of
                 (False, ct) \<Rightarrow> (Inl (ProjectNotFound i), st1\<lparr>stCatalog := ct\<rparr>)
               | (True, ct) \<Rightarrow> (Inr (), publishChanged (stCatalog st1) (st1\<lparr>stCatalog := ct\<rparr>))))"

subsection \<open>Nodes\<close>

text \<open>The errors a model of a node throws from the row it read.\<close>

definition assertNotRemoved :: "nodeRecord \<Rightarrow> catalogError option" where
  "assertNotRemoved n = (if ndRemovedAt n \<noteq> None then Some (NodeRemoved (ndId n)) else None)"

definition assertMayConnect :: "nodeRecord \<Rightarrow> catalogError option" where
  "assertMayConnect n =
     (case assertNotRemoved n of Some e \<Rightarrow> Some e | None \<Rightarrow> if ndRevokedAt n \<noteq> None then Some (NodeRevoked (ndId n)) else None)"

definition assertPaired :: "string \<Rightarrow> nodeRecord \<Rightarrow> catalogError option" where
  "assertPaired action n = (if truthyStr (ndPublicKey n) then None else Some (NodeNotPaired (ndId n) action))"

definition maxNodeNameLength :: nat where "maxNodeNameLength = 100"

definition findNode :: "catalog \<Rightarrow> string \<Rightarrow> catalogError + nodeRecord" where
  "findNode ct wanted =
     (case getNode ct wanted of
        Some n \<Rightarrow> Inr n
      | None \<Rightarrow>
          (case filter (\<lambda>n. map asciiLower (ndName n) = map asciiLower (trimStr wanted)) (listNodes ct) of
             [n] \<Rightarrow> Inr n
           | [] \<Rightarrow> Inl (NodeNotFound (wanted @ '' (the nodes: '' @
               (if listNodes ct = [] then ''none'' else joinWith '', '' (map ndName (listNodes ct))) @ '')''))
           | named \<Rightarrow> Inl (NodeNotFound (wanted @ '' (several nodes are named so ('' @ joinWith '', '' (map ndId named) @ ''): name one by its ID)''))))"

text \<open>The UTF-16 length of a string given by the bytes of its UTF-8 form.\<close>

definition nameUnits :: "string \<Rightarrow> nat" where
  "nameUnits s = sum_list (map (\<lambda>c. let n = (of_char c :: nat) in if 240 \<le> n then 2 else if 128 \<le> n \<and> n < 192 then 0 else 1) s)"

definition renameNode :: "nodeRecord \<Rightarrow> string \<Rightarrow> serverState \<Rightarrow> unit catalogResult" where
  "renameNode row name st =
     (case assertNotRemoved row of
        Some e \<Rightarrow> (Inl e, st)
      | None \<Rightarrow>
          (let trimmed = trimStr name
           in if trimmed = [] \<or> maxNodeNameLength < nameUnits trimmed then (Inl InvalidNodeName, st)
              else (Inr (), publishNode (ndId row) None (st\<lparr>stCatalog := setNodeName (ndId row) trimmed (stCatalog st)\<rparr>))))"

definition revokeNode :: "nodeRecord \<Rightarrow> int \<Rightarrow> serverState \<Rightarrow> unit catalogResult" where
  "revokeNode row now st =
     (case assertNotRemoved row of
        Some e \<Rightarrow> (Inl e, st)
      | None \<Rightarrow>
          (case assertPaired ''revoked'' row of
             Some e \<Rightarrow> (Inl e, st)
           | None \<Rightarrow> (Inr (), publishNode (ndId row) None (st\<lparr>stCatalog := setNodeRevoked (ndId row) now (stCatalog st)\<rparr>))))"

text \<open>Removing a node reads its row again in its transaction, then closes the runtimes of the sessions that work there;
  runs without one are settled by the session runs.\<close>

definition sessionNode :: "catalog \<Rightarrow> sessionRecord \<Rightarrow> string option" where
  "sessionNode ct row = map_option soNode (getSource ct (ssSource row))"

definition liveSessionsOn :: "serverState \<Rightarrow> string \<Rightarrow> string list" where
  "liveSessionsOn st node =
     filter (\<lambda>i. case liveSession st i of None \<Rightarrow> False | Some row \<Rightarrow> sessionNode (stCatalog st) row = Some node)
       (map fst (osLive (psOpen (stSessions st))))"

definition removeNode :: "string \<Rightarrow> int \<Rightarrow> serverState \<Rightarrow> string list catalogResult" where
  "removeNode i now st =
     (case getNode (stCatalog st) i of
        None \<Rightarrow> (Inl (NodeNotFound i), st)
      | Some row \<Rightarrow>
          (case assertPaired ''removed'' row of
             Some e \<Rightarrow> (Inl e, st)
           | None \<Rightarrow>
               if ndRemovedAt row \<noteq> None then (Inr [], st)
               else (let st1 = publishNode i None (st\<lparr>stCatalog := setNodeRemoved i now (stCatalog st)\<rparr>);
                         live = liveSessionsOn st1 i
                     in (Inr live, closeRuntimes live st1))))"

subsection \<open>Pairing\<close>

definition pairingCodeTtlMs :: int where "pairingCodeTtlMs = 10 * 60000"

definition createCode :: "string \<Rightarrow> string option \<Rightarrow> int \<Rightarrow> serverState \<Rightarrow> (nat \<times> int) catalogResult" where
  "createCode code name now st =
     (case insertPairingGrant code name now (now + pairingCodeTtlMs) (stCatalog st) of
        Inl e \<Rightarrow> (Inl (DbFails e), st)
      | Inr (i, ct) \<Rightarrow> (Inr (i, now + pairingCodeTtlMs), st\<lparr>stCatalog := ct\<rparr>))"

definition pairNode :: "string \<Rightarrow> string \<Rightarrow> string \<Rightarrow> string \<Rightarrow> int \<Rightarrow> catalog \<Rightarrow> catalogError + (nat \<times> string) \<times> catalog" where
  "pairNode code publicKey hostname i now ct =
     (case consumePairingGrant code now ct of
        (None, _) \<Rightarrow> Inl InvalidPairingCode
      | (Some (g, given), ct1) \<Rightarrow>
          (let name = orElse given hostname
           in case insertPairedNode i name publicKey hostname now ct1 of
                Inl (UniqueFails col) \<Rightarrow> Inl (if col = ''nodes.public_key'' then PublicKeyInUse else DbFails (UniqueFails col))
              | Inl e \<Rightarrow> Inl (DbFails e)
              | Inr ct2 \<Rightarrow> Inr ((g, name), setPairingGrantNode g i ct2)))"

definition redeemCode :: "(string \<Rightarrow> bool) \<Rightarrow> string \<Rightarrow> string \<Rightarrow> string \<Rightarrow> string \<Rightarrow> int \<Rightarrow> serverState \<Rightarrow> (string \<times> string) catalogResult" where
  "redeemCode validKey code publicKey hostname i now st =
     (if \<not> validKey publicKey then (Inl InvalidPublicKey, st)
      else (case pairNode code publicKey hostname i now (stCatalog st) of
              Inl e \<Rightarrow> (Inl e, st)
            | Inr ((g, name), ct) \<Rightarrow> (Inr (i, name), publishNode i (Some g) (st\<lparr>stCatalog := ct\<rparr>))))"

subsection \<open>Operations, with what runs while they wait\<close>

text \<open>The lists of operations of one that awaits are what runs at each of its waits. \<open>DoProcess\<close> is any change of the
  process's sessions (openings, runs, submissions).\<close>

datatype catalogOp =
    DoRequest sessionEnv "string \<Rightarrow> string \<Rightarrow> pathError option" "catalogOp list" "catalogOp list" string int sessionRequest
  | DoCreate sessionEnv string int sessionCreation
  | DoMove "string \<Rightarrow> string \<Rightarrow> pathError option" "catalogOp list" "catalogOp list" string string string
  | DoSetModel sessionEnv "string \<Rightarrow> nat" "catalogOp list" "string option" "catalogOp list" string modelChange int
  | DoActivity string bool
  | DoUnread string bool
  | DoMetadata string metadataUpdates int
  | DoNewTask nat string "string option" "string option" string int
  | DoChangeTask nat nat "string option" "string option option" "string option option" int
  | DoCloseTask nat nat int
  | DoReopenTask nat nat int
  | DoDeleteTask "catalogOp list" nat nat
  | DoNewProject "string \<Rightarrow> string \<Rightarrow> pathError option" "catalogOp list" "catalogOp list" "string + string option" string string string "string option" int
  | DoChangeProject "string \<Rightarrow> string \<Rightarrow> pathError option" "catalogOp list" nat projectChanges
  | DoRemoveProject "catalogOp list" nat
  | DoRename string string
  | DoRevoke string int
  | DoRemoveNode string int
  | DoCreateCode string "string option" int
  | DoRedeem "string \<Rightarrow> bool" string string string string int
  | DoProcess processSessions

definition onNodeRow :: "string \<Rightarrow> (nodeRecord \<Rightarrow> serverState \<Rightarrow> 'a catalogResult) \<Rightarrow> serverState \<Rightarrow> serverState" where
  "onNodeRow i act st = (case getNode (stCatalog st) i of None \<Rightarrow> st | Some row \<Rightarrow> snd (act row st))"

definition inTurn :: "('s \<Rightarrow> 's) list \<Rightarrow> 's \<Rightarrow> 's" where
  "inTurn fs st = fold (\<lambda>f. f) fs st"

primrec runOp :: "catalogOp \<Rightarrow> serverState \<Rightarrow> serverState" where
  "runOp (DoRequest env check a b i now rq) =
     (\<lambda>st. snd (requestSession env check (inTurn (map runOp a)) (inTurn (map runOp b)) i now rq st))"
| "runOp (DoCreate env i now opts) = (\<lambda>st. snd (createSession env i now opts st))"
| "runOp (DoMove check a b i node path) = (\<lambda>st. snd (moveSession check (inTurn (map runOp a)) (inTurn (map runOp b)) i node path st))"
| "runOp (DoSetModel env messages a answer b i ch now) =
     (\<lambda>st. snd (setModel env messages (inTurn (map runOp a)) (\<lambda>st. (answer, inTurn (map runOp b) st)) i ch now st))"
| "runOp (DoActivity i unread) = (\<lambda>st. snd (sessionsUpdateActivity i unread st))"
| "runOp (DoUnread i unread) = (\<lambda>st. snd (setUnread i unread st))"
| "runOp (DoMetadata i u now) = (\<lambda>st. snd (updateMetadata i u now st))"
| "runOp (DoNewTask p title description branch ending now) = (\<lambda>st. snd (createTask p title description branch ending now st))"
| "runOp (DoChangeTask p i title description base now) = (\<lambda>st. snd (changeTask p i title description base now st))"
| "runOp (DoCloseTask p i now) = (\<lambda>st. snd (closeTask p i now st))"
| "runOp (DoReopenTask p i now) = (\<lambda>st. snd (reopenTask p i now st))"
| "runOp (DoDeleteTask a p i) = (\<lambda>st. snd (deleteTask (inTurn (map runOp a)) p i st))"
| "runOp (DoNewProject check a b detected name node path base now) =
     (\<lambda>st. snd (newProject check (inTurn (map runOp a)) (inTurn (map runOp b)) detected name node path base now st))"
| "runOp (DoChangeProject check a i ch) = (\<lambda>st. snd (changeProject check (inTurn (map runOp a)) i ch st))"
| "runOp (DoRemoveProject a i) = (\<lambda>st. snd (removeProject (inTurn (map runOp a)) i st))"
| "runOp (DoRename i name) = onNodeRow i (\<lambda>row. renameNode row name)"
| "runOp (DoRevoke i now) = onNodeRow i (\<lambda>row. revokeNode row now)"
| "runOp (DoRemoveNode i now) = (\<lambda>st. snd (removeNode i now st))"
| "runOp (DoCreateCode code name now) = (\<lambda>st. snd (createCode code name now st))"
| "runOp (DoRedeem validKey code publicKey hostname i now) = (\<lambda>st. snd (redeemCode validKey code publicKey hostname i now st))"
| "runOp (DoProcess ps) = (\<lambda>st. st\<lparr>stSessions := ps\<rparr>)"

definition runOps :: "catalogOp list \<Rightarrow> serverState \<Rightarrow> serverState" where
  "runOps ops st = inTurn (map runOp ops) st"

end
