(* ===== verification/Catalog_Laws.thy ===== *)
theory Catalog_Laws
  imports Catalog_Admin
begin

text \<open>
  What the server's catalog keeps. A locale collects the laws of the statements; every operation, with anything
  happening where it waits, then keeps whatever the statements keep. It is interpreted twice: for the tables' integrity
  (keys, references, and that a session's task is one of its project) and for what is never taken back (a node's key,
  removal and revocation, a pairing code's use).
\<close>

subsection \<open>Tables\<close>

lemma rowWith_None: "rowWith f k rows = None \<longleftrightarrow> k \<notin> f ` set rows"
  by (auto simp: rowWith_def find_None_iff)

lemma rowWith_SomeD: "rowWith f k rows = Some r \<Longrightarrow> r \<in> set rows \<and> f r = k"
  by (auto simp: rowWith_def dest: find_SomeD)

lemma rowWith_unique: "distinct (map f rows) \<Longrightarrow> r \<in> set rows \<Longrightarrow> rowWith f (f r) rows = Some r"
  by (simp add: rowWith_def find_unique)

lemma distinct_key: "distinct (map f rows) \<Longrightarrow> r \<in> set rows \<Longrightarrow> q \<in> set rows \<Longrightarrow> f r = f q \<Longrightarrow> r = q"
  by (meson distinct_map inj_onD)

lemma map_updateRows [simp]: "(\<And>r. f (g r) = f r) \<Longrightarrow> map f (updateRows P g rows) = map f rows"
  by (simp add: updateRows_def)

lemma image_updateRows [simp]: "(\<And>r. f (g r) = f r) \<Longrightarrow> f ` set (updateRows P g rows) = f ` set rows"
  by (metis list.set_map map_updateRows)

lemma all_updateRows: "list_all Q rows \<Longrightarrow> (\<And>r. r \<in> set rows \<Longrightarrow> P r \<Longrightarrow> Q r \<Longrightarrow> Q (g r)) \<Longrightarrow> list_all Q (updateRows P g rows)"
  by (auto simp: updateRows_def list_all_iff)

lemma rowWith_updateRows:
  "(\<And>r. f (g r) = f r) \<Longrightarrow> rowWith f k (updateRows P g rows) = map_option (\<lambda>r. if P r then g r else r) (rowWith f k rows)"
  by (induction rows) (auto simp: rowWith_def updateRows_def)

lemma foldr_max_ge: "x \<in> set xs \<Longrightarrow> x \<le> foldr max xs (0::nat)"
  by (induction xs) auto

lemma nextRowid_fresh: "nextRowid f rows \<notin> f ` set rows"
  using foldr_max_ge [of _ "map f rows"] by (fastforce simp: nextRowid_def)

subsection \<open>Integrity\<close>

text \<open>Each table's part, over the keys of the tables it refers to.\<close>

definition nodesOk :: "nodeRecord list \<Rightarrow> bool" where
  "nodesOk nodes = (distinct (map ndId nodes) \<and> distinct (filter (\<lambda>k. k \<noteq> None) (map ndPublicKey nodes)))"

definition sourcesOk :: "string set \<Rightarrow> sourceRecord list \<Rightarrow> bool" where
  "sourcesOk nodes srcs = (distinct (map soId srcs) \<and> distinct (map (\<lambda>s. (soNode s, soPath s)) srcs) \<and> list_all (\<lambda>s. soNode s \<in> nodes) srcs)"

definition projectsOk :: "nat \<Rightarrow> nat set \<Rightarrow> projectRecord list \<Rightarrow> bool" where
  "projectsOk lastId srcs ps =
     (distinct (map pjId ps) \<and> list_all (\<lambda>p. pjId p \<le> lastId \<and> (pjDefaultSource p = None \<or> the (pjDefaultSource p) \<in> srcs)) ps)"

definition tasksOk :: "nat \<Rightarrow> nat set \<Rightarrow> taskRecord list \<Rightarrow> bool" where
  "tasksOk lastId ps ts = (distinct (map tkId ts) \<and> list_all (\<lambda>t. tkId t \<le> lastId \<and> tkProject t \<in> ps) ts)"

definition sessionOk :: "nat set \<Rightarrow> (nat \<times> nat) set \<Rightarrow> nat set \<Rightarrow> string set \<Rightarrow> sessionRecord \<Rightarrow> bool" where
  "sessionOk ps ts srcs ids s =
     ((ssProject s = None \<or> the (ssProject s) \<in> ps) \<and>
      (ssTask s = None \<or> ssProject s \<noteq> None \<and> (the (ssTask s), the (ssProject s)) \<in> ts) \<and>
      ssSource s \<in> srcs \<and> (ssParent s = None \<or> the (ssParent s) \<in> ids) \<and> ssActivity s \<noteq> Some ActivityRunning)"

definition sessionsOk :: "nat set \<Rightarrow> (nat \<times> nat) set \<Rightarrow> nat set \<Rightarrow> sessionRecord list \<Rightarrow> bool" where
  "sessionsOk ps ts srcs rows = (distinct (map ssId rows) \<and> list_all (sessionOk ps ts srcs (ssId ` set rows)) rows)"

definition grantsOk :: "grantRecord list \<Rightarrow> bool" where
  "grantsOk gs = (distinct (map gtId gs) \<and> distinct (map gtCode gs) \<and> list_all (\<lambda>g. gtNode g = None \<or> gtConsumedAt g \<noteq> None) gs)"

abbreviation taskKey :: "taskRecord \<Rightarrow> nat \<times> nat" where
  "taskKey t \<equiv> (tkId t, tkProject t)"

definition catalogOk :: "catalog \<Rightarrow> bool" where
  "catalogOk ct =
     (nodesOk (ctNodes ct) \<and> sourcesOk (ndId ` set (ctNodes ct)) (ctSources ct) \<and>
      projectsOk (ctLastProject ct) (soId ` set (ctSources ct)) (ctProjects ct) \<and>
      tasksOk (ctLastTask ct) (pjId ` set (ctProjects ct)) (ctTasks ct) \<and>
      sessionsOk (pjId ` set (ctProjects ct)) (taskKey ` set (ctTasks ct)) (soId ` set (ctSources ct)) (ctSessions ct) \<and>
      grantsOk (ctGrants ct))"

lemma sourcesOk_mono: "sourcesOk ns srcs \<Longrightarrow> ns \<subseteq> ns' \<Longrightarrow> sourcesOk ns' srcs"
  by (auto simp: sourcesOk_def list_all_iff)

lemma projectsOk_mono: "projectsOk n srcs ps \<Longrightarrow> srcs \<subseteq> srcs' \<Longrightarrow> n \<le> n' \<Longrightarrow> projectsOk n' srcs' ps"
  by (force simp: projectsOk_def list_all_iff)

lemma tasksOk_mono: "tasksOk n ps ts \<Longrightarrow> ps \<subseteq> ps' \<Longrightarrow> n \<le> n' \<Longrightarrow> tasksOk n' ps' ts"
  by (force simp: tasksOk_def list_all_iff)

lemma sessionOk_mono: "sessionOk ps ts srcs ids s \<Longrightarrow> ps \<subseteq> ps' \<Longrightarrow> ts \<subseteq> ts' \<Longrightarrow> srcs \<subseteq> srcs' \<Longrightarrow> ids \<subseteq> ids' \<Longrightarrow> sessionOk ps' ts' srcs' ids' s"
  by (auto simp: sessionOk_def)

lemma sessionsOk_mono: "sessionsOk ps ts srcs rows \<Longrightarrow> ps \<subseteq> ps' \<Longrightarrow> ts \<subseteq> ts' \<Longrightarrow> srcs \<subseteq> srcs' \<Longrightarrow> sessionsOk ps' ts' srcs' rows"
  by (auto simp: sessionsOk_def list_all_iff intro: sessionOk_mono)

lemmas ok_mono = sourcesOk_mono projectsOk_mono tasksOk_mono sessionsOk_mono

lemma upsert_ok:
  assumes "upsertSource node path ct = Inr (s, ct')" "catalogOk ct"
  shows "catalogOk ct'"
proof (cases "findSource ct node path")
  case None
  let ?s = "\<lparr>soId = nextRowid soId (ctSources ct), soNode = node, soPath = path\<rparr>"
  from None assms have s: "node \<in> ndId ` set (ctNodes ct)" "ct' = ct\<lparr>ctSources := ctSources ct @ [?s]\<rparr>"
    by (auto simp: upsertSource_def getNode_def rowWith_None Let_def split: if_splits)
  have fresh: "(node, path) \<notin> (\<lambda>s. (soNode s, soPath s)) ` set (ctSources ct)"
    using None by (auto simp: findSource_def find_None_iff)
  then have "sourcesOk (ndId ` set (ctNodes ct)) (ctSources ct @ [?s])"
    using assms(2) s(1) nextRowid_fresh [of soId "ctSources ct"] by (auto simp: catalogOk_def sourcesOk_def)
  with assms(2) show ?thesis
    unfolding catalogOk_def s(2) by (auto elim!: ok_mono)
qed (use assms in \<open>simp add: upsertSource_def\<close>)

lemma insert_node_ok:
  assumes "insertPairedNode i name publicKey hostname now ct = Inr ct'" "catalogOk ct"
  shows "catalogOk ct'"
proof -
  let ?n = "\<lparr>ndId = i, ndName = name, ndPublicKey = Some publicKey, ndHostname = Some hostname,
             ndPairedAt = Some now, ndRevokedAt = None, ndRemovedAt = None\<rparr>"
  from assms(1) have f: "i \<notin> ndId ` set (ctNodes ct)" "Some publicKey \<notin> ndPublicKey ` set (ctNodes ct)"
    and c: "ct' = ct\<lparr>ctNodes := ctNodes ct @ [?n]\<rparr>"
    by (auto simp: insertPairedNode_def getNode_def rowWith_None list_ex_iff split: if_splits)
  from assms f have "nodesOk (ctNodes ct @ [?n])" by (auto simp: catalogOk_def nodesOk_def)
  with assms(2) show ?thesis
    unfolding catalogOk_def c by (auto elim!: ok_mono)
qed

lemma update_node_ok:
  assumes "\<And>n. ndId (g n) = ndId n" "\<And>n. ndPublicKey (g n) = ndPublicKey n" "catalogOk ct"
  shows "catalogOk (updateNode i g ct)"
  using assms by (simp add: catalogOk_def nodesOk_def updateNode_def)

lemma insert_grant_ok:
  "insertPairingGrant code name created expires ct = Inr (i, ct') \<Longrightarrow> catalogOk ct \<Longrightarrow> catalogOk ct'"
  using nextRowid_fresh [of gtId "ctGrants ct"]
  by (auto simp: insertPairingGrant_def catalogOk_def grantsOk_def list_ex_iff Let_def split: if_splits)

lemma consume_ok: "catalogOk ct \<Longrightarrow> catalogOk (snd (consumePairingGrant code now ct))"
  by (auto simp: consumePairingGrant_def catalogOk_def grantsOk_def intro!: all_updateRows)

lemma touch_project_ok: "catalogOk ct \<Longrightarrow> catalogOk (touchProject i now ct)"
  by (auto simp: touchProject_def catalogOk_def projectsOk_def intro!: all_updateRows)

lemma insert_project_ok:
  assumes "insertProject name base source now ct = Inr (p, ct')" "catalogOk ct"
  shows "catalogOk ct'"
proof -
  from assms(1) have s: "source \<in> soId ` set (ctSources ct)" "ct' = ct\<lparr>ctProjects := ctProjects ct @ [p], ctLastProject := Suc (ctLastProject ct)\<rparr>"
    "pjId p = Suc (ctLastProject ct)" "pjDefaultSource p = Some source"
    by (auto simp: insertProject_def getSource_def rowWith_None Let_def split: if_splits)
  have "Suc (ctLastProject ct) \<notin> pjId ` set (ctProjects ct)"
    using assms(2) by (force simp: catalogOk_def projectsOk_def list_all_iff)
  then have "projectsOk (Suc (ctLastProject ct)) (soId ` set (ctSources ct)) (ctProjects ct @ [p])"
    using assms(2) s(1,3,4) by (fastforce simp: catalogOk_def projectsOk_def list_all_iff)
  with assms(2) show ?thesis
    unfolding catalogOk_def s(2) by (auto elim!: ok_mono)
qed

lemma update_project_ok:
  assumes "updateProject i name base source ct = Inr (r, ct')" "catalogOk ct"
  shows "catalogOk ct'"
proof (cases "getProject ct i")
  case (Some existing)
  let ?src = "case source of None \<Rightarrow> pjDefaultSource existing | Some s \<Rightarrow> Some s"
  let ?g = "\<lambda>p. p\<lparr>pjName := orElse name (pjName existing), pjBaseBranch := orElse base (pjBaseBranch existing), pjDefaultSource := ?src\<rparr>"
  from Some assms(1) have c: "ct' = ct\<lparr>ctProjects := updateRows (\<lambda>p. pjId p = i) ?g (ctProjects ct)\<rparr>"
    and src: "?src = None \<or> the ?src \<in> soId ` set (ctSources ct)"
    by (auto simp: updateProject_def Let_def getSource_def rowWith_None split: if_splits)
  have "projectsOk (ctLastProject ct) (soId ` set (ctSources ct)) (updateRows (\<lambda>p. pjId p = i) ?g (ctProjects ct))"
    using assms(2) src by (auto simp: catalogOk_def projectsOk_def intro!: all_updateRows)
  with assms(2) show ?thesis by (simp add: catalogOk_def c)
qed (use assms in \<open>simp add: updateProject_def\<close>)

lemma insert_task_ok:
  assumes "insertTask project title description branch base now ct = Inr (t, ct')" "catalogOk ct"
  shows "catalogOk ct'"
proof -
  from assms(1) have s: "project \<in> pjId ` set (ctProjects ct)" "ct' = ct\<lparr>ctTasks := ctTasks ct @ [t], ctLastTask := Suc (ctLastTask ct)\<rparr>"
    "tkId t = Suc (ctLastTask ct)" "tkProject t = project"
    by (auto simp: insertTask_def getProject_def rowWith_None Let_def split: if_splits)
  have "Suc (ctLastTask ct) \<notin> tkId ` set (ctTasks ct)"
    using assms(2) by (force simp: catalogOk_def tasksOk_def list_all_iff)
  then have "tasksOk (Suc (ctLastTask ct)) (pjId ` set (ctProjects ct)) (ctTasks ct @ [t])"
    using assms(2) s(1,3,4) by (fastforce simp: catalogOk_def tasksOk_def list_all_iff)
  with assms(2) show ?thesis
    unfolding catalogOk_def s(2) by (auto elim!: ok_mono)
qed

lemma task_row_ok:
  assumes "\<And>t. tkId (g t) = tkId t" "\<And>t. tkProject (g t) = tkProject t" "catalogOk ct"
  shows "catalogOk (updateTaskRow i g ct)"
  using assms by (auto simp: catalogOk_def tasksOk_def updateTaskRow_def intro!: all_updateRows)

lemma change_session_ok:
  assumes "\<And>s. ssId (g s) = ssId s" "\<And>s. ssProject (g s) = ssProject s" "\<And>s. ssTask (g s) = ssTask s"
    "\<And>s. ssParent (g s) = ssParent s" "\<And>s. ssSource (g s) = ssSource s \<or> ssSource (g s) \<in> soId ` set (ctSources ct)"
    "\<And>s. ssActivity s \<noteq> Some ActivityRunning \<Longrightarrow> ssActivity (g s) \<noteq> Some ActivityRunning" "catalogOk ct"
  shows "catalogOk (ct\<lparr>ctSessions := updateRows P g (ctSessions ct)\<rparr>)"
proof -
  have "sessionOk ps ts (soId ` set (ctSources ct)) ids (g s)" if "sessionOk ps ts (soId ` set (ctSources ct)) ids s" for ps ts ids s
    using that assms(2-6) [of s] by (auto simp: sessionOk_def)
  with assms(1,7) show ?thesis by (auto simp: catalogOk_def sessionsOk_def intro!: all_updateRows)
qed

lemma insert_session_ok:
  assumes "insertSession i project opts now ct = Inr ct'" "catalogOk ct"
    "siTask opts = None \<or> (\<exists>t. getTask ct (the (siTask opts)) = Some t \<and> Some (tkProject t) = project)"
  shows "catalogOk ct'"
proof -
  let ?s = "insertedRow i project opts now"
  from assms(1) have c: "ct' = ct\<lparr>ctSessions := ctSessions ct @ [?s]\<rparr>" and i: "i \<notin> ssId ` set (ctSessions ct)"
    and r: "project = None \<or> the project \<in> pjId ` set (ctProjects ct)" "siSource opts \<in> soId ` set (ctSources ct)"
      "siParent opts = None \<or> the (siParent opts) \<in> ssId ` set (ctSessions ct)"
    by (auto simp: insertSession_def getProject_def getSource_def sessionRow_def rowWith_None split: if_splits)
  have t: "siTask opts = None \<or> project \<noteq> None \<and> (the (siTask opts), the project) \<in> taskKey ` set (ctTasks ct)"
    using assms(3) by (force simp: getTask_def dest: rowWith_SomeD)
  have "sessionOk (pjId ` set (ctProjects ct)) (taskKey ` set (ctTasks ct)) (soId ` set (ctSources ct)) (ssId ` set (ctSessions ct @ [?s])) ?s"
    using r t by (auto simp: sessionOk_def insertedRow_def)
  moreover have "ssId ?s = i" by (simp add: insertedRow_def)
  ultimately show ?thesis
    using assms(2) i by (auto simp: catalogOk_def sessionsOk_def c list_all_iff intro: sessionOk_mono)
qed

lemma remove_sessions_rows:
  assumes "sessionsOk ps ts srcs (ctSessions ct)"
    "\<And>s. s \<in> set (ctSessions ct) \<Longrightarrow> \<not> P s \<Longrightarrow> (ssProject s = None \<or> the (ssProject s) \<in> ps') \<and> (ssTask s = None \<or> (the (ssTask s), the (ssProject s)) \<in> ts')"
  shows "sessionsOk ps' ts' srcs (ctSessions (removeSessions P ct))"
proof -
  let ?gone = "map ssId (filter P (ctSessions ct))"
  let ?rows = "ctSessions (removeSessions P ct)"
  have ids: "map ssId ?rows = map ssId (filter (\<lambda>s. \<not> P s) (ctSessions ct))"
    by (simp add: removeSessions_def Let_def)
  have d: "distinct (map ssId ?rows)" unfolding ids using assms(1) by (simp add: sessionsOk_def distinct_map_filter)
  have "sessionOk ps' ts' srcs (ssId ` set ?rows) s'" if "s' \<in> set ?rows" for s'
  proof -
    have rows: "?rows = map (\<lambda>s. if \<exists>p\<in>set ?gone. ssParent s = Some p then s\<lparr>ssParent := None\<rparr> else s) (filter (\<lambda>s. \<not> P s) (ctSessions ct))"
      unfolding removeSessions_def updateRows_def Let_def by simp
    from that obtain s where "s \<in> set (filter (\<lambda>s. \<not> P s) (ctSessions ct))"
      and s': "s' = (if \<exists>p\<in>set ?gone. ssParent s = Some p then s\<lparr>ssParent := None\<rparr> else s)"
      unfolding rows set_map by blast
    then have s: "s \<in> set (ctSessions ct)" "\<not> P s" by simp_all
    have ok: "sessionOk ps ts srcs (ssId ` set (ctSessions ct)) s" using assms(1) s(1) by (auto simp: sessionsOk_def list_all_iff)
    have "ssParent s' = None \<or> the (ssParent s') \<in> ssId ` set ?rows"
    proof (cases "ssParent s'")
      case (Some p)
      with s' have p: "ssParent s = Some p" "p \<notin> set ?gone" by (auto split: if_splits)
      with ok have "p \<in> ssId ` set (ctSessions ct)" by (simp add: sessionOk_def)
      with p(2) have "p \<in> set (map ssId ?rows)" unfolding ids by auto
      with Some show ?thesis by simp
    qed simp
    with ok s' assms(2) [OF s] show ?thesis by (auto simp: sessionOk_def)
  qed
  with d show ?thesis by (simp add: sessionsOk_def list_all_iff)
qed

lemma remove_sessions_rest [simp]:
  "ctNodes (removeSessions P ct) = ctNodes ct" "ctSources (removeSessions P ct) = ctSources ct" "ctProjects (removeSessions P ct) = ctProjects ct"
  "ctTasks (removeSessions P ct) = ctTasks ct" "ctGrants (removeSessions P ct) = ctGrants ct" "ctLastProject (removeSessions P ct) = ctLastProject ct"
  "ctLastTask (removeSessions P ct) = ctLastTask ct"
  by (simp_all add: removeSessions_def Let_def)

lemma delete_task_ok:
  assumes "catalogOk ct"
  shows "catalogOk (snd (deleteTaskRow i ct))"
proof -
  let ?P = "\<lambda>s. ssTask s = Some i" and ?ts = "filter (\<lambda>t. tkId t \<noteq> i) (ctTasks ct)"
  have "sessionsOk (pjId ` set (ctProjects ct)) (taskKey ` set ?ts) (soId ` set (ctSources ct)) (ctSessions (removeSessions ?P ct))"
  proof (rule remove_sessions_rows)
    show "sessionsOk (pjId ` set (ctProjects ct)) (taskKey ` set (ctTasks ct)) (soId ` set (ctSources ct)) (ctSessions ct)"
      using assms by (simp add: catalogOk_def)
    then show "(ssProject s = None \<or> the (ssProject s) \<in> pjId ` set (ctProjects ct)) \<and> (ssTask s = None \<or> (the (ssTask s), the (ssProject s)) \<in> taskKey ` set ?ts)"
      if "s \<in> set (ctSessions ct)" "\<not> ssTask s = Some i" for s
      using that by (fastforce simp: sessionsOk_def list_all_iff sessionOk_def)
  qed
  moreover have "tasksOk (ctLastTask ct) (pjId ` set (ctProjects ct)) ?ts"
    using assms by (auto simp: catalogOk_def tasksOk_def list_all_iff distinct_map_filter)
  ultimately show ?thesis
    using assms by (simp add: deleteTaskRow_def Let_def catalogOk_def)
qed

lemma delete_project_ok:
  assumes "catalogOk ct"
  shows "catalogOk (snd (deleteProject i ct))"
proof -
  let ?tasks = "map tkId (filter (\<lambda>t. tkProject t = i) (ctTasks ct))"
  let ?P = "\<lambda>s. ssProject s = Some i \<or> (\<exists>t\<in>set ?tasks. ssTask s = Some t)"
  let ?ts = "filter (\<lambda>t. tkProject t \<noteq> i) (ctTasks ct)" and ?ps = "filter (\<lambda>p. pjId p \<noteq> i) (ctProjects ct)"
  have "sessionsOk (pjId ` set ?ps) (taskKey ` set ?ts) (soId ` set (ctSources ct)) (ctSessions (removeSessions ?P ct))"
  proof (rule remove_sessions_rows)
    show "sessionsOk (pjId ` set (ctProjects ct)) (taskKey ` set (ctTasks ct)) (soId ` set (ctSources ct)) (ctSessions ct)"
      using assms by (simp add: catalogOk_def)
    then show "(ssProject s = None \<or> the (ssProject s) \<in> pjId ` set ?ps) \<and> (ssTask s = None \<or> (the (ssTask s), the (ssProject s)) \<in> taskKey ` set ?ts)"
      if "s \<in> set (ctSessions ct)" "\<not> ?P s" for s
      using that by (fastforce simp: sessionsOk_def list_all_iff sessionOk_def)
  qed
  moreover have "tasksOk (ctLastTask ct) (pjId ` set ?ps) ?ts"
    using assms by (auto simp: catalogOk_def tasksOk_def list_all_iff distinct_map_filter)
  moreover have "projectsOk (ctLastProject ct) (soId ` set (ctSources ct)) ?ps"
    using assms by (auto simp: catalogOk_def projectsOk_def list_all_iff distinct_map_filter)
  ultimately show ?thesis
    using assms by (simp add: deleteProject_def Let_def catalogOk_def)
qed

subsection \<open>What the statements keep, the operations keep\<close>

text \<open>Changes of a session's row and of a node's that keep what the others refer to and what is final.\<close>

definition sessionChange :: "catalog \<Rightarrow> (sessionRecord \<Rightarrow> sessionRecord) \<Rightarrow> bool" where
  "sessionChange ct g =
     (\<forall>s. ssId (g s) = ssId s \<and> ssProject (g s) = ssProject s \<and> ssTask (g s) = ssTask s \<and> ssParent (g s) = ssParent s \<and>
        (ssSource (g s) = ssSource s \<or> ssSource (g s) \<in> soId ` set (ctSources ct)) \<and>
        (ssActivity s \<noteq> Some ActivityRunning \<longrightarrow> ssActivity (g s) \<noteq> Some ActivityRunning))"

definition nodeChange :: "(nodeRecord \<Rightarrow> nodeRecord) \<Rightarrow> bool" where
  "nodeChange g =
     (\<forall>n. ndId (g n) = ndId n \<and> ndPublicKey (g n) = ndPublicKey n \<and> (ndRemovedAt n = None \<or> ndRemovedAt (g n) = ndRemovedAt n) \<and>
        (ndRevokedAt n = None \<or> ndRevokedAt (g n) = ndRevokedAt n))"

lemma stCatalog_simps [simp]:
  "stCatalog (broadcast es st) = stCatalog st" "stCatalog (closeRuntimes ids st) = stCatalog st" "stCatalog (publishNode i code st) = stCatalog st"
  by (simp_all add: broadcast_def closeRuntimes_def publishNode_def split: option.split)

lemma stCatalog_publishEach: "stCatalog (fold (\<lambda>i. publishNode i None) ids st) = stCatalog st"
  by (induction ids arbitrary: st) simp_all

lemma stCatalog_publish [simp]: "stCatalog (publishChanged before st) = stCatalog st"
  by (simp add: publishChanged_def Let_def stCatalog_publishEach)

lemma assertPlace_task:
  "assertPlace ct project task placed = None \<Longrightarrow> task = None \<or> (\<exists>t. getTask ct (the task) = Some t \<and> Some (tkProject t) = project)"
  by (auto simp: assertPlace_def split: if_splits option.splits)

lemma create_catalog:
  obtains (refused) "stCatalog (snd (createSession env i now opts st)) = stCatalog st"
  | (kept) model thinking kind source ct1 where
      "assertPlace (stCatalog st) (scProject opts) (scTask opts) (scSource opts \<noteq> None \<or> scParent opts \<noteq> None) = None"
      "keepSession i now opts model thinking kind source (stCatalog st) = Inr ct1"
      "stCatalog (snd (createSession env i now opts st)) \<in> {ct1, touchLists now opts ct1}"
proof (cases "assertPlace (stCatalog st) (scProject opts) (scTask opts) (scSource opts \<noteq> None \<or> scParent opts \<noteq> None)")
  case None
  show ?thesis
  proof (cases "orElse (scKind opts) ''agent'' \<in> set (evKinds env)")
    case kind: True
    show ?thesis
    proof (cases "sessionPlacement (stCatalog st) opts")
      case (Inr source)
      show ?thesis
      proof (cases "seedOf env opts")
        case seed: (Inr seed)
        obtain model thinking where mt: "seed = (model, thinking)" by (cases seed)
        show ?thesis
        proof (cases "keepSession i now opts model thinking (orElse (scKind opts) ''agent'') (soId source) (stCatalog st)")
          case (Inl e)
          show ?thesis
            by (rule refused) (simp add: createSession_def Let_def None [simplified] kind Inr seed mt Inl)
        next
          case keep: (Inr ct1)
          show ?thesis
            by (rule kept [OF None keep]) (simp add: createSession_def Let_def None [simplified] kind Inr seed mt keep)
        qed
      qed (rule refused, simp add: createSession_def Let_def None [simplified] kind Inr)
    qed (rule refused, simp add: createSession_def Let_def None [simplified] kind)
  qed (rule refused, simp add: createSession_def Let_def None [simplified])
qed (rule refused, simp add: createSession_def Let_def)

lemma pairNodeE:
  assumes "pairNode code publicKey hostname i now ct = Inr (r, ct')"
  obtains g given ct1 ct2 where "consumePairingGrant code now ct = (Some (g, given), ct1)"
    "insertPairedNode i (orElse given hostname) publicKey hostname now ct1 = Inr ct2" "ct' = setPairingGrantNode g i ct2"
    "ctGrants ct2 = ctGrants ct1" "r = (g, orElse given hostname)"
proof -
  obtain g given ct1 where c: "consumePairingGrant code now ct = (Some (g, given), ct1)"
    using assms by (auto simp: pairNode_def split: prod.splits option.splits)
  obtain ct2 where n: "insertPairedNode i (orElse given hostname) publicKey hostname now ct1 = Inr ct2"
    and r: "ct' = setPairingGrantNode g i ct2" "r = (g, orElse given hostname)"
    using assms by (auto simp: pairNode_def c Let_def split: sum.splits dbError.splits)
  have "ctGrants ct2 = ctGrants ct1" using n by (auto simp: insertPairedNode_def split: if_splits)
  with c n r show thesis by (intro that)
qed

locale catalog_relation =
  fixes R :: "catalog \<Rightarrow> catalog \<Rightarrow> bool"
  assumes same: "R ct ct"
    and chain: "R a b \<Longrightarrow> R b c \<Longrightarrow> R a c"
    and upsert: "upsertSource node path ct = Inr (s, ct') \<Longrightarrow> R ct ct'"
    and insert_node: "insertPairedNode i name publicKey hostname now ct = Inr ct' \<Longrightarrow> R ct ct'"
    and node_change: "nodeChange g \<Longrightarrow> R ct (updateNode i g ct)"
    and insert_grant: "insertPairingGrant code gname created expires ct = Inr (n, ct') \<Longrightarrow> R ct ct'"
    and consume: "R ct (snd (consumePairingGrant code now ct))"
    and grant_node: "consumePairingGrant code now ct = (Some (n, given), ct1) \<Longrightarrow> ctGrants ct2 = ctGrants ct1 \<Longrightarrow> R ct2 (setPairingGrantNode n i ct2)"
    and insert_project: "insertProject name base source now ct = Inr (p, ct') \<Longrightarrow> R ct ct'"
    and update_project: "updateProject n oname obase osource ct = Inr (r, ct') \<Longrightarrow> R ct ct'"
    and touch_project: "R ct (touchProject n now ct)"
    and delete_project: "R ct (snd (deleteProject n ct))"
    and insert_task: "insertTask n title description branch commit now ct = Inr (t, ct') \<Longrightarrow> R ct ct'"
    and task_change: "(\<And>t. taskKey (h t) = taskKey t) \<Longrightarrow> R ct (updateTaskRow n h ct)"
    and delete_task: "R ct (snd (deleteTaskRow n ct))"
    and insert_session: "insertSession i project opts now ct = Inr ct' \<Longrightarrow>
      siTask opts = None \<or> (\<exists>t. getTask ct (the (siTask opts)) = Some t \<and> Some (tkProject t) = project) \<Longrightarrow> R ct ct'"
    and session_change: "sessionChange ct k \<Longrightarrow> R ct (ct\<lparr>ctSessions := updateRows P k (ctSessions ct)\<rparr>)"
begin

definition keeps :: "(serverState \<Rightarrow> serverState) \<Rightarrow> bool" where
  "keeps f = (\<forall>st. R (stCatalog st) (stCatalog (f st)))"

lemma keptBy: "keeps f \<Longrightarrow> R (stCatalog st) (stCatalog (f st))"
  by (simp add: keeps_def)

lemma keeps_inTurn: "\<forall>f\<in>set fs. keeps f \<Longrightarrow> keeps (inTurn fs)"
proof (induction fs)
  case (Cons f fs)
  then show ?case by (auto simp: keeps_def inTurn_def intro: chain)
qed (simp add: keeps_def inTurn_def same)

lemma after: "R ct a \<Longrightarrow> keeps f \<Longrightarrow> stCatalog st = a \<Longrightarrow> R ct (stCatalog (f st))"
  using chain keptBy by blast

lemma ensure_keeps:
  assumes "keeps later"
  shows "R (stCatalog st) (stCatalog (snd (ensureSource check later node path st)))"
  using keptBy [OF assms, of st] chain [OF keptBy [OF assms, of st] upsert]
  by (simp add: ensureSource_def same Let_def split: sum.split option.split prod.split)

lemma session_row_keeps: "sessionChange ct k \<Longrightarrow> R ct (changeSession i k ct)"
  by (simp add: changeSession_def session_change)

lemma meta_keeps: "R ct (updateSessionMeta i u now ct)"
  by (auto simp: updateSessionMeta_def sessionChange_def intro!: session_row_keeps same split: option.split)

lemma metadata_keeps: "R ct (snd (updateSessionMetadata i u now ct))"
  by (auto simp: updateSessionMetadata_def sessionChange_def intro!: session_row_keeps same)

lemma activity_keeps: "R ct (snd (storeActivity i unread ct))"
  by (auto simp: storeActivity_def sessionChange_def intro!: session_row_keeps same)

lemma clear_keeps: "R ct (snd (clearFinishedActivityForTasks tasks ct))"
  by (auto simp: clearFinishedActivityForTasks_def sessionChange_def Let_def intro!: session_change)

lemma touch_keeps: "R ct (touchLists now opts ct)"
proof -
  have t: "R c (touchTask n now c)" for n c by (simp add: touchTask_def task_change)
  show ?thesis
    unfolding touchLists_def Let_def
    by (cases "scTask opts"; cases "scProject opts") (auto intro: same t touch_project chain [OF t touch_project])
qed

lemma keep_session_keeps:
  assumes "keepSession i now opts model thinking kind source ct = Inr ct'"
    "scTask opts = None \<or> (\<exists>t. getTask ct (the (scTask opts)) = Some t \<and> Some (tkProject t) = scProject opts)"
  shows "R ct ct'"
proof (cases "insertSession i (scProject opts) (insertOf opts model thinking kind source) now ct")
  case (Inr ct1)
  have t: "siTask (insertOf opts model thinking kind source) = scTask opts" by (simp add: insertOf_def)
  have "R ct ct1" using insert_session [OF Inr] assms(2) unfolding t by blast
  moreover have "ct' = ct1 \<or> (\<exists>u. ct' = updateSessionMeta i u now ct1)"
    using assms(1) by (auto simp: keepSession_def Inr split: option.splits)
  ultimately show ?thesis using chain [OF _ meta_keeps] by blast
qed (use assms in \<open>simp add: keepSession_def\<close>)

lemma create_keeps: "R (stCatalog st) (stCatalog (snd (createSession env i now opts st)))"
proof (cases rule: create_catalog [of env i now opts st])
  case (kept model thinking kind source ct1)
  have k: "R (stCatalog st) ct1" by (rule keep_session_keeps [OF kept(2) assertPlace_task [OF kept(1)]])
  with kept(3) show ?thesis using chain [OF k touch_keeps] by auto
qed (simp add: same)

lemma requested_keeps:
  assumes "keeps later"
  shows "R (stCatalog st) (stCatalog (snd (requestedSource check later place st)))"
proof (cases place)
  case (PlaceLocation node path)
  show ?thesis
    using ensure_keeps [OF assms, of st check node path]
    by (cases "ensureSource check later node path st")
      (auto simp: requestedSource_def PlaceLocation split: sum.splits catalogError.splits pathError.splits)
qed (auto simp: requestedSource_def same split: option.split)

lemma request_keeps:
  assumes "keeps modelLater" "keeps later"
  shows "R (stCatalog st) (stCatalog (snd (requestSession env check modelLater later i now rq st)))"
proof -
  let ?st1 = "if rqModel rq \<noteq> None then modelLater st else st"
  have m: "R (stCatalog st) (stCatalog ?st1)" using keptBy [OF assms(1)] same by simp
  obtain r st2 where q: "requestedSource check later (rqPlace rq) ?st1 = (r, st2)" by (meson surj_pair)
  have two: "R (stCatalog st) (stCatalog st2)"
    by (rule chain [OF m]) (use requested_keeps [OF assms(2), of ?st1 check "rqPlace rq"] q in simp)
  show ?thesis
    unfolding requestSession_def Let_def q
    using m two chain [OF two create_keeps]
    by (simp add: same keptBy [OF assms(1)] split: option.split sum.split)
qed

lemma update_activity_keeps: "R (stCatalog st) (stCatalog (snd (sessionsUpdateActivity i unread st)))"
  using activity_keeps [of "stCatalog st" i unread]
  by (auto simp: sessionsUpdateActivity_def same split: option.split prod.split bool.split)

lemma unread_keeps: "R (stCatalog st) (stCatalog (snd (setUnread i unread st)))"
  using update_activity_keeps [of st i unread] by (auto simp: setUnread_def same split: option.split)

lemma update_metadata_keeps: "R (stCatalog st) (stCatalog (snd (updateMetadata i u now st)))"
  using metadata_keeps [of "stCatalog st" i u now]
  by (auto simp: updateMetadata_def same split: option.split prod.split bool.split)

lemma repoint_keeps: "R (stCatalog st) (stCatalog (snd (requestSessionMove i source st)))"
  by (auto simp: requestSessionMove_def same getSource_def rowWith_None sessionChange_def intro!: session_row_keeps split: option.split)

lemma move_keeps:
  assumes "keeps later" "keeps closing"
  shows "R (stCatalog st) (stCatalog (snd (moveSession check later closing i node path st)))"
proof -
  obtain r st1 where e: "ensureSource check later node path st = (r, st1)" by (meson surj_pair)
  with ensure_keeps [OF assms(1), of st check node path] have one: "R (stCatalog st) (stCatalog st1)" by simp
  show ?thesis
  proof (cases r)
    case (Inr source)
    obtain r2 st2 where m: "requestSessionMove i (soId source) st1 = (r2, st2)" by (meson surj_pair)
    have two: "R (stCatalog st) (stCatalog st2)"
      by (rule chain [OF one]) (use repoint_keeps [of st1 i "soId source"] m in simp)
    have three: "R (stCatalog st) (stCatalog (closing (closeRuntimes [i] (publishChanged (stCatalog st1) st2))))"
      by (rule after [OF two assms(2)]) simp
    show ?thesis
      unfolding moveSession_def Let_def
      using two three by (simp add: e Inr m same split: sum.split option.split)
  qed (use one in \<open>simp add: moveSession_def e same\<close>)
qed

lemma model_keeps:
  assumes "keeps later" "keeps (\<lambda>st. snd (setting st))"
  shows "R (stCatalog st) (stCatalog (snd (setModel env messages later setting i ch now st)))"
proof -
  have one: "R (stCatalog st) (stCatalog (later st))" by (rule keptBy [OF assms(1)])
  obtain a st2 where s: "setting (later st) = (a, st2)" by (meson surj_pair)
  have two: "R (stCatalog st) (stCatalog st2)"
    by (rule chain [OF one]) (use keptBy [OF assms(2), of "later st"] s in simp)
  show ?thesis
    unfolding setModel_def Let_def
    using one two chain [OF two meta_keeps]
    by (simp add: s same split: option.split sum.split)
qed

lemma new_task_keeps: "R (stCatalog st) (stCatalog (snd (createTask p title description branch ending now st)))"
  by (auto simp: createTask_def Let_def same intro: insert_task split: sum.split prod.split)

lemma update_task_keeps: "R ct (snd (updateTask i title description base now ct))"
  by (auto simp: updateTask_def Let_def same intro!: task_change split: option.split)

lemma change_task_keeps: "R (stCatalog st) (stCatalog (snd (changeTask p i title description base now st)))"
  using update_task_keeps [of "stCatalog st" i title description base now]
  by (auto simp: changeTask_def same split: option.split prod.split)

lemma status_keeps: "R ct (snd (setTaskStatus i status now ct))"
  by (auto simp: setTaskStatus_def Let_def same intro!: task_change)

lemma close_task_keeps: "R (stCatalog st) (stCatalog (snd (closeTask p i now st)))"
proof -
  obtain r ct where s: "setTaskStatus i TaskClosed now (stCatalog st) = (r, ct)" by (meson surj_pair)
  with status_keeps [of "stCatalog st" i TaskClosed now] have one: "R (stCatalog st) ct" by simp
  obtain cleared ct1 where c: "clearFinishedActivityForTasks [i] ct = (cleared, ct1)" by (meson surj_pair)
  have two: "R (stCatalog st) ct1"
    by (rule chain [OF one]) (use clear_keeps [of ct "[i]"] c in simp)
  from one two show ?thesis by (simp add: closeTask_def s c same split: option.split)
qed

lemma reopen_task_keeps: "R (stCatalog st) (stCatalog (snd (reopenTask p i now st)))"
  using status_keeps [of "stCatalog st" i TaskOpen now]
  by (auto simp: reopenTask_def same split: option.split prod.split)

lemma delete_task_keeps:
  assumes "keeps closing"
  shows "R (stCatalog st) (stCatalog (snd (deleteTask closing p i st)))"
proof -
  have "R (stCatalog st) (stCatalog (closing (closeRuntimes ids st)))" for ids
    by (rule after [OF same assms]) simp
  then show ?thesis
    using chain [OF _ delete_task] by (simp add: deleteTask_def Let_def same split: option.split)
qed

lemma new_project_keeps:
  assumes "keeps later" "keeps detecting"
  shows "R (stCatalog st) (stCatalog (snd (newProject check later detecting detected name node path base now st)))"
proof -
  obtain r st1 where e: "ensureSource check later node path st = (r, st1)" by (meson surj_pair)
  with ensure_keeps [OF assms(1), of st check node path] have one: "R (stCatalog st) (stCatalog st1)" by simp
  have two: "R (stCatalog st) (stCatalog (if truthyStr base then st1 else detecting st1))"
    using one after [OF one assms(2)] by simp
  show ?thesis
    unfolding newProject_def Let_def e
    using one two chain [OF two insert_project] by (simp split: sum.split prod.split if_splits)
qed

lemma change_project_keeps:
  assumes "keeps later"
  shows "R (stCatalog st) (stCatalog (snd (changeProject check later i ch st)))"
proof -
  let ?ask = "case pcSource ch of None \<Rightarrow> (Inr None, st) | Some (node, path) \<Rightarrow> apfst (map_sum id Some) (ensureSource check later node path st)"
  obtain r st1 where e: "?ask = (r, st1)" by (meson surj_pair)
  have "R (stCatalog st) (stCatalog (snd ?ask))"
    using ensure_keeps [OF assms, of st check] by (simp add: same split: option.split prod.split)
  then have one: "R (stCatalog st) (stCatalog st1)" by (simp add: e)
  show ?thesis
    unfolding changeProject_def e
    using one chain [OF one update_project] by (simp add: same split: sum.split prod.split option.split)
qed

lemma remove_project_keeps:
  assumes "keeps closing"
  shows "R (stCatalog st) (stCatalog (snd (removeProject closing i st)))"
proof -
  let ?st1 = "closing (closeRuntimes (sessionIdsInProject (stCatalog st) i) st)"
  have one: "R (stCatalog st) (stCatalog ?st1)" by (rule after [OF same assms]) simp
  obtain r ct where d: "deleteProject i (stCatalog ?st1) = (r, ct)" by (meson surj_pair)
  have "R (stCatalog st) ct" by (rule chain [OF one]) (use delete_project [of "stCatalog ?st1" i] d in simp)
  then show ?thesis by (simp add: removeProject_def Let_def d same split: bool.split)
qed

lemma rename_keeps: "R (stCatalog st) (stCatalog (snd (renameNode row name st)))"
  by (auto simp: renameNode_def Let_def same setNodeName_def nodeChange_def intro!: node_change split: option.split)

lemma revoke_keeps: "R (stCatalog st) (stCatalog (snd (revokeNode row now st)))"
  by (auto simp: revokeNode_def same setNodeRevoked_def nodeChange_def orElse_def intro!: node_change split: option.splits)

lemma remove_node_keeps: "R (stCatalog st) (stCatalog (snd (removeNode i now st)))"
  by (auto simp: removeNode_def Let_def same setNodeRemoved_def nodeChange_def orElse_def intro!: node_change split: option.splits)

lemma code_keeps: "R (stCatalog st) (stCatalog (snd (createCode code name now st)))"
  by (auto simp: createCode_def same intro: insert_grant split: sum.split prod.split)

lemma pair_keeps:
  assumes "pairNode code publicKey hostname i now ct = Inr (r, ct')"
  shows "R ct ct'"
proof -
  obtain g given ct1 ct2 where c: "consumePairingGrant code now ct = (Some (g, given), ct1)"
    and n: "insertPairedNode i (orElse given hostname) publicKey hostname now ct1 = Inr ct2" and ct': "ct' = setPairingGrantNode g i ct2"
    and gs: "ctGrants ct2 = ctGrants ct1"
    by (rule pairNodeE [OF assms])
  have "R ct ct1" using consume [of ct code now] c by simp
  from chain [OF chain [OF this insert_node [OF n]] grant_node [OF c gs]] show ?thesis by (simp add: ct')
qed

lemma redeem_keeps: "R (stCatalog st) (stCatalog (snd (redeemCode validKey code publicKey hostname i now st)))"
  by (auto simp: redeemCode_def same intro: pair_keeps split: sum.split prod.split)

lemma on_node_keeps: "(\<And>row. R (stCatalog st) (stCatalog (snd (act row st)))) \<Longrightarrow> R (stCatalog st) (stCatalog (onNodeRow i act st))"
  by (simp add: onNodeRow_def same split: option.split)

theorem op_keeps: "keeps (runOp op)"
proof (induction op)
  case (DoRequest env check a b i now rq)
  then show ?case by (simp add: keeps_def) (intro allI request_keeps keeps_inTurn; auto simp: keeps_def)
next
  case (DoMove check a b i node path)
  then show ?case by (simp add: keeps_def) (intro allI move_keeps keeps_inTurn; auto simp: keeps_def)
next
  case (DoSetModel env messages a answer b i ch now)
  then have "keeps (inTurn (map runOp a))" "keeps (inTurn (map runOp b))" by (auto intro!: keeps_inTurn)
  then show ?case
    using model_keeps [of "inTurn (map runOp a)" "\<lambda>st. (answer, inTurn (map runOp b) st)"] by (simp add: keeps_def)
next
  case (DoDeleteTask a p i)
  then show ?case by (simp add: keeps_def) (intro allI delete_task_keeps keeps_inTurn; auto simp: keeps_def)
next
  case (DoNewProject check a b detected name node path base now)
  then show ?case by (simp add: keeps_def) (intro allI new_project_keeps keeps_inTurn; auto simp: keeps_def)
next
  case (DoChangeProject check a i ch)
  then show ?case by (simp add: keeps_def) (intro allI change_project_keeps keeps_inTurn; auto simp: keeps_def)
next
  case (DoRemoveProject a i)
  then show ?case by (simp add: keeps_def) (intro allI remove_project_keeps keeps_inTurn; auto simp: keeps_def)
qed (simp_all add: keeps_def create_keeps update_activity_keeps unread_keeps update_metadata_keeps new_task_keeps change_task_keeps
    close_task_keeps reopen_task_keeps on_node_keeps rename_keeps revoke_keeps remove_node_keeps code_keeps redeem_keeps same)

theorem ops_keep: "R (stCatalog st) (stCatalog (runOps ops st))"
  using keptBy [OF keeps_inTurn, of "map runOp ops" st] op_keeps by (simp add: runOps_def)

end

subsection \<open>The two relations\<close>

definition integrityKept :: "catalog \<Rightarrow> catalog \<Rightarrow> bool" where
  "integrityKept a b = (catalogOk a \<longrightarrow> catalogOk b)"

definition nodeKept :: "nodeRecord \<Rightarrow> nodeRecord \<Rightarrow> bool" where
  "nodeKept n n' = (ndPublicKey n' = ndPublicKey n \<and> (ndRemovedAt n = None \<or> ndRemovedAt n' = ndRemovedAt n) \<and>
     (ndRevokedAt n = None \<or> ndRevokedAt n' = ndRevokedAt n))"

definition grantKept :: "grantRecord \<Rightarrow> grantRecord \<Rightarrow> bool" where
  "grantKept g g' = (gtId g' = gtId g \<and> gtCode g' = gtCode g \<and> (gtConsumedAt g = None \<or> gtConsumedAt g' = gtConsumedAt g))"

definition finalKept :: "catalog \<Rightarrow> catalog \<Rightarrow> bool" where
  "finalKept a b =
     ((\<forall>i n. getNode a i = Some n \<longrightarrow> (\<exists>n'. getNode b i = Some n' \<and> nodeKept n n')) \<and>
      (\<forall>g\<in>set (ctGrants a). \<exists>g'\<in>set (ctGrants b). grantKept g g'))"

lemma grant_node_ok:
  assumes "consumePairingGrant code now ct = (Some (n, given), ct1)" "ctGrants ct2 = ctGrants ct1" "catalogOk ct2"
  shows "catalogOk (setPairingGrantNode n i ct2)"
proof -
  from assms(1) obtain g where f: "find (redeemable code now) (ctGrants ct) = Some g" and gn: "gtId g = n"
    and ct1: "ctGrants ct1 = updateRows (redeemable code now) (\<lambda>g. g\<lparr>gtConsumedAt := Some now\<rparr>) (ctGrants ct)"
    by (auto simp: consumePairingGrant_def)
  note g = find_SomeD [OF f] gn
  have d: "distinct (map gtId (ctGrants ct))"
    using assms(3) by (simp add: catalogOk_def grantsOk_def assms(2) ct1)
  have "gtConsumedAt h \<noteq> None" if "h \<in> set (ctGrants ct2)" "gtId h = n" for h
  proof -
    from that obtain h0 where h0: "h0 \<in> set (ctGrants ct)" "h = (if redeemable code now h0 then h0\<lparr>gtConsumedAt := Some now\<rparr> else h0)"
      by (auto simp: assms(2) ct1 updateRows_def)
    with that(2) g(3) have "gtId h0 = gtId g" by (auto split: if_splits)
    then have "h0 = g" by (rule distinct_key [OF d h0(1) g(1)])
    with h0 g show ?thesis by simp
  qed
  with assms(3) show ?thesis
    by (auto simp: catalogOk_def grantsOk_def setPairingGrantNode_def intro!: all_updateRows)
qed

interpretation integrity: catalog_relation integrityKept
proof (unfold_locales, unfold integrityKept_def)
  fix ct :: catalog and g :: "nodeRecord \<Rightarrow> nodeRecord" and i assume "nodeChange g"
  then show "catalogOk ct \<longrightarrow> catalogOk (updateNode i g ct)" by (auto simp: nodeChange_def intro: update_node_ok)
next
  fix ct :: catalog and k P assume "sessionChange ct k"
  then show "catalogOk ct \<longrightarrow> catalogOk (ct\<lparr>ctSessions := updateRows P k (ctSessions ct)\<rparr>)"
    by (auto simp: sessionChange_def intro!: change_session_ok)
next
  fix h :: "taskRecord \<Rightarrow> taskRecord" and ct n assume "\<And>t. taskKey (h t) = taskKey t"
  then show "catalogOk ct \<longrightarrow> catalogOk (updateTaskRow n h ct)" by (auto intro: task_row_ok)
qed (auto intro: upsert_ok insert_node_ok insert_grant_ok consume_ok grant_node_ok insert_project_ok update_project_ok touch_project_ok
    delete_project_ok insert_task_ok delete_task_ok insert_session_ok)

lemma kept_refl [simp]: "nodeKept n n" "grantKept g g"
  by (simp_all add: nodeKept_def grantKept_def)

lemma grants_self [simp]: "\<forall>g\<in>set gs. \<exists>g'\<in>set gs. grantKept g g'" "g \<in> set gs \<Longrightarrow> \<exists>g'\<in>set gs. grantKept g g'"
  by (meson kept_refl)+

lemma kept_trans: "nodeKept n n' \<Longrightarrow> nodeKept n' n'' \<Longrightarrow> nodeKept n n''" "grantKept g g' \<Longrightarrow> grantKept g' g'' \<Longrightarrow> grantKept g g''"
  by (auto simp: nodeKept_def grantKept_def)

lemma final_trans: "finalKept a b \<Longrightarrow> finalKept b c \<Longrightarrow> finalKept a c"
  unfolding finalKept_def by (meson kept_trans)

lemma final_same: "ctNodes b = ctNodes a \<Longrightarrow> ctGrants b = ctGrants a \<Longrightarrow> finalKept a b"
  by (auto simp: finalKept_def getNode_def)

lemma rowWith_append: "rowWith f k (xs @ ys) = (case rowWith f k xs of None \<Rightarrow> rowWith f k ys | Some r \<Rightarrow> Some r)"
  by (induction xs) (auto simp: rowWith_def)

lemma final_grants:
  assumes "ctNodes b = ctNodes a" "ctGrants b = updateRows P g (ctGrants a)" "\<And>r. P r \<Longrightarrow> grantKept r (g r)"
  shows "finalKept a b"
proof -
  have "\<exists>g'\<in>set (ctGrants b). grantKept r g'" if "r \<in> set (ctGrants a)" for r
  proof
    show "(if P r then g r else r) \<in> set (ctGrants b)" using that by (simp add: assms(2) updateRows_def)
    show "grantKept r (if P r then g r else r)" using assms(3) by simp
  qed
  with assms(1) show ?thesis by (simp add: finalKept_def getNode_def)
qed

interpretation final: catalog_relation finalKept
proof
  fix node path ct s ct' assume "upsertSource node path ct = Inr (s, ct')"
  then show "finalKept ct ct'"
    by (auto simp: upsertSource_def Let_def intro: final_same split: option.splits if_splits)
next
  fix i name publicKey hostname now ct ct' assume "insertPairedNode i name publicKey hostname now ct = Inr ct'"
  then show "finalKept ct ct'"
    by (auto simp: insertPairedNode_def finalKept_def getNode_def rowWith_append split: if_splits)
next
  fix g :: "nodeRecord \<Rightarrow> nodeRecord" and ct i assume g: "nodeChange g"
  then have "getNode (updateNode i g ct) j = map_option (\<lambda>n. if ndId n = i then g n else n) (getNode ct j)" for j
    by (simp add: nodeChange_def getNode_def updateNode_def rowWith_updateRows)
  with g show "finalKept ct (updateNode i g ct)"
    by (auto simp: finalKept_def nodeChange_def nodeKept_def updateNode_def)
next
  fix code gname created expires ct n ct' assume "insertPairingGrant code gname created expires ct = Inr (n, ct')"
  then show "finalKept ct ct'"
    by (auto simp: insertPairingGrant_def Let_def finalKept_def getNode_def split: if_splits)
next
  fix ct code now
  show "finalKept ct (snd (consumePairingGrant code now ct))"
    by (rule final_grants [of _ _ "redeemable code now" "\<lambda>g. g\<lparr>gtConsumedAt := Some now\<rparr>"])
      (auto simp: consumePairingGrant_def redeemable_def grantKept_def)
next
  fix n i ct2
  show "finalKept ct2 (setPairingGrantNode n i ct2)"
    by (rule final_grants [of _ _ "\<lambda>g. gtId g = n" "\<lambda>g. g\<lparr>gtNode := Some i\<rparr>"]) (auto simp: setPairingGrantNode_def grantKept_def)
qed (auto intro: final_trans final_same simp: insertProject_def updateProject_def touchProject_def deleteProject_def insertTask_def
    updateTaskRow_def deleteTaskRow_def insertSession_def Let_def split: if_splits option.splits)

end
