(* ===== verification/Submission_Chain.thy ===== *)
theory Submission_Chain
  imports Reins_Prelude
begin

text \<open>
  Submissions of a session, one at a time: \<open>submitToSession\<close> and \<open>inSessionOrder\<close> of
  \<^verbatim>\<open>packages/backend/src/models/sessions.ts\<close>, with the process's map \<open>OpenSessions.submissions\<close>. A job is one call of
  \<open>inSessionOrder\<close>, numbered by its place in \<open>chJobs\<close>; \<open>cjAfter\<close> is the job whose tail its promise was chained on.
  Promise reactions are steps of their own: a job starts some time after the tail it waits for settled, and the
  deletion that follows a tail's settling is a step too. What the work does is outside.
\<close>

subsection \<open>What is submitted\<close>

datatype submissionOp = OpPrompt | OpSteer

record submission =
  sbOp :: submissionOp
  sbContent :: json
  sbClientId :: string
  sbSourceSession :: "string option"
  sbSourceExtension :: "string option"
  sbDetails :: "(nat \<times> string option) option"
  sbMetadata :: "(string, json) jsmap"

datatype submitError = PromptTooLarge nat

definition maxPromptContentBytes :: nat where
  "maxPromptContentBytes = 8 * 1024 * 1024"

definition orNull :: "string option \<Rightarrow> json" where
  "orNull v = (case v of None \<Rightarrow> JNull | Some s \<Rightarrow> JStr s)"

definition submissionMetadata :: "submission \<Rightarrow> (string, json) jsmap" where
  "submissionMetadata inp =
     (let m0 = fold (\<lambda>(k, v). jmSet k v) (sbMetadata inp) [];
          m1 = (if truthyStr (sbSourceSession inp) then jmSet ''sourceSessionId'' (JStr (the (sbSourceSession inp))) m0 else m0);
          m2 = (if truthyStr (sbSourceExtension inp) then jmSet ''sourceExtension'' (JStr (the (sbSourceExtension inp))) m1 else m1)
      in case sbDetails inp of
           None \<Rightarrow> m2
         | Some (from, lab) \<Rightarrow> jmSet ''details'' (JObj [(''label'', orNull lab), (''start'', JNum (of_nat from))]) m2)"

record submitOptions =
  soReinsId :: string
  soMetadata :: "(string, json) jsmap option"

text \<open>The bytes are those of the content's JSON. What is left to do enters the session's chain.\<close>

definition submitToSession :: "nat \<Rightarrow> submission \<Rightarrow> submitError + submissionOp \<times> json \<times> submitOptions" where
  "submitToSession bytes inp =
     (if maxPromptContentBytes < bytes then Inl (PromptTooLarge bytes)
      else (let m = submissionMetadata inp
            in Inr (sbOp inp, sbContent inp, \<lparr>soReinsId = sbClientId inp, soMetadata = (if m = [] then None else Some m)\<rparr>)))"

subsection \<open>The chain\<close>

datatype jobStage = JobWaiting | JobRunning | JobSettled bool

record chainJob =
  cjSession :: string
  cjAfter :: "nat option"
  cjStage :: jobStage
  cjCleaned :: bool

record chains =
  chJobs :: "chainJob list"
  chMap :: "(string, nat) jsmap"

definition noChains :: chains where
  "noChains = \<lparr>chJobs = [], chMap = []\<rparr>"

definition inSessionOrder :: "string \<Rightarrow> chains \<Rightarrow> chains" where
  "inSessionOrder s ch =
     ch\<lparr>chJobs := chJobs ch @ [\<lparr>cjSession = s, cjAfter = jmGet (chMap ch) s, cjStage = JobWaiting, cjCleaned = False\<rparr>],
        chMap := jmSet s (length (chJobs ch)) (chMap ch)\<rparr>"

definition isSettled :: "jobStage \<Rightarrow> bool" where
  "isSettled st = (case st of JobSettled _ \<Rightarrow> True | _ \<Rightarrow> False)"

definition settledJob :: "chains \<Rightarrow> nat \<Rightarrow> bool" where
  "settledJob ch i = (i < length (chJobs ch) \<and> isSettled (cjStage (chJobs ch ! i)))"

definition setJobStage :: "nat \<Rightarrow> jobStage \<Rightarrow> chains \<Rightarrow> chains" where
  "setJobStage i st ch = ch\<lparr>chJobs := (chJobs ch)[i := (chJobs ch ! i)\<lparr>cjStage := st\<rparr>]\<rparr>"

definition cleanTail :: "nat \<Rightarrow> chains \<Rightarrow> chains" where
  "cleanTail i ch =
     (let s = cjSession (chJobs ch ! i); ch1 = ch\<lparr>chJobs := (chJobs ch)[i := (chJobs ch ! i)\<lparr>cjCleaned := True\<rparr>]\<rparr>
      in if jmGet (chMap ch) s = Some i then ch1\<lparr>chMap := jmDelete s (chMap ch)\<rparr> else ch1)"

subsection \<open>Steps\<close>

datatype chainEvent =
    Enters string
  | Starts nat
  | Finishes nat bool
  | Cleans nat

definition jobAt :: "chains \<Rightarrow> nat \<Rightarrow> (chainJob \<Rightarrow> bool) \<Rightarrow> bool" where
  "jobAt ch i P = (i < length (chJobs ch) \<and> P (chJobs ch ! i))"

definition mayStart :: "chains \<Rightarrow> chainJob \<Rightarrow> bool" where
  "mayStart ch j = (cjStage j = JobWaiting \<and> (case cjAfter j of None \<Rightarrow> True | Some p \<Rightarrow> settledJob ch p))"

inductive chainStep :: "chains \<Rightarrow> chainEvent \<Rightarrow> chains \<Rightarrow> bool" where
  enters: "chainStep ch (Enters s) (inSessionOrder s ch)"
| starts: "jobAt ch i (mayStart ch) \<Longrightarrow> chainStep ch (Starts i) (setJobStage i JobRunning ch)"
| finishes: "jobAt ch i (\<lambda>j. cjStage j = JobRunning) \<Longrightarrow> chainStep ch (Finishes i ok) (setJobStage i (JobSettled ok) ch)"
| cleans: "jobAt ch i (\<lambda>j. isSettled (cjStage j) \<and> \<not> cjCleaned j) \<Longrightarrow> chainStep ch (Cleans i) (cleanTail i ch)"

inductive chainsReach :: "chains \<Rightarrow> bool" where
  no_chains: "chainsReach noChains"
| one_step: "chainsReach ch \<Longrightarrow> chainStep ch ev ch' \<Longrightarrow> chainsReach ch'"

inductive_cases chainStepE: "chainStep ch ev ch'"

end
