(* ===== verification/Chain_Laws.thy ===== *)
theory Chain_Laws
  imports Submission_Chain
begin

text \<open>
  What a session's chain of submissions keeps: jobs of a session run one at a time in the order they entered, the
  process's map holds the session for exactly as long as one of them is unfinished, and nothing gets stuck.
\<close>

subsection \<open>The invariant\<close>

abbreviation jobSession :: "chains \<Rightarrow> nat \<Rightarrow> string" where
  "jobSession ch i \<equiv> cjSession (chJobs ch ! i)"

definition chainOrdered :: "chains \<Rightarrow> bool" where
  "chainOrdered ch = (\<forall>j<length (chJobs ch). \<forall>i<j. jobSession ch i = jobSession ch j \<longrightarrow>
     cjStage (chJobs ch ! j) \<noteq> JobWaiting \<longrightarrow> settledJob ch i)"

definition chainLinked :: "chains \<Rightarrow> bool" where
  "chainLinked ch = (\<forall>j<length (chJobs ch). case cjAfter (chJobs ch ! j) of
       None \<Rightarrow> (\<forall>i<j. jobSession ch i = jobSession ch j \<longrightarrow> settledJob ch i)
     | Some p \<Rightarrow> p < j \<and> jobSession ch p = jobSession ch j \<and> (\<forall>k<j. p < k \<longrightarrow> jobSession ch k \<noteq> jobSession ch j))"

definition lastOf :: "chains \<Rightarrow> string \<Rightarrow> nat \<Rightarrow> bool" where
  "lastOf ch s i = (i < length (chJobs ch) \<and> jobSession ch i = s \<and> (\<forall>k<length (chJobs ch). i < k \<longrightarrow> jobSession ch k \<noteq> s))"

definition chainMapped :: "chains \<Rightarrow> bool" where
  "chainMapped ch = (\<forall>s i. jmGet (chMap ch) s = Some i \<longleftrightarrow> lastOf ch s i \<and> \<not> cjCleaned (chJobs ch ! i))"

definition chainCleaned :: "chains \<Rightarrow> bool" where
  "chainCleaned ch = (\<forall>i<length (chJobs ch). cjCleaned (chJobs ch ! i) \<longrightarrow> settledJob ch i)"

definition chainInv :: "chains \<Rightarrow> bool" where
  "chainInv ch = (chainOrdered ch \<and> chainLinked ch \<and> chainMapped ch \<and> chainCleaned ch)"

lemma chainInvI: "chainOrdered ch \<Longrightarrow> chainLinked ch \<Longrightarrow> chainMapped ch \<Longrightarrow> chainCleaned ch \<Longrightarrow> chainInv ch"
  by (simp add: chainInv_def)

lemma orderedD:
  assumes "chainInv ch" "j < length (chJobs ch)" "i < j" "jobSession ch i = jobSession ch j" "cjStage (chJobs ch ! j) \<noteq> JobWaiting"
  shows "settledJob ch i"
  using assms by (simp add: chainInv_def chainOrdered_def)

lemma mappedD: "chainInv ch \<Longrightarrow> jmGet (chMap ch) s = Some i \<longleftrightarrow> lastOf ch s i \<and> \<not> cjCleaned (chJobs ch ! i)"
  by (simp add: chainInv_def chainMapped_def)

lemma cleanedD: "chainInv ch \<Longrightarrow> i < length (chJobs ch) \<Longrightarrow> cjCleaned (chJobs ch ! i) \<Longrightarrow> settledJob ch i"
  by (simp add: chainInv_def chainCleaned_def)

lemma last_exists:
  assumes "i < length (chJobs ch)" "jobSession ch i = s"
  shows "\<exists>l. i \<le> l \<and> lastOf ch s l"
proof -
  let ?P = "\<lambda>k. k < length (chJobs ch) \<and> jobSession ch k = s"
  have "?P (Greatest ?P)" by (rule GreatestI_nat [of ?P i "length (chJobs ch)"]) (use assms in auto)
  moreover have "\<forall>k. ?P k \<longrightarrow> k \<le> Greatest ?P" by (auto intro!: Greatest_le_nat [where b = "length (chJobs ch)"])
  ultimately have "i \<le> Greatest ?P \<and> lastOf ch s (Greatest ?P)" using assms by (auto simp: lastOf_def dest: leD)
  then show ?thesis by blast
qed

lemma last_session: "lastOf ch s i \<Longrightarrow> jobSession ch i = s \<and> lastOf ch (jobSession ch i) i"
  by (simp add: lastOf_def)

lemma last_unique: "lastOf ch s i \<Longrightarrow> lastOf ch s j \<Longrightarrow> i = j"
  unfolding lastOf_def by (metis nat_neq_iff)

text \<open>Where the map has no session, all of its jobs are settled; where it has one, the entry is the last.\<close>

lemma unmapped_settled:
  assumes inv: "chainInv ch" and none: "jmGet (chMap ch) s = None" and i: "i < length (chJobs ch)" "jobSession ch i = s"
  shows "settledJob ch i"
proof -
  obtain l where l: "i \<le> l" "lastOf ch s l" using last_exists [OF i] by blast
  with mappedD [OF inv, of s l] none have "cjCleaned (chJobs ch ! l)" by auto
  then have sl: "settledJob ch l" using cleanedD [OF inv] l by (auto simp: lastOf_def)
  show ?thesis
  proof (cases "i = l")
    case False
    with l sl i orderedD [OF inv, of l i] show ?thesis
      by (auto simp: lastOf_def settledJob_def isSettled_def split: jobStage.splits)
  qed (use sl in simp)
qed

lemma isSettled_simps [simp]: "isSettled (JobSettled ok)" "\<not> isSettled JobWaiting" "\<not> isSettled JobRunning"
  by (simp_all add: isSettled_def)

subsection \<open>Every step keeps it\<close>

lemma enter_jobs: "chJobs (inSessionOrder s ch) = chJobs ch @ [\<lparr>cjSession = s, cjAfter = jmGet (chMap ch) s, cjStage = JobWaiting, cjCleaned = False\<rparr>]"
  "chMap (inSessionOrder s ch) = jmSet s (length (chJobs ch)) (chMap ch)"
  by (simp_all add: inSessionOrder_def)

lemma enter_settled: "settledJob ch i \<Longrightarrow> settledJob (inSessionOrder s ch) i"
  by (auto simp: settledJob_def enter_jobs nth_append)

lemma enter_inv:
  assumes inv: "chainInv ch"
  shows "chainInv (inSessionOrder s ch)"
proof (rule chainInvI)
  let ?ch = "inSessionOrder s ch" and ?n = "length (chJobs ch)"
  have ord: "chainOrdered ch" and lnk: "chainLinked ch" and mp: "chainMapped ch" and cl: "chainCleaned ch"
    using inv by (simp_all add: chainInv_def)
  show "chainOrdered ?ch"
    using ord unfolding chainOrdered_def
    by (auto simp: enter_jobs nth_append less_Suc_eq intro!: enter_settled)
  show "chainCleaned ?ch"
    using cl unfolding chainCleaned_def
    by (auto simp: enter_jobs nth_append less_Suc_eq intro!: enter_settled)
  show "chainMapped ?ch"
    using mp unfolding chainMapped_def lastOf_def
    by (auto simp: enter_jobs nth_append less_Suc_eq)
  show "chainLinked ?ch"
    unfolding chainLinked_def
  proof (intro allI impI)
    fix j assume j: "j < length (chJobs ?ch)"
    show "case cjAfter (chJobs ?ch ! j) of
       None \<Rightarrow> (\<forall>i<j. jobSession ?ch i = jobSession ?ch j \<longrightarrow> settledJob ?ch i)
     | Some p \<Rightarrow> p < j \<and> jobSession ?ch p = jobSession ?ch j \<and> (\<forall>k<j. p < k \<longrightarrow> jobSession ?ch k \<noteq> jobSession ?ch j)"
    proof (cases "j = ?n")
      case True
      show ?thesis
      proof (cases "jmGet (chMap ch) s")
        case None
        with True show ?thesis
          by (auto simp: enter_jobs nth_append intro!: enter_settled unmapped_settled [OF inv None])
      next
        case (Some p)
        with mappedD [OF inv, of s p] have "lastOf ch s p" by simp
        with True Some show ?thesis by (auto simp: enter_jobs nth_append lastOf_def)
      qed
    next
      case False
      with j have "j < ?n" by (simp add: enter_jobs)
      with lnk show ?thesis
        unfolding chainLinked_def
        by (auto simp: enter_jobs nth_append split: option.splits intro!: enter_settled)
    qed
  qed
qed

lemma stage_jobs:
  assumes "i < length (chJobs ch)"
  shows "length (chJobs (setJobStage i st ch)) = length (chJobs ch)" "jobSession (setJobStage i st ch) k = jobSession ch k"
    "cjAfter (chJobs (setJobStage i st ch) ! k) = cjAfter (chJobs ch ! k)"
    "cjCleaned (chJobs (setJobStage i st ch) ! k) = cjCleaned (chJobs ch ! k)"
    "cjStage (chJobs (setJobStage i st ch) ! k) = (if k = i then st else cjStage (chJobs ch ! k))"
    "chMap (setJobStage i st ch) = chMap ch"
  using assms by (cases "k = i"; simp add: setJobStage_def)+

lemma stage_settled:
  assumes "i < length (chJobs ch)"
  shows "settledJob (setJobStage i st ch) k \<longleftrightarrow> (if k = i then isSettled st else settledJob ch k)"
  using assms by (auto simp: settledJob_def stage_jobs)

lemma stage_inv:
  assumes inv: "chainInv ch" and i: "i < length (chJobs ch)" and uns: "\<not> isSettled (cjStage (chJobs ch ! i))"
    and st: "st \<noteq> JobWaiting" and prev: "\<And>k. k < i \<Longrightarrow> jobSession ch k = jobSession ch i \<Longrightarrow> settledJob ch k"
  shows "chainInv (setJobStage i st ch)"
proof (rule chainInvI)
  let ?ch = "setJobStage i st ch"
  have keep: "settledJob ch k \<Longrightarrow> settledJob ?ch k" for k
    using uns unfolding stage_settled [OF i] by (auto simp: settledJob_def)
  have ord: "chainOrdered ch" and lnk: "chainLinked ch" and mp: "chainMapped ch" and cl: "chainCleaned ch"
    using inv by (simp_all add: chainInv_def)
  show "chainOrdered ?ch"
    using ord prev unfolding chainOrdered_def stage_jobs [OF i] by (metis keep)
  show "chainLinked ?ch"
    unfolding chainLinked_def stage_jobs [OF i]
  proof (intro allI impI)
    fix j assume "j < length (chJobs ch)"
    with lnk show "case cjAfter (chJobs ch ! j) of
       None \<Rightarrow> (\<forall>k<j. jobSession ch k = jobSession ch j \<longrightarrow> settledJob ?ch k)
     | Some p \<Rightarrow> p < j \<and> jobSession ch p = jobSession ch j \<and> (\<forall>k<j. p < k \<longrightarrow> jobSession ch k \<noteq> jobSession ch j)"
      unfolding chainLinked_def by (cases "cjAfter (chJobs ch ! j)") (force intro: keep)+
  qed
  show "chainMapped ?ch"
    using mp unfolding chainMapped_def lastOf_def stage_jobs [OF i] .
  show "chainCleaned ?ch"
    using cl unfolding chainCleaned_def stage_jobs [OF i] by (auto intro: keep)
qed

lemma clean_jobs:
  assumes "i < length (chJobs ch)"
  shows "length (chJobs (cleanTail i ch)) = length (chJobs ch)" "jobSession (cleanTail i ch) k = jobSession ch k"
    "cjAfter (chJobs (cleanTail i ch) ! k) = cjAfter (chJobs ch ! k)"
    "cjStage (chJobs (cleanTail i ch) ! k) = cjStage (chJobs ch ! k)"
    "cjCleaned (chJobs (cleanTail i ch) ! k) = (k = i \<or> cjCleaned (chJobs ch ! k))"
    "settledJob (cleanTail i ch) k = settledJob ch k"
  using assms by (cases "k = i"; simp add: cleanTail_def Let_def settledJob_def)+

lemma clean_map:
  "chMap (cleanTail i ch) = (if jmGet (chMap ch) (jobSession ch i) = Some i then jmDelete (jobSession ch i) (chMap ch) else chMap ch)"
  by (simp add: cleanTail_def Let_def)

lemma clean_inv:
  assumes inv: "chainInv ch" and i: "i < length (chJobs ch)" and s: "isSettled (cjStage (chJobs ch ! i))"
  shows "chainInv (cleanTail i ch)"
proof (rule chainInvI)
  let ?ch = "cleanTail i ch"
  have ord: "chainOrdered ch" and lnk: "chainLinked ch" and mp: "chainMapped ch" and cl: "chainCleaned ch"
    using inv by (simp_all add: chainInv_def)
  show "chainOrdered ?ch" using ord unfolding chainOrdered_def clean_jobs [OF i] .
  show "chainLinked ?ch" using lnk unfolding chainLinked_def clean_jobs [OF i] .
  show "chainCleaned ?ch" using cl s i unfolding chainCleaned_def clean_jobs [OF i] by (auto simp: settledJob_def)
  have "lastOf ?ch r k = lastOf ch r k" for r k unfolding lastOf_def clean_jobs [OF i] ..
  with mp show "chainMapped ?ch"
    unfolding chainMapped_def clean_jobs [OF i] clean_map
    by (auto intro: last_unique dest: last_session)
qed

lemma chain_step_inv:
  assumes "chainStep ch ev ch'" "chainInv ch"
  shows "chainInv ch'"
  using assms
proof cases
  case (starts i)
  then have i: "i < length (chJobs ch)" and may: "mayStart ch (chJobs ch ! i)" by (auto simp: jobAt_def)
  have prev: "settledJob ch k" if k: "k < i" "jobSession ch k = jobSession ch i" for k
  proof (cases "cjAfter (chJobs ch ! i)")
    case None
    with assms(2) i k show ?thesis by (force simp: chainInv_def chainLinked_def)
  next
    case (Some p)
    with assms(2) i have p: "p < i" "jobSession ch p = jobSession ch i" "\<forall>k<i. p < k \<longrightarrow> jobSession ch k \<noteq> jobSession ch i"
      by (force simp: chainInv_def chainLinked_def)+
    from Some may have sp: "settledJob ch p" by (simp add: mayStart_def)
    show ?thesis
    proof (cases "k = p")
      case False
      with p k have "k < p" by (meson nat_neq_iff)
      with p k sp i show ?thesis
        by (intro orderedD [OF assms(2), of p]) (auto simp: settledJob_def)
    qed (use sp in simp)
  qed
  from may starts i prev show ?thesis by (auto simp: mayStart_def intro!: stage_inv [OF assms(2)])
next
  case (finishes i ok)
  then have i: "i < length (chJobs ch)" "cjStage (chJobs ch ! i) = JobRunning" by (auto simp: jobAt_def)
  then show ?thesis
    unfolding finishes by (intro stage_inv [OF assms(2)]) (auto intro: orderedD [OF assms(2)])
qed (auto simp: jobAt_def intro: enter_inv [OF assms(2)] clean_inv [OF assms(2)])

lemma no_chains_inv: "chainInv noChains"
  by (simp add: chainInv_def chainOrdered_def chainLinked_def chainMapped_def chainCleaned_def noChains_def lastOf_def)

lemma chains_inv: "chainsReach ch \<Longrightarrow> chainInv ch"
  by (induction rule: chainsReach.induct) (auto intro: no_chains_inv chain_step_inv)

text \<open>C31: A session's submissions, model changes and compactions apply one at a time, in the order they were made:
  whatever a job's work gives, none of its session's later jobs has begun before it has settled.\<close>

theorem submissions_in_order:
  assumes "chainsReach ch" "i < j" "j < length (chJobs ch)" "jobSession ch i = jobSession ch j"
  shows "cjStage (chJobs ch ! j) = JobWaiting \<or> settledJob ch i"
  using orderedD [OF chains_inv [OF assms(1)] assms(3,2,4)] by blast

text \<open>The process's map has a session whenever one of its submissions is unfinished, so the session reads running from
  the moment it is submitted to; and an entry always belongs to a job whose deletion of it is still to come, so a
  session does not read running for ever.\<close>

theorem busy_while_submitting:
  assumes "chainsReach ch"
  shows "(jmHas (chMap ch) s \<or> list_all (\<lambda>j. cjSession j \<noteq> s \<or> isSettled (cjStage j)) (chJobs ch)) \<and>
    (\<not> jmHas (chMap ch) s \<or> list_ex (\<lambda>j. cjSession j = s \<and> \<not> cjCleaned j) (chJobs ch))"
proof -
  note inv = chains_inv [OF assms]
  have "settledJob ch i" if "\<not> jmHas (chMap ch) s" "i < length (chJobs ch)" "jobSession ch i = s" for i
    using that by (intro unmapped_settled [OF inv]) (auto simp: jmHas_def)
  moreover have "\<exists>i<length (chJobs ch). jobSession ch i = s \<and> \<not> cjCleaned (chJobs ch ! i)" if has: "jmHas (chMap ch) s"
  proof -
    from has obtain i where "jmGet (chMap ch) s = Some i" by (auto simp: jmHas_def)
    with mappedD [OF inv, of s i] show ?thesis by (auto simp: lastOf_def)
  qed
  ultimately show ?thesis by (fastforce simp: list_all_length list_ex_length settledJob_def)
qed

subsection \<open>Nothing gets stuck\<close>

definition jobSteps :: "chainJob \<Rightarrow> nat" where
  "jobSteps j = (case cjStage j of JobWaiting \<Rightarrow> 3 | JobRunning \<Rightarrow> 2 | JobSettled _ \<Rightarrow> if cjCleaned j then 0 else 1)"

definition remainingSteps :: "chains \<Rightarrow> nat" where
  "remainingSteps ch = sum_list (map jobSteps (chJobs ch))"

fun isQuiet :: "chainEvent \<Rightarrow> bool" where
  "isQuiet (Enters _) = False"
| "isQuiet _ = True"

inductive quietRun :: "chains \<Rightarrow> chainEvent list \<Rightarrow> chains \<Rightarrow> bool" where
  quiet_done: "quietRun ch [] ch"
| quiet_more: "chainStep ch ev ch1 \<Longrightarrow> isQuiet ev \<Longrightarrow> quietRun ch1 evs ch2 \<Longrightarrow> quietRun ch (ev # evs) ch2"

lemma remaining_update:
  assumes "i < length (chJobs ch)" "chJobs ch' = (chJobs ch)[i := j]" "jobSteps (chJobs ch ! i) = Suc (jobSteps j)"
  shows "remainingSteps ch = Suc (remainingSteps ch')"
proof -
  have "jobSteps (chJobs ch ! i) \<le> remainingSteps ch"
    using assms(1) unfolding remainingSteps_def by (intro elem_le_sum_list [of i "map jobSteps (chJobs ch)", simplified]) simp
  with assms show ?thesis
    by (simp add: remainingSteps_def map_update sum_list_update)
qed

lemma quiet_step_remaining:
  assumes "chainStep ch ev ch'" "isQuiet ev" "chainInv ch"
  shows "remainingSteps ch = Suc (remainingSteps ch')"
  using assms(1)
proof cases
  case (starts i)
  then show ?thesis
    by (intro remaining_update [of i]) (auto simp: jobAt_def mayStart_def setJobStage_def jobSteps_def)
next
  case (finishes i ok)
  then have i: "i < length (chJobs ch)" "cjStage (chJobs ch ! i) = JobRunning" by (auto simp: jobAt_def)
  with cleanedD [OF assms(3), of i] have "\<not> cjCleaned (chJobs ch ! i)" by (auto simp: settledJob_def)
  with i finishes show ?thesis
    by (intro remaining_update [of i]) (auto simp: setJobStage_def jobSteps_def)
next
  case (cleans i)
  then show ?thesis
    by (intro remaining_update [of i]) (auto simp: jobAt_def cleanTail_def Let_def jobSteps_def isSettled_def split: jobStage.splits)
qed (use assms in simp)

lemma quiet_run_remaining:
  "quietRun ch evs ch' \<Longrightarrow> chainInv ch \<Longrightarrow> length evs + remainingSteps ch' = remainingSteps ch \<and> chainInv ch'"
proof (induction rule: quietRun.induct)
  case (quiet_more ch ev ch1 evs ch2)
  with quiet_step_remaining [OF quiet_more.hyps(1,2)] chain_step_inv [OF quiet_more.hyps(1)] show ?case by simp
qed simp

lemma chain_progress:
  assumes inv: "chainInv ch" and rem: "remainingSteps ch \<noteq> 0"
  shows "\<exists>ev ch'. chainStep ch ev ch' \<and> isQuiet ev"
proof -
  let ?P = "\<lambda>i. i < length (chJobs ch) \<and> \<not> cjCleaned (chJobs ch ! i)"
  have ex: "\<exists>i. ?P i"
  proof (rule ccontr)
    assume none: "\<nexists>i. ?P i"
    then have "jobSteps j = 0" if "j \<in> set (chJobs ch)" for j
      using that cleanedD [OF inv] by (fastforce simp: in_set_conv_nth settledJob_def isSettled_def jobSteps_def split: jobStage.splits)
    then have "remainingSteps ch = 0" by (simp add: remainingSteps_def)
    with rem show False by simp
  qed
  define i where "i = (LEAST i. ?P i)"
  from LeastI_ex [OF ex] have i: "i < length (chJobs ch)" "\<not> cjCleaned (chJobs ch ! i)" by (auto simp: i_def)
  have before: "settledJob ch k" if "k < i" for k
    using not_less_Least [of k ?P] that i cleanedD [OF inv, of k] by (auto simp: i_def)
  show ?thesis
  proof (cases "cjStage (chJobs ch ! i)")
    case JobWaiting
    have "mayStart ch (chJobs ch ! i)"
    proof (cases "cjAfter (chJobs ch ! i)")
      case (Some p)
      with inv i have "p < i" by (force simp: chainInv_def chainLinked_def)
      with JobWaiting Some before show ?thesis by (simp add: mayStart_def)
    qed (use JobWaiting in \<open>simp add: mayStart_def\<close>)
    with i have "chainStep ch (Starts i) (setJobStage i JobRunning ch)" by (intro starts) (simp add: jobAt_def)
    then show ?thesis by force
  next
    case JobRunning
    with i have "chainStep ch (Finishes i True) (setJobStage i (JobSettled True) ch)" by (intro finishes) (simp add: jobAt_def)
    then show ?thesis by force
  next
    case (JobSettled ok)
    with i have "chainStep ch (Cleans i) (cleanTail i ch)" by (intro cleans) (simp add: jobAt_def)
    then show ?thesis by force
  qed
qed

lemma drained_map:
  assumes inv: "chainInv ch" and rem: "remainingSteps ch = 0"
  shows "chMap ch = []"
proof (cases "chMap ch")
  case (Cons e m)
  obtain s i where e: "e = (s, i)" by (cases e)
  with Cons mappedD [OF inv, of s i] have i: "i < length (chJobs ch)" "\<not> cjCleaned (chJobs ch ! i)" by (auto simp: lastOf_def)
  then have "jobSteps (chJobs ch ! i) \<noteq> 0" by (simp add: jobSteps_def split: jobStage.split)
  with rem i show ?thesis by (auto simp: remainingSteps_def)
qed simp

lemma chain_can_drain:
  "chainInv ch \<Longrightarrow> \<exists>evs ch'. quietRun ch evs ch' \<and> length evs = remainingSteps ch \<and> chMap ch' = []"
proof (induction "remainingSteps ch" arbitrary: ch)
  case 0
  then show ?case using quiet_done [of ch] drained_map by force
next
  case (Suc n)
  then obtain ev ch1 where st: "chainStep ch ev ch1" "isQuiet ev" using chain_progress [of ch] by auto
  with Suc have n: "remainingSteps ch1 = n" "chainInv ch1" using quiet_step_remaining chain_step_inv by fastforce+
  with Suc.hyps(1) [of ch1] obtain evs ch' where "quietRun ch1 evs ch'" "length evs = n" "chMap ch' = []" by auto
  with st have "quietRun ch (ev # evs) ch' \<and> length (ev # evs) = Suc n \<and> chMap ch' = []" by (auto intro: quiet_more)
  with Suc.hyps(2) show ?case by metis
qed

text \<open>C32: A session's chain always drains. Without new submissions every run of it is bounded by the steps its jobs have
  left (each starts, settles and is cleaned up once), and from wherever it got to the rest of those steps can be taken,
  which leaves the process's map empty: a submission that fails holds up none after it.\<close>

theorem chains_drain:
  assumes "chainsReach ch" "quietRun ch evs ch'"
  shows "length evs + remainingSteps ch' = remainingSteps ch \<and>
    (\<exists>evs' ch''. quietRun ch' evs' ch'' \<and> length evs' = remainingSteps ch' \<and> chMap ch'' = [])"
  using quiet_run_remaining [OF assms(2) chains_inv [OF assms(1)]] chain_can_drain by blast

subsection \<open>A concrete run\<close>

definition demoChains :: chains where
  "demoChains = setJobStage 0 JobRunning (inSessionOrder ''s'' (inSessionOrder ''s'' noChains))"

lemma demo_chains: "chainsReach demoChains"
proof -
  have "chainsReach (inSessionOrder ''s'' (inSessionOrder ''s'' noChains))"
    by (intro one_step [OF one_step [OF no_chains enters] enters])
  then show ?thesis
    unfolding demoChains_def
    by (rule one_step) (rule starts, simp add: jobAt_def mayStart_def inSessionOrder_def noChains_def)
qed

theorem submissions_in_order_witness:
  "cjStage (chJobs demoChains ! 1) = JobWaiting \<or> settledJob demoChains 0"
  using submissions_in_order [OF demo_chains, of 0 1]
  by (simp add: demoChains_def setJobStage_def inSessionOrder_def noChains_def)

theorem busy_while_submitting_witness:
  "jmHas (chMap demoChains) ''s'' \<and> \<not> jmHas (chMap demoChains) ''t''"
  using busy_while_submitting [OF demo_chains, of "''s''"] busy_while_submitting [OF demo_chains, of "''t''"]
  by (simp add: demoChains_def setJobStage_def inSessionOrder_def noChains_def)

theorem chains_drain_witness:
  "\<exists>evs ch. quietRun demoChains evs ch \<and> length evs = 5 \<and> chMap ch = []"
  using chains_drain [OF demo_chains quiet_done]
  by (simp add: demoChains_def setJobStage_def inSessionOrder_def noChains_def remainingSteps_def jobSteps_def)

subsection \<open>What a submission carries\<close>

text \<open>A submission over the bound reaches no runtime; one that is not keeps the caller's own metadata, under which the
  server's keys stand.\<close>

lemma jmGet_fold: "jmGet (fold (\<lambda>(k, v). jmSet k v) xs m) k = (case jmGet (rev xs) k of None \<Rightarrow> jmGet m k | Some v \<Rightarrow> Some v)"
  by (induction xs arbitrary: m) (auto simp: map_add_def split: option.splits)

theorem submission_metadata:
  assumes "jmWf (sbMetadata inp)"
  shows "jmGet (submissionMetadata inp) k =
    (if k = ''details'' \<and> sbDetails inp \<noteq> None
     then Some (case the (sbDetails inp) of (from, lab) \<Rightarrow> JObj [(''label'', orNull lab), (''start'', JNum (of_nat from))])
     else if k = ''sourceExtension'' \<and> truthyStr (sbSourceExtension inp) then Some (JStr (the (sbSourceExtension inp)))
     else if k = ''sourceSessionId'' \<and> truthyStr (sbSourceSession inp) then Some (JStr (the (sbSourceSession inp)))
     else jmGet (sbMetadata inp) k)"
proof -
  have "jmGet (rev (sbMetadata inp)) k = jmGet (sbMetadata inp) k"
    using assms map_of_inject_set [of "rev (sbMetadata inp)" "sbMetadata inp"] by (simp add: rev_map [symmetric])
  then show ?thesis
    by (auto simp: submissionMetadata_def Let_def jmGet_fold split: option.splits)
qed

end
