(* ===== verification/Path_Laws.thy ===== *)
theory Path_Laws
  imports Checkout_Paths
begin

text \<open>
  What the paths of a checkout satisfy: resolved paths are made of names, \<open>withinCheckout\<close> accepts exactly the paths
  under the checkout, an upload writes only there, and a source's path is canonical.
\<close>

subsection \<open>Names\<close>

definition cleanName :: "string \<Rightarrow> bool" where
  "cleanName s = (s \<noteq> [] \<and> s \<noteq> ''.'' \<and> s \<noteq> ''..'' \<and> slashC \<notin> set s)"

lemma normSegs_clean:
  "list_all cleanName acc \<Longrightarrow> \<forall>s\<in>set ss. slashC \<notin> set s \<Longrightarrow> list_all cleanName (normSegs False acc ss)"
proof (induction ss arbitrary: acc)
  case (Cons s ss)
  then show ?case
    by (cases acc) (auto simp: cleanName_def)
qed (simp add: list_all_iff)

lemma pathNames_clean: "list_all cleanName (pathNames s)"
  by (simp add: pathNames_def normSegs_clean splitOn_free)

lemma normSegs_names: "list_all cleanName ss \<Longrightarrow> normSegs up acc ss = rev acc @ ss"
  by (induction ss arbitrary: acc) (auto simp: cleanName_def)

lemma splitOn_joined: "list_all cleanName ns \<Longrightarrow> splitOn slashC (joinWith [slashC] ns) = (if ns = [] then [[]] else ns)"
  using splitOn_join [of ns slashC] by (auto simp: cleanName_def list_all_iff)

lemma pathNames_absolute [simp]: "list_all cleanName ns \<Longrightarrow> pathNames (absolutePath ns) = ns"
  by (simp add: pathNames_def absolutePath_def splitOn_joined normSegs_names)

lemma absolutePath_abs [simp]: "isAbsolutePath (absolutePath ns)"
  by (simp add: isAbsolutePath_def absolutePath_def)

lemma normSegs_append: "normSegs False acc (xs @ ys) = normSegs False (rev (normSegs False acc xs)) ys"
  by (induction xs arbitrary: acc) (auto split: list.splits)

lemma splitOn_app: "splitOn c (a @ c # b) = splitOn c a @ splitOn c b"
proof (induction a)
  case (Cons x a)
  then show ?case
    by (cases "splitOn c a") (auto split: list.splits)
qed simp

lemma pathNames_append: "pathNames (a @ slashC # b) = normSegs False (rev (pathNames a)) (splitOn slashC b)"
  by (simp add: pathNames_def splitOn_app normSegs_append)

lemma resolve_absolute: "isAbsolutePath p \<Longrightarrow> resolvePath process cwd p = absolutePath (pathNames p)"
  by (simp add: resolvePath_def)

lemma resolve_names: "pathNames (resolvePath process cwd p) =
    pathNames (if isAbsolutePath p then p else if isAbsolutePath cwd then cwd @ slashC # p else process @ slashC # cwd @ slashC # p)"
  by (simp add: resolvePath_def pathNames_clean)

subsection \<open>Relative paths\<close>

lemma commonNames_le: "commonNames as bs \<le> length as" "commonNames as bs \<le> length bs"
  by (induction as bs rule: commonNames.induct) auto

lemma commonNames_all: "commonNames as bs = length as \<longleftrightarrow> prefix as bs"
  by (induction as bs rule: commonNames.induct) auto

lemma joinWith_names: "list_all cleanName ns \<Longrightarrow> ns \<noteq> [] \<Longrightarrow> \<exists>c cs. joinWith [slashC] ns = c # cs \<and> c \<noteq> slashC"
proof -
  assume a: "list_all cleanName ns" "ns \<noteq> []"
  then obtain n ns' where n: "ns = n # ns'" "cleanName n" by (cases ns) auto
  then obtain c cs where "n = c # cs" "c \<noteq> slashC" by (cases n) (auto simp: cleanName_def)
  with n show ?thesis by (cases ns') auto
qed

lemma below_root: 
  assumes "list_all cleanName ns"
  shows "joinWith [slashC] ns \<noteq> ''..'' \<and> \<not> startsWith (joinWith [slashC] ns) ''../'' \<and> \<not> isAbsolutePath (joinWith [slashC] ns)"
proof (cases ns)
  case (Cons n ns')
  from assms Cons have n: "cleanName n" by simp
  have s: "splitOn slashC (joinWith [slashC] ns) = ns" using splitOn_joined [OF assms] Cons by simp
  have "joinWith [slashC] ns \<noteq> ''..''"
  proof
    assume "joinWith [slashC] ns = ''..''"
    with s have "ns = [''..'']" by (simp add: slashC_def)
    with assms show False by (simp add: cleanName_def)
  qed
  moreover have "\<not> startsWith (joinWith [slashC] ns) ''../''"
  proof
    assume "startsWith (joinWith [slashC] ns) ''../''"
    then obtain r where "joinWith [slashC] ns = ''..'' @ slashC # r"
      by (auto simp: startsWith_def slashC_def) (metis append_Cons append_Nil append_take_drop_id)
    with s have "ns = ''..'' # splitOn slashC r" using splitOn_append [of slashC "''..''" r] by (simp add: slashC_def)
    with assms show False by (simp add: cleanName_def)
  qed
  moreover have "\<not> isAbsolutePath (joinWith [slashC] ns)"
    using joinWith_names [OF assms] Cons by (auto simp: isAbsolutePath_def)
  ultimately show ?thesis by blast
qed (simp add: isAbsolutePath_def)

lemma above_root: "joinWith [slashC] (''..'' # ns) = ''..'' \<or> startsWith (joinWith [slashC] (''..'' # ns)) ''../''"
  by (cases ns) (simp_all add: slashC_def)

lemma relative_outside:
  assumes "isAbsolutePath f" "isAbsolutePath t"
  shows "(let r = relativePath process f t in r = ''..'' \<or> startsWith r ''../'' \<or> isAbsolutePath r) \<longleftrightarrow>
    \<not> prefix (pathNames f) (pathNames t)"
proof -
  let ?f = "pathNames f" and ?t = "pathNames t"
  let ?n = "commonNames ?f ?t"
  have r: "relativePath process f t = joinWith [slashC] (replicate (length ?f - ?n) ''..'' @ drop ?n ?t)"
    using assms by (simp add: relativePath_def resolve_absolute pathNames_clean Let_def)
  show ?thesis
  proof (cases "prefix ?f ?t")
    case True
    then have n: "?n = length ?f" by (simp add: commonNames_all)
    have "list_all cleanName (drop ?n ?t)"
      using pathNames_clean [of t] by (metis append_take_drop_id list_all_append)
    from below_root [OF this] True n show ?thesis by (simp add: r Let_def)
  next
    case False
    then have "?n < length ?f" using commonNames_le(1) [of ?f ?t] commonNames_all [of ?f ?t] by linarith
    then obtain k where "length ?f - ?n = Suc k" by (metis Suc_diff_Suc)
    with False above_root [of "replicate k ''..'' @ drop ?n ?t"] show ?thesis by (auto simp: r Let_def)
  qed
qed

lemma within_iff:
  assumes "isAbsolutePath cwd"
  shows "withinCheckout process cwd p =
    (if prefix (pathNames cwd) (pathNames (resolvePath process cwd p)) then Some (resolvePath process cwd p) else None)"
  using relative_outside [OF assms, of "resolvePath process cwd p" process]
  by (simp add: withinCheckout_def Let_def resolvePath_def)

text \<open>A path is inside the checkout exactly when, resolved against it, its names begin with the checkout's: every
  path that leaves the checkout is refused, however it is written, and no path inside it is (a name that begins with two
  dots included). What is accepted is the resolved path.\<close>

theorem checkout_confined:
  assumes "isAbsolutePath cwd"
  shows "withinCheckout process cwd p =
    (if prefix (pathNames cwd) (pathNames (resolvePath process cwd p)) then Some (resolvePath process cwd p) else None)"
  using assms by (rule within_iff)

theorem checkout_confined_witness:
  "withinCheckout ''/'' ''/srv/app'' ''../app2/x'' = None \<and>
   withinCheckout ''/'' ''/srv/app'' ''a/../..b'' = Some ''/srv/app/..b''"
  by (simp add: checkout_confined isAbsolutePath_def slashC_def resolvePath_def pathNames_def absolutePath_def)

subsection \<open>Uploads\<close>

lemma within_inside:
  assumes "isAbsolutePath cwd" "withinCheckout process cwd p = Some f"
  shows "f = resolvePath process cwd p" "prefix (pathNames cwd) (pathNames f)" "list_all cleanName (pathNames f)"
    "absolutePath (pathNames f) = f"
  using assms by (auto simp: within_iff pathNames_clean resolvePath_def split: if_splits)

lemma write_inside:
  assumes "isAbsolutePath cwd" "writeFile node process cwd p = Inr f"
  shows "f = resolvePath process cwd p" "strict_prefix (pathNames cwd) (pathNames f)"
proof -
  from assms(2) obtain w: "withinCheckout process cwd p = Some f" and other: "f \<noteq> resolvePath process cwd []"
    by (auto simp: writeFile_def split: option.splits if_splits uploadAnswer.splits)
  have root: "resolvePath process cwd [] = absolutePath (pathNames cwd)"
    using assms(1) by (simp add: resolvePath_def pathNames_append isAbsolutePath_def)
  note inside = within_inside [OF assms(1) w]
  show "f = resolvePath process cwd p" by (rule inside(1))
  show "strict_prefix (pathNames cwd) (pathNames f)"
    using inside other root by (metis strict_prefixI)
qed

lemma writeEach_inside:
  assumes "isAbsolutePath cwd"
  shows "list_all (\<lambda>f. strict_prefix (pathNames cwd) (pathNames f)) (fst (writeEach node process cwd sub names)) \<and>
    (case snd (writeEach node process cwd sub names) of
       Inr uploaded \<Rightarrow> fst (writeEach node process cwd sub names) = map (resolvePath process cwd) uploaded \<and> length uploaded = length names
     | Inl _ \<Rightarrow> length (fst (writeEach node process cwd sub names)) < length names)"
proof (induction names)
  case (Cons name rest)
  show ?case
    using Cons write_inside [OF assms]
    by (cases "writeEach node process cwd sub rest") (auto split: sum.splits prod.splits)
qed simp

text \<open>C33: Whatever the file names and the directory of an upload are, every file sent to the node is strictly inside the
  checkout. An upload that succeeds has written one file per name, at the paths it returns; one that fails has written
  only files that come before the one it failed at, which stay.\<close>

theorem uploads_stay_inside:
  assumes "isAbsolutePath cwd" "names \<noteq> []"
  shows "case writeFiles node process cwd names sub of (written, result) \<Rightarrow>
    list_all (\<lambda>f. strict_prefix (pathNames cwd) (pathNames f)) written \<and>
    (case result of
       Inr uploaded \<Rightarrow> written = map (resolvePath process cwd) uploaded \<and> length uploaded = length names
     | Inl _ \<Rightarrow> length written < length names)"
  using writeEach_inside [OF assms(1), of node process sub names] assms(2) by (simp add: writeFiles_def case_prod_beta)

theorem uploads_stay_inside_witness:
  "case writeFiles (\<lambda>_. Written) ''/'' ''/srv'' [''../x'', ''..''] ''in'' of (written, result) \<Rightarrow>
    list_all (\<lambda>f. strict_prefix (pathNames ''/srv'') (pathNames f)) written \<and>
    (case result of
       Inr uploaded \<Rightarrow> written = map (resolvePath ''/'' ''/srv'') uploaded \<and> length uploaded = length [''../x'', ''..'']
     | Inl _ \<Rightarrow> length written < length [''../x'', ''..''])"
  by (rule uploads_stay_inside) (simp_all add: isAbsolutePath_def slashC_def)

subsection \<open>A source's path\<close>

lemma joinWith_last: "list_all cleanName ns \<Longrightarrow> ns \<noteq> [] \<Longrightarrow> joinWith [slashC] ns \<noteq> [] \<and> List.last (joinWith [slashC] ns) \<noteq> slashC"
proof (induction ns rule: induct_list012)
  case (2 n)
  then show ?case by (auto simp: cleanName_def) (metis last_in_set)
next
  case (3 n m ns)
  then show ?case by (auto simp: cleanName_def)
qed simp

lemma endsWith_last: "endsWith s [c] \<longleftrightarrow> s \<noteq> [] \<and> List.last s = c"
  by (cases s rule: rev_cases) (auto simp: endsWith_def)

lemma absolutePath_inject: "list_all cleanName ns \<Longrightarrow> list_all cleanName ms \<Longrightarrow> absolutePath ns = absolutePath ms \<longleftrightarrow> ns = ms"
  by (metis pathNames_absolute)

lemma source_path_absolute:
  assumes "isAbsolutePath (trimStr p)"
  shows "sourcePath p = Inr (absolutePath (pathNames (trimStr p)))"
proof -
  let ?ns = "pathNames (trimStr p)"
  let ?b = "joinWith [slashC] ?ns"
  have ne: "trimStr p \<noteq> []" using assms by (auto simp: isAbsolutePath_def)
  show ?thesis
  proof (cases "?ns = []")
    case True
    then have "normalizePath (trimStr p) = [slashC]"
      using assms ne by (simp add: normalizePath_def Let_def pathNames_def)
    with assms True show ?thesis by (simp add: sourcePath_def Let_def absolutePath_def)
  next
    case False
    note b = joinWith_last [OF pathNames_clean False]
    have n: "normalizePath (trimStr p) = slashC # ?b @ (if endsWith (trimStr p) [slashC] then [slashC] else [])"
      using assms ne b by (simp add: normalizePath_def Let_def pathNames_def)
    from assms b show ?thesis
      by (auto simp: sourcePath_def Let_def n absolutePath_def endsWith_last butlast_append)
  qed
qed

text \<open>A source's path is canonical: it is the path that \<open>resolve\<close> gives for what was typed, a slash followed by names
  (none empty, none a dot or two), and unless its last name ends in white space it is its own source path; a path that
  is not absolute is refused. So however a directory's path is typed, it is one source.\<close>

theorem source_path_canonical:
  assumes "isAbsolutePath (trimStr p)" "isAbsolutePath (trimStr p')"
  shows "sourcePath p = Inr (resolvePath process cwd (trimStr p)) \<and>
    (sourcePath p = sourcePath p' \<longleftrightarrow> pathNames (trimStr p) = pathNames (trimStr p')) \<and>
    (case sourcePath p of Inl _ \<Rightarrow> False
     | Inr q \<Rightarrow> list_all cleanName (pathNames q) \<and> q = absolutePath (pathNames q) \<and> (trimStr q \<noteq> q \<or> sourcePath q = Inr q))"
  using source_path_absolute [OF assms(1)] source_path_absolute [OF assms(2)]
    source_path_absolute [of "absolutePath (pathNames (trimStr p))"] pathNames_absolute [OF pathNames_clean]
  by (auto simp: resolve_absolute assms pathNames_clean absolutePath_inject)

lemma canonical_demo: "trimStr ''/srv//app/./x/..'' = ''/srv//app/./x/..''" "trimStr '' /srv/app/'' = ''/srv/app/''"
  by (simp_all add: trimStr_def trimStart_def trimEnd_def isSpace_def)

theorem source_path_canonical_witness:
  "sourcePath ''/srv//app/./x/..'' = sourcePath '' /srv/app/''"
  using source_path_canonical [of "''/srv//app/./x/..''" "'' /srv/app/''", THEN conjunct2, THEN conjunct1]
  unfolding canonical_demo by (simp add: isAbsolutePath_def slashC_def pathNames_def)

text \<open>A directory whose name ends in a space: its path names another directory when it is given back.\<close>

theorem source_path_trimmed_again:
  "sourcePath ''/srv/app /'' = Inr ''/srv/app '' \<and> sourcePath ''/srv/app '' = Inr ''/srv/app''"
proof -
  have t: "trimStr ''/srv/app /'' = ''/srv/app /''" "trimStr ''/srv/app '' = ''/srv/app''"
    by (simp_all add: trimStr_def trimStart_def trimEnd_def isSpace_def)
  show ?thesis
    by (simp add: source_path_absolute t isAbsolutePath_def slashC_def pathNames_def absolutePath_def)
qed

end
