(* ===== verification/Session_Laws.thy ===== *)
theory Session_Laws
  imports Catalog_Laws
begin

text \<open>
  What holds of the server's catalog and its operations: integrity under any interleaving, nodes barred and pairing codes
  used for good, tasks deleted and sessions moved only while idle, refused requests that keep nothing, and what the
  browser is shown.
\<close>

subsection \<open>Integrity\<close>

definition demoCatalog :: catalog where
  "demoCatalog = \<lparr>ctNodes = [\<lparr>ndId = ''n'', ndName = ''Box'', ndPublicKey = Some ''k'', ndHostname = Some ''box'', ndPairedAt = Some 1,
       ndRevokedAt = None, ndRemovedAt = None\<rparr>],
     ctSources = [\<lparr>soId = 1, soNode = ''n'', soPath = ''/srv''\<rparr>],
     ctProjects = [\<lparr>pjId = 1, pjName = ''P'', pjBaseBranch = ''main'', pjDefaultSource = Some 1, pjCreatedAt = 1, pjOpenedAt = 1\<rparr>],
     ctTasks = [\<lparr>tkId = 1, tkProject = 1, tkTitle = ''T'', tkDescription = None, tkBranch = ''task/t'', tkBaseCommit = None,
       tkCreatedAt = 1, tkUpdatedAt = 1, tkClosedAt = None\<rparr>],
     ctSessions = [\<lparr>ssId = ''s'', ssProject = Some 1, ssSource = 1, ssName = None, ssCreatedAt = 1, ssUpdatedAt = 1, ssProvider = None,
       ssModel = None, ssThinking = ''off'', ssRuntime = ''pi'', ssTask = Some 1, ssParent = None, ssActivity = None, ssPinnedAt = None,
       ssArchivedAt = None, ssBackground = False, ssKind = ''agent'', ssExtension = None\<rparr>],
     ctGrants = [\<lparr>gtId = 1, gtCode = ''c'', gtName = None, gtCreatedAt = 1, gtExpiresAt = 100, gtConsumedAt = None, gtNode = None\<rparr>],
     ctLastProject = 1, ctLastTask = 1\<rparr>"

definition idleProcess :: processSessions where
  "idleProcess = \<lparr>psOpen = emptySessions, psSubmissions = [], psBusy = (\<lambda>_. False), psPending = (\<lambda>_. False)\<rparr>"

definition demoServer :: serverState where
  "demoServer = \<lparr>stCatalog = demoCatalog, stSessions = idleProcess, stEvents = []\<rparr>"

lemma demo_rows:
  "ctNodes demoCatalog = [\<lparr>ndId = ''n'', ndName = ''Box'', ndPublicKey = Some ''k'', ndHostname = Some ''box'', ndPairedAt = Some 1,
       ndRevokedAt = None, ndRemovedAt = None\<rparr>]"
  "ctGrants demoCatalog = [\<lparr>gtId = 1, gtCode = ''c'', gtName = None, gtCreatedAt = 1, gtExpiresAt = 100, gtConsumedAt = None, gtNode = None\<rparr>]"
  by (simp_all add: demoCatalog_def)

lemma demo_ok: "catalogOk demoCatalog"
  by (simp add: catalogOk_def demoCatalog_def nodesOk_def sourcesOk_def projectsOk_def tasksOk_def sessionsOk_def sessionOk_def grantsOk_def)

text \<open>C30: Whatever operations run, in any order, and whatever runs at each point where one of them waits, the catalog's tables
  stay sound: every key is unique (also a location's node and path, a node's key and a code), every reference is to a
  row that exists, a session with a task is one of that task's project, a parent that is deleted is forgotten, and no
  row stores that its session runs.\<close>

theorem catalog_integrity:
  assumes "catalogOk (stCatalog st)"
  shows "catalogOk (stCatalog (runOps ops st))"
  using integrity.ops_keep [of st ops] assms by (simp add: integrityKept_def)

theorem catalog_integrity_witness:
  "catalogOk (stCatalog (runOps [DoDeleteTask [DoCloseTask 1 1 7] 1 1, DoRemoveProject [DoRename ''n'' ''x''] 1] demoServer))"
  by (rule catalog_integrity) (simp add: demoServer_def demo_ok)

subsection \<open>What is final\<close>

lemma getNode_in: "getNode ct i = Some n \<Longrightarrow> n \<in> set (ctNodes ct) \<and> ndId n = i"
  by (auto simp: getNode_def dest: rowWith_SomeD)

lemma removed_unlisted:
  assumes "catalogOk ct" "getNode ct i = Some n" "ndRemovedAt n \<noteq> None"
  shows "i \<notin> ndId ` set (listNodes ct)"
proof
  assume "i \<in> ndId ` set (listNodes ct)"
  then obtain m where m: "m \<in> set (ctNodes ct)" "ndRemovedAt m = None" "ndId m = i" by (auto simp: listNodes_def)
  have "distinct (map ndId (ctNodes ct))" using assms(1) by (simp add: catalogOk_def nodesOk_def)
  with m getNode_in [OF assms(2)] have "m = n" by (intro distinct_key [of ndId]) auto
  with m assms(3) show False by simp
qed

text \<open>A node that was removed or revoked stays barred, whatever runs afterwards: its row stays, with its key and the first
  time of its removal or revocation, and it may not connect. A removed one is listed no more, and no session moves to it.\<close>

theorem barred_for_good:
  assumes "catalogOk (stCatalog st)" "getNode (stCatalog st) i = Some row" "ndRemovedAt row \<noteq> None \<or> ndRevokedAt row \<noteq> None"
  shows "let st' = runOps ops st in
    case getNode (stCatalog st') i of None \<Rightarrow> False
    | Some row' \<Rightarrow> ndPublicKey row' = ndPublicKey row \<and> assertMayConnect row' \<noteq> None \<and>
        (ndRevokedAt row = None \<or> ndRevokedAt row' = ndRevokedAt row) \<and>
        (ndRemovedAt row = None \<or> ndRemovedAt row' = ndRemovedAt row \<and> i \<notin> ndId ` set (listNodes (stCatalog st')) \<and>
           fst (moveSession check later closing s i path st') \<in> {Inl (SessionNotFound s), Inl (NodeNotFound i)})"
proof -
  let ?st = "runOps ops st"
  from final.ops_keep [of st ops] assms(2) obtain row' where r: "getNode (stCatalog ?st) i = Some row'" "nodeKept row row'"
    unfolding finalKept_def by blast
  have ok: "catalogOk (stCatalog ?st)" by (rule catalog_integrity [OF assms(1)])
  have "i \<notin> ndId ` set (listNodes (stCatalog ?st))" "fst (moveSession check later closing s i path ?st) \<in> {Inl (SessionNotFound s), Inl (NodeNotFound i)}"
    if "ndRemovedAt row' \<noteq> None"
    using removed_unlisted [OF ok r(1)] that r(1) by (simp_all add: moveSession_def)
  with r assms(3) show ?thesis
    by (auto simp: nodeKept_def assertMayConnect_def assertNotRemoved_def)
qed

lemma demo_removed: "getNode (stCatalog (runOps [DoRemoveNode ''n'' 5] demoServer)) ''n'' =
    Some \<lparr>ndId = ''n'', ndName = ''Box'', ndPublicKey = Some ''k'', ndHostname = Some ''box'', ndPairedAt = Some 1,
       ndRevokedAt = None, ndRemovedAt = Some 5\<rparr>"
  by (simp add: runOps_def inTurn_def removeNode_def demoServer_def getNode_def rowWith_def demo_rows assertPaired_def Let_def
      setNodeRemoved_def updateNode_def updateRows_def)

definition demoAfter :: "catalogOp list" where
  "demoAfter = [DoRename ''n'' ''x'', DoRedeem (\<lambda>_. True) ''c'' ''k'' ''h'' ''n'' 9]"

theorem barred_for_good_witness:
  "getNode (stCatalog (runOps demoAfter (runOps [DoRemoveNode ''n'' 5] demoServer))) ''n'' \<noteq> None"
proof -
  have ok: "catalogOk (stCatalog (runOps [DoRemoveNode ''n'' 5] demoServer))"
    by (rule catalog_integrity) (simp add: demoServer_def demo_ok)
  show ?thesis
    using barred_for_good [OF ok demo_removed, of demoAfter "\<lambda>_ _. None" id id "''s''" "''/''"]
    by (cases "getNode (stCatalog (runOps demoAfter (runOps [DoRemoveNode ''n'' 5] demoServer))) ''n''") (simp_all add: Let_def)
qed

subsection \<open>Pairing codes\<close>

lemma redeem_success:
  assumes "fst (redeemCode validKey code publicKey hostname i now st) = Inr r"
  shows "\<exists>g\<in>set (ctGrants (stCatalog st)). redeemable code now g"
    and "\<exists>g\<in>set (ctGrants (stCatalog (snd (redeemCode validKey code publicKey hostname i now st)))). gtCode g = code \<and> gtConsumedAt g = Some now"
proof -
  from assms obtain g name ct where p: "pairNode code publicKey hostname i now (stCatalog st) = Inr ((g, name), ct)"
    and out: "stCatalog (snd (redeemCode validKey code publicKey hostname i now st)) = ct"
    by (auto simp: redeemCode_def split: if_splits sum.splits prod.splits)
  obtain given ct1 ct2 where c: "consumePairingGrant code now (stCatalog st) = (Some (g, given), ct1)"
    and ct: "ct = setPairingGrantNode g i ct2" and gs: "ctGrants ct2 = ctGrants ct1"
    by (rule pairNodeE [OF p]) auto
  from c obtain h where f: "find (redeemable code now) (ctGrants (stCatalog st)) = Some h"
    and ct1: "ctGrants ct1 = updateRows (redeemable code now) (\<lambda>g. g\<lparr>gtConsumedAt := Some now\<rparr>) (ctGrants (stCatalog st))"
    by (auto simp: consumePairingGrant_def)
  note h = find_SomeD [OF f]
  from h show "\<exists>g\<in>set (ctGrants (stCatalog st)). redeemable code now g" by blast
  have "h\<lparr>gtConsumedAt := Some now\<rparr> \<in> set (ctGrants ct2)" using h by (force simp: gs ct1 updateRows_def)
  then have "(if gtId h = g then h\<lparr>gtConsumedAt := Some now, gtNode := Some i\<rparr> else h\<lparr>gtConsumedAt := Some now\<rparr>) \<in> set (ctGrants ct)"
    unfolding ct setPairingGrantNode_def by (force simp: updateRows_def)
  with h(2) show "\<exists>g\<in>set (ctGrants (stCatalog (snd (redeemCode validKey code publicKey hostname i now st)))). gtCode g = code \<and> gtConsumedAt g = Some now"
    unfolding out by (cases "gtId h = g") (auto simp: redeemable_def intro: rev_bexI)
qed

text \<open>A pairing code pairs one node, while it has not expired. Once it was redeemed no later attempt succeeds, whatever ran in
  between, and an attempt that fails changes nothing: it leaves the code, the nodes and the browsers as they were.\<close>

theorem pairing_code_once:
  assumes "catalogOk (stCatalog st)" "redeemCode validKey code publicKey hostname i now st = (Inr r, st1)"
  shows "list_ex (\<lambda>g. gtCode g = code \<and> gtConsumedAt g = None \<and> now < gtExpiresAt g) (ctGrants (stCatalog st)) \<and>
    (case redeemCode validKey' code publicKey' hostname' i' now' (runOps ops st1) of
       (Inl e, st') \<Rightarrow> e \<in> {InvalidPublicKey, InvalidPairingCode} \<and> st' = runOps ops st1
     | (Inr _, _) \<Rightarrow> False)"
proof -
  note s = redeem_success [of validKey code publicKey hostname i now st r, unfolded assms(2), simplified]
  have one: "runOps [DoRedeem validKey code publicKey hostname i now] st = st1"
    by (simp add: runOps_def inTurn_def assms(2))
  have ok: "catalogOk (stCatalog (runOps ops st1))"
    using catalog_integrity [OF catalog_integrity [OF assms(1)], of ops "[DoRedeem validKey code publicKey hostname i now]"] by (simp add: one)
  from s(2) obtain g where g: "g \<in> set (ctGrants (stCatalog st1))" "gtCode g = code" "gtConsumedAt g = Some now" by blast
  with final.ops_keep [of st1 ops] obtain g' where g': "g' \<in> set (ctGrants (stCatalog (runOps ops st1)))" "grantKept g g'"
    unfolding finalKept_def by blast
  have d: "distinct (map gtCode (ctGrants (stCatalog (runOps ops st1))))" using ok by (simp add: catalogOk_def grantsOk_def)
  have "\<not> redeemable code t h" if "h \<in> set (ctGrants (stCatalog (runOps ops st1)))" for h t
    using distinct_key [OF d that g'(1)] g g'(2) by (auto simp: grantKept_def redeemable_def)
  then have "find (redeemable code t) (ctGrants (stCatalog (runOps ops st1))) = None" for t by (auto simp: find_None_iff)
  with s(1) show ?thesis
    by (auto simp: redeemCode_def pairNode_def consumePairingGrant_def redeemable_def list_ex_iff)
qed

lemma demo_redeemed: "redeemCode (\<lambda>_. True) ''c'' ''k2'' ''host'' ''m'' 50 demoServer =
    (Inr (''m'', ''host''), snd (redeemCode (\<lambda>_. True) ''c'' ''k2'' ''host'' ''m'' 50 demoServer))"
  by (simp add: redeemCode_def pairNode_def consumePairingGrant_def demoServer_def demo_rows redeemable_def insertPairedNode_def getNode_def
      rowWith_def Let_def)

theorem pairing_code_once_witness:
  "case redeemCode (\<lambda>_. True) ''c'' ''k3'' ''other'' ''o'' 51 (runOps demoAfter (snd (redeemCode (\<lambda>_. True) ''c'' ''k2'' ''host'' ''m'' 50 demoServer))) of
     (Inl e, _) \<Rightarrow> e \<in> {InvalidPublicKey, InvalidPairingCode} | (Inr _, _) \<Rightarrow> False"
  using pairing_code_once [OF _ demo_redeemed, where validKey' = "\<lambda>_. True" and publicKey' = "''k3''" and hostname' = "''other''" and
      i' = "''o''" and now' = 51 and ops = demoAfter]
  by (simp add: demoServer_def demo_ok split: prod.splits sum.splits)

subsection \<open>Deleting a task\<close>

lemma close_live: "jmGet (osLive (closeSessionRuntime s os)) i = (if i = s then None else jmGet (osLive os) i)"
  by (auto simp: closeSessionRuntime_def closeRuntime_def split: option.split)

lemma close_all_live: "jmGet (osLive (fold closeSessionRuntime ids os)) i = (if i \<in> set ids then None else jmGet (osLive os) i)"
  by (induction ids arbitrary: os) (simp_all add: close_live)

lemma remove_ids: "map ssId (ctSessions (removeSessions P ct)) = map ssId (filter (\<lambda>s. \<not> P s) (ctSessions ct))"
  by (simp add: removeSessions_def Let_def)

lemma activeTask_idle:
  assumes "catalogOk (stCatalog st)" "activeTaskSessions st i = []" "s \<in> set (ctSessions (stCatalog st))" "ssTask s = Some i"
  shows "\<not> sessionBusy (stSessions st) (ssId s)"
proof -
  have "distinct (map ssId (ctSessions (stCatalog st)))" using assms(1) by (simp add: catalogOk_def sessionsOk_def)
  from rowWith_unique [OF this assms(3)] have "sessionRow (stCatalog st) (ssId s) = Some s" by (simp add: sessionRow_def)
  moreover have "ssId s \<in> set (getTaskSessionIds (stCatalog st) i)" using assms(3,4) by (auto simp: getTaskSessionIds_def)
  ultimately show ?thesis
    using assms(2) by (auto simp: activeTaskSessions_def filter_empty_conv liveSession_def getSession_def sessionRunning_def withLiveActivity_def)
qed

lemma stSessions_publishEach: "stSessions (fold (\<lambda>i. publishNode i None) ids st) = stSessions st"
  by (induction ids arbitrary: st) (simp_all add: publishNode_def broadcast_def split: option.split)

lemma stSessions_simps [simp]: "stSessions (publishChanged before st) = stSessions st" "stSessions (broadcast es st) = stSessions st"
  by (simp_all add: publishChanged_def Let_def stSessions_publishEach broadcast_def)

text \<open>Deleting a task is refused, changing nothing, while one of its sessions is busy, when nothing else runs meanwhile. When
  it is not refused none of them was busy, the task and exactly its sessions are gone, and none of those has a live
  runtime left.\<close>

theorem task_deletion:
  assumes "catalogOk (stCatalog st)"
  shows "case deleteTask id project i st of
    (Inl e, st') \<Rightarrow> st' = st \<and> e \<in> {TaskNotFound, TaskHasActiveSessions (length (activeTaskSessions st i))}
  | (Inr _, st') \<Rightarrow>
      list_all (\<lambda>s. ssTask s \<noteq> Some i \<or> \<not> sessionBusy (stSessions st) (ssId s)) (ctSessions (stCatalog st)) \<and>
      map ssId (ctSessions (stCatalog st')) = map ssId (filter (\<lambda>s. ssTask s \<noteq> Some i) (ctSessions (stCatalog st))) \<and>
      ctTasks (stCatalog st') = filter (\<lambda>t. tkId t \<noteq> i) (ctTasks (stCatalog st)) \<and>
      list_all (\<lambda>s. jmGet (osLive (psOpen (stSessions st'))) s = None) (getTaskSessionIds (stCatalog st) i)"
proof (cases "projectTask (stCatalog st) project i")
  case (Some task)
  then obtain t where t: "getTask (stCatalog st) i = Some t" by (auto simp: projectTask_def split: option.splits)
  show ?thesis
  proof (cases "activeTaskSessions st i = []")
    case True
    have "list_all (\<lambda>s. ssTask s \<noteq> Some i \<or> \<not> sessionBusy (stSessions st) (ssId s)) (ctSessions (stCatalog st))"
      using activeTask_idle [OF assms True] by (auto simp: list_all_iff)
    with t show ?thesis
      by (simp add: deleteTask_def Some True Let_def deleteTaskRow_def remove_ids closeRuntimes_def close_all_live list_all_iff)
  qed (simp add: deleteTask_def Some Let_def)
qed (simp add: deleteTask_def)

theorem task_deletion_witness:
  "case deleteTask id 1 1 demoServer of (Inl e, st') \<Rightarrow> st' = demoServer | (Inr _, st') \<Rightarrow> ctTasks (stCatalog st') = []"
  using task_deletion [of demoServer 1 1] by (simp add: demoServer_def demo_ok demoCatalog_def [THEN arg_cong [of _ _ ctTasks]] split: prod.splits sum.splits)

text \<open>The check and the deletion are apart: while the sessions' runtimes close, one of them can begin a run, and it is deleted
  while it is busy.\<close>

definition busyMeanwhile :: "serverState \<Rightarrow> serverState" where
  "busyMeanwhile st = st\<lparr>stSessions := (stSessions st)\<lparr>psSubmissions := [(''s'', 0)]\<rparr>\<rparr>"

text \<open>A task's sessions are checked before their runtimes are closed and not again after it: a session that gets a
  submission meanwhile is deleted with its task although it is busy, and the deletion reports success.\<close>

theorem deletion_not_rechecked:
  "activeTaskSessions demoServer 1 = [] \<and>
   (let between = busyMeanwhile (closeRuntimes (getTaskSessionIds (stCatalog demoServer) 1) demoServer);
        out = deleteTask busyMeanwhile 1 1 demoServer
    in sessionBusy (stSessions between) ''s'' \<and> sessionRow (stCatalog between) ''s'' \<noteq> None \<and>
       fst out = Inr ''task/t'' \<and> sessionRow (stCatalog (snd out)) ''s'' = None)"
proof -
  have idle: "activeTaskSessions demoServer 1 = []"
    by (simp add: activeTaskSessions_def getTaskSessionIds_def demoServer_def demoCatalog_def liveSession_def getSession_def sessionRow_def
        rowWith_def withLiveActivity_def liveActivityState_def sessionRunning_def sessionBusy_def idleProcess_def emptySessions_def)
  have task: "projectTask (stCatalog demoServer) 1 1 = Some (ctTasks demoCatalog ! 0)"
    by (simp add: projectTask_def getTask_def rowWith_def demoServer_def demoCatalog_def)
  have gone: "ctSessions (snd (deleteTaskRow 1 demoCatalog)) = []"
    by (simp add: deleteTaskRow_def getTask_def rowWith_def demoCatalog_def removeSessions_def updateRows_def Let_def)
  have branch: "tkBranch (ctTasks demoCatalog ! 0) = ''task/t''" "sessionRow demoCatalog ''s'' \<noteq> None"
    by (simp_all add: demoCatalog_def sessionRow_def rowWith_def)
  have same: "stCatalog (busyMeanwhile st) = stCatalog st" for st by (simp add: busyMeanwhile_def)
  show ?thesis
    using idle task branch
    by (simp add: deleteTask_def Let_def same gone [simplified] jmHas_def sessionRow_def rowWith_def sessionBusy_def busyMeanwhile_def demoServer_def closeRuntimes_def)
qed

subsection \<open>Moving a session\<close>

lemma ensure_gives:
  assumes "ensureSource check later node path st = (Inr s, st1)"
  shows "soNode s = node \<and> sourcePath path = Inr (soPath s) \<and> s \<in> set (ctSources (stCatalog st1))"
proof -
  obtain q where q: "sourcePath path = Inr q" using assms by (auto simp: ensureSource_def split: sum.splits)
  show ?thesis
  proof (cases "findSource (stCatalog st) node q")
    case (Some known)
    with find_SomeD [OF Some [unfolded findSource_def]] assms q show ?thesis by (simp add: ensureSource_def)
  next
    case None
    from assms obtain ct where u: "upsertSource node q (stCatalog (later st)) = Inr (s, ct)" and st1: "stCatalog st1 = ct"
      by (auto simp: ensureSource_def q None Let_def split: option.splits if_splits sum.splits prod.splits)
    show ?thesis
    proof (cases "findSource (stCatalog (later st)) node q")
      case (Some known)
      with find_SomeD [OF Some [unfolded findSource_def]] u st1 q show ?thesis by (simp add: upsertSource_def)
    next
      case none: None
      then have "s \<in> set (ctSources ct) \<and> soNode s = node \<and> soPath s = q"
        using u by (auto simp: upsertSource_def Let_def split: if_splits)
      with st1 q show ?thesis by simp
    qed
  qed
qed

lemma changed_row: "(\<And>s. ssId (g s) = ssId s) \<Longrightarrow> sessionRow (changeSession i g ct) j = map_option (\<lambda>s. if ssId s = i then g s else s) (sessionRow ct j)"
  by (simp add: sessionRow_def changeSession_def rowWith_updateRows)

lemma live_row: "liveSession st i = map_option (withLiveActivity (Some (stSessions st))) (sessionRow (stCatalog st) i)"
  by (simp add: liveSession_def getSession_def)

lemma sessionRow_id: "sessionRow ct i = Some s \<Longrightarrow> ssId s = i"
  by (auto simp: sessionRow_def dest: rowWith_SomeD)

lemma live_simps [simp]: "ssId (withLiveActivity ps s) = ssId s" "ssSource (withLiveActivity ps s) = ssSource s"
  "ssProject (withLiveActivity ps s) = ssProject s"
  by (simp_all add: withLiveActivity_def)

text \<open>A session moves only while it is idle. Whatever ran while its new location was being checked, a session that is busy
  by then keeps its source; and a move that succeeds, with nothing running while its runtime closes, has put it at
  that node and path, leaving it no live runtime of another place.\<close>

theorem move_only_idle:
  assumes "ensureSource check later node path st = (found, st1)"
  shows "case moveSession check later id i node path st of
    (Inr src, st') \<Rightarrow>
      (case found of Inl _ \<Rightarrow> False
       | Inr s \<Rightarrow> src = soId s \<and> soNode s = node \<and> sourcePath path = Inr (soPath s) \<and> s \<in> set (ctSources (stCatalog st1)) \<and>
           (case sessionRow (stCatalog st1) i of None \<Rightarrow> False
            | Some row \<Rightarrow> ssSource row = src \<or> \<not> sessionBusy (stSessions st1) i \<and> jmGet (osLive (psOpen (stSessions st'))) i = None) \<and>
           map_option ssSource (sessionRow (stCatalog st') i) = Some src)
  | (Inl _, st') \<Rightarrow> stCatalog st' \<in> {stCatalog st, stCatalog st1}"
proof (cases "liveSession st i = None \<or> Option.bind (getNode (stCatalog st) node) ndRemovedAt \<noteq> None")
  case False
  show ?thesis
  proof (cases found)
    case (Inr s)
    note s = ensure_gives [OF assms [unfolded Inr]]
    show ?thesis
    proof (cases "sessionRow (stCatalog st1) i")
      case None
      with False show ?thesis
        by (auto simp: moveSession_def assms Inr requestSessionMove_def live_row)
    next
      case row: (Some row)
      have rid: "ssId row = i" by (rule sessionRow_id [OF row])
      show ?thesis
      proof (cases "ssSource row = soId s")
        case True
        with False row s show ?thesis
          by (auto simp: moveSession_def assms Inr requestSessionMove_def live_row Let_def)
      next
        case moved: False
        show ?thesis
        proof (cases "sessionRunning (stSessions st1) (withLiveActivity (Some (stSessions st1)) row)")
          case True
          with False row moved show ?thesis
            by (auto simp: moveSession_def assms Inr requestSessionMove_def live_row assertIdleForMove_def)
        next
          case idle: False
          have there: "getSource (stCatalog st1) (soId s) \<noteq> None" using s by (auto simp: getSource_def rowWith_None)
          have "\<not> sessionBusy (stSessions st1) i" using idle rid by (simp add: sessionRunning_def)
          with False row moved idle there s rid show ?thesis
            by (auto simp: moveSession_def assms Inr requestSessionMove_def live_row assertIdleForMove_def Let_def changed_row
                closeRuntimes_def close_live)
        qed
      qed
    qed
  qed (use False in \<open>auto simp: moveSession_def assms\<close>)
qed (auto simp: moveSession_def)

lemma demo_move: "ensureSource (\<lambda>_ _. None) busyMeanwhile ''n'' ''/new'' demoServer =
    (Inr \<lparr>soId = 2, soNode = ''n'', soPath = ''/new''\<rparr>,
     (busyMeanwhile demoServer)\<lparr>stCatalog := demoCatalog\<lparr>ctSources := ctSources demoCatalog @ [\<lparr>soId = 2, soNode = ''n'', soPath = ''/new''\<rparr>]\<rparr>\<rparr>)"
proof -
  have p: "sourcePath ''/new'' = Inr ''/new''"
    by (simp add: sourcePath_def trimStr_def trimStart_def trimEnd_def isSpace_def isAbsolutePath_def slashC_def normalizePath_def Let_def
        endsWith_def)
  show ?thesis
    by (simp add: ensureSource_def p findSource_def demoServer_def busyMeanwhile_def demoCatalog_def getNode_def rowWith_def upsertSource_def
        Let_def nextRowid_def)
qed

theorem move_only_idle_witness:
  "fst (moveSession (\<lambda>_ _. None) busyMeanwhile id ''s'' ''n'' ''/new'' demoServer) \<noteq> Inr 2"
proof -
  have row: "sessionRow (demoCatalog\<lparr>ctSources := srcs\<rparr>) ''s'' = Some (ctSessions demoCatalog ! 0)" "ssSource (ctSessions demoCatalog ! 0) = 1" for srcs
    by (simp_all add: sessionRow_def rowWith_def demoCatalog_def)
  have busy: "sessionBusy (stSessions (busyMeanwhile demoServer)) ''s''"
    by (simp add: sessionBusy_def busyMeanwhile_def jmHas_def)
  show ?thesis
    using move_only_idle [OF demo_move, where i = "''s''"] busy
    by (cases "moveSession (\<lambda>_ _. None) busyMeanwhile id ''s'' ''n'' ''/new'' demoServer") (auto simp: row split: sum.splits)
qed

subsection \<open>Activity\<close>

lemma withoutRepeats_set: "set (withoutRepeats acc xs) = set acc \<union> set xs"
  by (induction xs arbitrary: acc) auto

lemma running_ids: "i \<in> set (runningSessionIds ps) \<longleftrightarrow> sessionBusy ps i"
proof -
  have "i \<in> fst ` set (psSubmissions ps) \<union> fst ` set (osOpening (psOpen ps)) \<union> fst ` set (osLive (psOpen ps))" if "sessionBusy ps i"
    using that by (auto simp: sessionBusy_def jmHas_iff dest: map_of_SomeD intro: rev_image_eqI split: option.splits)
  then show ?thesis by (auto simp: runningSessionIds_def withoutRepeats_set)
qed

lemma concat_filter_widen:
  "(\<And>x. P x \<Longrightarrow> Q x) \<Longrightarrow> (\<And>x. Q x \<Longrightarrow> \<not> P x \<Longrightarrow> f x = []) \<Longrightarrow> concat (map f (filter P xs)) = concat (map f (filter Q xs))"
  by (induction xs) auto

text \<open>The activity snapshot a browser starts from is exact: it has, in the rows' order, every session that is not a
  background one and reads running or unread, and no other, although only the rows that store unread and those the
  process names are read.\<close>

theorem activity_snapshot_exact:
  "listSessionsWithActivity (Some ps) ct =
   concat (map (\<lambda>s. case ssActivity (withLiveActivity (Some ps) s) of None \<Rightarrow> [] | Some a \<Rightarrow> [(ssId s, a, ssProject s, ssTask s)])
     (filter (\<lambda>s. \<not> ssBackground s) (ctSessions ct)))"
  unfolding listSessionsWithActivity_def Let_def
  by (simp add: withLiveActivity_def) (rule concat_filter_widen; auto simp: running_ids liveActivityState_def)

text \<open>Marking a session unread or read touches only one that is not busy: on a busy one nothing changes, and marking it unread
  is an error. Otherwise its stored flag is what was asked for, and no other row changes.\<close>

theorem unread_only_idle:
  assumes "catalogOk (stCatalog st)"
  shows "case setUnread i unread st of (r, st') \<Rightarrow>
    (case sessionRow (stCatalog st) i of
       None \<Rightarrow> r = Inl (SessionNotFound i) \<and> st' = st
     | Some row \<Rightarrow>
         if sessionBusy (stSessions st) i then st' = st \<and> (r = Inr () \<longleftrightarrow> \<not> unread)
         else r = Inr () \<and> stCatalog st' = changeSession i (\<lambda>s. s\<lparr>ssActivity := (if unread then Some ActivityFinished else None)\<rparr>) (stCatalog st))"
proof (cases "sessionRow (stCatalog st) i")
  case (Some row)
  have row: "row \<in> set (ctSessions (stCatalog st))" "ssId row = i"
    using Some by (auto simp: sessionRow_def dest: rowWith_SomeD)
  then have stored: "ssActivity row \<noteq> Some ActivityRunning"
    using assms by (auto simp: catalogOk_def sessionsOk_def sessionOk_def list_all_iff)
  have d: "distinct (map ssId (ctSessions (stCatalog st)))" using assms by (simp add: catalogOk_def sessionsOk_def)
  have unchanged: "changeSession i (\<lambda>s. s\<lparr>ssActivity := ssActivity row\<rparr>) (stCatalog st) = stCatalog st"
  proof -
    have "s\<lparr>ssActivity := ssActivity row\<rparr> = s" if "s \<in> set (ctSessions (stCatalog st))" "ssId s = i" for s
      using distinct_key [OF d that(1) row(1)] that(2) row(2) by simp
    then have "updateRows (\<lambda>s. ssId s = i) (\<lambda>s. s\<lparr>ssActivity := ssActivity row\<rparr>) (ctSessions (stCatalog st)) = ctSessions (stCatalog st)"
      unfolding updateRows_def by (intro map_idI) auto
    then show ?thesis by (simp add: changeSession_def)
  qed
  show ?thesis
  proof (cases "sessionBusy (stSessions st) i")
    case True
    with Some row show ?thesis by (auto simp: setUnread_def live_row withLiveActivity_def liveActivityState_def)
  next
    case False
    then have live: "liveSession st i = Some row" using Some row(2) by (simp add: live_row withLiveActivity_def liveActivityState_def)
    show ?thesis
      using False Some live stored unchanged
      by (auto simp: setUnread_def sessionsUpdateActivity_def storeActivity_def)
  qed
qed (simp add: setUnread_def live_row)

theorem unread_only_idle_witness:
  "fst (setUnread ''s'' True (busyMeanwhile demoServer)) \<noteq> Inr () \<and> fst (setUnread ''s'' True demoServer) = Inr ()"
proof -
  have row: "sessionRow demoCatalog ''s'' = Some (ctSessions demoCatalog ! 0)"
    by (simp add: sessionRow_def rowWith_def demoCatalog_def)
  have busy: "sessionBusy (stSessions (busyMeanwhile demoServer)) ''s''" "\<not> sessionBusy (stSessions demoServer) ''s''"
    by (simp_all add: sessionBusy_def busyMeanwhile_def jmHas_def demoServer_def idleProcess_def emptySessions_def)
  show ?thesis
    using unread_only_idle [of "busyMeanwhile demoServer" "''s''" True] unread_only_idle [of demoServer "''s''" True] busy demo_ok
    by (cases "setUnread ''s'' True (busyMeanwhile demoServer)"; cases "setUnread ''s'' True demoServer")
      (simp add: demoServer_def busyMeanwhile_def row)
qed

subsection \<open>Closing a task\<close>

text \<open>Closing a task closes it for the time it was first closed, quiets exactly its unread sessions, and announces the task
  and each session it quieted; nothing of another task or project changes.\<close>

theorem closing_quiets:
  assumes "catalogOk (stCatalog st)" "projectTask (stCatalog st) project i = Some t"
  shows "case closeTask project i now st of
    (Inl _, _) \<Rightarrow> False
  | (Inr t', st') \<Rightarrow>
      t' = t\<lparr>tkUpdatedAt := now, tkClosedAt := Some (orElse (tkClosedAt t) now)\<rparr> \<and>
      ctSessions (stCatalog st') = map (\<lambda>s. if ssTask s = Some i \<and> ssActivity s = Some ActivityFinished then s\<lparr>ssActivity := None\<rparr> else s) (ctSessions (stCatalog st)) \<and>
      (\<exists>ids. stEvents st' = stEvents st @ TaskUpdated project # map (\<lambda>s. SessionUpdated s (Some project)) ids \<and>
         set ids = ssId ` set (filter (\<lambda>s. ssTask s = Some i \<and> ssActivity s = Some ActivityFinished) (ctSessions (stCatalog st))))"
proof -
  have t: "getTask (stCatalog st) i = Some t" "tkId t = i"
    using assms(2) by (auto simp: projectTask_def getTask_def dest: rowWith_SomeD split: option.splits if_splits)
  have d: "distinct (map ssId (ctSessions (stCatalog st)))" using assms(1) by (simp add: catalogOk_def sessionsOk_def)
  let ?hit = "\<lambda>s. ssTask s = Some i \<and> ssActivity s = Some ActivityFinished"
  have hit: "ssId s \<in> ssId ` set (filter ?hit (ctSessions (stCatalog st))) \<longleftrightarrow> ?hit s" if "s \<in> set (ctSessions (stCatalog st))" for s
    using that distinct_key [OF d] by fastforce
  have sessions: "updateRows (\<lambda>s. ssId s \<in> set (map ssId (filter ?hit (ctSessions (stCatalog st))))) (\<lambda>s. s\<lparr>ssActivity := None\<rparr>) (ctSessions (stCatalog st)) =
      map (\<lambda>s. if ?hit s then s\<lparr>ssActivity := None\<rparr> else s) (ctSessions (stCatalog st))"
    unfolding updateRows_def by (intro map_cong refl) (use hit in auto)
  have task: "setTaskStatus i TaskClosed now (stCatalog st) =
      (Some (t\<lparr>tkUpdatedAt := now, tkClosedAt := Some (orElse (tkClosedAt t) now)\<rparr>),
       updateTaskRow i (\<lambda>t. t\<lparr>tkUpdatedAt := now, tkClosedAt := Some (orElse (tkClosedAt t) now)\<rparr>) (stCatalog st))"
    using t by (simp add: setTaskStatus_def Let_def getTask_def updateTaskRow_def rowWith_updateRows)
  have rest: "ctSessions (updateTaskRow i g (stCatalog st)) = ctSessions (stCatalog st)" for g by (simp add: updateTaskRow_def)
  let ?ids = "sort_key (map (of_char :: char \<Rightarrow> nat)) (map ssId (filter ?hit (ctSessions (stCatalog st))))"
  have ids: "set ?ids = ssId ` set (filter ?hit (ctSessions (stCatalog st)))" by simp
  show ?thesis
    unfolding closeTask_def task
    using assms(2) sessions
    by (simp add: clearFinishedActivityForTasks_def Let_def rest broadcast_def) (rule exI [of _ ?ids], use ids in simp)
qed

theorem closing_quiets_witness:
  "case closeTask 1 1 9 demoServer of (Inl _, _) \<Rightarrow> False | (Inr t', _) \<Rightarrow> tkClosedAt t' = Some 9"
proof -
  have task: "projectTask (stCatalog demoServer) 1 1 = Some (ctTasks demoCatalog ! 0)" "tkClosedAt (ctTasks demoCatalog ! 0) = None"
    by (simp_all add: projectTask_def getTask_def rowWith_def demoServer_def demoCatalog_def)
  show ?thesis
    using closing_quiets [OF _ task(1), of 9] task(2)
    by (cases "closeTask 1 1 9 demoServer") (auto simp: demoServer_def demo_ok split: sum.splits)
qed

subsection \<open>Requests that are refused\<close>

lemma keepSession_ids:
  assumes "keepSession i now opts model thinking kind source ct = Inr ct'"
  shows "map ssId (ctSessions ct') = map ssId (ctSessions ct) @ [i]"
proof -
  obtain ct1 where ins: "insertSession i (scProject opts) (insertOf opts model thinking kind source) now ct = Inr ct1"
    and ct': "ct' = ct1 \<or> (\<exists>u. ct' = updateSessionMeta i u now ct1)"
    using assms by (auto simp: keepSession_def split: sum.splits option.splits)
  have one: "map ssId (ctSessions ct1) = map ssId (ctSessions ct) @ [i]"
    using ins by (auto simp: insertSession_def insertedRow_def split: if_splits)
  have "map ssId (ctSessions (updateSessionMeta i u now ct1)) = map ssId (ctSessions ct1)" for u
    by (simp add: updateSessionMeta_def changeSession_def split: option.split)
  with one ct' show ?thesis by auto
qed

lemma touch_sessions: "ctSessions (touchLists now opts ct) = ctSessions ct"
  by (simp add: touchLists_def Let_def touchProject_def touchTask_def updateTaskRow_def split: option.split)

lemma create_outcome:
  "case createSession env i now opts st of
     (Inl e, st') \<Rightarrow> st' = st
   | (Inr j, st') \<Rightarrow> j = i \<and> map ssId (ctSessions (stCatalog st')) = map ssId (ctSessions (stCatalog st)) @ [i]"
proof -
  have "map ssId (ctSessions ct1) = map ssId (ctSessions (stCatalog st)) @ [i]"
    if "keepSession i now opts m t k src (stCatalog st) = Inr ct1" for m t k src ct1
    by (rule keepSession_ids [OF that])
  then show ?thesis
    unfolding createSession_def Let_def
    by (simp add: touch_sessions split: option.split sum.split prod.split)
qed

lemma place_kept:
  assumes "ctProjects ct' = ctProjects ct" "ctTasks ct' = ctTasks ct"
  shows "assertPlace ct' p t b = assertPlace ct p t b"
proof -
  have rows: "getTask ct' = getTask ct" "getProject ct' = getProject ct"
    using assms by (simp_all add: fun_eq_iff getTask_def getProject_def)
  show ?thesis unfolding assertPlace_def rows ..
qed

lemma assertPlace_placed: "assertPlace ct p t b = None \<Longrightarrow> assertPlace ct p t True = None"
  by (auto simp: assertPlace_def split: if_splits)

lemma ensure_rest:
  "ctProjects (stCatalog (snd (ensureSource check id node path st))) = ctProjects (stCatalog st) \<and>
   ctTasks (stCatalog (snd (ensureSource check id node path st))) = ctTasks (stCatalog st) \<and>
   ctSessions (stCatalog (snd (ensureSource check id node path st))) = ctSessions (stCatalog st)"
  by (auto simp: ensureSource_def upsertSource_def Let_def split: sum.split option.split prod.split)

lemma ensure_error: "ensureSource check id node path st = (Inl e, st') \<Longrightarrow> st' = st"
  by (auto simp: ensureSource_def Let_def split: sum.splits option.splits prod.splits if_splits)

lemma create_never_refused:
  assumes "assertPlace (stCatalog st) (scProject opts) (scTask opts) True = None" "scSource opts = Some n" "getSource (stCatalog st) n \<noteq> None"
  shows "fst (createSession env i now opts st) \<noteq> Inl (SessionCreationRefused m)"
proof -
  have "seedOf env opts \<noteq> Inl (SessionCreationRefused m)"
    by (auto simp: seedOf_def piModelSetting_def parseThinkingLevel_def Let_def split: option.splits sum.splits if_splits)
  with assms show ?thesis
    by (auto simp: createSession_def Let_def sessionPlacement_def split: option.split sum.split prod.split)
qed

lemma requested_outcome:
  assumes "requestedSource check id place st = (r, st')"
  shows "case r of Inl _ \<Rightarrow> st' = st
    | Inr None \<Rightarrow> st' = st \<and> place = PlaceInherited
    | Inr (Some n) \<Rightarrow> getSource (stCatalog st') n \<noteq> None \<and> ctSessions (stCatalog st') = ctSessions (stCatalog st) \<and>
        ctProjects (stCatalog st') = ctProjects (stCatalog st) \<and> ctTasks (stCatalog st') = ctTasks (stCatalog st)"
proof (cases place)
  case (PlaceLocation node path)
  obtain r1 st1 where e: "ensureSource check id node path st = (r1, st1)" by (meson surj_pair)
  show ?thesis
  proof (cases r1)
    case (Inl err)
    with ensure_error [OF e [unfolded Inl]] assms show ?thesis
      by (auto simp: requestedSource_def PlaceLocation e split: catalogError.splits pathError.splits)
  next
    case (Inr s)
    have "s \<in> set (ctSources (stCatalog st1))" using ensure_gives [OF e [unfolded Inr]] by simp
    then have "getSource (stCatalog st1) (soId s) \<noteq> None" by (auto simp: getSource_def rowWith_None)
    with assms Inr ensure_rest [of check node path st] show ?thesis by (auto simp: requestedSource_def PlaceLocation e)
  qed
qed (use assms in \<open>auto simp: requestedSource_def split: option.splits\<close>)

text \<open>A request for a session is checked before anything is kept: when nothing runs while it waits, one that is refused for what
  was asked leaves the catalog as it was, not even a new location; any other failure leaves the sessions as they were;
  and one that succeeds has added exactly the session it names.\<close>

theorem refused_request_keeps_nothing:
  "case requestSession env check id id i now rq st of
     (Inl (SessionCreationRefused _), st') \<Rightarrow> stCatalog st' = stCatalog st
   | (Inl _, st') \<Rightarrow> ctSessions (stCatalog st') = ctSessions (stCatalog st)
   | (Inr j, st') \<Rightarrow> j = i \<and> map ssId (ctSessions (stCatalog st')) = map ssId (ctSessions (stCatalog st)) @ [i]"
proof -
  let ?opts = "rqOptions rq"
  let ?title = "scTitle ?opts \<noteq> None \<and> trimStr (the (scTitle ?opts)) = []"
  let ?unknown = "rqModel rq \<noteq> None \<and> \<not> evModelKnown env (fst (the (rqModel rq))) (fst (snd (the (rqModel rq))))"
  let ?place = "assertPlace (stCatalog st) (scProject ?opts) (scTask ?opts) (rqPlace rq \<noteq> PlaceInherited \<or> scParent ?opts \<noteq> None)"
  show ?thesis
  proof (cases "\<not> ?title \<and> ?place = None \<and> \<not> ?unknown")
    case True
    then have 4: "\<not> ?title" "?place = None" "\<not> ?unknown" by blast+
    have one: "(if rqModel rq \<noteq> None then id st else st) = st" by simp
    obtain r st2 where q: "requestedSource check id (rqPlace rq) st = (r, st2)" by (meson surj_pair)
    note out = requested_outcome [OF q]
    show ?thesis
    proof (cases r)
      case (Inl e)
      with 4 q out show ?thesis by (simp add: requestSession_def Let_def split: catalogError.split)
    next
      case (Inr source)
      define opts where "opts = ?opts\<lparr>scTitle := map_option trimStr (scTitle ?opts), scModel := map_option (\<lambda>(p, m, _). (p, m)) (rqModel rq),
                   scThinking := Option.bind (rqModel rq) (\<lambda>(_, _, t). t), scSource := source\<rparr>"
      have o: "scProject opts = scProject ?opts" "scTask opts = scTask ?opts" "scSource opts = source"
        by (simp_all add: opts_def)
      have run: "requestSession env check id id i now rq st = createSession env i now opts st2"
        by (simp only: requestSession_def Let_def 4(1) if_False 4(2) option.case(1) one 4(3) q Inr prod.case sum.case opts_def)
      have sessions: "ctSessions (stCatalog st2) = ctSessions (stCatalog st)" using out Inr by (auto split: option.splits)
      have refused: "stCatalog st2 = stCatalog st" if "fst (createSession env i now opts st2) = Inl (SessionCreationRefused m)" for m
      proof (cases source)
        case (Some n)
        have place: "assertPlace (stCatalog st2) (scProject opts) (scTask opts) True = None"
          using assertPlace_placed [OF 4(2)] place_kept [of "stCatalog st2" "stCatalog st"] out Inr Some by (simp add: o)
        have "getSource (stCatalog st2) n \<noteq> None" using out Inr Some by simp
        with that create_never_refused [OF place _ this, of env i now m] Some o(3) show ?thesis by simp
      qed (use out Inr in simp)
      show ?thesis
      proof (cases "createSession env i now opts st2")
        case (Pair res st3)
        then have ref: "\<And>m. res = Inl (SessionCreationRefused m) \<Longrightarrow> stCatalog st2 = stCatalog st" using refused by simp
        show ?thesis
        proof (cases res)
          case (Inl e)
          then have "st3 = st2" using create_outcome [where env = env and i = i and now = now and opts = opts and st = st2] by (simp add: Pair)
          with ref sessions show ?thesis unfolding run Pair by (cases e) (simp_all add: Inl)
        next
          case (Inr j)
          then show ?thesis using create_outcome [where env = env and i = i and now = now and opts = opts and st = st2] sessions unfolding run Pair by simp
        qed
      qed
    qed
  next
    case False
    then show ?thesis
      by (cases ?title; cases ?place; cases ?unknown) (simp_all add: requestSession_def Let_def split: catalogError.split)
  qed
qed

subsection \<open>A removed node\<close>

text \<open>Removing a node changes no project: a project whose default source is on it keeps that source, so a new session of the
  project that names no place is put on the removed node.\<close>

theorem removed_node_still_default:
  "defaultSource (stCatalog (snd (removeNode i now st))) p = defaultSource (stCatalog st) p \<and>
   inheritedSource (stCatalog (snd (removeNode i now st))) p None = inheritedSource (stCatalog st) p None"
proof -
  have "ctProjects (stCatalog (snd (removeNode i now st))) = ctProjects (stCatalog st)" "ctSources (stCatalog (snd (removeNode i now st))) = ctSources (stCatalog st)"
    by (simp_all add: removeNode_def Let_def setNodeRemoved_def updateNode_def split: option.split)
  then have "defaultSource (stCatalog (snd (removeNode i now st))) p = defaultSource (stCatalog st) p"
    by (simp add: defaultSource_def getProject_def getSource_def [abs_def])
  then show ?thesis by (simp add: inheritedSource_def defaultSourceOf_def)
qed

end
