(* ===== verification/Node_Calls.thy ===== *)
theory Node_Calls
  imports Rpc_Peer
begin

text \<open>
  Calls to a node that may be unreachable, and files written to it in chunks. The server's half is \<open>callOnNode\<close>, \<open>file\<close> and
  \<open>writeFileFrom\<close> of \<^verbatim>\<open>packages/backend/src/nodes/node-dir-client.ts\<close>: what each attempt of a call gives is an input, with
  the time and whether the caller's signal was aborted when it failed. The node's half is \<open>write\<close> of
  \<^verbatim>\<open>packages/node/src/files.ts\<close>; how putting a file in place ends is an input.
\<close>

subsection \<open>Failures of a call\<close>

datatype callError = RpcError rpcFailure | OtherError string

definition applicationError :: int where "applicationError = - 32000"

record nodeRefusal =
  nrCode :: string
  nrRetryable :: bool

text \<open>\<open>parse\<close> reads an error's data as a node's error.\<close>

definition refusalOf :: "(json \<Rightarrow> nodeRefusal option) \<Rightarrow> callError \<Rightarrow> nodeRefusal option" where
  "refusalOf parse e =
     (case e of
        OtherError _ \<Rightarrow> None
      | RpcError f \<Rightarrow> if rfCode f = CodeNum applicationError then Option.bind (rfData f) parse else None)"

definition unreachableError :: "(json \<Rightarrow> nodeRefusal option) \<Rightarrow> callError \<Rightarrow> bool" where
  "unreachableError parse e =
     ((case e of OtherError _ \<Rightarrow> False | RpcError f \<Rightarrow> rfCode f = Unavailable) \<or>
      (case refusalOf parse e of None \<Rightarrow> False | Some r \<Rightarrow> nrCode r = ''unavailable'' \<and> nrRetryable r))"

definition outcomeUnknownError :: "callError \<Rightarrow> bool" where
  "outcomeUnknownError e = (case e of OtherError _ \<Rightarrow> False | RpcError f \<Rightarrow> rfUnknown f)"

definition notRunError :: "(json \<Rightarrow> nodeRefusal option) \<Rightarrow> callError \<Rightarrow> bool" where
  "notRunError parse e = (unreachableError parse e \<and> \<not> outcomeUnknownError e)"

subsection \<open>Resending\<close>

record callWindows =
  cwWaits :: bool
  cwUnknown :: "int option"
  cwAll :: "int option"

record 'a callAttempt =
  caConnected :: bool
  caAnswer :: "callError + 'a"
  caNow :: int
  caAborted :: bool

datatype callStep = Sent | WaitingNow bool | SleepFor nat

definition callBackoff :: "nat \<Rightarrow> nat" where
  "callBackoff attempt = min 1000 (50 * 2 ^ attempt)"

definition waitSteps :: "bool \<Rightarrow> bool \<Rightarrow> callStep list" where
  "waitSteps was now = (if now \<noteq> was then [WaitingNow now] else [])"

text \<open>\<open>None\<close>: the attempts end while it still waits.\<close>

fun onNodeFrom :: "(json \<Rightarrow> nodeRefusal option) \<Rightarrow> callWindows \<Rightarrow> int \<Rightarrow> nat \<Rightarrow> int option \<Rightarrow> bool \<Rightarrow> 'a callAttempt list \<Rightarrow>
    (callError + 'a) option \<times> callStep list" where
  "onNodeFrom parse w began attempt unknownBy waiting [] = (None, [])"
| "onNodeFrom parse w began attempt unknownBy waiting (a # rest) =
     (let now = caNow a;
          wait1 = waiting \<and> \<not> caConnected a;
          steps = (if caConnected a then waitSteps waiting False else []) @ [Sent]
      in case caAnswer a of
           Inr v \<Rightarrow> (Some (Inr v), steps @ waitSteps wait1 False)
         | Inl e \<Rightarrow>
             (let given = (Some (Inl e), steps @ waitSteps wait1 False);
                  resend = (\<lambda>by. case onNodeFrom parse w began (Suc attempt) by True rest of
                    (r, later) \<Rightarrow> (r, steps @ waitSteps wait1 True @ SleepFor (callBackoff attempt) # later))
              in if \<not> cwWaits w \<or> \<not> unreachableError parse e \<or> caAborted a \<or> (case cwAll w of None \<Rightarrow> False | Some ms \<Rightarrow> began + ms \<le> now)
                 then given
                 else if notRunError parse e then resend unknownBy
                 else (case cwUnknown w of
                         None \<Rightarrow> given
                       | Some ms \<Rightarrow> (let by = orElse unknownBy (now + ms) in if by \<le> now then given else resend (Some by)))))"

definition callOnNode :: "(json \<Rightarrow> nodeRefusal option) \<Rightarrow> callWindows \<Rightarrow> int \<Rightarrow> 'a callAttempt list \<Rightarrow> (callError + 'a) option \<times> callStep list" where
  "callOnNode parse w began attempts = onNodeFrom parse w began 0 None False attempts"

definition fileWindows :: "bool \<Rightarrow> callWindows" where
  "fileWindows waits = \<lparr>cwWaits = waits, cwUnknown = Some 30000, cwAll = None\<rparr>"

definition startWindows :: "bool \<Rightarrow> callWindows" where
  "startWindows waits = \<lparr>cwWaits = waits, cwUnknown = None, cwAll = None\<rparr>"

subsection \<open>Files in chunks\<close>

text \<open>The chunks that are sent for the pieces of a source: a chunk is sent once more bytes follow it. \<open>cap\<close> is
  \<open>WRITE_CHUNK_BYTES\<close>.\<close>

function cutChunks :: "nat \<Rightarrow> 'b list \<Rightarrow> 'b list list \<times> 'b list" where
  "cutChunks cap pending =
     (if 0 < cap \<and> cap < length pending
      then (case cutChunks cap (drop cap pending) of (cs, rest) \<Rightarrow> (take cap pending # cs, rest))
      else ([], pending))"
  by pat_completeness auto
termination by (relation "measure (\<lambda>(_, pending). length pending)") auto

declare cutChunks.simps [simp del]

fun sentChunks :: "nat \<Rightarrow> 'b list \<Rightarrow> 'b list list \<Rightarrow> ('b list \<times> bool) list" where
  "sentChunks cap pending [] = [(pending, True)]"
| "sentChunks cap pending (piece # source) =
     (case cutChunks cap (pending @ piece) of (cs, rest) \<Rightarrow> map (\<lambda>c. (c, False)) cs @ sentChunks cap rest source)"

definition writeChunkBytes :: nat where
  "writeChunkBytes = 512 * 1024"

subsection \<open>A chunk at its node\<close>

record 'b nodeFiles =
  nfKept :: "(string, 'b list) jsmap"
  nfFinished :: "string list"
  nfFiles :: "string \<Rightarrow> 'b list option"

datatype 'b placing = Placed | PlacingFails string "'b list option"

datatype fileAnswer = WriteOk | WriteFailed string | WriteRejected string

definition finishedWrites :: nat where
  "finishedWrites = 1024"

definition placeFile :: "'b placing \<Rightarrow> string \<Rightarrow> 'b list \<Rightarrow> 'b nodeFiles \<Rightarrow> fileAnswer \<times> 'b nodeFiles" where
  "placeFile pl path bytes st =
     (case pl of
        Placed \<Rightarrow> (WriteOk, st\<lparr>nfFiles := (nfFiles st)(path := Some bytes)\<rparr>)
      | PlacingFails code left \<Rightarrow> (WriteFailed code, st\<lparr>nfFiles := (nfFiles st)(path := left)\<rparr>))"

definition noteFinished :: "string \<Rightarrow> 'b nodeFiles \<Rightarrow> 'b nodeFiles" where
  "noteFinished i st =
     (let ws = (if i \<in> set (nfFinished st) then nfFinished st else nfFinished st @ [i])
      in st\<lparr>nfFinished := (if finishedWrites < length ws then tl ws else ws)\<rparr>)"

definition nodeWrite :: "'b placing \<Rightarrow> string \<Rightarrow> string \<Rightarrow> nat \<Rightarrow> 'b list \<Rightarrow> bool \<Rightarrow> 'b nodeFiles \<Rightarrow> fileAnswer \<times> 'b nodeFiles" where
  "nodeWrite pl path i offset chunk final st =
     (if offset = 0 \<and> final then placeFile pl path chunk st
      else if final \<and> i \<in> set (nfFinished st) then (WriteOk, st)
      else (let kept = orElse (jmGet (nfKept st) i) []
            in if length kept < offset
               then (WriteRejected (''Chunk out of order: '' @ showNat (length kept) @ '' bytes written, chunk at '' @ showNat offset), st)
               else (let now = (if offset = 0 then chunk else take offset kept @ chunk)
                     in if \<not> final then (WriteOk, st\<lparr>nfKept := jmSet i now (nfKept st)\<rparr>)
                        else (case placeFile pl path now (st\<lparr>nfKept := jmDelete i (nfKept st)\<rparr>) of
                                (WriteOk, st') \<Rightarrow> (WriteOk, noteFinished i st')
                              | (a, st') \<Rightarrow> (a, st')))))"

subsection \<open>Writing a file through both\<close>

text \<open>An attempt of a chunk: what else happened at the node before it, whether it reached the node, how placing ended if it
  came to that, and whether its answer reached the server.\<close>

record 'b writeAttempt =
  waOther :: "'b nodeFiles \<Rightarrow> 'b nodeFiles"
  waRan :: bool
  waPlacing :: "'b placing"
  waAnswered :: bool

fun sendChunk :: "string \<Rightarrow> string \<Rightarrow> nat \<Rightarrow> 'b list \<Rightarrow> bool \<Rightarrow> 'b writeAttempt list \<Rightarrow> 'b nodeFiles \<Rightarrow> fileAnswer option \<times> 'b nodeFiles" where
  "sendChunk path i offset chunk final [] st = (None, st)"
| "sendChunk path i offset chunk final (a # rest) st =
     (let st1 = waOther a st
      in if \<not> waRan a then sendChunk path i offset chunk final rest st1
         else (case nodeWrite (waPlacing a) path i offset chunk final st1 of
                 (answer, st2) \<Rightarrow> if waAnswered a then (Some answer, st2) else sendChunk path i offset chunk final rest st2))"

text \<open>Each chunk has its attempts; a file's own failure and a rejection are not sent again.\<close>

fun sendFile :: "string \<Rightarrow> string \<Rightarrow> nat \<Rightarrow> ('b list \<times> bool) list \<Rightarrow> 'b writeAttempt list list \<Rightarrow> 'b nodeFiles \<Rightarrow> fileAnswer option \<times> 'b nodeFiles" where
  "sendFile path i offset [] tries st = (Some WriteOk, st)"
| "sendFile path i offset ((chunk, final) # rest) tries st =
     (case tries of
        [] \<Rightarrow> (None, st)
      | attempts # later \<Rightarrow>
          (case sendChunk path i offset chunk final attempts st of
             (Some WriteOk, st1) \<Rightarrow> sendFile path i (offset + length chunk) rest later st1
           | (answer, st1) \<Rightarrow> (answer, st1)))"

definition writeFileFrom :: "nat \<Rightarrow> string \<Rightarrow> string \<Rightarrow> 'b list list \<Rightarrow> 'b writeAttempt list list \<Rightarrow> 'b nodeFiles \<Rightarrow> fileAnswer option \<times> 'b nodeFiles" where
  "writeFileFrom cap path i source tries st = sendFile path i 0 (sentChunks cap [] source) tries st"

end
