(* ===== verification/Call_Laws.thy ===== *)
theory Call_Laws
  imports Node_Calls
begin

text \<open>
  What resending keeps: a call that is not safe to repeat runs at most once, the run is told when it stops waiting, and a
  file sent in chunks is at its path whole or not at all, however chunks and answers are lost.
\<close>

subsection \<open>Calls\<close>

definition sentTimes :: "callStep list \<Rightarrow> nat" where
  "sentTimes steps = length (filter (\<lambda>s. s = Sent) steps)"

lemma sent_simps [simp]:
  "sentTimes [] = 0" "sentTimes (Sent # ss) = Suc (sentTimes ss)" "sentTimes (SleepFor n # ss) = sentTimes ss"
  "sentTimes (ss @ ts) = sentTimes ss + sentTimes ts" "sentTimes (waitSteps a b) = 0"
  by (simp_all add: sentTimes_def waitSteps_def)

definition resentOnly :: "(json \<Rightarrow> nodeRefusal option) \<Rightarrow> 'a callAttempt list \<Rightarrow> nat \<Rightarrow> bool" where
  "resentOnly parse attempts k = (\<forall>i<k - 1. case caAnswer (attempts ! i) of Inr _ \<Rightarrow> False | Inl e \<Rightarrow> notRunError parse e)"

lemma resent_Cons:
  assumes "caAnswer a = Inl e" "notRunError parse e" "resentOnly parse rest k"
  shows "resentOnly parse (a # rest) (Suc k)"
  using assms by (auto simp: resentOnly_def nth_Cons' split: sum.splits)

lemma on_node_from:
  assumes "cwUnknown w = None"
  shows "sentTimes (snd (onNodeFrom parse w began n until waiting attempts)) \<le> length attempts \<and>
    resentOnly parse attempts (sentTimes (snd (onNodeFrom parse w began n until waiting attempts)))"
proof (induction attempts arbitrary: n until waiting)
  case Nil
  then show ?case by (simp add: resentOnly_def)
next
  case (Cons a rest)
  show ?case
  proof (cases "caAnswer a")
    case (Inr v)
    then show ?thesis by (simp add: Let_def resentOnly_def)
  next
    case (Inl e)
    have IH: "sentTimes (snd (onNodeFrom parse w began (Suc n) until True rest)) \<le> length rest"
      "resentOnly parse rest (sentTimes (snd (onNodeFrom parse w began (Suc n) until True rest)))" using Cons.IH by blast+
    show ?thesis
      using IH resent_Cons [OF Inl _ IH(2)] assms
      by (auto simp: Inl Let_def resentOnly_def split: prod.split option.split)
  qed
qed

text \<open>The last word on waiting.\<close>

definition toldWaiting :: "bool \<Rightarrow> callStep list \<Rightarrow> bool" where
  "toldWaiting was steps = fold (\<lambda>s b. case s of WaitingNow x \<Rightarrow> x | _ \<Rightarrow> b) steps was"

lemma told_simps [simp]:
  "toldWaiting was [] = was" "toldWaiting was (Sent # ss) = toldWaiting was ss" "toldWaiting was (SleepFor n # ss) = toldWaiting was ss"
  "toldWaiting was (WaitingNow b # ss) = toldWaiting b ss"
  "toldWaiting was (ss @ ts) = toldWaiting (toldWaiting was ss) ts" "toldWaiting was (waitSteps was b) = b"
  by (simp_all add: toldWaiting_def waitSteps_def)

lemma on_node_told:
  "fst (onNodeFrom parse w began n until waiting attempts) \<noteq> None \<Longrightarrow> \<not> toldWaiting waiting (snd (onNodeFrom parse w began n until waiting attempts))"
proof (induction attempts arbitrary: n until waiting)
  case (Cons a rest)
  have pre: "toldWaiting waiting (if caConnected a then waitSteps waiting False else []) = (waiting \<and> \<not> caConnected a)" by simp
  define R where "R = (\<lambda>u. onNodeFrom parse w began (Suc n) u True rest)"
  have R: "\<And>u. onNodeFrom parse w began (Suc n) u True rest = R u" by (simp add: R_def)
  have IH: "\<And>u y. fst (R u) = Some y \<Longrightarrow> \<not> toldWaiting True (snd (R u))" using Cons.IH by (auto simp: R_def)
  show ?case
    using Cons.prems pre
    by (cases "caAnswer a")
      (auto simp: Let_def case_prod_beta R split: option.splits if_splits dest!: IH)
qed simp


subsection \<open>Chunks\<close>

lemma cut_chunks:
  assumes "0 < cap"
  shows "concat (fst (cutChunks cap p)) @ snd (cutChunks cap p) = p \<and> list_all (\<lambda>c. length c = cap) (fst (cutChunks cap p)) \<and>
    length (snd (cutChunks cap p)) \<le> cap \<and> (p \<noteq> [] \<longrightarrow> snd (cutChunks cap p) \<noteq> [])"
  using assms
proof (induction cap p rule: cutChunks.induct)
  case (1 cap p)
  show ?case
  proof (cases "cap < length p")
    case True
    obtain cs rest where eq: "cutChunks cap (drop cap p) = (cs, rest)" by (meson surj_pair)
    have "concat cs @ rest = drop cap p" "list_all (\<lambda>c. length c = cap) cs" "length rest \<le> cap" "rest \<noteq> []"
      using 1 True eq by auto
    then show ?thesis using True 1(2) eq by (simp add: cutChunks.simps [of cap p])
  next
    case False
    then show ?thesis by (simp add: cutChunks.simps [of cap p])
  qed
qed

lemma sent_chunks:
  assumes "0 < cap" "length p \<le> cap"
  shows "\<exists>cs d. sentChunks cap p source = map (\<lambda>c. (c, False)) cs @ [(d, True)] \<and> concat cs @ d = p @ concat source \<and>
    list_all (\<lambda>c. length c = cap) cs \<and> length d \<le> cap"
  using assms(2)
proof (induction source arbitrary: p)
  case (Cons piece source)
  obtain cs rest where eq: "cutChunks cap (p @ piece) = (cs, rest)" by (meson surj_pair)
  have cut: "concat cs @ rest = p @ piece" "list_all (\<lambda>c. length c = cap) cs" "length rest \<le> cap"
    using cut_chunks [OF assms(1), of "p @ piece"] eq by auto
  obtain ds d where ds: "sentChunks cap rest source = map (\<lambda>c. (c, False)) ds @ [(d, True)]" "concat ds @ d = rest @ concat source"
    "list_all (\<lambda>c. length c = cap) ds" "length d \<le> cap" using Cons.IH [OF cut(3)] by blast
  have "concat (cs @ ds) @ d = p @ concat (piece # source)"
    using ds(2) cut(1) by (metis append.assoc concat.simps(2) concat_append)
  then show ?case using ds cut(2)
    by (intro exI [of _ "cs @ ds"] exI [of _ d]) (simp add: eq)
next
  case Nil
  then show ?case by (intro exI [of _ "[]"] exI [of _ p]) simp
qed

subsection \<open>A file through both ends\<close>

text \<open>What else happens at the node leaves this write and its path alone: other writes have IDs and paths of their own. It may
  make the node forget that the write was done.\<close>

definition leavesAlone :: "string \<Rightarrow> string \<Rightarrow> ('b nodeFiles \<Rightarrow> 'b nodeFiles) \<Rightarrow> bool" where
  "leavesAlone path i f =
     (\<forall>st. jmGet (nfKept (f st)) i = jmGet (nfKept st) i \<and> nfFiles (f st) path = nfFiles st path \<and>
       (i \<in> set (nfFinished (f st)) \<longrightarrow> i \<in> set (nfFinished st)))"

lemma leaves_alone:
  assumes "leavesAlone path i f"
  shows "jmGet (nfKept (f st)) i = jmGet (nfKept st) i" "nfFiles (f st) path = nfFiles st path"
    "i \<in> set (nfFinished (f st)) \<Longrightarrow> i \<in> set (nfFinished st)"
  using assms by (auto simp: leavesAlone_def)

text \<open>While a chunk that is not the last is sent, what is kept is the file up to it, or with it once it ran.\<close>

lemma send_part:
  assumes "list_all (\<lambda>a. leavesAlone path i (waOther a)) attempts" "i \<notin> set (nfFinished st)"
    "jmGet (nfKept st) i = (if before = [] then None else Some before) \<or> jmGet (nfKept st) i = Some (before @ chunk)"
    "sendChunk path i (length before) chunk False attempts st = (answer, st')"
  shows "nfFiles st' path = nfFiles st path \<and> i \<notin> set (nfFinished st') \<and> answer \<in> {None, Some WriteOk} \<and>
    (answer = Some WriteOk \<longrightarrow> jmGet (nfKept st') i = Some (before @ chunk))"
  using assms
proof (induction attempts arbitrary: st)
  case (Cons a rest)
  let ?st1 = "waOther a st"
  have a: "leavesAlone path i (waOther a)" and rest: "list_all (\<lambda>a. leavesAlone path i (waOther a)) rest" using Cons.prems(1) by simp_all
  note st1 = leaves_alone [OF a, of st]
  show ?case
  proof (cases "waRan a")
    case False
    then show ?thesis using Cons.IH [of ?st1, OF rest] Cons.prems(2-4) st1 by (auto simp: Let_def)
  next
    case True
    define st2 where "st2 = ?st1\<lparr>nfKept := jmSet i (before @ chunk) (nfKept ?st1)\<rparr>"
    have w: "nodeWrite (waPlacing a) path i (length before) chunk False ?st1 = (WriteOk, st2)"
      using Cons.prems(3) st1(1) by (auto simp: nodeWrite_def Let_def st2_def)
    show ?thesis
    proof (cases "waAnswered a")
      case True
      then show ?thesis using Cons.prems(2,4) st1 w \<open>waRan a\<close> by (auto simp: Let_def st2_def)
    next
      case False
      then have "sendChunk path i (length before) chunk False rest st2 = (answer, st')"
        using Cons.prems(4) w \<open>waRan a\<close> by (simp add: Let_def)
      then show ?thesis using Cons.IH [of st2, OF rest] Cons.prems(2) st1 by (auto simp: st2_def)
    qed
  qed
qed simp

definition leftovers :: "'b writeAttempt list \<Rightarrow> 'b list option set" where
  "leftovers attempts = {left. \<exists>a\<in>set attempts. \<exists>code. waPlacing a = PlacingFails code left}"

lemma leftovers_Cons [simp]: "leftovers (a # rest) = (case waPlacing a of Placed \<Rightarrow> {} | PlacingFails _ left \<Rightarrow> {left}) \<union> leftovers rest"
  by (auto simp: leftovers_def split: placing.split)

lemma note_finished [simp]:
  "nfKept (noteFinished i st) = nfKept st" "nfFiles (noteFinished i st) = nfFiles st"
  by (simp_all add: noteFinished_def Let_def)

lemma noted: "i \<notin> set (nfFinished st) \<Longrightarrow> i \<in> set (nfFinished (noteFinished i st))"
  by (cases "nfFinished st") (auto simp: noteFinished_def Let_def finishedWrites_def)

text \<open>The last chunk: once it was put in place it is answered as written, whatever is sent again.\<close>

lemma send_last_done:
  assumes "list_all (\<lambda>a. leavesAlone path i (waOther a)) attempts" "0 < offset" "jmGet (nfKept st) i = None"
    "sendChunk path i offset chunk True attempts st = (answer, st')"
  shows "nfFiles st' path = nfFiles st path \<and> (answer = Some WriteOk \<longrightarrow> i \<in> set (nfFinished st))"
  using assms
proof (induction attempts arbitrary: st)
  case (Cons a rest)
  let ?st1 = "waOther a st"
  have a: "leavesAlone path i (waOther a)" and rest: "list_all (\<lambda>a. leavesAlone path i (waOther a)) rest" using Cons.prems(1) by simp_all
  note st1 = leaves_alone [OF a, of st]
  obtain x where w: "nodeWrite (waPlacing a) path i offset chunk True ?st1 = (x, ?st1)" "x = WriteOk \<Longrightarrow> i \<in> set (nfFinished ?st1)"
  proof -
    have "\<exists>x. nodeWrite (waPlacing a) path i offset chunk True ?st1 = (x, ?st1) \<and> (x = WriteOk \<longrightarrow> i \<in> set (nfFinished ?st1))"
      using Cons.prems(2,3) st1(1) by (simp add: nodeWrite_def Let_def)
    then show thesis using that by blast
  qed
  have IH: "sendChunk path i offset chunk True rest ?st1 = (answer, st') \<Longrightarrow>
      nfFiles st' path = nfFiles st path \<and> (answer = Some WriteOk \<longrightarrow> i \<in> set (nfFinished st))"
    using Cons.IH [of ?st1, OF rest Cons.prems(2)] Cons.prems(3) st1 by auto
  show ?case using Cons.prems(4) w IH st1(2,3) by (auto simp: Let_def split: if_splits)
qed simp

lemma send_last:
  assumes "list_all (\<lambda>a. leavesAlone path i (waOther a)) attempts" "i \<notin> set (nfFinished st)" "before \<noteq> []"
    "jmGet (nfKept st) i = Some before" "sendChunk path i (length before) chunk True attempts st = (answer, st')"
  shows "nfFiles st' path \<in> {nfFiles st path, Some (before @ chunk)} \<union> leftovers attempts \<and>
    (answer = Some WriteOk \<longrightarrow> nfFiles st' path = Some (before @ chunk))"
  using assms
proof (induction attempts arbitrary: st)
  case (Cons a rest)
  let ?st1 = "waOther a st"
  have a: "leavesAlone path i (waOther a)" and rest: "list_all (\<lambda>a. leavesAlone path i (waOther a)) rest" using Cons.prems(1) by simp_all
  note st1 = leaves_alone [OF a, of st]
  show ?case
  proof (cases "waRan a")
    case False
    then have "sendChunk path i (length before) chunk True rest ?st1 = (answer, st')" using Cons.prems(5) by (simp add: Let_def)
    then show ?thesis using Cons.IH [of ?st1, OF rest _ Cons.prems(3)] Cons.prems(2,4) st1 by (auto split: placing.split)
  next
    case True
    define st2 where "st2 = ?st1\<lparr>nfKept := jmDelete i (nfKept ?st1)\<rparr>"
    have fresh: "i \<notin> set (nfFinished ?st1)" using Cons.prems(2) st1(3) by blast
    have w: "nodeWrite (waPlacing a) path i (length before) chunk True ?st1 =
        (case placeFile (waPlacing a) path (before @ chunk) st2 of (WriteOk, st3) \<Rightarrow> (WriteOk, noteFinished i st3) | (x, st3) \<Rightarrow> (x, st3))"
      using Cons.prems(3,4) st1(1) fresh by (simp add: nodeWrite_def Let_def st2_def)
    obtain x st3 where x: "nodeWrite (waPlacing a) path i (length before) chunk True ?st1 = (x, st3)" by (meson surj_pair)
    have st3: "jmGet (nfKept st3) i = None"
      "nfFiles st3 path = (case waPlacing a of Placed \<Rightarrow> Some (before @ chunk) | PlacingFails _ left \<Rightarrow> left)"
      "x = WriteOk \<longleftrightarrow> waPlacing a = Placed"
      "i \<in> set (nfFinished st3) \<longleftrightarrow> waPlacing a = Placed"
      using x unfolding w by (cases "waPlacing a"; auto simp: placeFile_def st2_def fresh intro: noted)+
    show ?thesis
    proof (cases "waAnswered a")
      case True
      then show ?thesis using Cons.prems(5) x \<open>waRan a\<close> st3 by (auto simp: Let_def split: placing.splits)
    next
      case False
      then have more: "sendChunk path i (length before) chunk True rest st3 = (answer, st')"
        using Cons.prems(5) x \<open>waRan a\<close> by (simp add: Let_def)
      have same: "nfFiles st' path = nfFiles st3 path" "answer = Some WriteOk \<Longrightarrow> waPlacing a = Placed"
        using send_last_done [OF rest _ st3(1) more] Cons.prems(3) st3(4) by simp_all
      then show ?thesis using st3(2) by (auto split: placing.splits)
    qed
  qed
qed simp

lemma send_whole:
  assumes "list_all (\<lambda>a. leavesAlone path i (waOther a)) attempts" "sendChunk path i 0 chunk True attempts st = (answer, st')"
  shows "nfFiles st' path \<in> {nfFiles st path, Some chunk} \<union> leftovers attempts \<and> (answer = Some WriteOk \<longrightarrow> nfFiles st' path = Some chunk)"
  using assms
proof (induction attempts arbitrary: st)
  case (Cons a rest)
  let ?st1 = "waOther a st"
  have a: "leavesAlone path i (waOther a)" and rest: "list_all (\<lambda>a. leavesAlone path i (waOther a)) rest" using Cons.prems(1) by simp_all
  note st1 = leaves_alone [OF a, of st]
  obtain x st2 where x: "placeFile (waPlacing a) path chunk ?st1 = (x, st2)" by (meson surj_pair)
  have st2: "nfFiles st2 path = (case waPlacing a of Placed \<Rightarrow> Some chunk | PlacingFails _ left \<Rightarrow> left)" "x = WriteOk \<longleftrightarrow> waPlacing a = Placed"
    using x by (cases "waPlacing a"; auto simp: placeFile_def)+
  show ?case
    using Cons.prems(2) Cons.IH [OF rest] x st1(2) st2
    by (fastforce simp: nodeWrite_def Let_def split: if_splits placing.splits)
qed simp

lemma send_file:
  assumes "list_all (list_all (\<lambda>a. leavesAlone path i (waOther a))) tries" "i \<notin> set (nfFinished st)"
    "jmGet (nfKept st) i = (if before = [] then None else Some before)" "list_all (\<lambda>c. c \<noteq> []) cs"
    "sendFile path i (length before) (map (\<lambda>c. (c, False)) cs @ [(d, True)]) tries st = (answer, st')"
  shows "nfFiles st' path \<in> {nfFiles st path, Some (before @ concat cs @ d)} \<union> leftovers (concat tries) \<and>
    (answer = Some WriteOk \<longrightarrow> nfFiles st' path = Some (before @ concat cs @ d))"
  using assms
proof (induction cs arbitrary: before tries st)
  case Nil
  show ?case
  proof (cases tries)
    case (Cons attempts later)
    obtain x st1 where x: "sendChunk path i (length before) d True attempts st = (x, st1)" by (meson surj_pair)
    have "nfFiles st1 path \<in> {nfFiles st path, Some (before @ d)} \<union> leftovers attempts \<and> (x = Some WriteOk \<longrightarrow> nfFiles st1 path = Some (before @ d))"
    proof (cases "before = []")
      case True
      then show ?thesis using send_whole [of path i attempts d st x st1] Nil.prems(1) x Cons by simp
    next
      case False
      then show ?thesis using send_last [of path i attempts st before d x st1] Nil.prems(1-3) x Cons by simp
    qed
    moreover have "answer = x \<and> st' = st1"
      using Nil.prems(5) x by (auto simp: Cons split: option.splits fileAnswer.splits)
    ultimately show ?thesis by (auto simp: Cons leftovers_def)
  qed (use Nil.prems in auto)
next
  case (Cons c cs)
  show ?case
  proof (cases tries)
    case (Cons attempts later)
    obtain x st1 where x: "sendChunk path i (length before) c False attempts st = (x, st1)" by (meson surj_pair)
    have p: "nfFiles st1 path = nfFiles st path" "i \<notin> set (nfFinished st1)" "x \<in> {None, Some WriteOk}"
      "x = Some WriteOk \<Longrightarrow> jmGet (nfKept st1) i = Some (before @ c)"
      using send_part [of path i attempts st before c x st1] Cons.prems(1-3) x \<open>tries = _\<close> by auto
    show ?thesis
    proof (cases "x = Some WriteOk")
      case True
      have "sendFile path i (length (before @ c)) (map (\<lambda>c. (c, False)) cs @ [(d, True)]) later st1 = (answer, st')"
        using Cons.prems(5) x True by (simp add: \<open>tries = _\<close>)
      then show ?thesis
        using Cons.IH [of later st1 "before @ c"] Cons.prems(1,4) p True by (auto simp: \<open>tries = _\<close> leftovers_def)
    next
      case False
      then have "x = None" using p(3) by simp
      then show ?thesis using Cons.prems(5) x p(1) by (simp add: \<open>tries = _\<close>)
    qed
  qed (use Cons.prems in simp)
qed


definition demoFiles :: "nat nodeFiles" where
  "demoFiles = \<lparr>nfKept = [], nfFinished = [], nfFiles = (\<lambda>_. None)\<rparr>"

definition lostAnswer :: "nat writeAttempt" where
  "lostAnswer = \<lparr>waOther = (\<lambda>st. st), waRan = True, waPlacing = Placed, waAnswered = False\<rparr>"


end
