(* ===== verification/Node_Commands.thy ===== *)
theory Node_Commands
  imports Reins_Prelude
begin

text \<open>
  Shell commands a node runs for the server. The node's half is \<^verbatim>\<open>packages/node/src/pi-exec.ts\<close>: it keeps each command
  with the tail of its output records, so that a stream that dropped can be opened again. The server's half is
  \<open>NodeDirClient.exec\<close> of \<^verbatim>\<open>packages/backend/src/nodes/node-dir-client.ts\<close>: it takes records, remembers how many bytes they
  were and attaches again from there. A text is a list of UTF-16 code units; the other fields of an output view are one
  JSON value. \<open>width\<close> gives the bytes of a record's line. \<open>commandStep\<close> runs both over a link that may drop at any moment.
\<close>

subsection \<open>Output views, updates and records\<close>

record outputView =
  ovText :: "nat list"
  ovMeta :: json

datatype outputUpdate =
    ReplaceOutput outputView
  | AppendOutput "nat list" json
  | SlideOutput nat "nat list" json
  | MetadataOutput json

datatype execExit = ExitValue json | ExitError string string

datatype execRecord = UpdateRecord outputUpdate | ExitRecord execExit

definition applyShellOutputUpdate :: "outputView option \<Rightarrow> outputUpdate \<Rightarrow> outputView" where
  "applyShellOutputUpdate cur u =
     (let now = (case cur of None \<Rightarrow> [] | Some v \<Rightarrow> ovText v)
      in case u of
           ReplaceOutput v \<Rightarrow> v
         | AppendOutput t m \<Rightarrow> \<lparr>ovText = now @ t, ovMeta = m\<rparr>
         | SlideOutput d t m \<Rightarrow> \<lparr>ovText = drop d now @ t, ovMeta = m\<rparr>
         | MetadataOutput m \<Rightarrow> \<lparr>ovText = now, ovMeta = m\<rparr>)"

subsection \<open>A command on its node\<close>

record outputLine =
  olOffset :: nat
  olRecord :: execRecord
  olBytes :: nat

record nodeCommand =
  ncLines :: "outputLine list"
  ncDropped :: nat
  ncEnd :: nat
  ncView :: "outputView option"
  ncExited :: bool
  ncAborted :: bool
  ncConsumer :: "nat option"

definition newCommand :: nodeCommand where
  "newCommand = \<lparr>ncLines = [], ncDropped = 0, ncEnd = 0, ncView = None, ncExited = False, ncAborted = False, ncConsumer = None\<rparr>"

fun trimLines :: "nat \<Rightarrow> nat \<Rightarrow> outputLine list \<Rightarrow> nat \<Rightarrow> outputLine list \<times> nat" where
  "trimLines tail end (l # l2 # ls) dropped =
     (if end - olOffset l > tail then trimLines tail end (l2 # ls) (Suc dropped) else (l # l2 # ls, dropped))"
| "trimLines tail end ls dropped = (ls, dropped)"

definition recordOutput :: "nat \<Rightarrow> (execRecord \<Rightarrow> nat) \<Rightarrow> execRecord \<Rightarrow> nodeCommand \<Rightarrow> nodeCommand" where
  "recordOutput tail width r c =
     (let bytes = width r;
          lines = ncLines c @ [\<lparr>olOffset = ncEnd c, olRecord = r, olBytes = bytes\<rparr>];
          c1 = c\<lparr>ncEnd := ncEnd c + bytes\<rparr>;
          c2 = (case r of
                  UpdateRecord u \<Rightarrow> c1\<lparr>ncView := Some (applyShellOutputUpdate (ncView c1) u)\<rparr>
                | ExitRecord _ \<Rightarrow> c1\<lparr>ncExited := True\<rparr>)
      in case trimLines tail (ncEnd c2) lines (ncDropped c2) of (ls, d) \<Rightarrow> c2\<lparr>ncLines := ls, ncDropped := d\<rparr>)"

text \<open>Where a stream that begins now starts; a negative number is a line that is not kept.\<close>

definition streamFrom :: "nat \<Rightarrow> nodeCommand \<Rightarrow> int" where
  "streamFrom offset c =
     (if offset = ncEnd c then int (ncDropped c + length (ncLines c))
      else (case findIndex (\<lambda>l. olOffset l = offset) (ncLines c) of
              None \<Rightarrow> int (ncDropped c) - 1
            | Some i \<Rightarrow> int (ncDropped c + i)))"

datatype turnOutcome = Yields execRecord | TurnEnds | TurnWaits | TurnSuperseded | TurnFellBehind

definition streamTurn :: "nat \<Rightarrow> int \<Rightarrow> nodeCommand \<Rightarrow> turnOutcome" where
  "streamTurn stream nxt c =
     (if ncConsumer c \<noteq> Some stream then TurnSuperseded
      else (let index = nxt - int (ncDropped c)
            in if index < 0 then TurnFellBehind
               else (case jsNth (ncLines c) index of
                       Some l \<Rightarrow> Yields (olRecord l)
                     | None \<Rightarrow> if ncExited c then TurnEnds else TurnWaits)))"

datatype attachAnswer = Attached nat "outputView option" | AttachRefused string string

definition attachCommand :: "string \<Rightarrow> nat \<Rightarrow> nodeCommand option \<Rightarrow> attachAnswer" where
  "attachCommand execId offset entry =
     (case entry of
        None \<Rightarrow> AttachRefused ''not_found'' (''Unknown command: '' @ execId)
      | Some c \<Rightarrow>
          (let first = (case ncLines c of [] \<Rightarrow> ncEnd c | l # _ \<Rightarrow> olOffset l)
           in if offset < first then Attached (ncEnd c) (ncView c)
              else if ncEnd c < offset \<or> (offset < ncEnd c \<and> \<not> list_ex (\<lambda>l. olOffset l = offset) (ncLines c))
              then AttachRefused ''invalid_request'' (''Not the start of an output record: '' @ showNat offset)
              else Attached offset None))"

definition killCommand :: "string \<Rightarrow> nodeCommand option \<Rightarrow> (string + bool) \<times> nodeCommand option" where
  "killCommand execId entry =
     (case entry of
        None \<Rightarrow> (Inl (''Unknown command: '' @ execId), None)
      | Some c \<Rightarrow> (Inr (\<not> ncExited c \<and> \<not> ncAborted c), Some (c\<lparr>ncAborted := True\<rparr>)))"

subsection \<open>Reading records\<close>

text \<open>\<open>parse\<close> reads the bytes of one line. What is read comes with its bytes, the newline included.\<close>

datatype readEnd = SawExit execExit | SawMalformed | ReadStopped

fun drainLines :: "('b list \<Rightarrow> execRecord option) \<Rightarrow> 'b \<Rightarrow> 'b list \<Rightarrow> 'b list \<Rightarrow> (execRecord \<times> nat) list \<times> readEnd + 'b list \<times> (execRecord \<times> nat) list" where
  "drainLines parse nl line [] = Inr (line, [])"
| "drainLines parse nl line (b # bs) =
     (if b \<noteq> nl then drainLines parse nl (line @ [b]) bs
      else (case parse line of
              None \<Rightarrow> Inl ([], SawMalformed)
            | Some (ExitRecord e) \<Rightarrow> Inl ([(ExitRecord e, length line + 1)], SawExit e)
            | Some r \<Rightarrow>
                (case drainLines parse nl [] bs of
                   Inl (rs, end) \<Rightarrow> Inl ((r, length line + 1) # rs, end)
                 | Inr (p, rs) \<Rightarrow> Inr (p, (r, length line + 1) # rs))))"

text \<open>The chunks end where the stream stops: it dropped, failed or ended.\<close>

fun readRecords :: "('b list \<Rightarrow> execRecord option) \<Rightarrow> 'b \<Rightarrow> 'b list \<Rightarrow> 'b list list \<Rightarrow> (execRecord \<times> nat) list \<times> readEnd" where
  "readRecords parse nl pending [] = ([], ReadStopped)"
| "readRecords parse nl pending (chunk # chunks) =
     (case drainLines parse nl [] (pending @ chunk) of
        Inl (rs, end) \<Rightarrow> (rs, end)
      | Inr (p, rs) \<Rightarrow> (case readRecords parse nl p chunks of (rs2, end) \<Rightarrow> (rs @ rs2, end)))"

subsection \<open>The server's call\<close>

datatype execOutcome = ExecReturned json | ExecThrew string string | ExecAborted

record execCall =
  ecTaken :: nat
  ecUpdates :: "outputUpdate list"
  ecCallbackFailed :: bool
  ecAborted :: bool
  ecKills :: nat
  ecOutcome :: "execOutcome option"

definition newCall :: execCall where
  "newCall = \<lparr>ecTaken = 0, ecUpdates = [], ecCallbackFailed = False, ecAborted = False, ecKills = 0, ecOutcome = None\<rparr>"

definition settleCall :: "execOutcome \<Rightarrow> execCall \<Rightarrow> execCall" where
  "settleCall out call = call\<lparr>ecOutcome := Some out\<rparr>"

text \<open>\<open>throws\<close> says for which updates the callback throws; it is not called again.\<close>

definition passUpdate :: "(outputUpdate \<Rightarrow> bool) \<Rightarrow> outputUpdate \<Rightarrow> execCall \<Rightarrow> execCall" where
  "passUpdate throws u call =
     (if ecCallbackFailed call then call
      else if throws u then call\<lparr>ecUpdates := ecUpdates call @ [u], ecCallbackFailed := True, ecKills := Suc (ecKills call)\<rparr>
      else call\<lparr>ecUpdates := ecUpdates call @ [u]\<rparr>)"

definition takeRecord :: "(outputUpdate \<Rightarrow> bool) \<Rightarrow> execRecord \<times> nat \<Rightarrow> execCall \<Rightarrow> execCall" where
  "takeRecord throws p call =
     (let call1 = call\<lparr>ecTaken := ecTaken call + snd p\<rparr>
      in case fst p of UpdateRecord u \<Rightarrow> passUpdate throws u call1 | ExitRecord _ \<Rightarrow> call1)"

definition beforeAttach :: "execCall \<Rightarrow> execCall" where
  "beforeAttach call =
     (if ecAborted call then settleCall ExecAborted call
      else if ecCallbackFailed call then settleCall (ExecThrew ''callback_error'' ''callback'') call
      else call)"

definition outcomeUnknown :: string where
  "outcomeUnknown = ''The command's outcome is unknown''"

definition readDone :: "readEnd \<Rightarrow> execCall \<Rightarrow> execCall" where
  "readDone end call =
     (case end of
        SawExit e \<Rightarrow>
          (case e of
             ExitError code msg \<Rightarrow>
               if ecCallbackFailed call then settleCall (ExecThrew ''callback_error'' ''callback'') call
               else if code = ''timeout'' then settleCall (ExecThrew ''timeout'' msg) call
               else if ecAborted call then settleCall ExecAborted call
               else settleCall (ExecThrew code msg) call
           | ExitValue v \<Rightarrow>
               if ecCallbackFailed call then settleCall (ExecThrew ''callback_error'' ''callback'') call
               else if ecAborted call then settleCall ExecAborted call
               else settleCall (ExecReturned v) call)
      | SawMalformed \<Rightarrow> settleCall (ExecThrew ''unknown'' (outcomeUnknown @ '': a malformed output record'')) (call\<lparr>ecKills := Suc (ecKills call)\<rparr>)
      | ReadStopped \<Rightarrow> beforeAttach call)"

text \<open>How the command was sent: its stream opened, its outcome unknown (or another server process sent it), or it failed.\<close>

datatype startOutcome = StartOpened | StartUnknown | StartFailed string

definition startAnswered :: "startOutcome \<Rightarrow> execCall \<Rightarrow> execCall" where
  "startAnswered s call =
     (case s of
        StartOpened \<Rightarrow> if ecAborted call then settleCall ExecAborted call else call
      | StartUnknown \<Rightarrow> beforeAttach call
      | StartFailed m \<Rightarrow> settleCall (if ecAborted call then ExecAborted else ExecThrew ''spawn_error'' m) call)"

definition attachAnswered :: "(outputUpdate \<Rightarrow> bool) \<Rightarrow> bool \<Rightarrow> attachAnswer \<Rightarrow> execCall \<Rightarrow> execCall" where
  "attachAnswered throws attach a call =
     (case a of
        Attached offset view \<Rightarrow>
          (let call1 = (case view of None \<Rightarrow> call | Some v \<Rightarrow> passUpdate throws (ReplaceOutput v) call);
               call2 = call1\<lparr>ecTaken := offset\<rparr>
           in if ecAborted call2 then settleCall ExecAborted call2 else call2)
      | AttachRefused code msg \<Rightarrow>
          if ecAborted call then settleCall ExecAborted call
          else settleCall (ExecThrew ''unknown'' (outcomeUnknown @ '': '' @
                 (if code = ''not_found''
                  then ''the node does not have it (it restarted, or the server stayed away past its grace period'' @
                         (if attach then '', or it was never sent'' else '''') @ '')''
                  else msg))) call)"

datatype execTimeout = FiniteSeconds rat | NotFinite

definition maxTimeoutSeconds :: rat where
  "maxTimeoutSeconds = 2147483647 / 1000"

definition execRefused :: "bool \<Rightarrow> execTimeout option \<Rightarrow> execOutcome option" where
  "execRefused aborted timeout =
     (if aborted then Some ExecAborted
      else (case timeout of
              None \<Rightarrow> None
            | Some NotFinite \<Rightarrow> Some (ExecThrew ''timeout'' ''Invalid timeout: must be a finite number of seconds'')
            | Some (FiniteSeconds s) \<Rightarrow>
                if s \<le> 0 then Some (ExecThrew ''timeout'' ''Invalid timeout: must be a finite number of seconds'')
                else if maxTimeoutSeconds < s then Some (ExecThrew ''timeout'' ''Invalid timeout: maximum is 2147483.647 seconds'')
                else None))"

subsection \<open>Both ends over a link\<close>

text \<open>A stream is what the server reads: the offset it was opened at, the node's next line once it began, the records on
  their way, and whether the node closed it. Records that were not read when it drops are lost.\<close>

record outputStream =
  otId :: nat
  otOffset :: nat
  otNext :: "int option"
  otFlight :: "execRecord list"
  otClosed :: bool

record commandLink =
  clCommand :: "nodeCommand option"
  clHistory :: "execRecord list"
  clStream :: "outputStream option"
  clNextId :: nat
  clCall :: execCall

definition openAt :: "nat \<Rightarrow> nat \<Rightarrow> outputStream" where
  "openAt i offset = \<lparr>otId = i, otOffset = offset, otNext = None, otFlight = [], otClosed = False\<rparr>"

definition startCommandLink :: "bool \<Rightarrow> commandLink" where
  "startCommandLink opened =
     \<lparr>clCommand = Some newCommand, clHistory = [], clStream = (if opened then Some (openAt 0 0) else None), clNextId = 1,
      clCall = startAnswered (if opened then StartOpened else StartUnknown) newCall\<rparr>"

datatype commandEvent =
    Records execRecord
  | StreamBegins
  | StreamSends
  | ServerReads
  | StreamDrops
  | ServerAttaches
  | AttachFails string
  | OtherAttaches
  | ServerAborts
  | NodeForgets

definition commandExited :: "commandLink \<Rightarrow> bool" where
  "commandExited cl = (case clCommand cl of None \<Rightarrow> True | Some c \<Rightarrow> ncExited c)"

definition mapStream :: "(outputStream \<Rightarrow> outputStream) \<Rightarrow> commandLink \<Rightarrow> commandLink" where
  "mapStream f cl = cl\<lparr>clStream := map_option f (clStream cl)\<rparr>"

definition streamSends :: "nodeCommand \<Rightarrow> outputStream \<Rightarrow> outputStream" where
  "streamSends c s =
     (case otNext s of
        None \<Rightarrow> s
      | Some n \<Rightarrow>
          if otClosed s then s
          else (case streamTurn (otId s) n c of
                  Yields r \<Rightarrow> s\<lparr>otFlight := otFlight s @ [r], otNext := Some (n + 1)\<rparr>
                | TurnWaits \<Rightarrow> s
                | _ \<Rightarrow> s\<lparr>otClosed := True\<rparr>))"

definition serverReads :: "(execRecord \<Rightarrow> nat) \<Rightarrow> (outputUpdate \<Rightarrow> bool) \<Rightarrow> commandLink \<Rightarrow> commandLink" where
  "serverReads width throws cl =
     (case clStream cl of
        None \<Rightarrow> cl
      | Some s \<Rightarrow>
          (case otFlight s of
             [] \<Rightarrow> if otClosed s then cl\<lparr>clStream := None, clCall := readDone ReadStopped (clCall cl)\<rparr> else cl
           | r # rest \<Rightarrow>
               (let call = takeRecord throws (r, width r) (clCall cl)
                in case r of
                     UpdateRecord _ \<Rightarrow> cl\<lparr>clStream := Some (s\<lparr>otFlight := rest\<rparr>), clCall := call\<rparr>
                   | ExitRecord e \<Rightarrow> cl\<lparr>clStream := None, clCall := readDone (SawExit e) call\<rparr>)))"

definition serverAttaches :: "(outputUpdate \<Rightarrow> bool) \<Rightarrow> commandLink \<Rightarrow> commandLink" where
  "serverAttaches throws cl =
     (let a = attachCommand [] (ecTaken (clCall cl)) (clCommand cl);
          call = attachAnswered throws False a (clCall cl)
      in case a of
           Attached offset _ \<Rightarrow>
             cl\<lparr>clCall := call, clNextId := Suc (clNextId cl), clStream := (if ecOutcome call = None then Some (openAt (clNextId cl) offset) else None)\<rparr>
         | AttachRefused _ _ \<Rightarrow> cl\<lparr>clCall := call\<rparr>)"

text \<open>An event that cannot happen in a state changes nothing.\<close>

fun commandStep :: "nat \<Rightarrow> (execRecord \<Rightarrow> nat) \<Rightarrow> (outputUpdate \<Rightarrow> bool) \<Rightarrow> commandEvent \<Rightarrow> commandLink \<Rightarrow> commandLink" where
  "commandStep tail width throws (Records r) cl =
     (case clCommand cl of
        None \<Rightarrow> cl
      | Some c \<Rightarrow> if ncExited c then cl else cl\<lparr>clCommand := Some (recordOutput tail width r c), clHistory := clHistory cl @ [r]\<rparr>)"
| "commandStep tail width throws StreamBegins cl =
     (case (clCommand cl, clStream cl) of
        (Some c, Some s) \<Rightarrow>
          if otNext s = None then cl\<lparr>clCommand := Some (c\<lparr>ncConsumer := Some (otId s)\<rparr>), clStream := Some (s\<lparr>otNext := Some (streamFrom (otOffset s) c)\<rparr>)\<rparr>
          else cl
      | _ \<Rightarrow> cl)"
| "commandStep tail width throws StreamSends cl = (case clCommand cl of None \<Rightarrow> cl | Some c \<Rightarrow> mapStream (streamSends c) cl)"
| "commandStep tail width throws ServerReads cl = serverReads width throws cl"
| "commandStep tail width throws StreamDrops cl =
     (case clStream cl of None \<Rightarrow> cl | Some _ \<Rightarrow> cl\<lparr>clStream := None, clCall := readDone ReadStopped (clCall cl)\<rparr>)"
| "commandStep tail width throws ServerAttaches cl =
     (if clStream cl \<noteq> None \<or> ecOutcome (clCall cl) \<noteq> None then cl else serverAttaches throws cl)"
| "commandStep tail width throws (AttachFails m) cl =
     (if clStream cl \<noteq> None \<or> ecOutcome (clCall cl) \<noteq> None then cl
      else cl\<lparr>clCall := attachAnswered throws False (AttachRefused ''unavailable'' m) (clCall cl)\<rparr>)"
| "commandStep tail width throws OtherAttaches cl =
     cl\<lparr>clCommand := map_option (\<lambda>c. c\<lparr>ncConsumer := Some (clNextId cl)\<rparr>) (clCommand cl), clNextId := Suc (clNextId cl)\<rparr>"
| "commandStep tail width throws ServerAborts cl = cl\<lparr>clCall := (clCall cl)\<lparr>ecAborted := True\<rparr>\<rparr>"
| "commandStep tail width throws NodeForgets cl = cl\<lparr>clCommand := None\<rparr>"

definition commandRun :: "nat \<Rightarrow> (execRecord \<Rightarrow> nat) \<Rightarrow> (outputUpdate \<Rightarrow> bool) \<Rightarrow> bool \<Rightarrow> commandEvent list \<Rightarrow> commandLink" where
  "commandRun tail width throws opened evs = fold (commandStep tail width throws) evs (startCommandLink opened)"

end
