(* ===== verification/Command_Laws.thy ===== *)
theory Command_Laws
  imports Node_Commands "HOL-Library.Sublist"
begin

text \<open>
  What a server gets of a command a node runs for it: however the link drops and however far the server falls behind, the
  output it shows is the output of the records so far, and the exit it returns is the command's. One case is lost: a
  command that exited before a server that is behind the kept tail attaches.
\<close>

subsection \<open>Records and their lines\<close>

definition updatesOf :: "execRecord list \<Rightarrow> outputUpdate list" where
  "updatesOf rs = concat (map (\<lambda>r. case r of UpdateRecord u \<Rightarrow> [u] | ExitRecord _ \<Rightarrow> []) rs)"

definition viewOf :: "outputUpdate list \<Rightarrow> outputView option" where
  "viewOf us = fold (\<lambda>u v. Some (applyShellOutputUpdate v u)) us None"

definition bytesOf :: "(execRecord \<Rightarrow> nat) \<Rightarrow> execRecord list \<Rightarrow> nat" where
  "bytesOf width rs = sum_list (map width rs)"

lemma updatesOf_simps [simp]:
  "updatesOf [] = []" "updatesOf (rs @ qs) = updatesOf rs @ updatesOf qs"
  "updatesOf [UpdateRecord u] = [u]" "updatesOf [ExitRecord e] = []"
  by (simp_all add: updatesOf_def)

lemma viewOf_snoc [simp]: "viewOf (us @ [u]) = Some (applyShellOutputUpdate (viewOf us) u)" "viewOf [] = None"
  by (simp_all add: viewOf_def)

lemma viewOf_None: "viewOf us = None \<longleftrightarrow> us = []"
  by (cases us rule: rev_cases) simp_all

lemma apply_replace [simp]: "applyShellOutputUpdate v (ReplaceOutput w) = w"
  by (simp add: applyShellOutputUpdate_def)

lemma bytesOf_simps [simp]: "bytesOf width [] = 0" "bytesOf width (r # rs) = width r + bytesOf width rs"
  "bytesOf width (rs @ qs) = bytesOf width rs + bytesOf width qs"
  by (simp_all add: bytesOf_def)

lemma bytes_strict:
  assumes "\<And>r. 0 < width r" "m < n" "n \<le> length rs"
  shows "bytesOf width (take m rs) < bytesOf width (take n rs)"
proof -
  have "take n rs = take m rs @ take (n - m) (drop m rs)"
    using assms(2) by (metis le_add_diff_inverse less_imp_le take_add)
  moreover have "0 < bytesOf width (take (n - m) (drop m rs))"
    using assms by (cases "drop m rs"; cases "n - m") auto
  ultimately show ?thesis by simp
qed

lemma bytes_order:
  assumes "\<And>r. 0 < width r" "m \<le> length rs" "n \<le> length rs"
  shows "bytesOf width (take m rs) < bytesOf width (take n rs) \<longleftrightarrow> m < n"
    "bytesOf width (take m rs) = bytesOf width (take n rs) \<longleftrightarrow> m = n"
proof -
  have up: "m < n \<Longrightarrow> bytesOf width (take m rs) < bytesOf width (take n rs)" by (rule bytes_strict [OF assms(1) _ assms(3)])
  have down: "n < m \<Longrightarrow> bytesOf width (take n rs) < bytesOf width (take m rs)" by (rule bytes_strict [OF assms(1) _ assms(2)])
  show "bytesOf width (take m rs) < bytesOf width (take n rs) \<longleftrightarrow> m < n"
    using up down by (metis less_asym linorder_neqE_nat less_irrefl)
  show "bytesOf width (take m rs) = bytesOf width (take n rs) \<longleftrightarrow> m = n"
    using up down by (metis linorder_neqE_nat less_irrefl)
qed

fun linesFrom :: "(execRecord \<Rightarrow> nat) \<Rightarrow> nat \<Rightarrow> execRecord list \<Rightarrow> outputLine list" where
  "linesFrom width b [] = []"
| "linesFrom width b (r # rs) = \<lparr>olOffset = b, olRecord = r, olBytes = width r\<rparr> # linesFrom width (b + width r) rs"

lemma length_lines [simp]: "length (linesFrom width b rs) = length rs"
  by (induction rs arbitrary: b) simp_all

lemma nth_lines: "i < length rs \<Longrightarrow> linesFrom width b rs ! i = \<lparr>olOffset = b + bytesOf width (take i rs), olRecord = rs ! i, olBytes = width (rs ! i)\<rparr>"
  by (induction rs arbitrary: b i) (auto simp: nth_Cons' take_Cons')

lemma lines_snoc: "linesFrom width b (rs @ [r]) = linesFrom width b rs @ [\<lparr>olOffset = b + bytesOf width rs, olRecord = r, olBytes = width r\<rparr>]"
  by (induction rs arbitrary: b) simp_all

lemma trim_drops: "\<exists>k. (k < length ls \<or> ls = [] \<and> k = 0) \<and> trimLines tail b ls d = (drop k ls, d + k)"
proof (induction tail b ls d rule: trimLines.induct)
  case (1 tail b l l2 ls d)
  show ?case
  proof (cases "b - olOffset l > tail")
    case True
    then obtain k where "k < length (l2 # ls)" "trimLines tail b (l2 # ls) (Suc d) = (drop k (l2 # ls), Suc d + k)"
      using 1 by auto
    then show ?thesis using True by (intro exI [of _ "Suc k"]) simp
  next
    case False
    then show ?thesis by (intro exI [of _ 0]) simp
  qed
qed auto

subsection \<open>What the node keeps\<close>

definition keptOk :: "(execRecord \<Rightarrow> nat) \<Rightarrow> execRecord list \<Rightarrow> nodeCommand \<Rightarrow> bool" where
  "keptOk width h c =
     (ncEnd c = bytesOf width h \<and> ncView c = viewOf (updatesOf h) \<and> ncLines c = drop (ncDropped c) (linesFrom width 0 h) \<and>
      (ncDropped c < length h \<or> h = [] \<and> ncDropped c = 0) \<and>
      (\<forall>i<length h. (\<exists>e. h ! i = ExitRecord e) \<longleftrightarrow> Suc i = length h \<and> ncExited c))"

lemma kept_consumer [simp]: "keptOk width h (c\<lparr>ncConsumer := x\<rparr>) = keptOk width h c"
  by (simp add: keptOk_def)

lemma kept_new [simp]: "keptOk width [] newCommand"
  by (simp add: keptOk_def newCommand_def)

lemma kept_record:
  assumes k: "keptOk width h c" and "\<not> ncExited c"
  shows "keptOk width (h @ [r]) (recordOutput tail width r c)"
proof -
  let ?line = "\<lparr>olOffset = ncEnd c, olRecord = r, olBytes = width r\<rparr>"
  have d: "ncDropped c \<le> length h" using k by (auto simp: keptOk_def)
  have lines: "ncLines c @ [?line] = drop (ncDropped c) (linesFrom width 0 (h @ [r]))"
    using k d by (simp add: keptOk_def lines_snoc)
  obtain n where n: "n < length (ncLines c @ [?line])"
    and t: "trimLines tail (ncEnd c + width r) (ncLines c @ [?line]) (ncDropped c) = (drop n (ncLines c @ [?line]), ncDropped c + n)"
    using trim_drops [of "ncLines c @ [?line]" tail "ncEnd c + width r" "ncDropped c"] by auto
  have "length (ncLines c) = length h - ncDropped c" using k by (simp add: keptOk_def)
  then have nd: "ncDropped c + n < length (h @ [r])" using n d by simp
  have exits: "(\<exists>e. (h @ [r]) ! i = ExitRecord e) \<longleftrightarrow> Suc i = length (h @ [r]) \<and> (\<exists>e. r = ExitRecord e)" if "i < length (h @ [r])" for i
    using k assms(2) that by (auto simp: keptOk_def nth_append less_Suc_eq)
  have "ncEnd (recordOutput tail width r c) = ncEnd c + width r"
    "ncView (recordOutput tail width r c) = (case r of UpdateRecord u \<Rightarrow> Some (applyShellOutputUpdate (ncView c) u) | ExitRecord _ \<Rightarrow> ncView c)"
    "ncExited (recordOutput tail width r c) = (\<exists>e. r = ExitRecord e)"
    "ncLines (recordOutput tail width r c) = drop n (ncLines c @ [?line])"
    "ncDropped (recordOutput tail width r c) = ncDropped c + n"
    using assms(2) t by (cases r; simp add: recordOutput_def Let_def)+
  note this [unfolded lines drop_drop]
  then show ?thesis using k nd exits unfolding keptOk_def
    by (cases r) (simp_all add: add.commute)
qed

text \<open>Finding a line by its offset.\<close>

lemma kept_find:
  assumes "keptOk width h c" "\<And>r. 0 < width r" "n < length h"
  shows "findIndex (\<lambda>l. olOffset l = bytesOf width (take n h)) (ncLines c) = (if n < ncDropped c then None else Some (n - ncDropped c))"
proof -
  have d: "ncDropped c \<le> length h" using assms(1) by (auto simp: keptOk_def)
  have off: "olOffset (ncLines c ! i) = bytesOf width (take n h) \<longleftrightarrow> ncDropped c + i = n" if "i < length (ncLines c)" for i
    using assms that bytes_order(2) [OF assms(2), of "ncDropped c + i" h n] by (simp add: keptOk_def nth_lines)
  have len: "length (ncLines c) = length h - ncDropped c" using assms(1) by (simp add: keptOk_def)
  show ?thesis
  proof (cases "n < ncDropped c")
    case True
    then show ?thesis using off by (auto simp: findIndex_None in_set_conv_nth)
  next
    case False
    then show ?thesis using off len assms(3) by (auto simp: findIndex_Some)
  qed
qed

subsection \<open>What both ends agree on\<close>

text \<open>The server has taken the first \<open>n\<close> records, or a view in their place.\<close>

definition streamOk :: "(execRecord \<Rightarrow> nat) \<Rightarrow> execRecord list \<Rightarrow> nat \<Rightarrow> nodeCommand option \<Rightarrow> outputStream \<Rightarrow> bool" where
  "streamOk width h n entry s =
     (otFlight s = take (length (otFlight s)) (drop n h) \<and>
      (case otNext s of
         None \<Rightarrow> otFlight s = [] \<and> \<not> otClosed s \<and> otOffset s = bytesOf width (take n h)
       | Some m \<Rightarrow> otClosed s \<or>
           (case entry of None \<Rightarrow> True | Some c \<Rightarrow> m = int (n + length (otFlight s)) \<or> m < int (ncDropped c))))"

definition exitsLast :: "execRecord list \<Rightarrow> bool" where
  "exitsLast h = (\<forall>i<length h. (\<exists>e. h ! i = ExitRecord e) \<longrightarrow> Suc i = length h)"

definition callOk :: "(execRecord \<Rightarrow> nat) \<Rightarrow> execRecord list \<Rightarrow> nat \<Rightarrow> execCall \<Rightarrow> bool" where
  "callOk width h n call =
     (ecTaken call = bytesOf width (take n h) \<and>
      (ecCallbackFailed call \<or> viewOf (ecUpdates call) = viewOf (updatesOf (take n h))) \<and>
      (\<forall>v. ecOutcome call = Some (ExecReturned v) \<longrightarrow>
         \<not> ecCallbackFailed call \<and> n = length h \<and> h \<noteq> [] \<and> last h = ExitRecord (ExitValue v)))"

definition linkAt :: "(execRecord \<Rightarrow> nat) \<Rightarrow> nat \<Rightarrow> commandLink \<Rightarrow> bool" where
  "linkAt width n cl =
     (n \<le> length (clHistory cl) \<and> exitsLast (clHistory cl) \<and> callOk width (clHistory cl) n (clCall cl) \<and>
      (\<forall>c. clCommand cl = Some c \<longrightarrow> keptOk width (clHistory cl) c) \<and>
      (\<forall>s. clStream cl = Some s \<longrightarrow> ecOutcome (clCall cl) = None \<and> streamOk width (clHistory cl) n (clCommand cl) s))"

lemma linkAt_start: "linkAt width 0 (startCommandLink opened)"
  by (simp add: linkAt_def startCommandLink_def startAnswered_def beforeAttach_def newCall_def callOk_def exitsLast_def streamOk_def openAt_def)

lemma kept_exitsLast: "keptOk width h c \<Longrightarrow> exitsLast h"
  by (simp add: keptOk_def exitsLast_def)

lemma settle_fields [simp]:
  "ecTaken (settleCall x call) = ecTaken call" "ecUpdates (settleCall x call) = ecUpdates call"
  "ecCallbackFailed (settleCall x call) = ecCallbackFailed call" "ecOutcome (settleCall x call) = Some x"
  by (simp_all add: settleCall_def)

lemma callOk_settle: "callOk width h n call \<Longrightarrow> (\<And>v. x \<noteq> ExecReturned v) \<Longrightarrow> callOk width h n (settleCall x call)"
  by (simp add: callOk_def)

lemma callOk_stopped: "callOk width h n call \<Longrightarrow> callOk width h n (readDone ReadStopped call)"
  by (simp add: readDone_def beforeAttach_def callOk_settle)

lemma callOk_kills [simp]: "callOk width h n (call\<lparr>ecKills := k\<rparr>) = callOk width h n call"
  by (simp add: callOk_def)

text \<open>One lemma per event.\<close>

lemma records_keep:
  assumes "linkAt width n cl"
  shows "linkAt width n (commandStep tail width throws (Records r) cl)"
proof (cases "clCommand cl")
  case (Some c)
  let ?h = "clHistory cl"
  show ?thesis
  proof (cases "ncExited c")
    case False
    have k: "keptOk width ?h c" and n: "n \<le> length ?h" using assms Some by (simp_all add: linkAt_def)
    have k': "keptOk width (?h @ [r]) (recordOutput tail width r c)" by (rule kept_record [OF k False])
    have d: "ncDropped c \<le> ncDropped (recordOutput tail width r c)"
      using trim_drops [of "ncLines c @ [\<lparr>olOffset = ncEnd c, olRecord = r, olBytes = width r\<rparr>]" tail "ncEnd c + width r" "ncDropped c"]
      by (cases r) (auto simp: recordOutput_def Let_def)
    have "callOk width (?h @ [r]) n (clCall cl)"
    proof -
      have "\<nexists>e. last ?h = ExitRecord e" if "?h \<noteq> []"
        using k False that by (auto simp: keptOk_def last_conv_nth)
      then show ?thesis using assms n by (auto simp: linkAt_def callOk_def)
    qed
    moreover have "streamOk width (?h @ [r]) n (Some (recordOutput tail width r c)) s" if "clStream cl = Some s" for s
    proof -
      have s: "streamOk width ?h n (Some c) s" using assms that Some by (simp add: linkAt_def)
      have "length (otFlight s) \<le> length (drop n ?h)"
        using s unfolding streamOk_def by (metis length_take min.absorb_iff2 min.commute)
      then show ?thesis using s n d by (auto simp: streamOk_def split: option.splits)
    qed
    ultimately show ?thesis
      using assms n k' kept_exitsLast [OF k'] by (simp add: linkAt_def Some False)
  qed (use assms Some in simp)
qed (use assms in simp)

lemma begins_keep:
  assumes "linkAt width n cl" "\<And>r. 0 < width r"
  shows "linkAt width n (commandStep tail width throws StreamBegins cl)"
proof (cases "\<exists>c s. clCommand cl = Some c \<and> clStream cl = Some s \<and> otNext s = None")
  case True
  then obtain c s where c: "clCommand cl = Some c" "clStream cl = Some s" "otNext s = None" by blast
  let ?h = "clHistory cl"
  have k: "keptOk width ?h c" and n: "n \<le> length ?h" and s: "otFlight s = []" "otOffset s = bytesOf width (take n ?h)" "\<not> otClosed s"
    using assms(1) c by (simp_all add: linkAt_def streamOk_def)
  have d: "ncDropped c \<le> length ?h" and "length (ncLines c) = length ?h - ncDropped c" and "ncEnd c = bytesOf width (take (length ?h) ?h)"
    using k by (auto simp: keptOk_def)
  then have "streamFrom (otOffset s) c = int n \<or> streamFrom (otOffset s) c < int (ncDropped c)"
    using kept_find [OF k assms(2), of n] bytes_order(2) [OF assms(2) n, of "length ?h"] n
    by (auto simp: streamFrom_def s(2) simp del: take_all)
  then show ?thesis using assms(1) c s n by (auto simp: linkAt_def streamOk_def)
next
  case False
  then have "commandStep tail width throws StreamBegins cl = cl" by (auto split: option.split prod.split)
  then show ?thesis using assms(1) by simp
qed

lemma sends_keep:
  assumes "linkAt width n cl"
  shows "linkAt width n (commandStep tail width throws StreamSends cl)"
proof (cases "\<exists>c s. clCommand cl = Some c \<and> clStream cl = Some s")
  case True
  then obtain c s where c: "clCommand cl = Some c" "clStream cl = Some s" by blast
  let ?h = "clHistory cl" and ?n = "n + length (otFlight s)"
  have k: "keptOk width ?h c" and n: "n \<le> length ?h" and s: "streamOk width ?h n (Some c) s"
    using assms c by (simp_all add: linkAt_def)
  have "streamOk width ?h n (Some c) (streamSends c s)"
  proof (cases "otNext s")
    case (Some m)
    show ?thesis
    proof (cases "otClosed s \<or> streamTurn (otId s) m c = TurnWaits \<or> (\<forall>r. streamTurn (otId s) m c \<noteq> Yields r)")
      case True
      then show ?thesis using s by (auto simp: streamSends_def streamOk_def Some split: turnOutcome.split)
    next
      case False
      then obtain r where r: "streamTurn (otId s) m c = Yields r" "\<not> otClosed s" by auto
      then obtain l where l: "ncDropped c \<le> nat m" "0 \<le> m" "jsNth (ncLines c) (m - int (ncDropped c)) = Some l" "r = olRecord l"
        by (auto simp: streamTurn_def Let_def split: if_splits option.splits)
      have "m = int ?n" using s r(2) l(1,2) by (auto simp: streamOk_def Some)
      then have at: "?n < length ?h" "r = ?h ! ?n"
        using l k by (auto simp: jsNth_Some keptOk_def nth_lines nat_diff_distrib nat_int_add)
      have fl: "otFlight s @ [r] = take (Suc (length (otFlight s))) (drop n ?h)"
        using s at by (simp add: streamOk_def take_Suc_conv_app_nth)
      have "streamSends c s = s\<lparr>otFlight := otFlight s @ [r], otNext := Some (m + 1)\<rparr>" using r by (simp add: streamSends_def Some)
      then show ?thesis by (simp add: streamOk_def \<open>m = int ?n\<close>) (rule fl)
    qed
  qed (use s in \<open>simp add: streamSends_def\<close>)
  then show ?thesis using assms c by (simp add: linkAt_def mapStream_def)
next
  case False
  then have "commandStep tail width throws StreamSends cl = cl" by (auto simp: mapStream_def split: option.split)
  then show ?thesis using assms by simp
qed

lemma pass_update_ok:
  "ecCallbackFailed (passUpdate throws u call) \<or> \<not> ecCallbackFailed call \<and> ecUpdates (passUpdate throws u call) = ecUpdates call @ [u]"
  by (simp add: passUpdate_def)

lemma pass_update_fields [simp]:
  "ecTaken (passUpdate throws u call) = ecTaken call" "ecOutcome (passUpdate throws u call) = ecOutcome call"
  by (simp_all add: passUpdate_def)

lemma take_record_call:
  assumes "callOk width h n call" "n < length h" "ecOutcome call = None"
  shows "callOk width h (Suc n) (takeRecord throws (h ! n, width (h ! n)) call)"
proof -
  have t: "take (Suc n) h = take n h @ [h ! n]" using assms(2) by (rule take_Suc_conv_app_nth)
  show ?thesis
  proof (cases "h ! n")
    case (UpdateRecord u)
    define call1 where "call1 = call\<lparr>ecTaken := ecTaken call + width (UpdateRecord u)\<rparr>"
    have "takeRecord throws (h ! n, width (h ! n)) call = passUpdate throws u call1"
      by (simp add: takeRecord_def UpdateRecord call1_def Let_def)
    moreover have "callOk width h (Suc n) (passUpdate throws u call1)"
      using assms pass_update_ok [of throws u call1] unfolding callOk_def t UpdateRecord
      by (auto simp: call1_def)
    ultimately show ?thesis by simp
  next
    case (ExitRecord e)
    then show ?thesis using assms unfolding callOk_def t by (simp add: takeRecord_def Let_def)
  qed
qed

lemma reads_keep:
  assumes "linkAt width n cl"
  shows "\<exists>n'. linkAt width n' (commandStep tail width throws ServerReads cl)"
proof (cases "clStream cl")
  case (Some s)
  let ?h = "clHistory cl"
  have call: "callOk width ?h n (clCall cl)" "ecOutcome (clCall cl) = None" and s: "streamOk width ?h n (clCommand cl) s"
    and n: "n \<le> length ?h" using assms Some by (simp_all add: linkAt_def)
  show ?thesis
  proof (cases "otFlight s")
    case Nil
    have "linkAt width n (commandStep tail width throws ServerReads cl)"
      using assms callOk_stopped [OF call(1)] by (simp add: serverReads_def Some Nil linkAt_def)
    then show ?thesis ..
  next
    case (Cons r rest)
    have f: "r # rest = take (Suc (length rest)) (drop n ?h)" using s Cons by (simp add: streamOk_def)
    have n': "n < length ?h" using f by (cases "n < length ?h") simp_all
    have drop: "drop n ?h = ?h ! n # drop (Suc n) ?h" by (rule Cons_nth_drop_Suc [OF n', symmetric])
    have r: "r = ?h ! n" and rest: "rest = take (length rest) (drop (Suc n) ?h)" using f by (simp_all add: drop)
    have taken: "callOk width ?h (Suc n) (takeRecord throws (r, width r) (clCall cl))"
      unfolding r by (rule take_record_call [OF call(1) n' call(2)])
    have none: "ecOutcome (takeRecord throws (r, width r) (clCall cl)) = None"
      using call(2) by (cases r) (simp_all add: takeRecord_def Let_def)
    have "linkAt width (Suc n) (commandStep tail width throws ServerReads cl)"
    proof (cases r)
      case (UpdateRecord u)
      have "case otNext s of None \<Rightarrow> False
          | Some m \<Rightarrow> otClosed s \<or> (case clCommand cl of None \<Rightarrow> True | Some c \<Rightarrow> m = int (n + Suc (length rest)) \<or> m < int (ncDropped c))"
        using s unfolding streamOk_def Cons by (auto split: option.splits)
      then have "streamOk width ?h (Suc n) (clCommand cl) (s\<lparr>otFlight := rest\<rparr>)"
        using rest by (auto simp: streamOk_def split: option.splits)
      then show ?thesis using assms taken none n' by (simp add: serverReads_def Some Cons Let_def UpdateRecord linkAt_def)
    next
      case (ExitRecord e)
      define call1 where "call1 = takeRecord throws (r, width r) (clCall cl)"
      have ended: "Suc n = length ?h" using assms n' ExitRecord r unfolding linkAt_def exitsLast_def by metis
      then have lastR: "last ?h = ExitRecord e" using ExitRecord r n' by (metis diff_Suc_1 last_conv_nth length_greater_0_conv gr_implies_not0 list.size(3))
      have "callOk width ?h (Suc n) (readDone (SawExit e) call1)"
        using taken lastR ended n' by (cases e) (auto simp: call1_def readDone_def callOk_def)
      then show ?thesis using assms ended by (simp add: serverReads_def Some Cons Let_def ExitRecord linkAt_def call1_def)
    qed
    then show ?thesis ..
  qed
qed (use assms in \<open>auto simp: serverReads_def\<close>)

lemma attach_keeps:
  assumes "linkAt width n cl" "\<And>r. 0 < width r"
  shows "\<exists>n'. linkAt width n' (commandStep tail width throws ServerAttaches cl)"
proof (cases "clStream cl = None \<and> ecOutcome (clCall cl) = None")
  case True
  let ?h = "clHistory cl" and ?call = "clCall cl"
  have call: "callOk width ?h n ?call" and n: "n \<le> length ?h" using assms(1) by (simp_all add: linkAt_def)
  have step: "commandStep tail width throws ServerAttaches cl = serverAttaches throws cl" using True by simp
  show ?thesis
  proof (cases "attachCommand [] (ecTaken ?call) (clCommand cl)")
    case (AttachRefused code msg)
    have "callOk width ?h n (attachAnswered throws False (AttachRefused code msg) ?call)"
      using call by (auto simp: attachAnswered_def callOk_settle)
    then have "linkAt width n (serverAttaches throws cl)"
      using assms(1) True by (simp add: serverAttaches_def AttachRefused Let_def linkAt_def)
    then show ?thesis unfolding step ..
  next
    case (Attached offset view)
    then obtain c where c: "clCommand cl = Some c" by (auto simp: attachCommand_def split: option.splits)
    have k: "keptOk width ?h c" using assms(1) c by (simp add: linkAt_def)
    have "\<exists>m\<le>length ?h. offset = bytesOf width (take m ?h) \<and>
        viewOf (updatesOf (take m ?h)) = (case view of None \<Rightarrow> viewOf (updatesOf (take n ?h)) | Some w \<Rightarrow> Some w)"
    proof (cases "view = None \<and> offset = ecTaken ?call")
      case True
      then show ?thesis using call n by (intro exI [of _ n]) (simp add: callOk_def)
    next
      case False
      then have "offset = ncEnd c" "view = ncView c"
        using Attached by (auto simp: attachCommand_def c Let_def split: if_splits)
      moreover have "updatesOf (take n ?h) = []" if "viewOf (updatesOf ?h) = None"
        using that updatesOf_simps(2) [of "take n ?h" "drop n ?h"] by (simp add: viewOf_None)
      ultimately show ?thesis using k by (intro exI [of _ "length ?h"]) (auto simp: keptOk_def split: option.split)
    qed
    then obtain m where m: "m \<le> length ?h" "offset = bytesOf width (take m ?h)"
      and v: "viewOf (updatesOf (take m ?h)) = (case view of None \<Rightarrow> viewOf (updatesOf (take n ?h)) | Some w \<Rightarrow> Some w)"
      by blast
    have shown: "ecCallbackFailed ?call \<or> viewOf (ecUpdates ?call) = viewOf (updatesOf (take n ?h))" using call by (simp add: callOk_def)
    define call1 where "call1 = (case view of None \<Rightarrow> ?call | Some w \<Rightarrow> passUpdate throws (ReplaceOutput w) ?call)"
    define call2 where "call2 = attachAnswered throws False (Attached offset view) ?call"
    have c1: "ecCallbackFailed call1 \<or> viewOf (ecUpdates call1) = viewOf (updatesOf (take m ?h))"
    proof (cases view)
      case (Some w)
      then show ?thesis using v pass_update_ok [of throws "ReplaceOutput w" ?call] by (auto simp: call1_def)
    qed (use shown v in \<open>simp add: call1_def\<close>)
    have o1: "ecOutcome call1 = None" using True by (simp add: call1_def split: option.split)
    have "callOk width ?h m call2"
      using c1 m(2) o1 by (auto simp: call2_def attachAnswered_def Let_def call1_def [symmetric] callOk_def split: option.split)
    moreover have "streamOk width ?h m (Some c) (openAt (clNextId cl) offset)" by (simp add: streamOk_def openAt_def m(2))
    moreover have "serverAttaches throws cl = cl\<lparr>clCall := call2, clNextId := Suc (clNextId cl),
        clStream := (if ecOutcome call2 = None then Some (openAt (clNextId cl) offset) else None)\<rparr>"
      by (simp add: serverAttaches_def Attached Let_def call2_def)
    ultimately have "linkAt width m (serverAttaches throws cl)"
      using assms(1) m(1) by (simp add: linkAt_def c)
    then show ?thesis unfolding step ..
  qed
next
  case False
  then have "commandStep tail width throws ServerAttaches cl = cl" by auto
  then show ?thesis using assms(1) by auto
qed

lemma command_step_keeps:
  assumes "linkAt width n cl" "\<And>r. 0 < width r"
  shows "\<exists>n'. linkAt width n' (commandStep tail width throws ev cl)"
proof (cases ev)
  case (Records r)
  then show ?thesis using records_keep [OF assms(1)] by blast
next
  case StreamBegins
  then show ?thesis using begins_keep [OF assms] by blast
next
  case StreamSends
  then show ?thesis using sends_keep [OF assms(1)] by blast
next
  case ServerReads
  then show ?thesis using reads_keep [OF assms(1)] by blast
next
  case StreamDrops
  have "linkAt width n (commandStep tail width throws StreamDrops cl)"
    using assms(1) callOk_stopped by (auto simp: linkAt_def split: option.split)
  then show ?thesis using StreamDrops by blast
next
  case ServerAttaches
  then show ?thesis using attach_keeps [OF assms] by blast
next
  case (AttachFails m)
  have "linkAt width n (commandStep tail width throws (AttachFails m) cl)"
    using assms(1) callOk_settle by (auto simp: linkAt_def attachAnswered_def)
  then show ?thesis using AttachFails by blast
next
  case OtherAttaches
  have "linkAt width n (commandStep tail width throws OtherAttaches cl)"
    using assms(1) by (auto simp: linkAt_def streamOk_def split: option.splits)
  then show ?thesis using OtherAttaches by blast
next
  case ServerAborts
  have "linkAt width n (commandStep tail width throws ServerAborts cl)" using assms(1) by (simp add: linkAt_def callOk_def)
  then show ?thesis using ServerAborts by blast
next
  case NodeForgets
  have "linkAt width n (commandStep tail width throws NodeForgets cl)"
    using assms(1) by (auto simp: linkAt_def streamOk_def split: option.splits)
  then show ?thesis using NodeForgets by blast
qed

lemma run_linked:
  assumes "\<And>r. 0 < width r"
  shows "\<exists>n. linkAt width n (commandRun tail width throws opened evs)"
proof -
  have "linkAt width n cl \<Longrightarrow> \<exists>n'. linkAt width n' (fold (commandStep tail width throws) evs cl)" for n cl
  proof (induction evs arbitrary: n cl)
    case (Cons ev evs)
    obtain m where "linkAt width m (commandStep tail width throws ev cl)" using command_step_keeps [OF Cons.prems assms] by blast
    then show ?case using Cons.IH by simp
  qed auto
  then show ?thesis unfolding commandRun_def using linkAt_start by blast
qed

text \<open>C23: A server that runs a command on a node shows exactly its output: however often the stream drops, records are lost on
  their way, another server takes over or the server falls behind what the node keeps, the updates passed on give at any
  moment the output of a beginning of the command's records; and a call that returns has been given all of it, with the
  command's own exit.\<close>

theorem output_exact:
  assumes "\<And>r. 0 < width r"
  shows "let cl = commandRun tail width throws opened evs in
    (ecCallbackFailed (clCall cl) \<or> (\<exists>n\<le>length (clHistory cl). viewOf (ecUpdates (clCall cl)) = viewOf (updatesOf (take n (clHistory cl))))) \<and>
    (case ecOutcome (clCall cl) of
       Some (ExecReturned v) \<Rightarrow> viewOf (ecUpdates (clCall cl)) = viewOf (updatesOf (clHistory cl)) \<and> clHistory cl \<noteq> [] \<and> last (clHistory cl) = ExitRecord (ExitValue v)
     | _ \<Rightarrow> True)"
proof -
  obtain n where "linkAt width n (commandRun tail width throws opened evs)" using run_linked [of width, OF assms] by blast
  then show ?thesis
    by (auto simp: Let_def linkAt_def callOk_def split: option.split execOutcome.split)
qed

definition demoDrop :: "commandEvent list" where
  "demoDrop =
     [StreamBegins, Records (UpdateRecord (AppendOutput [104, 105] JNull)), StreamSends, StreamDrops, ServerAttaches, StreamBegins,
      StreamSends, ServerReads, Records (UpdateRecord (AppendOutput [33] JNull)), StreamDrops, Records (UpdateRecord (MetadataOutput JNull)),
      ServerAttaches, StreamBegins, Records (ExitRecord (ExitValue JNull)), StreamSends, ServerReads]"

theorem output_exact_witness:
  "viewOf (ecUpdates (clCall (commandRun 2 (\<lambda>_. 2) (\<lambda>_. False) True demoDrop))) = Some \<lparr>ovText = [104, 105, 33], ovMeta = JNull\<rparr>"
proof -
  have "ecOutcome (clCall (commandRun 2 (\<lambda>_. 2) (\<lambda>_. False) True demoDrop)) = Some (ExecReturned JNull)"
    "viewOf (updatesOf (clHistory (commandRun 2 (\<lambda>_. 2) (\<lambda>_. False) True demoDrop))) = Some \<lparr>ovText = [104, 105, 33], ovMeta = JNull\<rparr>"
    by code_simp+
  then show ?thesis using output_exact [of "\<lambda>_. 2" 2 "\<lambda>_. False" True demoDrop] by (simp add: Let_def)
qed

subsection \<open>Reading a stream's bytes\<close>

lemma drain_free: "nl \<notin> set p \<Longrightarrow> drainLines parse nl line (p @ bs) = drainLines parse nl (line @ p) bs"
  by (induction p arbitrary: line) auto

lemma drain_append:
  "drainLines parse nl line (xs @ ys) =
     (case drainLines parse nl line xs of
        Inl r \<Rightarrow> Inl r
      | Inr (p, rs) \<Rightarrow> (case drainLines parse nl p ys of Inl (qs, e) \<Rightarrow> Inl (rs @ qs, e) | Inr (q, qs) \<Rightarrow> Inr (q, rs @ qs)))"
  by (induction xs arbitrary: line) (auto split: option.split execRecord.split sum.split prod.split)

lemma drain_rest: "nl \<notin> set line \<Longrightarrow> drainLines parse nl line xs = Inr (p, rs) \<Longrightarrow> nl \<notin> set p"
proof (induction xs arbitrary: line rs)
  case (Cons b bs)
  show ?case
  proof (cases "b = nl")
    case True
    then show ?thesis
      using Cons.prems(2) Cons.IH [of "[]"] by (auto split: option.splits execRecord.splits sum.splits prod.splits)
  next
    case False
    then show ?thesis using Cons.prems Cons.IH [of "line @ [b]" rs] by auto
  qed
qed simp

lemma read_drains:
  "nl \<notin> set p \<Longrightarrow> readRecords parse nl p chunks =
     (case drainLines parse nl p (concat chunks) of Inl r \<Rightarrow> r | Inr (_, rs) \<Rightarrow> (rs, ReadStopped))"
proof (induction chunks arbitrary: p)
  case (Cons c cs)
  have d: "drainLines parse nl [] (p @ c) = drainLines parse nl p c" using drain_free [OF Cons.prems, of parse "[]" c] by simp
  show ?case
  proof (cases "drainLines parse nl p c")
    case (Inl r)
    then show ?thesis unfolding readRecords.simps d by (cases r) (simp add: drain_append)
  next
    case (Inr r)
    obtain q rs where r: "r = (q, rs)" by (meson surj_pair)
    have "nl \<notin> set q" using drain_rest [OF Cons.prems] Inr r by simp
    then show ?thesis using Cons.IH [of q] Inr r unfolding readRecords.simps d by (simp add: drain_append split: sum.split prod.split)
  qed
qed simp

text \<open>However the bytes of a stream are cut and wherever they stop, what is read is the records that came whole, each with its
  bytes, and the exit when it is among them.\<close>

lemma records_any_cut:
  assumes "\<And>r. parse (enc r) = Some r" "\<And>r. nl \<notin> set (enc r)" "exitsLast rs" "prefix (concat chunks) (concat (map (\<lambda>r. enc r @ [nl]) rs))"
  shows "\<exists>k\<le>length rs. readRecords parse nl [] chunks =
      (map (\<lambda>r. (r, length (enc r) + 1)) (take k rs),
       case (if k = length rs \<and> rs \<noteq> [] then last rs else UpdateRecord (MetadataOutput JNull)) of ExitRecord e \<Rightarrow> SawExit e | _ \<Rightarrow> ReadStopped) \<and>
    (concat chunks = concat (map (\<lambda>r. enc r @ [nl]) rs) \<longrightarrow> k = length rs)"
proof -
  have "\<exists>k\<le>length rs. (case drainLines parse nl [] xs of Inl r \<Rightarrow> r | Inr (_, qs) \<Rightarrow> (qs, ReadStopped)) =
      (map (\<lambda>r. (r, length (enc r) + 1)) (take k rs),
       case (if k = length rs \<and> rs \<noteq> [] then last rs else UpdateRecord (MetadataOutput JNull)) of ExitRecord e \<Rightarrow> SawExit e | _ \<Rightarrow> ReadStopped) \<and>
      (xs = concat (map (\<lambda>r. enc r @ [nl]) rs) \<longrightarrow> k = length rs)"
    if "prefix xs (concat (map (\<lambda>r. enc r @ [nl]) rs))" "exitsLast rs" for xs
    using that
  proof (induction rs arbitrary: xs)
    case (Cons r rs)
    show ?case
    proof (cases "prefix xs (enc r)")
      case True
      then have "nl \<notin> set xs" using assms(2) [of r] by (auto simp: prefix_def)
      then have "drainLines parse nl [] xs = Inr (xs, [])" using drain_free [of nl xs parse "[]" "[]"] by simp
      moreover have "xs \<noteq> concat (map (\<lambda>r. enc r @ [nl]) (r # rs))" using \<open>nl \<notin> set xs\<close> by auto
      ultimately show ?thesis by (intro exI [of _ 0]) simp
    next
      case False
      then obtain ys where ys: "xs = enc r @ nl # ys" "prefix ys (concat (map (\<lambda>r. enc r @ [nl]) rs))"
        using Cons.prems(1) by (auto simp: prefix_append prefix_Cons)
      have ex: "exitsLast rs" using Cons.prems(2) by (fastforce simp: exitsLast_def)
      obtain k where k: "k \<le> length rs" "(case drainLines parse nl [] ys of Inl r \<Rightarrow> r | Inr (_, qs) \<Rightarrow> (qs, ReadStopped)) =
          (map (\<lambda>r. (r, length (enc r) + 1)) (take k rs),
           case (if k = length rs \<and> rs \<noteq> [] then last rs else UpdateRecord (MetadataOutput JNull)) of ExitRecord e \<Rightarrow> SawExit e | _ \<Rightarrow> ReadStopped)"
        "ys = concat (map (\<lambda>r. enc r @ [nl]) rs) \<longrightarrow> k = length rs" using Cons.IH [OF ys(2) ex] by blast
      have line: "drainLines parse nl [] xs = drainLines parse nl (enc r) (nl # ys)"
        using drain_free [OF assms(2) [of r], of parse "[]" "nl # ys"] by (simp add: ys(1))
      show ?thesis
      proof (cases r)
        case (ExitRecord e)
        have "rs = []" using Cons.prems(2) ExitRecord by (cases rs) (force simp: exitsLast_def)+
        then show ?thesis using ExitRecord by (intro exI [of _ 1]) (simp add: line assms(1))
      next
        case (UpdateRecord u)
        have whole: "xs = concat (map (\<lambda>r. enc r @ [nl]) (r # rs)) \<longleftrightarrow> ys = concat (map (\<lambda>r. enc r @ [nl]) rs)" by (simp add: ys(1))
        have "drainLines parse nl [] xs = (case drainLines parse nl [] ys of
            Inl (qs, e) \<Rightarrow> Inl ((r, length (enc r) + 1) # qs, e) | Inr (p, qs) \<Rightarrow> Inr (p, (r, length (enc r) + 1) # qs))"
          using assms(1) [of r] by (simp add: line UpdateRecord split: sum.split prod.split)
        then show ?thesis
          using k unfolding whole by (intro exI [of _ "Suc k"]) (auto simp: UpdateRecord split: sum.splits prod.splits)
      qed
    qed
  qed simp
  then show ?thesis using assms(3,4) read_drains [of nl "[]" parse chunks] by simp
qed

subsection \<open>Getting to the exit\<close>

definition exitOutcome :: "execExit \<Rightarrow> execOutcome" where
  "exitOutcome e = (case e of ExitValue v \<Rightarrow> ExecReturned v | ExitError code msg \<Rightarrow> ExecThrew code msg)"

definition goingOn :: "execCall \<Rightarrow> bool" where
  "goingOn call = (ecOutcome call = None \<and> \<not> ecAborted call \<and> \<not> ecCallbackFailed call)"

abbreviation "quiet \<equiv> (\<lambda>_ :: outputUpdate. False)"

lemma going_on_steps [simp]:
  "goingOn call \<Longrightarrow> readDone ReadStopped call = call"
  "goingOn call \<Longrightarrow> goingOn (passUpdate quiet u call)"
  "goingOn call \<Longrightarrow> goingOn (takeRecord quiet p call)"
  "goingOn call \<Longrightarrow> ecOutcome (readDone (SawExit e) call) = Some (exitOutcome e)"
  by (auto simp: goingOn_def readDone_def beforeAttach_def passUpdate_def takeRecord_def Let_def exitOutcome_def
      split: execRecord.split execExit.split)

lemma reads_to_exit:
  assumes "clStream cl = Some s" "otFlight s = map UpdateRecord us @ [ExitRecord e]" "goingOn (clCall cl)"
  shows "ecOutcome (clCall ((commandStep tail width quiet ServerReads ^^ Suc (length us)) cl)) = Some (exitOutcome e)"
  using assms
proof (induction us arbitrary: cl s)
  case Nil
  then show ?case by (simp add: serverReads_def Let_def)
next
  case (Cons u us)
  define cl' where "cl' = commandStep tail width quiet ServerReads cl"
  have cl': "clStream cl' = Some (s\<lparr>otFlight := map UpdateRecord us @ [ExitRecord e]\<rparr>)" "goingOn (clCall cl')"
    using Cons.prems by (simp_all add: cl'_def serverReads_def Let_def)
  have "ecOutcome (clCall ((commandStep tail width quiet ServerReads ^^ Suc (length us)) cl')) = Some (exitOutcome e)"
    by (rule Cons.IH [OF cl'(1) _ cl'(2)]) simp
  then show ?case by (simp only: length_Cons funpow_Suc_right [of "Suc (length us)"] comp_apply cl'_def)
qed

lemma sends_all:
  assumes "keptOk width h c" "ncDropped c \<le> n" "ncConsumer c = Some (otId s)" "j \<le> length h - n"
    "otNext s = Some (int n)" "otFlight s = []" "\<not> otClosed s" "n \<le> length h"
  shows "(streamSends c ^^ j) s = s\<lparr>otFlight := take j (drop n h), otNext := Some (int (n + j))\<rparr>"
  using assms(4)
proof (induction j)
  case 0
  then show ?case using assms by simp
next
  case (Suc j)
  let ?s = "s\<lparr>otFlight := take j (drop n h), otNext := Some (int (n + j))\<rparr>"
  have j: "n + j < length h" using Suc.prems by simp
  have "jsNth (ncLines c) (int (n + j) - int (ncDropped c)) = Some (linesFrom width 0 h ! (n + j))"
    using assms(1,2) j by (simp add: jsNth_def keptOk_def nat_diff_distrib nat_int_add)
  then have "streamTurn (otId s) (int (n + j)) c = Yields (h ! (n + j))"
    using assms(2,3) j by (simp add: streamTurn_def Let_def nth_lines)
  then have "streamSends c ?s = s\<lparr>otFlight := take (Suc j) (drop n h), otNext := Some (int (n + Suc j))\<rparr>"
    using assms(7) j by (simp add: streamSends_def take_Suc_conv_app_nth)
  then show ?case using Suc by simp
qed

lemma link_sends: "clCommand cl = Some c \<Longrightarrow> (commandStep tail width throws StreamSends ^^ j) cl = mapStream (streamSends c ^^ j) cl"
  by (induction j) (simp_all add: mapStream_def option.map_comp option.map_id0)

lemma exits_then:
  assumes "exitsLast h" "n < length h" "last h = ExitRecord e"
  shows "\<exists>us. drop n h = map UpdateRecord us @ [ExitRecord e]"
proof -
  have "h \<noteq> []" using assms(2) by auto
  then have h: "h = butlast h @ [ExitRecord e]" using assms(3) by (metis append_butlast_last_id)
  have "\<exists>u. r = UpdateRecord u" if "r \<in> set (butlast h)" for r
  proof -
    obtain i where b: "i < length (butlast h)" "butlast h ! i = r" using \<open>r \<in> set (butlast h)\<close> unfolding in_set_conv_nth by blast
    then have i: "i < length h - 1" "r = h ! i" by (simp_all add: nth_butlast)
    then have "i < length h" "Suc i \<noteq> length h" by arith+
    then have "\<nexists>e. h ! i = ExitRecord e" using assms(1) unfolding exitsLast_def by blast
    then show ?thesis using i(2) by (metis execRecord.exhaust)
  qed
  then have "\<forall>r\<in>set (drop n (butlast h)). \<exists>u. r = UpdateRecord u" by (meson in_set_dropD)
  then obtain us where "drop n (butlast h) = map UpdateRecord us" by (metis (no_types, lifting) ex_map_conv)
  moreover have "drop n h = drop n (butlast h) @ [ExitRecord e]" using assms(2) by (subst h) simp
  ultimately show ?thesis by auto
qed

text \<open>C24: A command that exited is returned from as long as the node keeps it and the server is not behind the kept tail: whatever
  dropped before, attaching once more to a link that holds and reading what is left settles the call with the command's
  own exit, in twice as many steps as there are records left.\<close>

theorem output_completes:
  fixes tail width opened evs
  defines "cl \<equiv> commandRun tail width quiet opened evs"
  assumes "\<And>r. 0 < width r" "goingOn (clCall cl)" "clCommand cl = Some c" "ncExited c"
    "olOffset (hd (ncLines c)) \<le> ecTaken (clCall cl)" "ecTaken (clCall cl) < ncEnd c"
  shows "\<exists>k e. k \<le> length (clHistory cl) \<and> last (clHistory cl) = ExitRecord e \<and>
    ecOutcome (clCall (fold (commandStep tail width quiet)
      ([StreamDrops, ServerAttaches, StreamBegins] @ replicate k StreamSends @ replicate k ServerReads) cl)) = Some (exitOutcome e)"
proof -
  let ?h = "clHistory cl" and ?step = "commandStep tail width quiet"
  obtain n where l: "linkAt width n cl" unfolding cl_def using run_linked [of width, OF assms(2)] by blast
  have k: "keptOk width ?h c" and n: "n \<le> length ?h" and t: "ecTaken (clCall cl) = bytesOf width (take n ?h)" and ex: "exitsLast ?h"
    using l assms(4) by (simp_all add: linkAt_def callOk_def)
  have endB: "ncEnd c = bytesOf width (take (length ?h) ?h)" using k by (simp add: keptOk_def)
  have n': "n < length ?h" using assms(7) bytes_order(1) [of width, OF assms(2) n, of "length ?h"] unfolding t endB by simp
  have d: "ncDropped c < length ?h" using k n' by (auto simp: keptOk_def)
  have first: "ncLines c \<noteq> []" "olOffset (hd (ncLines c)) = bytesOf width (take (ncDropped c) ?h)"
    using k d by (auto simp: keptOk_def hd_drop_conv_nth nth_lines)
  have dn: "ncDropped c \<le> n" using assms(6) bytes_order(1) [of width, OF assms(2) n, of "ncDropped c"] d unfolding t first(2) by simp
  have "h \<noteq> [] \<Longrightarrow> last h = h ! (length h - 1)" for h :: "execRecord list" by (rule last_conv_nth)
  then obtain e where e: "last ?h = ExitRecord e" using k assms(5) n' unfolding keptOk_def by (metis Suc_pred diff_less length_greater_0_conv less_nat_zero_code less_one list.size(3) not_less_eq)
  obtain us where us: "drop n ?h = map UpdateRecord us @ [ExitRecord e]" using exits_then [OF ex n' e] by blast
  define c1 where "c1 = c\<lparr>ncConsumer := Some (clNextId cl)\<rparr>"
  define m where "m = length ?h - n"
  define s where "s = (openAt (clNextId cl) (ecTaken (clCall cl)))\<lparr>otNext := Some (int n)\<rparr>"
  define cl1 where "cl1 = cl\<lparr>clStream := Some s, clNextId := Suc (clNextId cl), clCommand := Some c1\<rparr>"
  have "list_ex (\<lambda>l. olOffset l = bytesOf width (take n ?h)) (ncLines c)"
    using kept_find [of width ?h c n, OF k assms(2) n'] dn findIndex_SomeD [of "\<lambda>l. olOffset l = bytesOf width (take n ?h)" "ncLines c"]
    by (auto simp: list_ex_length)
  then have answer: "attachCommand [] (ecTaken (clCall cl)) (Some c) = Attached (ecTaken (clCall cl)) None"
    using assms(6,7) first(1) by (cases "ncLines c") (auto simp: attachCommand_def t)
  have from_n: "streamFrom (ecTaken (clCall cl)) c = int n"
    using kept_find [of width ?h c n, OF k assms(2) n'] dn assms(7) by (auto simp: streamFrom_def t)
  have dropped: "?step StreamDrops cl = cl\<lparr>clStream := None\<rparr>"
    using assms(3) by (cases "clStream cl") simp_all
  have attached: "serverAttaches quiet (cl\<lparr>clStream := None\<rparr>) = cl\<lparr>clNextId := Suc (clNextId cl), clStream := Some (openAt (clNextId cl) (ecTaken (clCall cl)))\<rparr>"
    using assms(3,4) answer by (simp add: serverAttaches_def attachAnswered_def Let_def goingOn_def)
  have begun: "fold ?step [StreamDrops, ServerAttaches, StreamBegins] cl = cl1"
  proof -
    have "?step ServerAttaches (cl\<lparr>clStream := None\<rparr>) = cl\<lparr>clNextId := Suc (clNextId cl), clStream := Some (openAt (clNextId cl) (ecTaken (clCall cl)))\<rparr>"
      using attached assms(3) by (simp add: goingOn_def)
    moreover have "?step StreamBegins (cl\<lparr>clNextId := Suc (clNextId cl), clStream := Some (openAt (clNextId cl) (ecTaken (clCall cl)))\<rparr>) = cl1"
      using assms(4) from_n by (simp add: cl1_def s_def c1_def openAt_def)
    ultimately show ?thesis using dropped by (simp del: commandStep.simps)
  qed
  have "(streamSends c1 ^^ m) s = s\<lparr>otFlight := drop n ?h, otNext := Some (int (n + m))\<rparr>"
    using sends_all [of width ?h c1 n s m] k dn n by (simp add: c1_def s_def openAt_def m_def)
  then have sent: "(?step StreamSends ^^ m) cl1 = cl1\<lparr>clStream := Some (s\<lparr>otFlight := drop n ?h, otNext := Some (int (n + m))\<rparr>)\<rparr>"
    using link_sends [where cl = cl1 and c = c1 and j = m] by (simp add: cl1_def mapStream_def)
  have m: "m = Suc (length us)" using us by (metis m_def length_append_singleton length_drop length_map)
  have "ecOutcome (clCall ((?step ServerReads ^^ Suc (length us)) (cl1\<lparr>clStream := Some (s\<lparr>otFlight := drop n ?h, otNext := Some (int (n + m))\<rparr>)\<rparr>))) =
      Some (exitOutcome e)"
    by (rule reads_to_exit [where s = "s\<lparr>otFlight := drop n ?h, otNext := Some (int (n + m))\<rparr>"]) (use us assms(3) in \<open>simp_all add: cl1_def\<close>)
  then have "ecOutcome (clCall ((?step ServerReads ^^ m) ((?step StreamSends ^^ m) (fold ?step [StreamDrops, ServerAttaches, StreamBegins] cl)))) =
      Some (exitOutcome e)"
    unfolding begun sent by (simp only: m)
  then show ?thesis using e
    by (intro exI [of _ m] exI [of _ e]) (simp add: m_def fold_replicate)
qed

definition demoAway :: "commandEvent list" where
  "demoAway = [Records (UpdateRecord (AppendOutput [104] JNull)), Records (ExitRecord (ExitError ''timeout'' ''late''))]"

definition demoCommand :: nodeCommand where
  "demoCommand = \<lparr>ncLines = [\<lparr>olOffset = 0, olRecord = UpdateRecord (AppendOutput [104] JNull), olBytes = 2\<rparr>,
       \<lparr>olOffset = 2, olRecord = ExitRecord (ExitError ''timeout'' ''late''), olBytes = 2\<rparr>], ncDropped = 0, ncEnd = 4,
     ncView = Some \<lparr>ovText = [104], ovMeta = JNull\<rparr>, ncExited = True, ncAborted = False, ncConsumer = None\<rparr>"

theorem output_completes_witness:
  "\<exists>k e. k \<le> 2 \<and> ecOutcome (clCall (fold (commandStep 8 (\<lambda>_. 2) quiet)
      ([StreamDrops, ServerAttaches, StreamBegins] @ replicate k StreamSends @ replicate k ServerReads)
      (commandRun 8 (\<lambda>_. 2) quiet False demoAway))) = Some (exitOutcome e)"
proof -
  have "goingOn (clCall (commandRun 8 (\<lambda>_. 2) quiet False demoAway))" "clCommand (commandRun 8 (\<lambda>_. 2) quiet False demoAway) = Some demoCommand"
    "olOffset (hd (ncLines demoCommand)) \<le> ecTaken (clCall (commandRun 8 (\<lambda>_. 2) quiet False demoAway))" "ncExited demoCommand"
    "ecTaken (clCall (commandRun 8 (\<lambda>_. 2) quiet False demoAway)) < ncEnd demoCommand" "length (clHistory (commandRun 8 (\<lambda>_. 2) quiet False demoAway)) = 2"
    by code_simp+
  note facts = this
  have "\<exists>k e. k \<le> length (clHistory (commandRun 8 (\<lambda>_. 2) quiet False demoAway)) \<and>
      last (clHistory (commandRun 8 (\<lambda>_. 2) quiet False demoAway)) = ExitRecord e \<and>
      ecOutcome (clCall (fold (commandStep 8 (\<lambda>_. 2) quiet)
        ([StreamDrops, ServerAttaches, StreamBegins] @ replicate k StreamSends @ replicate k ServerReads)
        (commandRun 8 (\<lambda>_. 2) quiet False demoAway))) = Some (exitOutcome e)"
    by (rule output_completes [OF _ facts(1,2,4,3,5)]) simp
  then show ?thesis unfolding facts(6) by blast
qed

subsection \<open>The exit that is lost\<close>

text \<open>The server was behind the kept tail of a command that exited: it was given the view in place of every record, the exit
  included, and from then on each stream it opens ends at once.\<close>

definition behindExit :: "commandLink \<Rightarrow> bool" where
  "behindExit cl =
     (goingOn (clCall cl) \<and>
      (case clCommand cl of
         None \<Rightarrow> False
       | Some c \<Rightarrow>
           ncExited c \<and> ncLines c \<noteq> [] \<and> olOffset (hd (ncLines c)) \<le> ncEnd c \<and>
           (case clStream cl of
              None \<Rightarrow> ecTaken (clCall cl) < olOffset (hd (ncLines c)) \<or> ecTaken (clCall cl) = ncEnd c
            | Some s \<Rightarrow> ecTaken (clCall cl) = ncEnd c \<and> otFlight s = [] \<and> otOffset s = ncEnd c \<and>
                (otNext s = None \<or> otNext s = Some (int (ncDropped c + length (ncLines c)))))))"

definition linkHolds :: "commandEvent \<Rightarrow> bool" where
  "linkHolds ev = (case ev of ServerAborts \<Rightarrow> False | NodeForgets \<Rightarrow> False | AttachFails _ \<Rightarrow> False | _ \<Rightarrow> True)"

lemma going_on_taken [simp]: "goingOn (call\<lparr>ecTaken := b\<rparr>) = goingOn call"
  by (simp add: goingOn_def)

lemma going_on_settled: "goingOn call \<Longrightarrow> ecOutcome call = None"
  by (simp add: goingOn_def)

lemma behind_step:
  assumes "behindExit cl" "linkHolds ev"
  shows "behindExit (commandStep tail width quiet ev cl)"
proof -
  obtain c where c: "clCommand cl = Some c" "ncExited c" "ncLines c \<noteq> []" "olOffset (hd (ncLines c)) \<le> ncEnd c" and g: "goingOn (clCall cl)"
    using assms(1) by (auto simp: behindExit_def split: option.splits)
  show ?thesis
  proof (cases ev)
    case ServerAttaches
    show ?thesis
    proof (cases "clStream cl")
      case None
      have "attachCommand [] (ecTaken (clCall cl)) (Some c) \<in> {Attached (ncEnd c) (ncView c), Attached (ncEnd c) None}"
        using assms(1) c None by (cases "ncLines c") (auto simp: behindExit_def attachCommand_def)
      moreover have "goingOn (attachAnswered quiet False (Attached (ncEnd c) v) (clCall cl)) \<and>
          ecTaken (attachAnswered quiet False (Attached (ncEnd c) v) (clCall cl)) = ncEnd c" for v
        using g by (cases v) (auto simp: attachAnswered_def Let_def goingOn_def passUpdate_def)
      ultimately show ?thesis
        using None g c by (auto simp: ServerAttaches serverAttaches_def Let_def behindExit_def going_on_settled openAt_def)
    next
      case (Some s)
      then show ?thesis using assms(1) by (simp add: ServerAttaches)
    qed
  next
    case StreamBegins
    then show ?thesis
      using assms(1) c by (auto simp: behindExit_def streamFrom_def split: option.split)
  next
    case StreamSends
    have "otFlight (streamSends c s) = [] \<and> otOffset (streamSends c s) = otOffset s \<and> otNext (streamSends c s) = otNext s"
      if "otFlight s = []" "otNext s = None \<or> otNext s = Some (int (ncDropped c + length (ncLines c)))" for s
      using that by (auto simp: streamSends_def streamTurn_def Let_def jsNth_def split: turnOutcome.split)
    then show ?thesis
      using assms(1) c by (cases "clStream cl") (auto simp: StreamSends mapStream_def behindExit_def)
  next
    case ServerReads
    then show ?thesis
      using assms(1) c g by (cases "clStream cl") (auto simp: serverReads_def behindExit_def)
  next
    case StreamDrops
    then show ?thesis using assms(1) c g by (cases "clStream cl") (auto simp: behindExit_def)
  next
    case OtherAttaches
    then show ?thesis using assms(1) c by (auto simp: behindExit_def split: option.splits)
  qed (use assms c in \<open>auto simp: linkHolds_def\<close>)
qed

text \<open>C25: The exit of a command is lost to a server that was behind the kept tail when the command exited: attaching answers the
  current view and opens the stream after the exit, so that the call never settles, however long the link holds and
  however often it attaches again, until it is aborted, the node forgets the command or a call to the node fails.\<close>

theorem exit_lost_behind_tail:
  fixes tail width opened evs
  defines "cl \<equiv> commandRun tail width quiet opened evs"
  assumes "\<And>r. 0 < width r" "goingOn (clCall cl)" "clStream cl = None" "clCommand cl = Some c" "ncExited c"
    "ncLines c \<noteq> []" "ecTaken (clCall cl) < olOffset (hd (ncLines c))" "list_all linkHolds later"
  shows "ecOutcome (clCall (fold (commandStep tail width quiet) later cl)) = None"
proof -
  obtain n where "linkAt width n cl" unfolding cl_def using run_linked [of width, OF assms(2)] by blast
  then have k: "keptOk width (clHistory cl) c" using assms(5) by (simp add: linkAt_def)
  have d: "clHistory cl \<noteq> [] \<Longrightarrow> ncDropped c < length (clHistory cl)" using k by (auto simp: keptOk_def)
  have ne: "clHistory cl \<noteq> []" using assms(7) k by (auto simp: keptOk_def)
  then have "ncLines c \<noteq> []" "olOffset (hd (ncLines c)) = bytesOf width (take (ncDropped c) (clHistory cl))"
    using k d by (auto simp: keptOk_def hd_drop_conv_nth nth_lines)
  moreover have "bytesOf width (take (ncDropped c) (clHistory cl)) \<le> ncEnd c"
    using k bytesOf_simps(3) [of width "take (ncDropped c) (clHistory cl)" "drop (ncDropped c) (clHistory cl)"] by (simp add: keptOk_def)
  ultimately have b: "behindExit cl" using assms(3-8) by (simp add: behindExit_def)
  have "behindExit cl \<Longrightarrow> behindExit (fold (commandStep tail width quiet) later cl)" for cl
    using assms(9) by (induction later arbitrary: cl) (simp_all add: behind_step)
  then show ?thesis using b by (simp add: behindExit_def goingOn_def)
qed

theorem exit_lost_behind_tail_witness:
  "ecOutcome (clCall (fold (commandStep 2 (\<lambda>_. 2) quiet) [ServerAttaches, StreamBegins, StreamSends, ServerReads, ServerAttaches, StreamBegins, StreamSends, ServerReads]
     (commandRun 2 (\<lambda>_. 2) quiet False demoAway))) = None"
proof -
  let ?c = "demoCommand\<lparr>ncLines := tl (ncLines demoCommand), ncDropped := 1\<rparr>"
  have "goingOn (clCall (commandRun 2 (\<lambda>_. 2) quiet False demoAway))" "clStream (commandRun 2 (\<lambda>_. 2) quiet False demoAway) = None"
    "clCommand (commandRun 2 (\<lambda>_. 2) quiet False demoAway) = Some ?c" "ncExited ?c" "ncLines ?c \<noteq> []"
    "ecTaken (clCall (commandRun 2 (\<lambda>_. 2) quiet False demoAway)) < olOffset (hd (ncLines ?c))"
    by code_simp+
  then show ?thesis
    by (intro exit_lost_behind_tail [of "\<lambda>_. 2" 2 False demoAway ?c]) (simp_all add: linkHolds_def)
qed

end
