(* ===== verification/Virtual_List.thy ===== *)
theory Virtual_List
  imports Reins_Prelude
begin

text \<open>
  The geometry of long lists, \<^verbatim>\<open>packages/frontend/src/models/virtual-list-coordinator.ts\<close>: estimated and measured heights,
  the window of items to render and the scroll position kept in place while heights change. Lengths are exact
  rational numbers.
\<close>

record vlInput =
  viId :: string
  viEstimated :: rat
  viGap :: "rat option"
  viMeasurementKey :: string
  viFixed :: "rat option"

record vlItem =
  vtInput :: vlInput
  vtTop :: rat
  vtHeight :: rat

record vlAnchor =
  vaId :: string
  vaOffset :: rat

record vlWindow =
  vwItems :: "vlItem list"
  vwActive :: "string option"
  vwTotal :: rat

record vlMeasurement =
  vmId :: string
  vmMeasurementKey :: string
  vmHeight :: rat

record vlUpdate =
  vuAccepted :: nat
  vuScrollTop :: rat
  vuAdjustment :: rat

record vlState =
  vlOverscan :: rat
  vlMeasurements :: "(string, rat) jsmap"
  vlInputs :: "vlInput list"
  vlItems :: "vlItem list"
  vlScrollTop :: rat
  vlViewport :: rat
  vlTotal :: rat
  vlVersion :: nat

definition newVirtualList :: "rat \<Rightarrow> vlState" where
  "newVirtualList overscan = \<lparr>vlOverscan = overscan, vlMeasurements = [], vlInputs = [], vlItems = [], vlScrollTop = 0,
     vlViewport = 1, vlTotal = 0, vlVersion = 0\<rparr>"

subsection \<open>Layout\<close>

definition contentHeight :: "(string, rat) jsmap \<Rightarrow> vlInput \<Rightarrow> rat" where
  "contentHeight ms i = orElse (viFixed i) (orElse (jmGet ms (viMeasurementKey i)) (viEstimated i))"

definition slotHeight :: "(string, rat) jsmap \<Rightarrow> vlInput \<Rightarrow> rat" where
  "slotHeight ms i = orElse (viGap i) 0 + contentHeight ms i"

fun layItems :: "(string, rat) jsmap \<Rightarrow> rat \<Rightarrow> vlInput list \<Rightarrow> vlItem list \<times> rat" where
  "layItems ms y [] = ([], y)"
| "layItems ms y (i # ins) =
     (let h = slotHeight ms i; (items, bottom) = layItems ms (y + h) ins
      in (\<lparr>vtInput = i, vtTop = y, vtHeight = h\<rparr> # items, bottom))"

definition rebuild :: "vlState \<Rightarrow> vlState" where
  "rebuild v =
     (case layItems (vlMeasurements v) 0 (vlInputs v) of
        (items, bottom) \<Rightarrow> v\<lparr>vlItems := items, vlTotal := bottom, vlVersion := Suc (vlVersion v)\<rparr>)"

text \<open>\<open>byId\<close>: the last item of an ID.\<close>

definition itemById :: "vlState \<Rightarrow> string \<Rightarrow> vlItem option" where
  "itemById v i = find (\<lambda>t. viId (vtInput t) = i) (rev (vlItems v))"

definition clampScrollTop :: "vlState \<Rightarrow> rat \<Rightarrow> rat" where
  "clampScrollTop v x = max 0 (min x (max 0 (vlTotal v - vlViewport v)))"

subsection \<open>Searches\<close>

text \<open>Both searches halve the range while a condition holds up to some index: \<open>before\<close> says that an item is before the one
  looked for.\<close>

function halving :: "('a \<Rightarrow> bool) \<Rightarrow> 'a list \<Rightarrow> nat \<Rightarrow> nat \<Rightarrow> nat" where
  "halving before xs low high =
     (if low < high
      then (let middle = (low + high) div 2
            in if before (xs ! middle) then halving before xs (middle + 1) high else halving before xs low middle)
      else low)"
  by pat_completeness auto
termination by (relation "measure (\<lambda>(_, _, low, high). high - low)") auto

declare halving.simps [simp del]

definition firstItemEndingAfter :: "vlItem list \<Rightarrow> rat \<Rightarrow> nat" where
  "firstItemEndingAfter items offset = min (halving (\<lambda>t. vtTop t + vtHeight t \<le> offset) items 0 (length items)) (length items - 1)"

definition firstItemStartingAtOrAfter :: "vlItem list \<Rightarrow> rat \<Rightarrow> nat" where
  "firstItemStartingAtOrAfter items offset = halving (\<lambda>t. vtTop t < offset) items 0 (length items)"

definition anchorOf :: "vlState \<Rightarrow> vlAnchor option" where
  "anchorOf v =
     (if vlItems v = [] then None
      else (let item = vlItems v ! firstItemEndingAfter (vlItems v) (vlScrollTop v)
            in Some \<lparr>vaId = viId (vtInput item), vaOffset = vtTop item - vlScrollTop v\<rparr>))"

definition windowOf :: "vlState \<Rightarrow> vlWindow" where
  "windowOf v =
     (if vlItems v = [] then \<lparr>vwItems = [], vwActive = None, vwTotal = 0\<rparr>
      else (let low = max 0 (vlScrollTop v - vlOverscan v);
                high = vlScrollTop v + vlViewport v + vlOverscan v;
                first = firstItemEndingAfter (vlItems v) low;
                after = firstItemStartingAtOrAfter (vlItems v) high
            in \<lparr>vwItems = take (max (first + 1) after - first) (drop first (vlItems v)),
                vwActive = Some (viId (vtInput (vlItems v ! firstItemEndingAfter (vlItems v) (vlScrollTop v)))),
                vwTotal = vlTotal v\<rparr>))"

subsection \<open>Operations\<close>

definition resolveGeometryUpdate :: "vlAnchor option \<Rightarrow> nat \<Rightarrow> vlState \<Rightarrow> vlUpdate \<times> vlState" where
  "resolveGeometryUpdate anchor accepted v =
     (let x = (case anchor of
                 None \<Rightarrow> clampScrollTop v (vlScrollTop v)
               | Some a \<Rightarrow>
                   (case itemById v (vaId a) of
                      None \<Rightarrow> clampScrollTop v (vlScrollTop v)
                    | Some t \<Rightarrow> clampScrollTop v (vtTop t - vaOffset a)))
      in (\<lparr>vuAccepted = accepted, vuScrollTop = x, vuAdjustment = x - vlScrollTop v\<rparr>, v\<lparr>vlScrollTop := x\<rparr>))"

definition normalizeInput :: "vlInput \<Rightarrow> vlInput" where
  "normalizeInput i =
     i\<lparr>viEstimated := max 1 (viEstimated i), viGap := Some (max 0 (orElse (viGap i) 0)), viFixed := map_option (max 1) (viFixed i)\<rparr>"

definition setItems :: "vlInput list \<Rightarrow> vlState \<Rightarrow> vlUpdate \<times> vlState" where
  "setItems inputs v =
     (let ins = map normalizeInput inputs;
          keys = map viMeasurementKey ins
      in resolveGeometryUpdate (anchorOf v) 0
           (rebuild (v\<lparr>vlInputs := ins, vlMeasurements := filter (\<lambda>(k, _). k \<in> set keys) (vlMeasurements v)\<rparr>)))"

definition unchangedGeometry :: "vlState \<Rightarrow> vlUpdate" where
  "unchangedGeometry v = \<lparr>vuAccepted = 0, vuScrollTop = vlScrollTop v, vuAdjustment = 0\<rparr>"

definition setItemFixedHeight :: "string \<Rightarrow> rat \<Rightarrow> vlState \<Rightarrow> vlUpdate option \<times> vlState" where
  "setItemFixedHeight i h v =
     (case findIndex (\<lambda>n. viId n = i) (vlInputs v) of
        None \<Rightarrow> (None, v)
      | Some n \<Rightarrow>
          if viFixed (vlInputs v ! n) = Some (max 1 h) then (Some (unchangedGeometry v), v)
          else (case setItems ((vlInputs v)[n := (vlInputs v ! n)\<lparr>viFixed := Some (max 1 h)\<rparr>]) v of (u, v') \<Rightarrow> (Some u, v')))"

definition setViewport :: "rat \<Rightarrow> rat \<Rightarrow> vlState \<Rightarrow> vlState" where
  "setViewport y height v = (let v1 = v\<lparr>vlViewport := max 1 height\<rparr> in v1\<lparr>vlScrollTop := clampScrollTop v1 y\<rparr>)"

definition takesMeasurement :: "vlState \<Rightarrow> vlMeasurement \<Rightarrow> bool" where
  "takesMeasurement v m =
     (case itemById v (vmId m) of
        None \<Rightarrow> False
      | Some t \<Rightarrow> viFixed (vtInput t) = None \<and> viMeasurementKey (vtInput t) = vmMeasurementKey m \<and> 0 < vmHeight m)"

fun acceptMeasurements :: "vlState \<Rightarrow> vlMeasurement list \<Rightarrow> (string, rat) jsmap \<Rightarrow> nat \<Rightarrow> (string, rat) jsmap \<times> nat" where
  "acceptMeasurements v [] ms n = (ms, n)"
| "acceptMeasurements v (m # rest) ms n =
     (let h = max 1 (vmHeight m)
      in if \<not> takesMeasurement v m \<or> jmGet ms (vmMeasurementKey m) = Some h then acceptMeasurements v rest ms n
         else acceptMeasurements v rest (jmSet (vmMeasurementKey m) h ms) (Suc n))"

definition measureItems :: "vlMeasurement list \<Rightarrow> vlState \<Rightarrow> vlUpdate \<times> vlState" where
  "measureItems batch v =
     (case acceptMeasurements v batch (vlMeasurements v) 0 of
        (ms, accepted) \<Rightarrow>
          if accepted = 0 then (unchangedGeometry v, v\<lparr>vlMeasurements := ms\<rparr>)
          else resolveGeometryUpdate (anchorOf v) accepted (rebuild (v\<lparr>vlMeasurements := ms\<rparr>)))"

definition navigationTop :: "vlState \<Rightarrow> string \<Rightarrow> rat option" where
  "navigationTop v i = map_option (\<lambda>t. clampScrollTop v (vtTop t)) (itemById v i)"

datatype vlOp =
    SetItems "vlInput list"
  | SetFixedHeight string rat
  | SetViewport rat rat
  | Measure "vlMeasurement list"

fun vlStep :: "vlOp \<Rightarrow> vlState \<Rightarrow> vlState" where
  "vlStep (SetItems inputs) v = snd (setItems inputs v)"
| "vlStep (SetFixedHeight i h) v = snd (setItemFixedHeight i h v)"
| "vlStep (SetViewport y height) v = setViewport y height v"
| "vlStep (Measure batch) v = snd (measureItems batch v)"

definition vlRun :: "vlOp list \<Rightarrow> vlState \<Rightarrow> vlState" where
  "vlRun ops v = fold vlStep ops v"

end
