(* ===== verification/List_Geometry_Laws.thy ===== *)
theory List_Geometry_Laws
  imports Virtual_List
begin

text \<open>
  What the geometry of a virtual list promises: the items tile the list without a gap, the window is exactly what meets
  the viewport and its margin, and what is read stays in place while heights change.
\<close>

subsection \<open>The searches\<close>

lemma halving_spec:
  assumes "low \<le> high" "high \<le> length xs" "\<And>i. i < low \<Longrightarrow> before (xs ! i)" "\<And>i. high \<le> i \<Longrightarrow> i < length xs \<Longrightarrow> \<not> before (xs ! i)"
    "sorted_wrt (\<lambda>x y. before y \<longrightarrow> before x) xs"
  shows "halving before xs low high \<le> length xs \<and> (\<forall>i<halving before xs low high. before (xs ! i)) \<and>
    (\<forall>i<length xs. halving before xs low high \<le> i \<longrightarrow> \<not> before (xs ! i))"
  using assms
proof (induction before xs low high rule: halving.induct)
  case (1 before xs low high)
  show ?case
  proof (cases "low < high")
    case False
    then have "halving before xs low high = low" by (simp add: halving.simps [of before xs low high])
    moreover have "low = high" using False 1(3) by simp
    ultimately show ?thesis using 1(4-6) by auto
  next
    case True
    define m where "m = (low + high) div 2"
    have m: "low \<le> m" "m < high" using True by (auto simp: m_def)
    show ?thesis
    proof (cases "before (xs ! m)")
      case True
      have upto: "before (xs ! i)" if "i < m + 1" for i
      proof (cases "i = m")
        case False
        with that have "i < m" by simp
        moreover have "m < length xs" using m 1(4) by simp
        ultimately show ?thesis using sorted_wrt_nth_less [OF 1(7), of i m] True by blast
      qed (use True in simp)
      have eq: "halving before xs low high = halving before xs (m + 1) high"
        using True \<open>low < high\<close> by (simp add: halving.simps [of before xs low high] m_def)
      have "m + 1 \<le> high" using m(2) by simp
      then show ?thesis unfolding eq by (rule 1(1) [OF \<open>low < high\<close> m_def True _ 1(4) upto 1(6) 1(7)])
    next
      case False
      have beyond: "\<not> before (xs ! i)" if "m \<le> i" "i < length xs" for i
      proof (cases "i = m")
        case False
        with that have "m < i" by simp
        then show ?thesis using sorted_wrt_nth_less [OF 1(7), of m i] that(2) \<open>\<not> before (xs ! m)\<close> by blast
      qed (use False in simp)
      have eq: "halving before xs low high = halving before xs low m"
        using False \<open>low < high\<close> by (simp add: halving.simps [of before xs low high] m_def)
      have "m \<le> length xs" using m(2) 1(4) by simp
      then show ?thesis unfolding eq by (rule 1(2) [OF \<open>low < high\<close> m_def False m(1) _ 1(5) beyond 1(7)])
    qed
  qed
qed

lemma halving_takeWhile:
  assumes "sorted_wrt (\<lambda>x y. before y \<longrightarrow> before x) xs"
  shows "halving before xs 0 (length xs) = length (takeWhile before xs)"
proof -
  define r where "r = halving before xs 0 (length xs)"
  have r: "r \<le> length xs" "\<And>i. i < r \<Longrightarrow> before (xs ! i)" "\<And>i. i < length xs \<Longrightarrow> r \<le> i \<Longrightarrow> \<not> before (xs ! i)"
    using halving_spec [of 0 "length xs" xs before] assms by (auto simp: r_def)
  have "takeWhile before xs = take r xs"
    by (rule takeWhile_eq_take_P_nth) (use r in auto)
  with r(1) show ?thesis by (simp add: r_def [symmetric])
qed

lemma filter_prefix:
  assumes "sorted_wrt (\<lambda>x y. P y \<longrightarrow> P x) xs"
  shows "takeWhile P xs = filter P xs" "dropWhile P xs = filter (\<lambda>x. \<not> P x) xs"
  using assms by (induction xs) (auto simp: filter_empty_conv filter_id_conv)

lemma takeWhile_of_take: "takeWhile P (take n xs) = take n (takeWhile P xs)"
  by (induction xs arbitrary: n) (auto simp: take_Cons split: nat.split)

lemma between_searches:
  assumes "sorted_wrt (\<lambda>x y. P y \<longrightarrow> P x) xs" "sorted_wrt (\<lambda>x y. Q y \<longrightarrow> Q x) xs"
    "length (takeWhile P xs) \<le> length (takeWhile Q xs)"
  shows "take (length (takeWhile Q xs) - length (takeWhile P xs)) (drop (length (takeWhile P xs)) xs) = filter (\<lambda>x. \<not> P x \<and> Q x) xs"
proof -
  let ?p = "length (takeWhile P xs)" and ?q = "length (takeWhile Q xs)"
  have ys: "take ?q xs = filter Q xs" using filter_prefix(1) [OF assms(2)] takeWhile_eq_take [of Q xs] by metis
  have "take (?q - ?p) (drop ?p xs) = drop ?p (take ?q xs)" by (simp add: drop_take)
  also have "\<dots> = dropWhile P (take ?q xs)"
    using assms(3) by (simp add: dropWhile_eq_drop takeWhile_of_take)
  also have "\<dots> = dropWhile P (filter Q xs)" by (simp add: ys)
  also have "\<dots> = filter (\<lambda>x. \<not> P x) (filter Q xs)"
    by (rule filter_prefix(2)) (rule sorted_wrt_filter [OF assms(1)])
  finally show ?thesis by (simp add: conj_commute)
qed

subsection \<open>Tiling\<close>

fun tiled :: "rat \<Rightarrow> vlItem list \<Rightarrow> rat \<Rightarrow> bool" where
  "tiled a [] bottom = (a = bottom)"
| "tiled a (t # ts) bottom = (vtTop t = a \<and> 1 \<le> vtHeight t \<and> tiled (a + vtHeight t) ts bottom)"

lemma tiled_bounds: "tiled a ts bottom \<Longrightarrow> a \<le> bottom \<and> (\<forall>t\<in>set ts. a \<le> vtTop t \<and> vtTop t + vtHeight t \<le> bottom \<and> 1 \<le> vtHeight t)"
proof (induction ts arbitrary: a)
  case (Cons t ts)
  then have IH: "a + vtHeight t \<le> bottom" "\<And>u. u \<in> set ts \<Longrightarrow> a + vtHeight t \<le> vtTop u \<and> vtTop u + vtHeight u \<le> bottom \<and> 1 \<le> vtHeight u"
    using Cons.IH [of "a + vtHeight t"] by auto
  have h: "vtTop t = a" "1 \<le> vtHeight t" using Cons.prems by auto
  show ?case
  proof (intro conjI ballI)
    fix u assume "u \<in> set (t # ts)"
    then consider "u = t" | "u \<in> set ts" by auto
    then show "a \<le> vtTop u" "vtTop u + vtHeight u \<le> bottom" "1 \<le> vtHeight u"
      using IH(1) IH(2) [of u] h by (cases, auto)+
  qed (use IH(1) h in simp)
qed simp

lemma tiled_ordered: "tiled a ts bottom \<Longrightarrow> sorted_wrt (\<lambda>x y. vtTop x + vtHeight x \<le> vtTop y) ts"
proof (induction ts arbitrary: a)
  case (Cons t ts)
  then show ?case using tiled_bounds [of "a + vtHeight t" ts bottom] by auto
qed simp

lemma tiled_searches:
  assumes "tiled y ts bottom"
  shows "sorted_wrt (\<lambda>t u. vtTop u + vtHeight u \<le> a \<longrightarrow> vtTop t + vtHeight t \<le> a) ts" "sorted_wrt (\<lambda>t u. vtTop u < a \<longrightarrow> vtTop t < a) ts"
proof -
  have h: "\<And>t. t \<in> set ts \<Longrightarrow> 1 \<le> vtHeight t" using tiled_bounds [OF assms] by blast
  show "sorted_wrt (\<lambda>t u. vtTop u + vtHeight u \<le> a \<longrightarrow> vtTop t + vtHeight t \<le> a) ts"
    by (rule sorted_wrt_mono_rel [OF _ tiled_ordered [OF assms]]) (use h in fastforce)
  show "sorted_wrt (\<lambda>t u. vtTop u < a \<longrightarrow> vtTop t < a) ts"
    by (rule sorted_wrt_mono_rel [OF _ tiled_ordered [OF assms]]) (use h in fastforce)
qed

text \<open>An offset inside the list has an item that ends after it, and the first such item is the one it lies in.\<close>

abbreviation endedBy :: "rat \<Rightarrow> vlItem \<Rightarrow> bool" where
  "endedBy a t \<equiv> vtTop t + vtHeight t \<le> a"

lemma tiled_at:
  assumes "tiled y ts bottom" "y \<le> a" "a < bottom"
  shows "length (takeWhile (endedBy a) ts) < length ts \<and>
    vtTop (ts ! length (takeWhile (endedBy a) ts)) \<le> a \<and> \<not> endedBy a (ts ! length (takeWhile (endedBy a) ts))"
  using assms
proof (induction ts arbitrary: y)
  case (Cons t ts)
  show ?case
  proof (cases "y + vtHeight t \<le> a")
    case True
    then show ?thesis using Cons.IH [of "y + vtHeight t"] Cons.prems by simp
  next
    case False
    then show ?thesis using Cons.prems by simp
  qed
qed simp

lemma ending_search: "tiled y ts bottom \<Longrightarrow> y \<le> a \<Longrightarrow> a < bottom \<Longrightarrow> firstItemEndingAfter ts a = length (takeWhile (endedBy a) ts)"
  using tiled_at [of y ts bottom a] halving_takeWhile [OF tiled_searches(1), of y ts bottom a] unfolding firstItemEndingAfter_def by fastforce

lemma starting_search: "tiled y ts bottom \<Longrightarrow> firstItemStartingAtOrAfter ts a = length (takeWhile (\<lambda>t. vtTop t < a) ts)"
  using halving_takeWhile [OF tiled_searches(2), of y ts bottom a] by (simp add: firstItemStartingAtOrAfter_def)

lemma layItems_inputs: "map vtInput (fst (layItems ms y ins)) = ins"
  by (induction "ins" arbitrary: y) (simp_all add: Let_def case_prod_beta)

lemma layItems_tiled:
  assumes "\<And>i. i \<in> set ins \<Longrightarrow> 1 \<le> slotHeight ms i"
  shows "tiled y (fst (layItems ms y ins)) (snd (layItems ms y ins))"
  using assms
proof (induction "ins" arbitrary: y)
  case (Cons i "ins")
  then show ?case using Cons.IH [of "y + slotHeight ms i"] by (simp add: Let_def case_prod_beta)
qed simp

subsection \<open>What every operation keeps\<close>

definition inputOk :: "vlInput \<Rightarrow> bool" where
  "inputOk i = (1 \<le> viEstimated i \<and> (\<exists>g. viGap i = Some g \<and> 0 \<le> g) \<and> (case viFixed i of None \<Rightarrow> True | Some h \<Rightarrow> 1 \<le> h))"

definition partsOk :: "vlState \<Rightarrow> bool" where
  "partsOk v = (1 \<le> vlViewport v \<and> list_all inputOk (vlInputs v) \<and> jmAll (\<lambda>_ h. 1 \<le> h) (vlMeasurements v))"

definition layoutOk :: "vlState \<Rightarrow> bool" where
  "layoutOk v = (layItems (vlMeasurements v) 0 (vlInputs v) = (vlItems v, vlTotal v))"

definition listOk :: "vlState \<Rightarrow> bool" where
  "listOk v = (partsOk v \<and> layoutOk v \<and> 0 \<le> vlScrollTop v \<and> vlScrollTop v \<le> max 0 (vlTotal v - vlViewport v))"

lemma slot_height:
  assumes "inputOk i" "jmAll (\<lambda>_ h. 1 \<le> h) ms"
  shows "1 \<le> slotHeight ms i"
proof -
  have "1 \<le> contentHeight ms i"
    using assms jmAll_get [OF assms(2)] by (auto simp: contentHeight_def inputOk_def orElse_def split: option.split)
  moreover have "0 \<le> orElse (viGap i) 0" using assms(1) by (auto simp: inputOk_def)
  ultimately show ?thesis by (simp add: slotHeight_def)
qed

lemma ok_tiled: "listOk v \<Longrightarrow> tiled 0 (vlItems v) (vlTotal v)"
  using layItems_tiled [of "vlInputs v" "vlMeasurements v" 0]
  by (auto simp: listOk_def partsOk_def layoutOk_def list_all_iff intro: slot_height)

lemma clamp_bounds: "0 \<le> clampScrollTop v x \<and> clampScrollTop v x \<le> max 0 (vlTotal v - vlViewport v)"
  by (auto simp: clampScrollTop_def)

lemma rebuild_parts [simp]: "partsOk (rebuild v) = partsOk v"
  by (simp add: rebuild_def partsOk_def split: prod.split)

lemma rebuild_layout [simp]: "layoutOk (rebuild v)"
  by (simp add: rebuild_def layoutOk_def split: prod.split)

lemma rebuild_fields [simp]:
  "vlScrollTop (rebuild v) = vlScrollTop v" "vlInputs (rebuild v) = vlInputs v" "vlMeasurements (rebuild v) = vlMeasurements v"
  "vlViewport (rebuild v) = vlViewport v" "vlOverscan (rebuild v) = vlOverscan v"
  by (simp_all add: rebuild_def split: prod.split)

lemma resolve_state: "\<exists>x. snd (resolveGeometryUpdate a n v) = v\<lparr>vlScrollTop := clampScrollTop v x\<rparr>"
  by (auto simp: resolveGeometryUpdate_def Let_def split: option.split)

lemma resolve_ok: "partsOk v \<Longrightarrow> layoutOk v \<Longrightarrow> listOk (snd (resolveGeometryUpdate a n v))"
  using resolve_state [of a n v] clamp_bounds [of v] by (auto simp: listOk_def partsOk_def layoutOk_def)

lemma normalized_ok [simp]: "inputOk (normalizeInput i)"
  by (auto simp: inputOk_def normalizeInput_def split: option.split)

lemma accept_ok: "jmAll (\<lambda>_ h. 1 \<le> h) ms \<Longrightarrow> jmAll (\<lambda>_ h. 1 \<le> h) (fst (acceptMeasurements v batch ms n))"
  by (induction v batch ms n rule: acceptMeasurements.induct) (auto simp: Let_def)

lemma accept_none: "snd (acceptMeasurements v batch ms n) = n \<Longrightarrow> fst (acceptMeasurements v batch ms n) = ms"
proof -
  have grow: "n \<le> snd (acceptMeasurements v batch ms n)" for v batch ms n
    by (induction v batch ms n rule: acceptMeasurements.induct) (auto simp: Let_def)
  show "snd (acceptMeasurements v batch ms n) = n \<Longrightarrow> fst (acceptMeasurements v batch ms n) = ms"
  proof (induction v batch ms n rule: acceptMeasurements.induct)
    case (2 v m rest ms n)
    show ?case
    proof (cases "\<not> takesMeasurement v m \<or> jmGet ms (vmMeasurementKey m) = Some (max 1 (vmHeight m))")
      case True
      then have "acceptMeasurements v (m # rest) ms n = acceptMeasurements v rest ms n" by (simp only: acceptMeasurements.simps Let_def if_True)
      then show ?thesis using 2(1) [OF refl True] 2(3) by simp
    next
      case False
      then have "acceptMeasurements v (m # rest) ms n =
          acceptMeasurements v rest (jmSet (vmMeasurementKey m) (max 1 (vmHeight m)) ms) (Suc n)"
        by (simp only: acceptMeasurements.simps Let_def if_False)
      then show ?thesis
        using 2(3) grow [of "Suc n" v rest "jmSet (vmMeasurementKey m) (max 1 (vmHeight m)) ms"] by simp
    qed
  qed simp
qed

lemma set_items_ok: "listOk v \<Longrightarrow> listOk (snd (setItems inputs v))"
  unfolding setItems_def Let_def
  by (rule resolve_ok) (auto simp: listOk_def partsOk_def list_all_iff jmAll_def)

lemma measure_ok:
  assumes "listOk v"
  shows "listOk (snd (measureItems batch v))"
proof -
  obtain ms n where m: "acceptMeasurements v batch (vlMeasurements v) 0 = (ms, n)" by (meson surj_pair)
  have ms: "jmAll (\<lambda>_ h. 1 \<le> h) ms" using accept_ok [of "vlMeasurements v" v batch 0] assms m by (simp add: listOk_def partsOk_def)
  show ?thesis
  proof (cases "n = 0")
    case True
    then have "ms = vlMeasurements v" using accept_none [of v batch "vlMeasurements v" 0] m by simp
    then show ?thesis using assms True m by (simp add: measureItems_def)
  next
    case False
    have "listOk (snd (resolveGeometryUpdate (anchorOf v) n (rebuild (v\<lparr>vlMeasurements := ms\<rparr>))))"
      by (rule resolve_ok) (use assms ms in \<open>auto simp: listOk_def partsOk_def\<close>)
    then show ?thesis using m False by (simp add: measureItems_def)
  qed
qed

theorem step_ok: "listOk v \<Longrightarrow> listOk (vlStep op v)"
proof (cases op)
  case (SetViewport y h)
  then show "listOk v \<Longrightarrow> listOk (vlStep op v)"
    using clamp_bounds [of "v\<lparr>vlViewport := max 1 h\<rparr>" y] by (simp add: setViewport_def Let_def listOk_def partsOk_def layoutOk_def)
next
  case (SetFixedHeight i h)
  then show "listOk v \<Longrightarrow> listOk (vlStep op v)"
    using set_items_ok [of v] by (auto simp: setItemFixedHeight_def split: option.split prod.split) (metis snd_conv)
qed (simp_all add: set_items_ok measure_ok)

lemma run_ok: "0 \<le> overscan \<Longrightarrow> listOk (vlRun ops (newVirtualList overscan))"
proof -
  have "listOk v \<Longrightarrow> listOk (fold vlStep ops v)" for v
    by (induction ops arbitrary: v) (simp_all add: step_ok)
  moreover have "listOk (newVirtualList overscan)"
    by (simp add: newVirtualList_def listOk_def partsOk_def layoutOk_def jmAll_def)
  ultimately show ?thesis by (simp add: vlRun_def)
qed

lemma run_overscan: "vlOverscan (vlRun ops v) = vlOverscan v"
proof -
  have r: "vlOverscan (snd (resolveGeometryUpdate a n w)) = vlOverscan w" for a n w
    using resolve_state [of a n w] by auto
  have items: "vlOverscan (snd (setItems inputs w)) = vlOverscan w" for inputs w by (simp add: setItems_def Let_def r)
  have "vlOverscan (vlStep op w) = vlOverscan w" for op w
  proof (cases op)
    case (SetFixedHeight i h)
    then show ?thesis using items [of _ w] by (auto simp: setItemFixedHeight_def split: option.split prod.split) (metis snd_conv)
  qed (auto simp: items setViewport_def Let_def measureItems_def r split: prod.split)
  then show ?thesis unfolding vlRun_def by (induction ops arbitrary: v) simp_all
qed

subsection \<open>The window\<close>

lemma first_ending:
  assumes "tiled y ts bottom" "y \<le> a" "a < bottom"
  shows "find (\<lambda>t. a < vtTop t + vtHeight t) ts = Some (ts ! firstItemEndingAfter ts a)"
proof -
  have "find (\<lambda>t. a < vtTop t + vtHeight t) ts = (if length (takeWhile (endedBy a) ts) < length ts
      then Some (ts ! length (takeWhile (endedBy a) ts)) else None)"
    by (induction ts) auto
  then show ?thesis using tiled_at [OF assms] ending_search [OF assms] by simp
qed

lemma ok_scroll_inside:
  assumes "listOk v" "vlItems v \<noteq> []"
  shows "vlScrollTop v < vlTotal v"
proof -
  have "0 < vlTotal v" using ok_tiled [OF assms(1)] assms(2) tiled_bounds [of _ "tl (vlItems v)" "vlTotal v"]
    by (cases "vlItems v") fastforce+
  moreover have "1 \<le> vlViewport v" using assms(1) by (simp add: listOk_def partsOk_def)
  ultimately show ?thesis using assms(1) by (auto simp: listOk_def)
qed

lemma window_of_ok:
  assumes "listOk v" "0 \<le> vlOverscan v"
  shows "windowOf v =
    \<lparr>vwItems = filter (\<lambda>t. vlScrollTop v - vlOverscan v < vtTop t + vtHeight t \<and> vtTop t < vlScrollTop v + vlViewport v + vlOverscan v) (vlItems v),
     vwActive = map_option (\<lambda>t. viId (vtInput t)) (find (\<lambda>t. vlScrollTop v < vtTop t + vtHeight t) (vlItems v)),
     vwTotal = vlTotal v\<rparr>"
proof (cases "vlItems v = []")
  case True
  then show ?thesis using ok_tiled [OF assms(1)] by (simp add: windowOf_def)
next
  case False
  define a where "a = max 0 (vlScrollTop v - vlOverscan v)"
  define b where "b = vlScrollTop v + vlViewport v + vlOverscan v"
  have t: "tiled 0 (vlItems v) (vlTotal v)" by (rule ok_tiled [OF assms(1)])
  have s: "0 \<le> vlScrollTop v" "vlScrollTop v < vlTotal v" "1 \<le> vlViewport v"
    using assms(1) ok_scroll_inside [OF assms(1) False] by (simp_all add: listOk_def partsOk_def)
  have a: "0 \<le> a" "a < vlTotal v" "a < b" using s assms(2) by (auto simp: a_def b_def)
  let ?p = "length (takeWhile (endedBy a) (vlItems v))" and ?q = "length (takeWhile (\<lambda>t. vtTop t < b) (vlItems v))"
  have p: "firstItemEndingAfter (vlItems v) a = ?p" by (rule ending_search [OF t a(1,2)])
  have q: "firstItemStartingAtOrAfter (vlItems v) b = ?q" by (rule starting_search [OF t])
  have "?p < ?q"
  proof (rule ccontr)
    assume "\<not> ?p < ?q"
    then have "?q \<le> ?p" by simp
    have at: "?p < length (vlItems v)" "vtTop (vlItems v ! ?p) < b" using tiled_at [OF t a(1,2)] a(3) by auto
    then have "?q < length (vlItems v)" using \<open>?q \<le> ?p\<close> by simp
    then have "\<not> vtTop (vlItems v ! ?q) < b" using nth_length_takeWhile by blast
    moreover have "?q = ?p \<or> vtTop (vlItems v ! ?q) < b"
      using \<open>?q \<le> ?p\<close> at sorted_wrt_nth_less [OF tiled_searches(2) [OF t, of b], of ?q ?p] by force
    ultimately show False using at by auto
  qed
  then have items: "take (max (?p + 1) ?q - ?p) (drop ?p (vlItems v)) = filter (\<lambda>t. \<not> endedBy a t \<and> vtTop t < b) (vlItems v)"
    using between_searches [OF tiled_searches(1) [OF t, of a] tiled_searches(2) [OF t, of b]] by (simp add: max_def)
  have "filter (\<lambda>t. \<not> endedBy a t \<and> vtTop t < b) (vlItems v) =
      filter (\<lambda>t. vlScrollTop v - vlOverscan v < vtTop t + vtHeight t \<and> vtTop t < b) (vlItems v)"
    by (rule filter_cong) (use tiled_bounds [OF t] in \<open>force simp: a_def\<close>)+
  with items first_ending [OF t s(1,2)] show ?thesis
    using False by (simp add: windowOf_def Let_def a_def [symmetric] b_def [symmetric] p q)
qed

text \<open>C28: What a virtual list renders is exact: after any changes of items, heights, measurements and scroll position, the window
  found by its two binary searches is every item, and only those, that meets the viewport or its margin, in order; the
  active item is the first one not yet scrolled past, and there is one whenever the list is not empty.\<close>

theorem window_exact:
  assumes "0 \<le> overscan"
  shows "let v = vlRun ops (newVirtualList overscan) in
    windowOf v =
      \<lparr>vwItems = filter (\<lambda>t. vlScrollTop v - overscan < vtTop t + vtHeight t \<and> vtTop t < vlScrollTop v + vlViewport v + overscan) (vlItems v),
       vwActive = map_option (\<lambda>t. viId (vtInput t)) (find (\<lambda>t. vlScrollTop v < vtTop t + vtHeight t) (vlItems v)),
       vwTotal = vlTotal v\<rparr> \<and>
    (vwActive (windowOf v) = None) = (vlItems v = [])"
proof -
  define v where "v = vlRun ops (newVirtualList overscan)"
  have ok: "listOk v" using run_ok [OF assms] by (simp add: v_def)
  have o: "vlOverscan v = overscan" by (simp add: v_def run_overscan) (simp add: newVirtualList_def)
  have w: "windowOf v =
      \<lparr>vwItems = filter (\<lambda>t. vlScrollTop v - overscan < vtTop t + vtHeight t \<and> vtTop t < vlScrollTop v + vlViewport v + overscan) (vlItems v),
       vwActive = map_option (\<lambda>t. viId (vtInput t)) (find (\<lambda>t. vlScrollTop v < vtTop t + vtHeight t) (vlItems v)),
       vwTotal = vlTotal v\<rparr>"
    using window_of_ok [OF ok] assms by (simp add: o)
  have "(vwActive (windowOf v) = None) = (vlItems v = [])" by (simp add: windowOf_def Let_def)
  with w show ?thesis unfolding v_def [symmetric] Let_def by blast
qed

definition demoInput :: "string \<Rightarrow> vlInput" where
  "demoInput i = \<lparr>viId = i, viEstimated = 10, viGap = None, viMeasurementKey = i, viFixed = None\<rparr>"

definition demoList :: "vlOp list" where
  "demoList = [SetItems [demoInput ''a'', demoInput ''b'', demoInput ''c''], SetViewport 12 10]"

theorem window_exact_witness:
  "map (\<lambda>t. viId (vtInput t)) (vwItems (windowOf (vlRun demoList (newVirtualList 0)))) = [''b'', ''c'']"
proof -
  have "map (\<lambda>t. viId (vtInput t)) (filter (\<lambda>t. vlScrollTop v - 0 < vtTop t + vtHeight t \<and> vtTop t < vlScrollTop v + vlViewport v + 0) (vlItems v)) =
      [''b'', ''c'']" if "v = vlRun demoList (newVirtualList 0)" for v
    unfolding that by code_simp
  then show ?thesis using window_exact [of 0 demoList] by (simp add: Let_def)
qed

subsection \<open>What is read stays in place\<close>

definition keepsPlace :: "vlState \<Rightarrow> vlUpdate \<times> vlState \<Rightarrow> bool" where
  "keepsPlace v p =
     (case p of (u, v') \<Rightarrow>
        vuScrollTop u = vlScrollTop v' \<and> vuAdjustment u = vlScrollTop v' - vlScrollTop v \<and>
        (case anchorOf v of
           None \<Rightarrow> True
         | Some a \<Rightarrow>
             (case itemById v' (vaId a) of
                None \<Rightarrow> vlScrollTop v' = clampScrollTop v' (vlScrollTop v)
              | Some t \<Rightarrow> vlScrollTop v' = clampScrollTop v' (vtTop t - vaOffset a))))"

lemma resolve_keeps_place:
  assumes "vlScrollTop w = vlScrollTop v"
  shows "keepsPlace v (resolveGeometryUpdate (anchorOf v) n w)"
  using assms
  by (auto simp: keepsPlace_def resolveGeometryUpdate_def Let_def clampScrollTop_def itemById_def split: option.split)

lemma unchanged_keeps_place:
  assumes "listOk v" "distinct (map (\<lambda>t. viId (vtInput t)) (vlItems v))"
  shows "keepsPlace v (unchangedGeometry v, v)"
proof (cases "anchorOf v")
  case (Some a)
  define t where "t = vlItems v ! firstItemEndingAfter (vlItems v) (vlScrollTop v)"
  have ne: "vlItems v \<noteq> []" and a: "vaId a = viId (vtInput t)" "vtTop t - vaOffset a = vlScrollTop v"
    using Some by (auto simp: anchorOf_def Let_def t_def split: if_splits)
  have "t \<in> set (rev (vlItems v))" using ne by (auto simp: t_def firstItemEndingAfter_def min_less_iff_disj intro!: nth_mem)
  then have "itemById v (vaId a) = Some t"
    using find_unique [of "\<lambda>t. viId (vtInput t)" "rev (vlItems v)" t] assms(2) by (simp add: itemById_def a(1) rev_map [symmetric])
  moreover have "clampScrollTop v (vlScrollTop v) = vlScrollTop v" using assms(1) by (auto simp: clampScrollTop_def listOk_def)
  ultimately show ?thesis by (simp add: keepsPlace_def unchangedGeometry_def Some a(2))
qed (simp add: keepsPlace_def unchangedGeometry_def)



end
