(* ===== verification/Diff_Store.thy ===== *)
theory Diff_Store
  imports Reins_Prelude
begin

text \<open>
  The changes a browser shows: \<^verbatim>\<open>packages/frontend/src/models/stores/diff-store.ts\<close> with \<^verbatim>\<open>helpers/loadable.ts\<close> and the order of
  files in \<^verbatim>\<open>models/changes/diff-sort.ts\<close>. A request is in flight until the event of its answer; what its caller does after
  it is kept with it. \<open>localeCompare\<close> is a parameter, and a time an input.
\<close>

subsection \<open>Loadable values\<close>

datatype loadStatus = LoadIdle | LoadLoading | LoadLoaded | LoadError

record 'a loadable =
  ldStatus :: loadStatus
  ldData :: "'a option"
  ldLoading :: bool
  ldError :: "string option"

definition idleLoad :: "'a loadable" where
  "idleLoad = \<lparr>ldStatus = LoadIdle, ldData = None, ldLoading = False, ldError = None\<rparr>"

definition asLoading :: "'a loadable \<Rightarrow> 'a loadable" where
  "asLoading l = \<lparr>ldStatus = LoadLoading, ldData = ldData l, ldLoading = True, ldError = None\<rparr>"

definition asLoaded :: "'a \<Rightarrow> 'a loadable \<Rightarrow> 'a loadable" where
  "asLoaded x l = \<lparr>ldStatus = LoadLoaded, ldData = Some x, ldLoading = False, ldError = None\<rparr>"

definition asError :: "string \<Rightarrow> 'a loadable \<Rightarrow> 'a loadable" where
  "asError m l = \<lparr>ldStatus = LoadError, ldData = ldData l, ldLoading = False, ldError = Some m\<rparr>"

subsection \<open>The order of files\<close>

record fileSummary =
  fmPath :: string
  fmCounts :: json

fun compareParts :: "(string \<Rightarrow> string \<Rightarrow> int) \<Rightarrow> string list \<Rightarrow> string list \<Rightarrow> int" where
  "compareParts locale (a # as) (b # bs) =
     (if (as = []) \<noteq> (bs = []) then (if as = [] then 1 else - 1)
      else if locale a b \<noteq> 0 then locale a b
      else compareParts locale as bs)"
| "compareParts locale as bs = int (length as) - int (length bs)"

definition compareFilePaths :: "(string \<Rightarrow> string \<Rightarrow> int) \<Rightarrow> string \<Rightarrow> string \<Rightarrow> int" where
  "compareFilePaths locale a b = compareParts locale (splitOn (CHR ''/'') a) (splitOn (CHR ''/'') b)"

text \<open>\<open>toSorted\<close> is stable.\<close>

fun insertBy :: "('a \<Rightarrow> 'a \<Rightarrow> int) \<Rightarrow> 'a \<Rightarrow> 'a list \<Rightarrow> 'a list" where
  "insertBy cmp x [] = [x]"
| "insertBy cmp x (y # ys) = (if cmp x y \<le> 0 then x # y # ys else y # insertBy cmp x ys)"

definition sortFileSummaries :: "(string \<Rightarrow> string \<Rightarrow> int) \<Rightarrow> fileSummary list \<Rightarrow> fileSummary list" where
  "sortFileSummaries locale files = foldr (insertBy (\<lambda>a b. compareFilePaths locale (fmPath a) (fmPath b))) files []"

subsection \<open>State\<close>

datatype diffMode = BranchMode | UncommittedMode

datatype refreshTrigger = ByHand | ByPoll | ByPollChanged | BySocket | ByRoute | ByMode | ByBranch | ByRebase

datatype syncAction = SyncIdle | Pushing | Rebasing

datatype syncResult = SyncOk | SyncError string

text \<open>What a request asks for.\<close>

record diffScope =
  scSession :: string
  scMode :: diffMode
  scBranch :: "string option"
  scContext :: nat

record diffFiles =
  dfFiles :: "fileSummary list"
  dfBranch :: "string option"
  dfBase :: "string option"

record patchData =
  pdPatch :: string
  pdCacheKey :: string
  pdVersion :: nat
  pdBranch :: "string option"
  pdBase :: "string option"

text \<open>Requests in flight with their generations. \<open>again\<close>: the caller fetches the patch afterwards.\<close>

datatype diffRequest =
    FilesRequest nat refreshTrigger bool diffScope bool
  | PatchRequest nat refreshTrigger diffScope bool
  | SpreadRequest nat string string bool bool
  | SyncRequest syncAction string string
  | Answered

record diffStore =
  dsFiles :: "diffFiles loadable"
  dsPatch :: "patchData loadable"
  dsContext :: nat
  dsMode :: diffMode
  dsActiveFile :: "string option"
  dsSpread :: "json option"
  dsSync :: syncAction
  dsSyncResult :: "syncResult option"
  dsFilesAt :: "string option"
  dsPayloadAt :: "string option"
  dsTrigger :: "refreshTrigger option"
  dsSummaryChanged :: "bool option"
  dsSession :: "string option"
  dsProject :: "nat option"
  dsBranch :: "string option"
  dsListeners :: "nat list"
  dsNotified :: "nat list"
  dsPollTimer :: bool
  dsSpreadTimer :: bool
  dsSpreadTicks :: nat
  dsResultTimer :: bool
  dsVersion :: nat
  dsFilesGen :: nat
  dsPatchGen :: nat
  dsSpreadGen :: nat
  dsRequests :: "diffRequest list"

definition noFiles :: diffFiles where
  "noFiles = \<lparr>dfFiles = [], dfBranch = None, dfBase = None\<rparr>"

definition newDiffStore :: diffStore where
  "newDiffStore =
     \<lparr>dsFiles = asLoaded noFiles idleLoad, dsPatch = idleLoad, dsContext = 3, dsMode = BranchMode, dsActiveFile = None, dsSpread = None,
      dsSync = SyncIdle, dsSyncResult = None, dsFilesAt = None, dsPayloadAt = None, dsTrigger = None, dsSummaryChanged = None,
      dsSession = None, dsProject = None, dsBranch = None, dsListeners = [], dsNotified = [], dsPollTimer = False, dsSpreadTimer = False,
      dsSpreadTicks = 0, dsResultTimer = False, dsVersion = 0, dsFilesGen = 0, dsPatchGen = 0, dsSpreadGen = 0, dsRequests = []\<rparr>"

definition viewedBranch :: "diffStore \<Rightarrow> string option" where
  "viewedBranch st =
     (case dsBranch st of Some b \<Rightarrow> Some b | None \<Rightarrow> Option.bind (ldData (dsFiles st)) dfBranch)"

definition notifyDiff :: "diffStore \<Rightarrow> diffStore" where
  "notifyDiff st = st\<lparr>dsNotified := dsNotified st @ dsListeners st\<rparr>"

definition scopeOf :: "diffStore \<Rightarrow> string \<Rightarrow> diffScope" where
  "scopeOf st session =
     \<lparr>scSession = session, scMode = dsMode st, scBranch = (if truthyStr (dsBranch st) then dsBranch st else None), scContext = dsContext st\<rparr>"

definition sendRequest :: "diffRequest \<Rightarrow> diffStore \<Rightarrow> diffStore" where
  "sendRequest r st = st\<lparr>dsRequests := dsRequests st @ [r]\<rparr>"

definition modeName :: "diffMode \<Rightarrow> string" where
  "modeName m = (case m of BranchMode \<Rightarrow> ''branch'' | UncommittedMode \<Rightarrow> ''uncommitted'')"

definition cacheKeyPrefix :: "diffStore \<Rightarrow> nat \<Rightarrow> string" where
  "cacheKeyPrefix st version =
     ''session-'' @ orElse (dsSession st) ''null'' @ ''-'' @ modeName (dsMode st) @ ''-'' @ showNat (dsContext st) @ ''-'' @
     orElse (dsBranch st) ''HEAD'' @ ''-v'' @ showNat version"

subsection \<open>Fetching the patch\<close>

text \<open>Without a session it is over at once; a caller that fetches it again afterwards then does.\<close>

definition fetchPatchDiff :: "refreshTrigger \<Rightarrow> bool \<Rightarrow> diffStore \<Rightarrow> diffStore" where
  "fetchPatchDiff trigger again st =
     (let gen = Suc (dsPatchGen st); st1 = st\<lparr>dsPatchGen := gen\<rparr>
      in case dsSession st of
           None \<Rightarrow>
             (let st2 = notifyDiff (st1\<lparr>dsPatch := idleLoad\<rparr>)
              in if again then notifyDiff (st2\<lparr>dsPatchGen := Suc gen, dsPatch := idleLoad\<rparr>) else st2)
         | Some session \<Rightarrow>
             sendRequest (PatchRequest gen trigger (scopeOf st session) again) (notifyDiff (st1\<lparr>dsPatch := asLoading (dsPatch st)\<rparr>)))"

definition thenPatch :: "bool \<Rightarrow> diffStore \<Rightarrow> diffStore" where
  "thenPatch again st = (if again then fetchPatchDiff ByMode False st else st)"

definition patchAnswered :: "nat \<Rightarrow> refreshTrigger \<Rightarrow> bool \<Rightarrow> string \<Rightarrow> string + string \<Rightarrow> diffStore \<Rightarrow> diffStore" where
  "patchAnswered gen trigger again now answer st =
     thenPatch again
       (if gen \<noteq> dsPatchGen st then st
        else (case answer of
                Inr patch \<Rightarrow>
                  (let version = Suc (dsVersion st)
                   in notifyDiff (st\<lparr>dsVersion := version,
                        dsPatch := asLoaded \<lparr>pdPatch = patch, pdCacheKey = cacheKeyPrefix st version, pdVersion = version, pdBranch = viewedBranch st,
                          pdBase = Option.bind (ldData (dsFiles st)) dfBase\<rparr> (dsPatch st),
                        dsPayloadAt := Some now, dsTrigger := Some trigger\<rparr>))
              | Inl m \<Rightarrow>
                  notifyDiff (st\<lparr>dsPayloadAt := Some now, dsTrigger := Some trigger, dsPatch := asError m (dsPatch st)\<rparr>)))"

definition clearPatchDiff :: "diffStore \<Rightarrow> diffStore" where
  "clearPatchDiff st = notifyDiff (st\<lparr>dsPatch := idleLoad, dsVersion := 0, dsPatchGen := Suc (dsPatchGen st)\<rparr>)"

subsection \<open>The list of files\<close>

definition refreshDiff :: "refreshTrigger \<Rightarrow> bool \<Rightarrow> bool \<Rightarrow> diffStore \<Rightarrow> diffStore" where
  "refreshDiff trigger onlyIfNeeded again st =
     (let gen = Suc (dsFilesGen st); st1 = st\<lparr>dsFilesGen := gen\<rparr>
      in case dsSession st of
           None \<Rightarrow> thenPatch again (notifyDiff (st1\<lparr>dsFiles := asLoaded noFiles (dsFiles st)\<rparr>))
         | Some session \<Rightarrow>
             sendRequest (FilesRequest gen trigger onlyIfNeeded (scopeOf st session) again) (notifyDiff (st1\<lparr>dsFiles := asLoading (dsFiles st)\<rparr>)))"

definition filesAnswered :: "(string \<Rightarrow> string \<Rightarrow> int) \<Rightarrow> nat \<Rightarrow> refreshTrigger \<Rightarrow> bool \<Rightarrow> bool \<Rightarrow> string \<Rightarrow> string + diffFiles \<Rightarrow> diffStore \<Rightarrow> diffStore" where
  "filesAnswered locale gen trigger onlyIfNeeded again now answer st =
     (if gen \<noteq> dsFilesGen st then thenPatch again st
      else (case answer of
              Inl m \<Rightarrow>
                thenPatch again (notifyDiff (st\<lparr>dsFilesAt := Some now, dsTrigger := Some trigger, dsSummaryChanged := None, dsFiles := asError m (dsFiles st)\<rparr>))
            | Inr d \<Rightarrow>
                (let files = sortFileSummaries locale (dfFiles d);
                     changed = (files \<noteq> (case ldData (dsFiles st) of None \<Rightarrow> [] | Some old \<Rightarrow> dfFiles old));
                     st1 = notifyDiff (st\<lparr>dsFilesAt := Some now, dsTrigger := Some trigger, dsSummaryChanged := Some changed,
                             dsFiles := asLoaded (d\<lparr>dfFiles := files\<rparr>) (dsFiles st)\<rparr>);
                     payload = (if trigger = ByPoll \<and> changed then ByPollChanged else trigger)
                 in if (changed \<or> \<not> onlyIfNeeded) \<and> ldData (dsPatch st1) \<noteq> None then fetchPatchDiff payload again st1
                    else thenPatch again st1)))"

subsection \<open>Sync status\<close>

definition fetchSpread :: "bool \<Rightarrow> bool \<Rightarrow> diffStore \<Rightarrow> diffStore" where
  "fetchSpread remote rebased st =
     (let gen = Suc (dsSpreadGen st); st1 = st\<lparr>dsSpreadGen := gen\<rparr>
      in case (dsSession st, viewedBranch st) of
           (Some session, Some branch) \<Rightarrow>
             if branch = [] then (if rebased \<and> ldData (dsPatch st1) \<noteq> None then fetchPatchDiff ByRebase False st1 else st1)
             else sendRequest (SpreadRequest gen session branch remote rebased) st1
         | _ \<Rightarrow> (if rebased \<and> ldData (dsPatch st1) \<noteq> None then fetchPatchDiff ByRebase False st1 else st1))"

definition spreadAnswered :: "nat \<Rightarrow> bool \<Rightarrow> json option \<Rightarrow> diffStore \<Rightarrow> diffStore" where
  "spreadAnswered gen rebased answer st =
     (let st1 = (case answer of
                   None \<Rightarrow> st
                 | Some spread \<Rightarrow> if gen \<noteq> dsSpreadGen st then st else notifyDiff (st\<lparr>dsSpread := Some spread\<rparr>))
      in if rebased \<and> ldData (dsPatch st1) \<noteq> None then fetchPatchDiff ByRebase False st1 else st1)"

text \<open>Pushing or rebasing the viewed branch.\<close>

definition startSync :: "syncAction \<Rightarrow> diffStore \<Rightarrow> diffStore" where
  "startSync action st =
     (case (dsSession st, viewedBranch st) of
        (Some session, Some branch) \<Rightarrow>
          if branch = [] \<or> dsSync st \<noteq> SyncIdle then st
          else sendRequest (SyncRequest action session branch) (notifyDiff (st\<lparr>dsSync := action, dsSyncResult := None\<rparr>))
      | _ \<Rightarrow> st)"

definition syncAnswered :: "syncAction \<Rightarrow> string option \<Rightarrow> diffStore \<Rightarrow> diffStore" where
  "syncAnswered action err st =
     (let st1 = st\<lparr>dsSyncResult := Some (case err of None \<Rightarrow> SyncOk | Some m \<Rightarrow> SyncError m)\<rparr>;
          st2 = (notifyDiff (st1\<lparr>dsSync := SyncIdle\<rparr>))\<lparr>dsResultTimer := True\<rparr>
      in fetchSpread False (action = Rebasing) st2)"

definition resultTimerFires :: "diffStore \<Rightarrow> diffStore" where
  "resultTimerFires st = (if dsResultTimer st then notifyDiff (st\<lparr>dsResultTimer := False, dsSyncResult := None\<rparr>) else st)"

subsection \<open>Polling\<close>

definition restartPolling :: "diffStore \<Rightarrow> diffStore" where
  "restartPolling st =
     (let st1 = st\<lparr>dsPollTimer := False\<rparr>
      in if dsSession st1 = None then st1 else (refreshDiff ByPoll True False st1)\<lparr>dsPollTimer := True\<rparr>)"

definition restartSpreadPolling :: "diffStore \<Rightarrow> diffStore" where
  "restartSpreadPolling st =
     (let st1 = st\<lparr>dsSpreadTimer := False\<rparr>
      in if dsSession st1 = None then st1 else (fetchSpread False False (st1\<lparr>dsSpreadTicks := 0\<rparr>))\<lparr>dsSpreadTimer := True\<rparr>)"

definition spreadTick :: "diffStore \<Rightarrow> diffStore" where
  "spreadTick st =
     (if dsSpreadTimer st
      then fetchSpread (dsSpreadTicks st mod 6 = 0) False (st\<lparr>dsSpreadTicks := Suc (dsSpreadTicks st)\<rparr>)
      else st)"

definition pollTick :: "diffStore \<Rightarrow> diffStore" where
  "pollTick st = (if dsPollTimer st then refreshDiff ByPoll True False st else st)"

subsection \<open>What is viewed\<close>

definition setScope :: "string option \<Rightarrow> string option \<Rightarrow> nat option \<Rightarrow> diffStore \<Rightarrow> diffStore" where
  "setScope session branch project st =
     (let sessionChanged = (session \<noteq> dsSession st);
          branchChanged = (branch \<noteq> dsBranch st);
          st1 = st\<lparr>dsProject := project\<rparr>;
          st2 = (if sessionChanged
                 then st1\<lparr>dsSession := session, dsFiles := asLoaded noFiles (dsFiles st1), dsFilesAt := None, dsPayloadAt := None, dsTrigger := None,
                        dsSummaryChanged := None, dsSync := SyncIdle, dsSyncResult := None, dsContext := 3, dsActiveFile := None\<rparr>
                 else st1);
          st3 = (if sessionChanged \<or> branchChanged
                 then notifyDiff (st2\<lparr>dsBranch := branch, dsPatch := idleLoad, dsVersion := 0, dsFilesGen := Suc (dsFilesGen st2),
                        dsPatchGen := Suc (dsPatchGen st2), dsSpreadGen := Suc (dsSpreadGen st2), dsSpread := None\<rparr>)
                 else st2);
          st4 = (if sessionChanged then restartPolling st3
                 else refreshDiff (if branchChanged then ByBranch else ByRoute) (\<not> branchChanged) False st3)
      in if sessionChanged \<or> branchChanged then restartSpreadPolling st4 else st4)"

definition setBranch :: "string option \<Rightarrow> diffStore \<Rightarrow> diffStore" where
  "setBranch branch st = (if branch = dsBranch st then st else setScope (dsSession st) branch (dsProject st) st)"

definition setActiveFile :: "string option \<Rightarrow> diffStore \<Rightarrow> diffStore" where
  "setActiveFile path st = (if path = dsActiveFile st then st else notifyDiff (st\<lparr>dsActiveFile := path\<rparr>))"

definition setDiffMode :: "diffMode \<Rightarrow> diffStore \<Rightarrow> diffStore" where
  "setDiffMode mode st =
     (if mode = dsMode st then st
      else refreshDiff ByMode False (ldData (dsPatch st) \<noteq> None)
             (notifyDiff (st\<lparr>dsMode := mode, dsPatch := idleLoad, dsVersion := 0, dsPatchGen := Suc (dsPatchGen st)\<rparr>)))"

definition disposeDiff :: "diffStore \<Rightarrow> diffStore" where
  "disposeDiff st =
     st\<lparr>dsPollTimer := False, dsSpreadTimer := False, dsFilesGen := Suc (dsFilesGen st), dsPatchGen := Suc (dsPatchGen st),
        dsSpreadGen := Suc (dsSpreadGen st), dsResultTimer := False, dsListeners := []\<rparr>"

subsection \<open>Events\<close>

text \<open>An answer names the request it is of; \<open>serve\<close> and \<open>list\<close> are what the server answers for a scope at a moment.\<close>

datatype diffEvent =
    SetScope "string option" "string option" "nat option"
  | SetBranch "string option"
  | SetActiveFile "string option"
  | SetMode diffMode
  | Refresh refreshTrigger bool
  | FetchPatch refreshTrigger
  | ClearPatch
  | StartSync syncAction
  | PollFires
  | SpreadFires
  | ResultFires
  | Answers nat string nat
  | Fails nat string string
  | Subscribes nat
  | Unsubscribes nat
  | Disposes

definition settleRequest :: "nat \<Rightarrow> diffStore \<Rightarrow> diffStore" where
  "settleRequest i st = st\<lparr>dsRequests := (dsRequests st)[i := Answered]\<rparr>"

record diffServer =
  svPatch :: "diffScope \<Rightarrow> nat \<Rightarrow> string"
  svFiles :: "diffScope \<Rightarrow> nat \<Rightarrow> diffFiles"
  svSpread :: "string \<Rightarrow> string \<Rightarrow> nat \<Rightarrow> json"

fun requestAnswered :: "(string \<Rightarrow> string \<Rightarrow> int) \<Rightarrow> diffServer \<Rightarrow> diffRequest \<Rightarrow> string \<Rightarrow> string + nat \<Rightarrow> diffStore \<Rightarrow> diffStore" where
  "requestAnswered locale sv (FilesRequest gen trigger onlyIfNeeded scope again) now r st =
     filesAnswered locale gen trigger onlyIfNeeded again now (case r of Inl m \<Rightarrow> Inl m | Inr n \<Rightarrow> Inr (svFiles sv scope n)) st"
| "requestAnswered locale sv (PatchRequest gen trigger scope again) now r st =
     patchAnswered gen trigger again now (case r of Inl m \<Rightarrow> Inl m | Inr n \<Rightarrow> Inr (svPatch sv scope n)) st"
| "requestAnswered locale sv (SpreadRequest gen session branch remote rebased) now r st =
     spreadAnswered gen rebased (case r of Inl m \<Rightarrow> None | Inr n \<Rightarrow> Some (svSpread sv session branch n)) st"
| "requestAnswered locale sv (SyncRequest action session branch) now r st =
     syncAnswered action (case r of Inl m \<Rightarrow> Some m | Inr n \<Rightarrow> None) st"
| "requestAnswered locale sv Answered now r st = st"

definition answerTo :: "(string \<Rightarrow> string \<Rightarrow> int) \<Rightarrow> diffServer \<Rightarrow> nat \<Rightarrow> string \<Rightarrow> string + nat \<Rightarrow> diffStore \<Rightarrow> diffStore" where
  "answerTo locale sv i now r st =
     (if i < length (dsRequests st) then requestAnswered locale sv (dsRequests st ! i) now r (settleRequest i st) else st)"

fun diffStep :: "(string \<Rightarrow> string \<Rightarrow> int) \<Rightarrow> diffServer \<Rightarrow> diffEvent \<Rightarrow> diffStore \<Rightarrow> diffStore" where
  "diffStep locale sv (SetScope session branch project) st = setScope session branch project st"
| "diffStep locale sv (SetBranch branch) st = setBranch branch st"
| "diffStep locale sv (SetActiveFile path) st = setActiveFile path st"
| "diffStep locale sv (SetMode mode) st = setDiffMode mode st"
| "diffStep locale sv (Refresh trigger onlyIfNeeded) st = refreshDiff trigger onlyIfNeeded False st"
| "diffStep locale sv (FetchPatch trigger) st = fetchPatchDiff trigger False st"
| "diffStep locale sv ClearPatch st = clearPatchDiff st"
| "diffStep locale sv (StartSync action) st = (if action = SyncIdle then st else startSync action st)"
| "diffStep locale sv PollFires st = pollTick st"
| "diffStep locale sv SpreadFires st = spreadTick st"
| "diffStep locale sv ResultFires st = resultTimerFires st"
| "diffStep locale sv (Answers i now n) st = answerTo locale sv i now (Inr n) st"
| "diffStep locale sv (Fails i now m) st = answerTo locale sv i now (Inl m) st"
| "diffStep locale sv (Subscribes l) st = st\<lparr>dsListeners := (if l \<in> set (dsListeners st) then dsListeners st else dsListeners st @ [l])\<rparr>"
| "diffStep locale sv (Unsubscribes l) st = st\<lparr>dsListeners := filter (\<lambda>x. x \<noteq> l) (dsListeners st)\<rparr>"
| "diffStep locale sv Disposes st = disposeDiff st"

definition diffRun :: "(string \<Rightarrow> string \<Rightarrow> int) \<Rightarrow> diffServer \<Rightarrow> diffEvent list \<Rightarrow> diffStore" where
  "diffRun locale sv evs = fold (diffStep locale sv) evs newDiffStore"

end
