(* ===== verification/Diff_Store_Laws.thy ===== *)
theory Diff_Store_Laws
  imports Diff_Store
begin

text \<open>
  What the changes store shows belongs to what is viewed: answers come in any order and late, and sessions, branches and modes
  change meanwhile. Where the code does not keep to this, it is shown too: the result of a push reaches the session viewed
  when it ends, and two patches get one cache key.
\<close>

subsection \<open>The invariant\<close>

definition scopeNow :: "diffStore \<Rightarrow> diffScope option" where
  "scopeNow st = map_option (scopeOf st) (dsSession st)"

definition patchShown :: "diffServer \<Rightarrow> diffStore \<Rightarrow> bool" where
  "patchShown sv st =
     (case ldData (dsPatch st) of None \<Rightarrow> True | Some p \<Rightarrow> (\<exists>n sc. scopeNow st = Some sc \<and> pdPatch p = svPatch sv sc n))"

definition filesShown :: "(string \<Rightarrow> string \<Rightarrow> int) \<Rightarrow> diffServer \<Rightarrow> diffStore \<Rightarrow> bool" where
  "filesShown locale sv st =
     (if ldStatus (dsFiles st) \<noteq> LoadLoaded \<or> ldData (dsFiles st) = Some noFiles then True
      else (\<exists>n sc. scopeNow st = Some sc \<and> map_option dfFiles (ldData (dsFiles st)) = Some (sortFileSummaries locale (dfFiles (svFiles sv sc n)))))"

fun requestOk :: "diffScope option \<Rightarrow> nat \<Rightarrow> nat \<Rightarrow> diffRequest \<Rightarrow> bool" where
  "requestOk now pg fg (PatchRequest g trigger sc again) = (g \<le> pg \<and> (g = pg \<longrightarrow> now = Some sc))"
| "requestOk now pg fg (FilesRequest g trigger only sc again) = (g \<le> fg \<and> (g = fg \<longrightarrow> now = Some sc))"
| "requestOk now pg fg r = True"

definition requestsOk :: "diffStore \<Rightarrow> bool" where
  "requestsOk st = list_all (requestOk (scopeNow st) (dsPatchGen st) (dsFilesGen st)) (dsRequests st)"

definition diffOk :: "diffServer \<Rightarrow> diffStore \<Rightarrow> bool" where
  "diffOk sv st = (patchShown sv st \<and> requestsOk st)"

text \<open>What an operation that changes neither what is viewed nor what is shown keeps.\<close>

lemma scope_cong: "dsSession st' = dsSession st \<Longrightarrow> dsMode st' = dsMode st \<Longrightarrow> dsBranch st' = dsBranch st \<Longrightarrow> dsContext st' = dsContext st \<Longrightarrow> scopeNow st' = scopeNow st"
  by (simp add: scopeNow_def scopeOf_def [abs_def])

lemma request_later: "requestOk now pg fg r \<Longrightarrow> pg \<le> pg' \<Longrightarrow> fg \<le> fg' \<Longrightarrow> requestOk now pg' fg' r"
  by (cases r) auto

lemma request_after: "requestOk now pg fg r \<Longrightarrow> pg < pg' \<Longrightarrow> fg < fg' \<Longrightarrow> requestOk now' pg' fg' r"
  by (cases r) auto

lemma requests_later: "list_all (requestOk now pg fg) rs \<Longrightarrow> pg \<le> pg' \<Longrightarrow> fg \<le> fg' \<Longrightarrow> list_all (requestOk now pg' fg') rs"
  using request_later by (auto simp: list_all_iff)

lemma requests_after: "list_all (requestOk now pg fg) rs \<Longrightarrow> pg < pg' \<Longrightarrow> fg < fg' \<Longrightarrow> list_all (requestOk now' pg' fg') rs"
  using request_after by (auto simp: list_all_iff)

lemma diffOkI:
  assumes "diffOk sv st" "scopeNow st' = scopeNow st" "ldData (dsPatch st') = ldData (dsPatch st) \<or> ldData (dsPatch st') = None"
    "dsPatchGen st \<le> dsPatchGen st'" "dsFilesGen st \<le> dsFilesGen st'"
    "\<And>r. r \<in> set (dsRequests st') \<Longrightarrow> r \<in> set (dsRequests st) \<or> requestOk (scopeNow st) (dsPatchGen st') (dsFilesGen st') r"
  shows "diffOk sv st'"
proof -
  have "patchShown sv st'" using assms(1-3) by (auto simp: diffOk_def patchShown_def split: option.splits)
  moreover have "requestsOk st'" using assms request_later by (fastforce simp: diffOk_def requestsOk_def list_all_iff)
  ultimately show ?thesis by (simp add: diffOk_def)
qed

lemma shown_cong: "dsFiles st' = dsFiles st \<Longrightarrow> scopeNow st' = scopeNow st \<Longrightarrow> filesShown locale sv st' = filesShown locale sv st"
  by (simp add: filesShown_def)

lemma patch_idle [simp]: "ldData idleLoad = None" "ldData (asLoading l) = ldData l" "ldData (asError m l) = ldData l" "ldData (asLoaded x l) = Some x"
  "ldStatus (asLoaded x l) = LoadLoaded" "ldStatus (asLoading l) = LoadLoading" "ldStatus (asError m l) = LoadError"
  by (simp_all add: idleLoad_def asLoading_def asError_def asLoaded_def)

subsection \<open>Operations\<close>

lemma fetch_scope [simp]: "scopeNow (fetchPatchDiff t again st) = scopeNow st" "dsFiles (fetchPatchDiff t again st) = dsFiles st"
  by (auto simp: fetchPatchDiff_def Let_def notifyDiff_def sendRequest_def split: option.split intro!: scope_cong)

lemma scope_some: "dsSession st = Some s \<Longrightarrow> scopeNow st = Some (scopeOf st s)"
  by (simp add: scopeNow_def)

lemma fetch_ok: "diffOk sv st \<Longrightarrow> diffOk sv (fetchPatchDiff t again st)"
proof (rule diffOkI, assumption)
qed (auto simp: fetchPatchDiff_def Let_def notifyDiff_def sendRequest_def scopeNow_def scopeOf_def [abs_def] split: option.splits if_splits)

lemma then_ok: "diffOk sv st \<Longrightarrow> diffOk sv (thenPatch again st)"
  by (simp add: thenPatch_def fetch_ok)

lemma then_same [simp]: "scopeNow (thenPatch again st) = scopeNow st" "dsFiles (thenPatch again st) = dsFiles st"
  by (simp_all add: thenPatch_def)

lemma refresh_scope [simp]: "scopeNow (refreshDiff t only again st) = scopeNow st"
  by (auto simp: refreshDiff_def Let_def notifyDiff_def sendRequest_def split: option.split intro!: scope_cong)

lemma refresh_raised:
  assumes "diffOk sv (st\<lparr>dsFilesGen := Suc (dsFilesGen st)\<rparr>)"
  shows "diffOk sv (refreshDiff t only again st)"
proof (cases "dsSession st")
  case None
  have "diffOk sv (notifyDiff (st\<lparr>dsFilesGen := Suc (dsFilesGen st), dsFiles := asLoaded noFiles (dsFiles st)\<rparr>))"
    by (rule diffOkI [OF assms]) (auto simp: notifyDiff_def intro!: scope_cong)
  then show ?thesis using None by (simp add: refreshDiff_def then_ok)
next
  case (Some s)
  show ?thesis
    by (rule diffOkI [OF assms]) (auto simp: refreshDiff_def Some notifyDiff_def sendRequest_def scopeNow_def scopeOf_def [abs_def])
qed

lemma refresh_ok: "diffOk sv st \<Longrightarrow> diffOk sv (refreshDiff t only again st)"
  by (rule refresh_raised) (erule diffOkI; auto intro!: scope_cong)

lemma refresh_shown: "filesShown locale sv (refreshDiff t only again st)"
  by (auto simp: filesShown_def refreshDiff_def Let_def notifyDiff_def sendRequest_def split: option.split)

lemma spread_ok: "diffOk sv st \<Longrightarrow> diffOk sv (fetchSpread remote rebased st)"
proof -
  assume a: "diffOk sv st"
  have b: "diffOk sv (st\<lparr>dsSpreadGen := Suc (dsSpreadGen st)\<rparr>)" by (rule diffOkI [OF a]) (auto intro!: scope_cong)
  have "diffOk sv (sendRequest (SpreadRequest g s br rm rb) (st\<lparr>dsSpreadGen := Suc (dsSpreadGen st)\<rparr>))" for g s br rm rb
    by (rule diffOkI [OF b]) (auto simp: sendRequest_def intro!: scope_cong)
  then show ?thesis using b fetch_ok by (auto simp: fetchSpread_def Let_def split: option.split)
qed

lemma spread_same [simp]: "scopeNow (fetchSpread remote rebased st) = scopeNow st" "dsFiles (fetchSpread remote rebased st) = dsFiles st"
  by (auto simp: fetchSpread_def Let_def sendRequest_def split: option.split intro!: scope_cong)

definition diffInv :: "(string \<Rightarrow> string \<Rightarrow> int) \<Rightarrow> diffServer \<Rightarrow> diffStore \<Rightarrow> bool" where
  "diffInv locale sv st = (diffOk sv st \<and> filesShown locale sv st)"

lemma inv_refresh: "diffInv locale sv st \<Longrightarrow> diffInv locale sv (refreshDiff t only again st)"
  by (simp add: diffInv_def refresh_ok refresh_shown)

lemma inv_fetch: "diffInv locale sv st \<Longrightarrow> diffInv locale sv (fetchPatchDiff t again st)"
  using shown_cong [of "fetchPatchDiff t again st" st] by (simp add: diffInv_def fetch_ok)

lemma inv_then: "diffInv locale sv st \<Longrightarrow> diffInv locale sv (thenPatch again st)"
  by (simp add: thenPatch_def inv_fetch)

lemma inv_spread: "diffInv locale sv st \<Longrightarrow> diffInv locale sv (fetchSpread remote rebased st)"
  using shown_cong [of "fetchSpread remote rebased st" st] by (simp add: diffInv_def spread_ok)

text \<open>Steps that touch none of what the invariant is about.\<close>

lemma inv_same:
  assumes "diffInv locale sv st" "dsSession st' = dsSession st" "dsMode st' = dsMode st" "dsBranch st' = dsBranch st" "dsContext st' = dsContext st"
    "dsPatch st' = dsPatch st" "dsFiles st' = dsFiles st" "dsPatchGen st \<le> dsPatchGen st'" "dsFilesGen st \<le> dsFilesGen st'"
    "\<And>r. r \<in> set (dsRequests st') \<Longrightarrow> r \<in> set (dsRequests st) \<or> r = Answered \<or> (\<exists>a s b. r = SyncRequest a s b)"
  shows "diffInv locale sv st'"
proof -
  have s: "scopeNow st' = scopeNow st" using assms by (intro scope_cong)
  have "diffOk sv st'"
  proof (rule diffOkI [of sv st])
    show "r \<in> set (dsRequests st) \<or> requestOk (scopeNow st) (dsPatchGen st') (dsFilesGen st') r" if "r \<in> set (dsRequests st')" for r
      using assms(10) [OF that] by auto
  qed (use assms s in \<open>simp_all add: diffInv_def\<close>)
  then show ?thesis using assms s shown_cong [of st' st] by (simp add: diffInv_def)
qed

lemma inv_settle: "diffInv locale sv st \<Longrightarrow> diffInv locale sv (settleRequest i st)"
  by (rule inv_same) (auto simp: settleRequest_def dest: set_update_subset_insert [THEN subsetD])

lemma inv_patchAnswered:
  assumes "diffInv locale sv st" "requestOk (scopeNow st) (dsPatchGen st) (dsFilesGen st) (PatchRequest g t sc again)"
    "case answer of Inl _ \<Rightarrow> True | Inr p \<Rightarrow> \<exists>n. p = svPatch sv sc n"
  shows "diffInv locale sv (patchAnswered g t again now answer st)"
proof (cases "g = dsPatchGen st")
  case True
  then have sc: "scopeNow st = Some sc" using assms(2) by simp
  show ?thesis
  proof (cases answer)
    case (Inl m)
    have "diffOk sv (notifyDiff (st\<lparr>dsPayloadAt := Some now, dsTrigger := Some t, dsPatch := asError m (dsPatch st)\<rparr>))" (is "diffOk sv ?st")
      using assms(1) by - (rule diffOkI [of sv st]; auto simp: diffInv_def notifyDiff_def intro!: scope_cong)
    moreover have "filesShown locale sv ?st = filesShown locale sv st" by (intro shown_cong scope_cong) (simp_all add: notifyDiff_def)
    ultimately show ?thesis using True Inl assms(1) inv_then by (simp add: patchAnswered_def diffInv_def)
  next
    case (Inr p)
    then obtain n where n: "p = svPatch sv sc n" using assms(3) by auto
    let ?st = "notifyDiff (st\<lparr>dsVersion := Suc (dsVersion st),
                        dsPatch := asLoaded \<lparr>pdPatch = p, pdCacheKey = cacheKeyPrefix st (Suc (dsVersion st)), pdVersion = Suc (dsVersion st), pdBranch = viewedBranch st,
                          pdBase = Option.bind (ldData (dsFiles st)) dfBase\<rparr> (dsPatch st),
                        dsPayloadAt := Some now, dsTrigger := Some t\<rparr>)"
    have s: "scopeNow ?st = scopeNow st" by (rule scope_cong) (simp_all add: notifyDiff_def)
    then have "patchShown sv ?st" using n sc by (auto simp: patchShown_def notifyDiff_def)
    moreover have "requestsOk ?st" using assms(1) s by (simp add: requestsOk_def diffInv_def diffOk_def notifyDiff_def)
    moreover have "filesShown locale sv ?st = filesShown locale sv st" by (intro shown_cong s) (simp add: notifyDiff_def)
    ultimately have "diffInv locale sv ?st" using assms(1) by (simp add: diffInv_def diffOk_def)
    then show ?thesis using True Inr inv_then by (simp add: patchAnswered_def Let_def)
  qed
qed (use assms(1) inv_then in \<open>simp add: patchAnswered_def\<close>)

lemma inv_filesAnswered:
  assumes "diffInv locale sv st" "requestOk (scopeNow st) (dsPatchGen st) (dsFilesGen st) (FilesRequest g t only sc again)"
    "case answer of Inl _ \<Rightarrow> True | Inr d \<Rightarrow> \<exists>n. d = svFiles sv sc n"
  shows "diffInv locale sv (filesAnswered locale g t only again now answer st)"
proof (cases "g = dsFilesGen st")
  case True
  then have sc: "scopeNow st = Some sc" using assms(2) by simp
  show ?thesis
  proof (cases answer)
    case (Inl m)
    have "diffOk sv (notifyDiff (st\<lparr>dsFilesAt := Some now, dsTrigger := Some t, dsSummaryChanged := None, dsFiles := asError m (dsFiles st)\<rparr>))" (is "diffOk sv ?st")
      using assms(1) by - (rule diffOkI [of sv st]; auto simp: diffInv_def notifyDiff_def intro!: scope_cong)
    moreover have "filesShown locale sv ?st" by (simp add: filesShown_def notifyDiff_def)
    ultimately show ?thesis using True Inl inv_then by (simp add: filesAnswered_def diffInv_def)
  next
    case (Inr d)
    then obtain n where n: "d = svFiles sv sc n" using assms(3) by auto
    define st1 where "st1 changed = notifyDiff (st\<lparr>dsFilesAt := Some now, dsTrigger := Some t, dsSummaryChanged := Some changed,
        dsFiles := asLoaded (d\<lparr>dfFiles := sortFileSummaries locale (dfFiles d)\<rparr>) (dsFiles st)\<rparr>)" for changed
    have s: "scopeNow (st1 c) = scopeNow st" for c by (rule scope_cong) (simp_all add: st1_def notifyDiff_def)
    have "diffOk sv (st1 c)" for c
      using assms(1) by - (rule diffOkI [of sv st]; auto simp: diffInv_def st1_def notifyDiff_def intro!: scope_cong)
    moreover have "filesShown locale sv (st1 c)" for c
      using n sc s [of c] by (auto simp: filesShown_def st1_def notifyDiff_def)
    ultimately have "diffInv locale sv (st1 c)" for c by (simp add: diffInv_def)
    then show ?thesis using True Inr
      by (simp add: filesAnswered_def Let_def st1_def [symmetric] inv_fetch inv_then)
  qed
qed (use assms(1) inv_then in \<open>simp add: filesAnswered_def\<close>)

lemma inv_clear: "diffInv locale sv st \<Longrightarrow> diffInv locale sv (clearPatchDiff st)"
proof -
  assume a: "diffInv locale sv st"
  have "diffOk sv (clearPatchDiff st)"
    using a by - (rule diffOkI [of sv st]; auto simp: diffInv_def clearPatchDiff_def notifyDiff_def intro!: scope_cong)
  moreover have "filesShown locale sv (clearPatchDiff st) = filesShown locale sv st"
    by (intro shown_cong scope_cong) (simp_all add: clearPatchDiff_def notifyDiff_def)
  ultimately show ?thesis using a by (simp add: diffInv_def)
qed

text \<open>After the generations are raised and the patch is gone, anything may be viewed.\<close>

lemma ok_after:
  assumes "diffOk sv st" "dsPatchGen st < dsPatchGen st'" "dsFilesGen st < dsFilesGen st'" "ldData (dsPatch st') = None" "dsRequests st' = dsRequests st"
  shows "diffOk sv st'"
  using assms by (auto simp: diffOk_def patchShown_def requestsOk_def intro: requests_after)

lemma spread_polling: "diffInv locale sv st \<Longrightarrow> diffInv locale sv (restartSpreadPolling st)"
proof -
  assume a: "diffInv locale sv st"
  have b: "diffInv locale sv (st\<lparr>dsSpreadTimer := False\<rparr>)" "diffInv locale sv (st\<lparr>dsSpreadTimer := False, dsSpreadTicks := 0\<rparr>)"
    by (rule inv_same [OF a]; simp)+
  have "diffInv locale sv ((fetchSpread False False (st\<lparr>dsSpreadTimer := False, dsSpreadTicks := 0\<rparr>))\<lparr>dsSpreadTimer := True\<rparr>)"
    by (rule inv_same [OF inv_spread [where remote = False and rebased = False, OF b(2)]]) simp_all
  then show ?thesis using b by (simp add: restartSpreadPolling_def Let_def)
qed

lemma polling:
  assumes "diffOk sv st" "dsSession st = None \<Longrightarrow> filesShown locale sv st"
  shows "diffInv locale sv (restartPolling st)"
proof -
  have b: "diffOk sv (st\<lparr>dsPollTimer := False\<rparr>)" by (rule diffOkI [OF assms(1)]) (auto intro!: scope_cong)
  then have "diffInv locale sv (refreshDiff ByPoll True False (st\<lparr>dsPollTimer := False\<rparr>))" by (simp add: diffInv_def refresh_ok refresh_shown)
  then have "diffInv locale sv ((refreshDiff ByPoll True False (st\<lparr>dsPollTimer := False\<rparr>))\<lparr>dsPollTimer := True\<rparr>)"
    by (rule inv_same) simp_all
  moreover have "filesShown locale sv (st\<lparr>dsPollTimer := False\<rparr>) = filesShown locale sv st" by (intro shown_cong scope_cong) simp_all
  ultimately show ?thesis using b assms(2) by (simp add: restartPolling_def Let_def diffInv_def)
qed

lemma inv_setScope:
  assumes "diffInv locale sv st"
  shows "diffInv locale sv (setScope session branch project st)"
proof -
  define st1 where "st1 = st\<lparr>dsProject := project\<rparr>"
  have i: "diffInv locale sv st1" by (rule inv_same [OF assms]) (simp_all add: st1_def)
  define st2 where "st2 = st1\<lparr>dsSession := session, dsFiles := asLoaded noFiles (dsFiles st1), dsFilesAt := None, dsPayloadAt := None, dsTrigger := None,
      dsSummaryChanged := None, dsSync := SyncIdle, dsSyncResult := None, dsContext := 3, dsActiveFile := None\<rparr>"
  define viewed where "viewed s = notifyDiff (s\<lparr>dsBranch := branch, dsPatch := idleLoad, dsVersion := 0, dsFilesGen := Suc (dsFilesGen s),
      dsPatchGen := Suc (dsPatchGen s), dsSpreadGen := Suc (dsSpreadGen s), dsSpread := None\<rparr>)" for s
  have v: "diffOk sv (viewed s)" if "dsPatchGen s = dsPatchGen st1" "dsFilesGen s = dsFilesGen st1" "dsRequests s = dsRequests st1" for s
    using i that by - (rule ok_after [of sv st1]; simp add: diffInv_def viewed_def notifyDiff_def)
  show ?thesis
  proof (cases "session = dsSession st")
    case True
    have "diffInv locale sv (refreshDiff t only False (viewed st1))" for t only
      using v [of st1] by (simp add: diffInv_def refresh_ok refresh_shown)
    then show ?thesis
      using True i spread_polling inv_refresh by (simp add: setScope_def Let_def st1_def [symmetric] viewed_def [symmetric])
  next
    case False
    have "filesShown locale sv (viewed st2)" by (simp add: filesShown_def viewed_def st2_def notifyDiff_def)
    moreover have "diffOk sv (viewed st2)" by (rule v) (simp_all add: st2_def)
    ultimately have "diffInv locale sv (restartSpreadPolling (restartPolling (viewed st2)))" by (intro spread_polling polling)
    then show ?thesis
      using False by (simp add: setScope_def Let_def st1_def [symmetric] viewed_def [symmetric] st2_def [symmetric])
  qed
qed

lemma inv_setMode: "diffInv locale sv st \<Longrightarrow> diffInv locale sv (setDiffMode mode st)"
proof -
  assume a: "diffInv locale sv st"
  define st1 where "st1 = notifyDiff (st\<lparr>dsMode := mode, dsPatch := idleLoad, dsVersion := 0, dsPatchGen := Suc (dsPatchGen st)\<rparr>)"
  have "diffOk sv (st1\<lparr>dsFilesGen := Suc (dsFilesGen st1)\<rparr>)"
    using a by - (rule ok_after [of sv st]; simp add: diffInv_def st1_def notifyDiff_def)
  then have "diffInv locale sv (refreshDiff ByMode False again st1)" for again by (simp add: diffInv_def refresh_raised refresh_shown)
  then show ?thesis using a by (simp add: setDiffMode_def st1_def)
qed

lemma inv_sync: "diffInv locale sv st \<Longrightarrow> diffInv locale sv (syncAnswered action err st)"
proof -
  assume a: "diffInv locale sv st"
  have "diffInv locale sv ((notifyDiff (st\<lparr>dsSyncResult := r, dsSync := SyncIdle\<rparr>))\<lparr>dsResultTimer := True\<rparr>)" for r
    by (rule inv_same [OF a]) (simp_all add: notifyDiff_def)
  then show ?thesis by (simp add: syncAnswered_def Let_def inv_spread)
qed

lemma inv_spreadAnswered: "diffInv locale sv st \<Longrightarrow> diffInv locale sv (spreadAnswered g rebased answer st)"
proof -
  assume a: "diffInv locale sv st"
  have "diffInv locale sv (notifyDiff (st\<lparr>dsSpread := x\<rparr>))" for x by (rule inv_same [OF a]) (simp_all add: notifyDiff_def)
  then show ?thesis using a by (simp add: spreadAnswered_def Let_def inv_fetch split: option.split)
qed

lemma inv_answer:
  assumes "diffInv locale sv st"
  shows "diffInv locale sv (answerTo locale sv i now r st)"
proof (cases "i < length (dsRequests st)")
  case True
  define st1 where "st1 = settleRequest i st"
  have i: "diffInv locale sv st1" using inv_settle [OF assms] by (simp add: st1_def)
  have "requestOk (scopeNow st) (dsPatchGen st) (dsFilesGen st) (dsRequests st ! i)"
    using assms True by (simp add: diffInv_def diffOk_def requestsOk_def list_all_length)
  moreover have "scopeNow st1 = scopeNow st" "dsPatchGen st1 = dsPatchGen st" "dsFilesGen st1 = dsFilesGen st"
    by (auto simp: st1_def settleRequest_def intro!: scope_cong)
  ultimately have q: "requestOk (scopeNow st1) (dsPatchGen st1) (dsFilesGen st1) (dsRequests st ! i)" by simp
  have "diffInv locale sv (requestAnswered locale sv (dsRequests st ! i) now r st1)"
  proof (cases "dsRequests st ! i")
    case (FilesRequest g t only sc again)
    then show ?thesis using i q by (auto intro!: inv_filesAnswered simp del: requestOk.simps split: sum.split)
  next
    case (PatchRequest g t sc again)
    then show ?thesis using i q by (auto intro!: inv_patchAnswered simp del: requestOk.simps split: sum.split)
  qed (use i in \<open>simp_all add: inv_spreadAnswered inv_sync\<close>)
  then show ?thesis using True by (simp add: answerTo_def st1_def)
qed (use assms in \<open>simp add: answerTo_def\<close>)

lemma diff_step_ok:
  assumes "diffInv locale sv st"
  shows "diffInv locale sv (diffStep locale sv ev st)"
proof (cases ev)
  case (SetActiveFile p)
  then show ?thesis using assms by (auto simp: setActiveFile_def notifyDiff_def intro: inv_same)
next
  case (StartSync a)
  have "diffInv locale sv (sendRequest (SyncRequest a s b) (notifyDiff (st\<lparr>dsSync := a, dsSyncResult := None\<rparr>)))" for s b
    by (rule inv_same [OF assms]) (auto simp: sendRequest_def notifyDiff_def)
  then show ?thesis using StartSync assms by (simp add: startSync_def split: option.split)
next
  case SpreadFires
  have "diffInv locale sv (st\<lparr>dsSpreadTicks := n\<rparr>)" for n by (rule inv_same [OF assms]) simp_all
  then show ?thesis using SpreadFires assms by (simp add: spreadTick_def inv_spread)
next
  case ResultFires
  then show ?thesis using assms by (auto simp: resultTimerFires_def notifyDiff_def intro: inv_same)
next
  case (Subscribes l)
  then show ?thesis using assms by (auto intro: inv_same)
next
  case (Unsubscribes l)
  then show ?thesis using assms by (auto intro: inv_same)
next
  case Disposes
  then show ?thesis using assms by (auto simp: disposeDiff_def intro: inv_same)
qed (use assms in \<open>simp_all add: inv_setScope setBranch_def inv_setMode inv_refresh inv_fetch inv_clear pollTick_def inv_answer\<close>)

text \<open>C37: What a browser shows of a session's changes belongs to what it views: whatever is switched while requests are on their way,
  and in whatever order they are answered or fail, a patch that is shown is an answer for the session, branch, mode and
  context viewed now, and so is a list of files once it is not loading or failed, sorted.\<close>

theorem shown_diff_current:
  "let st = diffRun locale sv evs in
     (case ldData (dsPatch st) of
        None \<Rightarrow> True
      | Some p \<Rightarrow> (\<exists>session n. dsSession st = Some session \<and> pdPatch p = svPatch sv (scopeOf st session) n)) \<and>
     (if ldStatus (dsFiles st) = LoadLoaded \<and> ldData (dsFiles st) \<noteq> Some noFiles
      then (\<exists>session n. dsSession st = Some session \<and>
              map_option dfFiles (ldData (dsFiles st)) = Some (sortFileSummaries locale (dfFiles (svFiles sv (scopeOf st session) n))))
      else True)"
proof -
  have "diffInv locale sv (fold (diffStep locale sv) evs st)" if "diffInv locale sv st" for st
    using that by (induction evs arbitrary: st) (simp_all add: diff_step_ok)
  moreover have "diffInv locale sv newDiffStore"
    by (simp add: diffInv_def diffOk_def patchShown_def requestsOk_def filesShown_def newDiffStore_def)
  ultimately have "diffInv locale sv (diffRun locale sv evs)" by (simp add: diffRun_def)
  then show ?thesis
    by (auto simp: Let_def diffInv_def diffOk_def patchShown_def filesShown_def scopeNow_def split: option.splits) blast+
qed

subsection \<open>What goes wrong\<close>

definition demoServerDiff :: diffServer where
  "demoServerDiff = \<lparr>svPatch = (\<lambda>sc n. if n = 0 then ''one'' else ''two''), svFiles = (\<lambda>sc n. noFiles\<lparr>dfBranch := Some ''b''\<rparr>), svSpread = (\<lambda>s b n. JNull)\<rparr>"

text \<open>The version is taken back when the review is left: another patch gets the cache key of the one before.\<close>

theorem cache_key_repeats:
  "let st1 = diffRun (\<lambda>a b. 0) demoServerDiff [SetScope (Some ''s'') None None, FetchPatch ByHand, Answers 1 ''t'' 0];
       st2 = diffRun (\<lambda>a b. 0) demoServerDiff [SetScope (Some ''s'') None None, FetchPatch ByHand, Answers 1 ''t'' 0, ClearPatch, FetchPatch ByHand, Answers 2 ''t'' 1]
   in map_option pdPatch (ldData (dsPatch st1)) = Some ''one'' \<and> map_option pdPatch (ldData (dsPatch st2)) = Some ''two'' \<and>
      map_option pdCacheKey (ldData (dsPatch st1)) = map_option pdCacheKey (ldData (dsPatch st2))"
  by code_simp

text \<open>A push that is answered after another session was chosen shows its result there, and lets that session's own push start again.\<close>

theorem push_result_elsewhere:
  "let st = diffRun (\<lambda>a b. 0) demoServerDiff [SetScope (Some ''s'') (Some ''b'') None, StartSync Pushing, SetScope (Some ''t'') (Some ''c'') None,
         StartSync Pushing, Fails 2 ''t'' ''rejected'', StartSync Pushing]
   in dsSession st = Some ''t'' \<and>
      filter (\<lambda>r. case r of SyncRequest _ _ _ \<Rightarrow> True | _ \<Rightarrow> False) (dsRequests st) = [SyncRequest Pushing ''t'' ''c'', SyncRequest Pushing ''t'' ''c'']"
  by code_simp

end
