(* ===== verification/Image_Headers.thy ===== *)
theory Image_Headers
  imports Reins_Prelude "HOL-Library.Word"
begin

text \<open>
  Uploaded images: \<^verbatim>\<open>packages/backend/src/models/uploaded-file.ts\<close>, which reads the size of an image from its header. A read of
  the \<open>DataView\<close> outside the bytes throws, which is \<open>None\<close>; a reader answers \<open>Some None\<close> for an image it cannot read.
\<close>

unbundle bit_operations_syntax

type_synonym byte8 = "8 word"
type_synonym dimensions = "nat \<times> nat"

subsection \<open>Reading numbers\<close>

definition byteAt :: "byte8 list \<Rightarrow> nat \<Rightarrow> byte8 option" where
  "byteAt bs i = (if i < length bs then Some (bs ! i) else None)"

text \<open>\<open>bytes[i]\<close> in a bitwise expression, where \<open>undefined\<close> counts as 0.\<close>

definition byteOr0 :: "byte8 list \<Rightarrow> nat \<Rightarrow> 32 word" where
  "byteOr0 bs i = (case byteAt bs i of None \<Rightarrow> 0 | Some b \<Rightarrow> ucast b)"

definition getUint16 :: "byte8 list \<Rightarrow> nat \<Rightarrow> bool \<Rightarrow> nat option" where
  "getUint16 bs i little =
     (case (byteAt bs i, byteAt bs (i + 1)) of
        (Some a, Some b) \<Rightarrow> Some (if little then unat a + 256 * unat b else 256 * unat a + unat b)
      | _ \<Rightarrow> None)"

definition getUint32 :: "byte8 list \<Rightarrow> nat \<Rightarrow> bool \<Rightarrow> nat option" where
  "getUint32 bs i little =
     (case (getUint16 bs i little, getUint16 bs (i + 2) little) of
        (Some a, Some b) \<Rightarrow> Some (if little then a + 65536 * b else 65536 * a + b)
      | _ \<Rightarrow> None)"

definition readUInt24LE :: "byte8 list \<Rightarrow> nat \<Rightarrow> nat" where
  "readUInt24LE bs i = unat (byteOr0 bs i OR push_bit 8 (byteOr0 bs (i + 1)) OR push_bit 16 (byteOr0 bs (i + 2)))"

definition matchesAt :: "byte8 list \<Rightarrow> nat \<Rightarrow> byte8 list \<Rightarrow> bool" where
  "matchesAt bs i values = (i + length values \<le> length bs \<and> take (length values) (drop i bs) = values)"

definition validDimensions :: "nat \<Rightarrow> nat \<Rightarrow> dimensions option" where
  "validDimensions w h = (if w = 0 \<or> h = 0 then None else Some (w, h))"

definition withTwo :: "nat option \<Rightarrow> nat option \<Rightarrow> (nat \<Rightarrow> nat \<Rightarrow> dimensions option) \<Rightarrow> dimensions option option" where
  "withTwo a b f = (case (a, b) of (Some x, Some y) \<Rightarrow> Some (f x y) | _ \<Rightarrow> None)"

subsection \<open>PNG and GIF\<close>

definition readPngDimensions :: "byte8 list \<Rightarrow> dimensions option option" where
  "readPngDimensions bs =
     (if length bs < 24 then Some None
      else if \<not> matchesAt bs 0 [137, 80, 78, 71, 13, 10, 26, 10] then Some None
      else if \<not> matchesAt bs 12 [73, 72, 68, 82] then Some None
      else withTwo (getUint32 bs 16 False) (getUint32 bs 20 False) validDimensions)"

definition readGifDimensions :: "byte8 list \<Rightarrow> dimensions option option" where
  "readGifDimensions bs =
     (if length bs < 10 then Some None
      else if \<not> matchesAt bs 0 [71, 73, 70, 56, 55, 97] \<and> \<not> matchesAt bs 0 [71, 73, 70, 56, 57, 97] then Some None
      else withTwo (getUint16 bs 6 True) (getUint16 bs 8 True) validDimensions)"

subsection \<open>JPEG\<close>

definition isJpegStartOfFrame :: "byte8 \<Rightarrow> bool" where
  "isJpegStartOfFrame m =
     ((0xc0 \<le> m \<and> m \<le> 0xc3) \<or> (0xc5 \<le> m \<and> m \<le> 0xc7) \<or> (0xc9 \<le> m \<and> m \<le> 0xcb) \<or> (0xcd \<le> m \<and> m \<le> 0xcf))"

definition skipWhile :: "(byte8 \<Rightarrow> bool) \<Rightarrow> byte8 list \<Rightarrow> nat \<Rightarrow> nat" where
  "skipWhile P bs i = i + length (takeWhile P (drop i bs))"

lemma skip_ge: "i \<le> skipWhile P bs i"
  by (simp add: skipWhile_def)

function readJpegSegments :: "byte8 list \<Rightarrow> nat \<Rightarrow> dimensions option option" where
  "readJpegSegments bs i =
     (if length bs \<le> i + 3 then Some None
      else (let mark = skipWhile (\<lambda>b. b = 0xff) bs (skipWhile (\<lambda>b. b \<noteq> 0xff) bs i)
            in if length bs \<le> mark then Some None
               else (let marker = bs ! mark; after = mark + 1
                     in if marker = 0xd9 \<or> marker = 0xda then Some None
                        else if marker = 0x01 \<or> (0xd0 \<le> marker \<and> marker \<le> 0xd7) then readJpegSegments bs after
                        else if length bs < after + 2 then Some None
                        else (case getUint16 bs after False of
                                None \<Rightarrow> None
                              | Some len \<Rightarrow>
                                  if len < 2 then Some None
                                  else if length bs < after + len then Some None
                                  else if isJpegStartOfFrame marker
                                  then (if after + len < after + 2 + 5 then Some None
                                        else withTwo (getUint16 bs (after + 2 + 3) False) (getUint16 bs (after + 2 + 1) False) validDimensions)
                                  else readJpegSegments bs (after + len)))))"
  by pat_completeness auto

termination
proof (relation "measure (\<lambda>(bs, i). length bs - i)", goal_cases)
  case (2 bs i)
  then show ?case using skip_ge [of i "\<lambda>b. b \<noteq> 0xff" bs] skip_ge [of "skipWhile (\<lambda>b. b \<noteq> 0xff) bs i" "\<lambda>b. b = 0xff" bs] by auto
next
  case (3 bs i)
  then show ?case using skip_ge [of i "\<lambda>b. b \<noteq> 0xff" bs] skip_ge [of "skipWhile (\<lambda>b. b \<noteq> 0xff) bs i" "\<lambda>b. b = 0xff" bs] by auto
qed auto

declare readJpegSegments.simps [simp del]

definition readJpegDimensions :: "byte8 list \<Rightarrow> dimensions option option" where
  "readJpegDimensions bs =
     (if length bs < 4 \<or> byteAt bs 0 \<noteq> Some 0xff \<or> byteAt bs 1 \<noteq> Some 0xd8 then Some None else readJpegSegments bs 2)"

subsection \<open>WebP\<close>

definition readVp8xDimensions :: "byte8 list \<Rightarrow> nat \<Rightarrow> nat \<Rightarrow> dimensions option option" where
  "readVp8xDimensions bs start chunk =
     (if chunk < 10 then Some None
      else Some (validDimensions (1 + readUInt24LE bs (start + 4)) (1 + readUInt24LE bs (start + 7))))"

definition readVp8lDimensions :: "byte8 list \<Rightarrow> nat \<Rightarrow> nat \<Rightarrow> dimensions option option" where
  "readVp8lDimensions bs start chunk =
     (if chunk < 5 \<or> byteAt bs start \<noteq> Some 0x2f then Some None
      else (case getUint32 bs (start + 1) True of
              None \<Rightarrow> None
            | Some n \<Rightarrow>
                (let bits = (of_nat n :: 32 word)
                 in Some (validDimensions (unat (bits AND 0x3fff) + 1) (unat (drop_bit 14 bits AND 0x3fff) + 1)))))"

definition readVp8Dimensions :: "byte8 list \<Rightarrow> nat \<Rightarrow> nat \<Rightarrow> dimensions option option" where
  "readVp8Dimensions bs start chunk =
     (if chunk < 10 then Some None
      else if \<not> matchesAt bs (start + 3) [0x9d, 0x01, 0x2a] then Some None
      else withTwo (getUint16 bs (start + 6) True) (getUint16 bs (start + 8) True)
             (\<lambda>w h. validDimensions (unat ((of_nat w :: 32 word) AND 0x3fff)) (unat ((of_nat h :: 32 word) AND 0x3fff))))"

function readWebpChunks :: "byte8 list \<Rightarrow> nat \<Rightarrow> dimensions option option" where
  "readWebpChunks bs i =
     (if length bs < i + 8 then Some None
      else (case getUint32 bs (i + 4) True of
              None \<Rightarrow> None
            | Some chunk \<Rightarrow>
                (let start = i + 8
                 in if length bs < start + chunk then Some None
                    else if take 4 (drop i bs) = [86, 80, 56, 88] then readVp8xDimensions bs start chunk
                    else if take 4 (drop i bs) = [86, 80, 56, 76] then readVp8lDimensions bs start chunk
                    else if take 4 (drop i bs) = [86, 80, 56, 32] then readVp8Dimensions bs start chunk
                    else readWebpChunks bs (start + chunk + chunk mod 2))))"
  by pat_completeness auto
termination by (relation "measure (\<lambda>(bs, i). length bs - i)") auto

declare readWebpChunks.simps [simp del]

definition readWebpDimensions :: "byte8 list \<Rightarrow> dimensions option option" where
  "readWebpDimensions bs =
     (if length bs < 20 then Some None
      else if \<not> matchesAt bs 0 [82, 73, 70, 70] \<or> \<not> matchesAt bs 8 [87, 69, 66, 80] then Some None
      else readWebpChunks bs 12)"

subsection \<open>Uploads\<close>

definition readImageDimensions :: "byte8 list \<Rightarrow> string \<Rightarrow> dimensions option option" where
  "readImageDimensions bs mime =
     (if mime = ''image/png'' then readPngDimensions bs
      else if mime = ''image/jpeg'' then readJpegDimensions bs
      else if mime = ''image/gif'' then readGifDimensions bs
      else if mime = ''image/webp'' then readWebpDimensions bs
      else Some None)"

definition allowedImageMimeTypes :: "string list" where
  "allowedImageMimeTypes = [''image/png'', ''image/jpeg'', ''image/webp'', ''image/gif'']"

definition maxAttachmentBytes :: nat where
  "maxAttachmentBytes = 10 * 1024 * 1024"

definition fitsProvider :: "nat \<Rightarrow> bool" where
  "fitsProvider n = ((n + 2) div 3 * 4 < 4718592)"

record uploadedFile =
  ufType :: string
  ufName :: "string option"
  ufBytes :: "byte8 list"

definition uploadFilename :: "uploadedFile \<Rightarrow> string option" where
  "uploadFilename f = (case ufName f of None \<Rightarrow> None | Some n \<Rightarrow> if trimStr n = [] then None else Some (trimStr n))"

datatype uploadError = UnsupportedType string | EmptyAttachment | TooLarge | NoDimensions | NotResized nat | ReadsOutside

text \<open>\<open>toFixed(1)\<close> of the mebibytes.\<close>

definition formatMiB :: "nat \<Rightarrow> string" where
  "formatMiB n = (let t = (n * 20 + 1048576) div 2097152 in showNat (t div 10) @ ''.'' @ showNat (t mod 10) @ '' MiB'')"

definition uploadErrorMessage :: "uploadError \<Rightarrow> string" where
  "uploadErrorMessage e =
     (case e of
        UnsupportedType m \<Rightarrow> ''Unsupported image type: '' @ m
      | EmptyAttachment \<Rightarrow> ''Attachment is empty''
      | TooLarge \<Rightarrow> ''Attachment exceeds 10485760 byte limit''
      | NoDimensions \<Rightarrow> ''Image dimensions could not be read''
      | NotResized n \<Rightarrow> ''The image is '' @ formatMiB n @ '', over the model provider's image size limit, and could not be resized''
      | ReadsOutside \<Rightarrow> ''Offset is outside the bounds of the DataView'')"

definition assertSupportedImage :: "string \<Rightarrow> nat \<Rightarrow> uploadError option" where
  "assertSupportedImage mime chunk =
     (if mime \<notin> set allowedImageMimeTypes then Some (UnsupportedType (if mime = [] then ''unknown'' else mime))
      else if chunk = 0 then Some EmptyAttachment
      else if maxAttachmentBytes < chunk then Some TooLarge
      else None)"

record attachmentInput =
  aiId :: "string option"
  aiData :: "byte8 list"
  aiMime :: string
  aiFilename :: "string option"
  aiWidth :: "rat option"
  aiHeight :: "rat option"

text \<open>What \<open>fitImage\<close> answers: the bytes, their type and size.\<close>

type_synonym fittedImage = "byte8 list \<times> string \<times> nat option \<times> nat option"

definition toImageAttachmentInput :: "(byte8 list \<Rightarrow> string \<Rightarrow> fittedImage option) \<Rightarrow> uploadedFile \<Rightarrow> uploadError + attachmentInput" where
  "toImageAttachmentInput fit f =
     (case assertSupportedImage (ufType f) (length (ufBytes f)) of
        Some e \<Rightarrow> Inl e
      | None \<Rightarrow>
          (case readImageDimensions (ufBytes f) (ufType f) of
             None \<Rightarrow> Inl ReadsOutside
           | Some None \<Rightarrow> Inl NoDimensions
           | Some (Some (w, h)) \<Rightarrow>
               if fitsProvider (length (ufBytes f))
               then Inr \<lparr>aiId = None, aiData = ufBytes f, aiMime = ufType f, aiFilename = uploadFilename f, aiWidth = Some (of_nat w), aiHeight = Some (of_nat h)\<rparr>
               else (case fit (ufBytes f) (ufType f) of
                       Some (bytes, mime, Some fw, Some fh) \<Rightarrow>
                         if fw = 0 \<or> fh = 0 then Inl (NotResized (length (ufBytes f)))
                         else Inr \<lparr>aiId = None, aiData = bytes, aiMime = mime, aiFilename = uploadFilename f, aiWidth = Some (of_nat fw), aiHeight = Some (of_nat fh)\<rparr>
                     | _ \<Rightarrow> Inl (NotResized (length (ufBytes f))))))"

end
