(* ===== verification/Image_Laws.thy ===== *)
theory Image_Laws
  imports Image_Headers
begin

text \<open>
  What the readers of image headers do: for any bytes they read inside them and end, a size that they answer is in the bounds of
  its format, and the size of a JPEG is found behind whatever segments come first.
\<close>

subsection \<open>Reads\<close>

lemma byte_bound: "unat (b :: byte8) < 256"
proof -
  have "unat b < 2 ^ LENGTH(8)" by (rule unsigned_less)
  then show ?thesis by simp
qed

lemma uint16_inside: "i + 1 < length bs \<Longrightarrow> \<exists>n. getUint16 bs i l = Some n \<and> n < 65536"
  using byte_bound [of "bs ! i"] byte_bound [of "bs ! (i + 1)"] by (auto simp: getUint16_def byteAt_def)

lemma uint32_inside: "i + 3 < length bs \<Longrightarrow> \<exists>n. getUint32 bs i l = Some n \<and> n < 4294967296"
  using uint16_inside [of i bs l] uint16_inside [of "i + 2" bs l] by (auto simp: getUint32_def)

lemma masked_bound: "unat ((w :: 32 word) AND 0x3fff) < 16384"
proof -
  have "w AND 0x3fff \<le> 0x3fff" by (rule word_and_le1)
  then show ?thesis by (simp add: word_le_nat_alt)
qed

lemma byte_bits: "bit (byteOr0 bs i) n \<Longrightarrow> n < 8"
  by (auto simp: byteOr0_def bit_simps split: option.splits dest: bit_imp_le_length)

lemma uint24_bound: "readUInt24LE bs i < 16777216"
proof -
  define w where "w = byteOr0 bs i OR push_bit 8 (byteOr0 bs (i + 1)) OR push_bit 16 (byteOr0 bs (i + 2))"
  have "take_bit 24 w = w"
    by (rule bit_word_eqI) (auto simp: w_def bit_simps dest: byte_bits)
  then have "unat w = take_bit 24 (unat w)" by (metis unsigned_take_bit_eq)
  then have "unat w < 2 ^ 24" by (metis take_bit_nat_less_exp)
  then show ?thesis by (simp add: readUInt24LE_def w_def)
qed

definition sizeIn :: "nat \<Rightarrow> dimensions option option \<Rightarrow> bool" where
  "sizeIn n r = (case r of None \<Rightarrow> False | Some None \<Rightarrow> True | Some (Some (w, h)) \<Rightarrow> 0 < w \<and> w < n \<and> 0 < h \<and> h < n)"

lemma size_simps [simp]: "sizeIn n (Some None)" "\<not> sizeIn n None"
  by (simp_all add: sizeIn_def)

lemma size_valid: "w < n \<Longrightarrow> h < n \<Longrightarrow> sizeIn n (Some (validDimensions w h))"
  by (simp add: sizeIn_def validDimensions_def)

lemma size_mono: "sizeIn n r \<Longrightarrow> n \<le> m \<Longrightarrow> sizeIn m r"
  by (auto simp: sizeIn_def split: option.splits)

lemma size_two16:
  assumes "i + 1 < length bs" "j + 1 < length bs" "\<And>x y. x < 65536 \<Longrightarrow> y < 65536 \<Longrightarrow> sizeIn n (Some (f x y))"
  shows "sizeIn n (withTwo (getUint16 bs i l) (getUint16 bs j l) f)"
  using uint16_inside [OF assms(1), of l] uint16_inside [OF assms(2), of l] assms(3) by (auto simp: withTwo_def)

lemma size_two32:
  assumes "i + 3 < length bs" "j + 3 < length bs" "\<And>x y. x < 4294967296 \<Longrightarrow> y < 4294967296 \<Longrightarrow> sizeIn n (Some (f x y))"
  shows "sizeIn n (withTwo (getUint32 bs i l) (getUint32 bs j l) f)"
  using uint32_inside [OF assms(1), of l] uint32_inside [OF assms(2), of l] assms(3) by (auto simp: withTwo_def)

subsection \<open>Each format\<close>

lemma png_size: "sizeIn 4294967296 (readPngDimensions bs)"
  by (auto simp: readPngDimensions_def intro!: size_two32 size_valid)

lemma gif_size: "sizeIn 65536 (readGifDimensions bs)"
  by (auto simp: readGifDimensions_def intro!: size_two16 size_valid)

lemma jpeg_segments_size: "sizeIn 65536 (readJpegSegments bs i)"
proof (induction bs i rule: readJpegSegments.induct)
  case (1 bs i)
  define mk where "mk = skipWhile (\<lambda>b. b = 0xff) bs (skipWhile (\<lambda>b. b \<noteq> 0xff) bs i)"
  show ?case
  proof (cases "length bs \<le> i + 3 \<or> length bs < mk + 3 \<or> bs ! mk = 0xd9 \<or> bs ! mk = 0xda \<or> bs ! mk = 0x01 \<or> (0xd0 \<le> bs ! mk \<and> bs ! mk \<le> 0xd7)")
    case True
    then show ?thesis
      using 1 by (subst readJpegSegments.simps) (auto simp: Let_def mk_def [symmetric])
  next
    case False
    then obtain len where len: "getUint16 bs (mk + 1) False = Some len" using uint16_inside [of "mk + 1" bs False] by auto
    have frame: "sizeIn 65536 (withTwo (getUint16 bs (mk + 1 + 2 + 3) False) (getUint16 bs (mk + 1 + 2 + 1) False) validDimensions)"
      if "mk + 8 \<le> length bs"
      using that by (intro size_two16 size_valid) simp_all
    have later: "sizeIn 65536 (readJpegSegments bs (mk + 1 + len))"
      if "\<not> len < 2" "\<not> length bs < mk + 1 + len" "\<not> isJpegStartOfFrame (bs ! mk)"
      using 1 False len that by (simp add: mk_def [symmetric])
    show ?thesis
      using False len frame later by (subst readJpegSegments.simps) (auto simp: Let_def mk_def [symmetric])
  qed
qed

lemma jpeg_size: "sizeIn 65536 (readJpegDimensions bs)"
  by (simp add: readJpegDimensions_def jpeg_segments_size)

lemma webp_chunks_size: "sizeIn 16777217 (readWebpChunks bs i)"
proof (induction bs i rule: readWebpChunks.induct)
  case (1 bs i)
  show ?case
  proof (cases "length bs < i + 8")
    case True
    then show ?thesis by (subst readWebpChunks.simps) simp
  next
    case False
    then obtain n where n: "getUint32 bs (i + 4) True = Some n" using uint32_inside [of "i + 4" bs True] by auto
    have m: "unat (w AND 0x3fff) < 16777216" "unat (w AND 0x3fff) < 16777217" for w :: "32 word" using masked_bound [of w] by linarith+
    have "sizeIn 16777217 (readVp8xDimensions bs (i + 8) n)"
      using uint24_bound [of bs] by (auto simp: readVp8xDimensions_def intro!: size_valid)
    moreover have "sizeIn 16777217 (readVp8lDimensions bs (i + 8) n)" if "i + 8 + n \<le> length bs"
      using that uint32_inside [of "i + 8 + 1" bs True] m
      by (auto simp: readVp8lDimensions_def Let_def intro!: size_valid)
    moreover have "sizeIn 16777217 (readVp8Dimensions bs (i + 8) n)" if "i + 8 + n \<le> length bs"
      using that m by (auto simp: readVp8Dimensions_def intro!: size_two16 size_valid)
    ultimately show ?thesis
      using 1 False n by (subst readWebpChunks.simps) (auto simp: Let_def)
  qed
qed


subsection \<open>The size of a JPEG\<close>

definition be16 :: "nat \<Rightarrow> byte8 list" where
  "be16 n = [of_nat (n div 256), of_nat (n mod 256)]"

text \<open>A segment: its marker and what it holds.\<close>

definition segmentBytes :: "byte8 \<times> byte8 list \<Rightarrow> byte8 list" where
  "segmentBytes s = [0xff, fst s] @ be16 (length (snd s) + 2) @ snd s"

definition segmentSkipped :: "byte8 \<times> byte8 list \<Rightarrow> bool" where
  "segmentSkipped s =
     (fst s \<notin> {0xff, 0xd9, 0xda, 0x01} \<and> \<not> (0xd0 \<le> fst s \<and> fst s \<le> 0xd7) \<and> \<not> isJpegStartOfFrame (fst s) \<and> length (snd s) \<le> 65533)"

definition jpegFile :: "(byte8 \<times> byte8 list) list \<Rightarrow> byte8 \<Rightarrow> byte8 \<Rightarrow> nat \<Rightarrow> nat \<Rightarrow> byte8 list \<Rightarrow> byte8 list \<Rightarrow> byte8 list" where
  "jpegFile segs sof precision w h components rest =
     [0xff, 0xd8] @ concat (map segmentBytes segs) @ segmentBytes (sof, precision # be16 h @ be16 w @ components) @ rest"

lemma drop_further: "drop n xs = ys \<Longrightarrow> k = n + m \<Longrightarrow> drop k xs = drop m ys"
  by (auto simp: add.commute)

lemma be16_read: "n < 65536 \<Longrightarrow> drop i bs = be16 n @ rest \<Longrightarrow> getUint16 bs i False = Some n"
proof -
  assume n: "n < 65536" and d: "drop i bs = be16 n @ rest"
  have l: "i + 1 < length bs"
  proof (rule ccontr)
    assume "\<not> i + 1 < length bs"
    then have "length (drop i bs) < 2" by simp
    then show False using d by (simp add: be16_def)
  qed
  have "bs ! i = of_nat (n div 256)" "bs ! (i + 1) = of_nat (n mod 256)"
    using arg_cong [OF d, of "\<lambda>xs. xs ! 0"] arg_cong [OF d, of "\<lambda>xs. xs ! 1"] l by (simp_all add: be16_def)
  moreover have "unat (of_nat (n div 256) :: byte8) = n div 256" "unat (of_nat (n mod 256) :: byte8) = n mod 256"
    using n by (simp_all add: unat_of_nat)
  ultimately show ?thesis using l by (simp add: getUint16_def byteAt_def)
qed

lemma marker_found:
  assumes "drop i bs = [0xff, m] @ rest" "m \<noteq> 0xff"
  shows "skipWhile (\<lambda>b. b = 0xff) bs (skipWhile (\<lambda>b. b \<noteq> 0xff) bs i) = i + 1" "bs ! (i + 1) = m" "drop (i + 2) bs = rest" "i + 1 < length bs"
proof -
  have l: "i + 1 < length bs"
  proof (rule ccontr)
    assume "\<not> i + 1 < length bs"
    then have "length (drop i bs) < 2" by simp
    then show False using assms(1) by simp
  qed
  then show "i + 1 < length bs" .
  show "bs ! (i + 1) = m" using arg_cong [OF assms(1), of "\<lambda>xs. xs ! 1"] l by simp
  show "drop (i + 2) bs = rest" using arg_cong [OF assms(1), of "drop 2"] by (simp add: add.commute)
  show "skipWhile (\<lambda>b. b = 0xff) bs (skipWhile (\<lambda>b. b \<noteq> 0xff) bs i) = i + 1" using assms by (simp add: skipWhile_def)
qed

lemma segment_read:
  assumes "drop i bs = segmentBytes (m, p) @ rest" "m \<noteq> 0xff" "length p \<le> 65533"
  shows "getUint16 bs (i + 2) False = Some (length p + 2)" "drop (i + 4) bs = p @ rest" "i + 4 + length p \<le> length bs" "drop (i + 4 + length p) bs = rest"
proof -
  have d: "drop (i + 2) bs = be16 (length p + 2) @ p @ rest"
    using marker_found(3) [of i bs m "be16 (length p + 2) @ p @ rest"] assms by (simp add: segmentBytes_def)
  show "getUint16 bs (i + 2) False = Some (length p + 2)" using be16_read [OF _ d] assms(3) by simp
  have "drop (i + 4) bs = drop 2 (drop (i + 2) bs)" unfolding drop_drop by (rule arg_cong [where f = "\<lambda>n. drop n bs"]) simp
  then show e: "drop (i + 4) bs = p @ rest" unfolding d by (simp add: be16_def)
  show "drop (i + 4 + length p) bs = rest" using arg_cong [OF e, of "drop (length p)"] by (simp add: add.commute)
  have "length (drop i bs) = 4 + length p + length rest" using assms(1) by (simp add: segmentBytes_def be16_def)
  then show "i + 4 + length p \<le> length bs" by simp
qed

lemma segments_skipped:
  assumes "drop i bs = concat (map segmentBytes segs) @ rest" "list_all segmentSkipped segs"
  shows "\<exists>j. readJpegSegments bs i = readJpegSegments bs j \<and> drop j bs = rest"
  using assms
proof (induction segs arbitrary: i)
  case Nil
  then show ?case by auto
next
  case (Cons s segs)
  obtain m p where s: "s = (m, p)" by (cases s)
  have k: "m \<noteq> 0xff" "m \<notin> {0xd9, 0xda, 0x01}" "\<not> (0xd0 \<le> m \<and> m \<le> 0xd7)" "\<not> isJpegStartOfFrame m" "length p \<le> 65533"
    using Cons.prems(2) s by (simp_all add: segmentSkipped_def)
  have d: "drop i bs = segmentBytes (m, p) @ (concat (map segmentBytes segs) @ rest)" using Cons.prems(1) s by simp
  note r = segment_read [OF d k(1,5)]
  note f = marker_found [of i bs m "be16 (length p + 2) @ p @ (concat (map segmentBytes segs) @ rest)"]
  have f': "skipWhile (\<lambda>b. b = 0xff) bs (skipWhile (\<lambda>b. b \<noteq> 0xff) bs i) = i + 1" "bs ! (i + 1) = m"
    using f d k(1) by (simp_all add: segmentBytes_def)
  have e: "i + 1 + 1 + (length p + 2) = i + 4 + length p" "i + 1 + 1 = i + 2" "i + 2 + (length p + 2) = i + 4 + length p" by simp_all
  have n: "m \<noteq> 0xd9" "m \<noteq> 0xda" "m \<noteq> 0x01" using k(2) by auto
  have "\<not> length bs \<le> i + 3" "\<not> length bs \<le> i + 1" "\<not> length bs < i + 2 + 2" "\<not> length bs < i + 4 + length p" "\<not> length p + 2 < 2" using r(3) by simp_all
  then have "readJpegSegments bs i = readJpegSegments bs (i + 4 + length p)"
    using r(1) f' n k(3,4) by (subst readJpegSegments.simps) (simp only: Let_def e f' option.case if_False if_True simp_thms insert_iff empty_iff)
  moreover obtain j where "readJpegSegments bs (i + 4 + length p) = readJpegSegments bs j \<and> drop j bs = rest"
    using Cons.IH [OF r(4)] Cons.prems(2) by auto
  ultimately show ?case by auto
qed

text \<open>The size that is stored with an uploaded JPEG is the one in its frame header, whatever segments come before it and
  whatever follows, thumbnails and comments with bytes that look like markers included.\<close>

theorem jpeg_size_found:
  assumes "list_all segmentSkipped segs" "isJpegStartOfFrame sof" "0 < w" "w < 65536" "0 < h" "h < 65536" "length components \<le> 65528"
  shows "readImageDimensions (jpegFile segs sof precision w h components rest) ''image/jpeg'' = Some (Some (w, h))"
proof -
  let ?bs = "jpegFile segs sof precision w h components rest" and ?p = "precision # be16 h @ be16 w @ components"
  have "drop 2 ?bs = concat (map segmentBytes segs) @ (segmentBytes (sof, ?p) @ rest)" by (simp add: jpegFile_def)
  then obtain j where j: "readJpegSegments ?bs 2 = readJpegSegments ?bs j" "drop j ?bs = segmentBytes (sof, ?p) @ rest"
    using segments_skipped assms(1) by blast
  have sof: "sof \<noteq> 0xff" "sof \<notin> {0xd9, 0xda, 0x01}" "\<not> (0xd0 \<le> sof \<and> sof \<le> 0xd7)"
    using assms(2) by (auto simp: isJpegStartOfFrame_def word_le_nat_alt)
  have p: "length ?p = 5 + length components" by (simp add: be16_def)
  then have p': "length ?p \<le> 65533" using assms(7) by simp
  note r = segment_read [OF j(2) sof(1) p']
  note f = marker_found [of j ?bs sof "be16 (length ?p + 2) @ ?p @ rest"]
  have f': "skipWhile (\<lambda>b. b = 0xff) ?bs (skipWhile (\<lambda>b. b \<noteq> 0xff) ?bs j) = j + 1" "?bs ! (j + 1) = sof"
    using f j(2) sof(1) by (simp_all add: segmentBytes_def)
  have h1: "drop (j + 5) ?bs = be16 h @ (be16 w @ components @ rest)" using drop_further [OF r(2), of "j + 5" 1] by simp
  have h2: "drop (j + 7) ?bs = be16 w @ (components @ rest)" using drop_further [OF h1, of "j + 7" 2] by (simp add: be16_def)
  have h: "getUint16 ?bs (j + 5) False = Some h" by (rule be16_read [OF assms(6) h1])
  have w: "getUint16 ?bs (j + 7) False = Some w" by (rule be16_read [OF assms(4) h2])
  have e: "j + 1 + 1 = j + 2" "j + 2 + (length ?p + 2) = j + 4 + length ?p" "j + 2 + 2 + 3 = j + 7" "j + 2 + 2 + 1 = j + 5" by simp_all
  have g: "\<not> length ?bs \<le> j + 3" "\<not> length ?bs \<le> j + 1" "\<not> length ?bs < j + 2 + 2" "\<not> length ?bs < j + 4 + length ?p" "\<not> length ?p + 2 < 2"
    "\<not> j + 4 + length ?p < j + 2 + 2 + 5"
    using r(3) p by simp_all
  have n: "sof \<noteq> 0xd9" "sof \<noteq> 0xda" "sof \<noteq> 0x01" using sof(2) by auto
  have "readJpegSegments ?bs j = withTwo (getUint16 ?bs (j + 7) False) (getUint16 ?bs (j + 5) False) validDimensions"
    using r(1) g n sof(3) assms(2) by (subst readJpegSegments.simps) (simp only: Let_def f' e option.case if_False if_True simp_thms)
  also have "\<dots> = Some (Some (w, h))" using h w assms(3,5) by (simp add: withTwo_def validDimensions_def)
  finally have "readJpegSegments ?bs 2 = Some (Some (w, h))" using j(1) by simp
  moreover have "\<not> length ?bs < 4" "byteAt ?bs 0 = Some 0xff" "byteAt ?bs 1 = Some 0xd8"
    by (simp_all add: jpegFile_def byteAt_def segmentBytes_def be16_def)
  ultimately show ?thesis by (simp add: readImageDimensions_def readJpegDimensions_def)
qed

theorem jpeg_size_found_witness:
  "readImageDimensions (jpegFile [(0xe0, [1, 0xff, 0xc0]), (0xfe, [])] 0xc2 8 640 480 [3, 1] [0xff, 0xda]) ''image/jpeg'' = Some (Some (640, 480))"
  by (rule jpeg_size_found) (simp_all add: segmentSkipped_def isJpegStartOfFrame_def)

end
