(* ===== verification/Mcp_Connections.thy ===== *)
theory Mcp_Connections
  imports Reins_Prelude
begin

text \<open>
  The connection to a remote MCP server: \<^verbatim>\<open>packages/backend/src/extensions/mcp/connections.ts\<close>, for one server (the entries of
  two servers share nothing but being closed together). An opening is a call of \<open>open\<close> with the client it makes, a call one
  of \<open>use\<close>; both are numbered by their positions and go on at the events of their awaits, which come in any order. What the
  store, the SDK's client and a call's work answer are parts of the events.
\<close>

subsection \<open>Servers, their status and errors\<close>

datatype mcpAuth = AuthOauth | AuthHeader | AuthNone

datatype mcpTransport = TransportHttp | TransportSse

record mcpServer =
  msId :: nat
  msName :: string
  msUrl :: string
  msTransport :: mcpTransport
  msAuth :: mcpAuth
  msHeaderName :: "string option"
  msEnabled :: bool

datatype serverStatus = ServerReady | NeedsSignIn | ServerFails string | ServerDisabled

text \<open>\<open>ProtocolFault\<close> is the SDK's \<open>McpError\<close>, with whether its code says that the connection closed.\<close>

datatype mcpFault =
    ServerUnavailable string serverStatus
  | Unauthorized string
  | HttpFault "nat option" string
  | ProtocolFault bool string
  | CallerAborted string
  | OtherFault string

definition unavailableMessage :: "string \<Rightarrow> serverStatus \<Rightarrow> string" where
  "unavailableMessage name status =
     (case status of
        ServerDisabled \<Rightarrow> ''MCP server '' @ name @ '' is disabled''
      | NeedsSignIn \<Rightarrow> ''MCP server '' @ name @ '' needs sign-in''
      | ServerFails m \<Rightarrow> ''MCP server '' @ name @ '' is unavailable: '' @ m
      | ServerReady \<Rightarrow> ''MCP server '' @ name @ '' is unavailable: undefined'')"

definition faultMessage :: "mcpFault \<Rightarrow> string" where
  "faultMessage f =
     (case f of
        ServerUnavailable name status \<Rightarrow> unavailableMessage name status
      | Unauthorized m \<Rightarrow> m
      | HttpFault _ m \<Rightarrow> m
      | ProtocolFault _ m \<Rightarrow> m
      | CallerAborted m \<Rightarrow> m
      | OtherFault m \<Rightarrow> m)"

definition withoutPrefix :: "string \<Rightarrow> string \<Rightarrow> string" where
  "withoutPrefix p s = (if startsWith s p then drop (length p) s else s)"

definition describeFault :: "mcpFault \<Rightarrow> string" where
  "describeFault f =
     (case f of
        HttpFault (Some code) m \<Rightarrow>
          (let p = ''Streamable HTTP error: '';
               detail = trimStr (if startsWith m p then withoutPrefix ''Error POSTing to endpoint: '' (drop (length p) m) else m)
           in ''The server answered HTTP '' @ showNat code @ (if detail \<noteq> [] then '': '' @ detail else []))
      | _ \<Rightarrow> faultMessage f)"

definition refusedAsLegacy :: "mcpFault \<Rightarrow> bool" where
  "refusedAsLegacy f =
     (case f of HttpFault (Some code) _ \<Rightarrow> 400 \<le> code \<and> code < 500 \<and> code \<noteq> 401 \<and> code \<noteq> 403 | _ \<Rightarrow> False)"

definition configurationBlock :: "mcpServer \<Rightarrow> bool \<Rightarrow> serverStatus option" where
  "configurationBlock server signedIn =
     (if \<not> msEnabled server then Some ServerDisabled
      else if msAuth server = AuthOauth \<and> \<not> signedIn then Some NeedsSignIn
      else None)"

definition headerRequestInit :: "mcpServer \<Rightarrow> string option \<Rightarrow> (string \<times> string) option" where
  "headerRequestInit server v =
     (if msAuth server \<noteq> AuthHeader \<or> \<not> truthyStr (msHeaderName server) then None
      else map_option (\<lambda>x. (the (msHeaderName server), x)) v)"

text \<open>What \<open>connect\<close> throws for a client that did not connect.\<close>

definition connectFault :: "mcpServer \<Rightarrow> bool \<Rightarrow> mcpFault \<Rightarrow> mcpFault" where
  "connectFault server signInRequired f =
     (if msAuth server = AuthOauth \<and> signInRequired then Unauthorized ''Unauthorized''
      else if msTransport server = TransportHttp \<and> refusedAsLegacy f
      then OtherFault (describeFault f @ ''. If this is a legacy HTTP+SSE server, set its transport to SSE.'')
      else f)"

subsection \<open>State\<close>

datatype openStage = Connecting | ClosingStale | ClosingFailed mcpFault | ConnectionOpen | OpenThrew mcpFault

text \<open>\<open>moLive\<close>: its client is connected; \<open>moTold\<close>: its client was told to close.\<close>

record mcpOpening =
  moServer :: mcpServer
  moGeneration :: nat
  moStage :: openStage
  moLive :: bool
  moTold :: bool
  moTools :: "nat option"

text \<open>A call that is looking up holds the row it read; the number with each phase is its attempt.\<close>

datatype callPhase =
    LooksUp mcpServer nat
  | AwaitsOpening nat nat
  | WorksOn nat nat
  | DropsAfter bool mcpFault nat
  | CallReturned
  | CallThrew mcpFault

record mcpCall =
  mkPhase :: callPhase
  mkAborted :: bool

record mcpEntry =
  meConnection :: "nat option"
  meConnecting :: "nat option"
  meFailure :: "serverStatus option"
  meInFlight :: nat
  meIdleTimer :: bool
  meGeneration :: nat

record mcpState =
  mcServerId :: nat
  mcRow :: "mcpServer option"
  mcEntry :: mcpEntry
  mcOpenings :: "mcpOpening list"
  mcCalls :: "mcpCall list"
  mcClosed :: bool
  mcChanged :: nat
  mcListings :: nat

definition newEntry :: mcpEntry where
  "newEntry = \<lparr>meConnection = None, meConnecting = None, meFailure = None, meInFlight = 0, meIdleTimer = False, meGeneration = 0\<rparr>"

definition newConnections :: "mcpServer \<Rightarrow> mcpState" where
  "newConnections row =
     \<lparr>mcServerId = msId row, mcRow = Some row, mcEntry = newEntry, mcOpenings = [], mcCalls = [], mcClosed = False, mcChanged = 0, mcListings = 0\<rparr>"

definition mcpStatus :: "mcpServer \<Rightarrow> bool \<Rightarrow> mcpState \<Rightarrow> serverStatus" where
  "mcpStatus server signedIn st =
     (case configurationBlock server signedIn of
        Some b \<Rightarrow> b
      | None \<Rightarrow> orElse (meFailure (mcEntry st)) ServerReady)"

definition onEntry :: "(mcpEntry \<Rightarrow> mcpEntry) \<Rightarrow> mcpState \<Rightarrow> mcpState" where
  "onEntry f st = st\<lparr>mcEntry := f (mcEntry st)\<rparr>"

definition onOpening :: "nat \<Rightarrow> (mcpOpening \<Rightarrow> mcpOpening) \<Rightarrow> mcpState \<Rightarrow> mcpState" where
  "onOpening i f st =
     (if i < length (mcOpenings st) then st\<lparr>mcOpenings := (mcOpenings st)[i := f (mcOpenings st ! i)]\<rparr> else st)"

definition setPhase :: "nat \<Rightarrow> callPhase \<Rightarrow> mcpState \<Rightarrow> mcpState" where
  "setPhase k p st =
     (if k < length (mcCalls st) then st\<lparr>mcCalls := (mcCalls st)[k := (mcCalls st ! k)\<lparr>mkPhase := p\<rparr>]\<rparr> else st)"

subsection \<open>Operations\<close>

definition clearIdle :: "mcpEntry \<Rightarrow> mcpEntry" where
  "clearIdle e = e\<lparr>meIdleTimer := False\<rparr>"

definition scheduleIdle :: "bool \<Rightarrow> mcpEntry \<Rightarrow> mcpEntry" where
  "scheduleIdle shut e =
     (if 0 < meInFlight e \<or> meConnection e = None \<or> shut then e else e\<lparr>meIdleTimer := True\<rparr>)"

definition dropConnection :: "nat option \<Rightarrow> mcpState \<Rightarrow> mcpState" where
  "dropConnection c st =
     (let st1 = onEntry clearIdle st
      in case c of
           None \<Rightarrow> st1
         | Some i \<Rightarrow>
             onOpening i (\<lambda>m. m\<lparr>moTold := True\<rparr>)
               (onEntry (\<lambda>e. if meConnection e = Some i then e\<lparr>meConnection := None\<rparr> else e) st1))"

text \<open>The end of \<open>use\<close>, with its \<open>finally\<close>.\<close>

definition endCall :: "nat \<Rightarrow> callPhase \<Rightarrow> mcpState \<Rightarrow> mcpState" where
  "endCall k outcome st =
     onEntry (\<lambda>e. scheduleIdle (mcClosed st) (e\<lparr>meInFlight := meInFlight e - 1\<rparr>)) (setPhase k outcome st)"

definition recordFailure :: "mcpFault \<Rightarrow> mcpState \<Rightarrow> mcpFault \<times> mcpState" where
  "recordFailure f st =
     (case f of
        ServerUnavailable _ _ \<Rightarrow> (f, st)
      | _ \<Rightarrow>
          (let name = (case mcRow st of None \<Rightarrow> showNat (mcServerId st) | Some r \<Rightarrow> msName r);
               status = (case f of Unauthorized _ \<Rightarrow> NeedsSignIn | _ \<Rightarrow> ServerFails (describeFault f))
           in (ServerUnavailable name status, (onEntry (\<lambda>e. e\<lparr>meFailure := Some status\<rparr>) st)\<lparr>mcChanged := Suc (mcChanged st)\<rparr>)))"

text \<open>\<open>connection\<close> up to its await.\<close>

definition lookUp :: "nat \<Rightarrow> nat \<Rightarrow> mcpState \<Rightarrow> mcpState" where
  "lookUp k attempt st =
     (if mkAborted (mcCalls st ! k) then endCall k (CallThrew (CallerAborted ''aborted'')) st
      else if mcClosed st then endCall k (CallThrew (OtherFault ''MCP connections are closed (the server is reloading)'')) st
      else (case mcRow st of
              None \<Rightarrow> endCall k (CallThrew (OtherFault (''MCP server '' @ showNat (mcServerId st) @ '' was removed''))) st
            | Some row \<Rightarrow> setPhase k (LooksUp row attempt) st))"

definition startCall :: "bool \<Rightarrow> mcpState \<Rightarrow> mcpState" where
  "startCall aborted st =
     (let k = length (mcCalls st)
      in lookUp k 0 (onEntry (\<lambda>e. clearIdle (e\<lparr>meInFlight := Suc (meInFlight e)\<rparr>))
           (st\<lparr>mcCalls := mcCalls st @ [\<lparr>mkPhase = CallReturned, mkAborted = aborted\<rparr>]\<rparr>)))"

definition startOpening :: "mcpServer \<Rightarrow> mcpState \<Rightarrow> mcpState" where
  "startOpening row st =
     (onEntry (\<lambda>e. e\<lparr>meConnecting := Some (length (mcOpenings st))\<rparr>) st)
       \<lparr>mcOpenings := mcOpenings st @
          [\<lparr>moServer = row, moGeneration = meGeneration (mcEntry st), moStage = Connecting, moLive = False, moTold = False, moTools = None\<rparr>]\<rparr>"

definition awaitOpening :: "nat \<Rightarrow> nat \<Rightarrow> mcpState \<Rightarrow> mcpState" where
  "awaitOpening k attempt st =
     (case meConnecting (mcEntry st) of
        None \<Rightarrow> st
      | Some i \<Rightarrow>
          if mkAborted (mcCalls st ! k) then endCall k (CallThrew (CallerAborted ''aborted'')) st
          else setPhase k (AwaitsOpening i attempt) st)"

text \<open>\<open>connection\<close> from its await.\<close>

definition lookedUp :: "nat \<Rightarrow> bool \<Rightarrow> mcpServer \<Rightarrow> nat \<Rightarrow> mcpState \<Rightarrow> mcpState" where
  "lookedUp k signedIn row attempt st =
     (case configurationBlock row signedIn of
        Some b \<Rightarrow> endCall k (CallThrew (ServerUnavailable (msName row) b)) st
      | None \<Rightarrow>
          (case meConnection (mcEntry st) of
             Some i \<Rightarrow> setPhase k (WorksOn i attempt) st
           | None \<Rightarrow> awaitOpening k attempt (if meConnecting (mcEntry st) = None then startOpening row st else st)))"

definition clientConnected :: "nat \<Rightarrow> mcpOpening \<Rightarrow> mcpState \<Rightarrow> mcpState" where
  "clientConnected i m st =
     (if moGeneration m \<noteq> meGeneration (mcEntry st) \<or> mcClosed st
      then onOpening i (\<lambda>m. m\<lparr>moStage := ClosingStale, moLive := True, moTold := True\<rparr>) st
      else onEntry (\<lambda>e. e\<lparr>meConnection := Some i, meFailure := None\<rparr>)
             (onOpening i (\<lambda>m. m\<lparr>moStage := ConnectionOpen, moLive := True\<rparr>) st)
             \<lparr>mcChanged := (if meFailure (mcEntry st) \<noteq> None then Suc (mcChanged st) else mcChanged st)\<rparr>)"

definition openingFails :: "nat \<Rightarrow> mcpFault \<Rightarrow> mcpOpening \<Rightarrow> mcpState \<Rightarrow> mcpState" where
  "openingFails i f m st =
     (if moGeneration m \<noteq> meGeneration (mcEntry st) then onOpening i (\<lambda>m. m\<lparr>moStage := OpenThrew f\<rparr>) st
      else (case recordFailure f st of
              (f', st') \<Rightarrow> onOpening i (\<lambda>m. m\<lparr>moStage := OpenThrew f'\<rparr>) st'))"

definition workFails :: "nat \<Rightarrow> mcpFault \<Rightarrow> nat \<Rightarrow> nat \<Rightarrow> mcpState \<Rightarrow> mcpState" where
  "workFails k f i attempt st =
     (if (case f of HttpFault code _ \<Rightarrow> code = Some 404 | _ \<Rightarrow> False)
      then setPhase k (DropsAfter True f attempt) (dropConnection (Some i) st)
      else if mkAborted (mcCalls st ! k) then endCall k (CallThrew f) st
      else if (case f of ProtocolFault gone _ \<Rightarrow> \<not> gone | _ \<Rightarrow> False) then endCall k (CallThrew f) st
      else setPhase k (DropsAfter False f attempt) (dropConnection (Some i) st))"

definition connectionDropped :: "nat \<Rightarrow> bool \<Rightarrow> mcpFault \<Rightarrow> nat \<Rightarrow> mcpState \<Rightarrow> mcpState" where
  "connectionDropped k retry f attempt st =
     (if retry \<and> attempt = 0 then lookUp k 1 st
      else (case recordFailure f st of (f', st') \<Rightarrow> endCall k (CallThrew f') st'))"

definition disconnectServer :: "mcpState \<Rightarrow> mcpState" where
  "disconnectServer st =
     dropConnection (meConnection (mcEntry st))
       (onEntry (\<lambda>e. e\<lparr>meGeneration := Suc (meGeneration e), meFailure := None, meConnecting := None\<rparr>) st)"

definition idleFires :: "mcpState \<Rightarrow> mcpState" where
  "idleFires st =
     (if \<not> meIdleTimer (mcEntry st) then st
      else (let st1 = onEntry clearIdle st
            in if meInFlight (mcEntry st) = 0 then dropConnection (meConnection (mcEntry st)) st1 else st1))"

subsection \<open>The list of tools\<close>

definition toolsOf :: "nat \<Rightarrow> mcpState \<Rightarrow> mcpState" where
  "toolsOf i st =
     (if i < length (mcOpenings st) \<and> moTools (mcOpenings st ! i) = None
      then (onOpening i (\<lambda>m. m\<lparr>moTools := Some (mcListings st)\<rparr>) st)\<lparr>mcListings := Suc (mcListings st)\<rparr>
      else st)"

definition forgetTools :: "(nat \<Rightarrow> bool) \<Rightarrow> nat \<Rightarrow> mcpState \<Rightarrow> mcpState" where
  "forgetTools which i st =
     onOpening i (\<lambda>m. case moTools m of None \<Rightarrow> m | Some l \<Rightarrow> if which l then m\<lparr>moTools := None\<rparr> else m) st"

text \<open>The pages of a listing, as the server answers them; \<open>None\<close>: there were more to ask for.\<close>

fun listAll :: "('t list \<times> string option) list \<Rightarrow> string option \<Rightarrow> 't list option \<times> string option list" where
  "listAll [] cursor = (None, [cursor])"
| "listAll ((tools, after) # pages) cursor =
     (let asked = (if truthyStr cursor then cursor else None)
      in if truthyStr after
         then (case listAll pages after of (r, asks) \<Rightarrow> (map_option (\<lambda>ts. tools @ ts) r, asked # asks))
         else (Some tools, [asked]))"

subsection \<open>Refreshing tokens in the background\<close>

datatype refreshOutcome = TokensFresh | TokensRefreshed | TokensSuperseded | TokensSignedOut | TokensFailed | RefreshThrew string

datatype refreshNote = WarnsFailed string | WarnsThrew string string | NotesSignedOut string | TellsChanged nat

definition agedServers :: "mcpServer list \<Rightarrow> mcpServer list" where
  "agedServers rows = filter (\<lambda>s. msEnabled s \<and> msAuth s = AuthOauth) rows"

text \<open>Each server with whether the connections were closed when its turn came, and what refreshing did.\<close>

fun refreshAgedTokens :: "(mcpServer \<times> bool \<times> refreshOutcome) list \<Rightarrow> refreshNote list" where
  "refreshAgedTokens [] = []"
| "refreshAgedTokens ((s, shut, r) # rest) =
     (if shut then []
      else (case r of
              RefreshThrew m \<Rightarrow> [WarnsThrew (msName s) m]
            | TokensFailed \<Rightarrow> [WarnsFailed (msName s)]
            | TokensSignedOut \<Rightarrow> [NotesSignedOut (msName s), TellsChanged (msId s)]
            | _ \<Rightarrow> []) @ refreshAgedTokens rest)"

subsection \<open>Events\<close>

datatype mcpEvent =
    CallStarts bool
  | SignedInRead nat bool
  | CallAborts nat
  | CallResumes nat
  | WorkReturns nat
  | WorkFails nat mcpFault
  | DropDone nat
  | ClientConnects nat
  | ClientFails nat bool mcpFault
  | StaleClosed nat
  | FailedClosed nat
  | ConnectingCleared
  | ClientCloses nat
  | IdleFires
  | RowSaved "mcpServer option"
  | Disconnects
  | ConnectionsClose
  | ToolsAsked nat
  | ListingFails nat nat
  | ToolsChanged nat

definition callAt :: "mcpState \<Rightarrow> nat \<Rightarrow> callPhase" where
  "callAt st k = (if k < length (mcCalls st) then mkPhase (mcCalls st ! k) else CallReturned)"

definition withOpening :: "nat \<Rightarrow> (mcpOpening \<Rightarrow> mcpState \<Rightarrow> mcpState) \<Rightarrow> mcpState \<Rightarrow> mcpState" where
  "withOpening i f st = (if i < length (mcOpenings st) then f (mcOpenings st ! i) st else st)"

text \<open>An event that cannot happen in a state changes nothing.\<close>

fun mcpStep :: "mcpEvent \<Rightarrow> mcpState \<Rightarrow> mcpState" where
  "mcpStep (CallStarts aborted) st = startCall aborted st"
| "mcpStep (SignedInRead k signedIn) st =
     (case callAt st k of LooksUp row attempt \<Rightarrow> lookedUp k signedIn row attempt st | _ \<Rightarrow> st)"
| "mcpStep (CallAborts k) st =
     (if k < length (mcCalls st)
      then (let st1 = st\<lparr>mcCalls := (mcCalls st)[k := (mcCalls st ! k)\<lparr>mkAborted := True\<rparr>]\<rparr>
            in case callAt st k of AwaitsOpening _ _ \<Rightarrow> endCall k (CallThrew (CallerAborted ''aborted'')) st1 | _ \<Rightarrow> st1)
      else st)"
| "mcpStep (CallResumes k) st =
     (case callAt st k of
        AwaitsOpening i attempt \<Rightarrow>
          withOpening i (\<lambda>m st. case moStage m of
              ConnectionOpen \<Rightarrow> setPhase k (WorksOn i attempt) st
            | OpenThrew f \<Rightarrow> endCall k (CallThrew f) st
            | _ \<Rightarrow> st) st
      | _ \<Rightarrow> st)"
| "mcpStep (WorkReturns k) st = (case callAt st k of WorksOn _ _ \<Rightarrow> endCall k CallReturned st | _ \<Rightarrow> st)"
| "mcpStep (WorkFails k f) st = (case callAt st k of WorksOn i attempt \<Rightarrow> workFails k f i attempt st | _ \<Rightarrow> st)"
| "mcpStep (DropDone k) st =
     (case callAt st k of DropsAfter retry f attempt \<Rightarrow> connectionDropped k retry f attempt st | _ \<Rightarrow> st)"
| "mcpStep (ClientConnects i) st =
     withOpening i (\<lambda>m st. if moStage m = Connecting then clientConnected i m st else st) st"
| "mcpStep (ClientFails i signInRequired f) st =
     withOpening i (\<lambda>m st. if moStage m = Connecting
       then onOpening i (\<lambda>m. m\<lparr>moStage := ClosingFailed (connectFault (moServer m) signInRequired f), moTold := True\<rparr>) st else st) st"
| "mcpStep (StaleClosed i) st =
     withOpening i (\<lambda>m st. if moStage m = ClosingStale
       then onOpening i (\<lambda>m. m\<lparr>moStage := OpenThrew (OtherFault (''MCP server '' @ msName (moServer m) @ '' changed while connecting''))\<rparr>) st
       else st) st"
| "mcpStep (FailedClosed i) st =
     withOpening i (\<lambda>m st. case moStage m of ClosingFailed f \<Rightarrow> openingFails i f m st | _ \<Rightarrow> st) st"
| "mcpStep ConnectingCleared st =
     (case meConnecting (mcEntry st) of
        None \<Rightarrow> st
      | Some i \<Rightarrow>
          withOpening i (\<lambda>m st. case moStage m of
              ConnectionOpen \<Rightarrow> onEntry (\<lambda>e. e\<lparr>meConnecting := None\<rparr>) st
            | OpenThrew _ \<Rightarrow> onEntry (\<lambda>e. e\<lparr>meConnecting := None\<rparr>) st
            | _ \<Rightarrow> st) st)"
| "mcpStep (ClientCloses i) st =
     onOpening i (\<lambda>m. m\<lparr>moLive := False\<rparr>) (onEntry (\<lambda>e. if meConnection e = Some i then e\<lparr>meConnection := None\<rparr> else e) st)"
| "mcpStep IdleFires st = idleFires st"
| "mcpStep (RowSaved row) st = st\<lparr>mcRow := row\<rparr>"
| "mcpStep Disconnects st = disconnectServer st"
| "mcpStep ConnectionsClose st = disconnectServer (st\<lparr>mcClosed := True\<rparr>)"
| "mcpStep (ToolsAsked k) st = (case callAt st k of WorksOn i _ \<Rightarrow> toolsOf i st | _ \<Rightarrow> st)"
| "mcpStep (ListingFails i l) st = forgetTools (\<lambda>x. x = l) i st"
| "mcpStep (ToolsChanged i) st = forgetTools (\<lambda>_. True) i st"

definition mcpRun :: "mcpServer \<Rightarrow> mcpEvent list \<Rightarrow> mcpState" where
  "mcpRun row evs = fold mcpStep evs (newConnections row)"

end
