(* ===== verification/Mcp_Laws.thy ===== *)
theory Mcp_Laws
  imports Mcp_Connections
begin

text \<open>
  What the connection to an MCP server keeps, whatever its callers, its server and its user do meanwhile: there is one client, the
  one that is shared; and as long as no caller gives up, one that no call uses has its idle timer. Two behaviours that the
  code does not mean to have follow: a caller that gives up while its connection opens leaves it open, and a call that a
  change to the server cuts off records its failure on the changed server.
\<close>

subsection \<open>The invariant\<close>

definition clientKept :: "mcpOpening \<Rightarrow> bool" where
  "clientKept m = (moStage m = ConnectionOpen \<and> moLive m \<and> \<not> moTold m)"

definition clientPending :: "nat \<Rightarrow> mcpOpening \<Rightarrow> bool" where
  "clientPending g m = (moStage m = Connecting \<and> moGeneration m = g)"

definition mcpFrame :: "mcpState \<Rightarrow> mcpOpening list \<times> nat option \<times> nat option \<times> nat \<times> bool" where
  "mcpFrame st = (mcOpenings st, meConnection (mcEntry st), meConnecting (mcEntry st), meGeneration (mcEntry st), mcClosed st)"

definition keptIs :: "mcpOpening list \<Rightarrow> nat option \<Rightarrow> bool" where
  "keptIs ms conn = (\<forall>i<length ms. clientKept (ms ! i) \<longrightarrow> conn = Some i)"

definition connectionIs :: "mcpOpening list \<Rightarrow> nat option \<Rightarrow> nat \<Rightarrow> bool \<Rightarrow> bool" where
  "connectionIs ms conn g shut =
     (case conn of None \<Rightarrow> True | Some i \<Rightarrow> i < length ms \<and> clientKept (ms ! i) \<and> moGeneration (ms ! i) = g \<and> \<not> shut)"

definition pendingIs :: "mcpOpening list \<Rightarrow> nat option \<Rightarrow> nat \<Rightarrow> bool" where
  "pendingIs ms connecting g = (\<forall>i<length ms. clientPending g (ms ! i) \<longrightarrow> connecting = Some i)"

definition connectingIs :: "mcpOpening list \<Rightarrow> nat option \<Rightarrow> nat option \<Rightarrow> nat \<Rightarrow> bool" where
  "connectingIs ms conn connecting g =
     (case connecting of None \<Rightarrow> True
      | Some i \<Rightarrow> i < length ms \<and> moGeneration (ms ! i) = g \<and> (moStage (ms ! i) = Connecting \<longrightarrow> conn = None))"

definition agesOk :: "mcpOpening list \<Rightarrow> nat \<Rightarrow> bool" where
  "agesOk ms g = (\<forall>i<length ms. moGeneration (ms ! i) \<le> g \<and> (moStage (ms ! i) = Connecting \<longrightarrow> \<not> moTold (ms ! i)))"

fun frameOk :: "mcpOpening list \<times> nat option \<times> nat option \<times> nat \<times> bool \<Rightarrow> bool" where
  "frameOk (ms, conn, connecting, g, shut) =
     (keptIs ms conn \<and> connectionIs ms conn g shut \<and> pendingIs ms connecting g \<and> connectingIs ms conn connecting g \<and> agesOk ms g)"

lemmas frame_defs = keptIs_def connectionIs_def pendingIs_def connectingIs_def agesOk_def

definition mcpOk :: "mcpState \<Rightarrow> bool" where
  "mcpOk st = frameOk (mcpFrame st)"

lemma frame_onEntry [simp]:
  "meConnection (f (mcEntry st)) = meConnection (mcEntry st) \<Longrightarrow> meConnecting (f (mcEntry st)) = meConnecting (mcEntry st) \<Longrightarrow>
   meGeneration (f (mcEntry st)) = meGeneration (mcEntry st) \<Longrightarrow> mcpFrame (onEntry f st) = mcpFrame st"
  by (simp add: mcpFrame_def onEntry_def)

lemma schedule_frame [simp]:
  "meConnection (scheduleIdle b e) = meConnection e" "meConnecting (scheduleIdle b e) = meConnecting e"
  "meGeneration (scheduleIdle b e) = meGeneration e" "meInFlight (scheduleIdle b e) = meInFlight e"
  by (simp_all add: scheduleIdle_def)

lemma clear_frame [simp]:
  "meConnection (clearIdle e) = meConnection e" "meConnecting (clearIdle e) = meConnecting e"
  "meGeneration (clearIdle e) = meGeneration e" "meInFlight (clearIdle e) = meInFlight e"
  by (simp_all add: clearIdle_def)

lemma frame_setPhase [simp]: "mcpFrame (setPhase k p st) = mcpFrame st"
  by (simp add: mcpFrame_def setPhase_def)

lemma frame_endCall [simp]: "mcpFrame (endCall k p st) = mcpFrame st"
  by (simp add: endCall_def)

lemma frame_lookUp [simp]: "mcpFrame (lookUp k a st) = mcpFrame st"
  by (simp add: lookUp_def split: option.split)

lemma frame_calls [simp]: "mcpFrame (st\<lparr>mcCalls := cs\<rparr>) = mcpFrame st" "mcpFrame (st\<lparr>mcChanged := n\<rparr>) = mcpFrame st" "mcpFrame (st\<lparr>mcRow := r\<rparr>) = mcpFrame st"
  "mcpFrame (st\<lparr>mcListings := l\<rparr>) = mcpFrame st"
  by (simp_all add: mcpFrame_def)

lemma frame_startCall [simp]: "mcpFrame (startCall b st) = mcpFrame st"
  by (simp add: startCall_def Let_def)

lemma frame_recordFailure: "recordFailure f st = (f', st') \<Longrightarrow> mcpFrame st' = mcpFrame st"
  by (auto simp: recordFailure_def Let_def split: mcpFault.splits)

lemma frame_awaitOpening [simp]: "mcpFrame (awaitOpening k a st) = mcpFrame st"
  by (simp add: awaitOpening_def split: option.split)

lemma ok_frame: "mcpFrame st' = mcpFrame st \<Longrightarrow> mcpOk st \<Longrightarrow> mcpOk st'"
  by (simp add: mcpOk_def)

text \<open>One opening is replaced by another; the rest of the frame may change too.\<close>

lemma frame_update:
  assumes "frameOk (ms, conn, connecting, g, shut)" "i < length ms" "moGeneration m \<le> g" "moStage m = Connecting \<longrightarrow> \<not> moTold m"
    "clientKept m \<longrightarrow> conn' = Some i"
    "\<And>j. conn = Some j \<Longrightarrow> j \<noteq> i \<Longrightarrow> conn' = Some j"
    "\<And>j. conn' = Some j \<Longrightarrow> if j = i then clientKept m \<and> moGeneration m = g \<and> \<not> shut else conn = Some j"
    "clientPending g m \<longrightarrow> clientPending g (ms ! i)" "moGeneration m = moGeneration (ms ! i)"
    "\<And>j. connecting = Some j \<Longrightarrow> conn = None \<Longrightarrow> moStage (ms[i := m] ! j) = Connecting \<Longrightarrow> conn' = None"
  shows "frameOk (ms[i := m], conn', connecting, g, shut)"
proof -
  have "keptIs (ms[i := m]) conn'" using assms(1,2,5,6) by (auto simp: keptIs_def nth_list_update)
  moreover have "connectionIs (ms[i := m]) conn' g shut"
    using assms(1,2,7) by (auto simp: connectionIs_def nth_list_update split: option.splits if_splits)
  moreover have "pendingIs (ms[i := m]) connecting g" using assms(1,2,8) by (auto simp: pendingIs_def nth_list_update)
  moreover have "connectingIs (ms[i := m]) conn' connecting g"
  proof (cases connecting)
    case (Some j)
    then have j: "j < length ms" "moGeneration (ms ! j) = g" "moStage (ms ! j) = Connecting \<longrightarrow> conn = None"
      using assms(1) by (auto simp: connectingIs_def)
    have "moStage (ms[i := m] ! j) = Connecting \<longrightarrow> conn = None"
      using j assms(2,8,9) by (cases "j = i") (auto simp: clientPending_def)
    then show ?thesis using Some j assms(2,9,10) by (auto simp: connectingIs_def nth_list_update)
  qed (simp add: connectingIs_def)
  moreover have "agesOk (ms[i := m]) g" using assms(1-4) by (auto simp: agesOk_def nth_list_update)
  ultimately show ?thesis by simp
qed

lemma frame_here: "mcpOk st \<Longrightarrow> frameOk (mcOpenings st, meConnection (mcEntry st), meConnecting (mcEntry st), meGeneration (mcEntry st), mcClosed st)"
  by (simp add: mcpOk_def mcpFrame_def)

lemma ok_opening:
  assumes "mcpOk st"
    "\<And>m. clientKept (f m) = clientKept m" "\<And>m. moStage (f m) = Connecting \<Longrightarrow> moStage m = Connecting \<and> (moTold (f m) \<longrightarrow> moTold m)"
    "\<And>m. moGeneration (f m) = moGeneration m"
  shows "mcpOk (onOpening i f st)"
proof (cases "i < length (mcOpenings st)")
  case True
  have ok: "agesOk (mcOpenings st) (meGeneration (mcEntry st))" "connectionIs (mcOpenings st) (meConnection (mcEntry st)) (meGeneration (mcEntry st)) (mcClosed st)"
    "keptIs (mcOpenings st) (meConnection (mcEntry st))"
    using frame_here [OF assms(1)] by simp_all
  have "frameOk ((mcOpenings st)[i := f (mcOpenings st ! i)], meConnection (mcEntry st), meConnecting (mcEntry st), meGeneration (mcEntry st), mcClosed st)"
    using ok True assms(2,4) assms(3) [of "mcOpenings st ! i"]
    by (intro frame_update [OF frame_here [OF assms(1)] True])
       (auto simp: clientPending_def agesOk_def keptIs_def connectionIs_def split: option.splits)
  then show ?thesis using True by (simp add: mcpOk_def mcpFrame_def onOpening_def)
qed (use assms(1) in \<open>simp add: onOpening_def\<close>)

lemma ok_startOpening:
  assumes "mcpOk st" "meConnection (mcEntry st) = None" "meConnecting (mcEntry st) = None"
  shows "mcpOk (startOpening row st)"
proof -
  define ms where "ms = mcOpenings st"
  define g where "g = meGeneration (mcEntry st)"
  define m where "m = \<lparr>moServer = row, moGeneration = g, moStage = Connecting, moLive = False, moTold = False, moTools = None\<rparr>"
  have f: "keptIs ms None" "pendingIs ms None g" "agesOk ms g" using frame_here [OF assms(1)] assms(2,3) by (simp_all add: ms_def g_def)
  have "keptIs (ms @ [m]) None" "pendingIs (ms @ [m]) (Some (length ms)) g" "agesOk (ms @ [m]) g"
    using f by (auto simp: keptIs_def pendingIs_def agesOk_def nth_append less_Suc_eq clientKept_def m_def)
  moreover have "connectingIs (ms @ [m]) None (Some (length ms)) g" by (simp add: connectingIs_def m_def)
  ultimately have "frameOk (ms @ [m], None, Some (length ms), g, mcClosed st)" by (simp add: connectionIs_def)
  then show ?thesis using assms(2) by (simp add: mcpOk_def mcpFrame_def startOpening_def onEntry_def ms_def g_def m_def)
qed

definition isOpen :: "mcpOpening list \<Rightarrow> nat \<Rightarrow> bool" where
  "isOpen ms i = (i < length ms \<and> moStage (ms ! i) = ConnectionOpen)"

lemma ok_drop:
  assumes "mcpOk st" "case c of None \<Rightarrow> meConnection (mcEntry st) = None | Some i \<Rightarrow> isOpen (mcOpenings st) i"
  shows "mcpOk (dropConnection c st)"
proof (cases c)
  case (Some i)
  then have i: "i < length (mcOpenings st)" "moStage (mcOpenings st ! i) = ConnectionOpen" using assms(2) by (simp_all add: isOpen_def)
  define m where "m = (mcOpenings st ! i)\<lparr>moTold := True\<rparr>"
  define conn where "conn = (if meConnection (mcEntry st) = Some i then None else meConnection (mcEntry st))"
  have a: "agesOk (mcOpenings st) (meGeneration (mcEntry st))" using frame_here [OF assms(1)] by simp
  have "frameOk ((mcOpenings st)[i := m], conn, meConnecting (mcEntry st), meGeneration (mcEntry st), mcClosed st)"
    using a i by (intro frame_update [OF frame_here [OF assms(1)] i(1)])
      (auto simp: m_def conn_def clientKept_def clientPending_def agesOk_def split: if_splits)
  then show ?thesis
    using i by (simp add: mcpOk_def mcpFrame_def dropConnection_def Some onOpening_def onEntry_def clearIdle_def m_def conn_def if_distrib cong: if_cong)
qed (use assms in \<open>simp add: dropConnection_def mcpOk_def\<close>)

lemma ok_connected:
  assumes "mcpOk st" "i < length (mcOpenings st)" "moStage (mcOpenings st ! i) = Connecting"
  shows "mcpOk (clientConnected i (mcOpenings st ! i) st)"
proof -
  note f = frame_here [OF assms(1)]
  have a: "agesOk (mcOpenings st) (meGeneration (mcEntry st))" and p: "pendingIs (mcOpenings st) (meConnecting (mcEntry st)) (meGeneration (mcEntry st))"
    and c: "connectingIs (mcOpenings st) (meConnection (mcEntry st)) (meConnecting (mcEntry st)) (meGeneration (mcEntry st))"
    and k: "connectionIs (mcOpenings st) (meConnection (mcEntry st)) (meGeneration (mcEntry st)) (mcClosed st)"
    using f by simp_all
  show ?thesis
  proof (cases "moGeneration (mcOpenings st ! i) \<noteq> meGeneration (mcEntry st) \<or> mcClosed st")
    case True
    have "frameOk ((mcOpenings st)[i := (mcOpenings st ! i)\<lparr>moStage := ClosingStale, moLive := True, moTold := True\<rparr>], meConnection (mcEntry st),
        meConnecting (mcEntry st), meGeneration (mcEntry st), mcClosed st)"
      using a k assms(2,3) by (intro frame_update [OF f assms(2)])
        (auto simp: clientKept_def clientPending_def agesOk_def connectionIs_def connectingIs_def nth_list_update split: option.splits if_splits)
    then show ?thesis using True assms(2) by (simp add: mcpOk_def mcpFrame_def clientConnected_def onOpening_def)
  next
    case False
    have n: "meConnecting (mcEntry st) = Some i" using p False assms(2,3) by (auto simp: pendingIs_def clientPending_def)
    then have none: "meConnection (mcEntry st) = None" using c assms(3) by (simp add: connectingIs_def)
    have "\<not> moTold (mcOpenings st ! i)" using a assms(2,3) by (simp add: agesOk_def)
    then have "frameOk ((mcOpenings st)[i := (mcOpenings st ! i)\<lparr>moStage := ConnectionOpen, moLive := True\<rparr>], Some i,
        meConnecting (mcEntry st), meGeneration (mcEntry st), mcClosed st)"
      using a False assms(2) none n by (intro frame_update [OF f assms(2)])
        (auto simp: clientKept_def clientPending_def agesOk_def split: if_splits)
    then show ?thesis using False assms(2) by (simp add: mcpOk_def mcpFrame_def clientConnected_def onOpening_def onEntry_def)
  qed
qed

lemma ok_settle:
  assumes "mcpOk st" "\<And>m. moStage (f m) \<notin> {Connecting, ConnectionOpen}" "\<And>m. moGeneration (f m) = moGeneration m"
    "i < length (mcOpenings st) \<Longrightarrow> moStage (mcOpenings st ! i) \<noteq> ConnectionOpen"
  shows "mcpOk (onOpening i f st)"
proof (cases "i < length (mcOpenings st)")
  case True
  have a: "agesOk (mcOpenings st) (meGeneration (mcEntry st))" and k: "connectionIs (mcOpenings st) (meConnection (mcEntry st)) (meGeneration (mcEntry st)) (mcClosed st)"
    and c: "connectingIs (mcOpenings st) (meConnection (mcEntry st)) (meConnecting (mcEntry st)) (meGeneration (mcEntry st))"
    using frame_here [OF assms(1)] by simp_all
  have "meConnection (mcEntry st) \<noteq> Some i" using k assms(4) True by (auto simp: connectionIs_def clientKept_def)
  then have "frameOk ((mcOpenings st)[i := f (mcOpenings st ! i)], meConnection (mcEntry st), meConnecting (mcEntry st), meGeneration (mcEntry st), mcClosed st)"
    using a c True assms(2,3) [of "mcOpenings st ! i"] by (intro frame_update [OF frame_here [OF assms(1)] True])
      (auto simp: clientKept_def clientPending_def agesOk_def connectingIs_def nth_list_update split: if_splits)
  then show ?thesis using True by (simp add: mcpOk_def mcpFrame_def onOpening_def)
qed (use assms(1) in \<open>simp add: onOpening_def\<close>)

lemma kept_other: "keptIs ms (Some i) \<Longrightarrow> j < length ms \<Longrightarrow> j \<noteq> i \<Longrightarrow> \<not> clientKept (ms ! j)"
  unfolding keptIs_def by blast

lemma pending_other: "pendingIs ms (Some i) g \<Longrightarrow> moStage (ms ! i) \<noteq> Connecting \<Longrightarrow> pendingIs ms None g"
  unfolding pendingIs_def clientPending_def by blast

lemma ok_disconnect:
  assumes "mcpOk st"
  shows "mcpOk (disconnectServer (st\<lparr>mcClosed := shut\<rparr>))"
proof -
  note f = frame_here [OF assms]
  show ?thesis
  proof (cases "meConnection (mcEntry st)")
    case None
    then have "keptIs (mcOpenings st) None" "agesOk (mcOpenings st) (meGeneration (mcEntry st))" using f by simp_all
    then have "frameOk (mcOpenings st, None, None, Suc (meGeneration (mcEntry st)), shut)"
      by (fastforce simp: connectionIs_def connectingIs_def pendingIs_def clientPending_def agesOk_def)
    then show ?thesis
      using None by (simp add: mcpOk_def mcpFrame_def disconnectServer_def dropConnection_def onEntry_def clearIdle_def)
  next
    case (Some i)
    let ?ms = "(mcOpenings st)[i := (mcOpenings st ! i)\<lparr>moTold := True\<rparr>]"
    have i: "i < length (mcOpenings st)" "moStage (mcOpenings st ! i) = ConnectionOpen" using f Some by (simp_all add: connectionIs_def clientKept_def)
    have "keptIs (mcOpenings st) (Some i)" using f Some by simp
    then have "\<not> clientKept (?ms ! j)" if "j < length (mcOpenings st)" for j
      using that i(1) kept_other [of _ i j] by (cases "j = i") (simp_all add: clientKept_def)
    then have "keptIs ?ms None" by (simp add: keptIs_def)
    moreover have "agesOk (mcOpenings st) (meGeneration (mcEntry st))" using f by simp
    then have "agesOk ?ms (Suc (meGeneration (mcEntry st)))" "pendingIs ?ms None (Suc (meGeneration (mcEntry st)))"
      using i by (auto simp: agesOk_def pendingIs_def clientPending_def nth_list_update le_Suc_eq)
    ultimately have "frameOk (?ms, None, None, Suc (meGeneration (mcEntry st)), shut)"
      by (simp add: connectionIs_def connectingIs_def)
    then show ?thesis
      using Some i by (simp add: mcpOk_def mcpFrame_def disconnectServer_def dropConnection_def onEntry_def onOpening_def clearIdle_def)
  qed
qed

subsection \<open>Calls and what they hold\<close>

text \<open>What a call works on was opened, its opening is there, and a call that ended is no longer counted.\<close>

definition phaseOk :: "mcpOpening list \<Rightarrow> callPhase \<Rightarrow> bool" where
  "phaseOk ms p = (case p of WorksOn i _ \<Rightarrow> isOpen ms i | AwaitsOpening i _ \<Rightarrow> i < length ms | _ \<Rightarrow> True)"

definition callsOk :: "mcpState \<Rightarrow> bool" where
  "callsOk st = list_all (\<lambda>c. phaseOk (mcOpenings st) (mkPhase c)) (mcCalls st)"

lemma phase_mono: "phaseOk ms p \<Longrightarrow> length ms \<le> length ms' \<Longrightarrow> (\<And>i. isOpen ms i \<Longrightarrow> isOpen ms' i) \<Longrightarrow> phaseOk ms' p"
  by (auto simp: phaseOk_def split: callPhase.splits)

lemma calls_mono:
  assumes "callsOk st" "mcCalls st' = mcCalls st" "length (mcOpenings st) \<le> length (mcOpenings st')" "\<And>i. isOpen (mcOpenings st) i \<Longrightarrow> isOpen (mcOpenings st') i"
  shows "callsOk st'"
  using assms phase_mono by (fastforce simp: callsOk_def list_all_iff)

lemma calls_set:
  assumes "callsOk st" "phaseOk (mcOpenings st) p"
  shows "callsOk (setPhase k p st)"
  using assms by (auto simp: callsOk_def setPhase_def list_all_iff dest!: set_update_subset_insert [THEN subsetD])

lemma calls_entry [simp]: "callsOk (onEntry f st) = callsOk st"
  by (simp add: callsOk_def onEntry_def)

lemma ended_phase [simp]: "phaseOk ms CallReturned" "phaseOk ms (CallThrew f)" "phaseOk ms (LooksUp r a)" "phaseOk ms (DropsAfter b f a)"
  "phaseOk ms (WorksOn i a) = isOpen ms i" "phaseOk ms (AwaitsOpening i a) = (i < length ms)"
  by (simp_all add: phaseOk_def)

lemma calls_end: "callsOk st \<Longrightarrow> phaseOk (mcOpenings st) p \<Longrightarrow> callsOk (endCall k p st)"
  by (simp add: endCall_def calls_set)

lemma calls_look: "callsOk st \<Longrightarrow> callsOk (lookUp k a st)"
  by (simp add: lookUp_def calls_end calls_set split: option.split)

lemma calls_start: "callsOk st \<Longrightarrow> callsOk (startCall b st)"
  unfolding startCall_def Let_def by (intro calls_look) (simp add: callsOk_def onEntry_def)

lemma calls_opening:
  assumes "callsOk st" "i < length (mcOpenings st) \<Longrightarrow> moStage (mcOpenings st ! i) = ConnectionOpen \<Longrightarrow> moStage (f (mcOpenings st ! i)) = ConnectionOpen"
  shows "callsOk (onOpening i f st)"
  by (rule calls_mono [OF assms(1)]) (use assms(2) in \<open>auto simp: onOpening_def isOpen_def nth_list_update\<close>)

lemma calls_drop: "callsOk st \<Longrightarrow> callsOk (dropConnection c st)"
  by (auto simp: dropConnection_def Let_def intro!: calls_opening split: option.splits)

lemma calls_record: "recordFailure f st = (f', st') \<Longrightarrow> callsOk st \<Longrightarrow> callsOk st'"
  by (auto simp: recordFailure_def Let_def callsOk_def onEntry_def split: mcpFault.splits)

lemma record_openings: "recordFailure f st = (f', st') \<Longrightarrow> mcOpenings st' = mcOpenings st \<and> mcCalls st' = mcCalls st"
  by (auto simp: recordFailure_def Let_def onEntry_def split: mcpFault.splits)

lemma call_at: "callsOk st \<Longrightarrow> phaseOk (mcOpenings st) (callAt st k)"
  by (simp add: callsOk_def callAt_def list_all_length)

definition mcpInv :: "mcpState \<Rightarrow> bool" where
  "mcpInv st = (mcpOk st \<and> callsOk st)"

lemma look_openings [simp]: "mcOpenings (lookUp k a st) = mcOpenings st" "mcOpenings (setPhase k p st) = mcOpenings st" "mcOpenings (endCall k p st) = mcOpenings st"
  "mcOpenings (onEntry f st) = mcOpenings st"
  by (simp_all add: lookUp_def setPhase_def endCall_def onEntry_def split: option.split)

lemma inv_end: "mcpInv st \<Longrightarrow> phaseOk (mcOpenings st) p \<Longrightarrow> mcpInv (endCall k p st)"
  by (auto simp: mcpInv_def calls_end intro: ok_frame [rotated])

lemma inv_set: "mcpInv st \<Longrightarrow> phaseOk (mcOpenings st) p \<Longrightarrow> mcpInv (setPhase k p st)"
  by (auto simp: mcpInv_def calls_set intro: ok_frame [rotated])

lemma inv_look: "mcpInv st \<Longrightarrow> mcpInv (lookUp k a st)"
  by (auto simp: mcpInv_def calls_look intro: ok_frame [rotated])

lemma inv_drop: "mcpInv st \<Longrightarrow> (case c of None \<Rightarrow> meConnection (mcEntry st) = None | Some i \<Rightarrow> isOpen (mcOpenings st) i) \<Longrightarrow> mcpInv (dropConnection c st)"
  by (simp add: mcpInv_def ok_drop calls_drop)

lemma inv_record: "recordFailure f st = (f', st') \<Longrightarrow> mcpInv st \<Longrightarrow> mcpInv st'"
  using frame_recordFailure ok_frame calls_record by (metis mcpInv_def)

lemma inv_opening_settled:
  assumes "mcpInv st" "\<And>m. moStage (f m) \<notin> {Connecting, ConnectionOpen}" "\<And>m. moGeneration (f m) = moGeneration m"
    "i < length (mcOpenings st) \<Longrightarrow> moStage (mcOpenings st ! i) \<noteq> ConnectionOpen"
  shows "mcpInv (onOpening i f st)"
  using assms ok_settle [of st f i] calls_opening [of st i f] by (simp add: mcpInv_def)

lemma kept_open: "mcpInv st \<Longrightarrow> meConnection (mcEntry st) = Some i \<Longrightarrow> isOpen (mcOpenings st) i"
  using frame_here [of st] by (simp add: mcpInv_def isOpen_def connectionIs_def clientKept_def)

lemma inv_lookedUp:
  assumes "mcpInv st"
  shows "mcpInv (lookedUp k signedIn row attempt st)"
proof (cases "configurationBlock row signedIn = None \<and> meConnection (mcEntry st) = None")
  case False
  then show ?thesis using assms kept_open by (auto simp: lookedUp_def inv_end inv_set split: option.splits)
next
  case True
  define st1 where "st1 = (if meConnecting (mcEntry st) = None then startOpening row st else st)"
  have i: "mcpInv st1"
  proof (cases "meConnecting (mcEntry st) = None")
    case n: True
    have "callsOk (startOpening row st)"
      by (rule calls_mono [of st]) (use assms in \<open>auto simp: mcpInv_def startOpening_def onEntry_def isOpen_def nth_append\<close>)
    then show ?thesis using assms True n ok_startOpening by (simp add: mcpInv_def st1_def)
  qed (use assms in \<open>auto simp: st1_def\<close>)
  have "j < length (mcOpenings st1)" if "meConnecting (mcEntry st1) = Some j" for j
    using frame_here [of st1] i that by (simp add: mcpInv_def connectingIs_def)
  then have "mcpInv (awaitOpening k attempt st1)"
    using i by (auto simp: awaitOpening_def inv_end inv_set split: option.splits)
  then show ?thesis using True by (simp add: lookedUp_def st1_def)
qed

lemma inv_connected:
  assumes "mcpInv st" "i < length (mcOpenings st)" "moStage (mcOpenings st ! i) = Connecting"
  shows "mcpInv (clientConnected i (mcOpenings st ! i) st)"
proof -
  have "callsOk (clientConnected i (mcOpenings st ! i) st)"
    by (rule calls_mono [of st]) (use assms in \<open>auto simp: mcpInv_def clientConnected_def onOpening_def onEntry_def isOpen_def nth_list_update\<close>)
  then show ?thesis using assms ok_connected by (simp add: mcpInv_def)
qed

lemma inv_closes:
  assumes "mcpInv st"
  shows "mcpInv (mcpStep (ClientCloses i) st)"
proof -
  define st1 where "st1 = mcpStep (ClientCloses i) st"
  have c: "callsOk st1" using assms by (auto simp: mcpInv_def st1_def intro!: calls_opening)
  define conn where "conn = (if meConnection (mcEntry st) = Some i then None else meConnection (mcEntry st))"
  note f = frame_here [of st]
  have "mcpOk st1"
  proof (cases "i < length (mcOpenings st)")
    case True
    have "frameOk ((mcOpenings st)[i := (mcOpenings st ! i)\<lparr>moLive := False\<rparr>], conn, meConnecting (mcEntry st), meGeneration (mcEntry st), mcClosed st)"
      using assms f True by (intro frame_update [OF f True])
        (auto simp: mcpInv_def clientKept_def clientPending_def agesOk_def conn_def split: if_splits)
    then show ?thesis using True by (simp add: mcpOk_def mcpFrame_def st1_def onOpening_def onEntry_def conn_def if_distrib cong: if_cong)
  next
    case False
    then have "mcpFrame st1 = mcpFrame st"
      using assms f by (auto simp: mcpInv_def mcpFrame_def st1_def onOpening_def onEntry_def connectionIs_def)
    then show ?thesis using ok_frame assms by (simp add: mcpInv_def)
  qed
  then show ?thesis using c by (simp add: mcpInv_def st1_def)
qed

lemma inv_tools:
  assumes "mcpInv st" "\<And>m. moStage (f m) = moStage m \<and> moLive (f m) = moLive m \<and> moTold (f m) = moTold m \<and> moGeneration (f m) = moGeneration m"
  shows "mcpInv (onOpening i f st)"
  using assms by (auto simp: mcpInv_def clientKept_def intro!: ok_opening calls_opening)

lemma inv_listings [simp]: "mcpInv (st\<lparr>mcListings := l\<rparr>) = mcpInv st" "mcpInv (st\<lparr>mcRow := r\<rparr>) = mcpInv st"
  by (simp_all add: mcpInv_def mcpOk_def callsOk_def)

lemma inv_disconnect: "mcpInv st \<Longrightarrow> mcpInv (disconnectServer (st\<lparr>mcClosed := shut\<rparr>))"
  unfolding mcpInv_def using ok_disconnect by (auto simp: disconnectServer_def callsOk_def [of "st\<lparr>mcClosed := shut\<rparr>"] callsOk_def [of st] intro!: calls_drop)

lemma inv_entry: "mcpFrame (onEntry f st) = mcpFrame st \<Longrightarrow> mcpInv (onEntry f st) = mcpInv st"
  by (simp add: mcpInv_def mcpOk_def)

lemma connection_step_inv:
  assumes "mcpInv st"
  shows "mcpInv (mcpStep ev st)"
proof (cases ev)
  case (CallStarts b)
  then show ?thesis using assms by (auto simp: mcpInv_def calls_start intro: ok_frame [rotated])
next
  case (SignedInRead k s)
  then show ?thesis using assms by (auto simp: inv_lookedUp split: callPhase.split)
next
  case (CallAborts k)
  define st1 where "st1 = st\<lparr>mcCalls := (mcCalls st)[k := (mcCalls st ! k)\<lparr>mkAborted := True\<rparr>]\<rparr>"
  have "mcpInv st1" if "k < length (mcCalls st)"
  proof -
    have "callsOk st1"
      using assms that by (auto simp: mcpInv_def st1_def callsOk_def list_all_length nth_list_update)
    then show ?thesis using assms by (simp add: mcpInv_def mcpOk_def st1_def)
  qed
  then show ?thesis using CallAborts assms by (auto simp: Let_def st1_def [symmetric] inv_end split: callPhase.split)
next
  case (CallResumes k)
  then show ?thesis
    using assms by (auto simp: withOpening_def isOpen_def inv_end inv_set split: callPhase.split openStage.split)
next
  case (WorkReturns k)
  then show ?thesis using assms by (auto simp: inv_end split: callPhase.split)
next
  case (WorkFails k f)
  have "isOpen (mcOpenings st) i" if "callAt st k = WorksOn i a" for i a
    using call_at [of st k] assms that by (simp add: mcpInv_def)
  then show ?thesis
    using WorkFails assms by (auto simp: workFails_def inv_end inv_set inv_drop split: callPhase.split)
next
  case (DropDone k)
  have "mcpInv (connectionDropped k b f a st)" for b f a
    using assms inv_record [of f st] by (auto simp: connectionDropped_def inv_look inv_end split: prod.split)
  then show ?thesis using DropDone assms by (simp split: callPhase.split)
next
  case (ClientConnects i)
  then show ?thesis using assms by (simp add: withOpening_def inv_connected)
next
  case (ClientFails i b f)
  then show ?thesis using assms by (auto simp: withOpening_def intro!: inv_opening_settled)
next
  case (StaleClosed i)
  then show ?thesis using assms by (auto simp: withOpening_def intro!: inv_opening_settled)
next
  case (FailedClosed i)
  have "mcpInv (openingFails i f (mcOpenings st ! i) st)" if "moStage (mcOpenings st ! i) = ClosingFailed f" for f
    using assms that inv_record [of f st] record_openings [of f st]
    by (auto simp: openingFails_def split: prod.split intro!: inv_opening_settled)
  then show ?thesis using FailedClosed assms by (simp add: withOpening_def split: openStage.split)
next
  case ConnectingCleared
  have "mcpInv (onEntry (\<lambda>e. e\<lparr>meConnecting := None\<rparr>) st)"
    if "meConnecting (mcEntry st) = Some i" "i < length (mcOpenings st)" "moStage (mcOpenings st ! i) \<noteq> Connecting" for i
  proof -
    have f: "keptIs (mcOpenings st) (meConnection (mcEntry st))" "pendingIs (mcOpenings st) (meConnecting (mcEntry st)) (meGeneration (mcEntry st))"
      "connectionIs (mcOpenings st) (meConnection (mcEntry st)) (meGeneration (mcEntry st)) (mcClosed st)" "agesOk (mcOpenings st) (meGeneration (mcEntry st))"
      using frame_here [of st] assms by (simp_all add: mcpInv_def)
    have "pendingIs (mcOpenings st) None (meGeneration (mcEntry st))"
      using f(2) that pending_other by simp
    then have "mcpOk (onEntry (\<lambda>e. e\<lparr>meConnecting := None\<rparr>) st)"
      using f by (simp add: mcpOk_def mcpFrame_def onEntry_def connectingIs_def)
    then show ?thesis using assms by (simp add: mcpInv_def)
  qed
  then show ?thesis using ConnectingCleared assms by (auto simp: withOpening_def split: option.split openStage.split)
next
  case (ClientCloses i)
  then show ?thesis using assms inv_closes by blast
next
  case IdleFires
  have e: "mcpInv (onEntry clearIdle st)" using assms by (simp add: inv_entry)
  have "isOpen (mcOpenings (onEntry clearIdle st)) i" if "meConnection (mcEntry st) = Some i" for i
    using kept_open [OF assms that] by simp
  then have "mcpInv (dropConnection (meConnection (mcEntry st)) (onEntry clearIdle st))"
    using e by (intro inv_drop) (auto simp: onEntry_def split: option.split)
  then show ?thesis using IdleFires assms e by (simp add: idleFires_def Let_def)
next
  case (RowSaved r)
  then show ?thesis using assms by simp
next
  case Disconnects
  then show ?thesis using assms inv_disconnect [of st "mcClosed st"] by simp
next
  case ConnectionsClose
  then show ?thesis using assms inv_disconnect by simp
next
  case (ToolsAsked k)
  have "mcpInv (toolsOf i st)" for i using assms by (simp add: toolsOf_def inv_tools)
  then show ?thesis using ToolsAsked assms by (simp split: callPhase.split)
next
  case (ListingFails i l)
  then show ?thesis using assms by (auto simp: forgetTools_def intro!: inv_tools split: option.splits if_splits)
next
  case (ToolsChanged i)
  then show ?thesis using assms by (auto simp: forgetTools_def intro!: inv_tools split: option.splits if_splits)
qed

lemma connections_run_inv: "mcpInv (mcpRun row evs)"
proof -
  have "mcpInv (fold mcpStep evs st)" if "mcpInv st" for st
    using that by (induction evs arbitrary: st) (simp_all add: connection_step_inv)
  moreover have "mcpInv (newConnections row)"
    by (simp add: mcpInv_def mcpOk_def mcpFrame_def newConnections_def newEntry_def callsOk_def frame_defs)
  ultimately show ?thesis by (simp add: mcpRun_def)
qed


subsection \<open>A connection that no call uses\<close>

definition unended :: "callPhase \<Rightarrow> bool" where
  "unended p = (case p of CallReturned \<Rightarrow> False | CallThrew _ \<Rightarrow> False | _ \<Rightarrow> True)"

lemma unended_simps [simp]: "\<not> unended CallReturned" "\<not> unended (CallThrew f)" "unended (LooksUp r a)" "unended (AwaitsOpening i a)" "unended (WorksOn i a)"
  "unended (DropsAfter b f a)"
  by (simp_all add: unended_def)

definition liveCalls :: "mcpCall list \<Rightarrow> nat" where
  "liveCalls cs = length (filter (\<lambda>c. unended (mkPhase c)) cs)"

definition awaitedBy :: "mcpCall list \<Rightarrow> nat \<Rightarrow> bool" where
  "awaitedBy cs i = list_ex (\<lambda>c. case mkPhase c of AwaitsOpening j _ \<Rightarrow> j = i | _ \<Rightarrow> False) cs"

definition timerOk :: "mcpEntry \<Rightarrow> bool \<Rightarrow> bool" where
  "timerOk e shut = (meConnection e = None \<or> 0 < meInFlight e \<or> shut \<or> meIdleTimer e)"

definition awaitsOk :: "mcpOpening list \<Rightarrow> mcpCall list \<Rightarrow> bool" where
  "awaitsOk ms cs = (\<forall>i<length ms. moStage (ms ! i) = Connecting \<longrightarrow> awaitedBy cs i)"

definition abortsOk :: "mcpCall list \<Rightarrow> bool" where
  "abortsOk cs = list_all (\<lambda>c. mkAborted c \<longrightarrow> \<not> unended (mkPhase c)) cs"

definition idleOk :: "mcpState \<Rightarrow> bool" where
  "idleOk st =
     (meInFlight (mcEntry st) = liveCalls (mcCalls st) \<and> timerOk (mcEntry st) (mcClosed st) \<and> awaitsOk (mcOpenings st) (mcCalls st) \<and> abortsOk (mcCalls st))"

lemma filter_update:
  "k < length xs \<Longrightarrow> length (filter P (xs[k := x])) + (if P (xs ! k) then 1 else 0) = length (filter P xs) + (if P x then 1 else 0)"
proof (induction xs arbitrary: k)
  case (Cons y xs)
  then show ?case by (cases k) auto
qed simp

lemma call_lives: "unended (callAt st k) \<Longrightarrow> k < length (mcCalls st) \<and> callAt st k = mkPhase (mcCalls st ! k)"
  by (auto simp: callAt_def split: if_splits)

lemma live_set:
  assumes "unended (callAt st k)"
  shows "liveCalls (mcCalls (setPhase k p st)) = (if unended p then liveCalls (mcCalls st) else liveCalls (mcCalls st) - 1)" "0 < liveCalls (mcCalls st)"
proof -
  have k: "k < length (mcCalls st)" "unended (mkPhase (mcCalls st ! k))" using call_lives [OF assms] assms by auto
  then show "0 < liveCalls (mcCalls st)" by (auto simp: liveCalls_def filter_empty_conv)
  show "liveCalls (mcCalls (setPhase k p st)) = (if unended p then liveCalls (mcCalls st) else liveCalls (mcCalls st) - 1)"
    using k filter_update [of k "mcCalls st" "\<lambda>c. unended (mkPhase c)" "(mcCalls st ! k)\<lparr>mkPhase := p\<rparr>"]
    by (auto simp: setPhase_def liveCalls_def split: if_splits)
qed

lemma awaited_live: "awaitedBy cs i \<Longrightarrow> 0 < liveCalls cs"
proof -
  assume "awaitedBy cs i"
  then obtain c where c: "c \<in> set cs" "case mkPhase c of AwaitsOpening j _ \<Rightarrow> j = i | _ \<Rightarrow> False" by (auto simp: awaitedBy_def list_ex_iff)
  then have "unended (mkPhase c)" by (cases "mkPhase c") simp_all
  then have "c \<in> set (filter (\<lambda>c. unended (mkPhase c)) cs)" using c by simp
  then show ?thesis unfolding liveCalls_def by (rule length_pos_if_in_set)
qed

lemma awaited_set:
  assumes "awaitedBy (mcCalls st) i" "\<And>a. callAt st k \<noteq> AwaitsOpening i a"
  shows "awaitedBy (mcCalls (setPhase k p st)) i"
proof -
  obtain j where j: "j < length (mcCalls st)" "case mkPhase (mcCalls st ! j) of AwaitsOpening n _ \<Rightarrow> n = i | _ \<Rightarrow> False"
    using assms(1) by (auto simp: awaitedBy_def list_ex_length)
  then obtain a where "mkPhase (mcCalls st ! j) = AwaitsOpening i a" by (auto split: callPhase.splits)
  then have "j \<noteq> k" using assms(2) [of a] j(1) by (auto simp: callAt_def)
  then show ?thesis using j by (auto simp: awaitedBy_def setPhase_def list_ex_length nth_list_update)
qed

definition leavesNone :: "mcpState \<Rightarrow> nat \<Rightarrow> bool" where
  "leavesNone st k = (case callAt st k of AwaitsOpening i _ \<Rightarrow> i < length (mcOpenings st) \<longrightarrow> moStage (mcOpenings st ! i) \<noteq> Connecting | _ \<Rightarrow> True)"

lemma awaits_set: "awaitsOk (mcOpenings st) (mcCalls st) \<Longrightarrow> leavesNone st k \<Longrightarrow> awaitsOk (mcOpenings st) (mcCalls (setPhase k p st))"
  by (auto simp: awaitsOk_def leavesNone_def intro!: awaited_set split: callPhase.splits)

lemma aborts_set:
  assumes "abortsOk (mcCalls st)" "unended (callAt st k)"
  shows "abortsOk (mcCalls (setPhase k p st))"
  using assms call_lives [OF assms(2)] by (auto simp: abortsOk_def setPhase_def list_all_length nth_list_update)

lemma set_same [simp]: "mcEntry (setPhase k p st) = mcEntry st" "mcClosed (setPhase k p st) = mcClosed st"
  by (simp_all add: setPhase_def)

lemma idle_set:
  assumes "idleOk st" "unended (callAt st k)" "unended p" "leavesNone st k"
  shows "idleOk (setPhase k p st)"
  using assms by (simp add: idleOk_def live_set awaits_set aborts_set)

lemma idle_end:
  assumes "idleOk st" "unended (callAt st k)" "\<not> unended p" "leavesNone st k"
  shows "idleOk (endCall k p st)"
proof -
  have "timerOk (scheduleIdle b (e\<lparr>meInFlight := n\<rparr>)) b" for e b n by (auto simp: timerOk_def scheduleIdle_def)
  moreover have "mcCalls (onEntry f st') = mcCalls st'" "mcClosed (onEntry f st') = mcClosed st'" "mcEntry (onEntry f st') = f (mcEntry st')" for f st'
    by (simp_all add: onEntry_def)
  ultimately show ?thesis using assms live_set(1) [OF assms(2), of p] by (simp add: idleOk_def endCall_def awaits_set aborts_set)
qed

lemma idle_entry:
  assumes "idleOk st" "meInFlight (f (mcEntry st)) = meInFlight (mcEntry st)" "timerOk (f (mcEntry st)) (mcClosed st)"
  shows "idleOk (onEntry f st)"
  using assms by (simp add: idleOk_def onEntry_def)

lemma idle_opening:
  assumes "idleOk st" "\<And>m. moStage (f m) = Connecting \<Longrightarrow> moStage m = Connecting"
  shows "idleOk (onOpening i f st)"
  using assms by (auto simp: idleOk_def onOpening_def awaitsOk_def nth_list_update)

lemma idle_drop:
  assumes "idleOk st" "0 < meInFlight (mcEntry st) \<or> c = meConnection (mcEntry st)"
  shows "idleOk (dropConnection c st)"
proof -
  have "idleOk (onOpening i (\<lambda>m. m\<lparr>moTold := True\<rparr>) (onEntry (\<lambda>e. if meConnection e = Some i then e\<lparr>meConnection := None\<rparr> else e) (onEntry clearIdle st)))"
    if "c = Some i" for i
  proof (rule idle_opening)
    have "onEntry (\<lambda>e. if meConnection e = Some i then e\<lparr>meConnection := None\<rparr> else e) (onEntry clearIdle st) =
        onEntry (\<lambda>e. if meConnection e = Some i then (clearIdle e)\<lparr>meConnection := None\<rparr> else clearIdle e) st"
      by (simp add: onEntry_def)
    then show "idleOk (onEntry (\<lambda>e. if meConnection e = Some i then e\<lparr>meConnection := None\<rparr> else e) (onEntry clearIdle st))"
      using assms that by (auto simp: timerOk_def idle_entry)
  qed simp
  moreover have "idleOk (onEntry clearIdle st)" if "c = None" using assms that by (intro idle_entry) (auto simp: timerOk_def)
  ultimately show ?thesis by (simp add: dropConnection_def Let_def split: option.split)
qed

lemma idle_record:
  assumes "recordFailure f st = (f', st')" "idleOk st"
  shows "idleOk st'"
proof -
  have "idleOk ((onEntry (\<lambda>e. e\<lparr>meFailure := x\<rparr>) st)\<lparr>mcChanged := n\<rparr>)" for x n
    using assms(2) by (auto simp: idleOk_def onEntry_def timerOk_def)
  then show ?thesis using assms by (auto simp: recordFailure_def Let_def split: mcpFault.splits)
qed

lemma record_calls: "recordFailure f st = (f', st') \<Longrightarrow> callAt st' k = callAt st k \<and> leavesNone st' k = leavesNone st k"
  by (drule record_openings) (auto simp: callAt_def leavesNone_def split: callPhase.split)

lemma leaves_simple: "(\<And>i a. callAt st k \<noteq> AwaitsOpening i a) \<Longrightarrow> leavesNone st k"
  by (auto simp: leavesNone_def split: callPhase.split)

lemma idle_look:
  assumes "idleOk st" "unended (callAt st k)" "\<And>i a. callAt st k \<noteq> AwaitsOpening i a"
  shows "idleOk (lookUp k a st)"
  using assms leaves_simple [of st k] by (auto simp: lookUp_def idle_set idle_end split: option.split)

lemma idle_start:
  assumes "idleOk st"
  shows "idleOk (startCall b st)"
proof -
  define k where "k = length (mcCalls st)"
  define st1 where "st1 = onEntry (\<lambda>e. clearIdle (e\<lparr>meInFlight := Suc (meInFlight e)\<rparr>)) (st\<lparr>mcCalls := mcCalls st @ [\<lparr>mkPhase = CallReturned, mkAborted = b\<rparr>]\<rparr>)"
  have "awaitedBy (cs @ [c]) i" if "awaitedBy cs i" for cs c i using that by (simp add: awaitedBy_def)
  note more_calls = this
  have "setPhase k p st1 = onEntry (\<lambda>e. clearIdle (e\<lparr>meInFlight := Suc (meInFlight e)\<rparr>)) (st\<lparr>mcCalls := mcCalls st @ [\<lparr>mkPhase = p, mkAborted = b\<rparr>]\<rparr>)" for p
    by (simp add: setPhase_def st1_def k_def onEntry_def)
  note setp = this
  have "idleOk (setPhase k (LooksUp r a) st1)" if "\<not> b" for r a
    using assms that more_calls by (auto simp: setp idleOk_def onEntry_def timerOk_def awaitsOk_def abortsOk_def liveCalls_def)
  moreover have "idleOk (endCall k (CallThrew f) st1)" for f
  proof -
    have "timerOk (scheduleIdle b (e\<lparr>meInFlight := n\<rparr>)) b" for e b n by (auto simp: timerOk_def scheduleIdle_def)
    moreover have "mcClosed st1 = mcClosed st" by (simp add: st1_def onEntry_def)
    ultimately show ?thesis using assms more_calls by (auto simp: endCall_def setp idleOk_def onEntry_def awaitsOk_def abortsOk_def liveCalls_def clearIdle_def)
  qed
  moreover have "mkAborted (mcCalls st1 ! k) = b" by (simp add: st1_def k_def onEntry_def)
  ultimately show ?thesis by (auto simp: startCall_def Let_def lookUp_def k_def [symmetric] st1_def [symmetric] split: option.split)
qed

lemma idle_opened:
  assumes "idleOk st" "unended (callAt st k)" "leavesNone st k"
  shows "idleOk (setPhase k (AwaitsOpening (length (mcOpenings st)) a) (startOpening row st))"
proof -
  let ?p = "AwaitsOpening (length (mcOpenings st)) a"
  have k: "k < length (mcCalls st)" using call_lives [OF assms(2)] by simp
  have e: "mcCalls (setPhase k ?p (startOpening row st)) = mcCalls (setPhase k ?p st)"
    by (simp add: setPhase_def startOpening_def onEntry_def)
  have "awaitedBy (mcCalls (setPhase k ?p st)) (length (mcOpenings st))"
    using k by (auto simp: awaitedBy_def setPhase_def list_ex_length intro!: exI [of _ k])
  moreover have "awaitsOk (mcOpenings st) (mcCalls (setPhase k ?p st))" using awaits_set assms by (simp add: idleOk_def)
  ultimately have "awaitsOk (mcOpenings (startOpening row st)) (mcCalls (setPhase k ?p st))"
    by (auto simp: awaitsOk_def startOpening_def nth_append less_Suc_eq)
  moreover have "mcEntry (startOpening row st) = (mcEntry st)\<lparr>meConnecting := Some (length (mcOpenings st))\<rparr>" "mcClosed (startOpening row st) = mcClosed st"
    by (simp_all add: startOpening_def onEntry_def)
  moreover have "liveCalls (mcCalls (setPhase k ?p st)) = liveCalls (mcCalls st)" using live_set(1) [OF assms(2), of ?p] by simp
  moreover have "abortsOk (mcCalls (setPhase k ?p st))" using aborts_set assms by (simp add: idleOk_def)
  ultimately show ?thesis using assms(1) by (auto simp: idleOk_def e timerOk_def)
qed

lemma idle_lookedUp:
  assumes "idleOk st" "callAt st k = LooksUp r a"
  shows "idleOk (lookedUp k signedIn row attempt st)"
proof -
  have u: "unended (callAt st k)" "leavesNone st k" using assms(2) by (simp_all add: leavesNone_def)
  have n: "\<not> mkAborted (mcCalls st ! k)"
    using assms call_lives [OF u(1)] u(1) by (auto simp: idleOk_def abortsOk_def list_all_length)
  have "idleOk (awaitOpening k attempt (startOpening row st))"
    using n idle_opened [OF assms(1) u] by (simp add: awaitOpening_def startOpening_def onEntry_def)
  then show ?thesis
    using assms(1) u n by (auto simp: lookedUp_def awaitOpening_def idle_set idle_end split: option.split)
qed

lemma idle_connected:
  assumes "idleOk st" "i < length (mcOpenings st)" "moStage (mcOpenings st ! i) = Connecting"
  shows "idleOk (clientConnected i (mcOpenings st ! i) st)"
proof -
  have "awaitedBy (mcCalls st) i" using assms by (simp add: idleOk_def awaitsOk_def)
  then have "0 < liveCalls (mcCalls st)" by (rule awaited_live)
  then show ?thesis using assms
    by (auto simp: clientConnected_def idleOk_def onOpening_def onEntry_def timerOk_def awaitsOk_def nth_list_update)
qed

lemma idle_disconnect:
  assumes "idleOk st"
  shows "idleOk (disconnectServer (st\<lparr>mcClosed := shut\<rparr>))"
proof -
  define c where "c = meConnection (mcEntry st)"
  define st1 where "st1 = onEntry (\<lambda>e. e\<lparr>meGeneration := Suc (meGeneration e), meFailure := None, meConnecting := None, meConnection := None\<rparr>) (st\<lparr>mcClosed := shut\<rparr>)"
  have i: "idleOk st1" using assms by (simp add: st1_def idleOk_def onEntry_def timerOk_def)
  have e: "idleOk (onEntry clearIdle st1)" using i by (intro idle_entry) (simp_all add: st1_def onEntry_def timerOk_def)
  have "disconnectServer (st\<lparr>mcClosed := shut\<rparr>) =
      (case c of None \<Rightarrow> onEntry clearIdle st1 | Some i \<Rightarrow> onOpening i (\<lambda>m. m\<lparr>moTold := True\<rparr>) (onEntry clearIdle st1))"
    by (cases c) (simp_all add: disconnectServer_def dropConnection_def onEntry_def onOpening_def clearIdle_def st1_def c_def)
  then show ?thesis using e by (auto intro!: idle_opening split: option.split)
qed

definition nobodyGivesUp :: "mcpEvent \<Rightarrow> bool" where
  "nobodyGivesUp ev = (case ev of CallAborts _ \<Rightarrow> False | _ \<Rightarrow> True)"

lemma step_idle:
  assumes "idleOk st" "mcpInv st" "nobodyGivesUp ev"
  shows "idleOk (mcpStep ev st)"
proof (cases ev)
  case (CallStarts b)
  then show ?thesis using assms by (simp add: idle_start)
next
  case (SignedInRead k s)
  then show ?thesis using assms by (auto simp: idle_lookedUp split: callPhase.split)
next
  case (CallAborts k)
  then show ?thesis using assms by (simp add: nobodyGivesUp_def)
next
  case (CallResumes k)
  then show ?thesis
    using assms by (auto simp: withOpening_def leavesNone_def idle_end idle_set split: callPhase.split openStage.split)
next
  case (WorkReturns k)
  then show ?thesis using assms by (auto simp: idle_end leavesNone_def split: callPhase.split)
next
  case (WorkFails k f)
  have "idleOk (workFails k f i a st)" if c: "callAt st k = WorksOn i a" for i a
  proof -
    have u: "unended (callAt st k)" "leavesNone st k" using c by (simp_all add: leavesNone_def)
    then have "0 < meInFlight (mcEntry st)" using live_set(2) assms(1) by (simp add: idleOk_def)
    then have d: "idleOk (dropConnection (Some i) st)" using assms(1) by (intro idle_drop) simp_all
    have "callAt (dropConnection (Some i) st) k = callAt st k"
      by (simp add: callAt_def dropConnection_def Let_def onOpening_def onEntry_def)
    then show ?thesis using d u c assms(1) by (auto simp: workFails_def idle_end leavesNone_def intro!: idle_set)
  qed
  then show ?thesis using WorkFails assms by (simp split: callPhase.split)
next
  case (DropDone k)
  have "idleOk (connectionDropped k b f a st)" if c: "callAt st k = DropsAfter b f a" for b f a
  proof -
    have "idleOk (endCall k (CallThrew f') st')" if r: "recordFailure f st = (f', st')" for f' st'
      using idle_record [OF r assms(1)] record_calls [OF r, of k] c by (intro idle_end) (simp_all add: leavesNone_def)
    then show ?thesis using assms(1) c by (auto simp: connectionDropped_def idle_look split: prod.split)
  qed
  then show ?thesis using DropDone assms by (simp split: callPhase.split)
next
  case (ClientConnects i)
  then show ?thesis using assms by (simp add: withOpening_def idle_connected)
next
  case (ClientFails i b f)
  then show ?thesis using assms by (auto simp: withOpening_def intro!: idle_opening)
next
  case (StaleClosed i)
  then show ?thesis using assms by (auto simp: withOpening_def intro!: idle_opening)
next
  case (FailedClosed i)
  have "idleOk (openingFails i f m st)" for f m
    using assms(1) idle_record [of f st] by (auto simp: openingFails_def split: prod.split intro!: idle_opening)
  then show ?thesis using FailedClosed assms by (simp add: withOpening_def split: openStage.split)
next
  case ConnectingCleared
  have "idleOk (onEntry (\<lambda>e. e\<lparr>meConnecting := None\<rparr>) st)"
    using assms(1) by (intro idle_entry) (auto simp: idleOk_def timerOk_def)
  then show ?thesis using ConnectingCleared assms by (auto simp: withOpening_def split: option.split openStage.split)
next
  case (ClientCloses i)
  have "idleOk (onEntry (\<lambda>e. if meConnection e = Some i then e\<lparr>meConnection := None\<rparr> else e) st)"
    using assms(1) by (intro idle_entry) (auto simp: idleOk_def timerOk_def)
  then show ?thesis using ClientCloses by (auto intro!: idle_opening)
next
  case IdleFires
  show ?thesis
  proof (cases "meIdleTimer (mcEntry st) \<and> meInFlight (mcEntry st) = 0")
    case True
    have "dropConnection (meConnection (mcEntry st)) (onEntry clearIdle st) = dropConnection (meConnection (mcEntry st)) st"
      by (simp add: dropConnection_def onEntry_def clearIdle_def)
    then show ?thesis using IdleFires True assms(1) by (simp add: idleFires_def Let_def idle_drop)
  next
    case False
    then show ?thesis using IdleFires assms(1) by (auto simp: idleFires_def Let_def timerOk_def intro!: idle_entry)
  qed
next
  case (RowSaved r)
  then show ?thesis using assms by (simp add: idleOk_def)
next
  case Disconnects
  then show ?thesis using assms idle_disconnect [of st "mcClosed st"] by simp
next
  case ConnectionsClose
  then show ?thesis using assms idle_disconnect by simp
next
  case (ToolsAsked k)
  have "idleOk (toolsOf i st)" for i
    using assms(1) idle_opening [of st _ i] by (simp add: toolsOf_def) (simp add: idleOk_def onOpening_def awaitsOk_def nth_list_update)
  then show ?thesis using ToolsAsked assms by (simp split: callPhase.split)
next
  case (ListingFails i l)
  then show ?thesis using assms by (auto simp: forgetTools_def intro!: idle_opening split: option.splits if_splits)
next
  case (ToolsChanged i)
  then show ?thesis using assms by (auto simp: forgetTools_def intro!: idle_opening split: option.splits if_splits)
qed

lemma run_idle:
  assumes "list_all nobodyGivesUp evs"
  shows "idleOk (mcpRun row evs)"
proof -
  have "idleOk (fold mcpStep evs st)" if "idleOk st" "mcpInv st" for st
    using that assms by (induction evs arbitrary: st) (simp_all add: connection_step_inv step_idle)
  moreover have "mcpInv (newConnections row)" using connections_run_inv [of row "[]"] by (simp add: mcpRun_def)
  moreover have "idleOk (newConnections row)"
    by (simp add: newConnections_def newEntry_def idleOk_def liveCalls_def timerOk_def awaitsOk_def abortsOk_def)
  ultimately show ?thesis by (simp add: mcpRun_def)
qed

text \<open>As long as no caller gives up while it waits, a connection that no call uses is not forgotten: calls are counted exactly,
  and once none is in flight the idle timer runs, and when it fires the server has no connection left.\<close>

theorem unused_connection_idles:
  assumes "list_all nobodyGivesUp evs"
  shows "let st = mcpRun row evs in
     meInFlight (mcEntry st) = liveCalls (mcCalls st) \<and>
     (if mcClosed st \<or> 0 < meInFlight (mcEntry st) then True else meConnection (mcEntry (mcpStep IdleFires st)) = None)"
proof -
  define st where "st = mcpRun row evs"
  have i: "idleOk st" using run_idle [OF assms] by (simp add: st_def)
  have "meConnection (mcEntry (mcpStep IdleFires st)) = None" if "\<not> mcClosed st" "meInFlight (mcEntry st) = 0"
    using i that by (auto simp: idleOk_def timerOk_def idleFires_def Let_def dropConnection_def onEntry_def onOpening_def clearIdle_def split: option.split)
  then show ?thesis using i by (simp add: Let_def idleOk_def st_def)
qed

definition demoMcp :: mcpServer where
  "demoMcp = \<lparr>msId = 1, msName = ''docs'', msUrl = ''https://old'', msTransport = TransportHttp, msAuth = AuthNone, msHeaderName = None, msEnabled = True\<rparr>"

theorem unused_connection_idles_witness:
  "meConnection (mcEntry (mcpStep IdleFires (mcpRun demoMcp [CallStarts False, SignedInRead 0 True, ClientConnects 0, ConnectingCleared, CallResumes 0, WorkReturns 0]))) = None"
proof -
  have "\<not> mcClosed (mcpRun demoMcp [CallStarts False, SignedInRead 0 True, ClientConnects 0, ConnectingCleared, CallResumes 0, WorkReturns 0])"
    "meInFlight (mcEntry (mcpRun demoMcp [CallStarts False, SignedInRead 0 True, ClientConnects 0, ConnectingCleared, CallResumes 0, WorkReturns 0])) = 0"
    by code_simp+
  then show ?thesis
    using unused_connection_idles [of "[CallStarts False, SignedInRead 0 True, ClientConnects 0, ConnectingCleared, CallResumes 0, WorkReturns 0]" demoMcp]
    by (simp add: Let_def nobodyGivesUp_def del: mcpStep.simps)
qed

subsection \<open>What goes wrong\<close>

text \<open>A caller that gives up while its connection opens leaves it open and without a timer.\<close>

theorem abandoned_connection_stays:
  "let st = mcpRun demoMcp [CallStarts False, SignedInRead 0 True, CallAborts 0, ClientConnects 0, ConnectingCleared] in
     meConnection (mcEntry st) = Some 0 \<and> meInFlight (mcEntry st) = 0 \<and> meIdleTimer (mcEntry st) = False \<and> mcpStep IdleFires st = st"
  by code_simp

text \<open>A call in flight while its server is changed records the failure of the closed connection on the changed server.\<close>

theorem change_shown_as_failure:
  "let changed = demoMcp\<lparr>msUrl := ''https://new''\<rparr> in
     mcpStatus changed True (mcpRun demoMcp [CallStarts False, SignedInRead 0 True, ClientConnects 0, ConnectingCleared, CallResumes 0,
       RowSaved (Some changed), Disconnects, ClientCloses 0, WorkFails 0 (ProtocolFault True ''Connection closed''), DropDone 0]) =
     ServerFails ''Connection closed''"
  by code_simp

text \<open>A call that read the row before the change opens, and shares, a connection to the server as it was.\<close>

theorem old_address_reached:
  "let changed = demoMcp\<lparr>msUrl := ''https://new''\<rparr>;
       st = mcpRun demoMcp [CallStarts False, RowSaved (Some changed), Disconnects, SignedInRead 0 True, ClientConnects 0, ConnectingCleared,
         CallResumes 0, CallStarts False, SignedInRead 1 True]
   in mkPhase (mcCalls st ! 1) = WorksOn 0 0 \<and> msUrl (moServer (mcOpenings st ! 0)) = ''https://old''"
  by code_simp

end
