(* ===== verification/Attachments.thy ===== *)
theory Attachments
  imports Image_Headers "HOL-Library.Product_Lexorder" "HOL-Library.List_Lexorder" "HOL-Library.Char_ord"
begin

text \<open>
  The images of a session: \<^verbatim>\<open>packages/backend/src/session-attachments-store.ts\<close> (the table and what a prompt may hold),
  \<^verbatim>\<open>session-runtime/attachments.ts\<close> (the cache in front of it, and the references of a prompt), \<^verbatim>\<open>tool-images.ts\<close> (an image that a tool
  made) and the upload of \<^verbatim>\<open>models/sessions.ts\<close>. A table is the list of its rows; SHA-256, base64 and new IDs are parameters.
\<close>

subsection \<open>Size hints\<close>

definition normalizeImageSizeHint :: "rat option \<Rightarrow> rat option \<Rightarrow> (int \<times> int) option" where
  "normalizeImageSizeHint w h =
     (case (w, h) of
        (Some x, Some y) \<Rightarrow> if x \<le> 0 \<or> y \<le> 0 then None else Some (\<lfloor>x + 1 / 2\<rfloor>, \<lfloor>y + 1 / 2\<rfloor>)
      | _ \<Rightarrow> None)"

subsection \<open>The content of a prompt\<close>

record imageRef =
  irId :: string
  irMime :: string
  irBytes :: rat
  irSha :: "string option"
  irFilename :: "string option"
  irHint :: "(int \<times> int) option"

datatype promptBlock = TextPart string | ImagePart imageRef

definition jsonNumber :: "json option \<Rightarrow> rat option" where
  "jsonNumber v = (case v of Some (JNum x) \<Rightarrow> Some x | _ \<Rightarrow> None)"

definition optionalString :: "json option \<Rightarrow> string option option" where
  "optionalString v = (case v of None \<Rightarrow> Some None | Some (JStr s) \<Rightarrow> Some (Some s) | _ \<Rightarrow> None)"

definition hasValidOptionalImageSize :: "(string \<times> json) list \<Rightarrow> bool" where
  "hasValidOptionalImageSize members =
     (if map_of members ''width'' = None \<and> map_of members ''height'' = None then True
      else normalizeImageSizeHint (jsonNumber (map_of members ''width'')) (jsonNumber (map_of members ''height'')) \<noteq> None)"

definition parseImageAttachmentBlock :: "(string \<times> json) list \<Rightarrow> imageRef option" where
  "parseImageAttachmentBlock members =
     (case (map_of members ''attachmentId'', map_of members ''mimeType'', jsonNumber (map_of members ''byteSize'')) of
        (Some (JStr i), Some (JStr mime), Some n) \<Rightarrow>
          (case (optionalString (map_of members ''filename''), optionalString (map_of members ''sha256'')) of
             (Some filename, Some sha) \<Rightarrow>
               if mime \<in> set allowedImageMimeTypes \<and> 0 \<le> n \<and> hasValidOptionalImageSize members
               then Some \<lparr>irId = i, irMime = mime, irBytes = n, irSha = sha, irFilename = filename,
                          irHint = normalizeImageSizeHint (jsonNumber (map_of members ''width'')) (jsonNumber (map_of members ''height''))\<rparr>
               else None
           | _ \<Rightarrow> None)
      | _ \<Rightarrow> None)"

definition parsePromptBlock :: "nat \<Rightarrow> json \<Rightarrow> string + promptBlock" where
  "parsePromptBlock index block =
     (case block of
        JObj members \<Rightarrow>
          if map_of members ''type'' = Some (JStr ''text'')
          then (case map_of members ''text'' of
                  Some (JStr t) \<Rightarrow> Inr (TextPart t)
                | _ \<Rightarrow> Inl (''block '' @ showNat index @ '' must include string text''))
          else if map_of members ''type'' = Some (JStr ''image'')
          then (case parseImageAttachmentBlock members of
                  Some r \<Rightarrow> Inr (ImagePart r)
                | None \<Rightarrow> Inl (''block '' @ showNat index @ '' must be a valid image attachment ref''))
          else Inl (''block '' @ showNat index @ '' must be text or image'')
      | _ \<Rightarrow> Inl (''block '' @ showNat index @ '' must be an object''))"

fun parsePromptBlocks :: "nat \<Rightarrow> json list \<Rightarrow> string + promptBlock list" where
  "parsePromptBlocks index [] = Inr []"
| "parsePromptBlocks index (b # bs) =
     (case parsePromptBlock index b of
        Inl e \<Rightarrow> Inl e
      | Inr p \<Rightarrow> (case parsePromptBlocks (Suc index) bs of Inl e \<Rightarrow> Inl e | Inr ps \<Rightarrow> Inr (p # ps)))"

definition parseClientPromptContent :: "json \<Rightarrow> string + promptBlock list" where
  "parseClientPromptContent v = (case v of JArr bs \<Rightarrow> parsePromptBlocks 0 bs | _ \<Rightarrow> Inl ''expected content blocks array'')"

subsection \<open>The table\<close>

record attachmentRow =
  axId :: string
  axSession :: string
  axMime :: string
  axFilename :: "string option"
  axBytes :: nat
  axSha :: string
  axData :: "byte8 list option"
  axWidth :: "int option"
  axHeight :: "int option"
  axCreated :: string
  axPruned :: "string option"

record attachmentInfo =
  anId :: string
  anSession :: string
  anMime :: string
  anFilename :: "string option"
  anBytes :: nat
  anSha :: string
  anHint :: "(int \<times> int) option"

datatype storeError = InvalidInput uploadError | IdInUse string | OtherContent string | IdTaken string

definition storeErrorMessage :: "storeError \<Rightarrow> string" where
  "storeErrorMessage e =
     (case e of
        InvalidInput u \<Rightarrow> uploadErrorMessage u
      | IdInUse i \<Rightarrow> ''Attachment ID already in use: '' @ i
      | OtherContent i \<Rightarrow> ''Attachment '' @ i @ '' is already stored with different content''
      | IdTaken i \<Rightarrow> ''UNIQUE constraint failed: session_attachments.id'')"

text \<open>Its URL is made of the ID and the session.\<close>

definition toInfo :: "attachmentRow \<Rightarrow> attachmentInfo" where
  "toInfo r =
     \<lparr>anId = axId r, anSession = axSession r, anMime = axMime r, anFilename = axFilename r, anBytes = axBytes r, anSha = axSha r,
      anHint = normalizeImageSizeHint (map_option of_int (axWidth r)) (map_option of_int (axHeight r))\<rparr>"

definition insertAttachment :: "string \<Rightarrow> string \<Rightarrow> attachmentInput \<Rightarrow> string \<Rightarrow> (int \<times> int) option \<Rightarrow> string \<Rightarrow> attachmentRow list \<Rightarrow>
    storeError + attachmentInfo \<times> attachmentRow list" where
  "insertAttachment i session inp sha hint now db =
     (if i \<in> axId ` set db then Inl (IdTaken i)
      else (let row = \<lparr>axId = i, axSession = session, axMime = aiMime inp, axFilename = aiFilename inp, axBytes = length (aiData inp), axSha = sha,
                       axData = Some (aiData inp), axWidth = map_option fst hint, axHeight = map_option snd hint, axCreated = now, axPruned = None\<rparr>
            in Inr (toInfo row, db @ [row])))"

definition coalesce :: "'a option \<Rightarrow> 'a option \<Rightarrow> 'a option" where
  "coalesce a b = (case a of None \<Rightarrow> b | Some x \<Rightarrow> Some x)"

definition completedRow :: "attachmentInput \<Rightarrow> (int \<times> int) option \<Rightarrow> attachmentRow \<Rightarrow> attachmentRow" where
  "completedRow inp hint r =
     r\<lparr>axData := coalesce (axData r) (Some (aiData inp)), axBytes := length (aiData inp), axFilename := coalesce (axFilename r) (aiFilename inp),
       axWidth := coalesce (axWidth r) (map_option fst hint), axHeight := coalesce (axHeight r) (map_option snd hint),
       axPruned := (if axData r = None then None else axPruned r)\<rparr>"

definition completeAttachment :: "attachmentRow \<Rightarrow> attachmentInput \<Rightarrow> (int \<times> int) option \<Rightarrow> attachmentRow list \<Rightarrow> attachmentInfo \<times> attachmentRow list" where
  "completeAttachment existing inp hint db =
     (if axData existing \<noteq> None \<and> \<not> (hint \<noteq> None \<and> (axWidth existing = None \<or> axHeight existing = None)) then (toInfo existing, db)
      else (toInfo (completedRow inp hint existing), map (\<lambda>r. if axId r = axId existing then completedRow inp hint r else r) db))"

text \<open>\<open>ORDER BY created_at, id LIMIT 1\<close>\<close>

definition sameContent :: "string \<Rightarrow> string \<Rightarrow> string \<Rightarrow> attachmentRow list \<Rightarrow> attachmentRow option" where
  "sameContent session sha mime db =
     (case sort_key (\<lambda>r. (axCreated r, axId r)) (filter (\<lambda>r. axSession r = session \<and> axSha r = sha \<and> axMime r = mime) db) of
        [] \<Rightarrow> None
      | r # _ \<Rightarrow> Some r)"

definition storeSessionAttachment :: "(byte8 list \<Rightarrow> string) \<Rightarrow> string \<Rightarrow> string \<Rightarrow> string \<Rightarrow> attachmentInput \<Rightarrow> attachmentRow list \<Rightarrow>
    storeError + attachmentInfo \<times> attachmentRow list" where
  "storeSessionAttachment sha256 now newId session inp db =
     (case assertSupportedImage (aiMime inp) (length (aiData inp)) of
        Some e \<Rightarrow> Inl (InvalidInput e)
      | None \<Rightarrow>
          (let sha = sha256 (aiData inp); hint = normalizeImageSizeHint (aiWidth inp) (aiHeight inp)
           in case aiId inp of
                Some i \<Rightarrow>
                  (case find (\<lambda>r. axId r = i) db of
                     None \<Rightarrow> insertAttachment i session inp sha hint now db
                   | Some r \<Rightarrow>
                       if axSession r \<noteq> session then Inl (IdInUse i)
                       else if axSha r \<noteq> sha \<or> axMime r \<noteq> aiMime inp \<or> axBytes r \<noteq> length (aiData inp) then Inl (OtherContent i)
                       else Inr (completeAttachment r inp hint db))
              | None \<Rightarrow>
                  (case sameContent session sha (aiMime inp) db of
                     Some r \<Rightarrow> Inr (completeAttachment r inp hint db)
                   | None \<Rightarrow> insertAttachment newId session inp sha hint now db)))"

definition getSessionAttachment :: "string \<Rightarrow> string \<Rightarrow> attachmentRow list \<Rightarrow> attachmentRow option" where
  "getSessionAttachment session i db = find (\<lambda>r. axSession r = session \<and> axId r = i) db"

datatype bytesAnswer = NoSession | NoAttachment | PrunedAttachment | AttachmentFound "byte8 list" string

definition getAttachmentBytes :: "bool \<Rightarrow> string \<Rightarrow> string \<Rightarrow> attachmentRow list \<Rightarrow> bytesAnswer" where
  "getAttachmentBytes known session i db =
     (if \<not> known then NoSession
      else (case getSessionAttachment session i db of
              None \<Rightarrow> NoAttachment
            | Some r \<Rightarrow> (case axData r of None \<Rightarrow> PrunedAttachment | Some d \<Rightarrow> AttachmentFound d (axMime r))))"

subsection \<open>Uploads\<close>

definition maxPromptAttachmentBytes :: nat where
  "maxPromptAttachmentBytes = 25 * 1024 * 1024"

datatype uploadFailure = UploadNoSession | NoFiles | BadFile uploadError | OverPromptLimit | NotStored storeError

fun declaredBytes :: "uploadedFile list \<Rightarrow> nat \<Rightarrow> uploadFailure option" where
  "declaredBytes [] soFar = None"
| "declaredBytes (f # fs) soFar =
     (case assertSupportedImage (ufType f) (length (ufBytes f)) of
        Some e \<Rightarrow> Some (BadFile e)
      | None \<Rightarrow> if maxPromptAttachmentBytes < soFar + length (ufBytes f) then Some OverPromptLimit
                else declaredBytes fs (soFar + length (ufBytes f)))"

text \<open>Each file with the ID and time it would be stored under. What was stored before a failure stays.\<close>

fun uploadEach :: "(byte8 list \<Rightarrow> string) \<Rightarrow> (byte8 list \<Rightarrow> string \<Rightarrow> fittedImage option) \<Rightarrow> string \<Rightarrow> (uploadedFile \<times> string \<times> string) list \<Rightarrow> nat \<Rightarrow>
    attachmentRow list \<Rightarrow> (uploadFailure + attachmentInfo list) \<times> attachmentRow list" where
  "uploadEach sha256 fit session [] soFar db = (Inr [], db)"
| "uploadEach sha256 fit session ((f, newId, now) # fs) soFar db =
     (case toImageAttachmentInput fit f of
        Inl e \<Rightarrow> (Inl (BadFile e), db)
      | Inr inp \<Rightarrow>
          if maxPromptAttachmentBytes < soFar + length (aiData inp) then (Inl OverPromptLimit, db)
          else (case storeSessionAttachment sha256 now newId session inp db of
                  Inl e \<Rightarrow> (Inl (NotStored e), db)
                | Inr (info, db1) \<Rightarrow>
                    (case uploadEach sha256 fit session fs (soFar + length (aiData inp)) db1 of
                       (Inl e, db2) \<Rightarrow> (Inl e, db2)
                     | (Inr infos, db2) \<Rightarrow> (Inr (info # infos), db2))))"

definition uploadAttachments :: "bool \<Rightarrow> (byte8 list \<Rightarrow> string) \<Rightarrow> (byte8 list \<Rightarrow> string \<Rightarrow> fittedImage option) \<Rightarrow> string \<Rightarrow> (uploadedFile \<times> string \<times> string) list \<Rightarrow>
    attachmentRow list \<Rightarrow> (uploadFailure + attachmentInfo list) \<times> attachmentRow list" where
  "uploadAttachments known sha256 fit session files db =
     (if \<not> known then (Inl UploadNoSession, db)
      else if files = [] then (Inl NoFiles, db)
      else (case declaredBytes (map fst files) 0 of
              Some e \<Rightarrow> (Inl e, db)
            | None \<Rightarrow> uploadEach sha256 fit session files 0 db))"

subsection \<open>The cache\<close>

record attachmentBytes =
  abData :: "byte8 list"
  abMime :: string
  abBytes :: nat
  abSha :: string
  abFilename :: "string option"
  abHint :: "(int \<times> int) option"

type_synonym attachmentCache = "(string, (string, attachmentBytes) jsmap) jsmap"

definition cachePut :: "string \<Rightarrow> string \<Rightarrow> attachmentBytes \<Rightarrow> attachmentCache \<Rightarrow> attachmentCache" where
  "cachePut session i a cache = jmSet session (jmSet i a (orElse (jmGet cache session) [])) cache"

definition bytesOfRow :: "attachmentRow \<Rightarrow> byte8 list \<Rightarrow> attachmentBytes" where
  "bytesOfRow r d =
     \<lparr>abData = d, abMime = axMime r, abBytes = axBytes r, abSha = axSha r,
      abFilename = (if truthyStr (axFilename r) then axFilename r else None),
      abHint = (case (axWidth r, axHeight r) of (Some w, Some h) \<Rightarrow> if w = 0 \<or> h = 0 then None else Some (w, h) | _ \<Rightarrow> None)\<rparr>"

definition attachmentGet :: "string \<Rightarrow> string \<Rightarrow> attachmentRow list \<Rightarrow> attachmentCache \<Rightarrow> attachmentBytes option \<times> attachmentCache" where
  "attachmentGet session i db cache =
     (case Option.bind (jmGet cache session) (\<lambda>m. jmGet m i) of
        Some a \<Rightarrow> (Some a, cache)
      | None \<Rightarrow>
          (case getSessionAttachment session i db of
             None \<Rightarrow> (None, cache)
           | Some r \<Rightarrow>
               (case axData r of
                  None \<Rightarrow> (None, cache)
                | Some d \<Rightarrow> (Some (bytesOfRow r d), cachePut session i (bytesOfRow r d) cache))))"

definition findByContent :: "string \<Rightarrow> string \<Rightarrow> string \<Rightarrow> attachmentCache \<Rightarrow> (string \<times> attachmentBytes) option" where
  "findByContent session sha mime cache =
     find (\<lambda>p. abSha (snd p) = sha \<and> abMime (snd p) = mime) (orElse (jmGet cache session) [])"

subsection \<open>References of a prompt\<close>

datatype refError = MetadataMismatch string | ConflictingReferences string | AttachmentUnavailable string

definition metadataMatches :: "imageRef \<Rightarrow> attachmentBytes \<Rightarrow> bool" where
  "metadataMatches r a =
     ((case irSha r of None \<Rightarrow> True | Some s \<Rightarrow> s = abSha a) \<and> irMime r = abMime a \<and> irBytes r = of_nat (abBytes a))"

definition referenced :: "string \<Rightarrow> imageRef \<Rightarrow> attachmentRow list \<Rightarrow> attachmentCache \<Rightarrow> (refError + attachmentBytes option) \<times> attachmentCache" where
  "referenced session r db cache =
     (case attachmentGet session (irId r) db cache of
        (None, cache1) \<Rightarrow> (Inr None, cache1)
      | (Some a, cache1) \<Rightarrow> (if metadataMatches r a then Inr (Some a) else Inl (MetadataMismatch (irId r)), cache1))"

fun uniqueRefs :: "promptBlock list \<Rightarrow> (string, imageRef) jsmap \<Rightarrow> refError + (string, imageRef) jsmap" where
  "uniqueRefs [] m = Inr m"
| "uniqueRefs (TextPart t # bs) m = uniqueRefs bs m"
| "uniqueRefs (ImagePart b # bs) m =
     (case jmGet m (irId b) of
        None \<Rightarrow> uniqueRefs bs (jmSet (irId b) b m)
      | Some prior \<Rightarrow>
          if irMime prior \<noteq> irMime b \<or> irBytes prior \<noteq> irBytes b \<or> (truthyStr (irSha prior) \<and> truthyStr (irSha b) \<and> irSha prior \<noteq> irSha b)
          then Inl (ConflictingReferences (irId b))
          else uniqueRefs bs (jmSet (irId b) (if truthyStr (irSha prior) then prior else b) m))"

fun checkRefs :: "string \<Rightarrow> imageRef list \<Rightarrow> attachmentRow list \<Rightarrow> attachmentCache \<Rightarrow> refError option \<times> attachmentCache" where
  "checkRefs session [] db cache = (None, cache)"
| "checkRefs session (r # rs) db cache =
     (case referenced session r db cache of
        (Inl e, cache1) \<Rightarrow> (Some e, cache1)
      | (Inr None, cache1) \<Rightarrow> (Some (AttachmentUnavailable (irId r)), cache1)
      | (Inr (Some _), cache1) \<Rightarrow> checkRefs session rs db cache1)"

definition materializePromptAttachments :: "string \<Rightarrow> promptBlock list \<Rightarrow> attachmentRow list \<Rightarrow> attachmentCache \<Rightarrow> refError option \<times> attachmentCache" where
  "materializePromptAttachments session content db cache =
     (case uniqueRefs content [] of
        Inl e \<Rightarrow> (Some e, cache)
      | Inr m \<Rightarrow> checkRefs session (map snd m) db cache)"

datatype providerBlock = ProviderText string | ProviderImage "byte8 list" string "string option" "(int \<times> int) option"

fun hydratePrompt :: "string \<Rightarrow> promptBlock list \<Rightarrow> attachmentRow list \<Rightarrow> attachmentCache \<Rightarrow> (refError + providerBlock list) \<times> attachmentCache" where
  "hydratePrompt session [] db cache = (Inr [], cache)"
| "hydratePrompt session (TextPart t # bs) db cache =
     (case hydratePrompt session bs db cache of
        (Inl e, cache1) \<Rightarrow> (Inl e, cache1)
      | (Inr ps, cache1) \<Rightarrow> (Inr (ProviderText t # ps), cache1))"
| "hydratePrompt session (ImagePart r # bs) db cache =
     (case referenced session r db cache of
        (Inl e, cache1) \<Rightarrow> (Inl e, cache1)
      | (Inr found, cache1) \<Rightarrow>
          (let p = (case found of
                      None \<Rightarrow> ProviderText ''[Image attachment missing]''
                    | Some a \<Rightarrow> ProviderImage (abData a) (abMime a) (if truthyStr (abFilename a) then abFilename a else None) (abHint a))
           in case hydratePrompt session bs db cache1 of
                (Inl e, cache2) \<Rightarrow> (Inl e, cache2)
              | (Inr ps, cache2) \<Rightarrow> (Inr (p # ps), cache2)))"

subsection \<open>Images that tools make\<close>

record inlineImage =
  inMime :: string
  inData :: "byte8 list"
  inFilename :: "string option"
  inHint :: "(nat \<times> nat) option"

datatype imageNote = ImageReference string attachmentBytes | OmittedNote string

definition referenceInlineImage :: "(byte8 list \<Rightarrow> string) \<Rightarrow> string \<Rightarrow> string \<Rightarrow> string \<Rightarrow> inlineImage \<Rightarrow> attachmentRow list \<Rightarrow> attachmentCache \<Rightarrow>
    imageNote \<times> attachmentRow list \<times> attachmentCache" where
  "referenceInlineImage sha256 now newId session b db cache =
     (if inMime b \<notin> set allowedImageMimeTypes
      then (OmittedNote (''[Image omitted: unsupported type '' @ (if inMime b = [] then ''unknown'' else inMime b) @ '']''), db, cache)
      else if inData b = [] then (OmittedNote ''[Image omitted: empty]'', db, cache)
      else if maxAttachmentBytes < length (inData b) then (OmittedNote ''[Image omitted: larger than 10 MiB]'', db, cache)
      else (case findByContent session (sha256 (inData b)) (inMime b) cache of
              Some (i, a) \<Rightarrow> (ImageReference i a, db, cache)
            | None \<Rightarrow>
                (let a = \<lparr>abData = inData b, abMime = inMime b, abBytes = length (inData b), abSha = sha256 (inData b), abFilename = inFilename b,
                          abHint = map_option (\<lambda>(w, h). (int w, int h)) (inHint b)\<rparr>;
                     inp = \<lparr>aiId = Some newId, aiData = inData b, aiMime = inMime b, aiFilename = inFilename b,
                            aiWidth = map_option (\<lambda>h. of_nat (fst h)) (inHint b), aiHeight = map_option (\<lambda>h. of_nat (snd h)) (inHint b)\<rparr>
                 in case storeSessionAttachment sha256 now newId session inp db of
                      Inl e \<Rightarrow> (OmittedNote (''[Image omitted: storing it failed: '' @ storeErrorMessage e @ '']''), db, cache)
                    | Inr (_, db1) \<Rightarrow> (ImageReference newId a, db1, cachePut session newId a cache))))"

end
