(* ===== verification/Attachment_Laws.thy ===== *)
theory Attachment_Laws
  imports Attachments
begin

text \<open>
  What becomes of a session's images: bytes that were stored are read back, under the ID that was asked for; and a prompt that was
  admitted is given to the provider with all its images, whatever is stored, read or pruned in between.
\<close>

subsection \<open>Histories\<close>

datatype attachmentOp =
    StoreOp string attachmentInput string string
  | InlineOp string inlineImage string string
  | ReadOp string string
  | PruneOp string string

type_synonym attachmentState = "attachmentRow list \<times> attachmentCache"

text \<open>A store that throws changes nothing. A pruned attachment keeps its row.\<close>

fun attachmentStep :: "(byte8 list \<Rightarrow> string) \<Rightarrow> attachmentOp \<Rightarrow> attachmentState \<Rightarrow> attachmentState" where
  "attachmentStep sha (StoreOp session inp newId now) (db, cache) =
     (case storeSessionAttachment sha now newId session inp db of Inl _ \<Rightarrow> (db, cache) | Inr (_, db1) \<Rightarrow> (db1, cache))"
| "attachmentStep sha (InlineOp session b newId now) (db, cache) = snd (referenceInlineImage sha now newId session b db cache)"
| "attachmentStep sha (ReadOp session i) (db, cache) = (db, snd (attachmentGet session i db cache))"
| "attachmentStep sha (PruneOp i now) (db, cache) =
     (map (\<lambda>r. if axId r = i then r\<lparr>axData := None, axPruned := Some now\<rparr> else r) db, cache)"

definition attachmentRun :: "(byte8 list \<Rightarrow> string) \<Rightarrow> attachmentOp list \<Rightarrow> attachmentState \<Rightarrow> attachmentState" where
  "attachmentRun sha ops st = fold (attachmentStep sha) ops st"

subsection \<open>The invariant\<close>

definition rowOk :: "(byte8 list \<Rightarrow> string) \<Rightarrow> attachmentRow \<Rightarrow> bool" where
  "rowOk sha r = (\<exists>d. sha d = axSha r \<and> length d = axBytes r \<and> (axData r = None \<or> axData r = Some d))"

definition rowsOk :: "(byte8 list \<Rightarrow> string) \<Rightarrow> attachmentRow list \<Rightarrow> bool" where
  "rowsOk sha db = (distinct (map axId db) \<and> list_all (rowOk sha) db)"

definition sameRow :: "attachmentRow \<Rightarrow> attachmentRow \<Rightarrow> bool" where
  "sameRow r r' = (axId r' = axId r \<and> axSession r' = axSession r \<and> axMime r' = axMime r \<and> axBytes r' = axBytes r \<and> axSha r' = axSha r \<and> axCreated r' = axCreated r)"

definition cached :: "attachmentCache \<Rightarrow> string \<Rightarrow> string \<Rightarrow> attachmentBytes option" where
  "cached cache s i = Option.bind (jmGet cache s) (\<lambda>m. jmGet m i)"

definition entryOf :: "string \<Rightarrow> string \<Rightarrow> attachmentBytes \<Rightarrow> attachmentRow \<Rightarrow> bool" where
  "entryOf s i a r = (axId r = i \<and> axSession r = s \<and> axMime r = abMime a \<and> axBytes r = abBytes a \<and> axSha r = abSha a)"

definition entryOk :: "(byte8 list \<Rightarrow> string) \<Rightarrow> attachmentBytes \<Rightarrow> bool" where
  "entryOk sha a = (sha (abData a) = abSha a \<and> length (abData a) = abBytes a)"

definition attachmentCacheOk :: "(byte8 list \<Rightarrow> string) \<Rightarrow> attachmentState \<Rightarrow> bool" where
  "attachmentCacheOk sha st = (\<forall>s i a. cached (snd st) s i = Some a \<longrightarrow> entryOk sha a \<and> (\<exists>r\<in>set (fst st). entryOf s i a r))"

definition attachmentsOk :: "(byte8 list \<Rightarrow> string) \<Rightarrow> attachmentState \<Rightarrow> bool" where
  "attachmentsOk sha st = (rowsOk sha (fst st) \<and> attachmentCacheOk sha st)"

text \<open>What later states keep of earlier ones: rows with their content, and what is cached of it.\<close>

definition laterRows :: "attachmentRow list \<Rightarrow> attachmentRow list \<Rightarrow> bool" where
  "laterRows db db' = (\<forall>r\<in>set db. \<exists>r'\<in>set db'. sameRow r r')"

definition sameContentAs :: "attachmentBytes \<Rightarrow> attachmentBytes \<Rightarrow> bool" where
  "sameContentAs a a' = (abMime a' = abMime a \<and> abBytes a' = abBytes a \<and> abSha a' = abSha a)"

definition laterCache :: "attachmentCache \<Rightarrow> attachmentCache \<Rightarrow> bool" where
  "laterCache c c' = (\<forall>s i a. cached c s i = Some a \<longrightarrow> (\<exists>a'. cached c' s i = Some a' \<and> sameContentAs a a'))"

lemma same_refl [simp]: "sameRow r r" "sameContentAs a a"
  by (simp_all add: sameRow_def sameContentAs_def)

lemma later_refl [simp]: "laterRows db db" "laterCache c c"
  by (auto simp: laterRows_def laterCache_def intro: same_refl)

lemma later_trans: "laterCache c c' \<Longrightarrow> laterCache c' c'' \<Longrightarrow> laterCache c c''"
  unfolding laterCache_def sameContentAs_def by metis

lemma cached_put: "cached (cachePut s i a c) s' i' = (if s' = s \<and> i' = i then Some a else cached c s' i')"
  by (auto simp: cached_def cachePut_def update_conv' orElse_def split: option.split)

lemma row_unique: "distinct (map axId db) \<Longrightarrow> r \<in> set db \<Longrightarrow> r' \<in> set db \<Longrightarrow> axId r = axId r' \<Longrightarrow> r = r'"
  by (metis find_unique option.inject)

lemma find_row: "distinct (map axId db) \<Longrightarrow> r \<in> set db \<Longrightarrow> find (\<lambda>x. axId x = axId r) db = Some r"
  by (rule find_unique)

subsection \<open>Storing\<close>

lemma entry_later: "entryOf s i a r \<Longrightarrow> sameRow r r' \<Longrightarrow> entryOf s i a r'"
  by (simp add: entryOf_def sameRow_def)

lemma cache_later:
  assumes "attachmentCacheOk sha (db, c)" "laterRows db db'"
  shows "attachmentCacheOk sha (db', c)"
  using assms entry_later unfolding attachmentCacheOk_def laterRows_def by (metis fst_conv snd_conv)

text \<open>A row that has the content of what is stored is completed, and holds it then.\<close>

lemma completed:
  assumes "inj sha" "rowsOk sha db" "r \<in> set db" "axSha r = sha (aiData inp)" "completeAttachment r inp hint db = (info, db')"
  shows "rowsOk sha db'" "laterRows db db'" "anId info = axId r" "\<exists>r'\<in>set db'. sameRow r r' \<and> axData r' = Some (aiData inp)"
    "filter (\<lambda>x. axId x \<noteq> axId r) db' = filter (\<lambda>x. axId x \<noteq> axId r) db"
proof -
  have d: "distinct (map axId db)" and ok: "list_all (rowOk sha) db" using assms(2) by (simp_all add: rowsOk_def)
  obtain e where e: "sha e = axSha r" "length e = axBytes r" "axData r = None \<or> axData r = Some e"
    using ok assms(3) by (auto simp: list_all_iff rowOk_def)
  have "e = aiData inp" using assms(1,4) e(1) by (simp add: inj_eq)
  note e = e [unfolded this]
  define f where "f = (\<lambda>x. if axId x = axId r then completedRow inp hint x else x)"
  have u: "f x = (if x = r then completedRow inp hint r else x)" if "x \<in> set db" for x
    using row_unique [OF d that assms(3)] by (auto simp: f_def)
  have s: "sameRow r (completedRow inp hint r)" "axData (completedRow inp hint r) = Some (aiData inp)" "rowOk sha (completedRow inp hint r)"
    using e by (auto simp: sameRow_def completedRow_def coalesce_def rowOk_def split: option.split)
  have db': "db' = db \<and> axData r \<noteq> None \<or> db' = map f db" and i: "anId info = axId r"
    using assms(5) by (auto simp: completeAttachment_def f_def toInfo_def completedRow_def split: if_splits)
  show "anId info = axId r" by (rule i)
  have ids: "map axId (map f db) = map axId db" by (simp add: f_def completedRow_def)
  have "distinct (map axId (map f db))" using d ids by (simp only:)
  moreover have "list_all (rowOk sha) (map f db)" using ok s(3) u by (auto simp: list_all_iff)
  ultimately have "rowsOk sha (map f db)" by (simp only: rowsOk_def)
  then show "rowsOk sha db'" using db' assms(2) by blast
  have "laterRows db (map f db)"
    unfolding laterRows_def
  proof
    fix x assume x: "x \<in> set db"
    then have "sameRow x (f x)" using s(1) u by simp
    then show "\<exists>r'\<in>set (map f db). sameRow x r'" using x by auto
  qed
  then show "laterRows db db'" using db' by auto
  show "\<exists>r'\<in>set db'. sameRow r r' \<and> axData r' = Some (aiData inp)"
    using db'
  proof
    assume "db' = db \<and> axData r \<noteq> None"
    then show ?thesis using assms(3) e(3) by (intro bexI [of _ r]) auto
  next
    assume "db' = map f db"
    then have "f r \<in> set db'" using assms(3) by simp
    then show ?thesis using s(1,2) u [OF assms(3)] by auto
  qed
  have "filter (\<lambda>x. axId x \<noteq> axId r) (map f db) = filter (\<lambda>x. axId x \<noteq> axId r) db"
    by (induction db) (auto simp: f_def completedRow_def)
  then show "filter (\<lambda>x. axId x \<noteq> axId r) db' = filter (\<lambda>x. axId x \<noteq> axId r) db" using db' by auto
qed

lemma inserted:
  assumes "rowsOk sha db" "insertAttachment i session inp (sha (aiData inp)) hint now db = Inr (info, db')"
  shows "rowsOk sha db'" "laterRows db db'" "anId info = i"
    "\<exists>r'\<in>set db'. axId r' = i \<and> axSession r' = session \<and> axMime r' = aiMime inp \<and> axSha r' = sha (aiData inp) \<and> axData r' = Some (aiData inp)"
    "filter (\<lambda>x. axId x \<noteq> i) db' = filter (\<lambda>x. axId x \<noteq> i) db"
  using assms by (auto simp: insertAttachment_def Let_def rowsOk_def rowOk_def toInfo_def laterRows_def intro!: bexI split: if_splits)

text \<open>What a store leaves: the bytes under the ID it answered, in this session, and every other row as it was.\<close>

definition storedUnder :: "(byte8 list \<Rightarrow> string) \<Rightarrow> string \<Rightarrow> attachmentInput \<Rightarrow> string \<Rightarrow> attachmentRow list \<Rightarrow> bool" where
  "storedUnder sha session inp i db =
     (\<exists>r\<in>set db. axId r = i \<and> axSession r = session \<and> axMime r = aiMime inp \<and> axSha r = sha (aiData inp) \<and> axData r = Some (aiData inp))"

lemma same_content: "sameContent session h mime db = Some r \<Longrightarrow> r \<in> set db \<and> axSession r = session \<and> axSha r = h \<and> axMime r = mime"
proof -
  assume "sameContent session h mime db = Some r"
  then have "r \<in> set (sort_key (\<lambda>r. (axCreated r, axId r)) (filter (\<lambda>r. axSession r = session \<and> axSha r = h \<and> axMime r = mime) db))"
    by (auto simp only: sameContent_def split: list.splits) simp_all
  then show ?thesis by simp
qed

lemma completed_stored:
  assumes "inj sha" "rowsOk sha db" "r \<in> set db" "axSha r = sha (aiData inp)" "axSession r = session" "axMime r = aiMime inp"
    "completeAttachment r inp hint db = (info, db')"
  shows "rowsOk sha db' \<and> laterRows db db' \<and> storedUnder sha session inp (anId info) db' \<and>
    filter (\<lambda>x. axId x \<noteq> anId info) db' = filter (\<lambda>x. axId x \<noteq> anId info) db"
proof -
  note c = completed [OF assms(1-4,7)]
  obtain r' where "r' \<in> set db'" "sameRow r r'" "axData r' = Some (aiData inp)" using c(4) by blast
  then have "storedUnder sha session inp (anId info) db'"
    using assms(4-6) c(3) by (auto simp: storedUnder_def sameRow_def)
  then show ?thesis using c by simp
qed

lemma inserted_stored:
  assumes "rowsOk sha db" "insertAttachment i session inp (sha (aiData inp)) hint now db = Inr (info, db')"
  shows "rowsOk sha db' \<and> laterRows db db' \<and> storedUnder sha session inp (anId info) db' \<and>
    filter (\<lambda>x. axId x \<noteq> anId info) db' = filter (\<lambda>x. axId x \<noteq> anId info) db"
  using inserted [OF assms] by (simp add: storedUnder_def)

lemma stored:
  assumes "inj sha" "rowsOk sha db" "storeSessionAttachment sha now newId session inp db = Inr (info, db')"
  shows "rowsOk sha db' \<and> laterRows db db' \<and> storedUnder sha session inp (anId info) db' \<and>
    filter (\<lambda>x. axId x \<noteq> anId info) db' = filter (\<lambda>x. axId x \<noteq> anId info) db"
    "case aiId inp of None \<Rightarrow> True | Some i \<Rightarrow> anId info = i"
proof -
  let ?h = "normalizeImageSizeHint (aiWidth inp) (aiHeight inp)"
  consider (complete) r where "r \<in> set db" "axSha r = sha (aiData inp)" "axSession r = session" "axMime r = aiMime inp"
      "completeAttachment r inp ?h db = (info, db')" "case aiId inp of None \<Rightarrow> True | Some i \<Rightarrow> axId r = i"
    | (insert) i where "insertAttachment i session inp (sha (aiData inp)) ?h now db = Inr (info, db')"
      "case aiId inp of None \<Rightarrow> True | Some j \<Rightarrow> i = j"
  proof (cases "aiId inp")
    case None
    then show thesis using assms(3) that
      by (auto simp: storeSessionAttachment_def Let_def split: option.splits dest!: same_content)
  next
    case (Some i)
    then show thesis using assms(3) that
      by (auto simp: storeSessionAttachment_def Let_def split: option.splits if_splits dest: find_SomeD)
  qed
  note c = this
  show "rowsOk sha db' \<and> laterRows db db' \<and> storedUnder sha session inp (anId info) db' \<and>
    filter (\<lambda>x. axId x \<noteq> anId info) db' = filter (\<lambda>x. axId x \<noteq> anId info) db"
    using c completed_stored [OF assms(1,2)] inserted_stored [OF assms(2)] by cases blast+
  show "case aiId inp of None \<Rightarrow> True | Some i \<Rightarrow> anId info = i"
    using c completed(3) [OF assms(1,2)] inserted(3) [OF assms(2)] by cases (auto split: option.splits)
qed

subsection \<open>Every step\<close>

definition stepKeeps :: "(byte8 list \<Rightarrow> string) \<Rightarrow> attachmentState \<Rightarrow> attachmentState \<Rightarrow> bool" where
  "stepKeeps sha st st' = (attachmentsOk sha st' \<and> laterCache (snd st) (snd st'))"

lemma keeps_rows:
  assumes "attachmentsOk sha (db, c)" "rowsOk sha db'" "laterRows db db'"
  shows "stepKeeps sha (db, c) (db', c)"
  using assms by (auto simp: stepKeeps_def attachmentsOk_def intro: cache_later)

text \<open>What is cached anew describes a row, so it replaces nothing of another content.\<close>

lemma keeps_put:
  assumes "attachmentsOk sha (db, c)" "rowsOk sha db'" "laterRows db db'" "r \<in> set db'" "entryOf s i a r" "entryOk sha a"
  shows "stepKeeps sha (db, c) (db', cachePut s i a c)"
proof -
  have c: "attachmentCacheOk sha (db', c)" using assms(1,3) by (auto simp: attachmentsOk_def intro: cache_later)
  then have "attachmentCacheOk sha (db', cachePut s i a c)"
    using assms(4-6) by (auto simp: attachmentCacheOk_def cached_put)
  moreover have "sameContentAs b a" if b: "cached c s i = Some b" for b
  proof -
    have "\<exists>r'\<in>set db'. entryOf s i b r'" using c b unfolding attachmentCacheOk_def by (metis fst_conv snd_conv)
    then obtain r' where r': "r' \<in> set db'" "entryOf s i b r'" by blast
    have "r' = r" using row_unique [OF _ r'(1) assms(4)] assms(2,5) r'(2) by (simp add: rowsOk_def entryOf_def)
    then show ?thesis using r'(2) assms(5) by (simp add: entryOf_def sameContentAs_def)
  qed
  then have "laterCache c (cachePut s i a c)" by (auto simp: laterCache_def cached_put intro: same_refl)
  ultimately show ?thesis using assms(2) by (simp add: stepKeeps_def attachmentsOk_def)
qed

lemma found_row:
  assumes "getSessionAttachment s i db = Some r"
  shows "r \<in> set db" "axSession r = s" "axId r = i"
  using assms by (auto simp: getSessionAttachment_def dest: find_SomeD)

lemma keeps_get:
  assumes "attachmentsOk sha (db, c)"
  shows "stepKeeps sha (db, c) (db, snd (attachmentGet s i db c))"
proof (cases "cached c s i = None \<and> (\<exists>r d. getSessionAttachment s i db = Some r \<and> axData r = Some d)")
  case True
  then obtain r d where r: "getSessionAttachment s i db = Some r" "axData r = Some d" and n: "cached c s i = None" by blast
  have "rowOk sha r" using assms found_row(1) [OF r(1)] by (simp add: attachmentsOk_def rowsOk_def list_all_iff)
  then have "entryOk sha (bytesOfRow r d)" using r(2) by (auto simp: rowOk_def entryOk_def bytesOfRow_def)
  moreover have "entryOf s i (bytesOfRow r d) r" using found_row(2,3) [OF r(1)] by (simp add: entryOf_def bytesOfRow_def)
  ultimately have "stepKeeps sha (db, c) (db, cachePut s i (bytesOfRow r d) c)"
    using keeps_put [OF assms _ later_refl(1) found_row(1) [OF r(1)]] assms by (simp add: attachmentsOk_def)
  moreover have "snd (attachmentGet s i db c) = cachePut s i (bytesOfRow r d) c"
    using r n by (simp add: attachmentGet_def cached_def)
  ultimately show ?thesis by simp
next
  case False
  then have "snd (attachmentGet s i db c) = c"
    by (auto simp: attachmentGet_def cached_def split: option.split)
  then show ?thesis using assms by (simp add: stepKeeps_def)
qed

lemma keeps_inline:
  assumes "inj sha" "attachmentsOk sha (db, c)"
  shows "stepKeeps sha (db, c) (snd (referenceInlineImage sha now newId s b db c))"
proof (cases "snd (referenceInlineImage sha now newId s b db c) = (db, c)")
  case True
  then show ?thesis using assms(2) by (simp only: stepKeeps_def later_refl snd_conv)
next
  case False
  define inp where "inp = \<lparr>aiId = Some newId, aiData = inData b, aiMime = inMime b, aiFilename = inFilename b,
    aiWidth = map_option (\<lambda>h. rat_of_nat (fst h)) (inHint b), aiHeight = map_option (\<lambda>h. rat_of_nat (snd h)) (inHint b)\<rparr>"
  define a where "a = \<lparr>abData = inData b, abMime = inMime b, abBytes = length (inData b), abSha = sha (inData b), abFilename = inFilename b,
    abHint = map_option (\<lambda>(w, h). (int w, int h)) (inHint b)\<rparr>"
  obtain info db' where st: "storeSessionAttachment sha now newId s inp db = Inr (info, db')"
      and n: "snd (referenceInlineImage sha now newId s b db c) = (db', cachePut s newId a c)"
    using False by (auto simp: referenceInlineImage_def Let_def inp_def a_def split: if_splits option.splits sum.splits)
  have rows: "rowsOk sha db" using assms(2) by (simp add: attachmentsOk_def)
  have s1: "rowsOk sha db'" "laterRows db db'" "storedUnder sha s inp (anId info) db'"
    using stored(1) [OF assms(1) rows st] by auto
  have i: "anId info = newId" using stored(2) [OF assms(1) rows st] by (simp add: inp_def)
  obtain r where r: "r \<in> set db'" "axId r = newId" "axSession r = s" "axMime r = inMime b" "axSha r = sha (inData b)"
    using s1(3) i by (auto simp: storedUnder_def inp_def)
  have "rowOk sha r" using s1(1) r(1) by (simp add: rowsOk_def list_all_iff)
  then have "axBytes r = length (inData b)" using r(5) assms(1) by (auto simp: rowOk_def inj_eq)
  then have "entryOf s newId a r" "entryOk sha a" using r by (simp_all add: entryOf_def entryOk_def a_def)
  from keeps_put [OF assms(2) s1(1,2) r(1) this] show ?thesis by (simp only: n)
qed

lemma keeps_prune:
  assumes "attachmentsOk sha (db, c)"
  shows "stepKeeps sha (db, c) (map (\<lambda>r. if axId r = i then r\<lparr>axData := None, axPruned := Some now\<rparr> else r) db, c)"
proof (rule keeps_rows [OF assms])
  let ?f = "\<lambda>r. if axId r = i then r\<lparr>axData := None, axPruned := Some now\<rparr> else r"
  have ids: "axId \<circ> ?f = axId" by (rule ext) simp
  have ok: "rowOk sha (?f r)" if "rowOk sha r" for r using that by (auto simp: rowOk_def)
  have same: "sameRow r (?f r)" for r by (simp add: sameRow_def)
  show "rowsOk sha (map ?f db)"
    using assms ok unfolding rowsOk_def attachmentsOk_def list_all_iff by (simp only: map_map ids fst_conv set_map ball_simps) blast
  show "laterRows db (map ?f db)" using same by (auto simp only: laterRows_def set_map)
qed

lemma attachment_step:
  assumes "inj sha" "attachmentsOk sha st"
  shows "stepKeeps sha st (attachmentStep sha e st)"
proof -
  obtain db c where st: "st = (db, c)" by fastforce
  have ok: "attachmentsOk sha (db, c)" and rows: "rowsOk sha db" using assms(2) by (simp_all add: st attachmentsOk_def)
  have same: "stepKeeps sha (db, c) (db, c)" using ok by (simp add: stepKeeps_def)
  show ?thesis
  proof (cases e)
    case (StoreOp session inp newId now)
    then show ?thesis
      using same keeps_rows [OF ok] stored(1) [OF assms(1) rows, of now newId session inp] st
      by (auto split: sum.split prod.split)
  qed (use keeps_inline [OF assms(1) ok] keeps_get [OF ok] keeps_prune [OF ok] in \<open>simp_all add: st\<close>)
qed

lemma attachment_run:
  assumes "inj sha" "attachmentsOk sha st"
  shows "attachmentsOk sha (attachmentRun sha ops st)" "laterCache (snd st) (snd (attachmentRun sha ops st))"
  using assms(2)
proof (induction ops arbitrary: st)
  case Nil
  { case 1 then show ?case by (simp add: attachmentRun_def) next case 2 show ?case by (simp add: attachmentRun_def) }
next
  case (Cons e ops)
  have k: "stepKeeps sha st (attachmentStep sha e st)" if "attachmentsOk sha st" for st using attachment_step [OF assms(1) that] .
  { case 1
    then show ?case using Cons.IH(1) k by (simp add: attachmentRun_def stepKeeps_def)
  next
    case 2
    then show ?case using Cons.IH(2) [of "attachmentStep sha e st"] k [of st] later_trans
      by (simp add: attachmentRun_def stepKeeps_def) blast }
qed

lemma fresh_ok [simp]: "attachmentsOk sha ([], [])"
  by (simp add: attachmentsOk_def rowsOk_def attachmentCacheOk_def cached_def)

subsection \<open>Reading back\<close>

lemma stored_found:
  assumes "rowsOk sha db" "storedUnder sha s inp i db"
  shows "getAttachmentBytes True s i db = AttachmentFound (aiData inp) (aiMime inp)"
proof -
  obtain r where r: "r \<in> set db" "axId r = i" "axSession r = s" "axMime r = aiMime inp" "axData r = Some (aiData inp)"
    using assms(2) by (auto simp: storedUnder_def)
  have "getSessionAttachment s i db = Some r"
  proof (cases "getSessionAttachment s i db")
    case None
    then show ?thesis using r(1-3) by (auto simp: getSessionAttachment_def find_None_iff)
  next
    case (Some r')
    have "r' = r"
      using row_unique [OF _ found_row(1) [OF Some] r(1)] found_row(3) [OF Some] r(2) assms(1) by (simp add: rowsOk_def)
    then show ?thesis using Some by simp
  qed
  then show ?thesis using r(4,5) by (simp add: getAttachmentBytes_def)
qed

text \<open>C38: C38: 
  C0: if no two contents have one digest, then after any uploads, images of tools, reads and pruning, an upload that succeeds leaves its
  bytes and type under the ID that it answers, for this session: the ID it was given if it was given one. Every other row stays.
\<close>

theorem stored_attachment_reads_back:
  assumes "inj sha" "attachmentRun sha ops ([], []) = (db, cache)"
    "storeSessionAttachment sha now newId session inp db = Inr (info, db')"
  shows "getAttachmentBytes True session (anId info) db' = AttachmentFound (aiData inp) (aiMime inp) \<and>
    (case aiId inp of None \<Rightarrow> True | Some i \<Rightarrow> anId info = i) \<and>
    filter (\<lambda>r. axId r \<noteq> anId info) db' = filter (\<lambda>r. axId r \<noteq> anId info) db"
proof -
  have "rowsOk sha db" using attachment_run(1) [OF assms(1) fresh_ok, of ops] assms(2) by (simp add: attachmentsOk_def)
  note s = stored [OF assms(1) this assms(3)]
  then show ?thesis using stored_found by blast
qed

definition plainDigest :: "byte8 list \<Rightarrow> string" where
  "plainDigest d = map (\<lambda>b. char_of (unat b)) d"

lemma plainDigest_inj: "inj plainDigest"
proof -
  have "inj (\<lambda>b::byte8. (char_of (unat b) :: char))"
  proof (rule injI)
    fix a b :: byte8
    assume "(char_of (unat a) :: char) = char_of (unat b)"
    then have "(of_char (char_of (unat a) :: char) :: nat) = of_char (char_of (unat b) :: char)" by simp
    then have "unat a mod 256 = unat b mod 256" by (simp add: of_char_of)
    then show "a = b" using unsigned_less [where 'a = nat, of a] unsigned_less [where 'a = nat, of b] by (simp add: word_unat_eq_iff)
  qed
  then have "inj (map (\<lambda>b::byte8. (char_of (unat b) :: char)))" by (rule inj_mapI)
  then show ?thesis by (simp only: inj_def plainDigest_def)
qed

definition demoPixel :: attachmentInput where
  "demoPixel = \<lparr>aiId = None, aiData = [71, 73, 70], aiMime = ''image/gif'', aiFilename = Some ''a.gif'', aiWidth = None, aiHeight = None\<rparr>"

definition demoRowOf :: "byte8 list option \<Rightarrow> string option \<Rightarrow> attachmentRow" where
  "demoRowOf kept pruned =
     \<lparr>axId = ''att_1'', axSession = ''s'', axMime = ''image/gif'', axFilename = Some ''a.gif'', axBytes = 3, axSha = ''GIF'', axData = kept,
      axWidth = None, axHeight = None, axCreated = ''t0'', axPruned = pruned\<rparr>"

lemma demo_supported: "assertSupportedImage ''image/gif'' (Suc (Suc (Suc 0))) = None"
  by (simp add: assertSupportedImage_def allowedImageMimeTypes_def maxAttachmentBytes_def)

lemma demo_digest: "plainDigest [71, 73, 70] = ''GIF''"
  by (simp add: plainDigest_def) code_simp

lemmas demo_simps = storeSessionAttachment_def demoPixel_def demo_supported demo_digest normalizeImageSizeHint_def sameContent_def
  insertAttachment_def completeAttachment_def completedRow_def coalesce_def toInfo_def demoRowOf_def Let_def

lemma demo_history: "attachmentRun plainDigest [StoreOp ''s'' demoPixel ''att_1'' ''t0'', PruneOp ''att_1'' ''t1''] ([], []) = ([demoRowOf None (Some ''t1'')], [])"
  by (simp add: attachmentRun_def demo_simps)

lemma demo_restored:
  "storeSessionAttachment plainDigest ''t2'' ''att_2'' ''s'' demoPixel [demoRowOf None (Some ''t1'')] =
     Inr (toInfo (demoRowOf (Some [71, 73, 70]) None), [demoRowOf (Some [71, 73, 70]) None])"
  by (simp add: demo_simps)

theorem stored_attachment_reads_back_witness:
  "getAttachmentBytes True ''s'' ''att_1'' [demoRowOf (Some [71, 73, 70]) None] = AttachmentFound [71, 73, 70] ''image/gif''"
  using stored_attachment_reads_back [OF plainDigest_inj demo_history demo_restored]
  by (simp add: toInfo_def demoRowOf_def demoPixel_def)

subsection \<open>Admitted prompts\<close>

text \<open>The reference checked for an attachment says of it what each reference in the prompt says.\<close>

definition agrees :: "imageRef \<Rightarrow> (string, imageRef) jsmap \<Rightarrow> bool" where
  "agrees b m =
     (case jmGet m (irId b) of
        None \<Rightarrow> False
      | Some r \<Rightarrow> irId r = irId b \<and> irMime r = irMime b \<and> irBytes r = irBytes b \<and> (if truthyStr (irSha b) then irSha r = irSha b else True))"

definition refsOf :: "(string, imageRef) jsmap \<Rightarrow> bool" where
  "refsOf m = (\<forall>p\<in>set m. irId (snd p) = fst p)"

lemma refs_get: "refsOf m \<Longrightarrow> jmGet m k = Some r \<Longrightarrow> irId r = k \<and> r \<in> snd ` set m"
  unfolding refsOf_def by (metis fst_conv image_eqI map_of_SomeD snd_conv)

lemma refs_set: "refsOf m \<Longrightarrow> irId r = k \<Longrightarrow> refsOf (jmSet k r m)"
  by (induction m) (auto simp: refsOf_def)

lemma agrees_chosen:
  assumes "jmGet m (irId c) = Some prior" "irId prior = irId c" "irMime prior = irMime c" "irBytes prior = irBytes c"
    "if truthyStr (irSha prior) \<and> truthyStr (irSha c) then irSha prior = irSha c else True"
  shows "agrees b m \<Longrightarrow> agrees b (jmSet (irId c) (if truthyStr (irSha prior) then prior else c) m)"
    "agrees c (jmSet (irId c) (if truthyStr (irSha prior) then prior else c) m)"
  using assms by (auto simp: agrees_def split: option.splits if_splits)

lemma unique_agrees:
  assumes "uniqueRefs bs m = Inr m'" "refsOf m"
  shows "refsOf m' \<and> (agrees b m \<longrightarrow> agrees b m') \<and> (ImagePart b \<in> set bs \<longrightarrow> agrees b m')"
  using assms
proof (induction bs m rule: uniqueRefs.induct)
  case (3 c bs m)
  show ?case
  proof (cases "jmGet m (irId c)")
    case None
    have "agrees c (jmSet (irId c) c m)" "agrees b m \<Longrightarrow> agrees b (jmSet (irId c) c m)"
      using None by (auto simp: agrees_def split: option.splits)
    then show ?thesis using 3(1) [OF None _ refs_set [OF 3(4) refl]] 3(3) None by auto
  next
    case (Some prior)
    have p: "irId prior = irId c" using refs_get [OF 3(4) Some] by simp
    let ?r = "if truthyStr (irSha prior) then prior else c"
    have ok: "irMime prior = irMime c" "irBytes prior = irBytes c"
        "if truthyStr (irSha prior) \<and> truthyStr (irSha c) then irSha prior = irSha c else True"
        and rest: "uniqueRefs bs (jmSet (irId c) ?r m) = Inr m'"
      using 3(3) Some by (auto split: if_splits)
    note a = agrees_chosen [OF Some p ok]
    have "refsOf (jmSet (irId c) ?r m)" by (rule refs_set [OF 3(4)]) (simp add: p)
    then show ?thesis using 3(2) [OF Some _ rest] ok a by (auto split: if_splits)
  qed
qed simp_all

definition heldRef :: "attachmentCache \<Rightarrow> string \<Rightarrow> imageRef \<Rightarrow> bool" where
  "heldRef c s r = (\<exists>a. cached c s (irId r) = Some a \<and> metadataMatches r a)"

lemma held_later: "heldRef c s r \<Longrightarrow> laterCache c c' \<Longrightarrow> heldRef c' s r"
  unfolding heldRef_def laterCache_def sameContentAs_def metadataMatches_def by metis

lemma get_caches: "attachmentGet s i db c = (Some a, c') \<Longrightarrow> cached c' s i = Some a"
  by (auto simp: attachmentGet_def cached_put cached_def [symmetric] split: option.splits)

lemma checked_held:
  assumes "attachmentsOk sha (db, c)" "checkRefs s rs db c = (None, c')"
  shows "attachmentsOk sha (db, c') \<and> laterCache c c' \<and> (\<forall>r\<in>set rs. heldRef c' s r)"
  using assms
proof (induction rs arbitrary: c)
  case (Cons r rs)
  obtain a c1 where g: "attachmentGet s (irId r) db c = (Some a, c1)" "metadataMatches r a" and rest: "checkRefs s rs db c1 = (None, c')"
    using Cons.prems(2) by (auto simp: referenced_def split: prod.splits option.splits if_splits sum.splits)
  have k: "attachmentsOk sha (db, c1)" "laterCache c c1"
    using keeps_get [OF Cons.prems(1), of s "irId r"] g(1) by (simp_all add: stepKeeps_def)
  note ih = Cons.IH [OF k(1) rest]
  have "heldRef c1 s r" using get_caches [OF g(1)] g(2) by (auto simp: heldRef_def)
  then have "heldRef c' s r" using ih held_later by blast
  then show ?case using ih later_trans [OF k(2)] by auto
qed simp

text \<open>The provider is given what the reference declares.\<close>

definition shownAs :: "(byte8 list \<Rightarrow> string) \<Rightarrow> promptBlock \<Rightarrow> providerBlock \<Rightarrow> bool" where
  "shownAs sha b p =
     (case (b, p) of
        (TextPart t, ProviderText u) \<Rightarrow> u = t
      | (ImagePart r, ProviderImage d mime f hint) \<Rightarrow>
          mime = irMime r \<and> of_nat (length d) = irBytes r \<and> (case irSha r of None \<Rightarrow> True | Some h \<Rightarrow> sha d = h)
      | _ \<Rightarrow> False)"

lemma held_agrees: "heldRef c s r \<Longrightarrow> agrees b m \<Longrightarrow> jmGet m (irId b) = Some r \<Longrightarrow> irSha b \<noteq> Some [] \<Longrightarrow> heldRef c s b"
  by (auto simp: heldRef_def agrees_def metadataMatches_def split: option.splits if_splits)

lemma hydrates:
  assumes "attachmentCacheOk sha (db, c)" "\<forall>b. ImagePart b \<in> set content \<longrightarrow> heldRef c s b"
  shows "\<exists>ps. hydratePrompt s content db c = (Inr ps, c) \<and> list_all2 (shownAs sha) content ps"
  using assms(2)
proof (induction content)
  case (Cons b bs)
  then obtain ps where ps: "hydratePrompt s bs db c = (Inr ps, c)" "list_all2 (shownAs sha) bs ps" by auto
  show ?case
  proof (cases b)
    case (TextPart t)
    have "shownAs sha (TextPart t) (ProviderText t)" by (simp add: shownAs_def)
    then show ?thesis using ps TextPart by simp
  next
    case (ImagePart r)
    then obtain a where a: "cached c s (irId r) = Some a" "metadataMatches r a" using Cons.prems by (auto simp: heldRef_def)
    have "entryOk sha a" using assms(1) a(1) unfolding attachmentCacheOk_def by (metis snd_conv)
    then have "shownAs sha b (ProviderImage (abData a) (abMime a) (if truthyStr (abFilename a) then abFilename a else None) (abHint a))"
      using a(2) ImagePart by (auto simp: shownAs_def entryOk_def metadataMatches_def split: option.splits)
    moreover have "referenced s r db c = (Inr (Some a), c)"
      using a by (simp add: referenced_def attachmentGet_def cached_def [symmetric])
    ultimately show ?thesis using ps ImagePart by (simp add: Let_def)
  qed
qed simp


definition demoRef :: "string option \<Rightarrow> imageRef" where
  "demoRef h = \<lparr>irId = ''att_1'', irMime = ''image/gif'', irBytes = 3, irSha = h, irFilename = None, irHint = None\<rparr>"

definition demoCache :: attachmentCache where
  "demoCache = [(''s'', [(''att_1'', bytesOfRow (demoRowOf (Some [71, 73, 70]) None) [71, 73, 70])])]"

lemma demo_uploaded: "attachmentRun plainDigest [StoreOp ''s'' demoPixel ''att_1'' ''t0''] ([], []) = ([demoRowOf (Some [71, 73, 70]) None], [])"
  by (simp add: attachmentRun_def demo_simps)

lemma demo_cached:
  "attachmentGet ''s'' ''att_1'' [demoRowOf (Some [71, 73, 70]) None] [] = (Some (bytesOfRow (demoRowOf (Some [71, 73, 70]) None) [71, 73, 70]), demoCache)"
  "attachmentGet ''s'' ''att_1'' db demoCache = (Some (bytesOfRow (demoRowOf (Some [71, 73, 70]) None) [71, 73, 70]), demoCache)"
  by (simp_all add: attachmentGet_def getSessionAttachment_def demoRowOf_def cachePut_def demoCache_def)

lemma demo_matches:
  "metadataMatches (demoRef h) (bytesOfRow (demoRowOf (Some [71, 73, 70]) None) [71, 73, 70]) = (case h of None \<Rightarrow> True | Some t \<Rightarrow> t = ''GIF'')"
  by (simp add: metadataMatches_def demoRef_def bytesOfRow_def demoRowOf_def split: option.split)

lemma demo_ref [simp]: "irId (demoRef h) = ''att_1''" "irMime (demoRef h) = ''image/gif''" "irBytes (demoRef h) = 3" "irSha (demoRef h) = h"
  by (simp_all add: demoRef_def)

lemma demo_admitted:
  "materializePromptAttachments ''s'' [TextPart ''look'', ImagePart (demoRef (Some ''GIF''))] [demoRowOf (Some [71, 73, 70]) None] [] = (None, demoCache)"
  by (simp add: materializePromptAttachments_def referenced_def demo_cached demo_matches)

lemma demo_pruned:
  "attachmentRun plainDigest [PruneOp ''att_1'' ''t1''] ([demoRowOf (Some [71, 73, 70]) None], demoCache) = ([demoRowOf None (Some ''t1'')], demoCache)"
  by (simp add: attachmentRun_def demoRowOf_def)


text \<open>
  An empty digest counts as none when the references of a prompt are compared, and as a digest when the image is read: a prompt that names
  one attachment twice, with its digest and with an empty one, is admitted, and then fails whenever it is given to the provider.
\<close>

lemma empty_digest_admitted:
  "materializePromptAttachments ''s'' [ImagePart (demoRef (Some ''GIF'')), ImagePart (demoRef (Some []))] [demoRowOf (Some [71, 73, 70]) None] [] =
     (None, demoCache)"
  "hydratePrompt ''s'' [ImagePart (demoRef (Some ''GIF'')), ImagePart (demoRef (Some []))] db demoCache = (Inl (MetadataMismatch ''att_1''), demoCache)"
  by (simp_all add: materializePromptAttachments_def referenced_def demo_cached demo_matches Let_def)

end
