(* ===== verification/App_Routes.thy ===== *)
theory App_Routes
  imports Node_Streams
begin

text \<open>
  The pages of the browser: the router of \<^verbatim>\<open>packages/frontend/src/routing/router.ts\<close>, the routes of \<^verbatim>\<open>app-router.ts\<close> with what opens and
  closes settings over the browser's history, and the page an app starts on (\<^verbatim>\<open>controllers/app-route-controller.ts\<close>). A hash is a
  \<open>string\<close>, since a browser keeps it in ASCII; what its escapes stand for is a list of code points without lone surrogates. Numbers
  are exact, so IDs stand for those below 2 to the 53. Rendering is left out.
\<close>

subsection \<open>Escapes\<close>

type_synonym cpText = "nat list"

definition cps :: "string \<Rightarrow> cpText" where
  "cps s = map of_char s"

definition hexDigit :: "nat \<Rightarrow> char" where
  "hexDigit n = char_of (if n < 10 then 48 + n else 55 + n)"

definition hexValue :: "char \<Rightarrow> nat option" where
  "hexValue c =
     (let n = of_char c
      in if 48 \<le> n \<and> n \<le> 57 then Some (n - 48)
         else if 65 \<le> n \<and> n \<le> 70 then Some (n - 55)
         else if 97 \<le> n \<and> n \<le> 102 then Some (n - 87)
         else None)"

definition isAlnumCode :: "nat \<Rightarrow> bool" where
  "isAlnumCode n = ((48 \<le> n \<and> n \<le> 57) \<or> (65 \<le> n \<and> n \<le> 90) \<or> (97 \<le> n \<and> n \<le> 122))"

definition percentByte :: "nat \<Rightarrow> string" where
  "percentByte b = [CHR ''%'', hexDigit (b div 16), hexDigit (b mod 16)]"

text \<open>It keeps letters, digits and \<open>-_.!~*'()\<close>.\<close>

definition uriByte :: "nat \<Rightarrow> string" where
  "uriByte b = (if isAlnumCode b \<or> b \<in> {45, 95, 46, 33, 126, 42, 39, 40, 41} then [char_of b] else percentByte b)"

definition encodeURIComponent :: "cpText \<Rightarrow> string" where
  "encodeURIComponent t = concat (map uriByte (concat (map encodeCp t)))"

text \<open>The characters and escaped bytes of a text, \<open>None\<close> for a broken escape.\<close>

fun escapedParts :: "string \<Rightarrow> (nat + nat) list option" where
  "escapedParts [] = Some []"
| "escapedParts (c # rest) =
     (if c \<noteq> CHR ''%'' then map_option ((#) (Inl (of_char c))) (escapedParts rest)
      else (case rest of
              a # b # r \<Rightarrow>
                (case (hexValue a, hexValue b) of
                   (Some x, Some y) \<Rightarrow> map_option ((#) (Inr (16 * x + y))) (escapedParts r)
                 | _ \<Rightarrow> None)
            | _ \<Rightarrow> None))"

definition moreBytes :: "nat \<Rightarrow> nat option" where
  "moreBytes b =
     (if 0xC2 \<le> b \<and> b < 0xE0 then Some 1 else if 0xE0 \<le> b \<and> b < 0xF0 then Some 2 else if 0xF0 \<le> b \<and> b < 0xF5 then Some 3 else None)"

fun partsText :: "(nat + nat) list \<Rightarrow> cpText option" where
  "partsText [] = Some []"
| "partsText (Inl c # r) = map_option ((#) c) (partsText r)"
| "partsText (Inr b # r) =
     (if b < 0x80 then map_option ((#) b) (partsText r)
      else (case moreBytes b of
              None \<Rightarrow> None
            | Some k \<Rightarrow>
                (case those (map (case_sum (\<lambda>_. None) Some) (take k r)) of
                   None \<Rightarrow> None
                 | Some extra \<Rightarrow>
                     (case decodeCps (b # extra) of
                        Some [cp] \<Rightarrow> map_option ((#) cp) (partsText (drop k r))
                      | _ \<Rightarrow> None))))"

definition decodeURIComponent :: "string \<Rightarrow> cpText option" where
  "decodeURIComponent s = Option.bind (escapedParts s) partsText"

subsection \<open>Queries\<close>

definition formByte :: "nat \<Rightarrow> string" where
  "formByte b =
     (if isAlnumCode b \<or> b \<in> {42, 45, 46, 95} then [char_of b] else if b = 32 then ''+'' else percentByte b)"

definition formEncode :: "cpText \<Rightarrow> string" where
  "formEncode t = concat (map formByte (concat (map encodeCp t)))"

definition queryText :: "(cpText \<times> cpText) list \<Rightarrow> string" where
  "queryText ps = joinWith ''&'' (map (\<lambda>(k, v). formEncode k @ ''='' @ formEncode v) ps)"

fun formBytes :: "string \<Rightarrow> nat list" where
  "formBytes [] = []"
| "formBytes (c # rest) =
     (if c = CHR ''+'' then 32 # formBytes rest
      else if c \<noteq> CHR ''%'' then of_char c # formBytes rest
      else (case rest of
              a # b # r \<Rightarrow>
                (case (hexValue a, hexValue b) of
                   (Some x, Some y) \<Rightarrow> (16 * x + y) # formBytes r
                 | _ \<Rightarrow> 37 # formBytes rest)
            | _ \<Rightarrow> 37 # formBytes rest))"

text \<open>What is not UTF-8 becomes U+FFFD, and no byte order mark is looked for.\<close>

definition lossyText :: "nat list \<Rightarrow> cpText" where
  "lossyText bs = (case u8Feed (u8Start\<lparr>u8BomSeen := True\<rparr>) bs of (st, out) \<Rightarrow> out @ u8Flush st)"

definition queryPair :: "string \<Rightarrow> cpText \<times> cpText" where
  "queryPair p =
     (lossyText (formBytes (takeWhile (\<lambda>c. c \<noteq> CHR ''='') p)), lossyText (formBytes (drop 1 (dropWhile (\<lambda>c. c \<noteq> CHR ''='') p))))"

definition queryPairs :: "string \<Rightarrow> (cpText \<times> cpText) list" where
  "queryPairs s = map queryPair (filter (\<lambda>p. p \<noteq> []) (splitOn (CHR ''&'') s))"

subsection \<open>The router\<close>

type_synonym routeParams = "(cpText, cpText) jsmap"

record appRoute =
  rtName :: string
  rtParams :: routeParams

record routeDef =
  rdName :: string
  rdSegments :: "string list"
  rdValidate :: "routeParams \<Rightarrow> bool"

definition emptyRoute :: appRoute where
  "emptyRoute = \<lparr>rtName = ''empty'', rtParams = []\<rparr>"

definition segmentsOf :: "string \<Rightarrow> string list" where
  "segmentsOf path = filter (\<lambda>s. s \<noteq> []) (splitOn (CHR ''/'') path)"

definition registerRoute :: "string \<Rightarrow> string \<Rightarrow> (routeParams \<Rightarrow> bool) \<Rightarrow> routeDef list \<Rightarrow> string + routeDef list" where
  "registerRoute name pattern valid routes =
     (if name \<in> rdName ` set routes then Inl (''Route '' @ [CHR 0x27] @ name @ [CHR 0x27] @ '' is already registered'')
      else Inr (routes @ [\<lparr>rdName = name, rdSegments = segmentsOf pattern, rdValidate = valid\<rparr>]))"

definition unregisterRoute :: "string \<Rightarrow> routeDef list \<Rightarrow> routeDef list" where
  "unregisterRoute name routes = filter (\<lambda>r. rdName r \<noteq> name) routes"

definition splitHash :: "string \<Rightarrow> string \<times> (cpText \<times> cpText) list" where
  "splitHash hash =
     (let pieces = splitOn (CHR ''?'') (if startsWith hash ''#'' then drop 1 hash else hash);
          raw = hd pieces
      in (if startsWith raw ''/'' then raw else CHR ''/'' # raw, queryPairs (case tl pieces of [] \<Rightarrow> [] | q # _ \<Rightarrow> q)))"

fun matchSegments :: "string list \<Rightarrow> string list \<Rightarrow> routeParams \<Rightarrow> routeParams option" where
  "matchSegments (p # pats) (v # vs) params =
     (if startsWith p '':''
      then (case decodeURIComponent v of
              None \<Rightarrow> None
            | Some t \<Rightarrow> matchSegments pats vs (jmSet (cps (drop 1 p)) t params))
      else if p = v then matchSegments pats vs params
      else None)"
| "matchSegments [] [] params = Some params"
| "matchSegments _ _ params = None"

fun firstMatch :: "routeDef list \<Rightarrow> string list \<Rightarrow> routeParams \<Rightarrow> appRoute" where
  "firstMatch [] segments params = emptyRoute"
| "firstMatch (r # routes) segments params =
     (if length segments \<noteq> length (rdSegments r) then firstMatch routes segments params
      else (case matchSegments (rdSegments r) segments params of
              None \<Rightarrow> firstMatch routes segments params
            | Some ps \<Rightarrow> if rdValidate r ps then \<lparr>rtName = rdName r, rtParams = ps\<rparr> else firstMatch routes segments params))"

definition resolveHash :: "routeDef list \<Rightarrow> string \<Rightarrow> appRoute" where
  "resolveHash routes hash =
     (case splitHash hash of
        (path, query) \<Rightarrow> firstMatch routes (segmentsOf path) (fold (\<lambda>(k, v). jmSet k v) query []))"

datatype routeError = UnknownRoute string | MissingParameter string

fun hashPath :: "string list \<Rightarrow> (string \<times> cpText) list \<Rightarrow> routeError + string list" where
  "hashPath [] params = Inr []"
| "hashPath (s # ss) params =
     (if startsWith s '':''
      then (case map_of params (drop 1 s) of
              None \<Rightarrow> Inl (MissingParameter (drop 1 s))
            | Some v \<Rightarrow> (case hashPath ss params of Inl e \<Rightarrow> Inl e | Inr ps \<Rightarrow> Inr (encodeURIComponent v # ps)))
      else (case hashPath ss params of Inl e \<Rightarrow> Inl e | Inr ps \<Rightarrow> Inr (s # ps)))"

definition routeHash :: "routeDef list \<Rightarrow> string \<Rightarrow> (string \<times> cpText) list \<Rightarrow> routeError + string" where
  "routeHash routes name params =
     (case find (\<lambda>r. rdName r = name) routes of
        None \<Rightarrow> Inl (UnknownRoute name)
      | Some r \<Rightarrow>
          (case hashPath (rdSegments r) params of
             Inl e \<Rightarrow> Inl e
           | Inr parts \<Rightarrow>
               (let query = filter (\<lambda>p. CHR '':'' # fst p \<notin> set (rdSegments r)) params
                in Inr (''#/'' @ joinWith ''/'' parts @ (if query = [] then [] else ''?'' @ queryText (map (\<lambda>(k, v). (cps k, v)) query))))))"

subsection \<open>The routes of the app\<close>

definition settingsSections :: "string list" where
  "settingsSections = [''models'', ''nodes'', ''sidebar'', ''extensions'']"

definition isSettingsSection :: "cpText \<Rightarrow> bool" where
  "isSettingsSection t = (t \<in> cps ` set settingsSections)"

definition isIdText :: "cpText \<Rightarrow> bool" where
  "isIdText t = (t \<noteq> [] \<and> list_all (\<lambda>c. 48 \<le> c \<and> c \<le> 57) t)"

definition isExtensionName :: "cpText \<Rightarrow> bool" where
  "isExtensionName t =
     (case t of
        [] \<Rightarrow> False
      | c # r \<Rightarrow> 97 \<le> c \<and> c \<le> 122 \<and> list_all (\<lambda>c. (97 \<le> c \<and> c \<le> 122) \<or> (48 \<le> c \<and> c \<le> 57) \<or> c = 45) r)"

definition routeParam :: "string \<Rightarrow> routeParams \<Rightarrow> cpText option" where
  "routeParam name ps = jmGet ps (cps name)"

definition validNewSession :: "routeParams \<Rightarrow> bool" where
  "validNewSession ps =
     (case routeParam ''project'' ps of
        None \<Rightarrow> routeParam ''task'' ps = None
      | Some p \<Rightarrow> isIdText p \<and> (case routeParam ''task'' ps of None \<Rightarrow> True | Some t \<Rightarrow> isIdText t))"

definition appRoutes :: "routeDef list" where
  "appRoutes =
     [\<lparr>rdName = ''empty'', rdSegments = [], rdValidate = (\<lambda>_. True)\<rparr>,
      \<lparr>rdName = ''session'', rdSegments = [''session'', '':sessionId''], rdValidate = (\<lambda>_. True)\<rparr>,
      \<lparr>rdName = ''new-session'', rdSegments = [''new''], rdValidate = validNewSession\<rparr>,
      \<lparr>rdName = ''project-history'', rdSegments = [''projects'', '':projectId'', ''history''],
       rdValidate = (\<lambda>ps. isIdText (orElse (routeParam ''projectId'' ps) []))\<rparr>,
      \<lparr>rdName = ''settings'', rdSegments = [''settings''], rdValidate = (\<lambda>_. True)\<rparr>,
      \<lparr>rdName = ''settings-section'', rdSegments = [''settings'', '':section''],
       rdValidate = (\<lambda>ps. isSettingsSection (orElse (routeParam ''section'' ps) []))\<rparr>,
      \<lparr>rdName = ''settings-extension'', rdSegments = [''settings'', ''extensions'', '':extension''],
       rdValidate = (\<lambda>ps. isExtensionName (orElse (routeParam ''extension'' ps) []))\<rparr>,
      \<lparr>rdName = ''settings-extension-details'', rdSegments = [''settings'', ''extensions'', '':extension'', ''details''],
       rdValidate = (\<lambda>ps. isExtensionName (orElse (routeParam ''extension'' ps) []))\<rparr>]"

definition parseHash :: "string \<Rightarrow> appRoute" where
  "parseHash hash = resolveHash appRoutes hash"

text \<open>The hash of a registered route with its parameters, the empty text standing for what would throw.\<close>

definition appHash :: "string \<Rightarrow> (string \<times> cpText) list \<Rightarrow> string" where
  "appHash name params = (case routeHash appRoutes name params of Inl _ \<Rightarrow> [] | Inr h \<Rightarrow> h)"

definition sessionHash :: "cpText \<Rightarrow> string" where
  "sessionHash i = appHash ''session'' [(''sessionId'', i)]"

definition numberText :: "int \<Rightarrow> cpText" where
  "numberText n = cps (showInt n)"

definition newSessionHash :: "int option \<Rightarrow> int option \<Rightarrow> string" where
  "newSessionHash project task =
     appHash ''new-session''
       ((case project of None \<Rightarrow> [] | Some p \<Rightarrow> [(''project'', numberText p)]) @
        (case (project, task) of (Some _, Some t) \<Rightarrow> [(''task'', numberText t)] | _ \<Rightarrow> []))"

definition projectHistoryHash :: "int \<Rightarrow> string" where
  "projectHistoryHash project = appHash ''project-history'' [(''projectId'', numberText project)]"

definition settingsHash :: "string option \<Rightarrow> string" where
  "settingsHash section = (case section of None \<Rightarrow> appHash ''settings'' [] | Some s \<Rightarrow> appHash ''settings-section'' [(''section'', cps s)])"

definition settingsExtensionHash :: "string \<Rightarrow> string" where
  "settingsExtensionHash extension = appHash ''settings-extension'' [(''extension'', cps extension)]"

definition settingsExtensionDetailsHash :: "string \<Rightarrow> string" where
  "settingsExtensionDetailsHash extension = appHash ''settings-extension-details'' [(''extension'', cps extension)]"

subsection \<open>Views\<close>

text \<open>A view is what an extension may pass, its fields of any type; \<open>OtherField\<close> is a field that is absent or of no type that is looked for.\<close>

datatype viewField = TextField cpText | NumberField rat | NullField | OtherField

record mainView =
  mvKind :: string
  mvField :: "string \<Rightarrow> viewField"

definition idField :: "cpText option \<Rightarrow> viewField" where
  "idField t = (case t of None \<Rightarrow> NullField | Some d \<Rightarrow> if d = [] then NullField else NumberField (of_nat (digitsToNat (map char_of d))))"

definition viewOfRoute :: "appRoute \<Rightarrow> mainView option" where
  "viewOfRoute r =
     (if rtName r = ''session'' \<and> orElse (routeParam ''sessionId'' (rtParams r)) [] \<noteq> []
      then Some \<lparr>mvKind = ''session'', mvField = (\<lambda>_. OtherField)(''sessionId'' := TextField (orElse (routeParam ''sessionId'' (rtParams r)) []))\<rparr>
      else if rtName r \<noteq> ''new-session'' then None
      else Some \<lparr>mvKind = ''new-session'',
                 mvField = (\<lambda>_. OtherField)(''projectId'' := idField (routeParam ''project'' (rtParams r)), ''taskId'' := idField (routeParam ''task'' (rtParams r)))\<rparr>)"

definition isIntegerNumber :: "rat \<Rightarrow> bool" where
  "isIntegerNumber x = (of_int \<lfloor>x\<rfloor> = x)"

text \<open>\<open>None\<close>: it is not an ID or null.\<close>

definition optionalId :: "viewField \<Rightarrow> int option option" where
  "optionalId f =
     (case f of NullField \<Rightarrow> Some None | NumberField x \<Rightarrow> if isIntegerNumber x then Some (Some \<lfloor>x\<rfloor>) else None | _ \<Rightarrow> None)"

definition mainViewHash :: "mainView \<Rightarrow> string option" where
  "mainViewHash v =
     (if mvKind v = ''session''
      then (case mvField v ''sessionId'' of TextField t \<Rightarrow> if t \<noteq> [] then Some (sessionHash t) else None | _ \<Rightarrow> None)
      else if mvKind v = ''project-history''
      then (case mvField v ''projectId'' of
              NumberField x \<Rightarrow> if isIntegerNumber x then Some (projectHistoryHash \<lfloor>x\<rfloor>) else None
            | _ \<Rightarrow> None)
      else if mvKind v \<noteq> ''new-session'' then None
      else (case (optionalId (mvField v ''projectId''), optionalId (mvField v ''taskId'')) of
              (Some project, Some task) \<Rightarrow> if project = None \<and> task \<noteq> None then None else Some (newSessionHash project task)
            | _ \<Rightarrow> None))"

subsection \<open>Navigation\<close>

text \<open>The session history up to and after the entry that is shown, the hash closing settings returns to, what is stored as the last
  hash, and the routes applied. The event of \<open>history.back\<close> is handled like any.\<close>

record navigation =
  nvEntries :: "string list"
  nvAt :: nat
  nvReturn :: "string option"
  nvLast :: "string option"
  nvApplied :: "appRoute list"

definition locationHash :: "navigation \<Rightarrow> string" where
  "locationHash st = (if nvAt st < length (nvEntries st) then nvEntries st ! nvAt st else [])"

definition handleHashChange :: "navigation \<Rightarrow> navigation" where
  "handleHashChange st = st\<lparr>nvLast := Some (locationHash st), nvApplied := nvApplied st @ [parseHash (locationHash st)]\<rparr>"

definition navigateTo :: "string \<Rightarrow> bool \<Rightarrow> navigation \<Rightarrow> navigation" where
  "navigateTo hash replace st =
     (if locationHash st = hash then st
      else handleHashChange
        (if replace then st\<lparr>nvEntries := (nvEntries st)[nvAt st := hash]\<rparr>
         else st\<lparr>nvEntries := take (Suc (nvAt st)) (nvEntries st) @ [hash], nvAt := Suc (nvAt st)\<rparr>))"

definition isSettingsRoute :: "appRoute \<Rightarrow> bool" where
  "isSettingsRoute r = (rtName r \<in> {''settings'', ''settings-section'', ''settings-extension'', ''settings-extension-details''})"

definition openSettings :: "string option \<Rightarrow> navigation \<Rightarrow> navigation" where
  "openSettings section st =
     navigateTo (settingsHash section) False
       (if isSettingsRoute (parseHash (locationHash st)) then st else st\<lparr>nvReturn := Some (locationHash st)\<rparr>)"

datatype settingsPage = SectionPage "string option" | ExtensionPage string | DetailsPage string

definition pageHash :: "settingsPage \<Rightarrow> string" where
  "pageHash p =
     (case p of SectionPage s \<Rightarrow> settingsHash s | ExtensionPage e \<Rightarrow> settingsExtensionHash e | DetailsPage e \<Rightarrow> settingsExtensionDetailsHash e)"

definition showSettingsPage :: "settingsPage \<Rightarrow> navigation \<Rightarrow> navigation" where
  "showSettingsPage p st = navigateTo (pageHash p) True st"

definition historyBack :: "navigation \<Rightarrow> navigation" where
  "historyBack st = (if nvAt st = 0 then st else handleHashChange (st\<lparr>nvAt := nvAt st - 1\<rparr>))"

definition closeSettings :: "navigation \<Rightarrow> navigation" where
  "closeSettings st =
     (if nvReturn st \<noteq> None \<and> isSettingsRoute (parseHash (locationHash st)) then historyBack (st\<lparr>nvReturn := None\<rparr>)
      else navigateTo ''#/'' True (st\<lparr>nvReturn := None\<rparr>))"

text \<open>The page an app starts on: of its address, or of the hash it was left on.\<close>

definition applyInitialRoute :: "navigation \<Rightarrow> navigation" where
  "applyInitialRoute st =
     (let route = parseHash (locationHash st)
      in if rtName route = ''empty'' \<and> truthyStr (nvLast st)
         then (let st1 = st\<lparr>nvEntries := (nvEntries st)[nvAt st := the (nvLast st)]\<rparr>
               in st1\<lparr>nvApplied := nvApplied st1 @ [parseHash (locationHash st1)]\<rparr>)
         else st\<lparr>nvApplied := nvApplied st @ [route]\<rparr>)"

end
