(* ===== verification/Web_Client.thy ===== *)
theory Web_Client
  imports Reins_Prelude
begin

text \<open>
  The browser's WebSocket: \<^verbatim>\<open>packages/frontend/src/models/ws-client.ts\<close>. Sockets are numbered in the order they are made, with what the
  platform has told of each; their events, those of the timers and the calls of the app are the steps, in any order. A socket's
  \<open>onopen\<close> comes only while it connects, its \<open>onmessage\<close> only while it is open. Telemetry is left out.
\<close>

subsection \<open>Messages\<close>

datatype inboundKind =
    KindEvent | KindTaskUpdated | KindSessionCreated | KindSessionUpdated | KindCodeReviewUpdated | KindOpenFile
  | KindNodeUpdated | KindNodeRemoved | KindExtension

text \<open>\<open>Unreadable\<close>: what is no JSON object, or of no known type.\<close>

datatype socketData = Pong | Inbound inboundKind json | Unreadable

record messageHandlers =
  mhId :: nat
  mhKinds :: "inboundKind list"

definition dispatchInboundMessage :: "messageHandlers \<Rightarrow> inboundKind \<Rightarrow> json \<Rightarrow> (nat \<times> inboundKind \<times> json) list" where
  "dispatchInboundMessage h kind payload = (if kind \<in> set (mhKinds h) then [(mhId h, kind, payload)] else [])"

subsection \<open>State\<close>

datatype socketStage = SocketConnecting | SocketOpen | SocketClosing | SocketClosed

record appSocket =
  skStage :: socketStage
  skOnclose :: bool

record appClient =
  acWs :: "nat option"
  acSockets :: "appSocket list"
  acReconnect :: bool
  acDelay :: rat
  acConnected :: bool
  acSubs :: "messageHandlers list"
  acListeners :: "nat list"
  acInterval :: bool
  acTimeout :: "nat option"
  acTimers :: "nat list"
  acNextTimer :: nat
  acPings :: "nat list"
  acDelivered :: "(nat \<times> inboundKind \<times> json) list"
  acTold :: "(nat \<times> bool) list"

definition newClient :: appClient where
  "newClient =
     \<lparr>acWs = None, acSockets = [], acReconnect = False, acDelay = 1000, acConnected = False, acSubs = [], acListeners = [], acInterval = False,
      acTimeout = None, acTimers = [], acNextTimer = 0, acPings = [], acDelivered = [], acTold = []\<rparr>"

definition stageOf :: "appClient \<Rightarrow> nat \<Rightarrow> socketStage" where
  "stageOf st i = (if i < length (acSockets st) then skStage (acSockets st ! i) else SocketClosed)"

definition setSocketStage :: "nat \<Rightarrow> socketStage \<Rightarrow> appClient \<Rightarrow> appClient" where
  "setSocketStage i s st =
     (if i < length (acSockets st) then st\<lparr>acSockets := (acSockets st)[i := (acSockets st ! i)\<lparr>skStage := s\<rparr>]\<rparr> else st)"

text \<open>\<open>close\<close> of a socket.\<close>

definition closeWebSocket :: "nat \<Rightarrow> appClient \<Rightarrow> appClient" where
  "closeWebSocket i st = (if stageOf st i \<in> {SocketConnecting, SocketOpen} then setSocketStage i SocketClosing st else st)"

subsection \<open>Heartbeat and connection\<close>

definition clearHeartbeatTimeout :: "appClient \<Rightarrow> appClient" where
  "clearHeartbeatTimeout st =
     (case acTimeout st of None \<Rightarrow> st | Some t \<Rightarrow> st\<lparr>acTimeout := None, acTimers := removeAll t (acTimers st)\<rparr>)"

definition stopHeartbeat :: "appClient \<Rightarrow> appClient" where
  "stopHeartbeat st = clearHeartbeatTimeout (st\<lparr>acInterval := False\<rparr>)"

definition startHeartbeat :: "appClient \<Rightarrow> appClient" where
  "startHeartbeat st = (stopHeartbeat st)\<lparr>acInterval := True\<rparr>"

definition setConnected :: "bool \<Rightarrow> appClient \<Rightarrow> appClient" where
  "setConnected v st =
     (if acConnected st = v then st else st\<lparr>acConnected := v, acTold := acTold st @ map (\<lambda>l. (l, v)) (acListeners st)\<rparr>)"

definition createSocket :: "appClient \<Rightarrow> appClient" where
  "createSocket st =
     st\<lparr>acSockets := acSockets st @ [\<lparr>skStage = SocketConnecting, skOnclose = True\<rparr>], acWs := Some (length (acSockets st))\<rparr>"

definition connectClient :: "appClient \<Rightarrow> appClient" where
  "connectClient st = (if acWs st \<noteq> None then st else createSocket st)"

definition disconnectClient :: "appClient \<Rightarrow> appClient" where
  "disconnectClient st =
     (let st1 = stopHeartbeat (st\<lparr>acReconnect := False\<rparr>)
      in setConnected False
           (case acWs st1 of
              None \<Rightarrow> st1
            | Some i \<Rightarrow>
                (closeWebSocket i (if i < length (acSockets st1) then st1\<lparr>acSockets := (acSockets st1)[i := (acSockets st1 ! i)\<lparr>skOnclose := False\<rparr>]\<rparr> else st1))
                  \<lparr>acWs := None\<rparr>))"

definition scheduleReconnect :: "appClient \<Rightarrow> appClient" where
  "scheduleReconnect st =
     (if acReconnect st then st else st\<lparr>acReconnect := True, acDelay := min (acDelay st * 3 / 2) 10000\<rparr>)"

definition socketOpens :: "nat \<Rightarrow> appClient \<Rightarrow> appClient" where
  "socketOpens i st =
     (if stageOf st i = SocketConnecting
      then startHeartbeat (setConnected True ((setSocketStage i SocketOpen st)\<lparr>acDelay := 1000\<rparr>))
      else st)"

definition socketCloses :: "nat \<Rightarrow> appClient \<Rightarrow> appClient" where
  "socketCloses i st =
     (if stageOf st i = SocketClosed then st
      else if skOnclose (acSockets st ! i)
      then scheduleReconnect (setConnected False (stopHeartbeat ((setSocketStage i SocketClosed st)\<lparr>acWs := None\<rparr>)))
      else setSocketStage i SocketClosed st)"

definition publishMessage :: "inboundKind \<Rightarrow> json \<Rightarrow> appClient \<Rightarrow> appClient" where
  "publishMessage kind payload st =
     st\<lparr>acDelivered := acDelivered st @ concat (map (\<lambda>h. dispatchInboundMessage h kind payload) (acSubs st))\<rparr>"

definition handleMessage :: "socketData \<Rightarrow> appClient \<Rightarrow> appClient" where
  "handleMessage m st =
     (case m of Pong \<Rightarrow> clearHeartbeatTimeout st | Inbound kind payload \<Rightarrow> publishMessage kind payload st | Unreadable \<Rightarrow> st)"

definition socketMessage :: "nat \<Rightarrow> socketData \<Rightarrow> appClient \<Rightarrow> appClient" where
  "socketMessage i m st = (if stageOf st i = SocketOpen then handleMessage m st else st)"

definition reconnectFires :: "appClient \<Rightarrow> appClient" where
  "reconnectFires st = (if acReconnect st then createSocket (st\<lparr>acReconnect := False\<rparr>) else st)"

definition heartbeatFires :: "appClient \<Rightarrow> appClient" where
  "heartbeatFires st =
     (if \<not> acInterval st then st
      else (case acWs st of
              None \<Rightarrow> st
            | Some i \<Rightarrow>
                if stageOf st i = SocketOpen
                then st\<lparr>acPings := acPings st @ [i], acTimeout := Some (acNextTimer st), acTimers := acTimers st @ [acNextTimer st],
                        acNextTimer := Suc (acNextTimer st)\<rparr>
                else st))"

definition timeoutFires :: "nat \<Rightarrow> appClient \<Rightarrow> appClient" where
  "timeoutFires t st =
     (if t \<in> set (acTimers st)
      then (case acWs st of
              None \<Rightarrow> st\<lparr>acTimers := removeAll t (acTimers st)\<rparr>
            | Some i \<Rightarrow> closeWebSocket i (st\<lparr>acTimers := removeAll t (acTimers st)\<rparr>))
      else st)"

subsection \<open>Steps\<close>

datatype clientEvent =
    Connects | ClientDisconnects | SocketOpens nat | SocketMessage nat socketData | SocketCloses nat
  | ReconnectFires | HeartbeatFires | TimeoutFires nat
  | SubscribesTo messageHandlers | UnsubscribesFrom nat | ListensTo nat | Unlistens nat

fun clientStep :: "clientEvent \<Rightarrow> appClient \<Rightarrow> appClient" where
  "clientStep Connects st = connectClient st"
| "clientStep ClientDisconnects st = disconnectClient st"
| "clientStep (SocketOpens i) st = socketOpens i st"
| "clientStep (SocketMessage i m) st = socketMessage i m st"
| "clientStep (SocketCloses i) st = socketCloses i st"
| "clientStep ReconnectFires st = reconnectFires st"
| "clientStep HeartbeatFires st = heartbeatFires st"
| "clientStep (TimeoutFires t) st = timeoutFires t st"
| "clientStep (SubscribesTo h) st = st\<lparr>acSubs := (if h \<in> set (acSubs st) then acSubs st else acSubs st @ [h])\<rparr>"
| "clientStep (UnsubscribesFrom h) st = st\<lparr>acSubs := filter (\<lambda>x. mhId x \<noteq> h) (acSubs st)\<rparr>"
| "clientStep (ListensTo l) st = st\<lparr>acListeners := (if l \<in> set (acListeners st) then acListeners st else acListeners st @ [l])\<rparr>"
| "clientStep (Unlistens l) st = st\<lparr>acListeners := filter (\<lambda>x. x \<noteq> l) (acListeners st)\<rparr>"

end
