(* ===== verification/Client_Laws.thy ===== *)
theory Client_Laws
  imports Web_Client
begin

text \<open>
  The browser has one feed of events: as long as the app does not ask to connect while a reconnection is due, one socket at most is open,
  connecting or about to be again, and none is forgotten.
\<close>

text \<open>The app connects when it starts, or after it disconnected.\<close>

fun connectsInTurn :: "appClient \<Rightarrow> clientEvent list \<Rightarrow> bool" where
  "connectsInTurn st [] = True"
| "connectsInTurn st (e # es) = ((if e = Connects then \<not> acReconnect st else True) \<and> connectsInTurn (clientStep e st) es)"

fun wanted :: "bool \<Rightarrow> clientEvent list \<Rightarrow> bool" where
  "wanted w [] = w"
| "wanted w (e # es) = wanted (if e = Connects then True else if e = ClientDisconnects then False else w) es"

definition clientRun :: "clientEvent list \<Rightarrow> appClient" where
  "clientRun es = fold clientStep es newClient"

text \<open>A socket whose events the client still follows is the client's.\<close>

definition socketsOk :: "appSocket list \<Rightarrow> nat option \<Rightarrow> bool" where
  "socketsOk ss ws =
     ((\<forall>i < length ss. (skStage (ss ! i) \<noteq> SocketClosed \<and> skOnclose (ss ! i)) = (ws = Some i)) \<and>
      (\<forall>i < length ss. skOnclose (ss ! i) \<or> skStage (ss ! i) \<in> {SocketClosing, SocketClosed}) \<and>
      (case ws of None \<Rightarrow> True | Some i \<Rightarrow> i < length ss))"

definition oneFeed :: "bool \<Rightarrow> appSocket list \<Rightarrow> nat option \<Rightarrow> bool \<Rightarrow> bool \<Rightarrow> bool" where
  "oneFeed w ss ws up due =
     (case ws of
        None \<Rightarrow> \<not> up \<and> due = w
      | Some i \<Rightarrow> \<not> due \<and> w \<and>
          (case skStage (ss ! i) of SocketConnecting \<Rightarrow> \<not> up | SocketOpen \<Rightarrow> up | _ \<Rightarrow> True))"

definition clientOk :: "bool \<Rightarrow> appClient \<Rightarrow> bool" where
  "clientOk w st =
     (socketsOk (acSockets st) (acWs st) \<and> oneFeed w (acSockets st) (acWs st) (acConnected st) (acReconnect st) \<and>
      1000 \<le> acDelay st \<and> acDelay st \<le> 10000)"

lemma ok_new: "clientOk False newClient"
  by (simp add: clientOk_def newClient_def socketsOk_def oneFeed_def)

lemma frame_ok:
  assumes "clientOk w st" "acWs st' = acWs st" "acSockets st' = acSockets st" "acReconnect st' = acReconnect st"
    "acConnected st' = acConnected st" "acDelay st' = acDelay st"
  shows "clientOk w st'"
  using assms(1) unfolding clientOk_def assms(2-6) .

lemma heartbeat_frame [simp]:
  "acWs (clearHeartbeatTimeout st) = acWs st" "acSockets (clearHeartbeatTimeout st) = acSockets st"
  "acReconnect (clearHeartbeatTimeout st) = acReconnect st" "acConnected (clearHeartbeatTimeout st) = acConnected st"
  "acDelay (clearHeartbeatTimeout st) = acDelay st"
  "acWs (stopHeartbeat st) = acWs st" "acSockets (stopHeartbeat st) = acSockets st" "acReconnect (stopHeartbeat st) = acReconnect st"
  "acConnected (stopHeartbeat st) = acConnected st" "acDelay (stopHeartbeat st) = acDelay st"
  "acWs (startHeartbeat st) = acWs st" "acSockets (startHeartbeat st) = acSockets st" "acReconnect (startHeartbeat st) = acReconnect st"
  "acConnected (startHeartbeat st) = acConnected st" "acDelay (startHeartbeat st) = acDelay st"
  by (simp_all add: stopHeartbeat_def startHeartbeat_def clearHeartbeatTimeout_def split: option.split)

lemma connected_frame [simp]:
  "acWs (setConnected v st) = acWs st" "acSockets (setConnected v st) = acSockets st" "acReconnect (setConnected v st) = acReconnect st"
  "acConnected (setConnected v st) = v" "acDelay (setConnected v st) = acDelay st"
  by (simp_all add: setConnected_def)

lemma sockets_new: "socketsOk ss None \<Longrightarrow> socketsOk (ss @ [\<lparr>skStage = SocketConnecting, skOnclose = True\<rparr>]) (Some (length ss))"
  by (auto simp: socketsOk_def nth_append)

lemma sockets_stage:
  assumes "socketsOk ss ws" "i < length ss" "skStage (ss ! i) \<noteq> SocketClosed" "s = SocketClosing \<or> (s = SocketOpen \<and> skOnclose (ss ! i))"
  shows "socketsOk (ss[i := (ss ! i)\<lparr>skStage := s\<rparr>]) ws"
  using assms by (auto simp: socketsOk_def nth_list_update split: option.splits)

lemma sockets_gone:
  assumes "socketsOk ss ws" "i < length ss" "skStage (ss ! i) \<noteq> SocketClosed"
  shows "socketsOk (ss[i := (ss ! i)\<lparr>skStage := SocketClosed\<rparr>]) (if skOnclose (ss ! i) then None else ws)"
  using assms by (auto simp: socketsOk_def nth_list_update split: option.splits)

lemma sockets_left:
  assumes "socketsOk ss (Some i)" "s \<in> {SocketClosing, SocketClosed}"
  shows "socketsOk (ss[i := (ss ! i)\<lparr>skOnclose := False, skStage := s\<rparr>]) None"
  using assms by (auto simp: socketsOk_def nth_list_update)

lemma sockets_ws:
  assumes "socketsOk ss (Some i)"
  shows "i < length ss" "skStage (ss ! i) \<noteq> SocketClosed" "skOnclose (ss ! i)"
  using assms by (auto simp: socketsOk_def)

lemma sockets_mine:
  assumes "socketsOk ss ws" "i < length ss" "skStage (ss ! i) \<noteq> SocketClosed" "skOnclose (ss ! i)"
  shows "ws = Some i"
  using assms unfolding socketsOk_def by blast

lemma sockets_live:
  assumes "socketsOk ss ws" "i < length ss" "skStage (ss ! i) \<in> {SocketConnecting, SocketOpen}"
  shows "ws = Some i"
proof (rule sockets_mine [OF assms(1,2)])
  have "skOnclose (ss ! i) \<or> skStage (ss ! i) \<in> {SocketClosing, SocketClosed}" using assms(1,2) unfolding socketsOk_def by blast
  then show "skOnclose (ss ! i)" "skStage (ss ! i) \<noteq> SocketClosed" using assms(3) by auto
qed

lemma same_stage: "skStage r = s \<Longrightarrow> r\<lparr>skOnclose := False, skStage := s\<rparr> = r\<lparr>skOnclose := False\<rparr>"
  by (cases r) simp

subsection \<open>Every step\<close>

lemma ok_create: "clientOk w st \<Longrightarrow> acWs st = None \<Longrightarrow> clientOk True (createSocket (st\<lparr>acReconnect := False\<rparr>))"
  using sockets_new [of "acSockets st"] by (simp add: clientOk_def createSocket_def oneFeed_def nth_append)

lemma ok_opens: "clientOk w st \<Longrightarrow> clientOk w (socketOpens i st)"
proof (cases "stageOf st i = SocketConnecting")
  case True
  assume ok: "clientOk w st"
  have i: "i < length (acSockets st)" "skStage (acSockets st ! i) = SocketConnecting" using True by (simp_all add: stageOf_def split: if_splits)
  have ws: "acWs st = Some i" using ok i sockets_live [of "acSockets st" "acWs st" i] by (simp add: clientOk_def)
  then show ?thesis
    using ok i sockets_stage [of "acSockets st" "acWs st" i SocketOpen] sockets_ws(3) [of "acSockets st" i]
    by (simp add: socketOpens_def True clientOk_def setSocketStage_def oneFeed_def)
qed (simp add: socketOpens_def)

lemma ok_closes: "clientOk w st \<Longrightarrow> clientOk w (socketCloses i st)"
proof (cases "stageOf st i = SocketClosed")
  case False
  assume ok: "clientOk w st"
  have i: "i < length (acSockets st)" "skStage (acSockets st ! i) \<noteq> SocketClosed" using False by (simp_all add: stageOf_def split: if_splits)
  have g: "socketsOk ((acSockets st)[i := (acSockets st ! i)\<lparr>skStage := SocketClosed\<rparr>]) (if skOnclose (acSockets st ! i) then None else acWs st)"
    using ok sockets_gone [OF _ i] by (simp add: clientOk_def)
  show ?thesis
  proof (cases "skOnclose (acSockets st ! i)")
    case True
    then have "acWs st = Some i" using ok i sockets_mine by (auto simp: clientOk_def)
    then show ?thesis using ok i g True False
      by (auto simp: socketCloses_def clientOk_def setSocketStage_def oneFeed_def scheduleReconnect_def)
  next
    case quiet: False
    have ne: "acWs st \<noteq> Some i" using ok quiet sockets_ws(3) [of "acSockets st" i] by (auto simp: clientOk_def)
    then have "oneFeed w ((acSockets st)[i := (acSockets st ! i)\<lparr>skStage := SocketClosed\<rparr>]) (acWs st) (acConnected st) (acReconnect st)"
      using ok by (auto simp: clientOk_def oneFeed_def split: option.split)
    then show ?thesis using ok i g quiet False by (simp add: socketCloses_def clientOk_def setSocketStage_def)
  qed
qed (simp add: socketCloses_def)

lemma ok_close_socket: "clientOk w st \<Longrightarrow> clientOk w (closeWebSocket i st)"
proof (cases "stageOf st i \<in> {SocketConnecting, SocketOpen}")
  case True
  assume ok: "clientOk w st"
  have i: "i < length (acSockets st)" "skStage (acSockets st ! i) \<in> {SocketConnecting, SocketOpen}" using True by (auto simp: stageOf_def split: if_splits)
  have ws: "acWs st = Some i" using ok i sockets_live [of "acSockets st" "acWs st" i] by (simp add: clientOk_def)
  have "skStage (acSockets st ! i) \<noteq> SocketClosed" using i(2) by auto
  then show ?thesis
    using ok i ws sockets_stage [of "acSockets st" "acWs st" i SocketClosing] True
    by (simp add: closeWebSocket_def clientOk_def setSocketStage_def oneFeed_def)
qed (simp add: closeWebSocket_def)

lemma ok_leaves: "clientOk w st \<Longrightarrow> clientOk False (disconnectClient st)"
proof (cases "acWs st")
  case None
  assume "clientOk w st"
  then show ?thesis using None by (simp add: disconnectClient_def Let_def clientOk_def oneFeed_def)
next
  case (Some i)
  assume ok: "clientOk w st"
  have s: "socketsOk (acSockets st) (Some i)" using ok Some by (simp add: clientOk_def)
  note f = sockets_ws [OF s]
  have "skStage (acSockets st ! i) \<in> {SocketConnecting, SocketOpen} \<or> skStage (acSockets st ! i) = SocketClosing"
    using f(2) by (cases "skStage (acSockets st ! i)") auto
  then show ?thesis
    using ok Some f sockets_left [OF s, of SocketClosing]
    by (auto simp: disconnectClient_def Let_def closeWebSocket_def stageOf_def setSocketStage_def clientOk_def oneFeed_def same_stage)
qed

lemma ok_heartbeat: "clientOk w st \<Longrightarrow> clientOk w (heartbeatFires st)" "clientOk w st \<Longrightarrow> clientOk w (timeoutFires t st)"
proof -
  assume ok: "clientOk w st"
  show "clientOk w (heartbeatFires st)"
    by (rule frame_ok [OF ok]) (simp_all add: heartbeatFires_def split: option.split)
  have "clientOk w (st\<lparr>acTimers := removeAll t (acTimers st)\<rparr>)" by (rule frame_ok [OF ok]) simp_all
  then show "clientOk w (timeoutFires t st)" using ok ok_close_socket by (simp add: timeoutFires_def split: option.split)
qed

lemma ok_message: "clientOk w st \<Longrightarrow> clientOk w (socketMessage i m st)"
  by (erule frame_ok) (simp_all add: socketMessage_def handleMessage_def publishMessage_def split: socketData.split)

lemma client_step:
  assumes "clientOk w st" "if e = Connects then \<not> acReconnect st else True"
  shows "clientOk (if e = Connects then True else if e = ClientDisconnects then False else w) (clientStep e st)"
proof (cases e)
  case Connects
  show ?thesis
  proof (cases "acWs st")
    case None
    have "st\<lparr>acReconnect := False\<rparr> = st" using assms(2) Connects by (cases st) simp
    then show ?thesis using ok_create [OF assms(1) None] None Connects by (simp add: connectClient_def)
  next
    case (Some i)
    then show ?thesis using assms(1) Connects by (simp add: connectClient_def clientOk_def oneFeed_def)
  qed
next
  case ReconnectFires
  have "acWs st = None \<and> w" if "acReconnect st" using assms(1) that by (auto simp: clientOk_def oneFeed_def split: option.splits)
  then show ?thesis using assms(1) ok_create [OF assms(1)] ReconnectFires by (auto simp: reconnectFires_def)
qed (use assms(1) in \<open>simp_all add: ok_leaves ok_opens ok_closes ok_heartbeat ok_message frame_ok\<close>)

lemma client_run: "clientOk w st \<Longrightarrow> connectsInTurn st es \<Longrightarrow> clientOk (wanted w es) (fold clientStep es st)"
proof (induction es arbitrary: w st)
  case (Cons e es)
  then show ?case using client_step [OF Cons.prems(1), of e] by simp
qed simp

text \<open>C35: C35: 
  C0: while the app connects only when no reconnection is due, whatever sockets do and whenever timers fire, messages come from one socket
  at most, the client's own, so no event is told twice; and while the app wants to be connected a socket is opening, open or closing, or a
  reconnection is due, at most ten seconds ahead, and otherwise nothing is.
\<close>

theorem one_event_feed:
  assumes "connectsInTurn newClient es"
  shows "let st = clientRun es in
    {i. stageOf st i = SocketOpen} \<subseteq> set_option (acWs st) \<and>
    (acWs st \<noteq> None \<or> acReconnect st) = wanted False es \<and> (case acWs st of None \<Rightarrow> True | Some _ \<Rightarrow> \<not> acReconnect st) \<and>
    (case acWs st of None \<Rightarrow> \<not> acConnected st | Some i \<Rightarrow> if stageOf st i = SocketOpen then acConnected st else True) \<and>
    1000 \<le> acDelay st \<and> acDelay st \<le> 10000"
proof -
  define st where "st = clientRun es"
  have ok: "clientOk (wanted False es) st" using client_run [OF ok_new assms] by (simp add: st_def clientRun_def)
  have "acWs st = Some i" if "stageOf st i = SocketOpen" for i
    using ok that sockets_live [of "acSockets st" "acWs st" i] by (auto simp: stageOf_def clientOk_def split: if_splits)
  then have "{i. stageOf st i = SocketOpen} \<subseteq> set_option (acWs st)" by auto
  moreover have "case acWs st of None \<Rightarrow> True | Some i \<Rightarrow> i < length (acSockets st)" using ok by (simp add: clientOk_def socketsOk_def)
  then have "(acWs st \<noteq> None \<or> acReconnect st) = wanted False es \<and> (case acWs st of None \<Rightarrow> True | Some _ \<Rightarrow> \<not> acReconnect st) \<and>
      (case acWs st of None \<Rightarrow> \<not> acConnected st | Some i \<Rightarrow> if stageOf st i = SocketOpen then acConnected st else True)"
    using ok by (auto simp: clientOk_def oneFeed_def stageOf_def split: option.splits)
  ultimately show ?thesis using ok by (simp add: Let_def st_def [symmetric] clientOk_def)
qed

theorem one_event_feed_witness:
  "acWs (clientRun [Connects, SocketOpens 0, HeartbeatFires, TimeoutFires 0, SocketCloses 0, ReconnectFires, SocketOpens 1]) \<noteq> None"
proof -
  have c: "connectsInTurn newClient [Connects, SocketOpens 0, HeartbeatFires, TimeoutFires 0, SocketCloses 0, ReconnectFires, SocketOpens 1]"
    "\<not> acReconnect (clientRun [Connects, SocketOpens 0, HeartbeatFires, TimeoutFires 0, SocketCloses 0, ReconnectFires, SocketOpens 1])"
    by code_simp+
  show ?thesis using one_event_feed [OF c(1)] c(2) by (simp add: Let_def del: clientStep.simps)
qed

text \<open>A connect while a reconnection is due makes two sockets, and every event is then told twice.\<close>

lemma connect_while_due:
  "acDelivered (clientRun [SubscribesTo \<lparr>mhId = 7, mhKinds = [KindEvent]\<rparr>, Connects, SocketOpens 0, SocketCloses 0, Connects, ReconnectFires,
     SocketOpens 1, SocketOpens 2, SocketMessage 1 (Inbound KindEvent JNull), SocketMessage 2 (Inbound KindEvent JNull)]) =
   [(7, KindEvent, JNull), (7, KindEvent, JNull)]"
  by code_simp

end
