(* ===== verification/Route_Laws.thy ===== *)
theory Route_Laws
  imports App_Routes Ndjson_Laws
begin

text \<open>
  The hash of a page leads back to it, whatever its session is called, and closing settings leads back to where they were opened.
\<close>

subsection \<open>Escapes\<close>

lemma hex_round: "n < 16 \<Longrightarrow> hexValue (hexDigit n) = Some n"
  by (auto simp: hexValue_def hexDigit_def of_char_of)

lemma char_code: "b < 256 \<Longrightarrow> char_of (b::nat) = c \<longleftrightarrow> b = of_char c"
  by (auto simp: of_char_of)

lemma hex_chars: "n < 16 \<Longrightarrow> hexDigit n \<notin> {CHR ''/'', CHR ''?'', CHR ''#'', CHR ''%'', CHR '':'', CHR ''&'', CHR ''='', CHR ''+''}"
  by (simp add: hexDigit_def char_code)

lemma kept_codes:
  assumes "isAlnumCode b \<or> b \<in> {45, 95, 46, 33, 126, 42, 39, 40, 41}"
  shows "b < 128" "char_of b \<notin> {CHR ''/'', CHR ''?'', CHR ''#'', CHR ''%'', CHR '':'', CHR ''&'', CHR ''='', CHR ''+''}"
  using assms by (auto simp: isAlnumCode_def char_code)

lemma escaped_byte:
  assumes "b < 256"
  shows "escapedParts (uriByte b @ rest) =
    map_option ((#) (if isAlnumCode b \<or> b \<in> {45, 95, 46, 33, 126, 42, 39, 40, 41} then Inl b else Inr b)) (escapedParts rest)"
proof (cases "isAlnumCode b \<or> b \<in> {45, 95, 46, 33, 126, 42, 39, 40, 41}")
  case True
  then show ?thesis using kept_codes [OF True] by (simp add: uriByte_def of_char_of)
next
  case False
  have "b div 16 < 16" using assms by (simp add: less_mult_imp_div_less)
  then show ?thesis using False by (simp add: uriByte_def percentByte_def hex_round)
qed

definition uriPart :: "nat \<Rightarrow> nat + nat" where
  "uriPart b = (if isAlnumCode b \<or> b \<in> {45, 95, 46, 33, 126, 42, 39, 40, 41} then Inl b else Inr b)"

lemma escaped_bytes: "list_all (\<lambda>b. b < 256) bs \<Longrightarrow> escapedParts (concat (map uriByte bs)) = Some (map uriPart bs)"
  by (induction bs) (simp_all add: escaped_byte uriPart_def)

lemma high_part: "128 \<le> b \<Longrightarrow> uriPart b = Inr b"
  by (auto simp: uriPart_def isAlnumCode_def)

lemma parts_low: "b < 128 \<Longrightarrow> partsText (uriPart b # r) = map_option ((#) b) (partsText r)"
  by (simp add: uriPart_def)

lemma those_Some: "those (map Some xs) = Some xs"
  by (induction xs) auto

text \<open>The bytes of a code point beyond ASCII are all escaped, and the first says how many follow.\<close>

lemma lead_bytes:
  assumes "scalar n" "128 \<le> n"
  shows "\<exists>b bs. encodeCp n = b # bs \<and> 128 \<le> b \<and> moreBytes b = Some (length bs) \<and> list_all (\<lambda>c. 128 \<le> c) bs"
  using assms by (auto simp: encodeCp_def moreBytes_def scalar_def div_le_mono Let_def)

lemma parts_round: "scalar n \<Longrightarrow> partsText (map uriPart (encodeCp n) @ r) = map_option ((#) n) (partsText r)"
proof (cases "n < 128")
  case True
  then show ?thesis by (simp add: encodeCp_def parts_low)
next
  case False
  assume "scalar n"
  then obtain b bs where b: "encodeCp n = b # bs" "128 \<le> b" "moreBytes b = Some (length bs)" "list_all (\<lambda>c. 128 \<le> c) bs"
    using lead_bytes False by (meson not_less)
  have "map uriPart bs = map Inr bs" using b(4) by (simp add: list_all_iff high_part)
  then have e: "map uriPart (encodeCp n) @ r = Inr b # map Inr bs @ r" using high_part [OF b(2)] by (simp only: b(1) list.map append.simps)
  have d: "decodeCps (b # bs) = Some [n]" using decodeCps_round [of "[n]"] \<open>scalar n\<close> by (simp add: b(1) del: decodeCps.simps)
  have t: "those (map (case_sum (\<lambda>_. None) Some) (map (Inr :: nat \<Rightarrow> nat + nat) bs)) = Some bs" by (simp add: those_Some comp_def)
  show ?thesis unfolding e using b(2,3) d t by (simp del: decodeCps.simps map_map)
qed

theorem uri_round: "list_all scalar t \<Longrightarrow> decodeURIComponent (encodeURIComponent t) = Some t"
proof -
  assume t: "list_all scalar t"
  have "partsText (map uriPart (concat (map encodeCp t))) = Some t"
    using t by (induction t) (simp_all add: parts_round)
  moreover have "list_all (\<lambda>b. b < 256) (concat (map encodeCp t))"
    using t encodeCp_byte by (auto simp: list_all_iff)
  ultimately show ?thesis by (simp add: decodeURIComponent_def encodeURIComponent_def escaped_bytes)
qed

definition plainChars :: "string \<Rightarrow> bool" where
  "plainChars s = list_all (\<lambda>c. c \<notin> {CHR ''/'', CHR ''?'', CHR ''#'', CHR ''&'', CHR ''='', CHR ''+''}) s"

lemma uri_byte_plain: "b < 256 \<Longrightarrow> plainChars (uriByte b)"
proof -
  assume b: "b < 256"
  then have "b div 16 < 16" by (simp add: less_mult_imp_div_less)
  then have h: "plainChars (percentByte b)" using hex_chars [of "b div 16"] hex_chars [of "b mod 16"]
    by (simp add: percentByte_def plainChars_def)
  show ?thesis
  proof (cases "isAlnumCode b \<or> b \<in> {45, 95, 46, 33, 126, 42, 39, 40, 41}")
    case True
    then show ?thesis using kept_codes(2) [OF True] by (simp only: uriByte_def if_True) (simp add: plainChars_def)
  next
    case False
    then show ?thesis using h by (simp only: uriByte_def if_False)
  qed
qed

lemma uri_plain: "list_all scalar t \<Longrightarrow> plainChars (encodeURIComponent t)"
proof (induction t)
  case (Cons n t)
  have "plainChars (concat (map uriByte bs))" if "\<forall>b\<in>set bs. b < 256" for bs
    using that uri_byte_plain by (induction bs) (simp_all add: plainChars_def)
  then have "plainChars (concat (map uriByte (encodeCp n)))" using encodeCp_byte(1) [of n] Cons.prems by simp
  then show ?case using Cons by (simp add: encodeURIComponent_def plainChars_def)
qed (simp add: encodeURIComponent_def plainChars_def)

lemma uri_empty: "encodeURIComponent t = [] \<longleftrightarrow> t = []"
proof (cases t)
  case (Cons n r)
  obtain b bs where "encodeCp n = b # bs" by (cases "encodeCp n") (auto simp: encodeCp_def split: if_splits)
  moreover have "uriByte b \<noteq> []" by (simp add: uriByte_def percentByte_def)
  ultimately show ?thesis using Cons by (simp add: encodeURIComponent_def)
qed (simp add: encodeURIComponent_def)

subsection \<open>Paths and queries\<close>

lemma segments_joined:
  assumes "parts \<noteq> []" "\<And>p. p \<in> set parts \<Longrightarrow> p \<noteq> [] \<and> CHR ''/'' \<notin> set p"
  shows "segmentsOf (CHR ''/'' # joinWith ''/'' parts) = parts"
proof -
  have "splitOn (CHR ''/'') (joinWith [CHR ''/''] parts) = parts" using splitOn_join [of parts] assms by blast
  then show ?thesis using assms(2) by (simp add: segmentsOf_def filter_id_conv)
qed

lemma join_free: "(\<And>p. p \<in> set parts \<Longrightarrow> c \<notin> set p) \<Longrightarrow> c \<noteq> CHR ''/'' \<Longrightarrow> c \<notin> set (joinWith ''/'' parts)"
  by (induction "''/''" parts rule: joinWith.induct) auto

lemma resolve_path:
  assumes "parts \<noteq> []" "list_all (\<lambda>p. p \<noteq> [] \<and> plainChars p) parts"
  shows "resolveHash routes (''#/'' @ joinWith ''/'' parts) = firstMatch routes parts []"
proof -
  have p: "p \<in> set parts \<Longrightarrow> p \<noteq> [] \<and> CHR ''/'' \<notin> set p \<and> CHR ''?'' \<notin> set p" for p
    using assms(2) by (auto simp: list_all_iff plainChars_def)
  have "splitOn (CHR ''?'') (CHR ''/'' # joinWith ''/'' parts) = [CHR ''/'' # joinWith ''/'' parts]"
    using join_free [of parts "CHR ''?''"] p by (intro splitOn_no_sep) auto
  then show ?thesis
    using segments_joined [of parts] assms(1) p by (simp add: resolveHash_def splitHash_def queryPairs_def)
qed

lemma resolve_query:
  assumes "parts \<noteq> []" "list_all (\<lambda>p. p \<noteq> [] \<and> plainChars p) parts" "CHR ''?'' \<notin> set q"
  shows "resolveHash routes (''#/'' @ joinWith ''/'' parts @ ''?'' @ q) = firstMatch routes parts (fold (\<lambda>(k, v). jmSet k v) (queryPairs q) [])"
proof -
  have p: "p \<in> set parts \<Longrightarrow> p \<noteq> [] \<and> CHR ''/'' \<notin> set p \<and> CHR ''?'' \<notin> set p" for p
    using assms(2) by (auto simp: list_all_iff plainChars_def)
  have "splitOn (CHR ''?'') ((CHR ''/'' # joinWith ''/'' parts) @ CHR ''?'' # q) = (CHR ''/'' # joinWith ''/'' parts) # splitOn (CHR ''?'') q"
    using join_free [of parts "CHR ''?''"] p by (intro splitOn_append) auto
  then show ?thesis
    using segments_joined [of parts] assms(1,3) p by (simp add: resolveHash_def splitHash_def splitOn_no_sep)
qed

text \<open>A text of letters and digits stands for itself, in a path and in a query.\<close>

definition wordText :: "string \<Rightarrow> bool" where
  "wordText s = list_all (\<lambda>c. isAlnumCode (of_char c)) s"

lemma word_low: "isAlnumCode n \<Longrightarrow> n < 128"
  by (auto simp: isAlnumCode_def)

lemma word_bytes: "wordText s \<Longrightarrow> concat (map encodeCp (cps s)) = cps s"
  using word_low by (induction s) (auto simp: wordText_def cps_def encodeCp_def)

lemma word_form: "wordText s \<Longrightarrow> formEncode (cps s) = s"
proof -
  assume s: "wordText s"
  then have "concat (map formByte (cps s)) = s" by (induction s) (auto simp: wordText_def cps_def formByte_def)
  then show ?thesis using s by (simp add: formEncode_def word_bytes)
qed

lemma no_words: "list_all (\<lambda>c. \<not> isAlnumCode (of_char c)) ''/?#%:&=+''"
  by code_simp

lemma word_chars: "isAlnumCode (of_char c) \<Longrightarrow> c \<notin> {CHR ''/'', CHR ''?'', CHR ''#'', CHR ''%'', CHR '':'', CHR ''&'', CHR ''='', CHR ''+''}"
  using no_words by auto

lemma word_free: "wordText s \<Longrightarrow> d \<in> {CHR ''/'', CHR ''?'', CHR ''#'', CHR ''%'', CHR '':'', CHR ''&'', CHR ''='', CHR ''+''} \<Longrightarrow> d \<notin> set s"
  using word_chars unfolding wordText_def list_all_iff by metis

lemma word_form_bytes: "wordText s \<Longrightarrow> formBytes s = cps s"
proof (induction s)
  case (Cons c s)
  then have "c \<noteq> CHR ''%''" "c \<noteq> CHR ''+''" using word_chars [of c] by (simp_all add: wordText_def)
  then show ?case using Cons by (simp add: wordText_def cps_def)
qed (simp add: cps_def)

lemma feed_low: "u8Need st = 0 \<Longrightarrow> u8BomSeen st \<Longrightarrow> list_all (\<lambda>b. b < 128) bs \<Longrightarrow> u8Feed st bs = (st, bs)"
  by (induction bs) (simp_all add: u8Byte_def u8Lead_def u8Emit_def)

lemma word_lossy: "wordText s \<Longrightarrow> lossyText (cps s) = cps s"
proof -
  assume "wordText s"
  then have "list_all (\<lambda>b. b < 128) (cps s)" using word_low by (auto simp: wordText_def cps_def list_all_iff)
  then show ?thesis by (simp add: lossyText_def feed_low u8Start_def u8Flush_def)
qed

lemma word_pair: "wordText k \<Longrightarrow> wordText v \<Longrightarrow> queryPair (k @ CHR ''='' # v) = (cps k, cps v)"
proof -
  assume k: "wordText k" and v: "wordText v"
  have "CHR ''='' \<notin> set k" using word_free [OF k, of "CHR ''=''"] by simp
  then have "\<forall>c\<in>set k. c \<noteq> CHR ''=''" by metis
  then have "takeWhile (\<lambda>c. c \<noteq> CHR ''='') (k @ CHR ''='' # v) = k" "dropWhile (\<lambda>c. c \<noteq> CHR ''='') (k @ CHR ''='' # v) = CHR ''='' # v"
    by (simp_all add: takeWhile_append dropWhile_append)
  then show ?thesis using k v by (simp add: queryPair_def word_form_bytes word_lossy)
qed

subsection \<open>The app's pages\<close>

text \<open>\<open>appRoutes\<close> are the routes as they are registered.\<close>

lemma routes_registered:
  "foldl (\<lambda>routes (name, pattern, valid). case routes of Inl e \<Rightarrow> Inl e | Inr rs \<Rightarrow> registerRoute name pattern valid rs) (Inr [])
     [(''empty'', ''/'', \<lambda>_. True), (''session'', ''/session/:sessionId'', \<lambda>_. True), (''new-session'', ''/new'', validNewSession),
      (''project-history'', ''/projects/:projectId/history'', \<lambda>ps. isIdText (orElse (routeParam ''projectId'' ps) [])),
      (''settings'', ''/settings'', \<lambda>_. True),
      (''settings-section'', ''/settings/:section'', \<lambda>ps. isSettingsSection (orElse (routeParam ''section'' ps) [])),
      (''settings-extension'', ''/settings/extensions/:extension'', \<lambda>ps. isExtensionName (orElse (routeParam ''extension'' ps) [])),
      (''settings-extension-details'', ''/settings/extensions/:extension/details'', \<lambda>ps. isExtensionName (orElse (routeParam ''extension'' ps) []))] =
   Inr appRoutes"
  by (simp add: registerRoute_def segmentsOf_def appRoutes_def)

lemma number_word: "wordText (showNat n)" "showNat n \<noteq> []" "digitsToNat (showNat n) = n" "isIdText (cps (showNat n))"
proof -
  have d: "list_all isDigitC (showNat n)" "showNat n \<noteq> []" using showNat_digits [of n] by simp_all
  show "wordText (showNat n)" using d(1) by (auto simp: wordText_def list_all_iff isDigitC_def isAlnumCode_def)
  show "isIdText (cps (showNat n))" using d by (auto simp: isIdText_def cps_def list_all_iff isDigitC_def)
  show "showNat n \<noteq> []" "digitsToNat (showNat n) = n" using showNat_digits [of n] by simp_all
qed

lemma cps_back [simp]: "map char_of (cps s) = s"
  by (simp add: cps_def comp_def)

lemma cps_inject [simp]: "cps s = cps t \<longleftrightarrow> s = t"
  by (metis cps_back)

lemma word_scalar: "wordText s \<Longrightarrow> list_all scalar (cps s)"
  using word_low by (fastforce simp: wordText_def cps_def list_all_iff scalar_def)

lemmas app_simps = appHash_def routeHash_def appRoutes_def

lemma session_page:
  assumes "t \<noteq> []" "list_all scalar t"
  shows "parseHash (sessionHash t) = \<lparr>rtName = ''session'', rtParams = [(cps ''sessionId'', t)]\<rparr>"
proof -
  have "sessionHash t = ''#/'' @ joinWith ''/'' [''session'', encodeURIComponent t]" by (simp add: sessionHash_def app_simps)
  moreover have "list_all (\<lambda>p. p \<noteq> [] \<and> plainChars p) [''session'', encodeURIComponent t]"
    using uri_plain [OF assms(2)] assms(1) by (simp add: uri_empty) (simp add: plainChars_def)
  ultimately have "parseHash (sessionHash t) = firstMatch appRoutes [''session'', encodeURIComponent t] []"
    using resolve_path [of "[''session'', encodeURIComponent t]" appRoutes] by (simp only: parseHash_def) simp
  then show ?thesis by (simp add: appRoutes_def uri_round [OF assms(2)])
qed

lemma history_page: "parseHash (projectHistoryHash (int n)) = \<lparr>rtName = ''project-history'', rtParams = [(cps ''projectId'', cps (showNat n))]\<rparr>"
proof -
  let ?e = "encodeURIComponent (cps (showNat n))"
  have s: "list_all scalar (cps (showNat n))" by (rule word_scalar [OF number_word(1)])
  have "projectHistoryHash (int n) = ''#/'' @ joinWith ''/'' [''projects'', ?e, ''history'']"
    by (simp add: projectHistoryHash_def app_simps numberText_def showInt_def)
  moreover have "list_all (\<lambda>p. p \<noteq> [] \<and> plainChars p) [''projects'', ?e, ''history'']"
    using uri_plain [OF s] number_word(2) [of n] by (simp add: uri_empty) (simp add: plainChars_def cps_def)
  ultimately have "parseHash (projectHistoryHash (int n)) = firstMatch appRoutes [''projects'', ?e, ''history''] []"
    using resolve_path [of "[''projects'', ?e, ''history'']" appRoutes] by (simp only: parseHash_def) simp
  then show ?thesis by (simp add: appRoutes_def uri_round [OF s] routeParam_def orElse_def number_word(4))
qed

lemma word_form_names: "formEncode (cps ''project'') = ''project''" "formEncode (cps ''task'') = ''task''"
  by (simp_all add: word_form wordText_def isAlnumCode_def)

lemma new_query:
  assumes "wordText k" "wordText v" "k \<noteq> []"
  shows "queryPairs (k @ CHR ''='' # v) = [(cps k, cps v)]"
    "wordText k' \<Longrightarrow> wordText v' \<Longrightarrow> k' \<noteq> [] \<Longrightarrow> queryPairs (k @ CHR ''='' # v @ CHR ''&'' # k' @ CHR ''='' # v') = [(cps k, cps v), (cps k', cps v')]"
proof -
  have f: "CHR ''&'' \<notin> set (a @ CHR ''='' # b)" if "wordText a" "wordText b" for a b
    using word_free [OF that(1), of "CHR ''&''"] word_free [OF that(2), of "CHR ''&''"] by simp
  show "queryPairs (k @ CHR ''='' # v) = [(cps k, cps v)]"
    using splitOn_no_sep [OF f [OF assms(1,2)]] word_pair [OF assms(1,2)] by (simp add: queryPairs_def)
  assume w: "wordText k'" "wordText v'" "k' \<noteq> []"
  show "queryPairs (k @ CHR ''='' # v @ CHR ''&'' # k' @ CHR ''='' # v') = [(cps k, cps v), (cps k', cps v')]"
    using splitOn_append [OF f [OF assms(1,2)], of "k' @ CHR ''='' # v'"] splitOn_no_sep [OF f [OF w(1,2)]]
      word_pair [OF assms(1,2)] word_pair [OF w(1,2)] by (simp add: queryPairs_def)
qed

lemma new_page:
  "parseHash (newSessionHash None None) = \<lparr>rtName = ''new-session'', rtParams = []\<rparr>"
  "parseHash (newSessionHash (Some (int n)) None) = \<lparr>rtName = ''new-session'', rtParams = [(cps ''project'', cps (showNat n))]\<rparr>"
  "parseHash (newSessionHash (Some (int n)) (Some (int m))) =
     \<lparr>rtName = ''new-session'', rtParams = [(cps ''project'', cps (showNat n)), (cps ''task'', cps (showNat m))]\<rparr>"
proof -
  have w: "wordText ''project''" "wordText ''task''" by (simp_all add: wordText_def isAlnumCode_def)
  have new: "list_all (\<lambda>p. p \<noteq> [] \<and> plainChars p) [''new'']" by (simp add: plainChars_def)
  have q: "CHR ''?'' \<notin> set (showNat k)" for k using word_free [OF number_word(1), of "CHR ''?''"] by simp
  have "newSessionHash None None = ''#/'' @ joinWith ''/'' [''new'']" by (simp add: newSessionHash_def app_simps)
  then show "parseHash (newSessionHash None None) = \<lparr>rtName = ''new-session'', rtParams = []\<rparr>"
    using resolve_path [OF _ new, of appRoutes] by (simp add: parseHash_def appRoutes_def validNewSession_def routeParam_def)
  have "newSessionHash (Some (int n)) None = ''#/'' @ joinWith ''/'' [''new''] @ ''?'' @ (''project'' @ CHR ''='' # showNat n)"
    by (simp add: newSessionHash_def app_simps queryText_def word_form_names numberText_def showInt_def word_form number_word(1))
  then show "parseHash (newSessionHash (Some (int n)) None) = \<lparr>rtName = ''new-session'', rtParams = [(cps ''project'', cps (showNat n))]\<rparr>"
    using resolve_query [OF _ new, of "''project'' @ CHR ''='' # showNat n" appRoutes] new_query(1) [OF w(1) number_word(1), of n] q
    by (simp add: parseHash_def appRoutes_def validNewSession_def routeParam_def number_word(4))
  have "newSessionHash (Some (int n)) (Some (int m)) =
      ''#/'' @ joinWith ''/'' [''new''] @ ''?'' @ (''project'' @ CHR ''='' # showNat n @ CHR ''&'' # ''task'' @ CHR ''='' # showNat m)"
    by (simp add: newSessionHash_def app_simps queryText_def word_form_names numberText_def showInt_def word_form number_word(1))
  then show "parseHash (newSessionHash (Some (int n)) (Some (int m))) =
     \<lparr>rtName = ''new-session'', rtParams = [(cps ''project'', cps (showNat n)), (cps ''task'', cps (showNat m))]\<rparr>"
    using resolve_query [OF _ new, of "''project'' @ CHR ''='' # showNat n @ CHR ''&'' # ''task'' @ CHR ''='' # showNat m" appRoutes]
      new_query(2) [OF w(1) number_word(1) _ w(2) number_word(1), of n m] q
    by (simp add: parseHash_def appRoutes_def validNewSession_def routeParam_def number_word(4))
qed

text \<open>The view a page is of has the field values that its hash was made of.\<close>

definition routeShows :: "appRoute \<Rightarrow> mainView \<Rightarrow> bool" where
  "routeShows r v =
     (if mvKind v = ''project-history''
      then rtName r = ''project-history'' \<and>
           map_option (\<lambda>d. NumberField (of_nat (digitsToNat (map char_of d)))) (routeParam ''projectId'' (rtParams r)) = Some (mvField v ''projectId'')
      else (case viewOfRoute r of
              None \<Rightarrow> False
            | Some w \<Rightarrow>
                mvKind w = mvKind v \<and>
                (if mvKind v = ''session'' then mvField w ''sessionId'' = mvField v ''sessionId''
                 else mvField w ''projectId'' = mvField v ''projectId'' \<and> mvField w ''taskId'' = mvField v ''taskId'')))"

definition goodText :: "viewField \<Rightarrow> bool" where
  "goodText f = (case f of TextField t \<Rightarrow> list_all scalar t | _ \<Rightarrow> True)"

definition goodId :: "viewField \<Rightarrow> bool" where
  "goodId f = (case f of NumberField x \<Rightarrow> 0 \<le> x | _ \<Rightarrow> True)"

lemma whole_number:
  assumes "isIntegerNumber x" "0 \<le> x"
  obtains n where "x = of_nat n" "\<lfloor>x\<rfloor> = int n"
proof -
  have "0 \<le> \<lfloor>x\<rfloor>" using assms(2) by simp
  then obtain n where n: "\<lfloor>x\<rfloor> = int n" by (metis nonneg_int_cases)
  then have "x = of_nat n" using assms(1) by (metis isIntegerNumber_def of_int_of_nat_eq)
  then show thesis using n that by blast
qed

lemma id_cases:
  assumes "optionalId f = Some i" "goodId f"
  shows "(f = NullField \<and> i = None) \<or> (\<exists>n. f = NumberField (of_nat n) \<and> i = Some (int n))"
proof (cases f)
  case (NumberField x)
  then have "isIntegerNumber x" "i = Some \<lfloor>x\<rfloor>" "0 \<le> x" using assms by (simp_all add: optionalId_def goodId_def split: if_splits)
  then show ?thesis using NumberField whole_number by metis
qed (use assms in \<open>simp_all add: optionalId_def\<close>)

lemma id_shown: "idField (Some (cps (showNat n))) = NumberField (of_nat n)" "idField None = NullField"
  using number_word(2) [of n] by (simp_all add: idField_def number_word(3)) (simp add: cps_def)


definition demoView :: mainView where
  "demoView = \<lparr>mvKind = ''session'', mvField = (\<lambda>_. OtherField)(''sessionId'' := TextField [0x61, 0x2F, 0x20AC, 0x3F])\<rparr>"


subsection \<open>Settings\<close>

definition goodPage :: "settingsPage \<Rightarrow> bool" where
  "goodPage p =
     (case p of
        SectionPage s \<Rightarrow> (case s of None \<Rightarrow> True | Some t \<Rightarrow> t \<in> set settingsSections)
      | ExtensionPage e \<Rightarrow> isExtensionName (cps e)
      | DetailsPage e \<Rightarrow> isExtensionName (cps e))"

lemma extension_name: "isExtensionName t \<Longrightarrow> t \<noteq> [] \<and> list_all scalar t"
  by (cases t) (auto simp: isExtensionName_def list_all_iff scalar_def)

lemma section_name: "s \<in> set settingsSections \<Longrightarrow> cps s \<noteq> [] \<and> list_all scalar (cps s) \<and> isSettingsSection (cps s)"
  by (auto simp: isSettingsSection_def settingsSections_def cps_def scalar_def)

lemma settings_pages:
  assumes "goodPage p"
  shows "isSettingsRoute (parseHash (pageHash p))"
proof -
  have e: "list_all (\<lambda>p. p \<noteq> [] \<and> plainChars p) [''settings'', ''extensions'', ''details'']" by (simp add: plainChars_def)
  have enc: "encodeURIComponent t \<noteq> []" "plainChars (encodeURIComponent t)" if "t \<noteq> [] \<and> list_all scalar t" for t
    using that uri_plain by (simp_all add: uri_empty)
  have known: "isSettingsRoute \<lparr>rtName = n, rtParams = ps\<rparr>" if "n \<in> {''settings'', ''settings-section'', ''settings-extension'', ''settings-extension-details''}" for n ps
    using that by (simp add: isSettingsRoute_def)
  show ?thesis
  proof (cases p)
    case (SectionPage s)
    show ?thesis
    proof (cases s)
      case None
      have "pageHash p = ''#/'' @ joinWith ''/'' [''settings'']" by (simp add: SectionPage None pageHash_def settingsHash_def app_simps)
      then show ?thesis using resolve_path [of "[''settings'']" appRoutes] e by (simp add: parseHash_def appRoutes_def known)
    next
      case (Some t)
      have t: "cps t \<noteq> [] \<and> list_all scalar (cps t) \<and> isSettingsSection (cps t)"
        using assms section_name by (simp add: SectionPage Some goodPage_def)
      have "pageHash p = ''#/'' @ joinWith ''/'' [''settings'', encodeURIComponent (cps t)]"
        by (simp add: SectionPage Some pageHash_def settingsHash_def app_simps)
      then show ?thesis using resolve_path [of "[''settings'', encodeURIComponent (cps t)]" appRoutes] e enc t
        by (simp add: parseHash_def appRoutes_def known uri_round routeParam_def orElse_def)
    qed
  next
    case (ExtensionPage x)
    have t: "isExtensionName (cps x)" using assms by (simp add: ExtensionPage goodPage_def)
    have "pageHash p = ''#/'' @ joinWith ''/'' [''settings'', ''extensions'', encodeURIComponent (cps x)]"
      by (simp add: ExtensionPage pageHash_def settingsExtensionHash_def app_simps)
    moreover have "list_all (\<lambda>p. p \<noteq> [] \<and> plainChars p) [''settings'', ''extensions'', encodeURIComponent (cps x)]"
      using e enc [OF extension_name [OF t]] by simp
    ultimately have "parseHash (pageHash p) = firstMatch appRoutes [''settings'', ''extensions'', encodeURIComponent (cps x)] []"
      using resolve_path [of "[''settings'', ''extensions'', encodeURIComponent (cps x)]" appRoutes] by (simp only: parseHash_def) simp
    then show ?thesis using extension_name [OF t] t by (simp add: appRoutes_def known uri_round routeParam_def orElse_def)
  next
    case (DetailsPage x)
    have t: "isExtensionName (cps x)" using assms by (simp add: DetailsPage goodPage_def)
    have "pageHash p = ''#/'' @ joinWith ''/'' [''settings'', ''extensions'', encodeURIComponent (cps x), ''details'']"
      by (simp add: DetailsPage pageHash_def settingsExtensionDetailsHash_def app_simps)
    moreover have "list_all (\<lambda>p. p \<noteq> [] \<and> plainChars p) [''settings'', ''extensions'', encodeURIComponent (cps x), ''details'']"
      using e enc [OF extension_name [OF t]] by simp
    ultimately have "parseHash (pageHash p) = firstMatch appRoutes [''settings'', ''extensions'', encodeURIComponent (cps x), ''details''] []"
      using resolve_path [of "[''settings'', ''extensions'', encodeURIComponent (cps x), ''details'']" appRoutes] by (simp only: parseHash_def) simp
    then show ?thesis using extension_name [OF t] t by (simp add: appRoutes_def known uri_round routeParam_def orElse_def)
  qed
qed

text \<open>While settings are shown they are the last entry of the history, over the entry they were opened from.\<close>

definition settingsOver :: "string list \<Rightarrow> navigation \<Rightarrow> bool" where
  "settingsOver below st =
     (\<exists>h. nvEntries st = below @ [h] \<and> nvAt st = length below \<and> nvReturn st \<noteq> None \<and> isSettingsRoute (parseHash h))"

lemma show_over: "settingsOver below st \<Longrightarrow> goodPage p \<Longrightarrow> settingsOver below (showSettingsPage p st)"
  using settings_pages [of p] by (auto simp: settingsOver_def showSettingsPage_def navigateTo_def handleHashChange_def locationHash_def)

lemma pages_over: "settingsOver below st \<Longrightarrow> list_all goodPage ps \<Longrightarrow> settingsOver below (fold showSettingsPage ps st)"
  by (induction ps arbitrary: st) (simp_all add: show_over)

text \<open>
  C0: settings that were opened from elsewhere close in one step, however many of their pages were shown: the app is where it was, and
  the entries of the history up to there are what they were.
\<close>

theorem settings_close_returns:
  assumes "nvAt st < length (nvEntries st)" "\<not> isSettingsRoute (parseHash (locationHash st))" "goodPage (SectionPage section)" "list_all goodPage pages"
  shows "let st' = closeSettings (fold showSettingsPage pages (openSettings section st)) in
    locationHash st' = locationHash st \<and> nvAt st' = nvAt st \<and> take (Suc (nvAt st')) (nvEntries st') = take (Suc (nvAt st)) (nvEntries st) \<and>
    nvReturn st' = None \<and> nvLast st' = Some (locationHash st) \<and> last (nvApplied st') = parseHash (locationHash st)"
proof -
  let ?below = "take (Suc (nvAt st)) (nvEntries st)"
  have s: "isSettingsRoute (parseHash (settingsHash section))" using settings_pages [OF assms(3)] by (simp add: pageHash_def)
  then have "locationHash st \<noteq> settingsHash section" using assms(2) by metis
  then have "settingsOver ?below (openSettings section st)"
    using s assms(1,2) by (simp add: settingsOver_def openSettings_def navigateTo_def handleHashChange_def locationHash_def)
  then have "settingsOver ?below (fold showSettingsPage pages (openSettings section st))" using pages_over assms(4) by blast
  then obtain st1 h where st1: "st1 = fold showSettingsPage pages (openSettings section st)" "nvEntries st1 = ?below @ [h]"
      "nvAt st1 = length ?below" "nvReturn st1 \<noteq> None" "isSettingsRoute (parseHash h)"
    unfolding settingsOver_def by blast
  have n: "length ?below = Suc (nvAt st)" using assms(1) by simp
  have l: "locationHash st1 = h" using st1(2,3) by (simp only: locationHash_def length_append) (simp add: nth_append del: length_take)
  have c: "closeSettings st1 = handleHashChange (st1\<lparr>nvReturn := None, nvAt := nvAt st\<rparr>)"
    using st1(3-5) n l by (simp add: closeSettings_def historyBack_def)
  have "locationHash (st1\<lparr>nvReturn := None, nvAt := nvAt st\<rparr>) = locationHash st"
    using assms(1) st1(2) by (simp add: locationHash_def nth_append)
  then show ?thesis using c st1(2) n unfolding st1(1) [symmetric]
    by (simp add: Let_def handleHashChange_def locationHash_def)
qed

definition demoNavigation :: navigation where
  "demoNavigation = \<lparr>nvEntries = [''#/new''], nvAt = 0, nvReturn = None, nvLast = None, nvApplied = []\<rparr>"

theorem settings_close_returns_witness:
  "locationHash (closeSettings (fold showSettingsPage [SectionPage (Some ''nodes''), ExtensionPage ''mcp''] (openSettings None demoNavigation))) = ''#/new''"
proof -
  have r: "parseHash (locationHash demoNavigation) = \<lparr>rtName = ''new-session'', rtParams = []\<rparr>"
    using new_page(1) by (simp add: demoNavigation_def locationHash_def newSessionHash_def app_simps)
  have g: "list_all goodPage [SectionPage (Some ''nodes''), ExtensionPage ''mcp'']"
    by (simp add: goodPage_def settingsSections_def isExtensionName_def cps_def)
  have l: "locationHash demoNavigation = ''#/new''" by (simp add: demoNavigation_def locationHash_def)
  have "nvAt demoNavigation < length (nvEntries demoNavigation)" "\<not> isSettingsRoute (parseHash (locationHash demoNavigation))" "goodPage (SectionPage None)"
    using r by (simp_all add: demoNavigation_def isSettingsRoute_def goodPage_def)
  from settings_close_returns [OF this g] show ?thesis by (simp only: Let_def l)
qed

end
