(* ===== verification/Spec2Isabelle.thy ===== *)
theory Spec2Isabelle
  imports Reins_Prelude Chat_State Message_View Session_Cache Conversations Conversation_Laws Store_Laws
    Diff_Parser Diff_Laws Code_Review Review_Laws Review_Store_Laws Ndjson_Socket Ndjson_Laws Rpc_Peer
    Rpc_Laws Node_Streams Stream_Laws Stream_Sender Web_Socket_Link Node_Connection Link_Laws Node_Hub
    Hub_Laws Session_Runs Session_Run_Laws Live_Runtimes Live_Laws Sendable_Events Command_Segments
    Entry_Laws Message_Store Page_Laws Patch_Laws Reverse_Patch Session_Entries Session_Pages Pi_Storage
    Storage_Laws Automation_Laws Automation_Store Automations Process_Supervisor Supervisor_Laws
    Catalog_Admin Catalog_Laws Catalog_Tables Chain_Laws Checkout_Paths Path_Laws Session_Catalog
    Session_Laws Skill_Text Submission_Chain Call_Laws Command_Laws List_Geometry_Laws Node_Calls
    Node_Commands Virtual_List Diff_Store Diff_Store_Laws Image_Headers Image_Laws Mcp_Connections Mcp_Laws
    Attachment_Laws Attachments App_Routes Client_Laws Route_Laws Web_Client
begin

text \<open>
  Reins runs coding agents: a server keeps sessions and their transcripts, browsers follow them live over a
  WebSocket, and nodes, on the machines that hold the sources, run the commands and read the files a
  session needs. This development models the parts that carry that: what a browser shows of a session,
  code reviews from the diff to the feedback a session is sent, and the link between server and node from
  its bytes to its streams and to the connection that carries it, and how a server runs sessions and
  accounts for their runs.

  \<^bold>\<open>The browser's conversation\<close> (\<^verbatim>\<open>packages/frontend/src/models\<close>).
  \<^item> \<open>Chat_State\<close>: the reducer of \<^verbatim>\<open>chat-state.ts\<close>. \<open>chatState\<close> is its state and \<open>applyChatEvent\<close> its
    \<open>switch\<close>; overlays are \<open>streamingAssistant\<close>, live tool state is \<open>toolExecution\<close>.
  \<^item> \<open>Message_View\<close>: \<^verbatim>\<open>message.ts\<close>, the display messages built from entries (\<open>buildMessages\<close>) and overlays
    (\<open>buildStreamingMessages\<close>), and live tool state shown over them (\<open>applyToolExecutions\<close>), against a
    reference that rebuilds every message.
  \<^item> \<open>Session_Cache\<close>: \<^verbatim>\<open>stores/session-cache.ts\<close>. \<open>Conversations\<close>: \<^verbatim>\<open>stores/conversations-store.ts\<close>, its
    states, sequence numbers, views, listeners and pending frames in \<open>conversationsStore\<close>, one definition per method,
    all of them under \<open>storeStep\<close>. \<open>Conversation_Laws\<close> shows that the transcript is independent of
    delivery; \<open>Store_Laws\<close> the invariant of every operation, what a browser shows after missing events,
    that changes are announced and that memoized views are current.
  \<^item> \<open>Virtual_List\<close>: \<^verbatim>\<open>virtual-list-coordinator.ts\<close>, the geometry of a long list, over exact numbers; \<open>List_Geometry_Laws\<close>: what
    its searches render is exact, and what is read stays in place.
  \<^item> \<open>Web_Client\<close>: \<^verbatim>\<open>ws-client.ts\<close>, the browser's WebSocket, its heartbeat and reconnections (\<open>clientStep\<close>); \<open>Client_Laws\<close>: one feed of events.
  \<^item> \<open>App_Routes\<close>: \<^verbatim>\<open>routing/router.ts\<close> and \<^verbatim>\<open>app-router.ts\<close>, hashes with their escapes, the app's routes, and opening and closing settings
    over the browser's history; \<open>Route_Laws\<close>: hashes lead back to their views, and closing settings to where they were opened.
  \<^item> \<open>Diff_Store\<close>: \<^verbatim>\<open>stores/diff-store.ts\<close> with \<^verbatim>\<open>helpers/loadable.ts\<close>, a session's changes and their sync with the remote. Requests in
    flight are part of its state and are answered in any order (\<open>diffStep\<close>); \<open>Diff_Store_Laws\<close>: what is shown is of what is viewed.

  \<^bold>\<open>Code reviews\<close> (\<^verbatim>\<open>packages/backend/src\<close>).
  \<^item> \<open>Diff_Parser\<close>: \<^verbatim>\<open>models/diff-parser.ts\<close> and \<^verbatim>\<open>models/review-diff-anchor.ts\<close>; \<open>Diff_Laws\<close> has the round
    trips of a diff and of git's summary, line numbers, and what an anchor holds.
  \<^item> \<open>Code_Review\<close>: \<^verbatim>\<open>models/code-review.ts\<close>, the table of \<^verbatim>\<open>code-review-store.ts\<close> (\<open>reviewDb\<close>), the commands of
    \<^verbatim>\<open>models/code-reviews.ts\<close> (transactions as a function of the table that may fail) and
    \<^verbatim>\<open>models/code-review-submission.ts\<close>, whose submission is two steps with anything in between.
    \<open>Review_Laws\<close> is about one review; \<open>Review_Store_Laws\<close> about the table, whose saves by revision are the locale
    \<open>versioned_store\<close>, interpreted on it.

  \<^bold>\<open>The link to a node\<close> (\<^verbatim>\<open>packages/node-protocol/src\<close>, \<^verbatim>\<open>packages/node/src\<close>, \<^verbatim>\<open>packages/backend/src/nodes\<close>).
  \<^item> \<open>Ndjson_Socket\<close>: \<^verbatim>\<open>local-socket.ts\<close> over bytes of type \<open>8 word\<close>, with UTF-8; \<open>Ndjson_Laws\<close> shows that frames arrive
    however writes and chunks are cut. The codec is the locale \<open>frame_codec\<close>, interpreted by UTF-8.
  \<^item> \<open>Rpc_Peer\<close>: the JSON-RPC peer of \<^verbatim>\<open>rpc.ts\<close>; an operation returns what it did as events. \<open>Rpc_Laws\<close>: its bounds,
    that a call settles once, that closing is final and what the heartbeat allows.
  \<^item> \<open>Node_Streams\<close>: the sender of \<^verbatim>\<open>node-connection/streams.ts\<close> (\<open>pumpFrames\<close>) and the registry of
    \<^verbatim>\<open>nodes/node-streams.ts\<close> (\<open>registryStep\<close>), with base64 and the decoder of a text stream. \<open>Stream_Laws\<close>: what the consumer
    of a stream gets. \<open>Stream_Sender\<close> has the table of a connection's open streams (\<open>createStreamSender\<close>).
  \<^item> \<open>Web_Socket_Link\<close>: the queue of \<^verbatim>\<open>websocket-link.ts\<close> over what a WebSocket takes.
  \<^item> \<open>Node_Connection\<close>: \<^verbatim>\<open>node-connection.ts\<close>, the redial state machine of a node, as the relation \<open>linkStep\<close> whose
    events are the callbacks of dials, connections, timers and updates; \<open>Link_Laws\<close> shows that it makes one attempt at a
    time, is never stuck and stops for good, and bounds its backoff.
  \<^item> \<open>Node_Hub\<close>: \<^verbatim>\<open>server-peer.ts\<close> (who authenticates, \<open>checkHello\<close>, \<open>finishHello\<close>) and \<^verbatim>\<open>node-hub.ts\<close>, the links of the
    server (\<open>hubStep\<close>); \<open>Hub_Laws\<close> shows that a node has one link, who is served, and that the two ends agree.
  \<^item> \<open>Node_Calls\<close>: \<^verbatim>\<open>nodes/node-dir-client.ts\<close> with the chunks of \<^verbatim>\<open>node/src/files.ts\<close>: how a call is sent again (\<open>callOnNode\<close>, over
    what each attempt answered and when) and a file written in chunks through both ends (\<open>writeFileFrom\<close>, \<open>nodeWrite\<close>). \<open>Call_Laws\<close>:
    what is not safe to repeat runs at most once, and a file is at its path whole or not at all.
  \<^item> \<open>Node_Commands\<close>: \<^verbatim>\<open>node/src/pi-exec.ts\<close> and the server's \<open>runExec\<close>: the records a node keeps of a command, its streams and the
    loop that reads and attaches again, all under \<open>commandStep\<close>. Drops, other servers, aborts and the node's forgetting are events,
    and \<open>width\<close> is the length of a record. \<open>Command_Laws\<close>: the output shown is the command's, and when its exit arrives or is lost.

  \<^bold>\<open>Sessions\<close> (\<^verbatim>\<open>packages/backend/src\<close>).
  \<^item> \<open>Session_Runs\<close>: \<^verbatim>\<open>sessions/session-runs.ts\<close> with the rows of \<^verbatim>\<open>pi/run-state.ts\<close> it reads. The tables are \<open>runTables\<close>, a
    settlement is a function of them that may throw and that returns its effects; a wait is its looks in order.
    \<open>Session_Run_Laws\<close>: what a settlement leaves, what interruption leaves pending, the budget of automatic resumes.
  \<^item> \<open>Message_Store\<close>: \<^verbatim>\<open>messages-store.ts\<close>, the transcript as a table of rows: display pages and their cursors, and the
    active branch; \<open>Session_Pages\<close>: the page a browser gets (\<^verbatim>\<open>models/sessions.ts\<close>) and its route; \<open>Skill_Text\<close>: the skill
    blocks of a message (\<^verbatim>\<open>models/skill.ts\<close>).
    \<open>Page_Laws\<close> shows that following the cursors back gives the whole transcript and that the browser's sync
    (\<open>syncPage\<close> of \<open>Conversations\<close>) catches up, whatever the limit. \<open>Session_Entries\<close> has the timeline scripts list, and
    \<open>Entry_Laws\<close> how results join their calls and what a limit keeps.
  \<^item> \<open>Pi_Storage\<close>: \<^verbatim>\<open>pi-storage.ts\<close>, the only writer of those rows: commits (\<open>applyCommit\<close>, a function of the tables that may
    throw), every read and the adapter's queue. \<open>Storage_Laws\<close>: what every history leaves in the tables, that a commit is all or nothing,
    that a branch read only as far as needed is the branch, and that closing settles what was accepted.
  \<^item> \<open>Live_Runtimes\<close>: \<^verbatim>\<open>session-runtime/live.ts\<close>, openings and live runtimes (\<open>liveStep\<close>); \<open>Live_Laws\<close>: one runtime per session.
  \<^item> \<open>Sendable_Events\<close>: \<^verbatim>\<open>session-runtime/events.ts\<close>, what of an event browsers are sent.
  \<^item> \<open>Command_Segments\<close>: \<^verbatim>\<open>models/tools/bash-command-parser.ts\<close> of the browser, highlighted commands.
  \<^item> \<open>Reverse_Patch\<close>: \<^verbatim>\<open>models/changes/patch.ts\<close> of the browser, which undoes a file's patch to show the lines around a
    change; \<open>Patch_Laws\<close>: undoing what Git writes gives the old file, and what is shown was checked.

  \<^bold>\<open>The server's catalog\<close> (\<^verbatim>\<open>packages/backend/src\<close>): what there is of nodes, sources, projects, tasks and sessions.
  \<^item> \<open>Catalog_Tables\<close>: the tables of \<^verbatim>\<open>node-store.ts\<close>, \<^verbatim>\<open>project-store.ts\<close>, \<^verbatim>\<open>task-store.ts\<close> and \<^verbatim>\<open>session-store.ts\<close> with
    their constraints (\<open>catalog\<close>, \<open>dbError\<close>). \<open>Session_Catalog\<close>: sessions over them and over the process's live ones
    (\<open>serverState\<close>): lists, activity, creation (\<^verbatim>\<open>sessions/create-session.ts\<close>), moves, models and sources. \<open>Catalog_Admin\<close>:
    tasks, projects, nodes and pairing codes (\<^verbatim>\<open>models/tasks.ts\<close>, \<^verbatim>\<open>projects.ts\<close>, \<^verbatim>\<open>node.ts\<close>, \<^verbatim>\<open>node-pairing.ts\<close>).
    An operation that awaits takes what happens meanwhile as a function of the state (\<open>later\<close>, \<open>closing\<close>); a \<open>catalogOp\<close> carries
    lists of operations for its waits, so a list of them is every interleaving. \<open>Catalog_Laws\<close> has the locale \<open>catalog_relation\<close>:
    a relation that each statement on the tables respects holds across any list of operations. It is interpreted for
    integrity and for what is final; \<open>Session_Laws\<close> has what follows, and what creation, deletion, moves and activity do.
  \<^item> \<open>Submission_Chain\<close>: \<open>submitToSession\<close> and the promise chains of \<^verbatim>\<open>models/sessions.ts\<close> as a step relation; \<open>Chain_Laws\<close>:
    their order, that a session is busy until they are through and that they drain.
  \<^item> \<open>Checkout_Paths\<close>: paths, listings and uploads of \<^verbatim>\<open>models/sources.ts\<close>; \<open>Path_Laws\<close>: what stays inside a checkout.

  \<^bold>\<open>Around sessions\<close> (\<^verbatim>\<open>packages/backend/src\<close>).
  \<^item> \<open>Automation_Store\<close> and \<open>Automations\<close>: \<^verbatim>\<open>extensions/automations\<close>, its tables, schedules, ticks, command checks, deliveries and
    settlements. A task is a function of a world that holds the answers it will get (\<open>awaits\<close>), each with the calls that came meanwhile,
    so that a property over every world is one over every interleaving. \<open>Automation_Laws\<close>: what every action keeps follows in the locale
    \<open>automation_property\<close> from what the store's operations keep, interpreted for the tables and for cancelled automations; how
    output is quoted, when an automation is next due and what a settlement ends.
  \<^item> \<open>Process_Supervisor\<close>: \<^verbatim>\<open>supervisor.ts\<close>; \<open>Supervisor_Laws\<close>: one process per service, none forgotten, backoff and shutdown.
  \<^item> \<open>Mcp_Connections\<close>: \<^verbatim>\<open>extensions/mcp/connections.ts\<close>, the connection to one remote tool server that its calls share; every await of
    a call (\<open>callPhase\<close>) or an opening (\<open>openStage\<close>) ends with an event of \<open>mcpStep\<close>. A closed app keeps the entry that the code forgets.
    \<open>Mcp_Laws\<close>: one client per server, when an unused one is closed, and three histories that end otherwise than meant.
  \<^item> \<open>Image_Headers\<close>: \<^verbatim>\<open>models/uploaded-file.ts\<close>, the sizes of PNG, JPEG, GIF and WebP images from their bytes; a read outside them is \<open>None\<close>.
    \<open>Image_Laws\<close>: there is none, what sizes are answered, and that a JPEG's is the one of its frame.
  \<^item> \<open>Attachments\<close>: \<^verbatim>\<open>session-attachments-store.ts\<close>, \<^verbatim>\<open>session-runtime/attachments.ts\<close> and \<^verbatim>\<open>tool-images.ts\<close>, the table of images, what a
    prompt refers to, and the cache from which it is hydrated. \<open>Attachment_Laws\<close>, over every history of uploads, tools, reads and
    pruning (which the table allows for): what is stored is read back, and an admitted prompt keeps its images.

  \<^bold>\<open>Conventions.\<close> \<open>Reins_Prelude\<close> has what they share: a JavaScript \<open>Map\<close> is an association list in
  insertion order (\<open>jmSet\<close>, \<open>jmDelete\<close>), a text a \<open>string\<close> or, where its encoding matters, a list of code
  points, JSON a datatype. Errors thrown are values of a sum or an option; promises and timers are operations of
  their own, so that a property over every list of operations is about every order the event loop may take. No
  definition uses fuel: loops are structural recursion or \<open>function\<close> with a measure on what is left to read.

  \<^bold>\<open>Parameters.\<close> The text of a cursor and of a message that is searched, the zod schemas and \<open>JSON.parse\<close> of a peer, \<open>localeCompare\<close> of entry ids, SHA-256,
  \<open>partial-json\<close>, base64 and what git, SQLite and the session runtime answer are arguments or inputs; a property that
  relies on them says so (schemas that read back what they return, a comparison that is a linear order, a digest that is injective).

  \<^bold>\<open>Not modelled\<close>: the components and styling of the user interface, HTTP routes, migrations, the
  extension SDK and its host, git, reads of files, node installation, the command line, the desktop shell and
  telemetry: they are input and output around the parts above, or hand the work to libraries. The
  adapter around Pi is nearly all calls of that library; of the catalog the palette and location lists and diff
  statistics are left out, and of images resizing and the search for them inside a tool's value. Transports and OAuth of
  remote tool servers are the SDK's.
\<close>

end
